(* ===== verification/Prelude.thy ===== *)
theory Prelude
  imports Main "HOL-Library.Word"
begin

unbundle bit_operations_syntax

text \<open>
  Shared vocabulary of the development: the Python exceptions the simulator can raise, the two
  small monads its methods are written in, Python's integer operations, and the generic lemmas
  the component theories use.

  A method that only updates its object is a function into \<open>'a result\<close>; a method that also
  returns a value, or that runs on the whole machine state, is an \<open>action\<close>: a function from the
  state to an exception or to a pair of the value and the new state.  \<open>returns r Q\<close> says that
  \<open>r\<close> is not an exception and that its value satisfies \<open>Q\<close>; it is the total-correctness
  judgement in which the component theorems are stated, and it is executable.
\<close>

section \<open>Exceptions, results and actions\<close>

datatype py_error =
    AssertionError
  | RuntimeError
  | ValueError
  | IndexError
  | KeyError
  | UnboundLocalError
  | AttributeError
  | TypeError
  | OverflowError
  | ZeroDivisionError
  | DecodeError string

type_synonym 'a result = "py_error + 'a"
type_synonym ('s, 'a) action = "'s \<Rightarrow> ('a \<times> 's) result"

definition bindR :: "'a result \<Rightarrow> ('a \<Rightarrow> 'b result) \<Rightarrow> 'b result" where
  "bindR m f = (case m of Inl e \<Rightarrow> Inl e | Inr x \<Rightarrow> f x)"

definition require :: "bool \<Rightarrow> 'a result \<Rightarrow> 'a result" where
  "require c k = (if c then k else Inl AssertionError)"

definition returns :: "'a result \<Rightarrow> ('a \<Rightarrow> bool) \<Rightarrow> bool" where
  "returns m Q = (case m of Inl e \<Rightarrow> False | Inr x \<Rightarrow> Q x)"

definition bindS :: "('s, 'a) action \<Rightarrow> ('a \<Rightarrow> ('s, 'b) action) \<Rightarrow> ('s, 'b) action" where
  "bindS m f = (\<lambda>s. case m s of Inl e \<Rightarrow> Inl e | Inr (x, s') \<Rightarrow> f x s')"

definition retS :: "'a \<Rightarrow> ('s, 'a) action" where
  "retS x = (\<lambda>s. Inr (x, s))"

definition raiseS :: "py_error \<Rightarrow> ('s, 'a) action" where
  "raiseS e = (\<lambda>s. Inl e)"

definition assertS :: "bool \<Rightarrow> ('s, unit) action" where
  "assertS c = (if c then retS () else raiseS AssertionError)"

definition liftS :: "'a result \<Rightarrow> ('s, 'a) action" where
  "liftS r = (\<lambda>s. case r of Inl e \<Rightarrow> Inl e | Inr x \<Rightarrow> Inr (x, s))"

definition getS :: "('s \<Rightarrow> 'a) \<Rightarrow> ('s, 'a) action" where
  "getS f = (\<lambda>s. Inr (f s, s))"

definition modifyS :: "('s \<Rightarrow> 's) \<Rightarrow> ('s, unit) action" where
  "modifyS f = (\<lambda>s. Inr ((), f s))"

named_theorems result_simps \<open>evaluation of results and actions\<close>

lemma bindR_simps [result_simps, simp]:
  "bindR (Inr x) f = f x"
  "bindR (Inl e) f = Inl e"
  by (simp_all add: bindR_def)

lemma require_simps [result_simps, simp]:
  "c \<Longrightarrow> require c k = k"
  "\<not> c \<Longrightarrow> require c k = Inl AssertionError"
  by (simp_all add: require_def)

lemma returns_simps [result_simps, simp]:
  "returns (Inr x) Q = Q x"
  "returns (Inl e) Q = False"
  by (simp_all add: returns_def)

lemma returns_bindR [result_simps]:
  "returns (bindR m f) Q = returns m (\<lambda>x. returns (f x) Q)"
  by (cases m) simp_all

lemma returns_require [result_simps]:
  "returns (require c k) Q = (c \<and> returns k Q)"
  by (cases c) simp_all

lemma returns_if [result_simps]:
  "returns (if c then m else m') Q = (if c then returns m Q else returns m' Q)"
  by simp

lemma returns_bindS [result_simps]:
  "returns (bindS m f s) Q = returns (m s) (\<lambda>(x, s'). returns (f x s') Q)"
  by (cases "m s") (auto simp: bindS_def)

lemma returns_liftS [result_simps]:
  "returns (liftS r s) Q = returns r (\<lambda>x. Q (x, s))"
  by (cases r) (auto simp: liftS_def)

lemma retS_apply [result_simps, simp]: "retS x s = Inr (x, s)"
  by (simp add: retS_def)

lemma raiseS_apply [result_simps, simp]: "raiseS e s = Inl e"
  by (simp add: raiseS_def)

lemma getS_apply [result_simps, simp]: "getS f s = Inr (f s, s)"
  by (simp add: getS_def)

lemma modifyS_apply [result_simps, simp]: "modifyS f s = Inr ((), f s)"
  by (simp add: modifyS_def)

lemma assertS_apply [result_simps]:
  "assertS c s = (if c then Inr ((), s) else Inl AssertionError)"
  by (simp add: assertS_def)

lemma returns_assertS [result_simps]:
  "returns (assertS c s) Q = (c \<and> Q ((), s))"
  by (simp add: assertS_apply)

lemma returns_mono:
  "returns m Q \<Longrightarrow> (\<And>x. Q x \<Longrightarrow> Q' x) \<Longrightarrow> returns m Q'"
  by (cases m) auto

lemma returns_bindRI:
  "returns m P \<Longrightarrow> (\<And>x. P x \<Longrightarrow> returns (f x) Q) \<Longrightarrow> returns (bindR m f) Q"
  by (cases m) auto

lemma returns_bindSI:
  "returns (m s) P \<Longrightarrow> (\<And>x s'. P (x, s') \<Longrightarrow> returns (f x s') Q) \<Longrightarrow> returns (bindS m f s) Q"
  by (cases "m s") (auto simp: bindS_def)

lemma returnsE:
  assumes "returns m Q"
  obtains x where "m = Inr x" and "Q x"
  using assms by (cases m) auto

lemma returns_iff: "returns m Q \<longleftrightarrow> (\<exists>x. m = Inr x \<and> Q x)"
  by (cases m) auto

lemma returns_conj:
  "returns m P \<Longrightarrow> returns m Q \<Longrightarrow> returns m (\<lambda>x. P x \<and> Q x)"
  by (cases m) auto

lemma if_Inl_iff: "(if c then Inl e else k) = Inr y \<longleftrightarrow> \<not> c \<and> k = Inr y"
  by simp

lemma bindR_Inr_iff:
  "bindR m f = Inr y \<longleftrightarrow> (\<exists>x. m = Inr x \<and> f x = Inr y)"
  by (cases m) auto

lemma require_Inr_iff: "require c k = Inr y \<longleftrightarrow> c \<and> k = Inr y"
  by (cases c) auto

lemma bindS_Inr_iff:
  "bindS m f s = Inr y \<longleftrightarrow> (\<exists>x s'. m s = Inr (x, s') \<and> f x s' = Inr y)"
  by (cases "m s") (auto simp: bindS_def)

section \<open>Python integers\<close>

text \<open>
  Python integers are unbounded, so they are \<open>int\<close>.  \<open>low_mask n\<close> is the expression
  \<^verbatim>\<open>(1 << n) - 1\<close> the source writes for a field mask, and \<open>fits n v\<close> is the range check
  \<^verbatim>\<open>0 <= v < (1 << n)\<close> that guards every register write.  Shifting by a negative count raises
  \<^verbatim>\<open>ValueError\<close>.
\<close>

definition low_mask :: "nat \<Rightarrow> int" where
  "low_mask n = push_bit n 1 - 1"

definition fits :: "nat \<Rightarrow> int \<Rightarrow> bool" where
  "fits n v \<longleftrightarrow> 0 \<le> v \<and> v < push_bit n 1"

definition py_lshift :: "int \<Rightarrow> int \<Rightarrow> int result" where
  "py_lshift x n = (if n < 0 then Inl ValueError else Inr (push_bit (nat n) x))"

definition py_rshift :: "int \<Rightarrow> int \<Rightarrow> int result" where
  "py_rshift x n = (if n < 0 then Inl ValueError else Inr (drop_bit (nat n) x))"

text \<open>Python's truth value of an integer, and \<^verbatim>\<open>int(b)\<close> of a boolean.\<close>

definition py_bool :: "int \<Rightarrow> bool" where
  "py_bool x \<longleftrightarrow> x \<noteq> 0"

definition py_int :: "bool \<Rightarrow> int" where
  "py_int b = (if b then 1 else 0)"

text \<open>Indexing a Python list: an index counts from the end when it is negative.\<close>

definition py_index :: "nat \<Rightarrow> int \<Rightarrow> nat result" where
  "py_index n i =
     (if 0 \<le> i \<and> i < int n then Inr (nat i)
      else if i < 0 \<and> - int n \<le> i then Inr (nat (int n + i))
      else Inl IndexError)"

definition py_getitem :: "'a list \<Rightarrow> int \<Rightarrow> 'a result" where
  "py_getitem xs i = bindR (py_index (length xs) i) (\<lambda>k. Inr (xs ! k))"

definition py_setitem :: "'a list \<Rightarrow> int \<Rightarrow> 'a \<Rightarrow> 'a list result" where
  "py_setitem xs i v = bindR (py_index (length xs) i) (\<lambda>k. Inr (xs[k := v]))"

lemma py_getitem_ok [simp]: "0 \<le> i \<Longrightarrow> i < int (length xs) \<Longrightarrow> py_getitem xs i = Inr (xs ! nat i)"
  by (simp add: py_getitem_def py_index_def)

lemma py_setitem_ok [simp]:
  "0 \<le> i \<Longrightarrow> i < int (length xs) \<Longrightarrow> py_setitem xs i v = Inr (xs[nat i := v])"
  by (simp add: py_setitem_def py_index_def)

named_theorems fits_intros \<open>range facts of Python integer expressions\<close>

lemma fits_iff: "fits n v \<longleftrightarrow> 0 \<le> v \<and> v < 2 ^ n"
  by (simp add: fits_def push_bit_eq_mult)

lemma low_mask_eq: "low_mask n = 2 ^ n - 1"
  by (simp add: low_mask_def push_bit_eq_mult)

lemma and_low_mask: "x AND low_mask n = take_bit n x"
  by (simp add: low_mask_eq take_bit_eq_mask mask_eq_exp_minus_1)

lemma and_low_mask_mod: "x AND low_mask n = x mod 2 ^ n"
  by (simp add: and_low_mask take_bit_eq_mod)

lemma fits_and_low_mask [fits_intros, simp]: "fits n (x AND low_mask n)"
  by (simp add: fits_iff and_low_mask)

lemma fits_take_bit [fits_intros, simp]: "fits n (take_bit n x)"
  by (simp add: fits_iff)

lemma fits_zero [fits_intros, simp]: "fits n 0"
  by (simp add: fits_iff)

lemma fits_and [fits_intros]: "fits n x \<Longrightarrow> 0 \<le> y \<Longrightarrow> fits n (x AND y)"
  by (auto simp: fits_iff AND_lower intro: order_le_less_trans [OF AND_upper1])

lemma fits_or [fits_intros]: "fits n x \<Longrightarrow> fits n y \<Longrightarrow> fits n (x OR y)"
  by (simp add: fits_iff OR_lower OR_upper)

lemma fits_xor [fits_intros]: "fits n x \<Longrightarrow> fits n y \<Longrightarrow> fits n (x XOR y)"
  by (simp add: fits_iff XOR_lower XOR_upper)

lemma fits_low_mask [fits_intros, simp]: "fits n (low_mask n)"
  by (simp add: fits_iff low_mask_eq)

lemma fits_nonneg: "fits n x \<Longrightarrow> 0 \<le> x"
  by (simp add: fits_iff)

lemma fits_mono: "fits m x \<Longrightarrow> m \<le> n \<Longrightarrow> fits n x"
  unfolding fits_iff
  by (metis one_le_numeral order_less_le_trans power_increasing)

lemma fits_drop_bit [fits_intros]:
  assumes "fits n x"
  shows "fits n (drop_bit k x)"
proof -
  have "x div 2 ^ k \<le> x"
    using assms int_div_le_self [of x "2 ^ k"] by (cases "x = 0") (auto simp: fits_iff)
  then show ?thesis
    using assms by (auto simp: fits_iff drop_bit_eq_div pos_imp_zdiv_nonneg_iff)
qed


section \<open>Bits of Python integers\<close>

lemma py_bool_and_one: "py_bool (x AND 1) = odd x"
  by (simp add: py_bool_def and_one_eq odd_iff_mod_2_eq_one)

lemma py_bool_bit: "py_bool (drop_bit k x AND 1) = bit x k"
  by (simp add: py_bool_and_one bit_iff_odd_drop_bit)

lemma py_int_of_bool: "py_int b = of_bool b"
  by (simp add: py_int_def)

text \<open>The low four bits of an integer, spelled out.\<close>

lemma take_bit_4_eq:
  "take_bit 4 (v :: int) =
     of_bool (bit v 0) + 2 * of_bool (bit v 1) + 4 * of_bool (bit v 2) + 8 * of_bool (bit v 3)"
proof -
  have d: "v div 2 div 2 = v div 4" "v div 4 div 2 = v div 8"
    using zdiv_zmult2_eq [of 2 v 2] zdiv_zmult2_eq [of 2 v 4] by simp_all
  have b: "of_bool (bit v n) = v div 2 ^ n mod 2" for n
    by (simp only: bit_iff_odd of_bool_odd_eq_mod_2)
  have "take_bit (Suc (Suc (Suc (Suc 0)))) v =
    v mod 2 + 2 * (v div 2 mod 2) + 4 * (v div 4 mod 2) + 8 * (v div 8 mod 2)"
    unfolding take_bit_Suc take_bit_0 d by (simp only: algebra_simps)
  moreover have "Suc (Suc (Suc (Suc 0))) = 4" by simp
  moreover have "v div 2 ^ 0 = v" "v div 2 ^ 1 = v div 2" "v div 2 ^ 2 = v div 4"
    "v div 2 ^ 3 = v div 8" by simp_all
  ultimately show ?thesis
    by (simp only: b)
qed

text \<open>Putting a field above one that fits below it is an addition.\<close>

lemma or_push_bit_add:
  assumes "fits n x"
  shows "push_bit n y OR x = push_bit n y + x"
proof -
  have "push_bit n y AND take_bit n x = 0" by (rule bit_eqI) (auto simp: bit_simps)
  moreover have "take_bit n x = x" using assms by (simp add: fits_iff take_bit_int_eq_self)
  ultimately show ?thesis by (simp add: disjunctive_add_eq_or)
qed

lemma fits_take_bit_eq: "fits n x \<Longrightarrow> take_bit n x = x"
  by (simp add: fits_iff take_bit_int_eq_self)

lemma bit_low_mask [simp]: "bit (low_mask n) k \<longleftrightarrow> k < n"
  by (simp add: low_mask_eq flip: mask_eq_exp_minus_1) (simp add: bit_mask_iff)

lemma fits_iff_drop: "fits n v \<longleftrightarrow> 0 \<le> v \<and> \<not> py_bool (drop_bit n v)"
  by (auto simp: fits_iff py_bool_def drop_bit_eq_div zdiv_eq_0_iff)

end
