(* ===== verification/Staging.thy ===== *)
theory Staging
  imports Prelude
begin

text \<open>
  The protocol shared by every stateful component of the simulator.  An executing instruction
  never changes architectural state at once: it stages its writes, and at the end of the cycle
  the component is told either to commit them or to abort them.  The locale \<open>staged\<close> states
  what a client (the machine state, and through it the step function of the simulator) relies on:

  \<^item> \<open>cur\<close> is the architectural value, the one reads see; \<open>pend\<close> is the value the component
    would have after a commit;
  \<^item> \<open>quiet\<close> holds when nothing is staged, \<open>ready\<close> when the component has seen no error
    (committing after an error is an assertion failure in the source);
  \<^item> \<open>commit\<close> makes \<open>pend\<close> the architectural value, \<open>abort\<close> restores quietness without
    touching the architectural value, and neither raises.

  It is interpreted on the registers, the register files with the call stack, the flag groups,
  the wide status registers, the external registers and the data memory (all as
  \<open>staged_component\<close>), in the theories of those components, and on the machine state as a whole.
\<close>

locale staged =
  fixes inv :: "'s \<Rightarrow> bool"
    and ready :: "'s \<Rightarrow> bool"
    and quiet :: "'s \<Rightarrow> bool"
    and cur :: "'s \<Rightarrow> 'v"
    and pend :: "'s \<Rightarrow> 'v"
    and commit :: "'s \<Rightarrow> 's result"
    and abort :: "'s \<Rightarrow> 's result"
  assumes commit_law: "inv s \<Longrightarrow> ready s \<Longrightarrow>
      returns (commit s) (\<lambda>s'. inv s' \<and> quiet s' \<and> cur s' = pend s)"
    and abort_law: "inv s \<Longrightarrow>
      returns (abort s) (\<lambda>s'. inv s' \<and> quiet s' \<and> cur s' = cur s)"
begin

lemma abort_keeps:
  "inv s \<Longrightarrow> cur s = v \<Longrightarrow> returns (abort s) (\<lambda>s'. inv s' \<and> quiet s' \<and> cur s' = v)"
  using abort_law [of s] by simp

lemma commit_then_abort:
  "inv s \<Longrightarrow> ready s \<Longrightarrow>
   returns (bindR (commit s) abort) (\<lambda>s'. inv s' \<and> quiet s' \<and> cur s' = pend s)"
  by (rule returns_bindRI [OF commit_law])
    (auto intro: abort_keeps)

lemma commit_inv: "inv s \<Longrightarrow> ready s \<Longrightarrow> commit s = Inr s' \<Longrightarrow> inv s'"
  using commit_law by fastforce

lemma commit_cur: "inv s \<Longrightarrow> ready s \<Longrightarrow> commit s = Inr s' \<Longrightarrow> cur s' = pend s"
  using commit_law by fastforce

lemma commit_becomes_quiet: "inv s \<Longrightarrow> ready s \<Longrightarrow> commit s = Inr s' \<Longrightarrow> quiet s'"
  using commit_law by fastforce

lemma abort_inv: "inv s \<Longrightarrow> abort s = Inr s' \<Longrightarrow> inv s'"
  using abort_law by fastforce

lemma abort_cur: "inv s \<Longrightarrow> abort s = Inr s' \<Longrightarrow> cur s' = cur s"
  using abort_law by fastforce

lemma abort_becomes_quiet: "inv s \<Longrightarrow> abort s = Inr s' \<Longrightarrow> quiet s'"
  using abort_law by fastforce

end

text \<open>
  The components keep no error of their own past an abort, so a quiet component can be committed.
  (The machine state as a whole is only \<open>staged\<close>: its error bits survive the abort, and a commit
  with nothing staged still advances the program counter.)
\<close>

locale staged_component = staged inv ready quiet cur pend commit abort
  for inv :: "'s \<Rightarrow> bool"
    and ready :: "'s \<Rightarrow> bool"
    and quiet :: "'s \<Rightarrow> bool"
    and cur :: "'s \<Rightarrow> 'v"
    and pend :: "'s \<Rightarrow> 'v"
    and commit :: "'s \<Rightarrow> 's result"
    and abort :: "'s \<Rightarrow> 's result" +
  assumes quiet_pend: "inv s \<Longrightarrow> quiet s \<Longrightarrow> pend s = cur s"
    and quiet_ready: "inv s \<Longrightarrow> quiet s \<Longrightarrow> ready s"
begin

lemma commit_quiet:
  "inv s \<Longrightarrow> quiet s \<Longrightarrow> cur s = v \<Longrightarrow>
   returns (commit s) (\<lambda>s'. inv s' \<and> quiet s' \<and> cur s' = v)"
  using commit_law [of s] quiet_ready [of s] quiet_pend [of s] by simp

lemma abort_then_commit:
  "inv s \<Longrightarrow>
   returns (bindR (abort s) commit) (\<lambda>s'. inv s' \<and> quiet s' \<and> cur s' = cur s)"
  by (rule returns_bindRI [OF abort_law])
    (auto intro: commit_quiet)

lemma commit_twice:
  "inv s \<Longrightarrow> ready s \<Longrightarrow>
   returns (bindR (commit s) commit) (\<lambda>s'. inv s' \<and> quiet s' \<and> cur s' = pend s)"
  by (rule returns_bindRI [OF commit_law])
    (auto intro: commit_quiet)

end

end
