(* ===== verification/Flags.thy ===== *)
theory Flags
  imports Staging
begin

text \<open>
  The flag groups: \<^verbatim>\<open>sim/flags.py\<close> (class \<^verbatim>\<open>FlagReg\<close>, class \<^verbatim>\<open>FlagGroups\<close>).

  A \<^verbatim>\<open>FlagReg\<close> object is used both as a value (four booleans) and as a register that stages
  another such value; the record \<open>flag_vals\<close> is the value and \<open>flag_reg\<close> extends it with the
  staged one.  The dictionary of the two groups is a record with two fields.
\<close>

section \<open>FlagReg\<close>

record flag_vals =
  flag_C :: bool
  flag_M :: bool
  flag_L :: bool
  flag_Z :: bool

record flag_reg = flag_vals +
  new_val :: "flag_vals option"

definition FlagReg :: "bool \<Rightarrow> bool \<Rightarrow> bool \<Rightarrow> bool \<Rightarrow> flag_vals" where
  "FlagReg c m l z = \<lparr>flag_C = c, flag_M = m, flag_L = l, flag_Z = z\<rparr>"

definition FlagReg_reset :: flag_reg where
  "FlagReg_reset =
     \<lparr>flag_C = False, flag_M = False, flag_L = False, flag_Z = False, new_val = None\<rparr>"

definition flag_vals_of :: "'a flag_vals_scheme \<Rightarrow> flag_vals" where
  "flag_vals_of f = FlagReg (flag_C f) (flag_M f) (flag_L f) (flag_Z f)"

definition FlagReg_set_flags :: "flag_vals \<Rightarrow> flag_reg \<Rightarrow> flag_reg" where
  "FlagReg_set_flags other f = f\<lparr>new_val := Some other\<rparr>"

definition FLAG_NAMES :: "string list" where
  "FLAG_NAMES = [''C'', ''M'', ''L'', ''Z'']"

definition FlagReg_get_by_name :: "string \<Rightarrow> 'a flag_vals_scheme \<Rightarrow> bool result" where
  "FlagReg_get_by_name n f =
     require (n \<in> set FLAG_NAMES)
       (Inr (if n = ''C'' then flag_C f else if n = ''M'' then flag_M f
             else if n = ''L'' then flag_L f else flag_Z f))"

definition FlagReg_get_by_idx :: "int \<Rightarrow> 'a flag_vals_scheme \<Rightarrow> bool result" where
  "FlagReg_get_by_idx i f =
     require (0 \<le> i \<and> i \<le> 3) (FlagReg_get_by_name (FLAG_NAMES ! nat i) f)"

definition FlagReg_commit :: "flag_reg \<Rightarrow> flag_reg" where
  "FlagReg_commit f =
     (case new_val f of
        Some v \<Rightarrow> f\<lparr>flag_C := flag_C v, flag_M := flag_M v, flag_L := flag_L v, flag_Z := flag_Z v,
                     new_val := None\<rparr>
      | None \<Rightarrow> f\<lparr>new_val := None\<rparr>)"

definition FlagReg_abort :: "flag_reg \<Rightarrow> flag_reg" where
  "FlagReg_abort f = f\<lparr>new_val := None\<rparr>"

definition FlagReg_read_unsigned :: "'a flag_vals_scheme \<Rightarrow> int" where
  "FlagReg_read_unsigned f =
     push_bit 3 (py_int (flag_Z f)) OR push_bit 2 (py_int (flag_L f)) OR
     push_bit 1 (py_int (flag_M f)) OR push_bit 0 (py_int (flag_C f))"

definition FlagReg_from_bits :: "int \<Rightarrow> flag_vals result" where
  "FlagReg_from_bits v =
     require (0 \<le> v)
       (Inr (FlagReg (py_bool (drop_bit 0 v AND 1)) (py_bool (drop_bit 1 v AND 1))
                     (py_bool (drop_bit 2 v AND 1)) (py_bool (drop_bit 3 v AND 1))))"

definition FlagReg_write_unsigned :: "int \<Rightarrow> flag_reg \<Rightarrow> flag_reg result" where
  "FlagReg_write_unsigned v f =
     require (0 \<le> v) (bindR (FlagReg_from_bits v) (\<lambda>o'. Inr (FlagReg_set_flags o' f)))"

definition FlagReg_mlz_for_result :: "bool \<Rightarrow> int \<Rightarrow> flag_vals" where
  "FlagReg_mlz_for_result c res =
     FlagReg c (py_bool (drop_bit 255 res AND 1)) (py_bool (res AND 1)) (res = 0)"

section \<open>FlagGroups\<close>

record flag_groups =
  group0 :: flag_reg
  group1 :: flag_reg
  dirty :: bool

record trace_flags =
  tf_group :: int
  tf_value :: flag_vals

definition FlagGroups_init :: flag_groups where
  "FlagGroups_init = \<lparr>group0 = FlagReg_reset, group1 = FlagReg_reset, dirty = False\<rparr>"

definition FlagGroups_getitem :: "int \<Rightarrow> flag_groups \<Rightarrow> flag_reg result" where
  "FlagGroups_getitem k fg =
     require (0 \<le> k \<and> k \<le> 1) (Inr (if k = 0 then group0 fg else group1 fg))"

definition FlagGroups_setitem :: "int \<Rightarrow> flag_vals \<Rightarrow> flag_groups \<Rightarrow> flag_groups result" where
  "FlagGroups_setitem k v fg =
     require (0 \<le> k \<and> k \<le> 1)
       (Inr (if k = 0 then fg\<lparr>dirty := True, group0 := FlagReg_set_flags v (group0 fg)\<rparr>
             else fg\<lparr>dirty := True, group1 := FlagReg_set_flags v (group1 fg)\<rparr>))"

definition FlagReg_changes :: "int \<Rightarrow> flag_reg \<Rightarrow> trace_flags list" where
  "FlagReg_changes g f =
     (case new_val f of None \<Rightarrow> [] | Some v \<Rightarrow> [\<lparr>tf_group = g, tf_value = v\<rparr>])"

definition FlagGroups_changes :: "flag_groups \<Rightarrow> trace_flags list" where
  "FlagGroups_changes fg = FlagReg_changes 0 (group0 fg) @ FlagReg_changes 1 (group1 fg)"

definition FlagGroups_commit :: "flag_groups \<Rightarrow> flag_groups" where
  "FlagGroups_commit fg =
     (if dirty fg
      then fg\<lparr>group0 := FlagReg_commit (group0 fg), group1 := FlagReg_commit (group1 fg),
              dirty := False\<rparr>
      else fg\<lparr>dirty := False\<rparr>)"

definition FlagGroups_abort :: "flag_groups \<Rightarrow> flag_groups" where
  "FlagGroups_abort fg =
     (if dirty fg
      then fg\<lparr>group0 := FlagReg_abort (group0 fg), group1 := FlagReg_abort (group1 fg),
              dirty := False\<rparr>
      else fg\<lparr>dirty := False\<rparr>)"

definition FlagGroups_read_unsigned :: "flag_groups \<Rightarrow> int" where
  "FlagGroups_read_unsigned fg =
     push_bit 4 (FlagReg_read_unsigned (group1 fg)) OR push_bit 0 (FlagReg_read_unsigned (group0 fg))"

definition FlagGroups_write_unsigned :: "int \<Rightarrow> flag_groups \<Rightarrow> flag_groups result" where
  "FlagGroups_write_unsigned v fg =
     require (0 \<le> v)
       (bindR (FlagReg_write_unsigned (drop_bit 0 v AND low_mask 4) (group0 fg)) (\<lambda>g0.
        bindR (FlagReg_write_unsigned (drop_bit 4 v AND low_mask 4) (group1 fg)) (\<lambda>g1.
        Inr (fg\<lparr>dirty := True, group0 := g0, group1 := g1\<rparr>))))"

section \<open>Staging laws\<close>

definition FlagGroups_quiet :: "flag_groups \<Rightarrow> bool" where
  "FlagGroups_quiet fg \<longleftrightarrow> new_val (group0 fg) = None \<and> new_val (group1 fg) = None \<and> \<not> dirty fg"

definition FlagGroups_inv :: "flag_groups \<Rightarrow> bool" where
  "FlagGroups_inv fg \<longleftrightarrow> (\<not> dirty fg \<longrightarrow> FlagGroups_quiet fg)"

definition FlagReg_pend :: "flag_reg \<Rightarrow> flag_vals" where
  "FlagReg_pend f = (case new_val f of Some v \<Rightarrow> v | None \<Rightarrow> flag_vals_of f)"

definition FlagGroups_cur :: "flag_groups \<Rightarrow> flag_vals \<times> flag_vals" where
  "FlagGroups_cur fg = (flag_vals_of (group0 fg), flag_vals_of (group1 fg))"

definition FlagGroups_pend :: "flag_groups \<Rightarrow> flag_vals \<times> flag_vals" where
  "FlagGroups_pend fg = (FlagReg_pend (group0 fg), FlagReg_pend (group1 fg))"

lemma flag_vals_of_commit [simp]: "flag_vals_of (FlagReg_commit f) = FlagReg_pend f"
  by (auto simp: FlagReg_commit_def FlagReg_pend_def flag_vals_of_def FlagReg_def split: option.splits)

lemma flag_vals_of_abort [simp]: "flag_vals_of (FlagReg_abort f) = flag_vals_of f"
  by (simp add: FlagReg_abort_def flag_vals_of_def)

lemma flag_vals_of_vals [simp]: "flag_vals_of (v :: flag_vals) = v"
  by (simp add: flag_vals_of_def FlagReg_def)

lemma new_val_after [simp]: "new_val (FlagReg_commit f) = None" "new_val (FlagReg_abort f) = None"
  by (auto simp: FlagReg_commit_def FlagReg_abort_def split: option.splits)

lemma FlagGroups_init_inv: "FlagGroups_inv FlagGroups_init" "FlagGroups_quiet FlagGroups_init"
  by (simp_all add: FlagGroups_inv_def FlagGroups_quiet_def FlagGroups_init_def FlagReg_reset_def)

interpretation flags_staged:
  staged_component FlagGroups_inv "\<lambda>_. True" FlagGroups_quiet FlagGroups_cur FlagGroups_pend
    "\<lambda>fg. Inr (FlagGroups_commit fg)" "\<lambda>fg. Inr (FlagGroups_abort fg)"
  by unfold_locales
    (auto simp: FlagGroups_inv_def FlagGroups_quiet_def FlagGroups_cur_def FlagGroups_pend_def
      FlagGroups_commit_def FlagGroups_abort_def FlagReg_pend_def)

lemma FlagGroups_setitem_ok:
  "FlagGroups_inv fg \<Longrightarrow> 0 \<le> k \<Longrightarrow> k \<le> 1 \<Longrightarrow>
   returns (FlagGroups_setitem k v fg) (\<lambda>fg'.
     FlagGroups_inv fg' \<and> FlagGroups_cur fg' = FlagGroups_cur fg \<and>
     FlagGroups_pend fg' =
       (if k = 0 then (v, snd (FlagGroups_pend fg)) else (fst (FlagGroups_pend fg), v)))"
  by (auto simp: FlagGroups_setitem_def FlagReg_set_flags_def FlagGroups_inv_def FlagGroups_cur_def
      FlagGroups_pend_def FlagReg_pend_def flag_vals_of_def split: option.splits)


section \<open>Properties\<close>

lemma FlagReg_read_eq:
  "FlagReg_read_unsigned f =
     of_bool (flag_C f) + 2 * of_bool (flag_M f) + 4 * of_bool (flag_L f) + 8 * of_bool (flag_Z f)"
  by (cases "flag_C f"; cases "flag_M f"; cases "flag_L f"; cases "flag_Z f")
    (simp_all add: FlagReg_read_unsigned_def py_int_def)

lemma FlagReg_read_fits: "fits 4 (FlagReg_read_unsigned f)"
  by (simp add: FlagReg_read_eq fits_def)

lemma FlagReg_read_from_bits:
  "FlagReg_from_bits v = Inr f \<Longrightarrow> FlagReg_read_unsigned f = v AND low_mask 4"
  by (auto simp: FlagReg_from_bits_def require_Inr_iff py_bool_bit FlagReg_read_eq FlagReg_def
      and_low_mask take_bit_4_eq simp del: drop_bit_0)

lemma FlagReg_from_bits_read:
  "FlagReg_from_bits (FlagReg_read_unsigned f) = Inr (flag_vals_of f)"
  by (cases "flag_C f"; cases "flag_M f"; cases "flag_L f"; cases "flag_Z f")
    (simp_all add: FlagReg_from_bits_def FlagReg_read_eq py_bool_def flag_vals_of_def)

lemma FlagReg_read_vals: "FlagReg_read_unsigned (flag_vals_of f) = FlagReg_read_unsigned f"
  by (simp add: FlagReg_read_eq flag_vals_of_def FlagReg_def)

lemma FlagGroups_read_eq:
  "FlagGroups_read_unsigned fg =
     16 * FlagReg_read_unsigned (group1 fg) + FlagReg_read_unsigned (group0 fg)"
  using FlagReg_read_fits [of "group0 fg"] or_push_bit_add [of 4]
  by (simp add: FlagGroups_read_unsigned_def push_bit_eq_mult)

lemma FlagGroups_read_fits: "fits 8 (FlagGroups_read_unsigned fg)"
  using FlagReg_read_fits [of "group0 fg"] FlagReg_read_fits [of "group1 fg"]
  by (simp add: FlagGroups_read_eq fits_def)

lemma FlagReg_write_pend:
  "0 \<le> v \<Longrightarrow> returns (FlagReg_write_unsigned v f) (\<lambda>f'.
     FlagReg_from_bits v = Inr (FlagReg_pend f') \<and> flag_vals_of f' = flag_vals_of f)"
  by (simp add: FlagReg_write_unsigned_def FlagReg_from_bits_def FlagReg_set_flags_def
      FlagReg_pend_def flag_vals_of_def)

lemma FlagGroups_write_pend:
  assumes "0 \<le> v"
  shows "returns (FlagGroups_write_unsigned v fg) (\<lambda>fg'. dirty fg' \<and>
    FlagGroups_cur fg' = FlagGroups_cur fg \<and>
    FlagReg_from_bits (v AND low_mask 4) = Inr (fst (FlagGroups_pend fg')) \<and>
    FlagReg_from_bits (drop_bit 4 v AND low_mask 4) = Inr (snd (FlagGroups_pend fg')))"
proof -
  have nn: "0 \<le> v AND low_mask 4" "0 \<le> drop_bit 4 v AND low_mask 4"
    using fits_and_low_mask fits_nonneg by blast+
  show ?thesis
    using assms FlagReg_write_pend [OF nn(1), of "group0 fg"] FlagReg_write_pend [OF nn(2), of "group1 fg"]
    by (auto simp: FlagGroups_write_unsigned_def returns_bindR FlagGroups_cur_def FlagGroups_pend_def
        elim!: returnsE)
qed

lemma FlagGroups_cur_commit:
  "dirty fg \<Longrightarrow> FlagGroups_cur (FlagGroups_commit fg) = FlagGroups_pend fg"
  by (simp add: FlagGroups_cur_def FlagGroups_commit_def FlagGroups_pend_def)

lemma FlagGroups_read_cur:
  "FlagGroups_read_unsigned fg =
     16 * FlagReg_read_unsigned (snd (FlagGroups_cur fg)) + FlagReg_read_unsigned (fst (FlagGroups_cur fg))"
  by (simp add: FlagGroups_read_eq FlagGroups_cur_def FlagReg_read_vals)

text \<open>
  The flags as a CSR value.  Writing any non-negative value to the flag groups and committing
  it makes them read back as the low eight bits of that value, group 0 in the low nibble; writing
  back what was read changes no flag.
\<close>

theorem flag_groups_round_trip:
  assumes "0 \<le> v"
  shows "returns (FlagGroups_write_unsigned v fg) (\<lambda>fg'.
      FlagGroups_read_unsigned (FlagGroups_commit fg') = v AND low_mask 8) \<and>
    returns (FlagGroups_write_unsigned (FlagGroups_read_unsigned fg) fg) (\<lambda>fg'.
      FlagGroups_cur (FlagGroups_commit fg') = FlagGroups_cur fg)"
proof
  show "returns (FlagGroups_write_unsigned v fg) (\<lambda>fg'.
      FlagGroups_read_unsigned (FlagGroups_commit fg') = v AND low_mask 8)"
  proof (rule returns_mono [OF FlagGroups_write_pend [OF assms]], elim conjE)
    fix fg' :: flag_groups
    assume fg': "dirty fg'"
      "FlagReg_from_bits (v AND low_mask 4) = Inr (fst (FlagGroups_pend fg'))"
      "FlagReg_from_bits (drop_bit 4 v AND low_mask 4) = Inr (snd (FlagGroups_pend fg'))"
    have "v mod 256 = 16 * (v div 16 mod 16) + v mod 16"
      using zmod_zmult2_eq [of 16 v 16] by simp
    then show "FlagGroups_read_unsigned (FlagGroups_commit fg') = v AND low_mask 8"
      using FlagReg_read_from_bits [OF fg'(2)] FlagReg_read_from_bits [OF fg'(3)]
      by (simp add: FlagGroups_read_cur FlagGroups_cur_commit [OF fg'(1)] and_low_mask
          take_bit_eq_mod drop_bit_eq_div)
  qed
next
  have r: "FlagGroups_read_unsigned fg AND low_mask 4 = FlagReg_read_unsigned (group0 fg)"
    "drop_bit 4 (FlagGroups_read_unsigned fg) AND low_mask 4 = FlagReg_read_unsigned (group1 fg)"
    using FlagReg_read_fits [of "group0 fg"] FlagReg_read_fits [of "group1 fg"]
    by (simp_all add: FlagGroups_read_eq and_low_mask take_bit_eq_mod drop_bit_eq_div fits_def)
  show "returns (FlagGroups_write_unsigned (FlagGroups_read_unsigned fg) fg) (\<lambda>fg'.
      FlagGroups_cur (FlagGroups_commit fg') = FlagGroups_cur fg)"
    by (rule returns_mono [OF FlagGroups_write_pend [OF fits_nonneg [OF FlagGroups_read_fits]]])
      (auto simp: r FlagReg_from_bits_read FlagGroups_cur_commit FlagGroups_cur_def [of fg] prod_eq_iff)
qed

theorem flag_groups_round_trip_witness:
  "(0::int) \<le> 0x1a5 \<and>
   returns (FlagGroups_write_unsigned 0x1a5 FlagGroups_init) (\<lambda>fg'.
     FlagGroups_read_unsigned (FlagGroups_commit fg') = 0xa5)"
  using flag_groups_round_trip [of "0x1a5" FlagGroups_init] by (simp add: low_mask_eq)

text \<open>
  \<^verbatim>\<open>mlz_for_result\<close> on the integer of a 256-bit word: M, L and Z are its top bit, its bottom bit
  and its zero test.
\<close>

lemma mlz_for_result_word:
  fixes r :: "256 word"
  shows "FlagReg_mlz_for_result c (uint r) = FlagReg c (bit r 255) (bit r 0) (r = 0)"
proof -
  have "py_bool (drop_bit 255 (uint r) AND 1) = bit r 255"
    by (simp only: py_bool_bit) (simp add: bit_uint_iff)
  moreover have "py_bool (uint r AND 1) = bit r 0"
    by (simp add: py_bool_and_one flip: bit_0) (simp add: bit_uint_iff)
  ultimately show ?thesis
    by (simp add: FlagReg_mlz_for_result_def uint_0_iff)
qed

end
