(* ===== verification/Wsr.thy ===== *)
theory Wsr
  imports Flags
begin

text \<open>
  Wide status registers and control and status registers: \<^verbatim>\<open>sim/wsr.py\<close> (classes \<^verbatim>\<open>WSR\<close>,
  \<^verbatim>\<open>DumbWSR\<close>, \<^verbatim>\<open>RandWSR\<close>, \<^verbatim>\<open>WSRFile\<close>) and \<^verbatim>\<open>sim/csr.py\<close> (class \<^verbatim>\<open>CSRFile\<close>).

  The three wide registers MOD, RND and ACC are fields of a record.  RND is not staged like the
  others: a read marks it and the mark is consumed at commit, and \<^verbatim>\<open>RandWSR\<close> inherits the empty
  \<^verbatim>\<open>abort\<close> of \<^verbatim>\<open>WSR\<close>.  A CSR access takes the flags and the wide registers and returns both.
\<close>

section \<open>Wide status registers\<close>

record dumb_wsr =
  wsr_name :: string
  wsr_value :: int
  wsr_next :: "int option"

record rand_wsr =
  random_value :: "int option"
  random_value_read :: bool
  pending_request :: bool

record wsr_file =
  MOD :: dumb_wsr
  RND :: rand_wsr
  ACC :: dumb_wsr

record trace_wsr =
  tw_name :: string
  tw_new_value :: int

definition DumbWSR_init :: "string \<Rightarrow> dumb_wsr" where
  "DumbWSR_init n = \<lparr>wsr_name = n, wsr_value = 0, wsr_next = None\<rparr>"

definition DumbWSR_read_unsigned :: "dumb_wsr \<Rightarrow> int" where
  "DumbWSR_read_unsigned w = wsr_value w"

definition DumbWSR_write_unsigned :: "int \<Rightarrow> dumb_wsr \<Rightarrow> dumb_wsr result" where
  "DumbWSR_write_unsigned v w = require (fits 256 v) (Inr (w\<lparr>wsr_next := Some v\<rparr>))"

definition DumbWSR_commit :: "dumb_wsr \<Rightarrow> dumb_wsr" where
  "DumbWSR_commit w =
     (case wsr_next w of
        Some v \<Rightarrow> w\<lparr>wsr_value := v, wsr_next := None\<rparr>
      | None \<Rightarrow> w\<lparr>wsr_next := None\<rparr>)"

definition DumbWSR_abort :: "dumb_wsr \<Rightarrow> dumb_wsr" where
  "DumbWSR_abort w = w\<lparr>wsr_next := None\<rparr>"

definition DumbWSR_changes :: "dumb_wsr \<Rightarrow> trace_wsr list" where
  "DumbWSR_changes w =
     (case wsr_next w of
        Some v \<Rightarrow> [\<lparr>tw_name = wsr_name w, tw_new_value = v\<rparr>]
      | None \<Rightarrow> [])"

definition RandWSR_init :: rand_wsr where
  "RandWSR_init = \<lparr>random_value = None, random_value_read = False, pending_request = False\<rparr>"

definition RandWSR_read_unsigned :: "(rand_wsr, int) action" where
  "RandWSR_read_unsigned r =
     (case random_value r of
        None \<Rightarrow> Inl AssertionError
      | Some v \<Rightarrow> Inr (v, r\<lparr>random_value_read := True\<rparr>))"

definition RandWSR_read_u32 :: "(rand_wsr, int) action" where
  "RandWSR_read_u32 r =
     bindR (RandWSR_read_unsigned r) (\<lambda>(v, r'). Inr (v AND low_mask 32, r'))"

definition RandWSR_write_unsigned :: "int \<Rightarrow> rand_wsr \<Rightarrow> rand_wsr" where
  "RandWSR_write_unsigned v r = r"

definition RandWSR_commit :: "rand_wsr \<Rightarrow> rand_wsr" where
  "RandWSR_commit r =
     (if random_value_read r
      then r\<lparr>random_value := None, pending_request := False, random_value_read := False\<rparr>
      else r\<lparr>random_value_read := False\<rparr>)"

text \<open>\<^verbatim>\<open>if self._random_value:\<close> is false both for \<^verbatim>\<open>None\<close> and for the value zero.\<close>

definition RandWSR_request_value :: "rand_wsr \<Rightarrow> bool \<times> rand_wsr" where
  "RandWSR_request_value r =
     (if (case random_value r of None \<Rightarrow> False | Some v \<Rightarrow> py_bool v)
      then (True, r) else (False, r\<lparr>pending_request := True\<rparr>))"

definition RandWSR_set_unsigned :: "int \<Rightarrow> rand_wsr \<Rightarrow> rand_wsr result" where
  "RandWSR_set_unsigned v r = require (fits 256 v) (Inr (r\<lparr>random_value := Some v\<rparr>))"

definition WSRFile_init :: wsr_file where
  "WSRFile_init = \<lparr>MOD = DumbWSR_init ''MOD'', RND = RandWSR_init, ACC = DumbWSR_init ''ACC''\<rparr>"

definition WSRFile_read_at_idx :: "int \<Rightarrow> (wsr_file, int) action" where
  "WSRFile_read_at_idx i w =
     require (0 \<le> i \<and> i \<le> 2)
       (if i = 0 then Inr (DumbWSR_read_unsigned (MOD w), w)
        else if i = 1 then
          bindR (RandWSR_read_unsigned (RND w)) (\<lambda>(v, r). Inr (v, w\<lparr>RND := r\<rparr>))
        else Inr (DumbWSR_read_unsigned (ACC w), w))"

definition WSRFile_write_at_idx :: "int \<Rightarrow> int \<Rightarrow> wsr_file \<Rightarrow> wsr_file result" where
  "WSRFile_write_at_idx i v w =
     require (0 \<le> i \<and> i \<le> 2)
       (if i = 0 then bindR (DumbWSR_write_unsigned v (MOD w)) (\<lambda>m. Inr (w\<lparr>MOD := m\<rparr>))
        else if i = 1 then Inr (w\<lparr>RND := RandWSR_write_unsigned v (RND w)\<rparr>)
        else bindR (DumbWSR_write_unsigned v (ACC w)) (\<lambda>a. Inr (w\<lparr>ACC := a\<rparr>)))"

definition WSRFile_commit :: "wsr_file \<Rightarrow> wsr_file" where
  "WSRFile_commit w =
     w\<lparr>MOD := DumbWSR_commit (MOD w), RND := RandWSR_commit (RND w), ACC := DumbWSR_commit (ACC w)\<rparr>"

definition WSRFile_abort :: "wsr_file \<Rightarrow> wsr_file" where
  "WSRFile_abort w = w\<lparr>MOD := DumbWSR_abort (MOD w), ACC := DumbWSR_abort (ACC w)\<rparr>"

definition WSRFile_changes :: "wsr_file \<Rightarrow> trace_wsr list" where
  "WSRFile_changes w = DumbWSR_changes (MOD w) @ DumbWSR_changes (ACC w)"

section \<open>Control and status registers\<close>

definition CSR_get_field :: "nat \<Rightarrow> nat \<Rightarrow> int \<Rightarrow> int" where
  "CSR_get_field field_idx field_size v =
     drop_bit (field_size * field_idx) v AND low_mask field_size"

definition CSR_set_field :: "nat \<Rightarrow> nat \<Rightarrow> int \<Rightarrow> int \<Rightarrow> int result" where
  "CSR_set_field field_idx field_size field_val old_val =
     require (fits field_size field_val)
       (let shift = field_size * field_idx
        in Inr ((old_val AND NOT (push_bit shift (low_mask field_size))) OR push_bit shift field_val))"

definition CSRFile_read_unsigned :: "int \<Rightarrow> (flag_groups \<times> wsr_file, int) action" where
  "CSRFile_read_unsigned idx = (\<lambda>(fl, w).
     if 0x7c0 \<le> idx \<and> idx \<le> 0x7c1 then
       Inr (CSR_get_field (nat (idx - 0x7c0)) 4 (FlagGroups_read_unsigned fl), (fl, w))
     else if idx = 0x7c8 then Inr (FlagGroups_read_unsigned fl, (fl, w))
     else if 0x7d0 \<le> idx \<and> idx \<le> 0x7d7 then
       Inr (CSR_get_field (nat (idx - 0x7d0)) 32 (DumbWSR_read_unsigned (MOD w)), (fl, w))
     else if idx = 0xfc0 then
       bindR (RandWSR_read_u32 (RND w)) (\<lambda>(v, r). Inr (v, (fl, w\<lparr>RND := r\<rparr>)))
     else if idx = 0xfc1 then Inr (0, (fl, w))
     else Inl RuntimeError)"

definition CSRFile_write_unsigned ::
  "int \<Rightarrow> int \<Rightarrow> flag_groups \<times> wsr_file \<Rightarrow> (flag_groups \<times> wsr_file) result" where
  "CSRFile_write_unsigned idx v = (\<lambda>(fl, w).
     require (fits 32 v)
      (if 0x7c0 \<le> idx \<and> idx \<le> 0x7c1 then
         bindR (CSR_set_field (nat (idx - 0x7c0)) 4 (v AND 0xf) (FlagGroups_read_unsigned fl)) (\<lambda>nv.
         bindR (FlagGroups_write_unsigned nv fl) (\<lambda>fl'. Inr (fl', w)))
       else if idx = 0x7c8 then
         bindR (FlagGroups_write_unsigned v fl) (\<lambda>fl'. Inr (fl', w))
       else if 0x7d0 \<le> idx \<and> idx \<le> 0x7d7 then
         bindR (CSR_set_field (nat (idx - 0x7d0)) 32 v (DumbWSR_read_unsigned (MOD w))) (\<lambda>nv.
         bindR (DumbWSR_write_unsigned nv (MOD w)) (\<lambda>m. Inr (fl, w\<lparr>MOD := m\<rparr>)))
       else if idx = 0xfc0 \<or> idx = 0xfc1 then Inr (fl, w)
       else Inl RuntimeError))"

section \<open>Staging laws\<close>

definition DumbWSR_inv :: "dumb_wsr \<Rightarrow> bool" where
  "DumbWSR_inv w \<longleftrightarrow> fits 256 (wsr_value w) \<and> pred_option (fits 256) (wsr_next w)"

definition DumbWSR_pend :: "dumb_wsr \<Rightarrow> int" where
  "DumbWSR_pend w = (case wsr_next w of Some v \<Rightarrow> v | None \<Rightarrow> wsr_value w)"

definition WSRFile_inv :: "wsr_file \<Rightarrow> bool" where
  "WSRFile_inv w \<longleftrightarrow>
     DumbWSR_inv (MOD w) \<and> DumbWSR_inv (ACC w) \<and> pred_option (fits 256) (random_value (RND w))"

definition WSRFile_quiet :: "wsr_file \<Rightarrow> bool" where
  "WSRFile_quiet w \<longleftrightarrow> wsr_next (MOD w) = None \<and> wsr_next (ACC w) = None"

definition WSRFile_cur :: "wsr_file \<Rightarrow> int \<times> int" where
  "WSRFile_cur w = (wsr_value (MOD w), wsr_value (ACC w))"

definition WSRFile_pend :: "wsr_file \<Rightarrow> int \<times> int" where
  "WSRFile_pend w = (DumbWSR_pend (MOD w), DumbWSR_pend (ACC w))"

lemma DumbWSR_commit_simps [simp]:
  "wsr_value (DumbWSR_commit w) = DumbWSR_pend w"
  "wsr_next (DumbWSR_commit w) = None"
  by (auto simp: DumbWSR_commit_def DumbWSR_pend_def split: option.splits)

lemma DumbWSR_abort_simps [simp]:
  "wsr_value (DumbWSR_abort w) = wsr_value w"
  "wsr_next (DumbWSR_abort w) = None"
  by (simp_all add: DumbWSR_abort_def)

lemma DumbWSR_inv_pend: "DumbWSR_inv w \<Longrightarrow> fits 256 (DumbWSR_pend w)"
  by (auto simp: DumbWSR_inv_def DumbWSR_pend_def split: option.splits)

interpretation dumb_wsr_staged:
  staged_component DumbWSR_inv "\<lambda>_. True" "\<lambda>w. wsr_next w = None" wsr_value DumbWSR_pend
    "\<lambda>w. Inr (DumbWSR_commit w)" "\<lambda>w. Inr (DumbWSR_abort w)"
  by unfold_locales
    (auto simp: DumbWSR_inv_def DumbWSR_pend_def split: option.splits)

lemma RandWSR_commit_value:
  "random_value (RandWSR_commit r) = (if random_value_read r then None else random_value r)"
  "random_value_read (RandWSR_commit r) = False"
  by (simp_all add: RandWSR_commit_def)

interpretation wsr_file_staged:
  staged_component WSRFile_inv "\<lambda>_. True" WSRFile_quiet WSRFile_cur WSRFile_pend
    "\<lambda>w. Inr (WSRFile_commit w)" "\<lambda>w. Inr (WSRFile_abort w)"
  by unfold_locales
    (auto simp: WSRFile_inv_def WSRFile_quiet_def WSRFile_cur_def WSRFile_pend_def WSRFile_commit_def
      WSRFile_abort_def RandWSR_commit_value DumbWSR_pend_def
      intro: dumb_wsr_staged.commit_inv dumb_wsr_staged.abort_inv)

lemma WSRFile_init_inv: "WSRFile_inv WSRFile_init" "WSRFile_quiet WSRFile_init"
  by (simp_all add: WSRFile_inv_def WSRFile_quiet_def WSRFile_init_def DumbWSR_init_def
      RandWSR_init_def DumbWSR_inv_def)


section \<open>Properties\<close>

lemma fits_bit: "fits w v \<Longrightarrow> w \<le> n \<Longrightarrow> \<not> bit v n"
  by (metis bit_take_bit_iff fits_take_bit_eq not_less)

lemma field_position:
  fixes w :: nat
  assumes "k < w"
  shows "w * j \<le> w * i + k \<and> w * i + k - w * j < w \<longleftrightarrow> i = j"
proof (cases i j rule: linorder_cases)
  case less
  then have "w * i + w \<le> w * j" by (metis Suc_leI mult_Suc_right add.commute mult_le_mono2)
  then show ?thesis using less assms by simp
next
  case equal
  then show ?thesis using assms by simp
next
  case greater
  then have "w * j + w \<le> w * i" by (metis Suc_leI mult_Suc_right add.commute mult_le_mono2)
  then show ?thesis using greater assms by simp
qed

text \<open>A field write changes exactly the field it names.\<close>

lemma CSR_get_set_field:
  assumes "CSR_set_field j w v old = Inr nv"
  shows "CSR_get_field i w nv = (if i = j then v else CSR_get_field i w old)"
proof (rule bit_eqI)
  fix k
  have v: "fits w v" and nv: "nv = (old AND NOT (push_bit (w * j) (low_mask w))) OR push_bit (w * j) v"
    using assms by (auto simp: CSR_set_field_def require_Inr_iff Let_def)
  show "bit (CSR_get_field i w nv) k = bit (if i = j then v else CSR_get_field i w old) k"
  proof (cases "k < w")
    case True
    have "w * j \<le> w * i + k \<Longrightarrow> i \<noteq> j \<Longrightarrow> w \<le> w * i + k - w * j"
      using field_position [OF True, of j i] by linarith
    then show ?thesis
      using True field_position [OF True, of j i] fits_bit [OF v, of "w * i + k - w * j"]
      by (auto simp: CSR_get_field_def nv bit_simps)
  next
    case False
    then show ?thesis
      using fits_bit [OF v, of k] by (auto simp: CSR_get_field_def bit_simps)
  qed
qed

lemma CSR_set_field_fits:
  assumes "CSR_set_field j w v old = Inr nv" and "fits n old" and "w * j + w \<le> n"
  shows "fits n nv"
proof -
  have v: "fits w v" and nv: "nv = (old AND NOT (push_bit (w * j) (low_mask w))) OR push_bit (w * j) v"
    using assms by (auto simp: CSR_set_field_def require_Inr_iff Let_def)
  have "nv = take_bit n nv"
  proof (rule bit_eqI)
    fix k
    have "n \<le> k \<Longrightarrow> \<not> bit old k \<and> \<not> bit v (k - w * j)"
      using fits_bit [OF v, of "k - w * j"] fits_bit [OF assms(2), of k] assms(3) by simp
    then show "bit nv k = bit (take_bit n nv) k"
      by (cases "k < n") (simp_all add: nv bit_simps)
  qed
  then show ?thesis by (metis fits_take_bit)
qed

text \<open>
  The MOD CSRs are eight disjoint windows on the 256-bit modulus.  Writing a 32-bit value to
  the CSR \<^verbatim>\<open>MODj\<close> (index \<^verbatim>\<open>0x7d0 + j\<close>) never raises, leaves the flags alone, and after the
  commit \<^verbatim>\<open>MODj\<close> reads as that value while every other \<^verbatim>\<open>MODi\<close> reads as before.
\<close>

theorem csr_mod_windows:
  assumes "WSRFile_inv w" and "fits 32 v" and "j < 8" and "i < 8"
  shows "returns (CSRFile_write_unsigned (0x7d0 + int j) v (fl, w)) (\<lambda>(fl', w').
    fl' = fl \<and> WSRFile_inv w' \<and>
    returns (CSRFile_read_unsigned (0x7d0 + int i) (fl', WSRFile_commit w')) (\<lambda>(x, _).
      if i = j then x = v
      else CSRFile_read_unsigned (0x7d0 + int i) (fl, w) = Inr (x, (fl, w))))"
proof -
  obtain nv where nv: "CSR_set_field j 32 v (wsr_value (MOD w)) = Inr nv"
    using assms(2) by (simp add: CSR_set_field_def Let_def)
  have "fits 256 nv"
    using CSR_set_field_fits [OF nv, of 256] assms(1,3)
    by (simp add: WSRFile_inv_def DumbWSR_inv_def)
  then show ?thesis
    using assms CSR_get_set_field [OF nv, of i]
    by (simp add: CSRFile_write_unsigned_def CSRFile_read_unsigned_def nv DumbWSR_read_unsigned_def
        DumbWSR_write_unsigned_def WSRFile_inv_def DumbWSR_inv_def WSRFile_commit_def DumbWSR_pend_def)
      auto
qed

theorem csr_mod_windows_witness:
  "returns (CSRFile_write_unsigned (0x7d0 + int 3) 0xdeadbeef (FlagGroups_init, WSRFile_init))
    (\<lambda>(fl', w'). fl' = FlagGroups_init \<and> WSRFile_inv w' \<and>
      returns (CSRFile_read_unsigned (0x7d0 + int 3) (fl', WSRFile_commit w')) (\<lambda>(x, _). x = 0xdeadbeef))"
proof -
  have "fits 32 (0xdeadbeef :: int)" by (simp add: fits_def)
  from csr_mod_windows [OF WSRFile_init_inv(1) this, of 3 3 FlagGroups_init] show ?thesis
    by simp
qed

text \<open>
  Random data that is zero is never seen as available.  After the environment supplies the
  value 0 for RND, a request still answers \<^verbatim>\<open>False\<close> and leaves the request pending, so a program
  that reads RND stalls again; every non-zero 256-bit value is available at once.
\<close>

theorem rnd_request_after_set:
  assumes "fits 256 v"
  shows "returns (RandWSR_set_unsigned v r) (\<lambda>r'.
    random_value r' = Some v \<and>
    RandWSR_request_value r' = (if v = 0 then (False, r'\<lparr>pending_request := True\<rparr>) else (True, r')))"
  using assms by (simp add: RandWSR_set_unsigned_def RandWSR_request_value_def py_bool_def)

theorem rnd_request_after_set_witness:
  "returns (RandWSR_set_unsigned 0 RandWSR_init) (\<lambda>r'. fst (RandWSR_request_value r') = False)"
  using rnd_request_after_set [of 0 RandWSR_init] by (auto elim!: returns_mono)

end
