(* ===== verification/Reg.thy ===== *)
theory Reg
  imports Staging
begin

text \<open>
  Registers and register files: \<^verbatim>\<open>sim/reg.py\<close> (class \<^verbatim>\<open>Reg\<close>, class \<^verbatim>\<open>RegFile\<close>).

  A \<^verbatim>\<open>Reg\<close> holds a committed value and at most one staged value.  A \<^verbatim>\<open>RegFile\<close> is a list of
  registers with the set of indices written in the current cycle; the Python set is a list without
  duplicates, extended by \<open>List.insert\<close>.  The back pointer \<^verbatim>\<open>_parent\<close> of a register, through
  which a write marks its index as pending, is resolved: \<open>RegFile_write_unsigned\<close> is the
  composition \<^verbatim>\<open>get_reg(idx).write_unsigned(v)\<close> together with \<^verbatim>\<open>_parent.mark_written(idx)\<close>.
\<close>

section \<open>Data\<close>

record reg =
  width :: nat
  uval :: int
  next_uval :: "int option"

record regfile =
  name_pfx :: string
  rf_width :: nat
  registers :: "reg list"
  pending_writes :: "int list"

text \<open>A trace entry \<^verbatim>\<open>TraceRegister\<close>: prefix and index of the register name, width, new value.\<close>

record trace_register =
  tr_pfx :: string
  tr_idx :: int
  tr_width :: nat
  tr_new_value :: int

section \<open>Reg\<close>

definition Reg_init :: "nat \<Rightarrow> int \<Rightarrow> reg result" where
  "Reg_init w v = require (fits w v) (Inr \<lparr>width = w, uval = v, next_uval = None\<rparr>)"

definition Reg_read_unsigned :: "'a reg_scheme \<Rightarrow> int" where
  "Reg_read_unsigned r = uval r"

definition Reg_write_unsigned :: "int \<Rightarrow> 'a reg_scheme \<Rightarrow> 'a reg_scheme result" where
  "Reg_write_unsigned v r = require (fits (width r) v) (Inr (r\<lparr>next_uval := Some v\<rparr>))"

definition Reg_read_next :: "'a reg_scheme \<Rightarrow> int option" where
  "Reg_read_next r = next_uval r"

text \<open>\<^verbatim>\<open>read_signed\<close> and \<^verbatim>\<open>write_signed\<close> as functions of the width, for every class of register.\<close>

definition signed_of :: "nat \<Rightarrow> int \<Rightarrow> int" where
  "signed_of w v = v - (if py_bool (drop_bit (w - 1) v) then push_bit w 1 else 0)"

definition unsigned_of :: "nat \<Rightarrow> int \<Rightarrow> int result" where
  "unsigned_of w i =
     require (- push_bit (w - 1) 1 \<le> i \<and> i < push_bit (w - 1) 1)
       (Inr (if i < 0 then push_bit w 1 + i else i))"

definition Reg_read_signed :: "'a reg_scheme \<Rightarrow> int" where
  "Reg_read_signed r = signed_of (width r) (Reg_read_unsigned r)"

definition Reg_read_unsigned_inverted :: "'a reg_scheme \<Rightarrow> int" where
  "Reg_read_unsigned_inverted r = Reg_read_unsigned r XOR low_mask (width r)"

definition Reg_write_signed :: "int \<Rightarrow> 'a reg_scheme \<Rightarrow> 'a reg_scheme result" where
  "Reg_write_signed i r =
     bindR (unsigned_of (width r) i) (\<lambda>v. Reg_write_unsigned v r)"

definition Reg_commit :: "'a reg_scheme \<Rightarrow> 'a reg_scheme" where
  "Reg_commit r =
     (case next_uval r of
        Some v \<Rightarrow> r\<lparr>uval := v, next_uval := None\<rparr>
      | None \<Rightarrow> r\<lparr>next_uval := None\<rparr>)"

definition Reg_abort :: "'a reg_scheme \<Rightarrow> 'a reg_scheme" where
  "Reg_abort r = r\<lparr>next_uval := None\<rparr>"

section \<open>RegFile\<close>

definition RegFile_init :: "string \<Rightarrow> nat \<Rightarrow> nat \<Rightarrow> regfile" where
  "RegFile_init pfx w depth =
     \<lparr>name_pfx = pfx, rf_width = w,
      registers = replicate depth \<lparr>width = w, uval = 0, next_uval = None\<rparr>,
      pending_writes = []\<rparr>"

definition idx_ok :: "int \<Rightarrow> 'a regfile_scheme \<Rightarrow> bool" where
  "idx_ok i rf \<longleftrightarrow> 0 \<le> i \<and> i < int (length (registers rf))"

definition RegFile_mark_written :: "int \<Rightarrow> 'a regfile_scheme \<Rightarrow> 'a regfile_scheme result" where
  "RegFile_mark_written i rf =
     require (idx_ok i rf) (Inr (rf\<lparr>pending_writes := List.insert i (pending_writes rf)\<rparr>))"

definition RegFile_get_reg :: "int \<Rightarrow> 'a regfile_scheme \<Rightarrow> reg result" where
  "RegFile_get_reg i rf = require (idx_ok i rf) (Inr (registers rf ! nat i))"

definition RegFile_read_unsigned :: "int \<Rightarrow> 'a regfile_scheme \<Rightarrow> int result" where
  "RegFile_read_unsigned i rf =
     bindR (RegFile_get_reg i rf) (\<lambda>r. Inr (Reg_read_unsigned r))"

definition RegFile_write_unsigned :: "int \<Rightarrow> int \<Rightarrow> 'a regfile_scheme \<Rightarrow> 'a regfile_scheme result" where
  "RegFile_write_unsigned i v rf =
     bindR (RegFile_get_reg i rf) (\<lambda>r.
     bindR (Reg_write_unsigned v r) (\<lambda>r'.
     RegFile_mark_written i (rf\<lparr>registers := (registers rf)[nat i := r']\<rparr>)))"

text \<open>
  \<^verbatim>\<open>changes\<close> goes through the virtual \<^verbatim>\<open>get_reg\<close>, so the staged value of an index is a
  parameter: \<open>Reg_read_next\<close> of the list element for a plain file, and the call stack register
  for index 1 of the GPRs.
\<close>

fun RegFile_changes_of ::
  "(int \<Rightarrow> int option result) \<Rightarrow> 'a regfile_scheme \<Rightarrow> int list \<Rightarrow> trace_register list result" where
  "RegFile_changes_of read_next rf [] = Inr []"
| "RegFile_changes_of read_next rf (i # is) =
     require (idx_ok i rf)
       (bindR (read_next i) (\<lambda>nv.
        case nv of
          None \<Rightarrow> Inl AssertionError
        | Some v \<Rightarrow>
            bindR (RegFile_changes_of read_next rf is) (\<lambda>ts.
            Inr (\<lparr>tr_pfx = name_pfx rf, tr_idx = i, tr_width = rf_width rf, tr_new_value = v\<rparr> # ts))))"

definition RegFile_changes :: "'a regfile_scheme \<Rightarrow> trace_register list result" where
  "RegFile_changes rf =
     RegFile_changes_of (\<lambda>i. bindR (RegFile_get_reg i rf) (\<lambda>r. Inr (Reg_read_next r)))
       rf (sort (pending_writes rf))"

fun update_each :: "(reg \<Rightarrow> reg) \<Rightarrow> int list \<Rightarrow> 'a regfile_scheme \<Rightarrow> 'a regfile_scheme result" where
  "update_each f [] rf = Inr rf"
| "update_each f (i # is) rf =
     require (idx_ok i rf)
       (update_each f is (rf\<lparr>registers := (registers rf)[nat i := f (registers rf ! nat i)]\<rparr>))"

definition RegFile_commit :: "'a regfile_scheme \<Rightarrow> 'a regfile_scheme result" where
  "RegFile_commit rf =
     bindR (update_each Reg_commit (pending_writes rf) rf) (\<lambda>rf'.
     Inr (rf'\<lparr>pending_writes := []\<rparr>))"

definition RegFile_abort :: "'a regfile_scheme \<Rightarrow> 'a regfile_scheme result" where
  "RegFile_abort rf =
     bindR (update_each Reg_abort (pending_writes rf) rf) (\<lambda>rf'.
     Inr (rf'\<lparr>pending_writes := []\<rparr>))"

definition RegFile_peek_unsigned_values :: "'a regfile_scheme \<Rightarrow> int list" where
  "RegFile_peek_unsigned_values rf = map Reg_read_unsigned (registers rf)"


section \<open>Invariants and views\<close>

definition Reg_inv :: "nat \<Rightarrow> 'a reg_scheme \<Rightarrow> bool" where
  "Reg_inv w r \<longleftrightarrow> width r = w \<and> fits w (uval r) \<and> pred_option (fits w) (next_uval r)"

definition Reg_pend :: "'a reg_scheme \<Rightarrow> int" where
  "Reg_pend r = (case next_uval r of Some v \<Rightarrow> v | None \<Rightarrow> uval r)"

definition Reg_quiet :: "'a reg_scheme \<Rightarrow> bool" where
  "Reg_quiet r \<longleftrightarrow> next_uval r = None"

definition RegFile_inv :: "nat \<Rightarrow> nat \<Rightarrow> 'a regfile_scheme \<Rightarrow> bool" where
  "RegFile_inv w n rf \<longleftrightarrow>
     rf_width rf = w \<and> length (registers rf) = n \<and>
     list_all (Reg_inv w) (registers rf) \<and>
     list_all (\<lambda>i. idx_ok i rf) (pending_writes rf) \<and>
     list_all (\<lambda>i. Reg_quiet (registers rf ! i) \<or> int i \<in> set (pending_writes rf))
       [0..<length (registers rf)]"

definition RegFile_cur :: "'a regfile_scheme \<Rightarrow> int list" where
  "RegFile_cur rf = map uval (registers rf)"

definition RegFile_pend :: "'a regfile_scheme \<Rightarrow> int list" where
  "RegFile_pend rf = map Reg_pend (registers rf)"

definition RegFile_quiet :: "'a regfile_scheme \<Rightarrow> bool" where
  "RegFile_quiet rf \<longleftrightarrow> pending_writes rf = []"

section \<open>Lemmas on registers\<close>

lemma Reg_commit_simps [simp]:
  "width (Reg_commit r) = width r"
  "uval (Reg_commit r) = Reg_pend r"
  "next_uval (Reg_commit r) = None"
  "Reg_commit (Reg_commit r) = Reg_commit r"
  by (auto simp: Reg_commit_def Reg_pend_def split: option.splits)

lemma Reg_abort_simps [simp]:
  "width (Reg_abort r) = width r"
  "uval (Reg_abort r) = uval r"
  "next_uval (Reg_abort r) = None"
  "Reg_abort (Reg_abort r) = Reg_abort r"
  by (auto simp: Reg_abort_def)

lemma Reg_commit_quiet: "Reg_quiet r \<Longrightarrow> Reg_commit r = r"
  by (simp add: Reg_quiet_def Reg_commit_def)

lemma Reg_abort_quiet: "Reg_quiet r \<Longrightarrow> Reg_abort r = r"
  by (simp add: Reg_quiet_def Reg_abort_def)

lemma Reg_inv_pend: "Reg_inv w r \<Longrightarrow> fits w (Reg_pend r)"
  by (auto simp: Reg_inv_def Reg_pend_def split: option.splits)

lemma Reg_inv_commit: "Reg_inv w r \<Longrightarrow> Reg_inv w (Reg_commit r)"
  by (simp add: Reg_inv_def [of w "Reg_commit r"] Reg_inv_pend) (simp add: Reg_inv_def)

lemma Reg_inv_abort: "Reg_inv w r \<Longrightarrow> Reg_inv w (Reg_abort r)"
  by (simp add: Reg_inv_def)

interpretation reg_staged:
  staged_component "Reg_inv w" "\<lambda>_. True" Reg_quiet uval Reg_pend
    "\<lambda>r. Inr (Reg_commit r)" "\<lambda>r. Inr (Reg_abort r)" for w
  by unfold_locales
    (auto simp: Reg_inv_commit Reg_inv_abort Reg_quiet_def Reg_pend_def)

text \<open>A register is a two's complement cell: writing a signed value and reading it back.\<close>

lemma unsigned_of_range:
  assumes "0 < w"
  shows "returns (unsigned_of w i) (fits w) \<longleftrightarrow> - (2 ^ (w - 1)) \<le> i \<and> i < 2 ^ (w - 1)"
proof -
  have "(2::int) ^ w = 2 * 2 ^ (w - 1)"
    using assms by (simp add: power_eq_if)
  then show ?thesis
    by (auto simp: unsigned_of_def returns_require fits_iff push_bit_eq_mult)
qed

lemma signed_of_unsigned_of:
  assumes "0 < w" and "unsigned_of w i = Inr v"
  shows "signed_of w v = i \<and> fits w v"
proof -
  have w: "(2::int) ^ w = 2 * 2 ^ (w - 1)"
    using assms(1) by (simp add: power_eq_if)
  from assms(2) have rng: "- (2 ^ (w - 1)) \<le> i" "i < 2 ^ (w - 1)"
    and v: "v = (if i < 0 then 2 ^ w + i else i)"
    by (auto simp: unsigned_of_def require_Inr_iff push_bit_eq_mult)
  show ?thesis
  proof (cases "i < 0")
    case True
    have "v div 2 ^ (w - 1) = 1"
      using True v rng w by (intro div_pos_geq [THEN trans]) (auto simp: div_pos_pos_trivial)
    then show ?thesis
      using True v rng w by (simp add: signed_of_def py_bool_def drop_bit_eq_div push_bit_eq_mult fits_iff)
  next
    case False
    then have "v div 2 ^ (w - 1) = 0"
      using v rng by simp
    then show ?thesis
      using False v rng w by (simp add: signed_of_def py_bool_def drop_bit_eq_div fits_iff)
  qed
qed

lemma unsigned_of_signed_of:
  assumes "0 < w" and "fits w v"
  shows "unsigned_of w (signed_of w v) = Inr v"
proof -
  have w: "(2::int) ^ w = 2 * 2 ^ (w - 1)"
    using assms(1) by (simp add: power_eq_if)
  show ?thesis
  proof (cases "v < 2 ^ (w - 1)")
    case True
    then have "v div 2 ^ (w - 1) = 0"
      using assms(2) by (simp add: fits_iff)
    then show ?thesis
      using True assms(2)
      by (simp add: signed_of_def unsigned_of_def py_bool_def drop_bit_eq_div fits_iff push_bit_eq_mult)
  next
    case False
    then have "v div 2 ^ (w - 1) \<noteq> 0"
      using assms(2) by (auto simp: zdiv_eq_0_iff fits_iff not_less)
    then show ?thesis
      using False assms(2) w
      by (simp add: signed_of_def unsigned_of_def py_bool_def drop_bit_eq_div fits_iff push_bit_eq_mult)
  qed
qed


section \<open>Lemmas on register files\<close>

lemma RegFile_inv_iff:
  "RegFile_inv w n rf \<longleftrightarrow>
     rf_width rf = w \<and> length (registers rf) = n \<and>
     (\<forall>i<n. Reg_inv w (registers rf ! i)) \<and>
     (\<forall>i\<in>set (pending_writes rf). 0 \<le> i \<and> i < int n) \<and>
     (\<forall>i<n. Reg_quiet (registers rf ! i) \<or> int i \<in> set (pending_writes rf))"
  by (auto simp: RegFile_inv_def list_all_length idx_ok_def) (metis in_set_conv_nth)+

lemma RegFile_inv_nth:
  "RegFile_inv w n rf \<Longrightarrow> i < n \<Longrightarrow> Reg_inv w (registers rf ! i)"
  by (auto simp: RegFile_inv_def list_all_length)

lemma RegFile_inv_quiet_nth:
  "RegFile_inv w n rf \<Longrightarrow> i < n \<Longrightarrow> int i \<notin> set (pending_writes rf) \<Longrightarrow>
   Reg_quiet (registers rf ! i)"
  by (auto simp: RegFile_inv_def list_all_iff)

lemma RegFile_inv_pending:
  "RegFile_inv w n rf \<Longrightarrow> i \<in> set (pending_writes rf) \<Longrightarrow> 0 \<le> i \<and> i < int n"
  by (auto simp: RegFile_inv_def list_all_iff idx_ok_def)

lemma update_each_eq:
  assumes "\<And>r. f (f r) = f r" and "\<forall>i\<in>set is. idx_ok i rf"
  shows "update_each f is rf =
    Inr (rf\<lparr>registers :=
      map (\<lambda>j. if int j \<in> set is then f (registers rf ! j) else registers rf ! j)
        [0..<length (registers rf)]\<rparr>)"
  using assms(2)
proof (induction "is" arbitrary: rf)
  case Nil
  then show ?case by (simp add: map_nth)
next
  case (Cons i "is")
  let ?rf = "rf\<lparr>registers := (registers rf)[nat i := f (registers rf ! nat i)]\<rparr>"
  have ok: "idx_ok i rf" and "\<forall>j\<in>set is. idx_ok j ?rf"
    using Cons.prems by (auto simp: idx_ok_def)
  from Cons.IH [OF this(2)] ok show ?case
    by (auto simp: idx_ok_def nth_list_update assms(1) intro!: regfile.fold_congs nth_equalityI)
qed

lemma update_each_pending:
  assumes "RegFile_inv w n rf" and "\<And>r. f (f r) = f r" and "\<And>r. Reg_quiet r \<Longrightarrow> f r = r"
  shows "update_each f (pending_writes rf) rf = Inr (rf\<lparr>registers := map f (registers rf)\<rparr>)"
proof -
  have "\<forall>i\<in>set (pending_writes rf). idx_ok i rf"
    using assms(1) by (simp add: RegFile_inv_def list_all_iff)
  moreover have "map (\<lambda>j. if int j \<in> set (pending_writes rf) then f (registers rf ! j)
      else registers rf ! j) [0..<length (registers rf)] = map f (registers rf)"
    using assms(1) by (intro nth_equalityI) (auto simp: RegFile_inv_iff assms(3))
  ultimately show ?thesis
    using update_each_eq [of f "pending_writes rf" rf] assms(2) by simp
qed

text \<open>The result of a commit or an abort does not depend on the order of the pending set.\<close>

lemma RegFile_commit_eq:
  "RegFile_inv w n rf \<Longrightarrow>
   RegFile_commit rf = Inr (rf\<lparr>registers := map Reg_commit (registers rf), pending_writes := []\<rparr>)"
  by (simp add: RegFile_commit_def update_each_pending Reg_commit_quiet)

lemma RegFile_abort_eq:
  "RegFile_inv w n rf \<Longrightarrow>
   RegFile_abort rf = Inr (rf\<lparr>registers := map Reg_abort (registers rf), pending_writes := []\<rparr>)"
  by (simp add: RegFile_abort_def update_each_pending Reg_abort_quiet)

lemma RegFile_inv_map:
  assumes "RegFile_inv w n rf" and "\<And>r. Reg_inv w r \<Longrightarrow> Reg_inv w (f r)" and "\<And>r. Reg_quiet (f r)"
  shows "RegFile_inv w n (rf\<lparr>registers := map f (registers rf), pending_writes := []\<rparr>)"
  using assms by (auto simp: RegFile_inv_def list_all_iff)

lemma RegFile_quiet_pend:
  "RegFile_inv w n rf \<Longrightarrow> RegFile_quiet rf \<Longrightarrow> RegFile_pend rf = RegFile_cur rf"
  by (auto simp: RegFile_inv_def RegFile_quiet_def RegFile_pend_def RegFile_cur_def list_all_iff
      Reg_quiet_def Reg_pend_def in_set_conv_nth intro!: nth_equalityI)

lemma RegFile_commit_law:
  "RegFile_inv w n rf \<Longrightarrow> returns (RegFile_commit rf)
     (\<lambda>rf'. RegFile_inv w n rf' \<and> RegFile_quiet rf' \<and> RegFile_cur rf' = RegFile_pend rf)"
  by (simp add: RegFile_commit_eq RegFile_inv_map Reg_inv_commit Reg_quiet_def)
    (simp add: RegFile_quiet_def RegFile_cur_def RegFile_pend_def)

lemma RegFile_abort_law:
  "RegFile_inv w n rf \<Longrightarrow> returns (RegFile_abort rf)
     (\<lambda>rf'. RegFile_inv w n rf' \<and> RegFile_quiet rf' \<and> RegFile_cur rf' = RegFile_cur rf)"
  by (simp add: RegFile_abort_eq RegFile_inv_map Reg_inv_abort Reg_quiet_def)
    (simp add: RegFile_quiet_def RegFile_cur_def)

interpretation regfile_staged:
  staged_component "RegFile_inv w n" "\<lambda>_. True" RegFile_quiet RegFile_cur RegFile_pend
    RegFile_commit RegFile_abort for w n
  by unfold_locales (auto simp: RegFile_commit_law RegFile_abort_law RegFile_quiet_pend)

lemma RegFile_init_inv: "RegFile_inv w n (RegFile_init pfx w n)"
  by (simp add: RegFile_inv_def RegFile_init_def Reg_inv_def Reg_quiet_def list_all_iff)

lemma RegFile_init_quiet: "RegFile_quiet (RegFile_init pfx w n)"
  by (simp add: RegFile_quiet_def RegFile_init_def)

lemma RegFile_read_unsigned_eq:
  "RegFile_inv w n rf \<Longrightarrow> 0 \<le> i \<Longrightarrow> i < int n \<Longrightarrow>
   RegFile_read_unsigned i rf = Inr (RegFile_cur rf ! nat i)"
  by (simp add: RegFile_read_unsigned_def RegFile_get_reg_def idx_ok_def RegFile_inv_def
      Reg_read_unsigned_def RegFile_cur_def)

lemma RegFile_cur_fits:
  "RegFile_inv w n rf \<Longrightarrow> i < n \<Longrightarrow> fits w (RegFile_cur rf ! i)"
  using RegFile_inv_nth [of w n rf i] by (auto simp: RegFile_inv_def RegFile_cur_def Reg_inv_def)

lemma RegFile_write_unsigned_eq:
  assumes "RegFile_inv w n rf" and "0 \<le> i" and "i < int n" and "fits w v"
  shows "RegFile_write_unsigned i v rf =
    Inr (rf\<lparr>registers := (registers rf)[nat i := (registers rf ! nat i)\<lparr>next_uval := Some v\<rparr>],
            pending_writes := List.insert i (pending_writes rf)\<rparr>)"
  using assms
  by (simp add: RegFile_write_unsigned_def RegFile_get_reg_def Reg_write_unsigned_def
      RegFile_mark_written_def RegFile_inv_iff idx_ok_def Reg_inv_def)

lemma RegFile_write_unsigned_ok:
  assumes "RegFile_inv w n rf" and "0 \<le> i" and "i < int n" and "fits w v"
  shows "returns (RegFile_write_unsigned i v rf) (\<lambda>rf'.
    RegFile_inv w n rf' \<and> RegFile_cur rf' = RegFile_cur rf \<and>
    RegFile_pend rf' = (RegFile_pend rf)[nat i := v])"
proof -
  let ?rs = "(registers rf)[nat i := (registers rf ! nat i)\<lparr>next_uval := Some v\<rparr>]"
  let ?rf = "rf\<lparr>registers := ?rs, pending_writes := List.insert i (pending_writes rf)\<rparr>"
  have "RegFile_inv w n ?rf"
    using assms by (auto simp: RegFile_inv_iff nth_list_update Reg_inv_def)
  moreover have "RegFile_cur ?rf = RegFile_cur rf"
    by (simp add: RegFile_cur_def map_update) (metis list_update_id map_update)
  moreover have "RegFile_pend ?rf = (RegFile_pend rf)[nat i := v]"
    by (simp add: RegFile_pend_def map_update Reg_pend_def)
  ultimately show ?thesis
    by (simp add: RegFile_write_unsigned_eq [OF assms])
qed

text \<open>The guards of the accesses: a bad index or an oversized value is an assertion failure.\<close>

lemma RegFile_read_unsigned_bad:
  "i < 0 \<or> int (length (registers rf)) \<le> i \<Longrightarrow> RegFile_read_unsigned i rf = Inl AssertionError"
  by (auto simp: RegFile_read_unsigned_def RegFile_get_reg_def idx_ok_def)

lemma RegFile_write_unsigned_bad:
  "RegFile_inv w n rf \<Longrightarrow> \<not> (0 \<le> i \<and> i < int n \<and> fits w v) \<Longrightarrow>
   RegFile_write_unsigned i v rf = Inl AssertionError"
  by (auto simp: RegFile_write_unsigned_def RegFile_get_reg_def Reg_write_unsigned_def
      RegFile_inv_iff idx_ok_def Reg_inv_def require_def)

end
