(* ===== verification/Gpr.thy ===== *)
theory Gpr
  imports Reg
begin

text \<open>
  The narrow register file: \<^verbatim>\<open>sim/gpr.py\<close> (class \<^verbatim>\<open>CallStackReg\<close>, class \<^verbatim>\<open>GPRs\<close>) with the
  error-bit constants of \<^verbatim>\<open>sim/err_bits.py\<close>.

  \<^verbatim>\<open>x0\<close> reads as zero and ignores writes, \<^verbatim>\<open>x1\<close> is the top of the call stack: reading it pops
  and writing it pushes, both at commit.  The two classes extend \<^verbatim>\<open>Reg\<close> and \<^verbatim>\<open>RegFile\<close>, so
  their records extend those records.  The Python list holding the call stack keeps its order: the
  top of the stack is the last element.
\<close>

section \<open>Error bits\<close>

definition BAD_DATA_ADDR :: int where "BAD_DATA_ADDR = push_bit 0 1"
definition BAD_INSN_ADDR :: int where "BAD_INSN_ADDR = push_bit 1 1"
definition CALL_STACK :: int where "CALL_STACK = push_bit 2 1"
definition ILLEGAL_INSN :: int where "ILLEGAL_INSN = push_bit 3 1"
definition LOOP_ERR :: int where "LOOP_ERR = push_bit 4 1"

lemmas err_bit_defs =
  BAD_DATA_ADDR_def BAD_INSN_ADDR_def CALL_STACK_def ILLEGAL_INSN_def LOOP_ERR_def

section \<open>Data and operations\<close>

record call_stack_reg = reg +
  stack :: "int list"
  saw_read :: bool

record gprs = regfile +
  x1 :: call_stack_reg
  gpr_err_flag :: bool

definition CallStackReg_init :: call_stack_reg where
  "CallStackReg_init =
     \<lparr>width = 32, uval = 0, next_uval = None, stack = [], saw_read = False\<rparr>"

definition GPRs_init :: gprs where
  "GPRs_init =
     regfile.extend (RegFile_init ''x'' 32 32)
       \<lparr>x1 = CallStackReg_init, gpr_err_flag = False\<rparr>"

text \<open>\<^verbatim>\<open>CallStackReg.read_unsigned\<close> sets the error flag of its parent when the stack is empty.\<close>

definition CallStackReg_read_unsigned :: "bool \<Rightarrow> (gprs, int) action" where
  "CallStackReg_read_unsigned backdoor g =
     (if backdoor then
        Inr (if stack (x1 g) \<noteq> [] then last (stack (x1 g)) else 0xcafef00d, g)
      else if stack (x1 g) = [] then Inr (0, g\<lparr>gpr_err_flag := True\<rparr>)
      else Inr (last (stack (x1 g)), g\<lparr>x1 := (x1 g)\<lparr>saw_read := True\<rparr>\<rparr>))"

definition CallStackReg_post_insn :: "gprs \<Rightarrow> gprs" where
  "CallStackReg_post_insn g =
     (if next_uval (x1 g) \<noteq> None \<and> \<not> saw_read (x1 g) \<and> length (stack (x1 g)) = 8
      then g\<lparr>gpr_err_flag := True\<rparr> else g)"

definition CallStackReg_commit :: "call_stack_reg \<Rightarrow> call_stack_reg result" where
  "CallStackReg_commit r =
     bindR
       (if saw_read r then
          require (stack r \<noteq> []) (Inr (r\<lparr>stack := butlast (stack r), saw_read := False\<rparr>))
        else Inr r) (\<lambda>r.
     bindR
       (case next_uval r of
          Some v \<Rightarrow> require (length (stack r) \<le> 8) (Inr (r\<lparr>stack := stack r @ [v]\<rparr>))
        | None \<Rightarrow> Inr r) (\<lambda>r.
     Inr (Reg_commit r)))"

definition CallStackReg_abort :: "call_stack_reg \<Rightarrow> call_stack_reg" where
  "CallStackReg_abort r = Reg_abort (r\<lparr>saw_read := False\<rparr>)"

text \<open>\<^verbatim>\<open>get_reg(idx).read_unsigned()\<close> and the other accesses instructions make through \<^verbatim>\<open>get_reg\<close>.\<close>

definition GPRs_read_unsigned :: "int \<Rightarrow> (gprs, int) action" where
  "GPRs_read_unsigned i g =
     (if i = 0 then Inr (0, g)
      else if i = 1 then CallStackReg_read_unsigned False g
      else bindR (RegFile_read_unsigned i g) (\<lambda>v. Inr (v, g)))"

definition GPRs_read_signed :: "int \<Rightarrow> (gprs, int) action" where
  "GPRs_read_signed i g =
     bindR (GPRs_read_unsigned i g) (\<lambda>(v, g'). Inr (signed_of 32 v, g'))"

definition GPRs_write_unsigned :: "int \<Rightarrow> int \<Rightarrow> gprs \<Rightarrow> gprs result" where
  "GPRs_write_unsigned i v g =
     (if i = 0 then bindR (bindR (Reg_init 32 0) (Reg_write_unsigned v)) (\<lambda>_. Inr g)
      else if i = 1 then
        bindR (Reg_write_unsigned v (x1 g)) (\<lambda>r.
        RegFile_mark_written 1 (g\<lparr>x1 := r\<rparr>))
      else RegFile_write_unsigned i v g)"

definition GPRs_write_signed :: "int \<Rightarrow> int \<Rightarrow> gprs \<Rightarrow> gprs result" where
  "GPRs_write_signed i v g =
     bindR (unsigned_of 32 v) (\<lambda>u. GPRs_write_unsigned i u g)"

definition GPRs_read_next :: "int \<Rightarrow> gprs \<Rightarrow> int option result" where
  "GPRs_read_next i g =
     (if i = 0 then bindR (Reg_init 32 0) (\<lambda>r. Inr (Reg_read_next r))
      else if i = 1 then Inr (Reg_read_next (x1 g))
      else bindR (RegFile_get_reg i g) (\<lambda>r. Inr (Reg_read_next r)))"

definition GPRs_changes :: "gprs \<Rightarrow> trace_register list result" where
  "GPRs_changes g = RegFile_changes_of (\<lambda>i. GPRs_read_next i g) g (sort (pending_writes g))"

definition GPRs_peek_call_stack :: "gprs \<Rightarrow> int list" where
  "GPRs_peek_call_stack g = stack (x1 g)"

definition GPRs_post_insn :: "gprs \<Rightarrow> gprs" where
  "GPRs_post_insn g = CallStackReg_post_insn g"

definition GPRs_err_bits :: "gprs \<Rightarrow> int" where
  "GPRs_err_bits g = (if gpr_err_flag g then CALL_STACK else 0)"

definition GPRs_commit :: "gprs \<Rightarrow> gprs result" where
  "GPRs_commit g =
     bindR (RegFile_commit g) (\<lambda>g.
     require (\<not> gpr_err_flag g)
       (bindR (CallStackReg_commit (x1 g)) (\<lambda>r. Inr (g\<lparr>x1 := r\<rparr>))))"

definition GPRs_abort :: "gprs \<Rightarrow> gprs result" where
  "GPRs_abort g =
     bindR (RegFile_abort g) (\<lambda>g.
     Inr (g\<lparr>x1 := CallStackReg_abort (x1 g), gpr_err_flag := False\<rparr>))"

section \<open>Invariant and views\<close>

text \<open>
  The first two elements of the underlying register list are never used: accesses to \<^verbatim>\<open>x0\<close> and
  \<^verbatim>\<open>x1\<close> are diverted.
\<close>

definition GPRs_inv :: "gprs \<Rightarrow> bool" where
  "GPRs_inv g \<longleftrightarrow>
     RegFile_inv 32 32 g \<and>
     registers g ! 0 = \<lparr>width = 32, uval = 0, next_uval = None\<rparr> \<and>
     registers g ! 1 = \<lparr>width = 32, uval = 0, next_uval = None\<rparr> \<and>
     0 \<notin> set (pending_writes g) \<and>
     (next_uval (x1 g) \<noteq> None \<longleftrightarrow> 1 \<in> set (pending_writes g)) \<and>
     width (x1 g) = 32 \<and> pred_option (fits 32) (next_uval (x1 g)) \<and>
     list_all (fits 32) (stack (x1 g)) \<and> length (stack (x1 g)) \<le> 8 \<and>
     (saw_read (x1 g) \<longrightarrow> stack (x1 g) \<noteq> [])"

definition GPRs_ready :: "gprs \<Rightarrow> bool" where
  "GPRs_ready g \<longleftrightarrow>
     \<not> gpr_err_flag g \<and>
     (next_uval (x1 g) = None \<or> saw_read (x1 g) \<or> length (stack (x1 g)) < 8)"

definition GPRs_quiet :: "gprs \<Rightarrow> bool" where
  "GPRs_quiet g \<longleftrightarrow>
     RegFile_quiet g \<and> next_uval (x1 g) = None \<and> \<not> saw_read (x1 g) \<and> \<not> gpr_err_flag g"

definition GPRs_cur :: "gprs \<Rightarrow> int list \<times> int list" where
  "GPRs_cur g = (RegFile_cur g, stack (x1 g))"

definition pend_stack :: "call_stack_reg \<Rightarrow> int list" where
  "pend_stack r =
     (if saw_read r then butlast (stack r) else stack r) @
     (case next_uval r of Some v \<Rightarrow> [v] | None \<Rightarrow> [])"

definition GPRs_pend :: "gprs \<Rightarrow> int list \<times> int list" where
  "GPRs_pend g = (RegFile_pend g, pend_stack (x1 g))"


section \<open>The staging laws\<close>

lemma GPRs_init_inv: "GPRs_inv GPRs_init"
  using RegFile_init_inv [of 32 32 "''x''"]
  by (simp add: GPRs_inv_def GPRs_init_def CallStackReg_init_def RegFile_inv_iff RegFile_init_def
      regfile.extend_def)

lemma GPRs_init_quiet: "GPRs_quiet GPRs_init"
  by (simp add: GPRs_quiet_def GPRs_init_def RegFile_quiet_def CallStackReg_init_def
      RegFile_init_def regfile.extend_def)

lemma CallStackReg_commit_eq:
  assumes "saw_read r \<longrightarrow> stack r \<noteq> []" and "length (stack r) \<le> 8"
  shows "CallStackReg_commit r =
    Inr (r\<lparr>uval := Reg_pend r, next_uval := None, stack := pend_stack r, saw_read := False\<rparr>)"
  using assms
  by (auto simp: CallStackReg_commit_def pend_stack_def Reg_commit_def Reg_pend_def
      split: option.splits)

lemma GPRs_commit_eq:
  assumes "GPRs_inv g" and "\<not> gpr_err_flag g"
  shows "GPRs_commit g =
    Inr (g\<lparr>registers := map Reg_commit (registers g), pending_writes := [],
           x1 := (x1 g)\<lparr>uval := Reg_pend (x1 g), next_uval := None,
                        stack := pend_stack (x1 g), saw_read := False\<rparr>\<rparr>)"
  using assms
  by (simp add: GPRs_commit_def GPRs_inv_def RegFile_commit_eq [of 32 32 g] CallStackReg_commit_eq)

lemma GPRs_abort_eq:
  assumes "GPRs_inv g"
  shows "GPRs_abort g =
    Inr (g\<lparr>registers := map Reg_abort (registers g), pending_writes := [],
           x1 := (x1 g)\<lparr>next_uval := None, saw_read := False\<rparr>, gpr_err_flag := False\<rparr>)"
  using assms
  by (simp add: GPRs_abort_def GPRs_inv_def RegFile_abort_eq [of 32 32 g] CallStackReg_abort_def
      Reg_abort_def)

lemma GPRs_regs_map:
  assumes "GPRs_inv g" and "RegFile_inv 32 32 (g\<lparr>registers := map f (registers g), pending_writes := []\<rparr>)"
    and "\<And>r. Reg_quiet r \<Longrightarrow> f r = (r :: reg)"
  shows "map f (registers g) ! 0 = registers g ! 0" and "map f (registers g) ! 1 = registers g ! 1"
  using assms by (auto simp: GPRs_inv_def RegFile_inv_iff Reg_quiet_def)

lemma pend_stack_ok:
  "GPRs_inv g \<Longrightarrow> GPRs_ready g \<Longrightarrow>
   list_all (fits 32) (pend_stack (x1 g)) \<and> length (pend_stack (x1 g)) \<le> 8"
  by (auto simp: GPRs_inv_def GPRs_ready_def pend_stack_def list_all_iff
      split: option.splits dest: in_set_butlastD)

lemma GPRs_commit_law:
  assumes "GPRs_inv g" and "GPRs_ready g"
  shows "returns (GPRs_commit g) (\<lambda>g'. GPRs_inv g' \<and> GPRs_quiet g' \<and> GPRs_cur g' = GPRs_pend g)"
proof -
  let ?g = "g\<lparr>registers := map Reg_commit (registers g), pending_writes := []\<rparr>"
  have rf: "RegFile_inv 32 32 ?g"
    using assms(1) by (intro RegFile_inv_map) (auto simp: GPRs_inv_def Reg_inv_commit Reg_quiet_def)
  from GPRs_regs_map [OF assms(1) this Reg_commit_quiet] assms pend_stack_ok [OF assms]
  show ?thesis
    using rf
    by (simp add: GPRs_commit_eq GPRs_ready_def)
      (auto simp: GPRs_inv_def RegFile_inv_iff GPRs_quiet_def RegFile_quiet_def GPRs_cur_def
        GPRs_pend_def RegFile_cur_def RegFile_pend_def)
qed

lemma GPRs_abort_law:
  assumes "GPRs_inv g"
  shows "returns (GPRs_abort g) (\<lambda>g'. GPRs_inv g' \<and> GPRs_quiet g' \<and> GPRs_cur g' = GPRs_cur g)"
proof -
  let ?g = "g\<lparr>registers := map Reg_abort (registers g), pending_writes := []\<rparr>"
  have rf: "RegFile_inv 32 32 ?g"
    using assms(1) by (intro RegFile_inv_map) (auto simp: GPRs_inv_def Reg_inv_abort Reg_quiet_def)
  from GPRs_regs_map [OF assms(1) this Reg_abort_quiet] assms show ?thesis
    using rf
    by (simp add: GPRs_abort_eq)
      (auto simp: GPRs_inv_def RegFile_inv_iff GPRs_quiet_def RegFile_quiet_def GPRs_cur_def
        RegFile_cur_def)
qed

lemma GPRs_quiet_pend: "GPRs_inv g \<Longrightarrow> GPRs_quiet g \<Longrightarrow> GPRs_pend g = GPRs_cur g"
  by (simp add: GPRs_pend_def GPRs_cur_def GPRs_inv_def GPRs_quiet_def pend_stack_def
      RegFile_quiet_pend [of 32 32 g])

lemma GPRs_quiet_ready: "GPRs_quiet g \<Longrightarrow> GPRs_ready g"
  by (simp add: GPRs_quiet_def GPRs_ready_def)

interpretation gprs_staged:
  staged_component GPRs_inv GPRs_ready GPRs_quiet GPRs_cur GPRs_pend GPRs_commit GPRs_abort
  by unfold_locales
    (auto simp: GPRs_commit_law GPRs_abort_law GPRs_quiet_pend GPRs_quiet_ready)

section \<open>Reads and writes\<close>

text \<open>
  What a read returns and leaves behind, and what a write stages.  \<open>gpr_value\<close> is the value an
  instruction sees at an index.
\<close>

definition gpr_value :: "gprs \<Rightarrow> int \<Rightarrow> int" where
  "gpr_value g i =
     (if i = 0 then 0
      else if i = 1 then (if stack (x1 g) = [] then 0 else last (stack (x1 g)))
      else RegFile_cur g ! nat i)"

lemma gpr_value_fits:
  assumes "GPRs_inv g" and "0 \<le> i" and "i < 32"
  shows "fits 32 (gpr_value g i)"
  using assms RegFile_cur_fits [of 32 32 g "nat i"]
  by (auto simp: gpr_value_def GPRs_inv_def list_all_iff)

text \<open>The state after a read: \<^verbatim>\<open>x1\<close> records the pop, or the error of popping an empty stack.\<close>

definition gpr_after_read :: "gprs \<Rightarrow> int \<Rightarrow> gprs" where
  "gpr_after_read g i =
     (if i \<noteq> 1 then g
      else if stack (x1 g) = [] then g\<lparr>gpr_err_flag := True\<rparr>
      else g\<lparr>x1 := (x1 g)\<lparr>saw_read := True\<rparr>\<rparr>)"

lemma GPRs_read_unsigned_eq:
  assumes "GPRs_inv g" and "0 \<le> i" and "i < 32"
  shows "GPRs_read_unsigned i g = Inr (gpr_value g i, gpr_after_read g i)"
  using assms RegFile_read_unsigned_eq [of 32 32 g i]
  by (simp add: GPRs_read_unsigned_def gpr_value_def gpr_after_read_def
      CallStackReg_read_unsigned_def GPRs_inv_def)

lemma gpr_after_read_inv [simp]: "GPRs_inv g \<Longrightarrow> GPRs_inv (gpr_after_read g i)"
  by (auto simp: gpr_after_read_def GPRs_inv_def RegFile_inv_iff)

lemma gpr_after_read_cur [simp]:
  "GPRs_cur (gpr_after_read g i) = GPRs_cur g"
  "gpr_value (gpr_after_read g i) j = gpr_value g j"
  by (simp_all add: gpr_after_read_def GPRs_cur_def gpr_value_def RegFile_cur_def)

lemma GPRs_write_unsigned_ok:
  assumes "GPRs_inv g" and "0 \<le> i" and "i < 32" and "fits 32 v"
  shows "returns (GPRs_write_unsigned i v g) (\<lambda>g'.
    GPRs_inv g' \<and> GPRs_cur g' = GPRs_cur g \<and> gpr_err_flag g' = gpr_err_flag g \<and>
    saw_read (x1 g') = saw_read (x1 g) \<and>
    RegFile_pend g' = (if i \<le> 1 then RegFile_pend g else (RegFile_pend g)[nat i := v]) \<and>
    next_uval (x1 g') = (if i = 1 then Some v else next_uval (x1 g)))"
proof -
  have rf: "RegFile_inv 32 32 g" using assms(1) by (simp add: GPRs_inv_def)
  consider "i = 0" | "i = 1" | "2 \<le> i" using assms(2) by linarith
  then show ?thesis
  proof cases
    case 1
    then show ?thesis
      using assms by (simp add: GPRs_write_unsigned_def Reg_init_def Reg_write_unsigned_def)
  next
    case 2
    then show ?thesis
      using assms rf
      by (auto simp: GPRs_write_unsigned_def Reg_write_unsigned_def RegFile_mark_written_def
          GPRs_inv_def RegFile_inv_iff idx_ok_def GPRs_cur_def RegFile_cur_def RegFile_pend_def)
  next
    case 3
    then have "GPRs_write_unsigned i v g = RegFile_write_unsigned i v g"
      by (simp add: GPRs_write_unsigned_def)
    then show ?thesis
      using 3 assms RegFile_write_unsigned_ok [OF rf assms(2) _ assms(4)]
      by (simp add: RegFile_write_unsigned_eq [OF rf assms(2) _ assms(4)])
        (auto simp: GPRs_inv_def GPRs_cur_def)
  qed
qed

text \<open>A write to \<^verbatim>\<open>x0\<close> has no effect, whatever the value (of the right width).\<close>

lemma GPRs_write_x0: "fits 32 v \<Longrightarrow> GPRs_write_unsigned 0 v g = Inr g"
  by (simp add: GPRs_write_unsigned_def Reg_init_def Reg_write_unsigned_def)

lemma GPRs_write_bad_value:
  "GPRs_inv g \<Longrightarrow> 0 \<le> i \<Longrightarrow> i < 32 \<Longrightarrow> \<not> fits 32 v \<Longrightarrow>
   GPRs_write_unsigned i v g = Inl AssertionError"
  by (auto simp: GPRs_write_unsigned_def Reg_init_def Reg_write_unsigned_def GPRs_inv_def
      RegFile_write_unsigned_bad [of 32 32])


section \<open>Properties\<close>

lemma GPRs_post_insn_quiet: "GPRs_ready g \<Longrightarrow> GPRs_post_insn g = g"
  by (auto simp: GPRs_post_insn_def CallStackReg_post_insn_def GPRs_ready_def)

lemma GPRs_post_insn_flag:
  "GPRs_inv g \<Longrightarrow> gpr_err_flag (GPRs_post_insn g) \<longleftrightarrow> \<not> GPRs_ready g"
  by (auto simp: GPRs_post_insn_def CallStackReg_post_insn_def GPRs_ready_def GPRs_inv_def)

lemma GPRs_post_insn_keeps [simp]:
  "GPRs_inv (GPRs_post_insn g) = GPRs_inv g"
  "GPRs_cur (GPRs_post_insn g) = GPRs_cur g"
  "GPRs_pend (GPRs_post_insn g) = GPRs_pend g"
  by (auto simp: GPRs_post_insn_def CallStackReg_post_insn_def GPRs_inv_def GPRs_cur_def
      GPRs_pend_def RegFile_cur_def RegFile_pend_def RegFile_inv_iff)

lemma GPRs_push:
  assumes "GPRs_inv g" and "GPRs_quiet g" and "length (stack (x1 g)) < 8" and "fits 32 v"
  shows "returns (GPRs_write_unsigned 1 v g) (\<lambda>g1.
    GPRs_inv g1 \<and> GPRs_ready g1 \<and> GPRs_pend g1 = (RegFile_cur g, stack (x1 g) @ [v]))"
  using assms RegFile_quiet_pend [of 32 32 g]
  by (auto simp: GPRs_quiet_def GPRs_ready_def GPRs_pend_def pend_stack_def GPRs_cur_def GPRs_inv_def
      intro!: returns_mono [OF GPRs_write_unsigned_ok])

lemma GPRs_pop:
  assumes "GPRs_inv g" and "GPRs_quiet g" and "stack (x1 g) = xs @ [v]"
  shows "returns (GPRs_read_unsigned 1 g) (\<lambda>(u, g1).
    u = v \<and> GPRs_inv g1 \<and> GPRs_ready g1 \<and> GPRs_pend g1 = (RegFile_cur g, xs))"
  using assms RegFile_quiet_pend [of 32 32 g]
  by (auto simp: GPRs_read_unsigned_eq gpr_value_def gpr_after_read_def GPRs_quiet_def GPRs_ready_def
      GPRs_pend_def pend_stack_def GPRs_inv_def RegFile_inv_iff RegFile_pend_def RegFile_cur_def)

text \<open>
  The call stack behind \<^verbatim>\<open>x1\<close> is last-in first-out.  Writing a value to \<^verbatim>\<open>x1\<close> in one
  instruction (as \<^verbatim>\<open>jal x1\<close> does) and reading \<^verbatim>\<open>x1\<close> in the next (as the returning
  \<^verbatim>\<open>jalr x0, x1\<close> does) delivers that value, and after the second commit the registers and the
  call stack are exactly what they were, as long as the stack was not full.
\<close>

theorem call_stack_round_trip:
  assumes "GPRs_inv g" and "GPRs_quiet g" and "length (stack (x1 g)) < 8" and "fits 32 v"
  shows "returns
    (bindR (GPRs_write_unsigned 1 v g) (\<lambda>g1.
     bindR (GPRs_commit (GPRs_post_insn g1)) (\<lambda>g2.
     bindR (GPRs_read_unsigned 1 g2) (\<lambda>(u, g3).
     bindR (GPRs_commit (GPRs_post_insn g3)) (\<lambda>g4. Inr (u, g2, g4))))))
    (\<lambda>(u, g2, g4). u = v \<and> stack (x1 g2) = stack (x1 g) @ [v] \<and>
       GPRs_cur g4 = GPRs_cur g \<and> GPRs_inv g4 \<and> GPRs_quiet g4)"
proof (rule returns_bindRI [OF GPRs_push [OF assms]], elim conjE)
  fix g1
  assume g1: "GPRs_inv g1" "GPRs_ready g1" "GPRs_pend g1 = (RegFile_cur g, stack (x1 g) @ [v])"
  show "returns (bindR (GPRs_commit (GPRs_post_insn g1)) (\<lambda>g2.
     bindR (GPRs_read_unsigned 1 g2) (\<lambda>(u, g3).
     bindR (GPRs_commit (GPRs_post_insn g3)) (\<lambda>g4. Inr (u, g2, g4)))))
    (\<lambda>(u, g2, g4). u = v \<and> stack (x1 g2) = stack (x1 g) @ [v] \<and>
       GPRs_cur g4 = GPRs_cur g \<and> GPRs_inv g4 \<and> GPRs_quiet g4)"
    unfolding GPRs_post_insn_quiet [OF g1(2)]
  proof (rule returns_bindRI [OF GPRs_commit_law [OF g1(1,2)]], elim conjE)
    fix g2
    assume g2: "GPRs_inv g2" "GPRs_quiet g2" "GPRs_cur g2 = GPRs_pend g1"
    then have st: "stack (x1 g2) = stack (x1 g) @ [v]" and rf: "RegFile_cur g2 = RegFile_cur g"
      using g1(3) by (simp_all add: GPRs_cur_def)
    show "returns (bindR (GPRs_read_unsigned 1 g2) (\<lambda>(u, g3).
       bindR (GPRs_commit (GPRs_post_insn g3)) (\<lambda>g4. Inr (u, g2, g4))))
      (\<lambda>(u, g2, g4). u = v \<and> stack (x1 g2) = stack (x1 g) @ [v] \<and>
         GPRs_cur g4 = GPRs_cur g \<and> GPRs_inv g4 \<and> GPRs_quiet g4)"
      by (rule returns_bindRI [OF GPRs_pop [OF g2(1,2) st]])
        (auto simp: st rf GPRs_cur_def [of g] GPRs_post_insn_quiet
          intro!: returns_bindRI [OF GPRs_commit_law])
  qed
qed

theorem call_stack_round_trip_witness:
  "length (stack (x1 GPRs_init)) < 8 \<and>
   returns
    (bindR (GPRs_write_unsigned 1 0x44 GPRs_init) (\<lambda>g1.
     bindR (GPRs_commit (GPRs_post_insn g1)) (\<lambda>g2.
     bindR (GPRs_read_unsigned 1 g2) (\<lambda>(u, g3).
     bindR (GPRs_commit (GPRs_post_insn g3)) (\<lambda>g4. Inr (u, g2, g4))))))
    (\<lambda>(u, g2, g4). u = 0x44 \<and> stack (x1 g2) = stack (x1 GPRs_init) @ [0x44] \<and>
       GPRs_cur g4 = GPRs_cur GPRs_init \<and> GPRs_inv g4 \<and> GPRs_quiet g4)"
proof -
  have h: "length (stack (x1 GPRs_init)) < 8" "fits 32 (0x44 :: int)"
    by (simp_all add: GPRs_init_def CallStackReg_init_def fits_def regfile.extend_def)
  show ?thesis
    using call_stack_round_trip [OF GPRs_init_inv GPRs_init_quiet h] h(1) by simp
qed

text \<open>
  C33: the call stack errors.  In one instruction that may read \<^verbatim>\<open>x1\<close> and may then write it, the
  error bit \<^verbatim>\<open>CALL_STACK\<close> is reported exactly when it reads an empty stack, or writes a full
  stack (depth 8) without reading it; popping and pushing a full stack in one instruction is
  allowed.
\<close>

theorem call_stack_errors:
  assumes "GPRs_inv g" and "GPRs_quiet g" and "fits 32 v"
  shows "returns
    (bindR (if rd then GPRs_read_unsigned 1 g else Inr (0, g)) (\<lambda>(u, g1).
     bindR (if wr then GPRs_write_unsigned 1 v g1 else Inr g1) (\<lambda>g2.
     Inr (GPRs_err_bits (GPRs_post_insn g2)))))
    (\<lambda>e. e = (if (rd \<and> stack (x1 g) = []) \<or> (wr \<and> \<not> rd \<and> length (stack (x1 g)) = 8)
              then CALL_STACK else 0))"
  using assms
  by (auto simp: GPRs_read_unsigned_def CallStackReg_read_unsigned_def GPRs_write_unsigned_def
      Reg_write_unsigned_def RegFile_mark_written_def idx_ok_def GPRs_inv_def RegFile_inv_iff
      GPRs_quiet_def GPRs_err_bits_def GPRs_post_insn_def CallStackReg_post_insn_def)

theorem call_stack_errors_witness:
  "GPRs_inv GPRs_init \<and> GPRs_quiet GPRs_init \<and>
   returns
    (bindR (if True then GPRs_read_unsigned 1 GPRs_init else Inr (0, GPRs_init)) (\<lambda>(u, g1).
     bindR (if True then GPRs_write_unsigned 1 7 g1 else Inr g1) (\<lambda>g2.
     Inr (GPRs_err_bits (GPRs_post_insn g2))))) (\<lambda>e. e = CALL_STACK)"
proof -
  have "fits 32 (7::int)" by (simp add: fits_def)
  from call_stack_errors [OF GPRs_init_inv GPRs_init_quiet this, of True True] show ?thesis
    by (simp add: GPRs_init_inv GPRs_init_quiet)
      (simp add: GPRs_init_def CallStackReg_init_def regfile.extend_def)
qed

text \<open>
  The register dump shows \<^verbatim>\<open>x1\<close> as zero.  \<^verbatim>\<open>peek_unsigned_values\<close> reads the unused element
  1 of the underlying list, not the call stack, so it gives 0 even when the call stack holds a
  different value at its top (which a read of \<^verbatim>\<open>x1\<close> by an instruction returns).
\<close>

lemma peek_x1_is_zero:
  assumes "GPRs_inv g" and "stack (x1 g) = xs @ [v]"
  shows "RegFile_peek_unsigned_values g ! 1 = 0 \<and>
    (\<exists>g'. GPRs_read_unsigned 1 g = Inr (v, g'))"
  using assms
  by (auto simp: RegFile_peek_unsigned_values_def GPRs_inv_def RegFile_inv_iff Reg_read_unsigned_def
      GPRs_read_unsigned_def CallStackReg_read_unsigned_def)

lemma peek_x1_is_zero_demo:
  "RegFile_peek_unsigned_values (GPRs_init\<lparr>x1 := CallStackReg_init\<lparr>stack := [0x44]\<rparr>\<rparr>) ! 1 = 0 \<and>
   (\<exists>g'. GPRs_read_unsigned 1 (GPRs_init\<lparr>x1 := CallStackReg_init\<lparr>stack := [0x44]\<rparr>\<rparr>) = Inr (0x44, g'))"
proof -
  let ?g = "GPRs_init\<lparr>x1 := CallStackReg_init\<lparr>stack := [0x44]\<rparr>\<rparr>"
  have "GPRs_inv ?g"
    using GPRs_init_inv
    by (simp add: GPRs_inv_def RegFile_inv_iff fits_def CallStackReg_init_def)
      (simp add: GPRs_init_def RegFile_init_def regfile.extend_def CallStackReg_init_def)
  then show ?thesis
    using peek_x1_is_zero [of ?g "[]" "0x44"] by simp
qed

end
