(* ===== verification/Loop_Stack.thy ===== *)
theory Loop_Stack
  imports Gpr
begin

text \<open>
  The hardware loop stack: \<^verbatim>\<open>sim/loop.py\<close> (class \<^verbatim>\<open>LoopLevel\<close>, class \<^verbatim>\<open>LoopStack\<close>).

  The Python list keeps its order, so the innermost loop is the last element.  Unlike the other
  components the stack is not staged: \<^verbatim>\<open>start_loop\<close> pushes at once and \<^verbatim>\<open>step\<close> decrements the
  innermost counter at once; only the pop of a finished loop waits for \<^verbatim>\<open>commit\<close>, and \<^verbatim>\<open>abort\<close>
  undoes neither.
\<close>

section \<open>Data and operations\<close>

record loop_level =
  loop_count :: int
  restarts_left :: int
  start_addr :: int
  last_addr :: int

datatype loop_trace = TraceLoopStart int int | TraceLoopIteration int int

record loop_stack =
  levels :: "loop_level list"
  loop_traces :: "loop_trace list"
  loop_err_flag :: bool
  pop_stack_on_commit :: bool

definition LoopLevel_init :: "int \<Rightarrow> int \<Rightarrow> int \<Rightarrow> loop_level result" where
  "LoopLevel_init start insn_count restarts =
     require (0 \<le> start \<and> 0 < insn_count \<and> 0 \<le> restarts)
       (Inr \<lparr>loop_count = 1 + restarts, restarts_left = restarts, start_addr = start,
             last_addr = start + 4 * insn_count - 4\<rparr>)"

definition LoopLevel_get_loop_insn_addr :: "loop_level \<Rightarrow> int result" where
  "LoopLevel_get_loop_insn_addr l = require (4 \<le> start_addr l) (Inr (start_addr l - 4))"

definition LoopStack_depth :: nat where
  "LoopStack_depth = 8"

definition LoopStack_init :: loop_stack where
  "LoopStack_init =
     \<lparr>levels = [], loop_traces = [], loop_err_flag = False, pop_stack_on_commit = False\<rparr>"

definition LoopStack_start_loop :: "int \<Rightarrow> int \<Rightarrow> int \<Rightarrow> loop_stack \<Rightarrow> loop_stack result" where
  "LoopStack_start_loop start count insn_count ls =
     require (0 \<le> start \<and> 0 < insn_count \<and> 0 < count)
       (let ls1 = (if length (levels ls) = LoopStack_depth then ls\<lparr>loop_err_flag := True\<rparr> else ls)
        in bindR (LoopLevel_init start insn_count (count - 1)) (\<lambda>l.
           Inr (ls1\<lparr>loop_traces := loop_traces ls1 @ [TraceLoopStart count insn_count],
                    levels := levels ls1 @ [l]\<rparr>)))"

definition LoopStack_is_last_insn :: "int \<Rightarrow> loop_stack \<Rightarrow> bool" where
  "LoopStack_is_last_insn pc ls \<longleftrightarrow> levels ls \<noteq> [] \<and> pc = last_addr (last (levels ls))"

definition LoopStack_check_insn :: "int \<Rightarrow> bool \<Rightarrow> loop_stack \<Rightarrow> loop_stack" where
  "LoopStack_check_insn pc affects_control ls =
     (if LoopStack_is_last_insn pc ls \<and> affects_control then ls\<lparr>loop_err_flag := True\<rparr> else ls)"

definition LoopStack_step :: "int \<Rightarrow> (loop_stack, int option) action" where
  "LoopStack_step pc ls0 =
     (let ls = ls0\<lparr>pop_stack_on_commit := False\<rparr>
      in if LoopStack_is_last_insn pc ls then
           require (levels ls \<noteq> [])
            (let top = last (levels ls)
             in require (0 \<le> restarts_left top)
                 (let loop_idx = loop_count top - restarts_left top;
                      tr = TraceLoopIteration loop_idx (loop_count top)
                  in if restarts_left top = 0 then
                       Inr (None, ls\<lparr>pop_stack_on_commit := True, loop_traces := loop_traces ls @ [tr]\<rparr>)
                     else
                       Inr (Some (start_addr top),
                         ls\<lparr>levels := butlast (levels ls) @ [top\<lparr>restarts_left := restarts_left top - 1\<rparr>],
                            loop_traces := loop_traces ls @ [tr]\<rparr>)))
         else Inr (None, ls))"

definition LoopStack_err_bits :: "loop_stack \<Rightarrow> int" where
  "LoopStack_err_bits ls = (if loop_err_flag ls then LOOP_ERR else 0)"

definition LoopStack_changes :: "loop_stack \<Rightarrow> loop_trace list" where
  "LoopStack_changes ls = loop_traces ls"

definition LoopStack_commit :: "loop_stack \<Rightarrow> loop_stack result" where
  "LoopStack_commit ls =
     require (\<not> loop_err_flag ls)
       (bindR (if pop_stack_on_commit ls
               then (if levels ls = [] then Inl IndexError
                     else Inr (ls\<lparr>levels := butlast (levels ls)\<rparr>))
               else Inr ls) (\<lambda>ls.
        Inr (ls\<lparr>loop_traces := []\<rparr>)))"

definition LoopStack_abort :: "loop_stack \<Rightarrow> loop_stack" where
  "LoopStack_abort ls = ls\<lparr>loop_traces := [], loop_err_flag := False\<rparr>"

section \<open>Invariant\<close>

definition LoopLevel_inv :: "loop_level \<Rightarrow> bool" where
  "LoopLevel_inv l \<longleftrightarrow>
     0 \<le> restarts_left l \<and> restarts_left l < loop_count l \<and> 4 \<le> start_addr l \<and>
     start_addr l \<le> last_addr l"

text \<open>
  Between instructions the depth is at most eight; within an instruction it can be larger, and
  then the error flag is set.
\<close>

definition LoopStack_inv :: "loop_stack \<Rightarrow> bool" where
  "LoopStack_inv ls \<longleftrightarrow>
     list_all LoopLevel_inv (levels ls) \<and>
     (\<not> loop_err_flag ls \<longrightarrow> length (levels ls) \<le> LoopStack_depth)"

text \<open>What \<^verbatim>\<open>step\<close> establishes and \<^verbatim>\<open>commit\<close> needs.\<close>

definition LoopStack_ready :: "loop_stack \<Rightarrow> bool" where
  "LoopStack_ready ls \<longleftrightarrow> \<not> loop_err_flag ls \<and> (pop_stack_on_commit ls \<longrightarrow> levels ls \<noteq> [])"

lemma LoopStack_init_inv: "LoopStack_inv LoopStack_init"
  by (simp add: LoopStack_inv_def LoopStack_init_def)

lemma LoopStack_start_loop_eq:
  assumes "0 \<le> start" and "0 < insn_count" and "0 < count"
  shows "LoopStack_start_loop start count insn_count ls =
    Inr (ls\<lparr>loop_err_flag := loop_err_flag ls \<or> length (levels ls) = LoopStack_depth,
            loop_traces := loop_traces ls @ [TraceLoopStart count insn_count],
            levels := levels ls @ [\<lparr>loop_count = count, restarts_left = count - 1, start_addr = start,
                                    last_addr = start + 4 * insn_count - 4\<rparr>]\<rparr>)"
  using assms by (simp add: LoopStack_start_loop_def LoopLevel_init_def Let_def)

lemma LoopStack_start_loop_inv:
  assumes "LoopStack_inv ls" and "4 \<le> start" and "0 < insn_count" and "0 < count"
  shows "returns (LoopStack_start_loop start count insn_count ls) LoopStack_inv"
  using assms
  by (auto simp: LoopStack_start_loop_eq LoopStack_inv_def LoopLevel_inv_def split: if_splits)

lemma LoopStack_check_insn_inv:
  "LoopStack_inv ls \<Longrightarrow> LoopStack_inv (LoopStack_check_insn pc a ls)"
  by (auto simp: LoopStack_check_insn_def LoopStack_inv_def LoopStack_depth_def split: if_splits)

lemma LoopStack_step_inv:
  assumes "LoopStack_inv ls"
  shows "returns (LoopStack_step pc ls) (\<lambda>(r, ls'). LoopStack_inv ls' \<and>
    loop_err_flag ls' = loop_err_flag ls \<and> length (levels ls') = length (levels ls) \<and>
    (pop_stack_on_commit ls' \<longrightarrow> levels ls' \<noteq> []) \<and>
    map start_addr (levels ls') = map start_addr (levels ls) \<and>
    (\<forall>a. r = Some a \<longrightarrow> 4 \<le> a \<and> a \<le> pc \<and> a \<in> set (map start_addr (levels ls))))"
proof (cases "levels ls = []")
  case True
  then show ?thesis
    using assms by (simp add: LoopStack_step_def LoopStack_is_last_insn_def LoopStack_inv_def Let_def)
next
  case False
  then obtain xs x where "levels ls = xs @ [x]" by (metis rev_exhaust)
  then show ?thesis
    using assms
    by (auto simp: LoopStack_step_def LoopStack_is_last_insn_def LoopStack_inv_def LoopLevel_inv_def
        Let_def list_all_iff split: if_splits)
qed

lemma LoopStack_commit_eq:
  "LoopStack_ready ls \<Longrightarrow> LoopStack_commit ls =
    Inr (ls\<lparr>loop_traces := [],
            levels := (if pop_stack_on_commit ls then butlast (levels ls) else levels ls)\<rparr>)"
  by (simp add: LoopStack_commit_def LoopStack_ready_def)

lemma LoopStack_commit_inv:
  "LoopStack_inv ls \<Longrightarrow> LoopStack_ready ls \<Longrightarrow>
   returns (LoopStack_commit ls) (\<lambda>ls'. LoopStack_inv ls' \<and> \<not> loop_err_flag ls' \<and> loop_traces ls' = [])"
  by (auto simp: LoopStack_commit_eq LoopStack_ready_def LoopStack_inv_def list_all_iff
      dest: in_set_butlastD)

lemma LoopStack_abort_inv:
  "LoopStack_inv ls \<Longrightarrow> length (levels ls) \<le> LoopStack_depth \<Longrightarrow> LoopStack_inv (LoopStack_abort ls)"
  by (simp add: LoopStack_abort_def LoopStack_inv_def)

section \<open>Properties\<close>

text \<open>Running the end-of-body step and the commit of \<open>k\<close> successive iterations.\<close>

fun run_iterations :: "nat \<Rightarrow> int \<Rightarrow> (loop_stack, int option list) action" where
  "run_iterations 0 pc ls = Inr ([], ls)"
| "run_iterations (Suc k) pc ls =
     bindR (LoopStack_step pc ls) (\<lambda>(r, ls1).
     bindR (LoopStack_commit ls1) (\<lambda>ls2.
     bindR (run_iterations k pc ls2) (\<lambda>(rs, ls3). Inr (r # rs, ls3))))"

lemma LoopStack_step_last:
  assumes "levels ls = outer @ [l]" and "0 \<le> restarts_left l"
  shows "LoopStack_step (last_addr l) ls =
    (let tr = loop_traces ls @ [TraceLoopIteration (loop_count l - restarts_left l) (loop_count l)]
     in if restarts_left l = 0
        then Inr (None, ls\<lparr>pop_stack_on_commit := True, loop_traces := tr\<rparr>)
        else Inr (Some (start_addr l),
          ls\<lparr>pop_stack_on_commit := False, loop_traces := tr,
             levels := outer @ [l\<lparr>restarts_left := restarts_left l - 1\<rparr>]\<rparr>))"
  using assms by (simp add: LoopStack_step_def LoopStack_is_last_insn_def Let_def)

lemma run_iterations_level:
  assumes "levels ls = outer @ [l]" and "restarts_left l = int k" and "\<not> loop_err_flag ls"
  shows "returns (run_iterations (Suc k) (last_addr l) ls) (\<lambda>(rs, ls').
    rs = replicate k (Some (start_addr l)) @ [None] \<and> levels ls' = outer \<and> \<not> loop_err_flag ls')"
  using assms
proof (induction k arbitrary: ls l)
  case 0
  then show ?case
    by (simp add: LoopStack_step_last LoopStack_commit_def)
next
  case (Suc k)
  let ?l = "l\<lparr>restarts_left := restarts_left l - 1\<rparr>"
  let ?ls = "ls\<lparr>pop_stack_on_commit := False, levels := outer @ [?l], loop_traces := []\<rparr>"
  have "LoopStack_step (last_addr l) ls =
    Inr (Some (start_addr l), ?ls\<lparr>loop_traces :=
      loop_traces ls @ [TraceLoopIteration (loop_count l - restarts_left l) (loop_count l)]\<rparr>)"
    using Suc.prems by (simp add: LoopStack_step_last Let_def)
  then have eq: "run_iterations (Suc (Suc k)) (last_addr l) ls =
    bindR (run_iterations (Suc k) (last_addr ?l) ?ls) (\<lambda>(rs, ls3). Inr (Some (start_addr l) # rs, ls3))"
    using Suc.prems(3) run_iterations.simps(2) [of "Suc k" "last_addr l" ls]
    by (simp add: LoopStack_commit_def del: run_iterations.simps)
  have "returns (run_iterations (Suc k) (last_addr ?l) ?ls) (\<lambda>(rs, ls').
    rs = replicate k (Some (start_addr ?l)) @ [None] \<and> levels ls' = outer \<and> \<not> loop_err_flag ls')"
    using Suc.prems by (intro Suc.IH) simp_all
  then show ?case
    unfolding eq by (rule returns_bindRI) auto
qed

text \<open>
  C3: a loop runs its body exactly the requested number of times.  After \<^verbatim>\<open>start_loop\<close> with a
  positive count \<open>n\<close> on a stack that is not full, the first \<open>n - 1\<close> times the last instruction of
  the body finishes, the PC is sent back to the start of the body; the \<open>n\<close>th time it is not, and
  the loop is popped, leaving the enclosing loops untouched.
\<close>

theorem loop_runs_body_count_times:
  assumes "\<not> loop_err_flag ls" and "length (levels ls) < LoopStack_depth"
    and "0 \<le> start" and "0 < bodysize"
  shows "returns
    (bindR (LoopStack_start_loop start (int (Suc k)) bodysize ls)
      (run_iterations (Suc k) (start + 4 * bodysize - 4)))
    (\<lambda>(rs, ls'). rs = replicate k (Some start) @ [None] \<and> levels ls' = levels ls \<and>
       \<not> loop_err_flag ls')"
proof -
  let ?l = "\<lparr>loop_count = int (Suc k), restarts_left = int (Suc k) - 1, start_addr = start,
             last_addr = start + 4 * bodysize - 4\<rparr>"
  show ?thesis
    using assms run_iterations_level [of "ls\<lparr>loop_err_flag := False,
        loop_traces := loop_traces ls @ [TraceLoopStart (int (Suc k)) bodysize],
        levels := levels ls @ [?l]\<rparr>" "levels ls" ?l k]
    by (simp add: LoopStack_start_loop_eq del: run_iterations.simps)
qed

theorem loop_runs_body_count_times_witness:
  "returns
    (bindR (LoopStack_start_loop 8 (int (Suc 2)) 3 LoopStack_init)
      (run_iterations (Suc 2) (8 + 4 * 3 - 4)))
    (\<lambda>(rs, ls'). rs = replicate 2 (Some 8) @ [None] \<and> levels ls' = levels LoopStack_init \<and>
       \<not> loop_err_flag ls')"
proof -
  have "\<not> loop_err_flag LoopStack_init" "length (levels LoopStack_init) < LoopStack_depth"
    by (simp_all add: LoopStack_init_def LoopStack_depth_def)
  from loop_runs_body_count_times [OF this, of 8 3 2] show ?thesis by simp
qed

end
