(* ===== verification/Digits.thy ===== *)
theory Digits
  imports Prelude
begin

text \<open>
  Little-endian digits: the correspondence between a wide integer and the list of its \<open>w\<close>-bit
  digits, least significant first.  The data memory uses it twice (32-bit words in a 256-bit word,
  bytes in a 32-bit word), the program loader once (bytes in an instruction word).
\<close>

fun le_split :: "nat \<Rightarrow> nat \<Rightarrow> int \<Rightarrow> int list" where
  "le_split w 0 v = []"
| "le_split w (Suc n) v = take_bit w v # le_split w n (drop_bit w v)"

fun le_val :: "nat \<Rightarrow> int list \<Rightarrow> int" where
  "le_val w [] = 0"
| "le_val w (x # xs) = x + push_bit w (le_val w xs)"

lemma length_le_split [simp]: "length (le_split w n v) = n"
  by (induction n arbitrary: v) simp_all

lemma le_split_fits [simp]: "list_all (fits w) (le_split w n v)"
  by (induction n arbitrary: v) simp_all

lemma le_split_nth:
  "k < n \<Longrightarrow> le_split w n v ! k = take_bit w (drop_bit (w * k) v)"
proof (induction n arbitrary: v k)
  case (Suc n)
  then show ?case
    by (cases k) (simp_all add: algebra_simps)
qed simp

lemma le_split_map:
  "map (\<lambda>k. drop_bit (w * k) v AND low_mask w) [0..<n] = le_split w n v"
  by (rule nth_equalityI) (simp_all add: and_low_mask le_split_nth)

lemma le_val_fits: "list_all (fits w) xs \<Longrightarrow> fits (w * length xs) (le_val w xs)"
proof (induction xs)
  case (Cons x xs)
  then have x: "0 \<le> x" "x \<le> 2 ^ w - 1" and v: "0 \<le> le_val w xs" "le_val w xs \<le> 2 ^ (w * length xs) - 1"
    by (simp_all add: fits_iff)
  then have "2 ^ w * le_val w xs \<le> 2 ^ w * (2 ^ (w * length xs) - 1)"
    by (intro mult_left_mono) simp_all
  then have "x + 2 ^ w * le_val w xs < 2 ^ w * 2 ^ (w * length xs)"
    using x by (simp add: right_diff_distrib)
  then show ?case
    using x v by (simp add: fits_iff push_bit_eq_mult power_add mult.commute)
qed simp

lemma take_bit_add_push: "fits w x \<Longrightarrow> take_bit w (x + push_bit w y) = x"
  by (simp add: fits_iff take_bit_eq_mod push_bit_eq_mult)

lemma drop_bit_add_push: "fits w x \<Longrightarrow> drop_bit w (x + push_bit w y) = y"
  by (simp add: fits_iff drop_bit_eq_div push_bit_eq_mult)

lemma le_split_le_val:
  "list_all (fits w) xs \<Longrightarrow> le_split w (length xs) (le_val w xs) = xs"
  by (induction xs) (simp_all add: take_bit_add_push drop_bit_add_push)

lemma le_val_le_split: "le_val w (le_split w n v) = take_bit (w * n) v"
proof (induction n arbitrary: v)
  case (Suc n)
  have "take_bit w v + push_bit w (take_bit (w * n) (drop_bit w v)) = take_bit (w + w * n) v"
    by (simp add: take_bit_drop_bit bits_ident [symmetric] flip: take_bit_push_bit)
      (metis add.commute bits_ident drop_bit_take_bit le_add1 add_diff_cancel_left' take_bit_take_bit min.absorb1)
  then show ?case
    using Suc by simp
qed simp

lemma le_val_eq_self: "fits (w * n) v \<Longrightarrow> le_val w (le_split w n v) = v"
  by (simp add: le_val_le_split fits_take_bit_eq)

text \<open>Shifting digits in from the most significant one, as the Python loops do.\<close>

lemma foldl_digits:
  "list_all (fits w) xs \<Longrightarrow> foldl (\<lambda>a x. push_bit w a OR x) 0 (rev xs) = le_val w xs"
  by (induction xs) (simp_all add: or_push_bit_add add.commute)

text \<open>Replacing one digit.\<close>

lemma list_all_update: "list_all P xs \<Longrightarrow> P x \<Longrightarrow> list_all P (xs[k := x])"
  by (auto simp: list_all_iff dest!: set_update_subset_insert [THEN subsetD])

lemma le_split_update:
  "fits w u \<Longrightarrow> le_split w n (le_val w ((le_split w n v)[k := u])) = (le_split w n v)[k := u]"
  using le_split_le_val [OF list_all_update [OF le_split_fits, of w u n v k]] by simp

end
