(* ===== verification/Dmem.thy ===== *)
theory Dmem
  imports Gpr Digits
begin

text \<open>
  The data memory: \<^verbatim>\<open>sim/dmem.py\<close> (class \<^verbatim>\<open>TraceDmemStore\<close>, class \<^verbatim>\<open>Dmem\<close>).

  The memory is a list of 256-bit words.  Stores are staged in a list and applied in order by
  \<^verbatim>\<open>commit\<close>.  A 32-bit access reads or replaces one of the eight little-endian 32-bit digits of a
  word.  \<^verbatim>\<open>struct\<close>'s little-endian packing of unsigned 32-bit integers is written out on bytes
  (\<open>8 word\<close>).
\<close>

section \<open>Data and operations\<close>

type_synonym byte = "8 word"

record dmem_store =
  ds_addr :: int
  ds_value :: int
  is_wide :: bool

record dmem =
  data :: "int list"
  dmem_trace :: "dmem_store list"
  dmem_err_flag :: bool
  load_begun :: bool
  load_ready :: bool

text \<open>The size of the memory comes from the layout of \<^verbatim>\<open>otbn.hjson\<close>.\<close>

definition uninit_word :: int where
  "uninit_word = foldl (\<lambda>acc i. push_bit 32 acc OR 0xdeadbeef) 0 [0..<8]"

definition Dmem_init :: "int \<Rightarrow> dmem result" where
  "Dmem_init dmem_size =
     (if dmem_size > 1024 * 1024 then Inl RuntimeError
      else if dmem_size mod 32 \<noteq> 0 then Inl RuntimeError
      else Inr \<lparr>data = replicate (nat (dmem_size div 32)) uninit_word, dmem_trace = [],
                dmem_err_flag = False, load_begun = False, load_ready = False\<rparr>)"

definition Dmem_get_u32s :: "int \<Rightarrow> dmem \<Rightarrow> int list result" where
  "Dmem_get_u32s idx d =
     require (0 \<le> idx \<and> idx < int (length (data d)))
       (let w = data d ! nat idx
        in require (0 \<le> w \<and> w \<le> push_bit 256 1)
             (Inr (map (\<lambda>subidx. drop_bit (32 * subidx) w AND low_mask 32) [0..<8])))"

fun pack_u32s :: "int \<Rightarrow> int list \<Rightarrow> int result" where
  "pack_u32s u256 [] = Inr u256"
| "pack_u32s u256 (u32 # us) =
     require (0 \<le> u32 \<and> u32 \<le> low_mask 32) (pack_u32s (push_bit 32 u256 OR u32) us)"

definition Dmem_set_u32s :: "int \<Rightarrow> int list \<Rightarrow> dmem \<Rightarrow> dmem result" where
  "Dmem_set_u32s idx u32s d =
     require (0 \<le> idx \<and> idx < int (length (data d)))
       (require (length u32s = 8)
         (bindR (pack_u32s 0 (rev u32s)) (\<lambda>u256.
          Inr (d\<lparr>data := (data d)[nat idx := u256]\<rparr>))))"

text \<open>\<^verbatim>\<open>struct.iter_unpack('<I', data)\<close> and \<^verbatim>\<open>struct.pack('<nI', ...)\<close>.\<close>

fun unpack_u32s :: "byte list \<Rightarrow> int list" where
  "unpack_u32s (b0 # b1 # b2 # b3 # bs) =
     (uint b0 OR push_bit 8 (uint b1) OR push_bit 16 (uint b2) OR push_bit 24 (uint b3))
       # unpack_u32s bs"
| "unpack_u32s bs = []"

definition pack_u32 :: "int \<Rightarrow> byte list" where
  "pack_u32 v = map (\<lambda>k. word_of_int (drop_bit (8 * k) v)) [0..<4]"

fun load_words :: "int \<Rightarrow> int list \<Rightarrow> int list \<Rightarrow> dmem \<Rightarrow> dmem result" where
  "load_words idx32 acc [] d = require (acc = []) (Inr d)"
| "load_words idx32 acc (u # us) d =
     (let acc = acc @ [u]
      in if length acc = 8
         then bindR (Dmem_set_u32s (idx32 div 8) acc d) (\<lambda>d. load_words (idx32 + 1) [] us d)
         else load_words (idx32 + 1) acc us d)"

definition Dmem_load_le_words :: "byte list \<Rightarrow> dmem \<Rightarrow> dmem result" where
  "Dmem_load_le_words bs d =
     (if length bs > 32 * length (data d) then Inl ValueError
      else
        let bs' = (if length bs mod 32 \<noteq> 0
                   then bs @ replicate (32 - length bs mod 32) 0x30 else bs)
        in load_words 0 [] (unpack_u32s bs') d)"

fun get_all_u32s :: "nat list \<Rightarrow> dmem \<Rightarrow> int list result" where
  "get_all_u32s [] d = Inr []"
| "get_all_u32s (i # is) d =
     bindR (Dmem_get_u32s (int i) d) (\<lambda>us. bindR (get_all_u32s is d) (\<lambda>vs. Inr (us @ vs)))"

definition Dmem_dump_le_words :: "dmem \<Rightarrow> byte list result" where
  "Dmem_dump_le_words d =
     bindR (get_all_u32s [0..<length (data d)] d) (\<lambda>u32s. Inr (concat (map pack_u32 u32s)))"

definition Dmem_load_u256 :: "int \<Rightarrow> (dmem, int) action" where
  "Dmem_load_u256 addr d =
     require (0 \<le> addr)
       (if py_bool (addr AND 31) then Inr (0, d\<lparr>dmem_err_flag := True\<rparr>)
        else if addr div 32 \<ge> int (length (data d)) then Inr (0, d\<lparr>dmem_err_flag := True\<rparr>)
        else Inr (data d ! nat (addr div 32), d))"

definition Dmem_store_u256 :: "int \<Rightarrow> int \<Rightarrow> dmem \<Rightarrow> dmem result" where
  "Dmem_store_u256 addr v d =
     require (0 \<le> addr)
      (require (0 \<le> v \<and> v < push_bit 256 1)
        (if py_bool (addr AND 31) then Inr (d\<lparr>dmem_err_flag := True\<rparr>)
         else if addr div 32 \<ge> int (length (data d)) then Inr (d\<lparr>dmem_err_flag := True\<rparr>)
         else Inr (d\<lparr>dmem_trace :=
                dmem_trace d @ [\<lparr>ds_addr = addr, ds_value = v, is_wide = True\<rparr>]\<rparr>)))"

definition Dmem_load_u32 :: "int \<Rightarrow> (dmem, int) action" where
  "Dmem_load_u32 addr d =
     require (0 \<le> addr)
       (if py_bool (addr AND 3) then Inr (0, d\<lparr>dmem_err_flag := True\<rparr>)
        else if (addr + 3) div 32 \<ge> int (length (data d)) then Inr (0, d\<lparr>dmem_err_flag := True\<rparr>)
        else
          let idx32 = addr div 4; idxW = idx32 div 8; offW = idx32 mod 8
          in bindR (Dmem_get_u32s idxW d) (\<lambda>us. bindR (py_getitem us offW) (\<lambda>v. Inr (v, d))))"

definition Dmem_store_u32 :: "int \<Rightarrow> int \<Rightarrow> dmem \<Rightarrow> dmem result" where
  "Dmem_store_u32 addr v d =
     require (0 \<le> addr)
      (require (0 \<le> v \<and> v \<le> low_mask 32)
        (if py_bool (addr AND 3) then Inr (d\<lparr>dmem_err_flag := True\<rparr>)
         else if (addr + 3) div 32 \<ge> int (length (data d)) then Inr (d\<lparr>dmem_err_flag := True\<rparr>)
         else Inr (d\<lparr>dmem_trace :=
                dmem_trace d @ [\<lparr>ds_addr = addr, ds_value = v, is_wide = False\<rparr>]\<rparr>)))"

definition Dmem_err_bits :: "dmem \<Rightarrow> int" where
  "Dmem_err_bits d = (if dmem_err_flag d then BAD_DATA_ADDR else 0)"

definition Dmem_changes :: "dmem \<Rightarrow> dmem_store list" where
  "Dmem_changes d = dmem_trace d"

definition Dmem_commit_store :: "dmem_store \<Rightarrow> dmem \<Rightarrow> dmem result" where
  "Dmem_commit_store item d =
     (if is_wide item then
        require (0 \<le> ds_value item \<and> ds_value item < push_bit 256 1)
          (bindR (py_setitem (data d) (ds_addr item div 32) (ds_value item)) (\<lambda>ws.
           Inr (d\<lparr>data := ws\<rparr>)))
      else
        let idx32 = ds_addr item div 4; idxW = idx32 div 8; offW = idx32 mod 8
        in bindR (Dmem_get_u32s idxW d) (\<lambda>u32s.
           require (0 \<le> ds_value item \<and> ds_value item \<le> low_mask 32)
            (bindR (py_setitem u32s offW (ds_value item)) (\<lambda>u32s.
             Dmem_set_u32s idxW u32s d))))"

fun commit_stores :: "dmem_store list \<Rightarrow> dmem \<Rightarrow> dmem result" where
  "commit_stores [] d = Inr d"
| "commit_stores (item # items) d = bindR (Dmem_commit_store item d) (commit_stores items)"

text \<open>The argument \<^verbatim>\<open>stalled\<close> of \<^verbatim>\<open>commit\<close> is not used.\<close>

definition Dmem_commit :: "bool \<Rightarrow> dmem \<Rightarrow> dmem result" where
  "Dmem_commit stalled d =
     require (\<not> dmem_err_flag d)
       (let d = (if load_begun d then d\<lparr>load_begun := False, load_ready := True\<rparr>
                 else d\<lparr>load_ready := False\<rparr>)
        in bindR (commit_stores (dmem_trace d) d) (\<lambda>d. Inr (d\<lparr>dmem_trace := []\<rparr>)))"

definition Dmem_abort :: "dmem \<Rightarrow> dmem" where
  "Dmem_abort d = d\<lparr>dmem_trace := [], dmem_err_flag := False\<rparr>"

definition Dmem_in_progress_load_complete :: "dmem \<Rightarrow> bool" where
  "Dmem_in_progress_load_complete d = load_ready d"

definition Dmem_begin_load :: "dmem \<Rightarrow> dmem" where
  "Dmem_begin_load d = d\<lparr>load_begun := True\<rparr>"

section \<open>Invariant and views\<close>

text \<open>
  \<open>u32_at ws i\<close> is the 32-bit word at byte address \<open>4 * i\<close>; \<open>put_u32\<close> and \<open>put_store\<close> are what a
  committed store does to the list of wide words.
\<close>

definition u32_at :: "int list \<Rightarrow> nat \<Rightarrow> int" where
  "u32_at ws i = le_split 32 8 (ws ! (i div 8)) ! (i mod 8)"

definition put_u32 :: "nat \<Rightarrow> int \<Rightarrow> int list \<Rightarrow> int list" where
  "put_u32 i v ws = ws[i div 8 := le_val 32 ((le_split 32 8 (ws ! (i div 8)))[i mod 8 := v])]"

definition put_store :: "dmem_store \<Rightarrow> int list \<Rightarrow> int list" where
  "put_store it ws =
     (if is_wide it then ws[nat (ds_addr it div 32) := ds_value it]
      else put_u32 (nat (ds_addr it div 4)) (ds_value it) ws)"

definition words_ok :: "nat \<Rightarrow> int list \<Rightarrow> bool" where
  "words_ok n ws \<longleftrightarrow> length ws = n \<and> list_all (fits 256) ws"

definition store_ok :: "nat \<Rightarrow> dmem_store \<Rightarrow> bool" where
  "store_ok n it \<longleftrightarrow>
     (if is_wide it then (\<exists>k < n. ds_addr it = 32 * int k) \<and> fits 256 (ds_value it)
      else (\<exists>i < 8 * n. ds_addr it = 4 * int i) \<and> fits 32 (ds_value it))"

definition Dmem_inv :: "nat \<Rightarrow> dmem \<Rightarrow> bool" where
  "Dmem_inv n d \<longleftrightarrow> words_ok n (data d) \<and> list_all (store_ok n) (dmem_trace d)"

definition Dmem_ready :: "dmem \<Rightarrow> bool" where
  "Dmem_ready d \<longleftrightarrow> \<not> dmem_err_flag d"

definition Dmem_quiet :: "dmem \<Rightarrow> bool" where
  "Dmem_quiet d \<longleftrightarrow> dmem_trace d = [] \<and> \<not> dmem_err_flag d"

definition Dmem_pend :: "dmem \<Rightarrow> int list" where
  "Dmem_pend d = fold put_store (dmem_trace d) (data d)"

text \<open>An abstract memory: a write is seen by the reads of its own address and by no other.\<close>

locale memory =
  fixes rd :: "'m \<Rightarrow> nat \<Rightarrow> 'v"
    and wr :: "nat \<Rightarrow> 'v \<Rightarrow> 'm \<Rightarrow> 'm"
    and ok :: "'m \<Rightarrow> bool"
    and addr_ok :: "nat \<Rightarrow> bool"
    and val_ok :: "'v \<Rightarrow> bool"
  assumes rd_wr: "ok m \<Longrightarrow> addr_ok a \<Longrightarrow> val_ok v \<Longrightarrow> rd (wr a v m) b = (if b = a then v else rd m b)"
    and ok_wr: "ok m \<Longrightarrow> addr_ok a \<Longrightarrow> val_ok v \<Longrightarrow> ok (wr a v m)"
begin

lemma ok_writes:
  "ok m \<Longrightarrow> list_all (\<lambda>(a, v). addr_ok a \<and> val_ok v) ws \<Longrightarrow>
   ok (fold (\<lambda>(a, v). wr a v) ws m)"
  by (induction ws arbitrary: m) (auto simp: ok_wr)

text \<open>After a sequence of writes a read sees the last write to its address.\<close>

lemma rd_writes:
  "ok m \<Longrightarrow> list_all (\<lambda>(a, v). addr_ok a \<and> val_ok v) ws \<Longrightarrow>
   rd (fold (\<lambda>(a, v). wr a v) ws m) b =
     (case map_of (rev ws) b of Some v \<Rightarrow> v | None \<Rightarrow> rd m b)"
  by (induction ws arbitrary: m)
    (auto simp: ok_wr rd_wr map_add_def split: option.splits)

end

lemma fits_256_32: "fits 256 v \<longleftrightarrow> fits (32 * 8) v"
  by simp

lemma put_u32_ok:
  assumes "words_ok n ws" and "fits 32 v"
  shows "words_ok n (put_u32 i v ws)"
proof -
  have "fits (32 * length ((le_split 32 8 (ws ! (i div 8)))[i mod 8 := v]))
    (le_val 32 ((le_split 32 8 (ws ! (i div 8)))[i mod 8 := v]))"
    by (intro le_val_fits list_all_update le_split_fits assms)
  then show ?thesis
    using assms by (simp add: words_ok_def put_u32_def list_all_update)
qed

lemma u32_at_put_u32:
  assumes "words_ok n ws" and "i < 8 * n" and "fits 32 v"
  shows "u32_at (put_u32 i v ws) j = (if j = i then v else u32_at ws j)"
proof (cases "j div 8 = i div 8")
  case True
  then have "j = i \<longleftrightarrow> j mod 8 = i mod 8"
    by (metis div_mult_mod_eq)
  moreover have "i div 8 < length ws"
    using assms by (simp add: words_ok_def div_less_iff_less_mult mult.commute)
  ultimately show ?thesis
    using True assms(3) by (simp add: u32_at_def put_u32_def le_split_update nth_list_update)
next
  case False
  then show ?thesis
    by (auto simp: u32_at_def put_u32_def)
qed

interpretation u32_memory:
  memory u32_at put_u32 "words_ok n" "\<lambda>i. i < 8 * n" "fits 32" for n
  by unfold_locales (simp_all add: u32_at_put_u32 put_u32_ok)

lemma u32_at_fits: "fits 32 (u32_at ws i)"
  using le_split_fits [of 32 8 "ws ! (i div 8)"] by (simp add: u32_at_def list_all_length)

lemma u32_at_wide:
  "u32_at ws i = take_bit 32 (drop_bit (32 * (i mod 8)) (ws ! (i div 8)))"
  by (simp add: u32_at_def le_split_nth)

section \<open>The staging laws\<close>

lemma Dmem_init_ok:
  "Dmem_init 4096 = Inr \<lparr>data = replicate 128 uninit_word, dmem_trace = [], dmem_err_flag = False,
     load_begun = False, load_ready = False\<rparr>"
  by (simp add: Dmem_init_def)

lemma uninit_word_eq: "uninit_word = le_val 32 (replicate 8 0xdeadbeef)"
  using foldl_digits [of 32 "replicate 8 0xdeadbeef"]
  by (simp add: uninit_word_def fits_iff upt_rec numeral_eq_Suc)

lemma uninit_word_fits: "fits 256 uninit_word"
proof -
  have "list_all (fits 32) (replicate 8 0xdeadbeef)"
    by (simp add: list_all_iff fits_iff)
  from le_val_fits [OF this] show ?thesis by (simp add: uninit_word_eq)
qed

lemma pack_u32s_eq:
  "list_all (fits 32) us \<Longrightarrow> pack_u32s a us = Inr (foldl (\<lambda>a x. push_bit 32 a OR x) a us)"
  by (induction us arbitrary: a) (simp_all add: fits_def low_mask_def)

lemma Dmem_get_u32s_eq:
  assumes "words_ok n (data d)" and "0 \<le> idx" and "idx < int n"
  shows "Dmem_get_u32s idx d = Inr (le_split 32 8 (data d ! nat idx))"
proof -
  have "fits 256 (data d ! nat idx)"
    using assms by (simp add: words_ok_def list_all_length nat_less_iff)
  then show ?thesis
    using assms by (simp add: Dmem_get_u32s_def words_ok_def fits_def Let_def le_split_map)
qed

lemma Dmem_set_u32s_eq:
  assumes "words_ok n (data d)" and "0 \<le> idx" and "idx < int n"
    and "length us = 8" and "list_all (fits 32) us"
  shows "Dmem_set_u32s idx us d = Inr (d\<lparr>data := (data d)[nat idx := le_val 32 us]\<rparr>)"
proof -
  have "list_all (fits 32) (rev us)"
    using assms(5) by (simp add: list_all_iff)
  then show ?thesis
    using assms by (simp add: Dmem_set_u32s_def words_ok_def pack_u32s_eq foldl_digits)
qed

text \<open>The index arithmetic of the narrow accesses, on the index of the 32-bit word.\<close>

lemma addr_u32:
  "4 * int i div 4 = int i" "int i div 8 = int (i div 8)" "int i mod 8 = int (i mod 8)"
  "(4 * int i + 3) div 32 = int (i div 8)" "\<not> py_bool (4 * int i AND 3)"
proof -
  show "(4 * int i + 3) div 32 = int (i div 8)"
    using zdiv_zmult2_eq [of 8 "4 * int i + 3" 4] by (simp add: zdiv_int)
  have "4 * int i AND 3 = 4 * int i mod 4"
    using and_low_mask_mod [of "4 * int i" 2] by (simp add: low_mask_eq)
  then show "\<not> py_bool (4 * int i AND 3)"
    by (simp add: py_bool_def)
qed (simp_all add: zdiv_int zmod_int)

lemma addr_u256:
  "32 * int k div 32 = int k" "\<not> py_bool (32 * int k AND 31)"
proof -
  have "32 * int k AND 31 = 32 * int k mod 32"
    using and_low_mask_mod [of "32 * int k" 5] by (simp add: low_mask_eq)
  then show "\<not> py_bool (32 * int k AND 31)"
    by (simp add: py_bool_def)
qed simp

lemma Dmem_commit_store_eq:
  assumes "words_ok n (data d)" and "store_ok n it"
  shows "Dmem_commit_store it d = Inr (d\<lparr>data := put_store it (data d)\<rparr>)"
proof (cases "is_wide it")
  case True
  then obtain k where "k < n" "ds_addr it = 32 * int k" "fits 256 (ds_value it)"
    using assms(2) by (auto simp: store_ok_def)
  then show ?thesis
    using True assms(1) by (simp add: Dmem_commit_store_def put_store_def fits_def words_ok_def)
next
  case False
  then obtain i where i: "i < 8 * n" "ds_addr it = 4 * int i" "fits 32 (ds_value it)"
    using assms(2) by (auto simp: store_ok_def)
  then have lt: "i div 8 < n" by (simp add: div_less_iff_less_mult mult.commute)
  have up: "list_all (fits 32) ((le_split 32 8 w)[j := ds_value it])" for w j
    using i(3) by (intro list_all_update le_split_fits)
  show ?thesis
    using False i lt up assms(1)
    by (simp add: Dmem_commit_store_def put_store_def put_u32_def addr_u32 Let_def
        Dmem_get_u32s_eq Dmem_set_u32s_eq) (simp add: fits_iff low_mask_eq)
qed

lemma put_store_ok: "words_ok n ws \<Longrightarrow> store_ok n it \<Longrightarrow> words_ok n (put_store it ws)"
proof (cases "is_wide it")
  case True
  then show "words_ok n ws \<Longrightarrow> store_ok n it \<Longrightarrow> words_ok n (put_store it ws)"
    by (auto simp: put_store_def store_ok_def words_ok_def list_all_update)
next
  case False
  then show "words_ok n ws \<Longrightarrow> store_ok n it \<Longrightarrow> words_ok n (put_store it ws)"
    by (auto simp: put_store_def store_ok_def put_u32_ok)
qed

lemma commit_stores_eq:
  "words_ok n (data d) \<Longrightarrow> list_all (store_ok n) its \<Longrightarrow>
   commit_stores its d = Inr (d\<lparr>data := fold put_store its (data d)\<rparr>) \<and>
   words_ok n (fold put_store its (data d))"
proof (induction its arbitrary: d)
  case (Cons it its)
  then show ?case
    using Cons.IH [of "d\<lparr>data := put_store it (data d)\<rparr>"]
    by (simp add: Dmem_commit_store_eq put_store_ok)
qed simp

lemma Dmem_commit_eq:
  assumes "Dmem_inv n d" and "\<not> dmem_err_flag d"
  shows "Dmem_commit st d =
    Inr (d\<lparr>data := Dmem_pend d, dmem_trace := [], load_begun := False, load_ready := load_begun d\<rparr>)"
    and "words_ok n (Dmem_pend d)"
  using assms commit_stores_eq [of n d "dmem_trace d"]
    commit_stores_eq [of n "d\<lparr>load_begun := False, load_ready := True\<rparr>" "dmem_trace d"]
    commit_stores_eq [of n "d\<lparr>load_ready := False\<rparr>" "dmem_trace d"]
  by (auto simp: Dmem_commit_def Dmem_inv_def Dmem_pend_def Let_def)

interpretation dmem_staged:
  staged_component "Dmem_inv n" Dmem_ready Dmem_quiet data Dmem_pend "Dmem_commit st" "\<lambda>d. Inr (Dmem_abort d)"
  for n st
proof unfold_locales
  fix d
  assume "Dmem_inv n d" "Dmem_ready d"
  then show "returns (Dmem_commit st d) (\<lambda>d'. Dmem_inv n d' \<and> Dmem_quiet d' \<and> data d' = Dmem_pend d)"
    using Dmem_commit_eq [of n d] by (simp add: Dmem_ready_def Dmem_quiet_def Dmem_inv_def)
qed (auto simp: Dmem_ready_def Dmem_quiet_def Dmem_inv_def Dmem_abort_def Dmem_pend_def)

section \<open>Loads and stores\<close>

text \<open>An access of \<open>sz\<close> bytes is good when it is aligned and lies inside the \<open>n\<close> wide words.\<close>

definition access_ok :: "nat \<Rightarrow> int \<Rightarrow> int \<Rightarrow> bool" where
  "access_ok n sz addr \<longleftrightarrow> addr mod sz = 0 \<and> addr + sz \<le> 32 * int n"

lemma and_3: "py_bool (a AND 3) \<longleftrightarrow> a mod 4 \<noteq> 0"
  using and_low_mask_mod [of a 2] by (simp add: low_mask_eq py_bool_def)

lemma and_31: "py_bool (a AND 31) \<longleftrightarrow> a mod 32 \<noteq> 0"
  using and_low_mask_mod [of a 5] by (simp add: low_mask_eq py_bool_def)

lemma access_u32_cases:
  assumes "0 \<le> addr" and "addr mod 4 = 0"
  obtains i where "addr = 4 * int i" and "access_ok n 4 addr \<longleftrightarrow> i < 8 * n"
    and "(addr + 3) div 32 \<ge> int n \<longleftrightarrow> \<not> i < 8 * n"
proof -
  obtain j where j: "addr = 4 * j" using assms(2) by auto
  with assms(1) have "0 \<le> j" by simp
  with j obtain i where i: "addr = 4 * int i" using nonneg_int_cases by blast
  show thesis
  proof (rule that [OF i])
    show "access_ok n 4 addr \<longleftrightarrow> i < 8 * n"
      using i by (simp add: access_ok_def) linarith
    show "(addr + 3) div 32 \<ge> int n \<longleftrightarrow> \<not> i < 8 * n"
      unfolding i addr_u32 by (simp add: not_less less_eq_div_iff_mult_less_eq mult.commute)
  qed
qed

lemma access_u256_cases:
  assumes "0 \<le> addr" and "addr mod 32 = 0"
  obtains k where "addr = 32 * int k" and "access_ok n 32 addr \<longleftrightarrow> k < n"
proof -
  obtain j where j: "addr = 32 * j" using assms(2) by auto
  with assms(1) have "0 \<le> j" by simp
  with j obtain k where k: "addr = 32 * int k" using nonneg_int_cases by blast
  moreover have "access_ok n 32 addr \<longleftrightarrow> k < n"
    using k by (simp add: access_ok_def) linarith
  ultimately show thesis by (rule that)
qed

lemma Dmem_load_u32_eq:
  assumes "Dmem_inv n d" and "0 \<le> addr"
  shows "Dmem_load_u32 addr d =
    Inr (if access_ok n 4 addr then (u32_at (data d) (nat (addr div 4)), d)
         else (0, d\<lparr>dmem_err_flag := True\<rparr>))"
proof (cases "addr mod 4 = 0")
  case True
  have w: "words_ok n (data d)" "length (data d) = n"
    using assms(1) by (simp_all add: Dmem_inv_def words_ok_def)
  obtain i where i: "addr = 4 * int i" "access_ok n 4 addr \<longleftrightarrow> i < 8 * n"
    "(addr + 3) div 32 \<ge> int n \<longleftrightarrow> \<not> i < 8 * n"
    using access_u32_cases [OF assms(2) True] by blast
  have "i < 8 * n \<Longrightarrow> i div 8 < n"
    by (simp add: div_less_iff_less_mult mult.commute)
  with i w show ?thesis
    by (auto simp: Dmem_load_u32_def addr_u32 and_3 Let_def Dmem_get_u32s_eq [OF w(1)] u32_at_def)
next
  case False
  then show ?thesis
    using assms(2) by (simp add: Dmem_load_u32_def and_3 access_ok_def)
qed

lemma Dmem_store_u32_eq:
  assumes "Dmem_inv n d" and "0 \<le> addr" and "fits 32 v"
  shows "Dmem_store_u32 addr v d =
    Inr (if access_ok n 4 addr
         then d\<lparr>dmem_trace := dmem_trace d @ [\<lparr>ds_addr = addr, ds_value = v, is_wide = False\<rparr>]\<rparr>
         else d\<lparr>dmem_err_flag := True\<rparr>)"
proof (cases "addr mod 4 = 0")
  case True
  obtain i where "access_ok n 4 addr \<longleftrightarrow> i < 8 * n"
    "(addr + 3) div 32 \<ge> int n \<longleftrightarrow> \<not> i < 8 * n"
    using access_u32_cases [OF assms(2) True] by blast
  with True assms show ?thesis
    by (auto simp: Dmem_store_u32_def and_3 Dmem_inv_def words_ok_def fits_iff low_mask_eq)
next
  case False
  then show ?thesis
    using assms by (simp add: Dmem_store_u32_def and_3 access_ok_def fits_iff low_mask_eq)
qed

lemma Dmem_load_u256_eq:
  assumes "Dmem_inv n d" and "0 \<le> addr"
  shows "Dmem_load_u256 addr d =
    Inr (if access_ok n 32 addr then (data d ! nat (addr div 32), d)
         else (0, d\<lparr>dmem_err_flag := True\<rparr>))"
proof (cases "addr mod 32 = 0")
  case True
  obtain k where "addr = 32 * int k" "access_ok n 32 addr \<longleftrightarrow> k < n"
    using access_u256_cases [OF assms(2) True] by blast
  with assms show ?thesis
    by (simp add: Dmem_load_u256_def addr_u256 Dmem_inv_def words_ok_def)
next
  case False
  then show ?thesis
    using assms(2) by (simp add: Dmem_load_u256_def and_31 access_ok_def)
qed

lemma Dmem_store_u256_eq:
  assumes "Dmem_inv n d" and "0 \<le> addr" and "fits 256 v"
  shows "Dmem_store_u256 addr v d =
    Inr (if access_ok n 32 addr
         then d\<lparr>dmem_trace := dmem_trace d @ [\<lparr>ds_addr = addr, ds_value = v, is_wide = True\<rparr>]\<rparr>
         else d\<lparr>dmem_err_flag := True\<rparr>)"
proof (cases "addr mod 32 = 0")
  case True
  obtain k where "addr = 32 * int k" "access_ok n 32 addr \<longleftrightarrow> k < n"
    using access_u256_cases [OF assms(2) True] by blast
  with assms show ?thesis
    by (simp add: Dmem_store_u256_def addr_u256 Dmem_inv_def words_ok_def fits_def)
next
  case False
  then show ?thesis
    using assms by (simp add: Dmem_store_u256_def and_31 access_ok_def fits_def)
qed

lemma access_ok_store_ok:
  "0 \<le> addr \<Longrightarrow> access_ok n 4 addr \<Longrightarrow> fits 32 v \<Longrightarrow>
     store_ok n \<lparr>ds_addr = addr, ds_value = v, is_wide = False\<rparr>"
  "0 \<le> addr \<Longrightarrow> access_ok n 32 addr \<Longrightarrow> fits 256 v' \<Longrightarrow>
     store_ok n \<lparr>ds_addr = addr, ds_value = v', is_wide = True\<rparr>"
proof -
  assume a: "0 \<le> addr" "access_ok n 4 addr" "fits 32 v"
  then have "addr mod 4 = 0" by (simp add: access_ok_def)
  with a obtain i where "addr = 4 * int i" "i < 8 * n"
    using access_u32_cases [of addr n] by metis
  with a(3) show "store_ok n \<lparr>ds_addr = addr, ds_value = v, is_wide = False\<rparr>"
    by (auto simp: store_ok_def)
next
  assume a: "0 \<le> addr" "access_ok n 32 addr" "fits 256 v'"
  then have "addr mod 32 = 0" by (simp add: access_ok_def)
  with a obtain k where "addr = 32 * int k" "k < n"
    using access_u256_cases [of addr n] by metis
  with a(3) show "store_ok n \<lparr>ds_addr = addr, ds_value = v', is_wide = True\<rparr>"
    by (auto simp: store_ok_def)
qed

lemma Dmem_store_inv:
  "Dmem_inv n d \<Longrightarrow> 0 \<le> addr \<Longrightarrow> fits 32 v \<Longrightarrow> returns (Dmem_store_u32 addr v d) (Dmem_inv n)"
  "Dmem_inv n d \<Longrightarrow> 0 \<le> addr \<Longrightarrow> fits 256 v \<Longrightarrow> returns (Dmem_store_u256 addr v d) (Dmem_inv n)"
  using access_ok_store_ok(1) [of addr n v] access_ok_store_ok(2) [of addr n v]
  by (auto simp: Dmem_store_u32_eq Dmem_store_u256_eq Dmem_inv_def)

section \<open>Properties\<close>

text \<open>
  A sequence of stores of both widths, each given by its address, its value and its width, and the
  32-bit words it is to change: one for a narrow store, the eight little-endian digits of its value
  for a wide one.
\<close>

definition Dmem_store :: "dmem_store \<Rightarrow> dmem \<Rightarrow> dmem result" where
  "Dmem_store it =
     (if is_wide it then Dmem_store_u256 else Dmem_store_u32) (ds_addr it) (ds_value it)"

fun Dmem_stores :: "dmem_store list \<Rightarrow> dmem \<Rightarrow> dmem result" where
  "Dmem_stores [] d = Inr d"
| "Dmem_stores (it # its) d = bindR (Dmem_store it d) (Dmem_stores its)"

definition store_words :: "dmem_store \<Rightarrow> (nat \<times> int) list" where
  "store_words it =
     (let i = nat (ds_addr it div 4); v = ds_value it
      in if is_wide it then map (\<lambda>k. (i + k, take_bit 32 (drop_bit (32 * k) v))) [0..<8]
         else [(i, v)])"

lemma store_ok_access:
  "store_ok n it \<Longrightarrow> 0 \<le> ds_addr it \<and>
     (if is_wide it then access_ok n 32 (ds_addr it) \<and> fits 256 (ds_value it)
      else access_ok n 4 (ds_addr it) \<and> fits 32 (ds_value it))"
  by (auto simp: store_ok_def access_ok_def)

lemma Dmem_store_eq:
  assumes "Dmem_inv n d" and "store_ok n it"
  shows "Dmem_store it d = Inr (d\<lparr>dmem_trace := dmem_trace d @ [it]\<rparr>)"
  using store_ok_access [OF assms(2)]
  by (cases it; cases "is_wide it") (simp_all add: Dmem_store_def Dmem_store_u256_eq [OF assms(1)]
      Dmem_store_u32_eq [OF assms(1)])

lemma Dmem_stores_eq:
  assumes "Dmem_inv n d" and "list_all (store_ok n) its"
  shows "Dmem_stores its d = Inr (d\<lparr>dmem_trace := dmem_trace d @ its\<rparr>)"
  using assms
proof (induction its arbitrary: d)
  case (Cons it its)
  have "Dmem_inv n (d\<lparr>dmem_trace := dmem_trace d @ [it]\<rparr>)"
    using Cons.prems by (simp add: Dmem_inv_def)
  from Cons.IH [OF this] Cons.prems show ?case
    by (simp add: Dmem_store_eq [of n])
qed simp

text \<open>Two memories with the same 32-bit words are equal.\<close>

lemma words_ok_eqI:
  assumes "words_ok n ws" and "words_ok n vs" and "\<And>j. j < 8 * n \<Longrightarrow> u32_at ws j = u32_at vs j"
  shows "ws = vs"
proof (rule nth_equalityI)
  show "length ws = length vs"
    using assms(1,2) by (simp add: words_ok_def)
next
  fix k assume "k < length ws"
  then have k: "k < n" "fits (32 * 8) (ws ! k)" "fits (32 * 8) (vs ! k)"
    using assms(1,2) by (simp_all add: words_ok_def list_all_length)
  have "le_split 32 8 (ws ! k) = le_split 32 8 (vs ! k)"
  proof (rule nth_equalityI)
    fix i assume "i < length (le_split 32 8 (ws ! k))"
    then show "le_split 32 8 (ws ! k) ! i = le_split 32 8 (vs ! k) ! i"
      using assms(3) [of "8 * k + i"] k(1) by (simp add: u32_at_def)
  qed simp
  then have "le_val 32 (le_split 32 8 (ws ! k)) = le_val 32 (le_split 32 8 (vs ! k))"
    by (rule arg_cong)
  then show "ws ! k = vs ! k"
    unfolding le_val_eq_self [OF k(2)] le_val_eq_self [OF k(3)] .
qed

lemma store_words_ok:
  "store_ok n it \<Longrightarrow> list_all (\<lambda>(i, v). i < 8 * n \<and> fits 32 v) (store_words it)"
  by (auto simp: store_ok_def store_words_def Let_def list_all_iff split: if_splits)

lemma map_of_digits:
  "map_of (rev (map (\<lambda>k. (8 * m + k, f k)) [0..<8])) j =
     (if j div 8 = m then Some (f (j mod 8)) else None)"
proof (cases "j div 8 = m")
  case True
  then have j: "j = 8 * m + j mod 8" by (metis mult_div_mod_eq)
  have "distinct (map fst (rev (map (\<lambda>k. (8 * m + k, f k)) [0..<8])))"
    by (simp add: rev_map [symmetric] comp_def distinct_map inj_on_def)
  moreover have "(j, f (j mod 8)) \<in> set (rev (map (\<lambda>k. (8 * m + k, f k)) [0..<8]))"
    using j by (auto intro!: image_eqI [of _ _ "j mod 8"])
  ultimately show ?thesis
    using True map_of_is_SomeI by fastforce
next
  case False
  then have "j \<notin> fst ` set (rev (map (\<lambda>k. (8 * m + k, f k)) [0..<8]))"
    by auto
  then show ?thesis
    using False map_of_eq_None_iff by fastforce
qed

lemma put_store_words:
  assumes "words_ok n ws" and "store_ok n it"
  shows "put_store it ws = fold (\<lambda>(i, v). put_u32 i v) (store_words it) ws"
proof (rule words_ok_eqI)
  note ok = store_words_ok [OF assms(2)]
  show "words_ok n (put_store it ws)" using assms by (rule put_store_ok)
  show "words_ok n (fold (\<lambda>(i, v). put_u32 i v) (store_words it) ws)"
    using u32_memory.ok_writes [OF assms(1) ok] .
  fix j assume "j < 8 * n"
  show "u32_at (put_store it ws) j = u32_at (fold (\<lambda>(i, v). put_u32 i v) (store_words it) ws) j"
  proof (cases "is_wide it")
    case True
    then obtain k where k: "k < n" "ds_addr it = 32 * int k"
      using assms(2) by (auto simp: store_ok_def)
    then have "nat (ds_addr it div 4) = 8 * k" by simp
    then have sw: "store_words it =
        map (\<lambda>i. (8 * k + i, take_bit 32 (drop_bit (32 * i) (ds_value it)))) [0..<8]"
      using True by (simp add: store_words_def Let_def)
    have "u32_at (put_store it ws) j =
        (if j div 8 = k then take_bit 32 (drop_bit (32 * (j mod 8)) (ds_value it)) else u32_at ws j)"
      using True k assms(1) by (auto simp: put_store_def u32_at_wide words_ok_def)
    then show ?thesis
      unfolding u32_memory.rd_writes [OF assms(1) ok] unfolding sw map_of_digits by simp
  next
    case False
    then show ?thesis by (simp add: put_store_def store_words_def Let_def)
  qed
qed

lemma fold_put_store:
  "words_ok n ws \<Longrightarrow> list_all (store_ok n) its \<Longrightarrow>
   fold put_store its ws = fold (\<lambda>(i, v). put_u32 i v) (concat (map store_words its)) ws"
  by (induction its arbitrary: ws) (simp_all add: put_store_ok flip: put_store_words)

text \<open>
  C19: the data memory is a memory, with one little-endian layout for both widths.  Take a memory
  that satisfies the invariant and has nothing staged, and any sequence of 32-bit and 256-bit
  stores to aligned addresses inside the memory with values of their widths.  Staging them in one
  cycle and committing raises nothing, and then a 32-bit load returns the value that the last store
  covering its address wrote there (for a 256-bit store the digit of its value at that address),
  and the value it returned before when no store covers it; and the 256-bit load of the word that
  contains the address returns a 256-bit value with the same 32 bits at that place.
\<close>

theorem dmem_load_sees_last_store:
  assumes "Dmem_inv n d" and "Dmem_quiet d" and "list_all (store_ok n) its" and "j < 8 * n"
  shows "returns
    (bindR (Dmem_stores its d) (\<lambda>d1.
     bindR (Dmem_commit False d1) (\<lambda>d2.
     bindR (Dmem_load_u32 (4 * int j) d2) (\<lambda>(new, _).
     bindR (Dmem_load_u32 (4 * int j) d) (\<lambda>(old, _).
     bindR (Dmem_load_u256 (32 * int (j div 8)) d2) (\<lambda>(wide, _). Inr (new, old, wide)))))))
    (\<lambda>(new, old, wide).
       new = (case map_of (rev (concat (map store_words its))) j of Some v \<Rightarrow> v | None \<Rightarrow> old) \<and>
       fits 256 wide \<and> take_bit 32 (drop_bit (32 * (j mod 8)) wide) = new)"
proof -
  let ?m = "fold (\<lambda>(i, v). put_u32 i v) (concat (map store_words its)) (data d)"
  let ?d1 = "d\<lparr>dmem_trace := its\<rparr>"
  let ?d2 = "d\<lparr>data := ?m, dmem_trace := [], load_begun := False, load_ready := load_begun d\<rparr>"
  have w: "words_ok n (data d)" and tr: "dmem_trace d = []" "\<not> dmem_err_flag d"
    using assms(1,2) by (simp_all add: Dmem_inv_def Dmem_quiet_def)
  have j: "j div 8 < n"
    using assms(4) by (simp add: div_less_iff_less_mult mult.commute)
  have ok: "access_ok n 4 (4 * int j)" "access_ok n 32 (32 * int (j div 8))"
    using assms(4) j by (simp_all add: access_ok_def)
  have inv: "Dmem_inv n ?d1" and pend: "Dmem_pend ?d1 = ?m"
    using w assms(3) by (simp_all add: Dmem_inv_def Dmem_pend_def fold_put_store)
  then have c: "Dmem_commit False ?d1 = Inr ?d2" and m: "words_ok n ?m"
    using Dmem_commit_eq(1) [OF inv, of False] Dmem_commit_eq(2) [OF inv] tr pend by simp_all
  then have d2: "Dmem_inv n ?d2" by (simp add: Dmem_inv_def)
  have "list_all (\<lambda>(i, v). i < 8 * n \<and> fits 32 v) (concat (map store_words its))"
    using assms(3) store_words_ok by (fastforce simp: list_all_iff)
  from u32_memory.rd_writes [OF w this, of j] have
    "u32_at ?m j = (case map_of (rev (concat (map store_words its))) j of
       Some v \<Rightarrow> v | None \<Rightarrow> u32_at (data d) j)" .
  moreover have "fits 256 (?m ! (j div 8))"
    using m j by (simp add: words_ok_def list_all_length)
  ultimately show ?thesis
    using c ok tr by (simp add: Dmem_stores_eq [OF assms(1,3)] Dmem_load_u32_eq [OF d2]
        Dmem_load_u32_eq [OF assms(1)] Dmem_load_u256_eq [OF d2] addr_u256 u32_at_wide [symmetric])
qed

definition small_dmem :: dmem where
  "small_dmem = \<lparr>data = [uninit_word, 0], dmem_trace = [], dmem_err_flag = False,
     load_begun = False, load_ready = False\<rparr>"

lemma small_dmem_ok: "Dmem_inv 2 small_dmem" "Dmem_quiet small_dmem"
  using uninit_word_fits
  by (simp_all add: small_dmem_def Dmem_inv_def words_ok_def Dmem_quiet_def)

theorem dmem_load_sees_last_store_witness:
  "returns
    (bindR (Dmem_stores [\<lparr>ds_addr = 12, ds_value = 7, is_wide = False\<rparr>,
         \<lparr>ds_addr = 0, ds_value = 0xaabbccdd000000000000000000000005, is_wide = True\<rparr>,
         \<lparr>ds_addr = 4, ds_value = 9, is_wide = False\<rparr>] small_dmem) (\<lambda>d1.
     bindR (Dmem_commit False d1) (\<lambda>d2.
     bindR (Dmem_load_u32 (4 * int 3) d2) (\<lambda>(new, _).
     bindR (Dmem_load_u32 (4 * int 3) small_dmem) (\<lambda>(old, _).
     bindR (Dmem_load_u256 (32 * int (3 div 8)) d2) (\<lambda>(wide, _). Inr (new, old, wide)))))))
    (\<lambda>(new, old, wide). new = 0xaabbccdd)" (is "returns ?r _")
proof -
  let ?its = "[\<lparr>ds_addr = 12, ds_value = 7, is_wide = False\<rparr>,
    \<lparr>ds_addr = 0, ds_value = 0xaabbccdd000000000000000000000005, is_wide = True\<rparr>,
    \<lparr>ds_addr = 4, ds_value = 9, is_wide = False\<rparr>]"
  have i: "\<exists>i < 16. (12 :: int) = 4 * int i" "\<exists>i < 16. (4 :: int) = 4 * int i"
    by (auto intro!: exI [of _ "3 :: nat"] exI [of _ "1 :: nat"])
  then have ok: "list_all (store_ok 2) ?its"
    by (auto simp: store_ok_def fits_iff)
  have "map_of (rev (concat (map store_words ?its))) 3 = Some 0xaabbccdd"
    by (simp add: store_words_def upt_rec numeral_eq_Suc take_bit_eq_mod drop_bit_eq_div)
  then show ?thesis
    using dmem_load_sees_last_store [OF small_dmem_ok ok, of 3]
    by (auto elim!: returns_mono)
qed

text \<open>Loading and dumping bytes.\<close>

definition flat_u32s :: "int list \<Rightarrow> int list" where
  "flat_u32s ws = concat (map (le_split 32 8) ws)"

lemma length_flat_u32s [simp]: "length (flat_u32s ws) = 8 * length ws"
  by (induction ws) (simp_all add: flat_u32s_def)

lemma flat_u32s_simps [simp]:
  "flat_u32s [] = []" "flat_u32s (w # ws) = le_split 32 8 w @ flat_u32s ws"
  "flat_u32s (ws @ vs) = flat_u32s ws @ flat_u32s vs"
  by (simp_all add: flat_u32s_def)

lemma load_words_group:
  "us \<noteq> [] \<Longrightarrow> length acc + length us = 8 \<Longrightarrow>
   load_words idx acc (us @ rest) d =
     bindR (Dmem_set_u32s ((idx + int (length us) - 1) div 8) (acc @ us) d)
       (load_words (idx + int (length us)) [] rest)"
proof (induction us arbitrary: idx acc)
  case (Cons u us)
  show ?case
  proof (cases "us = []")
    case True
    then show ?thesis using Cons.prems by (simp add: Let_def)
  next
    case False
    then have "length acc \<noteq> 7" using Cons.prems(2) by (cases us) auto
    then show ?thesis
      using Cons.prems Cons.IH [OF False, of "acc @ [u]" "idx + 1"]
      by (simp add: Let_def algebra_simps)
  qed
qed simp

lemma load_words_flat:
  assumes "words_ok n (data d)" and "data d = pre @ ws" and "length us = 8 * m" and "m \<le> length ws"
    and "list_all (fits 32) us"
  shows "returns (load_words (8 * int (length pre)) [] us d) (\<lambda>d'.
    d' = d\<lparr>data := data d'\<rparr> \<and> words_ok n (data d') \<and>
    flat_u32s (data d') = flat_u32s pre @ us @ drop (8 * m) (flat_u32s ws))"
  using assms
proof (induction m arbitrary: us d pre ws)
  case 0
  then show ?case by simp
next
  case (Suc m)
  obtain w ws' where ws: "ws = w # ws'" using Suc.prems(4) by (cases ws) auto
  have td: "take 8 us @ drop 8 us @ xs = us @ xs" for xs
    by (metis append.assoc append_take_drop_id)
  let ?u = "take 8 us" and ?us = "drop 8 us"
  have u: "length ?u = 8" "list_all (fits 32) ?u" and us: "length ?us = 8 * m" "list_all (fits 32) ?us"
    using Suc.prems(3,5)
    by (auto simp: list_all_iff dest: in_set_takeD in_set_dropD)
  let ?d = "d\<lparr>data := (pre @ [le_val 32 ?u]) @ ws'\<rparr>"
  have n: "length pre < n" using Suc.prems(1,2) ws by (auto simp: words_ok_def)
  have "(8 * int (length pre) + int (length ?u) - 1) div 8 = int (length pre)"
    unfolding u(1) by simp
  then have "load_words (8 * int (length pre)) [] (?u @ ?us) d =
      bindR (Dmem_set_u32s (int (length pre)) ?u d) (load_words (8 * int (length pre) + 8) [] ?us)"
    using load_words_group [of ?u "[]" "8 * int (length pre)" ?us d] u(1) Suc.prems(3)
    by (cases us) auto
  then have step: "load_words (8 * int (length pre)) [] us d =
      load_words (8 * int (length (pre @ [le_val 32 ?u]))) [] ?us ?d"
    using Suc.prems(1,2) ws n
    by (simp add: Dmem_set_u32s_eq [OF Suc.prems(1) _ _ u] algebra_simps)
  have "words_ok n (data ?d)"
    using Suc.prems(1,2) ws le_val_fits [OF u(2)] u(1) by (auto simp: words_ok_def)
  then have "returns (load_words (8 * int (length (pre @ [le_val 32 ?u]))) [] ?us ?d) (\<lambda>d'.
      d' = ?d\<lparr>data := data d'\<rparr> \<and> words_ok n (data d') \<and>
      flat_u32s (data d') = flat_u32s (pre @ [le_val 32 ?u]) @ ?us @ drop (8 * m) (flat_u32s ws'))"
    using Suc.prems(4) ws us by (intro Suc.IH) auto
  moreover have "flat_u32s (pre @ [le_val 32 ?u]) @ ?us @ drop (8 * m) (flat_u32s ws') =
      flat_u32s pre @ us @ drop (8 * Suc m) (flat_u32s ws)"
    using le_split_le_val [OF u(2)] u(1) td ws by simp
  ultimately show ?case
    unfolding step by (elim returns_mono) simp
qed

lemma fits_push_byte: "k + 8 \<le> 32 \<Longrightarrow> fits 32 (push_bit k (uint (b :: byte)))"
proof -
  assume k: "k + 8 \<le> 32"
  have "uint b < 2 ^ 8" using uint_lt2p [of b] by simp
  then have "2 ^ k * uint b < 2 ^ k * 2 ^ 8" by (intro mult_strict_left_mono) simp_all
  also have "(2 :: int) ^ k * 2 ^ 8 = 2 ^ (k + 8)" by (simp add: power_add)
  also have "(2 :: int) ^ (k + 8) \<le> 2 ^ 32" using k by (intro power_increasing) simp_all
  finally show ?thesis by (simp add: fits_iff push_bit_eq_mult mult.commute)
qed

lemma unpack_u32s_fits: "list_all (fits 32) (unpack_u32s bs)"
proof (induction bs rule: unpack_u32s.induct)
  case (1 b0 b1 b2 b3 bs)
  then show ?case
    using fits_push_byte [of 0 b0] fits_push_byte [of 8 b1] fits_push_byte [of 16 b2]
      fits_push_byte [of 24 b3]
    by (simp add: fits_or)
qed simp_all

lemma length_unpack_u32s: "length (unpack_u32s bs) = length bs div 4"
  by (induction bs rule: unpack_u32s.induct) simp_all

lemma byte_no_bit [simp]: "8 \<le> k \<Longrightarrow> \<not> bit (b :: byte) k"
  by (auto dest: bit_imp_le_length)

lemma pack_unpack_u32:
  "pack_u32 (uint b0 OR push_bit 8 (uint b1) OR push_bit 16 (uint b2) OR push_bit 24 (uint b3)) =
   [b0, b1, b2, b3]"
  by (auto simp: pack_u32_def upt_rec bit_simps intro!: bit_eqI)

lemma pack_unpack_u32s: "4 dvd length bs \<Longrightarrow> concat (map pack_u32 (unpack_u32s bs)) = bs"
proof (induction bs rule: unpack_u32s.induct)
  case (1 b0 b1 b2 b3 bs)
  have "4 dvd length bs" using 1(2) by simp presburger
  then show ?case using 1(1) by (simp add: pack_unpack_u32)
qed (auto dest!: dvd_imp_le)

lemma get_all_u32s_eq:
  assumes "words_ok n (data d)"
  shows "get_all_u32s [0..<length (data d)] d = Inr (flat_u32s (data d))"
proof -
  have "get_all_u32s is d = Inr (concat (map (\<lambda>i. le_split 32 8 (data d ! i)) is))"
    if "\<forall>i \<in> set is. i < n" for "is"
    using that by (induction "is") (simp_all add: Dmem_get_u32s_eq [OF assms])
  moreover have "map (\<lambda>i. le_split 32 8 (data d ! i)) [0..<length (data d)] =
      map (le_split 32 8) (data d)"
    by (rule nth_equalityI) simp_all
  ultimately show ?thesis
    using assms by (simp add: words_ok_def flat_u32s_def)
qed

lemma Dmem_dump_le_words_eq:
  "words_ok n (data d) \<Longrightarrow> Dmem_dump_le_words d = Inr (concat (map pack_u32 (flat_u32s (data d))))"
  by (simp add: Dmem_dump_le_words_def get_all_u32s_eq)

lemma drop_packed: "drop (4 * k) (concat (map pack_u32 us)) = concat (map pack_u32 (drop k us))"
proof (induction us arbitrary: k)
  case (Cons u us)
  then show ?case by (cases k) (simp_all add: pack_u32_def)
qed simp

lemma load_dump:
  assumes "Dmem_inv n d" and "length bs \<le> 32 * n"
  defines "pad \<equiv> (if length bs mod 32 = 0 then 0 else 32 - length bs mod 32)"
  shows "returns
    (bindR (Dmem_dump_le_words d) (\<lambda>old.
     bindR (Dmem_load_le_words bs d) (\<lambda>d'.
     bindR (Dmem_dump_le_words d') (\<lambda>new. Inr (old, d', new)))))
    (\<lambda>(old, d', new). Dmem_inv n d' \<and> (\<exists>ws. d' = d\<lparr>data := ws\<rparr>) \<and>
       new = bs @ replicate pad 0x30 @ drop (length bs + pad) old)"
proof -
  let ?bs = "bs @ replicate pad 0x30"
  have w: "words_ok n (data d)" "length (data d) = n" "list_all (store_ok n) (dmem_trace d)"
    using assms(1) by (simp_all add: Dmem_inv_def words_ok_def)
  obtain q r where qr: "length bs = 32 * q + r" "r < 32" "length bs mod 32 = r"
    by (metis mod_less_divisor mult_div_mod_eq zero_less_numeral)
  obtain m where m: "length ?bs = 32 * m" "m \<le> n"
  proof (cases "r = 0")
    case True
    then show thesis
      using that [of q] qr(1,3) assms(2) by (simp add: pad_def)
  next
    case False
    then have "length ?bs = 32 * Suc q" "Suc q \<le> n"
      using qr assms(2) by (simp_all add: pad_def)
    then show thesis by (rule that)
  qed
  have us: "length (unpack_u32s ?bs) = 8 * m" using m(1) by (simp add: length_unpack_u32s)
  have load: "Dmem_load_le_words bs d = load_words (8 * int (length ([] :: int list))) [] (unpack_u32s ?bs) d"
    using assms(2) w(2) by (simp add: Dmem_load_le_words_def pad_def Let_def)
  have "returns (Dmem_load_le_words bs d) (\<lambda>d'. d' = d\<lparr>data := data d'\<rparr> \<and> words_ok n (data d') \<and>
      flat_u32s (data d') = unpack_u32s ?bs @ drop (8 * m) (flat_u32s (data d)))"
    unfolding load
    using load_words_flat [OF w(1) _ us, of "[]" "data d"] m(2) w(2) unpack_u32s_fits by simp
  then obtain d' where d': "Dmem_load_le_words bs d = Inr d'" "d' = d\<lparr>data := data d'\<rparr>"
    "words_ok n (data d')" "flat_u32s (data d') = unpack_u32s ?bs @ drop (8 * m) (flat_u32s (data d))"
    by (auto elim: returnsE)
  have "dmem_trace d' = dmem_trace d" by (subst d'(2)) simp
  moreover have "4 dvd length ?bs" using m(1) by simp
  moreover have "length bs + pad = 4 * (8 * m)" using m(1) by simp
  ultimately show ?thesis
    using d'(1,3,4) exI [of "\<lambda>ws. d' = d\<lparr>data := ws\<rparr>", OF d'(2)] w m(1)
      drop_packed [of "8 * m" "flat_u32s (data d)"]
    by (simp add: Dmem_dump_le_words_eq Dmem_inv_def pack_unpack_u32s del: drop_append)
qed

text \<open>
  Loading an image and dumping the memory.  An image that fits in the memory is loaded without
  error; the dump of the memory then starts with the bytes of the image, followed by bytes \<^verbatim>\<open>0x30\<close>
  (the character \<^verbatim>\<open>'0'\<close>) up to the next multiple of 32 bytes, followed by what the memory held
  there before.
\<close>

theorem dmem_load_dump:
  assumes "Dmem_inv n d" and "length bs \<le> 32 * n"
  defines "pad \<equiv> (if length bs mod 32 = 0 then 0 else 32 - length bs mod 32)"
  shows "returns
    (bindR (Dmem_dump_le_words d) (\<lambda>old.
     bindR (Dmem_load_le_words bs d) (\<lambda>d'.
     bindR (Dmem_dump_le_words d') (\<lambda>new. Inr (old, d', new)))))
    (\<lambda>(old, d', new). Dmem_inv n d' \<and>
       new = bs @ replicate pad 0x30 @ drop (length bs + pad) old)"
  unfolding pad_def
  using load_dump [OF assms(1,2)] by (rule returns_mono) auto

theorem dmem_load_dump_witness:
  "returns
    (bindR (Dmem_dump_le_words small_dmem) (\<lambda>old.
     bindR (Dmem_load_le_words [1, 2, 3] small_dmem) (\<lambda>d'.
     bindR (Dmem_dump_le_words d') (\<lambda>new. Inr (old, d', new)))))
    (\<lambda>(old, d', new). Dmem_inv 2 d' \<and> new = [1, 2, 3] @ replicate 29 0x30 @ drop 32 old)"
  using dmem_load_dump [OF small_dmem_ok(1), of "[1, 2, 3]"] by simp

text \<open>
  Bounds of the data memory.  A 32-bit (or 256-bit) load never raises on a non-negative address:
  on an address that is a multiple of the access size with the access inside the memory it returns
  the word stored there and reports no error; on every other address it returns 0 and reports
  \<^verbatim>\<open>BAD_DATA_ADDR\<close>.  A store of a value of the right width either stages the store or, on a
  bad address, stages nothing and reports \<^verbatim>\<open>BAD_DATA_ADDR\<close>.
\<close>

theorem dmem_access_bounds:
  assumes "Dmem_inv n d" and "Dmem_quiet d" and "0 \<le> addr" and "fits 32 v" and "fits 256 wv"
  shows
    "returns (Dmem_load_u32 addr d) (\<lambda>(x, d'). data d' = data d \<and>
       (if addr mod 4 = 0 \<and> addr + 4 \<le> 32 * int n
        then x = u32_at (data d) (nat (addr div 4)) \<and> Dmem_err_bits d' = 0
        else x = 0 \<and> Dmem_err_bits d' = BAD_DATA_ADDR)) \<and>
     returns (Dmem_load_u256 addr d) (\<lambda>(x, d'). data d' = data d \<and>
       (if addr mod 32 = 0 \<and> addr + 32 \<le> 32 * int n
        then x = data d ! nat (addr div 32) \<and> Dmem_err_bits d' = 0
        else x = 0 \<and> Dmem_err_bits d' = BAD_DATA_ADDR)) \<and>
     returns (Dmem_store_u32 addr v d) (\<lambda>d'. data d' = data d \<and>
       (if addr mod 4 = 0 \<and> addr + 4 \<le> 32 * int n
        then Dmem_pend d' = put_u32 (nat (addr div 4)) v (data d) \<and> Dmem_err_bits d' = 0
        else dmem_trace d' = [] \<and> Dmem_err_bits d' = BAD_DATA_ADDR)) \<and>
     returns (Dmem_store_u256 addr wv d) (\<lambda>d'. data d' = data d \<and>
       (if addr mod 32 = 0 \<and> addr + 32 \<le> 32 * int n
        then Dmem_pend d' = (data d)[nat (addr div 32) := wv] \<and> Dmem_err_bits d' = 0
        else dmem_trace d' = [] \<and> Dmem_err_bits d' = BAD_DATA_ADDR))"
  using assms(2)
  by (simp add: Dmem_load_u32_eq [OF assms(1,3)] Dmem_load_u256_eq [OF assms(1,3)]
      Dmem_store_u32_eq [OF assms(1,3,4)] Dmem_store_u256_eq [OF assms(1,3,5)]
      access_ok_def Dmem_quiet_def Dmem_err_bits_def Dmem_pend_def put_store_def)

theorem dmem_access_bounds_witness:
  "returns (Dmem_load_u32 32 small_dmem) (\<lambda>(x, d'). x = 0 \<and> Dmem_err_bits d' = 0) \<and>
   returns (Dmem_load_u32 64 small_dmem) (\<lambda>(x, d'). x = 0 \<and> Dmem_err_bits d' = BAD_DATA_ADDR)"
proof -
  have f: "fits 32 (0 :: int)" "fits 256 (0 :: int)" by simp_all
  have z: "u32_at (data small_dmem) 8 = 0"
    by (simp add: small_dmem_def u32_at_wide)
  show ?thesis
    using dmem_access_bounds [OF small_dmem_ok _ f, of 32]
      dmem_access_bounds [OF small_dmem_ok _ f, of 64] z
    by (auto elim!: returns_mono)
qed

text \<open>
  Wide and narrow accesses agree on one little-endian layout.  After a 256-bit store has been
  committed, the 32-bit load at byte offset \<open>4 * j\<close> of the same word returns bits \<open>32 * j\<close> to
  \<open>32 * j + 31\<close> of the stored value, and loading the wide word returns it whole.
\<close>

theorem dmem_wide_narrow:
  assumes "Dmem_inv n d" and "Dmem_quiet d" and "k < n" and "j < 8" and "fits 256 v"
  shows "returns
    (bindR (Dmem_store_u256 (32 * int k) v d) (\<lambda>d1.
     bindR (Dmem_commit False d1) (\<lambda>d2.
     bindR (Dmem_load_u32 (32 * int k + 4 * int j) d2) (\<lambda>(x, _).
     bindR (Dmem_load_u256 (32 * int k) d2) (\<lambda>(y, _). Inr (x, y))))))
    (\<lambda>(x, y). x = take_bit 32 (drop_bit (32 * j) v) \<and> y = v)"
proof -
  let ?tr = "[\<lparr>ds_addr = 32 * int k, ds_value = v, is_wide = True\<rparr>]"
  let ?d1 = "d\<lparr>dmem_trace := ?tr\<rparr>"
  let ?d2 = "d\<lparr>data := (data d)[k := v], dmem_trace := [], load_begun := False, load_ready := load_begun d\<rparr>"
  have w: "words_ok n (data d)" "length (data d) = n" and q: "dmem_trace d = []" "\<not> dmem_err_flag d"
    using assms(1,2) by (simp_all add: Dmem_inv_def words_ok_def Dmem_quiet_def)
  have a: "access_ok n 32 (32 * int k)" and a': "access_ok n 4 (32 * int k + 4 * int j)"
    using assms(3,4) by (simp_all add: access_ok_def)
  have "Dmem_inv n ?d1"
    using w access_ok_store_ok(2) [OF _ a assms(5)] by (simp add: Dmem_inv_def)
  from Dmem_commit_eq(1) [OF this, of False] q
  have c: "Dmem_commit False ?d1 = Inr ?d2"
    by (simp add: Dmem_pend_def put_store_def)
  have d2: "Dmem_inv n ?d2"
    using w assms(5) by (simp add: Dmem_inv_def words_ok_def list_all_update)
  have "(32 * int k + 4 * int j) div 4 = int (8 * k + j)" by simp
  then have i: "nat ((32 * int k + 4 * int j) div 4) = 8 * k + j" by simp
  have "u32_at ((data d)[k := v]) (8 * k + j) = take_bit 32 (drop_bit (32 * j) v)"
    using assms(3,4) w(2) by (simp add: u32_at_wide)
  then show ?thesis
    using c a a' i assms(1,3,5) q w(2)
    by (simp add: Dmem_store_u256_eq Dmem_load_u32_eq [OF d2] Dmem_load_u256_eq [OF d2])
qed

theorem dmem_wide_narrow_witness:
  "returns
    (bindR (Dmem_store_u256 (32 * int 1) 0xaabbccdd00000005 small_dmem) (\<lambda>d1.
     bindR (Dmem_commit False d1) (\<lambda>d2.
     bindR (Dmem_load_u32 (32 * int 1 + 4 * int 1) d2) (\<lambda>(x, _).
     bindR (Dmem_load_u256 (32 * int 1) d2) (\<lambda>(y, _). Inr (x, y))))))
    (\<lambda>(x, y). x = 0xaabbccdd \<and> y = 0xaabbccdd00000005)"
proof -
  have "fits 256 (0xaabbccdd00000005 :: int)" by (simp add: fits_iff)
  from dmem_wide_narrow [OF small_dmem_ok _ _ this, of 1 1]
  show ?thesis
    by (simp add: take_bit_eq_mod drop_bit_eq_div)
qed

end
