(* ===== verification/Ext_Regs.thy ===== *)
theory Ext_Regs
  imports Staging "HOL-Library.AList"
begin

text \<open>
  The externally visible registers: \<^verbatim>\<open>sim/ext_regs.py\<close> (class \<^verbatim>\<open>TraceExtRegChange\<close>, class
  \<^verbatim>\<open>RGField\<close>, class \<^verbatim>\<open>RGReg\<close>, class \<^verbatim>\<open>OTBNExtRegs\<close>).

  The register block comes from reggen's reading of \<^verbatim>\<open>otbn.hjson\<close>; it is an argument
  (\<open>reg_desc list\<close>, the name and the fields of each register in order) of the constructor.
  \<open>otbn_reg_block\<close> is the block of the repository: the four registers reggen adds for the
  interrupt and the two alerts, then those of \<^verbatim>\<open>otbn.hjson\<close>.  The Python dictionary keeps the
  insertion order, so the registers are an association list.
\<close>

section \<open>Data and operations\<close>

record field_desc =
  fd_name :: string
  fd_width :: int
  fd_lsb :: int
  fd_resval :: "int option"
  fd_swaccess :: string

type_synonym reg_desc = "string \<times> field_desc list"

record rg_field =
  fld_name :: string
  fld_width :: nat
  fld_lsb :: nat
  fld_value :: int
  w1c :: bool
  read_only :: bool
  read_zero :: bool
  next_value :: int

record ext_reg_change =
  erc_name :: string
  erc_op :: string
  erc_written :: int
  erc_from_hw :: bool
  erc_new_value :: int

record ext_regs =
  regs :: "(string \<times> rg_field list) list"
  ext_trace :: "ext_reg_change list"

text \<open>\<^verbatim>\<open>field.resval or 0\<close> is 0 for \<^verbatim>\<open>None\<close>.\<close>

definition RGField_init :: "field_desc \<Rightarrow> rg_field result" where
  "RGField_init fd =
     (let reset_value = (case fd_resval fd of Some v \<Rightarrow> v | None \<Rightarrow> 0); swaccess = fd_swaccess fd
      in require (swaccess \<in> {''rw1c'', ''rw'', ''wo'', ''r0w1c'', ''ro''})
         (require (0 < fd_width fd)
          (require (0 \<le> fd_lsb fd)
            (Inr \<lparr>fld_name = fd_name fd, fld_width = nat (fd_width fd), fld_lsb = nat (fd_lsb fd),
                  fld_value = reset_value, w1c = swaccess \<in> {''rw1c'', ''r0w1c''},
                  read_only = (swaccess = ''ro''), read_zero = swaccess \<in> {''wo'', ''r0w1c''},
                  next_value = reset_value\<rparr>))))"

definition RGField_next_sw_read :: "rg_field \<Rightarrow> int" where
  "RGField_next_sw_read f = (if read_zero f then 0 else next_value f)"

definition RGField_write :: "bool \<Rightarrow> int \<Rightarrow> (rg_field, int) action" where
  "RGField_write from_hw v f =
     require (0 \<le> v)
       (let masked = v AND low_mask (fld_width f);
            f' = (if read_only f \<and> \<not> from_hw then f
                  else if w1c f \<and> \<not> from_hw then f\<lparr>next_value := next_value f AND NOT masked\<rparr>
                  else f\<lparr>next_value := masked\<rparr>)
        in Inr (RGField_next_sw_read f', f'))"

definition RGField_set_bits :: "int \<Rightarrow> (rg_field, int) action" where
  "RGField_set_bits v f =
     (let masked = v AND low_mask (fld_width f); f' = f\<lparr>next_value := next_value f OR masked\<rparr>
      in Inr (RGField_next_sw_read f', f'))"

definition RGField_clear_bits :: "int \<Rightarrow> (rg_field, int) action" where
  "RGField_clear_bits v f =
     (let f' = f\<lparr>next_value := next_value f AND NOT v\<rparr> in Inr (RGField_next_sw_read f', f'))"

definition RGField_read :: "bool \<Rightarrow> rg_field \<Rightarrow> int" where
  "RGField_read from_hw f = (if read_zero f \<and> \<not> from_hw then 0 else fld_value f)"

definition RGField_commit :: "rg_field \<Rightarrow> rg_field" where
  "RGField_commit f = f\<lparr>fld_value := next_value f\<rparr>"

definition RGField_abort :: "rg_field \<Rightarrow> rg_field" where
  "RGField_abort f = f\<lparr>next_value := fld_value f\<rparr>"

fun RGReg_init :: "field_desc list \<Rightarrow> rg_field list result" where
  "RGReg_init [] = Inr []"
| "RGReg_init (fd # fds) =
     bindR (RGField_init fd) (\<lambda>f. bindR (RGReg_init fds) (\<lambda>fs. Inr (f # fs)))"

fun apply_fields_from :: "(int \<Rightarrow> (rg_field, int) action) \<Rightarrow> int \<Rightarrow> int \<Rightarrow> (rg_field list, int) action" where
  "apply_fields_from func v new_val [] = Inr (new_val, [])"
| "apply_fields_from func v new_val (f # fs) =
     bindR (func (drop_bit (fld_lsb f) v) f) (\<lambda>(fv, f').
     bindR (apply_fields_from func v (new_val OR push_bit (fld_lsb f) fv) fs) (\<lambda>(r, fs').
     Inr (r, f' # fs')))"

definition RGReg_apply_fields :: "(int \<Rightarrow> (rg_field, int) action) \<Rightarrow> int \<Rightarrow> (rg_field list, int) action" where
  "RGReg_apply_fields func v = apply_fields_from func v 0"

definition RGReg_write :: "int \<Rightarrow> bool \<Rightarrow> (rg_field list, int) action" where
  "RGReg_write v from_hw fs = require (0 \<le> v) (RGReg_apply_fields (RGField_write from_hw) v fs)"

definition RGReg_set_bits :: "int \<Rightarrow> (rg_field list, int) action" where
  "RGReg_set_bits v fs = require (0 \<le> v) (RGReg_apply_fields RGField_set_bits v fs)"

definition RGReg_clear_bits :: "int \<Rightarrow> (rg_field list, int) action" where
  "RGReg_clear_bits v fs = require (0 \<le> v) (RGReg_apply_fields RGField_clear_bits v fs)"

definition RGReg_read :: "bool \<Rightarrow> rg_field list \<Rightarrow> int" where
  "RGReg_read from_hw fs = foldl (\<lambda>v f. v OR push_bit (fld_lsb f) (RGField_read from_hw f)) 0 fs"

definition RGReg_commit :: "rg_field list \<Rightarrow> rg_field list" where
  "RGReg_commit fs = map RGField_commit fs"

definition RGReg_abort :: "rg_field list \<Rightarrow> rg_field list" where
  "RGReg_abort fs = map RGField_abort fs"

fun ExtRegs_add :: "reg_desc list \<Rightarrow> (string \<times> rg_field list) list \<Rightarrow> (string \<times> rg_field list) list result" where
  "ExtRegs_add [] rs = Inr rs"
| "ExtRegs_add ((n, fds) # ds) rs =
     require (n \<notin> fst ` set rs)
       (bindR (RGReg_init fds) (\<lambda>fs. ExtRegs_add ds (rs @ [(n, fs)])))"

definition ExtRegs_init :: "reg_desc list \<Rightarrow> ext_regs result" where
  "ExtRegs_init block = bindR (ExtRegs_add block []) (\<lambda>rs. Inr \<lparr>regs = rs, ext_trace = []\<rparr>)"

definition ExtRegs_get_reg :: "string \<Rightarrow> ext_regs \<Rightarrow> rg_field list result" where
  "ExtRegs_get_reg n e = (case map_of (regs e) n of None \<Rightarrow> Inl ValueError | Some fs \<Rightarrow> Inr fs)"

definition ExtRegs_write :: "string \<Rightarrow> int \<Rightarrow> bool \<Rightarrow> ext_regs \<Rightarrow> ext_regs result" where
  "ExtRegs_write n v from_hw e =
     require (0 \<le> v)
       (bindR (ExtRegs_get_reg n e) (\<lambda>fs.
        bindR (RGReg_write v from_hw fs) (\<lambda>(new_val, fs').
        Inr (e\<lparr>regs := AList.update n fs' (regs e),
               ext_trace := ext_trace e @ [\<lparr>erc_name = n, erc_op = ''='', erc_written = v,
                 erc_from_hw = from_hw, erc_new_value = new_val\<rparr>]\<rparr>))))"

definition ExtRegs_set_bits :: "string \<Rightarrow> int \<Rightarrow> ext_regs \<Rightarrow> ext_regs result" where
  "ExtRegs_set_bits n v e =
     require (0 \<le> v)
       (bindR (ExtRegs_get_reg n e) (\<lambda>fs.
        bindR (RGReg_set_bits v fs) (\<lambda>(new_val, fs').
        Inr (e\<lparr>regs := AList.update n fs' (regs e),
               ext_trace := ext_trace e @ [\<lparr>erc_name = n, erc_op = ''|='', erc_written = v,
                 erc_from_hw = True, erc_new_value = new_val\<rparr>]\<rparr>))))"

definition ExtRegs_clear_bits :: "string \<Rightarrow> int \<Rightarrow> ext_regs \<Rightarrow> ext_regs result" where
  "ExtRegs_clear_bits n v e =
     require (0 \<le> v)
       (bindR (ExtRegs_get_reg n e) (\<lambda>fs.
        bindR (RGReg_clear_bits v fs) (\<lambda>(new_val, fs').
        Inr (e\<lparr>regs := AList.update n fs' (regs e),
               ext_trace := ext_trace e @ [\<lparr>erc_name = n, erc_op = ''&= ~'', erc_written = v,
                 erc_from_hw = True, erc_new_value = new_val\<rparr>]\<rparr>))))"

definition ExtRegs_read :: "string \<Rightarrow> bool \<Rightarrow> ext_regs \<Rightarrow> int result" where
  "ExtRegs_read n from_hw e =
     (case map_of (regs e) n of None \<Rightarrow> Inl ValueError | Some fs \<Rightarrow> Inr (RGReg_read from_hw fs))"

definition ExtRegs_changes :: "ext_regs \<Rightarrow> ext_reg_change list" where
  "ExtRegs_changes e = ext_trace e"

definition ExtRegs_commit :: "ext_regs \<Rightarrow> ext_regs" where
  "ExtRegs_commit e =
     (if ext_trace e = [] then e
      else e\<lparr>regs := map (\<lambda>(n, fs). (n, RGReg_commit fs)) (regs e), ext_trace := []\<rparr>)"

definition ExtRegs_abort :: "ext_regs \<Rightarrow> ext_regs" where
  "ExtRegs_abort e =
     e\<lparr>regs := map (\<lambda>(n, fs). (n, RGReg_abort fs)) (regs e), ext_trace := []\<rparr>"

section \<open>The register block of OTBN\<close>

definition bit_field :: "string \<Rightarrow> int option \<Rightarrow> string \<times> int \<Rightarrow> field_desc" where
  "bit_field swaccess rv p =
     \<lparr>fd_name = fst p, fd_width = 1, fd_lsb = snd p,
      fd_resval = rv, fd_swaccess = swaccess\<rparr>"

definition word_field :: "string \<Rightarrow> int option \<Rightarrow> string \<Rightarrow> field_desc" where
  "word_field swaccess rv n =
     \<lparr>fd_name = n, fd_width = 32, fd_lsb = 0, fd_resval = rv, fd_swaccess = swaccess\<rparr>"

definition otbn_reg_block :: "reg_desc list" where
  "otbn_reg_block =
     [(''INTR_STATE'', [bit_field ''rw1c'' (Some 0) (''done'', 0)]),
      (''INTR_ENABLE'', [bit_field ''rw'' (Some 0) (''done'', 0)]),
      (''INTR_TEST'', [bit_field ''wo'' (Some 0) (''done'', 0)]),
      (''ALERT_TEST'', map (bit_field ''wo'' (Some 0)) [(''fatal'', 0), (''recov'', 1)]),
      (''CMD'', [bit_field ''r0w1c'' None (''start'', 0)]),
      (''STATUS'', [bit_field ''ro'' None (''busy'', 0)]),
      (''ERR_BITS'', map (bit_field ''ro'' None)
         [(''bad_data_addr'', 0), (''bad_insn_addr'', 1), (''call_stack'', 2), (''illegal_insn'', 3),
          (''loop'', 4), (''fatal_imem'', 5), (''fatal_dmem'', 6), (''fatal_reg'', 7)]),
      (''START_ADDR'', [word_field ''wo'' (Some 0) ''start_addr'']),
      (''FATAL_ALERT_CAUSE'', map (bit_field ''ro'' (Some 0))
         [(''bus_integrity_error'', 0), (''imem_error'', 1), (''dmem_error'', 2), (''reg_error'', 3)]),
      (''INSN_CNT'', [word_field ''ro'' None ''insn_cnt''])]"

section \<open>Invariant and views\<close>

text \<open>
  \<open>reg_view g\<close> assembles a register from a value per field; the hardware reads the register as
  \<open>reg_view fld_value\<close>, and \<open>reg_view next_value\<close> is what it will read after a commit.
\<close>

definition reg_view :: "(rg_field \<Rightarrow> int) \<Rightarrow> rg_field list \<Rightarrow> int" where
  "reg_view g fs = foldl (\<lambda>v f. v OR push_bit (fld_lsb f) (g f)) 0 fs"

definition reg_mask :: "rg_field list \<Rightarrow> int" where
  "reg_mask fs = reg_view (\<lambda>f. low_mask (fld_width f)) fs"

definition field_ok :: "rg_field \<Rightarrow> bool" where
  "field_ok f \<longleftrightarrow> fits (fld_width f) (fld_value f) \<and> fits (fld_width f) (next_value f)"

definition field_shape :: "rg_field \<Rightarrow> string \<times> nat \<times> nat \<times> bool \<times> bool \<times> bool" where
  "field_shape f = (fld_name f, fld_width f, fld_lsb f, w1c f, read_only f, read_zero f)"

type_synonym block_shape = "(string \<times> (string \<times> nat \<times> nat \<times> bool \<times> bool \<times> bool) list) list"

definition ext_shape :: "ext_regs \<Rightarrow> block_shape" where
  "ext_shape e = map (\<lambda>(n, fs). (n, map field_shape fs)) (regs e)"

definition ExtRegs_inv :: "block_shape \<Rightarrow> ext_regs \<Rightarrow> bool" where
  "ExtRegs_inv sh e \<longleftrightarrow>
     ext_shape e = sh \<and> distinct (map fst (regs e)) \<and>
     (\<forall>(n, fs) \<in> set (regs e). list_all field_ok fs \<and>
        (ext_trace e = [] \<longrightarrow> list_all (\<lambda>f. next_value f = fld_value f) fs))"

definition ExtRegs_quiet :: "ext_regs \<Rightarrow> bool" where
  "ExtRegs_quiet e \<longleftrightarrow> ext_trace e = []"

definition ExtRegs_cur :: "ext_regs \<Rightarrow> string \<Rightarrow> int option" where
  "ExtRegs_cur e n = map_option (reg_view fld_value) (map_of (regs e) n)"

definition ExtRegs_pend :: "ext_regs \<Rightarrow> string \<Rightarrow> int option" where
  "ExtRegs_pend e n = map_option (reg_view next_value) (map_of (regs e) n)"

lemma bit_foldl_view:
  "bit (foldl (\<lambda>v f. v OR push_bit (fld_lsb f) (g f)) (a :: int) fs) k \<longleftrightarrow>
   bit a k \<or> (\<exists>f \<in> set fs. fld_lsb f \<le> k \<and> bit (g f) (k - fld_lsb f))"
  by (induction fs arbitrary: a) (auto simp: bit_or_iff bit_push_bit_iff)

lemma bit_reg_view:
  "bit (reg_view g fs) k \<longleftrightarrow> (\<exists>f \<in> set fs. fld_lsb f \<le> k \<and> bit (g f) (k - fld_lsb f))"
  by (simp add: reg_view_def bit_foldl_view)

lemma reg_view_cong:
  "(\<And>f. f \<in> set fs \<Longrightarrow> g f = h f) \<Longrightarrow> reg_view g fs = reg_view h fs"
  by (rule bit_eqI) (auto simp: bit_reg_view)

lemma reg_view_map:
  "(\<And>f. fld_lsb (u f) = fld_lsb f) \<Longrightarrow> reg_view g (map u fs) = reg_view (\<lambda>f. g (u f)) fs"
  by (rule bit_eqI) (auto simp: bit_reg_view)

lemma RGReg_read_hw: "RGReg_read True fs = reg_view fld_value fs"
  by (simp add: RGReg_read_def reg_view_def RGField_read_def)

lemma ExtRegs_read_hw:
  "ExtRegs_read n True e = (case ExtRegs_cur e n of None \<Rightarrow> Inl ValueError | Some v \<Rightarrow> Inr v)"
  by (simp add: ExtRegs_read_def ExtRegs_cur_def RGReg_read_hw split: option.splits)

lemma reg_mask_shape: "map field_shape fs = map field_shape fs' \<Longrightarrow> reg_mask fs = reg_mask fs'"
proof (induction fs arbitrary: fs' rule: rev_induct)
  case (snoc f fs)
  then obtain f' gs where "fs' = gs @ [f']" by (cases fs' rule: rev_cases) auto
  with snoc show ?case by (auto simp: reg_mask_def reg_view_def field_shape_def)
qed (simp add: reg_mask_def reg_view_def)

section \<open>The staging laws\<close>

lemma map_of_map_values: "map_of (map (\<lambda>(n, fs). (n, g fs)) rs) n = map_option g (map_of rs n)"
  by (induction rs) auto

lemma map_fst_map_values: "map fst (map (\<lambda>(n, fs). (n, g fs)) rs) = map fst rs"
  by (induction rs) auto

lemma ExtRegs_commit_law:
  assumes "ExtRegs_inv sh e"
  shows "ExtRegs_inv sh (ExtRegs_commit e)" and "ExtRegs_quiet (ExtRegs_commit e)"
    and "ExtRegs_cur (ExtRegs_commit e) = ExtRegs_pend e"
proof -
  show "ExtRegs_inv sh (ExtRegs_commit e)"
    using assms
    by (auto simp: ExtRegs_inv_def ExtRegs_commit_def ext_shape_def RGReg_commit_def comp_def
        list_all_iff field_ok_def RGField_commit_def case_prod_beta field_shape_def)
  show "ExtRegs_quiet (ExtRegs_commit e)"
    by (simp add: ExtRegs_quiet_def ExtRegs_commit_def)
  show "ExtRegs_cur (ExtRegs_commit e) = ExtRegs_pend e"
  proof
    fix n
    show "ExtRegs_cur (ExtRegs_commit e) n = ExtRegs_pend e n"
    proof (cases "ext_trace e = []")
      case True
      have "reg_view fld_value fs = reg_view next_value fs" if "map_of (regs e) n = Some fs" for fs
        using assms True that
        by (intro reg_view_cong) (fastforce simp: ExtRegs_inv_def list_all_iff dest: map_of_SomeD)
      then show ?thesis
        using True by (cases "map_of (regs e) n")
          (simp_all add: ExtRegs_commit_def ExtRegs_cur_def ExtRegs_pend_def)
    next
      case False
      then show ?thesis
        by (simp add: ExtRegs_commit_def ExtRegs_cur_def ExtRegs_pend_def map_of_map_values
            option.map_comp comp_def RGReg_commit_def reg_view_map RGField_commit_def)
    qed
  qed
qed

lemma ExtRegs_abort_law:
  assumes "ExtRegs_inv sh e"
  shows "ExtRegs_inv sh (ExtRegs_abort e)" and "ExtRegs_quiet (ExtRegs_abort e)"
    and "ExtRegs_cur (ExtRegs_abort e) = ExtRegs_cur e"
proof -
  show "ExtRegs_inv sh (ExtRegs_abort e)"
    using assms
    by (auto simp: ExtRegs_inv_def ExtRegs_abort_def ext_shape_def RGReg_abort_def comp_def
        list_all_iff field_ok_def RGField_abort_def case_prod_beta field_shape_def)
  show "ExtRegs_quiet (ExtRegs_abort e)"
    by (simp add: ExtRegs_quiet_def ExtRegs_abort_def)
  show "ExtRegs_cur (ExtRegs_abort e) = ExtRegs_cur e"
    by (rule ext) (simp add: ExtRegs_abort_def ExtRegs_cur_def map_of_map_values option.map_comp
        comp_def RGReg_abort_def reg_view_map RGField_abort_def)
qed

lemma ExtRegs_quiet_pend: "ExtRegs_inv sh e \<Longrightarrow> ExtRegs_quiet e \<Longrightarrow> ExtRegs_pend e = ExtRegs_cur e"
  using ExtRegs_commit_law(3) [of sh e] by (simp add: ExtRegs_quiet_def ExtRegs_commit_def)

interpretation ext_regs_staged:
  staged_component "ExtRegs_inv sh" "\<lambda>e. True" ExtRegs_quiet ExtRegs_cur ExtRegs_pend
    "\<lambda>e. Inr (ExtRegs_commit e)" "\<lambda>e. Inr (ExtRegs_abort e)" for sh
  by unfold_locales (simp_all add: ExtRegs_commit_law ExtRegs_abort_law ExtRegs_quiet_pend)

section \<open>Hardware and software accesses\<close>

text \<open>Every access updates the staged value of each field from the shifted operand.\<close>

definition stage_fields :: "(int \<Rightarrow> rg_field \<Rightarrow> int) \<Rightarrow> int \<Rightarrow> rg_field list \<Rightarrow> rg_field list" where
  "stage_fields g v fs = map (\<lambda>f. f\<lparr>next_value := g (drop_bit (fld_lsb f) v) f\<rparr>) fs"

definition hw_write :: "int \<Rightarrow> rg_field \<Rightarrow> int" where
  "hw_write v f = v AND low_mask (fld_width f)"

definition sw_write :: "int \<Rightarrow> rg_field \<Rightarrow> int" where
  "sw_write v f =
     (if read_only f then next_value f
      else if w1c f then next_value f AND NOT (v AND low_mask (fld_width f))
      else v AND low_mask (fld_width f))"

definition hw_set :: "int \<Rightarrow> rg_field \<Rightarrow> int" where
  "hw_set v f = next_value f OR (v AND low_mask (fld_width f))"

definition hw_clear :: "int \<Rightarrow> rg_field \<Rightarrow> int" where
  "hw_clear v f = next_value f AND NOT v"

lemma apply_fields_stage:
  assumes "\<And>u f. 0 \<le> u \<Longrightarrow> \<exists>r. func u f = Inr (r, f\<lparr>next_value := g u f\<rparr>)" and "0 \<le> v"
  shows "\<exists>r. RGReg_apply_fields func v fs = Inr (r, stage_fields g v fs)"
proof -
  have "\<exists>r. apply_fields_from func v a fs = Inr (r, stage_fields g v fs)" for a
  proof (induction fs arbitrary: a)
    case (Cons f fs)
    obtain r where r: "func (drop_bit (fld_lsb f) v) f =
        Inr (r, f\<lparr>next_value := g (drop_bit (fld_lsb f) v) f\<rparr>)"
      using assms by (meson drop_bit_nonnegative_int_iff)
    with Cons.IH [of "a OR push_bit (fld_lsb f) r"] show ?case
      by (auto simp: stage_fields_def)
  qed (simp add: stage_fields_def)
  then show ?thesis by (simp add: RGReg_apply_fields_def)
qed

lemma RGReg_stage:
  assumes "0 \<le> v"
  shows "\<exists>r. RGReg_write v True fs = Inr (r, stage_fields hw_write v fs)"
    and "\<exists>r. RGReg_write v False fs = Inr (r, stage_fields sw_write v fs)"
    and "\<exists>r. RGReg_set_bits v fs = Inr (r, stage_fields hw_set v fs)"
    and "\<exists>r. RGReg_clear_bits v fs = Inr (r, stage_fields hw_clear v fs)"
proof -
  have ro: "f\<lparr>next_value := next_value f\<rparr> = f" for f :: rg_field by simp
  show "\<exists>r. RGReg_write v True fs = Inr (r, stage_fields hw_write v fs)"
    "\<exists>r. RGReg_write v False fs = Inr (r, stage_fields sw_write v fs)"
    "\<exists>r. RGReg_set_bits v fs = Inr (r, stage_fields hw_set v fs)"
    "\<exists>r. RGReg_clear_bits v fs = Inr (r, stage_fields hw_clear v fs)"
    using assms
    by (simp_all add: RGReg_write_def RGReg_set_bits_def RGReg_clear_bits_def)
      (rule apply_fields_stage; simp add: RGField_write_def RGField_set_bits_def
        RGField_clear_bits_def hw_write_def sw_write_def hw_set_def hw_clear_def Let_def ro)+
qed

lemma fits_and_any: "fits n x \<Longrightarrow> fits n (x AND y)"
  by (auto simp: fits_iff intro: order_le_less_trans [OF AND_upper1])

lemma stage_fields_ok:
  assumes "list_all field_ok fs" and "g \<in> {hw_write, sw_write, hw_set, hw_clear}"
  shows "list_all field_ok (stage_fields g v fs)"
  using assms
  by (auto simp: stage_fields_def list_all_iff field_ok_def hw_write_def sw_write_def hw_set_def
      hw_clear_def fits_and_any fits_or)

lemma ExtRegs_stage:
  fixes v :: int and tr :: "ext_reg_change list"
  assumes "ExtRegs_inv sh e" and "map_of (regs e) n = Some fs"
    and "g \<in> {hw_write, sw_write, hw_set, hw_clear}" and "tr \<noteq> []"
  defines "e' \<equiv> e\<lparr>regs := AList.update n (stage_fields g v fs) (regs e), ext_trace := tr\<rparr>"
  shows "ExtRegs_inv sh e'" and "ExtRegs_cur e' = ExtRegs_cur e"
    and "ExtRegs_pend e' = (ExtRegs_pend e)(n \<mapsto> reg_view (\<lambda>f. g (drop_bit (fld_lsb f) v) f) fs)"
proof -
  let ?fs = "stage_fields g v fs"
  have u: "AList.update n ?fs rs = map (\<lambda>(k, x). (k, if k = n then ?fs else x)) rs"
    if "distinct (map fst rs)" "map_of rs n = Some fs" for rs
    using that
  proof (induction rs)
    case (Cons p rs)
    then show ?case
      by (cases p) (auto simp: image_iff split: if_splits intro!: map_idI [symmetric])
  qed simp
  have d: "distinct (map fst (regs e))" using assms(1) by (simp add: ExtRegs_inv_def)
  have sh: "map field_shape ?fs = map field_shape fs"
    by (simp add: stage_fields_def field_shape_def)
  have "fs = x" if "(n, x) \<in> set (regs e)" for x
    using d that assms(2) by simp
  moreover have "list_all field_ok fs"
    using assms(1,2) by (auto simp: ExtRegs_inv_def dest!: map_of_SomeD)
  ultimately show "ExtRegs_inv sh e'"
    using assms(1,4) d stage_fields_ok [OF _ assms(3), of fs v] sh
    by (auto simp: ExtRegs_inv_def e'_def ext_shape_def u [OF d assms(2)] case_prod_beta comp_def
        image_iff)
  show "ExtRegs_cur e' = ExtRegs_cur e"
    using assms(2) by (auto simp: ExtRegs_cur_def e'_def update_conv stage_fields_def reg_view_map)
  show "ExtRegs_pend e' = (ExtRegs_pend e)(n \<mapsto> reg_view (\<lambda>f. g (drop_bit (fld_lsb f) v) f) fs)"
    by (auto simp: ExtRegs_pend_def e'_def update_conv stage_fields_def reg_view_map)
qed

text \<open>What the staged register reads as, from the hardware.\<close>

lemma view_hw_write: "reg_view (\<lambda>f. hw_write (drop_bit (fld_lsb f) v) f) fs = v AND reg_mask fs"
  by (rule bit_eqI) (auto simp: reg_mask_def bit_reg_view hw_write_def bit_and_iff bit_drop_bit_eq)

lemma view_hw_set:
  "reg_view (\<lambda>f. hw_set (drop_bit (fld_lsb f) v) f) fs = reg_view next_value fs OR (v AND reg_mask fs)"
  by (rule bit_eqI)
    (auto simp: reg_mask_def bit_reg_view hw_set_def bit_or_iff bit_and_iff bit_drop_bit_eq)

lemma view_hw_clear:
  "reg_view (\<lambda>f. hw_clear (drop_bit (fld_lsb f) v) f) fs = reg_view next_value fs AND NOT v"
  by (rule bit_eqI)
    (auto simp: bit_reg_view hw_clear_def bit_and_iff bit_not_iff bit_drop_bit_eq)

lemma view_sw_write_plain:
  "list_all (\<lambda>f. \<not> read_only f \<and> \<not> w1c f) fs \<Longrightarrow>
   reg_view (\<lambda>f. sw_write (drop_bit (fld_lsb f) v) f) fs = v AND reg_mask fs"
  unfolding view_hw_write [symmetric]
  by (rule reg_view_cong) (auto simp: sw_write_def hw_write_def list_all_iff)

lemma view_sw_write_ro:
  "list_all read_only fs \<Longrightarrow>
   reg_view (\<lambda>f. sw_write (drop_bit (fld_lsb f) v) f) fs = reg_view next_value fs"
  by (rule reg_view_cong) (auto simp: sw_write_def list_all_iff)

lemma view_sw_write_w1c:
  assumes "list_all (\<lambda>f. \<not> read_only f \<and> w1c f \<and> field_ok f) fs"
  shows "reg_view (\<lambda>f. sw_write (drop_bit (fld_lsb f) v) f) fs = reg_view next_value fs AND NOT v"
  unfolding view_hw_clear [symmetric]
proof (rule reg_view_cong)
  fix f
  assume "f \<in> set fs"
  with assms have f: "\<not> read_only f" "w1c f" "take_bit (fld_width f) (next_value f) = next_value f"
    by (auto simp: list_all_iff field_ok_def fits_take_bit_eq)
  have "next_value f AND NOT (u AND low_mask (fld_width f)) = next_value f AND NOT u" for u
    by (subst (1 2) f(3) [symmetric], rule bit_eqI)
      (auto simp: bit_and_iff bit_or_iff bit_not_iff bit_take_bit_iff)
  with f show "sw_write (drop_bit (fld_lsb f) v) f = hw_clear (drop_bit (fld_lsb f) v) f"
    by (simp add: sw_write_def hw_clear_def)
qed

lemma ExtRegs_hw_write:
  assumes "ExtRegs_inv sh e" and "map_of (regs e) n = Some fs" and "0 \<le> v"
  shows "returns (ExtRegs_write n v True e) (\<lambda>e'. ExtRegs_inv sh e' \<and>
    ExtRegs_cur e' = ExtRegs_cur e \<and> ExtRegs_pend e' = (ExtRegs_pend e)(n \<mapsto> v AND reg_mask fs))"
  using RGReg_stage(1) [OF assms(3), of fs] assms(3)
    ExtRegs_stage [OF assms(1,2), of hw_write _ v] view_hw_write [of v fs]
  by (auto simp: ExtRegs_write_def ExtRegs_get_reg_def assms(2))

lemma ExtRegs_hw_set_bits:
  assumes "ExtRegs_inv sh e" and "map_of (regs e) n = Some fs" and "0 \<le> v"
  shows "returns (ExtRegs_set_bits n v e) (\<lambda>e'. ExtRegs_inv sh e' \<and>
    ExtRegs_cur e' = ExtRegs_cur e \<and>
    ExtRegs_pend e' = (ExtRegs_pend e)(n \<mapsto> reg_view next_value fs OR (v AND reg_mask fs)))"
  using RGReg_stage(3) [OF assms(3), of fs] assms(3)
    ExtRegs_stage [OF assms(1,2), of hw_set _ v] view_hw_set [of v fs]
  by (auto simp: ExtRegs_set_bits_def ExtRegs_get_reg_def assms(2))

lemma ExtRegs_hw_clear_bits:
  assumes "ExtRegs_inv sh e" and "map_of (regs e) n = Some fs" and "0 \<le> v"
  shows "returns (ExtRegs_clear_bits n v e) (\<lambda>e'. ExtRegs_inv sh e' \<and>
    ExtRegs_cur e' = ExtRegs_cur e \<and>
    ExtRegs_pend e' = (ExtRegs_pend e)(n \<mapsto> reg_view next_value fs AND NOT v))"
  using RGReg_stage(4) [OF assms(3), of fs] assms(3)
    ExtRegs_stage [OF assms(1,2), of hw_clear _ v] view_hw_clear [of v fs]
  by (auto simp: ExtRegs_clear_bits_def ExtRegs_get_reg_def assms(2))

lemma ExtRegs_sw_write:
  assumes "ExtRegs_inv sh e" and "map_of (regs e) n = Some fs" and "0 \<le> v"
  shows "returns (ExtRegs_write n v False e) (\<lambda>e'. ExtRegs_inv sh e' \<and>
    ExtRegs_cur e' = ExtRegs_cur e \<and>
    ExtRegs_pend e' = (ExtRegs_pend e)(n \<mapsto> reg_view (\<lambda>f. sw_write (drop_bit (fld_lsb f) v) f) fs))"
  using RGReg_stage(2) [OF assms(3), of fs] assms(3)
    ExtRegs_stage [OF assms(1,2), of sw_write _ v]
  by (auto simp: ExtRegs_write_def ExtRegs_get_reg_def assms(2))

text \<open>The registers of the OTBN block and their masks.\<close>

definition otbn_ext_regs :: ext_regs where
  "otbn_ext_regs = (case ExtRegs_init otbn_reg_block of Inr e \<Rightarrow> e | Inl _ \<Rightarrow> \<lparr>regs = [], ext_trace = []\<rparr>)"

definition otbn_shape :: block_shape where
  "otbn_shape = ext_shape otbn_ext_regs"

lemma otbn_ext_regs_ok: "ExtRegs_init otbn_reg_block = Inr otbn_ext_regs"
  by (simp add: otbn_ext_regs_def ExtRegs_init_def otbn_reg_block_def bit_field_def word_field_def
      RGField_init_def Let_def)

lemma otbn_ext_regs_inv: "ExtRegs_inv otbn_shape otbn_ext_regs" "ExtRegs_quiet otbn_ext_regs"
  by (simp_all add: otbn_shape_def ExtRegs_inv_def ExtRegs_quiet_def, simp_all add: otbn_ext_regs_def
      ExtRegs_init_def otbn_reg_block_def bit_field_def word_field_def RGField_init_def Let_def field_ok_def)

definition otbn_mask :: "string \<Rightarrow> int option" where
  "otbn_mask n = map_option reg_mask (map_of (regs otbn_ext_regs) n)"

lemma otbn_masks:
  "otbn_mask ''INTR_STATE'' = Some 1" "otbn_mask ''STATUS'' = Some 1"
  "otbn_mask ''ERR_BITS'' = Some 0xff" "otbn_mask ''START_ADDR'' = Some 0xffffffff"
  by (simp_all add: otbn_mask_def otbn_ext_regs_def ExtRegs_init_def otbn_reg_block_def bit_field_def
      word_field_def RGField_init_def Let_def reg_mask_def reg_view_def low_mask_eq)

lemma otbn_reg:
  assumes "ExtRegs_inv otbn_shape e" and "otbn_mask n = Some m"
  obtains fs where "map_of (regs e) n = Some fs" and "reg_mask fs = m"
    and "list_all field_ok fs" and "ExtRegs_pend e n = Some (reg_view next_value fs)"
proof -
  obtain fs0 where fs0: "map_of (regs otbn_ext_regs) n = Some fs0" "reg_mask fs0 = m"
    using assms(2) by (auto simp: otbn_mask_def)
  have "map_option (map field_shape) (map_of (regs e) n) = Some (map field_shape fs0)"
    using assms(1) fs0(1) map_of_map_values [of "map field_shape" "regs e" n]
      map_of_map_values [of "map field_shape" "regs otbn_ext_regs" n]
    by (simp add: ExtRegs_inv_def otbn_shape_def ext_shape_def)
  then obtain fs where fs: "map_of (regs e) n = Some fs" "map field_shape fs = map field_shape fs0"
    by auto
  moreover have "list_all field_ok fs"
    using assms(1) fs(1) by (auto simp: ExtRegs_inv_def dest!: map_of_SomeD)
  ultimately show thesis
    using that fs0(2) reg_mask_shape [OF fs(2)] by (simp add: ExtRegs_pend_def)
qed

lemma otbn_hw_write:
  assumes "ExtRegs_inv otbn_shape e" and "otbn_mask n = Some m" and "0 \<le> v"
  shows "returns (ExtRegs_write n v True e) (\<lambda>e'. ExtRegs_inv otbn_shape e' \<and>
    ExtRegs_cur e' = ExtRegs_cur e \<and> ExtRegs_pend e' = (ExtRegs_pend e)(n \<mapsto> v AND m))"
  by (rule otbn_reg [OF assms(1,2)]) (use ExtRegs_hw_write [OF assms(1) _ assms(3), of n] in auto)

lemma otbn_hw_set_bits:
  assumes "ExtRegs_inv otbn_shape e" and "otbn_mask n = Some m" and "0 \<le> v"
  shows "returns (ExtRegs_set_bits n v e) (\<lambda>e'. ExtRegs_inv otbn_shape e' \<and>
    ExtRegs_cur e' = ExtRegs_cur e \<and>
    ExtRegs_pend e' = (ExtRegs_pend e)(n \<mapsto> the (ExtRegs_pend e n) OR (v AND m)))"
  by (rule otbn_reg [OF assms(1,2)]) (use ExtRegs_hw_set_bits [OF assms(1) _ assms(3), of n] in auto)

lemma otbn_hw_clear_bits:
  assumes "ExtRegs_inv otbn_shape e" and "otbn_mask n = Some m" and "0 \<le> v"
  shows "returns (ExtRegs_clear_bits n v e) (\<lambda>e'. ExtRegs_inv otbn_shape e' \<and>
    ExtRegs_cur e' = ExtRegs_cur e \<and>
    ExtRegs_pend e' = (ExtRegs_pend e)(n \<mapsto> the (ExtRegs_pend e n) AND NOT v))"
  by (rule otbn_reg [OF assms(1,2)]) (use ExtRegs_hw_clear_bits [OF assms(1) _ assms(3), of n] in auto)

lemma reg_view_masked:
  assumes "list_all (\<lambda>f. fits (fld_width f) (g f)) fs"
  shows "reg_view g fs AND reg_mask fs = reg_view g fs"
proof (rule bit_eqI)
  fix k
  have "bit (g f) j \<Longrightarrow> j < fld_width f" if "f \<in> set fs" for f j
    using assms that fits_take_bit_eq [of "fld_width f" "g f"] bit_take_bit_iff [of "fld_width f" "g f" j]
    by (auto simp: list_all_iff)
  then show "bit (reg_view g fs AND reg_mask fs) k = bit (reg_view g fs) k"
    by (auto simp: bit_and_iff reg_mask_def bit_reg_view)
qed

lemma otbn_reg_range:
  assumes "ExtRegs_inv otbn_shape e" and "otbn_mask n = Some m"
  obtains v w where "ExtRegs_cur e n = Some v" and "v AND m = v"
    and "ExtRegs_pend e n = Some w" and "w AND m = w"
proof -
  obtain fs where fs: "map_of (regs e) n = Some fs" "reg_mask fs = m" "list_all field_ok fs"
    using otbn_reg [OF assms] by blast
  then have "reg_view fld_value fs AND m = reg_view fld_value fs"
    "reg_view next_value fs AND m = reg_view next_value fs"
    using reg_view_masked [of fld_value fs] reg_view_masked [of next_value fs]
    by (auto simp: field_ok_def list_all_iff)
  with fs that show thesis by (simp add: ExtRegs_cur_def ExtRegs_pend_def)
qed

section \<open>Properties\<close>

text \<open>
  Hardware access to the external registers.  On a block with nothing staged, a hardware
  write, set or clear of a register of the OTBN block never raises and is invisible until the
  commit; after the commit the hardware reads, respectively, the written bits that exist in the
  register, the old value with those bits set, and the old value with the given bits cleared, and
  every other register is as before.
\<close>

theorem ext_regs_hw_access:
  assumes "ExtRegs_inv otbn_shape e" and "ExtRegs_quiet e" and "otbn_mask n = Some m" and "0 \<le> v"
    and "ExtRegs_read n True e = Inr old"
  shows
    "returns (ExtRegs_write n v True e) (\<lambda>e'. ExtRegs_read n True e' = Inr old \<and>
       ExtRegs_cur (ExtRegs_commit e') = (ExtRegs_cur e)(n \<mapsto> v AND m)) \<and>
     returns (ExtRegs_set_bits n v e) (\<lambda>e'. ExtRegs_read n True e' = Inr old \<and>
       ExtRegs_cur (ExtRegs_commit e') = (ExtRegs_cur e)(n \<mapsto> old OR (v AND m))) \<and>
     returns (ExtRegs_clear_bits n v e) (\<lambda>e'. ExtRegs_read n True e' = Inr old \<and>
       ExtRegs_cur (ExtRegs_commit e') = (ExtRegs_cur e)(n \<mapsto> old AND NOT v))"
proof -
  have p: "ExtRegs_pend e = ExtRegs_cur e"
    using assms(1,2) by (rule ExtRegs_quiet_pend)
  have old: "ExtRegs_cur e n = Some old"
    using assms(5) by (simp add: ExtRegs_read_hw split: option.splits)
  show ?thesis
    using p old
    by (intro conjI returns_mono [OF otbn_hw_write [OF assms(1,3,4)]]
        returns_mono [OF otbn_hw_set_bits [OF assms(1,3,4)]]
        returns_mono [OF otbn_hw_clear_bits [OF assms(1,3,4)]])
      (auto simp: ExtRegs_read_hw ExtRegs_commit_law(3))
qed

theorem ext_regs_hw_access_witness:
  "returns (ExtRegs_write ''ERR_BITS'' 0x113 True otbn_ext_regs) (\<lambda>e'.
     ExtRegs_cur (ExtRegs_commit e') = (ExtRegs_cur otbn_ext_regs)(''ERR_BITS'' \<mapsto> 0x13))"
proof -
  have "ExtRegs_read ''ERR_BITS'' True otbn_ext_regs = Inr 0"
    by (simp add: ExtRegs_read_def RGReg_read_def RGField_read_def otbn_ext_regs_def ExtRegs_init_def
        otbn_reg_block_def bit_field_def word_field_def RGField_init_def Let_def)
  from ext_regs_hw_access [OF otbn_ext_regs_inv otbn_masks(3) _ this, of "0x113"]
  show ?thesis by (auto elim: returns_mono)
qed

text \<open>
  Software access to the external registers.  A software write to a read-only register
  changes nothing, to a write-one-to-clear register clears exactly the written bits, and to any
  other register replaces the bits that exist; nothing is visible before the commit.
\<close>

theorem ext_regs_sw_write:
  assumes "ExtRegs_inv sh e" and "ExtRegs_quiet e" and "map_of (regs e) n = Some fs" and "0 \<le> v"
    and "list_all (\<lambda>f. (read_only f, w1c f) = (ro, c)) fs"
  shows "returns (ExtRegs_write n v False e) (\<lambda>e'. ExtRegs_cur e' = ExtRegs_cur e \<and>
    ExtRegs_cur (ExtRegs_commit e') = (ExtRegs_cur e)(n \<mapsto>
      (if ro then RGReg_read True fs
       else if c then RGReg_read True fs AND NOT v
       else v AND reg_mask fs)))"
proof -
  have ok: "list_all field_ok fs"
    using assms(1,3) by (auto simp: ExtRegs_inv_def dest!: map_of_SomeD)
  have p: "ExtRegs_pend e = ExtRegs_cur e"
    using assms(1,2) by (rule ExtRegs_quiet_pend)
  then have n: "reg_view next_value fs = reg_view fld_value fs"
    using assms(3) by (metis ExtRegs_cur_def ExtRegs_pend_def option.inject option.simps(9))
  have "reg_view (\<lambda>f. sw_write (drop_bit (fld_lsb f) v) f) fs =
      (if ro then reg_view fld_value fs
       else if c then reg_view fld_value fs AND NOT v else v AND reg_mask fs)"
    using assms(5) ok view_sw_write_ro [of fs v] view_sw_write_w1c [of fs v]
      view_sw_write_plain [of fs v] n
    by (auto simp: list_all_iff)
  then show ?thesis
    using p by (intro returns_mono [OF ExtRegs_sw_write [OF assms(1,3,4)]])
      (auto simp: ExtRegs_commit_law(3) RGReg_read_hw)
qed

theorem ext_regs_sw_write_witness:
  "returns (ExtRegs_write ''STATUS'' 1 False otbn_ext_regs) (\<lambda>e'.
     ExtRegs_cur (ExtRegs_commit e') = (ExtRegs_cur otbn_ext_regs)(''STATUS'' \<mapsto> 0))"
proof -
  have "\<exists>fs. map_of (regs otbn_ext_regs) ''STATUS'' = Some fs \<and> RGReg_read True fs = 0 \<and>
      list_all (\<lambda>f. (read_only f, w1c f) = (True, False)) fs"
    by (simp add: otbn_ext_regs_def ExtRegs_init_def otbn_reg_block_def bit_field_def word_field_def
        RGField_init_def RGReg_read_def RGField_read_def Let_def)
  then obtain fs where fs: "map_of (regs otbn_ext_regs) ''STATUS'' = Some fs" "RGReg_read True fs = 0"
    "list_all (\<lambda>f. (read_only f, w1c f) = (True, False)) fs" by blast
  have "(0 :: int) \<le> 1" by simp
  from ext_regs_sw_write [OF otbn_ext_regs_inv fs(1) this fs(3)] fs(2) show ?thesis
    by (auto elim: returns_mono)
qed

end
