(* ===== verification/Otbn_State.thy ===== *)
theory Otbn_State
  imports Wsr Loop_Stack Dmem Ext_Regs
begin

text \<open>
  The machine state: \<^verbatim>\<open>sim/state.py\<close> (class \<^verbatim>\<open>OTBNState\<close>) and \<^verbatim>\<open>TracePC\<close> of \<^verbatim>\<open>sim/trace.py\<close>.

  The record has one field per attribute of the class; \<open>st_flags\<close> is \<^verbatim>\<open>csrs.flags\<close>, the only
  state of the CSR file.  The sizes of the memories and the register block come from
  \<^verbatim>\<open>otbn.hjson\<close> and are arguments of the constructor.
\<close>

section \<open>Data and operations\<close>

record otbn_state =
  st_gprs :: gprs
  st_wdrs :: regfile
  st_wsrs :: wsr_file
  st_flags :: flag_groups
  pc :: int
  pc_next_override :: "int option"
  imem_size :: int
  st_dmem :: dmem
  non_insn_stall :: bool
  start_stall :: bool
  urnd_stall :: bool
  loop_stack_of :: loop_stack
  st_ext :: ext_regs
  running :: bool
  err_bits :: int
  pending_halt :: bool
  new_rnd_data :: "int option"
  urnd_reseed_complete :: bool

datatype trace =
    TraceReg trace_register
  | TracePC int
  | TraceDmem dmem_store
  | TraceLoop loop_trace
  | TraceExt ext_reg_change
  | TraceWsr trace_wsr
  | TraceFlag trace_flags

definition State_init :: "int \<Rightarrow> int \<Rightarrow> reg_desc list \<Rightarrow> otbn_state result" where
  "State_init imem_sz dmem_sz block =
     bindR (Dmem_init dmem_sz) (\<lambda>d.
     bindR (ExtRegs_init block) (\<lambda>e.
     Inr \<lparr>st_gprs = GPRs_init, st_wdrs = RegFile_init ''w'' 256 32, st_wsrs = WSRFile_init,
          st_flags = FlagGroups_init, pc = 0, pc_next_override = None, imem_size = imem_sz,
          st_dmem = d, non_insn_stall = False, start_stall = False, urnd_stall = False,
          loop_stack_of = LoopStack_init, st_ext = e, running = False, err_bits = 0,
          pending_halt = False, new_rnd_data = None, urnd_reseed_complete = False\<rparr>))"

definition State_get_next_pc :: "otbn_state \<Rightarrow> int" where
  "State_get_next_pc s = (case pc_next_override s of Some v \<Rightarrow> v | None \<Rightarrow> pc s + 4)"

definition State_set_next_pc :: "int \<Rightarrow> otbn_state \<Rightarrow> otbn_state" where
  "State_set_next_pc next_pc s = s\<lparr>pc_next_override := Some next_pc\<rparr>"

definition State_set_rnd_data :: "int \<Rightarrow> otbn_state \<Rightarrow> otbn_state" where
  "State_set_rnd_data v s = s\<lparr>new_rnd_data := Some v\<rparr>"

definition State_set_urnd_reseed_complete :: "otbn_state \<Rightarrow> otbn_state" where
  "State_set_urnd_reseed_complete s = s\<lparr>urnd_reseed_complete := True\<rparr>"

definition State_loop_start :: "int \<Rightarrow> int \<Rightarrow> otbn_state \<Rightarrow> otbn_state result" where
  "State_loop_start iterations bodysize s =
     bindR (LoopStack_start_loop (pc s + 4) iterations bodysize (loop_stack_of s)) (\<lambda>ls.
     Inr (s\<lparr>loop_stack_of := ls\<rparr>))"

definition State_loop_step :: "otbn_state \<Rightarrow> otbn_state result" where
  "State_loop_step s =
     bindR (LoopStack_step (pc s) (loop_stack_of s)) (\<lambda>(back_pc, ls).
     let s = s\<lparr>loop_stack_of := ls\<rparr>
     in Inr (case back_pc of Some v \<Rightarrow> State_set_next_pc v s | None \<Rightarrow> s))"

definition State_in_loop :: "otbn_state \<Rightarrow> bool" where
  "State_in_loop s \<longleftrightarrow> levels (loop_stack_of s) \<noteq> []"

definition State_changes :: "otbn_state \<Rightarrow> trace list result" where
  "State_changes s =
     bindR (GPRs_changes (st_gprs s)) (\<lambda>gc.
     let c1 = map TraceReg gc @
              (if pc_next_override s \<noteq> None then [TracePC (State_get_next_pc s)] else []) @
              map TraceDmem (Dmem_changes (st_dmem s)) @
              map TraceLoop (LoopStack_changes (loop_stack_of s)) @
              map TraceExt (ExtRegs_changes (st_ext s)) @
              map TraceWsr (WSRFile_changes (st_wsrs s)) @
              map TraceFlag (FlagGroups_changes (st_flags s))
     in bindR (RegFile_changes (st_wdrs s)) (\<lambda>wc. Inr (c1 @ map TraceReg wc)))"

text \<open>
  \<^verbatim>\<open>if self._new_rnd_data:\<close> is false both for \<^verbatim>\<open>None\<close> and for the value zero, and then the data
  stays where it is.
\<close>

definition State_take_rnd_data :: "otbn_state \<Rightarrow> otbn_state result" where
  "State_take_rnd_data s =
     (case new_rnd_data s of
        None \<Rightarrow> Inr s
      | Some v \<Rightarrow>
          if py_bool v then
            bindR (RandWSR_set_unsigned v (RND (st_wsrs s))) (\<lambda>r.
            Inr (s\<lparr>st_wsrs := (st_wsrs s)\<lparr>RND := r\<rparr>, new_rnd_data := None\<rparr>))
          else Inr s)"

definition State_commit :: "bool \<Rightarrow> otbn_state \<Rightarrow> otbn_state result" where
  "State_commit sim_stalled s =
     (if pending_halt s then Inr (s\<lparr>st_ext := ExtRegs_commit (st_ext s)\<rparr>)
      else require (err_bits s = 0)
       (bindR (State_take_rnd_data s) (\<lambda>s.
        if urnd_stall s then
          Inr (if urnd_reseed_complete s then s\<lparr>urnd_stall := False\<rparr> else s)
        else
          let s = (if start_stall s
                   then s\<lparr>start_stall := False, non_insn_stall := False,
                          st_ext := ExtRegs_commit (st_ext s)\<rparr>
                   else s)
          in bindR (Dmem_commit sim_stalled (st_dmem s)) (\<lambda>d.
             let s = s\<lparr>st_dmem := d\<rparr>
             in if sim_stalled then Inr s
                else
                  bindR (GPRs_commit (st_gprs s)) (\<lambda>g.
                  let s = s\<lparr>st_gprs := g\<rparr>;
                      s = s\<lparr>pc := State_get_next_pc s\<rparr>;
                      s = s\<lparr>pc_next_override := None\<rparr>
                  in bindR (LoopStack_commit (loop_stack_of s)) (\<lambda>ls.
                     let s = s\<lparr>loop_stack_of := ls, st_ext := ExtRegs_commit (st_ext s),
                               st_wsrs := WSRFile_commit (st_wsrs s),
                               st_flags := FlagGroups_commit (st_flags s)\<rparr>
                     in bindR (RegFile_commit (st_wdrs s)) (\<lambda>w. Inr (s\<lparr>st_wdrs := w\<rparr>))))))))"

definition State_abort :: "otbn_state \<Rightarrow> otbn_state result" where
  "State_abort s =
     bindR (GPRs_abort (st_gprs s)) (\<lambda>g.
     let s = s\<lparr>st_gprs := g, pc_next_override := None, st_dmem := Dmem_abort (st_dmem s),
               loop_stack_of := LoopStack_abort (loop_stack_of s),
               st_ext := ExtRegs_abort (st_ext s), st_wsrs := WSRFile_abort (st_wsrs s),
               st_flags := FlagGroups_abort (st_flags s)\<rparr>
     in bindR (RegFile_abort (st_wdrs s)) (\<lambda>w. Inr (s\<lparr>st_wdrs := w\<rparr>)))"

definition State_get_start_addr :: "otbn_state \<Rightarrow> int result" where
  "State_get_start_addr s = ExtRegs_read ''START_ADDR'' True (st_ext s)"

definition State_start :: "otbn_state \<Rightarrow> otbn_state result" where
  "State_start s =
     bindR (ExtRegs_set_bits ''STATUS'' (push_bit 0 1) (st_ext s)) (\<lambda>e.
     let s = s\<lparr>st_ext := e, running := True, start_stall := True, urnd_stall := True,
               non_insn_stall := True, pending_halt := False, err_bits := 0,
               urnd_reseed_complete := False\<rparr>
     in bindR (State_get_start_addr s) (\<lambda>a.
        Inr (s\<lparr>pc := a, st_flags := FlagGroups_init, st_wsrs := WSRFile_init,
               loop_stack_of := LoopStack_init\<rparr>)))"

definition State_stop :: "otbn_state \<Rightarrow> otbn_state result" where
  "State_stop s =
     bindR (State_abort s) (\<lambda>s.
     bindR (ExtRegs_set_bits ''INTR_STATE'' (push_bit 0 1) (st_ext s)) (\<lambda>e.
     bindR (ExtRegs_clear_bits ''STATUS'' (push_bit 0 1) e) (\<lambda>e.
     bindR (ExtRegs_write ''ERR_BITS'' (err_bits s) True e) (\<lambda>e.
     Inr (s\<lparr>st_ext := e, running := False\<rparr>)))))"

definition State_set_flags :: "int \<Rightarrow> flag_vals \<Rightarrow> otbn_state \<Rightarrow> otbn_state result" where
  "State_set_flags fg fl s =
     bindR (FlagGroups_setitem fg fl (st_flags s)) (\<lambda>x. Inr (s\<lparr>st_flags := x\<rparr>))"

definition State_set_mlz_flags :: "int \<Rightarrow> int \<Rightarrow> otbn_state \<Rightarrow> otbn_state result" where
  "State_set_mlz_flags fg r s =
     bindR (FlagGroups_getitem fg (st_flags s)) (\<lambda>f.
     State_set_flags fg (FlagReg_mlz_for_result (flag_C f) r) s)"

definition State_pre_insn :: "bool \<Rightarrow> otbn_state \<Rightarrow> otbn_state" where
  "State_pre_insn insn_affects_control s =
     s\<lparr>loop_stack_of := LoopStack_check_insn (pc s) insn_affects_control (loop_stack_of s)\<rparr>"

definition State_check_next_pc :: "otbn_state \<Rightarrow> otbn_state result" where
  "State_check_next_pc s =
     (let next_pc = State_get_next_pc s
      in require (0 \<le> next_pc)
        (let s = (if py_bool (next_pc AND 3) then s\<lparr>err_bits := err_bits s OR BAD_INSN_ADDR\<rparr> else s)
         in Inr (if next_pc \<ge> imem_size s then s\<lparr>err_bits := err_bits s OR BAD_INSN_ADDR\<rparr> else s)))"

definition State_post_insn :: "otbn_state \<Rightarrow> otbn_state result" where
  "State_post_insn s =
     bindR (State_check_next_pc s) (\<lambda>s.
     bindR (State_loop_step s) (\<lambda>s.
     let s = s\<lparr>st_gprs := GPRs_post_insn (st_gprs s)\<rparr>;
         s = s\<lparr>err_bits := err_bits s OR (GPRs_err_bits (st_gprs s) OR Dmem_err_bits (st_dmem s) OR
                                          LoopStack_err_bits (loop_stack_of s))\<rparr>
     in Inr (if py_bool (err_bits s) then s\<lparr>pending_halt := True\<rparr> else s)))"

definition State_read_csr :: "int \<Rightarrow> (otbn_state, int) action" where
  "State_read_csr idx s =
     bindR (CSRFile_read_unsigned idx (st_flags s, st_wsrs s)) (\<lambda>(v, (fl, w)).
     Inr (v, s\<lparr>st_flags := fl, st_wsrs := w\<rparr>))"

definition State_write_csr :: "int \<Rightarrow> int \<Rightarrow> otbn_state \<Rightarrow> otbn_state result" where
  "State_write_csr idx v s =
     bindR (CSRFile_write_unsigned idx v (st_flags s, st_wsrs s)) (\<lambda>(fl, w).
     Inr (s\<lparr>st_flags := fl, st_wsrs := w\<rparr>))"

definition State_peek_call_stack :: "otbn_state \<Rightarrow> int list" where
  "State_peek_call_stack s = GPRs_peek_call_stack (st_gprs s)"

definition State_stop_at_end_of_cycle :: "int \<Rightarrow> otbn_state \<Rightarrow> otbn_state" where
  "State_stop_at_end_of_cycle bits s = s\<lparr>err_bits := err_bits s OR bits, pending_halt := True\<rparr>"

section \<open>Invariant and views\<close>

text \<open>
  \<open>otbn_arch\<close> is the architectural state that a program can observe; \<open>State_arch\<close> is its current
  value and \<open>State_pend\<close> the value a commit would give it.
\<close>

record otbn_arch =
  a_gprs :: "int list"
  a_stack :: "int list"
  a_wdrs :: "int list"
  a_flags :: "flag_vals \<times> flag_vals"
  a_mod_acc :: "int \<times> int"
  a_dmem :: "int list"
  a_pc :: int

definition State_arch :: "otbn_state \<Rightarrow> otbn_arch" where
  "State_arch s =
     \<lparr>a_gprs = fst (GPRs_cur (st_gprs s)), a_stack = snd (GPRs_cur (st_gprs s)),
      a_wdrs = RegFile_cur (st_wdrs s), a_flags = FlagGroups_cur (st_flags s),
      a_mod_acc = WSRFile_cur (st_wsrs s), a_dmem = data (st_dmem s), a_pc = pc s\<rparr>"

definition State_pend :: "otbn_state \<Rightarrow> otbn_arch" where
  "State_pend s =
     \<lparr>a_gprs = fst (GPRs_pend (st_gprs s)), a_stack = snd (GPRs_pend (st_gprs s)),
      a_wdrs = RegFile_pend (st_wdrs s), a_flags = FlagGroups_pend (st_flags s),
      a_mod_acc = WSRFile_pend (st_wsrs s), a_dmem = Dmem_pend (st_dmem s),
      a_pc = State_get_next_pc s\<rparr>"

definition Dmem_ok :: "dmem \<Rightarrow> bool" where
  "Dmem_ok d \<longleftrightarrow> Dmem_inv (length (data d)) d"

text \<open>
  Every index recorded as written has a staged value, so that \<^verbatim>\<open>changes\<close> can report it; the
  staged value of index 1 of the GPRs is that of the call stack register.
\<close>

definition RegFile_tracked :: "int set \<Rightarrow> 'a regfile_scheme \<Rightarrow> bool" where
  "RegFile_tracked except rf \<longleftrightarrow>
     (\<forall>i \<in> set (pending_writes rf). i \<in> except \<or> next_uval (registers rf ! nat i) \<noteq> None)"

definition State_inv :: "otbn_state \<Rightarrow> bool" where
  "State_inv s \<longleftrightarrow>
     GPRs_inv (st_gprs s) \<and> RegFile_inv 256 32 (st_wdrs s) \<and> FlagGroups_inv (st_flags s) \<and>
     WSRFile_inv (st_wsrs s) \<and> Dmem_ok (st_dmem s) \<and>
     list_all LoopLevel_inv (levels (loop_stack_of s)) \<and> ExtRegs_inv otbn_shape (st_ext s) \<and>
     0 \<le> pc s \<and> pred_option (\<lambda>v. 0 \<le> v) (pc_next_override s) \<and> fits 5 (err_bits s) \<and>
     pred_option (fits 256) (new_rnd_data s) \<and>
     RegFile_tracked {1} (st_gprs s) \<and> RegFile_tracked {} (st_wdrs s)"

definition State_quiet :: "otbn_state \<Rightarrow> bool" where
  "State_quiet s \<longleftrightarrow>
     GPRs_quiet (st_gprs s) \<and> RegFile_quiet (st_wdrs s) \<and> FlagGroups_quiet (st_flags s) \<and>
     WSRFile_quiet (st_wsrs s) \<and> Dmem_quiet (st_dmem s) \<and> pc_next_override s = None"

definition State_ready :: "otbn_state \<Rightarrow> bool" where
  "State_ready s \<longleftrightarrow>
     \<not> pending_halt s \<and> err_bits s = 0 \<and> \<not> urnd_stall s \<and>
     GPRs_ready (st_gprs s) \<and> Dmem_ready (st_dmem s) \<and> LoopStack_ready (loop_stack_of s)"

lemma RegFile_tracked_quiet: "RegFile_quiet rf \<Longrightarrow> RegFile_tracked A rf"
  by (simp add: RegFile_tracked_def RegFile_quiet_def)

lemma GPRs_tracked_quiet: "GPRs_quiet g \<Longrightarrow> RegFile_tracked A g"
  by (simp add: GPRs_quiet_def RegFile_tracked_quiet)

lemma GPRs_post_insn_tracked [simp]: "RegFile_tracked A (GPRs_post_insn g) = RegFile_tracked A g"
  by (simp add: GPRs_post_insn_def CallStackReg_post_insn_def RegFile_tracked_def)

text \<open>The state the constructor gives with the sizes and registers of \<^verbatim>\<open>otbn.hjson\<close>.\<close>

definition otbn_reset :: otbn_state where
  "otbn_reset =
     \<lparr>st_gprs = GPRs_init, st_wdrs = RegFile_init ''w'' 256 32, st_wsrs = WSRFile_init,
      st_flags = FlagGroups_init, pc = 0, pc_next_override = None, imem_size = 4096,
      st_dmem = \<lparr>data = replicate 128 uninit_word, dmem_trace = [], dmem_err_flag = False,
                 load_begun = False, load_ready = False\<rparr>,
      non_insn_stall = False, start_stall = False, urnd_stall = False,
      loop_stack_of = LoopStack_init, st_ext = otbn_ext_regs, running = False, err_bits = 0,
      pending_halt = False, new_rnd_data = None, urnd_reseed_complete = False\<rparr>"

lemma State_init_otbn: "State_init 4096 4096 otbn_reg_block = Inr otbn_reset"
  by (simp add: State_init_def Dmem_init_ok otbn_ext_regs_ok otbn_reset_def)

lemma otbn_reset_inv: "State_inv otbn_reset"
  using uninit_word_fits
  by (simp add: otbn_reset_def State_inv_def GPRs_init_inv GPRs_init_quiet RegFile_init_inv
      RegFile_init_quiet FlagGroups_init_inv WSRFile_init_inv Dmem_ok_def Dmem_inv_def words_ok_def
      LoopStack_init_def otbn_ext_regs_inv list_all_iff RegFile_tracked_quiet GPRs_tracked_quiet)

lemma otbn_reset_quiet: "State_quiet otbn_reset" "ExtRegs_quiet (st_ext otbn_reset)"
  by (simp_all add: otbn_reset_def State_quiet_def GPRs_init_quiet RegFile_init_quiet
      FlagGroups_init_inv WSRFile_init_inv Dmem_quiet_def otbn_ext_regs_inv)

lemma otbn_reset_simps [simp]:
  "loop_stack_of otbn_reset = LoopStack_init" "imem_size otbn_reset = 4096" "pc otbn_reset = 0"
  "running otbn_reset = False" "err_bits otbn_reset = 0" "pending_halt otbn_reset = False"
  "st_ext otbn_reset = otbn_ext_regs" "st_gprs otbn_reset = GPRs_init" "st_wsrs otbn_reset = WSRFile_init"
  by (simp_all add: otbn_reset_def)

lemma Dmem_ok_commit:
  assumes "Dmem_ok d" and "\<not> dmem_err_flag d"
  obtains d' where "Dmem_commit st d = Inr d'" and "Dmem_ok d'" and "Dmem_quiet d'"
    and "data d' = Dmem_pend d" and "length (data d') = length (data d)"
    and "load_begun d' = False" and "load_ready d' = load_begun d"
proof -
  have w: "words_ok (length (data d)) (Dmem_pend d)"
    using assms by (intro Dmem_commit_eq(2)) (simp_all add: Dmem_ok_def)
  then have "length (Dmem_pend d) = length (data d)" by (simp add: words_ok_def)
  then show thesis
    using that [OF Dmem_commit_eq(1)] assms w
    by (simp add: Dmem_ok_def Dmem_inv_def Dmem_quiet_def)
qed

text \<open>The state after the pending random data, if any and not zero, has been handed to RND.\<close>

definition rnd_taken :: "otbn_state \<Rightarrow> otbn_state" where
  "rnd_taken s =
     (case new_rnd_data s of
        None \<Rightarrow> s
      | Some v \<Rightarrow>
          if py_bool v
          then s\<lparr>st_wsrs := (st_wsrs s)\<lparr>RND := (RND (st_wsrs s))\<lparr>random_value := Some v\<rparr>\<rparr>,
                 new_rnd_data := None\<rparr>
          else s)"

lemma State_take_rnd_data_eq: "State_inv s \<Longrightarrow> State_take_rnd_data s = Inr (rnd_taken s)"
  by (auto simp: State_take_rnd_data_def rnd_taken_def State_inv_def RandWSR_set_unsigned_def
      split: option.splits)

lemma rnd_taken_simps [simp]:
  "st_gprs (rnd_taken s) = st_gprs s" "st_wdrs (rnd_taken s) = st_wdrs s"
  "st_flags (rnd_taken s) = st_flags s" "pc (rnd_taken s) = pc s"
  "pc_next_override (rnd_taken s) = pc_next_override s" "imem_size (rnd_taken s) = imem_size s"
  "st_dmem (rnd_taken s) = st_dmem s" "non_insn_stall (rnd_taken s) = non_insn_stall s"
  "start_stall (rnd_taken s) = start_stall s" "urnd_stall (rnd_taken s) = urnd_stall s"
  "loop_stack_of (rnd_taken s) = loop_stack_of s" "st_ext (rnd_taken s) = st_ext s"
  "running (rnd_taken s) = running s" "err_bits (rnd_taken s) = err_bits s"
  "pending_halt (rnd_taken s) = pending_halt s"
  "urnd_reseed_complete (rnd_taken s) = urnd_reseed_complete s"
  "WSRFile_cur (st_wsrs (rnd_taken s)) = WSRFile_cur (st_wsrs s)"
  "WSRFile_pend (st_wsrs (rnd_taken s)) = WSRFile_pend (st_wsrs s)"
  "WSRFile_quiet (st_wsrs (rnd_taken s)) = WSRFile_quiet (st_wsrs s)"
  by (auto simp: rnd_taken_def WSRFile_cur_def WSRFile_pend_def WSRFile_quiet_def split: option.splits)

lemma rnd_taken_inv: "State_inv s \<Longrightarrow> State_inv (rnd_taken s)"
  by (auto simp: rnd_taken_def State_inv_def WSRFile_inv_def split: option.splits)

lemma rnd_taken_get_next_pc [simp]: "State_get_next_pc (rnd_taken s) = State_get_next_pc s"
  by (simp add: State_get_next_pc_def split: option.split)

text \<open>The end of the start stall.\<close>

definition stall_cleared :: "otbn_state \<Rightarrow> otbn_state" where
  "stall_cleared s =
     (if start_stall s
      then s\<lparr>start_stall := False, non_insn_stall := False, st_ext := ExtRegs_commit (st_ext s)\<rparr> else s)"

lemma stall_cleared_simps [simp]:
  "st_gprs (stall_cleared s) = st_gprs s" "st_wdrs (stall_cleared s) = st_wdrs s"
  "st_wsrs (stall_cleared s) = st_wsrs s" "st_flags (stall_cleared s) = st_flags s"
  "pc (stall_cleared s) = pc s" "pc_next_override (stall_cleared s) = pc_next_override s"
  "imem_size (stall_cleared s) = imem_size s" "st_dmem (stall_cleared s) = st_dmem s"
  "\<not> start_stall (stall_cleared s)" "urnd_stall (stall_cleared s) = urnd_stall s"
  "loop_stack_of (stall_cleared s) = loop_stack_of s"
  "ExtRegs_commit (st_ext (stall_cleared s)) = ExtRegs_commit (st_ext s)"
  "running (stall_cleared s) = running s" "err_bits (stall_cleared s) = err_bits s"
  "pending_halt (stall_cleared s) = pending_halt s" "new_rnd_data (stall_cleared s) = new_rnd_data s"
  "urnd_reseed_complete (stall_cleared s) = urnd_reseed_complete s"
  "non_insn_stall (stall_cleared s) = (non_insn_stall s \<and> \<not> start_stall s)"
  by (simp_all add: stall_cleared_def ExtRegs_commit_def)

lemma ExtRegs_commit_idem [simp]: "ExtRegs_commit (ExtRegs_commit e) = ExtRegs_commit e"
  by (simp add: ExtRegs_commit_def)

section \<open>The machine is staged\<close>

lemma State_commit_eq:
  assumes "State_inv s" and "State_ready s"
  obtains d g ls w where
    "State_commit False s = Inr ((stall_cleared (rnd_taken s))\<lparr>st_dmem := d,
       st_gprs := g, pc := State_get_next_pc s, pc_next_override := None, loop_stack_of := ls,
       st_ext := ExtRegs_commit (st_ext s), st_wsrs := WSRFile_commit (st_wsrs (rnd_taken s)),
       st_flags := FlagGroups_commit (st_flags s), st_wdrs := w\<rparr>)"
    and "Dmem_commit False (st_dmem s) = Inr d" and "GPRs_commit (st_gprs s) = Inr g"
    and "LoopStack_commit (loop_stack_of s) = Inr ls" and "RegFile_commit (st_wdrs s) = Inr w"
proof -
  have d: "Dmem_ok (st_dmem s)" "\<not> dmem_err_flag (st_dmem s)"
    and g: "GPRs_inv (st_gprs s)" "GPRs_ready (st_gprs s)"
    and ls: "LoopStack_ready (loop_stack_of s)" and w: "RegFile_inv 256 32 (st_wdrs s)"
    using assms by (simp_all add: State_inv_def State_ready_def Dmem_ready_def)
  obtain d' where d': "Dmem_commit False (st_dmem s) = Inr d'" using Dmem_ok_commit [OF d] by metis
  obtain g' where g': "GPRs_commit (st_gprs s) = Inr g'"
    using gprs_staged.commit_law [OF g] by (auto elim: returnsE)
  obtain ls' where ls': "LoopStack_commit (loop_stack_of s) = Inr ls'"
    using LoopStack_commit_eq [OF ls] by simp
  obtain w' where w': "RegFile_commit (st_wdrs s) = Inr w'"
    using regfile_staged.commit_law [OF w] by (auto elim: returnsE)
  have st: "(if start_stall s' then s'\<lparr>start_stall := False, non_insn_stall := False,
      st_ext := ExtRegs_commit (st_ext s')\<rparr> else s') = stall_cleared s'" for s'
    by (simp add: stall_cleared_def)
  have np: "State_get_next_pc (stall_cleared (rnd_taken s)\<lparr>st_dmem := d', st_gprs := g'\<rparr>) =
      State_get_next_pc s"
    by (simp add: State_get_next_pc_def split: option.split)
  show thesis
    by (rule that [OF _ d' g' ls' w'])
      (use assms d' g' ls' w' in \<open>simp add: State_commit_def State_take_rnd_data_eq State_ready_def
        st np Let_def del: rnd_taken_simps(9)\<close>)
qed

lemma LoopStack_commit_levels:
  "LoopStack_commit ls = Inr ls' \<Longrightarrow> list_all P (levels ls) \<Longrightarrow> list_all P (levels ls')"
  by (auto simp: LoopStack_commit_def require_Inr_iff list_all_iff split: if_splits dest!: in_set_butlastD)

lemma State_commit_law:
  assumes "State_inv s" and "State_ready s"
  shows "returns (State_commit False s) (\<lambda>s'. State_inv s' \<and> State_quiet s' \<and> State_arch s' = State_pend s)"
proof -
  from State_commit_eq [OF assms] obtain d g ls w where
    eq: "State_commit False s = Inr ((stall_cleared (rnd_taken s))\<lparr>st_dmem := d,
       st_gprs := g, pc := State_get_next_pc s, pc_next_override := None, loop_stack_of := ls,
       st_ext := ExtRegs_commit (st_ext s), st_wsrs := WSRFile_commit (st_wsrs (rnd_taken s)),
       st_flags := FlagGroups_commit (st_flags s), st_wdrs := w\<rparr>)" (is "_ = Inr ?s")
    and c: "Dmem_commit False (st_dmem s) = Inr d" "GPRs_commit (st_gprs s) = Inr g"
      "LoopStack_commit (loop_stack_of s) = Inr ls" "RegFile_commit (st_wdrs s) = Inr w" .
  note inv = assms(1) [unfolded State_inv_def]
  have g: "GPRs_inv g" "GPRs_quiet g" "GPRs_cur g = GPRs_pend (st_gprs s)"
    using gprs_staged.commit_law [of "st_gprs s"] inv assms(2) c(2) by (simp_all add: State_ready_def)
  have w: "RegFile_inv 256 32 w" "RegFile_quiet w" "RegFile_cur w = RegFile_pend (st_wdrs s)"
    using regfile_staged.commit_law [of 256 32 "st_wdrs s"] inv c(4) by simp_all
  have d: "Dmem_ok d" "Dmem_quiet d" "data d = Dmem_pend (st_dmem s)"
    using Dmem_ok_commit [of "st_dmem s" False] inv assms(2) c(1)
    by (auto simp: State_ready_def Dmem_ready_def)
  have ws: "WSRFile_inv (st_wsrs (rnd_taken s))"
    using rnd_taken_inv [OF assms(1)] by (simp add: State_inv_def)
  have wsc: "WSRFile_inv (WSRFile_commit (st_wsrs (rnd_taken s)))"
    "WSRFile_quiet (WSRFile_commit (st_wsrs (rnd_taken s)))"
    "WSRFile_cur (WSRFile_commit (st_wsrs (rnd_taken s))) = WSRFile_pend (st_wsrs s)"
    using wsr_file_staged.commit_law [OF ws] by simp_all
  have f: "FlagGroups_inv (FlagGroups_commit (st_flags s))"
    "FlagGroups_quiet (FlagGroups_commit (st_flags s))"
    "FlagGroups_cur (FlagGroups_commit (st_flags s)) = FlagGroups_pend (st_flags s)"
    using flags_staged.commit_law [of "st_flags s"] inv by simp_all
  have "State_inv ?s"
    using inv g w d wsc f LoopStack_commit_levels [OF c(3)] rnd_taken_inv [OF assms(1)]
      ExtRegs_commit_law(1) [of otbn_shape "st_ext s"]
    by (auto simp: State_inv_def State_get_next_pc_def RegFile_tracked_quiet GPRs_tracked_quiet
        split: option.split)
  moreover have "State_quiet ?s"
    using g w d wsc f by (simp add: State_quiet_def)
  moreover have "State_arch ?s = State_pend s"
    using g w d wsc f by (simp add: State_arch_def State_pend_def)
  ultimately show ?thesis
    by (simp add: eq)
qed

lemma State_abort_eq:
  assumes "State_inv s"
  obtains g w where
    "State_abort s = Inr (s\<lparr>st_gprs := g, pc_next_override := None, st_dmem := Dmem_abort (st_dmem s),
       loop_stack_of := LoopStack_abort (loop_stack_of s), st_ext := ExtRegs_abort (st_ext s),
       st_wsrs := WSRFile_abort (st_wsrs s), st_flags := FlagGroups_abort (st_flags s), st_wdrs := w\<rparr>)"
    and "GPRs_inv g" and "GPRs_quiet g" and "GPRs_cur g = GPRs_cur (st_gprs s)"
    and "RegFile_inv 256 32 w" and "RegFile_quiet w" and "RegFile_cur w = RegFile_cur (st_wdrs s)"
proof -
  note inv = assms [unfolded State_inv_def]
  obtain g where g: "GPRs_abort (st_gprs s) = Inr g" "GPRs_inv g" "GPRs_quiet g"
    "GPRs_cur g = GPRs_cur (st_gprs s)"
    using gprs_staged.abort_law [of "st_gprs s"] inv by (auto elim: returnsE)
  obtain w where w: "RegFile_abort (st_wdrs s) = Inr w" "RegFile_inv 256 32 w" "RegFile_quiet w"
    "RegFile_cur w = RegFile_cur (st_wdrs s)"
    using regfile_staged.abort_law [of 256 32 "st_wdrs s"] inv by (auto elim: returnsE)
  show thesis
    by (rule that [OF _ g(2-4) w(2-4)]) (simp add: State_abort_def g(1) w(1) Let_def)
qed

lemma State_abort_law:
  assumes "State_inv s"
  shows "returns (State_abort s) (\<lambda>s'. State_inv s' \<and> State_quiet s' \<and> State_arch s' = State_arch s \<and>
    ExtRegs_quiet (st_ext s') \<and> ExtRegs_cur (st_ext s') = ExtRegs_cur (st_ext s) \<and>
    levels (loop_stack_of s') = levels (loop_stack_of s) \<and> err_bits s' = err_bits s \<and>
    pending_halt s' = pending_halt s \<and> imem_size s' = imem_size s)"
proof -
  note inv = assms [unfolded State_inv_def]
  have ws: "WSRFile_inv (WSRFile_abort (st_wsrs s))" "WSRFile_quiet (WSRFile_abort (st_wsrs s))"
    "WSRFile_cur (WSRFile_abort (st_wsrs s)) = WSRFile_cur (st_wsrs s)"
    using wsr_file_staged.abort_law [of "st_wsrs s"] inv by simp_all
  have f: "FlagGroups_inv (FlagGroups_abort (st_flags s))"
    "FlagGroups_quiet (FlagGroups_abort (st_flags s))"
    "FlagGroups_cur (FlagGroups_abort (st_flags s)) = FlagGroups_cur (st_flags s)"
    using flags_staged.abort_law [of "st_flags s"] inv by simp_all
  have d: "Dmem_ok (Dmem_abort (st_dmem s))" "Dmem_quiet (Dmem_abort (st_dmem s))"
    "data (Dmem_abort (st_dmem s)) = data (st_dmem s)"
    using inv by (simp_all add: Dmem_abort_def Dmem_quiet_def Dmem_ok_def Dmem_inv_def)
  have e: "ExtRegs_inv otbn_shape (ExtRegs_abort (st_ext s))" "ExtRegs_quiet (ExtRegs_abort (st_ext s))"
    "ExtRegs_cur (ExtRegs_abort (st_ext s)) = ExtRegs_cur (st_ext s)"
    using inv ExtRegs_abort_law [of otbn_shape "st_ext s"] by simp_all
  show ?thesis
    by (rule State_abort_eq [OF assms])
      (use inv ws f d e in \<open>simp add: State_inv_def State_quiet_def State_arch_def LoopStack_abort_def
        RegFile_tracked_quiet GPRs_tracked_quiet\<close>)
qed

interpretation machine_staged:
  staged State_inv State_ready State_quiet State_arch State_pend "State_commit False" State_abort
  by unfold_locales (auto intro: State_commit_law returns_mono [OF State_abort_law])

lemma State_quiet_pend: "State_inv s \<Longrightarrow> State_quiet s \<Longrightarrow> a_pc (State_pend s) = a_pc (State_arch s) + 4"
  by (simp add: State_pend_def State_arch_def State_quiet_def State_get_next_pc_def)

lemma State_stop_ok:
  assumes "State_inv s"
  shows "returns (State_stop s) (\<lambda>s'. State_inv s' \<and> State_quiet s' \<and> State_arch s' = State_arch s \<and>
    \<not> running s' \<and> pending_halt s' = pending_halt s \<and> imem_size s' = imem_size s \<and>
    ExtRegs_pend (st_ext s') = (ExtRegs_cur (st_ext s))
      (''INTR_STATE'' \<mapsto> 1, ''STATUS'' \<mapsto> 0, ''ERR_BITS'' \<mapsto> err_bits s))"
proof -
  have m: "(0 :: int) \<le> push_bit 0 1" by simp
  have "fits 5 (err_bits s)" using assms by (simp add: State_inv_def)
  then have eb: "0 \<le> err_bits s" "err_bits s AND 0xff = err_bits s"
    using and_low_mask [of "err_bits s" 8] fits_take_bit_eq [of 8 "err_bits s"] fits_mono [of 5 "err_bits s" 8]
    by (simp_all add: fits_nonneg low_mask_eq)
  have "a = 0 \<or> a = 1" if "a AND 1 = a" for a :: int
    using that unfolding and_one_eq by presburger
  then have one: "a OR 1 = 1 \<and> a AND NOT 1 = 0" if "a AND 1 = a" for a :: int
    using that by fastforce
  show ?thesis
    unfolding State_stop_def
  proof (rule returns_bindRI [OF State_abort_law [OF assms]], elim conjE)
    fix s1
    assume s1: "State_inv s1" "State_quiet s1" "State_arch s1 = State_arch s"
      "ExtRegs_quiet (st_ext s1)" "ExtRegs_cur (st_ext s1) = ExtRegs_cur (st_ext s)"
      "err_bits s1 = err_bits s" "pending_halt s1 = pending_halt s" "imem_size s1 = imem_size s"
    have inv: "ExtRegs_inv otbn_shape (st_ext s1)" using s1(1) by (simp add: State_inv_def)
    have p: "ExtRegs_pend (st_ext s1) = ExtRegs_cur (st_ext s)"
      using ExtRegs_quiet_pend [OF inv s1(4)] s1(5) by simp
    have i1: "the (ExtRegs_pend (st_ext s1) ''INTR_STATE'') OR (1 AND 1) = 1"
      by (rule otbn_reg_range [OF inv otbn_masks(1)]) (simp add: one)
    have i2: "the (ExtRegs_pend (st_ext s1) ''STATUS'') AND NOT 1 = 0"
      by (rule otbn_reg_range [OF inv otbn_masks(2)]) (metis one option.sel)
    show "returns (bindR (ExtRegs_set_bits ''INTR_STATE'' (push_bit 0 1) (st_ext s1)) (\<lambda>e.
       bindR (ExtRegs_clear_bits ''STATUS'' (push_bit 0 1) e) (\<lambda>e.
       bindR (ExtRegs_write ''ERR_BITS'' (err_bits s1) True e) (\<lambda>e.
       Inr (s1\<lparr>st_ext := e, running := False\<rparr>))))) (\<lambda>s'. State_inv s' \<and> State_quiet s' \<and>
         State_arch s' = State_arch s \<and> \<not> running s' \<and> pending_halt s' = pending_halt s \<and>
         imem_size s' = imem_size s \<and> ExtRegs_pend (st_ext s') = (ExtRegs_cur (st_ext s))
           (''INTR_STATE'' \<mapsto> 1, ''STATUS'' \<mapsto> 0, ''ERR_BITS'' \<mapsto> err_bits s))"
      by (rule returns_bindRI [OF otbn_hw_set_bits [OF inv otbn_masks(1) m]], elim conjE,
          rule returns_bindRI [OF otbn_hw_clear_bits [OF _ otbn_masks(2) m]], assumption, elim conjE,
          rule returns_bindRI [OF otbn_hw_write [OF _ otbn_masks(3)]], assumption)
        (use s1 p i1 i2 eb in \<open>auto simp: State_inv_def State_quiet_def State_arch_def\<close>)
  qed
qed

section \<open>The end of an instruction\<close>

definition pc_err_bits :: "otbn_state \<Rightarrow> int" where
  "pc_err_bits s =
     (if State_get_next_pc s mod 4 \<noteq> 0 \<or> imem_size s \<le> State_get_next_pc s then BAD_INSN_ADDR else 0)"

lemma err_bits_fit:
  "fits 5 BAD_DATA_ADDR" "fits 5 BAD_INSN_ADDR" "fits 5 CALL_STACK" "fits 5 ILLEGAL_INSN" "fits 5 LOOP_ERR"
  by (simp_all add: err_bit_defs fits_def)

lemma err_bits_nonzero:
  "BAD_DATA_ADDR \<noteq> 0" "BAD_INSN_ADDR \<noteq> 0" "CALL_STACK \<noteq> 0" "ILLEGAL_INSN \<noteq> 0" "LOOP_ERR \<noteq> 0"
  by (simp_all add: err_bit_defs)

lemma or_eq_zero: "0 \<le> a \<Longrightarrow> 0 \<le> b \<Longrightarrow> a OR b = 0 \<longleftrightarrow> a = 0 \<and> b = (0 :: int)"
  by (metis bit_0_eq bit_eq_iff bit_or_iff bot_apply or.left_neutral)

lemma State_get_next_pc_nonneg: "State_inv s \<Longrightarrow> 0 \<le> State_get_next_pc s"
  by (auto simp: State_inv_def State_get_next_pc_def split: option.split)

lemma State_check_next_pc_eq:
  "State_inv s \<Longrightarrow> State_check_next_pc s = Inr (s\<lparr>err_bits := err_bits s OR pc_err_bits s\<rparr>)"
  using State_get_next_pc_nonneg [of s]
  by (simp add: State_check_next_pc_def pc_err_bits_def and_3 Let_def or.assoc)

text \<open>
  What \<^verbatim>\<open>post_insn\<close> does: it accumulates the error bits, and when there are none the machine can be
  committed.
\<close>

lemma State_post_insn_ok:
  assumes "State_inv s" and "LoopStack_inv (loop_stack_of s)"
  shows "returns (State_post_insn s) (\<lambda>s'. State_inv s' \<and> State_arch s' = State_arch s \<and>
    err_bits s' = err_bits s OR pc_err_bits s OR GPRs_err_bits (GPRs_post_insn (st_gprs s)) OR
      Dmem_err_bits (st_dmem s) OR LoopStack_err_bits (loop_stack_of s) \<and>
    pending_halt s' = (pending_halt s \<or> err_bits s' \<noteq> 0) \<and>
    (err_bits s' = 0 \<longrightarrow> GPRs_ready (st_gprs s') \<and> Dmem_ready (st_dmem s') \<and>
       LoopStack_ready (loop_stack_of s') \<and> st_gprs s' = st_gprs s) \<and>
    LoopStack_inv (loop_stack_of s') \<and>
    map start_addr (levels (loop_stack_of s')) = map start_addr (levels (loop_stack_of s)) \<and>
    (pc_next_override s' \<noteq> pc_next_override s \<longrightarrow>
       State_get_next_pc s' \<le> pc s \<and>
       State_get_next_pc s' \<in> set (map start_addr (levels (loop_stack_of s)))) \<and>
    (\<exists>ls ov. s' = s\<lparr>loop_stack_of := ls, pc_next_override := ov, st_gprs := GPRs_post_insn (st_gprs s),
                     err_bits := err_bits s', pending_halt := pending_halt s'\<rparr>))"
proof -
  let ?s1 = "s\<lparr>err_bits := err_bits s OR pc_err_bits s\<rparr>"
  obtain r ls where step: "LoopStack_step (pc s) (loop_stack_of s) = Inr (r, ls)"
    and ls: "LoopStack_inv ls" "loop_err_flag ls = loop_err_flag (loop_stack_of s)"
      "pop_stack_on_commit ls \<longrightarrow> levels ls \<noteq> []"
      "\<forall>a. r = Some a \<longrightarrow> 4 \<le> a \<and> a \<le> pc s \<and> a \<in> set (map start_addr (levels (loop_stack_of s)))"
      "map start_addr (levels ls) = map start_addr (levels (loop_stack_of s))"
    using LoopStack_step_inv [OF assms(2), of "pc s"] by (auto elim!: returnsE)
  let ?g = "GPRs_post_insn (st_gprs s)"
  let ?ov = "case r of Some v \<Rightarrow> Some v | None \<Rightarrow> pc_next_override s"
  let ?eb = "err_bits s OR pc_err_bits s OR (GPRs_err_bits ?g OR Dmem_err_bits (st_dmem s) OR LoopStack_err_bits ls)"
  let ?s' = "s\<lparr>loop_stack_of := ls, pc_next_override := ?ov, st_gprs := ?g, err_bits := ?eb,
      pending_halt := (pending_halt s \<or> ?eb \<noteq> 0)\<rparr>"
  have "State_loop_step ?s1 = Inr (?s1\<lparr>loop_stack_of := ls, pc_next_override := ?ov\<rparr>)"
    using step by (simp add: State_loop_step_def State_set_next_pc_def Let_def split: option.split)
  then have eq: "State_post_insn s = Inr ?s'"
    using assms(1) by (cases "?eb = 0") (simp_all add: State_post_insn_def State_check_next_pc_eq Let_def py_bool_def or.assoc)
  have f: "fits 5 (err_bits s)" "fits 5 (pc_err_bits s)" "fits 5 (GPRs_err_bits ?g)"
    "fits 5 (Dmem_err_bits (st_dmem s))" "fits 5 (LoopStack_err_bits ls)"
    using assms(1) err_bits_fit
    by (simp_all add: State_inv_def pc_err_bits_def GPRs_err_bits_def Dmem_err_bits_def LoopStack_err_bits_def)
  have inv: "State_inv ?s'"
    using assms(1) ls f
    by (auto simp: State_inv_def LoopStack_inv_def fits_or split: option.split)
  have "?eb = 0 \<Longrightarrow> GPRs_err_bits ?g = 0 \<and> Dmem_err_bits (st_dmem s) = 0 \<and> LoopStack_err_bits ls = 0"
    using f by (simp add: or_eq_zero fits_nonneg)
  then have z: "?eb = 0 \<Longrightarrow> \<not> gpr_err_flag ?g \<and> \<not> dmem_err_flag (st_dmem s) \<and> \<not> loop_err_flag ls"
    by (auto simp: GPRs_err_bits_def Dmem_err_bits_def LoopStack_err_bits_def err_bits_nonzero split: if_splits)
  have gr: "\<not> gpr_err_flag ?g \<Longrightarrow> GPRs_ready (st_gprs s)"
    using assms(1) GPRs_post_insn_flag [of "st_gprs s"] by (simp add: State_inv_def)
  have ar: "State_arch ?s' = State_arch s"
    by (simp add: State_arch_def)
  have rdy: "GPRs_ready ?g \<and> GPRs_ready (st_gprs s) \<and> Dmem_ready (st_dmem s) \<and> LoopStack_ready ls \<and> ?g = st_gprs s" if "?eb = 0"
  proof -
    have r: "GPRs_ready (st_gprs s)" using gr z [OF that] by blast
    then show ?thesis
      using z [OF that] ls(3) GPRs_post_insn_quiet [OF r] r by (simp add: Dmem_ready_def LoopStack_ready_def)
  qed
  have eb: "?eb = err_bits s OR pc_err_bits s OR GPRs_err_bits ?g OR
      Dmem_err_bits (st_dmem s) OR LoopStack_err_bits (loop_stack_of s)"
    using ls(2) by (simp add: LoopStack_err_bits_def)
  show ?thesis
    unfolding eq returns_simps
    by (intro conjI impI inv ar exI [where x = ls] exI [where x = ?ov])
      (use eb ls rdy in \<open>auto simp: State_get_next_pc_def split: option.splits\<close>)
qed

section \<open>Changes, stalls and starting\<close>

lemma RegFile_changes_of_ok:
  "\<forall>i \<in> set is. idx_ok i rf \<and> (\<exists>v. rn i = Inr (Some v)) \<Longrightarrow>
   returns (RegFile_changes_of rn rf is) (\<lambda>_. True)"
  by (induction "is") (auto simp: returns_bindR)

lemma RegFile_changes_ok:
  assumes "RegFile_inv w n rf" and "RegFile_tracked {} rf"
  shows "returns (RegFile_changes rf) (\<lambda>_. True)"
  unfolding RegFile_changes_def
  using assms
  by (intro RegFile_changes_of_ok)
    (auto simp: RegFile_tracked_def RegFile_get_reg_def Reg_read_next_def RegFile_inv_def list_all_iff)

lemma GPRs_changes_ok:
  assumes "GPRs_inv g" and "RegFile_tracked {1} g"
  shows "returns (GPRs_changes g) (\<lambda>_. True)"
  unfolding GPRs_changes_def
  using assms
  by (intro RegFile_changes_of_ok)
    (auto simp: RegFile_tracked_def RegFile_get_reg_def Reg_read_next_def RegFile_inv_def GPRs_inv_def
      GPRs_read_next_def list_all_iff)

lemma State_changes_ok: "State_inv s \<Longrightarrow> returns (State_changes s) (\<lambda>_. True)"
  using GPRs_changes_ok [of "st_gprs s"] RegFile_changes_ok [of 256 32 "st_wdrs s"]
  by (auto simp: State_changes_def State_inv_def Let_def elim!: returnsE)

text \<open>A stall cycle commits the data memory only, once the random number seed has arrived.\<close>

lemma State_commit_stalled:
  assumes "State_inv s" and "State_quiet s" and "\<not> pending_halt s" and "err_bits s = 0"
  shows "returns (State_commit True s) (\<lambda>s'. State_inv s' \<and> State_quiet s' \<and>
    State_arch s' = State_arch s \<and> err_bits s' = 0 \<and> \<not> pending_halt s' \<and>
    loop_stack_of s' = loop_stack_of s \<and> running s' = running s \<and>
    urnd_stall s' = (urnd_stall s \<and> \<not> urnd_reseed_complete s) \<and>
    urnd_reseed_complete s' = urnd_reseed_complete s \<and>
    (if urnd_stall s
     then start_stall s' = start_stall s \<and> non_insn_stall s' = non_insn_stall s \<and>
          st_ext s' = st_ext s \<and> st_dmem s' = st_dmem s
     else \<not> start_stall s' \<and> non_insn_stall s' = (non_insn_stall s \<and> \<not> start_stall s) \<and>
          st_ext s' = (if start_stall s then ExtRegs_commit (st_ext s) else st_ext s) \<and>
          data (st_dmem s') = data (st_dmem s) \<and> load_begun (st_dmem s') = False \<and>
          load_ready (st_dmem s') = load_begun (st_dmem s)) \<and>
    imem_size s' = imem_size s \<and> st_wsrs s' = st_wsrs (rnd_taken s))"
proof -
  have inv: "State_inv (rnd_taken s)" using assms(1) by (rule rnd_taken_inv)
  show ?thesis
  proof (cases "urnd_stall s")
    case True
    then show ?thesis
      using assms inv
      by (simp add: State_commit_def State_take_rnd_data_eq State_inv_def State_quiet_def State_arch_def)
  next
    case False
    have d: "Dmem_ok (st_dmem s)" "\<not> dmem_err_flag (st_dmem s)" "Dmem_pend (st_dmem s) = data (st_dmem s)"
      using assms(1,2) by (simp_all add: State_inv_def State_quiet_def Dmem_quiet_def Dmem_pend_def)
    obtain d' where d': "Dmem_commit True (st_dmem s) = Inr d'" "Dmem_ok d'" "Dmem_quiet d'"
      "data d' = data (st_dmem s)" "load_begun d' = False" "load_ready d' = load_begun (st_dmem s)"
      using Dmem_ok_commit [OF d(1,2), of True] d(3) by metis
    have "State_commit True s = Inr ((stall_cleared (rnd_taken s))\<lparr>st_dmem := d'\<rparr>)"
      using False assms d'(1)
      by (simp add: State_commit_def State_take_rnd_data_eq Let_def) (simp add: stall_cleared_def)
    moreover have "State_inv ((stall_cleared (rnd_taken s))\<lparr>st_dmem := d'\<rparr>)"
      using inv d'(2) ExtRegs_commit_law(1) [of otbn_shape "st_ext s"]
      by (simp add: State_inv_def) (simp add: stall_cleared_def)
    moreover have "State_quiet ((stall_cleared (rnd_taken s))\<lparr>st_dmem := d'\<rparr>)"
      using assms(2) d'(3) by (simp add: State_quiet_def)
    moreover have "State_arch ((stall_cleared (rnd_taken s))\<lparr>st_dmem := d'\<rparr>) = State_arch s"
      using d'(4) by (simp add: State_arch_def)
    moreover have "st_ext (stall_cleared (rnd_taken s)) =
        (if start_stall s then ExtRegs_commit (st_ext s) else st_ext s)"
      by (simp add: stall_cleared_def)
    ultimately show ?thesis
      using False assms(3,4) d' by simp
  qed
qed

text \<open>
  Starting keeps the registers and the data memory, resets flags, wide status registers and loop
  stack, takes the program counter from \<^verbatim>\<open>START_ADDR\<close> and stages the busy bit.
\<close>

lemma State_start_ok:
  assumes "State_inv s" and "State_quiet s" and "ExtRegs_cur (st_ext s) ''START_ADDR'' = Some a"
  shows "returns (State_start s) (\<lambda>s'. State_inv s' \<and> State_quiet s' \<and> running s' \<and>
    start_stall s' \<and> urnd_stall s' \<and> non_insn_stall s' \<and> \<not> urnd_reseed_complete s' \<and>
    \<not> pending_halt s' \<and> err_bits s' = 0 \<and>
    State_arch s' = (State_arch s)\<lparr>a_flags := FlagGroups_cur FlagGroups_init,
       a_mod_acc := (0, 0), a_pc := a\<rparr> \<and>
    loop_stack_of s' = LoopStack_init \<and> st_wsrs s' = WSRFile_init \<and> imem_size s' = imem_size s \<and>
    ExtRegs_cur (st_ext s') = ExtRegs_cur (st_ext s) \<and>
    ExtRegs_pend (st_ext s') = (ExtRegs_pend (st_ext s))
      (''STATUS'' \<mapsto> the (ExtRegs_pend (st_ext s) ''STATUS'') OR 1))"
proof -
  have inv: "ExtRegs_inv otbn_shape (st_ext s)" using assms(1) by (simp add: State_inv_def)
  have m: "(0 :: int) \<le> push_bit 0 1" by simp
  have "a AND 0xffffffff = a"
    using otbn_reg_range [OF inv otbn_masks(4)] assms(3) by (metis option.inject)
  then have a: "0 \<le> a" by (metis and_nonnegative_int_iff zero_le_numeral)
  have c: "WSRFile_cur WSRFile_init = (0, 0)"
    by (simp add: WSRFile_cur_def WSRFile_init_def DumbWSR_init_def)
  show ?thesis
    unfolding State_start_def
    by (rule returns_bindRI [OF otbn_hw_set_bits [OF inv otbn_masks(2) m]])
      (use assms a c FlagGroups_init_inv WSRFile_init_inv in
        \<open>simp add: State_get_start_addr_def ExtRegs_read_hw Let_def State_inv_def State_quiet_def
          State_arch_def LoopStack_init_def\<close>)
qed

end
