(* ===== verification/Otbn_Isa.thy ===== *)
theory Otbn_Isa
  imports Otbn_State
begin

text \<open>
  Decoded instructions: the classes of \<^verbatim>\<open>sim/insn.py\<close> and their base classes and helper
  functions in \<^verbatim>\<open>sim/isa.py\<close>.

  An instruction object is a value of the datatype \<open>otbn_insn\<close>, with one constructor per class
  and the attributes that the class's \<^verbatim>\<open>__init__\<close> takes from \<^verbatim>\<open>op_vals\<close> as arguments, in its
  order (\<^verbatim>\<open>AND\<close>, \<^verbatim>\<open>OR\<close> and \<^verbatim>\<open>XOR\<close> are \<open>AND_insn\<close>, \<open>OR_insn\<close> and \<open>XOR_insn\<close>).  \<^verbatim>\<open>op_vals\<close> is the
  dictionary the decoder passes; a missing key raises \<^verbatim>\<open>KeyError\<close>.
\<close>

section \<open>Helper functions\<close>

definition to_2s_complement :: "int \<Rightarrow> int result" where
  "to_2s_complement v =
     require (- push_bit 31 1 \<le> v \<and> v < push_bit 31 1)
       (Inr (if v < 0 then push_bit 32 1 + v else v))"

definition logical_byte_shift :: "int \<Rightarrow> int \<Rightarrow> int \<Rightarrow> int result" where
  "logical_byte_shift v shift_type shift_bytes =
     (let mask256 = low_mask 256
      in require (0 \<le> v \<and> v \<le> mask256)
        (require (0 \<le> shift_type \<and> shift_type \<le> 1)
         (require (0 \<le> shift_bytes)
           (let shift_bits = 8 * shift_bytes;
                shifted = (if shift_type = 0 then push_bit (nat shift_bits) v
                           else drop_bit (nat shift_bits) v)
            in Inr (shifted AND mask256)))))"

definition extract_quarter_word :: "int \<Rightarrow> int \<Rightarrow> int result" where
  "extract_quarter_word v qwsel =
     require (0 \<le> v \<and> v < push_bit 256 1)
      (require (0 \<le> qwsel \<and> qwsel \<le> 3)
        (Inr (drop_bit (nat (qwsel * 64)) v AND low_mask 64)))"

section \<open>Instruction objects\<close>

datatype (plugins only: code) otbn_insn =
    ADD int int int
  | ADDI int int int
  | LUI int int
  | SUB int int int
  | SLL int int int
  | SLLI int int int
  | SRL int int int
  | SRLI int int int
  | SRA int int int
  | SRAI int int int
  | AND_insn int int int
  | ANDI int int int
  | OR_insn int int int
  | ORI int int int
  | XOR_insn int int int
  | XORI int int int
  | LW int int int
  | SW int int int
  | BEQ int int int
  | BNE int int int
  | JAL int int
  | JALR int int int
  | CSRRS int int int
  | CSRRW int int int
  | ECALL
  | LOOP int int
  | LOOPI int int
  | BNADD int int int int int int
  | BNADDC int int int int int int
  | BNADDI int int int int
  | BNADDM int int int
  | BNMULQACC int int int int int int
  | BNMULQACCWO int int int int int int int int
  | BNMULQACCSO int int int int int int int int int
  | BNSUB int int int int int int
  | BNSUBB int int int int int int
  | BNSUBI int int int int
  | BNSUBM int int int
  | BNAND int int int int int int
  | BNOR int int int int int int
  | BNNOT int int int int int
  | BNXOR int int int int int int
  | BNRSHI int int int int
  | BNSEL int int int int int
  | BNCMP int int int int int
  | BNCMPB int int int int int
  | BNLID int int int int int
  | BNSID int int int int int
  | BNMOV int int
  | BNMOVR int int int int
  | BNWSRR int int
  | BNWSRW int int

type_synonym op_vals = "string \<Rightarrow> int option"

definition op_val :: "op_vals \<Rightarrow> string \<Rightarrow> int result" where
  "op_val op_vals k = (case op_vals k of Some v \<Rightarrow> Inr v | None \<Rightarrow> Inl KeyError)"

definition RV32RegReg_init :: "(int \<Rightarrow> int \<Rightarrow> int \<Rightarrow> otbn_insn) \<Rightarrow> op_vals \<Rightarrow> otbn_insn result" where
  "RV32RegReg_init cls op_vals =
     bindR (op_val op_vals ''grd'') (\<lambda>grd.
     bindR (op_val op_vals ''grs1'') (\<lambda>grs1.
     bindR (op_val op_vals ''grs2'') (\<lambda>grs2.
     Inr (cls grd grs1 grs2))))"

definition RV32RegImm_init :: "(int \<Rightarrow> int \<Rightarrow> int \<Rightarrow> otbn_insn) \<Rightarrow> op_vals \<Rightarrow> otbn_insn result" where
  "RV32RegImm_init cls op_vals =
     bindR (op_val op_vals ''grd'') (\<lambda>grd.
     bindR (op_val op_vals ''grs1'') (\<lambda>grs1.
     bindR (op_val op_vals ''imm'') (\<lambda>imm.
     Inr (cls grd grs1 imm))))"

definition RV32ImmShift_init :: "(int \<Rightarrow> int \<Rightarrow> int \<Rightarrow> otbn_insn) \<Rightarrow> op_vals \<Rightarrow> otbn_insn result" where
  "RV32ImmShift_init cls op_vals =
     bindR (op_val op_vals ''grd'') (\<lambda>grd.
     bindR (op_val op_vals ''grs1'') (\<lambda>grs1.
     bindR (op_val op_vals ''shamt'') (\<lambda>shamt.
     Inr (cls grd grs1 shamt))))"

definition LUI_init :: "op_vals \<Rightarrow> otbn_insn result" where
  "LUI_init op_vals =
     bindR (op_val op_vals ''grd'') (\<lambda>grd.
     bindR (op_val op_vals ''imm'') (\<lambda>imm.
     Inr (LUI grd imm)))"

definition LW_init :: "op_vals \<Rightarrow> otbn_insn result" where
  "LW_init op_vals =
     bindR (op_val op_vals ''grd'') (\<lambda>grd.
     bindR (op_val op_vals ''offset'') (\<lambda>offset.
     bindR (op_val op_vals ''grs1'') (\<lambda>grs1.
     Inr (LW grd offset grs1))))"

definition SW_init :: "op_vals \<Rightarrow> otbn_insn result" where
  "SW_init op_vals =
     bindR (op_val op_vals ''grs2'') (\<lambda>grs2.
     bindR (op_val op_vals ''offset'') (\<lambda>offset.
     bindR (op_val op_vals ''grs1'') (\<lambda>grs1.
     Inr (SW grs2 offset grs1))))"

definition BEQ_init :: "op_vals \<Rightarrow> otbn_insn result" where
  "BEQ_init op_vals =
     bindR (op_val op_vals ''grs1'') (\<lambda>grs1.
     bindR (op_val op_vals ''grs2'') (\<lambda>grs2.
     bindR (op_val op_vals ''offset'') (\<lambda>offset.
     Inr (BEQ grs1 grs2 offset))))"

definition BNE_init :: "op_vals \<Rightarrow> otbn_insn result" where
  "BNE_init op_vals =
     bindR (op_val op_vals ''grs1'') (\<lambda>grs1.
     bindR (op_val op_vals ''grs2'') (\<lambda>grs2.
     bindR (op_val op_vals ''offset'') (\<lambda>offset.
     Inr (BNE grs1 grs2 offset))))"

definition JAL_init :: "op_vals \<Rightarrow> otbn_insn result" where
  "JAL_init op_vals =
     bindR (op_val op_vals ''grd'') (\<lambda>grd.
     bindR (op_val op_vals ''offset'') (\<lambda>offset.
     Inr (JAL grd offset)))"

definition JALR_init :: "op_vals \<Rightarrow> otbn_insn result" where
  "JALR_init op_vals =
     bindR (op_val op_vals ''grd'') (\<lambda>grd.
     bindR (op_val op_vals ''grs1'') (\<lambda>grs1.
     bindR (op_val op_vals ''offset'') (\<lambda>offset.
     Inr (JALR grd grs1 offset))))"

definition CSRRS_init :: "op_vals \<Rightarrow> otbn_insn result" where
  "CSRRS_init op_vals =
     bindR (op_val op_vals ''grd'') (\<lambda>grd.
     bindR (op_val op_vals ''csr'') (\<lambda>csr.
     bindR (op_val op_vals ''grs1'') (\<lambda>grs1.
     Inr (CSRRS grd csr grs1))))"

definition CSRRW_init :: "op_vals \<Rightarrow> otbn_insn result" where
  "CSRRW_init op_vals =
     bindR (op_val op_vals ''grd'') (\<lambda>grd.
     bindR (op_val op_vals ''csr'') (\<lambda>csr.
     bindR (op_val op_vals ''grs1'') (\<lambda>grs1.
     Inr (CSRRW grd csr grs1))))"

definition ECALL_init :: "op_vals \<Rightarrow> otbn_insn result" where
  "ECALL_init op_vals =
     Inr ECALL"

definition LOOP_init :: "op_vals \<Rightarrow> otbn_insn result" where
  "LOOP_init op_vals =
     bindR (op_val op_vals ''grs'') (\<lambda>grs.
     bindR (op_val op_vals ''bodysize'') (\<lambda>bodysize.
     Inr (LOOP grs bodysize)))"

definition LOOPI_init :: "op_vals \<Rightarrow> otbn_insn result" where
  "LOOPI_init op_vals =
     bindR (op_val op_vals ''iterations'') (\<lambda>iterations.
     bindR (op_val op_vals ''bodysize'') (\<lambda>bodysize.
     Inr (LOOPI iterations bodysize)))"

definition BNADD_init :: "op_vals \<Rightarrow> otbn_insn result" where
  "BNADD_init op_vals =
     bindR (op_val op_vals ''wrd'') (\<lambda>wrd.
     bindR (op_val op_vals ''wrs1'') (\<lambda>wrs1.
     bindR (op_val op_vals ''wrs2'') (\<lambda>wrs2.
     bindR (op_val op_vals ''shift_type'') (\<lambda>shift_type.
     bindR (op_val op_vals ''shift_bits'') (\<lambda>shift_bits.
     bindR (op_val op_vals ''flag_group'') (\<lambda>flag_group.
     Inr (BNADD wrd wrs1 wrs2 shift_type (shift_bits div 8) flag_group)))))))"

definition BNADDC_init :: "op_vals \<Rightarrow> otbn_insn result" where
  "BNADDC_init op_vals =
     bindR (op_val op_vals ''wrd'') (\<lambda>wrd.
     bindR (op_val op_vals ''wrs1'') (\<lambda>wrs1.
     bindR (op_val op_vals ''wrs2'') (\<lambda>wrs2.
     bindR (op_val op_vals ''shift_type'') (\<lambda>shift_type.
     bindR (op_val op_vals ''shift_bits'') (\<lambda>shift_bits.
     bindR (op_val op_vals ''flag_group'') (\<lambda>flag_group.
     Inr (BNADDC wrd wrs1 wrs2 shift_type (shift_bits div 8) flag_group)))))))"

definition BNADDI_init :: "op_vals \<Rightarrow> otbn_insn result" where
  "BNADDI_init op_vals =
     bindR (op_val op_vals ''wrd'') (\<lambda>wrd.
     bindR (op_val op_vals ''wrs'') (\<lambda>wrs.
     bindR (op_val op_vals ''imm'') (\<lambda>imm.
     bindR (op_val op_vals ''flag_group'') (\<lambda>flag_group.
     Inr (BNADDI wrd wrs imm flag_group)))))"

definition BNADDM_init :: "op_vals \<Rightarrow> otbn_insn result" where
  "BNADDM_init op_vals =
     bindR (op_val op_vals ''wrd'') (\<lambda>wrd.
     bindR (op_val op_vals ''wrs1'') (\<lambda>wrs1.
     bindR (op_val op_vals ''wrs2'') (\<lambda>wrs2.
     Inr (BNADDM wrd wrs1 wrs2))))"

definition BNMULQACC_init :: "op_vals \<Rightarrow> otbn_insn result" where
  "BNMULQACC_init op_vals =
     bindR (op_val op_vals ''zero_acc'') (\<lambda>zero_acc.
     bindR (op_val op_vals ''wrs1'') (\<lambda>wrs1.
     bindR (op_val op_vals ''wrs1_qwsel'') (\<lambda>wrs1_qwsel.
     bindR (op_val op_vals ''wrs2'') (\<lambda>wrs2.
     bindR (op_val op_vals ''wrs2_qwsel'') (\<lambda>wrs2_qwsel.
     bindR (op_val op_vals ''acc_shift_imm'') (\<lambda>acc_shift_imm.
     Inr (BNMULQACC zero_acc wrs1 wrs1_qwsel wrs2 wrs2_qwsel acc_shift_imm)))))))"

definition BNMULQACCWO_init :: "op_vals \<Rightarrow> otbn_insn result" where
  "BNMULQACCWO_init op_vals =
     bindR (op_val op_vals ''zero_acc'') (\<lambda>zero_acc.
     bindR (op_val op_vals ''wrd'') (\<lambda>wrd.
     bindR (op_val op_vals ''wrs1'') (\<lambda>wrs1.
     bindR (op_val op_vals ''wrs1_qwsel'') (\<lambda>wrs1_qwsel.
     bindR (op_val op_vals ''wrs2'') (\<lambda>wrs2.
     bindR (op_val op_vals ''wrs2_qwsel'') (\<lambda>wrs2_qwsel.
     bindR (op_val op_vals ''acc_shift_imm'') (\<lambda>acc_shift_imm.
     bindR (op_val op_vals ''flag_group'') (\<lambda>flag_group.
     Inr (BNMULQACCWO zero_acc wrd wrs1 wrs1_qwsel wrs2 wrs2_qwsel acc_shift_imm flag_group)))))))))"

definition BNMULQACCSO_init :: "op_vals \<Rightarrow> otbn_insn result" where
  "BNMULQACCSO_init op_vals =
     bindR (op_val op_vals ''zero_acc'') (\<lambda>zero_acc.
     bindR (op_val op_vals ''wrd'') (\<lambda>wrd.
     bindR (op_val op_vals ''wrd_hwsel'') (\<lambda>wrd_hwsel.
     bindR (op_val op_vals ''wrs1'') (\<lambda>wrs1.
     bindR (op_val op_vals ''wrs1_qwsel'') (\<lambda>wrs1_qwsel.
     bindR (op_val op_vals ''wrs2'') (\<lambda>wrs2.
     bindR (op_val op_vals ''wrs2_qwsel'') (\<lambda>wrs2_qwsel.
     bindR (op_val op_vals ''acc_shift_imm'') (\<lambda>acc_shift_imm.
     bindR (op_val op_vals ''flag_group'') (\<lambda>flag_group.
     Inr (BNMULQACCSO zero_acc wrd wrd_hwsel wrs1 wrs1_qwsel wrs2 wrs2_qwsel acc_shift_imm flag_group))))))))))"

definition BNSUB_init :: "op_vals \<Rightarrow> otbn_insn result" where
  "BNSUB_init op_vals =
     bindR (op_val op_vals ''wrd'') (\<lambda>wrd.
     bindR (op_val op_vals ''wrs1'') (\<lambda>wrs1.
     bindR (op_val op_vals ''wrs2'') (\<lambda>wrs2.
     bindR (op_val op_vals ''shift_type'') (\<lambda>shift_type.
     bindR (op_val op_vals ''shift_bits'') (\<lambda>shift_bits.
     bindR (op_val op_vals ''flag_group'') (\<lambda>flag_group.
     Inr (BNSUB wrd wrs1 wrs2 shift_type (shift_bits div 8) flag_group)))))))"

definition BNSUBB_init :: "op_vals \<Rightarrow> otbn_insn result" where
  "BNSUBB_init op_vals =
     bindR (op_val op_vals ''wrd'') (\<lambda>wrd.
     bindR (op_val op_vals ''wrs1'') (\<lambda>wrs1.
     bindR (op_val op_vals ''wrs2'') (\<lambda>wrs2.
     bindR (op_val op_vals ''shift_type'') (\<lambda>shift_type.
     bindR (op_val op_vals ''shift_bits'') (\<lambda>shift_bits.
     bindR (op_val op_vals ''flag_group'') (\<lambda>flag_group.
     Inr (BNSUBB wrd wrs1 wrs2 shift_type (shift_bits div 8) flag_group)))))))"

definition BNSUBI_init :: "op_vals \<Rightarrow> otbn_insn result" where
  "BNSUBI_init op_vals =
     bindR (op_val op_vals ''wrd'') (\<lambda>wrd.
     bindR (op_val op_vals ''wrs'') (\<lambda>wrs.
     bindR (op_val op_vals ''imm'') (\<lambda>imm.
     bindR (op_val op_vals ''flag_group'') (\<lambda>flag_group.
     Inr (BNSUBI wrd wrs imm flag_group)))))"

definition BNSUBM_init :: "op_vals \<Rightarrow> otbn_insn result" where
  "BNSUBM_init op_vals =
     bindR (op_val op_vals ''wrd'') (\<lambda>wrd.
     bindR (op_val op_vals ''wrs1'') (\<lambda>wrs1.
     bindR (op_val op_vals ''wrs2'') (\<lambda>wrs2.
     Inr (BNSUBM wrd wrs1 wrs2))))"

definition BNAND_init :: "op_vals \<Rightarrow> otbn_insn result" where
  "BNAND_init op_vals =
     bindR (op_val op_vals ''wrd'') (\<lambda>wrd.
     bindR (op_val op_vals ''wrs1'') (\<lambda>wrs1.
     bindR (op_val op_vals ''wrs2'') (\<lambda>wrs2.
     bindR (op_val op_vals ''shift_type'') (\<lambda>shift_type.
     bindR (op_val op_vals ''shift_bits'') (\<lambda>shift_bits.
     bindR (op_val op_vals ''flag_group'') (\<lambda>flag_group.
     Inr (BNAND wrd wrs1 wrs2 shift_type (shift_bits div 8) flag_group)))))))"

definition BNOR_init :: "op_vals \<Rightarrow> otbn_insn result" where
  "BNOR_init op_vals =
     bindR (op_val op_vals ''wrd'') (\<lambda>wrd.
     bindR (op_val op_vals ''wrs1'') (\<lambda>wrs1.
     bindR (op_val op_vals ''wrs2'') (\<lambda>wrs2.
     bindR (op_val op_vals ''shift_type'') (\<lambda>shift_type.
     bindR (op_val op_vals ''shift_bits'') (\<lambda>shift_bits.
     bindR (op_val op_vals ''flag_group'') (\<lambda>flag_group.
     Inr (BNOR wrd wrs1 wrs2 shift_type (shift_bits div 8) flag_group)))))))"

definition BNNOT_init :: "op_vals \<Rightarrow> otbn_insn result" where
  "BNNOT_init op_vals =
     bindR (op_val op_vals ''wrd'') (\<lambda>wrd.
     bindR (op_val op_vals ''wrs'') (\<lambda>wrs.
     bindR (op_val op_vals ''shift_type'') (\<lambda>shift_type.
     bindR (op_val op_vals ''shift_bits'') (\<lambda>shift_bits.
     bindR (op_val op_vals ''flag_group'') (\<lambda>flag_group.
     Inr (BNNOT wrd wrs shift_type (shift_bits div 8) flag_group))))))"

definition BNXOR_init :: "op_vals \<Rightarrow> otbn_insn result" where
  "BNXOR_init op_vals =
     bindR (op_val op_vals ''wrd'') (\<lambda>wrd.
     bindR (op_val op_vals ''wrs1'') (\<lambda>wrs1.
     bindR (op_val op_vals ''wrs2'') (\<lambda>wrs2.
     bindR (op_val op_vals ''shift_type'') (\<lambda>shift_type.
     bindR (op_val op_vals ''shift_bits'') (\<lambda>shift_bits.
     bindR (op_val op_vals ''flag_group'') (\<lambda>flag_group.
     Inr (BNXOR wrd wrs1 wrs2 shift_type (shift_bits div 8) flag_group)))))))"

definition BNRSHI_init :: "op_vals \<Rightarrow> otbn_insn result" where
  "BNRSHI_init op_vals =
     bindR (op_val op_vals ''wrd'') (\<lambda>wrd.
     bindR (op_val op_vals ''wrs1'') (\<lambda>wrs1.
     bindR (op_val op_vals ''wrs2'') (\<lambda>wrs2.
     bindR (op_val op_vals ''imm'') (\<lambda>imm.
     Inr (BNRSHI wrd wrs1 wrs2 imm)))))"

definition BNSEL_init :: "op_vals \<Rightarrow> otbn_insn result" where
  "BNSEL_init op_vals =
     bindR (op_val op_vals ''wrd'') (\<lambda>wrd.
     bindR (op_val op_vals ''wrs1'') (\<lambda>wrs1.
     bindR (op_val op_vals ''wrs2'') (\<lambda>wrs2.
     bindR (op_val op_vals ''flag_group'') (\<lambda>flag_group.
     bindR (op_val op_vals ''flag'') (\<lambda>flag.
     Inr (BNSEL wrd wrs1 wrs2 flag_group flag))))))"

definition BNCMP_init :: "op_vals \<Rightarrow> otbn_insn result" where
  "BNCMP_init op_vals =
     bindR (op_val op_vals ''wrs1'') (\<lambda>wrs1.
     bindR (op_val op_vals ''wrs2'') (\<lambda>wrs2.
     bindR (op_val op_vals ''shift_type'') (\<lambda>shift_type.
     bindR (op_val op_vals ''shift_bits'') (\<lambda>shift_bits.
     bindR (op_val op_vals ''flag_group'') (\<lambda>flag_group.
     Inr (BNCMP wrs1 wrs2 shift_type (shift_bits div 8) flag_group))))))"

definition BNCMPB_init :: "op_vals \<Rightarrow> otbn_insn result" where
  "BNCMPB_init op_vals =
     bindR (op_val op_vals ''wrs1'') (\<lambda>wrs1.
     bindR (op_val op_vals ''wrs2'') (\<lambda>wrs2.
     bindR (op_val op_vals ''shift_type'') (\<lambda>shift_type.
     bindR (op_val op_vals ''shift_bits'') (\<lambda>shift_bits.
     bindR (op_val op_vals ''flag_group'') (\<lambda>flag_group.
     Inr (BNCMPB wrs1 wrs2 shift_type (shift_bits div 8) flag_group))))))"

definition BNLID_init :: "op_vals \<Rightarrow> otbn_insn result" where
  "BNLID_init op_vals =
     bindR (op_val op_vals ''grd'') (\<lambda>grd.
     bindR (op_val op_vals ''grd_inc'') (\<lambda>grd_inc.
     bindR (op_val op_vals ''offset'') (\<lambda>offset.
     bindR (op_val op_vals ''grs1'') (\<lambda>grs1.
     bindR (op_val op_vals ''grs1_inc'') (\<lambda>grs1_inc.
     if py_bool grd_inc \<and> py_bool grs1_inc then Inl (DecodeError ''grd_inc and grs1_inc both set'')
     else Inr (BNLID grd grd_inc offset grs1 grs1_inc))))))"

definition BNSID_init :: "op_vals \<Rightarrow> otbn_insn result" where
  "BNSID_init op_vals =
     bindR (op_val op_vals ''grs2'') (\<lambda>grs2.
     bindR (op_val op_vals ''grs2_inc'') (\<lambda>grs2_inc.
     bindR (op_val op_vals ''offset'') (\<lambda>offset.
     bindR (op_val op_vals ''grs1'') (\<lambda>grs1.
     bindR (op_val op_vals ''grs1_inc'') (\<lambda>grs1_inc.
     if py_bool grs1_inc \<and> py_bool grs2_inc then Inl (DecodeError ''grs1_inc and grs2_inc both set'')
     else Inr (BNSID grs2 grs2_inc offset grs1 grs1_inc))))))"

definition BNMOV_init :: "op_vals \<Rightarrow> otbn_insn result" where
  "BNMOV_init op_vals =
     bindR (op_val op_vals ''wrd'') (\<lambda>wrd.
     bindR (op_val op_vals ''wrs'') (\<lambda>wrs.
     Inr (BNMOV wrd wrs)))"

definition BNMOVR_init :: "op_vals \<Rightarrow> otbn_insn result" where
  "BNMOVR_init op_vals =
     bindR (op_val op_vals ''grd'') (\<lambda>grd.
     bindR (op_val op_vals ''grd_inc'') (\<lambda>grd_inc.
     bindR (op_val op_vals ''grs'') (\<lambda>grs.
     bindR (op_val op_vals ''grs_inc'') (\<lambda>grs_inc.
     if py_bool grd_inc \<and> py_bool grs_inc then Inl (DecodeError ''grd_inc and grs_inc both set'')
     else Inr (BNMOVR grd grd_inc grs grs_inc)))))"

definition BNWSRR_init :: "op_vals \<Rightarrow> otbn_insn result" where
  "BNWSRR_init op_vals =
     bindR (op_val op_vals ''wrd'') (\<lambda>wrd.
     bindR (op_val op_vals ''wsr'') (\<lambda>wsr.
     Inr (BNWSRR wrd wsr)))"

definition BNWSRW_init :: "op_vals \<Rightarrow> otbn_insn result" where
  "BNWSRW_init op_vals =
     bindR (op_val op_vals ''wsr'') (\<lambda>wsr.
     bindR (op_val op_vals ''wrs'') (\<lambda>wrs.
     Inr (BNWSRW wsr wrs)))"

definition INSN_CLASSES :: "(string \<times> (op_vals \<Rightarrow> otbn_insn result)) list" where
  "INSN_CLASSES =
     [(''add'', RV32RegReg_init ADD),
      (''addi'', RV32RegImm_init ADDI),
      (''lui'', LUI_init),
      (''sub'', RV32RegReg_init SUB),
      (''sll'', RV32RegReg_init SLL),
      (''slli'', RV32ImmShift_init SLLI),
      (''srl'', RV32RegReg_init SRL),
      (''srli'', RV32ImmShift_init SRLI),
      (''sra'', RV32RegReg_init SRA),
      (''srai'', RV32ImmShift_init SRAI),
      (''and'', RV32RegReg_init AND_insn),
      (''andi'', RV32RegImm_init ANDI),
      (''or'', RV32RegReg_init OR_insn),
      (''ori'', RV32RegImm_init ORI),
      (''xor'', RV32RegReg_init XOR_insn),
      (''xori'', RV32RegImm_init XORI),
      (''lw'', LW_init),
      (''sw'', SW_init),
      (''beq'', BEQ_init),
      (''bne'', BNE_init),
      (''jal'', JAL_init),
      (''jalr'', JALR_init),
      (''csrrs'', CSRRS_init),
      (''csrrw'', CSRRW_init),
      (''ecall'', ECALL_init),
      (''loop'', LOOP_init),
      (''loopi'', LOOPI_init),
      (''bn.add'', BNADD_init),
      (''bn.addc'', BNADDC_init),
      (''bn.addi'', BNADDI_init),
      (''bn.addm'', BNADDM_init),
      (''bn.mulqacc'', BNMULQACC_init),
      (''bn.mulqacc.wo'', BNMULQACCWO_init),
      (''bn.mulqacc.so'', BNMULQACCSO_init),
      (''bn.sub'', BNSUB_init),
      (''bn.subb'', BNSUBB_init),
      (''bn.subi'', BNSUBI_init),
      (''bn.subm'', BNSUBM_init),
      (''bn.and'', BNAND_init),
      (''bn.or'', BNOR_init),
      (''bn.not'', BNNOT_init),
      (''bn.xor'', BNXOR_init),
      (''bn.rshi'', BNRSHI_init),
      (''bn.sel'', BNSEL_init),
      (''bn.cmp'', BNCMP_init),
      (''bn.cmpb'', BNCMPB_init),
      (''bn.lid'', BNLID_init),
      (''bn.sid'', BNSID_init),
      (''bn.mov'', BNMOV_init),
      (''bn.movr'', BNMOVR_init),
      (''bn.wsrr'', BNWSRR_init),
      (''bn.wsrw'', BNWSRW_init)]"

end
