(* ===== verification/Otbn_Insn.thy ===== *)
theory Otbn_Insn
  imports Otbn_Isa
begin

text \<open>
  Execution of instructions: the \<^verbatim>\<open>execute\<close>, \<^verbatim>\<open>pre_execute\<close> and \<^verbatim>\<open>affects_control\<close> of every class
  of \<^verbatim>\<open>sim/insn.py\<close>, and \<^verbatim>\<open>OTBNLDInsn.pre_execute\<close> of \<^verbatim>\<open>sim/isa.py\<close>.

  A method that takes the state is an action on \<open>otbn_state\<close>.  The first section names the
  accesses the methods make to the components of the state, in the order they make them: reading
  \<^verbatim>\<open>x1\<close> has an effect, so the order is part of the behaviour.
\<close>

section \<open>Accesses to the state\<close>

definition updS :: "('s \<Rightarrow> 's result) \<Rightarrow> ('s, unit) action" where
  "updS f s = bindR (f s) (\<lambda>s'. Inr ((), s'))"

definition gpr_read :: "int \<Rightarrow> (otbn_state, int) action" where
  "gpr_read i s = bindR (GPRs_read_unsigned i (st_gprs s)) (\<lambda>(v, g). Inr (v, s\<lparr>st_gprs := g\<rparr>))"

definition gpr_read_signed :: "int \<Rightarrow> (otbn_state, int) action" where
  "gpr_read_signed i s = bindR (GPRs_read_signed i (st_gprs s)) (\<lambda>(v, g). Inr (v, s\<lparr>st_gprs := g\<rparr>))"

definition gpr_write :: "int \<Rightarrow> int \<Rightarrow> (otbn_state, unit) action" where
  "gpr_write i v = updS (\<lambda>s. bindR (GPRs_write_unsigned i v (st_gprs s)) (\<lambda>g. Inr (s\<lparr>st_gprs := g\<rparr>)))"

definition gpr_write_signed :: "int \<Rightarrow> int \<Rightarrow> (otbn_state, unit) action" where
  "gpr_write_signed i v =
     updS (\<lambda>s. bindR (GPRs_write_signed i v (st_gprs s)) (\<lambda>g. Inr (s\<lparr>st_gprs := g\<rparr>)))"

definition wdr_read :: "int \<Rightarrow> (otbn_state, int) action" where
  "wdr_read i s = bindR (RegFile_read_unsigned i (st_wdrs s)) (\<lambda>v. Inr (v, s))"

definition wdr_write :: "int \<Rightarrow> int \<Rightarrow> (otbn_state, unit) action" where
  "wdr_write i v = updS (\<lambda>s. bindR (RegFile_write_unsigned i v (st_wdrs s)) (\<lambda>w. Inr (s\<lparr>st_wdrs := w\<rparr>)))"

definition flags_get :: "int \<Rightarrow> (otbn_state, flag_reg) action" where
  "flags_get fg s = bindR (FlagGroups_getitem fg (st_flags s)) (\<lambda>f. Inr (f, s))"

definition flags_set :: "int \<Rightarrow> flag_vals \<Rightarrow> (otbn_state, unit) action" where
  "flags_set fg f = updS (State_set_flags fg f)"

definition mlz_flags_set :: "int \<Rightarrow> int \<Rightarrow> (otbn_state, unit) action" where
  "mlz_flags_set fg r = updS (State_set_mlz_flags fg r)"

definition mod_read :: "(otbn_state, int) action" where
  "mod_read = getS (\<lambda>s. DumbWSR_read_unsigned (MOD (st_wsrs s)))"

definition acc_read :: "(otbn_state, int) action" where
  "acc_read = getS (\<lambda>s. DumbWSR_read_unsigned (ACC (st_wsrs s)))"

definition acc_write :: "int \<Rightarrow> (otbn_state, unit) action" where
  "acc_write v = updS (\<lambda>s. bindR (DumbWSR_write_unsigned v (ACC (st_wsrs s))) (\<lambda>a.
     Inr (s\<lparr>st_wsrs := (st_wsrs s)\<lparr>ACC := a\<rparr>\<rparr>)))"

definition wsr_read :: "int \<Rightarrow> (otbn_state, int) action" where
  "wsr_read i s = bindR (WSRFile_read_at_idx i (st_wsrs s)) (\<lambda>(v, w). Inr (v, s\<lparr>st_wsrs := w\<rparr>))"

definition wsr_write :: "int \<Rightarrow> int \<Rightarrow> (otbn_state, unit) action" where
  "wsr_write i v = updS (\<lambda>s. bindR (WSRFile_write_at_idx i v (st_wsrs s)) (\<lambda>w. Inr (s\<lparr>st_wsrs := w\<rparr>)))"

definition csr_write :: "int \<Rightarrow> int \<Rightarrow> (otbn_state, unit) action" where
  "csr_write i v = updS (State_write_csr i v)"

definition dmem_load32 :: "int \<Rightarrow> (otbn_state, int) action" where
  "dmem_load32 a s = bindR (Dmem_load_u32 a (st_dmem s)) (\<lambda>(v, d). Inr (v, s\<lparr>st_dmem := d\<rparr>))"

definition dmem_load256 :: "int \<Rightarrow> (otbn_state, int) action" where
  "dmem_load256 a s = bindR (Dmem_load_u256 a (st_dmem s)) (\<lambda>(v, d). Inr (v, s\<lparr>st_dmem := d\<rparr>))"

definition dmem_store32 :: "int \<Rightarrow> int \<Rightarrow> (otbn_state, unit) action" where
  "dmem_store32 a v = updS (\<lambda>s. bindR (Dmem_store_u32 a v (st_dmem s)) (\<lambda>d. Inr (s\<lparr>st_dmem := d\<rparr>)))"

definition dmem_store256 :: "int \<Rightarrow> int \<Rightarrow> (otbn_state, unit) action" where
  "dmem_store256 a v = updS (\<lambda>s. bindR (Dmem_store_u256 a v (st_dmem s)) (\<lambda>d. Inr (s\<lparr>st_dmem := d\<rparr>)))"

definition next_pc_set :: "int \<Rightarrow> (otbn_state, unit) action" where
  "next_pc_set v = modifyS (State_set_next_pc v)"

definition start_loop :: "int \<Rightarrow> int \<Rightarrow> (otbn_state, unit) action" where
  "start_loop iterations bodysize = updS (State_loop_start iterations bodysize)"

definition stop_at_end :: "int \<Rightarrow> (otbn_state, unit) action" where
  "stop_at_end bits = modifyS (State_stop_at_end_of_cycle bits)"

section \<open>The base instruction set\<close>

text \<open>
  The register-register and register-immediate instructions share the shape of their \<^verbatim>\<open>execute\<close>:
  read the sources in order, compute, write the destination.
\<close>

definition ADD_execute :: "int \<Rightarrow> int \<Rightarrow> int \<Rightarrow> (otbn_state, unit) action" where
  "ADD_execute grd grs1 grs2 =
     bindS (gpr_read grs1) (\<lambda>val1.
     bindS (gpr_read grs2) (\<lambda>val2.
     gpr_write grd ((val1 + val2) AND low_mask 32)))"

definition ADDI_execute :: "int \<Rightarrow> int \<Rightarrow> int \<Rightarrow> (otbn_state, unit) action" where
  "ADDI_execute grd grs1 imm =
     bindS (gpr_read grs1) (\<lambda>val1.
     gpr_write grd ((val1 + imm) AND low_mask 32))"

definition LUI_execute :: "int \<Rightarrow> int \<Rightarrow> (otbn_state, unit) action" where
  "LUI_execute grd imm = gpr_write grd (push_bit 12 imm)"

definition SUB_execute :: "int \<Rightarrow> int \<Rightarrow> int \<Rightarrow> (otbn_state, unit) action" where
  "SUB_execute grd grs1 grs2 =
     bindS (gpr_read grs1) (\<lambda>val1.
     bindS (gpr_read grs2) (\<lambda>val2.
     gpr_write grd ((val1 - val2) AND low_mask 32)))"

definition SLL_execute :: "int \<Rightarrow> int \<Rightarrow> int \<Rightarrow> (otbn_state, unit) action" where
  "SLL_execute grd grs1 grs2 =
     bindS (gpr_read grs1) (\<lambda>val1.
     bindS (gpr_read grs2) (\<lambda>v2. let val2 = v2 AND 0x1f in
     bindS (liftS (py_lshift val1 val2)) (\<lambda>shifted.
     gpr_write grd (shifted AND low_mask 32))))"

definition SLLI_execute :: "int \<Rightarrow> int \<Rightarrow> int \<Rightarrow> (otbn_state, unit) action" where
  "SLLI_execute grd grs1 shamt =
     bindS (gpr_read grs1) (\<lambda>val1.
     bindS (liftS (py_lshift val1 shamt)) (\<lambda>shifted.
     gpr_write grd (shifted AND low_mask 32)))"

definition SRL_execute :: "int \<Rightarrow> int \<Rightarrow> int \<Rightarrow> (otbn_state, unit) action" where
  "SRL_execute grd grs1 grs2 =
     bindS (gpr_read grs1) (\<lambda>val1.
     bindS (gpr_read grs2) (\<lambda>v2. let val2 = v2 AND 0x1f in
     bindS (liftS (py_rshift val1 val2)) (\<lambda>result.
     gpr_write grd result)))"

definition SRLI_execute :: "int \<Rightarrow> int \<Rightarrow> int \<Rightarrow> (otbn_state, unit) action" where
  "SRLI_execute grd grs1 shamt =
     bindS (gpr_read grs1) (\<lambda>val1.
     bindS (liftS (py_rshift val1 shamt)) (\<lambda>result.
     gpr_write grd result))"

definition SRA_execute :: "int \<Rightarrow> int \<Rightarrow> int \<Rightarrow> (otbn_state, unit) action" where
  "SRA_execute grd grs1 grs2 =
     bindS (gpr_read_signed grs1) (\<lambda>val1.
     bindS (gpr_read grs2) (\<lambda>v2. let val2 = v2 AND 0x1f in
     bindS (liftS (py_rshift val1 val2)) (\<lambda>result.
     gpr_write_signed grd result)))"

definition SRAI_execute :: "int \<Rightarrow> int \<Rightarrow> int \<Rightarrow> (otbn_state, unit) action" where
  "SRAI_execute grd grs1 shamt =
     bindS (gpr_read_signed grs1) (\<lambda>val1.
     bindS (liftS (py_rshift val1 shamt)) (\<lambda>result.
     gpr_write_signed grd result))"

definition AND_execute :: "int \<Rightarrow> int \<Rightarrow> int \<Rightarrow> (otbn_state, unit) action" where
  "AND_execute grd grs1 grs2 =
     bindS (gpr_read grs1) (\<lambda>val1.
     bindS (gpr_read grs2) (\<lambda>val2.
     gpr_write grd (val1 AND val2)))"

definition ANDI_execute :: "int \<Rightarrow> int \<Rightarrow> int \<Rightarrow> (otbn_state, unit) action" where
  "ANDI_execute grd grs1 imm =
     bindS (gpr_read grs1) (\<lambda>val1.
     bindS (liftS (to_2s_complement imm)) (\<lambda>val2.
     gpr_write grd (val1 AND val2)))"

definition OR_execute :: "int \<Rightarrow> int \<Rightarrow> int \<Rightarrow> (otbn_state, unit) action" where
  "OR_execute grd grs1 grs2 =
     bindS (gpr_read grs1) (\<lambda>val1.
     bindS (gpr_read grs2) (\<lambda>val2.
     gpr_write grd (val1 OR val2)))"

definition ORI_execute :: "int \<Rightarrow> int \<Rightarrow> int \<Rightarrow> (otbn_state, unit) action" where
  "ORI_execute grd grs1 imm =
     bindS (gpr_read grs1) (\<lambda>val1.
     bindS (liftS (to_2s_complement imm)) (\<lambda>val2.
     gpr_write grd (val1 OR val2)))"

definition XOR_execute :: "int \<Rightarrow> int \<Rightarrow> int \<Rightarrow> (otbn_state, unit) action" where
  "XOR_execute grd grs1 grs2 =
     bindS (gpr_read grs1) (\<lambda>val1.
     bindS (gpr_read grs2) (\<lambda>val2.
     gpr_write grd (val1 XOR val2)))"

definition XORI_execute :: "int \<Rightarrow> int \<Rightarrow> int \<Rightarrow> (otbn_state, unit) action" where
  "XORI_execute grd grs1 imm =
     bindS (gpr_read grs1) (\<lambda>val1.
     bindS (liftS (to_2s_complement imm)) (\<lambda>val2.
     gpr_write grd (val1 XOR val2)))"

definition LW_execute :: "int \<Rightarrow> int \<Rightarrow> int \<Rightarrow> (otbn_state, unit) action" where
  "LW_execute grd offset grs1 =
     bindS (gpr_read grs1) (\<lambda>base.
     bindS (dmem_load32 ((base + offset) AND low_mask 32)) (\<lambda>result.
     gpr_write grd result))"

definition SW_execute :: "int \<Rightarrow> int \<Rightarrow> int \<Rightarrow> (otbn_state, unit) action" where
  "SW_execute grs2 offset grs1 =
     bindS (gpr_read grs1) (\<lambda>base. let addr = (base + offset) AND low_mask 32 in
     bindS (gpr_read grs2) (\<lambda>v.
     dmem_store32 addr v))"

definition BEQ_execute :: "int \<Rightarrow> int \<Rightarrow> int \<Rightarrow> (otbn_state, unit) action" where
  "BEQ_execute grs1 grs2 offset =
     bindS (gpr_read grs1) (\<lambda>val1.
     bindS (gpr_read grs2) (\<lambda>val2.
     if val1 = val2 then next_pc_set offset else retS ()))"

definition BNE_execute :: "int \<Rightarrow> int \<Rightarrow> int \<Rightarrow> (otbn_state, unit) action" where
  "BNE_execute grs1 grs2 offset =
     bindS (gpr_read grs1) (\<lambda>val1.
     bindS (gpr_read grs2) (\<lambda>val2.
     if val1 \<noteq> val2 then next_pc_set offset else retS ()))"

definition JAL_execute :: "int \<Rightarrow> int \<Rightarrow> (otbn_state, unit) action" where
  "JAL_execute grd offset =
     (let mask32 = low_mask 32 in
      bindS (getS pc) (\<lambda>pcv. let link_pc = (pcv + 4) AND mask32 in
      bindS (gpr_write grd link_pc) (\<lambda>_.
      next_pc_set (offset AND mask32))))"

definition JALR_execute :: "int \<Rightarrow> int \<Rightarrow> int \<Rightarrow> (otbn_state, unit) action" where
  "JALR_execute grd grs1 offset =
     bindS (gpr_read grs1) (\<lambda>val1.
     bindS (getS pc) (\<lambda>pcv. let link_pc = (pcv + 4) AND low_mask 32 in
     bindS (gpr_write grd link_pc) (\<lambda>_.
     next_pc_set ((val1 + offset) AND low_mask 32))))"

definition CSRRS_execute :: "int \<Rightarrow> int \<Rightarrow> int \<Rightarrow> (otbn_state, unit) action" where
  "CSRRS_execute grd csr grs1 =
     bindS (State_read_csr csr) (\<lambda>old_val.
     bindS (gpr_read grs1) (\<lambda>bits_to_set. let new_val = old_val OR bits_to_set in
     bindS (gpr_write grd old_val) (\<lambda>_.
     if grs1 \<noteq> 0 then csr_write csr new_val else retS ())))"

definition CSRRW_execute :: "int \<Rightarrow> int \<Rightarrow> int \<Rightarrow> (otbn_state, unit) action" where
  "CSRRW_execute grd csr grs1 =
     bindS (gpr_read grs1) (\<lambda>new_val.
     bindS (if grd \<noteq> 0
            then bindS (State_read_csr csr) (\<lambda>old_val. gpr_write grd old_val)
            else retS ()) (\<lambda>_.
     csr_write csr new_val))"

definition ECALL_execute :: "(otbn_state, unit) action" where
  "ECALL_execute = stop_at_end 0"

definition LOOP_execute :: "int \<Rightarrow> int \<Rightarrow> (otbn_state, unit) action" where
  "LOOP_execute grs bodysize =
     bindS (gpr_read grs) (\<lambda>num_iters.
     if num_iters = 0 then stop_at_end LOOP_ERR else start_loop num_iters bodysize)"

definition LOOPI_execute :: "int \<Rightarrow> int \<Rightarrow> (otbn_state, unit) action" where
  "LOOPI_execute iterations bodysize = start_loop iterations bodysize"

section \<open>The big number instruction set\<close>

text \<open>The result and the flags that the adding and subtracting instructions derive from the full sum.\<close>

definition bn_result :: "int \<Rightarrow> int \<times> flag_vals" where
  "bn_result full_result =
     (let masked_result = full_result AND low_mask 256;
          carry_flag = py_bool (drop_bit 256 full_result AND 1)
      in (masked_result, FlagReg_mlz_for_result carry_flag masked_result))"

definition BNADD_execute :: "int \<Rightarrow> int \<Rightarrow> int \<Rightarrow> int \<Rightarrow> int \<Rightarrow> int \<Rightarrow> (otbn_state, unit) action" where
  "BNADD_execute wrd wrs1 wrs2 shift_type shift_bytes flag_group =
     bindS (wdr_read wrs1) (\<lambda>a.
     bindS (wdr_read wrs2) (\<lambda>b.
     bindS (liftS (logical_byte_shift b shift_type shift_bytes)) (\<lambda>b_shifted.
     let (masked_result, flags) = bn_result (a + b_shifted) in
     bindS (wdr_write wrd masked_result) (\<lambda>_.
     flags_set flag_group flags))))"

definition BNADDC_execute :: "int \<Rightarrow> int \<Rightarrow> int \<Rightarrow> int \<Rightarrow> int \<Rightarrow> int \<Rightarrow> (otbn_state, unit) action" where
  "BNADDC_execute wrd wrs1 wrs2 shift_type shift_bytes flag_group =
     bindS (wdr_read wrs1) (\<lambda>a.
     bindS (wdr_read wrs2) (\<lambda>b.
     bindS (liftS (logical_byte_shift b shift_type shift_bytes)) (\<lambda>b_shifted.
     bindS (flags_get flag_group) (\<lambda>f. let carry = py_int (flag_C f);
         (masked_result, flags) = bn_result (a + b_shifted + carry) in
     bindS (wdr_write wrd masked_result) (\<lambda>_.
     flags_set flag_group flags)))))"

definition BNADDI_execute :: "int \<Rightarrow> int \<Rightarrow> int \<Rightarrow> int \<Rightarrow> (otbn_state, unit) action" where
  "BNADDI_execute wrd wrs imm flag_group =
     bindS (wdr_read wrs) (\<lambda>a. let (masked_result, flags) = bn_result (a + imm) in
     bindS (wdr_write wrd masked_result) (\<lambda>_.
     flags_set flag_group flags))"

definition BNADDM_execute :: "int \<Rightarrow> int \<Rightarrow> int \<Rightarrow> (otbn_state, unit) action" where
  "BNADDM_execute wrd wrs1 wrs2 =
     bindS (wdr_read wrs1) (\<lambda>a.
     bindS (wdr_read wrs2) (\<lambda>b. let result = a + b in
     bindS mod_read (\<lambda>mod_val.
     let result = (if result \<ge> mod_val then result - mod_val else result);
         result = result AND low_mask 256
     in wdr_write wrd result)))"

definition BNMULQACC_execute :: "int \<Rightarrow> int \<Rightarrow> int \<Rightarrow> int \<Rightarrow> int \<Rightarrow> int \<Rightarrow> (otbn_state, unit) action" where
  "BNMULQACC_execute zero_acc wrs1 wrs1_qwsel wrs2 wrs2_qwsel acc_shift_imm =
     bindS (wdr_read wrs1) (\<lambda>a.
     bindS (wdr_read wrs2) (\<lambda>b.
     bindS (liftS (extract_quarter_word a wrs1_qwsel)) (\<lambda>a_qw.
     bindS (liftS (extract_quarter_word b wrs2_qwsel)) (\<lambda>b_qw. let mul_res = a_qw * b_qw in
     bindS acc_read (\<lambda>acc. let acc = (if py_bool zero_acc then 0 else acc) in
     bindS (liftS (py_lshift mul_res acc_shift_imm)) (\<lambda>shifted.
     let acc = acc + shifted; truncated = acc AND low_mask 256 in
     acc_write truncated))))))"

definition BNMULQACCWO_execute :: "int \<Rightarrow> int \<Rightarrow> int \<Rightarrow> int \<Rightarrow> int \<Rightarrow> int \<Rightarrow> int \<Rightarrow> int \<Rightarrow> (otbn_state, unit) action" where
  "BNMULQACCWO_execute zero_acc wrd wrs1 wrs1_qwsel wrs2 wrs2_qwsel acc_shift_imm flag_group =
     bindS (wdr_read wrs1) (\<lambda>a.
     bindS (wdr_read wrs2) (\<lambda>b.
     bindS (liftS (extract_quarter_word a wrs1_qwsel)) (\<lambda>a_qw.
     bindS (liftS (extract_quarter_word b wrs2_qwsel)) (\<lambda>b_qw. let mul_res = a_qw * b_qw in
     bindS acc_read (\<lambda>acc. let acc = (if py_bool zero_acc then 0 else acc) in
     bindS (liftS (py_lshift mul_res acc_shift_imm)) (\<lambda>shifted.
     let acc = acc + shifted; truncated = acc AND low_mask 256 in
     bindS (wdr_write wrd truncated) (\<lambda>_.
     bindS (acc_write truncated) (\<lambda>_.
     mlz_flags_set flag_group truncated))))))))"

definition BNMULQACCSO_execute :: "int \<Rightarrow> int \<Rightarrow> int \<Rightarrow> int \<Rightarrow> int \<Rightarrow> int \<Rightarrow> int \<Rightarrow> int \<Rightarrow> int \<Rightarrow> (otbn_state, unit) action" where
  "BNMULQACCSO_execute zero_acc wrd wrd_hwsel wrs1 wrs1_qwsel wrs2 wrs2_qwsel acc_shift_imm flag_group =
     bindS (wdr_read wrs1) (\<lambda>a.
     bindS (wdr_read wrs2) (\<lambda>b.
     bindS (liftS (extract_quarter_word a wrs1_qwsel)) (\<lambda>a_qw.
     bindS (liftS (extract_quarter_word b wrs2_qwsel)) (\<lambda>b_qw. let mul_res = a_qw * b_qw in
     bindS acc_read (\<lambda>acc. let acc = (if py_bool zero_acc then 0 else acc) in
     bindS (liftS (py_lshift mul_res acc_shift_imm)) (\<lambda>shifted.
     let acc = acc + shifted; truncated = acc AND low_mask 256 in
     let lo_part = truncated AND low_mask 128; hi_part = drop_bit 128 truncated;
         hw_shift = 128 * wrd_hwsel in
     bindS (liftS (py_lshift (low_mask 128) hw_shift)) (\<lambda>hw_mask.
     bindS (wdr_read wrd) (\<lambda>old_wrd.
     bindS (liftS (py_lshift lo_part hw_shift)) (\<lambda>lo_shifted.
     let new_wrd = (old_wrd AND NOT hw_mask) OR lo_shifted in
     bindS (wdr_write wrd new_wrd) (\<lambda>_.
     bindS (acc_write hi_part) (\<lambda>_.
     bindS (flags_get flag_group) (\<lambda>old_flags.
     let new_flags =
           (if py_bool wrd_hwsel
            then FlagReg (flag_C old_flags) (py_bool (drop_bit 127 lo_part AND 1))
                   (flag_L old_flags) (flag_Z old_flags \<and> lo_part = 0)
            else FlagReg (flag_C old_flags) (flag_M old_flags)
                   (py_bool (lo_part AND 1)) (lo_part = 0))
     in flags_set flag_group new_flags))))))))))))"

definition BNSUB_execute :: "int \<Rightarrow> int \<Rightarrow> int \<Rightarrow> int \<Rightarrow> int \<Rightarrow> int \<Rightarrow> (otbn_state, unit) action" where
  "BNSUB_execute wrd wrs1 wrs2 shift_type shift_bytes flag_group =
     bindS (wdr_read wrs1) (\<lambda>a.
     bindS (wdr_read wrs2) (\<lambda>b.
     bindS (liftS (logical_byte_shift b shift_type shift_bytes)) (\<lambda>b_shifted.
     let (masked_result, flags) = bn_result (a - b_shifted) in
     bindS (wdr_write wrd masked_result) (\<lambda>_.
     flags_set flag_group flags))))"

definition BNSUBB_execute :: "int \<Rightarrow> int \<Rightarrow> int \<Rightarrow> int \<Rightarrow> int \<Rightarrow> int \<Rightarrow> (otbn_state, unit) action" where
  "BNSUBB_execute wrd wrs1 wrs2 shift_type shift_bytes flag_group =
     bindS (wdr_read wrs1) (\<lambda>a.
     bindS (wdr_read wrs2) (\<lambda>b.
     bindS (liftS (logical_byte_shift b shift_type shift_bytes)) (\<lambda>b_shifted.
     bindS (flags_get flag_group) (\<lambda>f. let borrow = py_int (flag_C f);
         (masked_result, flags) = bn_result (a - b_shifted - borrow) in
     bindS (wdr_write wrd masked_result) (\<lambda>_.
     flags_set flag_group flags)))))"

definition BNSUBI_execute :: "int \<Rightarrow> int \<Rightarrow> int \<Rightarrow> int \<Rightarrow> (otbn_state, unit) action" where
  "BNSUBI_execute wrd wrs imm flag_group =
     bindS (wdr_read wrs) (\<lambda>a. let (masked_result, flags) = bn_result (a - imm) in
     bindS (wdr_write wrd masked_result) (\<lambda>_.
     flags_set flag_group flags))"

definition BNSUBM_execute :: "int \<Rightarrow> int \<Rightarrow> int \<Rightarrow> (otbn_state, unit) action" where
  "BNSUBM_execute wrd wrs1 wrs2 =
     bindS (wdr_read wrs1) (\<lambda>a.
     bindS (wdr_read wrs2) (\<lambda>b.
     bindS mod_read (\<lambda>mod_val. let diff = a - b;
         diff = (if diff < 0 then diff + mod_val else diff); result = diff AND low_mask 256
     in wdr_write wrd result)))"

definition BNAND_execute :: "int \<Rightarrow> int \<Rightarrow> int \<Rightarrow> int \<Rightarrow> int \<Rightarrow> int \<Rightarrow> (otbn_state, unit) action" where
  "BNAND_execute wrd wrs1 wrs2 shift_type shift_bytes flag_group =
     bindS (wdr_read wrs1) (\<lambda>a.
     bindS (wdr_read wrs2) (\<lambda>b.
     bindS (liftS (logical_byte_shift b shift_type shift_bytes)) (\<lambda>b_shifted.
     let result = a AND b_shifted in
     bindS (wdr_write wrd result) (\<lambda>_.
     mlz_flags_set flag_group result))))"

definition BNOR_execute :: "int \<Rightarrow> int \<Rightarrow> int \<Rightarrow> int \<Rightarrow> int \<Rightarrow> int \<Rightarrow> (otbn_state, unit) action" where
  "BNOR_execute wrd wrs1 wrs2 shift_type shift_bytes flag_group =
     bindS (wdr_read wrs1) (\<lambda>a.
     bindS (wdr_read wrs2) (\<lambda>b.
     bindS (liftS (logical_byte_shift b shift_type shift_bytes)) (\<lambda>b_shifted.
     let result = a OR b_shifted in
     bindS (wdr_write wrd result) (\<lambda>_.
     mlz_flags_set flag_group result))))"

definition BNNOT_execute :: "int \<Rightarrow> int \<Rightarrow> int \<Rightarrow> int \<Rightarrow> int \<Rightarrow> (otbn_state, unit) action" where
  "BNNOT_execute wrd wrs shift_type shift_bytes flag_group =
     bindS (wdr_read wrs) (\<lambda>a.
     bindS (liftS (logical_byte_shift a shift_type shift_bytes)) (\<lambda>a_shifted.
     let result = a_shifted XOR low_mask 256 in
     bindS (wdr_write wrd result) (\<lambda>_.
     mlz_flags_set flag_group result)))"

definition BNXOR_execute :: "int \<Rightarrow> int \<Rightarrow> int \<Rightarrow> int \<Rightarrow> int \<Rightarrow> int \<Rightarrow> (otbn_state, unit) action" where
  "BNXOR_execute wrd wrs1 wrs2 shift_type shift_bytes flag_group =
     bindS (wdr_read wrs1) (\<lambda>a.
     bindS (wdr_read wrs2) (\<lambda>b.
     bindS (liftS (logical_byte_shift b shift_type shift_bytes)) (\<lambda>b_shifted.
     let result = a XOR b_shifted in
     bindS (wdr_write wrd result) (\<lambda>_.
     mlz_flags_set flag_group result))))"

definition BNRSHI_execute :: "int \<Rightarrow> int \<Rightarrow> int \<Rightarrow> int \<Rightarrow> (otbn_state, unit) action" where
  "BNRSHI_execute wrd wrs1 wrs2 imm =
     bindS (wdr_read wrs1) (\<lambda>a.
     bindS (wdr_read wrs2) (\<lambda>b.
     bindS (liftS (py_rshift (push_bit 256 a OR b) imm)) (\<lambda>shifted.
     wdr_write wrd (shifted AND low_mask 256))))"

definition BNSEL_execute :: "int \<Rightarrow> int \<Rightarrow> int \<Rightarrow> int \<Rightarrow> int \<Rightarrow> (otbn_state, unit) action" where
  "BNSEL_execute wrd wrs1 wrs2 flag_group flag =
     bindS (flags_get flag_group) (\<lambda>f.
     bindS (liftS (FlagReg_get_by_idx flag f)) (\<lambda>flag_is_set.
     let wrs = (if flag_is_set then wrs1 else wrs2) in
     bindS (wdr_read wrs) (\<lambda>v.
     wdr_write wrd v)))"

definition BNCMP_execute :: "int \<Rightarrow> int \<Rightarrow> int \<Rightarrow> int \<Rightarrow> int \<Rightarrow> (otbn_state, unit) action" where
  "BNCMP_execute wrs1 wrs2 shift_type shift_bytes flag_group =
     bindS (wdr_read wrs1) (\<lambda>a.
     bindS (wdr_read wrs2) (\<lambda>b.
     bindS (liftS (logical_byte_shift b shift_type shift_bytes)) (\<lambda>b_shifted.
     let (masked_result, flags) = bn_result (a - b_shifted) in
     flags_set flag_group flags)))"

definition BNCMPB_execute :: "int \<Rightarrow> int \<Rightarrow> int \<Rightarrow> int \<Rightarrow> int \<Rightarrow> (otbn_state, unit) action" where
  "BNCMPB_execute wrs1 wrs2 shift_type shift_bytes flag_group =
     bindS (wdr_read wrs1) (\<lambda>a.
     bindS (wdr_read wrs2) (\<lambda>b.
     bindS (liftS (logical_byte_shift b shift_type shift_bytes)) (\<lambda>b_shifted.
     bindS (flags_get flag_group) (\<lambda>f. let borrow = py_int (flag_C f);
         (masked_result, flags) = bn_result (a - b_shifted - borrow) in
     flags_set flag_group flags))))"

definition BNLID_execute :: "int \<Rightarrow> int \<Rightarrow> int \<Rightarrow> int \<Rightarrow> int \<Rightarrow> (otbn_state, unit) action" where
  "BNLID_execute grd grd_inc offset grs1 grs1_inc =
     bindS (gpr_read grs1) (\<lambda>grs1_val. let addr = (grs1_val + offset) AND low_mask 32 in
     bindS (gpr_read grd) (\<lambda>grd_val.
     if grd_val > 31 then stop_at_end ILLEGAL_INSN
     else
       let wrd = grd_val AND 0x1f in
       bindS (dmem_load256 addr) (\<lambda>v.
       bindS (wdr_write wrd v) (\<lambda>_.
       bindS (if py_bool grd_inc then gpr_write grd (grd_val + 1) else retS ()) (\<lambda>_.
       if py_bool grs1_inc then gpr_write grs1 ((grs1_val + 32) AND low_mask 32) else retS ())))))"

definition BNSID_execute :: "int \<Rightarrow> int \<Rightarrow> int \<Rightarrow> int \<Rightarrow> int \<Rightarrow> (otbn_state, unit) action" where
  "BNSID_execute grs2 grs2_inc offset grs1 grs1_inc =
     bindS (gpr_read grs1) (\<lambda>grs1_val. let addr = (grs1_val + offset) AND low_mask 32 in
     bindS (gpr_read grs2) (\<lambda>grs2_val.
     if grs2_val > 31 then stop_at_end ILLEGAL_INSN
     else
       let wrs = grs2_val AND 0x1f in
       bindS (wdr_read wrs) (\<lambda>wrs_val.
       bindS (dmem_store256 addr wrs_val) (\<lambda>_.
       bindS (if py_bool grs1_inc then gpr_write grs1 ((grs1_val + 32) AND low_mask 32) else retS ()) (\<lambda>_.
       if py_bool grs2_inc then gpr_write grs2 (grs2_val + 1) else retS ())))))"

definition BNMOV_execute :: "int \<Rightarrow> int \<Rightarrow> (otbn_state, unit) action" where
  "BNMOV_execute wrd wrs =
     bindS (wdr_read wrs) (\<lambda>v.
     wdr_write wrd v)"

definition BNMOVR_execute :: "int \<Rightarrow> int \<Rightarrow> int \<Rightarrow> int \<Rightarrow> (otbn_state, unit) action" where
  "BNMOVR_execute grd grd_inc grs grs_inc =
     bindS (gpr_read grd) (\<lambda>grd_val.
     bindS (gpr_read grs) (\<lambda>grs_val.
     if grd_val > 31 then stop_at_end ILLEGAL_INSN
     else if grs_val > 31 then stop_at_end ILLEGAL_INSN
     else
       let wrd = grd_val AND 0x1f; wrs = grs_val AND 0x1f in
       bindS (wdr_read wrs) (\<lambda>v.
       bindS (wdr_write wrd v) (\<lambda>_.
       bindS (if py_bool grd_inc then gpr_write grd (grd_val + 1) else retS ()) (\<lambda>_.
       if py_bool grs_inc then gpr_write grs (grs_val + 1) else retS ())))))"

definition BNWSRR_execute :: "int \<Rightarrow> int \<Rightarrow> (otbn_state, unit) action" where
  "BNWSRR_execute wrd wsr =
     bindS (wsr_read wsr) (\<lambda>v.
     wdr_write wrd v)"

definition BNWSRW_execute :: "int \<Rightarrow> int \<Rightarrow> (otbn_state, unit) action" where
  "BNWSRW_execute wsr wrs =
     bindS (wdr_read wrs) (\<lambda>v.
     wsr_write wsr v)"

section \<open>Dispatch\<close>

fun execute :: "otbn_insn \<Rightarrow> (otbn_state, unit) action" where
  "execute (ADD a b c) = ADD_execute a b c"
| "execute (ADDI a b c) = ADDI_execute a b c"
| "execute (LUI a b) = LUI_execute a b"
| "execute (SUB a b c) = SUB_execute a b c"
| "execute (SLL a b c) = SLL_execute a b c"
| "execute (SLLI a b c) = SLLI_execute a b c"
| "execute (SRL a b c) = SRL_execute a b c"
| "execute (SRLI a b c) = SRLI_execute a b c"
| "execute (SRA a b c) = SRA_execute a b c"
| "execute (SRAI a b c) = SRAI_execute a b c"
| "execute (AND_insn a b c) = AND_execute a b c"
| "execute (ANDI a b c) = ANDI_execute a b c"
| "execute (OR_insn a b c) = OR_execute a b c"
| "execute (ORI a b c) = ORI_execute a b c"
| "execute (XOR_insn a b c) = XOR_execute a b c"
| "execute (XORI a b c) = XORI_execute a b c"
| "execute (LW a b c) = LW_execute a b c"
| "execute (SW a b c) = SW_execute a b c"
| "execute (BEQ a b c) = BEQ_execute a b c"
| "execute (BNE a b c) = BNE_execute a b c"
| "execute (JAL a b) = JAL_execute a b"
| "execute (JALR a b c) = JALR_execute a b c"
| "execute (CSRRS a b c) = CSRRS_execute a b c"
| "execute (CSRRW a b c) = CSRRW_execute a b c"
| "execute ECALL = ECALL_execute"
| "execute (LOOP a b) = LOOP_execute a b"
| "execute (LOOPI a b) = LOOPI_execute a b"
| "execute (BNADD a b c d e f) = BNADD_execute a b c d e f"
| "execute (BNADDC a b c d e f) = BNADDC_execute a b c d e f"
| "execute (BNADDI a b c d) = BNADDI_execute a b c d"
| "execute (BNADDM a b c) = BNADDM_execute a b c"
| "execute (BNMULQACC a b c d e f) = BNMULQACC_execute a b c d e f"
| "execute (BNMULQACCWO a b c d e f g h) = BNMULQACCWO_execute a b c d e f g h"
| "execute (BNMULQACCSO a b c d e f g h k) = BNMULQACCSO_execute a b c d e f g h k"
| "execute (BNSUB a b c d e f) = BNSUB_execute a b c d e f"
| "execute (BNSUBB a b c d e f) = BNSUBB_execute a b c d e f"
| "execute (BNSUBI a b c d) = BNSUBI_execute a b c d"
| "execute (BNSUBM a b c) = BNSUBM_execute a b c"
| "execute (BNAND a b c d e f) = BNAND_execute a b c d e f"
| "execute (BNOR a b c d e f) = BNOR_execute a b c d e f"
| "execute (BNNOT a b c d e) = BNNOT_execute a b c d e"
| "execute (BNXOR a b c d e f) = BNXOR_execute a b c d e f"
| "execute (BNRSHI a b c d) = BNRSHI_execute a b c d"
| "execute (BNSEL a b c d e) = BNSEL_execute a b c d e"
| "execute (BNCMP a b c d e) = BNCMP_execute a b c d e"
| "execute (BNCMPB a b c d e) = BNCMPB_execute a b c d e"
| "execute (BNLID a b c d e) = BNLID_execute a b c d e"
| "execute (BNSID a b c d e) = BNSID_execute a b c d e"
| "execute (BNMOV a b) = BNMOV_execute a b"
| "execute (BNMOVR a b c d) = BNMOVR_execute a b c d"
| "execute (BNWSRR a b) = BNWSRR_execute a b"
| "execute (BNWSRW a b) = BNWSRW_execute a b"

text \<open>
  \<^verbatim>\<open>pre_execute\<close>: a load stalls for the cycle in which it begins, and an access to RND stalls until
  a value is available.
\<close>

definition OTBNLDInsn_pre_execute :: "(otbn_state, bool) action" where
  "OTBNLDInsn_pre_execute s =
     (if Dmem_in_progress_load_complete (st_dmem s) then Inr (True, s)
      else Inr (False, s\<lparr>st_dmem := Dmem_begin_load (st_dmem s)\<rparr>))"

definition rnd_request :: "(otbn_state, bool) action" where
  "rnd_request s =
     (let (r, w) = RandWSR_request_value (RND (st_wsrs s))
      in Inr (r, s\<lparr>st_wsrs := (st_wsrs s)\<lparr>RND := w\<rparr>\<rparr>))"

definition CSRRS_pre_execute :: "int \<Rightarrow> (otbn_state, bool) action" where
  "CSRRS_pre_execute csr = (if csr = 0xfc0 then rnd_request else retS True)"

definition CSRRW_pre_execute :: "int \<Rightarrow> int \<Rightarrow> (otbn_state, bool) action" where
  "CSRRW_pre_execute grd csr = (if csr = 0xfc0 \<and> grd \<noteq> 0 then rnd_request else retS True)"

definition BNWSRR_pre_execute :: "int \<Rightarrow> (otbn_state, bool) action" where
  "BNWSRR_pre_execute wsr = (if wsr = 0x1 then rnd_request else retS True)"

definition pre_execute :: "otbn_insn \<Rightarrow> (otbn_state, bool) action" where
  "pre_execute i =
     (case i of
        LW grd offset grs1 \<Rightarrow> OTBNLDInsn_pre_execute
      | BNLID grd grd_inc offset grs1 grs1_inc \<Rightarrow> OTBNLDInsn_pre_execute
      | CSRRS grd csr grs1 \<Rightarrow> CSRRS_pre_execute csr
      | CSRRW grd csr grs1 \<Rightarrow> CSRRW_pre_execute grd csr
      | BNWSRR wrd wsr \<Rightarrow> BNWSRR_pre_execute wsr
      | _ \<Rightarrow> retS True)"

definition affects_control :: "otbn_insn \<Rightarrow> bool" where
  "affects_control i =
     (case i of
        BEQ _ _ _ \<Rightarrow> True | BNE _ _ _ \<Rightarrow> True | JAL _ _ \<Rightarrow> True | JALR _ _ _ \<Rightarrow> True
      | LOOP _ _ \<Rightarrow> True | LOOPI _ _ \<Rightarrow> True
      | _ \<Rightarrow> False)"

end
