(* ===== verification/Insn_Safety.thy ===== *)
theory Insn_Safety
  imports Otbn_Insn
begin

text \<open>
  Every instruction only stages its effects.  \<open>exec_rel s0 s\<close> relates the state before an
  instruction to a state reached while it executes: the invariant holds and nothing architectural
  has changed.  \<open>stages s0 m Q\<close> says that the access \<open>m\<close> does not raise, keeps that relation and
  returns a value satisfying \<open>Q\<close>.  One rule per access, collected in \<open>stages_rules\<close>, gives the
  result for every instruction with well-formed operands (\<open>insn_ok\<close>).
\<close>

section \<open>The staging judgement\<close>

text \<open>What an instruction does not touch at all while it executes.\<close>

definition exec_frame :: "otbn_state \<Rightarrow>
    int \<times> int \<times> bool \<times> bool \<times> bool \<times> ext_regs \<times> bool \<times> int option \<times> bool \<times> int option \<times> bool \<times> bool" where
  "exec_frame s =
     (pc s, imem_size s, non_insn_stall s, start_stall s, urnd_stall s, st_ext s, running s,
      new_rnd_data s, urnd_reseed_complete s, random_value (RND (st_wsrs s)),
      load_begun (st_dmem s), load_ready (st_dmem s))"

definition exec_rel :: "otbn_state \<Rightarrow> otbn_state \<Rightarrow> bool" where
  "exec_rel s0 s \<longleftrightarrow>
     State_inv s \<and> LoopStack_inv (loop_stack_of s) \<and> State_arch s = State_arch s0 \<and>
     exec_frame s = exec_frame s0 \<and>
     take (length (levels (loop_stack_of s0))) (levels (loop_stack_of s)) = levels (loop_stack_of s0) \<and>
     list_all (\<lambda>l. start_addr l = pc s0 + 4)
       (drop (length (levels (loop_stack_of s0))) (levels (loop_stack_of s)))"

definition stages :: "otbn_state \<Rightarrow> (otbn_state, 'a) action \<Rightarrow> ('a \<Rightarrow> bool) \<Rightarrow> bool" where
  "stages s0 m Q \<longleftrightarrow> (\<forall>s. exec_rel s0 s \<longrightarrow> returns (m s) (\<lambda>(x, s'). Q x \<and> exec_rel s0 s'))"

named_theorems stages_rules \<open>the staging judgement for the accesses of instructions\<close>

lemma stages_bind [stages_rules]:
  "stages s0 m Q \<Longrightarrow> (\<And>x. Q x \<Longrightarrow> stages s0 (f x) R) \<Longrightarrow> stages s0 (bindS m f) R"
  unfolding stages_def by (fastforce intro: returns_bindSI)

lemma stages_ret [stages_rules]: "Q x \<Longrightarrow> stages s0 (retS x) Q"
  by (simp add: stages_def)

lemma stages_if [stages_rules]:
  "(c \<Longrightarrow> stages s0 m Q) \<Longrightarrow> (\<not> c \<Longrightarrow> stages s0 m' Q) \<Longrightarrow> stages s0 (if c then m else m') Q"
  by simp

lemma stages_liftS: "returns r Q \<Longrightarrow> stages s0 (liftS r) Q"
  by (cases r) (auto simp: stages_def liftS_def)

lemma stages_weaken: "stages s0 m Q \<Longrightarrow> (\<And>x. Q x \<Longrightarrow> R x) \<Longrightarrow> stages s0 m R"
  unfolding stages_def by (fastforce intro: returns_mono)

text \<open>Rules for single accesses are proved from the effect of the access on one component.\<close>

lemma exec_rel_inv: "exec_rel s0 s \<Longrightarrow> State_inv s"
  by (simp add: exec_rel_def)

lemma exec_rel_arch: "exec_rel s0 s \<Longrightarrow> State_arch s = State_arch s0"
  by (simp add: exec_rel_def)

lemma exec_rel_gprs:
  assumes "exec_rel s0 s" and "GPRs_inv g" and "RegFile_tracked {1} g" and "GPRs_cur g = GPRs_cur (st_gprs s)"
  shows "exec_rel s0 (s\<lparr>st_gprs := g\<rparr>)"
  using assms
  by (simp add: exec_rel_def exec_frame_def State_inv_def State_arch_def) (elim conjE, simp)

lemma exec_rel_wdrs:
  assumes "exec_rel s0 s" and "RegFile_inv 256 32 w" and "RegFile_tracked {} w"
    and "RegFile_cur w = RegFile_cur (st_wdrs s)"
  shows "exec_rel s0 (s\<lparr>st_wdrs := w\<rparr>)"
  using assms
  by (simp add: exec_rel_def exec_frame_def State_inv_def State_arch_def) (elim conjE, simp)

lemma exec_rel_wsrs:
  assumes "exec_rel s0 s" and "WSRFile_inv w" and "WSRFile_cur w = WSRFile_cur (st_wsrs s)"
    and "random_value (RND w) = random_value (RND (st_wsrs s))"
  shows "exec_rel s0 (s\<lparr>st_wsrs := w\<rparr>)"
  using assms
  by (simp add: exec_rel_def exec_frame_def State_inv_def State_arch_def) (elim conjE, simp)

lemma exec_rel_flags:
  assumes "exec_rel s0 s" and "FlagGroups_inv f" and "FlagGroups_cur f = FlagGroups_cur (st_flags s)"
  shows "exec_rel s0 (s\<lparr>st_flags := f\<rparr>)"
  using assms
  by (simp add: exec_rel_def exec_frame_def State_inv_def State_arch_def) (elim conjE, simp)

lemma exec_rel_dmem:
  assumes "exec_rel s0 s" and "Dmem_ok d" and "data d = data (st_dmem s)"
    and "load_begun d = load_begun (st_dmem s)" and "load_ready d = load_ready (st_dmem s)"
  shows "exec_rel s0 (s\<lparr>st_dmem := d\<rparr>)"
  using assms
  by (simp add: exec_rel_def exec_frame_def State_inv_def State_arch_def) (elim conjE, simp)

lemma exec_rel_loop:
  assumes "exec_rel s0 s" and "LoopStack_inv ls"
    and "take (length (levels (loop_stack_of s0))) (levels ls) = levels (loop_stack_of s0)"
    and "list_all (\<lambda>l. start_addr l = pc s0 + 4) (drop (length (levels (loop_stack_of s0))) (levels ls))"
  shows "exec_rel s0 (s\<lparr>loop_stack_of := ls\<rparr>)"
  using assms
  by (simp add: exec_rel_def exec_frame_def State_inv_def State_arch_def LoopStack_inv_def) (elim conjE, simp)

section \<open>Rules for the accesses\<close>

text \<open>Operand values, read from the architectural state before the instruction.\<close>

definition arch_gpr :: "otbn_arch \<Rightarrow> int \<Rightarrow> int" where
  "arch_gpr a i =
     (if i = 0 then 0
      else if i = 1 then (if a_stack a = [] then 0 else last (a_stack a))
      else a_gprs a ! nat i)"

definition reg_ok :: "int \<Rightarrow> bool" where
  "reg_ok i \<longleftrightarrow> 0 \<le> i \<and> i < 32"

lemma gpr_value_arch: "gpr_value (st_gprs s) i = arch_gpr (State_arch s) i"
  by (simp add: gpr_value_def arch_gpr_def State_arch_def GPRs_cur_def)

lemma gpr_after_read_tracked [simp]: "RegFile_tracked A (gpr_after_read g i) = RegFile_tracked A g"
  by (simp add: gpr_after_read_def RegFile_tracked_def)

lemma stages_gpr_read [stages_rules]:
  assumes "reg_ok i"
  shows "stages s0 (gpr_read i) (\<lambda>x. x = arch_gpr (State_arch s0) i \<and> fits 32 x)"
  unfolding stages_def
proof (intro allI impI)
  fix s assume r: "exec_rel s0 s"
  then have g: "GPRs_inv (st_gprs s)" "RegFile_tracked {1} (st_gprs s)"
    by (simp_all add: exec_rel_def State_inv_def)
  have i: "0 \<le> i" "i < 32" using assms by (simp_all add: reg_ok_def)
  have v: "gpr_value (st_gprs s) i = arch_gpr (State_arch s0) i"
    using r by (simp add: gpr_value_arch exec_rel_def)
  show "returns (gpr_read i s)
      (\<lambda>(x, s'). (x = arch_gpr (State_arch s0) i \<and> fits 32 x) \<and> exec_rel s0 s')"
    using v gpr_value_fits [OF g(1) i] exec_rel_gprs [OF r, of "gpr_after_read (st_gprs s) i"] g
    by (simp add: gpr_read_def GPRs_read_unsigned_eq [OF g(1) i])
qed

lemma signed_of_range:
  assumes "fits 32 x"
  shows "- (2 ^ 31) \<le> signed_of 32 x" and "signed_of 32 x < 2 ^ 31"
proof -
  have "py_bool (drop_bit 31 x) \<longleftrightarrow> 2 ^ 31 \<le> x"
    using assms zdiv_eq_0_iff [of x "2 ^ 31"] by (auto simp: py_bool_def drop_bit_eq_div fits_iff)
  then show "- (2 ^ 31) \<le> signed_of 32 x" "signed_of 32 x < 2 ^ 31"
    using assms by (auto simp: signed_of_def fits_iff push_bit_eq_mult)
qed

lemma stages_gpr_read_signed [stages_rules]:
  assumes "reg_ok i"
  shows "stages s0 (gpr_read_signed i)
    (\<lambda>x. x = signed_of 32 (arch_gpr (State_arch s0) i) \<and> - (2 ^ 31) \<le> x \<and> x < 2 ^ 31)"
proof -
  have "gpr_read_signed i s = bindS (gpr_read i) (\<lambda>v. retS (signed_of 32 v)) s" for s
    by (cases "GPRs_read_unsigned i (st_gprs s)")
      (auto simp: gpr_read_signed_def gpr_read_def GPRs_read_signed_def bindS_def)
  then have "gpr_read_signed i = bindS (gpr_read i) (\<lambda>v. retS (signed_of 32 v))" by blast
  then show ?thesis
    using signed_of_range by (auto intro!: stages_rules assms)
qed

lemma GPRs_write_tracked:
  assumes "GPRs_inv g" and "RegFile_tracked {1} g" and "0 \<le> i" and "i < 32" and "fits 32 v"
  shows "returns (GPRs_write_unsigned i v g) (RegFile_tracked {1})"
proof -
  have rf: "RegFile_inv 32 32 g" using assms(1) by (simp add: GPRs_inv_def)
  consider "i = 0" | "i = 1" | "2 \<le> i" using assms(3) by linarith
  then show ?thesis
  proof cases
    case 2
    then show ?thesis
      using assms rf
      by (auto simp: GPRs_write_unsigned_def Reg_write_unsigned_def RegFile_mark_written_def
          GPRs_inv_def RegFile_inv_iff idx_ok_def RegFile_tracked_def)
  next
    case 3
    then have "GPRs_write_unsigned i v g = RegFile_write_unsigned i v g"
      by (simp add: GPRs_write_unsigned_def)
    then show ?thesis
      using 3 assms rf
      by (auto simp: RegFile_write_unsigned_eq [OF rf _ _ assms(5)] RegFile_tracked_def nth_list_update
          RegFile_inv_iff)
  qed (use assms in \<open>simp add: GPRs_write_x0\<close>)
qed

lemma stages_gpr_write [stages_rules]:
  assumes "reg_ok i" and "fits 32 v"
  shows "stages s0 (gpr_write i v) (\<lambda>_. True)"
  unfolding stages_def
proof (intro allI impI)
  fix s assume r: "exec_rel s0 s"
  then have g: "GPRs_inv (st_gprs s)" "RegFile_tracked {1} (st_gprs s)"
    by (simp_all add: exec_rel_def State_inv_def)
  have i: "0 \<le> i" "i < 32" using assms(1) by (simp_all add: reg_ok_def)
  obtain g' where "GPRs_write_unsigned i v (st_gprs s) = Inr g'" "GPRs_inv g'" "RegFile_tracked {1} g'"
    "GPRs_cur g' = GPRs_cur (st_gprs s)"
    using returns_conj [OF GPRs_write_unsigned_ok [OF g(1) i assms(2)] GPRs_write_tracked [OF g i assms(2)]]
    by (auto elim!: returnsE)
  then show "returns (gpr_write i v s) (\<lambda>(x, s'). True \<and> exec_rel s0 s')"
    using exec_rel_gprs [OF r] by (simp add: gpr_write_def updS_def)
qed

lemma stages_gpr_write_signed [stages_rules]:
  assumes "reg_ok i" and "- (2 ^ 31) \<le> v" and "v < 2 ^ 31"
  shows "stages s0 (gpr_write_signed i v) (\<lambda>_. True)"
proof -
  let ?u = "if v < 0 then 2 ^ 32 + v else v"
  have "gpr_write_signed i v = gpr_write i ?u"
    using assms(2,3)
    by (auto simp: gpr_write_signed_def gpr_write_def GPRs_write_signed_def unsigned_of_def push_bit_eq_mult)
  moreover have "fits 32 ?u"
    using assms(2,3) by (auto simp: fits_iff)
  ultimately show ?thesis
    using stages_gpr_write [OF assms(1)] by simp
qed

lemma stages_wdr_read [stages_rules]:
  assumes "reg_ok i"
  shows "stages s0 (wdr_read i) (\<lambda>x. x = a_wdrs (State_arch s0) ! nat i \<and> fits 256 x)"
  unfolding stages_def
proof (intro allI impI)
  fix s assume r: "exec_rel s0 s"
  then have w: "RegFile_inv 256 32 (st_wdrs s)" by (simp add: exec_rel_def State_inv_def)
  have i: "0 \<le> i" "i < int 32" "nat i < 32" using assms by (auto simp: reg_ok_def)
  have "RegFile_cur (st_wdrs s) = a_wdrs (State_arch s0)"
    using exec_rel_arch [OF r] by (metis State_arch_def otbn_arch.select_convs(3))
  then show "returns (wdr_read i s)
      (\<lambda>(x, s'). (x = a_wdrs (State_arch s0) ! nat i \<and> fits 256 x) \<and> exec_rel s0 s')"
    using RegFile_cur_fits [OF w i(3)] r
    by (simp add: wdr_read_def RegFile_read_unsigned_eq [OF w i(1,2)])
qed

lemma stages_wdr_write [stages_rules]:
  assumes "reg_ok i" and "fits 256 v"
  shows "stages s0 (wdr_write i v) (\<lambda>_. True)"
  unfolding stages_def
proof (intro allI impI)
  fix s assume r: "exec_rel s0 s"
  then have w: "RegFile_inv 256 32 (st_wdrs s)" "RegFile_tracked {} (st_wdrs s)"
    by (simp_all add: exec_rel_def State_inv_def)
  have i: "0 \<le> i" "i < int 32" using assms(1) by (auto simp: reg_ok_def)
  let ?w = "(st_wdrs s)\<lparr>registers := (registers (st_wdrs s))[nat i := (registers (st_wdrs s) ! nat i)\<lparr>next_uval := Some v\<rparr>],
            pending_writes := List.insert i (pending_writes (st_wdrs s))\<rparr>"
  have eq: "RegFile_write_unsigned i v (st_wdrs s) = Inr ?w"
    using RegFile_write_unsigned_eq [OF w(1) i assms(2)] .
  have ok: "RegFile_inv 256 32 ?w" "RegFile_cur ?w = RegFile_cur (st_wdrs s)"
    using RegFile_write_unsigned_ok [OF w(1) i assms(2)] unfolding eq by simp_all
  have "RegFile_tracked {} ?w"
    using w i by (auto simp: RegFile_tracked_def nth_list_update RegFile_inv_iff)
  then show "returns (wdr_write i v s) (\<lambda>(x, s'). True \<and> exec_rel s0 s')"
    using exec_rel_wdrs [OF r ok(1) _ ok(2)] eq by (simp add: wdr_write_def updS_def)
qed

definition arch_flags :: "otbn_arch \<Rightarrow> int \<Rightarrow> flag_vals" where
  "arch_flags a fg = (if fg = 0 then fst (a_flags a) else snd (a_flags a))"

definition flag_group_ok :: "int \<Rightarrow> bool" where
  "flag_group_ok fg \<longleftrightarrow> 0 \<le> fg \<and> fg \<le> 1"

lemma stages_flags_get [stages_rules]:
  assumes "flag_group_ok fg"
  shows "stages s0 (flags_get fg) (\<lambda>f. flag_vals_of f = arch_flags (State_arch s0) fg)"
  unfolding stages_def
proof (intro allI impI)
  fix s assume r: "exec_rel s0 s"
  have "FlagGroups_cur (st_flags s) = a_flags (State_arch s0)"
    using exec_rel_arch [OF r] by (metis State_arch_def otbn_arch.select_convs(4))
  then show "returns (flags_get fg s)
      (\<lambda>(f, s'). flag_vals_of f = arch_flags (State_arch s0) fg \<and> exec_rel s0 s')"
    using assms r
    by (auto simp: flags_get_def FlagGroups_getitem_def flag_group_ok_def arch_flags_def FlagGroups_cur_def
        elim: subst)
qed

lemma stages_flags_set [stages_rules]:
  assumes "flag_group_ok fg"
  shows "stages s0 (flags_set fg f) (\<lambda>_. True)"
  unfolding stages_def
proof (intro allI impI)
  fix s assume r: "exec_rel s0 s"
  then have "FlagGroups_inv (st_flags s)" by (simp add: exec_rel_def State_inv_def)
  with assms obtain fl where "FlagGroups_setitem fg f (st_flags s) = Inr fl" "FlagGroups_inv fl"
    "FlagGroups_cur fl = FlagGroups_cur (st_flags s)"
    using FlagGroups_setitem_ok [of "st_flags s" fg f] by (auto simp: flag_group_ok_def elim!: returnsE)
  then show "returns (flags_set fg f s) (\<lambda>(x, s'). True \<and> exec_rel s0 s')"
    using exec_rel_flags [OF r] by (simp add: flags_set_def updS_def State_set_flags_def)
qed

lemma stages_mlz_flags_set [stages_rules]:
  assumes "flag_group_ok fg"
  shows "stages s0 (mlz_flags_set fg v) (\<lambda>_. True)"
proof -
  have "mlz_flags_set fg v s =
      bindS (flags_get fg) (\<lambda>f. flags_set fg (FlagReg_mlz_for_result (flag_C f) v)) s" for s
    using assms by (simp add: mlz_flags_set_def updS_def State_set_mlz_flags_def bindS_def flags_get_def
        flags_set_def FlagGroups_getitem_def flag_group_ok_def)
  then have "mlz_flags_set fg v =
      bindS (flags_get fg) (\<lambda>f. flags_set fg (FlagReg_mlz_for_result (flag_C f) v))" by blast
  then show ?thesis
    by (auto intro!: stages_rules assms)
qed

lemma exec_rel_wsr_values:
  assumes "exec_rel s0 s"
  shows "WSRFile_inv (st_wsrs s)"
    and "a_mod_acc (State_arch s0) = (wsr_value (MOD (st_wsrs s)), wsr_value (ACC (st_wsrs s)))"
  using assms exec_rel_arch [OF assms]
  by (auto simp: exec_rel_def State_inv_def) (metis State_arch_def WSRFile_cur_def otbn_arch.select_convs(5))

lemma stages_getS:
  "(\<And>s. exec_rel s0 s \<Longrightarrow> Q (f s)) \<Longrightarrow> stages s0 (getS f) Q"
  by (simp add: stages_def)

lemma stages_mod_read [stages_rules]:
  "stages s0 mod_read (\<lambda>x. x = fst (a_mod_acc (State_arch s0)) \<and> fits 256 x)"
  unfolding mod_read_def
  by (rule stages_getS, frule exec_rel_wsr_values(1), drule exec_rel_wsr_values(2))
    (simp add: DumbWSR_read_unsigned_def WSRFile_inv_def DumbWSR_inv_def)

lemma stages_acc_read [stages_rules]:
  "stages s0 acc_read (\<lambda>x. x = snd (a_mod_acc (State_arch s0)) \<and> fits 256 x)"
  unfolding acc_read_def
  by (rule stages_getS, frule exec_rel_wsr_values(1), drule exec_rel_wsr_values(2))
    (simp add: DumbWSR_read_unsigned_def WSRFile_inv_def DumbWSR_inv_def)

lemma stages_acc_write [stages_rules]:
  assumes "fits 256 v"
  shows "stages s0 (acc_write v) (\<lambda>_. True)"
  unfolding stages_def
proof (intro allI impI)
  fix s assume r: "exec_rel s0 s"
  let ?w = "(st_wsrs s)\<lparr>ACC := (ACC (st_wsrs s))\<lparr>wsr_next := Some v\<rparr>\<rparr>"
  have "WSRFile_inv ?w" "WSRFile_cur ?w = WSRFile_cur (st_wsrs s)"
    "random_value (RND ?w) = random_value (RND (st_wsrs s))"
    using exec_rel_wsr_values(1) [OF r] assms by (simp_all add: WSRFile_inv_def DumbWSR_inv_def WSRFile_cur_def)
  then show "returns (acc_write v s) (\<lambda>(x, s'). True \<and> exec_rel s0 s')"
    using exec_rel_wsrs [OF r] assms by (simp add: acc_write_def updS_def DumbWSR_write_unsigned_def)
qed

text \<open>Whether a random value is there to be read.\<close>

definition rnd_available :: "otbn_state \<Rightarrow> bool" where
  "rnd_available s \<longleftrightarrow> random_value (RND (st_wsrs s)) \<noteq> None"

lemma exec_rel_rnd: "exec_rel s0 s \<Longrightarrow> rnd_available s = rnd_available s0"
  by (simp add: exec_rel_def exec_frame_def rnd_available_def)

definition wsr_ok :: "int \<Rightarrow> bool" where
  "wsr_ok i \<longleftrightarrow> 0 \<le> i \<and> i \<le> 2"

lemma stages_wsr_read [stages_rules]:
  assumes "wsr_ok i" and "i = 1 \<Longrightarrow> rnd_available s0"
  shows "stages s0 (wsr_read i) (fits 256)"
  unfolding stages_def
proof (intro allI impI)
  fix s assume r: "exec_rel s0 s"
  note w = exec_rel_wsr_values(1) [OF r]
  have rv: "i = 1 \<Longrightarrow> \<exists>v. random_value (RND (st_wsrs s)) = Some v \<and> fits 256 v"
    using assms(2) exec_rel_rnd [OF r] w by (auto simp: rnd_available_def WSRFile_inv_def)
  consider "i = 0" | "i = 1" | "i = 2" using assms(1) unfolding wsr_ok_def by linarith
  then have "returns (WSRFile_read_at_idx i (st_wsrs s)) (\<lambda>(v, w'). fits 256 v \<and> WSRFile_inv w' \<and>
    WSRFile_cur w' = WSRFile_cur (st_wsrs s) \<and> random_value (RND w') = random_value (RND (st_wsrs s)))"
    using w rv
    by cases (auto simp: WSRFile_read_at_idx_def RandWSR_read_unsigned_def
        DumbWSR_read_unsigned_def WSRFile_inv_def DumbWSR_inv_def WSRFile_cur_def)
  then show "returns (wsr_read i s) (\<lambda>(x, s'). fits 256 x \<and> exec_rel s0 s')"
    using exec_rel_wsrs [OF r] by (auto simp: wsr_read_def returns_bindR elim!: returns_mono)
qed

lemma stages_wsr_write [stages_rules]:
  assumes "wsr_ok i" and "fits 256 v"
  shows "stages s0 (wsr_write i v) (\<lambda>_. True)"
  unfolding stages_def
proof (intro allI impI)
  fix s assume r: "exec_rel s0 s"
  consider "i = 0" | "i = 1" | "i = 2" using assms(1) unfolding wsr_ok_def by linarith
  then have "returns (WSRFile_write_at_idx i v (st_wsrs s)) (\<lambda>w'. WSRFile_inv w' \<and>
    WSRFile_cur w' = WSRFile_cur (st_wsrs s) \<and> random_value (RND w') = random_value (RND (st_wsrs s)))"
    using assms(2) exec_rel_wsr_values(1) [OF r]
    by cases (auto simp: WSRFile_write_at_idx_def DumbWSR_write_unsigned_def RandWSR_write_unsigned_def
        WSRFile_inv_def DumbWSR_inv_def WSRFile_cur_def)
  then show "returns (wsr_write i v s) (\<lambda>(x, s'). True \<and> exec_rel s0 s')"
    using exec_rel_wsrs [OF r] by (auto simp: wsr_write_def updS_def returns_bindR elim!: returns_mono)
qed

definition csr_ok :: "int \<Rightarrow> bool" where
  "csr_ok i \<longleftrightarrow>
     (0x7c0 \<le> i \<and> i \<le> 0x7c1) \<or> i = 0x7c8 \<or> (0x7d0 \<le> i \<and> i \<le> 0x7d7) \<or> i = 0xfc0 \<or> i = 0xfc1"

lemma CSR_get_field_fits: "w \<le> n \<Longrightarrow> fits n (CSR_get_field k w v)"
  unfolding CSR_get_field_def by (rule fits_mono [OF fits_and_low_mask])

lemma CSRFile_read_ok:
  assumes "csr_ok i" and "WSRFile_inv w" and "i = 0xfc0 \<Longrightarrow> random_value (RND w) \<noteq> None"
  shows "returns (CSRFile_read_unsigned i (fl, w)) (\<lambda>(v, (fl', w')). fits 32 v \<and> fl' = fl \<and>
    WSRFile_inv w' \<and> WSRFile_cur w' = WSRFile_cur w \<and> random_value (RND w') = random_value (RND w))"
proof -
  consider "0x7c0 \<le> i \<and> i \<le> 0x7c1" | "i = 0x7c8" | "0x7d0 \<le> i \<and> i \<le> 0x7d7" | "i = 0xfc0" | "i = 0xfc1"
    using assms(1) unfolding csr_ok_def by blast
  then show ?thesis
    using assms(2,3) CSR_get_field_fits [of 4 32] CSR_get_field_fits [of 32 32]
      fits_mono [OF FlagGroups_read_fits, of 32 fl]
    by cases (auto simp: CSRFile_read_unsigned_def RandWSR_read_u32_def RandWSR_read_unsigned_def
        WSRFile_inv_def WSRFile_cur_def)
qed

lemma FlagGroups_write_ok:
  "0 \<le> v \<Longrightarrow> returns (FlagGroups_write_unsigned v fl) (\<lambda>fl'. FlagGroups_inv fl' \<and> FlagGroups_cur fl' = FlagGroups_cur fl)"
  by (rule returns_mono [OF FlagGroups_write_pend]) (auto simp: FlagGroups_inv_def)

lemma CSR_set_field_ok:
  assumes "fits w v" and "fits n old" and "w * j + w \<le> n"
  shows "returns (CSR_set_field j w v old) (fits n)"
proof -
  obtain nv where "CSR_set_field j w v old = Inr nv"
    using assms(1) by (simp add: CSR_set_field_def Let_def)
  with CSR_set_field_fits [OF this assms(2,3)] show ?thesis by simp
qed

lemma CSRFile_write_ok:
  assumes "csr_ok i" and "WSRFile_inv w" and "FlagGroups_inv fl" and "fits 32 v"
  shows "returns (CSRFile_write_unsigned i v (fl, w)) (\<lambda>(fl', w'). FlagGroups_inv fl' \<and>
    FlagGroups_cur fl' = FlagGroups_cur fl \<and>
    WSRFile_inv w' \<and> WSRFile_cur w' = WSRFile_cur w \<and> random_value (RND w') = random_value (RND w))"
proof -
  have f: "fits 4 (v AND 0xf)" using fits_and_low_mask [of 4 v] by (simp add: low_mask_eq)
  have m: "fits 256 (wsr_value (MOD w))" using assms(2) by (simp add: WSRFile_inv_def DumbWSR_inv_def)
  consider "0x7c0 \<le> i \<and> i \<le> 0x7c1" | "i = 0x7c8" | "0x7d0 \<le> i \<and> i \<le> 0x7d7" | "i = 0xfc0" | "i = 0xfc1"
    using assms(1) unfolding csr_ok_def by blast
  then show ?thesis
  proof cases
    case 1
    then have "nat (i - 0x7c0) \<le> 1" by linarith
    then have j: "4 * nat (i - 0x7c0) + 4 \<le> 8" by linarith
    show ?thesis
      using 1 assms
      by (simp add: CSRFile_write_unsigned_def)
        (rule returns_bindRI [OF CSR_set_field_ok [OF f FlagGroups_read_fits j]],
          rule returns_bindRI [OF FlagGroups_write_ok [OF fits_nonneg]], auto)
  next
    case 2
    then show ?thesis
      using assms fits_nonneg [OF assms(4)]
      by (simp add: CSRFile_write_unsigned_def) (rule returns_bindRI [OF FlagGroups_write_ok], auto)
  next
    case 3
    then have "nat (i - 0x7d0) \<le> 7" by linarith
    then have j: "32 * nat (i - 0x7d0) + 32 \<le> 256" by linarith
    show ?thesis
      using 3 assms
      by (simp add: CSRFile_write_unsigned_def DumbWSR_read_unsigned_def)
        (rule returns_bindRI [OF CSR_set_field_ok [OF assms(4) m j]],
          simp add: DumbWSR_write_unsigned_def WSRFile_inv_def DumbWSR_inv_def WSRFile_cur_def)
  qed (use assms in \<open>simp_all add: CSRFile_write_unsigned_def\<close>)
qed

lemma stages_csr_read [stages_rules]:
  assumes "csr_ok i" and "i = 0xfc0 \<Longrightarrow> rnd_available s0"
  shows "stages s0 (State_read_csr i) (fits 32)"
  unfolding stages_def
proof (intro allI impI)
  fix s assume r: "exec_rel s0 s"
  have "returns (CSRFile_read_unsigned i (st_flags s, st_wsrs s)) (\<lambda>(v, (fl', w')). fits 32 v \<and>
    fl' = st_flags s \<and> WSRFile_inv w' \<and> WSRFile_cur w' = WSRFile_cur (st_wsrs s) \<and>
    random_value (RND w') = random_value (RND (st_wsrs s)))"
    using assms exec_rel_rnd [OF r] exec_rel_wsr_values(1) [OF r]
    by (intro CSRFile_read_ok) (simp_all add: rnd_available_def)
  then show "returns (State_read_csr i s) (\<lambda>(x, s'). fits 32 x \<and> exec_rel s0 s')"
    using exec_rel_wsrs [OF r] by (auto simp: State_read_csr_def returns_bindR elim!: returns_mono)
qed

lemma stages_csr_write [stages_rules]:
  assumes "csr_ok i" and "fits 32 v"
  shows "stages s0 (csr_write i v) (\<lambda>_. True)"
  unfolding stages_def
proof (intro allI impI)
  fix s assume r: "exec_rel s0 s"
  then have "FlagGroups_inv (st_flags s)" by (simp add: exec_rel_def State_inv_def)
  from CSRFile_write_ok [OF assms(1) exec_rel_wsr_values(1) [OF r] this assms(2)]
  show "returns (csr_write i v s) (\<lambda>(x, s'). True \<and> exec_rel s0 s')"
    using exec_rel_wsrs [OF exec_rel_flags [OF r]]
    by (auto simp: csr_write_def updS_def State_write_csr_def returns_bindR elim!: returns_mono)
qed

lemma Dmem_ok_load:
  assumes "Dmem_ok d" and "0 \<le> a"
  shows "returns (Dmem_load_u32 a d) (\<lambda>(v, d'). fits 32 v \<and> Dmem_ok d' \<and> data d' = data d \<and>
      load_begun d' = load_begun d \<and> load_ready d' = load_ready d)"
    and "returns (Dmem_load_u256 a d) (\<lambda>(v, d'). fits 256 v \<and> Dmem_ok d' \<and> data d' = data d \<and>
      load_begun d' = load_begun d \<and> load_ready d' = load_ready d)"
proof -
  have inv: "Dmem_inv (length (data d)) d" using assms(1) by (simp add: Dmem_ok_def)
  show "returns (Dmem_load_u32 a d) (\<lambda>(v, d'). fits 32 v \<and> Dmem_ok d' \<and> data d' = data d \<and>
      load_begun d' = load_begun d \<and> load_ready d' = load_ready d)"
    using assms(1) u32_at_fits by (simp add: Dmem_load_u32_eq [OF inv assms(2)] Dmem_ok_def Dmem_inv_def)
  have "fits 256 (data d ! nat (a div 32))" if "access_ok (length (data d)) 32 a"
  proof -
    have "a mod 32 = 0" using that by (simp add: access_ok_def)
    with assms(2) obtain k where "a = 32 * int k" "access_ok (length (data d)) 32 a \<longleftrightarrow> k < length (data d)"
      using access_u256_cases by metis
    with that have "nat (a div 32) < length (data d)" by simp
    then show ?thesis using inv by (simp add: Dmem_inv_def words_ok_def list_all_length)
  qed
  then show "returns (Dmem_load_u256 a d) (\<lambda>(v, d'). fits 256 v \<and> Dmem_ok d' \<and> data d' = data d \<and>
      load_begun d' = load_begun d \<and> load_ready d' = load_ready d)"
    using assms(1) by (simp add: Dmem_load_u256_eq [OF inv assms(2)] Dmem_ok_def Dmem_inv_def)
qed

lemma exec_rel_dmem_ok: "exec_rel s0 s \<Longrightarrow> Dmem_ok (st_dmem s)"
  by (simp add: exec_rel_def State_inv_def)

lemma stages_dmem_load32 [stages_rules]: "0 \<le> a \<Longrightarrow> stages s0 (dmem_load32 a) (fits 32)"
  unfolding stages_def
  by (auto simp: dmem_load32_def returns_bindR
      intro!: returns_mono [OF Dmem_ok_load(1)] exec_rel_dmem dest: exec_rel_dmem_ok)

lemma stages_dmem_load256 [stages_rules]: "0 \<le> a \<Longrightarrow> stages s0 (dmem_load256 a) (fits 256)"
  unfolding stages_def
  by (auto simp: dmem_load256_def returns_bindR
      intro!: returns_mono [OF Dmem_ok_load(2)] exec_rel_dmem dest: exec_rel_dmem_ok)

lemma Dmem_ok_store:
  assumes "Dmem_ok d" and "0 \<le> a"
  shows "fits 32 v \<Longrightarrow> returns (Dmem_store_u32 a v d) (\<lambda>d'. Dmem_ok d' \<and> data d' = data d \<and>
      load_begun d' = load_begun d \<and> load_ready d' = load_ready d)"
    and "fits 256 v \<Longrightarrow> returns (Dmem_store_u256 a v d) (\<lambda>d'. Dmem_ok d' \<and> data d' = data d \<and>
      load_begun d' = load_begun d \<and> load_ready d' = load_ready d)"
proof -
  have inv: "Dmem_inv (length (data d)) d" using assms(1) by (simp add: Dmem_ok_def)
  show "fits 32 v \<Longrightarrow> returns (Dmem_store_u32 a v d) (\<lambda>d'. Dmem_ok d' \<and> data d' = data d \<and>
      load_begun d' = load_begun d \<and> load_ready d' = load_ready d)"
    using Dmem_store_inv(1) [OF inv assms(2), of v] inv
    by (auto simp: Dmem_store_u32_eq [OF inv assms(2)] Dmem_ok_def)
  show "fits 256 v \<Longrightarrow> returns (Dmem_store_u256 a v d) (\<lambda>d'. Dmem_ok d' \<and> data d' = data d \<and>
      load_begun d' = load_begun d \<and> load_ready d' = load_ready d)"
    using Dmem_store_inv(2) [OF inv assms(2), of v] inv
    by (auto simp: Dmem_store_u256_eq [OF inv assms(2)] Dmem_ok_def)
qed

lemma stages_dmem_store32 [stages_rules]:
  "0 \<le> a \<Longrightarrow> fits 32 v \<Longrightarrow> stages s0 (dmem_store32 a v) (\<lambda>_. True)"
  unfolding stages_def
  by (auto simp: dmem_store32_def updS_def returns_bindR
      intro!: returns_mono [OF Dmem_ok_store(1)] exec_rel_dmem dest: exec_rel_dmem_ok)

lemma stages_dmem_store256 [stages_rules]:
  "0 \<le> a \<Longrightarrow> fits 256 v \<Longrightarrow> stages s0 (dmem_store256 a v) (\<lambda>_. True)"
  unfolding stages_def
  by (auto simp: dmem_store256_def updS_def returns_bindR
      intro!: returns_mono [OF Dmem_ok_store(2)] exec_rel_dmem dest: exec_rel_dmem_ok)

lemma exec_rel_control:
  assumes "exec_rel s0 s" and "pred_option (\<lambda>v. 0 \<le> v) ov" and "fits 5 eb"
  shows "exec_rel s0 (s\<lparr>pc_next_override := ov, err_bits := eb, pending_halt := ph\<rparr>)"
  using assms
  by (simp add: exec_rel_def exec_frame_def State_inv_def State_arch_def) (elim conjE, simp)

lemma exec_rel_control_values:
  assumes "exec_rel s0 s"
  shows "pred_option (\<lambda>v. 0 \<le> v) (pc_next_override s)" and "fits 5 (err_bits s)"
  using assms by (simp_all add: exec_rel_def State_inv_def)

lemma stages_next_pc_set [stages_rules]:
  assumes "0 \<le> v"
  shows "stages s0 (next_pc_set v) (\<lambda>_. True)"
  unfolding stages_def
proof (intro allI impI)
  fix s assume r: "exec_rel s0 s"
  have "exec_rel s0 (s\<lparr>pc_next_override := Some v, err_bits := err_bits s, pending_halt := pending_halt s\<rparr>)"
    by (rule exec_rel_control [OF r]) (use assms exec_rel_control_values [OF r] in simp_all)
  then show "returns (next_pc_set v s) (\<lambda>(x, s'). True \<and> exec_rel s0 s')"
    by (simp add: next_pc_set_def State_set_next_pc_def)
qed

lemma stages_pc [stages_rules]: "stages s0 (getS pc) (\<lambda>x. x = a_pc (State_arch s0))"
  by (rule stages_getS) (simp add: exec_rel_def exec_frame_def State_arch_def)

lemma stages_stop_at_end [stages_rules]:
  assumes "fits 5 b"
  shows "stages s0 (stop_at_end b) (\<lambda>_. True)"
  unfolding stages_def
proof (intro allI impI)
  fix s assume r: "exec_rel s0 s"
  have "exec_rel s0 (s\<lparr>pc_next_override := pc_next_override s, err_bits := err_bits s OR b, pending_halt := True\<rparr>)"
    by (intro exec_rel_control [OF r] fits_or assms exec_rel_control_values [OF r])
  then show "returns (stop_at_end b s) (\<lambda>(x, s'). True \<and> exec_rel s0 s')"
    by (simp add: stop_at_end_def State_stop_at_end_of_cycle_def)
qed

lemma stages_start_loop [stages_rules]:
  assumes "0 < n" and "0 < sz"
  shows "stages s0 (start_loop n sz) (\<lambda>_. True)"
  unfolding stages_def
proof (intro allI impI)
  fix s assume r: "exec_rel s0 s"
  then have ls: "LoopStack_inv (loop_stack_of s)" "4 \<le> pc s + 4" "0 \<le> pc s + 4"
    "take (length (levels (loop_stack_of s0))) (levels (loop_stack_of s)) = levels (loop_stack_of s0)"
    "list_all (\<lambda>l. start_addr l = pc s0 + 4) (drop (length (levels (loop_stack_of s0))) (levels (loop_stack_of s)))"
    "pc s = pc s0"
    by (simp_all add: exec_rel_def exec_frame_def State_inv_def)
  let ?ls = "(loop_stack_of s)\<lparr>loop_err_flag := loop_err_flag (loop_stack_of s) \<or> length (levels (loop_stack_of s)) = LoopStack_depth,
            loop_traces := loop_traces (loop_stack_of s) @ [TraceLoopStart n sz],
            levels := levels (loop_stack_of s) @ [\<lparr>loop_count = n, restarts_left = n - 1, start_addr = pc s + 4,
                                    last_addr = pc s + 4 + 4 * sz - 4\<rparr>]\<rparr>"
  have eq: "LoopStack_start_loop (pc s + 4) n sz (loop_stack_of s) = Inr ?ls"
    by (rule LoopStack_start_loop_eq [OF ls(3) assms(2,1)])
  have "LoopStack_inv ?ls"
    using LoopStack_start_loop_inv [OF ls(1,2) assms(2,1)] unfolding eq by simp
  moreover have "length (levels (loop_stack_of s0)) \<le> length (levels (loop_stack_of s))"
    using arg_cong [OF ls(4), of length] by simp
  ultimately show "returns (start_loop n sz s) (\<lambda>(x, s'). True \<and> exec_rel s0 s')"
    using exec_rel_loop [OF r, of ?ls] ls(4-6) eq by (simp add: start_loop_def updS_def State_loop_start_def)
qed

text \<open>Rules for the pure computations lifted into actions.\<close>

lemma stages_py_lshift [stages_rules]:
  "0 \<le> n \<Longrightarrow> stages s0 (liftS (py_lshift x n)) (\<lambda>y. y = push_bit (nat n) x)"
  by (rule stages_liftS) (simp add: py_lshift_def)

lemma stages_py_rshift [stages_rules]:
  "0 \<le> n \<Longrightarrow> stages s0 (liftS (py_rshift x n)) (\<lambda>y. y = drop_bit (nat n) x)"
  by (rule stages_liftS) (simp add: py_rshift_def)

lemma stages_to_2s_complement [stages_rules]:
  "- (2 ^ 31) \<le> v \<Longrightarrow> v < 2 ^ 31 \<Longrightarrow>
   stages s0 (liftS (to_2s_complement v)) (\<lambda>y. y = take_bit 32 v \<and> fits 32 y)"
proof (rule stages_liftS)
  assume v: "- (2 ^ 31) \<le> v" "v < 2 ^ 31"
  have "v mod 4294967296 = (if v < 0 then 4294967296 + v else v)"
    using v mod_pos_pos_trivial [of "v + 4294967296" 4294967296] by (auto simp: mod_pos_pos_trivial)
  with v show "returns (to_2s_complement v) (\<lambda>y. y = take_bit 32 v \<and> fits 32 y)"
    by (simp add: to_2s_complement_def push_bit_eq_mult take_bit_eq_mod fits_iff)
qed

definition shifted_operand :: "int \<Rightarrow> int \<Rightarrow> int \<Rightarrow> int" where
  "shifted_operand v shift_type shift_bytes =
     take_bit 256 (if shift_type = 0 then push_bit (nat (8 * shift_bytes)) v
                   else drop_bit (nat (8 * shift_bytes)) v)"

lemma stages_logical_byte_shift [stages_rules]:
  "fits 256 v \<Longrightarrow> 0 \<le> st \<Longrightarrow> st \<le> 1 \<Longrightarrow> 0 \<le> sb \<Longrightarrow>
   stages s0 (liftS (logical_byte_shift v st sb)) (\<lambda>y. y = shifted_operand v st sb \<and> fits 256 y)"
proof (rule stages_liftS)
  assume v: "fits 256 v" "0 \<le> st" "st \<le> 1" "0 \<le> sb"
  then have "0 \<le> v \<and> v \<le> low_mask 256" by (simp add: fits_iff low_mask_eq)
  with v show "returns (logical_byte_shift v st sb) (\<lambda>y. y = shifted_operand v st sb \<and> fits 256 y)"
    by (simp add: logical_byte_shift_def Let_def and_low_mask shifted_operand_def)
qed

lemma stages_extract_quarter_word [stages_rules]:
  "fits 256 v \<Longrightarrow> 0 \<le> q \<Longrightarrow> q \<le> 3 \<Longrightarrow>
   stages s0 (liftS (extract_quarter_word v q)) (\<lambda>y. y = take_bit 64 (drop_bit (nat (q * 64)) v))"
  by (rule stages_liftS) (simp add: extract_quarter_word_def and_low_mask fits_def)

lemma stages_get_by_idx [stages_rules]:
  "0 \<le> k \<Longrightarrow> k \<le> 3 \<Longrightarrow> stages s0 (liftS (FlagReg_get_by_idx k f)) (\<lambda>_. True)"
proof (rule stages_liftS)
  assume "0 \<le> k" "k \<le> 3"
  then have "nat k < length FLAG_NAMES" by (simp add: FLAG_NAMES_def)
  then have "FLAG_NAMES ! nat k \<in> set FLAG_NAMES" by (rule nth_mem)
  with \<open>0 \<le> k\<close> \<open>k \<le> 3\<close> show "returns (FlagReg_get_by_idx k f) (\<lambda>_. True)"
    by (simp add: FlagReg_get_by_idx_def FlagReg_get_by_name_def)
qed

section \<open>Every instruction stages\<close>

text \<open>Operands in the ranges their encodings allow, and existing CSRs and WSRs.\<close>

definition shift_ok :: "int \<Rightarrow> int \<Rightarrow> bool" where
  "shift_ok shift_type shift_bytes \<longleftrightarrow> 0 \<le> shift_type \<and> shift_type \<le> 1 \<and> 0 \<le> shift_bytes"

definition qw_ok :: "int \<Rightarrow> bool" where
  "qw_ok q \<longleftrightarrow> 0 \<le> q \<and> q \<le> 3"

fun insn_ok :: "otbn_insn \<Rightarrow> bool" where
  "insn_ok (LUI grd imm) = (reg_ok grd \<and> fits 20 imm)"
| "insn_ok (ADDI grd grs1 imm) = (reg_ok grd \<and> reg_ok grs1)"
| "insn_ok (ANDI grd grs1 imm) = (reg_ok grd \<and> reg_ok grs1 \<and> - (2 ^ 31) \<le> imm \<and> imm < 2 ^ 31)"
| "insn_ok (ORI grd grs1 imm) = (reg_ok grd \<and> reg_ok grs1 \<and> - (2 ^ 31) \<le> imm \<and> imm < 2 ^ 31)"
| "insn_ok (XORI grd grs1 imm) = (reg_ok grd \<and> reg_ok grs1 \<and> - (2 ^ 31) \<le> imm \<and> imm < 2 ^ 31)"
| "insn_ok (SLLI grd grs1 shamt) = (reg_ok grd \<and> reg_ok grs1 \<and> 0 \<le> shamt)"
| "insn_ok (SRLI grd grs1 shamt) = (reg_ok grd \<and> reg_ok grs1 \<and> 0 \<le> shamt)"
| "insn_ok (SRAI grd grs1 shamt) = (reg_ok grd \<and> reg_ok grs1 \<and> 0 \<le> shamt)"
| "insn_ok (ADD grd grs1 grs2) = (reg_ok grd \<and> reg_ok grs1 \<and> reg_ok grs2)"
| "insn_ok (SUB grd grs1 grs2) = (reg_ok grd \<and> reg_ok grs1 \<and> reg_ok grs2)"
| "insn_ok (SLL grd grs1 grs2) = (reg_ok grd \<and> reg_ok grs1 \<and> reg_ok grs2)"
| "insn_ok (SRL grd grs1 grs2) = (reg_ok grd \<and> reg_ok grs1 \<and> reg_ok grs2)"
| "insn_ok (SRA grd grs1 grs2) = (reg_ok grd \<and> reg_ok grs1 \<and> reg_ok grs2)"
| "insn_ok (AND_insn grd grs1 grs2) = (reg_ok grd \<and> reg_ok grs1 \<and> reg_ok grs2)"
| "insn_ok (OR_insn grd grs1 grs2) = (reg_ok grd \<and> reg_ok grs1 \<and> reg_ok grs2)"
| "insn_ok (XOR_insn grd grs1 grs2) = (reg_ok grd \<and> reg_ok grs1 \<and> reg_ok grs2)"
| "insn_ok (LW grd offset grs1) = (reg_ok grd \<and> reg_ok grs1)"
| "insn_ok (SW grs2 offset grs1) = (reg_ok grs2 \<and> reg_ok grs1)"
| "insn_ok (BEQ grs1 grs2 offset) = (reg_ok grs1 \<and> reg_ok grs2 \<and> 0 \<le> offset)"
| "insn_ok (BNE grs1 grs2 offset) = (reg_ok grs1 \<and> reg_ok grs2 \<and> 0 \<le> offset)"
| "insn_ok (JAL grd offset) = reg_ok grd"
| "insn_ok (JALR grd grs1 offset) = (reg_ok grd \<and> reg_ok grs1)"
| "insn_ok (CSRRS grd csr grs1) = (reg_ok grd \<and> csr_ok csr \<and> reg_ok grs1)"
| "insn_ok (CSRRW grd csr grs1) = (reg_ok grd \<and> csr_ok csr \<and> reg_ok grs1)"
| "insn_ok ECALL = True"
| "insn_ok (LOOP grs bodysize) = (reg_ok grs \<and> 0 < bodysize)"
| "insn_ok (LOOPI iterations bodysize) = (0 < iterations \<and> 0 < bodysize)"
| "insn_ok (BNADD wrd wrs1 wrs2 st sb fg) = (reg_ok wrd \<and> reg_ok wrs1 \<and> reg_ok wrs2 \<and> shift_ok st sb \<and> flag_group_ok fg)"
| "insn_ok (BNADDC wrd wrs1 wrs2 st sb fg) = (reg_ok wrd \<and> reg_ok wrs1 \<and> reg_ok wrs2 \<and> shift_ok st sb \<and> flag_group_ok fg)"
| "insn_ok (BNADDI wrd wrs imm fg) = (reg_ok wrd \<and> reg_ok wrs \<and> flag_group_ok fg)"
| "insn_ok (BNADDM wrd wrs1 wrs2) = (reg_ok wrd \<and> reg_ok wrs1 \<and> reg_ok wrs2)"
| "insn_ok (BNMULQACC za wrs1 q1 wrs2 q2 sh) = (reg_ok wrs1 \<and> qw_ok q1 \<and> reg_ok wrs2 \<and> qw_ok q2 \<and> 0 \<le> sh)"
| "insn_ok (BNMULQACCWO za wrd wrs1 q1 wrs2 q2 sh fg) =
     (reg_ok wrd \<and> reg_ok wrs1 \<and> qw_ok q1 \<and> reg_ok wrs2 \<and> qw_ok q2 \<and> 0 \<le> sh \<and> flag_group_ok fg)"
| "insn_ok (BNMULQACCSO za wrd hw wrs1 q1 wrs2 q2 sh fg) =
     (reg_ok wrd \<and> 0 \<le> hw \<and> hw \<le> 1 \<and> reg_ok wrs1 \<and> qw_ok q1 \<and> reg_ok wrs2 \<and> qw_ok q2 \<and> 0 \<le> sh \<and> flag_group_ok fg)"
| "insn_ok (BNSUB wrd wrs1 wrs2 st sb fg) = (reg_ok wrd \<and> reg_ok wrs1 \<and> reg_ok wrs2 \<and> shift_ok st sb \<and> flag_group_ok fg)"
| "insn_ok (BNSUBB wrd wrs1 wrs2 st sb fg) = (reg_ok wrd \<and> reg_ok wrs1 \<and> reg_ok wrs2 \<and> shift_ok st sb \<and> flag_group_ok fg)"
| "insn_ok (BNSUBI wrd wrs imm fg) = (reg_ok wrd \<and> reg_ok wrs \<and> flag_group_ok fg)"
| "insn_ok (BNSUBM wrd wrs1 wrs2) = (reg_ok wrd \<and> reg_ok wrs1 \<and> reg_ok wrs2)"
| "insn_ok (BNAND wrd wrs1 wrs2 st sb fg) = (reg_ok wrd \<and> reg_ok wrs1 \<and> reg_ok wrs2 \<and> shift_ok st sb \<and> flag_group_ok fg)"
| "insn_ok (BNOR wrd wrs1 wrs2 st sb fg) = (reg_ok wrd \<and> reg_ok wrs1 \<and> reg_ok wrs2 \<and> shift_ok st sb \<and> flag_group_ok fg)"
| "insn_ok (BNNOT wrd wrs st sb fg) = (reg_ok wrd \<and> reg_ok wrs \<and> shift_ok st sb \<and> flag_group_ok fg)"
| "insn_ok (BNXOR wrd wrs1 wrs2 st sb fg) = (reg_ok wrd \<and> reg_ok wrs1 \<and> reg_ok wrs2 \<and> shift_ok st sb \<and> flag_group_ok fg)"
| "insn_ok (BNRSHI wrd wrs1 wrs2 imm) = (reg_ok wrd \<and> reg_ok wrs1 \<and> reg_ok wrs2 \<and> 0 \<le> imm)"
| "insn_ok (BNSEL wrd wrs1 wrs2 fg flag) = (reg_ok wrd \<and> reg_ok wrs1 \<and> reg_ok wrs2 \<and> flag_group_ok fg \<and> 0 \<le> flag \<and> flag \<le> 3)"
| "insn_ok (BNCMP wrs1 wrs2 st sb fg) = (reg_ok wrs1 \<and> reg_ok wrs2 \<and> shift_ok st sb \<and> flag_group_ok fg)"
| "insn_ok (BNCMPB wrs1 wrs2 st sb fg) = (reg_ok wrs1 \<and> reg_ok wrs2 \<and> shift_ok st sb \<and> flag_group_ok fg)"
| "insn_ok (BNLID grd gi offset grs1 g1i) = (reg_ok grd \<and> reg_ok grs1)"
| "insn_ok (BNSID grs2 g2i offset grs1 g1i) = (reg_ok grs2 \<and> reg_ok grs1)"
| "insn_ok (BNMOV wrd wrs) = (reg_ok wrd \<and> reg_ok wrs)"
| "insn_ok (BNMOVR grd gi grs gsi) = (reg_ok grd \<and> reg_ok grs)"
| "insn_ok (BNWSRR wrd wsr) = (reg_ok wrd \<and> wsr_ok wsr)"
| "insn_ok (BNWSRW wsr wrs) = (wsr_ok wsr \<and> reg_ok wrs)"

text \<open>The instructions that read RND, for which \<^verbatim>\<open>pre_execute\<close> waits for a value.\<close>

definition reads_rnd :: "otbn_insn \<Rightarrow> bool" where
  "reads_rnd i =
     (case i of
        CSRRS grd csr grs1 \<Rightarrow> csr = 0xfc0
      | CSRRW grd csr grs1 \<Rightarrow> csr = 0xfc0 \<and> grd \<noteq> 0
      | BNWSRR wrd wsr \<Rightarrow> wsr = 1
      | _ \<Rightarrow> False)"

text \<open>Range facts for the values that instructions write.\<close>

lemma fits_push_12 [fits_intros]: "fits 20 v \<Longrightarrow> fits 32 (push_bit 12 v)"
  by (simp add: fits_iff push_bit_eq_mult)

lemma fits_bn_result [fits_intros, simp]: "fits 256 (fst (bn_result v))"
  by (simp add: bn_result_def Let_def)

lemma drop_bit_signed_range:
  assumes "- 2147483648 \<le> v" and "v < (2147483648 :: int)"
  shows "- 2147483648 \<le> drop_bit n v" and "drop_bit n v < 2147483648"
proof -
  have n: "drop_bit n (NOT v) = NOT (drop_bit n v)"
    by (rule bit_eqI) (simp add: bit_simps)
  have "- 2147483648 \<le> drop_bit n v \<and> drop_bit n v < 2147483648"
  proof (cases "0 \<le> v")
    case True
    then have "0 \<le> drop_bit n v \<and> drop_bit n v < 2147483648"
      using fits_drop_bit [of 31 v n] assms by (simp add: fits_iff)
    then show ?thesis by linarith
  next
    case False
    then have "fits 31 (NOT v)" using assms by (simp add: fits_iff not_int_def)
    then have "NOT (drop_bit n v) < 2147483648"
      using fits_drop_bit [of 31 "NOT v" n] n by (simp add: fits_iff)
    moreover have "drop_bit n v < 0" using False by simp
    ultimately show ?thesis unfolding not_int_def by linarith
  qed
  then show "- 2147483648 \<le> drop_bit n v" "drop_bit n v < 2147483648" by blast+
qed

lemma fits_drop_128 [fits_intros]: "fits 256 (drop_bit 128 (take_bit 256 v))"
  by (rule fits_drop_bit) simp

lemma fits_insert_half [fits_intros]:
  assumes "fits 256 old" and "0 \<le> hw" and "hw \<le> 1"
  shows "fits 256 ((old AND m) OR push_bit (nat (128 * hw)) (take_bit 128 v))"
proof -
  have "hw = 0 \<or> hw = 1" using assms by linarith
  moreover have "fits 256 (take_bit 128 v)" by (rule fits_mono [of 128]) simp_all
  moreover have "fits 256 (push_bit 128 (take_bit 128 v))"
    using fits_take_bit [of 128 v] by (simp add: fits_iff push_bit_eq_mult)
  ultimately show ?thesis
    using fits_and_any [OF assms(1), of m] by (auto intro!: fits_or)
qed

lemma reg_ok_masked: "reg_ok (v AND 0x1f)"
  using fits_and_low_mask [of 5 v] by (simp add: low_mask_eq reg_ok_def fits_iff)

lemma and_31_nonneg: "(0 :: int) \<le> v AND 0x1f"
  by simp

lemma fits_succ: "fits 32 v \<Longrightarrow> \<not> 31 < v \<Longrightarrow> fits 32 (v + 1)"
  by (simp add: fits_iff)

lemma fits_pos: "fits n v \<Longrightarrow> v \<noteq> 0 \<Longrightarrow> 0 < v"
  by (simp add: fits_iff)

lemma and_low_mask_nonneg: "0 \<le> v AND low_mask n"
  by (rule fits_nonneg) (rule fits_and_low_mask)

lemmas stage_side =
  fits_and_any fits_or fits_xor fits_drop_bit fits_low_mask fits_and_low_mask fits_nonneg
  fits_push_12 fits_bn_result fits_drop_128 fits_insert_half reg_ok_masked and_31_nonneg fits_succ
  drop_bit_signed_range fits_pos and_low_mask_nonneg err_bits_fit fits_zero

lemmas execute_defs =
  ADD_execute_def ADDI_execute_def LUI_execute_def SUB_execute_def SLL_execute_def
  SLLI_execute_def SRL_execute_def SRLI_execute_def SRA_execute_def SRAI_execute_def
  AND_execute_def ANDI_execute_def OR_execute_def ORI_execute_def XOR_execute_def
  XORI_execute_def LW_execute_def SW_execute_def BEQ_execute_def BNE_execute_def
  JAL_execute_def JALR_execute_def CSRRS_execute_def CSRRW_execute_def ECALL_execute_def
  LOOP_execute_def LOOPI_execute_def BNADD_execute_def BNADDC_execute_def BNADDI_execute_def
  BNADDM_execute_def BNMULQACC_execute_def BNMULQACCWO_execute_def BNMULQACCSO_execute_def BNSUB_execute_def
  BNSUBB_execute_def BNSUBI_execute_def BNSUBM_execute_def BNAND_execute_def BNOR_execute_def
  BNNOT_execute_def BNXOR_execute_def BNRSHI_execute_def BNSEL_execute_def BNCMP_execute_def
  BNCMPB_execute_def BNLID_execute_def BNSID_execute_def BNMOV_execute_def BNMOVR_execute_def
  BNWSRR_execute_def BNWSRW_execute_def

text \<open>The instructions by family.\<close>

lemma reg_reg_stages:
  assumes "reg_ok grd" and "reg_ok grs1" and "reg_ok grs2"
  shows "stages s0 (ADD_execute grd grs1 grs2) (\<lambda>_. True)"
    and "stages s0 (SUB_execute grd grs1 grs2) (\<lambda>_. True)"
    and "stages s0 (SLL_execute grd grs1 grs2) (\<lambda>_. True)"
    and "stages s0 (SRL_execute grd grs1 grs2) (\<lambda>_. True)"
    and "stages s0 (SRA_execute grd grs1 grs2) (\<lambda>_. True)"
    and "stages s0 (AND_execute grd grs1 grs2) (\<lambda>_. True)"
    and "stages s0 (OR_execute grd grs1 grs2) (\<lambda>_. True)"
    and "stages s0 (XOR_execute grd grs1 grs2) (\<lambda>_. True)"
  using assms unfolding execute_defs Let_def split_beta and_low_mask
  by - ((rule stages_rules | (auto intro: stage_side)[1])+)

lemma reg_imm_stages:
  assumes "reg_ok grd" and "reg_ok grs1" and "- (2 ^ 31) \<le> imm" and "imm < 2 ^ 31"
  shows "stages s0 (ANDI_execute grd grs1 imm) (\<lambda>_. True)"
    and "stages s0 (ORI_execute grd grs1 imm) (\<lambda>_. True)"
    and "stages s0 (XORI_execute grd grs1 imm) (\<lambda>_. True)"
  using assms unfolding execute_defs Let_def split_beta and_low_mask
  by - ((rule stages_rules | (auto intro: stage_side)[1])+)

lemma imm_shift_stages:
  assumes "reg_ok grd" and "reg_ok grs1" and "0 \<le> shamt"
  shows "stages s0 (SLLI_execute grd grs1 shamt) (\<lambda>_. True)"
    and "stages s0 (SRLI_execute grd grs1 shamt) (\<lambda>_. True)"
    and "stages s0 (SRAI_execute grd grs1 shamt) (\<lambda>_. True)"
  using assms unfolding execute_defs Let_def split_beta and_low_mask
  by - ((rule stages_rules | (auto intro: stage_side)[1])+)

lemma addi_lui_stages:
  "reg_ok grd \<Longrightarrow> reg_ok grs1 \<Longrightarrow> stages s0 (ADDI_execute grd grs1 imm) (\<lambda>_. True)"
  "reg_ok grd \<Longrightarrow> fits 20 uimm \<Longrightarrow> stages s0 (LUI_execute grd uimm) (\<lambda>_. True)"
  unfolding execute_defs Let_def split_beta and_low_mask
  by - ((rule stages_rules | (auto intro: stage_side)[1])+)

lemma memory_stages:
  assumes "reg_ok r1" and "reg_ok r2"
  shows "stages s0 (LW_execute r1 offset r2) (\<lambda>_. True)"
    and "stages s0 (SW_execute r1 offset r2) (\<lambda>_. True)"
    and "stages s0 (BNLID_execute r1 i1 offset r2 i2) (\<lambda>_. True)"
    and "stages s0 (BNSID_execute r1 i1 offset r2 i2) (\<lambda>_. True)"
    and "stages s0 (BNMOVR_execute r1 i1 r2 i2) (\<lambda>_. True)"
  using assms unfolding execute_defs Let_def split_beta and_low_mask
  by - ((rule stages_rules | (auto intro: stage_side)[1])+)

lemma branch_stages:
  "reg_ok r1 \<Longrightarrow> reg_ok r2 \<Longrightarrow> 0 \<le> target \<Longrightarrow> stages s0 (BEQ_execute r1 r2 target) (\<lambda>_. True)"
  "reg_ok r1 \<Longrightarrow> reg_ok r2 \<Longrightarrow> 0 \<le> target \<Longrightarrow> stages s0 (BNE_execute r1 r2 target) (\<lambda>_. True)"
  "reg_ok r1 \<Longrightarrow> stages s0 (JAL_execute r1 offset) (\<lambda>_. True)"
  "reg_ok r1 \<Longrightarrow> reg_ok r2 \<Longrightarrow> stages s0 (JALR_execute r1 r2 offset) (\<lambda>_. True)"
  unfolding execute_defs Let_def split_beta and_low_mask
  by - ((rule stages_rules | (auto intro: stage_side)[1])+)

lemma loop_stages:
  "reg_ok grs \<Longrightarrow> 0 < bodysize \<Longrightarrow> stages s0 (LOOP_execute grs bodysize) (\<lambda>_. True)"
  "0 < iterations \<Longrightarrow> 0 < bodysize \<Longrightarrow> stages s0 (LOOPI_execute iterations bodysize) (\<lambda>_. True)"
  "stages s0 (ECALL_execute) (\<lambda>_. True)"
  unfolding execute_defs Let_def split_beta and_low_mask
  by - ((rule stages_rules | (auto intro: stage_side)[1])+)

lemma csr_stages:
  "reg_ok grd \<Longrightarrow> reg_ok grs1 \<Longrightarrow> csr_ok csr \<Longrightarrow> csr = 0xfc0 \<longrightarrow> rnd_available s0 \<Longrightarrow> stages s0 (CSRRS_execute grd csr grs1) (\<lambda>_. True)"
  "reg_ok grd \<Longrightarrow> reg_ok grs1 \<Longrightarrow> csr_ok csr \<Longrightarrow> csr = 0xfc0 \<and> grd \<noteq> 0 \<longrightarrow> rnd_available s0 \<Longrightarrow> stages s0 (CSRRW_execute grd csr grs1) (\<lambda>_. True)"
  "reg_ok w \<Longrightarrow> wsr_ok wsr \<Longrightarrow> wsr = 1 \<longrightarrow> rnd_available s0 \<Longrightarrow> stages s0 (BNWSRR_execute w wsr) (\<lambda>_. True)"
  "reg_ok w \<Longrightarrow> wsr_ok wsr \<Longrightarrow> stages s0 (BNWSRW_execute wsr w) (\<lambda>_. True)"
  unfolding execute_defs Let_def split_beta and_low_mask
  by - ((rule stages_rules | (auto intro: stage_side)[1])+)

lemma bn_arith_stages:
  assumes "reg_ok wrd" and "reg_ok wrs1" and "reg_ok wrs2" and "0 \<le> st" and "st \<le> 1" and "0 \<le> sb" and "flag_group_ok fg"
  shows "stages s0 (BNADD_execute wrd wrs1 wrs2 st sb fg) (\<lambda>_. True)"
    and "stages s0 (BNADDC_execute wrd wrs1 wrs2 st sb fg) (\<lambda>_. True)"
    and "stages s0 (BNSUB_execute wrd wrs1 wrs2 st sb fg) (\<lambda>_. True)"
    and "stages s0 (BNSUBB_execute wrd wrs1 wrs2 st sb fg) (\<lambda>_. True)"
  using assms unfolding execute_defs Let_def split_beta and_low_mask
  by - ((rule stages_rules | (auto intro: stage_side)[1])+)

lemma bn_logic_stages:
  "reg_ok wrd \<Longrightarrow> reg_ok wrs1 \<Longrightarrow> reg_ok wrs2 \<Longrightarrow> 0 \<le> st \<Longrightarrow> st \<le> 1 \<Longrightarrow> 0 \<le> sb \<Longrightarrow> flag_group_ok fg \<Longrightarrow> stages s0 (BNAND_execute wrd wrs1 wrs2 st sb fg) (\<lambda>_. True)"
  "reg_ok wrd \<Longrightarrow> reg_ok wrs1 \<Longrightarrow> reg_ok wrs2 \<Longrightarrow> 0 \<le> st \<Longrightarrow> st \<le> 1 \<Longrightarrow> 0 \<le> sb \<Longrightarrow> flag_group_ok fg \<Longrightarrow> stages s0 (BNOR_execute wrd wrs1 wrs2 st sb fg) (\<lambda>_. True)"
  "reg_ok wrd \<Longrightarrow> reg_ok wrs1 \<Longrightarrow> reg_ok wrs2 \<Longrightarrow> 0 \<le> st \<Longrightarrow> st \<le> 1 \<Longrightarrow> 0 \<le> sb \<Longrightarrow> flag_group_ok fg \<Longrightarrow> stages s0 (BNXOR_execute wrd wrs1 wrs2 st sb fg) (\<lambda>_. True)"
  "reg_ok wrd \<Longrightarrow> reg_ok wrs \<Longrightarrow> 0 \<le> st \<Longrightarrow> st \<le> 1 \<Longrightarrow> 0 \<le> sb \<Longrightarrow> flag_group_ok fg \<Longrightarrow> stages s0 (BNNOT_execute wrd wrs st sb fg) (\<lambda>_. True)"
  "reg_ok wrs1 \<Longrightarrow> reg_ok wrs2 \<Longrightarrow> 0 \<le> st \<Longrightarrow> st \<le> 1 \<Longrightarrow> 0 \<le> sb \<Longrightarrow> flag_group_ok fg \<Longrightarrow> stages s0 (BNCMP_execute wrs1 wrs2 st sb fg) (\<lambda>_. True)"
  "reg_ok wrs1 \<Longrightarrow> reg_ok wrs2 \<Longrightarrow> 0 \<le> st \<Longrightarrow> st \<le> 1 \<Longrightarrow> 0 \<le> sb \<Longrightarrow> flag_group_ok fg \<Longrightarrow> stages s0 (BNCMPB_execute wrs1 wrs2 st sb fg) (\<lambda>_. True)"
  unfolding execute_defs Let_def split_beta and_low_mask
  by - ((rule stages_rules | (auto intro: stage_side)[1])+)

lemma bn_plain_stages:
  "reg_ok wrd \<Longrightarrow> reg_ok wrs \<Longrightarrow> flag_group_ok fg \<Longrightarrow> stages s0 (BNADDI_execute wrd wrs imm fg) (\<lambda>_. True)"
  "reg_ok wrd \<Longrightarrow> reg_ok wrs \<Longrightarrow> flag_group_ok fg \<Longrightarrow> stages s0 (BNSUBI_execute wrd wrs imm fg) (\<lambda>_. True)"
  "reg_ok wrd \<Longrightarrow> reg_ok wrs1 \<Longrightarrow> reg_ok wrs2 \<Longrightarrow> stages s0 (BNADDM_execute wrd wrs1 wrs2) (\<lambda>_. True)"
  "reg_ok wrd \<Longrightarrow> reg_ok wrs1 \<Longrightarrow> reg_ok wrs2 \<Longrightarrow> stages s0 (BNSUBM_execute wrd wrs1 wrs2) (\<lambda>_. True)"
  "reg_ok wrd \<Longrightarrow> reg_ok wrs \<Longrightarrow> stages s0 (BNMOV_execute wrd wrs) (\<lambda>_. True)"
  unfolding execute_defs Let_def split_beta and_low_mask
  by - ((rule stages_rules | (auto intro: stage_side)[1])+)

lemma bn_select_stages:
  "reg_ok wrd \<Longrightarrow> reg_ok wrs1 \<Longrightarrow> reg_ok wrs2 \<Longrightarrow> 0 \<le> imm \<Longrightarrow> stages s0 (BNRSHI_execute wrd wrs1 wrs2 imm) (\<lambda>_. True)"
  "reg_ok wrd \<Longrightarrow> reg_ok wrs1 \<Longrightarrow> reg_ok wrs2 \<Longrightarrow> flag_group_ok fg \<Longrightarrow> 0 \<le> flag \<Longrightarrow> flag \<le> 3 \<Longrightarrow> stages s0 (BNSEL_execute wrd wrs1 wrs2 fg flag) (\<lambda>_. True)"
  unfolding execute_defs Let_def split_beta and_low_mask
  by - ((rule stages_rules | (auto intro: stage_side)[1])+)

lemma bn_mulqacc_stages:
  "reg_ok wrs1 \<Longrightarrow> reg_ok wrs2 \<Longrightarrow> 0 \<le> q1 \<Longrightarrow> q1 \<le> 3 \<Longrightarrow> 0 \<le> q2 \<Longrightarrow> q2 \<le> 3 \<Longrightarrow> 0 \<le> sh \<Longrightarrow> stages s0 (BNMULQACC_execute za wrs1 q1 wrs2 q2 sh) (\<lambda>_. True)"
  "reg_ok wrd \<Longrightarrow> reg_ok wrs1 \<Longrightarrow> reg_ok wrs2 \<Longrightarrow> 0 \<le> q1 \<Longrightarrow> q1 \<le> 3 \<Longrightarrow> 0 \<le> q2 \<Longrightarrow> q2 \<le> 3 \<Longrightarrow> 0 \<le> sh \<Longrightarrow> flag_group_ok fg \<Longrightarrow> stages s0 (BNMULQACCWO_execute za wrd wrs1 q1 wrs2 q2 sh fg) (\<lambda>_. True)"
  unfolding execute_defs Let_def split_beta and_low_mask
  by - ((rule stages_rules | (auto intro: stage_side)[1])+)

lemma bn_mulqacc_so_stages:
  assumes "reg_ok wrd" and "reg_ok wrs1" and "reg_ok wrs2" and "0 \<le> q1" and "q1 \<le> 3" and "0 \<le> q2" and "q2 \<le> 3" and "0 \<le> sh" and "flag_group_ok fg" and "0 \<le> hw" and "hw \<le> 1"
  shows "stages s0 (BNMULQACCSO_execute za wrd hw wrs1 q1 wrs2 q2 sh fg) (\<lambda>_. True)"
  using assms unfolding execute_defs Let_def split_beta and_low_mask
  by - ((rule stages_rules | (auto intro: stage_side)[1])+)

lemma execute_stages:
  assumes "insn_ok i" and "reads_rnd i \<longrightarrow> rnd_available s0"
  shows "stages s0 (execute i) (\<lambda>_. True)"
  using assms
  by (cases i)
    (simp_all add: reads_rnd_def shift_ok_def qw_ok_def reg_reg_stages reg_imm_stages imm_shift_stages addi_lui_stages
      memory_stages branch_stages loop_stages csr_stages
      bn_arith_stages bn_logic_stages
      bn_plain_stages bn_select_stages bn_mulqacc_stages bn_mulqacc_so_stages)

lemma exec_rel_refl: "State_inv s \<Longrightarrow> LoopStack_inv (loop_stack_of s) \<Longrightarrow> exec_rel s s"
  by (simp add: exec_rel_def)

text \<open>
  C34: instructions only stage.  Executing any of the 52 instructions with well-formed operands
  (and, if it reads RND, with a random value available) on a state that satisfies the invariant
  raises no exception and keeps the invariant; registers, call stack, flags, MOD, ACC, data memory
  and program counter, the external registers and the enclosing loops are exactly as they were.
\<close>

theorem execute_only_stages:
  assumes "State_inv s" and "LoopStack_inv (loop_stack_of s)"
    and "insn_ok i" and "reads_rnd i \<longrightarrow> rnd_available s"
  shows "returns (execute i s) (\<lambda>(_, s').
     State_inv s' \<and> LoopStack_inv (loop_stack_of s') \<and> State_arch s' = State_arch s \<and>
     st_ext s' = st_ext s \<and> running s' = running s \<and>
     take (length (levels (loop_stack_of s))) (levels (loop_stack_of s')) = levels (loop_stack_of s))"
  using execute_stages [OF assms(3,4)] exec_rel_refl [OF assms(1,2)]
  unfolding stages_def
  by (elim allE [of _ s] impE) (auto elim!: returns_mono simp: exec_rel_def exec_frame_def)

theorem execute_only_stages_witness:
  "returns (execute (ADDI 2 0 42) otbn_reset)
     (\<lambda>(_, s'). State_inv s' \<and> State_arch s' = State_arch otbn_reset)"
  using execute_only_stages [OF otbn_reset_inv, of "ADDI 2 0 42"] LoopStack_init_inv
  by (auto elim!: returns_mono simp: reg_ok_def reads_rnd_def)

end
