(* ===== verification/Insn_Object.thy ===== *)
theory Insn_Object
  imports Insn_Safety
begin

text \<open>
  Instruction objects as the simulator's program holds them: class \<^verbatim>\<open>OTBNInsn\<close> of \<^verbatim>\<open>sim/isa.py\<close>
  with its raw word and memoised disassembly, and class \<^verbatim>\<open>IllegalInsn\<close> of \<^verbatim>\<open>sim/decode.py\<close>.

  Only the address of the memoised disassembly is kept (\<open>disasm_pc\<close>): the text is printed and
  nothing else, but \<^verbatim>\<open>disassemble\<close> asserts that it is always asked about the same address.
\<close>

section \<open>Objects\<close>

datatype (plugins only: code) insn_body = Legal otbn_insn | IllegalInsn string

record insn_object =
  raw :: int
  body :: insn_body
  disasm_pc :: "int option"

definition OTBNInsn_init :: "int \<Rightarrow> otbn_insn \<Rightarrow> insn_object" where
  "OTBNInsn_init r i = \<lparr>raw = r, body = Legal i, disasm_pc = None\<rparr>"

definition IllegalInsn_init :: "int \<Rightarrow> int \<Rightarrow> string \<Rightarrow> insn_object" where
  "IllegalInsn_init at r msg = \<lparr>raw = r, body = IllegalInsn msg, disasm_pc = Some at\<rparr>"

definition OTBNInsn_disassemble :: "int \<Rightarrow> insn_object \<Rightarrow> insn_object result" where
  "OTBNInsn_disassemble at i =
     (case disasm_pc i of
        Some old_pc \<Rightarrow> require (at = old_pc) (Inr i)
      | None \<Rightarrow> Inr (i\<lparr>disasm_pc := Some at\<rparr>))"

definition body_pre_execute :: "insn_body \<Rightarrow> (otbn_state, bool) action" where
  "body_pre_execute b = (case b of Legal i \<Rightarrow> pre_execute i | IllegalInsn msg \<Rightarrow> retS True)"

definition body_affects_control :: "insn_body \<Rightarrow> bool" where
  "body_affects_control b = (case b of Legal i \<Rightarrow> affects_control i | IllegalInsn msg \<Rightarrow> False)"

definition IllegalInsn_execute :: "(otbn_state, unit) action" where
  "IllegalInsn_execute = stop_at_end ILLEGAL_INSN"

definition body_execute :: "insn_body \<Rightarrow> (otbn_state, unit) action" where
  "body_execute b = (case b of Legal i \<Rightarrow> execute i | IllegalInsn msg \<Rightarrow> IllegalInsn_execute)"

text \<open>The class attribute \<^verbatim>\<open>insn = insn_for_mnemonic(...)\<close> of each class, by its mnemonic.\<close>

definition insn_mnemonic :: "otbn_insn \<Rightarrow> string" where
  "insn_mnemonic i =
     (case i of
        ADD _ _ _ \<Rightarrow> ''add''
      | ADDI _ _ _ \<Rightarrow> ''addi''
      | LUI _ _ \<Rightarrow> ''lui''
      | SUB _ _ _ \<Rightarrow> ''sub''
      | SLL _ _ _ \<Rightarrow> ''sll''
      | SLLI _ _ _ \<Rightarrow> ''slli''
      | SRL _ _ _ \<Rightarrow> ''srl''
      | SRLI _ _ _ \<Rightarrow> ''srli''
      | SRA _ _ _ \<Rightarrow> ''sra''
      | SRAI _ _ _ \<Rightarrow> ''srai''
      | AND_insn _ _ _ \<Rightarrow> ''and''
      | ANDI _ _ _ \<Rightarrow> ''andi''
      | OR_insn _ _ _ \<Rightarrow> ''or''
      | ORI _ _ _ \<Rightarrow> ''ori''
      | XOR_insn _ _ _ \<Rightarrow> ''xor''
      | XORI _ _ _ \<Rightarrow> ''xori''
      | LW _ _ _ \<Rightarrow> ''lw''
      | SW _ _ _ \<Rightarrow> ''sw''
      | BEQ _ _ _ \<Rightarrow> ''beq''
      | BNE _ _ _ \<Rightarrow> ''bne''
      | JAL _ _ \<Rightarrow> ''jal''
      | JALR _ _ _ \<Rightarrow> ''jalr''
      | CSRRS _ _ _ \<Rightarrow> ''csrrs''
      | CSRRW _ _ _ \<Rightarrow> ''csrrw''
      | ECALL \<Rightarrow> ''ecall''
      | LOOP _ _ \<Rightarrow> ''loop''
      | LOOPI _ _ \<Rightarrow> ''loopi''
      | BNADD _ _ _ _ _ _ \<Rightarrow> ''bn.add''
      | BNADDC _ _ _ _ _ _ \<Rightarrow> ''bn.addc''
      | BNADDI _ _ _ _ \<Rightarrow> ''bn.addi''
      | BNADDM _ _ _ \<Rightarrow> ''bn.addm''
      | BNMULQACC _ _ _ _ _ _ \<Rightarrow> ''bn.mulqacc''
      | BNMULQACCWO _ _ _ _ _ _ _ _ \<Rightarrow> ''bn.mulqacc.wo''
      | BNMULQACCSO _ _ _ _ _ _ _ _ _ \<Rightarrow> ''bn.mulqacc.so''
      | BNSUB _ _ _ _ _ _ \<Rightarrow> ''bn.sub''
      | BNSUBB _ _ _ _ _ _ \<Rightarrow> ''bn.subb''
      | BNSUBI _ _ _ _ \<Rightarrow> ''bn.subi''
      | BNSUBM _ _ _ \<Rightarrow> ''bn.subm''
      | BNAND _ _ _ _ _ _ \<Rightarrow> ''bn.and''
      | BNOR _ _ _ _ _ _ \<Rightarrow> ''bn.or''
      | BNNOT _ _ _ _ _ \<Rightarrow> ''bn.not''
      | BNXOR _ _ _ _ _ _ \<Rightarrow> ''bn.xor''
      | BNRSHI _ _ _ _ \<Rightarrow> ''bn.rshi''
      | BNSEL _ _ _ _ _ \<Rightarrow> ''bn.sel''
      | BNCMP _ _ _ _ _ \<Rightarrow> ''bn.cmp''
      | BNCMPB _ _ _ _ _ \<Rightarrow> ''bn.cmpb''
      | BNLID _ _ _ _ _ \<Rightarrow> ''bn.lid''
      | BNSID _ _ _ _ _ \<Rightarrow> ''bn.sid''
      | BNMOV _ _ \<Rightarrow> ''bn.mov''
      | BNMOVR _ _ _ _ \<Rightarrow> ''bn.movr''
      | BNWSRR _ _ \<Rightarrow> ''bn.wsrr''
      | BNWSRW _ _ \<Rightarrow> ''bn.wsrw'')"

definition body_mnemonic :: "insn_body \<Rightarrow> string" where
  "body_mnemonic b = (case b of Legal i \<Rightarrow> insn_mnemonic i | IllegalInsn msg \<Rightarrow> ''dummy-insn'')"

section \<open>Objects stage\<close>

definition body_ok :: "insn_body \<Rightarrow> bool" where
  "body_ok b = (case b of Legal i \<Rightarrow> insn_ok i | IllegalInsn msg \<Rightarrow> True)"

definition body_reads_rnd :: "insn_body \<Rightarrow> bool" where
  "body_reads_rnd b = (case b of Legal i \<Rightarrow> reads_rnd i | IllegalInsn msg \<Rightarrow> False)"

lemma body_execute_stages:
  assumes "body_ok b" and "body_reads_rnd b \<longrightarrow> rnd_available s0"
  shows "stages s0 (body_execute b) (\<lambda>_. True)"
  using assms
  by (cases b)
    (auto simp: body_ok_def body_reads_rnd_def body_execute_def IllegalInsn_execute_def
      intro: execute_stages stages_stop_at_end err_bits_fit)

end
