(* ===== verification/Otbn_Stats.thy ===== *)
theory Otbn_Stats
  imports Insn_Object
begin

text \<open>
  Execution statistics: class \<^verbatim>\<open>ExecutionStats\<close> of \<^verbatim>\<open>sim/stats.py\<close>.

  A \<^verbatim>\<open>collections.Counter\<close> is an association list in insertion order; incrementing a missing key
  starts it at zero.  The analysis and printing of the statistics (\<^verbatim>\<open>ExecutionStatAnalyzer\<close>) reads
  an ELF file and builds a report; it is not modelled.
\<close>

section \<open>Counters\<close>

type_synonym 'k counter = "('k \<times> int) list"

fun counter_incr :: "'k \<Rightarrow> 'k counter \<Rightarrow> 'k counter" where
  "counter_incr k [] = [(k, 1)]"
| "counter_incr k ((k', n) # c) = (if k = k' then (k', n + 1) # c else (k', n) # counter_incr k c)"

definition counter_get :: "'k counter \<Rightarrow> 'k \<Rightarrow> int" where
  "counter_get c k = (case map_of c k of Some n \<Rightarrow> n | None \<Rightarrow> 0)"

definition counter_total :: "'k counter \<Rightarrow> int" where
  "counter_total c = sum_list (map snd c)"

definition counter_weight :: "int counter \<Rightarrow> int" where
  "counter_weight c = sum_list (map (\<lambda>(len, n). len * n) c)"

lemma counter_get_incr:
  "counter_get (counter_incr k c) k' = counter_get c k' + (if k = k' then 1 else 0)"
  by (induction k c rule: counter_incr.induct) (auto simp: counter_get_def)

lemma counter_total_incr [simp]: "counter_total (counter_incr k c) = counter_total c + 1"
  by (induction k c rule: counter_incr.induct) (auto simp: counter_total_def)

lemma counter_weight_incr [simp]: "counter_weight (counter_incr k c) = counter_weight c + k"
  by (induction k c rule: counter_incr.induct) (auto simp: counter_weight_def algebra_simps)

section \<open>Data and operations\<close>

record call_record =
  call_site :: int
  caller_func :: int
  callee_func :: int

record loop_record =
  loop_addr :: int
  loop_len :: int
  iterations :: int

record exec_stats =
  stats_program :: "insn_object list"
  stall_count :: int
  insn_histo :: "string counter"
  func_calls :: "call_record list"
  loops_run :: "loop_record list"
  basic_block_histo :: "int counter"
  ext_basic_block_histo :: "int counter"
  current_basic_block_len :: int
  current_ext_basic_block_len :: int

definition ExecutionStats_init :: "insn_object list \<Rightarrow> exec_stats" where
  "ExecutionStats_init prog =
     \<lparr>stats_program = prog, stall_count = 0, insn_histo = [], func_calls = [], loops_run = [],
      basic_block_histo = [], ext_basic_block_histo = [], current_basic_block_len = 0,
      current_ext_basic_block_len = 0\<rparr>"

definition get_insn_count :: "exec_stats \<Rightarrow> int" where
  "get_insn_count st = counter_total (insn_histo st)"

definition record_stall :: "exec_stats \<Rightarrow> exec_stats" where
  "record_stall st = st\<lparr>stall_count := stall_count st + 1\<rparr>"

definition insn_at_addr :: "int \<Rightarrow> exec_stats \<Rightarrow> insn_object result" where
  "insn_at_addr addr st =
     require (addr mod 4 = 0)
       (require (0 \<le> addr) (py_getitem (stats_program st) (drop_bit 2 addr)))"

text \<open>The \<^verbatim>\<open>isinstance\<close> tests, with the attributes read under them.\<close>

definition is_jump :: "insn_body \<Rightarrow> int option" where
  "is_jump b = (case b of Legal (JAL grd offset) \<Rightarrow> Some grd | Legal (JALR grd grs1 offset) \<Rightarrow> Some grd
                        | _ \<Rightarrow> None)"

definition is_branch :: "insn_body \<Rightarrow> bool" where
  "is_branch b = (case b of Legal (BEQ _ _ _) \<Rightarrow> True | Legal (BNE _ _ _) \<Rightarrow> True | _ \<Rightarrow> False)"

definition is_loop :: "insn_body \<Rightarrow> int option" where
  "is_loop b = (case b of Legal (LOOP grs bodysize) \<Rightarrow> Some bodysize
                        | Legal (LOOPI n bodysize) \<Rightarrow> Some bodysize | _ \<Rightarrow> None)"

definition is_LOOP :: "insn_body \<Rightarrow> bool" where
  "is_LOOP b = (case b of Legal (LOOP _ _) \<Rightarrow> True | _ \<Rightarrow> False)"

definition is_ECALL :: "insn_body \<Rightarrow> bool" where
  "is_ECALL b = (case b of Legal ECALL \<Rightarrow> True | _ \<Rightarrow> False)"

definition record_call :: "insn_body \<Rightarrow> otbn_state \<Rightarrow> exec_stats \<Rightarrow> exec_stats result" where
  "record_call b s st =
     (if is_jump b = Some 1 then
        bindR (case State_peek_call_stack s of [] \<Rightarrow> State_get_start_addr s | v # _ \<Rightarrow> Inr v) (\<lambda>caller.
        Inr (st\<lparr>func_calls := func_calls st @
               [\<lparr>call_site = pc s, caller_func = caller, callee_func = State_get_next_pc s\<rparr>]\<rparr>))
      else Inr st)"

definition record_loop :: "insn_body \<Rightarrow> otbn_state \<Rightarrow> exec_stats \<Rightarrow> exec_stats result" where
  "record_loop b s st =
     (case is_loop b of
        Some bodysize \<Rightarrow>
          require (State_in_loop s)
            (Inr (st\<lparr>loops_run := loops_run st @
                   [\<lparr>loop_addr = pc s, loop_len = bodysize,
                     iterations = loop_count (last (levels (loop_stack_of s)))\<rparr>]\<rparr>))
      | None \<Rightarrow> Inr st)"

definition record_basic_block :: "bool \<Rightarrow> exec_stats \<Rightarrow> exec_stats" where
  "record_basic_block ends st =
     (let n = current_basic_block_len st + 1
      in if ends
         then st\<lparr>basic_block_histo := counter_incr n (basic_block_histo st), current_basic_block_len := 0\<rparr>
         else st\<lparr>current_basic_block_len := n\<rparr>)"

definition record_ext_basic_block :: "bool \<Rightarrow> exec_stats \<Rightarrow> exec_stats" where
  "record_ext_basic_block ends st =
     (let n = current_ext_basic_block_len st + 1
      in if ends
         then st\<lparr>ext_basic_block_histo := counter_incr n (ext_basic_block_histo st),
                 current_ext_basic_block_len := 0\<rparr>
         else st\<lparr>current_ext_basic_block_len := n\<rparr>)"

definition record_insn :: "insn_object \<Rightarrow> otbn_state \<Rightarrow> exec_stats \<Rightarrow> exec_stats result" where
  "record_insn insn s st =
     (let b = body insn; st = st\<lparr>insn_histo := counter_incr (body_mnemonic b) (insn_histo st)\<rparr>
      in bindR (record_call b s st) (\<lambda>st.
         bindR (record_loop b s st) (\<lambda>st.
         let last_in_body = LoopStack_is_last_insn (pc s) (loop_stack_of s);
             st = record_basic_block (is_jump b \<noteq> None \<or> is_branch b \<or> last_in_body \<or> is_ECALL b) st
         in bindR (if last_in_body then
                     bindR (LoopLevel_get_loop_insn_addr (last (levels (loop_stack_of s)))) (\<lambda>addr.
                     bindR (insn_at_addr addr st) (\<lambda>i. Inr (is_LOOP (body i))))
                   else Inr False) (\<lambda>finishing_loop.
            Inr (record_ext_basic_block (is_branch b \<or> finishing_loop \<or> is_ECALL b) st)))))"

end
