(* ===== verification/Otbn_Sim.thy ===== *)
theory Otbn_Sim
  imports Otbn_Stats
begin

text \<open>
  The simulator: class \<^verbatim>\<open>OTBNSim\<close> of \<^verbatim>\<open>sim/sim.py\<close>.

  \<open>OTBNSim_step\<close> is one clock cycle: a stall cycle or a whole instruction.  \<open>OTBNSim_run\<close> is the
  loop of \<^verbatim>\<open>run\<close>; it need not end, so it is a partial function whose value is \<open>None\<close> when the loop
  runs forever.  Printing the trace (\<^verbatim>\<open>verbose\<close>) has no effect on the state and is left out.
\<close>

section \<open>Data and operations\<close>

record otbn_sim =
  sim_state :: otbn_state
  program :: "insn_object list"
  stats :: "exec_stats option"

definition TEST_RND_DATA :: int where
  "TEST_RND_DATA = 0x9999999999999999999999999999999999999999999999999999999999999999"

definition OTBNSim_init :: "int \<Rightarrow> int \<Rightarrow> reg_desc list \<Rightarrow> otbn_sim result" where
  "OTBNSim_init imem_sz dmem_sz block =
     bindR (State_init imem_sz dmem_sz block) (\<lambda>s.
     Inr \<lparr>sim_state = s, program = [], stats = None\<rparr>)"

definition OTBNSim_load_program :: "insn_object list \<Rightarrow> otbn_sim \<Rightarrow> otbn_sim" where
  "OTBNSim_load_program prog sim = sim\<lparr>program := prog\<rparr>"

definition OTBNSim_load_data :: "byte list \<Rightarrow> otbn_sim \<Rightarrow> otbn_sim result" where
  "OTBNSim_load_data bs sim =
     bindR (Dmem_load_le_words bs (st_dmem (sim_state sim))) (\<lambda>d.
     Inr (sim\<lparr>sim_state := (sim_state sim)\<lparr>st_dmem := d\<rparr>\<rparr>))"

definition OTBNSim_start :: "otbn_sim \<Rightarrow> otbn_sim result" where
  "OTBNSim_start sim =
     (let sim = sim\<lparr>stats := Some (ExecutionStats_init (program sim))\<rparr>
      in bindR (State_start (sim_state sim)) (\<lambda>s. Inr (sim\<lparr>sim_state := s\<rparr>)))"

text \<open>The instruction at the program counter.\<close>

definition OTBNSim_fetch :: "otbn_sim \<Rightarrow> insn_object result" where
  "OTBNSim_fetch sim =
     (let word_pc = drop_bit 2 (pc (sim_state sim))
      in if word_pc \<ge> int (length (program sim)) then Inl RuntimeError
         else py_getitem (program sim) word_pc)"

text \<open>Whether this cycle is a stall.\<close>

definition OTBNSim_check_stall :: "insn_object \<Rightarrow> (otbn_state, bool) action" where
  "OTBNSim_check_stall insn s =
     (if non_insn_stall s then Inr (True, s)
      else bindR (body_pre_execute (body insn) s) (\<lambda>(ok, s). Inr (\<not> ok, s)))"

text \<open>The two kinds of cycle, on the state and the statistics.\<close>

definition OTBNSim_stall_cycle :: "bool \<Rightarrow> otbn_state \<Rightarrow> exec_stats \<Rightarrow> (otbn_state \<times> exec_stats) result" where
  "OTBNSim_stall_cycle collect_stats s st =
     bindR (State_commit True s) (\<lambda>s. Inr (s, if collect_stats then record_stall st else st))"

definition OTBNSim_insn_cycle :: "bool \<Rightarrow> insn_object \<Rightarrow> otbn_state \<Rightarrow> exec_stats \<Rightarrow>
    (trace list \<times> otbn_state \<times> exec_stats) result" where
  "OTBNSim_insn_cycle collect_stats insn s0 st =
     (let pc_before = pc s0; s = State_pre_insn (body_affects_control (body insn)) s0
      in bindR (body_execute (body insn) s) (\<lambda>(_, s).
         bindR (State_post_insn s) (\<lambda>s.
         bindR (if collect_stats then record_insn insn s st else Inr st) (\<lambda>st.
         bindR (if pending_halt s then State_stop s else Inr s) (\<lambda>s.
         bindR (State_changes s) (\<lambda>changes.
         require (pc_before = pc s)
           (bindR (State_commit False s) (\<lambda>s. Inr (changes, s, st)))))))))"

definition OTBNSim_step :: "bool \<Rightarrow> (otbn_sim, insn_object option \<times> trace list) action" where
  "OTBNSim_step collect_stats sim =
     (if \<not> running (sim_state sim) then Inr ((None, []), sim)
      else case stats sim of None \<Rightarrow> Inl AssertionError
       | Some st \<Rightarrow>
          let pc_before = pc (sim_state sim)
          in bindR (OTBNSim_fetch sim) (\<lambda>insn.
             bindR (OTBNSim_check_stall insn (sim_state sim)) (\<lambda>(sim_stalled, s).
             if sim_stalled then
               bindR (OTBNSim_stall_cycle collect_stats s st) (\<lambda>(s, st).
               Inr ((None, []), sim\<lparr>sim_state := s, stats := Some st\<rparr>))
             else
               bindR (OTBNSim_insn_cycle collect_stats insn s st) (\<lambda>(changes, s, st).
               bindR (OTBNInsn_disassemble pc_before insn) (\<lambda>insn.
               bindR (py_setitem (program sim) (drop_bit 2 pc_before) insn) (\<lambda>prog.
               Inr ((Some insn, changes),
                    sim\<lparr>sim_state := s, program := prog, stats := Some st\<rparr>)))))))"

text \<open>One iteration of the loop in \<^verbatim>\<open>run\<close>, and the loop.\<close>

definition OTBNSim_run_step :: "bool \<Rightarrow> otbn_sim \<Rightarrow> otbn_sim result" where
  "OTBNSim_run_step collect_stats sim =
     bindR (OTBNSim_step collect_stats sim) (\<lambda>(_, sim).
     let s = sim_state sim
     in if pending_request (RND (st_wsrs s)) then
          bindR (RandWSR_set_unsigned TEST_RND_DATA (RND (st_wsrs s))) (\<lambda>r.
          Inr (sim\<lparr>sim_state := s\<lparr>st_wsrs := (st_wsrs s)\<lparr>RND := r\<rparr>\<rparr>\<rparr>))
        else Inr sim)"

partial_function (option) OTBNSim_run_loop :: "bool \<Rightarrow> int \<Rightarrow> otbn_sim \<Rightarrow> (int \<times> otbn_sim) result option" where
  "OTBNSim_run_loop collect_stats insn_count sim =
     (if running (sim_state sim) then
        case OTBNSim_run_step collect_stats sim of
          Inl e \<Rightarrow> Some (Inl e)
        | Inr sim' \<Rightarrow> OTBNSim_run_loop collect_stats (insn_count + 1) sim'
      else Some (Inr (insn_count, sim)))"

definition OTBNSim_run :: "bool \<Rightarrow> otbn_sim \<Rightarrow> (int \<times> otbn_sim) result option" where
  "OTBNSim_run collect_stats sim =
     OTBNSim_run_loop collect_stats 0
       (sim\<lparr>sim_state := State_set_urnd_reseed_complete (sim_state sim)\<rparr>)"

definition OTBNSim_dump_data :: "otbn_sim \<Rightarrow> byte list result" where
  "OTBNSim_dump_data sim = Dmem_dump_le_words (st_dmem (sim_state sim))"

end
