(* ===== verification/Sim_Safety.thy ===== *)
theory Sim_Safety
  imports Otbn_Sim
begin

text \<open>
  Safety of the simulator.  \<open>cycle_ok\<close> is the invariant of the machine state between two clock
  cycles.  The lemmas show that a cycle on a program that fills the instruction memory never
  raises and keeps the invariant, what a stall cycle, a completed instruction and a halting
  instruction do to the architectural state, and how a run starts.
\<close>

section \<open>The invariant between cycles\<close>

definition loops_aligned :: "loop_stack \<Rightarrow> bool" where
  "loops_aligned ls \<longleftrightarrow> list_all (\<lambda>l. start_addr l mod 4 = 0) (levels ls)"

definition running_ok :: "otbn_state \<Rightarrow> bool" where
  "running_ok s \<longleftrightarrow>
     LoopStack_inv (loop_stack_of s) \<and> \<not> loop_err_flag (loop_stack_of s) \<and>
     loops_aligned (loop_stack_of s) \<and> err_bits s = 0 \<and> \<not> pending_halt s \<and>
     non_insn_stall s = start_stall s \<and> (urnd_stall s \<longrightarrow> start_stall s) \<and>
     (\<not> start_stall s \<longrightarrow> ExtRegs_quiet (st_ext s)) \<and> pc s mod 4 = 0 \<and> pc s < imem_size s"

definition cycle_ok :: "otbn_state \<Rightarrow> bool" where
  "cycle_ok s \<longleftrightarrow> State_inv s \<and> State_quiet s \<and> (running s \<longrightarrow> running_ok s)"

lemma loops_aligned_set: "loops_aligned ls \<longleftrightarrow> (\<forall>a \<in> set (map start_addr (levels ls)). a mod 4 = 0)"
  by (auto simp: loops_aligned_def list_all_iff)

lemma loops_aligned_cong:
  "map start_addr (levels ls) = map start_addr (levels ls') \<Longrightarrow> loops_aligned ls = loops_aligned ls'"
  by (simp add: loops_aligned_set)

lemma take_drop_Ball: "take n xs = ys \<Longrightarrow> list_all P ys \<Longrightarrow> list_all P (drop n xs) \<Longrightarrow> list_all P xs"
  by (metis append_take_drop_id list_all_append)

section \<open>The body of an instruction cycle\<close>

text \<open>The state in which an instruction is either committed or stopped.\<close>

definition insn_outcome :: "insn_body \<Rightarrow> otbn_state \<Rightarrow> otbn_state result" where
  "insn_outcome b s =
     bindR (body_execute b (State_pre_insn (body_affects_control b) s)) (\<lambda>(_, s). State_post_insn s)"

lemma State_pre_insn_exec_rel:
  assumes "State_inv s" and "LoopStack_inv (loop_stack_of s)"
  shows "exec_rel (State_pre_insn a s) (State_pre_insn a s)"
    and "levels (loop_stack_of (State_pre_insn a s)) = levels (loop_stack_of s)"
    and "State_arch (State_pre_insn a s) = State_arch s"
    and "exec_frame (State_pre_insn a s) = exec_frame s"
proof -
  have l: "levels (LoopStack_check_insn p a ls) = levels ls" for p ls
    by (simp add: LoopStack_check_insn_def)
  show "exec_rel (State_pre_insn a s) (State_pre_insn a s)"
    using assms LoopStack_check_insn_inv [of "loop_stack_of s" "pc s" a]
    by (intro exec_rel_refl) (simp_all add: State_inv_def State_pre_insn_def l)
  show "levels (loop_stack_of (State_pre_insn a s)) = levels (loop_stack_of s)"
    "State_arch (State_pre_insn a s) = State_arch s"
    "exec_frame (State_pre_insn a s) = exec_frame s"
    by (simp_all add: State_pre_insn_def State_arch_def exec_frame_def l)
qed

definition outcome_ok :: "otbn_state \<Rightarrow> otbn_state \<Rightarrow> bool" where
  "outcome_ok s s2 \<longleftrightarrow>
     State_inv s2 \<and> State_arch s2 = State_arch s \<and> exec_frame s2 = exec_frame s \<and>
     LoopStack_inv (loop_stack_of s2) \<and> loops_aligned (loop_stack_of s2) \<and>
     (err_bits s2 \<noteq> 0 \<longrightarrow> pending_halt s2) \<and>
     (\<not> pending_halt s2 \<longrightarrow>
        GPRs_ready (st_gprs s2) \<and> Dmem_ready (st_dmem s2) \<and> LoopStack_ready (loop_stack_of s2) \<and>
        State_get_next_pc s2 mod 4 = 0 \<and> State_get_next_pc s2 < imem_size s2)"

lemma body_execute_rel:
  assumes "cycle_ok s" and "running s" and "body_ok b" and "body_reads_rnd b \<longrightarrow> rnd_available s"
  shows "returns (body_execute b (State_pre_insn (body_affects_control b) s)) (\<lambda>(_, s1).
     exec_rel (State_pre_insn (body_affects_control b) s) s1)"
proof -
  have i: "State_inv s" "LoopStack_inv (loop_stack_of s)"
    using assms(1,2) by (simp_all add: cycle_ok_def running_ok_def)
  note p = State_pre_insn_exec_rel [OF i, of "body_affects_control b"]
  have "rnd_available (State_pre_insn (body_affects_control b) s) = rnd_available s"
    by (simp add: rnd_available_def State_pre_insn_def)
  then have "stages (State_pre_insn (body_affects_control b) s) (body_execute b) (\<lambda>_. True)"
    using assms(3,4) by (intro body_execute_stages) simp_all
  then show ?thesis
    using p(1) unfolding stages_def by (auto elim!: returns_mono)
qed

lemma insn_outcome_ok:
  assumes "cycle_ok s" and "running s" and "body_ok b" and "body_reads_rnd b \<longrightarrow> rnd_available s"
  shows "returns (insn_outcome b s) (outcome_ok s)"
  unfolding insn_outcome_def
proof (rule returns_bindRI [OF body_execute_rel [OF assms]], clarify)
  fix u s1
  assume r: "exec_rel (State_pre_insn (body_affects_control b) s) s1" (is "exec_rel ?s s1")
  have ok: "State_inv s" "running_ok s"
    using assms(1,2) by (simp_all add: cycle_ok_def)
  then have al: "list_all (\<lambda>l. start_addr l mod 4 = 0) (levels (loop_stack_of s))" "pc s mod 4 = 0"
    "pc s < imem_size s" "LoopStack_inv (loop_stack_of s)"
    by (simp_all add: running_ok_def loops_aligned_def)
  note p = State_pre_insn_exec_rel [OF ok(1) al(4), of "body_affects_control b"]
  have s1: "State_inv s1" "LoopStack_inv (loop_stack_of s1)" "State_arch s1 = State_arch s"
    "exec_frame s1 = exec_frame s"
    using r p by (simp_all add: exec_rel_def)
  have pcs: "pc ?s = pc s" by (simp add: State_pre_insn_def)
  have pc1: "pc s1 = pc s" "imem_size s1 = imem_size s" using s1(4) by (simp_all add: exec_frame_def)
  let ?n = "length (levels (loop_stack_of s))"
  have pre: "take ?n (levels (loop_stack_of s1)) = levels (loop_stack_of s)"
    "list_all (\<lambda>l. start_addr l = pc s + 4) (drop ?n (levels (loop_stack_of s1)))"
    using r p(2) pcs by (simp_all add: exec_rel_def)
  have "(pc s + 4) mod 4 = 0" using al(2) by presburger
  then have "list_all (\<lambda>l. start_addr l mod 4 = 0) (drop ?n (levels (loop_stack_of s1)))"
    using pre(2) by (simp add: list_all_iff)
  then have al1: "loops_aligned (loop_stack_of s1)"
    unfolding loops_aligned_def by (rule take_drop_Ball [OF pre(1) al(1)])
  show "returns (State_post_insn s1) (outcome_ok s)"
  proof (rule returns_mono [OF State_post_insn_ok [OF s1(1,2)]], elim conjE exE)
    fix s2 ls ov
    assume s2: "State_inv s2" "State_arch s2 = State_arch s1"
      "err_bits s2 = err_bits s1 OR pc_err_bits s1 OR GPRs_err_bits (GPRs_post_insn (st_gprs s1)) OR
        Dmem_err_bits (st_dmem s1) OR LoopStack_err_bits (loop_stack_of s1)"
      "pending_halt s2 = (pending_halt s1 \<or> err_bits s2 \<noteq> 0)"
      "err_bits s2 = 0 \<longrightarrow> GPRs_ready (st_gprs s2) \<and> Dmem_ready (st_dmem s2) \<and>
         LoopStack_ready (loop_stack_of s2) \<and> st_gprs s2 = st_gprs s1"
      "LoopStack_inv (loop_stack_of s2)"
      "map start_addr (levels (loop_stack_of s2)) = map start_addr (levels (loop_stack_of s1))"
      "pc_next_override s2 \<noteq> pc_next_override s1 \<longrightarrow> State_get_next_pc s2 \<le> pc s1 \<and>
         State_get_next_pc s2 \<in> set (map start_addr (levels (loop_stack_of s1)))"
      and eq: "s2 = s1\<lparr>loop_stack_of := ls, pc_next_override := ov, st_gprs := GPRs_post_insn (st_gprs s1),
                     err_bits := err_bits s2, pending_halt := pending_halt s2\<rparr>"
    have fr: "exec_frame s2 = exec_frame s1"
      by (subst eq) (simp add: exec_frame_def)
    then have pc2: "pc s2 = pc s" "imem_size s2 = imem_size s"
      using pc1 by (simp_all add: exec_frame_def)
    have f: "0 \<le> err_bits s1" "0 \<le> pc_err_bits s1" "0 \<le> GPRs_err_bits (GPRs_post_insn (st_gprs s1))"
      "0 \<le> Dmem_err_bits (st_dmem s1)" "0 \<le> LoopStack_err_bits (loop_stack_of s1)"
      using exec_rel_control_values(2) [OF r, THEN fits_nonneg] err_bits_fit [THEN fits_nonneg]
      by (simp_all add: pc_err_bits_def GPRs_err_bits_def Dmem_err_bits_def
          LoopStack_err_bits_def)
    have np: "State_get_next_pc s2 mod 4 = 0 \<and> State_get_next_pc s2 < imem_size s2" if "err_bits s2 = 0"
    proof (cases "pc_next_override s2 = pc_next_override s1")
      case True
      have "pc_err_bits s1 = 0" using that f unfolding s2(3) by (simp add: or_eq_zero)
      then have "State_get_next_pc s1 mod 4 = 0 \<and> State_get_next_pc s1 < imem_size s1"
        by (auto simp: pc_err_bits_def err_bits_nonzero split: if_splits)
      then show ?thesis using True pc1 pc2 by (simp add: State_get_next_pc_def split: option.splits)
    next
      case False
      then show ?thesis using s2(8) al1 al(3) pc1 pc2 by (auto simp: loops_aligned_set)
    qed
    show "outcome_ok s s2"
      unfolding outcome_ok_def
      using s2(1,2,4,5,6) s1(3,4) fr np al1 loops_aligned_cong [OF s2(7)] by auto
  qed
qed

section \<open>Completing and halting\<close>

lemma outcome_frame:
  assumes "outcome_ok s s2"
  shows "pc s2 = pc s" and "running s2 = running s" and "st_ext s2 = st_ext s" and "imem_size s2 = imem_size s"
    and "urnd_stall s2 = urnd_stall s" and "start_stall s2 = start_stall s"
    and "non_insn_stall s2 = non_insn_stall s"
  using assms by (simp_all add: outcome_ok_def exec_frame_def)

lemma LoopStack_commit_aligned:
  "LoopStack_commit ls = Inr ls' \<Longrightarrow> loops_aligned ls \<Longrightarrow> loops_aligned ls'"
  unfolding loops_aligned_def by (rule LoopStack_commit_levels)

text \<open>An instruction that does not halt: its staged effects become the architectural state.\<close>

lemma outcome_commit:
  assumes "cycle_ok s" and "running s" and "\<not> start_stall s" and "outcome_ok s s2" and "\<not> pending_halt s2"
  shows "returns (State_commit False s2) (\<lambda>s'.
    cycle_ok s' \<and> running s' \<and> State_arch s' = State_pend s2 \<and> ExtRegs_cur (st_ext s') = ExtRegs_cur (st_ext s) \<and>
    imem_size s' = imem_size s \<and> \<not> non_insn_stall s' \<and> \<not> urnd_stall s' \<and>
    load_ready (st_dmem s') = load_begun (st_dmem s) \<and> \<not> load_begun (st_dmem s'))"
proof -
  note fr = outcome_frame [OF assms(4)]
  have o: "State_inv s2" "err_bits s2 = 0" "GPRs_ready (st_gprs s2)" "Dmem_ready (st_dmem s2)"
    "LoopStack_ready (loop_stack_of s2)" "State_get_next_pc s2 mod 4 = 0" "State_get_next_pc s2 < imem_size s2"
    "LoopStack_inv (loop_stack_of s2)" "loops_aligned (loop_stack_of s2)"
    using assms(4,5) by (auto simp: outcome_ok_def)
  have s: "running_ok s" "\<not> urnd_stall s" "ExtRegs_quiet (st_ext s)"
    using assms(1-3) by (auto simp: cycle_ok_def running_ok_def)
  have rdy: "State_ready s2" using o assms(5) fr s by (simp add: State_ready_def)
  from State_commit_eq [OF o(1) rdy] obtain d g ls w where
    eq: "State_commit False s2 = Inr ((stall_cleared (rnd_taken s2))\<lparr>st_dmem := d,
       st_gprs := g, pc := State_get_next_pc s2, pc_next_override := None, loop_stack_of := ls,
       st_ext := ExtRegs_commit (st_ext s2), st_wsrs := WSRFile_commit (st_wsrs (rnd_taken s2)),
       st_flags := FlagGroups_commit (st_flags s2), st_wdrs := w\<rparr>)" (is "_ = Inr ?s'")
    and cd: "Dmem_commit False (st_dmem s2) = Inr d" and c: "LoopStack_commit (loop_stack_of s2) = Inr ls" .
  have dok: "Dmem_ok (st_dmem s2)" "\<not> dmem_err_flag (st_dmem s2)"
    using o(1,4) by (simp_all add: State_inv_def Dmem_ready_def)
  obtain d' where d': "Dmem_commit False (st_dmem s2) = Inr d'" "load_begun d' = False"
    "load_ready d' = load_begun (st_dmem s2)"
    by (rule Dmem_ok_commit [OF dok])
  have "load_begun (st_dmem s2) = load_begun (st_dmem s)"
    using assms(4) by (simp add: outcome_ok_def exec_frame_def)
  then have dm: "load_ready d = load_begun (st_dmem s)" "\<not> load_begun d"
    using cd d' by simp_all
  have law: "State_inv ?s'" "State_quiet ?s'" "State_arch ?s' = State_pend s2"
    using State_commit_law [OF o(1) rdy] by (simp_all add: eq)
  have ls: "LoopStack_inv ls" "\<not> loop_err_flag ls"
    using LoopStack_commit_inv [OF o(8,5)] c by simp_all
  have inv: "ExtRegs_inv otbn_shape (st_ext s)" using assms(1) by (simp add: cycle_ok_def State_inv_def)
  have e: "ExtRegs_cur (ExtRegs_commit (st_ext s)) = ExtRegs_cur (st_ext s)" "ExtRegs_quiet (ExtRegs_commit (st_ext s))"
    using ExtRegs_commit_law [OF inv] ExtRegs_quiet_pend [OF inv s(3)] by simp_all
  have "running_ok ?s'"
    using s(1,2) assms(3,5) o(2,6,7) ls LoopStack_commit_aligned [OF c o(9)] fr e by (simp add: running_ok_def)
  then show ?thesis
    using law e fr assms(2,3) s(1,2) dm by (simp add: eq cycle_ok_def running_ok_def)
qed

text \<open>
  An instruction that halts, because of an error or because it is \<^verbatim>\<open>ECALL\<close>: nothing architectural
  changes, the machine stops and the host sees the interrupt, the idle status and the error bits.
\<close>

lemma outcome_halt:
  assumes "cycle_ok s" and "outcome_ok s s2" and "pending_halt s2"
  shows "returns (State_stop s2) (\<lambda>s3. State_inv s3 \<and> pc s3 = pc s \<and>
    returns (State_commit False s3) (\<lambda>s'. cycle_ok s' \<and> \<not> running s' \<and> State_arch s' = State_arch s \<and>
      imem_size s' = imem_size s \<and>
      ExtRegs_cur (st_ext s') = (ExtRegs_cur (st_ext s))
        (''INTR_STATE'' \<mapsto> 1, ''STATUS'' \<mapsto> 0, ''ERR_BITS'' \<mapsto> err_bits s2)))"
proof -
  note fr = outcome_frame [OF assms(2)]
  have o: "State_inv s2" "State_arch s2 = State_arch s"
    using assms(2) by (simp_all add: outcome_ok_def)
  show ?thesis
  proof (rule returns_mono [OF State_stop_ok [OF o(1)]], elim conjE, intro conjI)
    fix s3
    assume s3: "State_inv s3" "State_quiet s3" "State_arch s3 = State_arch s2" "\<not> running s3"
      "pending_halt s3 = pending_halt s2" "imem_size s3 = imem_size s2"
      "ExtRegs_pend (st_ext s3) = (ExtRegs_cur (st_ext s2))
        (''INTR_STATE'' \<mapsto> 1, ''STATUS'' \<mapsto> 0, ''ERR_BITS'' \<mapsto> err_bits s2)"
    show "State_inv s3" by (rule s3)
    show "pc s3 = pc s" using s3(3) o(2) by (simp add: State_arch_def)
    have inv: "ExtRegs_inv otbn_shape (st_ext s3)" using s3(1) by (simp add: State_inv_def)
    show "returns (State_commit False s3) (\<lambda>s'. cycle_ok s' \<and> \<not> running s' \<and> State_arch s' = State_arch s \<and>
      imem_size s' = imem_size s \<and>
      ExtRegs_cur (st_ext s') = (ExtRegs_cur (st_ext s))
        (''INTR_STATE'' \<mapsto> 1, ''STATUS'' \<mapsto> 0, ''ERR_BITS'' \<mapsto> err_bits s2))"
      using s3 assms(3) o(2) fr ExtRegs_commit_law [OF inv]
      by (simp add: State_commit_def cycle_ok_def State_inv_def State_quiet_def State_arch_def)
  qed
qed

section \<open>The instruction cycle\<close>

text \<open>What an instruction cycle from \<open>s\<close> to \<open>s'\<close> does, given the state \<open>s2\<close> before the commit.\<close>

definition insn_effect :: "otbn_state \<Rightarrow> otbn_state \<Rightarrow> otbn_state \<Rightarrow> bool" where
  "insn_effect s s2 s' \<longleftrightarrow>
     (if pending_halt s2
      then \<not> running s' \<and> State_arch s' = State_arch s \<and>
           ExtRegs_cur (st_ext s') = (ExtRegs_cur (st_ext s))
             (''INTR_STATE'' \<mapsto> 1, ''STATUS'' \<mapsto> 0, ''ERR_BITS'' \<mapsto> err_bits s2)
      else running s' \<and> \<not> non_insn_stall s' \<and> \<not> urnd_stall s' \<and> State_arch s' = State_pend s2 \<and>
           ExtRegs_cur (st_ext s') = ExtRegs_cur (st_ext s) \<and>
           load_ready (st_dmem s') = load_begun (st_dmem s) \<and> \<not> load_begun (st_dmem s'))"

lemma insn_cycle_unfold:
  "OTBNSim_insn_cycle collect_stats insn s st =
     bindR (insn_outcome (body insn) s) (\<lambda>s2.
     bindR (if collect_stats then record_insn insn s2 st else Inr st) (\<lambda>st.
     bindR (if pending_halt s2 then State_stop s2 else Inr s2) (\<lambda>s3.
     bindR (State_changes s3) (\<lambda>changes.
     require (pc s = pc s3) (bindR (State_commit False s3) (\<lambda>s'. Inr (changes, s', st)))))))"
  by (cases "body_execute (body insn) (State_pre_insn (body_affects_control (body insn)) s)")
    (auto simp: OTBNSim_insn_cycle_def insn_outcome_def Let_def)

lemma insn_cycle_finish:
  assumes "cycle_ok s" and "running s" and "\<not> start_stall s" and "outcome_ok s s2"
  shows "returns (bindR (if pending_halt s2 then State_stop s2 else Inr s2) (\<lambda>s3.
     bindR (State_changes s3) (\<lambda>changes.
     require (pc s = pc s3) (bindR (State_commit False s3) (\<lambda>s'. Inr (changes, s', st))))))
     (\<lambda>(changes, s', st'). st' = st \<and> cycle_ok s' \<and> imem_size s' = imem_size s \<and> insn_effect s s2 s')"
proof (cases "pending_halt s2")
  case True
  show ?thesis
    unfolding if_P [OF True]
  proof (rule returns_bindRI [OF outcome_halt [OF assms(1,4) True]], elim conjE)
    fix s3
    assume s3: "State_inv s3" "pc s3 = pc s"
      "returns (State_commit False s3) (\<lambda>s'. cycle_ok s' \<and> \<not> running s' \<and> State_arch s' = State_arch s \<and>
         imem_size s' = imem_size s \<and>
         ExtRegs_cur (st_ext s') = (ExtRegs_cur (st_ext s))
           (''INTR_STATE'' \<mapsto> 1, ''STATUS'' \<mapsto> 0, ''ERR_BITS'' \<mapsto> err_bits s2))"
    show "returns (bindR (State_changes s3) (\<lambda>changes.
       require (pc s = pc s3) (bindR (State_commit False s3) (\<lambda>s'. Inr (changes, s', st)))))
       (\<lambda>(changes, s', st'). st' = st \<and> cycle_ok s' \<and> imem_size s' = imem_size s \<and> insn_effect s s2 s')"
      using True s3(2,3) State_changes_ok [OF s3(1)]
      by (auto simp: insn_effect_def returns_bindR elim!: returns_mono)
  qed
next
  case False
  have i: "State_inv s2" "pc s2 = pc s" using assms(4) outcome_frame(1) by (auto simp: outcome_ok_def)
  show ?thesis
    using False i(2) State_changes_ok [OF i(1)] outcome_commit [OF assms(1-4) False]
    by (auto simp: insn_effect_def returns_bindR elim!: returns_mono)
qed

lemma insn_cycle_ok:
  assumes "cycle_ok s" and "running s" and "\<not> start_stall s" and "body_ok (body insn)"
    and "body_reads_rnd (body insn) \<longrightarrow> rnd_available s"
    and "collect_stats \<longrightarrow>
      returns (insn_outcome (body insn) s) (\<lambda>s2. returns (record_insn insn s2 st) Q)"
    and "\<not> collect_stats \<longrightarrow> Q st"
  shows "returns (OTBNSim_insn_cycle collect_stats insn s st) (\<lambda>(changes, s', st').
     Q st' \<and> cycle_ok s' \<and> imem_size s' = imem_size s \<and>
     returns (insn_outcome (body insn) s) (\<lambda>s2. insn_effect s s2 s'))"
proof -
  obtain s2 where s2: "insn_outcome (body insn) s = Inr s2" "outcome_ok s s2"
    using insn_outcome_ok [OF assms(1,2,4,5)] by (auto elim: returnsE)
  have st: "returns (if collect_stats then record_insn insn s2 st else Inr st) Q"
    using assms(6,7) s2(1) by simp
  show ?thesis
    unfolding insn_cycle_unfold s2(1) bindR_simps returns_simps
    by (rule returns_bindRI [OF st], rule returns_mono [OF insn_cycle_finish [OF assms(1-3) s2(2)]])
      (auto split: prod.splits)
qed

section \<open>Stall cycles\<close>

text \<open>\<^verbatim>\<open>pre_execute\<close> either lets the instruction through unchanged or leaves a request behind.\<close>

definition stall_request :: "otbn_state \<Rightarrow> otbn_state \<Rightarrow> bool" where
  "stall_request s s' \<longleftrightarrow>
     (\<exists>b p. s' = s\<lparr>st_dmem := (st_dmem s)\<lparr>load_begun := b\<rparr>,
                    st_wsrs := (st_wsrs s)\<lparr>RND := (RND (st_wsrs s))\<lparr>pending_request := p\<rparr>\<rparr>\<rparr>)"

lemma stall_request_dmem: "stall_request s (s\<lparr>st_dmem := (st_dmem s)\<lparr>load_begun := b\<rparr>\<rparr>)"
  unfolding stall_request_def
  by (rule exI [of _ b], rule exI [of _ "pending_request (RND (st_wsrs s))"]) simp

lemma stall_request_rnd:
  "stall_request s (s\<lparr>st_wsrs := (st_wsrs s)\<lparr>RND := (RND (st_wsrs s))\<lparr>pending_request := p\<rparr>\<rparr>\<rparr>)"
  unfolding stall_request_def
  by (rule exI [of _ "load_begun (st_dmem s)"], rule exI [of _ p]) simp

lemma stall_request_ok:
  assumes "stall_request s s'" and "cycle_ok s"
  shows "cycle_ok s'" and "State_arch s' = State_arch s" and "running s' = running s"
    and "imem_size s' = imem_size s" and "st_ext s' = st_ext s" and "start_stall s' = start_stall s"
    and "urnd_stall s' = urnd_stall s" and "loop_stack_of s' = loop_stack_of s"
proof -
  obtain b p where eq: "s' = s\<lparr>st_dmem := (st_dmem s)\<lparr>load_begun := b\<rparr>,
      st_wsrs := (st_wsrs s)\<lparr>RND := (RND (st_wsrs s))\<lparr>pending_request := p\<rparr>\<rparr>\<rparr>"
    using assms(1) unfolding stall_request_def by blast
  have d: "Dmem_ok ((st_dmem s)\<lparr>load_begun := b\<rparr>) = Dmem_ok (st_dmem s)"
    "Dmem_quiet ((st_dmem s)\<lparr>load_begun := b\<rparr>) = Dmem_quiet (st_dmem s)"
    by (simp_all add: Dmem_ok_def Dmem_inv_def Dmem_quiet_def)
  let ?w = "(st_wsrs s)\<lparr>RND := (RND (st_wsrs s))\<lparr>pending_request := p\<rparr>\<rparr>"
  have w: "WSRFile_inv ?w = WSRFile_inv (st_wsrs s)" "WSRFile_quiet ?w = WSRFile_quiet (st_wsrs s)"
    "WSRFile_cur ?w = WSRFile_cur (st_wsrs s)"
    by (simp_all add: WSRFile_inv_def WSRFile_quiet_def WSRFile_cur_def)
  show "State_arch s' = State_arch s" "running s' = running s" "imem_size s' = imem_size s"
    "st_ext s' = st_ext s" "start_stall s' = start_stall s" "urnd_stall s' = urnd_stall s"
    "loop_stack_of s' = loop_stack_of s"
    using w(3) by (simp_all add: eq State_arch_def)
  have "State_inv s'" using assms(2) d w by (simp add: cycle_ok_def State_inv_def eq)
  moreover have "State_quiet s'" using assms(2) d w by (simp add: cycle_ok_def State_quiet_def eq)
  moreover have "running_ok s' = running_ok s" by (simp add: running_ok_def eq)
  ultimately show "cycle_ok s'" using assms(2) by (simp add: cycle_ok_def eq)
qed

lemma pre_execute_ok:
  "returns (body_pre_execute b s) (\<lambda>(ok, s').
     if ok then s' = s \<and> (body_reads_rnd b \<longrightarrow> rnd_available s) else stall_request s s')"
proof -
  have r: "returns (rnd_request s) (\<lambda>(ok, s'). if ok then s' = s \<and> rnd_available s else stall_request s s')"
    using stall_request_rnd [of s True]
    by (auto simp: rnd_request_def RandWSR_request_value_def rnd_available_def split: option.splits)
  have l: "returns (OTBNLDInsn_pre_execute s) (\<lambda>(ok, s'). if ok then s' = s else stall_request s s')"
    using stall_request_dmem [of s True]
    by (auto simp: OTBNLDInsn_pre_execute_def Dmem_begin_load_def)
  show ?thesis
  proof (cases b)
    case (IllegalInsn msg)
    then show ?thesis by (simp add: body_pre_execute_def body_reads_rnd_def)
  next
    case (Legal i)
    show ?thesis
      unfolding Legal body_pre_execute_def body_reads_rnd_def insn_body.case pre_execute_def reads_rnd_def
      using r l
      by (cases i)
        (auto simp: CSRRS_pre_execute_def CSRRW_pre_execute_def BNWSRR_pre_execute_def elim!: returns_mono)
  qed
qed

text \<open>A stall cycle changes nothing architectural; the start stall ends once URND is seeded.\<close>

lemma stall_cycle_ok:
  assumes "cycle_ok s" and "running s"
  shows "returns (State_commit True s) (\<lambda>s'. cycle_ok s' \<and> running s' \<and> State_arch s' = State_arch s \<and>
    imem_size s' = imem_size s \<and> loop_stack_of s' = loop_stack_of s \<and>
    urnd_stall s' = (urnd_stall s \<and> \<not> urnd_reseed_complete s) \<and>
    urnd_reseed_complete s' = urnd_reseed_complete s \<and>
    start_stall s' = (start_stall s \<and> urnd_stall s) \<and>
    ExtRegs_cur (st_ext s') =
      (if urnd_stall s then ExtRegs_cur (st_ext s) else ExtRegs_pend (st_ext s)) \<and>
    (urnd_stall s \<longrightarrow> st_ext s' = st_ext s) \<and>
    (\<not> urnd_stall s \<longrightarrow> load_ready (st_dmem s') = load_begun (st_dmem s)))"
proof -
  have s: "State_inv s" "State_quiet s" "running_ok s" "\<not> pending_halt s" "err_bits s = 0"
    "ExtRegs_inv otbn_shape (st_ext s)"
    using assms by (auto simp: cycle_ok_def running_ok_def State_inv_def)
  show ?thesis
  proof (rule returns_mono [OF State_commit_stalled [OF s(1,2,4,5)]], elim conjE)
    fix s'
    assume s': "State_inv s'" "State_quiet s'" "State_arch s' = State_arch s" "err_bits s' = 0"
      "\<not> pending_halt s'" "loop_stack_of s' = loop_stack_of s" "running s' = running s"
      "urnd_stall s' = (urnd_stall s \<and> \<not> urnd_reseed_complete s)"
      "urnd_reseed_complete s' = urnd_reseed_complete s" "imem_size s' = imem_size s"
      and c: "if urnd_stall s
         then start_stall s' = start_stall s \<and> non_insn_stall s' = non_insn_stall s \<and>
              st_ext s' = st_ext s \<and> st_dmem s' = st_dmem s
         else \<not> start_stall s' \<and> non_insn_stall s' = (non_insn_stall s \<and> \<not> start_stall s) \<and>
              st_ext s' = (if start_stall s then ExtRegs_commit (st_ext s) else st_ext s) \<and>
              data (st_dmem s') = data (st_dmem s) \<and> load_begun (st_dmem s') = False \<and>
              load_ready (st_dmem s') = load_begun (st_dmem s)"
    have pc: "pc s' = pc s" using s'(3) by (simp add: State_arch_def)
    have r: "running_ok s'"
      using s(3) s' pc c ExtRegs_commit_law(2) [OF s(6)] by (auto simp: running_ok_def split: if_splits)
    have e: "ExtRegs_cur (st_ext s') =
      (if urnd_stall s then ExtRegs_cur (st_ext s) else ExtRegs_pend (st_ext s))"
      using c s(3) ExtRegs_commit_law(3) [OF s(6)] ExtRegs_quiet_pend [OF s(6)]
      by (auto simp: running_ok_def split: if_splits)
    have st: "start_stall s' = (start_stall s \<and> urnd_stall s)" "urnd_stall s \<longrightarrow> st_ext s' = st_ext s"
      "\<not> urnd_stall s \<longrightarrow> load_ready (st_dmem s') = load_begun (st_dmem s)"
      using c by (auto split: if_splits)
    show "cycle_ok s' \<and> running s' \<and> State_arch s' = State_arch s \<and>
      imem_size s' = imem_size s \<and> loop_stack_of s' = loop_stack_of s \<and>
      urnd_stall s' = (urnd_stall s \<and> \<not> urnd_reseed_complete s) \<and>
      urnd_reseed_complete s' = urnd_reseed_complete s \<and>
      start_stall s' = (start_stall s \<and> urnd_stall s) \<and>
      ExtRegs_cur (st_ext s') =
        (if urnd_stall s then ExtRegs_cur (st_ext s) else ExtRegs_pend (st_ext s)) \<and>
      (urnd_stall s \<longrightarrow> st_ext s' = st_ext s) \<and>
      (\<not> urnd_stall s \<longrightarrow> load_ready (st_dmem s') = load_begun (st_dmem s))"
      using s' r e st assms(2) by (simp add: cycle_ok_def)
  qed
qed

section \<open>Statistics\<close>

text \<open>
  \<open>stats_balanced\<close>: every instruction counted in the histogram is in exactly one basic block and
  one extended basic block, finished or current.
\<close>

definition stats_balanced :: "exec_stats \<Rightarrow> bool" where
  "stats_balanced st \<longleftrightarrow>
     counter_weight (basic_block_histo st) + current_basic_block_len st = get_insn_count st \<and>
     counter_weight (ext_basic_block_histo st) + current_ext_basic_block_len st = get_insn_count st"

definition stats_ok :: "int \<Rightarrow> exec_stats \<Rightarrow> bool" where
  "stats_ok sz st \<longleftrightarrow> sz \<le> 4 * int (length (stats_program st)) \<and> stats_balanced st"

text \<open>
  The assertion of \<^verbatim>\<open>record_insn\<close> that a loop instruction leaves the machine in a loop: it needs a
  non-zero count, or an enclosing loop.
\<close>

definition loop_starts :: "insn_body \<Rightarrow> otbn_state \<Rightarrow> bool" where
  "loop_starts b s \<longleftrightarrow>
     (case b of Legal (LOOP grs bodysize) \<Rightarrow> arch_gpr (State_arch s) grs \<noteq> 0 \<or> State_in_loop s
              | _ \<Rightarrow> True)"

lemma record_call_ok:
  assumes "ExtRegs_inv otbn_shape (st_ext s)"
  shows "returns (record_call b s st) (\<lambda>st'. \<exists>cs. st' = st\<lparr>func_calls := cs\<rparr>)"
proof -
  obtain a where "ExtRegs_cur (st_ext s) ''START_ADDR'' = Some a"
    using otbn_reg_range [OF assms otbn_masks(4)] by metis
  then have "State_get_start_addr s = Inr a"
    by (simp add: State_get_start_addr_def ExtRegs_read_hw)
  then show ?thesis
    by (cases "State_peek_call_stack s") (auto simp: record_call_def intro: exI [of _ "func_calls st"])
qed

lemma record_loop_ok:
  assumes "is_loop b \<noteq> None \<longrightarrow> State_in_loop s"
  shows "returns (record_loop b s st) (\<lambda>st'. \<exists>ls. st' = st\<lparr>loops_run := ls\<rparr>)"
  using assms
  by (cases "is_loop b") (auto simp: record_loop_def intro: exI [of _ "loops_run st"])

lemma insn_at_addr_ok:
  assumes "4 \<le> a" and "a mod 4 = 0" and "a \<le> p" and "p < 4 * int (length (stats_program st))"
  shows "returns (insn_at_addr (a - 4) st) (\<lambda>_. True)"
proof -
  have "(a - 4) mod 4 = 0" using assms(2) by presburger
  moreover have "drop_bit 2 (a - 4) < int (length (stats_program st))" "0 \<le> drop_bit 2 (a - 4)"
    using assms by (simp_all add: drop_bit_eq_div)
  ultimately show ?thesis
    using assms(1) by (simp add: insn_at_addr_def)
qed

lemma record_insn_ok:
  assumes "ExtRegs_inv otbn_shape (st_ext s)" and "list_all LoopLevel_inv (levels (loop_stack_of s))"
    and "loops_aligned (loop_stack_of s)" and "is_loop (body insn) \<noteq> None \<longrightarrow> State_in_loop s"
    and "pc s < 4 * int (length (stats_program st))"
  shows "returns (record_insn insn s st) (\<lambda>st'.
     stats_program st' = stats_program st \<and> get_insn_count st' = get_insn_count st + 1 \<and>
     stall_count st' = stall_count st \<and>
     (\<forall>m. counter_get (insn_histo st') m =
        counter_get (insn_histo st) m + (if m = body_mnemonic (body insn) then 1 else 0)) \<and>
     (stats_balanced st \<longrightarrow> stats_balanced st'))"
proof -
  let ?b = "body insn"
  let ?st = "st\<lparr>insn_histo := counter_incr (body_mnemonic ?b) (insn_histo st)\<rparr>"
  obtain cs where cs: "record_call ?b s ?st = Inr (?st\<lparr>func_calls := cs\<rparr>)"
    using record_call_ok [OF assms(1)] by (auto elim!: returnsE)
  obtain ls where ls: "record_loop ?b s (?st\<lparr>func_calls := cs\<rparr>) = Inr (?st\<lparr>func_calls := cs, loops_run := ls\<rparr>)"
    using record_loop_ok [OF assms(4)] by (auto elim!: returnsE)
  let ?last = "LoopStack_is_last_insn (pc s) (loop_stack_of s)"
  let ?bb = "record_basic_block (is_jump ?b \<noteq> None \<or> is_branch ?b \<or> ?last \<or> is_ECALL ?b)
      (?st\<lparr>func_calls := cs, loops_run := ls\<rparr>)"
  have p: "stats_program ?bb = stats_program st" by (simp add: record_basic_block_def Let_def)
  have f: "returns (if ?last then
              bindR (LoopLevel_get_loop_insn_addr (last (levels (loop_stack_of s)))) (\<lambda>addr.
              bindR (insn_at_addr addr ?bb) (\<lambda>i. Inr (is_LOOP (body i))))
            else Inr False) (\<lambda>_. True)"
  proof (cases ?last)
    case True
    let ?l = "last (levels (loop_stack_of s))"
    have l: "levels (loop_stack_of s) \<noteq> []" "pc s = last_addr ?l"
      using True by (simp_all add: LoopStack_is_last_insn_def)
    then have li: "LoopLevel_inv ?l" "start_addr ?l mod 4 = 0"
      using assms(2,3) last_in_set [OF l(1)] by (auto simp: loops_aligned_def list_all_iff)
    then show ?thesis
      using True l(2) insn_at_addr_ok [of "start_addr ?l" "pc s" ?bb] assms(5) p
      by (auto simp: LoopLevel_get_loop_insn_addr_def LoopLevel_inv_def returns_bindR)
  qed simp
  then obtain fl where "(if ?last then
              bindR (LoopLevel_get_loop_insn_addr (last (levels (loop_stack_of s)))) (\<lambda>addr.
              bindR (insn_at_addr addr ?bb) (\<lambda>i. Inr (is_LOOP (body i))))
            else Inr False) = Inr fl" (is "?fl = _")
    by (rule returnsE)
  then have "record_insn insn s st =
      Inr (record_ext_basic_block (is_branch ?b \<or> fl \<or> is_ECALL ?b) ?bb)"
    unfolding record_insn_def Let_def cs ls bindR_simps by (simp only: bindR_simps)
  then show ?thesis
    by (auto simp: record_ext_basic_block_def record_basic_block_def Let_def get_insn_count_def
        counter_get_incr stats_balanced_def)
qed

text \<open>After a loop instruction with a non-zero count the machine is in a loop.\<close>

lemma start_loop_levels: "start_loop n sz s = Inr (u, s') \<Longrightarrow> levels (loop_stack_of s') \<noteq> []"
  by (auto simp: start_loop_def updS_def State_loop_start_def LoopStack_start_loop_def LoopLevel_init_def
      bindR_Inr_iff require_Inr_iff Let_def)

lemma loop_execute_levels:
  assumes "State_inv s" and "body_ok b" and "is_loop b \<noteq> None" and "loop_starts b s"
    and "\<not> State_in_loop s" and "body_execute b s = Inr (u, s')"
  shows "levels (loop_stack_of s') \<noteq> []"
proof -
  consider grs n where "b = Legal (LOOP grs n)" | k n where "b = Legal (LOOPI k n)"
    using assms(3) by (auto simp: is_loop_def split: insn_body.splits otbn_insn.splits)
  then show ?thesis
  proof cases
    case 1
    have g: "GPRs_inv (st_gprs s)" "0 \<le> grs" "grs < 32"
      using assms(1,2) 1 by (simp_all add: State_inv_def body_ok_def reg_ok_def)
    have "gpr_value (st_gprs s) grs \<noteq> 0"
      using assms(4,5) 1 by (simp add: loop_starts_def gpr_value_arch)
    then show ?thesis
      using assms(6) 1 start_loop_levels
      by (auto simp: body_execute_def LOOP_execute_def bindS_def gpr_read_def GPRs_read_unsigned_eq [OF g])
  next
    case 2
    then show ?thesis
      using assms(6) start_loop_levels by (auto simp: body_execute_def LOOPI_execute_def)
  qed
qed

lemma insn_outcome_in_loop:
  assumes "cycle_ok s" and "running s" and "body_ok b" and "body_reads_rnd b \<longrightarrow> rnd_available s"
    and "is_loop b \<noteq> None" and "loop_starts b s" and "insn_outcome b s = Inr s2"
  shows "State_in_loop s2"
proof -
  let ?s = "State_pre_insn (body_affects_control b) s"
  have i: "State_inv s" "LoopStack_inv (loop_stack_of s)"
    using assms(1,2) by (simp_all add: cycle_ok_def running_ok_def)
  note p = State_pre_insn_exec_rel [OF i, of "body_affects_control b"]
  obtain u s1 where s1: "body_execute b ?s = Inr (u, s1)" "exec_rel ?s s1" "State_post_insn s1 = Inr s2"
    using body_execute_rel [OF assms(1-4)] assms(7) by (auto simp: insn_outcome_def elim!: returnsE)
  have pre: "State_in_loop ?s = State_in_loop s" "loop_starts b ?s = loop_starts b s"
    by (simp_all only: State_in_loop_def loop_starts_def p(2,3))
  have "levels (loop_stack_of s1) \<noteq> []"
  proof (cases "State_in_loop s")
    case True
    then show ?thesis using s1(2) p(2) by (auto simp: exec_rel_def State_in_loop_def)
  next
    case False
    then show ?thesis
      using loop_execute_levels [OF exec_rel_inv [OF p(1)] assms(3,5) _ _ s1(1)] assms(6) pre by simp
  qed
  moreover have "map start_addr (levels (loop_stack_of s2)) = map start_addr (levels (loop_stack_of s1))"
    using State_post_insn_ok [of s1] s1(2,3) by (simp add: exec_rel_def)
  ultimately show ?thesis by (auto simp: State_in_loop_def)
qed

section \<open>The invariant of the simulator\<close>

text \<open>
  The program fills the instruction memory, its instructions are well formed, and the memoised
  disassembly of each belongs to its address.
\<close>

definition prog_ok :: "int \<Rightarrow> insn_object list \<Rightarrow> bool" where
  "prog_ok sz prog \<longleftrightarrow>
     sz \<le> 4 * int (length prog) \<and>
     (\<forall>k < length prog. body_ok (body (prog ! k)) \<and>
        (disasm_pc (prog ! k) = None \<or> disasm_pc (prog ! k) = Some (4 * int k)))"

definition sim_ok :: "otbn_sim \<Rightarrow> bool" where
  "sim_ok sim \<longleftrightarrow>
     cycle_ok (sim_state sim) \<and> prog_ok (imem_size (sim_state sim)) (program sim) \<and>
     (running (sim_state sim) \<longrightarrow>
        (case stats sim of None \<Rightarrow> False | Some st \<Rightarrow> stats_ok (imem_size (sim_state sim)) st))"

definition current_insn :: "otbn_sim \<Rightarrow> insn_object" where
  "current_insn sim = program sim ! nat (drop_bit 2 (pc (sim_state sim)))"

lemma prog_ok_disassemble:
  assumes "prog_ok sz prog" and "k < length prog" and "a = 4 * int k"
  shows "returns (OTBNInsn_disassemble a (prog ! k)) (\<lambda>i. prog_ok sz (prog[k := i]))"
  using assms
  by (auto simp: prog_ok_def OTBNInsn_disassemble_def nth_list_update split: option.splits)

lemma fetch_ok:
  assumes "sim_ok sim" and "running (sim_state sim)"
  shows "OTBNSim_fetch sim = Inr (current_insn sim)" and "body_ok (body (current_insn sim))"
    and "nat (drop_bit 2 (pc (sim_state sim))) < length (program sim)"
    and "pc (sim_state sim) = 4 * int (nat (drop_bit 2 (pc (sim_state sim))))"
    and "0 \<le> drop_bit 2 (pc (sim_state sim))"
proof -
  let ?p = "pc (sim_state sim)"
  have s: "0 \<le> ?p" "?p mod 4 = 0" "?p < 4 * int (length (program sim))"
    using assms by (auto simp: sim_ok_def cycle_ok_def running_ok_def State_inv_def prog_ok_def)
  then have w: "drop_bit 2 ?p < int (length (program sim))" "0 \<le> drop_bit 2 ?p"
    by (simp_all add: drop_bit_eq_div)
  have "?p = 4 * drop_bit 2 ?p" using s(2) by (auto simp: drop_bit_eq_div)
  then show "?p = 4 * int (nat (drop_bit 2 ?p))" using w(2) by simp
  show "nat (drop_bit 2 ?p) < length (program sim)" using w by linarith
  then show "body_ok (body (current_insn sim))"
    using assms(1) by (simp add: sim_ok_def prog_ok_def current_insn_def)
  show "OTBNSim_fetch sim = Inr (current_insn sim)"
    using w by (simp add: OTBNSim_fetch_def current_insn_def Let_def)
  show "0 \<le> drop_bit 2 ?p" by (rule w)
qed

lemma check_stall_ok:
  assumes "cycle_ok s" and "running s"
  shows "returns (OTBNSim_check_stall insn s) (\<lambda>(stalled, s').
     if stalled then cycle_ok s' \<and> running s' \<and> State_arch s' = State_arch s \<and> imem_size s' = imem_size s \<and>
       st_ext s' = st_ext s
     else s' = s \<and> \<not> start_stall s \<and> (body_reads_rnd (body insn) \<longrightarrow> rnd_available s))"
proof (cases "non_insn_stall s")
  case True
  then show ?thesis using assms by (simp add: OTBNSim_check_stall_def)
next
  case False
  then have st: "\<not> start_stall s" using assms by (simp add: cycle_ok_def running_ok_def)
  obtain ok s' where p: "body_pre_execute (body insn) s = Inr (ok, s')"
    and r: "if ok then s' = s \<and> (body_reads_rnd (body insn) \<longrightarrow> rnd_available s) else stall_request s s'"
    using pre_execute_ok [of "body insn" s] by (auto elim: returnsE)
  show ?thesis
  proof (cases ok)
    case True
    then show ?thesis using False st p r by (simp add: OTBNSim_check_stall_def)
  next
    case no: False
    then have "stall_request s s'" using r by simp
    note sr = stall_request_ok [OF this assms(1)]
    show ?thesis using False no p sr(1-5) assms(2) by (simp add: OTBNSim_check_stall_def)
  qed
qed

lemma step_running_ok:
  assumes "sim_ok sim" and "running (sim_state sim)"
    and "collect_stats \<longrightarrow> loop_starts (body (current_insn sim)) (sim_state sim)"
  shows "returns (OTBNSim_step collect_stats sim) (\<lambda>((i, changes), sim'). sim_ok sim' \<and>
    imem_size (sim_state sim') = imem_size (sim_state sim) \<and>
    length (program sim') = length (program sim) \<and>
    (if i = None
     then running (sim_state sim') \<and> changes = [] \<and>
          State_arch (sim_state sim') = State_arch (sim_state sim)
     else returns (insn_outcome (body (current_insn sim)) (sim_state sim))
            (\<lambda>s2. insn_effect (sim_state sim) s2 (sim_state sim'))) \<and>
    (\<forall>stalled s1. OTBNSim_check_stall (current_insn sim) (sim_state sim) = Inr (stalled, s1) \<longrightarrow>
       (i = None) = stalled))"
proof -
  let ?s = "sim_state sim" and ?i = "current_insn sim"
  let ?k = "nat (drop_bit 2 (pc ?s))"
  obtain st where st: "stats sim = Some st" "stats_ok (imem_size ?s) st"
    using assms(1,2) by (auto simp: sim_ok_def split: option.splits)
  have ok: "cycle_ok ?s" "prog_ok (imem_size ?s) (program sim)" using assms(1) by (simp_all add: sim_ok_def)
  note fo = fetch_ok [OF assms(1,2)]
  from check_stall_ok [OF ok(1) assms(2), of ?i] obtain stalled s1 where
    c: "OTBNSim_check_stall ?i ?s = Inr (stalled, s1)"
    and c1: "stalled \<Longrightarrow> cycle_ok s1 \<and> running s1 \<and> State_arch s1 = State_arch ?s \<and> imem_size s1 = imem_size ?s"
    and c2: "\<not> stalled \<Longrightarrow> s1 = ?s \<and> \<not> start_stall ?s \<and> (body_reads_rnd (body ?i) \<longrightarrow> rnd_available ?s)"
    by (auto elim!: returnsE split: if_splits)
  show ?thesis
  proof (cases stalled)
    case True
    note c1 = c1 [OF True]
    have "returns (State_commit True s1) (\<lambda>s'. cycle_ok s' \<and> running s' \<and> State_arch s' = State_arch ?s \<and>
      imem_size s' = imem_size ?s)"
      using stall_cycle_ok [of s1] c1 by (auto elim!: returns_mono)
    moreover have "stats_ok (imem_size ?s) (record_stall st)"
      using st(2) by (simp add: stats_ok_def record_stall_def stats_balanced_def get_insn_count_def)
    ultimately show ?thesis
      using True assms(2) st ok(2) c fo(1)
      by (auto simp: OTBNSim_step_def OTBNSim_stall_cycle_def sim_ok_def elim!: returnsE)
  next
    case False
    note c2 = c2 [OF False]
    have rec: "returns (insn_outcome (body ?i) ?s) (\<lambda>s2. returns (record_insn ?i s2 st) (stats_ok (imem_size ?s)))"
      if collect_stats
    proof -
      obtain s2 where s2: "insn_outcome (body ?i) ?s = Inr s2" "outcome_ok ?s s2"
        using insn_outcome_ok [OF ok(1) assms(2) fo(2)] c2 by (auto elim: returnsE)
      have o: "ExtRegs_inv otbn_shape (st_ext s2)" "list_all LoopLevel_inv (levels (loop_stack_of s2))"
        "loops_aligned (loop_stack_of s2)" "pc s2 = pc ?s"
        using s2(2) outcome_frame(1) [OF s2(2)] by (simp_all add: outcome_ok_def State_inv_def)
      have l: "is_loop (body ?i) \<noteq> None \<longrightarrow> State_in_loop s2"
        using insn_outcome_in_loop [OF ok(1) assms(2) fo(2) _ _ _ s2(1)] c2 assms(3) that by blast
      have p: "pc s2 < 4 * int (length (stats_program st))"
        using st(2) o(4) ok(1) assms(2) by (auto simp: stats_ok_def cycle_ok_def running_ok_def)
      show ?thesis
        using record_insn_ok [OF o(1-3) l p] st(2) s2(1) by (auto simp: stats_ok_def elim!: returns_mono)
    qed
    have cyc: "returns (OTBNSim_insn_cycle collect_stats ?i ?s st) (\<lambda>(changes, s', st').
       stats_ok (imem_size ?s) st' \<and> cycle_ok s' \<and> imem_size s' = imem_size ?s \<and>
       returns (insn_outcome (body ?i) ?s) (\<lambda>s2. insn_effect ?s s2 s'))"
      using insn_cycle_ok [OF ok(1) assms(2) _ fo(2)] c2 rec st(2) by blast
    obtain i' where dis: "OTBNInsn_disassemble (pc ?s) ?i = Inr i'" "prog_ok (imem_size ?s) ((program sim)[?k := i'])"
      using prog_ok_disassemble [OF ok(2) fo(3,4)] by (auto simp: current_insn_def elim!: returnsE)
    show ?thesis
      using False assms(2) st c c2 fo(1,3,5) cyc dis
      by (auto simp: OTBNSim_step_def sim_ok_def elim!: returnsE)
  qed
qed

end
