(* ===== verification/Sim_Run.thy ===== *)
theory Sim_Run
  imports Sim_Safety
begin

text \<open>
  Properties of the simulator as a whole: a step never raises, it either stalls, commits or halts,
  a run starts with the URND handshake, loads take one extra cycle, and \<^verbatim>\<open>run\<close> counts the cycles
  until the machine stops.
\<close>

section \<open>Starting\<close>

text \<open>\<open>steps n\<close> is \<open>n\<close> cycles of the simulator without statistics.\<close>

fun steps :: "nat \<Rightarrow> otbn_sim \<Rightarrow> otbn_sim result" where
  "steps 0 sim = Inr sim"
| "steps (Suc n) sim = bindR (OTBNSim_step False sim) (\<lambda>(_, sim'). steps n sim')"

lemma steps_add: "steps (m + n) sim = bindR (steps m sim) (steps n)"
proof (induction m arbitrary: sim)
  case (Suc m)
  then show ?case by (cases "OTBNSim_step False sim") auto
qed simp

definition start_arch :: "int \<Rightarrow> otbn_arch \<Rightarrow> otbn_arch" where
  "start_arch a s = s\<lparr>a_flags := FlagGroups_cur FlagGroups_init, a_mod_acc := (0, 0), a_pc := a\<rparr>"

definition sim_with_urnd :: "otbn_sim \<Rightarrow> otbn_sim" where
  "sim_with_urnd sim = sim\<lparr>sim_state := State_set_urnd_reseed_complete (sim_state sim)\<rparr>"

definition sim_stalled_at_start :: "otbn_sim \<Rightarrow> bool" where
  "sim_stalled_at_start sim \<longleftrightarrow>
     sim_ok sim \<and> running (sim_state sim) \<and> start_stall (sim_state sim) \<and>
     urnd_stall (sim_state sim) \<and> \<not> urnd_reseed_complete (sim_state sim) \<and>
     ExtRegs_pend (st_ext (sim_state sim)) ''STATUS'' = Some 1"

lemma status_bit:
  assumes "ExtRegs_inv otbn_shape e"
  shows "the (ExtRegs_pend e ''STATUS'') OR 1 = 1"
proof -
  have "a OR 1 = 1" if "a AND 1 = a" for a :: int
  proof -
    have "a = 0 \<or> a = 1" using that unfolding and_one_eq by presburger
    then show ?thesis by auto
  qed
  then show ?thesis
    by (metis otbn_reg_range [OF assms otbn_masks(2)] option.sel)
qed

lemma start_ok:
  assumes "State_inv (sim_state sim)" and "State_quiet (sim_state sim)"
    and "prog_ok (imem_size (sim_state sim)) (program sim)"
    and "ExtRegs_cur (st_ext (sim_state sim)) ''START_ADDR'' = Some a"
    and "a mod 4 = 0" and "a < imem_size (sim_state sim)"
  shows "returns (OTBNSim_start sim) (\<lambda>sim'. sim_stalled_at_start sim' \<and>
    State_arch (sim_state sim') = start_arch a (State_arch (sim_state sim)) \<and>
    ExtRegs_cur (st_ext (sim_state sim')) = ExtRegs_cur (st_ext (sim_state sim)) \<and>
    program sim' = program sim \<and> imem_size (sim_state sim') = imem_size (sim_state sim))"
proof -
  let ?st = "ExecutionStats_init (program sim)"
  have inv: "ExtRegs_inv otbn_shape (st_ext (sim_state sim))" using assms(1) by (simp add: State_inv_def)
  have so: "stats_ok (imem_size (sim_state sim)) ?st"
    using assms(3) by (simp add: stats_ok_def ExecutionStats_init_def stats_balanced_def counter_weight_def
        get_insn_count_def counter_total_def prog_ok_def)
  obtain s' where s': "State_start (sim_state sim) = Inr s'" "State_inv s'" "State_quiet s'" "running s'"
    "start_stall s'" "urnd_stall s'" "non_insn_stall s'" "\<not> urnd_reseed_complete s'"
    "\<not> pending_halt s'" "err_bits s' = 0"
    "State_arch s' = (State_arch (sim_state sim))\<lparr>a_flags := FlagGroups_cur FlagGroups_init,
       a_mod_acc := (0, 0), a_pc := a\<rparr>"
    "loop_stack_of s' = LoopStack_init" "imem_size s' = imem_size (sim_state sim)"
    "ExtRegs_cur (st_ext s') = ExtRegs_cur (st_ext (sim_state sim))"
    "ExtRegs_pend (st_ext s') = (ExtRegs_pend (st_ext (sim_state sim)))
      (''STATUS'' \<mapsto> the (ExtRegs_pend (st_ext (sim_state sim)) ''STATUS'') OR 1)"
    using State_start_ok [OF assms(1,2,4)] by (auto elim: returnsE)
  have "pc s' = a" using arg_cong [OF s'(11), of a_pc] by (simp add: State_arch_def)
  then have "running_ok s'"
    using s' assms(5,6) LoopStack_init_inv
    by (simp add: running_ok_def LoopStack_init_def loops_aligned_def)
  then show ?thesis
    using s' so assms(3) status_bit [OF inv]
    by (simp add: OTBNSim_start_def Let_def sim_stalled_at_start_def sim_ok_def cycle_ok_def start_arch_def)
qed

text \<open>A cycle of the start stall.\<close>

lemma step_start_stall:
  assumes "sim_ok sim" and "running (sim_state sim)" and "start_stall (sim_state sim)"
  shows "returns (OTBNSim_step False sim) (\<lambda>((i, changes), sim').
    i = None \<and> changes = [] \<and> sim_ok sim' \<and> running (sim_state sim') \<and>
    State_arch (sim_state sim') = State_arch (sim_state sim) \<and>
    urnd_stall (sim_state sim') = (urnd_stall (sim_state sim) \<and> \<not> urnd_reseed_complete (sim_state sim)) \<and>
    urnd_reseed_complete (sim_state sim') = urnd_reseed_complete (sim_state sim) \<and>
    start_stall (sim_state sim') = urnd_stall (sim_state sim) \<and>
    program sim' = program sim \<and> imem_size (sim_state sim') = imem_size (sim_state sim) \<and>
    (if urnd_stall (sim_state sim) then st_ext (sim_state sim') = st_ext (sim_state sim)
     else ExtRegs_cur (st_ext (sim_state sim')) = ExtRegs_pend (st_ext (sim_state sim))))"
proof -
  let ?s = "sim_state sim"
  obtain st where st: "stats sim = Some st" "stats_ok (imem_size ?s) st"
    using assms(1,2) by (auto simp: sim_ok_def split: option.splits)
  have ok: "cycle_ok ?s" "prog_ok (imem_size ?s) (program sim)" "non_insn_stall ?s"
    using assms by (simp_all add: sim_ok_def cycle_ok_def running_ok_def)
  obtain s' where s': "State_commit True ?s = Inr s'" "cycle_ok s'" "running s'" "State_arch s' = State_arch ?s"
    "imem_size s' = imem_size ?s" "urnd_stall s' = (urnd_stall ?s \<and> \<not> urnd_reseed_complete ?s)"
    "urnd_reseed_complete s' = urnd_reseed_complete ?s" "start_stall s' = (start_stall ?s \<and> urnd_stall ?s)"
    "ExtRegs_cur (st_ext s') = (if urnd_stall ?s then ExtRegs_cur (st_ext ?s) else ExtRegs_pend (st_ext ?s))"
    "urnd_stall ?s \<longrightarrow> st_ext s' = st_ext ?s"
    using stall_cycle_ok [OF ok(1) assms(2)] by (auto elim: returnsE)
  have "OTBNSim_step False sim = Inr ((None, []), sim\<lparr>sim_state := s', stats := Some st\<rparr>)"
    using assms(2) st(1) fetch_ok(1) [OF assms(1,2)] ok(3) s'(1)
    by (simp add: OTBNSim_step_def OTBNSim_check_stall_def OTBNSim_stall_cycle_def Let_def)
  then show ?thesis
    using s' ok st(2) assms(3) by (simp add: sim_ok_def)
qed

text \<open>Until the seed arrives the machine stays in the start stall.\<close>

lemma steps_start_stall:
  assumes "sim_stalled_at_start sim"
  shows "returns (steps n sim) (\<lambda>sim'. sim_stalled_at_start sim' \<and>
    State_arch (sim_state sim') = State_arch (sim_state sim) \<and> program sim' = program sim \<and>
    imem_size (sim_state sim') = imem_size (sim_state sim))"
  using assms
proof (induction n arbitrary: sim)
  case (Suc n)
  have a: "sim_ok sim" "running (sim_state sim)" "start_stall (sim_state sim)"
    using Suc.prems by (simp_all add: sim_stalled_at_start_def)
  obtain sim1 where s1: "OTBNSim_step False sim = Inr ((None, []), sim1)" "sim_stalled_at_start sim1"
    "State_arch (sim_state sim1) = State_arch (sim_state sim)" "program sim1 = program sim"
    "imem_size (sim_state sim1) = imem_size (sim_state sim)"
    using step_start_stall [OF a] Suc.prems
    by (auto simp: sim_stalled_at_start_def elim!: returnsE)
  show ?case
    using Suc.IH [OF s1(2)] s1 by simp
qed simp

text \<open>Ready: running, past the start stall.\<close>

definition sim_ready :: "otbn_sim \<Rightarrow> bool" where
  "sim_ready sim \<longleftrightarrow>
     sim_ok sim \<and> running (sim_state sim) \<and> \<not> start_stall (sim_state sim) \<and> \<not> urnd_stall (sim_state sim)"

lemma sim_with_urnd_ok: "sim_ok (sim_with_urnd sim) = sim_ok sim"
proof -
  have "cycle_ok (State_set_urnd_reseed_complete s) = cycle_ok s" for s
    by (simp add: State_set_urnd_reseed_complete_def cycle_ok_def State_inv_def State_quiet_def running_ok_def)
  moreover have "imem_size (State_set_urnd_reseed_complete s) = imem_size s"
    "running (State_set_urnd_reseed_complete s) = running s" for s
    by (simp_all add: State_set_urnd_reseed_complete_def)
  ultimately show ?thesis
    by (simp add: sim_ok_def sim_with_urnd_def cong: option.case_cong)
qed

lemma urnd_releases_start:
  assumes "sim_stalled_at_start sim"
  shows "returns (steps 2 (sim_with_urnd sim)) (\<lambda>sim'. sim_ready sim' \<and>
    State_arch (sim_state sim') = State_arch (sim_state sim) \<and>
    ExtRegs_cur (st_ext (sim_state sim')) ''STATUS'' = Some 1 \<and> program sim' = program sim)"
proof -
  let ?sim = "sim_with_urnd sim"
  have a: "sim_ok ?sim" "running (sim_state ?sim)" "start_stall (sim_state ?sim)"
    "urnd_stall (sim_state ?sim)" "urnd_reseed_complete (sim_state ?sim)"
    "ExtRegs_pend (st_ext (sim_state ?sim)) ''STATUS'' = Some 1"
    "State_arch (sim_state ?sim) = State_arch (sim_state sim)" "program ?sim = program sim"
    using assms
    by (simp_all add: sim_stalled_at_start_def sim_with_urnd_ok)
      (simp_all add: sim_with_urnd_def State_set_urnd_reseed_complete_def State_arch_def)
  obtain sim1 where s1: "OTBNSim_step False ?sim = Inr ((None, []), sim1)" "sim_ok sim1"
    "running (sim_state sim1)" "start_stall (sim_state sim1)" "\<not> urnd_stall (sim_state sim1)"
    "st_ext (sim_state sim1) = st_ext (sim_state ?sim)" "program sim1 = program sim"
    "State_arch (sim_state sim1) = State_arch (sim_state sim)"
    using step_start_stall [OF a(1-3)] a by (auto elim!: returnsE)
  obtain sim2 where s2: "OTBNSim_step False sim1 = Inr ((None, []), sim2)" "sim_ready sim2"
    "ExtRegs_cur (st_ext (sim_state sim2)) = ExtRegs_pend (st_ext (sim_state sim1))"
    "program sim2 = program sim" "State_arch (sim_state sim2) = State_arch (sim_state sim)"
    using step_start_stall [OF s1(2-4)] s1 by (auto simp: sim_ready_def elim!: returnsE)
  show ?thesis
    using s1 s2 a(6) by (simp add: numeral_2_eq_2)
qed

text \<open>
  The start handshake.  Starting takes the program counter from START\_ADDR, clears flags, MOD
  and ACC and keeps registers and data memory.  However many cycles pass before URND is seeded,
  the machine only stalls; from the seeding it takes exactly two more cycles, after which STATUS
  reads busy and the machine is ready to execute the instruction at START\_ADDR, with nothing
  else changed.
\<close>

theorem start_handshake:
  assumes "State_inv (sim_state sim)" and "State_quiet (sim_state sim)"
    and "prog_ok (imem_size (sim_state sim)) (program sim)"
    and "ExtRegs_cur (st_ext (sim_state sim)) ''START_ADDR'' = Some a"
    and "a mod 4 = 0" and "a < imem_size (sim_state sim)"
  shows "returns (bindR (OTBNSim_start sim) (\<lambda>sim1.
    bindR (steps n sim1) (\<lambda>sim2. bindR (steps 2 (sim_with_urnd sim2)) (\<lambda>sim3. Inr (sim2, sim3)))))
    (\<lambda>(sim2, sim3).
       running (sim_state sim2) \<and> start_stall (sim_state sim2) \<and>
       State_arch (sim_state sim2) = start_arch a (State_arch (sim_state sim)) \<and>
       sim_ready sim3 \<and> State_arch (sim_state sim3) = start_arch a (State_arch (sim_state sim)) \<and>
       ExtRegs_cur (st_ext (sim_state sim3)) ''STATUS'' = Some 1)"
proof (rule returns_bindRI [OF start_ok [OF assms]], elim conjE)
  fix sim1
  assume s1: "sim_stalled_at_start sim1"
    "State_arch (sim_state sim1) = start_arch a (State_arch (sim_state sim))"
  show "returns (bindR (steps n sim1) (\<lambda>sim2. bindR (steps 2 (sim_with_urnd sim2)) (\<lambda>sim3. Inr (sim2, sim3))))
    (\<lambda>(sim2, sim3).
       running (sim_state sim2) \<and> start_stall (sim_state sim2) \<and>
       State_arch (sim_state sim2) = start_arch a (State_arch (sim_state sim)) \<and>
       sim_ready sim3 \<and> State_arch (sim_state sim3) = start_arch a (State_arch (sim_state sim)) \<and>
       ExtRegs_cur (st_ext (sim_state sim3)) ''STATUS'' = Some 1)"
    by (rule returns_bindRI [OF steps_start_stall [OF s1(1)]], elim conjE,
        rule returns_bindRI [OF urnd_releases_start], assumption)
      (use s1(2) in \<open>simp add: sim_stalled_at_start_def\<close>)
qed

text \<open>A small program, padded to the size of the instruction memory, loaded into the reset machine.\<close>

definition demo_program :: "insn_object list" where
  "demo_program =
     [OTBNInsn_init 0x02a00113 (ADDI 2 0 42), OTBNInsn_init 0x00002183 (LW 3 0 0)] @
     replicate 1022 (OTBNInsn_init 0x73 ECALL)"

definition demo_sim :: otbn_sim where
  "demo_sim = \<lparr>sim_state = otbn_reset, program = demo_program, stats = None\<rparr>"

lemma demo_sim_state:
  "State_inv (sim_state demo_sim)" "State_quiet (sim_state demo_sim)"
  "prog_ok (imem_size (sim_state demo_sim)) (program demo_sim)"
  "ExtRegs_cur (st_ext (sim_state demo_sim)) ''START_ADDR'' = Some 0"
  "(0 :: int) mod 4 = 0" "0 < imem_size (sim_state demo_sim)"
proof -
  show "State_inv (sim_state demo_sim)" "State_quiet (sim_state demo_sim)"
    by (simp_all add: demo_sim_def otbn_reset_inv otbn_reset_quiet)
  show "prog_ok (imem_size (sim_state demo_sim)) (program demo_sim)"
    by (auto simp: demo_sim_def demo_program_def prog_ok_def nth_Cons nth_append OTBNInsn_init_def body_ok_def
        reg_ok_def split: nat.split)
  show "ExtRegs_cur (st_ext (sim_state demo_sim)) ''START_ADDR'' = Some 0"
    by (simp add: demo_sim_def ExtRegs_cur_def otbn_ext_regs_def ExtRegs_init_def otbn_reg_block_def
        bit_field_def word_field_def RGField_init_def Let_def reg_view_def)
  show "(0 :: int) mod 4 = 0" "0 < imem_size (sim_state demo_sim)"
    by (simp_all add: demo_sim_def)
qed

theorem start_handshake_witness:
  "returns (bindR (OTBNSim_start demo_sim) (\<lambda>sim1.
     bindR (steps 5 sim1) (\<lambda>sim2. bindR (steps 2 (sim_with_urnd sim2)) (\<lambda>sim3. Inr (sim2, sim3)))))
     (\<lambda>(sim2, sim3). start_stall (sim_state sim2) \<and> sim_ready sim3)"
  using start_handshake [OF demo_sim_state, of 5] by (auto elim!: returns_mono)

text \<open>The same machine past the start stall.\<close>

definition demo_ready :: otbn_sim where
  "demo_ready = \<lparr>sim_state = otbn_reset\<lparr>running := True\<rparr>, program = demo_program,
                 stats = Some (ExecutionStats_init demo_program)\<rparr>"

lemma demo_ready_ok: "sim_ready demo_ready"
proof -
  have "State_inv (otbn_reset\<lparr>running := True\<rparr>)" "State_quiet (otbn_reset\<lparr>running := True\<rparr>)"
    using otbn_reset_inv otbn_reset_quiet by (simp_all add: State_inv_def State_quiet_def)
  moreover have "running_ok (otbn_reset\<lparr>running := True\<rparr>)"
    using LoopStack_init_inv otbn_reset_quiet
    by (simp add: running_ok_def loops_aligned_def LoopStack_init_def) (simp add: otbn_reset_def)
  moreover have "stats_ok 4096 (ExecutionStats_init demo_program)"
    by (simp add: stats_ok_def ExecutionStats_init_def stats_balanced_def counter_weight_def
        get_insn_count_def counter_total_def demo_program_def)
  ultimately show ?thesis
    using demo_sim_state(3)
    by (simp add: sim_ready_def sim_ok_def demo_ready_def cycle_ok_def demo_sim_def) (simp add: otbn_reset_def)
qed

lemma demo_ready_insn:
  "body (current_insn demo_ready) = Legal (ADDI 2 0 42)"
  by (simp add: demo_ready_def current_insn_def demo_program_def OTBNInsn_init_def)

section \<open>One step\<close>

lemma step_stopped: "\<not> running (sim_state sim) \<Longrightarrow> OTBNSim_step c sim = Inr ((None, []), sim)"
  by (simp add: OTBNSim_step_def)

lemma step_ok:
  assumes "sim_ok sim"
    and "c \<longrightarrow> running (sim_state sim) \<longrightarrow> loop_starts (body (current_insn sim)) (sim_state sim)"
  shows "returns (OTBNSim_step c sim) (\<lambda>(_, sim'). sim_ok sim' \<and>
    imem_size (sim_state sim') = imem_size (sim_state sim) \<and> length (program sim') = length (program sim))"
proof (cases "running (sim_state sim)")
  case True
  then show ?thesis
    using step_running_ok [OF assms(1) True, of c] assms(2) by (auto elim!: returns_mono)
next
  case False
  then show ?thesis using assms(1) by (simp add: step_stopped)
qed

text \<open>
  C18: \<^verbatim>\<open>step\<close> is total.  On a program of well-formed instructions that fills the instruction memory,
  a cycle from any state satisfying the invariant of the simulator raises no exception (none of the
  assertions of the simulator fails) and re-establishes the invariant.  With statistics switched
  on this needs a \<^verbatim>\<open>LOOP\<close> about to be executed to have a non-zero count or an enclosing loop.
\<close>

theorem step_never_raises:
  assumes "sim_ok sim"
    and "c \<longrightarrow> running (sim_state sim) \<longrightarrow> loop_starts (body (current_insn sim)) (sim_state sim)"
  shows "returns (OTBNSim_step c sim) (\<lambda>(_, sim'). sim_ok sim')"
  using step_ok [OF assms] by (auto elim!: returns_mono)

theorem step_never_raises_witness:
  "returns (OTBNSim_step True demo_ready) (\<lambda>(_, sim'). sim_ok sim')"
  using step_never_raises [of demo_ready True] demo_ready_ok
  by (simp add: sim_ready_def loop_starts_def demo_ready_insn)

text \<open>
  C1: commit or halt.  When a step executes an instruction, let \<open>s2\<close> be the state after it has
  executed and its errors have been collected.  If \<open>s2\<close> is to halt (an error, an illegal
  instruction or \<^verbatim>\<open>ECALL\<close>) then no register, flag, memory word or program counter changes, the
  machine stops, and the host sees INTR\_STATE = 1, STATUS = 0 and the error bits, with the other
  external registers unchanged.  Otherwise every staged effect, and nothing else, becomes
  architectural and the machine keeps running.  A step that stalls changes nothing architectural.
\<close>

theorem step_commits_or_halts:
  assumes "sim_ok sim" and "running (sim_state sim)"
  shows "returns (OTBNSim_step False sim) (\<lambda>((i, changes), sim').
    (let s = sim_state sim; s' = sim_state sim'
     in if i = None then running s' \<and> State_arch s' = State_arch s \<and> changes = []
        else returns (insn_outcome (body (current_insn sim)) s) (\<lambda>s2.
          if pending_halt s2
          then \<not> running s' \<and> State_arch s' = State_arch s \<and>
               ExtRegs_cur (st_ext s') = (ExtRegs_cur (st_ext s))
                 (''INTR_STATE'' \<mapsto> 1, ''STATUS'' \<mapsto> 0, ''ERR_BITS'' \<mapsto> err_bits s2)
          else running s' \<and> State_arch s' = State_pend s2 \<and>
               ExtRegs_cur (st_ext s') = ExtRegs_cur (st_ext s))))"
  using step_running_ok [OF assms, of False]
  by (auto simp: Let_def insn_effect_def elim!: returns_mono split: if_splits)

theorem step_commits_or_halts_witness:
  "returns (OTBNSim_step False demo_ready) (\<lambda>((i, changes), sim').
     i \<noteq> None \<or> State_arch (sim_state sim') = State_arch (sim_state demo_ready))"
  using step_commits_or_halts [of demo_ready] demo_ready_ok
  by (auto simp: Let_def sim_ready_def elim!: returns_mono split: if_splits)

section \<open>Timing\<close>

definition is_load :: "otbn_insn \<Rightarrow> bool" where
  "is_load i = (case i of LW _ _ _ \<Rightarrow> True | BNLID _ _ _ _ _ \<Rightarrow> True | _ \<Rightarrow> False)"

lemma pre_execute_load: "is_load i \<Longrightarrow> pre_execute i = OTBNLDInsn_pre_execute"
  by (cases i) (simp_all add: is_load_def pre_execute_def)

lemma pre_execute_other: "\<not> is_load i \<Longrightarrow> \<not> reads_rnd i \<Longrightarrow> pre_execute i s = Inr (True, s)"
  by (cases i) (auto simp: is_load_def reads_rnd_def pre_execute_def CSRRS_pre_execute_def
      CSRRW_pre_execute_def BNWSRR_pre_execute_def)

lemma step_exec:
  assumes "sim_ready sim" and "body (current_insn sim) = Legal i"
    and "pre_execute i (sim_state sim) = Inr (True, sim_state sim)"
  shows "returns (OTBNSim_step False sim) (\<lambda>((r, changes), sim'). r \<noteq> None \<and> sim_ok sim' \<and>
    returns (insn_outcome (Legal i) (sim_state sim)) (\<lambda>s2. insn_effect (sim_state sim) s2 (sim_state sim')))"
proof -
  have ok: "sim_ok sim" "running (sim_state sim)" "\<not> non_insn_stall (sim_state sim)"
    using assms(1) by (auto simp: sim_ready_def sim_ok_def cycle_ok_def running_ok_def)
  have "OTBNSim_check_stall (current_insn sim) (sim_state sim) = Inr (False, sim_state sim)"
    using assms(2,3) ok(3) by (simp add: OTBNSim_check_stall_def body_pre_execute_def)
  then show ?thesis
    using step_running_ok [OF ok(1,2), of False] assms(2)
    by (auto elim!: returns_mono split: if_splits)
qed

lemma step_load_stall:
  assumes "sim_ready sim" and "body (current_insn sim) = Legal i" and "is_load i"
    and "\<not> load_ready (st_dmem (sim_state sim))"
  shows "returns (OTBNSim_step False sim) (\<lambda>((r, changes), sim'). r = None \<and> sim_ready sim' \<and>
    State_arch (sim_state sim') = State_arch (sim_state sim) \<and> program sim' = program sim \<and>
    load_ready (st_dmem (sim_state sim')))"
proof -
  let ?s = "sim_state sim" and ?s1 = "(sim_state sim)\<lparr>st_dmem := Dmem_begin_load (st_dmem (sim_state sim))\<rparr>"
  have ok: "sim_ok sim" "running ?s" "\<not> non_insn_stall ?s" "cycle_ok ?s" "\<not> start_stall ?s" "\<not> urnd_stall ?s"
    using assms(1) by (auto simp: sim_ready_def sim_ok_def cycle_ok_def running_ok_def)
  obtain st where st: "stats sim = Some st" "stats_ok (imem_size ?s) st"
    using ok(1,2) by (auto simp: sim_ok_def split: option.splits)
  have c: "OTBNSim_check_stall (current_insn sim) ?s = Inr (True, ?s1)"
    using assms(2-4) ok(3)
    by (simp add: OTBNSim_check_stall_def body_pre_execute_def pre_execute_load OTBNLDInsn_pre_execute_def
        Dmem_in_progress_load_complete_def)
  have req: "stall_request ?s ?s1"
    unfolding Dmem_begin_load_def by (rule stall_request_dmem)
  note sr = stall_request_ok [OF req ok(4)]
  obtain s' where s': "State_commit True ?s1 = Inr s'" "cycle_ok s'" "running s'" "State_arch s' = State_arch ?s1"
    "imem_size s' = imem_size ?s1" "urnd_stall s' = (urnd_stall ?s1 \<and> \<not> urnd_reseed_complete ?s1)"
    "start_stall s' = (start_stall ?s1 \<and> urnd_stall ?s1)"
    "\<not> urnd_stall ?s1 \<longrightarrow> load_ready (st_dmem s') = load_begun (st_dmem ?s1)"
    using stall_cycle_ok [OF sr(1)] sr(3) ok(2) by (auto elim: returnsE)
  have "OTBNSim_step False sim = Inr ((None, []), sim\<lparr>sim_state := s', stats := Some st\<rparr>)"
    using ok(2) st(1) fetch_ok(1) [OF ok(1,2)] c s'(1)
    by (simp add: OTBNSim_step_def OTBNSim_stall_cycle_def Let_def)
  then show ?thesis
    using s' sr ok st(2) by (simp add: sim_ready_def sim_ok_def Dmem_begin_load_def)
qed

text \<open>
  Instruction timing.  With no load in progress, a load takes exactly two cycles: one in which
  nothing architectural changes and one in which it executes; every other instruction that does
  not read RND executes in the first cycle.  After the instruction no load is in progress (if the
  machine keeps running), so the same holds for the next one.
\<close>

theorem insn_timing:
  assumes "sim_ready sim" and "body (current_insn sim) = Legal i" and "\<not> reads_rnd i"
    and "\<not> load_ready (st_dmem (sim_state sim))" and "\<not> load_begun (st_dmem (sim_state sim))"
  shows "if is_load i
    then returns (OTBNSim_step False sim) (\<lambda>((r1, _), sim1). r1 = None \<and>
           State_arch (sim_state sim1) = State_arch (sim_state sim) \<and>
           returns (OTBNSim_step False sim1) (\<lambda>((r2, _), sim2). r2 \<noteq> None \<and>
             returns (insn_outcome (Legal i) (sim_state sim1))
               (\<lambda>s2. insn_effect (sim_state sim1) s2 (sim_state sim2))))
    else returns (OTBNSim_step False sim) (\<lambda>((r, _), sim'). r \<noteq> None \<and>
           (running (sim_state sim') \<longrightarrow>
              \<not> load_ready (st_dmem (sim_state sim')) \<and> \<not> load_begun (st_dmem (sim_state sim'))) \<and>
           returns (insn_outcome (Legal i) (sim_state sim))
             (\<lambda>s2. insn_effect (sim_state sim) s2 (sim_state sim')))"
proof (cases "is_load i")
  case True
  have "returns (OTBNSim_step False sim1) (\<lambda>((r2, _), sim2). r2 \<noteq> None \<and>
      returns (insn_outcome (Legal i) (sim_state sim1)) (\<lambda>s2. insn_effect (sim_state sim1) s2 (sim_state sim2)))"
    if "sim_ready sim1" "State_arch (sim_state sim1) = State_arch (sim_state sim)" "program sim1 = program sim"
      "load_ready (st_dmem (sim_state sim1))" for sim1
  proof -
    have "pc (sim_state sim1) = pc (sim_state sim)"
      using arg_cong [OF that(2), of a_pc] by (simp add: State_arch_def)
    then have "body (current_insn sim1) = Legal i"
      using assms(2) that(3) by (simp add: current_insn_def)
    moreover have "pre_execute i (sim_state sim1) = Inr (True, sim_state sim1)"
      using True that(4) by (simp add: pre_execute_load OTBNLDInsn_pre_execute_def Dmem_in_progress_load_complete_def)
    ultimately show ?thesis
      using step_exec [OF that(1)] by (auto elim!: returns_mono)
  qed
  then show ?thesis
    using True step_load_stall [OF assms(1,2) True assms(4)] by (auto elim!: returns_mono)
next
  case False
  have "returns (insn_outcome (Legal i) (sim_state sim)) (\<lambda>s2. insn_effect (sim_state sim) s2 s') \<Longrightarrow>
      running s' \<longrightarrow> \<not> load_ready (st_dmem s') \<and> \<not> load_begun (st_dmem s')" for s'
    using assms(5) by (auto simp: insn_effect_def elim!: returnsE split: if_splits)
  then show ?thesis
    using False step_exec [OF assms(1,2) pre_execute_other [OF False assms(3)]] by (auto elim!: returns_mono)
qed

theorem insn_timing_witness:
  "returns (OTBNSim_step False demo_ready) (\<lambda>((r, _), sim'). r \<noteq> None)"
proof -
  have "\<not> load_ready (st_dmem (sim_state demo_ready))" "\<not> load_begun (st_dmem (sim_state demo_ready))"
    by (simp_all add: demo_ready_def otbn_reset_def)
  from insn_timing [OF demo_ready_ok demo_ready_insn _ this] show ?thesis
    by (auto simp: reads_rnd_def is_load_def elim!: returns_mono)
qed

section \<open>Running to the end\<close>

text \<open>\<open>runs_in c n sim sim'\<close>: the loop of \<^verbatim>\<open>run\<close> leaves \<open>sim\<close> after \<open>n\<close> iterations, in \<open>sim'\<close>.\<close>

inductive runs_in :: "bool \<Rightarrow> nat \<Rightarrow> otbn_sim \<Rightarrow> otbn_sim \<Rightarrow> bool" for c where
  stop: "\<not> running (sim_state sim) \<Longrightarrow> runs_in c 0 sim sim"
| step: "running (sim_state sim) \<Longrightarrow> OTBNSim_run_step c sim = Inr sim1 \<Longrightarrow> runs_in c n sim1 sim' \<Longrightarrow>
    runs_in c (Suc n) sim sim'"

lemma runs_in_loop: "runs_in c n sim sim' \<Longrightarrow> OTBNSim_run_loop c k sim = Some (Inr (k + int n, sim'))"
proof (induction arbitrary: k rule: runs_in.induct)
  case (stop sim)
  then show ?case by (simp add: OTBNSim_run_loop.simps)
next
  case (step sim sim1 n sim')
  then show ?case by (subst OTBNSim_run_loop.simps) simp
qed

text \<open>What \<^verbatim>\<open>run\<close> does between cycles: a pending request for RND is served at once.\<close>

definition serve_rnd :: "otbn_sim \<Rightarrow> otbn_sim" where
  "serve_rnd sim =
     (let s = sim_state sim
      in if pending_request (RND (st_wsrs s))
         then sim\<lparr>sim_state := s\<lparr>st_wsrs := (st_wsrs s)\<lparr>RND := (RND (st_wsrs s))\<lparr>random_value := Some TEST_RND_DATA\<rparr>\<rparr>\<rparr>\<rparr>
         else sim)"

lemma TEST_RND_DATA_fits: "fits 256 TEST_RND_DATA"
  by (simp add: TEST_RND_DATA_def fits_iff)

lemma run_step_eq: "OTBNSim_run_step c sim = bindR (OTBNSim_step c sim) (\<lambda>(_, sim'). Inr (serve_rnd sim'))"
  using TEST_RND_DATA_fits
  by (cases "OTBNSim_step c sim")
    (auto simp: OTBNSim_run_step_def serve_rnd_def Let_def RandWSR_set_unsigned_def)

lemma serve_rnd_simps [simp]:
  "State_arch (sim_state (serve_rnd sim)) = State_arch (sim_state sim)"
  "running (sim_state (serve_rnd sim)) = running (sim_state sim)"
  "st_ext (sim_state (serve_rnd sim)) = st_ext (sim_state sim)"
  "start_stall (sim_state (serve_rnd sim)) = start_stall (sim_state sim)"
  "urnd_stall (sim_state (serve_rnd sim)) = urnd_stall (sim_state sim)"
  "urnd_reseed_complete (sim_state (serve_rnd sim)) = urnd_reseed_complete (sim_state sim)"
  "imem_size (sim_state (serve_rnd sim)) = imem_size (sim_state sim)"
  "pc (sim_state (serve_rnd sim)) = pc (sim_state sim)"
  "program (serve_rnd sim) = program sim" "stats (serve_rnd sim) = stats sim"
  by (simp_all add: serve_rnd_def Let_def State_arch_def WSRFile_cur_def)

lemma serve_rnd_ok: "sim_ok sim \<Longrightarrow> sim_ok (serve_rnd sim)"
proof -
  have "cycle_ok (sim_state sim) \<Longrightarrow> cycle_ok (sim_state (serve_rnd sim))"
    using TEST_RND_DATA_fits
    by (simp add: serve_rnd_def Let_def cycle_ok_def State_inv_def State_quiet_def running_ok_def
        WSRFile_inv_def WSRFile_quiet_def)
  then show "sim_ok sim \<Longrightarrow> sim_ok (serve_rnd sim)"
    by (simp add: sim_ok_def cong: option.case_cong)
qed

lemma run_step_ok: "sim_ok sim \<Longrightarrow> returns (OTBNSim_run_step False sim) sim_ok"
  using step_ok [of sim False]
  by (auto simp: run_step_eq returns_bindR serve_rnd_ok elim!: returns_mono)

lemma loop_runs_in:
  assumes "OTBNSim_run_loop c k sim = Some r" and "\<not> c" and "sim_ok sim"
  shows "\<exists>n sim'. r = Inr (k + int n, sim') \<and> runs_in c n sim sim'"
proof -
  have "\<not> c \<longrightarrow> sim_ok sim \<longrightarrow> (\<exists>n sim'. r = Inr (k + int n, sim') \<and> runs_in c n sim sim')"
  proof (rule OTBNSim_run_loop.raw_induct [OF _ assms(1)], intro impI)
    fix run c k sim r
    assume 1: "\<And>c k sim r. run c k sim = Some r \<Longrightarrow> \<not> c \<longrightarrow> sim_ok sim \<longrightarrow>
        (\<exists>n sim'. r = Inr (k + int n, sim') \<and> runs_in c n sim sim')"
      "(if running (sim_state sim) then
          case OTBNSim_run_step c sim of Inl e \<Rightarrow> Some (Inl e) | Inr sim' \<Rightarrow> run c (k + 1) sim'
        else Some (Inr (k, sim))) = Some r"
      and a: "\<not> c" "sim_ok sim"
    show "\<exists>n sim'. r = Inr (k + int n, sim') \<and> runs_in c n sim sim'"
    proof (cases "running (sim_state sim)")
      case False
      then have "r = Inr (k + int 0, sim)" "runs_in c 0 sim sim" using 1(2) by (simp_all add: runs_in.stop)
      then show ?thesis by blast
    next
      case True
      obtain sim1 where s1: "OTBNSim_run_step c sim = Inr sim1" "sim_ok sim1"
        using run_step_ok [OF a(2)] a(1) by (auto elim!: returnsE)
      then have "run c (k + 1) sim1 = Some r" using True 1(2) by simp
      from 1(1) [OF this] a(1) s1(2) obtain n sim' where
        "r = Inr (k + 1 + int n, sim')" "runs_in c n sim1 sim'" by blast
      then show ?thesis
        using runs_in.step [OF True s1(1)] by (intro exI [of _ "Suc n"] exI [of _ sim']) simp
    qed
  qed
  then show ?thesis using assms(2,3) by simp
qed

lemma runs_in_stops: "runs_in c n sim sim' \<Longrightarrow> \<not> running (sim_state sim')"
  by (induction rule: runs_in.induct) simp_all

text \<open>
  C32: \<^verbatim>\<open>run\<close> without statistics.  Started on any state satisfying the invariant of the simulator (in particular
  a program of well-formed instructions that fills the instruction memory) and not collecting statistics, \<^verbatim>\<open>run\<close>
  never raises; it returns if and only if the machine stops after some number of cycles, and then it returns
  that number and the stopped machine.
\<close>

theorem run_counts_cycles:
  assumes "sim_ok sim"
  shows "OTBNSim_run False sim \<noteq> Some (Inl e) \<and>
    (OTBNSim_run False sim = Some (Inr (k, sim')) \<longleftrightarrow>
       (\<exists>n. k = int n \<and> runs_in False n (sim_with_urnd sim) sim'))"
proof -
  have ok: "sim_ok (sim_with_urnd sim)" using assms by (simp add: sim_with_urnd_ok)
  have eq: "OTBNSim_run False sim = OTBNSim_run_loop False 0 (sim_with_urnd sim)"
    by (simp add: OTBNSim_run_def sim_with_urnd_def)
  show ?thesis
    unfolding eq using loop_runs_in [OF _ _ ok, of False 0] runs_in_loop [of False _ "sim_with_urnd sim" sim' 0]
    by fastforce
qed

text \<open>An \<^verbatim>\<open>ECALL\<close> halts without an error bit, unless it is the last word of the instruction memory.\<close>

lemma ecall_outcome:
  assumes "cycle_ok s" and "running s" and "pc s + 4 < imem_size s"
  shows "returns (insn_outcome (Legal ECALL) s) (\<lambda>s2. pending_halt s2 \<and> err_bits s2 = 0)"
proof -
  let ?s1 = "s\<lparr>err_bits := 0, pending_halt := True\<rparr>"
  have s: "State_inv s" "State_quiet s" "LoopStack_inv (loop_stack_of s)" "\<not> loop_err_flag (loop_stack_of s)"
    "err_bits s = 0" "pc s mod 4 = 0"
    using assms(1,2) by (simp_all add: cycle_ok_def running_ok_def)
  have "body_execute (Legal ECALL) (State_pre_insn (body_affects_control (Legal ECALL)) s) = Inr ((), ?s1)"
    using s(5) by (simp add: body_execute_def ECALL_execute_def stop_at_end_def State_stop_at_end_of_cycle_def
        State_pre_insn_def body_affects_control_def affects_control_def LoopStack_check_insn_def)
  then have eq: "insn_outcome (Legal ECALL) s = State_post_insn ?s1" by (simp add: insn_outcome_def)
  have i1: "State_inv ?s1" "LoopStack_inv (loop_stack_of ?s1)"
    using s(1,3) by (simp_all add: State_inv_def fits_def)
  have "(pc s + 4) mod 4 = 0" using s(6) by presburger
  then have z: "pc_err_bits ?s1 = 0" "LoopStack_err_bits (loop_stack_of ?s1) = 0"
    "Dmem_err_bits (st_dmem ?s1) = 0"
    using s assms(3) by (simp_all add: pc_err_bits_def State_get_next_pc_def State_quiet_def
        LoopStack_err_bits_def Dmem_err_bits_def Dmem_quiet_def)
  have "GPRs_inv (st_gprs s)" "GPRs_ready (st_gprs s)"
    using s(1,2) by (simp_all add: State_inv_def State_quiet_def GPRs_quiet_ready)
  then have "GPRs_err_bits (GPRs_post_insn (st_gprs ?s1)) = 0"
    using GPRs_post_insn_flag [of "st_gprs s"] by (simp add: GPRs_err_bits_def)
  then show ?thesis
    unfolding eq using z by (auto intro!: returns_mono [OF State_post_insn_ok [OF i1]])
qed

lemma run_step_start_stall:
  assumes "sim_ok sim" and "running (sim_state sim)" and "start_stall (sim_state sim)"
    and "urnd_reseed_complete (sim_state sim)"
  shows "returns (OTBNSim_run_step False sim) (\<lambda>sim'. sim_ok sim' \<and> running (sim_state sim') \<and>
    State_arch (sim_state sim') = State_arch (sim_state sim) \<and> program sim' = program sim \<and>
    urnd_reseed_complete (sim_state sim') \<and> \<not> urnd_stall (sim_state sim') \<and>
    start_stall (sim_state sim') = urnd_stall (sim_state sim) \<and>
    imem_size (sim_state sim') = imem_size (sim_state sim) \<and>
    (if urnd_stall (sim_state sim) then st_ext (sim_state sim') = st_ext (sim_state sim)
     else ExtRegs_cur (st_ext (sim_state sim')) = ExtRegs_pend (st_ext (sim_state sim))))"
  using step_start_stall [OF assms(1-3)] assms(4)
  by (auto simp: run_step_eq returns_bindR serve_rnd_ok elim!: returns_mono)

text \<open>The run of a program whose first instruction is \<^verbatim>\<open>ECALL\<close>, cycle by cycle.\<close>

lemma ecall_runs_in:
  assumes "State_inv (sim_state sim)" and "State_quiet (sim_state sim)"
    and "prog_ok (imem_size (sim_state sim)) (program sim)"
    and "ExtRegs_cur (st_ext (sim_state sim)) ''START_ADDR'' = Some a"
    and "a mod 4 = 0" and "a + 4 < imem_size (sim_state sim)"
    and "body (program sim ! nat (drop_bit 2 a)) = Legal ECALL"
  shows "\<exists>sim1 sim'. OTBNSim_start sim = Inr sim1 \<and> sim_ok sim1 \<and> runs_in False 3 (sim_with_urnd sim1) sim' \<and>
    \<not> running (sim_state sim') \<and>
    State_arch (sim_state sim') = start_arch a (State_arch (sim_state sim)) \<and>
    ExtRegs_cur (st_ext (sim_state sim')) ''ERR_BITS'' = Some 0 \<and>
    ExtRegs_cur (st_ext (sim_state sim')) ''INTR_STATE'' = Some 1 \<and>
    ExtRegs_cur (st_ext (sim_state sim')) ''STATUS'' = Some 0"
proof -
  have "a < imem_size (sim_state sim)" using assms(6) by simp
  then obtain sim1 where st: "OTBNSim_start sim = Inr sim1" "sim_stalled_at_start sim1"
    "State_arch (sim_state sim1) = start_arch a (State_arch (sim_state sim))" "program sim1 = program sim"
    "imem_size (sim_state sim1) = imem_size (sim_state sim)"
    using start_ok [OF assms(1-5)] by (auto elim: returnsE)
  let ?u = "sim_with_urnd sim1"
  have u: "sim_ok ?u" "running (sim_state ?u)" "start_stall (sim_state ?u)" "urnd_reseed_complete (sim_state ?u)"
    "urnd_stall (sim_state ?u)" "State_arch (sim_state ?u) = State_arch (sim_state sim1)"
    "program ?u = program sim1" "imem_size (sim_state ?u) = imem_size (sim_state sim1)"
    using st(2) by (simp_all add: sim_stalled_at_start_def sim_with_urnd_ok)
      (simp_all add: sim_with_urnd_def State_set_urnd_reseed_complete_def State_arch_def)
  obtain c1 where c1: "OTBNSim_run_step False ?u = Inr c1" "sim_ok c1" "running (sim_state c1)"
    "start_stall (sim_state c1)" "urnd_reseed_complete (sim_state c1)" "\<not> urnd_stall (sim_state c1)"
    "State_arch (sim_state c1) = State_arch (sim_state sim1)" "program c1 = program sim"
    "imem_size (sim_state c1) = imem_size (sim_state sim)"
    using run_step_start_stall [OF u(1-4)] u(5-8) st(4,5) by (auto elim: returnsE)
  obtain c2 where c2: "OTBNSim_run_step False c1 = Inr c2" "sim_ready c2"
    "State_arch (sim_state c2) = State_arch (sim_state sim1)" "program c2 = program sim"
    "imem_size (sim_state c2) = imem_size (sim_state sim)"
    using run_step_start_stall [OF c1(2-5)] c1(6-9) by (auto simp: sim_ready_def elim: returnsE)
  have pc: "pc (sim_state c2) = a"
    using arg_cong [OF c2(3), of a_pc] st(3) by (simp add: State_arch_def start_arch_def)
  then have i: "body (current_insn c2) = Legal ECALL" using assms(7) c2(4) by (simp add: current_insn_def)
  have "returns (insn_outcome (Legal ECALL) (sim_state c2)) (\<lambda>s2. pending_halt s2 \<and> err_bits s2 = 0)"
    using c2(2,5) pc assms(6) by (intro ecall_outcome) (simp_all add: sim_ready_def sim_ok_def)
  then obtain c3 where c3: "OTBNSim_run_step False c2 = Inr c3" "\<not> running (sim_state c3)"
    "State_arch (sim_state c3) = State_arch (sim_state c2)"
    "ExtRegs_cur (st_ext (sim_state c3)) = (ExtRegs_cur (st_ext (sim_state c2)))
       (''INTR_STATE'' \<mapsto> 1, ''STATUS'' \<mapsto> 0, ''ERR_BITS'' \<mapsto> 0)"
    using step_exec [OF c2(2) i pre_execute_other]
    by (auto simp: run_step_eq is_load_def reads_rnd_def insn_effect_def elim!: returnsE)
  have "runs_in False 3 ?u c3"
    using runs_in.stop [OF c3(2)] c1 c2(1,2) c3(1) u(2)
    by (auto simp: numeral_3_eq_3 sim_ready_def intro!: runs_in.step)
  then show ?thesis
    using st c3 c2(3) by (intro exI [of _ sim1] exI [of _ c3]) (simp add: sim_stalled_at_start_def)
qed

text \<open>
  C37: the shortest run.  A program whose first instruction is \<^verbatim>\<open>ECALL\<close> (not in the last word of the
  instruction memory) is run in exactly three cycles, two of them the start handshake; registers
  and data memory are untouched, no error bit is set, the interrupt is raised and the machine is
  idle.
\<close>

theorem run_ecall:
  assumes "State_inv (sim_state sim)" and "State_quiet (sim_state sim)"
    and "prog_ok (imem_size (sim_state sim)) (program sim)"
    and "ExtRegs_cur (st_ext (sim_state sim)) ''START_ADDR'' = Some a"
    and "a mod 4 = 0" and "a + 4 < imem_size (sim_state sim)"
    and "body (program sim ! nat (drop_bit 2 a)) = Legal ECALL"
  shows "\<exists>sim1 sim'. OTBNSim_start sim = Inr sim1 \<and> OTBNSim_run False sim1 = Some (Inr (3, sim')) \<and>
    \<not> running (sim_state sim') \<and>
    State_arch (sim_state sim') = start_arch a (State_arch (sim_state sim)) \<and>
    ExtRegs_cur (st_ext (sim_state sim')) ''ERR_BITS'' = Some 0 \<and>
    ExtRegs_cur (st_ext (sim_state sim')) ''INTR_STATE'' = Some 1 \<and>
    ExtRegs_cur (st_ext (sim_state sim')) ''STATUS'' = Some 0"
proof -
  from ecall_runs_in [OF assms] obtain sim1 sim' where r: "OTBNSim_start sim = Inr sim1" "runs_in False 3 (sim_with_urnd sim1) sim'"
    "\<not> running (sim_state sim')" "State_arch (sim_state sim') = start_arch a (State_arch (sim_state sim))"
    "ExtRegs_cur (st_ext (sim_state sim')) ''ERR_BITS'' = Some 0" "ExtRegs_cur (st_ext (sim_state sim')) ''INTR_STATE'' = Some 1"
    "ExtRegs_cur (st_ext (sim_state sim')) ''STATUS'' = Some 0"
    by blast
  from runs_in_loop [OF r(2), of 0] have "OTBNSim_run False sim1 = Some (Inr (3, sim'))"
    by (simp add: OTBNSim_run_def sim_with_urnd_def)
  with r show ?thesis by blast
qed

definition ecall_sim :: otbn_sim where
  "ecall_sim = \<lparr>sim_state = otbn_reset, program = replicate 1024 (OTBNInsn_init 0x73 ECALL), stats = None\<rparr>"

lemma ecall_sim_facts:
  "State_inv (sim_state ecall_sim)" "State_quiet (sim_state ecall_sim)"
  "prog_ok (imem_size (sim_state ecall_sim)) (program ecall_sim)"
  "ExtRegs_cur (st_ext (sim_state ecall_sim)) ''START_ADDR'' = Some 0" "(0 :: int) mod 4 = 0"
  "0 + 4 < imem_size (sim_state ecall_sim)" "body (program ecall_sim ! nat (drop_bit 2 0)) = Legal ECALL"
proof -
  have s: "sim_state ecall_sim = sim_state demo_sim" by (simp add: ecall_sim_def demo_sim_def)
  show "State_inv (sim_state ecall_sim)" "State_quiet (sim_state ecall_sim)"
    "ExtRegs_cur (st_ext (sim_state ecall_sim)) ''START_ADDR'' = Some 0"
    using demo_sim_state s by auto
  show "prog_ok (imem_size (sim_state ecall_sim)) (program ecall_sim)"
    by (simp add: ecall_sim_def prog_ok_def OTBNInsn_init_def body_ok_def)
  show "0 + 4 < imem_size (sim_state ecall_sim)" "body (program ecall_sim ! nat (drop_bit 2 0)) = Legal ECALL"
    by (simp_all add: ecall_sim_def OTBNInsn_init_def)
qed simp

text \<open>A run that returns: the machine started on a program of \<^verbatim>\<open>ECALL\<close>s returns after three cycles.\<close>

theorem run_counts_cycles_witness:
  "\<exists>sim1 sim'. OTBNSim_start ecall_sim = Inr sim1 \<and> OTBNSim_run False sim1 = Some (Inr (3, sim')) \<and>
     \<not> running (sim_state sim')"
proof -
  from ecall_runs_in [OF ecall_sim_facts] obtain sim1 sim' where r: "OTBNSim_start ecall_sim = Inr sim1" "sim_ok sim1"
    "runs_in False 3 (sim_with_urnd sim1) sim'" "\<not> running (sim_state sim')"
    by blast
  have "\<exists>n. 3 = int n \<and> runs_in False n (sim_with_urnd sim1) sim'"
    using r(3) by (intro exI [of _ 3]) simp
  with run_counts_cycles [OF r(2), of AssertionError 3 sim'] have "OTBNSim_run False sim1 = Some (Inr (3, sim'))" by blast
  with r(1,4) show ?thesis by blast
qed

theorem run_ecall_witness:
  "\<exists>sim1 sim'. OTBNSim_start ecall_sim = Inr sim1 \<and> OTBNSim_run False sim1 = Some (Inr (3, sim')) \<and>
     ExtRegs_cur (st_ext (sim_state sim')) ''ERR_BITS'' = Some 0"
  using run_ecall [OF ecall_sim_facts] by blast

section \<open>Statistics\<close>

text \<open>
  The statistics add up.  Recording an instruction raises no exception when the machine state
  satisfies its invariant, the statistics know the program and a loop instruction has left the
  machine in a loop; it adds one to the count of the instruction's mnemonic and of no other, leaves
  the stall count alone, and keeps the balance: the lengths of the finished basic blocks (and of
  the extended basic blocks), weighted with their frequencies, plus the length of the current one
  add up to the number of instructions executed.
\<close>

theorem record_insn_balances:
  assumes "ExtRegs_inv otbn_shape (st_ext s)" and "list_all LoopLevel_inv (levels (loop_stack_of s))"
    and "loops_aligned (loop_stack_of s)" and "is_loop (body insn) \<noteq> None \<longrightarrow> State_in_loop s"
    and "pc s < 4 * int (length (stats_program st))"
    and "counter_weight (basic_block_histo st) + current_basic_block_len st = get_insn_count st"
    and "counter_weight (ext_basic_block_histo st) + current_ext_basic_block_len st = get_insn_count st"
  shows "returns (record_insn insn s st) (\<lambda>st'.
     get_insn_count st' = get_insn_count st + 1 \<and> stall_count st' = stall_count st \<and>
     (\<forall>m. counter_get (insn_histo st') m =
        counter_get (insn_histo st) m + (if m = body_mnemonic (body insn) then 1 else 0)) \<and>
     counter_weight (basic_block_histo st') + current_basic_block_len st' = get_insn_count st' \<and>
     counter_weight (ext_basic_block_histo st') + current_ext_basic_block_len st' = get_insn_count st')"
  using record_insn_ok [OF assms(1-5)] assms(6,7) by (auto simp: stats_balanced_def elim!: returns_mono)

theorem record_insn_balances_witness:
  "returns (record_insn (OTBNInsn_init 0x73 ECALL) otbn_reset (ExecutionStats_init demo_program))
     (\<lambda>st'. get_insn_count st' = 1 \<and> counter_get (insn_histo st') ''ecall'' = 1)"
proof -
  have "list_all LoopLevel_inv (levels (loop_stack_of otbn_reset))" "loops_aligned (loop_stack_of otbn_reset)"
    "ExtRegs_inv otbn_shape (st_ext otbn_reset)"
    using otbn_reset_inv by (simp_all add: State_inv_def loops_aligned_def LoopStack_init_def)
  from record_insn_balances [OF this(3,1,2), of "OTBNInsn_init 0x73 ECALL" "ExecutionStats_init demo_program"]
  show ?thesis
    by (auto simp: is_loop_def OTBNInsn_init_def ExecutionStats_init_def demo_program_def counter_weight_def
        get_insn_count_def counter_total_def counter_get_def body_mnemonic_def insn_mnemonic_def
        elim!: returns_mono)
qed

end
