(* ===== verification/Py_Strings.thy ===== *)
theory Py_Strings
  imports Prelude
begin

text \<open>
  The Python string operations the instruction database is parsed with: \<^verbatim>\<open>split\<close>, \<^verbatim>\<open>strip\<close>, \<^verbatim>\<open>lower\<close>,
  \<^verbatim>\<open>int\<close> and \<^verbatim>\<open>str\<close>, and the regular expression fragments of runs of digits.  A string is a list of
  characters with codes below 256.

  The pattern \<^verbatim>\<open>$\<close> of Python's \<^verbatim>\<open>re\<close> matches at the end of the string and also before a newline that
  ends it; \<open>at_end\<close> keeps that.
\<close>

section \<open>Operations\<close>

definition char_code :: "char \<Rightarrow> nat" where
  "char_code c = of_char c"

definition is_digit :: "char \<Rightarrow> bool" where
  "is_digit c \<longleftrightarrow> 48 \<le> char_code c \<and> char_code c \<le> 57"

definition is_space :: "char \<Rightarrow> bool" where
  "is_space c \<longleftrightarrow>
     (let n = char_code c in 9 \<le> n \<and> n \<le> 13 \<or> 28 \<le> n \<and> n \<le> 32 \<or> n = 133 \<or> n = 160)"

definition to_lower :: "char \<Rightarrow> char" where
  "to_lower c =
     (let n = char_code c
      in if 65 \<le> n \<and> n \<le> 90 \<or> 192 \<le> n \<and> n \<le> 222 \<and> n \<noteq> 215 then char_of (n + 32) else c)"

definition py_lower :: "string \<Rightarrow> string" where
  "py_lower s = map to_lower s"

definition py_strip :: "string \<Rightarrow> string" where
  "py_strip s = rev (dropWhile is_space (rev (dropWhile is_space s)))"

text \<open>\<^verbatim>\<open>s.split(c)\<close>: there is always at least one part.\<close>

fun py_split :: "char \<Rightarrow> string \<Rightarrow> string list" where
  "py_split c [] = [[]]"
| "py_split c (x # xs) =
     (if x = c then [] # py_split c xs
      else case py_split c xs of [] \<Rightarrow> [[x]] | p # ps \<Rightarrow> (x # p) # ps)"

fun py_join :: "char \<Rightarrow> string list \<Rightarrow> string" where
  "py_join c [] = []"
| "py_join c [p] = p"
| "py_join c (p # ps) = p @ c # py_join c ps"

definition digit_val :: "char \<Rightarrow> int" where
  "digit_val c = int (char_code c) - 48"

text \<open>\<^verbatim>\<open>int(s)\<close> and \<^verbatim>\<open>str(n)\<close> on decimal digits.\<close>

definition digits_val :: "string \<Rightarrow> int" where
  "digits_val s = foldl (\<lambda>acc c. 10 * acc + digit_val c) 0 s"

definition digit_char :: "nat \<Rightarrow> char" where
  "digit_char n = char_of (n + 48)"

fun str_of_nat :: "nat \<Rightarrow> string" where
  "str_of_nat n = (if n < 10 then [digit_char n] else str_of_nat (n div 10) @ [digit_char (n mod 10)])"

definition str_of_int :: "int \<Rightarrow> string" where
  "str_of_int v = (if v < 0 then CHR ''-'' # str_of_nat (nat (- v)) else str_of_nat (nat v))"

definition at_end :: "string \<Rightarrow> bool" where
  "at_end s \<longleftrightarrow> s = [] \<or> s = [CHR 0x0A]"

text \<open>The greedy match of \<^verbatim>\<open>[0-9]+\<close> at the start of a string, and of \<^verbatim>\<open>[0-9]*\<close>.\<close>

definition take_digits :: "string \<Rightarrow> (string \<times> string) option" where
  "take_digits s =
     (case takeWhile is_digit s of [] \<Rightarrow> None | ds \<Rightarrow> Some (ds, dropWhile is_digit s))"

text \<open>\<^verbatim>\<open>sep.join(ps)\<close> and \<^verbatim>\<open>s.startswith(p)\<close>.\<close>

fun str_join :: "string \<Rightarrow> string list \<Rightarrow> string" where
  "str_join sep [] = []"
| "str_join sep [p] = p"
| "str_join sep (p # ps) = p @ sep @ str_join sep ps"

definition starts_with :: "string \<Rightarrow> string \<Rightarrow> bool" where
  "starts_with p s \<longleftrightarrow> take (length p) s = p"

text \<open>
  \<^verbatim>\<open>int(s, 0)\<close>: surrounding whitespace, a sign, a base prefix and single underscores between digits
  are allowed; a decimal number other than zero has no leading zero.  \<open>None\<close> is a \<^verbatim>\<open>ValueError\<close>.
\<close>

definition is_int_space :: "char \<Rightarrow> bool" where
  "is_int_space c \<longleftrightarrow> (let n = char_code c in 9 \<le> n \<and> n \<le> 13 \<or> n = 32 \<or> n = 133 \<or> n = 160)"

definition base_digit :: "int \<Rightarrow> char \<Rightarrow> int option" where
  "base_digit b c =
     (let n = int (char_code c);
          d = (if 48 \<le> n \<and> n \<le> 57 then n - 48
               else if 97 \<le> n \<and> n \<le> 122 then n - 87
               else if 65 \<le> n \<and> n \<le> 90 then n - 55 else b)
      in if d < b then Some d else None)"

fun int_digits :: "int \<Rightarrow> int \<Rightarrow> bool \<Rightarrow> string \<Rightarrow> int option" where
  "int_digits b acc ok [] = (if ok then Some acc else None)"
| "int_digits b acc ok (c # cs) =
     (if c = CHR ''_'' then (if ok then int_digits b acc False cs else None)
      else case base_digit b c of Some d \<Rightarrow> int_digits b (b * acc + d) True cs | None \<Rightarrow> None)"

definition prefixed_digits :: "int \<Rightarrow> string \<Rightarrow> int option" where
  "prefixed_digits b s = (if s = [] then None else int_digits b 0 True s)"

definition unsigned_lit :: "string \<Rightarrow> int option" where
  "unsigned_lit s =
     (case s of
        c # p # r \<Rightarrow>
          if c = CHR ''0'' \<and> p \<in> {CHR ''x'', CHR ''X''} then prefixed_digits 16 r
          else if c = CHR ''0'' \<and> p \<in> {CHR ''o'', CHR ''O''} then prefixed_digits 8 r
          else if c = CHR ''0'' \<and> p \<in> {CHR ''b'', CHR ''B''} then prefixed_digits 2 r
          else (case int_digits 10 0 False s of
                  Some v \<Rightarrow> if c = CHR ''0'' \<and> v \<noteq> 0 then None else Some v
                | None \<Rightarrow> None)
      | _ \<Rightarrow> int_digits 10 0 False s)"

definition py_int0 :: "string \<Rightarrow> int option" where
  "py_int0 s =
     (let t = rev (dropWhile is_int_space (rev (dropWhile is_int_space s)))
      in case t of
           [] \<Rightarrow> None
         | c # r \<Rightarrow>
             if c = CHR ''-'' then map_option uminus (unsigned_lit r)
             else if c = CHR ''+'' then unsigned_lit r
             else unsigned_lit t)"

text \<open>\<^verbatim>\<open>int(s, 16)\<close>: whitespace around the number, a sign, a prefix and underscores are allowed.\<close>

definition unsigned_hex :: "string \<Rightarrow> int option" where
  "unsigned_hex s =
     (case s of
        c # p # r \<Rightarrow>
          if c = CHR ''0'' \<and> p \<in> {CHR ''x'', CHR ''X''} then prefixed_digits 16 r
          else int_digits 16 0 False s
      | _ \<Rightarrow> int_digits 16 0 False s)"

definition py_int16 :: "string \<Rightarrow> int option" where
  "py_int16 s =
     (let t = rev (dropWhile is_int_space (rev (dropWhile is_int_space s)))
      in case t of
           [] \<Rightarrow> None
         | c # r \<Rightarrow>
             if c = CHR ''-'' then map_option uminus (unsigned_hex r)
             else if c = CHR ''+'' then unsigned_hex r
             else unsigned_hex t)"

text \<open>\<^verbatim>\<open>s.split()\<close>\<close>

fun py_words_from :: "string \<Rightarrow> string \<Rightarrow> string list" where
  "py_words_from w [] = (if w = [] then [] else [w])"
| "py_words_from w (c # cs) =
     (if is_space c then (if w = [] then py_words_from [] cs else w # py_words_from [] cs)
      else py_words_from (w @ [c]) cs)"

definition py_words :: "string \<Rightarrow> string list" where
  "py_words s = py_words_from [] s"

text \<open>\<^verbatim>\<open>int.bit_length\<close> of a non-negative integer.\<close>

fun bit_length :: "nat \<Rightarrow> int" where
  "bit_length n = (if n = 0 then 0 else 1 + bit_length (n div 2))"

declare bit_length.simps [simp del]

section \<open>Properties\<close>

lemma py_split_nonempty [simp]: "py_split c s \<noteq> []"
  by (induction s) (auto split: list.split)

lemma py_join_Cons: "ps \<noteq> [] \<Longrightarrow> py_join c (p # ps) = p @ c # py_join c ps"
  by (cases ps) simp_all

lemma py_split_join_ex:
  "\<exists>p ps. py_split c s = p # ps \<and> s = py_join c (p # ps)"
proof (induction s)
  case (Cons x s)
  then obtain p ps where p: "py_split c s = p # ps" "s = py_join c (p # ps)" by blast
  then show ?case
    by (cases "x = c"; cases ps) (auto simp: py_join_Cons)
qed simp

lemma py_join_split: "py_join c (py_split c s) = s"
  using py_split_join_ex [of c s] by auto

lemma py_split_no_sep: "p \<in> set (py_split c s) \<Longrightarrow> c \<notin> set p"
proof (induction s arbitrary: p)
  case (Cons x s)
  obtain q qs where "py_split c s = q # qs" using py_split_join_ex by blast
  then show ?case using Cons by (auto split: if_splits)
qed simp

lemma py_split_append:
  "c \<notin> set p \<Longrightarrow> py_split c (p @ c # s) = p # py_split c s"
  by (induction p) (auto split: list.split)

lemma py_split_self: "c \<notin> set p \<Longrightarrow> py_split c p = [p]"
  by (induction p) auto

lemma py_split_join:
  "ps \<noteq> [] \<Longrightarrow> list_all (\<lambda>p. c \<notin> set p) ps \<Longrightarrow> py_split c (py_join c ps) = ps"
  by (induction c ps rule: py_join.induct) (simp_all add: py_split_append py_split_self)

declare str_of_nat.simps [simp del]

lemma char_code_digit [simp]: "n < 10 \<Longrightarrow> char_code (digit_char n) = n + 48"
  by (simp add: char_code_def digit_char_def)

lemma is_digit_digit_char [simp]: "n < 10 \<Longrightarrow> is_digit (digit_char n)"
  by (simp add: is_digit_def)

lemma digit_val_digit_char [simp]: "n < 10 \<Longrightarrow> digit_val (digit_char n) = int n"
  by (simp add: digit_val_def)

lemma digits_val_snoc [simp]: "digits_val (s @ [c]) = 10 * digits_val s + digit_val c"
  by (simp add: digits_val_def)

lemma str_of_nat_digits: "list_all is_digit (str_of_nat n) \<and> str_of_nat n \<noteq> [] \<and> digits_val (str_of_nat n) = int n"
proof (induction n rule: str_of_nat.induct)
  case (1 n)
  show ?case
  proof (cases "n < 10")
    case True
    then show ?thesis by (simp add: str_of_nat.simps [of n]) (simp add: digits_val_def)
  next
    case False
    then have "10 * int (n div 10) + int (n mod 10) = int n"
      by (metis mult_div_mod_eq of_nat_add of_nat_mult of_nat_numeral)
    then show ?thesis using 1 False by (simp add: str_of_nat.simps [of n])
  qed
qed

lemma take_digits_append:
  assumes "list_all is_digit ds" and "ds \<noteq> []" and "s = [] \<or> \<not> is_digit (hd s)"
  shows "take_digits (ds @ s) = Some (ds, s)"
proof -
  have "takeWhile is_digit s = []" "dropWhile is_digit s = s"
    using assms(3) by (cases s; simp)+
  moreover have "\<forall>c \<in> set ds. is_digit c" using assms(1) by (simp add: list_all_iff)
  ultimately have "takeWhile is_digit (ds @ s) = ds" "dropWhile is_digit (ds @ s) = s"
    by (simp_all add: takeWhile_append2 dropWhile_append2)
  then show ?thesis
    using assms(2) by (cases ds) (simp_all add: take_digits_def)
qed

lemma take_digits_SomeD:
  "take_digits s = Some (ds, r) \<Longrightarrow> list_all is_digit ds \<and> ds \<noteq> [] \<and> s = ds @ r"
  by (auto simp: take_digits_def list_all_iff split: list.splits dest: set_takeWhileD)

lemma digits_val_nonneg:
  assumes "list_all is_digit ds"
  shows "0 \<le> digits_val ds"
  using assms
proof (induction ds rule: rev_induct)
  case (snoc c ds)
  then show ?case by (simp add: digit_val_def is_digit_def)
qed (simp add: digits_val_def)

lemma take_digits_nonneg: "take_digits s = Some (ds, r) \<Longrightarrow> 0 \<le> digits_val ds"
  using take_digits_SomeD digits_val_nonneg by blast

text \<open>Parsing with \<^verbatim>\<open>int(s, 0)\<close> what \<^verbatim>\<open>str\<close> printed.\<close>

lemma base_digit_10: "is_digit c \<Longrightarrow> base_digit 10 c = Some (digit_val c) \<and> c \<noteq> CHR ''_''"
  by (auto simp: base_digit_def is_digit_def digit_val_def char_code_def Let_def)

lemma int_digits_10:
  "list_all is_digit ds \<Longrightarrow> ok \<or> ds \<noteq> [] \<Longrightarrow>
   int_digits 10 acc ok ds = Some (foldl (\<lambda>acc c. 10 * acc + digit_val c) acc ds)"
proof (induction ds arbitrary: acc ok)
  case (Cons c ds)
  then show ?case using base_digit_10 [of c] by simp
qed simp

lemma str_of_nat_hd: "10 \<le> n \<Longrightarrow> hd (str_of_nat n) \<noteq> CHR ''0''"
proof (induction n rule: str_of_nat.induct)
  case (1 n)
  have ne: "str_of_nat (n div 10) \<noteq> []" using str_of_nat_digits by blast
  show ?case
  proof (cases "10 \<le> n div 10")
    case True
    then show ?thesis using 1 ne by (simp add: str_of_nat.simps [of n])
  next
    case False
    then have d: "n div 10 < 10" "0 < n div 10" using "1.prems" by (simp_all add: div_greater_zero_iff)
    then have "char_code (digit_char (n div 10)) \<noteq> char_code (CHR ''0'')"
      by (simp add: char_code_def [of "CHR ''0''"])
    then have "digit_char (n div 10) \<noteq> CHR ''0''" by metis
    then show ?thesis
      using "1.prems" d by (simp add: str_of_nat.simps [of n] str_of_nat.simps [of "n div 10"])
  qed
qed

lemma unsigned_lit_str_of_nat: "unsigned_lit (str_of_nat n) = Some (int n)"
proof -
  have d: "list_all is_digit (str_of_nat n)" "str_of_nat n \<noteq> []" "digits_val (str_of_nat n) = int n"
    using str_of_nat_digits by auto
  then have i: "int_digits 10 0 False (str_of_nat n) = Some (int n)"
    by (simp add: int_digits_10 digits_val_def)
  show ?thesis
  proof (cases "n < 10")
    case True
    then show ?thesis using i by (simp add: unsigned_lit_def str_of_nat.simps [of n])
  next
    case False
    obtain c q where q: "str_of_nat (n div 10) = c # q" using str_of_nat_digits by (metis neq_Nil_conv)
    obtain p r where "q @ [digit_char (n mod 10)] = p # r" by (cases q) auto
    then have s: "str_of_nat n = c # p # r" using False q by (simp add: str_of_nat.simps [of n])
    show ?thesis using i s str_of_nat_hd [of n] False by (simp add: unsigned_lit_def)
  qed
qed

lemma py_int0_str_of_int: "py_int0 (str_of_int v) = Some v"
proof -
  have sp: "\<not> is_int_space c" if "is_digit c" for c
    using that by (auto simp: is_int_space_def is_digit_def Let_def)
  have d: "list_all is_digit (str_of_nat n)" "str_of_nat n \<noteq> []" for n
    using str_of_nat_digits by auto
  have strip: "rev (dropWhile is_int_space (rev (dropWhile is_int_space s))) = s"
    if "s \<noteq> []" "\<not> is_int_space (hd s)" "\<not> is_int_space (last s)" for s
    using that by (metis dropWhile_eq_self_iff hd_rev rev_is_Nil_conv rev_rev_ident)
  obtain c r where n: "str_of_nat (nat \<bar>v\<bar>) = c # r" using d(2) by (metis neq_Nil_conv)
  have c: "is_digit c" "is_digit (last (c # r))" using d(1) [of "nat \<bar>v\<bar>"] n by (auto simp: list_all_iff)
  then have nc: "c \<noteq> CHR ''-''" "c \<noteq> CHR ''+''" by (auto simp: is_digit_def char_code_def)
  have m: "\<not> is_int_space (CHR ''-'')" by (simp add: is_int_space_def char_code_def)
  show ?thesis
  proof (cases "v < 0")
    case True
    then have s: "str_of_int v = CHR ''-'' # c # r" using n by (simp add: str_of_int_def)
    have "unsigned_lit (c # r) = Some (- v)" using unsigned_lit_str_of_nat [of "nat \<bar>v\<bar>"] n True by simp
    then show ?thesis using strip [of "CHR ''-'' # c # r"] m c sp by (simp add: py_int0_def Let_def s)
  next
    case False
    then have s: "str_of_int v = c # r" using n by (simp add: str_of_int_def)
    have "unsigned_lit (c # r) = Some v" using unsigned_lit_str_of_nat [of "nat \<bar>v\<bar>"] n False by simp
    then show ?thesis using strip [of "c # r"] c sp nc by (simp add: py_int0_def Let_def s)
  qed
qed

lemma bit_length_bound: "0 \<le> bit_length n \<and> n < 2 ^ nat (bit_length n)"
proof (induction n rule: bit_length.induct)
  case (1 n)
  show ?case
  proof (cases "n = 0")
    case False
    then have IH: "0 \<le> bit_length (n div 2)" "n div 2 < 2 ^ nat (bit_length (n div 2))" using 1 by simp_all
    then have "n < 2 * 2 ^ nat (bit_length (n div 2))" by linarith
    then show ?thesis using IH False by (simp add: bit_length.simps [of n] nat_add_distrib)
  qed (simp add: bit_length.simps)
qed

lemma py_lower_idem: "py_lower (py_lower s) = py_lower s"
proof -
  have "to_lower (to_lower c) = to_lower c" for c
    by (auto simp: to_lower_def char_code_def Let_def)
  then show ?thesis by (simp add: py_lower_def)
qed

end
