(* ===== verification/Yaml.thy ===== *)
theory Yaml
  imports Py_Strings
begin

text \<open>
  Parsed YAML and the checks of \<^verbatim>\<open>util/shared/yaml_parse_helpers.py\<close>.

  \<open>yaml\<close> is what the YAML loader returns: the loader itself is a library.  A dictionary is an
  association list in insertion order with distinct keys, as Python's \<^verbatim>\<open>dict\<close> is; keys are objects
  too, because the callers check that they are strings.  In Python \<^verbatim>\<open>bool\<close> is a subclass of \<^verbatim>\<open>int\<close>, so
  \<^verbatim>\<open>check_int\<close> accepts a boolean and yields 0 or 1.  The \<^verbatim>\<open>what\<close> arguments only name objects in
  error messages and are left out.
\<close>

section \<open>Data and operations\<close>

datatype (plugins only: code size) yaml =
    YNone
  | YBool bool
  | YInt int
  | YStr string
  | YList "yaml list"
  | YDict "(yaml \<times> yaml) list"

type_synonym yaml_dict = "(yaml \<times> yaml) list"

text \<open>\<^verbatim>\<open>d.get(k)\<close>, \<^verbatim>\<open>d[k]\<close> and \<^verbatim>\<open>k in d\<close> for a string key.\<close>

fun ydict_get :: "yaml_dict \<Rightarrow> string \<Rightarrow> yaml option" where
  "ydict_get [] k = None"
| "ydict_get ((k', v) # d) k = (if k' = YStr k then Some v else ydict_get d k)"

definition ydict_item :: "yaml_dict \<Rightarrow> string \<Rightarrow> yaml result" where
  "ydict_item d k = (case ydict_get d k of Some v \<Rightarrow> Inr v | None \<Rightarrow> Inl KeyError)"

definition ydict_get_or_None :: "yaml_dict \<Rightarrow> string \<Rightarrow> yaml" where
  "ydict_get_or_None d k = (case ydict_get d k of Some v \<Rightarrow> v | None \<Rightarrow> YNone)"

text \<open>Python's truth value of a parsed value.\<close>

definition yaml_truthy :: "yaml \<Rightarrow> bool" where
  "yaml_truthy v =
     (case v of YNone \<Rightarrow> False | YBool b \<Rightarrow> b | YInt n \<Rightarrow> n \<noteq> 0 | YStr s \<Rightarrow> s \<noteq> [] | YList l \<Rightarrow> l \<noteq> [] | YDict d \<Rightarrow> d \<noteq> [])"

definition check_keys :: "yaml \<Rightarrow> string list \<Rightarrow> string list \<Rightarrow> yaml_dict result" where
  "check_keys obj required_keys optional_keys =
     (case obj of
        YDict d \<Rightarrow>
          require (distinct (required_keys @ optional_keys))
            (let missing = filter (\<lambda>k. ydict_get d k = None) required_keys;
                 unexpected = filter (\<lambda>k. k \<notin> set (map YStr (required_keys @ optional_keys))) (map fst d)
             in if missing \<noteq> [] \<or> unexpected \<noteq> [] then Inl ValueError else Inr d)
      | _ \<Rightarrow> Inl ValueError)"

definition check_str :: "yaml \<Rightarrow> string result" where
  "check_str obj = (case obj of YStr s \<Rightarrow> Inr s | _ \<Rightarrow> Inl ValueError)"

definition check_optional_str :: "yaml \<Rightarrow> string option result" where
  "check_optional_str obj =
     (case obj of YNone \<Rightarrow> Inr None | YStr s \<Rightarrow> Inr (Some s) | _ \<Rightarrow> Inl ValueError)"

definition check_bool :: "yaml \<Rightarrow> bool result" where
  "check_bool obj = (case obj of YBool b \<Rightarrow> Inr b | _ \<Rightarrow> Inl ValueError)"

definition check_int :: "yaml \<Rightarrow> int result" where
  "check_int obj = (case obj of YInt n \<Rightarrow> Inr n | YBool b \<Rightarrow> Inr (py_int b) | _ \<Rightarrow> Inl ValueError)"

definition check_list :: "yaml \<Rightarrow> yaml list result" where
  "check_list obj = (case obj of YList l \<Rightarrow> Inr l | _ \<Rightarrow> Inl ValueError)"

text \<open>\<^verbatim>\<open>index_list\<close> builds a dictionary, here an association list in the order of the objects.\<close>

fun index_list_from :: "(string \<times> 'a) list \<Rightarrow> ('a \<Rightarrow> string) \<Rightarrow> 'a list \<Rightarrow> (string \<times> 'a) list result" where
  "index_list_from ret get_key [] = Inr ret"
| "index_list_from ret get_key (obj # objs) =
     (let key = get_key obj
      in if map_of ret key \<noteq> None then Inl ValueError
         else index_list_from (ret @ [(key, obj)]) get_key objs)"

definition index_list :: "'a list \<Rightarrow> ('a \<Rightarrow> string) \<Rightarrow> (string \<times> 'a) list result" where
  "index_list objs get_key = index_list_from [] get_key objs"

definition get_optional_str :: "yaml_dict \<Rightarrow> string \<Rightarrow> string option result" where
  "get_optional_str d k = check_optional_str (ydict_get_or_None d k)"

text \<open>A comprehension \<^verbatim>\<open>[f(x) for x in xs]\<close> whose body may raise.\<close>

fun mapR :: "('a \<Rightarrow> 'b result) \<Rightarrow> 'a list \<Rightarrow> 'b list result" where
  "mapR f [] = Inr []"
| "mapR f (x # xs) = bindR (f x) (\<lambda>y. bindR (mapR f xs) (\<lambda>ys. Inr (y # ys)))"

section \<open>Properties\<close>

lemma mapR_Inr_iff: "mapR f xs = Inr ys \<longleftrightarrow> length ys = length xs \<and> (\<forall>k < length xs. f (xs ! k) = Inr (ys ! k))"
proof (induction xs arbitrary: ys)
  case (Cons x xs)
  show ?case
    by (cases ys) (auto simp: bindR_Inr_iff Cons nth_Cons split: nat.splits)
qed auto

lemma index_list_from_Inr_iff:
  "index_list_from ret f objs = Inr d \<longleftrightarrow>
     d = ret @ map (\<lambda>x. (f x, x)) objs \<and>
     (distinct (map f objs) \<and> set (map f objs) \<inter> set (map fst ret) = {})"
proof (induction ret f objs rule: index_list_from.induct)
  case (2 ret f obj objs)
  then show ?case
    by (auto simp: Let_def map_of_eq_None_iff)
qed auto

lemma index_list_Inr_iff:
  "index_list objs f = Inr d \<longleftrightarrow> d = map (\<lambda>x. (f x, x)) objs \<and> distinct (map f objs)"
  by (auto simp: index_list_def index_list_from_Inr_iff)

lemma check_keys_Inr_iff:
  assumes "distinct (req @ opt)"
  shows "check_keys obj req opt = Inr d \<longleftrightarrow>
    obj = YDict d \<and> (\<forall>k \<in> set req. ydict_get d k \<noteq> None) \<and> set (map fst d) \<subseteq> YStr ` set (req @ opt)"
  using assms
  by (cases obj) (auto simp: check_keys_def Let_def filter_empty_conv)

end
