(* ===== verification/Bit_Ranges.thy ===== *)
theory Bit_Ranges
  imports Yaml
begin

text \<open>
  Bit fields of instruction words: class \<^verbatim>\<open>BitRanges\<close> of \<^verbatim>\<open>util/shared/bit_ranges.py\<close> and class
  \<^verbatim>\<open>BoolLiteral\<close> of \<^verbatim>\<open>util/shared/bool_literal.py\<close>.

  A field may be scattered over several ranges of the word, most significant first.
\<close>

section \<open>Bit ranges\<close>

record bit_ranges =
  br_mask :: int
  br_ranges :: "(int \<times> int) list"
  br_width :: int

definition range_mask :: "int \<Rightarrow> int \<Rightarrow> int" where
  "range_mask msb lsb = push_bit (nat (msb + 1)) 1 - push_bit (nat lsb) 1"

fun from_list_loop :: "int \<Rightarrow> int \<Rightarrow> (int \<times> int) list \<Rightarrow> (int \<times> int) result" where
  "from_list_loop msk width [] = Inr (msk, width)"
| "from_list_loop msk width ((msb, lsb) # rs) =
     require (0 \<le> lsb \<and> lsb \<le> msb \<and> msb \<le> 31)
       (let rng_mask = range_mask msb lsb
        in require (\<not> py_bool (rng_mask AND msk))
          (from_list_loop (msk OR rng_mask) (width + (msb - lsb + 1)) rs))"

definition BitRanges_from_list :: "(int \<times> int) list \<Rightarrow> bit_ranges result" where
  "BitRanges_from_list ranges =
     bindR (from_list_loop 0 0 ranges) (\<lambda>(msk, width).
     Inr \<lparr>br_mask = msk, br_ranges = ranges, br_width = width\<rparr>)"

text \<open>The match of \<^verbatim>\<open>([0-9]+)(?:-([0-9]+))?$\<close>, as (msb, lsb).\<close>

definition parse_range :: "string \<Rightarrow> (int \<times> int) option" where
  "parse_range rng =
     (case take_digits rng of
        None \<Rightarrow> None
      | Some (ds, rest) \<Rightarrow>
          let msb = digits_val ds
          in if at_end rest then Some (msb, msb)
             else case rest of
               [] \<Rightarrow> None
             | c # rest' \<Rightarrow>
                 if c = CHR ''-'' then
                   (case take_digits rest' of
                      Some (ds', rest'') \<Rightarrow> if at_end rest'' then Some (msb, digits_val ds') else None
                    | None \<Rightarrow> None)
                 else None)"

fun from_yaml_loop :: "int \<Rightarrow> int \<Rightarrow> (int \<times> int) list \<Rightarrow> int \<Rightarrow> string list \<Rightarrow>
    (int \<times> int \<times> (int \<times> int) list \<times> int) result" where
  "from_yaml_loop overlaps msk ranges width [] = Inr (overlaps, msk, ranges, width)"
| "from_yaml_loop overlaps msk ranges width (rng # rngs) =
     (case parse_range rng of
        None \<Rightarrow> Inl ValueError
      | Some (msb, lsb) \<Rightarrow>
          if msb < lsb then Inl ValueError
          else if msb \<ge> 32 then Inl ValueError
          else
            let rng_mask = range_mask msb lsb
            in from_yaml_loop (overlaps OR (rng_mask AND msk)) (msk OR rng_mask) (ranges @ [(msb, lsb)])
                 (width + (msb - lsb + 1)) rngs)"

definition BitRanges_from_yaml :: "string \<Rightarrow> bit_ranges result" where
  "BitRanges_from_yaml as_string =
     (if as_string = [] then Inl ValueError
      else bindR (from_yaml_loop 0 0 [] 0 (py_split CHR '','' as_string)) (\<lambda>(overlaps, msk, ranges, width).
        if py_bool overlaps then Inl ValueError
        else Inr \<lparr>br_mask = msk, br_ranges = ranges, br_width = width\<rparr>))"

fun encode_loop :: "int \<Rightarrow> int \<Rightarrow> int \<Rightarrow> int \<Rightarrow> (int \<times> int) list \<Rightarrow> int \<times> int" where
  "encode_loop width v ret bits_taken [] = (ret, bits_taken)"
| "encode_loop width v ret bits_taken ((msb, lsb) # rs) =
     (let rng_width = msb - lsb + 1;
          value_msb = width - 1 - bits_taken;
          value_lsb = value_msb - rng_width + 1;
          rng_mask = low_mask (nat rng_width);
          rng_value = drop_bit (nat value_lsb) v AND rng_mask
      in encode_loop width v (ret OR push_bit (nat lsb) rng_value) (bits_taken + rng_width) rs)"

definition BitRanges_encode :: "int \<Rightarrow> bit_ranges \<Rightarrow> int result" where
  "BitRanges_encode v br =
     (let (ret, bits_taken) = encode_loop (br_width br) v 0 0 (br_ranges br)
      in require (bits_taken = br_width br) (Inr ret))"

definition BitRanges_decode :: "int \<Rightarrow> bit_ranges \<Rightarrow> int" where
  "BitRanges_decode raw br =
     foldl (\<lambda>ret (msb, lsb).
       let width = msb - lsb + 1; msk = low_mask (nat width)
       in push_bit (nat width) ret OR (drop_bit (nat lsb) raw AND msk)) 0 (br_ranges br)"

section \<open>Invariant\<close>

definition range_ok :: "int \<times> int \<Rightarrow> bool" where
  "range_ok r \<longleftrightarrow> 0 \<le> snd r \<and> snd r \<le> fst r \<and> fst r \<le> 31"

fun ranges_mask :: "(int \<times> int) list \<Rightarrow> int" where
  "ranges_mask [] = 0"
| "ranges_mask (r # rs) = range_mask (fst r) (snd r) OR ranges_mask rs"

fun ranges_width :: "(int \<times> int) list \<Rightarrow> nat" where
  "ranges_width [] = 0"
| "ranges_width (r # rs) = nat (fst r - snd r + 1) + ranges_width rs"

fun ranges_ok :: "(int \<times> int) list \<Rightarrow> bool" where
  "ranges_ok [] = True"
| "ranges_ok (r # rs) =
     (range_ok r \<and> range_mask (fst r) (snd r) AND ranges_mask rs = 0 \<and> ranges_ok rs)"

definition BitRanges_inv :: "bit_ranges \<Rightarrow> bool" where
  "BitRanges_inv br \<longleftrightarrow>
     ranges_ok (br_ranges br) \<and> br_mask br = ranges_mask (br_ranges br) \<and>
     br_width br = int (ranges_width (br_ranges br))"

lemma bit_range_mask:
  assumes "range_ok (m, l)"
  shows "bit (range_mask m l) k \<longleftrightarrow> nat l \<le> k \<and> k \<le> nat m"
proof -
  have "nat l + (nat (m + 1) - nat l) = nat (m + 1)" using assms unfolding range_ok_def by auto
  then have "range_mask m l = push_bit (nat l) (mask (nat (m + 1) - nat l))"
    by (simp add: range_mask_def push_bit_eq_mult mask_eq_exp_minus_1 algebra_simps flip: power_add)
  then show ?thesis
    using assms unfolding range_ok_def by (simp add: bit_simps) linarith
qed

lemma from_list_loop_inv:
  assumes "from_list_loop m w rs = Inr (m', w')"
  shows "ranges_ok rs \<and> m' = m OR ranges_mask rs \<and> w' = w + int (ranges_width rs) \<and> m AND ranges_mask rs = 0"
  using assms
proof (induction m w rs rule: from_list_loop.induct)
  case (2 m w msb lsb rs)
  let ?r = "range_mask msb lsb"
  have ok: "range_ok (msb, lsb)" "?r AND m = 0"
    and IH: "ranges_ok rs \<and> m' = (m OR ?r) OR ranges_mask rs \<and>
      w' = w + (msb - lsb + 1) + int (ranges_width rs) \<and> (m OR ?r) AND ranges_mask rs = 0"
    using 2 by (auto simp: require_Inr_iff Let_def range_ok_def py_bool_def)
  have "m AND ranges_mask rs = 0" "?r AND ranges_mask rs = 0"
    using IH by (auto simp: bit_eq_iff bit_simps)
  then show ?case
    using ok IH by (simp add: range_ok_def or.assoc bit.conj_disj_distrib and.commute)
qed simp

lemma from_list_loop_ok:
  "ranges_ok rs \<Longrightarrow> m AND ranges_mask rs = 0 \<Longrightarrow>
   from_list_loop m w rs = Inr (m OR ranges_mask rs, w + int (ranges_width rs))"
proof (induction m w rs rule: from_list_loop.induct)
  case (2 m w msb lsb rs)
  let ?r = "range_mask msb lsb"
  have d: "?r AND m = 0" "(m OR ?r) AND ranges_mask rs = 0"
    using "2.prems" by (auto simp: bit_eq_iff bit_simps)
  show ?case
    using 2 d by (simp add: range_ok_def py_bool_def Let_def or.assoc)
qed simp

lemma parse_range_nonneg: "parse_range s = Some (msb, lsb) \<Longrightarrow> 0 \<le> lsb"
  by (auto simp: parse_range_def Let_def split: option.splits if_splits list.splits)
    (use take_digits_nonneg in blast)+

lemma from_yaml_loop_inv:
  assumes "from_yaml_loop ov m rs w ss = Inr (0, m', rs', w')" and "0 \<le> ov" and "0 \<le> m"
  shows "\<exists>new. rs' = rs @ new \<and> ov = 0 \<and> ranges_ok new \<and> m' = m OR ranges_mask new \<and>
    w' = w + int (ranges_width new) \<and> m AND ranges_mask new = 0"
  using assms
proof (induction ov m rs w ss rule: from_yaml_loop.induct)
  case (2 ov m rs w s ss)
  then obtain msb lsb where p: "parse_range s = Some (msb, lsb)" "lsb \<le> msb" "msb < 32"
    by (auto split: option.splits if_splits)
  have ok: "range_ok (msb, lsb)" using p parse_range_nonneg [OF p(1)] by (simp add: range_ok_def)
  let ?r = "range_mask msb lsb"
  have r0: "0 \<le> ?r"
  proof -
    have "nat lsb \<le> nat (msb + 1)" using p by simp
    then show ?thesis by (simp add: range_mask_def push_bit_eq_mult)
  qed
  have "from_yaml_loop (ov OR (?r AND m)) (m OR ?r) (rs @ [(msb, lsb)]) (w + (msb - lsb + 1)) ss =
      Inr (0, m', rs', w')"
    using 2(2) p by (simp add: Let_def)
  with 2(1) [OF p(1) refl] p(2,3) "2.prems"(2,3) r0 obtain new where
    n: "rs' = (rs @ [(msb, lsb)]) @ new" "ov OR (?r AND m) = 0" "ranges_ok new"
      "m' = (m OR ?r) OR ranges_mask new" "w' = w + (msb - lsb + 1) + int (ranges_width new)"
      "(m OR ?r) AND ranges_mask new = 0"
    by fastforce
  have d: "ov = 0" "?r AND m = 0" "?r AND ranges_mask new = 0" "m AND ranges_mask new = 0"
    using n(2,6) by (auto simp: bit_eq_iff bit_simps)
  have "m AND (?r OR ranges_mask new) = 0" using d by (auto simp: bit_eq_iff bit_simps)
  then show ?case
    using n d ok p by (intro exI [of _ "(msb, lsb) # new"]) (simp add: or.assoc)
qed simp

text \<open>Both constructors give a well-formed field.\<close>

lemma BitRanges_from_list_ok:
  "BitRanges_from_list rs = Inr br \<longleftrightarrow>
     ranges_ok rs \<and> br = \<lparr>br_mask = ranges_mask rs, br_ranges = rs, br_width = int (ranges_width rs)\<rparr>"
  using from_list_loop_ok [of rs 0 0] from_list_loop_inv [of 0 0 rs]
  by (auto simp: BitRanges_from_list_def bindR_Inr_iff)

lemma BitRanges_from_yaml_inv: "BitRanges_from_yaml s = Inr br \<Longrightarrow> BitRanges_inv br"
proof -
  assume "BitRanges_from_yaml s = Inr br"
  then obtain ov m rs w where l: "from_yaml_loop 0 0 [] 0 (py_split CHR '','' s) = Inr (ov, m, rs, w)"
    "ov = 0" "br = \<lparr>br_mask = m, br_ranges = rs, br_width = w\<rparr>"
    by (auto simp: BitRanges_from_yaml_def bindR_Inr_iff py_bool_def split: if_splits)
  then show "BitRanges_inv br"
    using from_yaml_loop_inv [of 0 0 "[]" 0 "py_split CHR '','' s" m rs w] by (auto simp: BitRanges_inv_def)
qed

section \<open>Encoding and decoding\<close>

text \<open>The two loops as recursions on the ranges that are left.\<close>

fun enc :: "(int \<times> int) list \<Rightarrow> int \<Rightarrow> int" where
  "enc [] v = 0"
| "enc (r # rs) v =
     push_bit (nat (snd r)) (take_bit (nat (fst r - snd r + 1)) (drop_bit (ranges_width rs) v)) OR enc rs v"

fun dec :: "(int \<times> int) list \<Rightarrow> int \<Rightarrow> int" where
  "dec [] raw = 0"
| "dec (r # rs) raw =
     push_bit (ranges_width rs) (take_bit (nat (fst r - snd r + 1)) (drop_bit (nat (snd r)) raw)) OR dec rs raw"

lemma encode_loop_enc:
  "ranges_ok rs \<Longrightarrow> w = t + int (ranges_width rs) \<Longrightarrow>
   encode_loop w v ret t rs = (ret OR enc rs v, w)"
proof (induction rs arbitrary: ret t)
  case (Cons r rs)
  obtain m l where r: "r = (m, l)" by force
  have "w - 1 - t - (m - l + 1) + 1 = int (ranges_width rs)" "w = t + (m - l + 1) + int (ranges_width rs)"
    using Cons.prems r by (simp_all add: range_ok_def)
  then show ?case
    using Cons r by (simp add: Let_def and_low_mask or.assoc del: push_bit_and)
qed simp

lemma BitRanges_encode_eq: "BitRanges_inv br \<Longrightarrow> BitRanges_encode v br = Inr (enc (br_ranges br) v)"
  by (simp add: BitRanges_encode_def BitRanges_inv_def encode_loop_enc)

lemma decode_loop_dec:
  "ranges_ok rs \<Longrightarrow>
   foldl (\<lambda>ret (msb, lsb).
       let width = msb - lsb + 1; msk = low_mask (nat width)
       in push_bit (nat width) ret OR (drop_bit (nat lsb) raw AND msk)) ret rs =
   push_bit (ranges_width rs) ret OR dec rs raw"
proof (induction rs arbitrary: ret)
  case (Cons r rs)
  obtain m l where r: "r = (m, l)" by force
  have "push_bit (ranges_width rs) (push_bit (nat (m - l + 1)) ret OR x) =
      push_bit (nat (m - l + 1) + ranges_width rs) ret OR push_bit (ranges_width rs) x" for x :: int
    by (auto simp: bit_eq_iff bit_simps add.commute)
  then show ?case
    using Cons r by (simp add: Let_def and_low_mask or.assoc)
qed simp

lemma BitRanges_decode_eq: "BitRanges_inv br \<Longrightarrow> BitRanges_decode raw br = dec (br_ranges br) raw"
  using decode_loop_dec [of "br_ranges br" raw 0]
  by (simp add: BitRanges_decode_def BitRanges_inv_def Let_def)

lemma ranges_mask_bit_lt: "ranges_ok rs \<Longrightarrow> bit (ranges_mask rs) k \<Longrightarrow> k < 32"
proof (induction rs)
  case (Cons r rs)
  obtain m l where "r = (m, l)" by force
  with Cons show ?case
    using bit_range_mask [of m l k] by (auto simp: bit_simps range_ok_def)
qed simp

lemma bit_field_of_range:
  assumes "range_ok (m, l)"
  shows "bit (push_bit (nat l) (take_bit (nat (m - l + 1)) x)) k \<Longrightarrow> bit (range_mask m l) k"
  using assms unfolding bit_range_mask [OF assms] range_ok_def by (auto simp: bit_simps)

lemma enc_in_mask: "ranges_ok rs \<Longrightarrow> bit (enc rs v) k \<Longrightarrow> bit (ranges_mask rs) k"
proof (induction rs)
  case (Cons r rs)
  obtain m l where r: "r = (m, l)" by force
  with Cons show ?case
    using bit_field_of_range [of m l _ k] by (auto simp: bit_or_iff)
qed simp

lemma dec_fits: "ranges_ok rs \<Longrightarrow> fits (ranges_width rs) (dec rs raw)"
proof (induction rs)
  case (Cons r rs)
  let ?w = "nat (fst r - snd r + 1)"
  have "fits (ranges_width rs) (dec rs raw)" using Cons by simp
  then have lt: "n < ranges_width rs" if "bit (dec rs raw) n" for n
    using that fits_take_bit_eq [of "ranges_width rs" "dec rs raw"] by (metis bit_take_bit_iff)
  have "take_bit (?w + ranges_width rs) (dec (r # rs) raw) = dec (r # rs) raw"
    using lt by (intro bit_eqI) (force simp: bit_simps)
  then show ?case
    using fits_take_bit [of "?w + ranges_width rs"] by (metis ranges_width.simps(2))
qed simp

text \<open>Decoding only looks at the bits of the field.\<close>

lemma dec_cong:
  "ranges_ok rs \<Longrightarrow> (\<And>k. bit (ranges_mask rs) k \<Longrightarrow> bit a k = bit b k) \<Longrightarrow> dec rs a = dec rs b"
proof (induction rs)
  case (Cons r rs)
  obtain m l where r: "r = (m, l)" by force
  have ok: "range_ok (m, l)" using Cons.prems r by simp
  have "bit (range_mask m l) (n + nat l)" if "n < nat (m - l + 1)" for n
    using that ok unfolding bit_range_mask [OF ok] range_ok_def by simp linarith
  then have "bit a (n + nat l) = bit b (n + nat l)" if "n < nat (m - l + 1)" for n
    using Cons.prems(2) r that by (simp add: bit_simps)
  then have "take_bit (nat (m - l + 1)) (drop_bit (nat l) a) = take_bit (nat (m - l + 1)) (drop_bit (nat l) b)"
    by (intro bit_eqI) (auto simp: bit_simps add.commute)
  then show ?case
    using Cons r by (simp add: bit_simps)
qed simp

lemma dec_enc: "ranges_ok rs \<Longrightarrow> dec rs (enc rs v) = take_bit (ranges_width rs) v"
proof (induction rs)
  case (Cons r rs)
  obtain m l where r: "r = (m, l)" by force
  let ?w = "nat (m - l + 1)" and ?R = "ranges_width rs"
  let ?f = "push_bit (nat l) (take_bit ?w (drop_bit ?R v))"
  have ok: "range_ok (m, l)" "ranges_ok rs" "range_mask m l AND ranges_mask rs = 0"
    using Cons.prems r by simp_all
  have dis: "\<not> (bit (range_mask m l) k \<and> bit (ranges_mask rs) k)" for k
    using arg_cong [OF ok(3), of "\<lambda>x. bit x k"] by (simp add: bit_and_iff)
  have "dec rs (?f OR enc rs v) = dec rs (enc rs v)"
    using dis bit_field_of_range [OF ok(1)] by (intro dec_cong ok) (auto simp: bit_or_iff)
  moreover have "take_bit ?w (drop_bit (nat l) (?f OR enc rs v)) = take_bit ?w (drop_bit ?R v)"
  proof (rule bit_eqI)
    fix k
    have "k < ?w \<Longrightarrow> \<not> bit (enc rs v) (nat l + k)"
      using dis enc_in_mask [OF ok(2)] ok(1) unfolding bit_range_mask [OF ok(1)] range_ok_def by force
    then show "bit (take_bit ?w (drop_bit (nat l) (?f OR enc rs v))) k = bit (take_bit ?w (drop_bit ?R v)) k"
      by (auto simp: bit_simps)
  qed
  moreover have "push_bit ?R (take_bit ?w (drop_bit ?R v)) OR take_bit ?R v = take_bit (?w + ?R) v"
    by (auto simp: bit_eq_iff bit_simps)
  ultimately show ?case
    using Cons.IH ok r by simp
qed simp

lemma enc_cong: "take_bit (ranges_width rs) a = take_bit (ranges_width rs) b \<Longrightarrow> enc rs a = enc rs b"
proof (induction rs)
  case (Cons r rs)
  let ?w = "nat (fst r - snd r + 1)"
  have b: "bit a k = bit b k" if "k < ?w + ranges_width rs" for k
    using Cons.prems that by (auto simp: bit_eq_iff bit_simps)
  then have "take_bit (ranges_width rs) a = take_bit (ranges_width rs) b"
    "take_bit ?w (drop_bit (ranges_width rs) a) = take_bit ?w (drop_bit (ranges_width rs) b)"
    by (auto simp: bit_eq_iff bit_simps)
  then show ?case using Cons.IH by simp
qed simp

lemma enc_dec: "ranges_ok rs \<Longrightarrow> enc rs (dec rs raw) = raw AND ranges_mask rs"
proof (induction rs)
  case (Cons r rs)
  obtain m l where r: "r = (m, l)" by force
  let ?w = "nat (m - l + 1)" and ?R = "ranges_width rs"
  let ?x = "take_bit ?w (drop_bit (nat l) raw)"
  have ok: "range_ok (m, l)" "ranges_ok rs" using Cons.prems r by simp_all
  have f: "take_bit ?R (dec rs raw) = dec rs raw" by (rule fits_take_bit_eq [OF dec_fits [OF ok(2)]])
  have "enc rs (push_bit ?R ?x OR dec rs raw) = enc rs (dec rs raw)"
    by (rule enc_cong) (auto simp: bit_eq_iff bit_simps)
  moreover have "take_bit ?w (drop_bit ?R (push_bit ?R ?x OR dec rs raw)) = ?x"
    using f by (auto simp: bit_eq_iff bit_simps)
  moreover have "push_bit (nat l) ?x = raw AND range_mask m l"
  proof (rule bit_eqI)
    fix k
    have "nat l \<le> k \<and> k - nat l < ?w \<longleftrightarrow> nat l \<le> k \<and> k \<le> nat m"
      using ok(1) unfolding range_ok_def by auto
    then show "bit (push_bit (nat l) ?x) k = bit (raw AND range_mask m l) k"
      by (auto simp: bit_simps bit_range_mask [OF ok(1)])
  qed
  ultimately show ?case
    using Cons.IH ok r by (simp add: bit.conj_disj_distrib)
qed simp

text \<open>
  C38: bit fields.  Every field that the parser of the encoding schemes accepts has disjoint ranges
  inside a 32-bit word.  Encoding a value that fits in the width of the field and decoding gives
  the value back; encoding sets bits of the field only; decoding any word and encoding gives the
  bits of the word that belong to the field.
\<close>

theorem bit_ranges_round_trip:
  assumes "BitRanges_from_yaml s = Inr br"
  shows "0 \<le> br_mask br \<and> br_mask br < 2 ^ 32 \<and>
    (\<forall>v. fits (nat (br_width br)) v \<longrightarrow>
       returns (BitRanges_encode v br) (\<lambda>r. BitRanges_decode r br = v \<and> r AND br_mask br = r)) \<and>
    (\<forall>raw. fits (nat (br_width br)) (BitRanges_decode raw br) \<and>
       BitRanges_encode (BitRanges_decode raw br) br = Inr (raw AND br_mask br))"
proof -
  have inv: "BitRanges_inv br" by (rule BitRanges_from_yaml_inv [OF assms])
  then have ok: "ranges_ok (br_ranges br)" "br_mask br = ranges_mask (br_ranges br)"
    "nat (br_width br) = ranges_width (br_ranges br)"
    by (simp_all add: BitRanges_inv_def)
  have "take_bit 32 (br_mask br) = br_mask br"
    using ranges_mask_bit_lt [OF ok(1)] ok(2) by (auto simp: bit_eq_iff bit_simps)
  then have m: "fits 32 (br_mask br)" using fits_take_bit [of 32 "br_mask br"] by simp
  have "enc (br_ranges br) v AND br_mask br = enc (br_ranges br) v" for v
    using enc_in_mask [OF ok(1)] ok(2) by (auto simp: bit_eq_iff bit_simps)
  then show ?thesis
    using m ok dec_fits [OF ok(1)]
    by (auto simp: fits_iff BitRanges_encode_eq [OF inv] BitRanges_decode_eq [OF inv] dec_enc enc_dec
        take_bit_int_eq_self)
qed

theorem bit_ranges_round_trip_witness:
  "returns (bindR (BitRanges_from_yaml ''31-25,11-7'') (\<lambda>br. bindR (BitRanges_encode 0xabc br) (\<lambda>r.
     Inr (r, BitRanges_decode r br)))) (\<lambda>(r, v). r = 0xaa000e00 \<and> v = 0xabc)"
proof -
  let ?br = "\<lparr>br_mask = 0xfe000f80, br_ranges = [(31, 25), (11, 7)], br_width = 12\<rparr>"
  have y: "BitRanges_from_yaml ''31-25,11-7'' = Inr ?br" by code_simp
  have e: "BitRanges_encode 0xabc ?br = Inr 0xaa000e00" by code_simp
  have "fits (nat (br_width ?br)) 0xabc" by (simp add: fits_iff)
  with bit_ranges_round_trip [OF y] e have "BitRanges_decode 0xaa000e00 ?br = 0xabc" by fastforce
  then show ?thesis by (simp add: y e)
qed

section \<open>Boolean literals\<close>

record bool_literal =
  bl_ones :: int
  bl_xs :: int
  bl_width :: int

definition BoolLiteral_init :: "int \<Rightarrow> int \<Rightarrow> int \<Rightarrow> bool_literal result" where
  "BoolLiteral_init ones x w =
     require (0 < w)
      (require (drop_bit (nat w) ones = 0)
       (require (drop_bit (nat w) x = 0)
         (Inr \<lparr>bl_ones = ones, bl_xs = x, bl_width = w\<rparr>)))"

fun bool_literal_loop :: "int \<Rightarrow> int \<Rightarrow> int \<Rightarrow> string \<Rightarrow> (int \<times> int \<times> int) result" where
  "bool_literal_loop ones x w [] = Inr (ones, x, w)"
| "bool_literal_loop ones x w (c # cs) =
     (if c = CHR ''_'' then bool_literal_loop ones x w cs
      else
        let ones = push_bit 1 ones; x = push_bit 1 x; w = w + 1
        in if c = CHR ''0'' then bool_literal_loop ones x w cs
           else if c = CHR ''1'' then bool_literal_loop (ones OR 1) x w cs
           else if c = CHR ''x'' then bool_literal_loop ones (x OR 1) w cs
           else Inl ValueError)"

definition BoolLiteral_from_string :: "string \<Rightarrow> bool_literal result" where
  "BoolLiteral_from_string as_string =
     (case as_string of
        [] \<Rightarrow> Inl ValueError
      | c # cs \<Rightarrow>
          if c \<noteq> CHR ''b'' then Inl ValueError
          else bindR (bool_literal_loop 0 0 0 cs) (\<lambda>(ones, x, w).
            if w = 0 then Inl ValueError else BoolLiteral_init ones x w))"

definition BoolLiteral_char_for_bit :: "int \<Rightarrow> bool_literal \<Rightarrow> char result" where
  "BoolLiteral_char_for_bit k bl =
     require (k < bl_width bl)
      (bindR (py_rshift (bl_ones bl) k) (\<lambda>b1.
       if py_bool (b1 AND 1) then Inr CHR ''1''
       else bindR (py_rshift (bl_xs bl) k) (\<lambda>bx. Inr (if py_bool (bx AND 1) then CHR ''x'' else CHR ''0''))))"

definition BoolLiteral_inv :: "bool_literal \<Rightarrow> bool" where
  "BoolLiteral_inv bl \<longleftrightarrow>
     0 < bl_width bl \<and> fits (nat (bl_width bl)) (bl_ones bl) \<and> fits (nat (bl_width bl)) (bl_xs bl) \<and>
     bl_ones bl AND bl_xs bl = 0"

text \<open>The digits of a literal, and the relation between them and the two masks.\<close>

definition literal_digits :: "string \<Rightarrow> string" where
  "literal_digits cs = filter (\<lambda>c. c \<noteq> CHR ''_'') cs"

definition literal_rel :: "string \<Rightarrow> int \<Rightarrow> int \<Rightarrow> int \<Rightarrow> bool" where
  "literal_rel ds ones x w \<longleftrightarrow> w = int (length ds) \<and>
     (\<forall>k. bit ones k \<longleftrightarrow> k < length ds \<and> rev ds ! k = CHR ''1'') \<and>
     (\<forall>k. bit x k \<longleftrightarrow> k < length ds \<and> rev ds ! k = CHR ''x'')"

lemma literal_rel_snoc:
  assumes "literal_rel ds ones x w"
  shows "literal_rel (ds @ [c]) (push_bit 1 ones OR of_bool (c = CHR ''1''))
    (push_bit 1 x OR of_bool (c = CHR ''x'')) (w + 1)"
proof -
  have "bit (push_bit 1 y OR of_bool b) k = (if k = 0 then b else bit y (k - 1))" for y :: int and b k
    unfolding bit_or_iff bit_push_bit_iff_int bit_of_bool_iff by auto
  then show ?thesis
    using assms by (auto simp: literal_rel_def nth_Cons split: nat.splits)
qed

lemma bool_literal_loop_rel:
  assumes "literal_rel ds ones x w" and "set cs \<subseteq> {CHR ''0'', CHR ''1'', CHR ''x'', CHR ''_''}"
  shows "returns (bool_literal_loop ones x w cs) (\<lambda>(ones', x', w').
    literal_rel (ds @ literal_digits cs) ones' x' w')"
  using assms
proof (induction cs arbitrary: ds ones x w)
  case (Cons c cs)
  consider "c = CHR ''_''" | "c = CHR ''0''" | "c = CHR ''1''" | "c = CHR ''x''" using Cons.prems(2) by auto
  then show ?case
    using Cons.IH [of ds ones x w] Cons.IH [OF literal_rel_snoc [OF Cons.prems(1), of c]] Cons.prems
    by cases (simp_all add: literal_digits_def)
qed (simp add: literal_digits_def)

lemma literal_rel_inv:
  assumes "literal_rel ds ones x w" and "ds \<noteq> []"
  shows "BoolLiteral_init ones x w = Inr \<lparr>bl_ones = ones, bl_xs = x, bl_width = w\<rparr>"
    and "BoolLiteral_inv \<lparr>bl_ones = ones, bl_xs = x, bl_width = w\<rparr>"
proof -
  have b: "bit ones k \<Longrightarrow> k < nat w" "bit x k \<Longrightarrow> k < nat w" for k
    using assms(1) by (auto simp: literal_rel_def)
  have "0 < w" using assms by (auto simp: literal_rel_def)
  moreover have "drop_bit (nat w) ones = 0" "drop_bit (nat w) x = 0"
    using b by (fastforce simp: bit_eq_iff bit_simps)+
  moreover have "take_bit (nat w) ones = ones" "take_bit (nat w) x = x"
    using b by (auto simp: bit_eq_iff bit_simps)
  moreover have "ones AND x = 0"
    using assms(1) by (auto simp: bit_eq_iff bit_simps literal_rel_def)
  ultimately show "BoolLiteral_init ones x w = Inr \<lparr>bl_ones = ones, bl_xs = x, bl_width = w\<rparr>"
    "BoolLiteral_inv \<lparr>bl_ones = ones, bl_xs = x, bl_width = w\<rparr>"
    by (auto simp: BoolLiteral_init_def BoolLiteral_inv_def) (metis fits_take_bit)+
qed

lemma bool_literal_loop_chars:
  "bool_literal_loop ones x w cs = Inr r \<Longrightarrow> set cs \<subseteq> {CHR ''0'', CHR ''1'', CHR ''x'', CHR ''_''}"
  by (induction ones x w cs rule: bool_literal_loop.induct) (auto simp: Let_def split: if_splits)

lemma bool_literal_loop_error: "bool_literal_loop ones x w cs = Inl e \<Longrightarrow> e = ValueError"
  by (induction ones x w cs rule: bool_literal_loop.induct) (simp_all add: Let_def split: if_splits)

lemma BoolLiteral_from_string_inv:
  assumes "BoolLiteral_from_string s = Inr bl"
  shows "BoolLiteral_inv bl"
proof -
  obtain cs ones x w where l: "bool_literal_loop 0 0 0 cs = Inr (ones, x, w)" "w \<noteq> 0"
    and i: "BoolLiteral_init ones x w = Inr bl"
    using assms by (auto simp: BoolLiteral_from_string_def bindR_Inr_iff split: list.splits if_splits)
  have "literal_rel [] 0 0 0" by (simp add: literal_rel_def)
  then have r: "literal_rel (literal_digits cs) ones x w"
    using bool_literal_loop_rel [of "[]" 0 0 0 cs] bool_literal_loop_chars [OF l(1)] l(1) by simp
  then have "literal_digits cs \<noteq> []" using l(2) by (auto simp: literal_rel_def)
  from literal_rel_inv [OF r this] i show ?thesis by simp
qed

text \<open>
  Boolean literals.  A string is accepted exactly when it is a \<^verbatim>\<open>b\<close> followed by the digits 0, 1
  and x and underscores with at least one digit; the width of the literal is the number of its
  digits, its two masks fit in that width and are disjoint, and \<^verbatim>\<open>char_for_bit\<close> gives the digits
  back, the last one for bit 0.
\<close>

theorem bool_literal_digits:
  "if \<exists>cs. s = CHR ''b'' # cs \<and> set cs \<subseteq> {CHR ''0'', CHR ''1'', CHR ''x'', CHR ''_''} \<and> literal_digits cs \<noteq> []
   then returns (BoolLiteral_from_string s) (\<lambda>bl.
     let ds = literal_digits (tl s)
     in BoolLiteral_inv bl \<and> bl_width bl = int (length ds) \<and>
        (\<forall>k < length ds. BoolLiteral_char_for_bit (int k) bl = Inr (rev ds ! k)))
   else BoolLiteral_from_string s = Inl ValueError"
proof (cases "\<exists>cs. s = CHR ''b'' # cs \<and> set cs \<subseteq> {CHR ''0'', CHR ''1'', CHR ''x'', CHR ''_''}")
  case True
  then obtain cs where s: "s = CHR ''b'' # cs" "set cs \<subseteq> {CHR ''0'', CHR ''1'', CHR ''x'', CHR ''_''}" by blast
  let ?ds = "literal_digits cs"
  have "literal_rel [] 0 0 0" by (simp add: literal_rel_def)
  then obtain ones x w where l: "bool_literal_loop 0 0 0 cs = Inr (ones, x, w)" "literal_rel ?ds ones x w"
    using bool_literal_loop_rel [of "[]" 0 0 0 cs] s(2) by (auto elim: returnsE)
  show ?thesis
  proof (cases "?ds = []")
    case True
    then have "w = 0" using l(2) by (simp add: literal_rel_def)
    then show ?thesis using True s l(1) by (auto simp: BoolLiteral_from_string_def)
  next
    case False
    have w: "w = int (length ?ds)" "w \<noteq> 0" using l(2) False by (auto simp: literal_rel_def)
    have chars: "rev ?ds ! k \<in> {CHR ''0'', CHR ''1'', CHR ''x''}" if "k < length ?ds" for k
      using s(2) that nth_mem [of k "rev ?ds"] by (auto simp: literal_digits_def)
    have "BoolLiteral_char_for_bit (int k) \<lparr>bl_ones = ones, bl_xs = x, bl_width = w\<rparr> = Inr (rev ?ds ! k)"
      if k: "k < length ?ds" for k
    proof -
      have b: "bit ones k = (rev ?ds ! k = CHR ''1'')" "bit x k = (rev ?ds ! k = CHR ''x'')" "int k < w"
        using k l(2) w(1) by (simp_all add: literal_rel_def)
      consider "rev ?ds ! k = CHR ''0''" | "rev ?ds ! k = CHR ''1''" | "rev ?ds ! k = CHR ''x''"
        using chars [OF k] by blast
      then show ?thesis
        using b by cases (simp_all add: BoolLiteral_char_for_bit_def py_rshift_def py_bool_bit)
    qed
    then show ?thesis
      using False s l(1) w literal_rel_inv [OF l(2) False] by (auto simp: BoolLiteral_from_string_def Let_def)
  qed
next
  case False
  have err: "bool_literal_loop ones x w cs = Inl ValueError"
    if "\<not> set cs \<subseteq> {CHR ''0'', CHR ''1'', CHR ''x'', CHR ''_''}" for ones x w cs
    using that bool_literal_loop_chars [of ones x w cs] bool_literal_loop_error [of ones x w cs]
    by (cases "bool_literal_loop ones x w cs") simp_all
  show ?thesis
  proof (cases s)
    case (Cons c cs)
    show ?thesis
      using False Cons err [of cs 0 0 0]
      by (cases "c = CHR ''b''") (simp_all add: BoolLiteral_from_string_def)
  qed (simp add: BoolLiteral_from_string_def)
qed

theorem bool_literal_digits_witness:
  "returns (BoolLiteral_from_string ''b1_0x'') (\<lambda>bl. BoolLiteral_char_for_bit 2 bl = Inr CHR ''1'')"
  using bool_literal_digits [of "''b1_0x''"] by (auto simp: literal_digits_def Let_def elim!: returns_mono)

end
