(* ===== verification/Encoding_Scheme.thy ===== *)
theory Encoding_Scheme
  imports Bit_Ranges
begin

text \<open>
  Encoding schemes: \<^verbatim>\<open>util/shared/encoding_scheme.py\<close> (classes \<^verbatim>\<open>EncSchemeField\<close>, \<^verbatim>\<open>EncSchemeImport\<close>,
  \<^verbatim>\<open>EncSchemeFields\<close>, \<^verbatim>\<open>EncScheme\<close>, \<^verbatim>\<open>EncSchemes\<close>).

  Dictionaries are association lists in insertion order.  The memo table of \<^verbatim>\<open>EncSchemes\<close> is never
  written in the source, so it always is the empty dictionary and has no counterpart here.
\<close>

section \<open>Data and operations\<close>

record enc_scheme_field =
  esf_bits :: bit_ranges
  esf_value :: "bool_literal option"

text \<open>\<^verbatim>\<open>str\<close> of a YAML string, integer or boolean; \<open>None\<close> for an object of another type.\<close>

definition yaml_bits_str :: "yaml \<Rightarrow> string option" where
  "yaml_bits_str y =
     (case y of
        YStr s \<Rightarrow> Some s
      | YInt n \<Rightarrow> Some (str_of_int n)
      | YBool b \<Rightarrow> Some (if b then ''True'' else ''False'')
      | _ \<Rightarrow> None)"

definition EncSchemeField_make :: "string \<Rightarrow> string option \<Rightarrow> enc_scheme_field result" where
  "EncSchemeField_make bits_str raw_value =
     bindR (BitRanges_from_yaml bits_str) (\<lambda>bits.
     case raw_value of
       None \<Rightarrow> Inr \<lparr>esf_bits = bits, esf_value = None\<rparr>
     | Some rv \<Rightarrow>
         bindR (BoolLiteral_from_string rv) (\<lambda>v.
         if br_width bits \<noteq> bl_width v then Inl ValueError
         else Inr \<lparr>esf_bits = bits, esf_value = Some v\<rparr>))"

definition EncSchemeField_from_yaml :: "yaml \<Rightarrow> enc_scheme_field result" where
  "EncSchemeField_from_yaml yml =
     (case yml of
        YDict _ \<Rightarrow>
          bindR (check_keys yml [''bits''] [''value'']) (\<lambda>yd.
          bindR (ydict_item yd ''bits'') (\<lambda>bits_yml.
          case yaml_bits_str bits_yml of
            None \<Rightarrow> Inl ValueError
          | Some bits_str \<Rightarrow>
              (case ydict_get_or_None yd ''value'' of
                 YNone \<Rightarrow> EncSchemeField_make bits_str None
               | YStr v \<Rightarrow> EncSchemeField_make bits_str (Some v)
               | _ \<Rightarrow> Inl ValueError)))
      | _ \<Rightarrow>
          (case yaml_bits_str yml of
             Some bits_str \<Rightarrow> EncSchemeField_make bits_str None
           | None \<Rightarrow> Inl ValueError))"

record enc_scheme_import =
  imp_parent :: string
  imp_settings :: "(string \<times> bool_literal) list"

text \<open>The match of \<^verbatim>\<open>([^ (]+)[ ]*(?:\(([^)]+)\))?$\<close>.\<close>

definition parse_import :: "string \<Rightarrow> (string \<times> string option) option" where
  "parse_import s =
     (let name_char = (\<lambda>c. c \<noteq> CHR '' '' \<and> c \<noteq> CHR ''('');
          parent = takeWhile name_char s;
          rest = dropWhile (\<lambda>c. c = CHR '' '') (dropWhile name_char s)
      in if parent = [] then None
         else if at_end rest then Some (parent, None)
         else case rest of
           [] \<Rightarrow> None
         | c # rest' \<Rightarrow>
             let args = takeWhile (\<lambda>c. c \<noteq> CHR '')'') rest'; tail = dropWhile (\<lambda>c. c \<noteq> CHR '')'') rest'
             in if c = CHR ''('' \<and> args \<noteq> [] \<and> tail \<noteq> [] \<and> at_end (tl tail) then Some (parent, Some args)
                else None)"

fun import_settings :: "(string \<times> bool_literal) list \<Rightarrow> string list \<Rightarrow> (string \<times> bool_literal) list result" where
  "import_settings settings [] = Inr settings"
| "import_settings settings (arg # args) =
     (case py_split CHR ''='' (py_strip arg) of
        [field_name, literal] \<Rightarrow>
          bindR (BoolLiteral_from_string literal) (\<lambda>field_value.
          if map_of settings field_name \<noteq> None then Inl ValueError
          else import_settings (settings @ [(field_name, field_value)]) args)
      | _ \<Rightarrow> Inl ValueError)"

definition EncSchemeImport_init :: "yaml \<Rightarrow> enc_scheme_import result" where
  "EncSchemeImport_init yml =
     bindR (check_str yml) (\<lambda>as_str.
     case parse_import as_str of
       None \<Rightarrow> Inl ValueError
     | Some (parent, args) \<Rightarrow>
         bindR (case args of None \<Rightarrow> Inr [] | Some a \<Rightarrow> import_settings [] (py_split CHR '','' a)) (\<lambda>settings.
         Inr \<lparr>imp_parent = parent, imp_settings = settings\<rparr>))"

record enc_scheme_fields =
  esfs_fields :: "(string \<times> enc_scheme_field) list"
  esfs_op_fields :: "string list"
  esfs_mask :: int

definition EncSchemeFields_empty :: enc_scheme_fields where
  "EncSchemeFields_empty = \<lparr>esfs_fields = [], esfs_op_fields = [], esfs_mask = 0\<rparr>"

fun apply_settings_loop :: "(string \<times> enc_scheme_field) list \<Rightarrow> (string \<times> bool_literal) list \<Rightarrow>
    (string \<times> enc_scheme_field) list result" where
  "apply_settings_loop old [] = Inr []"
| "apply_settings_loop old ((name, literal) # settings) =
     (case map_of old name of
        None \<Rightarrow> Inl ValueError
      | Some old_field \<Rightarrow>
          if br_width (esf_bits old_field) \<noteq> bl_width literal then Inl ValueError
          else bindR (apply_settings_loop old settings) (\<lambda>flds.
            Inr ((name, \<lparr>esf_bits = esf_bits old_field, esf_value = Some literal\<rparr>) # flds)))"

definition EncSchemeImport_apply_settings ::
    "enc_scheme_import \<Rightarrow> enc_scheme_fields \<Rightarrow> enc_scheme_fields result" where
  "EncSchemeImport_apply_settings imp esf =
     bindR (apply_settings_loop (esfs_fields esf) (imp_settings imp)) (\<lambda>set_fields.
     let others = filter (\<lambda>(name, _). map_of set_fields name = None) (esfs_fields esf)
     in Inr \<lparr>esfs_fields = set_fields @ others, esfs_op_fields = map fst others, esfs_mask = esfs_mask esf\<rparr>)"

fun fields_from_yaml_loop :: "int \<Rightarrow> enc_scheme_fields \<Rightarrow> yaml_dict \<Rightarrow> (int \<times> enc_scheme_fields) result" where
  "fields_from_yaml_loop overlaps acc [] = Inr (overlaps, acc)"
| "fields_from_yaml_loop overlaps acc ((key, val) # items) =
     (case key of
        YStr name \<Rightarrow>
          bindR (EncSchemeField_from_yaml val) (\<lambda>field.
          fields_from_yaml_loop (overlaps OR (esfs_mask acc AND br_mask (esf_bits field)))
            \<lparr>esfs_fields = esfs_fields acc @ [(name, field)],
             esfs_op_fields = (if esf_value field = None then esfs_op_fields acc @ [name] else esfs_op_fields acc),
             esfs_mask = esfs_mask acc OR br_mask (esf_bits field)\<rparr> items)
      | _ \<Rightarrow> Inl ValueError)"

definition EncSchemeFields_from_yaml :: "yaml \<Rightarrow> enc_scheme_fields result" where
  "EncSchemeFields_from_yaml yml =
     (case yml of
        YDict d \<Rightarrow>
          bindR (fields_from_yaml_loop 0 EncSchemeFields_empty d) (\<lambda>(overlaps, f).
          if py_bool overlaps then Inl ValueError else Inr f)
      | _ \<Rightarrow> Inl ValueError)"

fun merge_in_loop :: "enc_scheme_fields \<Rightarrow> (string \<times> enc_scheme_field) list \<Rightarrow> enc_scheme_fields result" where
  "merge_in_loop self [] = Inr self"
| "merge_in_loop self ((name, field) # flds) =
     (if map_of (esfs_fields self) name \<noteq> None then Inl ValueError
      else if py_bool (esfs_mask self AND br_mask (esf_bits field)) then Inl ValueError
      else
        let self' = self\<lparr>esfs_fields := esfs_fields self @ [(name, field)],
                         esfs_mask := esfs_mask self OR br_mask (esf_bits field)\<rparr>
        in if esf_value field = None then
             require (name \<notin> set (esfs_op_fields self'))
               (merge_in_loop (self'\<lparr>esfs_op_fields := esfs_op_fields self' @ [name]\<rparr>) flds)
           else merge_in_loop self' flds)"

definition EncSchemeFields_merge_in :: "enc_scheme_fields \<Rightarrow> enc_scheme_fields \<Rightarrow> enc_scheme_fields result" where
  "EncSchemeFields_merge_in self right = merge_in_loop self (esfs_fields right)"

record enc_scheme =
  direct_fields :: enc_scheme_fields
  scheme_parents :: "(string \<times> enc_scheme_import) list"

definition EncScheme_init :: "yaml \<Rightarrow> enc_scheme result" where
  "EncScheme_init yml =
     bindR (check_keys yml [] [''parents'', ''fields'']) (\<lambda>yd.
     if yd = [] then Inl ValueError
     else
       bindR (case ydict_get_or_None yd ''fields'' of
                YNone \<Rightarrow> Inr EncSchemeFields_empty | y \<Rightarrow> EncSchemeFields_from_yaml y) (\<lambda>direct.
       bindR (case ydict_get_or_None yd ''parents'' of
                YNone \<Rightarrow> Inr [] | y \<Rightarrow> bindR (check_list y) (mapR EncSchemeImport_init)) (\<lambda>ps.
       bindR (index_list ps imp_parent) (\<lambda>parents.
       Inr \<lparr>direct_fields = direct, scheme_parents = parents\<rparr>))))"

type_synonym enc_schemes = "(string \<times> enc_scheme) list"

fun EncSchemes_items :: "yaml_dict \<Rightarrow> enc_schemes result" where
  "EncSchemes_items [] = Inr []"
| "EncSchemes_items ((key, val) # items) =
     (case key of
        YStr name \<Rightarrow>
          bindR (EncScheme_init val) (\<lambda>s. bindR (EncSchemes_items items) (\<lambda>r. Inr ((name, s) # r)))
      | _ \<Rightarrow> Inl ValueError)"

definition EncSchemes_init :: "yaml \<Rightarrow> enc_schemes result" where
  "EncSchemes_init yml = (case yml of YDict d \<Rightarrow> EncSchemes_items d | _ \<Rightarrow> Inl ValueError)"

text \<open>Merging the resolved parents, in order.\<close>

fun merge_all :: "enc_scheme_fields \<Rightarrow> enc_scheme_fields list \<Rightarrow> enc_scheme_fields result" where
  "merge_all merged [] = Inr merged"
| "merge_all merged (f # fs) = bindR (EncSchemeFields_merge_in merged f) (\<lambda>m. merge_all m fs)"

lemma mapR_cong [fundef_cong]:
  "xs = ys \<Longrightarrow> (\<And>x. x \<in> set ys \<Longrightarrow> f x = g x) \<Longrightarrow> mapR f xs = mapR g ys"
  by (induction xs arbitrary: ys) auto

lemma bindR_cong [fundef_cong]:
  "m = m' \<Longrightarrow> (\<And>x. m' = Inr x \<Longrightarrow> f x = g x) \<Longrightarrow> bindR m f = bindR m' g"
  by (cases m') auto

text \<open>The recursion ends because the names on the stack are distinct names of schemes.\<close>

function EncSchemes_resolve_from :: "enc_schemes \<Rightarrow> string \<Rightarrow> string list \<Rightarrow> enc_scheme_fields result" where
  "EncSchemes_resolve_from schemes name stack =
     (if name \<in> set stack then Inl RuntimeError
      else case map_of schemes name of
        None \<Rightarrow> Inl ValueError
      | Some scheme \<Rightarrow>
          bindR (mapR (\<lambda>(pname, pimport).
                   bindR (EncSchemes_resolve_from schemes (imp_parent pimport) (stack @ [name])) (\<lambda>resolved.
                   EncSchemeImport_apply_settings pimport resolved)) (scheme_parents scheme)) (\<lambda>resolved_parents.
          bindR (merge_all EncSchemeFields_empty resolved_parents) (\<lambda>merged.
          EncSchemeFields_merge_in merged (direct_fields scheme))))"
  by pat_completeness auto

termination
proof (relation "measure (\<lambda>(schemes, name, stack). card (set (map fst schemes) - set stack))", goal_cases)
  case (2 schemes name stack scheme p pname pimport)
  then have "name \<in> set (map fst schemes)"
    by (metis domI dom_map_of_conv_image_fst image_set)
  then have "set (map fst schemes) - set (stack @ [name]) \<subset> set (map fst schemes) - set stack"
    using 2(1) by auto
  then show ?case
    by (simp only: in_measure prod.case) (intro psubset_card_mono finite_Diff finite_set)
qed simp

declare EncSchemes_resolve_from.simps [simp del]

definition EncSchemes_resolve :: "string \<Rightarrow> enc_schemes \<Rightarrow> enc_scheme_fields result" where
  "EncSchemes_resolve name schemes =
     bindR (EncSchemes_resolve_from schemes name []) (\<lambda>flds.
     if py_bool (low_mask 32 AND NOT (esfs_mask flds)) then Inl ValueError else Inr flds)"

section \<open>Invariant\<close>

definition esf_ok :: "enc_scheme_field \<Rightarrow> bool" where
  "esf_ok f \<longleftrightarrow>
     BitRanges_inv (esf_bits f) \<and>
     pred_option (\<lambda>v. BoolLiteral_inv v \<and> bl_width v = br_width (esf_bits f)) (esf_value f)"

definition field_mask :: "enc_scheme_field \<Rightarrow> int" where
  "field_mask f = br_mask (esf_bits f)"

fun fields_mask :: "(string \<times> enc_scheme_field) list \<Rightarrow> int" where
  "fields_mask [] = 0"
| "fields_mask (f # fs) = field_mask (snd f) OR fields_mask fs"

fun fields_disjoint :: "(string \<times> enc_scheme_field) list \<Rightarrow> bool" where
  "fields_disjoint [] = True"
| "fields_disjoint (f # fs) = (field_mask (snd f) AND fields_mask fs = 0 \<and> fields_disjoint fs)"

definition esfs_ok :: "enc_scheme_fields \<Rightarrow> bool" where
  "esfs_ok e \<longleftrightarrow>
     distinct (map fst (esfs_fields e)) \<and> list_all (\<lambda>f. esf_ok (snd f)) (esfs_fields e) \<and>
     fields_disjoint (esfs_fields e) \<and> esfs_mask e = fields_mask (esfs_fields e) \<and>
     esfs_op_fields e = map fst (filter (\<lambda>f. esf_value (snd f) = None) (esfs_fields e))"

definition scheme_ok :: "enc_scheme \<Rightarrow> bool" where
  "scheme_ok s \<longleftrightarrow>
     list_all (\<lambda>f. esf_ok (snd f)) (esfs_fields (direct_fields s)) \<and>
     list_all (\<lambda>p. list_all (\<lambda>st. BoolLiteral_inv (snd st)) (imp_settings (snd p))) (scheme_parents s)"

lemma fields_mask_append [simp]: "fields_mask (fs @ gs) = fields_mask fs OR fields_mask gs"
  by (induction fs) (simp_all add: or.assoc)

lemma fields_disjoint_snoc:
  "fields_disjoint fs \<Longrightarrow> fields_mask fs AND field_mask (snd f) = 0 \<Longrightarrow> fields_disjoint (fs @ [f])"
proof (induction fs)
  case (Cons g fs)
  have "fields_mask fs AND field_mask (snd f) = 0" "field_mask (snd g) AND (fields_mask fs OR field_mask (snd f)) = 0"
    using Cons.prems by (auto simp: bit_eq_iff bit_simps)
  then show ?case using Cons by simp
qed simp

lemma merge_in_loop_ok:
  "merge_in_loop e fs = Inr e' \<Longrightarrow> esfs_ok e \<Longrightarrow> list_all (\<lambda>f. esf_ok (snd f)) fs \<Longrightarrow> esfs_ok e'"
proof (induction e fs rule: merge_in_loop.induct)
  case (2 e name field fs)
  have m: "esfs_mask e AND field_mask field = 0" "name \<notin> set (map fst (esfs_fields e))"
    using "2.prems"(1) by (auto simp: field_mask_def py_bool_def map_of_eq_None_iff split: if_splits)
  let ?e = "e\<lparr>esfs_fields := esfs_fields e @ [(name, field)], esfs_mask := esfs_mask e OR field_mask field,
    esfs_op_fields := (if esf_value field = None then esfs_op_fields e @ [name] else esfs_op_fields e)\<rparr>"
  have "esfs_ok ?e"
    using "2.prems"(2,3) m fields_disjoint_snoc [of "esfs_fields e" "(name, field)"] by (simp add: esfs_ok_def)
  then show ?case
    using 2 by (auto simp: field_mask_def Let_def require_Inr_iff split: if_splits)
qed simp

lemma EncSchemeField_make_ok: "EncSchemeField_make s v = Inr f \<Longrightarrow> esf_ok f"
  by (auto simp: EncSchemeField_make_def esf_ok_def bindR_Inr_iff BitRanges_from_yaml_inv
      BoolLiteral_from_string_inv split: option.splits if_splits)

lemma EncSchemeField_from_yaml_ok:
  assumes "EncSchemeField_from_yaml y = Inr f"
  shows "esf_ok f"
proof -
  have dict: "esf_ok f"
    if "(case yaml_bits_str b of None \<Rightarrow> Inl ValueError
         | Some s \<Rightarrow> (case v of YNone \<Rightarrow> EncSchemeField_make s None | YStr v \<Rightarrow> EncSchemeField_make s (Some v)
             | _ \<Rightarrow> Inl ValueError)) = Inr f" for b v
    using that by (cases "yaml_bits_str b"; cases v) (auto intro: EncSchemeField_make_ok)
  show ?thesis
  proof (cases "\<exists>d. y = YDict d")
    case True
    then show ?thesis using assms dict by (auto simp: EncSchemeField_from_yaml_def bindR_Inr_iff)
  next
    case False
    then show ?thesis
      using assms by (cases y; cases "yaml_bits_str y") (auto simp: EncSchemeField_from_yaml_def intro: EncSchemeField_make_ok)
  qed
qed

lemma fields_from_yaml_loop_ok:
  "fields_from_yaml_loop ov acc d = Inr (ov', acc') \<Longrightarrow> list_all (\<lambda>f. esf_ok (snd f)) (esfs_fields acc) \<Longrightarrow>
   list_all (\<lambda>f. esf_ok (snd f)) (esfs_fields acc')"
proof (induction ov acc d rule: fields_from_yaml_loop.induct)
  case (2 ov acc key val items)
  then show ?case
    by (auto simp: bindR_Inr_iff EncSchemeField_from_yaml_ok split: yaml.splits)
qed simp

lemma import_settings_ok:
  "import_settings st args = Inr st' \<Longrightarrow> list_all (\<lambda>s. BoolLiteral_inv (snd s)) st \<Longrightarrow>
   list_all (\<lambda>s. BoolLiteral_inv (snd s)) st'"
proof (induction st args rule: import_settings.induct)
  case (2 st arg args)
  then show ?case
    by (auto simp: bindR_Inr_iff BoolLiteral_from_string_inv split: list.splits if_splits)
qed simp

lemma EncSchemeImport_init_ok:
  assumes "EncSchemeImport_init y = Inr i"
  shows "list_all (\<lambda>s. BoolLiteral_inv (snd s)) (imp_settings i)"
proof -
  have "\<exists>args st. import_settings [] args = Inr st \<and> imp_settings i = st"
  proof (cases "check_str y")
    case (Inr s)
    then show ?thesis
    proof (cases "parse_import s")
      case (Some pa)
      obtain parent args where pa: "pa = (parent, args)" by force
      show ?thesis
        using assms Inr Some pa
        by (cases args) (auto simp: EncSchemeImport_init_def bindR_Inr_iff intro: exI [of _ "[]"])
    qed (use assms Inr in \<open>simp add: EncSchemeImport_init_def\<close>)
  qed (use assms in \<open>simp add: EncSchemeImport_init_def\<close>)
  then show ?thesis using import_settings_ok by fastforce
qed

lemma EncScheme_init_ok:
  assumes "EncScheme_init y = Inr s"
  shows "scheme_ok s"
proof -
  obtain yd direct ps parents where
    d: "(case ydict_get_or_None yd ''fields'' of
          YNone \<Rightarrow> Inr EncSchemeFields_empty | y \<Rightarrow> EncSchemeFields_from_yaml y) = Inr direct"
    and p: "(case ydict_get_or_None yd ''parents'' of
          YNone \<Rightarrow> Inr [] | y \<Rightarrow> bindR (check_list y) (mapR EncSchemeImport_init)) = Inr ps"
    and i: "index_list ps imp_parent = Inr parents" and s: "s = \<lparr>direct_fields = direct, scheme_parents = parents\<rparr>"
    using assms by (auto simp: EncScheme_init_def bindR_Inr_iff split: if_splits)
  have "list_all (\<lambda>f. esf_ok (snd f)) (esfs_fields direct)"
    using d by (auto simp: EncSchemeFields_empty_def EncSchemeFields_from_yaml_def bindR_Inr_iff
        split: yaml.splits if_splits dest: fields_from_yaml_loop_ok)
  moreover have "\<exists>ys. mapR EncSchemeImport_init ys = Inr ps"
    using p by (auto simp: bindR_Inr_iff split: yaml.splits intro: exI [of _ "[]"])
  then have "list_all (\<lambda>i. list_all (\<lambda>s. BoolLiteral_inv (snd s)) (imp_settings i)) ps"
    by (auto simp: mapR_Inr_iff list_all_length intro: EncSchemeImport_init_ok [unfolded list_all_length, rule_format])
  ultimately show ?thesis
    using i by (auto simp: s scheme_ok_def index_list_Inr_iff list_all_iff)
qed

lemma EncSchemes_init_ok: "EncSchemes_init y = Inr schemes \<Longrightarrow> list_all (\<lambda>s. scheme_ok (snd s)) schemes"
proof -
  have "EncSchemes_items d = Inr schemes \<Longrightarrow> list_all (\<lambda>s. scheme_ok (snd s)) schemes" for d
    by (induction d arbitrary: schemes rule: EncSchemes_items.induct)
      (auto simp: bindR_Inr_iff EncScheme_init_ok split: yaml.splits)
  then show "EncSchemes_init y = Inr schemes \<Longrightarrow> list_all (\<lambda>s. scheme_ok (snd s)) schemes"
    by (auto simp: EncSchemes_init_def split: yaml.splits)
qed

section \<open>Resolution\<close>

lemma apply_settings_loop_ok:
  "apply_settings_loop old st = Inr fs \<Longrightarrow> list_all (\<lambda>f. esf_ok (snd f)) old \<Longrightarrow>
   list_all (\<lambda>s. BoolLiteral_inv (snd s)) st \<Longrightarrow> list_all (\<lambda>f. esf_ok (snd f)) fs"
proof (induction old st arbitrary: fs rule: apply_settings_loop.induct)
  case (2 old name literal st)
  then obtain f gs where f: "map_of old name = Some f" "br_width (esf_bits f) = bl_width literal"
    and gs: "apply_settings_loop old st = Inr gs"
      "fs = (name, \<lparr>esf_bits = esf_bits f, esf_value = Some literal\<rparr>) # gs"
    by (auto simp: bindR_Inr_iff split: option.splits if_splits)
  have "esf_ok f" using map_of_SomeD [OF f(1)] "2.prems"(2) by (fastforce simp: list_all_iff)
  then show ?case
    using 2 f gs by (auto simp: esf_ok_def)
qed simp

lemma apply_settings_ok:
  assumes "EncSchemeImport_apply_settings imp e = Inr e'" and "list_all (\<lambda>f. esf_ok (snd f)) (esfs_fields e)"
    and "list_all (\<lambda>s. BoolLiteral_inv (snd s)) (imp_settings imp)"
  shows "list_all (\<lambda>f. esf_ok (snd f)) (esfs_fields e')"
  using assms apply_settings_loop_ok [of "esfs_fields e" "imp_settings imp"]
  by (force simp: EncSchemeImport_apply_settings_def bindR_Inr_iff list_all_iff Let_def)

lemma merge_all_ok:
  "merge_all m es = Inr m' \<Longrightarrow> esfs_ok m \<Longrightarrow>
   list_all (\<lambda>e. list_all (\<lambda>f. esf_ok (snd f)) (esfs_fields e)) es \<Longrightarrow> esfs_ok m'"
  by (induction m es rule: merge_all.induct)
    (auto simp: bindR_Inr_iff EncSchemeFields_merge_in_def intro: merge_in_loop_ok)

lemma EncSchemes_resolve_from_ok:
  assumes "list_all (\<lambda>s. scheme_ok (snd s)) schemes"
  shows "EncSchemes_resolve_from schemes name stack = Inr e \<Longrightarrow> esfs_ok e"
  using assms
proof (induction schemes name stack arbitrary: e rule: EncSchemes_resolve_from.induct)
  case (1 schemes name stack)
  obtain scheme ps merged where sc: "name \<notin> set stack" "map_of schemes name = Some scheme"
    and ps: "mapR (\<lambda>(pname, pimport).
        bindR (EncSchemes_resolve_from schemes (imp_parent pimport) (stack @ [name])) (\<lambda>resolved.
        EncSchemeImport_apply_settings pimport resolved)) (scheme_parents scheme) = Inr ps"
    and m: "merge_all EncSchemeFields_empty ps = Inr merged" "EncSchemeFields_merge_in merged (direct_fields scheme) = Inr e"
    using "1.prems"(1)
    by (auto simp: EncSchemes_resolve_from.simps [of schemes name stack] bindR_Inr_iff split: if_splits option.splits)
  have ok: "scheme_ok scheme"
    using map_of_SomeD [OF sc(2)] "1.prems"(2) by (fastforce simp: list_all_iff)
  have "list_all (\<lambda>f. esf_ok (snd f)) (esfs_fields (ps ! k))" if k: "k < length ps" for k
  proof -
    obtain pname imp where p: "scheme_parents scheme ! k = (pname, imp)" by force
    have len: "length ps = length (scheme_parents scheme)" using ps by (simp add: mapR_Inr_iff)
    then have mem: "(pname, imp) \<in> set (scheme_parents scheme)" using k p nth_mem by metis
    have "(case scheme_parents scheme ! k of (pname, pimport) \<Rightarrow>
        bindR (EncSchemes_resolve_from schemes (imp_parent pimport) (stack @ [name])) (\<lambda>resolved.
        EncSchemeImport_apply_settings pimport resolved)) = Inr (ps ! k)"
      using ps k len unfolding mapR_Inr_iff by simp
    with p obtain r where r: "EncSchemes_resolve_from schemes (imp_parent imp) (stack @ [name]) = Inr r"
      "EncSchemeImport_apply_settings imp r = Inr (ps ! k)"
      by (auto simp: bindR_Inr_iff)
    have "esfs_ok r" using "1.IH" [OF sc(1,2) mem refl r(1) "1.prems"(2)] .
    then show ?thesis
      using apply_settings_ok [OF r(2)] ok mem by (fastforce simp: esfs_ok_def scheme_ok_def list_all_iff)
  qed
  then have "list_all (\<lambda>e. list_all (\<lambda>f. esf_ok (snd f)) (esfs_fields e)) ps"
    by (simp add: list_all_length)
  moreover have "esfs_ok EncSchemeFields_empty" by (simp add: esfs_ok_def EncSchemeFields_empty_def)
  ultimately have "esfs_ok merged" using merge_all_ok [OF m(1)] by simp
  then show ?case
    using merge_in_loop_ok m(2) ok by (simp add: EncSchemeFields_merge_in_def scheme_ok_def)
qed

lemma bit_fields_mask: "bit (fields_mask fs) k \<longleftrightarrow> (\<exists>f \<in> set fs. bit (field_mask (snd f)) k)"
  by (induction fs) (simp_all add: bit_or_iff)

lemma fields_disjoint_unique:
  "fields_disjoint fs \<Longrightarrow> f \<in> set fs \<Longrightarrow> g \<in> set fs \<Longrightarrow> bit (field_mask (snd f)) k \<Longrightarrow>
   bit (field_mask (snd g)) k \<Longrightarrow> f = g"
proof (induction fs)
  case (Cons h fs)
  have "\<not> (bit (field_mask (snd h)) k \<and> bit (fields_mask fs) k)"
    using Cons.prems(1) by (metis bit_0_eq bit_and_iff bot_apply bot_bool_def fields_disjoint.simps(2))
  then show ?case using Cons by (auto simp: bit_fields_mask)
qed simp

text \<open>What the encodings need of a resolved scheme.\<close>

definition complete_scheme :: "enc_scheme_fields \<Rightarrow> bool" where
  "complete_scheme e \<longleftrightarrow> esfs_ok e \<and> esfs_mask e = low_mask 32"

lemma esf_ok_mask_lt: "esf_ok f \<Longrightarrow> bit (field_mask f) k \<Longrightarrow> k < 32"
  by (rule ranges_mask_bit_lt [of "br_ranges (esf_bits f)"]) (simp_all add: esf_ok_def BitRanges_inv_def field_mask_def)

lemma EncSchemes_resolve_complete:
  assumes "EncSchemes_init y = Inr schemes" and "EncSchemes_resolve name schemes = Inr e"
  shows "complete_scheme e"
proof -
  have ok: "esfs_ok e" and m: "low_mask 32 AND NOT (esfs_mask e) = 0"
    using assms EncSchemes_resolve_from_ok [OF EncSchemes_init_ok [OF assms(1)]]
    by (auto simp: EncSchemes_resolve_def bindR_Inr_iff py_bool_def split: if_splits)
  have "bit (esfs_mask e) k \<longleftrightarrow> k < 32" for k
  proof
    assume "bit (esfs_mask e) k"
    then show "k < 32"
      using ok esf_ok_mask_lt by (auto simp: esfs_ok_def bit_fields_mask list_all_iff)
  next
    assume "k < 32"
    then show "bit (esfs_mask e) k"
      using arg_cong [OF m, of "\<lambda>x. bit x k"] by (simp add: bit_simps)
  qed
  then show ?thesis
    using ok by (auto simp: complete_scheme_def bit_eq_iff)
qed

text \<open>
  C39: encoding schemes.  When the schemes of a YAML document are accepted and a scheme resolves,
  its fields, inherited ones included, partition the 32-bit word: each of the bits 0 to 31 is in
  the bits of exactly one field and no field has another bit.  The names of the fields are distinct,
  the literal of a field has the width of its bits, and the fields without a literal are the
  operand fields.
\<close>

theorem scheme_partition:
  assumes "EncSchemes_init y = Inr schemes" and "EncSchemes_resolve name schemes = Inr e"
  shows "(\<forall>k. k < 32 \<longleftrightarrow> (\<exists>!f. f \<in> set (esfs_fields e) \<and> bit (br_mask (esf_bits (snd f))) k)) \<and>
    (\<forall>k f. f \<in> set (esfs_fields e) \<and> bit (br_mask (esf_bits (snd f))) k \<longrightarrow> k < 32) \<and>
    distinct (map fst (esfs_fields e)) \<and>
    (\<forall>n f v. (n, f) \<in> set (esfs_fields e) \<and> esf_value f = Some v \<longrightarrow> bl_width v = br_width (esf_bits f)) \<and>
    (\<forall>n f. (n, f) \<in> set (esfs_fields e) \<longrightarrow> (n \<in> set (esfs_op_fields e) \<longleftrightarrow> esf_value f = None))"
proof -
  have c: "esfs_ok e" "esfs_mask e = low_mask 32"
    using EncSchemes_resolve_complete [OF assms] by (simp_all add: complete_scheme_def)
  have ok: "esf_ok (snd f)" if "f \<in> set (esfs_fields e)" for f
    using c(1) that by (simp add: esfs_ok_def list_all_iff)
  have lt: "k < 32" if "f \<in> set (esfs_fields e)" "bit (br_mask (esf_bits (snd f))) k" for f k
    using esf_ok_mask_lt ok that unfolding field_mask_def by blast
  have "\<exists>!f. f \<in> set (esfs_fields e) \<and> bit (br_mask (esf_bits (snd f))) k" if k: "k < 32" for k
  proof -
    have "bit (fields_mask (esfs_fields e)) k" using c k bit_low_mask [of 32 k] by (simp add: esfs_ok_def)
    then show ?thesis
      using fields_disjoint_unique [of "esfs_fields e"] c(1)
      unfolding bit_fields_mask by (auto simp: esfs_ok_def field_mask_def)
  qed
  with lt have part: "k < 32 \<longleftrightarrow> (\<exists>!f. f \<in> set (esfs_fields e) \<and> bit (br_mask (esf_bits (snd f))) k)" for k
    by (metis (no_types))
  have wd: "bl_width v = br_width (esf_bits f)" if "(n, f) \<in> set (esfs_fields e)" "esf_value f = Some v" for n f v
    using ok [OF that(1)] that(2) by (simp add: esf_ok_def)
  have ops: "n \<in> set (esfs_op_fields e) \<longleftrightarrow> esf_value f = None" if "(n, f) \<in> set (esfs_fields e)" for n f
  proof -
    have d: "g = f" if "(n, g) \<in> set (esfs_fields e)" for g
      using c(1) that \<open>(n, f) \<in> _\<close> eq_key_imp_eq_value [of "esfs_fields e" n g f] by (simp add: esfs_ok_def)
    have "n \<in> set (esfs_op_fields e) \<longleftrightarrow> (\<exists>g. (n, g) \<in> set (esfs_fields e) \<and> esf_value g = None)"
      using c(1) by (auto simp: esfs_ok_def image_iff)
    then show ?thesis using d that by blast
  qed
  have "distinct (map fst (esfs_fields e))" using c(1) by (simp add: esfs_ok_def)
  then show ?thesis
    by (intro conjI allI impI) ((rule part lt wd ops | assumption | erule conjE)+)
qed

text \<open>The schemes \<^verbatim>\<open>rv\<close>, \<^verbatim>\<open>funct3\<close> and \<^verbatim>\<open>S\<close> of \<^verbatim>\<open>data/enc-schemes.yml\<close>, and a child that sets the opcode.\<close>

definition demo_schemes :: yaml where
  "demo_schemes = YDict
    [(YStr ''rv'', YDict [(YStr ''fields'', YDict
        [(YStr ''opcode'', YStr ''6-2''),
         (YStr ''uncomp'', YDict [(YStr ''bits'', YStr ''1-0''), (YStr ''value'', YStr ''b11'')])])]),
     (YStr ''funct3'', YDict [(YStr ''fields'', YDict [(YStr ''funct3'', YStr ''14-12'')])]),
     (YStr ''S'', YDict
        [(YStr ''parents'', YList [YStr ''rv(opcode=b01000)'', YStr ''funct3'']),
         (YStr ''fields'', YDict
           [(YStr ''imm'', YStr ''31-25,11-7''), (YStr ''rs2'', YStr ''24-20''), (YStr ''rs1'', YStr ''19-15'')])])]"

definition demo_resolved :: enc_scheme_fields where
  "demo_resolved = (case bindR (EncSchemes_init demo_schemes) (EncSchemes_resolve ''S'') of
     Inr e \<Rightarrow> e | Inl _ \<Rightarrow> EncSchemeFields_empty)"

lemma demo_schemes_resolve:
  "bindR (EncSchemes_init demo_schemes) (EncSchemes_resolve ''S'') = Inr demo_resolved"
  by code_simp

theorem scheme_partition_witness:
  "\<exists>!f. f \<in> set (esfs_fields demo_resolved) \<and> bit (br_mask (esf_bits (snd f))) 8"
proof -
  obtain schemes where "EncSchemes_init demo_schemes = Inr schemes" "EncSchemes_resolve ''S'' schemes = Inr demo_resolved"
    using demo_schemes_resolve by (auto simp: bindR_Inr_iff)
  from scheme_partition [OF this, THEN conjunct1, rule_format, of 8] show ?thesis by simp
qed

end
