(* ===== verification/Encoding.thy ===== *)
theory Encoding
  imports Encoding_Scheme
begin

text \<open>
  Instruction encodings: classes \<^verbatim>\<open>EncodingField\<close> and \<^verbatim>\<open>Encoding\<close> of \<^verbatim>\<open>util/shared/encoding.py\<close>.

  The abstract specification is \<open>encodes\<close>: the words whose literal fields agree with the literals.
  The masks that the decoder uses recognise exactly these words, and assembling and extracting
  operands are inverse to each other.
\<close>

section \<open>Data and operations\<close>

text \<open>\<^verbatim>\<open>Union[BoolLiteral, str]\<close>: a fixed value, or the name of an operand.\<close>

datatype enc_value = Literal bool_literal | OpName string

record encoding_field =
  ef_value :: enc_value
  ef_scheme_field :: enc_scheme_field

text \<open>The match of \<^verbatim>\<open>b[01x_]+$\<close>.\<close>

definition is_literal_str :: "string \<Rightarrow> bool" where
  "is_literal_str s =
     (case s of
        [] \<Rightarrow> False
      | c # cs \<Rightarrow>
          let digit = (\<lambda>c. c \<in> {CHR ''0'', CHR ''1'', CHR ''x'', CHR ''_''})
          in c = CHR ''b'' \<and> takeWhile digit cs \<noteq> [] \<and> at_end (dropWhile digit cs))"

definition EncodingField_from_yaml :: "string \<Rightarrow> enc_scheme_field \<Rightarrow> encoding_field result" where
  "EncodingField_from_yaml as_str scheme_field =
     (if as_str = [] then Inl ValueError
      else if is_literal_str as_str then
        bindR (BoolLiteral_from_string as_str) (\<lambda>value.
        if br_width (esf_bits scheme_field) \<noteq> bl_width value then Inl ValueError
        else Inr \<lparr>ef_value = Literal value, ef_scheme_field = scheme_field\<rparr>)
      else Inr \<lparr>ef_value = OpName as_str, ef_scheme_field = scheme_field\<rparr>)"

record encoding =
  op_to_field_name :: "(string \<times> string) list"
  enc_fields :: "(string \<times> encoding_field) list"

fun Encoding_loop :: "yaml_dict \<Rightarrow> encoding \<Rightarrow> (string \<times> enc_scheme_field) list \<Rightarrow> encoding result" where
  "Encoding_loop ydm self [] = Inr self"
| "Encoding_loop ydm self ((field_name, scheme_field) # sfs) =
     (case esf_value scheme_field of
        Some v \<Rightarrow>
          Encoding_loop ydm (self\<lparr>enc_fields := enc_fields self @
            [(field_name, \<lparr>ef_value = Literal v, ef_scheme_field = scheme_field\<rparr>)]\<rparr>) sfs
      | None \<Rightarrow>
          bindR (ydict_item ydm field_name) (\<lambda>y.
          bindR (check_str y) (\<lambda>ef_val.
          bindR (EncodingField_from_yaml ef_val scheme_field) (\<lambda>field.
          let self' = self\<lparr>enc_fields := enc_fields self @ [(field_name, field)]\<rparr>
          in case ef_value field of
               OpName v \<Rightarrow>
                 if map_of (op_to_field_name self) v \<noteq> None then Inl ValueError
                 else Encoding_loop ydm
                   (self'\<lparr>op_to_field_name := op_to_field_name self @ [(v, field_name)]\<rparr>) sfs
             | Literal _ \<Rightarrow> Encoding_loop ydm self' sfs))))"

definition Encoding_init :: "yaml \<Rightarrow> enc_schemes \<Rightarrow> encoding result" where
  "Encoding_init yml schemes =
     bindR (check_keys yml [''scheme'', ''mapping''] []) (\<lambda>yd.
     bindR (ydict_item yd ''scheme'') (\<lambda>y.
     bindR (check_str y) (\<lambda>scheme_name.
     bindR (EncSchemes_resolve scheme_name schemes) (\<lambda>scheme_fields.
     bindR (ydict_item yd ''mapping'') (\<lambda>mapping.
     bindR (check_keys mapping (esfs_op_fields scheme_fields) []) (\<lambda>ydm.
     Encoding_loop ydm \<lparr>op_to_field_name = [], enc_fields = []\<rparr> (esfs_fields scheme_fields)))))))"

text \<open>The bits \<open>idx\<close> of one range of a literal field.\<close>

fun masks_bits :: "bool_literal \<Rightarrow> int \<Rightarrow> int \<Rightarrow> int \<times> int \<Rightarrow> int list \<Rightarrow> (int \<times> int) result" where
  "masks_bits value val_lsb lsb m [] = Inr m"
| "masks_bits value val_lsb lsb (m0, m1) (idx # idxs) =
     bindR (BoolLiteral_char_for_bit (val_lsb + idx) value) (\<lambda>desc.
     masks_bits value val_lsb lsb
       (if desc \<in> {CHR ''0'', CHR ''x''} then m0 OR push_bit (nat (idx + lsb)) 1 else m0,
        if desc \<in> {CHR ''1'', CHR ''x''} then m1 OR push_bit (nat (idx + lsb)) 1 else m1) idxs)"

fun masks_ranges :: "bool_literal \<Rightarrow> int \<Rightarrow> int \<Rightarrow> int \<times> int \<Rightarrow> (int \<times> int) list \<Rightarrow> (int \<times> int) result" where
  "masks_ranges value width bits_seen m [] = Inr m"
| "masks_ranges value width bits_seen m ((msb, lsb) # rs) =
     (let val_msb = width - 1 - bits_seen;
          val_lsb = val_msb - msb + lsb
      in bindR (masks_bits value val_lsb lsb m [0..msb - lsb]) (\<lambda>m'.
         masks_ranges value width (bits_seen + (msb - lsb + 1)) m' rs))"

fun masks_fields :: "int \<times> int \<Rightarrow> (string \<times> encoding_field) list \<Rightarrow> (int \<times> int) result" where
  "masks_fields m [] = Inr m"
| "masks_fields (m0, m1) ((field_name, field) # fs) =
     (let bits = esf_bits (ef_scheme_field field)
      in case ef_value field of
           OpName _ \<Rightarrow> masks_fields (m0 OR br_mask bits, m1 OR br_mask bits) fs
         | Literal value \<Rightarrow>
             require (0 < bl_width value)
              (require (bl_width value = br_width bits)
                (bindR (masks_ranges value (br_width bits) 0 (m0, m1) (br_ranges bits)) (\<lambda>m.
                 masks_fields m fs))))"

definition get_masks :: "encoding \<Rightarrow> (int \<times> int) result" where
  "get_masks self =
     bindR (masks_fields (0, 0) (enc_fields self)) (\<lambda>(m0, m1).
     require (m0 OR m1 = low_mask 32) (Inr (m0, m1)))"

definition get_ones_mask :: "encoding \<Rightarrow> int result" where
  "get_ones_mask self = bindR (get_masks self) (\<lambda>(m0, m1). Inr (m1 AND NOT m0))"

text \<open>\<^verbatim>\<open>op_to_idx.get(name, 0)\<close>\<close>

definition op_idx :: "(string \<times> int) list \<Rightarrow> string \<Rightarrow> int" where
  "op_idx op_to_idx name = (case map_of op_to_idx name of Some v \<Rightarrow> v | None \<Rightarrow> 0)"

fun assemble_loop :: "(string \<times> int) list \<Rightarrow> int \<Rightarrow> (string \<times> encoding_field) list \<Rightarrow> int result" where
  "assemble_loop op_to_idx val [] = Inr val"
| "assemble_loop op_to_idx val ((field_name, field) # fs) =
     (case ef_value field of
        Literal _ \<Rightarrow> assemble_loop op_to_idx val fs
      | OpName name \<Rightarrow>
          let field_val = op_idx op_to_idx name; bits = esf_bits (ef_scheme_field field)
          in require (0 \<le> field_val)
               (if py_bool (drop_bit (nat (br_width bits)) field_val) then Inl ValueError
                else bindR (BitRanges_encode field_val bits) (\<lambda>e. assemble_loop op_to_idx (val OR e) fs)))"

definition assemble :: "encoding \<Rightarrow> (string \<times> int) list \<Rightarrow> int result" where
  "assemble self op_to_idx =
     bindR (get_ones_mask self) (\<lambda>val. assemble_loop op_to_idx val (enc_fields self))"

fun extract_loop :: "int \<Rightarrow> (string \<times> encoding_field) list \<Rightarrow> (string \<times> int) list" where
  "extract_loop word [] = []"
| "extract_loop word ((field_name, field) # fs) =
     (case ef_value field of
        Literal _ \<Rightarrow> extract_loop word fs
      | OpName name \<Rightarrow>
          (name, BitRanges_decode word (esf_bits (ef_scheme_field field))) # extract_loop word fs)"

definition extract_operands :: "encoding \<Rightarrow> int \<Rightarrow> (string \<times> int) list" where
  "extract_operands self word = extract_loop word (enc_fields self)"

section \<open>Invariant\<close>

definition ef_ok :: "encoding_field \<Rightarrow> bool" where
  "ef_ok f \<longleftrightarrow> esf_ok (ef_scheme_field f) \<and>
     (case ef_value f of
        Literal v \<Rightarrow> BoolLiteral_inv v \<and> bl_width v = br_width (esf_bits (ef_scheme_field f))
      | OpName _ \<Rightarrow> True)"

fun op_names :: "(string \<times> encoding_field) list \<Rightarrow> (string \<times> string) list" where
  "op_names [] = []"
| "op_names ((n, f) # fs) = (case ef_value f of OpName v \<Rightarrow> (v, n) # op_names fs | Literal _ \<Rightarrow> op_names fs)"

definition scheme_fields_of :: "(string \<times> encoding_field) list \<Rightarrow> (string \<times> enc_scheme_field) list" where
  "scheme_fields_of fs = map (\<lambda>(n, f). (n, ef_scheme_field f)) fs"

definition encoding_ok :: "encoding \<Rightarrow> bool" where
  "encoding_ok en \<longleftrightarrow>
     list_all (\<lambda>f. ef_ok (snd f)) (enc_fields en) \<and>
     distinct (map fst (enc_fields en)) \<and>
     fields_disjoint (scheme_fields_of (enc_fields en)) \<and>
     fields_mask (scheme_fields_of (enc_fields en)) = low_mask 32 \<and>
     op_to_field_name en = op_names (enc_fields en) \<and>
     distinct (map fst (op_names (enc_fields en)))"

lemma scheme_fields_of_simps [simp]:
  "scheme_fields_of [] = []"
  "scheme_fields_of (f # fs) = (fst f, ef_scheme_field (snd f)) # scheme_fields_of fs"
  "scheme_fields_of (fs @ gs) = scheme_fields_of fs @ scheme_fields_of gs"
  by (simp_all add: scheme_fields_of_def split: prod.splits)

lemma op_names_append [simp]: "op_names (fs @ gs) = op_names fs @ op_names gs"
  by (induction fs rule: op_names.induct) (auto split: enc_value.splits)

lemma EncodingField_from_yaml_ok:
  "EncodingField_from_yaml s sf = Inr f \<Longrightarrow> esf_ok sf \<Longrightarrow> ef_ok f \<and> ef_scheme_field f = sf"
  by (auto simp: EncodingField_from_yaml_def ef_ok_def bindR_Inr_iff BoolLiteral_from_string_inv split: if_splits)

definition loop_inv :: "encoding \<Rightarrow> bool" where
  "loop_inv en \<longleftrightarrow> list_all (\<lambda>f. ef_ok (snd f)) (enc_fields en) \<and>
     op_to_field_name en = op_names (enc_fields en) \<and> distinct (map fst (op_names (enc_fields en)))"

lemma Encoding_loop_ok:
  "Encoding_loop ydm self sfs = Inr en \<Longrightarrow> loop_inv self \<Longrightarrow> list_all (\<lambda>f. esf_ok (snd f)) sfs \<Longrightarrow>
   loop_inv en \<and> scheme_fields_of (enc_fields en) = scheme_fields_of (enc_fields self) @ sfs"
proof (induction ydm self sfs rule: Encoding_loop.induct)
  case (2 ydm self name sf sfs)
  have sf: "esf_ok sf" "list_all (\<lambda>f. esf_ok (snd f)) sfs" using "2.prems"(3) by simp_all
  show ?case
  proof (cases "esf_value sf")
    case (Some v)
    let ?f = "\<lparr>ef_value = Literal v, ef_scheme_field = sf\<rparr>"
    have "loop_inv (self\<lparr>enc_fields := enc_fields self @ [(name, ?f)]\<rparr>)"
      using "2.prems"(2) sf(1) Some by (auto simp: loop_inv_def ef_ok_def esf_ok_def)
    from "2.IH"(3) [OF Some _ this sf(2)] show ?thesis
      using "2.prems"(1) Some by simp
  next
    case None
    obtain y ef_val f where y: "ydict_item ydm name = Inr y" "check_str y = Inr ef_val"
      "EncodingField_from_yaml ef_val sf = Inr f"
      using "2.prems"(1) None by (auto simp: bindR_Inr_iff)
    have f: "ef_ok f" "ef_scheme_field f = sf" using EncodingField_from_yaml_ok [OF y(3) sf(1)] by simp_all
    show ?thesis
    proof (cases "ef_value f")
      case (Literal v)
      have "loop_inv (self\<lparr>enc_fields := enc_fields self @ [(name, f)]\<rparr>)"
        using "2.prems"(2) f(1) Literal by (simp add: loop_inv_def)
      from "2.IH"(1) [OF None y refl Literal _ this sf(2)] show ?thesis
        using "2.prems"(1) None y f(2) Literal by simp
    next
      case (OpName v)
      have v: "map_of (op_to_field_name self) v = None"
        using "2.prems"(1) None y OpName by (auto split: if_splits)
      then have "loop_inv (self\<lparr>enc_fields := enc_fields self @ [(name, f)],
          op_to_field_name := op_to_field_name self @ [(v, name)]\<rparr>)"
        using "2.prems"(2) f(1) OpName by (simp add: loop_inv_def map_of_eq_None_iff)
      with "2.IH"(2) [OF None y refl OpName _ _ _ sf(2)] show ?thesis
        using "2.prems"(1) None y f(2) OpName v by simp
    qed
  qed
qed simp

lemma Encoding_init_ok:
  assumes "EncSchemes_init y = Inr schemes" and "Encoding_init yml schemes = Inr en"
  shows "encoding_ok en"
proof -
  obtain name e ydm where e: "EncSchemes_resolve name schemes = Inr e"
    and l: "Encoding_loop ydm \<lparr>op_to_field_name = [], enc_fields = []\<rparr> (esfs_fields e) = Inr en"
    using assms(2) by (auto simp: Encoding_init_def bindR_Inr_iff)
  have c: "complete_scheme e" by (rule EncSchemes_resolve_complete [OF assms(1) e])
  have "loop_inv en" "scheme_fields_of (enc_fields en) = esfs_fields e"
    using Encoding_loop_ok [OF l] c by (simp_all add: loop_inv_def complete_scheme_def esfs_ok_def)
  moreover have "map fst (scheme_fields_of fs) = map fst fs" for fs
    by (induction fs) simp_all
  ultimately show ?thesis
    using c by (metis complete_scheme_def encoding_ok_def esfs_ok_def loop_inv_def)
qed

section \<open>Fields of a word\<close>

text \<open>Every bit of a field carries one bit of the field's value.\<close>

lemma enc_bit:
  "ranges_ok rs \<Longrightarrow> bit (ranges_mask rs) k \<Longrightarrow> \<exists>j < ranges_width rs. \<forall>v. bit (enc rs v) k \<longleftrightarrow> bit v j"
proof (induction rs)
  case (Cons r rs)
  obtain m l where r: "r = (m, l)" by force
  have ok: "range_ok (m, l)" "ranges_ok rs" "range_mask m l AND ranges_mask rs = 0" using Cons.prems(1) r by simp_all
  have dis: "\<not> (bit (range_mask m l) k \<and> bit (ranges_mask rs) k)"
    using arg_cong [OF ok(3), of "\<lambda>x. bit x k"] by (simp add: bit_and_iff)
  let ?f = "\<lambda>v. push_bit (nat l) (take_bit (nat (m - l + 1)) (drop_bit (ranges_width rs) v))"
  show ?case
  proof (cases "bit (range_mask m l) k")
    case True
    then have k: "nat l \<le> k" "k - nat l < nat (m - l + 1)"
      using ok(1) unfolding bit_range_mask [OF ok(1)] range_ok_def by auto
    have "bit (enc (r # rs) v) k \<longleftrightarrow> bit v (ranges_width rs + (k - nat l))" for v
      using k r True dis enc_in_mask [OF ok(2), of v k] by (auto simp: bit_simps)
    then show ?thesis using k r by (intro exI [of _ "ranges_width rs + (k - nat l)"]) simp
  next
    case False
    then have "bit (ranges_mask rs) k" using Cons.prems(2) r by (simp add: bit_or_iff)
    with Cons.IH ok(2) obtain j where j: "j < ranges_width rs" "\<And>v. bit (enc rs v) k \<longleftrightarrow> bit v j" by blast
    have "\<not> bit (?f v) k" for v using bit_field_of_range [OF ok(1)] False by blast
    then have "bit (enc (r # rs) v) k \<longleftrightarrow> bit v j" for v
      using j(2) unfolding enc.simps r fst_conv snd_conv bit_or_iff by blast
    then show ?thesis using j(1) by (intro exI [of _ j]) simp
  qed
qed simp

text \<open>The union over the fields of a contribution of each field.\<close>

fun or_over :: "(encoding_field \<Rightarrow> int) \<Rightarrow> (string \<times> encoding_field) list \<Rightarrow> int" where
  "or_over g [] = 0"
| "or_over g (f # fs) = g (snd f) OR or_over g fs"

definition ef_mask :: "encoding_field \<Rightarrow> int" where
  "ef_mask f = field_mask (ef_scheme_field f)"

definition ef_ranges :: "encoding_field \<Rightarrow> (int \<times> int) list" where
  "ef_ranges f = br_ranges (esf_bits (ef_scheme_field f))"

lemma ef_ok_simps:
  assumes "ef_ok f"
  shows "ranges_ok (ef_ranges f)" "br_mask (esf_bits (ef_scheme_field f)) = ef_mask f"
    "ef_mask f = ranges_mask (ef_ranges f)" "br_width (esf_bits (ef_scheme_field f)) = int (ranges_width (ef_ranges f))"
    "BitRanges_inv (esf_bits (ef_scheme_field f))"
  using assms by (simp_all add: ef_ok_def esf_ok_def BitRanges_inv_def ef_mask_def field_mask_def ef_ranges_def)

lemma bit_or_over: "bit (or_over g fs) k \<longleftrightarrow> (\<exists>f \<in> set fs. bit (g (snd f)) k)"
  by (induction fs) (simp_all add: bit_or_iff)

lemma encoding_field_at:
  assumes "encoding_ok en" and "k < 32"
  obtains n f where "(n, f) \<in> set (enc_fields en)" and "bit (ef_mask f) k" and "ef_ok f"
proof -
  have "bit (fields_mask (scheme_fields_of (enc_fields en))) k"
    using assms bit_low_mask [of 32 k] by (simp add: encoding_ok_def)
  then obtain n f where "(n, f) \<in> set (enc_fields en)" "bit (ef_mask f) k"
    by (auto simp: bit_fields_mask scheme_fields_of_def ef_mask_def)
  moreover have "ef_ok f" using calculation(1) assms(1) by (auto simp: encoding_ok_def list_all_iff)
  ultimately show ?thesis by (rule that)
qed

lemma encoding_field_unique:
  assumes "encoding_ok en" and "(n, f) \<in> set (enc_fields en)" "bit (ef_mask f) k"
    and "(n', f') \<in> set (enc_fields en)" "bit (ef_mask f') k"
  shows "f' = f"
proof -
  have "(n, ef_scheme_field f) \<in> set (scheme_fields_of (enc_fields en))"
    "(n', ef_scheme_field f') \<in> set (scheme_fields_of (enc_fields en))"
    using assms(2,4) by (force simp: scheme_fields_of_def)+
  from fields_disjoint_unique [OF _ this, of k] assms(1,3,5) have "n = n'"
    by (simp add: encoding_ok_def ef_mask_def)
  then show ?thesis
    using assms(1,2,4) eq_key_imp_eq_value [of "enc_fields en"] by (auto simp: encoding_ok_def)
qed

lemma bit_or_over_at:
  assumes "encoding_ok en" and "(n, f) \<in> set (enc_fields en)" "bit (ef_mask f) k"
    and "\<And>f k. ef_ok f \<Longrightarrow> bit (g f) k \<Longrightarrow> bit (ef_mask f) k"
  shows "bit (or_over g (enc_fields en)) k \<longleftrightarrow> bit (g f) k"
proof -
  have "ef_ok f'" if "(n', f') \<in> set (enc_fields en)" for n' f'
    using assms(1) that by (auto simp: encoding_ok_def list_all_iff)
  then have "f' = f" if "(n', f') \<in> set (enc_fields en)" "bit (g f') k" for n' f'
    using encoding_field_unique [OF assms(1,2,3) that(1)] assms(4) that by blast
  then show ?thesis using assms(2) unfolding bit_or_over by force
qed

lemma or_over_lt:
  assumes "encoding_ok en" and "\<And>f k. ef_ok f \<Longrightarrow> bit (g f) k \<Longrightarrow> bit (ef_mask f) k"
    and "bit (or_over g (enc_fields en)) k"
  shows "k < 32"
proof -
  obtain n f where "(n, f) \<in> set (enc_fields en)" "bit (g f) k" using assms(3) by (auto simp: bit_or_over)
  then have "ef_ok f" "bit (ef_mask f) k" using assms(1,2) by (auto simp: encoding_ok_def list_all_iff)
  then show ?thesis
    using esf_ok_mask_lt [of "ef_scheme_field f" k] by (simp add: ef_ok_def ef_mask_def)
qed

lemma encoding_ok_field:
  assumes "encoding_ok en" and "(n, f) \<in> set (enc_fields en)"
  shows "ef_ok f" and "bit (ef_mask f) k \<Longrightarrow> k < 32"
proof -
  show ok: "ef_ok f" using assms by (auto simp: encoding_ok_def list_all_iff)
  show "bit (ef_mask f) k \<Longrightarrow> k < 32"
    using esf_ok_mask_lt [of "ef_scheme_field f" k] ok by (simp add: ef_ok_def ef_mask_def)
qed

section \<open>Masks\<close>

definition ef_zeros :: "encoding_field \<Rightarrow> int" where
  "ef_zeros f = (case ef_value f of OpName _ \<Rightarrow> ef_mask f | Literal v \<Rightarrow> enc (ef_ranges f) (NOT (bl_ones v)))"

definition ef_ones :: "encoding_field \<Rightarrow> int" where
  "ef_ones f = (case ef_value f of OpName _ \<Rightarrow> ef_mask f | Literal v \<Rightarrow> enc (ef_ranges f) (bl_ones v OR bl_xs v))"

lemma ef_zeros_in_mask: "ef_ok f \<Longrightarrow> bit (ef_zeros f) k \<Longrightarrow> bit (ef_mask f) k"
  using enc_in_mask ef_ok_simps by (auto simp: ef_zeros_def split: enc_value.splits)

lemma ef_ones_in_mask: "ef_ok f \<Longrightarrow> bit (ef_ones f) k \<Longrightarrow> bit (ef_mask f) k"
  using enc_in_mask ef_ok_simps by (auto simp: ef_ones_def split: enc_value.splits)

lemma char_for_bit_cases:
  assumes "0 \<le> j" and "j < bl_width v"
  shows "BoolLiteral_char_for_bit j v =
    Inr (if bit (bl_ones v) (nat j) then CHR ''1'' else if bit (bl_xs v) (nat j) then CHR ''x'' else CHR ''0'')"
  using assms by (simp add: BoolLiteral_char_for_bit_def py_rshift_def py_bool_bit)

lemma masks_bits_eq:
  assumes "\<forall>i \<in> set idxs. 0 \<le> i \<and> int R + i < bl_width v" and "0 \<le> l"
  shows "returns (masks_bits v (int R) l (m0, m1) idxs) (\<lambda>(m0', m1').
    (\<forall>k. bit m0' k \<longleftrightarrow> bit m0 k \<or> (\<exists>i \<in> set idxs. k = nat (i + l) \<and> \<not> bit (bl_ones v) (R + nat i))) \<and>
    (\<forall>k. bit m1' k \<longleftrightarrow> bit m1 k \<or>
      (\<exists>i \<in> set idxs. k = nat (i + l) \<and> (bit (bl_ones v) (R + nat i) \<or> bit (bl_xs v) (R + nat i)))))"
  using assms(1)
proof (induction idxs arbitrary: m0 m1)
  case (Cons i idxs)
  have n: "nat (int R + i) = R + nat i" using Cons.prems by (simp add: nat_add_distrib)
  show ?case
    using Cons.prems
    by (auto simp: char_for_bit_cases n bit_simps elim!: returns_mono [OF Cons.IH])
qed simp

lemma masks_bits_range:
  assumes ok: "range_ok (m, l)" and w: "bl_width v \<ge> int R + (m - l + 1)"
  shows "masks_bits v (int R) l (m0, m1) [0..m - l] =
    Inr (m0 OR push_bit (nat l) (take_bit (nat (m - l + 1)) (drop_bit R (NOT (bl_ones v)))),
         m1 OR push_bit (nat l) (take_bit (nat (m - l + 1)) (drop_bit R (bl_ones v OR bl_xs v))))"
proof -
  have l: "0 \<le> l" "l \<le> m" using ok by (simp_all add: range_ok_def)
  have ix: "(\<exists>i \<in> set [0..m - l]. k = nat (i + l) \<and> P (R + nat i)) \<longleftrightarrow>
      nat l \<le> k \<and> k - nat l < nat (m - l + 1) \<and> P (R + (k - nat l))" for k P
  proof
    assume "\<exists>i \<in> set [0..m - l]. k = nat (i + l) \<and> P (R + nat i)"
    then obtain i where i: "0 \<le> i" "i \<le> m - l" "k = nat (i + l)" "P (R + nat i)" by auto
    then have "k - nat l = nat i" using l by linarith
    then show "nat l \<le> k \<and> k - nat l < nat (m - l + 1) \<and> P (R + (k - nat l))" using i l by simp
  next
    assume a: "nat l \<le> k \<and> k - nat l < nat (m - l + 1) \<and> P (R + (k - nat l))"
    then have "int (k - nat l) \<in> set [0..m - l]" "k = nat (int (k - nat l) + l)" using l by auto
    moreover have "P (R + nat (int (k - nat l)))" using a by (simp only: nat_int)
    ultimately show "\<exists>i \<in> set [0..m - l]. k = nat (i + l) \<and> P (R + nat i)" by blast
  qed
  have pb: "bit (push_bit (nat l) (take_bit (nat (m - l + 1)) (drop_bit R x))) k \<longleftrightarrow>
      nat l \<le> k \<and> k - nat l < nat (m - l + 1) \<and> bit x (R + (k - nat l))" for x :: int and k
    by (auto simp: bit_push_bit_iff_int bit_take_bit_iff bit_drop_bit_eq)
  have "\<forall>i \<in> set [0..m - l]. 0 \<le> i \<and> int R + i < bl_width v" using w by auto
  from masks_bits_eq [OF this l(1), of m0 m1] obtain m0' m1' where
    m: "masks_bits v (int R) l (m0, m1) [0..m - l] = Inr (m0', m1')"
    and b: "\<And>k. bit m0' k \<longleftrightarrow> bit m0 k \<or> (\<exists>i \<in> set [0..m - l]. k = nat (i + l) \<and> \<not> bit (bl_ones v) (R + nat i))"
      "\<And>k. bit m1' k \<longleftrightarrow> bit m1 k \<or>
      (\<exists>i \<in> set [0..m - l]. k = nat (i + l) \<and> (bit (bl_ones v) (R + nat i) \<or> bit (bl_xs v) (R + nat i)))"
    by (auto elim!: returnsE)
  have "m0' = m0 OR push_bit (nat l) (take_bit (nat (m - l + 1)) (drop_bit R (NOT (bl_ones v))))"
    by (rule bit_eqI) (simp only: bit_or_iff pb b(1) ix [where P = "\<lambda>j. \<not> bit (bl_ones v) j"] bit_not_iff possible_bit_int simp_thms)
  moreover have "m1' = m1 OR push_bit (nat l) (take_bit (nat (m - l + 1)) (drop_bit R (bl_ones v OR bl_xs v)))"
    by (rule bit_eqI) (simp only: bit_or_iff pb b(2) ix [where P = "\<lambda>j. bit (bl_ones v) j \<or> bit (bl_xs v) j"])
  ultimately show ?thesis using m by simp
qed

lemma masks_ranges_eq:
  "ranges_ok rs \<Longrightarrow> w = seen + int (ranges_width rs) \<Longrightarrow> 0 \<le> seen \<Longrightarrow> bl_width v = w \<Longrightarrow>
   masks_ranges v w seen (m0, m1) rs = Inr (m0 OR enc rs (NOT (bl_ones v)), m1 OR enc rs (bl_ones v OR bl_xs v))"
proof (induction rs arbitrary: seen m0 m1)
  case (Cons r rs)
  obtain m l where r: "r = (m, l)" by force
  have ok: "range_ok (m, l)" "ranges_ok rs" using Cons.prems(1) r by simp_all
  have lsb: "w - 1 - seen - m + l = int (ranges_width rs)"
    using Cons.prems(2) r ok(1) by (simp add: range_ok_def)
  have "bl_width v \<ge> int (ranges_width rs) + (m - l + 1)" using Cons.prems lsb by linarith
  note mb = masks_bits_range [OF ok(1) this, of m0 m1]
  have "w = seen + (m - l + 1) + int (ranges_width rs)" "0 \<le> seen + (m - l + 1)"
    using lsb Cons.prems(3) ok(1) by (simp_all add: range_ok_def)
  from Cons.IH [OF ok(2) this Cons.prems(4)] show ?case
    unfolding r masks_ranges.simps Let_def lsb mb by (simp add: or.assoc)
qed simp

lemma masks_fields_eq:
  "list_all (\<lambda>f. ef_ok (snd f)) fs \<Longrightarrow>
   masks_fields (m0, m1) fs = Inr (m0 OR or_over ef_zeros fs, m1 OR or_over ef_ones fs)"
proof (induction fs arbitrary: m0 m1)
  case (Cons nf fs)
  obtain n f where nf: "nf = (n, f)" by force
  have ok: "ef_ok f" "list_all (\<lambda>f. ef_ok (snd f)) fs" using Cons.prems nf by simp_all
  note f = ef_ok_simps [OF ok(1)]
  show ?case
  proof (cases "ef_value f")
    case (Literal v)
    have v: "0 < bl_width v" "bl_width v = int (ranges_width (ef_ranges f))"
      using ok(1) Literal f(4) by (simp_all add: ef_ok_def BoolLiteral_inv_def)
    show ?thesis
      using Cons.IH [OF ok(2)] v f masks_ranges_eq [OF f(1) _ _ v(2), of 0 m0 m1]
      by (simp add: nf Literal Let_def ef_zeros_def ef_ones_def or.assoc flip: ef_ranges_def)
  next
    case (OpName v)
    then show ?thesis
      using Cons.IH [OF ok(2)] f by (simp add: nf Let_def ef_zeros_def ef_ones_def or.assoc)
  qed
qed simp

text \<open>Every bit of the word is free or fixed.\<close>

lemma get_masks_eq:
  assumes "encoding_ok en"
  shows "get_masks en = Inr (or_over ef_zeros (enc_fields en), or_over ef_ones (enc_fields en))"
proof -
  have "or_over ef_zeros (enc_fields en) OR or_over ef_ones (enc_fields en) = low_mask 32"
  proof (rule bit_eqI)
    fix k
    show "bit (or_over ef_zeros (enc_fields en) OR or_over ef_ones (enc_fields en)) k = bit (low_mask 32) k"
    proof (cases "k < 32")
      case True
      obtain n f where f: "(n, f) \<in> set (enc_fields en)" "bit (ef_mask f) k" "ef_ok f"
        using encoding_field_at [OF assms True] .
      note fs = ef_ok_simps [OF f(3)]
      obtain j where "\<And>v. bit (enc (ef_ranges f) v) k \<longleftrightarrow> bit v j" using enc_bit [OF fs(1), of k] f(2) fs(3) by auto
      then have "bit (ef_zeros f) k \<or> bit (ef_ones f) k"
        using f(2) by (cases "ef_value f") (auto simp: ef_zeros_def ef_ones_def bit_not_iff bit_or_iff)
      then show ?thesis
        using True bit_or_over_at [OF assms f(1,2) ef_zeros_in_mask] bit_or_over_at [OF assms f(1,2) ef_ones_in_mask]
        by (simp add: bit_or_iff)
    next
      case False
      then show ?thesis
        using or_over_lt [OF assms ef_zeros_in_mask] or_over_lt [OF assms ef_ones_in_mask]
        by (auto simp: bit_or_iff)
    qed
  qed
  then show ?thesis
    using assms by (simp add: get_masks_def masks_fields_eq encoding_ok_def)
qed

section \<open>Recognising the words of an encoding\<close>

text \<open>
  The abstract specification: the word has 32 bits, and in every literal field it carries the
  literal, up to the bits marked x.
\<close>

definition field_agrees :: "int \<Rightarrow> encoding_field \<Rightarrow> bool" where
  "field_agrees w f =
     (case ef_value f of
        OpName _ \<Rightarrow> True
      | Literal v \<Rightarrow> BitRanges_decode w (esf_bits (ef_scheme_field f)) AND NOT (bl_xs v) = bl_ones v)"

definition encodes :: "encoding \<Rightarrow> int \<Rightarrow> bool" where
  "encodes en w \<longleftrightarrow> fits 32 w \<and> list_all (\<lambda>f. field_agrees w (snd f)) (enc_fields en)"

text \<open>The test of the decoder: no bit is set that should be zero, none is clear that should be one.\<close>

definition masks_accept :: "int \<times> int \<Rightarrow> int \<Rightarrow> bool" where
  "masks_accept m w \<longleftrightarrow> w AND (fst m AND NOT (snd m)) = 0 \<and> NOT w AND (snd m AND NOT (fst m)) = 0"

lemma field_value_bit:
  assumes "ef_ok f" and "bit (ef_mask f) k"
  obtains j where "\<And>v. bit (enc (ef_ranges f) v) k \<longleftrightarrow> bit v j" and "j < ranges_width (ef_ranges f)"
    and "\<And>w. bit (BitRanges_decode w (esf_bits (ef_scheme_field f))) j \<longleftrightarrow> bit w k"
proof -
  note f = ef_ok_simps [OF assms(1)]
  obtain j where j: "\<And>v. bit (enc (ef_ranges f) v) k \<longleftrightarrow> bit v j" "j < ranges_width (ef_ranges f)"
    using enc_bit [OF f(1), of k] assms(2) f(3) by auto
  have "bit (BitRanges_decode w (esf_bits (ef_scheme_field f))) j \<longleftrightarrow> bit w k" for w
    using j(1) [of "dec (ef_ranges f) w"] assms(2) f(3)
    by (simp add: BitRanges_decode_eq [OF f(5)] enc_dec [OF f(1)] bit_and_iff flip: ef_ranges_def)
  with j show ?thesis by (rule that)
qed

lemma field_agrees_bits:
  assumes ok: "ef_ok f"
  shows "field_agrees w f \<longleftrightarrow>
    (\<forall>k. bit (ef_mask f) k \<longrightarrow> (bit w k \<longrightarrow> bit (ef_ones f) k) \<and> (\<not> bit w k \<longrightarrow> bit (ef_zeros f) k))"
    (is "_ \<longleftrightarrow> ?R")
proof (cases "ef_value f")
  case (OpName n)
  then show ?thesis by (simp add: field_agrees_def ef_ones_def ef_zeros_def)
next
  case (Literal v)
  note f = ef_ok_simps [OF ok]
  let ?d = "BitRanges_decode w (esf_bits (ef_scheme_field f))" and ?rs = "ef_ranges f"
  have v: "fits (ranges_width ?rs) (bl_ones v)" "bl_ones v AND bl_xs v = 0"
    using ok Literal f(4) by (auto simp: ef_ok_def BoolLiteral_inv_def)
  have disj: "\<not> (bit (bl_ones v) j \<and> bit (bl_xs v) j)" for j
    using arg_cong [OF v(2), of "\<lambda>x. bit x j"] by (simp add: bit_and_iff)
  show ?thesis
  proof
    assume a: "field_agrees w f"
    then have "?d AND NOT (bl_xs v) = bl_ones v" by (simp add: field_agrees_def Literal)
    then have d: "bit (bl_ones v) j \<longleftrightarrow> bit ?d j \<and> \<not> bit (bl_xs v) j" for j
      using bit_and_iff [of ?d "NOT (bl_xs v)" j] by (simp add: bit_not_iff)
    show ?R
    proof (intro allI impI)
      fix k assume "bit (ef_mask f) k"
      then obtain j where j: "\<And>v. bit (enc ?rs v) k \<longleftrightarrow> bit v j" "\<And>w. bit (BitRanges_decode w (esf_bits (ef_scheme_field f))) j \<longleftrightarrow> bit w k"
        using field_value_bit [OF ok] by metis
      show "(bit w k \<longrightarrow> bit (ef_ones f) k) \<and> (\<not> bit w k \<longrightarrow> bit (ef_zeros f) k)"
        using d [of j] by (auto simp: Literal ef_ones_def ef_zeros_def j bit_or_iff bit_not_iff)
    qed
  next
    assume a: ?R
    have "enc ?rs (?d AND NOT (bl_xs v)) = enc ?rs (bl_ones v)"
    proof (rule bit_eqI)
      fix k
      show "bit (enc ?rs (?d AND NOT (bl_xs v))) k = bit (enc ?rs (bl_ones v)) k"
      proof (cases "bit (ef_mask f) k")
        case True
        then obtain j where j: "\<And>v. bit (enc ?rs v) k \<longleftrightarrow> bit v j" "\<And>w. bit (BitRanges_decode w (esf_bits (ef_scheme_field f))) j \<longleftrightarrow> bit w k"
          using field_value_bit [OF ok] by metis
        show ?thesis
          using a True disj [of j] by (auto simp: Literal ef_ones_def ef_zeros_def j bit_or_iff bit_not_iff bit_and_iff)
      qed (use enc_in_mask [OF f(1)] f(3) in auto)
    qed
    then have "take_bit (ranges_width ?rs) (?d AND NOT (bl_xs v)) = take_bit (ranges_width ?rs) (bl_ones v)"
      using dec_enc [OF f(1)] by metis
    moreover have "take_bit (ranges_width ?rs) ?d = ?d"
      using fits_take_bit_eq [OF dec_fits [OF f(1)]] by (simp add: BitRanges_decode_eq [OF f(5)] flip: ef_ranges_def)
    then have "take_bit (ranges_width ?rs) (?d AND NOT (bl_xs v)) = ?d AND NOT (bl_xs v)"
      by (metis and.assoc and.commute take_bit_eq_mask)
    ultimately show "field_agrees w f"
      using fits_take_bit_eq [OF v(1)] by (simp add: field_agrees_def Literal)
  qed
qed

lemma encodes_bits:
  assumes ok: "encoding_ok en" and m: "get_masks en = Inr (m0, m1)"
  shows "encodes en w \<longleftrightarrow> fits 32 w \<and> (\<forall>k < 32. (bit w k \<longrightarrow> bit m1 k) \<and> (\<not> bit w k \<longrightarrow> bit m0 k))"
proof -
  have mm: "m0 = or_over ef_zeros (enc_fields en)" "m1 = or_over ef_ones (enc_fields en)"
    using m get_masks_eq [OF ok] by simp_all
  have at: "bit m0 k \<longleftrightarrow> bit (ef_zeros f) k" "bit m1 k \<longleftrightarrow> bit (ef_ones f) k"
    if "(n, f) \<in> set (enc_fields en)" "bit (ef_mask f) k" for n f k
    unfolding mm using bit_or_over_at [OF ok that ef_zeros_in_mask] bit_or_over_at [OF ok that ef_ones_in_mask] by auto
  have efok: "ef_ok f" "bit (ef_mask f) k \<Longrightarrow> k < 32" if "(n, f) \<in> set (enc_fields en)" for n f k
    using encoding_ok_field [OF ok that] by simp_all
  have "list_all (\<lambda>f. field_agrees w (snd f)) (enc_fields en) \<longleftrightarrow>
      (\<forall>k < 32. (bit w k \<longrightarrow> bit m1 k) \<and> (\<not> bit w k \<longrightarrow> bit m0 k))" (is "?L \<longleftrightarrow> ?R")
  proof
    assume ?L
    show ?R
    proof (intro allI impI)
      fix k :: nat assume "k < 32"
      then obtain n f where f: "(n, f) \<in> set (enc_fields en)" "bit (ef_mask f) k" "ef_ok f"
        using encoding_field_at [OF ok] by blast
      then have "field_agrees w f" using \<open>?L\<close> by (auto simp: list_all_iff)
      then show "(bit w k \<longrightarrow> bit m1 k) \<and> (\<not> bit w k \<longrightarrow> bit m0 k)"
        using field_agrees_bits [OF f(3)] f at by blast
    qed
  next
    assume R: ?R
    have "field_agrees w f" if f: "(n, f) \<in> set (enc_fields en)" for n f
      unfolding field_agrees_bits [OF efok(1) [OF f]] using R at [OF f] efok(2) [OF f] by metis
    then show ?L unfolding list_all_iff by auto
  qed
  then show ?thesis by (auto simp: encodes_def)
qed

lemma masks_accept_bits:
  assumes "m0 OR m1 = low_mask 32"
  shows "masks_accept (m0, m1) w \<longleftrightarrow> (\<forall>k < 32. (bit w k \<longrightarrow> bit m1 k) \<and> (\<not> bit w k \<longrightarrow> bit m0 k))"
proof -
  have a: "bit m0 k \<or> bit m1 k \<longleftrightarrow> k < 32" for k
    using arg_cong [OF assms, of "\<lambda>x. bit x k"] by (simp add: bit_or_iff)
  have "masks_accept (m0, m1) w \<longleftrightarrow>
      (\<forall>k. \<not> (bit w k \<and> bit m0 k \<and> \<not> bit m1 k) \<and> \<not> (\<not> bit w k \<and> bit m1 k \<and> \<not> bit m0 k))"
    by (auto simp: masks_accept_def bit_eq_iff bit_and_iff bit_not_iff)
  also have "\<dots> \<longleftrightarrow> (\<forall>k < 32. (bit w k \<longrightarrow> bit m1 k) \<and> (\<not> bit w k \<longrightarrow> bit m0 k))"
    using a by blast
  finally show ?thesis .
qed

lemma get_masks_cover: "get_masks en = Inr (m0, m1) \<Longrightarrow> m0 OR m1 = low_mask 32"
  by (auto simp: get_masks_def bindR_Inr_iff require_Inr_iff)

lemma masks_accept_encodes:
  assumes "encoding_ok en"
  shows "returns (get_masks en) (\<lambda>m. \<forall>w. fits 32 w \<longrightarrow> (masks_accept m w \<longleftrightarrow> encodes en w))"
proof -
  obtain m0 m1 where m: "get_masks en = Inr (m0, m1)" using get_masks_eq [OF assms] by simp
  then show ?thesis
    using encodes_bits [OF assms m] masks_accept_bits [OF get_masks_cover [OF m]] by simp
qed

section \<open>Assembling and extracting\<close>

definition ef_word :: "(string \<times> int) list \<Rightarrow> encoding_field \<Rightarrow> int" where
  "ef_word ops f =
     enc (ef_ranges f) (case ef_value f of Literal v \<Rightarrow> bl_ones v | OpName n \<Rightarrow> op_idx ops n)"

definition ef_fixed :: "encoding_field \<Rightarrow> int" where
  "ef_fixed f = (case ef_value f of Literal v \<Rightarrow> enc (ef_ranges f) (bl_ones v) | OpName n \<Rightarrow> 0)"

definition ef_operand :: "(string \<times> int) list \<Rightarrow> encoding_field \<Rightarrow> int" where
  "ef_operand ops f = (case ef_value f of Literal v \<Rightarrow> 0 | OpName n \<Rightarrow> enc (ef_ranges f) (op_idx ops n))"

definition field_fits :: "(string \<times> int) list \<Rightarrow> encoding_field \<Rightarrow> bool" where
  "field_fits ops f =
     (case ef_value f of
        OpName n \<Rightarrow> fits (nat (br_width (esf_bits (ef_scheme_field f)))) (op_idx ops n)
      | Literal _ \<Rightarrow> True)"

definition ops_fit :: "encoding \<Rightarrow> (string \<times> int) list \<Rightarrow> bool" where
  "ops_fit en ops \<longleftrightarrow> list_all (\<lambda>f. field_fits ops (snd f)) (enc_fields en)"

lemma ef_word_in_mask: "ef_ok f \<Longrightarrow> bit (ef_word ops f) k \<Longrightarrow> bit (ef_mask f) k"
  using enc_in_mask ef_ok_simps by (auto simp: ef_word_def)

lemma ef_fixed_in_mask: "ef_ok f \<Longrightarrow> bit (ef_fixed f) k \<Longrightarrow> bit (ef_mask f) k"
  using enc_in_mask ef_ok_simps by (auto simp: ef_fixed_def split: enc_value.splits)

lemma get_ones_mask_eq:
  assumes ok: "encoding_ok en"
  shows "get_ones_mask en = Inr (or_over ef_fixed (enc_fields en))"
proof -
  let ?fs = "enc_fields en"
  have "or_over ef_ones ?fs AND NOT (or_over ef_zeros ?fs) = or_over ef_fixed ?fs"
  proof (rule bit_eqI)
    fix k
    show "bit (or_over ef_ones ?fs AND NOT (or_over ef_zeros ?fs)) k = bit (or_over ef_fixed ?fs) k"
    proof (cases "k < 32")
      case True
      then obtain n f where f: "(n, f) \<in> set ?fs" "bit (ef_mask f) k" "ef_ok f"
        using encoding_field_at [OF ok] by blast
      obtain j where j: "\<And>v. bit (enc (ef_ranges f) v) k \<longleftrightarrow> bit v j"
        using field_value_bit [OF f(3,2)] by metis
      have "bit (ef_ones f) k \<and> \<not> bit (ef_zeros f) k \<longleftrightarrow> bit (ef_fixed f) k"
        using f(2) j by (cases "ef_value f") (auto simp: ef_ones_def ef_zeros_def ef_fixed_def bit_or_iff bit_not_iff)
      then show ?thesis
        using bit_or_over_at [OF ok f(1,2) ef_zeros_in_mask] bit_or_over_at [OF ok f(1,2) ef_ones_in_mask]
          bit_or_over_at [OF ok f(1,2) ef_fixed_in_mask]
        by (simp add: bit_and_iff bit_not_iff)
    next
      case False
      then show ?thesis
        using or_over_lt [OF ok ef_fixed_in_mask] or_over_lt [OF ok ef_ones_in_mask] by (auto simp: bit_and_iff)
    qed
  qed
  then show ?thesis by (simp add: get_ones_mask_def get_masks_eq [OF ok])
qed

lemma assemble_loop_eq:
  "list_all (\<lambda>f. ef_ok (snd f)) fs \<Longrightarrow>
   if list_all (\<lambda>f. field_fits ops (snd f)) fs
   then assemble_loop ops val fs = Inr (val OR or_over (ef_operand ops) fs)
   else assemble_loop ops val fs \<in> {Inl ValueError, Inl AssertionError}"
proof (induction fs arbitrary: val)
  case (Cons nf fs)
  obtain n f where nf: "nf = (n, f)" by force
  have ok: "ef_ok f" "list_all (\<lambda>f. ef_ok (snd f)) fs" using Cons.prems nf by simp_all
  note f = ef_ok_simps [OF ok(1)]
  note IH = Cons.IH [OF ok(2)]
  show ?case
  proof (cases "ef_value f")
    case (Literal v)
    then show ?thesis using IH [of val] by (auto simp: nf ef_operand_def field_fits_def split: if_splits)
  next
    case (OpName a)
    let ?w = "nat (br_width (esf_bits (ef_scheme_field f)))"
    have e: "BitRanges_encode (op_idx ops a) (esf_bits (ef_scheme_field f)) = Inr (ef_operand ops f)"
      by (simp add: BitRanges_encode_eq [OF f(5)] ef_operand_def OpName flip: ef_ranges_def)
    have "field_fits ops f \<longleftrightarrow> 0 \<le> op_idx ops a \<and> \<not> py_bool (drop_bit ?w (op_idx ops a))"
      by (simp add: field_fits_def OpName fits_iff_drop)
    then show ?thesis
      using IH [of "val OR ef_operand ops f"] by (auto simp: nf OpName Let_def e require_def or.assoc split: if_splits)
  qed
qed simp

lemma or_over_fixed_operand: "or_over ef_fixed fs OR or_over (ef_operand ops) fs = or_over (ef_word ops) fs"
proof (induction fs)
  case (Cons f fs)
  have "ef_word ops (snd f) = ef_fixed (snd f) OR ef_operand ops (snd f)"
    by (simp add: ef_word_def ef_fixed_def ef_operand_def split: enc_value.splits)
  then show ?case by (simp add: or.assoc or.left_commute flip: Cons.IH)
qed simp

lemma assemble_eq:
  assumes "encoding_ok en"
  shows "if ops_fit en ops then assemble en ops = Inr (or_over (ef_word ops) (enc_fields en))
    else assemble en ops \<in> {Inl ValueError, Inl AssertionError}"
  using assemble_loop_eq [of "enc_fields en" ops "or_over ef_fixed (enc_fields en)"] assms
  by (auto simp: assemble_def get_ones_mask_eq ops_fit_def or_over_fixed_operand encoding_ok_def split: if_splits)

lemma decode_assembled:
  assumes ok: "encoding_ok en" and f: "(n, f) \<in> set (enc_fields en)"
  shows "BitRanges_decode (or_over (ef_word ops) (enc_fields en)) (esf_bits (ef_scheme_field f)) =
    take_bit (ranges_width (ef_ranges f)) (case ef_value f of Literal v \<Rightarrow> bl_ones v | OpName n \<Rightarrow> op_idx ops n)"
proof -
  note efok = encoding_ok_field(1) [OF ok f]
  note fs = ef_ok_simps [OF efok]
  have "dec (ef_ranges f) (or_over (ef_word ops) (enc_fields en)) = dec (ef_ranges f) (ef_word ops f)"
    by (rule dec_cong [OF fs(1)]) (use bit_or_over_at [OF ok f _ ef_word_in_mask] fs(3) in simp)
  then show ?thesis
    by (simp add: BitRanges_decode_eq [OF fs(5)] dec_enc [OF fs(1)] flip: ef_ranges_def) (simp add: ef_word_def dec_enc [OF fs(1)])
qed

lemma or_over_fits:
  assumes "encoding_ok en"
  shows "fits 32 (or_over (ef_word ops) (enc_fields en))"
proof -
  have "take_bit 32 (or_over (ef_word ops) (enc_fields en)) = or_over (ef_word ops) (enc_fields en)"
    using or_over_lt [OF assms ef_word_in_mask] by (auto simp: bit_eq_iff bit_take_bit_iff)
  then show ?thesis by (metis fits_take_bit)
qed

lemma assembled_encodes:
  assumes ok: "encoding_ok en"
  shows "encodes en (or_over (ef_word ops) (enc_fields en))"
proof -
  have "field_agrees (or_over (ef_word ops) (enc_fields en)) f" if f: "(n, f) \<in> set (enc_fields en)" for n f
  proof (cases "ef_value f")
    case (Literal v)
    note efok = encoding_ok_field(1) [OF ok f]
    have v: "BoolLiteral_inv v" "bl_width v = int (ranges_width (ef_ranges f))"
      using efok Literal ef_ok_simps(4) [OF efok] by (simp_all add: ef_ok_def)
    then have "take_bit (ranges_width (ef_ranges f)) (bl_ones v) = bl_ones v"
      using fits_take_bit_eq [of "ranges_width (ef_ranges f)" "bl_ones v"] by (simp add: BoolLiteral_inv_def)
    moreover have "bl_ones v AND NOT (bl_xs v) = bl_ones v"
    proof (rule bit_eqI)
      fix k
      have "bl_ones v AND bl_xs v = 0" using v(1) by (simp add: BoolLiteral_inv_def)
      then have "\<not> bit (bl_ones v AND bl_xs v) k" by simp
      then show "bit (bl_ones v AND NOT (bl_xs v)) k = bit (bl_ones v) k" by (auto simp: bit_and_iff bit_not_iff)
    qed
    ultimately show ?thesis by (simp add: field_agrees_def Literal decode_assembled [OF ok f])
  qed (simp add: field_agrees_def)
  then show ?thesis using or_over_fits [OF ok] by (auto simp: encodes_def list_all_iff)
qed

lemma extract_loop_map:
  "\<forall>n f a. (n, f) \<in> set fs \<longrightarrow> ef_value f = OpName a \<longrightarrow>
      BitRanges_decode w (esf_bits (ef_scheme_field f)) = g a \<Longrightarrow>
   extract_loop w fs = map (\<lambda>(a, _). (a, g a)) (op_names fs)"
proof (induction fs rule: op_names.induct)
  case (2 n f fs)
  have "BitRanges_decode w (esf_bits (ef_scheme_field f)) = g a" if "ef_value f = OpName a" for a
    using "2.prems" that by simp
  moreover have "\<forall>n f a. (n, f) \<in> set fs \<longrightarrow> ef_value f = OpName a \<longrightarrow>
      BitRanges_decode w (esf_bits (ef_scheme_field f)) = g a"
    using "2.prems" by (metis list.set_intros(2))
  ultimately show ?case using "2.IH" by (cases "ef_value f") simp_all
qed simp

lemma op_names_mem: "(n, f) \<in> set fs \<Longrightarrow> ef_value f = OpName a \<Longrightarrow> (a, n) \<in> set (op_names fs)"
  by (induction fs rule: op_names.induct) (auto split: enc_value.splits)

lemma extract_loop_lookup:
  "distinct (map fst (op_names fs)) \<Longrightarrow> (n, f) \<in> set fs \<Longrightarrow> ef_value f = OpName a \<Longrightarrow>
   map_of (extract_loop w fs) a = Some (BitRanges_decode w (esf_bits (ef_scheme_field f)))"
proof (induction fs rule: op_names.induct)
  case (2 m g fs)
  show ?case
  proof (cases "(n, f) = (m, g)")
    case False
    then have mem: "(n, f) \<in> set fs" using "2.prems"(2) by auto
    then show ?thesis
      using 2 op_names_mem [OF mem] by (cases "ef_value g") force+
  qed (use "2.prems"(3) in simp)
qed simp

lemma extract_assembled:
  assumes ok: "encoding_ok en" and fit: "ops_fit en ops"
  shows "extract_operands en (or_over (ef_word ops) (enc_fields en)) =
    map (\<lambda>(a, _). (a, op_idx ops a)) (op_to_field_name en)"
proof -
  have "BitRanges_decode (or_over (ef_word ops) (enc_fields en)) (esf_bits (ef_scheme_field f)) = op_idx ops a"
    if f: "(n, f) \<in> set (enc_fields en)" "ef_value f = OpName a" for n f a
  proof -
    have "fits (ranges_width (ef_ranges f)) (op_idx ops a)"
      using fit f ef_ok_simps(4) [OF encoding_ok_field(1) [OF ok f(1)]]
      by (force simp: ops_fit_def field_fits_def list_all_iff)
    then show ?thesis by (simp add: decode_assembled [OF ok f(1)] f(2) fits_take_bit_eq)
  qed
  then have "extract_loop (or_over (ef_word ops) (enc_fields en)) (enc_fields en) =
      map (\<lambda>(a, _). (a, op_idx ops a)) (op_names (enc_fields en))"
    by (intro extract_loop_map) simp
  then show ?thesis using ok by (simp add: extract_operands_def encoding_ok_def)
qed

lemma extract_op_idx:
  assumes "encoding_ok en" and "(n, f) \<in> set (enc_fields en)" and "ef_value f = OpName a"
  shows "op_idx (extract_operands en w) a = BitRanges_decode w (esf_bits (ef_scheme_field f))"
  using extract_loop_lookup [OF _ assms(2,3)] assms(1)
  by (simp add: op_idx_def extract_operands_def encoding_ok_def)

lemma extracted_fit:
  assumes ok: "encoding_ok en"
  shows "ops_fit en (extract_operands en w)"
proof -
  have "field_fits (extract_operands en w) f" if f: "(n, f) \<in> set (enc_fields en)" for n f
  proof (cases "ef_value f")
    case (OpName a)
    note fs = ef_ok_simps [OF encoding_ok_field(1) [OF ok f]]
    show ?thesis
      using dec_fits [OF fs(1)] fs(4)
      by (simp add: field_fits_def OpName extract_op_idx [OF ok f OpName] BitRanges_decode_eq [OF fs(5)] flip: ef_ranges_def)
  qed (simp add: field_fits_def)
  then show ?thesis by (auto simp: ops_fit_def list_all_iff)
qed

text \<open>
  C21: the masks of an encoding.  For every encoding that is accepted, \<^verbatim>\<open>get_masks\<close> returns (its
  assertions hold), and the decoder's test on the two masks accepts a 32-bit word exactly when the
  word carries the encoding's literals in all the literal fields.
\<close>

theorem masks_recognise:
  assumes "EncSchemes_init y = Inr schemes" and "Encoding_init yml schemes = Inr en"
  shows "returns (get_masks en) (\<lambda>m. \<forall>w. fits 32 w \<longrightarrow> (masks_accept m w \<longleftrightarrow> encodes en w))"
  by (rule masks_accept_encodes [OF Encoding_init_ok [OF assms]])

text \<open>
  C20: assembling.  When every operand fits in its field, \<^verbatim>\<open>assemble\<close> returns a word of the encoding
  from which \<^verbatim>\<open>extract_operands\<close> gives the operands back, with 0 for an operand that was left out;
  otherwise it raises.
\<close>

theorem assemble_extract:
  assumes "EncSchemes_init y = Inr schemes" and "Encoding_init yml schemes = Inr en"
  shows "if ops_fit en ops
    then returns (assemble en ops) (\<lambda>w. encodes en w \<and>
      extract_operands en w = map (\<lambda>(a, _). (a, op_idx ops a)) (op_to_field_name en))
    else assemble en ops \<in> {Inl ValueError, Inl AssertionError}"
proof -
  have ok: "encoding_ok en" by (rule Encoding_init_ok [OF assms])
  show ?thesis
    using assemble_eq [OF ok, of ops] assembled_encodes [OF ok, of ops] extract_assembled [OF ok, of ops]
    by (auto split: if_splits)
qed

text \<open>
  Extracting.  The operands extracted from any word of an encoding can be assembled again; the
  result is a word of the encoding with the same operands, and it is the word itself when no
  literal of the encoding has an x.
\<close>

theorem extract_assemble:
  assumes "EncSchemes_init y = Inr schemes" and "Encoding_init yml schemes = Inr en" and "encodes en w"
  shows "returns (assemble en (extract_operands en w)) (\<lambda>w'. encodes en w' \<and>
    extract_operands en w' = extract_operands en w \<and>
    ((\<forall>n f v. (n, f) \<in> set (enc_fields en) \<and> ef_value f = Literal v \<longrightarrow> bl_xs v = 0) \<longrightarrow> w' = w))"
proof -
  have ok: "encoding_ok en" by (rule Encoding_init_ok [OF assms(1,2)])
  let ?ops = "extract_operands en w"
  let ?w = "or_over (ef_word ?ops) (enc_fields en)"
  have as: "assemble en ?ops = Inr ?w" using assemble_eq [OF ok, of ?ops] extracted_fit [OF ok] by simp
  have same: "BitRanges_decode ?w (esf_bits (ef_scheme_field f)) = BitRanges_decode w (esf_bits (ef_scheme_field f))"
    if f: "(n, f) \<in> set (enc_fields en)" "ef_value f = OpName a" for n f a
  proof -
    note fs = ef_ok_simps [OF encoding_ok_field(1) [OF ok f(1)]]
    have "fits (ranges_width (ef_ranges f)) (BitRanges_decode w (esf_bits (ef_scheme_field f)))"
      using dec_fits [OF fs(1)] by (simp add: BitRanges_decode_eq [OF fs(5)] flip: ef_ranges_def)
    then show ?thesis by (simp add: decode_assembled [OF ok f(1)] f(2) extract_op_idx [OF ok f] fits_take_bit_eq)
  qed
  have ex: "extract_operands en ?w = ?ops"
  proof -
    have "extract_loop ?w fs = extract_loop w fs" if "set fs \<subseteq> set (enc_fields en)" for fs
      using that same by (induction fs rule: op_names.induct) (auto split: enc_value.splits)
    then show ?thesis by (simp add: extract_operands_def)
  qed
  have "?w = w" if nox: "\<And>n f v. (n, f) \<in> set (enc_fields en) \<Longrightarrow> ef_value f = Literal v \<Longrightarrow> bl_xs v = 0"
  proof (rule bit_eqI)
    fix k
    show "bit ?w k = bit w k"
    proof (cases "k < 32")
      case True
      then obtain n f where f: "(n, f) \<in> set (enc_fields en)" "bit (ef_mask f) k" "ef_ok f"
        using encoding_field_at [OF ok] by blast
      obtain j where j: "\<And>w. bit (BitRanges_decode w (esf_bits (ef_scheme_field f))) j \<longleftrightarrow> bit w k"
        using field_value_bit [OF f(3,2)] by metis
      have "field_agrees x f" if "encodes en x" for x
        using that f(1) by (auto simp: encodes_def list_all_iff)
      then have ag: "field_agrees w f" "field_agrees ?w f" using assms(3) assembled_encodes [OF ok] by blast+
      have "BitRanges_decode ?w (esf_bits (ef_scheme_field f)) = BitRanges_decode w (esf_bits (ef_scheme_field f))"
        using same [OF f(1)] ag nox [OF f(1)] by (cases "ef_value f") (simp_all add: field_agrees_def)
      then show ?thesis using j by metis
    next
      case False
      have "fits 32 x \<Longrightarrow> \<not> bit x k" for x using False fits_take_bit_eq [of 32 x] by (metis bit_take_bit_iff)
      then show ?thesis using assms(3) or_over_fits [OF ok] by (simp add: encodes_def)
    qed
  qed
  then show ?thesis using as ex assembled_encodes [OF ok] by auto
qed

section \<open>The encoding of SW\<close>

definition sw_encoding_yaml :: yaml where
  "sw_encoding_yaml = YDict
    [(YStr ''scheme'', YStr ''S''),
     (YStr ''mapping'', YDict
       [(YStr ''funct3'', YStr ''b010''), (YStr ''imm'', YStr ''offset''), (YStr ''rs2'', YStr ''grs2''),
        (YStr ''rs1'', YStr ''grs1'')])]"

definition demo_encoding :: encoding where
  "demo_encoding = (case bindR (EncSchemes_init demo_schemes) (Encoding_init sw_encoding_yaml) of
     Inr en \<Rightarrow> en | Inl _ \<Rightarrow> \<lparr>op_to_field_name = [], enc_fields = []\<rparr>)"

lemma demo_encoding_accepted:
  obtains schemes where "EncSchemes_init demo_schemes = Inr schemes"
    and "Encoding_init sw_encoding_yaml schemes = Inr demo_encoding"
proof -
  have "bindR (EncSchemes_init demo_schemes) (Encoding_init sw_encoding_yaml) = Inr demo_encoding" by code_simp
  then show ?thesis using that by (auto simp: bindR_Inr_iff)
qed

text \<open>\<^verbatim>\<open>sw x3, 100(x2)\<close>\<close>

lemma demo_encodes: "encodes demo_encoding 0x06312223"
  by code_simp

theorem masks_recognise_witness:
  "returns (get_masks demo_encoding) (\<lambda>m. masks_accept m 0x06312223)"
proof -
  obtain schemes where "EncSchemes_init demo_schemes = Inr schemes"
    "Encoding_init sw_encoding_yaml schemes = Inr demo_encoding" by (rule demo_encoding_accepted)
  from masks_recognise [OF this] show ?thesis
    using demo_encodes by (auto simp: encodes_def elim!: returns_mono)
qed

theorem assemble_extract_witness:
  "returns (assemble demo_encoding [(''offset'', 100), (''grs2'', 3), (''grs1'', 2)]) (\<lambda>w.
     extract_operands demo_encoding w = [(''offset'', 100), (''grs2'', 3), (''grs1'', 2)])"
proof -
  obtain schemes where "EncSchemes_init demo_schemes = Inr schemes"
    "Encoding_init sw_encoding_yaml schemes = Inr demo_encoding" by (rule demo_encoding_accepted)
  note t = assemble_extract [OF this, of "[(''offset'', 100), (''grs2'', 3), (''grs1'', 2)]"]
  have f: "ops_fit demo_encoding [(''offset'', 100), (''grs2'', 3), (''grs1'', 2)]" by code_simp
  have o: "map (\<lambda>(a, _). (a, op_idx [(''offset'', 100), (''grs2'', 3), (''grs1'', 2)] a))
      (op_to_field_name demo_encoding) = [(''offset'', 100), (''grs2'', 3), (''grs1'', 2)]" by code_simp
  show ?thesis
    by (rule returns_mono [OF t [unfolded if_P [OF f] o]]) simp
qed

theorem extract_assemble_witness:
  "returns (assemble demo_encoding (extract_operands demo_encoding 0x06312223)) (encodes demo_encoding)"
proof -
  obtain schemes where "EncSchemes_init demo_schemes = Inr schemes"
    "Encoding_init sw_encoding_yaml schemes = Inr demo_encoding" by (rule demo_encoding_accepted)
  from extract_assemble [OF this demo_encodes] show ?thesis by (rule returns_mono) simp
qed

end
