(* ===== verification/Operand.thy ===== *)
theory Operand
  imports Encoding
begin

text \<open>
  Operand types and operands: \<^verbatim>\<open>util/shared/operand.py\<close> (classes \<^verbatim>\<open>OperandType\<close>, \<^verbatim>\<open>RegOperandType\<close>,
  \<^verbatim>\<open>ImmOperandType\<close>, \<^verbatim>\<open>EnumOperandType\<close>, \<^verbatim>\<open>OptionOperandType\<close>, \<^verbatim>\<open>Operand\<close> and the functions that
  parse operand types).

  The class hierarchy is the datatype \<open>operand_type\<close> of one record per subclass; a method of the base
  class has the prefix \<open>OperandType_\<close> and takes the attributes it uses, an override has the prefix of
  its class, and the function without a prefix selects the override as the method call does.
  \<open>None\<close> as a value is Python's \<^verbatim>\<open>None\<close>.
\<close>

section \<open>The base class\<close>

definition OperandType_init :: "int option \<Rightarrow> int option result" where
  "OperandType_init w = require (case w of None \<Rightarrow> True | Some n \<Rightarrow> 0 < n) (Inr w)"

definition describe_bits_lst :: "string list \<Rightarrow> string result" where
  "describe_bits_lst bits_lst =
     require (bits_lst \<noteq> [])
       (Inr (if length bits_lst = 1 then hd bits_lst else ''{'' @ str_join '', '' bits_lst @ ''}''))"

definition OperandType_describe_decode :: "string list \<Rightarrow> string result" where
  "OperandType_describe_decode bits_lst =
     bindR (describe_bits_lst bits_lst) (\<lambda>s. Inr (''unsigned('' @ s @ '')''))"

definition OperandType_op_val_to_enc_val :: "int option \<Rightarrow> int \<Rightarrow> int option result" where
  "OperandType_op_val_to_enc_val w op_val =
     (case w of
        None \<Rightarrow> Inr None
      | Some n \<Rightarrow>
          if op_val < 0 then Inl ValueError
          else if py_bool (drop_bit (nat n) op_val) then Inl ValueError
          else Inr (Some op_val))"

definition OperandType_get_max_enc_val :: "int option \<Rightarrow> int option" where
  "OperandType_get_max_enc_val w = map_option (\<lambda>n. low_mask (nat n)) w"

definition OperandType_get_op_val_range ::
    "int option \<Rightarrow> (int \<Rightarrow> int \<Rightarrow> int option result) \<Rightarrow> int \<Rightarrow> (int \<times> int) option result" where
  "OperandType_get_op_val_range max_enc_val to_op_val cur_pc =
     (case max_enc_val of
        None \<Rightarrow> Inr None
      | Some enc_hi \<Rightarrow>
          bindR (to_op_val 0 cur_pc) (\<lambda>lo.
          case lo of
            None \<Rightarrow> Inl AssertionError
          | Some op_lo \<Rightarrow>
              bindR (to_op_val enc_hi cur_pc) (\<lambda>hi.
              case hi of
                None \<Rightarrow> Inl AssertionError
              | Some op_hi \<Rightarrow> Inr (Some (min op_lo op_hi, max op_lo op_hi)))))"

section \<open>Registers\<close>

record reg_operand =
  reg_width :: int
  reg_type :: string
  reg_is_dest :: bool

definition TYPE_FMTS :: "string \<Rightarrow> (int \<times> string) option" where
  "TYPE_FMTS = map_of [(''gpr'', (5, ''x'')), (''wdr'', (5, ''w''))]"

definition RegOperandType_init :: "string \<Rightarrow> bool \<Rightarrow> reg_operand result" where
  "RegOperandType_init rt is_dest =
     (case TYPE_FMTS rt of
        None \<Rightarrow> Inl AssertionError
      | Some (w, _) \<Rightarrow>
          bindR (OperandType_init (Some w)) (\<lambda>_.
          Inr \<lparr>reg_width = w, reg_type = rt, reg_is_dest = is_dest\<rparr>))"

definition RegOperandType_make :: "string \<Rightarrow> bool \<Rightarrow> enc_scheme_field option \<Rightarrow> reg_operand result" where
  "RegOperandType_make rt is_dest scheme_field =
     (case scheme_field of
        None \<Rightarrow> RegOperandType_init rt is_dest
      | Some sf \<Rightarrow>
          (case TYPE_FMTS rt of
             None \<Rightarrow> Inl AssertionError
           | Some (w, _) \<Rightarrow>
               if br_width (esf_bits sf) \<noteq> w then Inl ValueError else RegOperandType_init rt is_dest))"

definition RegOperandType_str_to_op_val :: "reg_operand \<Rightarrow> string \<Rightarrow> int result" where
  "RegOperandType_str_to_op_val self as_str =
     (case TYPE_FMTS (reg_type self) of
        None \<Rightarrow> Inl KeyError
      | Some (w, pfx) \<Rightarrow>
          if \<not> starts_with pfx as_str then Inl ValueError
          else case take_digits (drop (length pfx) as_str) of
            None \<Rightarrow> Inl ValueError
          | Some (ds, rest) \<Rightarrow>
              if \<not> at_end rest then Inl ValueError
              else
                let idx = digits_val ds
                in require (0 \<le> idx)
                     (if py_bool (drop_bit (nat w) idx) then Inl ValueError else Inr idx))"

definition RegOperandType_op_val_to_str :: "reg_operand \<Rightarrow> int \<Rightarrow> string result" where
  "RegOperandType_op_val_to_str self op_val =
     (case TYPE_FMTS (reg_type self) of
        None \<Rightarrow> Inl AssertionError
      | Some (_, pfx) \<Rightarrow> Inr (pfx @ str_of_int op_val))"

definition RegOperandType_is_src :: "reg_operand \<Rightarrow> bool" where
  "RegOperandType_is_src self \<longleftrightarrow> reg_type self \<in> {''csr'', ''wsr''} \<or> \<not> reg_is_dest self"

definition RegOperandType_is_dest :: "reg_operand \<Rightarrow> bool" where
  "RegOperandType_is_dest self \<longleftrightarrow> reg_is_dest self \<or> reg_type self \<in> {''csr'', ''wsr''}"

section \<open>Immediates\<close>

record imm_operand =
  imm_width :: "int option"
  enc_offset :: int
  imm_shift :: int
  imm_signed :: bool
  imm_pc_rel :: bool

definition ImmOperandType_init :: "int option \<Rightarrow> int \<Rightarrow> int \<Rightarrow> bool \<Rightarrow> bool \<Rightarrow> imm_operand result" where
  "ImmOperandType_init w off shift is_signed pc_rel =
     require (0 \<le> shift)
       (bindR (OperandType_init w) (\<lambda>_.
        Inr \<lparr>imm_width = w, enc_offset = off, imm_shift = shift, imm_signed = is_signed, imm_pc_rel = pc_rel\<rparr>))"

definition ImmOperandType_make ::
    "int option \<Rightarrow> int \<Rightarrow> int \<Rightarrow> bool \<Rightarrow> bool \<Rightarrow> enc_scheme_field option \<Rightarrow> imm_operand result" where
  "ImmOperandType_make w off shift is_signed pc_rel scheme_field =
     (case scheme_field of
        None \<Rightarrow> ImmOperandType_init w off shift is_signed pc_rel
      | Some sf \<Rightarrow>
          let w' = (case w of None \<Rightarrow> br_width (esf_bits sf) | Some n \<Rightarrow> n)
          in if br_width (esf_bits sf) \<noteq> w' then Inl ValueError
             else ImmOperandType_init (Some w') off shift is_signed pc_rel)"

definition doc_rel_to_abs :: "int \<Rightarrow> string" where
  "doc_rel_to_abs v =
     (if v < 0 then ''.-'' @ str_of_int (- v) else if v = 0 then ''.'' else ''.+'' @ str_of_int v)"

definition get_enc_range :: "imm_operand \<Rightarrow> (int \<times> int) option" where
  "get_enc_range self =
     (case imm_width self of
        None \<Rightarrow> None
      | Some w \<Rightarrow>
          if imm_signed self then
            let sgn_lo = - (push_bit (nat w) 1 div 2) in Some (sgn_lo, max (- (sgn_lo + 1)) 0)
          else Some (0, push_bit (nat w) 1 - 1))"

definition get_doc_range :: "imm_operand \<Rightarrow> (int \<times> int) option" where
  "get_doc_range self =
     map_option (\<lambda>(sgn_lo, sgn_hi).
       (push_bit (nat (imm_shift self)) (sgn_lo + enc_offset self),
        push_bit (nat (imm_shift self)) (sgn_hi + enc_offset self))) (get_enc_range self)"

definition ImmOperandType_get_op_val_range :: "imm_operand \<Rightarrow> int \<Rightarrow> (int \<times> int) option" where
  "ImmOperandType_get_op_val_range self cur_pc =
     map_option (\<lambda>(rel_lo, rel_hi).
       let pc_off = (if imm_pc_rel self then cur_pc else 0)
       in (rel_lo + pc_off, rel_hi + pc_off)) (get_doc_range self)"

definition ImmOperandType_markdown_doc :: "imm_operand \<Rightarrow> string option" where
  "ImmOperandType_markdown_doc self =
     map_option (\<lambda>(lo, hi).
       let stp_msg =
             (if imm_shift self = 0 then []
              else '' in steps of `'' @ str_of_int (push_bit (nat (imm_shift self)) 1) @ ''`'');
           rel_suffix =
             (if imm_pc_rel self then
                '' This is encoded PC-relative but appears '' @ ''as an absolute value in assembly. To write a raw '' @
                ''value in an assembly file, write something in the '' @
                ''range `'' @ doc_rel_to_abs lo @ ''` to `'' @ doc_rel_to_abs hi @ ''`.''
              else [])
       in ''Valid range: `'' @ str_of_int lo @ ''` to `'' @ str_of_int hi @ ''`'' @ stp_msg @ ''.'' @ rel_suffix)
     (get_doc_range self)"

definition ImmOperandType_describe_decode :: "imm_operand \<Rightarrow> string list \<Rightarrow> string result" where
  "ImmOperandType_describe_decode self bits_lst =
     (let concat_shift = py_bool (imm_shift self) \<and> \<not> py_bool (enc_offset self);
          bits_lst' = (if concat_shift then bits_lst @ [str_of_int (imm_shift self) @ [CHR 0x27] @ ''b0''] else bits_lst);
          shift = (if concat_shift then 0 else imm_shift self);
          xsigned = (if imm_signed self then ''signed'' else ''unsigned'')
      in bindR (describe_bits_lst bits_lst') (\<lambda>bits.
         let acc = xsigned @ ''('' @ bits @ '')''
         in bindR
              (if py_bool (enc_offset self) then
                 let acc' = acc @ '' + '' @ str_of_int (enc_offset self)
                 in Inr (if py_bool shift then (''('' @ acc' @ '') << '' @ str_of_int (imm_shift self), 0) else (acc', 2 :: int))
               else require (\<not> py_bool shift) (Inr (acc, 2)))
              (\<lambda>(acc, acc_prec).
               Inr (if imm_pc_rel self then
                      ''PC + '' @ (if acc_prec < 1 then ''('' @ acc @ '')'' else acc)
                    else acc))))"

definition ImmOperandType_str_to_op_val :: "string \<Rightarrow> int option" where
  "ImmOperandType_str_to_op_val as_str = py_int0 as_str"

definition ImmOperandType_op_val_to_str :: "imm_operand \<Rightarrow> int \<Rightarrow> int option \<Rightarrow> string" where
  "ImmOperandType_op_val_to_str self op_val cur_pc =
     (case cur_pc of
        Some pc_val \<Rightarrow> if imm_pc_rel self then doc_rel_to_abs (op_val - pc_val) else str_of_int op_val
      | None \<Rightarrow> str_of_int op_val)"

text \<open>The encoding of a value that is already relative to the PC, for a known width.\<close>

definition imm_encode :: "imm_operand \<Rightarrow> int \<Rightarrow> int \<Rightarrow> int option result" where
  "imm_encode self w pc_relative_val =
     (let shift_mask = low_mask (nat (imm_shift self))
      in if py_bool (pc_relative_val AND shift_mask) then Inl ValueError
         else
           let offset_val = drop_bit (nat (imm_shift self)) pc_relative_val - enc_offset self
           in case get_enc_range self of
                None \<Rightarrow> Inl AssertionError
              | Some (enc_lo, enc_hi) \<Rightarrow>
                  if \<not> (enc_lo \<le> offset_val \<and> offset_val \<le> enc_hi) then
                    require (get_doc_range self \<noteq> None) (Inl ValueError)
                  else
                    bindR
                      (if imm_signed self then
                         Inr (if offset_val < 0 then push_bit (nat w) 1 + offset_val else offset_val)
                       else require (0 \<le> offset_val) (Inr offset_val))
                      (\<lambda>encoded. require (drop_bit (nat w) encoded = 0) (Inr (Some encoded))))"

definition ImmOperandType_op_val_to_enc_val :: "imm_operand \<Rightarrow> int \<Rightarrow> int option \<Rightarrow> int option result" where
  "ImmOperandType_op_val_to_enc_val self op_val cur_pc =
     (case imm_width self of
        None \<Rightarrow> Inr None
      | Some w \<Rightarrow>
          if imm_pc_rel self then
            (case cur_pc of None \<Rightarrow> Inr None | Some pc_val \<Rightarrow> imm_encode self w (op_val - pc_val))
          else imm_encode self w op_val)"

definition ImmOperandType_enc_val_to_op_val :: "imm_operand \<Rightarrow> int \<Rightarrow> int \<Rightarrow> int option result" where
  "ImmOperandType_enc_val_to_op_val self enc_val cur_pc =
     (let finish = (\<lambda>signed_val. Inr (Some (
            push_bit (nat (imm_shift self)) (signed_val + enc_offset self) + (if imm_pc_rel self then cur_pc else 0))))
      in if imm_signed self then
           (case imm_width self of
              None \<Rightarrow> Inr None
            | Some w \<Rightarrow>
                require (drop_bit (nat w) enc_val = 0)
                 (require (1 \<le> w)
                   (if py_bool (drop_bit (nat (w - 1)) enc_val) then
                      let signed_val = enc_val - push_bit (nat w) 1
                      in require (signed_val < 0) (finish signed_val)
                    else finish enc_val)))
         else finish enc_val)"

section \<open>Enumerations and options\<close>

record enum_operand =
  enum_width :: int
  enum_items :: "string list"

definition EnumOperandType_init :: "string list \<Rightarrow> enc_scheme_field option \<Rightarrow> enum_operand result" where
  "EnumOperandType_init items scheme_field =
     require (items \<noteq> [])
       (let min_width = bit_length (length items - 1)
        in bindR (case scheme_field of
                    None \<Rightarrow> Inr min_width
                  | Some sf \<Rightarrow>
                      if br_width (esf_bits sf) < min_width then Inl ValueError else Inr (br_width (esf_bits sf)))
             (\<lambda>w. bindR (OperandType_init (Some w)) (\<lambda>_.
              Inr \<lparr>enum_width = w, enum_items = map py_lower items\<rparr>)))"

definition EnumOperandType_markdown_doc :: "enum_operand \<Rightarrow> string" where
  "EnumOperandType_markdown_doc self =
     ''| Assembly Syntax | Value |'' @ [CHR 0x0A] @ ''|-----------------|-------|'' @ [CHR 0x0A] @
     concat (map (\<lambda>(idx, item). ''| `'' @ item @ ''` | `'' @ str_of_int (int idx) @ ''` |'' @ [CHR 0x0A])
       (zip [0..<length (enum_items self)] (enum_items self)))"

fun enum_find :: "string \<Rightarrow> int \<Rightarrow> string list \<Rightarrow> int result" where
  "enum_find low_str idx [] = Inl ValueError"
| "enum_find low_str idx (item # items) = (if low_str = item then Inr idx else enum_find low_str (idx + 1) items)"

definition EnumOperandType_str_to_op_val :: "enum_operand \<Rightarrow> string \<Rightarrow> int result" where
  "EnumOperandType_str_to_op_val self as_str = enum_find (py_lower as_str) 0 (enum_items self)"

definition EnumOperandType_op_val_to_str :: "enum_operand \<Rightarrow> int \<Rightarrow> string" where
  "EnumOperandType_op_val_to_str self op_val =
     (if op_val < 0 \<or> op_val \<ge> int (length (enum_items self)) then ''???'' else enum_items self ! nat op_val)"

definition EnumOperandType_get_max_enc_val :: "enum_operand \<Rightarrow> int" where
  "EnumOperandType_get_max_enc_val self = int (length (enum_items self)) - 1"

record option_operand =
  opt_width :: int
  opt_option :: string

definition OptionOperandType_init :: "string \<Rightarrow> enc_scheme_field option \<Rightarrow> option_operand result" where
  "OptionOperandType_init opt scheme_field =
     bindR (case scheme_field of
              None \<Rightarrow> Inr 1
            | Some sf \<Rightarrow> require (1 \<le> br_width (esf_bits sf)) (Inr (br_width (esf_bits sf))))
       (\<lambda>w. bindR (OperandType_init (Some w)) (\<lambda>_. Inr \<lparr>opt_width = w, opt_option = py_lower opt\<rparr>))"

definition OptionOperandType_markdown_doc :: "option_operand \<Rightarrow> string" where
  "OptionOperandType_markdown_doc self =
     ''To specify, use the literal syntax `'' @ opt_option self @ ''`'' @ [CHR 0x0A]"

definition OptionOperandType_str_to_op_val :: "option_operand \<Rightarrow> string \<Rightarrow> int result" where
  "OptionOperandType_str_to_op_val self as_str =
     (if py_lower as_str = opt_option self then Inr 1 else Inl ValueError)"

definition OptionOperandType_op_val_to_str :: "option_operand \<Rightarrow> int \<Rightarrow> string result" where
  "OptionOperandType_op_val_to_str self op_val =
     require (op_val \<in> {0, 1}) (Inr (if py_bool op_val then opt_option self else []))"

section \<open>Method calls on an operand type\<close>

datatype operand_type =
    RegOp reg_operand
  | ImmOp imm_operand
  | EnumOp enum_operand
  | OptionOp option_operand

definition op_width :: "operand_type \<Rightarrow> int option" where
  "op_width t =
     (case t of RegOp r \<Rightarrow> Some (reg_width r) | ImmOp i \<Rightarrow> imm_width i | EnumOp e \<Rightarrow> Some (enum_width e)
      | OptionOp p \<Rightarrow> Some (opt_width p))"

definition markdown_doc :: "operand_type \<Rightarrow> string option" where
  "markdown_doc t =
     (case t of RegOp _ \<Rightarrow> None | ImmOp i \<Rightarrow> ImmOperandType_markdown_doc i
      | EnumOp e \<Rightarrow> Some (EnumOperandType_markdown_doc e) | OptionOp p \<Rightarrow> Some (OptionOperandType_markdown_doc p))"

definition describe_decode :: "operand_type \<Rightarrow> string list \<Rightarrow> string result" where
  "describe_decode t =
     (case t of ImmOp i \<Rightarrow> ImmOperandType_describe_decode i | _ \<Rightarrow> OperandType_describe_decode)"

definition syntax_determines_value :: "operand_type \<Rightarrow> bool" where
  "syntax_determines_value t = (case t of ImmOp _ \<Rightarrow> False | _ \<Rightarrow> True)"

definition str_to_op_val :: "operand_type \<Rightarrow> string \<Rightarrow> int option result" where
  "str_to_op_val t as_str =
     (case t of
        RegOp r \<Rightarrow> bindR (RegOperandType_str_to_op_val r as_str) (\<lambda>v. Inr (Some v))
      | ImmOp _ \<Rightarrow> Inr (ImmOperandType_str_to_op_val as_str)
      | EnumOp e \<Rightarrow> bindR (EnumOperandType_str_to_op_val e as_str) (\<lambda>v. Inr (Some v))
      | OptionOp p \<Rightarrow> bindR (OptionOperandType_str_to_op_val p as_str) (\<lambda>v. Inr (Some v)))"

definition op_val_to_enc_val :: "operand_type \<Rightarrow> int \<Rightarrow> int option \<Rightarrow> int option result" where
  "op_val_to_enc_val t op_val cur_pc =
     (case t of
        ImmOp i \<Rightarrow> ImmOperandType_op_val_to_enc_val i op_val cur_pc
      | _ \<Rightarrow> OperandType_op_val_to_enc_val (op_width t) op_val)"

definition enc_val_to_op_val :: "operand_type \<Rightarrow> int \<Rightarrow> int \<Rightarrow> int option result" where
  "enc_val_to_op_val t enc_val cur_pc =
     (case t of ImmOp i \<Rightarrow> ImmOperandType_enc_val_to_op_val i enc_val cur_pc | _ \<Rightarrow> Inr (Some enc_val))"

definition op_val_to_str :: "operand_type \<Rightarrow> int \<Rightarrow> int option \<Rightarrow> string result" where
  "op_val_to_str t op_val cur_pc =
     (case t of
        RegOp r \<Rightarrow> RegOperandType_op_val_to_str r op_val
      | ImmOp i \<Rightarrow> Inr (ImmOperandType_op_val_to_str i op_val cur_pc)
      | EnumOp e \<Rightarrow> Inr (EnumOperandType_op_val_to_str e op_val)
      | OptionOp p \<Rightarrow> OptionOperandType_op_val_to_str p op_val)"

definition get_max_enc_val :: "operand_type \<Rightarrow> int option" where
  "get_max_enc_val t =
     (case t of
        EnumOp e \<Rightarrow> Some (EnumOperandType_get_max_enc_val e)
      | OptionOp _ \<Rightarrow> Some 1
      | _ \<Rightarrow> OperandType_get_max_enc_val (op_width t))"

definition get_op_val_range :: "operand_type \<Rightarrow> int \<Rightarrow> (int \<times> int) option result" where
  "get_op_val_range t cur_pc =
     (case t of
        ImmOp i \<Rightarrow> Inr (ImmOperandType_get_op_val_range i cur_pc)
      | _ \<Rightarrow> OperandType_get_op_val_range (get_max_enc_val t) (enc_val_to_op_val t) cur_pc)"

section \<open>Parsing operand types\<close>

definition reg_fmts :: "string \<Rightarrow> (string \<times> bool) option" where
  "reg_fmts = map_of [(''grs'', (''gpr'', False)), (''grd'', (''gpr'', True)),
     (''wrs'', (''wdr'', False)), (''wrd'', (''wdr'', True))]"

definition xsr_fmts :: "string \<Rightarrow> int option" where
  "xsr_fmts = map_of [(''csr'', 12), (''wsr'', 8)]"

text \<open>An optional \<^verbatim>\<open>(?:TAG([0-9]+))?\<close>: the number, if it is there, and the rest.\<close>

definition opt_number :: "string \<Rightarrow> string \<Rightarrow> int option \<times> string" where
  "opt_number tag s =
     (if starts_with tag s then
        (case take_digits (drop (length tag) s) of
           Some (ds, rest) \<Rightarrow> (Some (digits_val ds), rest)
         | None \<Rightarrow> (None, s))
      else (None, s))"

text \<open>The match of \<^verbatim>\<open>BASE([1-9][0-9]*)?(?:\+([0-9]+))?(?:<<([0-9]+))?$\<close>: width, offset and shift.\<close>

definition match_imm :: "string \<Rightarrow> string \<Rightarrow> (int option \<times> int \<times> int) option" where
  "match_imm base fmt =
     (if \<not> starts_with base fmt then None
      else
        let s = drop (length base) fmt;
            (w, s1) = (if s \<noteq> [] \<and> hd s = CHR ''0'' then (None, s) else opt_number [] s);
            (off, s2) = opt_number ''+'' s1;
            (shift, s3) = opt_number ''<<'' s2
        in if at_end s3 then Some (w, case off of Some n \<Rightarrow> n | None \<Rightarrow> 0, case shift of Some n \<Rightarrow> n | None \<Rightarrow> 0)
           else None)"

text \<open>The match of \<^verbatim>\<open>NAME\(([^\)]+)\)$\<close>.\<close>

definition match_paren :: "string \<Rightarrow> string \<Rightarrow> string option" where
  "match_paren name fmt =
     (if \<not> starts_with (name @ ''('') fmt then None
      else
        let s = drop (length name + 1) fmt;
            body = takeWhile (\<lambda>c. c \<noteq> CHR '')'') s; rest = dropWhile (\<lambda>c. c \<noteq> CHR '')'') s
        in if body \<noteq> [] \<and> rest \<noteq> [] \<and> at_end (tl rest) then Some body else None)"

definition parse_operand_type :: "string \<Rightarrow> bool \<Rightarrow> enc_scheme_field option \<Rightarrow> operand_type result" where
  "parse_operand_type fmt pc_rel scheme_field =
     (case reg_fmts fmt of
        Some (rt, is_dest) \<Rightarrow>
          if pc_rel then Inl ValueError
          else bindR (RegOperandType_make rt is_dest scheme_field) (\<lambda>r. Inr (RegOp r))
      | None \<Rightarrow>
      case xsr_fmts fmt of
        Some w \<Rightarrow>
          require (\<not> pc_rel)
            (bindR (ImmOperandType_make (Some w) 0 0 False False scheme_field) (\<lambda>i. Inr (ImmOp i)))
      | None \<Rightarrow>
      case match_imm ''simm'' fmt of
        Some (w, off, shift) \<Rightarrow>
          bindR (ImmOperandType_make w off shift True pc_rel scheme_field) (\<lambda>i. Inr (ImmOp i))
      | None \<Rightarrow>
      case match_imm ''uimm'' fmt of
        Some (w, off, shift) \<Rightarrow>
          bindR (ImmOperandType_make w off shift False pc_rel scheme_field) (\<lambda>i. Inr (ImmOp i))
      | None \<Rightarrow>
      case match_paren ''enum'' fmt of
        Some items \<Rightarrow>
          if pc_rel then Inl ValueError
          else bindR (EnumOperandType_init (map py_strip (py_split CHR '','' items)) scheme_field) (\<lambda>e. Inr (EnumOp e))
      | None \<Rightarrow>
      case match_paren ''option'' fmt of
        Some opt \<Rightarrow>
          if pc_rel then Inl ValueError
          else bindR (OptionOperandType_init (py_strip opt) scheme_field) (\<lambda>p. Inr (OptionOp p))
      | None \<Rightarrow> Inl ValueError)"

text \<open>The match of \<^verbatim>\<open>PFX[0-9]*$\<close>.\<close>

definition match_numbered :: "string \<Rightarrow> string \<Rightarrow> bool" where
  "match_numbered pfx name \<longleftrightarrow>
     starts_with pfx name \<and> at_end (dropWhile is_digit (drop (length pfx) name))"

definition infer_operand_type :: "string \<Rightarrow> bool \<Rightarrow> enc_scheme_field option \<Rightarrow> operand_type result" where
  "infer_operand_type name pc_rel scheme_field =
     (let op_type_name =
            (if match_numbered ''grs'' name then Some ''grs''
             else if name \<in> {''grd'', ''wrd'', ''csr'', ''wsr''} then Some name
             else if match_numbered ''wrs'' name then Some ''wrs''
             else if match_numbered ''imm'' name \<or> name = ''offset'' then Some ''simm''
             else None)
      in case op_type_name of
           None \<Rightarrow> Inl ValueError
         | Some n \<Rightarrow> parse_operand_type n pc_rel scheme_field)"

definition make_operand_type ::
    "string option \<Rightarrow> bool \<Rightarrow> string \<Rightarrow> enc_scheme_field option \<Rightarrow> operand_type result" where
  "make_operand_type op_type_name pc_rel operand_name scheme_field =
     (case op_type_name of
        Some n \<Rightarrow> parse_operand_type n pc_rel scheme_field
      | None \<Rightarrow> infer_operand_type operand_name pc_rel scheme_field)"

section \<open>Operands\<close>

record operand =
  operand_name :: string
  operand_abbrev :: "string option"
  operand_op_type :: operand_type
  operand_doc :: "string option"

text \<open>
  The name, abbreviation, type name, documentation and PC-relative flag of the YAML object.  An object
  that is neither a string nor a dictionary leaves the local variables unbound.
\<close>

definition operand_attrs ::
    "yaml \<Rightarrow> (string \<times> string option \<times> string option \<times> string option \<times> bool) result" where
  "operand_attrs yml =
     (case yml of
        YStr s \<Rightarrow> Inr (py_lower s, None, None, None, False)
      | YDict _ \<Rightarrow>
          bindR (check_keys yml [''name''] [''type'', ''pc-rel'', ''doc'', ''abbrev'']) (\<lambda>yd.
          bindR (ydict_item yd ''name'') (\<lambda>y.
          bindR (check_str y) (\<lambda>name.
          bindR (get_optional_str yd ''abbrev'') (\<lambda>abbrev.
          bindR (get_optional_str yd ''type'') (\<lambda>op_type.
          bindR (check_bool (case ydict_get yd ''pc-rel'' of Some b \<Rightarrow> b | None \<Rightarrow> YBool False)) (\<lambda>pc_rel.
          bindR (get_optional_str yd ''doc'') (\<lambda>doc.
          Inr (py_lower name, map_option py_lower abbrev, op_type, doc, pc_rel))))))))
      | _ \<Rightarrow> Inl UnboundLocalError)"

definition operand_scheme_field :: "string \<Rightarrow> encoding option \<Rightarrow> enc_scheme_field option result" where
  "operand_scheme_field name insn_encoding =
     (case insn_encoding of
        None \<Rightarrow> Inr None
      | Some en \<Rightarrow>
          (case map_of (op_to_field_name en) name of
             None \<Rightarrow> Inl ValueError
           | Some field_name \<Rightarrow>
               (case map_of (enc_fields en) field_name of
                  None \<Rightarrow> Inl KeyError
                | Some field \<Rightarrow> Inr (Some (ef_scheme_field field)))))"

definition Operand_init :: "yaml \<Rightarrow> encoding option \<Rightarrow> operand result" where
  "Operand_init yml insn_encoding =
     bindR (operand_attrs yml) (\<lambda>(name, abbrev, op_type, doc, pc_rel).
     bindR (operand_scheme_field name insn_encoding) (\<lambda>enc_scheme_field.
     if abbrev = Some name then Inl ValueError
     else
       bindR (make_operand_type op_type pc_rel name enc_scheme_field) (\<lambda>t.
       Inr \<lparr>operand_name = name, operand_abbrev = abbrev, operand_op_type = t, operand_doc = doc\<rparr>)))"

section \<open>Well-formed operand types\<close>

definition operand_type_ok :: "operand_type \<Rightarrow> bool" where
  "operand_type_ok t =
     (case t of
        RegOp r \<Rightarrow> TYPE_FMTS (reg_type r) \<noteq> None \<and> reg_width r = 5
      | ImmOp i \<Rightarrow> pred_option (\<lambda>w. 0 < w) (imm_width i) \<and> 0 \<le> imm_shift i
      | EnumOp e \<Rightarrow> 0 < enum_width e \<and> enum_items e \<noteq> [] \<and> length (enum_items e) \<le> 2 ^ nat (enum_width e) \<and>
          map py_lower (enum_items e) = enum_items e
      | OptionOp p \<Rightarrow> 0 < opt_width p \<and> py_lower (opt_option p) = opt_option p)"

declare py_lower_idem [simp]

lemma RegOperandType_make_ok:
  assumes "RegOperandType_make rt d sf = Inr r"
  shows "TYPE_FMTS (reg_type r) \<noteq> None \<and> reg_width r = 5 \<and> pred_option (\<lambda>f. br_width (esf_bits f) = 5) sf"
proof -
  have "w = 5" if "TYPE_FMTS rt = Some (w, p)" for w p
    using that by (auto simp: TYPE_FMTS_def split: if_splits)
  moreover have "RegOperandType_init rt d = Inr r \<and> pred_option (\<lambda>f. \<exists>w p. TYPE_FMTS rt = Some (w, p) \<and> br_width (esf_bits f) = w) sf"
    using assms by (cases sf) (auto simp: RegOperandType_make_def split: option.splits if_splits)
  ultimately show ?thesis
    by (cases sf) (fastforce simp: RegOperandType_init_def OperandType_init_def split: option.splits)+
qed

lemma ImmOperandType_init_ok:
  "ImmOperandType_init w off shift sg rel = Inr i \<Longrightarrow>
   pred_option (\<lambda>w. 0 < w) (imm_width i) \<and> 0 \<le> imm_shift i \<and> imm_width i = w"
  by (auto simp: ImmOperandType_init_def OperandType_init_def require_Inr_iff bindR_Inr_iff split: option.splits)

lemma ImmOperandType_make_ok:
  assumes "ImmOperandType_make w off shift sg rel sf = Inr i"
  shows "pred_option (\<lambda>w. 0 < w) (imm_width i) \<and> 0 \<le> imm_shift i \<and>
    pred_option (\<lambda>f. imm_width i = Some (br_width (esf_bits f))) sf"
  using assms
  by (cases sf; cases w) (auto simp: ImmOperandType_make_def Let_def split: if_splits dest: ImmOperandType_init_ok)

lemma EnumOperandType_init_ok:
  assumes "EnumOperandType_init items sf = Inr e"
  shows "0 < enum_width e \<and> enum_items e \<noteq> [] \<and> length (enum_items e) \<le> 2 ^ nat (enum_width e) \<and>
    map py_lower (enum_items e) = enum_items e \<and> pred_option (\<lambda>f. br_width (esf_bits f) = enum_width e) sf"
proof -
  let ?m = "bit_length (length items - 1)"
  obtain w where e: "items \<noteq> []" "0 < w" "e = \<lparr>enum_width = w, enum_items = map py_lower items\<rparr>"
    and w: "?m \<le> w" "pred_option (\<lambda>f. br_width (esf_bits f) = w) sf"
    using assms
    by (cases sf) (auto simp: EnumOperandType_init_def OperandType_init_def require_Inr_iff bindR_Inr_iff Let_def
        split: if_splits)
  have "length items - 1 < 2 ^ nat ?m" using bit_length_bound by blast
  also have "\<dots> \<le> 2 ^ nat w" using w(1) by (simp add: nat_mono)
  finally show ?thesis using e w(2) by simp
qed

lemma OptionOperandType_init_ok:
  "OptionOperandType_init opt sf = Inr p \<Longrightarrow> 0 < opt_width p \<and> py_lower (opt_option p) = opt_option p \<and>
   pred_option (\<lambda>f. br_width (esf_bits f) = opt_width p) sf"
  by (cases sf) (auto simp: OptionOperandType_init_def OperandType_init_def require_Inr_iff bindR_Inr_iff)

lemma parse_operand_type_ok:
  assumes "parse_operand_type fmt pc_rel sf = Inr t"
  shows "operand_type_ok t \<and> pred_option (\<lambda>f. op_width t = Some (br_width (esf_bits f))) sf"
proof -
  consider r rt d where "RegOperandType_make rt d sf = Inr r" "t = RegOp r"
    | i w off shift sg rel where "ImmOperandType_make w off shift sg rel sf = Inr i" "t = ImmOp i"
    | e items where "EnumOperandType_init items sf = Inr e" "t = EnumOp e"
    | p opt where "OptionOperandType_init opt sf = Inr p" "t = OptionOp p"
    using assms unfolding parse_operand_type_def
    by (simp only: bindR_Inr_iff require_Inr_iff split: option.split_asm prod.split_asm if_split_asm) blast+
  then show ?thesis
  proof cases
    case 1
    then show ?thesis using RegOperandType_make_ok [OF 1(1)] by (cases sf) (simp_all add: operand_type_ok_def op_width_def)
  next
    case 2
    then show ?thesis using ImmOperandType_make_ok [OF 2(1)] by (cases sf) (auto simp: operand_type_ok_def op_width_def)
  next
    case 3
    then show ?thesis using EnumOperandType_init_ok [OF 3(1)] by (cases sf) (simp_all add: operand_type_ok_def op_width_def)
  next
    case 4
    then show ?thesis using OptionOperandType_init_ok [OF 4(1)] by (cases sf) (simp_all add: operand_type_ok_def op_width_def)
  qed
qed

lemma make_operand_type_ok:
  assumes "make_operand_type type_name pc_rel name sf = Inr t"
  shows "operand_type_ok t \<and> pred_option (\<lambda>f. op_width t = Some (br_width (esf_bits f))) sf"
proof -
  obtain n where "parse_operand_type n pc_rel sf = Inr t"
    using assms by (auto simp: make_operand_type_def infer_operand_type_def Let_def split: option.splits)
  then show ?thesis by (rule parse_operand_type_ok)
qed

section \<open>Operand values and encoded values\<close>

text \<open>The signed value of an encoded immediate, and the value an immediate has to have at the PC.\<close>

definition imm_signed_val :: "imm_operand \<Rightarrow> int \<Rightarrow> int \<Rightarrow> int" where
  "imm_signed_val i w e = (if imm_signed i \<and> 2 ^ nat (w - 1) \<le> e then e - 2 ^ nat w else e)"

definition imm_base :: "imm_operand \<Rightarrow> int \<Rightarrow> int" where
  "imm_base i cur_pc = (if imm_pc_rel i then cur_pc else 0)"

definition imm_in_range :: "imm_operand \<Rightarrow> int \<Rightarrow> int \<Rightarrow> bool" where
  "imm_in_range i w x \<longleftrightarrow>
     (if imm_signed i then - (2 ^ nat (w - 1)) \<le> x \<and> x < 2 ^ nat (w - 1) else 0 \<le> x \<and> x < 2 ^ nat w)"

lemma two_pow_width: "0 < w \<Longrightarrow> (2 :: int) ^ nat w = 2 * 2 ^ nat (w - 1)"
  by (simp add: nat_diff_distrib flip: power_Suc)

lemma mod_wrap:
  fixes m x :: int
  assumes "- m \<le> x" and "x < m"
  shows "x mod m = (if x < 0 then m + x else x)"
  using assms mod_pos_pos_trivial [of "m + x" m] by simp

lemma get_enc_range_eq:
  assumes "imm_width i = Some w" and "0 < w"
  shows "get_enc_range i =
    Some (if imm_signed i then (- (2 ^ nat (w - 1)), 2 ^ nat (w - 1) - 1) else (0, 2 ^ nat w - 1))"
  using assms by (simp add: get_enc_range_def push_bit_eq_mult two_pow_width Let_def max_absorb1)

lemma imm_in_range_enc:
  assumes "imm_width i = Some w" and "0 < w" and "get_enc_range i = Some (lo, hi)"
  shows "imm_in_range i w x \<longleftrightarrow> lo \<le> x \<and> x \<le> hi"
  using assms by (auto simp: get_enc_range_eq imm_in_range_def split: if_splits)

lemma imm_signed_val_range:
  assumes "0 < w" and "fits (nat w) e"
  shows "imm_in_range i w (imm_signed_val i w e) \<and> imm_signed_val i w e mod 2 ^ nat w = e"
proof -
  have "(e - 2 ^ nat w) mod 2 ^ nat w = e mod 2 ^ nat w" using minus_mod_self2 by blast
  then show ?thesis
    using assms two_pow_width [OF assms(1)] by (auto simp: imm_in_range_def imm_signed_val_def fits_iff)
qed

lemma imm_signed_val_mod:
  assumes "0 < w" and "imm_in_range i w x"
  shows "imm_signed_val i w (x mod 2 ^ nat w) = x"
proof (cases "0 \<le> x")
  case True
  then have "x mod 2 ^ nat w = x" "imm_signed i \<Longrightarrow> x < 2 ^ nat (w - 1)"
    using assms two_pow_width [OF assms(1)] by (auto simp: imm_in_range_def split: if_splits)
  then show ?thesis by (auto simp: imm_signed_val_def)
next
  case False
  then have "x mod 2 ^ nat w = x + 2 ^ nat w" "imm_signed i" "- (2 ^ nat (w - 1)) \<le> x"
    using assms two_pow_width [OF assms(1)] mod_wrap [of "2 ^ nat w" x]
    by (auto simp: imm_in_range_def split: if_splits)
  then show ?thesis using two_pow_width [OF assms(1)] by (simp add: imm_signed_val_def)
qed

lemma imm_in_range_wrap:
  assumes "0 < w" and "imm_in_range i w x"
  shows "x mod 2 ^ nat w = (if x < 0 then 2 ^ nat w + x else x)" and "fits (nat w) (x mod 2 ^ nat w)"
    and "0 \<le> x \<or> imm_signed i"
  using assms mod_wrap [of "2 ^ nat w" x] two_pow_width [OF assms(1)]
  by (auto simp: imm_in_range_def fits_iff split: if_splits)

lemma imm_encode_eq:
  assumes w: "imm_width i = Some w" "0 < w" and s: "0 \<le> imm_shift i"
  shows "imm_encode i w r =
    (let x = r div 2 ^ nat (imm_shift i) - enc_offset i
     in if 2 ^ nat (imm_shift i) dvd r \<and> imm_in_range i w x then Inr (Some (x mod 2 ^ nat w)) else Inl ValueError)"
proof -
  define x where "x = r div 2 ^ nat (imm_shift i) - enc_offset i"
  have x: "drop_bit (nat (imm_shift i)) r - enc_offset i = x" by (simp add: x_def drop_bit_eq_div)
  obtain lo hi where g: "get_enc_range i = Some (lo, hi)" using get_enc_range_eq [OF w] by fastforce
  have doc: "get_doc_range i \<noteq> None" by (simp add: get_doc_range_def g)
  have al: "py_bool (r AND low_mask (nat (imm_shift i))) \<longleftrightarrow> \<not> 2 ^ nat (imm_shift i) dvd r"
    by (simp add: py_bool_def and_low_mask_mod dvd_eq_mod_eq_0)
  have en: "(if imm_signed i then Inr (if x < 0 then push_bit (nat w) 1 + x else x)
      else require (0 \<le> x) (Inr x)) = Inr (x mod 2 ^ nat w)" "drop_bit (nat w) (x mod 2 ^ nat w) = 0"
    if "imm_in_range i w x"
    using imm_in_range_wrap [OF w(2) that] fits_iff_drop [of "nat w" "x mod 2 ^ nat w"]
    by (auto simp: push_bit_eq_mult py_bool_def)
  show ?thesis
    unfolding imm_encode_def Let_def x al g option.case prod.case imm_in_range_enc [OF w g, symmetric] x_def [symmetric]
    using en doc by simp
qed

lemma imm_enc_val_eq:
  assumes w: "imm_width i = Some w" "0 < w" and e: "fits (nat w) e"
  shows "ImmOperandType_enc_val_to_op_val i e cur_pc =
    Inr (Some ((imm_signed_val i w e + enc_offset i) * 2 ^ nat (imm_shift i) + imm_base i cur_pc))"
proof -
  have b: "0 \<le> e" "e < 2 ^ nat w" using e by (simp_all add: fits_iff)
  have "drop_bit (nat w) e = 0" using e fits_iff_drop [of "nat w" e] by (simp add: py_bool_def)
  moreover have "py_bool (drop_bit (nat (w - 1)) e) \<longleftrightarrow> 2 ^ nat (w - 1) \<le> e"
    using b fits_iff_drop [of "nat (w - 1)" e] by (auto simp: fits_iff)
  ultimately show ?thesis
    using b w by (simp add: ImmOperandType_enc_val_to_op_val_def imm_signed_val_def imm_base_def push_bit_eq_mult Let_def)
qed

lemma imm_op_val_eq:
  assumes "imm_width i = Some w"
  shows "ImmOperandType_op_val_to_enc_val i x (Some cur_pc) = imm_encode i w (x - imm_base i cur_pc)"
  using assms by (simp add: ImmOperandType_op_val_to_enc_val_def imm_base_def)

lemma imm_round_trip:
  assumes w: "imm_width i = Some w" "0 < w" and s: "0 \<le> imm_shift i"
  shows "fits (nat w) e \<Longrightarrow> \<exists>x. ImmOperandType_enc_val_to_op_val i e cur_pc = Inr (Some x) \<and>
      ImmOperandType_op_val_to_enc_val i x (Some cur_pc) = Inr (Some e)"
    and "ImmOperandType_op_val_to_enc_val i x (Some cur_pc) = Inr (Some e) \<Longrightarrow>
      fits (nat w) e \<and> ImmOperandType_enc_val_to_op_val i e cur_pc = Inr (Some x)"
proof -
  assume e: "fits (nat w) e"
  show "\<exists>x. ImmOperandType_enc_val_to_op_val i e cur_pc = Inr (Some x) \<and>
      ImmOperandType_op_val_to_enc_val i x (Some cur_pc) = Inr (Some e)"
    using imm_enc_val_eq [OF w e] imm_encode_eq [OF w s] imm_signed_val_range [OF w(2) e]
    by (simp add: imm_op_val_eq [OF w(1)] Let_def)
next
  let ?r = "x - imm_base i cur_pc"
  let ?y = "?r div 2 ^ nat (imm_shift i) - enc_offset i"
  assume "ImmOperandType_op_val_to_enc_val i x (Some cur_pc) = Inr (Some e)"
  then have y: "2 ^ nat (imm_shift i) dvd ?r" "imm_in_range i w ?y" "e = ?y mod 2 ^ nat w"
    by (simp_all add: imm_op_val_eq [OF w(1)] imm_encode_eq [OF w s] Let_def split: if_splits)
  have e: "fits (nat w) e" by (simp add: y(3) fits_iff)
  have sv: "imm_signed_val i w e = ?y" unfolding y(3) by (rule imm_signed_val_mod [OF w(2) y(2)])
  have "(?y + enc_offset i) * 2 ^ nat (imm_shift i) + imm_base i cur_pc = x" using y(1) by simp
  then show "fits (nat w) e \<and> ImmOperandType_enc_val_to_op_val i e cur_pc = Inr (Some x)"
    using e sv unfolding imm_enc_val_eq [OF w e] by simp
qed

lemma basic_round_trip:
  assumes "0 < w"
  shows "OperandType_op_val_to_enc_val (Some w) x = (if fits (nat w) x then Inr (Some x) else Inl ValueError)"
  by (auto simp: OperandType_op_val_to_enc_val_def fits_iff_drop)

lemma op_type_round_trip:
  assumes ok: "operand_type_ok t" and "op_width t = Some w"
  shows "fits (nat w) e \<Longrightarrow> \<exists>x. enc_val_to_op_val t e cur_pc = Inr (Some x) \<and>
      op_val_to_enc_val t x (Some cur_pc) = Inr (Some e)"
    and "op_val_to_enc_val t x (Some cur_pc) = Inr (Some e) \<Longrightarrow>
      fits (nat w) e \<and> enc_val_to_op_val t e cur_pc = Inr (Some x)"
proof -
  have "(fits (nat w) e \<longrightarrow> (\<exists>x. enc_val_to_op_val t e cur_pc = Inr (Some x) \<and>
      op_val_to_enc_val t x (Some cur_pc) = Inr (Some e))) \<and>
    (op_val_to_enc_val t x (Some cur_pc) = Inr (Some e) \<longrightarrow>
      fits (nat w) e \<and> enc_val_to_op_val t e cur_pc = Inr (Some x))"
  proof (cases t)
    case (ImmOp i)
    then have w: "imm_width i = Some w" "0 < w" "0 \<le> imm_shift i"
      using assms by (auto simp: operand_type_ok_def op_width_def)
    show ?thesis
      using imm_round_trip [OF w] by (simp add: ImmOp op_val_to_enc_val_def enc_val_to_op_val_def)
  qed (use assms in \<open>auto simp: operand_type_ok_def op_width_def op_val_to_enc_val_def enc_val_to_op_val_def
      basic_round_trip split: if_splits\<close>)
  then show "fits (nat w) e \<Longrightarrow> \<exists>x. enc_val_to_op_val t e cur_pc = Inr (Some x) \<and>
      op_val_to_enc_val t x (Some cur_pc) = Inr (Some e)"
    and "op_val_to_enc_val t x (Some cur_pc) = Inr (Some e) \<Longrightarrow>
      fits (nat w) e \<and> enc_val_to_op_val t e cur_pc = Inr (Some x)"
    by blast+
qed

text \<open>
  C40: operand types.  Every operand type that the parser accepts is well-formed: its width is positive
  when it is known, a register type is known and 5 bits wide, a shift is not negative, and the width
  of an enumeration is enough for its items.  With an encoding field, the width of the operand type is
  the width of the field.
\<close>

theorem operand_type_well_formed:
  assumes "make_operand_type type_name pc_rel name sf = Inr t"
  shows "(case t of
      RegOp r \<Rightarrow> reg_type r \<in> {''gpr'', ''wdr''} \<and> reg_width r = 5
    | ImmOp i \<Rightarrow> pred_option (\<lambda>w. 0 < w) (imm_width i) \<and> 0 \<le> imm_shift i
    | EnumOp e \<Rightarrow> 0 < enum_width e \<and> enum_items e \<noteq> [] \<and> length (enum_items e) \<le> 2 ^ nat (enum_width e)
    | OptionOp p \<Rightarrow> 0 < opt_width p) \<and>
    pred_option (\<lambda>f. op_width t = Some (br_width (esf_bits f))) sf"
proof -
  note ok = make_operand_type_ok [OF assms]
  show ?thesis
  proof (cases t)
    case (RegOp r)
    then have r: "TYPE_FMTS (reg_type r) \<noteq> None" "reg_width r = 5" using ok by (simp_all add: operand_type_ok_def)
    from r(1) have "reg_type r \<in> {''gpr'', ''wdr''}"
      unfolding TYPE_FMTS_def by (simp only: map_of.simps fun_upd_apply fst_conv) (metis insertI1 insertI2)
    then show ?thesis using RegOp r(2) ok by simp
  qed (use ok in \<open>simp_all add: operand_type_ok_def\<close>)
qed

text \<open>
  C36: operand values and encoded values.  For an operand of known width, every encoded value of that
  width has an operand value, which encodes to it again, and every operand value that can be encoded
  gives a code of that width which decodes to it.
\<close>

theorem operand_value_round_trip:
  assumes "make_operand_type type_name pc_rel name sf = Inr t" and "op_width t = Some w"
  shows "(\<forall>e. fits (nat w) e \<longrightarrow> (\<exists>x. enc_val_to_op_val t e cur_pc = Inr (Some x) \<and>
      op_val_to_enc_val t x (Some cur_pc) = Inr (Some e))) \<and>
    (\<forall>x e. op_val_to_enc_val t x (Some cur_pc) = Inr (Some e) \<longrightarrow>
      fits (nat w) e \<and> enc_val_to_op_val t e cur_pc = Inr (Some x))"
  using op_type_round_trip [OF _ assms(2)] make_operand_type_ok [OF assms(1)] by blast

text \<open>
  C24: the range of an immediate.  For an immediate of known width, \<^verbatim>\<open>get_op_val_range\<close> gives the values
  that can be encoded: encoding succeeds for the values in the range that are aligned to the shift,
  and raises \<^verbatim>\<open>ValueError\<close> for all others; no assertion fails.
\<close>

theorem imm_range_exact:
  assumes "make_operand_type type_name pc_rel name sf = Inr (ImmOp i)" and "imm_width i = Some w"
  shows "\<exists>lo hi. get_op_val_range (ImmOp i) cur_pc = Inr (Some (lo, hi)) \<and> lo \<le> hi \<and>
    (\<forall>x. if lo \<le> x \<and> x \<le> hi \<and> 2 ^ nat (imm_shift i) dvd (x - (if imm_pc_rel i then cur_pc else 0))
         then \<exists>e. op_val_to_enc_val (ImmOp i) x (Some cur_pc) = Inr (Some e)
         else op_val_to_enc_val (ImmOp i) x (Some cur_pc) = Inl ValueError)"
proof -
  have "operand_type_ok (ImmOp i)" using make_operand_type_ok [OF assms(1)] by simp
  then have w: "imm_width i = Some w" "0 < w" "0 \<le> imm_shift i"
    using assms(2) by (auto simp: operand_type_ok_def)
  let ?S = "(2 :: int) ^ nat (imm_shift i)" and ?b = "imm_base i cur_pc"
  obtain lo hi where g: "get_enc_range i = Some (lo, hi)" "lo \<le> hi"
    using get_enc_range_eq [OF w(1,2)] by (cases "imm_signed i") (fastforce simp: one_le_power)+
  let ?lo = "(lo + enc_offset i) * ?S + ?b" and ?hi = "(hi + enc_offset i) * ?S + ?b"
  have rng: "get_op_val_range (ImmOp i) cur_pc = Inr (Some (?lo, ?hi))"
    by (simp add: get_op_val_range_def ImmOperandType_get_op_val_range_def get_doc_range_def g imm_base_def
        push_bit_eq_mult)
  have iff: "?lo \<le> x \<and> x \<le> ?hi \<longleftrightarrow> imm_in_range i w ((x - ?b) div ?S - enc_offset i)" if d: "?S dvd x - ?b" for x
  proof -
    obtain y where y: "x - ?b = ?S * y" using d by blast
    then have "x = y * ?S + ?b" by (simp add: algebra_simps)
    then have "?lo \<le> x \<and> x \<le> ?hi \<longleftrightarrow> lo + enc_offset i \<le> y \<and> y \<le> hi + enc_offset i" by simp
    then show ?thesis using y by (auto simp: imm_in_range_enc [OF w(1,2) g(1)])
  qed
  have "if ?lo \<le> x \<and> x \<le> ?hi \<and> ?S dvd (x - ?b)
      then \<exists>e. op_val_to_enc_val (ImmOp i) x (Some cur_pc) = Inr (Some e)
      else op_val_to_enc_val (ImmOp i) x (Some cur_pc) = Inl ValueError" for x
    using iff [of x] by (auto simp: op_val_to_enc_val_def imm_op_val_eq [OF w(1)] imm_encode_eq [OF w] Let_def)
  moreover have "?lo \<le> ?hi" using g(2) by simp
  ultimately show ?thesis using rng unfolding imm_base_def by blast
qed

section \<open>Operand values and strings\<close>

lemma reg_str_round_trip:
  assumes "TYPE_FMTS (reg_type r) \<noteq> None" and "0 \<le> v" "v < 32"
  shows "bindR (RegOperandType_op_val_to_str r v) (RegOperandType_str_to_op_val r) = Inr v"
proof -
  obtain p where p: "TYPE_FMTS (reg_type r) = Some (5, p)"
    using assms(1) by (auto simp: TYPE_FMTS_def split: if_splits)
  have d: "take_digits (str_of_int v) = Some (str_of_int v, [])" "digits_val (str_of_int v) = v"
    using str_of_nat_digits [of "nat v"] take_digits_append [of "str_of_int v" "[]"] assms(2)
    by (simp_all add: str_of_int_def)
  have "\<not> py_bool (drop_bit 5 v)" using assms(2,3) fits_iff_drop [of 5 v] by (simp add: fits_iff)
  then show ?thesis
    using p d assms(2)
    by (simp add: RegOperandType_op_val_to_str_def RegOperandType_str_to_op_val_def starts_with_def at_end_def Let_def)
qed

lemma enum_find_nth:
  "distinct items \<Longrightarrow> k < length items \<Longrightarrow> enum_find (items ! k) idx items = Inr (idx + int k)"
proof (induction items arbitrary: idx k)
  case (Cons item items)
  then show ?case by (cases k) (auto simp: nth_mem algebra_simps)
qed simp

text \<open>
  Printing and reading operands.  Reading the string that an operand value is printed as gives the
  value back: for every register, for every item of an enumeration whose items are distinct, for an
  option that is set, and for every integer as an immediate that is not printed relative to the PC.
\<close>

theorem operand_str_round_trip:
  assumes "make_operand_type type_name pc_rel name sf = Inr t"
    and "case t of
        RegOp r \<Rightarrow> 0 \<le> v \<and> v < 32
      | ImmOp i \<Rightarrow> \<not> imm_pc_rel i \<or> cur_pc = None
      | EnumOp e \<Rightarrow> distinct (enum_items e) \<and> 0 \<le> v \<and> v < int (length (enum_items e))
      | OptionOp p \<Rightarrow> v = 1"
  shows "bindR (op_val_to_str t v cur_pc) (str_to_op_val t) = Inr (Some v)"
proof -
  have ok: "operand_type_ok t" using make_operand_type_ok [OF assms(1)] by simp
  show ?thesis
  proof (cases t)
    case (RegOp r)
    then have "TYPE_FMTS (reg_type r) \<noteq> None" "0 \<le> v" "v < 32" using ok assms(2) by (simp_all add: operand_type_ok_def)
    from reg_str_round_trip [OF this] show ?thesis
      by (cases "RegOperandType_op_val_to_str r v") (simp_all add: RegOp op_val_to_str_def str_to_op_val_def)
  next
    case (ImmOp i)
    then have "ImmOperandType_op_val_to_str i v cur_pc = str_of_int v"
      using assms(2) by (auto simp: ImmOperandType_op_val_to_str_def split: option.splits)
    then show ?thesis
      by (simp add: ImmOp op_val_to_str_def str_to_op_val_def ImmOperandType_str_to_op_val_def py_int0_str_of_int)
  next
    case (EnumOp e)
    then have v: "distinct (enum_items e)" "nat v < length (enum_items e)" "0 \<le> v" "v < int (length (enum_items e))"
      using assms(2) by auto
    have "map py_lower (enum_items e) ! nat v = enum_items e ! nat v"
      using ok EnumOp by (simp add: operand_type_ok_def)
    then have "py_lower (enum_items e ! nat v) = enum_items e ! nat v" using v(2) by simp
    then show ?thesis
      using v enum_find_nth [OF v(1,2), of 0]
      by (simp add: EnumOp op_val_to_str_def str_to_op_val_def EnumOperandType_op_val_to_str_def
          EnumOperandType_str_to_op_val_def)
  next
    case (OptionOp p)
    then show ?thesis
      using ok assms(2) by (simp add: operand_type_ok_def op_val_to_str_def str_to_op_val_def
          OptionOperandType_op_val_to_str_def OptionOperandType_str_to_op_val_def py_bool_def)
  qed
qed

section \<open>Two operand types of the instruction set\<close>

text \<open>The branch offset of BEQ and the direction of a shift.\<close>

definition branch_offset :: imm_operand where
  "branch_offset = \<lparr>imm_width = Some 12, enc_offset = 0, imm_shift = 1, imm_signed = True, imm_pc_rel = True\<rparr>"

definition shift_dir :: enum_operand where
  "shift_dir = \<lparr>enum_width = 1, enum_items = [''<<'', ''>>'']\<rparr>"

lemma branch_offset_parsed: "make_operand_type (Some ''simm12<<1'') True ''offset'' None = Inr (ImmOp branch_offset)"
  by code_simp

lemma shift_dir_parsed: "make_operand_type (Some ''enum(<<, >>)'') False ''shift_type'' None = Inr (EnumOp shift_dir)"
  by code_simp

theorem operand_type_well_formed_witness: "length (enum_items shift_dir) \<le> 2 ^ nat (enum_width shift_dir)"
  using operand_type_well_formed [OF shift_dir_parsed] by simp

theorem operand_value_round_trip_witness:
  "\<exists>x. enc_val_to_op_val (ImmOp branch_offset) 0xffc 0x100 = Inr (Some x) \<and>
    op_val_to_enc_val (ImmOp branch_offset) x (Some 0x100) = Inr (Some 0xffc)"
  using operand_value_round_trip [OF branch_offset_parsed, of 12 "0x100"]
  by (simp add: op_width_def branch_offset_def fits_iff)

theorem imm_range_exact_witness:
  "op_val_to_enc_val (ImmOp branch_offset) 0xff8 (Some 0) \<noteq> Inl ValueError \<and>
   op_val_to_enc_val (ImmOp branch_offset) 0x1000 (Some 0) = Inl ValueError"
proof -
  have "imm_width branch_offset = Some 12" by (simp add: branch_offset_def)
  from imm_range_exact [OF branch_offset_parsed this, of 0] obtain lo hi where
    r: "get_op_val_range (ImmOp branch_offset) 0 = Inr (Some (lo, hi))"
    and x: "\<And>x. if lo \<le> x \<and> x \<le> hi \<and> 2 ^ nat (imm_shift branch_offset) dvd
        (x - (if imm_pc_rel branch_offset then 0 else 0))
      then \<exists>e. op_val_to_enc_val (ImmOp branch_offset) x (Some 0) = Inr (Some e)
      else op_val_to_enc_val (ImmOp branch_offset) x (Some 0) = Inl ValueError" by blast
  have "get_op_val_range (ImmOp branch_offset) 0 = Inr (Some (-4096, 4094))" by code_simp
  with r have "lo = -4096" "hi = 4094" by simp_all
  then show ?thesis using x [of "0xff8"] x [of "0x1000"] by (auto simp: branch_offset_def)
qed

theorem operand_str_round_trip_witness:
  "bindR (op_val_to_str (EnumOp shift_dir) 1 None) (str_to_op_val (EnumOp shift_dir)) = Inr (Some 1)"
  by (rule operand_str_round_trip [OF shift_dir_parsed]) (simp add: shift_dir_def)

end
