(* ===== verification/Insn_Syntax.thy ===== *)
theory Insn_Syntax
  imports Operand
begin

text \<open>
  Instruction syntax: \<^verbatim>\<open>util/shared/syntax.py\<close> (classes \<^verbatim>\<open>SyntaxToken\<close>, \<^verbatim>\<open>SyntaxHunk\<close>, \<^verbatim>\<open>InsnSyntax\<close>).

  The regular expressions that the code builds for the assembler are the strings it builds; matching
  them is not modelled.
\<close>

section \<open>Strings\<close>

text \<open>\<^verbatim>\<open>re.sub(r'\s+', ' ', s)\<close>\<close>

fun squeeze :: "bool \<Rightarrow> string \<Rightarrow> string" where
  "squeeze in_run [] = []"
| "squeeze in_run (c # cs) =
     (if is_space c then (if in_run then squeeze True cs else CHR '' '' # squeeze True cs)
      else c # squeeze False cs)"

definition re_special :: string where
  "re_special = ''()[]{}?*+-|^$.&~# '' @ [CHR 0x5C, CHR 0x09, CHR 0x0A, CHR 0x0D, CHR 0x0B, CHR 0x0C]"

definition re_escape :: "string \<Rightarrow> string" where
  "re_escape s = concat (map (\<lambda>c. if c \<in> set re_special then [CHR 0x5C, c] else [c]) s)"

text \<open>\<^verbatim>\<open>\s*\<close> and \<^verbatim>\<open>\s+\<close> as strings.\<close>

definition re_space0 :: string where
  "re_space0 = CHR 0x5C # ''s*''"

definition re_space1 :: string where
  "re_space1 = CHR 0x5C # ''s+''"

text \<open>\<^verbatim>\<open>re.split(r'<([^>]+)>', s)\<close>: the literal and the operand parts alternate.\<close>

function split_ops :: "string \<Rightarrow> string \<Rightarrow> string list" where
  "split_ops lit [] = [lit]"
| "split_ops lit (c # cs) =
     (let body = takeWhile (\<lambda>c. c \<noteq> CHR ''>'') cs; rest = dropWhile (\<lambda>c. c \<noteq> CHR ''>'') cs
      in if c = CHR ''<'' \<and> body \<noteq> [] \<and> rest \<noteq> [] then lit # body # split_ops [] (tl rest)
         else split_ops (lit @ [c]) cs)"
  by pat_completeness auto
termination
proof (relation "measure (\<lambda>(lit, s). length s)", goal_cases)
  case (2 lit c cs body rest)
  have "length rest \<le> length cs" using 2(2) by (simp add: length_dropWhile_le)
  then show ?case by simp
qed simp_all

section \<open>Tokens\<close>

record syntax_token =
  tok_is_literal :: bool
  tok_text :: string

definition SyntaxToken_init :: "bool \<Rightarrow> string \<Rightarrow> syntax_token result" where
  "SyntaxToken_init is_literal text =
     require (text \<noteq> [])
       (Inr \<lparr>tok_is_literal = is_literal, tok_text = (if is_literal then squeeze False text else text)\<rparr>)"

definition SyntaxToken_render_doc :: "syntax_token \<Rightarrow> string" where
  "SyntaxToken_render_doc self =
     (if tok_is_literal self then tok_text self else ''<'' @ tok_text self @ ''>'')"

definition SyntaxToken_asm_pattern :: "syntax_token \<Rightarrow> string" where
  "SyntaxToken_asm_pattern self =
     (if tok_is_literal self then
        (case py_words (tok_text self) of
           [] \<Rightarrow> re_space1
         | w # ws \<Rightarrow> re_escape w @ concat (map (\<lambda>w. re_space1 @ re_escape w) ws) @ re_space0)
      else
        let bs = [CHR 0x5C];
            s_re = ''[^ ,+'' @ bs @ ''-]'';
            not_inc_or_dec = ''(?:-?'' @ s_re @ ''(?:'' @ bs @ ''+?-?'' @ s_re @ '')*)''
        in ''('' @ bs @ ''+'' @ bs @ ''+|--|'' @ not_inc_or_dec @ '')'' @ re_space0)"

definition SyntaxToken_render ::
    "syntax_token \<Rightarrow> int \<Rightarrow> (string \<times> int) list \<Rightarrow> (string \<times> operand) list \<Rightarrow> string result" where
  "SyntaxToken_render self cur_pc op_vals operands =
     (if tok_is_literal self then Inr (tok_text self)
      else
        case (map_of op_vals (tok_text self), map_of operands (tok_text self)) of
          (Some v, Some op) \<Rightarrow> op_val_to_str (operand_op_type op) v (Some cur_pc)
        | _ \<Rightarrow> Inl AssertionError)"

section \<open>Hunks\<close>

record syntax_hunk =
  hunk_is_optional :: bool
  hunk_tokens :: "syntax_token list"
  hunk_op_list :: "string list"

text \<open>The attribute \<^verbatim>\<open>op_set\<close> is the set of the elements of \<^verbatim>\<open>op_list\<close>.\<close>

definition SyntaxHunk_init :: "bool \<Rightarrow> syntax_token list \<Rightarrow> string list \<Rightarrow> syntax_hunk result" where
  "SyntaxHunk_init is_optional tokens op_list =
     require (tokens \<noteq> [])
       (Inr \<lparr>hunk_is_optional = is_optional, hunk_tokens = tokens, hunk_op_list = op_list\<rparr>)"

definition SyntaxHunk_from_list :: "string list \<Rightarrow> syntax_hunk result" where
  "SyntaxHunk_from_list operands =
     (case operands of
        [] \<Rightarrow> Inl AssertionError
      | first # rest \<Rightarrow>
          bindR (SyntaxToken_init True '', '') (\<lambda>comma.
          bindR (SyntaxToken_init False first) (\<lambda>t.
          bindR (mapR (SyntaxToken_init False) rest) (\<lambda>ts.
          let tokens = t # concat (map (\<lambda>t. [comma, t]) ts)
          in require (card (set operands) = length operands) (SyntaxHunk_init False tokens operands)))))"

fun hunk_parts ::
    "nat \<Rightarrow> nat \<Rightarrow> syntax_token list \<Rightarrow> string list \<Rightarrow> string list \<Rightarrow> (syntax_token list \<times> string list) result" where
  "hunk_parts n idx tokens op_list [] = Inr (tokens, op_list)"
| "hunk_parts n idx tokens op_list (part # parts) =
     (let is_literal = even idx
      in if (CHR ''<'' \<in> set part \<or> CHR ''>'' \<in> set part) \<and> \<not> is_literal then Inl ValueError
         else
           bindR (if is_literal then Inr op_list
                  else require (part \<noteq> [])
                    (if part \<in> set op_list then Inl ValueError else Inr (op_list @ [part]))) (\<lambda>op_list'.
           if part = [] \<and> idx \<notin> {0, n - 1} then Inl ValueError
           else if part = [] then hunk_parts n (idx + 1) tokens op_list' parts
           else bindR (SyntaxToken_init is_literal part) (\<lambda>t.
             hunk_parts n (idx + 1) (tokens @ [t]) op_list' parts)))"

definition SyntaxHunk_from_string :: "bool \<Rightarrow> string \<Rightarrow> syntax_hunk result" where
  "SyntaxHunk_from_string optional raw =
     require (raw \<noteq> [])
       (let parts = split_ops [] raw
        in bindR (hunk_parts (length parts) 0 [] [] parts) (\<lambda>(tokens, op_list).
           SyntaxHunk_init optional tokens op_list))"

definition SyntaxHunk_render_doc :: "syntax_hunk \<Rightarrow> string" where
  "SyntaxHunk_render_doc self =
     (let body = concat (map SyntaxToken_render_doc (hunk_tokens self))
      in if hunk_is_optional self then ''['' @ body @ '']'' else body)"

definition SyntaxHunk_asm_pattern :: "syntax_hunk \<Rightarrow> string" where
  "SyntaxHunk_asm_pattern self =
     (let body = concat (map SyntaxToken_asm_pattern (hunk_tokens self))
      in if hunk_is_optional self then ''(?:'' @ body @ '')?'' else body)"

text \<open>The loop that looks for an operand that is not zero.\<close>

fun hunk_required :: "(string \<times> int) list \<Rightarrow> string list \<Rightarrow> bool result" where
  "hunk_required op_vals [] = Inr False"
| "hunk_required op_vals (op_name # ops) =
     (case map_of op_vals op_name of
        None \<Rightarrow> Inl KeyError
      | Some v \<Rightarrow> if v \<noteq> 0 then Inr True else hunk_required op_vals ops)"

definition SyntaxHunk_render ::
    "syntax_hunk \<Rightarrow> int \<Rightarrow> (string \<times> int) list \<Rightarrow> (string \<times> operand) list \<Rightarrow> string result" where
  "SyntaxHunk_render self cur_pc op_vals operands =
     bindR (if hunk_is_optional self then hunk_required op_vals (hunk_op_list self) else Inr True) (\<lambda>required.
     if \<not> required then Inr []
     else bindR (mapR (\<lambda>t. SyntaxToken_render t cur_pc op_vals operands) (hunk_tokens self)) (\<lambda>ss. Inr (concat ss)))"

section \<open>The syntax of an instruction\<close>

record insn_syntax =
  syn_hunks :: "syntax_hunk list"
  syn_op_list :: "string list"

definition InsnSyntax_from_list :: "string list \<Rightarrow> insn_syntax result" where
  "InsnSyntax_from_list operands =
     (if operands = [] then Inr \<lparr>syn_hunks = [], syn_op_list = []\<rparr>
      else bindR (SyntaxHunk_from_list operands) (\<lambda>hunk.
        Inr \<lparr>syn_hunks = [hunk], syn_op_list = hunk_op_list hunk\<rparr>))"

text \<open>Splitting out the bracketed parts: \<^verbatim>\<open>after_left.split(']', 1)\<close>.\<close>

fun bracket_parts :: "string list \<Rightarrow> (bool \<times> string) list result" where
  "bracket_parts [] = Inr []"
| "bracket_parts (after_left # rest) =
     (let inner = takeWhile (\<lambda>c. c \<noteq> CHR '']'') after_left; tail = dropWhile (\<lambda>c. c \<noteq> CHR '']'') after_left
      in if tail = [] then Inl ValueError
         else bindR (bracket_parts rest) (\<lambda>ps. Inr ((True, inner) # (False, tl tail) # ps)))"

fun hunks_of_parts :: "(bool \<times> string) list \<Rightarrow> syntax_hunk list result" where
  "hunks_of_parts [] = Inr []"
| "hunks_of_parts ((optional, raw) # ps) =
     (if raw \<noteq> [] then
        bindR (SyntaxHunk_from_string optional raw) (\<lambda>h. bindR (hunks_of_parts ps) (\<lambda>hs. Inr (h # hs)))
      else if optional then Inl ValueError
      else hunks_of_parts ps)"

definition InsnSyntax_from_yaml :: "string \<Rightarrow> insn_syntax result" where
  "InsnSyntax_from_yaml raw =
     (let by_left = py_split CHR ''['' raw
      in bindR (bracket_parts (tl by_left)) (\<lambda>ps.
         bindR (hunks_of_parts ((False, hd by_left) # ps)) (\<lambda>hunks.
         let op_list = concat (map hunk_op_list hunks)
         in if length op_list \<noteq> card (set op_list) then Inl ValueError
            else Inr \<lparr>syn_hunks = hunks, syn_op_list = op_list\<rparr>)))"

definition InsnSyntax_render_doc :: "insn_syntax \<Rightarrow> string" where
  "InsnSyntax_render_doc self = concat (map SyntaxHunk_render_doc (syn_hunks self))"

definition InsnSyntax_asm_pattern :: "insn_syntax \<Rightarrow> string \<times> (string \<times> nat) list" where
  "InsnSyntax_asm_pattern self =
     (re_space0 @ concat (map SyntaxHunk_asm_pattern (syn_hunks self)) @ ''$'',
      zip (syn_op_list self) [1..<Suc (length (syn_op_list self))])"

definition InsnSyntax_render ::
    "insn_syntax \<Rightarrow> int \<Rightarrow> (string \<times> int) list \<Rightarrow> (string \<times> operand) list \<Rightarrow> string list result" where
  "InsnSyntax_render self cur_pc op_vals operands =
     mapR (\<lambda>h. SyntaxHunk_render h cur_pc op_vals operands) (syn_hunks self)"

section \<open>Documentation round trip\<close>

text \<open>A string whose whitespace is single spaces.\<close>

fun canonical :: "string \<Rightarrow> bool" where
  "canonical [] = True"
| "canonical (c # cs) \<longleftrightarrow> (is_space c \<longrightarrow> c = CHR '' '' \<and> (cs = [] \<or> \<not> is_space (hd cs))) \<and> canonical cs"

lemma squeeze_canonical:
  "canonical s \<Longrightarrow> squeeze False s = s"
  "canonical s \<Longrightarrow> s = [] \<or> \<not> is_space (hd s) \<Longrightarrow> squeeze True s = s"
  by (induction s) auto

lemma canonical_appendD: "canonical (s @ t) \<Longrightarrow> canonical s \<and> canonical t"
  by (induction s) (auto simp: hd_append split: if_splits)

fun glue_at :: "bool \<Rightarrow> string list \<Rightarrow> string" where
  "glue_at lit [] = []"
| "glue_at lit (p # ps) = (if lit then p else ''<'' @ p @ ''>'') @ glue_at (\<not> lit) ps"

lemma dropWhile_sep: "dropWhile (\<lambda>c. c \<noteq> x) s \<noteq> [] \<Longrightarrow> s = takeWhile (\<lambda>c. c \<noteq> x) s @ x # tl (dropWhile (\<lambda>c. c \<noteq> x) s)"
  by (induction s) auto

lemma glue_split_ops: "glue_at True (split_ops lit s) = lit @ s"
proof (induction lit s rule: split_ops.induct)
  case (2 lit c cs)
  show ?case
    using 2 dropWhile_sep [of "CHR ''>''" cs] by (simp add: Let_def del: dropWhile_eq_Nil_conv)
qed simp

lemma split_ops_canonical: "canonical (lit @ s) \<Longrightarrow> p \<in> set (split_ops lit s) \<Longrightarrow> canonical p"
proof (induction lit s rule: split_ops.induct)
  case (2 lit c cs)
  let ?b = "takeWhile (\<lambda>c. c \<noteq> CHR ''>'') cs" and ?r = "dropWhile (\<lambda>c. c \<noteq> CHR ''>'') cs"
  show ?case
  proof (cases "c = CHR ''<'' \<and> ?b \<noteq> [] \<and> ?r \<noteq> []")
    case True
    then have "canonical (lit @ CHR ''<'' # ?b @ CHR ''>'' # tl ?r)" using "2.prems"(1) dropWhile_sep [of "CHR ''>''" cs] by simp
    then have "canonical lit" "canonical (CHR ''<'' # ?b @ CHR ''>'' # tl ?r)"
      using canonical_appendD [of lit] by blast+
    then have c: "canonical lit" "canonical ?b" "canonical (tl ?r)"
      using canonical_appendD [of ?b "CHR ''>'' # tl ?r"] by (simp_all only: canonical.simps(2) simp_thms)
    have "p \<in> {lit, ?b} \<union> set (split_ops [] (tl ?r))" using "2.prems"(2) True by (simp add: Let_def)
    then show ?thesis using c "2.IH"(1) [OF refl refl True] by auto
  next
    case False
    then have "p \<in> set (split_ops (lit @ [c]) cs)"
      using "2.prems"(2) by (simp only: split_ops.simps Let_def if_False)
    then show ?thesis using "2.IH"(2) [OF refl refl False] "2.prems"(1) by simp
  qed
qed simp

lemma hunk_parts_doc:
  "hunk_parts n idx toks ops parts = Inr (toks', ops') \<Longrightarrow> \<forall>p \<in> set parts. canonical p \<Longrightarrow>
   concat (map SyntaxToken_render_doc toks') = concat (map SyntaxToken_render_doc toks) @ glue_at (even idx) parts"
proof (induction n idx toks ops parts rule: hunk_parts.induct)
  case (2 n idx toks ops part parts)
  obtain ops1 where
    ops1: "(if even idx then Inr ops else require (part \<noteq> []) (if part \<in> set ops then Inl ValueError else Inr (ops @ [part]))) = Inr ops1"
    and k: "(if part = [] \<and> idx \<notin> {0, n - 1} then Inl ValueError
         else if part = [] then hunk_parts n (idx + 1) toks ops1 parts
         else bindR (SyntaxToken_init (even idx) part) (\<lambda>t. hunk_parts n (idx + 1) (toks @ [t]) ops1 parts)) = Inr (toks', ops')"
    and nb: "\<not> ((CHR ''<'' \<in> set part \<or> CHR ''>'' \<in> set part) \<and> \<not> even idx)"
    using "2.prems"(1) by (auto simp: bindR_Inr_iff Let_def split: if_split_asm)
  have ev: "part = [] \<Longrightarrow> even idx" using ops1 by (auto simp: require_def split: if_splits)
  have can: "\<forall>p \<in> set parts. canonical p" "canonical part" using "2.prems"(2) by simp_all
  show ?case
  proof (cases "part = []")
    case True
    then have "hunk_parts n (idx + 1) toks ops1 parts = Inr (toks', ops')" "\<not> (part = [] \<and> idx \<notin> {0, n - 1})"
      using k by (auto split: if_splits)
    from "2.IH"(1) [OF refl nb ops1 this(2) True this(1) can(1)] show ?thesis using True ev by simp
  next
    case False
    let ?t = "\<lparr>tok_is_literal = even idx, tok_text = (if even idx then squeeze False part else part)\<rparr>"
    have t: "SyntaxToken_init (even idx) part = Inr ?t" using False by (simp add: SyntaxToken_init_def)
    have "hunk_parts n (idx + 1) (toks @ [?t]) ops1 parts = Inr (toks', ops')" using k False t by simp
    from "2.IH"(2) [OF refl nb ops1 _ False t this can(1)] show ?thesis
      using False can(2) squeeze_canonical(1) [of part] by (simp add: SyntaxToken_render_doc_def)
  qed
qed simp

definition part_doc :: "bool \<times> string \<Rightarrow> string" where
  "part_doc p = (if fst p then ''['' @ snd p @ '']'' else snd p)"

lemma SyntaxHunk_from_string_doc:
  assumes "SyntaxHunk_from_string optional raw = Inr h" and "canonical raw"
  shows "SyntaxHunk_render_doc h = part_doc (optional, raw)"
proof -
  obtain toks ops where p: "hunk_parts (length (split_ops [] raw)) 0 [] [] (split_ops [] raw) = Inr (toks, ops)"
    and h: "h = \<lparr>hunk_is_optional = optional, hunk_tokens = toks, hunk_op_list = ops\<rparr>"
    using assms(1)
    by (auto simp: SyntaxHunk_from_string_def SyntaxHunk_init_def bindR_Inr_iff require_Inr_iff Let_def)
  have "\<forall>p \<in> set (split_ops [] raw). canonical p" using split_ops_canonical [of "[]" raw] assms(2) by simp
  from hunk_parts_doc [OF p this] have "concat (map SyntaxToken_render_doc toks) = raw"
    by (simp add: glue_split_ops)
  then show ?thesis by (simp add: SyntaxHunk_render_doc_def h part_doc_def Let_def)
qed

lemma hunks_of_parts_doc:
  "hunks_of_parts ps = Inr hs \<Longrightarrow> \<forall>p \<in> set ps. canonical (snd p) \<Longrightarrow>
   concat (map SyntaxHunk_render_doc hs) = concat (map part_doc ps)"
proof (induction ps arbitrary: hs rule: hunks_of_parts.induct)
  case (2 optional raw ps)
  show ?case
  proof (cases "raw = []")
    case False
    then obtain h hs' where h: "SyntaxHunk_from_string optional raw = Inr h" "hunks_of_parts ps = Inr hs'" "hs = h # hs'"
      using "2.prems"(1) by (auto simp: bindR_Inr_iff)
    then show ?thesis
      using "2.IH"(1) [OF False h(1,2)] "2.prems"(2) SyntaxHunk_from_string_doc [OF h(1)] by simp
  qed (use 2 in \<open>auto simp: part_doc_def split: if_splits\<close>)
qed simp

lemma bracket_parts_doc:
  "bracket_parts rest = Inr ps \<Longrightarrow>
   concat (map part_doc ps) = concat (map (\<lambda>a. CHR ''['' # a) rest) \<and>
   ((\<forall>a \<in> set rest. canonical a) \<longrightarrow> (\<forall>p \<in> set ps. canonical (snd p)))"
proof (induction rest arbitrary: ps rule: bracket_parts.induct)
  case (2 a rest)
  let ?i = "takeWhile (\<lambda>c. c \<noteq> CHR '']'') a" and ?t = "dropWhile (\<lambda>c. c \<noteq> CHR '']'') a"
  obtain qs where q: "?t \<noteq> []" "bracket_parts rest = Inr qs" "ps = (True, ?i) # (False, tl ?t) # qs"
    using "2.prems" by (auto simp: Let_def bindR_Inr_iff split: if_splits)
  have a: "a = ?i @ CHR '']'' # tl ?t" using q(1) by (rule dropWhile_sep)
  have "canonical a \<Longrightarrow> canonical ?i \<and> canonical (tl ?t)"
    using canonical_appendD [of ?i "CHR '']'' # tl ?t"] a by (metis canonical.simps(2))
  moreover have "part_doc (True, ?i) @ part_doc (False, tl ?t) = CHR ''['' # a"
    using a by (simp add: part_doc_def)
  ultimately show ?case
    using "2.IH" [OF refl refl q(1,2)] unfolding q(3) by simp
qed simp

lemma py_join_concat: "ps \<noteq> [] \<Longrightarrow> py_join c ps = hd ps @ concat (map (\<lambda>p. c # p) (tl ps))"
  by (induction c ps rule: py_join.induct) simp_all

lemma canonical_concat: "canonical (concat ss) \<Longrightarrow> s \<in> set ss \<Longrightarrow> canonical s"
proof (induction ss)
  case (Cons t ss)
  then show ?case using canonical_appendD [of t "concat ss"] by auto
qed simp

text \<open>
  Instruction syntax.  When the syntax of an instruction is accepted, no operand occurs in it twice,
  and when its whitespace is single spaces, the documentation shows the syntax exactly as it is written
  in the instruction file, optional parts in brackets and operands in angle brackets.
\<close>

theorem syntax_doc_round_trip:
  assumes "InsnSyntax_from_yaml raw = Inr syn"
  shows "distinct (syn_op_list syn) \<and> syn_op_list syn = concat (map hunk_op_list (syn_hunks syn)) \<and>
    (canonical raw \<longrightarrow> InsnSyntax_render_doc syn = raw)"
proof -
  let ?b = "py_split CHR ''['' raw"
  obtain ps hunks where b: "bracket_parts (tl ?b) = Inr ps" and h: "hunks_of_parts ((False, hd ?b) # ps) = Inr hunks"
    and syn: "syn = \<lparr>syn_hunks = hunks, syn_op_list = concat (map hunk_op_list hunks)\<rparr>"
    and d: "length (concat (map hunk_op_list hunks)) = card (set (concat (map hunk_op_list hunks)))"
    using assms by (auto simp: InsnSyntax_from_yaml_def bindR_Inr_iff Let_def simp del: set_concat split: if_split_asm)
  have raw: "raw = hd ?b @ concat (map (\<lambda>p. CHR ''['' # p) (tl ?b))"
    using py_join_concat [of ?b "CHR ''[''"] py_join_split by simp
  have "InsnSyntax_render_doc syn = raw" if c: "canonical raw"
  proof -
    have "canonical (hd ?b)" "canonical (concat (map (\<lambda>p. CHR ''['' # p) (tl ?b)))"
      using c raw canonical_appendD by metis+
    moreover have "canonical a" if "a \<in> set (tl ?b)" for a
      using canonical_concat [OF calculation(2), of "CHR ''['' # a"] that by auto
    ultimately have "\<forall>p \<in> set ((False, hd ?b) # ps). canonical (snd p)" using bracket_parts_doc [OF b] by simp
    from hunks_of_parts_doc [OF h this] bracket_parts_doc [OF b] raw show ?thesis
      by (simp add: InsnSyntax_render_doc_def syn part_doc_def)
  qed
  then show ?thesis using d by (auto simp: syn intro: card_distinct)
qed

definition demo_syntax :: insn_syntax where
  "demo_syntax = (case InsnSyntax_from_yaml ''<wrd>, <wrs1>[ <shift_type> <shift_bits>]'' of
     Inr s \<Rightarrow> s | Inl _ \<Rightarrow> \<lparr>syn_hunks = [], syn_op_list = []\<rparr>)"

theorem syntax_doc_round_trip_witness:
  "InsnSyntax_render_doc demo_syntax = ''<wrd>, <wrs1>[ <shift_type> <shift_bits>]''"
proof -
  have "InsnSyntax_from_yaml ''<wrd>, <wrs1>[ <shift_type> <shift_bits>]'' = Inr demo_syntax" by code_simp
  moreover have "canonical ''<wrd>, <wrs1>[ <shift_type> <shift_bits>]''" by code_simp
  ultimately show ?thesis using syntax_doc_round_trip by blast
qed

end
