(* ===== verification/Insn_Yaml.thy ===== *)
theory Insn_Yaml
  imports Insn_Syntax
begin

text \<open>
  The instruction database: \<^verbatim>\<open>util/shared/insn_yaml.py\<close> (classes \<^verbatim>\<open>Insn\<close>, \<^verbatim>\<open>InsnGroup\<close>, \<^verbatim>\<open>InsnGroups\<close>,
  \<^verbatim>\<open>InsnsFile\<close> and the search for ambiguous encodings) and \<^verbatim>\<open>util/shared/lsu_desc.py\<close>.

  Reading a file is a parameter: \<open>load rel\<close> is \<^verbatim>\<open>load_yaml\<close> of the file with the path \<open>rel\<close> relative to
  the directory of the instruction file.
\<close>

section \<open>Memory access descriptions\<close>

record lsu_desc =
  lsu_type :: string
  lsu_target :: "string list"
  lsu_idx_width :: int

definition LSU_TYPES :: "string list" where
  "LSU_TYPES = [''mem-load'', ''mem-store'', ''csr'', ''wsr-load'', ''wsr-store'']"

definition LSUDesc_init :: "string \<Rightarrow> string list \<Rightarrow> int \<Rightarrow> lsu_desc result" where
  "LSUDesc_init t target idx_width =
     require (t \<in> set LSU_TYPES) (Inr \<lparr>lsu_type = t, lsu_target = target, lsu_idx_width = idx_width\<rparr>)"

definition LSUDesc_from_yaml :: "yaml \<Rightarrow> lsu_desc result" where
  "LSUDesc_from_yaml yml =
     bindR (check_keys yml [''type'', ''target''] [''bytes'']) (\<lambda>yd.
     bindR (ydict_item yd ''type'') (\<lambda>ty.
     bindR (check_str ty) (\<lambda>t.
     if t \<notin> set LSU_TYPES then Inl ValueError
     else
       bindR (ydict_item yd ''target'') (\<lambda>target.
       bindR (case target of
                YStr s \<Rightarrow> Inr [s]
              | YList l \<Rightarrow> mapR check_str l
              | _ \<Rightarrow> Inl ValueError) (\<lambda>target_parts.
       bindR (if starts_with ''mem-'' t then
                (case ydict_get yd ''bytes'' of
                   None \<Rightarrow> Inl ValueError
                 | Some b \<Rightarrow> check_int b)
              else if ydict_get yd ''bytes'' \<noteq> None then Inl ValueError
              else Inr 1) (\<lambda>idx_width.
       LSUDesc_init t target_parts idx_width))))))"

section \<open>Instructions\<close>

record yaml_insn =
  yi_mnemonic :: string
  yi_encoding :: "encoding option"
  yi_operands :: "operand list"
  yi_name_to_operand :: "(string \<times> operand) list"
  yi_rv32i :: bool
  yi_glued_ops :: bool
  yi_synopsis :: "string option"
  yi_doc :: "string option"
  yi_note :: "string option"
  yi_trailing_doc :: "string option"
  yi_syntax :: insn_syntax
  yi_asm_pattern :: string
  yi_pattern_op_to_grp :: "(string \<times> nat) list"
  yi_python_pseudo_op :: bool
  yi_literal_pseudo_op :: "string list option"
  yi_lsu :: "lsu_desc option"
  yi_straight_line :: yaml

text \<open>The abbreviations of the operands clash neither with a name nor with each other.\<close>

fun check_abbrevs :: "string list \<Rightarrow> operand list \<Rightarrow> unit result" where
  "check_abbrevs operand_names [] = Inr ()"
| "check_abbrevs operand_names (op # ops) =
     (case operand_abbrev op of
        None \<Rightarrow> check_abbrevs operand_names ops
      | Some a \<Rightarrow> if a \<in> set operand_names then Inl ValueError else check_abbrevs (operand_names @ [a]) ops)"

definition bool_field :: "yaml_dict \<Rightarrow> string \<Rightarrow> bool result" where
  "bool_field yd k = check_bool (case ydict_get yd k of Some b \<Rightarrow> b | None \<Rightarrow> YBool False)"

definition insn_encoding_of :: "yaml_dict \<Rightarrow> enc_schemes option \<Rightarrow> encoding option result" where
  "insn_encoding_of yd encoding_schemes =
     (case ydict_get_or_None yd ''encoding'' of
        YNone \<Rightarrow> Inr None
      | encoding_yml \<Rightarrow>
          (case encoding_schemes of
             None \<Rightarrow> Inl ValueError
           | Some schemes \<Rightarrow> bindR (Encoding_init encoding_yml schemes) (\<lambda>e. Inr (Some e))))"

definition missing_ops :: "encoding option \<Rightarrow> (string \<times> operand) list \<Rightarrow> string list" where
  "missing_ops en name_to_operand =
     (case en of
        None \<Rightarrow> []
      | Some e \<Rightarrow> filter (\<lambda>a. map_of name_to_operand a = None) (map fst (op_to_field_name e)))"

definition insn_operands_of ::
    "yaml_dict \<Rightarrow> encoding option \<Rightarrow> (operand list \<times> (string \<times> operand) list) result" where
  "insn_operands_of yd en =
     bindR (ydict_item yd ''operands'') (\<lambda>y.
     bindR (check_list y) (\<lambda>l.
     bindR (mapR (\<lambda>y. Operand_init y en) l) (\<lambda>operands.
     bindR (index_list operands operand_name) (\<lambda>name_to_operand.
     bindR (check_abbrevs (map fst name_to_operand) operands) (\<lambda>_.
     if missing_ops en name_to_operand \<noteq> [] then Inl ValueError
     else Inr (operands, name_to_operand))))))"

definition insn_syntax_of :: "yaml_dict \<Rightarrow> operand list \<Rightarrow> insn_syntax result" where
  "insn_syntax_of yd operands =
     bindR (get_optional_str yd ''syntax'') (\<lambda>raw_syntax.
     case raw_syntax of
       Some raw \<Rightarrow> InsnSyntax_from_yaml (py_strip raw)
     | None \<Rightarrow> InsnSyntax_from_list (map operand_name operands))"

definition literal_pseudo_op_of :: "yaml_dict \<Rightarrow> encoding option \<Rightarrow> bool \<Rightarrow> string list option result" where
  "literal_pseudo_op_of yd en python_pseudo_op =
     (case ydict_get_or_None yd ''literal-pseudo-op'' of
        YNone \<Rightarrow> Inr None
      | lpo \<Rightarrow>
          bindR (check_list lpo) (\<lambda>l.
          bindR (mapR check_str l) (\<lambda>lpo_lst.
          if python_pseudo_op then Inl ValueError
          else if en \<noteq> None then Inl ValueError
          else Inr (Some lpo_lst))))"

definition insn_lsu_of :: "yaml_dict \<Rightarrow> (string \<times> operand) list \<Rightarrow> lsu_desc option result" where
  "insn_lsu_of yd name_to_operand =
     (case ydict_get_or_None yd ''lsu'' of
        YNone \<Rightarrow> Inr None
      | lsu_yaml \<Rightarrow>
          bindR (LSUDesc_from_yaml lsu_yaml) (\<lambda>lsu.
          if list_all (\<lambda>op_name. map_of name_to_operand op_name \<noteq> None) (lsu_target lsu) then Inr (Some lsu)
          else Inl ValueError))"

definition Insn_init :: "yaml \<Rightarrow> enc_schemes option \<Rightarrow> yaml_insn result" where
  "Insn_init yml encoding_schemes =
     bindR (check_keys yml [''mnemonic'', ''operands'']
       [''group'', ''rv32i'', ''synopsis'', ''syntax'', ''doc'', ''note'', ''trailing-doc'', ''encoding'',
        ''glued-ops'', ''literal-pseudo-op'', ''python-pseudo-op'', ''lsu'', ''straight-line'']) (\<lambda>yd.
     bindR (ydict_item yd ''mnemonic'') (\<lambda>y.
     bindR (check_str y) (\<lambda>mnemonic.
     bindR (insn_encoding_of yd encoding_schemes) (\<lambda>en.
     bindR (insn_operands_of yd en) (\<lambda>(operands, name_to_operand).
     bindR (bool_field yd ''rv32i'') (\<lambda>rv32i.
     bindR (bool_field yd ''glued-ops'') (\<lambda>glued_ops.
     bindR (get_optional_str yd ''synopsis'') (\<lambda>synopsis.
     bindR (get_optional_str yd ''doc'') (\<lambda>doc.
     bindR (get_optional_str yd ''note'') (\<lambda>note.
     bindR (get_optional_str yd ''trailing-doc'') (\<lambda>trailing_doc.
     bindR (insn_syntax_of yd operands) (\<lambda>syn.
     if set (map fst name_to_operand) \<noteq> set (syn_op_list syn) then Inl ValueError
     else
       bindR (bool_field yd ''python-pseudo-op'') (\<lambda>python_pseudo_op.
       if python_pseudo_op \<and> en \<noteq> None then Inl ValueError
       else
         bindR (literal_pseudo_op_of yd en python_pseudo_op) (\<lambda>literal_pseudo_op.
         bindR (insn_lsu_of yd name_to_operand) (\<lambda>lsu.
         Inr \<lparr>yi_mnemonic = mnemonic, yi_encoding = en, yi_operands = operands, yi_name_to_operand = name_to_operand,
              yi_rv32i = rv32i, yi_glued_ops = glued_ops, yi_synopsis = synopsis, yi_doc = doc, yi_note = note,
              yi_trailing_doc = trailing_doc, yi_syntax = syn, yi_asm_pattern = fst (InsnSyntax_asm_pattern syn),
              yi_pattern_op_to_grp = snd (InsnSyntax_asm_pattern syn), yi_python_pseudo_op = python_pseudo_op,
              yi_literal_pseudo_op = literal_pseudo_op, yi_lsu = lsu,
              yi_straight_line = (case ydict_get yd ''straight-line'' of Some y \<Rightarrow> y | None \<Rightarrow> YBool True)\<rparr>)))))))))))))))"

fun enc_vals_to_op_vals :: "yaml_insn \<Rightarrow> int \<Rightarrow> (string \<times> int) list \<Rightarrow> (string \<times> int) list result" where
  "enc_vals_to_op_vals self cur_pc [] = Inr []"
| "enc_vals_to_op_vals self cur_pc ((op_name, enc_val) # enc_vals) =
     (case map_of (yi_name_to_operand self) op_name of
        None \<Rightarrow> Inl KeyError
      | Some op \<Rightarrow>
          bindR (enc_val_to_op_val (operand_op_type op) enc_val cur_pc) (\<lambda>op_val.
          case op_val of
            None \<Rightarrow> Inl AssertionError
          | Some v \<Rightarrow> bindR (enc_vals_to_op_vals self cur_pc enc_vals) (\<lambda>r. Inr ((op_name, v) # r))))"

definition Insn_disassemble :: "yaml_insn \<Rightarrow> int \<Rightarrow> (string \<times> int) list \<Rightarrow> string result" where
  "Insn_disassemble self cur_pc op_vals =
     bindR (InsnSyntax_render (yi_syntax self) cur_pc op_vals (yi_name_to_operand self)) (\<lambda>hunks.
     let (mnem, hunks') =
           (if hunks \<noteq> [] \<and> yi_glued_ops self then (yi_mnemonic self @ hd hunks @ '' '', tl hunks)
            else (yi_mnemonic self @ '' '', hunks));
         mnem' = (if length mnem < 15 then mnem @ replicate (15 - length mnem) CHR '' '' else mnem)
     in Inr (mnem' @ dropWhile is_space (concat hunks')))"

section \<open>Ambiguous encodings\<close>

text \<open>Assignment to a key of a dictionary.\<close>

fun dict_set :: "('k \<times> 'v) list \<Rightarrow> 'k \<Rightarrow> 'v \<Rightarrow> ('k \<times> 'v) list" where
  "dict_set [] k v = [(k, v)]"
| "dict_set ((k', v') # d) k v = (if k' = k then (k, v) # d else (k', v') # dict_set d k v)"

fun collect_masks ::
    "(string \<times> int \<times> int) list \<Rightarrow> yaml_insn list \<Rightarrow> (string \<times> int \<times> int) list result" where
  "collect_masks masks [] = Inr masks"
| "collect_masks masks (insn # insns) =
     (case yi_encoding insn of
        None \<Rightarrow> collect_masks masks insns
      | Some en \<Rightarrow> bindR (get_masks en) (\<lambda>m. collect_masks (dict_set masks (yi_mnemonic insn) m) insns))"

text \<open>\<^verbatim>\<open>itertools.combinations(xs, 2)\<close>\<close>

fun combinations2 :: "'a list \<Rightarrow> ('a \<times> 'a) list" where
  "combinations2 [] = []"
| "combinations2 (x # xs) = map (\<lambda>y. (x, y)) xs @ combinations2 xs"

definition ambiguous_pair :: "(string \<times> int \<times> int) \<times> (string \<times> int \<times> int) \<Rightarrow> (string \<times> string \<times> int) list" where
  "ambiguous_pair p =
     (case p of ((mnem0, m00, m01), (mnem1, m10, m11)) \<Rightarrow>
        let m0 = m00 AND m10; m1 = m01 AND m11
        in if m0 OR m1 = low_mask 32 then [(mnem0, mnem1, m1 AND NOT m0)] else [])"

definition find_ambiguous_encodings :: "yaml_insn list \<Rightarrow> (string \<times> string \<times> int) list result" where
  "find_ambiguous_encodings insns =
     bindR (collect_masks [] insns) (\<lambda>masks. Inr (concat (map ambiguous_pair (combinations2 masks))))"

section \<open>Instruction groups and the file\<close>

record insn_group =
  ig_key :: string
  ig_title :: string
  ig_doc :: string
  ig_insns :: "yaml_insn list"

text \<open>\<^verbatim>\<open>except ValueError as err: raise RuntimeError\<close>\<close>

definition value_error_to_runtime :: "'a result \<Rightarrow> 'a result" where
  "value_error_to_runtime r = (case r of Inl ValueError \<Rightarrow> Inl RuntimeError | _ \<Rightarrow> r)"

definition InsnGroup_init :: "(string \<Rightarrow> yaml result) \<Rightarrow> enc_schemes option \<Rightarrow> yaml \<Rightarrow> insn_group result" where
  "InsnGroup_init load encoding_schemes yml =
     bindR (check_keys yml [''key'', ''title'', ''doc'', ''insns''] []) (\<lambda>yd.
     bindR (bindR (ydict_item yd ''key'') check_str) (\<lambda>key.
     bindR (bindR (ydict_item yd ''title'') check_str) (\<lambda>title.
     bindR (bindR (ydict_item yd ''doc'') check_str) (\<lambda>doc.
     bindR (bindR (ydict_item yd ''insns'') check_str) (\<lambda>insns_rel_path.
     bindR (load insns_rel_path) (\<lambda>insns_yaml.
     bindR (value_error_to_runtime
        (bindR (check_list insns_yaml) (mapR (\<lambda>i. Insn_init i encoding_schemes)))) (\<lambda>insns.
     Inr \<lparr>ig_key = key, ig_title = title, ig_doc = doc, ig_insns = insns\<rparr>)))))))"

definition InsnGroups_init ::
    "(string \<Rightarrow> yaml result) \<Rightarrow> enc_schemes option \<Rightarrow> yaml \<Rightarrow> (insn_group list \<times> (string \<times> insn_group) list) result" where
  "InsnGroups_init load encoding_schemes yml =
     bindR (check_list yml) (\<lambda>l.
     bindR (mapR (InsnGroup_init load encoding_schemes) l) (\<lambda>groups.
     if groups = [] then Inl ValueError
     else bindR (index_list groups ig_key) (\<lambda>key_to_group. Inr (groups, key_to_group))))"

record insns_file =
  if_encoding_schemes :: "enc_schemes option"
  if_groups :: "insn_group list"
  if_insns :: "yaml_insn list"
  if_mnemonic_to_insn :: "(string \<times> yaml_insn) list"

definition load_schemes :: "(string \<Rightarrow> yaml result) \<Rightarrow> string option \<Rightarrow> enc_schemes option result" where
  "load_schemes load enc_scheme_path =
     (case enc_scheme_path of
        None \<Rightarrow> Inr None
      | Some path \<Rightarrow>
          bindR (load path) (\<lambda>es_yaml.
          bindR (value_error_to_runtime (EncSchemes_init es_yaml)) (\<lambda>s. Inr (Some s))))"

definition InsnsFile_init :: "(string \<Rightarrow> yaml result) \<Rightarrow> yaml \<Rightarrow> insns_file result" where
  "InsnsFile_init load yml =
     bindR (check_keys yml [''insn-groups''] [''encoding-schemes'']) (\<lambda>yd.
     bindR (get_optional_str yd ''encoding-schemes'') (\<lambda>enc_scheme_path.
     bindR (load_schemes load enc_scheme_path) (\<lambda>schemes.
     bindR (ydict_item yd ''insn-groups'') (\<lambda>gy.
     bindR (InsnGroups_init load schemes gy) (\<lambda>(groups, _).
     let insns = concat (map ig_insns groups)
     in bindR (index_list insns (\<lambda>insn. py_lower (yi_mnemonic insn))) (\<lambda>mnemonic_to_insn.
        bindR (find_ambiguous_encodings insns) (\<lambda>ambiguous_encodings.
        if ambiguous_encodings \<noteq> [] then Inl ValueError
        else Inr \<lparr>if_encoding_schemes = schemes, if_groups = groups, if_insns = insns,
                  if_mnemonic_to_insn = mnemonic_to_insn\<rparr>)))))))"

definition grouped_insns :: "insns_file \<Rightarrow> (insn_group \<times> yaml_insn list) list" where
  "grouped_insns self = map (\<lambda>grp. (grp, ig_insns grp)) (if_groups self)"

definition load_file :: "(string \<Rightarrow> yaml result) \<Rightarrow> yaml result \<Rightarrow> insns_file result" where
  "load_file load main_yaml = value_error_to_runtime (bindR main_yaml (InsnsFile_init load))"

section \<open>Invariant of an instruction\<close>

definition operand_matches :: "encoding \<Rightarrow> string \<Rightarrow> operand \<Rightarrow> bool" where
  "operand_matches en a op \<longleftrightarrow> operand_type_ok (operand_op_type op) \<and>
     (\<exists>n f. (n, f) \<in> set (enc_fields en) \<and> ef_value f = OpName a \<and>
        op_width (operand_op_type op) = Some (br_width (esf_bits (ef_scheme_field f))))"

definition yaml_insn_ok :: "yaml_insn \<Rightarrow> bool" where
  "yaml_insn_ok insn \<longleftrightarrow>
     (\<forall>en. yi_encoding insn = Some en \<longrightarrow> encoding_ok en \<and>
        set (map fst (op_to_field_name en)) \<subseteq> set (map fst (yi_name_to_operand insn)) \<and>
        (\<forall>a op. map_of (yi_name_to_operand insn) a = Some op \<longrightarrow> operand_matches en a op))"

lemma op_names_field: "(a, n) \<in> set (op_names fs) \<Longrightarrow> \<exists>f. (n, f) \<in> set fs \<and> ef_value f = OpName a"
proof (induction fs rule: op_names.induct)
  case (2 m f fs)
  then show ?case by (cases "ef_value f") auto
qed simp

lemma encoding_field_name_unique:
  assumes "encoding_ok en" and "(n, f) \<in> set (enc_fields en)" "ef_value f = OpName a"
    and "(n', f') \<in> set (enc_fields en)" "ef_value f' = OpName a"
  shows "f' = f"
proof -
  have "(a, n) \<in> set (op_names (enc_fields en))" "(a, n') \<in> set (op_names (enc_fields en))"
    using op_names_mem assms(2-5) by blast+
  then have "n = n'" using assms(1) eq_key_imp_eq_value by (fastforce simp: encoding_ok_def)
  then show ?thesis using assms(1,2,4) eq_key_imp_eq_value by (fastforce simp: encoding_ok_def)
qed

lemma Operand_init_matches:
  assumes "Operand_init y (Some en) = Inr op" and "encoding_ok en"
  shows "operand_matches en (operand_name op) op"
proof -
  obtain name abbrev ty doc rel sf t where
    sf: "operand_scheme_field name (Some en) = Inr sf" and t: "make_operand_type ty rel name sf = Inr t"
    and op: "operand_name op = name" "operand_op_type op = t"
    using assms(1) by (auto simp: Operand_init_def bindR_Inr_iff split: if_splits)
  obtain n f where n: "map_of (op_to_field_name en) name = Some n" "map_of (enc_fields en) n = Some f"
    "sf = Some (ef_scheme_field f)"
    using sf by (auto simp: operand_scheme_field_def split: option.splits)
  obtain g where g: "(n, g) \<in> set (enc_fields en)" "ef_value g = OpName name"
    using op_names_field map_of_SomeD [OF n(1)] assms(2) by (metis encoding_ok_def)
  have "g = f" using g(1) n(2) assms(2) by (simp add: encoding_ok_def)
  then show ?thesis
    using make_operand_type_ok [OF t] g n(3) op by (auto simp: operand_matches_def)
qed

lemma Insn_init_ok:
  assumes "Insn_init yml schemes = Inr insn" and "\<And>s. schemes = Some s \<Longrightarrow> \<exists>y. EncSchemes_init y = Inr s"
  shows "yaml_insn_ok insn"
proof -
  obtain yd en operands nto where e: "insn_encoding_of yd schemes = Inr en"
    and ops: "insn_operands_of yd en = Inr (operands, nto)" and i: "yi_encoding insn = en" "yi_name_to_operand insn = nto"
    using assms(1) by (auto simp: Insn_init_def bindR_Inr_iff split: if_split_asm)
  have ok: "encoding_ok e'" if "en = Some e'" for e'
    using e that Encoding_init_ok assms(2)
    by (auto simp: insn_encoding_of_def bindR_Inr_iff split: yaml.split_asm option.split_asm)
  obtain l where l: "mapR (\<lambda>y. Operand_init y en) l = Inr operands" "index_list operands operand_name = Inr nto"
    and sub: "missing_ops en nto = []"
    using ops by (auto simp: insn_operands_of_def bindR_Inr_iff split: if_split_asm)
  have "operand_matches e' a op" if "en = Some e'" "map_of nto a = Some op" for e' a op
  proof -
    have "nto = map (\<lambda>op. (operand_name op, op)) operands" using l(2) by (simp add: index_list_Inr_iff)
    with map_of_SomeD [OF that(2)] have "op \<in> set operands" "a = operand_name op" by auto
    then obtain y where "Operand_init y en = Inr op" using l(1) by (auto simp: mapR_Inr_iff in_set_conv_nth)
    then show ?thesis using Operand_init_matches ok that \<open>a = operand_name op\<close> by blast
  qed
  moreover have "set (map fst (op_to_field_name e')) \<subseteq> set (map fst nto)" if "en = Some e'" for e'
    using sub that by (auto simp: missing_ops_def filter_empty_conv map_of_eq_None_iff)
  ultimately show ?thesis using ok i by (simp add: yaml_insn_ok_def)
qed

section \<open>Decoding operands\<close>

lemma enc_vals_total:
  assumes "\<forall>(a, e) \<in> set vals. \<exists>op w. map_of (yi_name_to_operand insn) a = Some op \<and>
      operand_type_ok (operand_op_type op) \<and> op_width (operand_op_type op) = Some w \<and> fits (nat w) e"
  shows "returns (enc_vals_to_op_vals insn cur_pc vals) (\<lambda>op_vals. map fst op_vals = map fst vals \<and>
    (\<forall>k < length vals. \<exists>op. map_of (yi_name_to_operand insn) (fst (vals ! k)) = Some op \<and>
       op_val_to_enc_val (operand_op_type op) (snd (op_vals ! k)) (Some cur_pc) = Inr (Some (snd (vals ! k)))))"
  using assms
proof (induction vals)
  case (Cons ae vals)
  obtain a e where ae: "ae = (a, e)" by force
  obtain op w where op: "map_of (yi_name_to_operand insn) a = Some op" "operand_type_ok (operand_op_type op)"
    "op_width (operand_op_type op) = Some w" "fits (nat w) e"
    using Cons.prems ae by auto
  obtain x where x: "enc_val_to_op_val (operand_op_type op) e cur_pc = Inr (Some x)"
    "op_val_to_enc_val (operand_op_type op) x (Some cur_pc) = Inr (Some e)"
    using op_type_round_trip(1) [OF op(2,3,4)] by blast
  obtain r where r: "enc_vals_to_op_vals insn cur_pc vals = Inr r" "map fst r = map fst vals"
    and rk: "\<forall>k < length vals. \<exists>op. map_of (yi_name_to_operand insn) (fst (vals ! k)) = Some op \<and>
       op_val_to_enc_val (operand_op_type op) (snd (r ! k)) (Some cur_pc) = Inr (Some (snd (vals ! k)))"
    using Cons.IH Cons.prems by (auto elim!: returnsE)
  show ?case using ae op(1) x r rk by (auto simp: nth_Cons split: nat.splits)
qed simp

lemma extract_vals_ok:
  assumes "yaml_insn_ok insn" and "yi_encoding insn = Some en"
  shows "\<forall>(a, e) \<in> set (extract_operands en word). \<exists>op w. map_of (yi_name_to_operand insn) a = Some op \<and>
      operand_type_ok (operand_op_type op) \<and> op_width (operand_op_type op) = Some w \<and> fits (nat w) e"
proof -
  have ok: "encoding_ok en" and sub: "set (map fst (op_to_field_name en)) \<subseteq> set (map fst (yi_name_to_operand insn))"
    and m: "\<And>a op. map_of (yi_name_to_operand insn) a = Some op \<Longrightarrow> operand_matches en a op"
    using assms by (auto simp: yaml_insn_ok_def)
  have ex: "\<exists>n f. (n, f) \<in> set fs \<and> ef_value f = OpName a \<and> e = BitRanges_decode word (esf_bits (ef_scheme_field f))"
    if "(a, e) \<in> set (extract_loop word fs)" for a e fs
    using that
  proof (induction fs rule: op_names.induct)
    case (2 n f fs)
    then show ?case by (cases "ef_value f") auto
  qed simp
  show ?thesis
  proof (clarify)
    fix a e assume "(a, e) \<in> set (extract_operands en word)"
    then obtain n f where f: "(n, f) \<in> set (enc_fields en)" "ef_value f = OpName a"
      "e = BitRanges_decode word (esf_bits (ef_scheme_field f))"
      using ex unfolding extract_operands_def by blast
    have "(a, n) \<in> set (op_to_field_name en)" using op_names_mem [OF f(1,2)] ok by (simp add: encoding_ok_def)
    then have "a \<in> set (map fst (yi_name_to_operand insn))" using sub by force
    then obtain op where op: "map_of (yi_name_to_operand insn) a = Some op" by (metis map_of_eq_None_iff not_None_eq set_map)
    obtain n' f' where f': "(n', f') \<in> set (enc_fields en)" "ef_value f' = OpName a"
      "op_width (operand_op_type op) = Some (br_width (esf_bits (ef_scheme_field f')))" "operand_type_ok (operand_op_type op)"
      using m [OF op] by (auto simp: operand_matches_def)
    have ff: "f' = f" using encoding_field_name_unique [OF ok f(1,2) f'(1,2)] .
    note fs = ef_ok_simps [OF encoding_ok_field(1) [OF ok f(1)]]
    have "fits (nat (br_width (esf_bits (ef_scheme_field f)))) e"
      using dec_fits [OF fs(1)] fs(4) by (simp add: f(3) BitRanges_decode_eq [OF fs(5)] flip: ef_ranges_def)
    then show "\<exists>op w. map_of (yi_name_to_operand insn) a = Some op \<and>
      operand_type_ok (operand_op_type op) \<and> op_width (operand_op_type op) = Some w \<and> fits (nat w) e"
      using op f'(3,4) ff by blast
  qed
qed

section \<open>Ambiguity\<close>

definition the_masks :: "encoding \<Rightarrow> int \<times> int" where
  "the_masks en = (or_over ef_zeros (enc_fields en), or_over ef_ones (enc_fields en))"

fun mask_table :: "yaml_insn list \<Rightarrow> (string \<times> int \<times> int) list" where
  "mask_table [] = []"
| "mask_table (i # is) =
     (case yi_encoding i of None \<Rightarrow> mask_table is | Some en \<Rightarrow> (yi_mnemonic i, the_masks en) # mask_table is)"

lemma dict_set_fresh: "k \<notin> fst ` set d \<Longrightarrow> dict_set d k v = d @ [(k, v)]"
  by (induction d k v rule: dict_set.induct) auto

lemma collect_masks_eq:
  "\<forall>i \<in> set insns. yaml_insn_ok i \<Longrightarrow> distinct (map fst masks @ map yi_mnemonic insns) \<Longrightarrow>
   collect_masks masks insns = Inr (masks @ mask_table insns)"
proof (induction masks insns rule: collect_masks.induct)
  case (2 masks i insns)
  show ?case
  proof (cases "yi_encoding i")
    case None
    then show ?thesis using 2 by simp
  next
    case (Some en)
    then have "get_masks en = Inr (the_masks en)"
      using "2.prems"(1) get_masks_eq by (simp add: yaml_insn_ok_def the_masks_def)
    moreover have "dict_set masks (yi_mnemonic i) (the_masks en) = masks @ [(yi_mnemonic i, the_masks en)]"
      using "2.prems"(2) by (intro dict_set_fresh) simp
    ultimately show ?thesis using "2.IH"(2) [OF Some] "2.prems" Some by simp
  qed
qed simp

lemma ambiguous_masks:
  assumes ok: "encoding_ok e0" "encoding_ok e1" and m: "the_masks e0 = (m00, m01)" "the_masks e1 = (m10, m11)"
  shows "(m00 AND m10) OR (m01 AND m11) = low_mask 32 \<longleftrightarrow> (\<exists>w. encodes e0 w \<and> encodes e1 w)"
    and "(m00 AND m10) OR (m01 AND m11) = low_mask 32 \<Longrightarrow>
      encodes e0 ((m01 AND m11) AND NOT (m00 AND m10)) \<and> encodes e1 ((m01 AND m11) AND NOT (m00 AND m10))"
proof -
  let ?w = "(m01 AND m11) AND NOT (m00 AND m10)"
  have g: "get_masks e0 = Inr (m00, m01)" "get_masks e1 = Inr (m10, m11)"
    using get_masks_eq ok m by (auto simp: the_masks_def)
  note eb = encodes_bits [OF ok(1) g(1)] encodes_bits [OF ok(2) g(2)]
  have lt: "bit m01 k \<Longrightarrow> k < 32" "bit m00 k \<Longrightarrow> k < 32" for k
    using get_masks_cover [OF g(1)] bit_low_mask [of 32 k] by (metis bit_or_iff)+
  have "fits 32 ?w"
  proof -
    have "take_bit 32 ?w = ?w"
      by (rule bit_eqI) (use lt in \<open>auto simp: bit_take_bit_iff bit_and_iff simp del: take_bit_and\<close>)
    then show ?thesis by (metis fits_take_bit)
  qed
  moreover have iff: "(m00 AND m10) OR (m01 AND m11) = low_mask 32 \<longleftrightarrow>
      (\<forall>k < 32. (bit m00 k \<and> bit m10 k) \<or> (bit m01 k \<and> bit m11 k))" (is "?a \<longleftrightarrow> ?b")
    using lt by (auto simp: bit_eq_iff bit_or_iff bit_and_iff)
  ultimately have wit: "?a \<Longrightarrow> encodes e0 ?w \<and> encodes e1 ?w"
    unfolding eb by (auto simp: bit_and_iff bit_or_iff bit_not_iff)
  then show "?a \<Longrightarrow> encodes e0 ?w \<and> encodes e1 ?w" .
  show "?a \<longleftrightarrow> (\<exists>w. encodes e0 w \<and> encodes e1 w)"
    using wit iff unfolding eb by blast
qed

lemma combinations2_sound: "(x, y) \<in> set (combinations2 l) \<Longrightarrow> x \<in> set l \<and> y \<in> set l \<and> (distinct l \<longrightarrow> x \<noteq> y)"
  by (induction l) auto

lemma combinations2_complete:
  "x \<in> set l \<Longrightarrow> y \<in> set l \<Longrightarrow> x \<noteq> y \<Longrightarrow> (x, y) \<in> set (combinations2 l) \<or> (y, x) \<in> set (combinations2 l)"
  by (induction l) auto

lemma mask_table_mem:
  "(n, m) \<in> set (mask_table insns) \<longleftrightarrow>
   (\<exists>i en. i \<in> set insns \<and> yi_mnemonic i = n \<and> yi_encoding i = Some en \<and> m = the_masks en)"
proof (induction insns)
  case (Cons i insns)
  then show ?case by (cases "yi_encoding i") auto
qed simp

lemma mask_table_distinct: "distinct (map yi_mnemonic insns) \<Longrightarrow> distinct (map fst (mask_table insns))"
proof (induction insns)
  case (Cons i insns)
  have "yi_mnemonic i \<notin> fst ` set (mask_table insns)"
    using Cons.prems mask_table_mem [of "yi_mnemonic i" _ insns] by (fastforce simp: image_iff)
  then show ?case using Cons by (cases "yi_encoding i") simp_all
qed simp

text \<open>The pairs that are reported are pairs of different instructions with a common word.\<close>

lemma find_ambiguous_sound:
  assumes ok: "\<forall>i \<in> set insns. yaml_insn_ok i" and d: "distinct (map yi_mnemonic insns)"
    and "find_ambiguous_encodings insns = Inr r" and "(n0, n1, w) \<in> set r"
  shows "\<exists>i j e0 e1. i \<in> set insns \<and> j \<in> set insns \<and> yi_mnemonic i = n0 \<and> yi_mnemonic j = n1 \<and> n0 \<noteq> n1 \<and>
    yi_encoding i = Some e0 \<and> yi_encoding j = Some e1 \<and> encodes e0 w \<and> encodes e1 w"
proof -
  have r: "r = concat (map ambiguous_pair (combinations2 (mask_table insns)))"
    using assms(3) collect_masks_eq [OF ok, of "[]"] d by (simp add: find_ambiguous_encodings_def)
  then obtain x y where xy: "(x, y) \<in> set (combinations2 (mask_table insns))" "(n0, n1, w) \<in> set (ambiguous_pair (x, y))"
    using assms(4) by auto
  obtain a m00 m01 b m10 m11 where p: "x = (a, m00, m01)" "y = (b, m10, m11)" by (metis prod.exhaust)
  have n: "n0 = a" "n1 = b" "w = (m01 AND m11) AND NOT (m00 AND m10)"
    "(m00 AND m10) OR (m01 AND m11) = low_mask 32"
    using xy(2) by (auto simp: ambiguous_pair_def p Let_def split: if_split_asm)
  have mem: "x \<in> set (mask_table insns)" "y \<in> set (mask_table insns)" "x \<noteq> y"
    using combinations2_sound [OF xy(1)] mask_table_distinct [OF d] by (simp_all add: distinct_map)
  then obtain i j e0 e1 where i: "i \<in> set insns" "yi_mnemonic i = a" "yi_encoding i = Some e0" "(m00, m01) = the_masks e0"
    and j: "j \<in> set insns" "yi_mnemonic j = b" "yi_encoding j = Some e1" "(m10, m11) = the_masks e1"
    using mask_table_mem unfolding p by metis
  have eok: "encoding_ok e0" "encoding_ok e1" using ok i j by (auto simp: yaml_insn_ok_def)
  have "a \<noteq> b" using mem mask_table_distinct [OF d] eq_key_imp_eq_value unfolding p by metis
  then show ?thesis
    using ambiguous_masks(2) [OF eok i(4) [symmetric] j(4) [symmetric] n(4)] i j n by blast
qed

lemma find_ambiguous_complete:
  assumes ok: "\<forall>i \<in> set insns. yaml_insn_ok i" and d: "distinct (map yi_mnemonic insns)"
    and i: "i \<in> set insns" "yi_encoding i = Some e0" and j: "j \<in> set insns" "yi_encoding j = Some e1"
    and ne: "yi_mnemonic i \<noteq> yi_mnemonic j" and w: "encodes e0 w" "encodes e1 w"
  shows "returns (find_ambiguous_encodings insns) (\<lambda>r. r \<noteq> [])"
proof -
  have r: "find_ambiguous_encodings insns = Inr (concat (map ambiguous_pair (combinations2 (mask_table insns))))"
    using collect_masks_eq [OF ok, of "[]"] d by (simp add: find_ambiguous_encodings_def)
  obtain m00 m01 m10 m11 where m: "the_masks e0 = (m00, m01)" "the_masks e1 = (m10, m11)" by fastforce
  have eok: "encoding_ok e0" "encoding_ok e1" using ok i j by (auto simp: yaml_insn_ok_def)
  have amb: "(m00 AND m10) OR (m01 AND m11) = low_mask 32" using ambiguous_masks(1) [OF eok m] w by blast
  let ?x = "(yi_mnemonic i, m00, m01)" and ?y = "(yi_mnemonic j, m10, m11)"
  have x: "?x \<in> set (mask_table insns)" unfolding mask_table_mem using i m(1) by auto
  have y: "?y \<in> set (mask_table insns)" unfolding mask_table_mem using j m(2) by auto
  have "?x \<noteq> ?y" using ne by simp
  from combinations2_complete [OF x y this] obtain p where
    p: "p \<in> set (combinations2 (mask_table insns))" "p = (?x, ?y) \<or> p = (?y, ?x)" by blast
  have "(m10 AND m00) OR (m11 AND m01) = low_mask 32" using amb by (simp only: and.commute)
  then have "ambiguous_pair p \<noteq> []"
    using amb p(2) by (elim disjE) (simp_all add: ambiguous_pair_def Let_def)
  then show ?thesis using p(1) r by auto
qed

lemma value_error_to_runtime_Inr: "value_error_to_runtime r = Inr x \<longleftrightarrow> r = Inr x"
proof (cases r)
  case (Inl e)
  then show ?thesis by (cases e) (simp_all add: value_error_to_runtime_def)
qed (simp add: value_error_to_runtime_def)

lemma InsnsFile_init_ok:
  assumes "InsnsFile_init load yml = Inr file"
  shows "\<forall>i \<in> set (if_insns file). yaml_insn_ok i" and "distinct (map yi_mnemonic (if_insns file))"
    and "find_ambiguous_encodings (if_insns file) = Inr []"
proof -
  obtain path schemes gy groups ks m where
    sch: "load_schemes load path = Inr schemes"
    and g: "InsnGroups_init load schemes gy = Inr (groups, ks)"
    and ix: "index_list (concat (map ig_insns groups)) (\<lambda>insn. py_lower (yi_mnemonic insn)) = Inr m"
    and amb: "find_ambiguous_encodings (concat (map ig_insns groups)) = Inr []"
    and fl: "if_insns file = concat (map ig_insns groups)"
    using assms unfolding InsnsFile_init_def by (auto simp: bindR_Inr_iff Let_def split: if_split_asm)
  have "\<exists>y. EncSchemes_init y = Inr s" if "schemes = Some s" for s
    using sch that by (cases path) (auto simp: load_schemes_def bindR_Inr_iff value_error_to_runtime_Inr)
  note iok = Insn_init_ok [OF _ this]
  have "yaml_insn_ok i" if gr: "grp \<in> set groups" "i \<in> set (ig_insns grp)" for grp i
  proof -
    obtain l where "mapR (InsnGroup_init load schemes) l = Inr groups"
      using g by (auto simp: InsnGroups_init_def bindR_Inr_iff split: if_split_asm)
    then obtain y where "InsnGroup_init load schemes y = Inr grp"
      using gr(1) by (auto simp: mapR_Inr_iff in_set_conv_nth)
    then obtain iy where "value_error_to_runtime (bindR (check_list iy) (mapR (\<lambda>i. Insn_init i schemes))) = Inr (ig_insns grp)"
      by (auto simp: InsnGroup_init_def bindR_Inr_iff)
    then obtain il where "mapR (\<lambda>i. Insn_init i schemes) il = Inr (ig_insns grp)"
      by (auto simp: value_error_to_runtime_Inr bindR_Inr_iff)
    then obtain iy where "Insn_init iy schemes = Inr i" using gr(2) by (auto simp: mapR_Inr_iff in_set_conv_nth)
    then show ?thesis using iok by blast
  qed
  then show "\<forall>i \<in> set (if_insns file). yaml_insn_ok i" by (auto simp: fl)
  have "distinct (map (\<lambda>insn. py_lower (yi_mnemonic insn)) (if_insns file))"
    using ix by (simp add: fl index_list_Inr_iff)
  then show "distinct (map yi_mnemonic (if_insns file))" by (auto simp: distinct_map inj_on_def)
  show "find_ambiguous_encodings (if_insns file) = Inr []" using amb by (simp add: fl)
qed

lemma file_words_unambiguous:
  assumes "InsnsFile_init load yml = Inr file" and "i \<in> set (if_insns file)" "yi_encoding i = Some e0"
    and "j \<in> set (if_insns file)" "yi_encoding j = Some e1" and "encodes e0 w" "encodes e1 w"
  shows "i = j"
proof (rule ccontr)
  assume "i \<noteq> j"
  note f = InsnsFile_init_ok [OF assms(1)]
  have "yi_mnemonic i \<noteq> yi_mnemonic j"
    using f(2) assms(2,4) \<open>i \<noteq> j\<close> by (auto simp: distinct_map inj_on_def)
  from find_ambiguous_complete [OF f(1,2) assms(2,3,4,5) this assms(6,7)] show False
    using f(3) by simp
qed

text \<open>
  C23: no ambiguous encodings.  When the instruction file is accepted, whatever the files it refers to
  contain, no 32-bit word is a word of the encodings of two different instructions.
\<close>

theorem insn_words_unambiguous:
  assumes "InsnsFile_init load yml = Inr file" and "i \<in> set (if_insns file)" "yi_encoding i = Some e0"
    and "j \<in> set (if_insns file)" "yi_encoding j = Some e1" and "encodes e0 w" "encodes e1 w"
  shows "i = j"
  by (rule file_words_unambiguous [OF assms])

text \<open>
  The ambiguities that are reported.  For instructions that the constructor accepts, with distinct
  mnemonics, the search returns, every pair it reports names two different instructions whose
  encodings both contain the reported word, and it reports a pair whenever two different instructions
  share a word.
\<close>

theorem ambiguity_exact:
  assumes "EncSchemes_init y = Inr schemes" and "mapR (\<lambda>yml. Insn_init yml (Some schemes)) ymls = Inr insns"
    and "distinct (map yi_mnemonic insns)"
  shows "returns (find_ambiguous_encodings insns) (\<lambda>r.
    (\<forall>(n0, n1, w) \<in> set r. \<exists>i j e0 e1. i \<in> set insns \<and> j \<in> set insns \<and> yi_mnemonic i = n0 \<and> yi_mnemonic j = n1 \<and>
       n0 \<noteq> n1 \<and> yi_encoding i = Some e0 \<and> yi_encoding j = Some e1 \<and> encodes e0 w \<and> encodes e1 w) \<and>
    ((\<exists>i j e0 e1 w. i \<in> set insns \<and> j \<in> set insns \<and> yi_mnemonic i \<noteq> yi_mnemonic j \<and>
       yi_encoding i = Some e0 \<and> yi_encoding j = Some e1 \<and> encodes e0 w \<and> encodes e1 w) \<longrightarrow> r \<noteq> []))"
proof -
  have ok: "\<forall>i \<in> set insns. yaml_insn_ok i"
    using assms(1,2) Insn_init_ok by (fastforce simp: mapR_Inr_iff in_set_conv_nth)
  obtain r where r: "find_ambiguous_encodings insns = Inr r"
    using collect_masks_eq [OF ok, of "[]"] assms(3) by (simp add: find_ambiguous_encodings_def)
  have "r \<noteq> []" if "i \<in> set insns" "j \<in> set insns" "yi_mnemonic i \<noteq> yi_mnemonic j"
    "yi_encoding i = Some e0" "yi_encoding j = Some e1" "encodes e0 w" "encodes e1 w" for i j e0 e1 w
    using find_ambiguous_complete [OF ok assms(3) that(1,4,2,5,3,6,7)] r by simp
  moreover have "\<forall>(n0, n1, w) \<in> set r. \<exists>i j e0 e1. i \<in> set insns \<and> j \<in> set insns \<and> yi_mnemonic i = n0 \<and>
      yi_mnemonic j = n1 \<and> n0 \<noteq> n1 \<and> yi_encoding i = Some e0 \<and> yi_encoding j = Some e1 \<and> encodes e0 w \<and> encodes e1 w"
    using find_ambiguous_sound [OF ok assms(3) r] by fast
  ultimately show ?thesis using r by auto
qed

text \<open>
  C25: decoding operands.  For every instruction of an accepted file that has an encoding, every word and
  every PC, the operand values of the word are computed without an exception (the assertion that each
  operand has a value holds); they belong to the operands of the encoding in order, and each encodes
  back to the bits of its field.
\<close>

theorem decode_operands_total:
  assumes "InsnsFile_init load yml = Inr file" and "insn \<in> set (if_insns file)" and "yi_encoding insn = Some en"
  shows "returns (enc_vals_to_op_vals insn cur_pc (extract_operands en word)) (\<lambda>op_vals.
    map fst op_vals = map fst (op_to_field_name en) \<and>
    (\<forall>k < length op_vals. \<exists>op. map_of (yi_name_to_operand insn) (fst (op_vals ! k)) = Some op \<and>
       op_val_to_enc_val (operand_op_type op) (snd (op_vals ! k)) (Some cur_pc) =
         Inr (Some (snd (extract_operands en word ! k)))))"
proof -
  have ok: "yaml_insn_ok insn" using InsnsFile_init_ok(1) [OF assms(1)] assms(2) by blast
  have names: "map fst (extract_loop word fs) = map fst (op_names fs)" for fs
  proof (induction fs rule: op_names.induct)
    case (2 n f fs)
    then show ?case by (cases "ef_value f") simp_all
  qed simp
  have en: "op_to_field_name en = op_names (enc_fields en)"
    using ok assms(3) by (simp add: yaml_insn_ok_def encoding_ok_def)
  obtain op_vals where ov: "enc_vals_to_op_vals insn cur_pc (extract_operands en word) = Inr op_vals"
    "map fst op_vals = map fst (extract_operands en word)"
    and k: "\<forall>k < length (extract_operands en word). \<exists>op.
      map_of (yi_name_to_operand insn) (fst (extract_operands en word ! k)) = Some op \<and>
      op_val_to_enc_val (operand_op_type op) (snd (op_vals ! k)) (Some cur_pc) =
        Inr (Some (snd (extract_operands en word ! k)))"
    using enc_vals_total [OF extract_vals_ok [OF ok assms(3), of word], of cur_pc] by (auto simp: returns_iff)
  have l: "length op_vals = length (extract_operands en word)" using ov(2) by (metis length_map)
  have "fst (op_vals ! k) = fst (extract_operands en word ! k)" if "k < length op_vals" for k
    using ov(2) that l by (metis nth_map)
  then show ?thesis using ov k l names en by (simp add: extract_operands_def)
qed

section \<open>A small instruction file\<close>

text \<open>SW as in \<^verbatim>\<open>data/base-insns.yml\<close>, and a second store with another function code.\<close>

definition store_yaml :: "string \<Rightarrow> string \<Rightarrow> yaml" where
  "store_yaml mnemonic funct3 = YDict
    [(YStr ''mnemonic'', YStr mnemonic),
     (YStr ''operands'', YList
       [YStr ''grs2'', YDict [(YStr ''name'', YStr ''offset''), (YStr ''type'', YStr ''simm'')], YStr ''grs1'']),
     (YStr ''syntax'', YStr ''<grs2>, <offset>(<grs1>)''),
     (YStr ''encoding'', YDict
       [(YStr ''scheme'', YStr ''S''),
        (YStr ''mapping'', YDict
          [(YStr ''funct3'', YStr funct3), (YStr ''imm'', YStr ''offset''), (YStr ''rs2'', YStr ''grs2''),
           (YStr ''rs1'', YStr ''grs1'')])])]"

definition demo_load :: "string \<Rightarrow> yaml result" where
  "demo_load path =
     (if path = ''enc-schemes.yml'' then Inr demo_schemes
      else if path = ''insns.yml'' then Inr (YList [store_yaml ''sw'' ''b010'', store_yaml ''sh'' ''b001''])
      else Inl RuntimeError)"

definition demo_file_yaml :: yaml where
  "demo_file_yaml = YDict
    [(YStr ''encoding-schemes'', YStr ''enc-schemes.yml''),
     (YStr ''insn-groups'', YList
       [YDict [(YStr ''key'', YStr ''base''), (YStr ''title'', YStr ''Base''), (YStr ''doc'', YStr ''Stores.''),
               (YStr ''insns'', YStr ''insns.yml'')]])]"

definition demo_file :: insns_file where
  "demo_file = (case InsnsFile_init demo_load demo_file_yaml of
     Inr f \<Rightarrow> f
   | Inl _ \<Rightarrow> \<lparr>if_encoding_schemes = None, if_groups = [], if_insns = [], if_mnemonic_to_insn = []\<rparr>)"

lemma demo_file_accepted: "InsnsFile_init demo_load demo_file_yaml = Inr demo_file"
proof -
  have "(case InsnsFile_init demo_load demo_file_yaml of Inr _ \<Rightarrow> True | Inl _ \<Rightarrow> False)" by code_simp
  then show ?thesis by (auto simp: demo_file_def split: sum.splits)
qed

definition insn_encodes :: "int \<Rightarrow> yaml_insn \<Rightarrow> bool" where
  "insn_encodes w i = (case yi_encoding i of Some en \<Rightarrow> encodes en w | None \<Rightarrow> False)"

lemma demo_file_sw: "list_ex (insn_encodes 0x06312223) (if_insns demo_file)"
  by code_simp

theorem insn_words_unambiguous_witness:
  "\<exists>!i. i \<in> set (if_insns demo_file) \<and> insn_encodes 0x06312223 i"
proof -
  have "\<exists>i. i \<in> set (if_insns demo_file) \<and> insn_encodes 0x06312223 i"
    using demo_file_sw by (auto simp: list_ex_iff)
  moreover have "i = j" if "i \<in> set (if_insns demo_file)" "insn_encodes 0x06312223 i"
    "j \<in> set (if_insns demo_file)" "insn_encodes 0x06312223 j" for i j
    using insn_words_unambiguous [OF demo_file_accepted that(1) _ that(3)] that(2,4)
    by (auto simp: insn_encodes_def split: option.splits)
  ultimately show ?thesis by blast
qed

theorem decode_operands_total_witness:
  "\<exists>i en. insn_encodes 0x06312223 i \<and> yi_encoding i = Some en \<and>
     returns (enc_vals_to_op_vals i 0 (extract_operands en 0x06312223)) (\<lambda>op_vals.
       map fst op_vals = map fst (op_to_field_name en))"
proof -
  obtain i en where i: "i \<in> set (if_insns demo_file)" "insn_encodes 0x06312223 i" "yi_encoding i = Some en"
    using demo_file_sw by (auto simp: list_ex_iff insn_encodes_def split: option.splits)
  have "returns (enc_vals_to_op_vals i 0 (extract_operands en 0x06312223)) (\<lambda>op_vals.
       map fst op_vals = map fst (op_to_field_name en))"
    using decode_operands_total [OF demo_file_accepted i(1,3)] by (rule returns_mono) simp
  then show ?thesis using i by blast
qed

text \<open>Two instructions that share words: the second leaves a bit of the function code open.\<close>

definition clash_insns :: "yaml_insn list result" where
  "clash_insns = bindR (EncSchemes_init demo_schemes) (\<lambda>schemes.
     mapR (\<lambda>yml. Insn_init yml (Some schemes)) [store_yaml ''sw'' ''b010'', store_yaml ''sx'' ''b01x''])"

theorem ambiguity_exact_witness:
  "returns clash_insns (\<lambda>insns. returns (find_ambiguous_encodings insns) (\<lambda>r.
     r \<noteq> [] \<and> list_all (\<lambda>(n0, n1, w). n0 \<noteq> n1) r))"
proof -
  let ?w = "0x06312223"
  have e: "returns clash_insns (\<lambda>insns. distinct (map yi_mnemonic insns) \<and> length insns = 2 \<and> list_all (insn_encodes ?w) insns)"
    by code_simp
  then obtain insns where c: "clash_insns = Inr insns" and d: "distinct (map yi_mnemonic insns)"
    and l: "length insns = 2" "list_all (insn_encodes ?w) insns"
    by (auto elim!: returnsE)
  obtain schemes where sc: "EncSchemes_init demo_schemes = Inr schemes"
    "mapR (\<lambda>yml. Insn_init yml (Some schemes)) [store_yaml ''sw'' ''b010'', store_yaml ''sx'' ''b01x''] = Inr insns"
    using c unfolding clash_insns_def bindR_Inr_iff by blast
  obtain i j where ij: "insns = [i, j]" using l(1) by (auto simp: length_Suc_conv numeral_2_eq_2)
  then obtain e0 e1 where w: "yi_encoding i = Some e0" "yi_encoding j = Some e1" "encodes e0 ?w" "encodes e1 ?w"
    using l(2) by (auto simp: insn_encodes_def split: option.splits)
  have "\<exists>i j e0 e1 w. i \<in> set insns \<and> j \<in> set insns \<and> yi_mnemonic i \<noteq> yi_mnemonic j \<and>
       yi_encoding i = Some e0 \<and> yi_encoding j = Some e1 \<and> encodes e0 w \<and> encodes e1 w"
    using ij w d by (metis distinct_length_2_or_more list.set_intros list.simps(9))
  then show ?thesis
    using ambiguity_exact [OF sc d] unfolding c returns_simps list_all_iff
    by (elim returns_mono) fast
qed

end
