(* ===== verification/Decode.thy ===== *)
theory Decode
  imports Sim_Run Insn_Yaml
begin

text \<open>
  The instruction decoder: \<^verbatim>\<open>sim/decode.py\<close>, and the lookup of instruction classes in the instruction
  file (\<^verbatim>\<open>insn_for_mnemonic\<close> of \<^verbatim>\<open>sim/isa.py\<close>).

  The instruction file is an argument; a class of \<^verbatim>\<open>INSN_CLASSES\<close> is a pair of its instruction and its
  constructor.  \<open>None\<close> is the exit of the process when the file lacks an instruction.
\<close>

section \<open>Operations\<close>

definition insn_for_mnemonic :: "insns_file \<Rightarrow> string \<Rightarrow> nat \<Rightarrow> yaml_insn option" where
  "insn_for_mnemonic insns mnemonic num_operands =
     (case map_of (if_mnemonic_to_insn insns) mnemonic of
        None \<Rightarrow> None
      | Some insn \<Rightarrow> if length (yi_operands insn) \<noteq> num_operands then None else Some insn)"

text \<open>The number of operands that each class of \<^verbatim>\<open>sim/insn.py\<close> expects.\<close>

definition NUM_OPERANDS :: "(string \<times> nat) list" where
  "NUM_OPERANDS =
     [(''add'', 3), (''addi'', 3), (''lui'', 2), (''sub'', 3),
      (''sll'', 3), (''slli'', 3), (''srl'', 3), (''srli'', 3),
      (''sra'', 3), (''srai'', 3), (''and'', 3), (''andi'', 3),
      (''or'', 3), (''ori'', 3), (''xor'', 3), (''xori'', 3),
      (''lw'', 3), (''sw'', 3), (''beq'', 3), (''bne'', 3),
      (''jal'', 2), (''jalr'', 3), (''csrrs'', 3), (''csrrw'', 3),
      (''ecall'', 0), (''loop'', 2), (''loopi'', 2), (''bn.add'', 6),
      (''bn.addc'', 6), (''bn.addi'', 4), (''bn.addm'', 3), (''bn.mulqacc'', 6),
      (''bn.mulqacc.wo'', 8), (''bn.mulqacc.so'', 9), (''bn.sub'', 6), (''bn.subb'', 6),
      (''bn.subi'', 4), (''bn.subm'', 3), (''bn.and'', 6), (''bn.or'', 6),
      (''bn.not'', 5), (''bn.xor'', 6), (''bn.rshi'', 4), (''bn.sel'', 5),
      (''bn.cmp'', 5), (''bn.cmpb'', 5), (''bn.lid'', 5), (''bn.sid'', 5),
      (''bn.mov'', 2), (''bn.movr'', 4), (''bn.wsrr'', 2), (''bn.wsrw'', 2)]"

type_synonym insn_class = "yaml_insn \<times> (op_vals \<Rightarrow> otbn_insn result)"

fun load_classes :: "insns_file \<Rightarrow> (string \<times> (op_vals \<Rightarrow> otbn_insn result)) list \<Rightarrow> insn_class list option" where
  "load_classes insns [] = Some []"
| "load_classes insns ((mnemonic, init) # cs) =
     (case map_of NUM_OPERANDS mnemonic of
        None \<Rightarrow> None
      | Some n \<Rightarrow>
          (case insn_for_mnemonic insns mnemonic n of
             None \<Rightarrow> None
           | Some insn \<Rightarrow> map_option (\<lambda>r. (insn, init) # r) (load_classes insns cs)))"

definition insn_classes :: "insns_file \<Rightarrow> insn_class list option" where
  "insn_classes insns = load_classes insns INSN_CLASSES"

fun get_insn_masks :: "insn_class list \<Rightarrow> (int \<times> int \<times> insn_class) list result" where
  "get_insn_masks [] = Inr []"
| "get_insn_masks (cls # classes) =
     (case yi_encoding (fst cls) of
        None \<Rightarrow> get_insn_masks classes
      | Some en \<Rightarrow>
          bindR (get_masks en) (\<lambda>(m0, m1).
          bindR (get_insn_masks classes) (\<lambda>tuples. Inr ((m0 AND NOT m1, m1 AND NOT m0, cls) # tuples))))"

fun find_cls :: "int \<Rightarrow> (int \<times> int \<times> insn_class) list \<Rightarrow> insn_class option" where
  "find_cls word [] = None"
| "find_cls word ((m0, m1, cls) # tuples) =
     (if py_bool (word AND m0) \<or> py_bool (NOT word AND m1) then find_cls word tuples else Some cls)"

text \<open>\<^verbatim>\<open>try: return cls(word, op_vals)\<close> with its handler.\<close>

definition try_construct :: "int \<Rightarrow> int \<Rightarrow> otbn_insn result \<Rightarrow> insn_object result" where
  "try_construct at word r =
     (case r of
        Inr i \<Rightarrow> Inr (OTBNInsn_init word i)
      | Inl (DecodeError msg) \<Rightarrow> Inr (IllegalInsn_init at word (''DecodeError: '' @ msg))
      | Inl e \<Rightarrow> Inl e)"

definition decode_with :: "int \<Rightarrow> int \<Rightarrow> insn_class \<Rightarrow> insn_object result" where
  "decode_with at word cls =
     (case yi_encoding (fst cls) of
        None \<Rightarrow> Inl AssertionError
      | Some en \<Rightarrow>
          bindR (enc_vals_to_op_vals (fst cls) at (extract_operands en word)) (\<lambda>op_vals.
          try_construct at word (snd cls (map_of op_vals))))"

definition decode_word :: "insn_class list \<Rightarrow> int \<Rightarrow> int \<Rightarrow> insn_object result" where
  "decode_word classes at word =
     bindR (get_insn_masks classes) (\<lambda>tuples.
     case find_cls word tuples of
       None \<Rightarrow> Inr (IllegalInsn_init at word ''No legal decoding'')
     | Some cls \<Rightarrow> decode_with at word cls)"

definition decode_bytes :: "insn_class list \<Rightarrow> int \<Rightarrow> byte list \<Rightarrow> insn_object list result" where
  "decode_bytes classes base_addr bs =
     require (int (length bs) AND 3 = 0)
       (let words = unpack_u32s bs
        in mapR (\<lambda>(offset, word). decode_word classes (base_addr + 4 * int offset) word)
             (zip [0..<length words] words))"

section \<open>The class of a word\<close>

lemma try_construct_raw: "try_construct at w r = Inr obj \<Longrightarrow> raw obj = w"
proof (cases r)
  case (Inl e)
  then show "try_construct at w r = Inr obj \<Longrightarrow> raw obj = w"
    by (cases e) (auto simp: try_construct_def IllegalInsn_init_def)
qed (auto simp: try_construct_def OTBNInsn_init_def)

lemma decode_word_raw:
  assumes "decode_word classes at w = Inr obj"
  shows "raw obj = w"
proof -
  obtain tuples where t: "get_insn_masks classes = Inr tuples" using assms by (auto simp: decode_word_def bindR_Inr_iff)
  show ?thesis
  proof (cases "find_cls w tuples")
    case None
    then show ?thesis using assms t by (auto simp: decode_word_def IllegalInsn_init_def)
  next
    case (Some cls)
    then have "decode_with at w cls = Inr obj" using assms t by (simp add: decode_word_def)
    then show ?thesis
      by (cases "yi_encoding (fst cls)") (auto simp: decode_with_def bindR_Inr_iff try_construct_raw)
  qed
qed

lemma get_insn_masks_eq:
  "\<forall>c \<in> set classes. yaml_insn_ok (fst c) \<Longrightarrow>
   returns (get_insn_masks classes) (\<lambda>tuples. \<forall>w. fits 32 w \<longrightarrow>
     find_cls w tuples = find (\<lambda>c. insn_encodes w (fst c)) classes)"
proof (induction classes)
  case (Cons c classes)
  then obtain tuples where t: "get_insn_masks classes = Inr tuples"
    "\<And>w. fits 32 w \<Longrightarrow> find_cls w tuples = find (\<lambda>c. insn_encodes w (fst c)) classes"
    by (auto elim!: returnsE)
  show ?case
  proof (cases "yi_encoding (fst c)")
    case None
    then show ?thesis using t by (simp add: insn_encodes_def)
  next
    case (Some en)
    then have "encoding_ok en" using Cons.prems by (simp add: yaml_insn_ok_def)
    from masks_accept_encodes [OF this] obtain m0 m1 where
      m: "get_masks en = Inr (m0, m1)" "\<And>w. fits 32 w \<Longrightarrow> masks_accept (m0, m1) w \<longleftrightarrow> encodes en w"
      by (auto elim!: returnsE)
    have "py_bool (w AND (m0 AND NOT m1)) \<or> py_bool (NOT w AND (m1 AND NOT m0)) \<longleftrightarrow> \<not> masks_accept (m0, m1) w" for w
      by (auto simp: masks_accept_def py_bool_def)
    then show ?thesis using Some t m by (simp add: insn_encodes_def)
  qed
qed simp

lemma insn_for_mnemonic_mem:
  assumes "insn_for_mnemonic insns m n = Some insn" and "InsnsFile_init load yml = Inr insns"
  shows "insn \<in> set (if_insns insns) \<and> py_lower (yi_mnemonic insn) = m"
proof -
  have "if_mnemonic_to_insn insns = map (\<lambda>i. (py_lower (yi_mnemonic i), i)) (if_insns insns)"
    using assms(2) by (auto simp: InsnsFile_init_def bindR_Inr_iff Let_def index_list_Inr_iff split: if_split_asm)
  moreover have "map_of (if_mnemonic_to_insn insns) m = Some insn"
    using assms(1) by (auto simp: insn_for_mnemonic_def split: option.splits if_splits)
  ultimately show ?thesis using map_of_SomeD by fastforce
qed

lemma load_classes_ok:
  assumes "InsnsFile_init load yml = Inr insns"
  shows "load_classes insns cs = Some classes \<Longrightarrow>
    map (\<lambda>c. py_lower (yi_mnemonic (fst c))) classes = map fst cs \<and> (\<forall>c \<in> set classes. fst c \<in> set (if_insns insns))"
proof (induction cs arbitrary: classes)
  case (Cons c cs)
  obtain mn init where c: "c = (mn, init)" by force
  obtain n insn r where "insn_for_mnemonic insns mn n = Some insn" "load_classes insns cs = Some r"
    "classes = (insn, init) # r"
    using Cons.prems c by (auto split: option.split_asm)
  then show ?case using Cons.IH insn_for_mnemonic_mem [OF _ assms] c by auto
qed simp

lemma filter_unique:
  assumes "distinct (map f l)" and "\<And>x y. x \<in> set l \<Longrightarrow> y \<in> set l \<Longrightarrow> P x \<Longrightarrow> P y \<Longrightarrow> f x = f y"
  shows "filter P l = (case find P l of None \<Rightarrow> [] | Some x \<Rightarrow> [x])"
  using assms
proof (induction l)
  case (Cons x l)
  have IH: "filter P l = (case find P l of None \<Rightarrow> [] | Some x \<Rightarrow> [x])"
    using Cons.IH Cons.prems by simp
  show ?case
  proof (cases "P x")
    case True
    have "\<not> P y" if y: "y \<in> set l" for y
    proof
      assume "P y"
      then have "f x = f y" using Cons.prems(2) [of x y] True y by simp
      then show False using Cons.prems(1) y by (metis distinct.simps(2) image_eqI list.set_map list.simps(9))
    qed
    then show ?thesis using True by (simp add: filter_empty_conv)
  qed (use IH in simp)
qed simp

lemma load_classes_unique:
  assumes "InsnsFile_init load yml = Inr insns" and "load_classes insns cs = Some classes" and "distinct (map fst cs)"
  shows "filter (\<lambda>c. insn_encodes w (fst c)) classes =
      (case find (\<lambda>c. insn_encodes w (fst c)) classes of None \<Rightarrow> [] | Some c \<Rightarrow> [c])"
    and "\<forall>c \<in> set classes. fst c \<in> set (if_insns insns)"
proof -
  have c: "map (\<lambda>c. py_lower (yi_mnemonic (fst c))) classes = map fst cs"
    "\<forall>c \<in> set classes. fst c \<in> set (if_insns insns)"
    using load_classes_ok [OF assms(1,2)] by simp_all
  have "distinct (map (\<lambda>c. py_lower (yi_mnemonic (fst c))) classes)" using assms(3) by (simp only: c(1))
  then show "filter (\<lambda>c. insn_encodes w (fst c)) classes =
      (case find (\<lambda>c. insn_encodes w (fst c)) classes of None \<Rightarrow> [] | Some c \<Rightarrow> [c])"
  proof (rule filter_unique)
    fix x y assume "x \<in> set classes" "y \<in> set classes" "insn_encodes w (fst x)" "insn_encodes w (fst y)"
    then show "py_lower (yi_mnemonic (fst x)) = py_lower (yi_mnemonic (fst y))"
      using file_words_unambiguous [OF assms(1)] c(2) unfolding insn_encodes_def
      by (metis (no_types, lifting) option.case_eq_if option.collapse)
  qed
  show "\<forall>c \<in> set classes. fst c \<in> set (if_insns insns)" by (rule c(2))
qed

text \<open>
  C4: the decoder.  The mnemonics of \<^verbatim>\<open>INSN_CLASSES\<close> are distinct.  For an accepted instruction file and
  classes with distinct mnemonics that it has instructions for, every 32-bit word belongs to the
  encoding of at most one class, so the order of the classes does not matter.  A word of no class decodes to an illegal instruction; a word of a class decodes, at every
  address, to what the constructor of that class makes of the operand values of the word: an
  instruction with that raw word, an illegal instruction if the constructor raises \<^verbatim>\<open>DecodeError\<close>, or
  another exception of the constructor.  The decoder itself raises nothing.
\<close>

theorem decode_word_exact:
  assumes "InsnsFile_init load yml = Inr insns" and "load_classes insns cs = Some classes"
    and "distinct (map fst cs)" and "fits 32 w"
  shows "distinct (map fst INSN_CLASSES) \<and> (case filter (\<lambda>c. insn_encodes w (fst c)) classes of
      [] \<Rightarrow> decode_word classes at w = Inr (IllegalInsn_init at w ''No legal decoding'')
    | [cls] \<Rightarrow> \<exists>en op_vals. yi_encoding (fst cls) = Some en \<and>
        enc_vals_to_op_vals (fst cls) at (extract_operands en w) = Inr op_vals \<and>
        decode_word classes at w =
          (case snd cls (map_of op_vals) of
             Inr i \<Rightarrow> Inr (OTBNInsn_init w i)
           | Inl (DecodeError msg) \<Rightarrow> Inr (IllegalInsn_init at w (''DecodeError: '' @ msg))
           | Inl e \<Rightarrow> Inl e)
    | _ \<Rightarrow> False)"
proof -
  note u = load_classes_unique [OF assms(1,2,3)]
  have ok: "\<forall>c \<in> set classes. yaml_insn_ok (fst c)" using u(2) InsnsFile_init_ok(1) [OF assms(1)] by blast
  obtain tuples where t: "get_insn_masks classes = Inr tuples"
    "find_cls w tuples = find (\<lambda>c. insn_encodes w (fst c)) classes"
    using get_insn_masks_eq [OF ok] assms(4) by (auto elim!: returnsE)
  have d: "distinct (map fst INSN_CLASSES)" unfolding INSN_CLASSES_def by code_simp
  show ?thesis
  proof (cases "find (\<lambda>c. insn_encodes w (fst c)) classes")
    case None
    then show ?thesis using d t u(1) [of w] by (simp add: decode_word_def)
  next
    case (Some cls)
    then have c: "cls \<in> set classes" "insn_encodes w (fst cls)" by (auto simp: find_Some_iff)
    then obtain en where en: "yi_encoding (fst cls) = Some en" by (auto simp: insn_encodes_def split: option.splits)
    have "yaml_insn_ok (fst cls)" using ok c(1) by blast
    from enc_vals_total [OF extract_vals_ok [OF this en, of w], of at] obtain op_vals where
      "enc_vals_to_op_vals (fst cls) at (extract_operands en w) = Inr op_vals" by (auto elim!: returnsE)
    then show ?thesis using d t u(1) [of w] Some en
      by (simp add: decode_word_def decode_with_def try_construct_def [symmetric])
  qed
qed

lemma decode_bytes_image:
  "if 4 dvd length bs
   then case decode_bytes classes base bs of
       Inl e \<Rightarrow> \<exists>k < length bs div 4. decode_word classes (base + 4 * int k) (unpack_u32s bs ! k) = Inl e
     | Inr objs \<Rightarrow> concat (map (\<lambda>i. pack_u32 (raw i)) objs) = bs \<and> length objs = length bs div 4 \<and>
         (\<forall>k < length objs. decode_word classes (base + 4 * int k) (raw (objs ! k)) = Inr (objs ! k))
   else decode_bytes classes base bs = Inl AssertionError"
proof -
  have raw: "raw obj = w" if "decode_word classes a w = Inr obj" for obj a w
    by (rule decode_word_raw [OF that])
  have m: "int (length bs) AND 3 = int (length bs mod 4)"
    using take_bit_eq_mask [of 2 "int (length bs)"] by (simp add: mask_eq_exp_minus_1 take_bit_eq_mod zmod_int)
  let ?ws = "unpack_u32s bs"
  let ?f = "\<lambda>(offset, word). decode_word classes (base + 4 * int offset) word"
  let ?xs = "zip [0..<length ?ws] ?ws"
  have nth: "?xs ! k = (k, ?ws ! k)" if "k < length ?ws" for k using that by simp
  have err: "\<exists>k < length l. f (l ! k) = Inl e" if "mapR f l = Inl e" for f :: "nat \<times> int \<Rightarrow> insn_object result" and l e
    using that
  proof (induction l)
    case (Cons x l)
    then show ?case by (cases "f x") (auto simp: bindR_def split: sum.split_asm)
  qed simp
  show ?thesis
  proof (cases "4 dvd length bs")
    case True
    then have d: "decode_bytes classes base bs = mapR ?f ?xs" using m by (simp add: decode_bytes_def dvd_eq_mod_eq_0 Let_def)
    show ?thesis
    proof (cases "mapR ?f ?xs")
      case (Inl e)
      then show ?thesis using err [OF Inl] nth True d by (auto simp: length_unpack_u32s)
    next
      case (Inr objs)
      then have o: "length objs = length ?ws" "\<And>k. k < length ?ws \<Longrightarrow> decode_word classes (base + 4 * int k) (?ws ! k) = Inr (objs ! k)"
        using nth by (auto simp: mapR_Inr_iff)
      have rk: "raw (objs ! k) = ?ws ! k" if "k < length ?ws" for k using raw [OF o(2) [OF that]] .
      then have "map raw objs = ?ws" using o(1) by (intro nth_equalityI) simp_all
      then have "concat (map pack_u32 (map raw objs)) = bs" using pack_unpack_u32s [OF True] by simp
      then show ?thesis using o True d Inr rk by (simp add: length_unpack_u32s comp_def)
    qed
  next
    case False
    then show ?thesis using m by (simp add: decode_bytes_def dvd_eq_mod_eq_0)
  qed
qed

text \<open>
  Decoding a program image.  \<^verbatim>\<open>decode_bytes\<close> fails its assertion exactly when the image is not a
  whole number of words; the raw words of the instructions it returns, written out again, are the
  image, and the instruction at index k was decoded at address base + 4k.
\<close>

theorem decode_bytes_round_trip:
  "if 4 dvd length bs
   then case decode_bytes classes base bs of
       Inl e \<Rightarrow> \<exists>k < length bs div 4. decode_word classes (base + 4 * int k) (unpack_u32s bs ! k) = Inl e
     | Inr objs \<Rightarrow> concat (map (\<lambda>i. pack_u32 (raw i)) objs) = bs \<and> length objs = length bs div 4 \<and>
         (\<forall>k < length objs. decode_word classes (base + 4 * int k) (raw (objs ! k)) = Inr (objs ! k))
   else decode_bytes classes base bs = Inl AssertionError"
  by (rule decode_bytes_image)

section \<open>Decoding a store\<close>

definition demo_classes :: "insn_class list" where
  "demo_classes = (case load_classes demo_file [(''sw'', SW_init)] of Some cs \<Rightarrow> cs | None \<Rightarrow> [])"

theorem decode_word_exact_witness:
  "\<exists>cls. filter (\<lambda>c. insn_encodes 0x06312223 (fst c)) demo_classes = [cls] \<and>
    decode_word demo_classes 0 0 = Inr (IllegalInsn_init 0 0 ''No legal decoding'')"
proof -
  have l: "load_classes demo_file [(''sw'', SW_init)] = Some demo_classes"
    and sw: "filter (\<lambda>c. insn_encodes 0x06312223 (fst c)) demo_classes \<noteq> []"
    and z: "filter (\<lambda>c. insn_encodes 0 (fst c)) demo_classes = []"
  proof -
    have "case load_classes demo_file [(''sw'', SW_init)] of
        Some cs \<Rightarrow> list_ex (\<lambda>c. insn_encodes 0x06312223 (fst c)) cs \<and> list_all (\<lambda>c. \<not> insn_encodes 0 (fst c)) cs
      | None \<Rightarrow> False" by code_simp
    then show "load_classes demo_file [(''sw'', SW_init)] = Some demo_classes"
      "filter (\<lambda>c. insn_encodes 0x06312223 (fst c)) demo_classes \<noteq> []"
      "filter (\<lambda>c. insn_encodes 0 (fst c)) demo_classes = []"
      by (auto simp: demo_classes_def list_ex_iff list_all_iff filter_empty_conv split: option.split_asm)
  qed
  have d: "distinct (map fst [(''sw'', SW_init)])" by simp
  note t = decode_word_exact [OF demo_file_accepted l d]
  have "fits 32 0x06312223" "fits 32 0" by (simp_all add: fits_iff)
  then show ?thesis
    using t [of "0x06312223" 0] t [of 0 0] sw z
    by (cases "filter (\<lambda>c. insn_encodes 0x06312223 (fst c)) demo_classes") (auto split: list.split_asm)
qed

theorem decode_bytes_round_trip_witness:
  "returns (decode_bytes demo_classes 0 [0x23, 0x22, 0x31, 0x06]) (\<lambda>objs.
     concat (map (\<lambda>i. pack_u32 (raw i)) objs) = [0x23, 0x22, 0x31, 0x06])"
proof -
  let ?bs = "[0x23, 0x22, 0x31, 0x06] :: byte list"
  have "returns (decode_bytes demo_classes 0 ?bs) (\<lambda>_. True)" by code_simp
  then obtain objs where o: "decode_bytes demo_classes 0 ?bs = Inr objs" by (auto elim: returnsE)
  have d: "4 dvd length ?bs" by (simp add: eval_nat_numeral)
  from decode_bytes_round_trip [of ?bs demo_classes 0] show ?thesis
    unfolding if_P [OF d] o by simp
qed

end
