(* ===== verification/Py_Numbers.thy ===== *)
theory Py_Numbers
  imports Py_Strings
begin

text \<open>
  Python's formatting of numbers in hexadecimal, \<^verbatim>\<open>repr\<close> of a string, and the lemmas that
  reading a printed number gives the number back.
\<close>

section \<open>Operations\<close>

definition hex_char :: "nat \<Rightarrow> char" where
  "hex_char n = char_of (if n < 10 then n + 48 else n + 87)"

fun hex_of_nat :: "nat \<Rightarrow> string" where
  "hex_of_nat n = (if n < 16 then [hex_char n] else hex_of_nat (n div 16) @ [hex_char (n mod 16)])"

text \<open>The format specifications \<^verbatim>\<open>{:0<w>x}\<close> and \<^verbatim>\<open>{:#0<w>x}\<close>: zeros go between the prefix and the digits.\<close>

definition fmt_x :: "string \<Rightarrow> nat \<Rightarrow> int \<Rightarrow> string" where
  "fmt_x prefix w v =
     (let pre = (if v < 0 then ''-'' else []) @ prefix; ds = hex_of_nat (nat (abs v))
      in pre @ replicate (w - (length pre + length ds)) (CHR ''0'') @ ds)"

text \<open>The format specification \<^verbatim>\<open>{:<2}\<close> on a number.\<close>

definition fmt_left :: "nat \<Rightarrow> int \<Rightarrow> string" where
  "fmt_left w v = (let ds = str_of_int v in ds @ replicate (w - length ds) (CHR '' ''))"

text \<open>\<^verbatim>\<open>repr(s)\<close> of a string.\<close>

definition is_printable :: "char \<Rightarrow> bool" where
  "is_printable c \<longleftrightarrow> (let n = char_code c in 32 \<le> n \<and> n \<le> 126 \<or> 161 \<le> n \<and> n \<noteq> 173)"

definition repr_char :: "char \<Rightarrow> char \<Rightarrow> string" where
  "repr_char quote c =
     (if c = quote \<or> c = CHR 0x5C then [CHR 0x5C, c]
      else if c = CHR 0x09 then [CHR 0x5C, CHR ''t'']
      else if c = CHR 0x0A then [CHR 0x5C, CHR ''n'']
      else if c = CHR 0x0D then [CHR 0x5C, CHR ''r'']
      else if is_printable c then [c]
      else CHR 0x5C # fmt_x ''x'' 3 (int (char_code c)))"

definition py_repr :: "string \<Rightarrow> string" where
  "py_repr s =
     (let quote = (if CHR 0x27 \<in> set s \<and> CHR 0x22 \<notin> set s then CHR 0x22 else CHR 0x27)
      in [quote] @ concat (map (repr_char quote) s) @ [quote])"

section \<open>Reading a printed value\<close>

declare hex_of_nat.simps [simp del]

lemma base_digit_hex_char: "n < 16 \<Longrightarrow> base_digit 16 (hex_char n) = Some (int n) \<and> hex_char n \<noteq> CHR ''_''"
proof -
  assume n: "n < 16"
  then have c: "char_code (hex_char n) = (if n < 10 then n + 48 else n + 87)"
    by (simp add: char_code_def hex_char_def)
  moreover have "char_code (CHR ''_'') = 95" by (simp add: char_code_def)
  ultimately have "hex_char n \<noteq> CHR ''_''" using n by (auto split: if_splits)
  then show ?thesis using c n by (simp add: base_digit_def Let_def)
qed

text \<open>\<open>reads_hex s v\<close>: the digits \<open>s\<close> append the value \<open>v\<close> to what has been read.\<close>

definition reads_hex :: "string \<Rightarrow> int \<Rightarrow> bool" where
  "reads_hex s v \<longleftrightarrow> s \<noteq> [] \<and>
     (\<forall>acc ok r. int_digits 16 acc ok (s @ r) = int_digits 16 (16 ^ length s * acc + v) True r)"

lemma reads_hex_digit: "n < 16 \<Longrightarrow> reads_hex [hex_char n] (int n)"
  using base_digit_hex_char [of n] by (simp add: reads_hex_def)

lemma reads_hex_append: "reads_hex s v \<Longrightarrow> reads_hex t w \<Longrightarrow> reads_hex (s @ t) (16 ^ length t * v + w)"
  by (simp add: reads_hex_def power_add algebra_simps)

lemma reads_hex_of_nat: "reads_hex (hex_of_nat n) (int n)"
proof (induction n rule: hex_of_nat.induct)
  case (1 n)
  show ?case
  proof (cases "n < 16")
    case True
    then show ?thesis by (simp add: hex_of_nat.simps [of n] reads_hex_digit)
  next
    case False
    have "16 * int (n div 16) + int (n mod 16) = int n"
      by (metis mult_div_mod_eq of_nat_add of_nat_mult of_nat_numeral)
    then show ?thesis
      using reads_hex_append [OF "1.IH" [OF False] reads_hex_digit [of "n mod 16"]] False
      by (simp add: hex_of_nat.simps [of n])
  qed
qed

lemma reads_hex_zeros: "reads_hex s v \<Longrightarrow> reads_hex (replicate k (CHR ''0'') @ s) v"
proof (induction k)
  case (Suc k)
  have "hex_char 0 = CHR ''0''" by code_simp
  then show ?case using reads_hex_append [OF reads_hex_digit [of 0] Suc.IH [OF Suc.prems]] by simp
qed simp

lemma reads_hex_fmt: "0 \<le> v \<Longrightarrow> reads_hex (fmt_x [] w v) v"
  using reads_hex_of_nat [of "nat v"] reads_hex_zeros by (auto simp: fmt_x_def Let_def)

lemma length_hex_of_nat: "n < 16 ^ k \<Longrightarrow> 0 < k \<Longrightarrow> length (hex_of_nat n) \<le> k"
proof (induction n arbitrary: k rule: hex_of_nat.induct)
  case (1 n)
  show ?case
  proof (cases "n < 16")
    case True
    then show ?thesis using "1.prems" by (simp add: hex_of_nat.simps [of n])
  next
    case False
    then obtain j where j: "k = Suc j" "0 < j" using "1.prems" by (cases k; cases "k - 1") auto
    then have "n div 16 < 16 ^ j" using "1.prems"(1) by (simp add: div_less_iff_less_mult mult.commute)
    from "1.IH" [OF False this j(2)] show ?thesis using False j(1) by (simp add: hex_of_nat.simps [of n])
  qed
qed

lemma length_fmt_x: "0 \<le> v \<Longrightarrow> v < 16 ^ w \<Longrightarrow> 0 < w \<Longrightarrow> length (fmt_x [] w v) = w"
  using length_hex_of_nat [of "nat v" w] by (simp add: fmt_x_def Let_def nat_less_iff)

lemma reads_hex_join:
  assumes "list_all2 (\<lambda>s v. reads_hex s v \<and> length s = 8) ss vs" and "reads_hex s v"
  shows "int_digits 16 acc ok (str_join ''_'' (s # ss)) =
    Some (foldl (\<lambda>a x. 2 ^ 32 * a + x) (16 ^ length s * acc + v) vs)"
  using assms
proof (induction ss vs arbitrary: s v acc ok rule: list_all2_induct)
  case Nil
  have "int_digits 16 acc ok (s @ []) = Some (16 ^ length s * acc + v)"
    using Nil unfolding reads_hex_def by (simp del: append_Nil2)
  then show ?case by simp
next
  case (Cons t ts x vs)
  have "int_digits 16 acc ok (str_join ''_'' (s # t # ts)) =
      int_digits 16 (16 ^ length s * acc + v) False (str_join ''_'' (t # ts))"
    using Cons.prems by (simp add: reads_hex_def)
  then show ?case using Cons.IH [of t x] Cons.hyps by simp
qed

lemma hex_of_nat_last: "hex_of_nat n \<noteq> [] \<and> \<not> is_int_space (last (hex_of_nat n))"
proof -
  have "\<not> is_int_space (hex_char m)" if "m < 16" for m
    using that by (simp add: is_int_space_def char_code_def hex_char_def Let_def)
  then show ?thesis by (subst (1 2) hex_of_nat.simps) simp
qed

lemma fmt_x_last: "fmt_x p w v \<noteq> [] \<and> \<not> is_int_space (last (fmt_x p w v))"
  using hex_of_nat_last by (simp add: fmt_x_def Let_def)

lemma str_join_last: "last ss \<noteq> [] \<Longrightarrow> ss \<noteq> [] \<Longrightarrow> str_join sep ss \<noteq> [] \<and> last (str_join sep ss) = last (last ss)"
  by (induction sep ss rule: str_join.induct) auto

lemma py_int0_prefixed:
  assumes "s \<noteq> []" and "\<not> is_int_space (last s)"
  shows "py_int0 (''0x'' @ s) = int_digits 16 0 True s"
proof -
  let ?t = "''0x'' @ s"
  have z: "\<not> is_int_space (CHR ''0'')" by (simp add: is_int_space_def char_code_def)
  have "dropWhile is_int_space ?t = ?t" using z by simp
  moreover have "dropWhile is_int_space (rev ?t) = rev ?t"
    using assms by (subst dropWhile_eq_self_iff) (simp add: hd_append hd_rev)
  ultimately have "rev (dropWhile is_int_space (rev (dropWhile is_int_space ?t))) = ?t" by (metis rev_rev_ident)
  then show ?thesis using assms(1) by (simp add: py_int0_def unsigned_lit_def prefixed_digits_def Let_def)
qed

end
