(* ===== verification/Py_Format.thy ===== *)
theory Py_Format
  imports Py_Numbers Otbn_State
begin

text \<open>
  The trace entries of the simulator as they are printed: \<^verbatim>\<open>Trace.hex_value\<close> of \<^verbatim>\<open>sim/trace.py\<close> and the \<^verbatim>\<open>rtl_trace\<close> methods of the trace classes in
  \<^verbatim>\<open>sim/reg.py\<close>, \<^verbatim>\<open>sim/flags.py\<close>, \<^verbatim>\<open>sim/wsr.py\<close> and \<^verbatim>\<open>sim/ext_regs.py\<close>.

  Program counter, data memory and loop entries inherit \<^verbatim>\<open>Trace.rtl_trace\<close>, which has no entry.
\<close>

section \<open>Trace entries\<close>

definition hex_words :: "int \<Rightarrow> nat \<Rightarrow> string list" where
  "hex_words v bit_width =
     map (\<lambda>idx. let lsb = 32 * idx; word = drop_bit lsb v AND low_mask 32;
                    top_width = (bit_width - lsb + 3) div 4
                in fmt_x [] (min 8 top_width) word) [0..<(bit_width + 31) div 32]"

definition hex_value :: "int \<Rightarrow> nat \<Rightarrow> string" where
  "hex_value v bit_width =
     (if bit_width = 32 then fmt_x ''0x'' 10 v
      else ''0x'' @ str_join ''_'' (rev (hex_words v bit_width)))"

text \<open>The name of a register trace entry is formatted by \<^verbatim>\<open>{}{:02}\<close> in \<^verbatim>\<open>RegFile.changes\<close>.\<close>

definition TraceRegister_name :: "trace_register \<Rightarrow> string" where
  "TraceRegister_name t =
     (let ds = str_of_int (tr_idx t) in tr_pfx t @ replicate (2 - length ds) (CHR ''0'') @ ds)"

definition TraceRegister_rtl_trace :: "trace_register \<Rightarrow> string" where
  "TraceRegister_rtl_trace t = ''> '' @ TraceRegister_name t @ '': '' @ hex_value (tr_new_value t) (tr_width t)"

definition TraceWSR_rtl_trace :: "trace_wsr \<Rightarrow> string" where
  "TraceWSR_rtl_trace t = ''> '' @ tw_name t @ '': '' @ hex_value (tw_new_value t) 256"

definition TraceExtRegChange_rtl_trace :: "ext_reg_change \<Rightarrow> string" where
  "TraceExtRegChange_rtl_trace t = ''! otbn.'' @ erc_name t @ '': '' @ fmt_x ''0x'' 10 (erc_new_value t)"

definition TraceFlags_rtl_trace :: "trace_flags \<Rightarrow> string" where
  "TraceFlags_rtl_trace t =
     (let v = tf_value t
      in ''> FLAGS'' @ str_of_int (tf_group t) @ '': {C: '' @ str_of_int (py_int (flag_C v)) @
         '', M: '' @ str_of_int (py_int (flag_M v)) @ '', L: '' @ str_of_int (py_int (flag_L v)) @
         '', Z: '' @ str_of_int (py_int (flag_Z v)) @ ''}'')"

definition rtl_trace :: "trace \<Rightarrow> string option" where
  "rtl_trace t =
     (case t of
        TraceReg r \<Rightarrow> Some (TraceRegister_rtl_trace r)
      | TraceExt e \<Rightarrow> Some (TraceExtRegChange_rtl_trace e)
      | TraceWsr w \<Rightarrow> Some (TraceWSR_rtl_trace w)
      | TraceFlag f \<Rightarrow> Some (TraceFlags_rtl_trace f)
      | _ \<Rightarrow> None)"

section \<open>Reading a printed value\<close>

lemma foldl_le_val: "foldl (\<lambda>a x. 2 ^ 32 * a + x) 0 (rev us) = le_val 32 us"
  by (induction us) (simp_all add: push_bit_eq_mult)

lemma hex_words_read:
  assumes "0 < w" and "fits w v"
  shows "int_digits 16 0 True (str_join ''_'' (rev (hex_words v w))) = Some v"
proof -
  let ?n = "(w + 31) div 32"
  let ?f = "\<lambda>k. fmt_x [] (min 8 ((w - 32 * k + 3) div 4)) (take_bit 32 (drop_bit (32 * k) v))"
  obtain m where m: "?n = Suc m" using assms(1) by (cases ?n) auto
  have k8: "min 8 ((w - 32 * k + 3) div 4) = 8" if "k < m" for k using that m by (simp add: min_def)
  have ws: "hex_words v w = map ?f [0..<m] @ [?f m]"
    by (simp add: hex_words_def and_low_mask m Let_def)
  let ?vs = "map (\<lambda>k. take_bit 32 (drop_bit (32 * k) v)) [0..<m]"
  have f: "reads_hex (?f k) (take_bit 32 (drop_bit (32 * k) v))" for k by (rule reads_hex_fmt) simp
  have len: "length (?f k) = 8" if "k < m" for k
    using length_fmt_x [of "take_bit 32 (drop_bit (32 * k) v)" 8] take_bit_int_less_exp [of 32 "drop_bit (32 * k) v"]
    by (simp add: k8 [OF that])
  have "list_all2 (\<lambda>s v. reads_hex s v \<and> length s = 8) (rev (map ?f [0..<m])) (rev ?vs)"
    unfolding list_all2_rev by (simp add: list_all2_conv_all_nth f len del: min_def)
  from reads_hex_join [OF this f [of m], of 0 True]
  have "int_digits 16 0 True (str_join ''_'' (rev (hex_words v w))) =
      Some (foldl (\<lambda>a x. 2 ^ 32 * a + x) 0 (rev (?vs @ [take_bit 32 (drop_bit (32 * m) v)])))"
    by (simp add: ws)
  moreover have "?vs @ [take_bit 32 (drop_bit (32 * m) v)] = le_split 32 ?n v"
    by (rule nth_equalityI) (auto simp: m le_split_nth nth_append less_Suc_eq simp del: le_split.simps)
  moreover have "fits (32 * ?n) v" by (rule fits_mono [OF assms(2)]) presburger
  ultimately show ?thesis by (simp only: foldl_le_val le_val_eq_self)
qed

text \<open>
  Trace values can be read back.  For every width and every value that fits it, the text that
  \<^verbatim>\<open>hex_value\<close> prints (zero padded, in groups of eight digits separated by underscores when the
  register is not 32 bits wide) is read by \<^verbatim>\<open>int(s, 0)\<close> as that value.
\<close>

lemma hex_value_round_trip:
  assumes "0 < w" and "fits w v"
  shows "py_int0 (hex_value v w) = Some v"
proof (cases "w = 32")
  case True
  have "fmt_x ''0x'' 10 v = ''0x'' @ fmt_x [] 8 v" using assms(2) by (simp add: fmt_x_def Let_def fits_iff)
  moreover have "int_digits 16 0 True (fmt_x [] 8 v @ []) = Some v"
    using reads_hex_fmt [OF fits_nonneg [OF assms(2)], of 8] unfolding reads_hex_def by (simp del: append_Nil2)
  ultimately show ?thesis using True fmt_x_last [of "[]" 8 v] py_int0_prefixed [of "fmt_x [] 8 v"]
    by (simp add: hex_value_def)
next
  case False
  let ?ss = "rev (hex_words v w)"
  have "?ss \<noteq> []" using assms(1) by (simp add: hex_words_def)
  moreover have "last ?ss \<noteq> [] \<and> \<not> is_int_space (last (last ?ss))"
  proof -
    have "last ?ss = hd (hex_words v w)" using \<open>?ss \<noteq> []\<close> by (simp add: last_rev)
    then show ?thesis using assms(1) fmt_x_last by (simp add: hex_words_def upt_rec [of 0] div_greater_zero_iff Let_def)
  qed
  ultimately show ?thesis
    using str_join_last [of ?ss "''_''"] py_int0_prefixed hex_words_read [OF assms] False
    by (simp add: hex_value_def)
qed

lemma hex_value_demo:
  "hex_value 0x2a 40 = ''0x00_0000002a'' \<and> py_int0 (hex_value 0x2a 40) = Some 0x2a"
proof -
  have "fits 40 0x2a" by (simp add: fits_iff)
  moreover have "hex_value 0x2a 40 = ''0x00_0000002a''" by code_simp
  ultimately show ?thesis using hex_value_round_trip [of 40 "0x2a"] by simp
qed

end
