(* ===== verification/Elf_Segment.thy ===== *)
theory Elf_Segment
  imports "HOL-Library.Word"
begin

text \<open>
  The segments that the ELF parser (package \<^verbatim>\<open>elftools\<close>, outside the repository) yields, with the
  four attributes the loaders use: \<^verbatim>\<open>segment['p_type']\<close>, \<^verbatim>\<open>segment['p_paddr']\<close>, \<^verbatim>\<open>segment['p_memsz']\<close>
  and \<^verbatim>\<open>segment.data()\<close>.
\<close>

record elf_segment =
  p_type :: string
  p_paddr :: int
  p_memsz :: int
  seg_bytes :: "8 word list"

end
