(* ===== verification/Elf.thy ===== *)
theory Elf
  imports Decode Py_Format Elf_Segment
begin

text \<open>
  Loading an ELF file into the simulator: \<^verbatim>\<open>sim/elf.py\<close> and the memory layout of
  \<^verbatim>\<open>util/shared/mem_layout.py\<close>.

  The ELF parser (package \<^verbatim>\<open>elftools\<close>) is outside the repository: the segments it yields, with the
  four attributes that are used, are an argument.  So are the windows of the register block that
  reggen reads from \<^verbatim>\<open>otbn.hjson\<close>, and the instruction classes of the decoder.
\<close>

section \<open>The memory layout\<close>

record reg_window =
  win_name :: "string option"
  win_offset :: int
  win_size_in_bytes :: int

text \<open>\<^verbatim>\<open>entry.name or ...\<close>: an empty name counts as no name.\<close>

definition window_name :: "reg_window \<Rightarrow> string" where
  "window_name entry =
     (case win_name entry of
        Some (c # cs) \<Rightarrow> c # cs
      | _ \<Rightarrow> ''Window at +'' @ fmt_x ''0x'' 0 (win_offset entry))"

type_synonym windows = "(string \<times> (int \<times> int)) list"

fun extract_windows :: "reg_window list \<Rightarrow> windows \<Rightarrow> windows result" where
  "extract_windows [] ws = Inr ws"
| "extract_windows (entry # entries) ws =
     require (window_name entry \<notin> fst ` set ws)
       (extract_windows entries (ws @ [(window_name entry, (win_offset entry, win_size_in_bytes entry))]))"

definition get_memory_layout :: "reg_window list \<Rightarrow> windows result" where
  "get_memory_layout wins =
     bindR (extract_windows wins []) (\<lambda>ws.
     if \<exists>name \<in> {''IMEM'', ''DMEM''}. name \<notin> fst ` set ws then Inl RuntimeError
     else if length ws \<noteq> 2 then Inl RuntimeError
     else Inr ws)"

section \<open>Segments\<close>

type_synonym seg_list = "(int \<times> byte list) list"
type_synonym mem_desc = "int \<times> int"

text \<open>The loop over the sorted segments; the result is the final \<^verbatim>\<open>lma\<close> and the joined chunks.\<close>

fun flatten_from :: "int \<Rightarrow> seg_list \<Rightarrow> (int \<times> byte list) result" where
  "flatten_from lma [] = Inr (lma, [])"
| "flatten_from lma ((seg_lma, seg_data) # segs) =
     require (lma \<le> seg_lma)
       (let gap = (if lma < seg_lma then replicate (nat (seg_lma - lma)) 0 else [])
        in bindR (flatten_from (seg_lma + int (length seg_data)) segs) (\<lambda>(top, chunks).
           Inr (top, gap @ seg_data @ chunks)))"

definition flatten_segments :: "seg_list \<Rightarrow> mem_desc \<Rightarrow> byte list result" where
  "flatten_segments segments mem_desc =
     (let (block_lma, block_len) = mem_desc
      in require (0 \<le> block_len)
         (bindR (flatten_from block_lma (sort_key fst segments)) (\<lambda>(lma, chunks).
          require (block_lma \<le> lma)
            (let block_top = block_lma + block_len
             in require (lma \<le> block_top) (Inr chunks)))))"

fun elf_segments_from :: "elf_segment list \<Rightarrow> mem_desc \<Rightarrow> mem_desc \<Rightarrow> (seg_list \<times> seg_list) result" where
  "elf_segments_from [] imem_desc dmem_desc = Inr ([], [])"
| "elf_segments_from (segment # segments) imem_desc dmem_desc =
     (let (imem_lma, imem_len) = imem_desc; (dmem_lma, dmem_len) = dmem_desc;
          imem_top = imem_lma + imem_len; dmem_top = dmem_lma + dmem_len;
          rest = elf_segments_from segments imem_desc dmem_desc;
          seg_lma = p_paddr segment; seg_top = seg_lma + p_memsz segment
      in if p_type segment \<noteq> ''PT_LOAD'' then rest
         else if imem_lma \<le> seg_lma \<and> seg_lma \<le> imem_top then
           if seg_top > imem_top then Inl RuntimeError
           else bindR rest (\<lambda>(imem_segments, dmem_segments).
                Inr ((seg_lma, seg_bytes segment) # imem_segments, dmem_segments))
         else if dmem_lma \<le> seg_lma \<and> seg_lma \<le> dmem_top then
           if seg_top > dmem_top then Inl RuntimeError
           else bindR rest (\<lambda>(imem_segments, dmem_segments).
                Inr (imem_segments, (seg_lma, seg_bytes segment) # dmem_segments))
         else Inl RuntimeError)"

definition get_elf_segments :: "elf_segment list \<Rightarrow> mem_desc \<Rightarrow> mem_desc \<Rightarrow> (seg_list \<times> seg_list) result" where
  "get_elf_segments elf imem_desc dmem_desc =
     require (fst imem_desc \<le> fst imem_desc + snd imem_desc)
       (require (fst dmem_desc \<le> fst dmem_desc + snd dmem_desc)
          (elf_segments_from elf imem_desc dmem_desc))"

definition mem_lookup :: "windows \<Rightarrow> string \<Rightarrow> mem_desc result" where
  "mem_lookup mems n = (case map_of mems n of Some d \<Rightarrow> Inr d | None \<Rightarrow> Inl KeyError)"

definition load_elf :: "reg_window list \<Rightarrow> insn_class list \<Rightarrow> elf_segment list \<Rightarrow> otbn_sim \<Rightarrow> otbn_sim result" where
  "load_elf wins classes elf sim =
     bindR (get_memory_layout wins) (\<lambda>mems.
     bindR (mem_lookup mems ''IMEM'') (\<lambda>imem_desc.
     bindR (mem_lookup mems ''DMEM'') (\<lambda>dmem_desc.
     bindR (get_elf_segments elf imem_desc dmem_desc) (\<lambda>(imem_segs, dmem_segs).
     bindR (flatten_segments imem_segs imem_desc) (\<lambda>imem_bytes.
     bindR (flatten_segments dmem_segs dmem_desc) (\<lambda>dmem_bytes.
     require (int (length imem_bytes) \<le> snd imem_desc)
       (if py_bool (int (length imem_bytes) AND 3) then Inl RuntimeError
        else bindR (decode_bytes classes 0 imem_bytes) (\<lambda>imem_insns.
             OTBNSim_load_data dmem_bytes (OTBNSim_load_program imem_insns sim)))))))))"

section \<open>Flattening\<close>

definition covers :: "int \<Rightarrow> int \<times> byte list \<Rightarrow> bool" where
  "covers a seg \<longleftrightarrow> fst seg \<le> a \<and> a < fst seg + int (length (snd seg))"

text \<open>The byte that a list of segments puts at an address: zero where there is no segment.\<close>

definition seg_byte :: "seg_list \<Rightarrow> int \<Rightarrow> byte" where
  "seg_byte segs a =
     (case find (covers a) segs of Some seg \<Rightarrow> snd seg ! nat (a - fst seg) | None \<Rightarrow> 0)"

definition seg_image :: "seg_list \<Rightarrow> int \<Rightarrow> nat \<Rightarrow> byte list" where
  "seg_image segs base n = map (\<lambda>j. seg_byte segs (base + int j)) [0..<n]"

definition seg_top :: "seg_list \<Rightarrow> int \<Rightarrow> int" where
  "seg_top segs base = fold (\<lambda>seg top. max top (fst seg + int (length (snd seg)))) segs base"

definition before :: "int \<times> byte list \<Rightarrow> int \<times> byte list \<Rightarrow> bool" where
  "before s1 s2 \<longleftrightarrow> fst s1 + int (length (snd s1)) \<le> fst s2"

definition apart :: "int \<times> byte list \<Rightarrow> int \<times> byte list \<Rightarrow> bool" where
  "apart s1 s2 \<longleftrightarrow> before s1 s2 \<or> before s2 s1"

lemma flatten_from_exact:
  "flatten_from l segs =
     (if sorted_wrt before segs \<and> (\<forall>seg \<in> set segs. l \<le> fst seg)
      then Inr (seg_top segs l, seg_image segs l (nat (seg_top segs l - l))) else Inl AssertionError)"
proof (induction segs arbitrary: l)
  case Nil
  show ?case by (simp add: seg_top_def seg_image_def)
next
  case (Cons seg segs)
  obtain a d where seg: "seg = (a, d)" by force
  let ?b = "a + int (length d)"
  let ?ok = "sorted_wrt before segs \<and> (\<forall>seg \<in> set segs. ?b \<le> fst seg)"
  have ok: "sorted_wrt before (seg # segs) \<and> (\<forall>seg \<in> set (seg # segs). l \<le> fst seg) \<longleftrightarrow> ?ok \<and> l \<le> a"
    by (auto simp: seg before_def)
  show ?case
  proof (cases "?ok \<and> l \<le> a")
    case True
    have top: "seg_top (seg # segs) l = seg_top segs ?b" using True by (simp add: seg_top_def seg max_def)
    have mono: "c \<le> seg_top ss c" for ss c
    proof (induction ss arbitrary: c)
      case (Cons s ss)
      from Cons.IH [of "max c (fst s + int (length (snd s)))"] show ?case by (simp add: seg_top_def)
    qed (simp add: seg_top_def)
    have b: "?b \<le> seg_top segs ?b" by (rule mono)
    let ?n = "nat (seg_top segs ?b - ?b)" and ?g = "nat (a - l)"
    have n: "nat (seg_top segs ?b - l) = ?g + length d + ?n" using True b by linarith
    have nocov: "find (covers x) segs = None" if "x < ?b" for x
      using True that by (fastforce simp: find_None_iff covers_def)
    have "seg_image (seg # segs) l (?g + length d + ?n) = replicate ?g 0 @ d @ seg_image segs ?b ?n"
    proof (rule nth_equalityI)
      fix j assume "j < length (seg_image (seg # segs) l (?g + length d + ?n))"
      then have j: "j < ?g + length d + ?n" by (simp add: seg_image_def)
      then have e: "seg_image (seg # segs) l (?g + length d + ?n) ! j = seg_byte (seg # segs) (l + int j)"
        by (simp add: seg_image_def)
      consider "j < ?g" | "?g \<le> j" "j < ?g + length d" | "?g + length d \<le> j" by linarith
      then show "seg_image (seg # segs) l (?g + length d + ?n) ! j = (replicate ?g 0 @ d @ seg_image segs ?b ?n) ! j"
      proof cases
        case 1
        then have "l + int j < a" by linarith
        then show ?thesis using 1 nocov [of "l + int j"]
          unfolding e by (simp add: seg_byte_def seg covers_def nth_append)
      next
        case 2
        then have "covers (l + int j) seg" "nat (l + int j - a) = j - ?g" "j - ?g < length d" using True by (auto simp: covers_def seg)
        then show ?thesis using 2 unfolding e by (simp add: seg_byte_def nth_append) (simp add: seg)
      next
        case 3
        then have c: "\<not> covers (l + int j) seg" "l + int j = ?b + int (j - ?g - length d)"
          using True by (auto simp: covers_def seg)
        have k: "j - ?g - length d < ?n" using 3 j by linarith
        have "(replicate ?g 0 @ d @ seg_image segs ?b ?n) ! j = seg_image segs ?b ?n ! (j - ?g - length d)"
          using 3 by (simp add: nth_append) linarith
        also have "\<dots> = seg_byte segs (l + int j)" using k unfolding c(2) by (simp add: seg_image_def)
        finally show ?thesis using c(1) unfolding e by (simp add: seg_byte_def)
      qed
    qed (simp add: seg_image_def)
    moreover have "(if l < a then replicate ?g 0 else []) = replicate ?g (0 :: byte)" by simp
    ultimately show ?thesis
      unfolding if_P [OF ok [THEN iffD2, OF True]] top n
      using Cons.IH [of ?b] True by (simp add: seg)
  next
    case False
    then show ?thesis unfolding ok if_not_P [OF False] using Cons.IH [of ?b] False
      by (cases "l \<le> a") (auto simp: seg require_def bindR_def)
  qed
qed

text \<open>The segments of a memory: inside it and pairwise disjoint.\<close>

definition segs_fit :: "seg_list \<Rightarrow> mem_desc \<Rightarrow> bool" where
  "segs_fit segs desc \<longleftrightarrow> sorted_wrt apart segs \<and>
     (\<forall>seg \<in> set segs. fst desc \<le> fst seg \<and> fst seg + int (length (snd seg)) \<le> fst desc + snd desc)"

lemma seg_top_le: "seg_top segs b \<le> c \<longleftrightarrow> b \<le> c \<and> (\<forall>seg \<in> set segs. fst seg + int (length (snd seg)) \<le> c)"
  by (induction segs arbitrary: b) (auto simp: seg_top_def)

lemma seg_top_sort: "seg_top (sort_key f segs) b = seg_top segs b"
  by (rule antisym) (metis seg_top_le order_refl set_sort)+

lemma sorted_wrt_insort:
  "(\<And>a b. R a b = R b a) \<Longrightarrow> sorted_wrt R (insort_key f x ys) = sorted_wrt R (x # ys)"
  by (induction ys) (auto simp: set_insort_key)

lemma sorted_wrt_sort: "(\<And>a b. R a b = R b a) \<Longrightarrow> sorted_wrt R (sort_key f ys) = sorted_wrt R ys"
  by (induction ys) (simp_all add: sorted_wrt_insort)

lemma apart_sym: "apart s1 s2 = apart s2 s1"
  by (auto simp: apart_def)

lemma sorted_before:
  assumes "\<forall>seg \<in> set segs. snd seg \<noteq> []"
  shows "sorted_wrt before (sort_key fst segs) = sorted_wrt apart segs"
proof -
  let ?s = "sort_key fst segs"
  have ne: "\<forall>seg \<in> set ?s. snd seg \<noteq> []" using assms by simp
  have s: "sorted_wrt (\<lambda>x y. fst x \<le> fst y) ?s" using sorted_sort_key [of fst segs] by (simp add: sorted_map)
  have "before x y = apart x y" if "x \<in> set ?s" "y \<in> set ?s" "fst x \<le> fst y" for x y
  proof -
    have "0 < length (snd y)" using ne that(2) by blast
    then show ?thesis using that(3) by (simp add: apart_def before_def del: length_greater_0_conv)
  qed
  then have eq: "before x y = apart x y" if "x \<in> set ?s" "y \<in> set ?s" "fst x \<le> fst y" for x y using that by blast
  have "sorted_wrt before zs = sorted_wrt apart zs" if "set zs \<subseteq> set ?s" "sorted_wrt (\<lambda>x y. fst x \<le> fst y) zs" for zs
    using that
  proof (induction zs)
    case (Cons z zs)
    have "\<forall>x \<in> set zs. before z x = apart z x" using Cons.prems eq [of z] by auto
    then show ?case using Cons by simp
  qed simp
  then have "sorted_wrt before ?s = sorted_wrt apart ?s"
    using s by blast
  then show ?thesis using sorted_wrt_sort [of apart, OF apart_sym] by simp
qed

lemma covers_unique:
  "sorted_wrt apart segs \<Longrightarrow> x \<in> set segs \<Longrightarrow> y \<in> set segs \<Longrightarrow> covers a x \<Longrightarrow> covers a y \<Longrightarrow> x = y"
  by (induction segs) (auto simp: apart_def before_def covers_def)

lemma seg_byte_covered:
  assumes "sorted_wrt apart segs" and "seg \<in> set segs" and "covers a seg"
  shows "seg_byte segs a = snd seg ! nat (a - fst seg)"
proof -
  obtain s where s: "find (covers a) segs = Some s" using assms(2,3) by (metis find_None_iff not_Some_eq)
  then have "s \<in> set segs" "covers a s" by (auto simp: find_Some_iff)
  then have "s = seg" using covers_unique [OF assms(1) _ assms(2) _ assms(3)] by blast
  with s show ?thesis by (simp add: seg_byte_def)
qed

lemma seg_byte_sort:
  assumes "sorted_wrt apart segs"
  shows "seg_byte (sort_key f segs) a = seg_byte segs a"
proof (cases "\<exists>seg \<in> set segs. covers a seg")
  case True
  then show ?thesis
    using assms seg_byte_covered [of segs] seg_byte_covered [of "sort_key f segs"] sorted_wrt_sort [of apart, OF apart_sym]
    by fastforce
next
  case False
  then have "find (covers a) segs = None" "find (covers a) (sort_key f segs) = None" by (auto simp: find_None_iff)
  then show ?thesis by (simp add: seg_byte_def)
qed

lemma flatten_segments_exact:
  assumes "\<forall>seg \<in> set segs. snd seg \<noteq> []" and "0 \<le> n"
  shows "flatten_segments segs (l, n) =
    (if segs_fit segs (l, n) then Inr (seg_image segs l (nat (seg_top segs l - l))) else Inl AssertionError)"
proof -
  note b = sorted_before [OF assms(1)]
  have top: "l \<le> seg_top segs l" using seg_top_le [of segs l "seg_top segs l"] by simp
  show ?thesis
  proof (cases "sorted_wrt apart segs")
    case True
    then have "seg_image (sort_key fst segs) l k = seg_image segs l k" for k
      by (simp add: seg_image_def seg_byte_sort)
    then show ?thesis
      using assms(2) True b top
      by (auto simp: flatten_segments_def flatten_from_exact seg_top_sort segs_fit_def seg_top_le Let_def require_def)
  next
    case False
    then show ?thesis using assms(2) b
      by (simp add: flatten_segments_def flatten_from_exact segs_fit_def)
  qed
qed

section \<open>Loading\<close>

definition pad_to_32 :: "nat \<Rightarrow> nat" where
  "pad_to_32 n = (if n mod 32 = 0 then 0 else 32 - n mod 32)"

definition block_image :: "seg_list \<Rightarrow> mem_desc \<Rightarrow> byte list" where
  "block_image segs desc = seg_image segs (fst desc) (nat (seg_top segs (fst desc) - fst desc))"

lemma length_image_le:
  assumes "segs_fit segs desc" and "0 \<le> snd desc"
  shows "int (length (block_image segs desc)) \<le> snd desc"
proof -
  have "seg_top segs (fst desc) \<le> fst desc + snd desc" using assms by (simp add: seg_top_le segs_fit_def)
  then show ?thesis using assms(2) by (simp add: block_image_def seg_image_def)
qed

lemma load_elf_segments:
  assumes "get_memory_layout wins = Inr mems" and "map_of mems ''IMEM'' = Some imem" and "map_of mems ''DMEM'' = Some dmem"
    and "get_elf_segments elf imem dmem = Inr (isegs, dsegs)"
    and "\<forall>seg \<in> set isegs \<union> set dsegs. snd seg \<noteq> []" and "0 \<le> snd imem" and "0 \<le> snd dmem"
  shows "load_elf wins classes elf sim =
    (if \<not> segs_fit isegs imem \<or> \<not> segs_fit dsegs dmem then Inl AssertionError
     else if length (block_image isegs imem) mod 4 \<noteq> 0 then Inl RuntimeError
     else bindR (decode_bytes classes 0 (block_image isegs imem)) (\<lambda>insns.
          OTBNSim_load_data (block_image dsegs dmem) (OTBNSim_load_program insns sim)))"
proof -
  have f: "flatten_segments isegs imem = (if segs_fit isegs imem then Inr (block_image isegs imem) else Inl AssertionError)"
    "flatten_segments dsegs dmem = (if segs_fit dsegs dmem then Inr (block_image dsegs dmem) else Inl AssertionError)"
    using flatten_segments_exact [of isegs "snd imem" "fst imem"] flatten_segments_exact [of dsegs "snd dmem" "fst dmem"]
      assms(5-7) by (simp_all add: block_image_def)
  have m: "py_bool (int k AND 3) \<longleftrightarrow> k mod 4 \<noteq> 0" for k
  proof -
    have "int k AND 3 = int (k mod 4)"
      using take_bit_eq_mask [of 2 "int k"] by (simp add: mask_eq_exp_minus_1 take_bit_eq_mod zmod_int)
    then show ?thesis by (simp add: py_bool_def)
  qed
  show ?thesis
    using assms(1-4) f length_image_le [OF _ assms(6), of isegs]
    by (simp add: load_elf_def mem_lookup_def m)
qed

text \<open>
  C22: loading an ELF file.  Let the loadable segments (none of them empty) fall into the instruction
  and the data memory.  If the segments of each memory are inside it and pairwise disjoint, and the
  instruction image is a whole number of words, then loading decodes the instruction image from
  address 0 and loads the data image, where an image has every byte of every segment at its
  address relative to the base of the memory, and zero in between; afterwards the raw words of the
  program are the instruction image, and the dump of the data memory starts with the data image
  (padded to 32 bytes by \<^verbatim>\<open>0x30\<close> bytes).  Otherwise loading raises.
\<close>

theorem load_elf_exact:
  assumes "get_memory_layout wins = Inr mems" and "map_of mems ''IMEM'' = Some imem" and "map_of mems ''DMEM'' = Some dmem"
    and "get_elf_segments elf imem dmem = Inr (isegs, dsegs)"
    and "\<forall>seg \<in> set isegs \<union> set dsegs. snd seg \<noteq> []" and "0 \<le> snd imem" and "0 \<le> snd dmem"
    and "Dmem_inv n (st_dmem (sim_state sim))" and "snd dmem \<le> 32 * int n"
  shows "if segs_fit isegs imem \<and> segs_fit dsegs dmem \<and> 4 dvd length (block_image isegs imem)
    then case decode_bytes classes 0 (block_image isegs imem) of
        Inl e \<Rightarrow> load_elf wins classes elf sim = Inl e
      | Inr insns \<Rightarrow> returns (load_elf wins classes elf sim) (\<lambda>sim'.
          program sim' = insns \<and> concat (map (\<lambda>i. pack_u32 (raw i)) insns) = block_image isegs imem \<and>
          returns (OTBNSim_dump_data sim') (\<lambda>new. \<exists>old.
            new = block_image dsegs dmem @ replicate (pad_to_32 (length (block_image dsegs dmem))) 0x30 @ old))
    else \<exists>e. load_elf wins classes elf sim = Inl e"
proof (cases "segs_fit isegs imem \<and> segs_fit dsegs dmem \<and> 4 dvd length (block_image isegs imem)")
  case True
  let ?d = "block_image dsegs dmem"
  have "length ?d \<le> 32 * n" using length_image_le [of dsegs dmem] True assms(7,9) by linarith
  from load_dump [OF assms(8) this] obtain old d' new where d':
    "Dmem_load_le_words ?d (st_dmem (sim_state sim)) = Inr d'" "Dmem_dump_le_words d' = Inr new"
    "new = ?d @ replicate (pad_to_32 (length ?d)) 0x30 @ drop (length ?d + pad_to_32 (length ?d)) old"
    by (auto simp: pad_to_32_def bindR_Inr_iff elim!: returnsE)
  show ?thesis
    unfolding if_P [OF True] load_elf_segments [OF assms(1-7)]
    using True d' decode_bytes_image [of "block_image isegs imem" classes 0]
    by (auto simp: dvd_eq_mod_eq_0 OTBNSim_load_data_def OTBNSim_load_program_def OTBNSim_dump_data_def split: sum.split)
next
  case False
  then show ?thesis unfolding if_not_P [OF False] load_elf_segments [OF assms(1-7)] by (auto simp: dvd_eq_mod_eq_0)
qed

text \<open>A file with two instruction segments out of order, a data segment and a segment that is not loaded.\<close>

definition demo_windows :: "reg_window list" where
  "demo_windows =
     [\<lparr>win_name = Some ''IMEM'', win_offset = 0x4000, win_size_in_bytes = 0x1000\<rparr>,
      \<lparr>win_name = Some ''DMEM'', win_offset = 0x8000, win_size_in_bytes = 0x1000\<rparr>]"

definition demo_elf :: "elf_segment list" where
  "demo_elf =
     [\<lparr>p_type = ''PT_LOAD'', p_paddr = 0x4008, p_memsz = 4, seg_bytes = [0x23, 0x22, 0x31, 0x06]\<rparr>,
      \<lparr>p_type = ''PT_NOTE'', p_paddr = 0, p_memsz = 1, seg_bytes = [1]\<rparr>,
      \<lparr>p_type = ''PT_LOAD'', p_paddr = 0x4000, p_memsz = 4, seg_bytes = [0x23, 0x22, 0x31, 0x06]\<rparr>,
      \<lparr>p_type = ''PT_LOAD'', p_paddr = 0x8004, p_memsz = 2, seg_bytes = [7, 8]\<rparr>]"

theorem load_elf_exact_witness:
  "\<exists>insns. decode_bytes demo_classes 0 [0x23, 0x22, 0x31, 0x06, 0, 0, 0, 0, 0x23, 0x22, 0x31, 0x06] = Inr insns \<and>
     returns (load_elf demo_windows demo_classes demo_elf demo_sim) (\<lambda>sim'. program sim' = insns)"
proof -
  let ?mems = "[(''IMEM'', (0x4000, 0x1000)), (''DMEM'', (0x8000, 0x1000))] :: windows"
  let ?i = "[(0x4008, [0x23, 0x22, 0x31, 0x06]), (0x4000, [0x23, 0x22, 0x31, 0x06])] :: seg_list"
  let ?d = "[(0x8004, [7, 8])] :: seg_list"
  have im: "block_image ?i (0x4000, 0x1000) = [0x23, 0x22, 0x31, 0x06, 0, 0, 0, 0, 0x23, 0x22, 0x31, 0x06]"
    by code_simp
  have l: "get_memory_layout demo_windows = Inr ?mems" by code_simp
  have s: "get_elf_segments demo_elf (0x4000, 0x1000) (0x8000, 0x1000) = Inr (?i, ?d)"
    by (simp add: get_elf_segments_def demo_elf_def)
  have "returns (decode_bytes demo_classes 0 [0x23, 0x22, 0x31, 0x06, 0, 0, 0, 0, 0x23, 0x22, 0x31, 0x06]) (\<lambda>_. True)"
    by code_simp
  then obtain insns where o: "decode_bytes demo_classes 0 (block_image ?i (0x4000, 0x1000)) = Inr insns"
    unfolding im by (auto elim: returnsE)
  have dm: "Dmem_inv 128 (st_dmem (sim_state demo_sim))"
    using demo_sim_state(1) by (simp add: State_inv_def Dmem_ok_def demo_sim_def otbn_reset_def)
  have f: "segs_fit ?i (0x4000, 0x1000) \<and> segs_fit ?d (0x8000, 0x1000) \<and> 4 dvd length (block_image ?i (0x4000, 0x1000))"
    unfolding im by (simp add: segs_fit_def apart_def before_def dvd_eq_mod_eq_0)
  from load_elf_exact [of demo_windows ?mems "(0x4000, 0x1000)" "(0x8000, 0x1000)" demo_elf ?i ?d 128 demo_sim demo_classes]
  have "returns (load_elf demo_windows demo_classes demo_elf demo_sim) (\<lambda>sim'. program sim' = insns)"
    unfolding if_P [OF f] o using l s dm by (auto elim!: returns_mono)
  then show ?thesis using o unfolding im by blast
qed

end
