(* ===== verification/Stepped.thy ===== *)
theory Stepped
  imports Elf
begin

text \<open>
  The command interpreter through which the RTL testbench drives the simulator: \<^verbatim>\<open>stepped.py\<close>.

  Files are arguments (\<open>stepped_env\<close>): the bytes that \<^verbatim>\<open>open(path, 'rb')\<close> reads or its exception,
  the segments that the ELF parser yields, and the register windows and instruction classes that
  the loaders need.  What a command prints and writes is a list of effects.  \<open>None\<close> is a \<^verbatim>\<open>run\<close>
  command that never returns.
\<close>

section \<open>Operations\<close>

record stepped_env =
  env_read :: "string \<Rightarrow> byte list result"
  env_elf :: "string \<Rightarrow> elf_segment list result"
  env_windows :: "reg_window list"
  env_classes :: "insn_class list"

datatype effect = Print string | WriteFile string "byte list"

type_synonym outcome = "(otbn_sim \<times> effect list) result"

definition read_word :: "string \<Rightarrow> nat \<Rightarrow> int result" where
  "read_word word_data bits =
     (case py_int0 word_data of
        None \<Rightarrow> Inl ValueError
      | Some v \<Rightarrow> if v < 0 \<or> py_bool (drop_bit bits v) then Inl ValueError else Inr v)"

definition on_start :: "string list \<Rightarrow> otbn_sim \<Rightarrow> outcome" where
  "on_start args sim =
     (case args of
        [arg] \<Rightarrow>
          bindR (read_word arg 32) (\<lambda>addr.
          if py_bool (addr AND 3) then Inl ValueError
          else
            bindR (ExtRegs_write ''START_ADDR'' addr False (st_ext (sim_state sim))) (\<lambda>e.
            bindR (OTBNSim_start (sim\<lparr>sim_state := (sim_state sim)\<lparr>st_ext := ExtRegs_commit e\<rparr>\<rparr>)) (\<lambda>sim.
            Inr (sim, [Print (''START '' @ fmt_x ''0x'' 8 addr)]))))
      | _ \<Rightarrow> Inl ValueError)"

definition on_step :: "string list \<Rightarrow> otbn_sim \<Rightarrow> outcome" where
  "on_step args sim =
     (if args \<noteq> [] then Inl ValueError
      else
        let at = pc (sim_state sim)
        in require (at AND 3 = 0)
           (bindR (OTBNSim_step False sim) (\<lambda>((insn, changes), sim).
            Inr (sim,
              (case insn of
                 None \<Rightarrow> [Print ''STALL'']
               | Some i \<Rightarrow>
                   [Print (''E PC: '' @ fmt_x ''0x'' 10 at @ '', insn: '' @ fmt_x ''0x'' 10 (raw i)),
                    Print (''# @'' @ fmt_x ''0x'' 10 at @ '': '' @ body_mnemonic (body i))]) @
              map Print (List.map_filter rtl_trace changes)))))"

definition on_run :: "string list \<Rightarrow> otbn_sim \<Rightarrow> outcome option" where
  "on_run args sim =
     (if args \<noteq> [] then Some (Inl ValueError)
      else map_option (\<lambda>r. bindR r (\<lambda>(num_cycles, sim).
             Inr (sim, [Print ('' ran for '' @ str_of_int num_cycles @ '' cycles'')]))) (OTBNSim_run False sim))"

definition on_load_elf :: "stepped_env \<Rightarrow> string list \<Rightarrow> otbn_sim \<Rightarrow> outcome" where
  "on_load_elf env args sim =
     (case args of
        [path] \<Rightarrow>
          bindR (env_elf env path) (\<lambda>elf.
          bindR (load_elf (env_windows env) (env_classes env) elf sim) (\<lambda>sim.
          Inr (sim, [Print (''LOAD_ELF '' @ py_repr path)])))
      | _ \<Rightarrow> Inl ValueError)"

definition on_load_d :: "stepped_env \<Rightarrow> string list \<Rightarrow> otbn_sim \<Rightarrow> outcome" where
  "on_load_d env args sim =
     (case args of
        [path] \<Rightarrow>
          bindR (env_read env path) (\<lambda>bs.
          bindR (OTBNSim_load_data bs sim) (\<lambda>sim. Inr (sim, [Print (''LOAD_D '' @ py_repr path)])))
      | _ \<Rightarrow> Inl ValueError)"

definition decode_file :: "stepped_env \<Rightarrow> int \<Rightarrow> string \<Rightarrow> insn_object list result" where
  "decode_file env base_addr path = bindR (env_read env path) (decode_bytes (env_classes env) base_addr)"

definition on_load_i :: "stepped_env \<Rightarrow> string list \<Rightarrow> otbn_sim \<Rightarrow> outcome" where
  "on_load_i env args sim =
     (case args of
        [path] \<Rightarrow>
          bindR (decode_file env 0 path) (\<lambda>insns.
          Inr (OTBNSim_load_program insns sim, [Print (''LOAD_I '' @ py_repr path)]))
      | _ \<Rightarrow> Inl ValueError)"

definition on_dump_d :: "string list \<Rightarrow> otbn_sim \<Rightarrow> outcome" where
  "on_dump_d args sim =
     (case args of
        [path] \<Rightarrow>
          bindR (Dmem_dump_le_words (st_dmem (sim_state sim))) (\<lambda>bs.
          Inr (sim, [Print (''DUMP_D '' @ py_repr path), WriteFile path bs]))
      | _ \<Rightarrow> Inl ValueError)"

definition print_reg :: "string \<Rightarrow> nat \<Rightarrow> nat \<times> int \<Rightarrow> effect" where
  "print_reg pfx w = (\<lambda>(idx, v). Print ('' '' @ pfx @ fmt_left 2 (int idx) @ '' = 0x'' @ fmt_x [] w v))"

definition on_print_regs :: "string list \<Rightarrow> otbn_sim \<Rightarrow> outcome" where
  "on_print_regs args sim =
     (if args \<noteq> [] then Inl ValueError
      else
        let xs = RegFile_peek_unsigned_values (st_gprs (sim_state sim));
            ws = RegFile_peek_unsigned_values (st_wdrs (sim_state sim))
        in Inr (sim, Print ''PRINT_REGS'' # map (print_reg ''x'' 8) (zip [0..<length xs] xs) @
                     map (print_reg ''w'' 64) (zip [0..<length ws] ws)))"

definition on_print_call_stack :: "string list \<Rightarrow> otbn_sim \<Rightarrow> outcome" where
  "on_print_call_stack args sim =
     (if args \<noteq> [] then Inl ValueError
      else Inr (sim, Print ''PRINT_CALL_STACK'' #
             map (\<lambda>v. Print (''0x'' @ fmt_x [] 8 v)) (State_peek_call_stack (sim_state sim))))"

definition on_edn_rnd_data :: "string list \<Rightarrow> otbn_sim \<Rightarrow> outcome" where
  "on_edn_rnd_data args sim =
     (case args of
        [arg] \<Rightarrow>
          bindR (read_word arg 256) (\<lambda>edn_rnd_data.
          Inr (sim\<lparr>sim_state := State_set_rnd_data edn_rnd_data (sim_state sim)\<rparr>, []))
      | _ \<Rightarrow> Inl ValueError)"

definition on_edn_urnd_reseed_complete :: "string list \<Rightarrow> otbn_sim \<Rightarrow> outcome" where
  "on_edn_urnd_reseed_complete args sim =
     (if args \<noteq> [] then Inl ValueError
      else Inr (sim\<lparr>sim_state := State_set_urnd_reseed_complete (sim_state sim)\<rparr>, []))"

definition HANDLERS :: "stepped_env \<Rightarrow> (string \<times> (string list \<Rightarrow> otbn_sim \<Rightarrow> outcome option)) list" where
  "HANDLERS env =
     [(''start'', \<lambda>args sim. Some (on_start args sim)),
      (''step'', \<lambda>args sim. Some (on_step args sim)),
      (''run'', on_run),
      (''load_elf'', \<lambda>args sim. Some (on_load_elf env args sim)),
      (''load_d'', \<lambda>args sim. Some (on_load_d env args sim)),
      (''load_i'', \<lambda>args sim. Some (on_load_i env args sim)),
      (''dump_d'', \<lambda>args sim. Some (on_dump_d args sim)),
      (''print_regs'', \<lambda>args sim. Some (on_print_regs args sim)),
      (''print_call_stack'', \<lambda>args sim. Some (on_print_call_stack args sim)),
      (''edn_rnd_data'', \<lambda>args sim. Some (on_edn_rnd_data args sim)),
      (''edn_urnd_reseed_complete'', \<lambda>args sim. Some (on_edn_urnd_reseed_complete args sim))]"

definition on_input :: "stepped_env \<Rightarrow> string \<Rightarrow> otbn_sim \<Rightarrow> outcome option" where
  "on_input env line sim =
     (case py_words line of
        [] \<Rightarrow> Some (Inr (sim, []))
      | verb # args \<Rightarrow>
          (case map_of (HANDLERS env) verb of
             None \<Rightarrow> Some (Inl RuntimeError)
           | Some handler \<Rightarrow>
               map_option (\<lambda>r. bindR r (\<lambda>(sim, out). Inr (sim, out @ [Print ''.'']))) (handler args sim)))"

fun main_loop :: "stepped_env \<Rightarrow> string list \<Rightarrow> otbn_sim \<Rightarrow> outcome option" where
  "main_loop env [] sim = Some (Inr (sim, []))"
| "main_loop env (line # lines) sim =
     (case on_input env line sim of
        None \<Rightarrow> None
      | Some (Inl e) \<Rightarrow> Some (Inl e)
      | Some (Inr (sim, out)) \<Rightarrow>
          map_option (\<lambda>r. bindR r (\<lambda>(sim, rest). Inr (sim, out @ rest))) (main_loop env lines sim))"

section \<open>Commands keep the invariant\<close>

text \<open>Between commands the simulator satisfies its invariant and the program counter is aligned.\<close>

definition session_ok :: "otbn_sim \<Rightarrow> bool" where
  "session_ok sim \<longleftrightarrow> sim_ok sim \<and> pc (sim_state sim) mod 4 = 0"

lemma pc_arch: "State_arch s = State_arch s' \<Longrightarrow> pc s = pc s'"
  by (simp add: State_arch_def)

lemma running_aligned: "sim_ok sim \<Longrightarrow> running (sim_state sim) \<Longrightarrow> session_ok sim"
  by (simp add: session_ok_def sim_ok_def cycle_ok_def running_ok_def)

lemma step_session_ok:
  assumes "session_ok sim"
  shows "returns (OTBNSim_step False sim) (\<lambda>(_, sim'). session_ok sim')"
proof (cases "running (sim_state sim)")
  case False
  then show ?thesis using assms by (simp add: step_stopped)
next
  case True
  have ok: "sim_ok sim" using assms by (simp add: session_ok_def)
  have h: "session_ok sim'" if "sim_ok sim'" and "running (sim_state sim') \<or> State_arch (sim_state sim') = State_arch (sim_state sim)"
    for sim'
  proof (cases "running (sim_state sim')")
    case False
    then show ?thesis using that pc_arch assms by (metis session_ok_def)
  qed (use that running_aligned in blast)
  then show ?thesis
    using step_running_ok [OF ok True, of False]
    by (auto simp: insn_effect_def intro!: h elim!: returnsE split: if_splits)
qed

lemma serve_rnd_session_ok: "session_ok sim \<Longrightarrow> session_ok (serve_rnd sim)"
  by (simp add: session_ok_def serve_rnd_ok)

lemma runs_in_session_ok: "runs_in False n sim sim' \<Longrightarrow> session_ok sim \<Longrightarrow> session_ok sim'"
proof (induction n sim sim' rule: runs_in.induct)
  case (step sim sim1 n sim')
  obtain x sim2 where "OTBNSim_step False sim = Inr (x, sim2)" "session_ok sim2"
    using step_session_ok [OF step.prems] by (auto elim: returnsE)
  then have "session_ok sim1" using step.hyps(2) by (auto simp: run_step_eq serve_rnd_session_ok)
  then show ?case by (rule step.IH)
qed

lemma on_run_ok:
  assumes "session_ok sim"
  shows "case on_run [] sim of
      None \<Rightarrow> \<nexists>n sim'. runs_in False n (sim_with_urnd sim) sim'
    | Some r \<Rightarrow> returns r (\<lambda>(sim', _). session_ok sim')"
proof -
  have ok: "sim_ok (sim_with_urnd sim)" "session_ok (sim_with_urnd sim)"
    using assms by (auto simp: session_ok_def sim_with_urnd_ok)
      (simp add: sim_with_urnd_def State_set_urnd_reseed_complete_def)
  have eq: "OTBNSim_run False sim = OTBNSim_run_loop False 0 (sim_with_urnd sim)"
    by (simp add: OTBNSim_run_def sim_with_urnd_def)
  show ?thesis
  proof (cases "OTBNSim_run_loop False 0 (sim_with_urnd sim)")
    case None
    then show ?thesis using runs_in_loop [of False _ "sim_with_urnd sim" _ 0] by (auto simp: on_run_def eq)
  next
    case (Some r)
    obtain n sim' where "r = Inr (0 + int n, sim')" "runs_in False n (sim_with_urnd sim) sim'"
      using loop_runs_in [OF Some _ ok(1)] by blast
    then show ?thesis using Some runs_in_session_ok ok(2) by (auto simp: on_run_def eq)
  qed
qed

text \<open>\<^verbatim>\<open>START_ADDR\<close> is an ordinary 32-bit register.\<close>

lemma write_start_addr:
  assumes "ExtRegs_inv otbn_shape e" and "fits 32 a"
  shows "returns (ExtRegs_write ''START_ADDR'' a False e) (\<lambda>e'. ExtRegs_inv otbn_shape (ExtRegs_commit e') \<and>
    ExtRegs_cur (ExtRegs_commit e') ''START_ADDR'' = Some a)"
proof -
  obtain fs0 where fs0: "map_of (regs otbn_ext_regs) ''START_ADDR'' = Some fs0"
    "list_all (\<lambda>f. \<not> read_only f \<and> \<not> w1c f) fs0"
    by (simp add: otbn_ext_regs_def ExtRegs_init_def otbn_reg_block_def bit_field_def word_field_def
        RGField_init_def Let_def)
  obtain fs where fs: "map_of (regs e) ''START_ADDR'' = Some fs" "reg_mask fs = 0xffffffff"
    using otbn_reg [OF assms(1) otbn_masks(4)] by metis
  have "map_of (ext_shape x) n = map_option (map field_shape) (map_of (regs x) n)" for x n
    by (simp add: ext_shape_def map_of_map_values)
  moreover have "ext_shape e = ext_shape otbn_ext_regs" using assms(1) by (simp add: ExtRegs_inv_def otbn_shape_def)
  ultimately have s: "map field_shape fs = map field_shape fs0" using fs0(1) fs(1) by (metis option.inject option.simps(9))
  have p: "list_all (\<lambda>f. \<not> read_only f \<and> \<not> w1c f) gs =
      list_all (\<lambda>(_, _, _, c, r, _). \<not> r \<and> \<not> c) (map field_shape gs)" for gs
    by (simp add: list.pred_map comp_def field_shape_def)
  have "list_all (\<lambda>f. \<not> read_only f \<and> \<not> w1c f) fs"
    using fs0(2) by (simp only: p s)
  then have v: "reg_view (\<lambda>f. sw_write (drop_bit (fld_lsb f) a) f) fs = a"
    using view_sw_write_plain [of fs a] fs(2) assms(2) fits_take_bit_eq [of 32 a] and_low_mask [of a 32]
    by (simp add: low_mask_eq)
  show ?thesis
    using ExtRegs_sw_write [OF assms(1) fs(1) fits_nonneg [OF assms(2)]] v
    by (auto simp: ExtRegs_commit_law elim!: returns_mono)
qed

lemma on_start_ok:
  assumes "session_ok sim" and "py_int0 arg = Some a" and "fits 32 a" and "a mod 4 = 0" and "a < imem_size (sim_state sim)"
  shows "returns (on_start [arg] sim) (\<lambda>(sim', _). session_ok sim')"
proof -
  let ?s = "sim_state sim"
  have ok: "State_inv ?s" "State_quiet ?s" "prog_ok (imem_size ?s) (program sim)"
    using assms(1) by (simp_all add: session_ok_def sim_ok_def cycle_ok_def)
  obtain e where e: "ExtRegs_write ''START_ADDR'' a False (st_ext ?s) = Inr e"
    "ExtRegs_inv otbn_shape (ExtRegs_commit e)" "ExtRegs_cur (ExtRegs_commit e) ''START_ADDR'' = Some a"
    using write_start_addr [OF _ assms(3), of "st_ext ?s"] ok(1) by (auto simp: State_inv_def elim: returnsE)
  let ?sim = "sim\<lparr>sim_state := ?s\<lparr>st_ext := ExtRegs_commit e\<rparr>\<rparr>"
  have "State_inv (sim_state ?sim)" "State_quiet (sim_state ?sim)"
    using ok e(2) by (simp_all add: State_inv_def State_quiet_def)
  then obtain sim' where s': "OTBNSim_start ?sim = Inr sim'" "sim_stalled_at_start sim'"
    using start_ok [of ?sim a] ok(3) e(3) assms(4,5) by (auto elim!: returnsE)
  have "session_ok sim'" using s'(2) running_aligned by (simp add: sim_stalled_at_start_def)
  moreover have "read_word arg 32 = Inr a" using assms(2,3) by (simp add: read_word_def fits_iff_drop py_bool_def)
  ultimately show ?thesis using e(1) s'(1) assms(4) by (simp add: on_start_def and_3)
qed

lemma on_load_d_ok:
  assumes "session_ok sim" and "env_read env path = Inr bs" and "length bs \<le> 32 * length (data (st_dmem (sim_state sim)))"
  shows "returns (on_load_d env [path] sim) (\<lambda>(sim', _). session_ok sim')"
proof -
  let ?s = "sim_state sim"
  have ok: "cycle_ok ?s" "Dmem_inv (length (data (st_dmem ?s))) (st_dmem ?s)"
    using assms(1) by (simp_all add: session_ok_def sim_ok_def cycle_ok_def State_inv_def Dmem_ok_def)
  obtain d' ws where d': "Dmem_load_le_words bs (st_dmem ?s) = Inr d'" "d' = (st_dmem ?s)\<lparr>data := ws\<rparr>"
    "Dmem_inv (length (data (st_dmem ?s))) d'"
    using load_dump [OF ok(2) assms(3)] by (auto simp: bindR_Inr_iff elim!: returnsE)
  have "length (data d') = length (data (st_dmem ?s))" using d'(3) by (simp add: Dmem_inv_def words_ok_def)
  then have "Dmem_ok d'" using d'(3) by (simp add: Dmem_ok_def)
  then have "cycle_ok (?s\<lparr>st_dmem := d'\<rparr>)"
    using ok(1) d'(2) by (simp add: cycle_ok_def State_inv_def State_quiet_def running_ok_def Dmem_quiet_def)
  then have "session_ok (sim\<lparr>sim_state := ?s\<lparr>st_dmem := d'\<rparr>\<rparr>)"
    using assms(1) by (simp add: session_ok_def sim_ok_def cong: option.case_cong)
  then show ?thesis using assms(2) d'(1) by (simp add: on_load_d_def OTBNSim_load_data_def)
qed

lemma on_edn_rnd_data_ok:
  assumes "session_ok sim" and "py_int0 arg = Some v" and "fits 256 v"
  shows "returns (on_edn_rnd_data [arg] sim) (\<lambda>(sim', _). session_ok sim')"
proof -
  have "cycle_ok (State_set_rnd_data v (sim_state sim))"
    using assms(1,3)
    by (simp add: session_ok_def sim_ok_def cycle_ok_def State_set_rnd_data_def State_inv_def State_quiet_def running_ok_def)
  then have "session_ok (sim\<lparr>sim_state := State_set_rnd_data v (sim_state sim)\<rparr>)"
    using assms(1) by (simp add: session_ok_def sim_ok_def State_set_rnd_data_def cong: option.case_cong)
  moreover have "read_word arg 256 = Inr v"
    using assms(2,3) by (simp add: read_word_def fits_iff_drop py_bool_def)
  ultimately show ?thesis by (simp add: on_edn_rnd_data_def)
qed

lemma on_dump_d_ok:
  assumes "session_ok sim"
  shows "returns (on_dump_d [path] sim) (\<lambda>(sim', _). session_ok sim')"
proof -
  have "words_ok (length (data (st_dmem (sim_state sim)))) (data (st_dmem (sim_state sim)))"
    using assms by (simp add: session_ok_def sim_ok_def cycle_ok_def State_inv_def Dmem_ok_def Dmem_inv_def)
  then show ?thesis using assms by (simp add: on_dump_d_def Dmem_dump_le_words_eq)
qed

section \<open>Sessions\<close>

text \<open>
  The commands that the testbench may send to a machine: well-formed arguments, a start address
  inside the instruction memory, data that fits, and a program of well-formed instructions that
  fills the instruction memory.
\<close>

definition line_ok :: "stepped_env \<Rightarrow> otbn_sim \<Rightarrow> string list \<Rightarrow> bool" where
  "line_ok env sim words =
     (case words of
        [] \<Rightarrow> True
      | [verb] \<Rightarrow> verb \<in> {''step'', ''run'', ''print_regs'', ''print_call_stack'', ''edn_urnd_reseed_complete''}
      | [verb, arg] \<Rightarrow>
          verb = ''dump_d'' \<or>
          verb = ''start'' \<and> (case py_int0 arg of
            Some a \<Rightarrow> fits 32 a \<and> a mod 4 = 0 \<and> a < imem_size (sim_state sim) | None \<Rightarrow> False) \<or>
          verb = ''edn_rnd_data'' \<and> (case py_int0 arg of Some v \<Rightarrow> fits 256 v | None \<Rightarrow> False) \<or>
          verb = ''load_d'' \<and> returns (env_read env arg) (\<lambda>bs.
            length bs \<le> 32 * length (data (st_dmem (sim_state sim)))) \<or>
          verb = ''load_i'' \<and> returns (decode_file env 0 arg) (prog_ok (imem_size (sim_state sim)))
      | _ \<Rightarrow> False)"

inductive session :: "stepped_env \<Rightarrow> otbn_sim \<Rightarrow> otbn_sim \<Rightarrow> bool" for env where
  init: "session env sim sim"
| command: "session env sim0 sim \<Longrightarrow> line_ok env sim (py_words line) \<Longrightarrow>
    on_input env line sim = Some (Inr (sim', out)) \<Longrightarrow> session env sim0 sim'"

lemma on_load_i_ok:
  assumes "session_ok sim" and "returns (decode_file env 0 path) (prog_ok (imem_size (sim_state sim)))"
  shows "returns (on_load_i env [path] sim) (\<lambda>(sim', _). session_ok sim')"
  using assms
  by (auto simp: on_load_i_def OTBNSim_load_program_def session_ok_def sim_ok_def elim!: returnsE cong: option.case_cong)

lemma on_step_ok: "session_ok sim \<Longrightarrow> returns (on_step [] sim) (\<lambda>(sim', _). session_ok sim')"
proof -
  assume ok: "session_ok sim"
  then have "pc (sim_state sim) AND 3 = 0" using and_3 [of "pc (sim_state sim)"] by (simp add: session_ok_def py_bool_def)
  then show ?thesis using step_session_ok [OF ok] by (auto simp: on_step_def Let_def elim!: returnsE)
qed

lemma on_edn_urnd_ok: "session_ok sim \<Longrightarrow> returns (on_edn_urnd_reseed_complete [] sim) (\<lambda>(sim', _). session_ok sim')"
  using sim_with_urnd_ok [of sim]
  by (simp add: on_edn_urnd_reseed_complete_def session_ok_def sim_with_urnd_def State_set_urnd_reseed_complete_def)

lemma handlers:
  "map_of (HANDLERS env) ''start'' = Some (\<lambda>args sim. Some (on_start args sim))"
  "map_of (HANDLERS env) ''step'' = Some (\<lambda>args sim. Some (on_step args sim))"
  "map_of (HANDLERS env) ''run'' = Some on_run"
  "map_of (HANDLERS env) ''load_d'' = Some (\<lambda>args sim. Some (on_load_d env args sim))"
  "map_of (HANDLERS env) ''load_i'' = Some (\<lambda>args sim. Some (on_load_i env args sim))"
  "map_of (HANDLERS env) ''dump_d'' = Some (\<lambda>args sim. Some (on_dump_d args sim))"
  "map_of (HANDLERS env) ''print_regs'' = Some (\<lambda>args sim. Some (on_print_regs args sim))"
  "map_of (HANDLERS env) ''print_call_stack'' = Some (\<lambda>args sim. Some (on_print_call_stack args sim))"
  "map_of (HANDLERS env) ''edn_rnd_data'' = Some (\<lambda>args sim. Some (on_edn_rnd_data args sim))"
  "map_of (HANDLERS env) ''edn_urnd_reseed_complete'' = Some (\<lambda>args sim. Some (on_edn_urnd_reseed_complete args sim))"
  by (simp_all add: HANDLERS_def)

lemma handler_ok:
  assumes "session_ok sim" and "line_ok env sim (verb # args)"
  shows "\<exists>handler. map_of (HANDLERS env) verb = Some handler \<and>
    (case handler args sim of
       None \<Rightarrow> verb # args = [''run''] \<and> (\<nexists>n sim'. runs_in False n (sim_with_urnd sim) sim')
     | Some r \<Rightarrow> returns r (\<lambda>(sim', _). session_ok sim'))"
proof (cases args)
  case Nil
  then have "verb \<in> {''step'', ''run'', ''print_regs'', ''print_call_stack'', ''edn_urnd_reseed_complete''}"
    using assms(2) unfolding line_ok_def by (simp only: list.case)
  then consider "verb = ''step''" | "verb = ''run''" | "verb = ''print_regs''" | "verb = ''print_call_stack''" |
    "verb = ''edn_urnd_reseed_complete''"
    unfolding insert_iff empty_iff by blast
  then show ?thesis
  proof cases
    case 2
    then show ?thesis using on_run_ok [OF assms(1)] by (cases "on_run [] sim") (simp_all add: handlers Nil)
  qed (use assms(1) Nil on_step_ok on_edn_urnd_ok in
      \<open>simp_all add: handlers on_print_regs_def on_print_call_stack_def Let_def\<close>)
next
  case (Cons arg rest)
  then have r: "rest = []" using assms(2) by (auto simp: line_ok_def split: list.splits)
  note l = assms(2) [unfolded Cons r line_ok_def list.case]
  consider "verb = ''dump_d''" | a where "verb = ''start''" "py_int0 arg = Some a" "fits 32 a" "a mod 4 = 0" "a < imem_size (sim_state sim)"
    | v where "verb = ''edn_rnd_data''" "py_int0 arg = Some v" "fits 256 v"
    | bs where "verb = ''load_d''" "env_read env arg = Inr bs" "length bs \<le> 32 * length (data (st_dmem (sim_state sim)))"
    | "verb = ''load_i''" "returns (decode_file env 0 arg) (prog_ok (imem_size (sim_state sim)))"
    using l by (elim disjE conjE returnsE; (cases "py_int0 arg")?) (simp_all only: option.case, blast+)
  then show ?thesis
    by cases (use assms(1) on_dump_d_ok on_start_ok on_edn_rnd_data_ok on_load_d_ok on_load_i_ok in
      \<open>simp_all add: handlers Cons r\<close>)
qed

lemma on_input_ok:
  assumes "session_ok sim" and "line_ok env sim (py_words line)"
  shows "case on_input env line sim of
      None \<Rightarrow> py_words line = [''run''] \<and> (\<nexists>n sim'. runs_in False n (sim_with_urnd sim) sim')
    | Some r \<Rightarrow> returns r (\<lambda>(sim', out). session_ok sim' \<and> (py_words line \<noteq> [] \<longrightarrow> last out = Print ''.''))"
proof (cases "py_words line")
  case Nil
  then show ?thesis using assms(1) by (simp add: on_input_def)
next
  case (Cons verb args)
  obtain handler where h: "map_of (HANDLERS env) verb = Some handler"
    "case handler args sim of
       None \<Rightarrow> verb # args = [''run''] \<and> (\<nexists>n sim'. runs_in False n (sim_with_urnd sim) sim')
     | Some r \<Rightarrow> returns r (\<lambda>(sim', _). session_ok sim')"
    using handler_ok [OF assms(1)] assms(2) Cons by metis
  show ?thesis
    by (cases "handler args sim") (use h Cons in \<open>auto simp: on_input_def elim!: returnsE\<close>)
qed

text \<open>
  C5: sessions are safe.  Start from a simulator that satisfies the invariant and send it any
  sequence of admissible commands (step, run, start at an aligned address inside the instruction
  memory, loads of data that fits and of programs that fill the memory, dumps, prints, EDN data
  and reseeds), in any order and also in the middle of a run.  Every state reached satisfies the
  invariant, and the next admissible command raises nothing, is answered by the line \<^verbatim>\<open>.\<close>, and
  re-establishes the invariant; the only command that may not return is \<^verbatim>\<open>run\<close>, and only when the
  machine never stops.
\<close>

theorem session_safe:
  assumes "session_ok sim0" and "session env sim0 sim" and "line_ok env sim (py_words line)"
  shows "session_ok sim \<and> (case on_input env line sim of
      None \<Rightarrow> py_words line = [''run''] \<and> (\<nexists>n sim'. runs_in False n (sim_with_urnd sim) sim')
    | Some r \<Rightarrow> returns r (\<lambda>(sim', out). session_ok sim' \<and> (py_words line \<noteq> [] \<longrightarrow> last out = Print ''.'')))"
proof -
  have "session_ok sim"
    using assms(2,1)
  proof (induction rule: session.induct)
    case (command sim0 sim line sim' out)
    then show ?case using on_input_ok [of sim env line] by auto
  qed
  then show ?thesis using on_input_ok assms(3) by blast
qed

definition demo_env :: stepped_env where
  "demo_env = \<lparr>env_read = (\<lambda>path. if path = ''d.bin'' then Inr [1, 2, 3] else Inl ValueError),
               env_elf = (\<lambda>path. Inr demo_elf), env_windows = demo_windows, env_classes = demo_classes\<rparr>"

theorem session_safe_witness:
  "case on_input demo_env ''start 0x4'' demo_sim of None \<Rightarrow> False | Some r \<Rightarrow> returns r (\<lambda>(sim', out). session_ok sim')"
proof -
  have "sim_ok demo_sim" "pc (sim_state demo_sim) = 0"
    using demo_sim_state(1-3) by (auto simp: sim_ok_def cycle_ok_def demo_sim_def otbn_reset_def)
  then have ok: "session_ok demo_sim" by (simp add: session_ok_def)
  have w: "py_words ''start 0x4'' = [''start'', ''0x4'']" and i: "py_int0 ''0x4'' = Some 4" by code_simp+
  have "line_ok demo_env demo_sim (py_words ''start 0x4'')"
    unfolding w using i by (simp add: line_ok_def fits_iff demo_sim_def)
  from session_safe [OF ok session.init this] show ?thesis
    unfolding w by (auto elim!: returns_mono split: option.splits)
qed

end
