(* ===== verification/Bn_Refinement.thy ===== *)
theory Bn_Refinement
  imports Sim_Run
begin

text \<open>
  An instruction-set specification of the big-number instructions on 256-bit machine words, and the
  refinement theorem that a step of the simulator implements it.

  The specification \<open>bn_step\<close> acts on the architectural state only and is written with word
  arithmetic; the simulator computes with unbounded Python integers, masks, and stages every
  effect until the commit.
\<close>

section \<open>The specification\<close>

type_synonym u256 = "256 word"

definition wdr :: "otbn_arch \<Rightarrow> int \<Rightarrow> u256" where
  "wdr a i = word_of_int (a_wdrs a ! nat i)"

definition mod_wsr :: "otbn_arch \<Rightarrow> u256" where
  "mod_wsr a = word_of_int (fst (a_mod_acc a))"

definition acc_wsr :: "otbn_arch \<Rightarrow> u256" where
  "acc_wsr a = word_of_int (snd (a_mod_acc a))"

definition set_wdr :: "int \<Rightarrow> u256 \<Rightarrow> otbn_arch \<Rightarrow> otbn_arch" where
  "set_wdr i w a = a\<lparr>a_wdrs := (a_wdrs a)[nat i := uint w]\<rparr>"

definition set_acc :: "u256 \<Rightarrow> otbn_arch \<Rightarrow> otbn_arch" where
  "set_acc w a = a\<lparr>a_mod_acc := (fst (a_mod_acc a), uint w)\<rparr>"

definition set_flag_group :: "int \<Rightarrow> flag_vals \<Rightarrow> otbn_arch \<Rightarrow> otbn_arch" where
  "set_flag_group fg f a =
     a\<lparr>a_flags := (if fg = 0 then (f, snd (a_flags a)) else (fst (a_flags a), f))\<rparr>"

text \<open>Carry, most significant bit, least significant bit and zero flag of a result.\<close>

definition word_flags :: "bool \<Rightarrow> u256 \<Rightarrow> flag_vals" where
  "word_flags c w = FlagReg c (bit w 255) (bit w 0) (w = 0)"

definition shift_word :: "int \<Rightarrow> int \<Rightarrow> u256 \<Rightarrow> u256" where
  "shift_word st sb w = (if st = 0 then push_bit (nat (8 * sb)) w else drop_bit (nat (8 * sb)) w)"

definition quarter :: "u256 \<Rightarrow> int \<Rightarrow> u256" where
  "quarter w q = take_bit 64 (drop_bit (nat (q * 64)) w)"

definition add_with :: "bool \<Rightarrow> int \<Rightarrow> int \<Rightarrow> u256 \<Rightarrow> u256 \<Rightarrow> otbn_arch \<Rightarrow> otbn_arch" where
  "add_with c wrd fg x y a =
     (let r = x + y + of_bool c
      in set_flag_group fg (word_flags (2 ^ 256 \<le> uint x + uint y + of_bool c) r) (set_wdr wrd r a))"

definition sub_flags :: "bool \<Rightarrow> u256 \<Rightarrow> u256 \<Rightarrow> flag_vals" where
  "sub_flags c x y = word_flags (uint x < uint y + of_bool c) (x - y - of_bool c)"

definition sub_with :: "bool \<Rightarrow> int \<Rightarrow> int \<Rightarrow> u256 \<Rightarrow> u256 \<Rightarrow> otbn_arch \<Rightarrow> otbn_arch" where
  "sub_with c wrd fg x y a = set_flag_group fg (sub_flags c x y) (set_wdr wrd (x - y - of_bool c) a)"

definition logic_with :: "int \<Rightarrow> int \<Rightarrow> u256 \<Rightarrow> otbn_arch \<Rightarrow> otbn_arch" where
  "logic_with wrd fg r a = set_flag_group fg (word_flags (flag_C (arch_flags a fg)) r) (set_wdr wrd r a)"

definition mulq :: "int \<Rightarrow> u256 \<Rightarrow> int \<Rightarrow> u256 \<Rightarrow> int \<Rightarrow> int \<Rightarrow> otbn_arch \<Rightarrow> u256" where
  "mulq za x q1 y q2 sh a = (if za = 0 then acc_wsr a else 0) + push_bit (nat sh) (quarter x q1 * quarter y q2)"

text \<open>Half-word number \<open>hw\<close> of a word replaced, and the flags of that half: \<^verbatim>\<open>L\<close> and \<^verbatim>\<open>Z\<close> for the low one, \<^verbatim>\<open>M\<close> and \<^verbatim>\<open>Z\<close> for the high one.\<close>

definition set_half :: "int \<Rightarrow> u256 \<Rightarrow> u256 \<Rightarrow> u256" where
  "set_half hw lo w =
     (if hw = 0 then push_bit 128 (drop_bit 128 w) OR lo else push_bit 128 lo OR take_bit 128 w)"

definition half_flags :: "int \<Rightarrow> u256 \<Rightarrow> flag_vals \<Rightarrow> flag_vals" where
  "half_flags hw lo f =
     (if hw = 0 then FlagReg (flag_C f) (flag_M f) (bit lo 0) (lo = 0)
      else FlagReg (flag_C f) (bit lo 127) (flag_L f) (flag_Z f \<and> lo = 0))"

fun bn_step :: "otbn_insn \<Rightarrow> otbn_arch \<Rightarrow> otbn_arch option" where
  "bn_step (BNADD wrd wrs1 wrs2 st sb fg) a = Some (add_with False wrd fg (wdr a wrs1) (shift_word st sb (wdr a wrs2)) a)"
| "bn_step (BNADDC wrd wrs1 wrs2 st sb fg) a =
     Some (add_with (flag_C (arch_flags a fg)) wrd fg (wdr a wrs1) (shift_word st sb (wdr a wrs2)) a)"
| "bn_step (BNADDI wrd wrs imm fg) a =
     (if fits 10 imm then Some (add_with False wrd fg (wdr a wrs) (word_of_int imm) a) else None)"
| "bn_step (BNADDM wrd wrs1 wrs2) a =
     (let x = wdr a wrs1; y = wdr a wrs2; m = mod_wsr a
      in Some (set_wdr wrd (if uint m \<le> uint x + uint y then x + y - m else x + y) a))"
| "bn_step (BNMULQACC za wrs1 q1 wrs2 q2 sh) a = Some (set_acc (mulq za (wdr a wrs1) q1 (wdr a wrs2) q2 sh a) a)"
| "bn_step (BNMULQACCWO za wrd wrs1 q1 wrs2 q2 sh fg) a =
     (let r = mulq za (wdr a wrs1) q1 (wdr a wrs2) q2 sh a in Some (logic_with wrd fg r (set_acc r a)))"
| "bn_step (BNMULQACCSO za wrd hw wrs1 q1 wrs2 q2 sh fg) a =
     (let r = mulq za (wdr a wrs1) q1 (wdr a wrs2) q2 sh a; lo = take_bit 128 r
      in Some (set_flag_group fg (half_flags hw lo (arch_flags a fg))
           (set_acc (drop_bit 128 r) (set_wdr wrd (set_half hw lo (wdr a wrd)) a))))"
| "bn_step (BNSUB wrd wrs1 wrs2 st sb fg) a = Some (sub_with False wrd fg (wdr a wrs1) (shift_word st sb (wdr a wrs2)) a)"
| "bn_step (BNSUBB wrd wrs1 wrs2 st sb fg) a =
     Some (sub_with (flag_C (arch_flags a fg)) wrd fg (wdr a wrs1) (shift_word st sb (wdr a wrs2)) a)"
| "bn_step (BNSUBI wrd wrs imm fg) a =
     (if fits 10 imm then Some (sub_with False wrd fg (wdr a wrs) (word_of_int imm) a) else None)"
| "bn_step (BNSUBM wrd wrs1 wrs2) a =
     (let x = wdr a wrs1; y = wdr a wrs2
      in Some (set_wdr wrd (if x < y then x - y + mod_wsr a else x - y) a))"
| "bn_step (BNAND wrd wrs1 wrs2 st sb fg) a = Some (logic_with wrd fg (wdr a wrs1 AND shift_word st sb (wdr a wrs2)) a)"
| "bn_step (BNOR wrd wrs1 wrs2 st sb fg) a = Some (logic_with wrd fg (wdr a wrs1 OR shift_word st sb (wdr a wrs2)) a)"
| "bn_step (BNNOT wrd wrs st sb fg) a = Some (logic_with wrd fg (NOT (shift_word st sb (wdr a wrs))) a)"
| "bn_step (BNXOR wrd wrs1 wrs2 st sb fg) a = Some (logic_with wrd fg (wdr a wrs1 XOR shift_word st sb (wdr a wrs2)) a)"
| "bn_step (BNRSHI wrd wrs1 wrs2 imm) a =
     Some (set_wdr wrd (ucast (drop_bit (nat imm) (word_cat (wdr a wrs1) (wdr a wrs2) :: 512 word))) a)"
| "bn_step (BNSEL wrd wrs1 wrs2 fg flag) a =
     (let f = arch_flags a fg; b = (if flag = 0 then flag_C f else if flag = 1 then flag_M f else if flag = 2 then flag_L f else flag_Z f)
      in Some (set_wdr wrd (wdr a (if b then wrs1 else wrs2)) a))"
| "bn_step (BNCMP wrs1 wrs2 st sb fg) a =
     Some (set_flag_group fg (sub_flags False (wdr a wrs1) (shift_word st sb (wdr a wrs2))) a)"
| "bn_step (BNCMPB wrs1 wrs2 st sb fg) a =
     Some (set_flag_group fg (sub_flags (flag_C (arch_flags a fg)) (wdr a wrs1) (shift_word st sb (wdr a wrs2))) a)"
| "bn_step (BNMOV wrd wrs) a = Some (set_wdr wrd (wdr a wrs) a)"
| "bn_step _ a = None"

section \<open>Accesses on a quiet machine\<close>

definition put_wdr :: "int \<Rightarrow> int \<Rightarrow> otbn_state \<Rightarrow> otbn_state" where
  "put_wdr i v s =
     s\<lparr>st_wdrs := (st_wdrs s)\<lparr>registers := (registers (st_wdrs s))[nat i := (registers (st_wdrs s) ! nat i)\<lparr>next_uval := Some v\<rparr>],
                             pending_writes := List.insert i (pending_writes (st_wdrs s))\<rparr>\<rparr>"

definition put_acc :: "int \<Rightarrow> otbn_state \<Rightarrow> otbn_state" where
  "put_acc v s = s\<lparr>st_wsrs := (st_wsrs s)\<lparr>ACC := (ACC (st_wsrs s))\<lparr>wsr_next := Some v\<rparr>\<rparr>\<rparr>"

definition put_flags :: "int \<Rightarrow> flag_vals \<Rightarrow> otbn_state \<Rightarrow> otbn_state" where
  "put_flags fg f s =
     s\<lparr>st_flags := (if fg = 0 then (st_flags s)\<lparr>dirty := True, group0 := FlagReg_set_flags f (group0 (st_flags s))\<rparr>
                    else (st_flags s)\<lparr>dirty := True, group1 := FlagReg_set_flags f (group1 (st_flags s))\<rparr>)\<rparr>"

lemma word_of_fits: "fits 256 v \<Longrightarrow> uint (word_of_int v :: u256) = v"
  by (simp add: uint_word_of_int_eq fits_take_bit_eq)

lemma uint_fits [simp]: "fits 256 (uint (w :: u256))"
  using uint_lt2p [of w] by (simp add: fits_iff)

lemma arch_values:
  assumes "State_inv s"
  shows "reg_ok i \<Longrightarrow> RegFile_cur (st_wdrs s) ! nat i = uint (wdr (State_arch s) i)"
    and "wsr_value (MOD (st_wsrs s)) = uint (mod_wsr (State_arch s))"
    and "wsr_value (ACC (st_wsrs s)) = uint (acc_wsr (State_arch s))"
proof -
  have w: "RegFile_inv 256 32 (st_wdrs s)" "WSRFile_inv (st_wsrs s)" using assms by (simp_all add: State_inv_def)
  show "RegFile_cur (st_wdrs s) ! nat i = uint (wdr (State_arch s) i)" if "reg_ok i"
  proof -
    have "nat i < 32" using that by (simp add: reg_ok_def nat_less_iff)
    from RegFile_cur_fits [OF w(1) this] show ?thesis by (simp add: wdr_def State_arch_def word_of_fits)
  qed
  show "wsr_value (MOD (st_wsrs s)) = uint (mod_wsr (State_arch s))" "wsr_value (ACC (st_wsrs s)) = uint (acc_wsr (State_arch s))"
    using w(2) by (simp_all add: mod_wsr_def acc_wsr_def State_arch_def WSRFile_cur_def WSRFile_inv_def DumbWSR_inv_def word_of_fits)
qed

lemma wdr_read_eq: "State_inv s \<Longrightarrow> reg_ok i \<Longrightarrow> wdr_read i s = Inr (uint (wdr (State_arch s) i), s)"
  using RegFile_read_unsigned_eq [of 256 32 "st_wdrs s" i] arch_values(1) [of s i]
  by (simp add: wdr_read_def State_inv_def reg_ok_def)

lemma wdr_write_eq: "State_inv s \<Longrightarrow> reg_ok i \<Longrightarrow> wdr_write i (uint (w :: u256)) s = Inr ((), put_wdr i (uint w) s)"
  using RegFile_write_unsigned_eq [of 256 32 "st_wdrs s" i "uint w"]
  by (simp add: wdr_write_def updS_def put_wdr_def State_inv_def reg_ok_def)

lemma mod_read_eq: "State_inv s \<Longrightarrow> mod_read s = Inr (uint (mod_wsr (State_arch s)), s)"
  and acc_read_eq: "State_inv s \<Longrightarrow> acc_read s = Inr (uint (acc_wsr (State_arch s)), s)"
  using arch_values(2,3) [of s] by (simp_all add: mod_read_def acc_read_def getS_def DumbWSR_read_unsigned_def)

lemma acc_write_eq: "acc_write (uint (w :: u256)) s = Inr ((), put_acc (uint w) s)"
  using uint_fits [of w] by (simp add: acc_write_def updS_def put_acc_def DumbWSR_write_unsigned_def)

lemma flags_set_eq: "flag_group_ok fg \<Longrightarrow> flags_set fg f s = Inr ((), put_flags fg f s)"
  by (simp add: flags_set_def updS_def State_set_flags_def FlagGroups_setitem_def put_flags_def flag_group_ok_def)

lemma flags_get_eq:
  "flag_group_ok fg \<Longrightarrow> flags_get fg s = Inr (if fg = 0 then group0 (st_flags s) else group1 (st_flags s), s)"
  by (auto simp: flags_get_def FlagGroups_getitem_def flag_group_ok_def)

lemma arch_flags_fields:
  "flag_C (if fg = 0 then group0 (st_flags s) else group1 (st_flags s)) = flag_C (arch_flags (State_arch s) fg)"
  "flag_M (if fg = 0 then group0 (st_flags s) else group1 (st_flags s)) = flag_M (arch_flags (State_arch s) fg)"
  "flag_L (if fg = 0 then group0 (st_flags s) else group1 (st_flags s)) = flag_L (arch_flags (State_arch s) fg)"
  "flag_Z (if fg = 0 then group0 (st_flags s) else group1 (st_flags s)) = flag_Z (arch_flags (State_arch s) fg)"
  by (simp_all add: arch_flags_def State_arch_def FlagGroups_cur_def flag_vals_of_def FlagReg_def)

lemma mlz_word: "FlagReg_mlz_for_result c (uint (w :: u256)) = word_flags c w"
proof -
  have "py_bool (uint w AND 1) = bit w 0" using py_bool_bit [of 0 "uint w"] by (simp add: bit_uint_iff)
  moreover have "py_bool (drop_bit 255 (uint w) AND 1) = bit w 255" by (simp only: py_bool_bit bit_uint_iff) simp
  ultimately show ?thesis by (simp add: FlagReg_mlz_for_result_def word_flags_def uint_0_iff)
qed

lemma mlz_flags_set_eq:
  "flag_group_ok fg \<Longrightarrow> mlz_flags_set fg (uint (w :: u256)) s =
   Inr ((), put_flags fg (word_flags (flag_C (arch_flags (State_arch s) fg)) w) s)"
  using arch_flags_fields(1) [of fg s]
  by (auto simp: mlz_flags_set_def updS_def State_set_mlz_flags_def State_set_flags_def FlagGroups_getitem_def
      FlagGroups_setitem_def flag_group_ok_def mlz_word put_flags_def)

lemma bn_result_word: "bn_result v = (uint (word_of_int v :: u256), word_flags (bit v 256) (word_of_int v))"
  using mlz_word [of "bit v 256" "word_of_int v"]
  by (simp add: bn_result_def and_low_mask py_bool_bit uint_word_of_int_eq Let_def)

lemma bit_256_add: "0 \<le> v \<Longrightarrow> v < 2 ^ 257 \<Longrightarrow> bit v 256 \<longleftrightarrow> 2 ^ 256 \<le> (v :: int)"
proof -
  assume "0 \<le> v" "v < 2 ^ 257"
  then have "v div 2 ^ 256 = (if 2 ^ 256 \<le> v then 1 else 0)" by (auto intro: div_pos_pos_trivial int_div_pos_eq [of _ _ _ "v - 2 ^ 256"])
  then show ?thesis by (simp add: bit_iff_odd)
qed

lemma bit_256_sub: "- (2 ^ 256) \<le> v \<Longrightarrow> v < 2 ^ 256 \<Longrightarrow> bit v 256 \<longleftrightarrow> (v :: int) < 0"
proof -
  assume "- (2 ^ 256) \<le> v" "v < 2 ^ 256"
  then have "v div 2 ^ 256 = (if v < 0 then - 1 else 0)" by (auto intro: div_pos_pos_trivial int_div_pos_eq [of _ _ _ "v + 2 ^ 256"])
  then show ?thesis by (simp add: bit_iff_odd)
qed

lemma bn_result_add:
  "bn_result (uint x + uint y + of_bool c) =
   (uint (x + y + of_bool c), word_flags (2 ^ 256 \<le> uint x + uint y + of_bool c) (x + y + of_bool c))"
proof -
  have "uint x < 2 ^ 256" "uint y < 2 ^ 256" using uint_lt2p [of x] uint_lt2p [of y] by simp_all
  then have "bit (uint x + uint y + of_bool c) 256 \<longleftrightarrow> 2 ^ 256 \<le> uint x + uint y + of_bool c"
    by (intro bit_256_add) (simp_all add: of_bool_def)
  moreover have "word_of_int (uint x + uint y + of_bool c) = x + y + of_bool c" by (simp add: of_bool_def)
  ultimately show ?thesis by (simp only: bn_result_word)
qed

lemma bn_result_sub:
  "bn_result (uint x - uint y - of_bool c) = (uint (x - y - of_bool c), sub_flags c x y)"
proof -
  have "uint x < 2 ^ 256" "uint y < 2 ^ 256" "0 \<le> uint x" "0 \<le> uint y" "0 \<le> (of_bool c :: int)" "(of_bool c :: int) \<le> 1"
    using uint_lt2p [of x] uint_lt2p [of y] by simp_all
  then have "bit (uint x - uint y - of_bool c) 256 \<longleftrightarrow> uint x - uint y - of_bool c < 0"
    by (intro bit_256_sub) linarith+
  moreover have "word_of_int (uint x - uint y - of_bool c) = x - y - of_bool c" by (simp add: of_bool_def)
  ultimately show ?thesis by (simp only: bn_result_word sub_flags_def) (simp add: algebra_simps)
qed

lemma shift_word_eq: "shift_ok st sb \<Longrightarrow> logical_byte_shift (uint w) st sb = Inr (uint (shift_word st sb w))"
proof -
  assume ok: "shift_ok st sb"
  have "0 \<le> uint w \<and> uint w \<le> low_mask 256" using uint_fits [of w] by (simp add: fits_iff low_mask_eq)
  then have "logical_byte_shift (uint w) st sb = Inr (take_bit 256
      (if st = 0 then push_bit (nat (8 * sb)) (uint w) else drop_bit (nat (8 * sb)) (uint w)))"
    using ok by (simp add: logical_byte_shift_def shift_ok_def and_low_mask Let_def)
  moreover have "take_bit 256 (drop_bit k (uint w)) = drop_bit k (uint w)" for k
    by (rule fits_take_bit_eq [OF fits_drop_bit [OF uint_fits]])
  ultimately show ?thesis
    by (simp add: shift_word_def unsigned_push_bit_eq unsigned_drop_bit_eq fits_take_bit_eq [OF uint_fits])
qed

lemma quarter_eq: "qw_ok q \<Longrightarrow> extract_quarter_word (uint w) q = Inr (uint (quarter w q))"
  using uint_fits [of w]
  by (simp add: extract_quarter_word_def qw_ok_def quarter_def fits_def and_low_mask unsigned_take_bit_eq
      unsigned_drop_bit_eq fits_take_bit_eq [OF uint_fits])

section \<open>Staged effects\<close>

lemma pend_put_wdr: "State_pend (put_wdr i (uint w) s) = set_wdr i w (State_pend s)"
  by (simp add: State_pend_def put_wdr_def set_wdr_def RegFile_pend_def map_update Reg_pend_def State_get_next_pc_def
      split: option.split)

lemma pend_put_acc: "State_pend (put_acc (uint w) s) = set_acc w (State_pend s)"
  by (simp add: State_pend_def put_acc_def set_acc_def WSRFile_pend_def DumbWSR_pend_def State_get_next_pc_def
      split: option.split)

lemma pend_put_flags: "State_pend (put_flags fg f s) = set_flag_group fg f (State_pend s)"
  by (simp add: State_pend_def put_flags_def set_flag_group_def FlagGroups_pend_def FlagReg_pend_def FlagReg_set_flags_def
      State_get_next_pc_def split: option.split)

lemmas pend_puts = pend_put_wdr pend_put_acc pend_put_flags

lemma put_frames:
  "State_arch (put_acc v s) = State_arch s" "State_arch (put_flags fg f s) = State_arch s"
  "put_wdr i v s = s\<lparr>st_wdrs := st_wdrs (put_wdr i v s)\<rparr>"
  "put_acc v s = s\<lparr>st_wsrs := st_wsrs (put_acc v s)\<rparr>"
  "put_flags fg f s = s\<lparr>st_flags := st_flags (put_flags fg f s)\<rparr>"
  by (simp_all add: State_arch_def put_acc_def put_flags_def put_wdr_def WSRFile_cur_def FlagGroups_cur_def flag_vals_of_def
      FlagReg_set_flags_def)

lemma arch_put_wdr: "State_arch (put_wdr i v s) = State_arch s"
proof -
  have "map uval ((registers r)[k := (registers r ! k)\<lparr>next_uval := Some v\<rparr>]) = map uval (registers r)" for r :: regfile and k
    by (simp add: map_update) (metis list_update_id map_update)
  then show ?thesis by (simp add: State_arch_def put_wdr_def RegFile_cur_def)
qed

lemma quiet_pend: "State_inv s \<Longrightarrow> State_quiet s \<Longrightarrow> State_pend s = (State_arch s)\<lparr>a_pc := pc s + 4\<rparr>"
  using GPRs_quiet_pend [of "st_gprs s"] RegFile_quiet_pend [of 256 32 "st_wdrs s"]
    flags_staged.quiet_pend [of "st_flags s"] wsr_file_staged.quiet_pend [of "st_wsrs s"]
  by (simp add: State_inv_def State_quiet_def State_pend_def State_arch_def State_get_next_pc_def Dmem_quiet_def Dmem_pend_def)

section \<open>Execution\<close>

lemma masked_word: "v AND low_mask 256 = uint (word_of_int v :: u256)"
  by (simp add: and_low_mask uint_word_of_int_eq)

lemma uint_logic:
  "uint x AND uint y = uint (x AND y :: u256)" "uint x OR uint y = uint (x OR y :: u256)"
  "uint x XOR uint y = uint (x XOR y :: u256)" "uint x XOR low_mask 256 = uint (NOT x :: u256)"
proof -
  show "uint x AND uint y = uint (x AND y :: u256)" "uint x OR uint y = uint (x OR y :: u256)"
    "uint x XOR uint y = uint (x XOR y :: u256)"
    by (simp_all add: unsigned_and_eq unsigned_or_eq unsigned_xor_eq)
  have "NOT x = x XOR - 1" by simp
  moreover have "uint (- 1 :: u256) = low_mask 256" by (simp add: low_mask_eq unsigned_minus_1_eq_mask mask_eq_exp_minus_1)
  ultimately show "uint x XOR low_mask 256 = uint (NOT x :: u256)" by (metis unsigned_xor_eq)
qed

lemma rshi_word:
  "(word_of_int (drop_bit n (push_bit 256 (uint x)) OR drop_bit n (uint y)) :: u256) =
   ucast (drop_bit n (word_cat (x :: u256) (y :: u256) :: 512 word))"
proof (rule bit_word_eqI)
  fix k assume "k < LENGTH(256)"
  moreover have "bit x (n + k - 256) \<Longrightarrow> n + k - 256 < 256" using bit_imp_le_length [of x] by fastforce
  moreover have "bit y (n + k) \<Longrightarrow> n + k < 256" using bit_imp_le_length [of y] by fastforce
  ultimately show "bit (word_of_int (drop_bit n (push_bit 256 (uint x)) OR drop_bit n (uint y)) :: u256) k =
      bit (ucast (drop_bit n (word_cat x y :: 512 word)) :: u256) k"
    by (auto simp: bit_word_of_int_iff bit_or_iff bit_drop_bit_eq bit_push_bit_iff bit_uint_iff bit_ucast_iff bit_word_cat_iff)
qed

definition bn_exec :: "otbn_insn \<Rightarrow> otbn_state \<Rightarrow> otbn_arch \<Rightarrow> bool" where
  "bn_exec i s a' \<longleftrightarrow> (\<exists>s1. execute i s = Inr ((), s1) \<and> State_pend s1 = a'\<lparr>a_pc := pc s + 4\<rparr> \<and>
     (\<exists>w f x. s1 = s\<lparr>st_wdrs := w, st_flags := f, st_wsrs := x\<rparr>))"

lemma bn_execI:
  assumes "execute i s = Inr ((), s1)" and "State_pend s1 = a'\<lparr>a_pc := pc s + 4\<rparr>"
    and "s1 = s\<lparr>st_wdrs := w, st_flags := f, st_wsrs := x\<rparr>"
  shows "bn_exec i s a'"
  using assms unfolding bn_exec_def by blast

lemma frame_puts:
  "put_flags fg f (put_wdr i v s) = s\<lparr>st_wdrs := st_wdrs (put_wdr i v s), st_flags := st_flags (put_flags fg f s), st_wsrs := st_wsrs s\<rparr>"
  "put_flags fg f s = s\<lparr>st_wdrs := st_wdrs s, st_flags := st_flags (put_flags fg f s), st_wsrs := st_wsrs s\<rparr>"
  "put_wdr i v s = s\<lparr>st_wdrs := st_wdrs (put_wdr i v s), st_flags := st_flags s, st_wsrs := st_wsrs s\<rparr>"
  "put_acc u s = s\<lparr>st_wdrs := st_wdrs s, st_flags := st_flags s, st_wsrs := st_wsrs (put_acc u s)\<rparr>"
  "put_flags fg f (put_acc u (put_wdr i v s)) =
     s\<lparr>st_wdrs := st_wdrs (put_wdr i v s), st_flags := st_flags (put_flags fg f s), st_wsrs := st_wsrs (put_acc u s)\<rparr>"
  by (simp_all add: put_flags_def put_wdr_def put_acc_def)

lemmas exec_eqs = bindS_def liftS_def wdr_read_eq wdr_write_eq mod_read_eq acc_read_eq acc_write_eq flags_set_eq flags_get_eq
  mlz_flags_set_eq shift_word_eq quarter_eq py_lshift_def py_rshift_def arch_flags_fields put_frames(1,2) arch_put_wdr
  py_int_of_bool masked_word uint_logic Let_def

lemmas spec_defs = add_with_def sub_with_def logic_with_def set_wdr_def set_acc_def set_flag_group_def Let_def

lemma bn_arith_exec:
  assumes "State_inv s" and "State_quiet s" and "reg_ok wrd" and "reg_ok wrs1" and "reg_ok wrs2" and "shift_ok st sb"
    and "flag_group_ok fg"
  defines "a \<equiv> State_arch s"
  shows "bn_exec (BNADD wrd wrs1 wrs2 st sb fg) s (the (bn_step (BNADD wrd wrs1 wrs2 st sb fg) a))"
    and "bn_exec (BNADDC wrd wrs1 wrs2 st sb fg) s (the (bn_step (BNADDC wrd wrs1 wrs2 st sb fg) a))"
    and "bn_exec (BNSUB wrd wrs1 wrs2 st sb fg) s (the (bn_step (BNSUB wrd wrs1 wrs2 st sb fg) a))"
    and "bn_exec (BNSUBB wrd wrs1 wrs2 st sb fg) s (the (bn_step (BNSUBB wrd wrs1 wrs2 st sb fg) a))"
    and "bn_exec (BNAND wrd wrs1 wrs2 st sb fg) s (the (bn_step (BNAND wrd wrs1 wrs2 st sb fg) a))"
    and "bn_exec (BNOR wrd wrs1 wrs2 st sb fg) s (the (bn_step (BNOR wrd wrs1 wrs2 st sb fg) a))"
    and "bn_exec (BNXOR wrd wrs1 wrs2 st sb fg) s (the (bn_step (BNXOR wrd wrs1 wrs2 st sb fg) a))"
    and "bn_exec (BNCMP wrs1 wrs2 st sb fg) s (the (bn_step (BNCMP wrs1 wrs2 st sb fg) a))"
    and "bn_exec (BNCMPB wrs1 wrs2 st sb fg) s (the (bn_step (BNCMPB wrs1 wrs2 st sb fg) a))"
  using assms(1-7) unfolding a_def
  by - (rule bn_execI [OF _ _ frame_puts(1)] bn_execI [OF _ _ frame_puts(2)];
      simp add: execute_defs exec_eqs bn_result_add [where c = False, simplified] bn_result_add
        bn_result_sub [where c = False, simplified] bn_result_sub;
      simp add: pend_puts quiet_pend spec_defs)+

lemma bn_imm_exec:
  assumes "State_inv s" and "State_quiet s" and "reg_ok wrd" and "reg_ok wrs" and "flag_group_ok fg" and "fits 10 imm"
  defines "a \<equiv> State_arch s"
  shows "bn_exec (BNADDI wrd wrs imm fg) s (add_with False wrd fg (wdr a wrs) (word_of_int imm) a)"
    and "bn_exec (BNSUBI wrd wrs imm fg) s (sub_with False wrd fg (wdr a wrs) (word_of_int imm) a)"
proof -
  have "fits 256 imm" by (rule fits_mono [OF assms(6)]) simp
  then obtain y :: u256 where y: "imm = uint y" "word_of_int imm = y"
    using that [of "word_of_int imm"] word_of_fits by simp
  show "bn_exec (BNADDI wrd wrs imm fg) s (add_with False wrd fg (wdr a wrs) (word_of_int imm) a)"
    "bn_exec (BNSUBI wrd wrs imm fg) s (sub_with False wrd fg (wdr a wrs) (word_of_int imm) a)"
    using assms(1-5) unfolding a_def y(2) unfolding y(1)
    by - (rule bn_execI [OF _ _ frame_puts(1)],
        simp add: execute_defs exec_eqs bn_result_add [where c = False, simplified] bn_result_sub [where c = False, simplified],
        simp add: pend_puts quiet_pend spec_defs)+
qed

lemma bn_plain_exec:
  assumes "State_inv s" and "State_quiet s" and "reg_ok wrd" and "reg_ok wrs1" and "reg_ok wrs2" and "0 \<le> imm"
  defines "a \<equiv> State_arch s"
  shows "bn_exec (BNADDM wrd wrs1 wrs2) s (the (bn_step (BNADDM wrd wrs1 wrs2) a))"
    and "bn_exec (BNSUBM wrd wrs1 wrs2) s (the (bn_step (BNSUBM wrd wrs1 wrs2) a))"
    and "bn_exec (BNRSHI wrd wrs1 wrs2 imm) s (the (bn_step (BNRSHI wrd wrs1 wrs2 imm) a))"
    and "bn_exec (BNMOV wrd wrs1) s (the (bn_step (BNMOV wrd wrs1) a))"
  using assms(1-6) unfolding a_def
  by - (rule bn_execI [OF _ _ frame_puts(3)];
      simp add: execute_defs exec_eqs rshi_word word_less_def;
      simp add: pend_puts quiet_pend spec_defs word_less_def)+

lemma bn_not_exec:
  assumes "State_inv s" and "State_quiet s" and "reg_ok wrd" and "reg_ok wrs" and "shift_ok st sb" and "flag_group_ok fg"
  shows "bn_exec (BNNOT wrd wrs st sb fg) s (the (bn_step (BNNOT wrd wrs st sb fg) (State_arch s)))"
  using assms
  by - (rule bn_execI [OF _ _ frame_puts(1)]; simp add: execute_defs exec_eqs; simp add: pend_puts quiet_pend spec_defs)

lemma bn_sel_exec:
  assumes "State_inv s" and "State_quiet s" and "reg_ok wrd" and "reg_ok wrs1" and "reg_ok wrs2" and "flag_group_ok fg"
    and "0 \<le> flag" and "flag \<le> 3"
  shows "bn_exec (BNSEL wrd wrs1 wrs2 fg flag) s (the (bn_step (BNSEL wrd wrs1 wrs2 fg flag) (State_arch s)))"
proof -
  let ?f = "arch_flags (State_arch s) fg"
  have "flag = 0 \<or> flag = 1 \<or> flag = 2 \<or> flag = 3" using assms(7,8) by linarith
  then have "FlagReg_get_by_idx flag (if fg = 0 then group0 (st_flags s) else group1 (st_flags s)) =
      Inr (if flag = 0 then flag_C ?f else if flag = 1 then flag_M ?f else if flag = 2 then flag_L ?f else flag_Z ?f)"
    by (elim disjE; simp only: FlagReg_get_by_idx_def FlagReg_get_by_name_def arch_flags_fields)
      (simp_all add: FLAG_NAMES_def)
  moreover have "reg_ok (if b then wrs1 else wrs2)" for b using assms(4,5) by simp
  ultimately show ?thesis
    using assms(1-6)
    by - (rule bn_execI [OF _ _ frame_puts(3)]; simp add: execute_defs exec_eqs; simp add: pend_puts quiet_pend spec_defs)
qed

lemma mulq_word:
  "word_of_int ((if py_bool za then 0 else uint acc) + push_bit n (uint x * uint y)) =
   (if za = 0 then acc else 0) + push_bit n (x * y :: u256)"
  by (simp add: py_bool_def push_bit_eq_mult)

lemma bn_mul_exec:
  assumes "State_inv s" and "State_quiet s" and "reg_ok wrd" and "reg_ok wrs1" and "qw_ok q1" and "reg_ok wrs2" and "qw_ok q2"
    and "0 \<le> sh" and "flag_group_ok fg"
  defines "a \<equiv> State_arch s"
  shows "bn_exec (BNMULQACC za wrs1 q1 wrs2 q2 sh) s (the (bn_step (BNMULQACC za wrs1 q1 wrs2 q2 sh) a))"
    and "bn_exec (BNMULQACCWO za wrd wrs1 q1 wrs2 q2 sh fg) s (the (bn_step (BNMULQACCWO za wrd wrs1 q1 wrs2 q2 sh fg) a))"
proof -
  note asm = assms(1-9)
  show "bn_exec (BNMULQACC za wrs1 q1 wrs2 q2 sh) s (the (bn_step (BNMULQACC za wrs1 q1 wrs2 q2 sh) a))"
    using asm unfolding a_def
    by - (rule bn_execI [OF _ _ frame_puts(4)]; simp add: execute_defs exec_eqs;
        simp add: pend_puts quiet_pend spec_defs mulq_def py_bool_def push_bit_eq_mult)
  show "bn_exec (BNMULQACCWO za wrd wrs1 q1 wrs2 q2 sh fg) s (the (bn_step (BNMULQACCWO za wrd wrs1 q1 wrs2 q2 sh fg) a))"
    using asm unfolding a_def
    by - (rule bn_execI [OF _ _ frame_puts(5)]; simp add: execute_defs exec_eqs;
        simp add: pend_puts quiet_pend spec_defs mulq_def py_bool_def push_bit_eq_mult arch_flags_def)
qed

lemma uint_halves:
  "uint w AND low_mask 128 = uint (take_bit 128 w :: u256)" "drop_bit 128 (uint w) = uint (drop_bit 128 w :: u256)"
  by (simp_all add: and_low_mask unsigned_take_bit_eq unsigned_drop_bit_eq fits_take_bit_eq [OF uint_fits])

lemma set_half_word:
  assumes "0 \<le> hw" and "hw \<le> 1"
  shows "(uint old AND NOT (push_bit (nat (128 * hw)) (low_mask 128))) OR push_bit (nat (128 * hw)) (uint (take_bit 128 r)) =
    uint (set_half hw (take_bit 128 r) old)"
proof (rule bit_eqI)
  fix k
  have "hw = 0 \<or> hw = 1" using assms by linarith
  moreover have "bit old k \<Longrightarrow> k < 256" "bit r (k - 128) \<Longrightarrow> k - 128 < 256"
    using bit_imp_le_length [of old k] bit_imp_le_length [of r "k - 128"] by simp_all
  ultimately show "bit ((uint old AND NOT (push_bit (nat (128 * hw)) (low_mask 128))) OR push_bit (nat (128 * hw)) (uint (take_bit 128 r))) k =
      bit (uint (set_half hw (take_bit 128 r) old)) k"
    by (auto simp: set_half_def bit_simps bit_uint_iff)
qed

lemma half_flags_word:
  assumes "0 \<le> hw" and "hw \<le> 1"
  shows "(if py_bool hw then FlagReg (flag_C f) (py_bool (drop_bit 127 (uint lo) AND 1)) (flag_L f) (flag_Z f \<and> uint lo = 0)
          else FlagReg (flag_C f) (flag_M f) (py_bool (uint lo AND 1)) (uint lo = 0)) = half_flags hw (lo :: u256) f"
proof -
  have "py_bool (uint lo AND 1) = bit lo 0" using py_bool_bit [of 0 "uint lo"] by (simp add: bit_uint_iff)
  moreover have "py_bool (drop_bit 127 (uint lo) AND 1) = bit lo 127" by (simp only: py_bool_bit bit_uint_iff) simp
  moreover have "uint lo = 0 \<longleftrightarrow> lo = 0" by (simp add: uint_0_iff)
  ultimately show ?thesis using assms by (simp add: half_flags_def py_bool_def)
qed

lemma bn_mul_so_exec:
  assumes "State_inv s" and "State_quiet s" and "reg_ok wrd" and "reg_ok wrs1" and "qw_ok q1" and "reg_ok wrs2" and "qw_ok q2"
    and "0 \<le> sh" and "flag_group_ok fg" and "0 \<le> hw" and "hw \<le> 1"
  shows "bn_exec (BNMULQACCSO za wrd hw wrs1 q1 wrs2 q2 sh fg) s
    (the (bn_step (BNMULQACCSO za wrd hw wrs1 q1 wrs2 q2 sh fg) (State_arch s)))"
proof -
  let ?a = "State_arch s"
  let ?r = "mulq za (wdr ?a wrs1) q1 (wdr ?a wrs2) q2 sh ?a"
  let ?lo = "take_bit 128 ?r" and ?hi = "drop_bit 128 ?r"
  let ?s1 = "put_acc (uint ?hi) (put_wdr wrd (uint (set_half hw ?lo (wdr ?a wrd))) s)"
  have m: "(if py_bool za then 0 else uint (acc_wsr ?a)) + push_bit (nat sh) (uint (quarter (wdr ?a wrs1) q1) * uint (quarter (wdr ?a wrs2) q2))
      AND low_mask 256 = uint ?r"
    unfolding masked_word mulq_word mulq_def ..
  show ?thesis
  proof (rule bn_execI [OF _ _ frame_puts(5)])
    show "execute (BNMULQACCSO za wrd hw wrs1 q1 wrs2 q2 sh fg) s =
        Inr ((), put_flags fg (half_flags hw ?lo (arch_flags ?a fg)) ?s1)"
      using assms
      by (simp add: execute_defs bindS_def liftS_def wdr_read_eq acc_read_eq quarter_eq py_lshift_def Let_def m
          uint_halves set_half_word wdr_write_eq acc_write_eq flags_get_eq flags_set_eq arch_flags_fields put_frames(1) arch_put_wdr)
        (use half_flags_word [OF assms(10,11), of "arch_flags ?a fg" ?lo] in \<open>auto split: if_splits\<close>)
    show "State_pend (put_flags fg (half_flags hw ?lo (arch_flags ?a fg)) ?s1) =
        (the (bn_step (BNMULQACCSO za wrd hw wrs1 q1 wrs2 q2 sh fg) ?a))\<lparr>a_pc := pc s + 4\<rparr>"
      using assms(1,2) by (simp add: pend_puts quiet_pend Let_def) (simp add: set_wdr_def set_acc_def set_flag_group_def)
  qed
qed

lemma bn_executes:
  assumes "State_inv s" and "State_quiet s" and "insn_ok i" and "bn_step i (State_arch s) = Some a'"
  shows "bn_exec i s a'" and "\<not> affects_control i" and "\<not> reads_rnd i" and "\<not> is_load i"
proof -
  have z: "reg_ok 0" "flag_group_ok 0" by (simp_all add: reg_ok_def flag_group_ok_def)
  note facts = bn_arith_exec(1-7) [OF assms(1,2)] bn_arith_exec(8,9) [OF assms(1,2) z(1)] bn_imm_exec [OF assms(1,2)]
    bn_plain_exec(1,2) [OF assms(1,2), where imm = 0] bn_plain_exec(3) [OF assms(1,2)]
    bn_plain_exec(4) [OF assms(1,2) _ _ z(1), where imm = 0] bn_not_exec [OF assms(1,2)] bn_sel_exec [OF assms(1,2)]
    bn_mul_exec(1) [OF assms(1,2) z(1) _ _ _ _ _ z(2)] bn_mul_exec(2) [OF assms(1,2)] bn_mul_so_exec [OF assms(1,2)]
  have imm: "(if c then Some x else None) = Some y \<longleftrightarrow> c \<and> x = y" for c and x y :: otbn_arch by simp
  show "bn_exec i s a'"
    using assms(3,4)
    by (cases i) (simp_all add: facts [unfolded bn_step.simps Let_def option.sel, simplified] Let_def,
      auto simp: facts [unfolded bn_step.simps Let_def option.sel, simplified] imm)
  show "\<not> affects_control i" "\<not> reads_rnd i" "\<not> is_load i"
    using assms(4) by (cases i; simp add: affects_control_def reads_rnd_def is_load_def)+
qed

section \<open>The step\<close>

text \<open>The next program counter: back to the start of the innermost loop at its end, if iterations are left.\<close>

definition loop_next_pc :: "otbn_state \<Rightarrow> int" where
  "loop_next_pc s =
     (let top = last (levels (loop_stack_of s))
      in if levels (loop_stack_of s) \<noteq> [] \<and> last_addr top = pc s \<and> restarts_left top \<noteq> 0
         then start_addr top else pc s + 4)"

lemma post_insn_next_pc:
  assumes "State_inv s" and "LoopStack_inv (loop_stack_of s)" and "pc_next_override s = None" and "State_post_insn s = Inr s2"
  shows "State_get_next_pc s2 = loop_next_pc s"
proof -
  let ?s1 = "s\<lparr>err_bits := err_bits s OR pc_err_bits s\<rparr>"
  obtain r ls where st: "LoopStack_step (pc s) (loop_stack_of s) = Inr (r, ls)"
    using LoopStack_step_inv [OF assms(2), of "pc s"] by (auto elim!: returnsE)
  have r: "(case r of Some v \<Rightarrow> v | None \<Rightarrow> pc s + 4) = loop_next_pc s"
    using st by (auto simp: LoopStack_step_def LoopStack_is_last_insn_def loop_next_pc_def Let_def require_def split: if_split_asm)
  have "pc_next_override s2 = (case r of Some v \<Rightarrow> Some v | None \<Rightarrow> None) \<and> pc s2 = pc s"
    using assms(3,4) st State_check_next_pc_eq [OF assms(1)]
    by (cases r) (auto simp: State_post_insn_def State_loop_step_def State_set_next_pc_def Let_def)
  then show ?thesis using r by (cases r) (simp_all add: State_get_next_pc_def)
qed

lemma bn_outcome:
  assumes "cycle_ok s" and "running s" and "insn_ok i" and "bn_step i (State_arch s) = Some a'"
  shows "returns (insn_outcome (Legal i) s) (\<lambda>s2. pending_halt s2 = (imem_size s \<le> pc s + 4) \<and>
    (\<not> pending_halt s2 \<longrightarrow> State_pend s2 = a'\<lparr>a_pc := loop_next_pc s\<rparr>))"
proof -
  have s: "State_inv s" "State_quiet s" "LoopStack_inv (loop_stack_of s)" "\<not> loop_err_flag (loop_stack_of s)"
    "err_bits s = 0" "pc s mod 4 = 0" "\<not> pending_halt s"
    using assms(1,2) by (simp_all add: cycle_ok_def running_ok_def)
  note b = bn_executes [OF s(1,2) assms(3,4)]
  obtain s1 w f x where s1: "execute i s = Inr ((), s1)" "State_pend s1 = a'\<lparr>a_pc := pc s + 4\<rparr>"
    "s1 = s\<lparr>st_wdrs := w, st_flags := f, st_wsrs := x\<rparr>"
    using b(1) by (auto simp: bn_exec_def)
  have pre: "body_execute (Legal i) (State_pre_insn (body_affects_control (Legal i)) s) = Inr ((), s1)"
    using b(2) s1(1) by (simp add: body_execute_def body_affects_control_def State_pre_insn_def LoopStack_check_insn_def)
  then have eq: "insn_outcome (Legal i) s = State_post_insn s1" by (simp add: insn_outcome_def)
  have i1: "State_inv s1"
    using body_execute_rel [OF assms(1,2), of "Legal i"] pre assms(3) b(3)
    by (simp add: body_ok_def body_reads_rnd_def exec_rel_def)
  have l1: "LoopStack_inv (loop_stack_of s1)" "pc_next_override s1 = None" using s s1(3) by (simp_all add: State_quiet_def)
  have "(pc s + 4) mod 4 = 0" using s(6) by presburger
  then have z: "pc_err_bits s1 = (if imem_size s \<le> pc s + 4 then BAD_INSN_ADDR else 0)"
    "LoopStack_err_bits (loop_stack_of s1) = 0" "Dmem_err_bits (st_dmem s1) = 0"
    using s s1(3) by (simp_all add: pc_err_bits_def State_get_next_pc_def State_quiet_def LoopStack_err_bits_def Dmem_err_bits_def Dmem_quiet_def)
  have "GPRs_inv (st_gprs s)" "GPRs_ready (st_gprs s)"
    using s(1,2) by (simp_all add: State_inv_def State_quiet_def GPRs_quiet_ready)
  then have g: "GPRs_err_bits (GPRs_post_insn (st_gprs s1)) = 0"
    using GPRs_post_insn_flag [of "st_gprs s"] s1(3) by (simp add: GPRs_err_bits_def)
  note po = State_post_insn_ok [OF i1 l1(1)]
  obtain s2 where s2: "State_post_insn s1 = Inr s2" by (rule returnsE [OF po])
  note po = po [unfolded s2 returns_simps]
  have e2: "err_bits s2 = err_bits s1 OR pc_err_bits s1 OR GPRs_err_bits (GPRs_post_insn (st_gprs s1)) OR
      Dmem_err_bits (st_dmem s1) OR LoopStack_err_bits (loop_stack_of s1)"
    and p2: "pending_halt s2 = (pending_halt s1 \<or> err_bits s2 \<noteq> 0)"
    and g2: "err_bits s2 = 0 \<longrightarrow> st_gprs s2 = st_gprs s1"
    using po by blast+
  obtain ls ov where f2: "s2 = s1\<lparr>loop_stack_of := ls, pc_next_override := ov, st_gprs := GPRs_post_insn (st_gprs s1),
             err_bits := err_bits s2, pending_halt := pending_halt s2\<rparr>"
    using po by blast
  have "err_bits s1 = 0" "\<not> pending_halt s1" using s s1(3) by simp_all
  then have h: "pending_halt s2 = (imem_size s \<le> pc s + 4)" "\<not> pending_halt s2 \<longrightarrow> err_bits s2 = 0"
    unfolding p2 e2 z g using err_bits_nonzero(2) by simp_all
  have "State_pend s2 = (State_pend s1)\<lparr>a_pc := State_get_next_pc s2\<rparr>" if "st_gprs s2 = st_gprs s1"
  proof -
    have "st_wdrs s2 = st_wdrs s1" "st_flags s2 = st_flags s1" "st_wsrs s2 = st_wsrs s1" "st_dmem s2 = st_dmem s1"
      by (subst f2, simp)+
    then show ?thesis using that by (simp add: State_pend_def)
  qed
  moreover have "State_get_next_pc s2 = loop_next_pc s"
    using post_insn_next_pc [OF i1 l1 s2] s1(3) by (simp add: loop_next_pc_def Let_def)
  ultimately show ?thesis unfolding eq using s2 g2 h s1(2) by simp
qed

text \<open>
  C2: the big-number instructions on machine words.  Take a machine that satisfies the invariant (in particular its
  program consists of well-formed instructions and fills the instruction memory), is running and past the start
  handshake, and does not collect statistics, and let the current instruction be one of BN.ADD, ADDC, ADDI, ADDM, SUB,
  SUBB, SUBI, SUBM, AND, OR, NOT, XOR, RSHI, SEL, CMP, CMPB, MOV, MULQACC, MULQACC.WO and MULQACC.SO (an immediate of
  ADDI and SUBI has its ten bits).  Its cycle raises nothing.  If the next word is still inside the instruction
  memory, the registers, flags, accumulator, memory and call stack after it are those of the word-level
  specification \<open>bn_step\<close> and the program counter is the next one (the start of the innermost loop, at its end and
  with iterations left); otherwise the machine stops and nothing architectural changes.  The specification says
  nothing of BN.LID, SID, MOVR, WSRR and WSRW.
\<close>

theorem bn_step_refines:
  assumes "sim_ready sim" and "body (current_insn sim) = Legal i"
    and "bn_step i (State_arch (sim_state sim)) = Some a'"
  shows "returns (OTBNSim_step False sim) (\<lambda>((r, changes), sim'). r \<noteq> None \<and>
    (if pc (sim_state sim) + 4 < imem_size (sim_state sim)
     then running (sim_state sim') \<and> State_arch (sim_state sim') = a'\<lparr>a_pc := loop_next_pc (sim_state sim)\<rparr>
     else \<not> running (sim_state sim') \<and> State_arch (sim_state sim') = State_arch (sim_state sim)))"
proof -
  have ok: "sim_ok sim" "running (sim_state sim)" "cycle_ok (sim_state sim)"
    using assms(1) by (simp_all add: sim_ready_def sim_ok_def)
  have "insn_ok i" using fetch_ok(2) [OF ok(1,2)] assms(2) by (simp add: body_ok_def)
  note o = bn_outcome [OF ok(3,2) this assms(3)]
  have "State_inv (sim_state sim)" "State_quiet (sim_state sim)" using ok(3) by (simp_all add: cycle_ok_def)
  note b = bn_executes [OF this \<open>insn_ok i\<close> assms(3)]
  show ?thesis
    using step_exec [OF assms(1,2) pre_execute_other [OF b(4,3)]] o
    by (auto simp: insn_effect_def elim!: returnsE split: if_splits)
qed

text \<open>\<^verbatim>\<open>BN.ADDM\<close> and \<^verbatim>\<open>BN.SUBM\<close> of operands below the modulus are addition and subtraction modulo \<^verbatim>\<open>MOD\<close>.\<close>

lemma addm_mod:
  assumes "x < m" and "y < (m :: u256)"
  shows "uint (if uint m \<le> uint x + uint y then x + y - m else x + y) = (uint x + uint y) mod uint m"
proof -
  have b: "uint x < uint m" "uint y < uint m" "uint m < 2 ^ 256" using assms uint_lt2p [of m] by (simp_all add: word_less_def)
  have w: "uint (word_of_int v :: u256) = v" if "0 \<le> v" "v < 2 ^ 256" for v
    using that word_of_fits by (simp add: fits_iff)
  show ?thesis
  proof (cases "uint m \<le> uint x + uint y")
    case True
    have "uint (x + y - m) = uint (word_of_int (uint x + uint y - uint m) :: u256)" by simp
    also have "\<dots> = uint x + uint y - uint m" using True b by (intro w) linarith+
    also have "\<dots> = (uint x + uint y) mod uint m"
      using True b minus_mod_self2 [of "uint x + uint y" "uint m"] by (metis diff_ge_0_iff_ge diff_less_eq add_less_le_mono less_imp_le mod_pos_pos_trivial)
    finally show ?thesis using True by simp
  next
    case False
    have "uint (x + y) = uint (word_of_int (uint x + uint y) :: u256)" by simp
    also have "\<dots> = uint x + uint y" using False b uint_ge_0 [of x] uint_ge_0 [of y] by (intro w) linarith+
    finally show ?thesis using False uint_ge_0 [of x] uint_ge_0 [of y] by simp
  qed
qed

text \<open>
  At the boundary, where the sum of the operands of \<^verbatim>\<open>BN.ADDM\<close> is \<^verbatim>\<open>MOD\<close> itself, the result is zero: \<^verbatim>\<open>MOD\<close> is
  subtracted although the sum is not greater than \<^verbatim>\<open>MOD\<close>.
\<close>

lemma addm_at_mod:
  assumes "uint (wdr a wrs1) + uint (wdr a wrs2) = uint (mod_wsr a)"
  shows "bn_step (BNADDM wrd wrs1 wrs2) a = Some (set_wdr wrd 0 a)"
proof -
  have "wdr a wrs1 + wdr a wrs2 = word_of_int (uint (wdr a wrs1) + uint (wdr a wrs2))" by simp
  then have "wdr a wrs1 + wdr a wrs2 = mod_wsr a" unfolding assms by simp
  then show ?thesis using assms by simp
qed

definition demo_bn :: otbn_sim where
  "demo_bn = demo_ready\<lparr>program := OTBNInsn_init 0x2b (BNADD 2 0 1 0 3 1) # tl demo_program\<rparr>"

theorem bn_step_refines_witness:
  "returns (OTBNSim_step False demo_bn) (\<lambda>((r, changes), sim').
     State_arch (sim_state sim') =
       (the (bn_step (BNADD 2 0 1 0 3 1) (State_arch (sim_state demo_bn))))\<lparr>a_pc := loop_next_pc (sim_state demo_bn)\<rparr>)"
proof -
  have p: "prog_ok 4096 (program demo_bn)"
    by (auto simp: demo_bn_def demo_program_def prog_ok_def nth_Cons nth_append OTBNInsn_init_def body_ok_def
        reg_ok_def shift_ok_def flag_group_ok_def split: nat.split)
  have i: "imem_size otbn_reset = 4096" using demo_ready_ok by (simp add: otbn_reset_def)
  have "sim_ready demo_bn"
    using demo_ready_ok p i by (simp add: sim_ready_def sim_ok_def demo_bn_def demo_ready_def)
  moreover have "body (current_insn demo_bn) = Legal (BNADD 2 0 1 0 3 1)"
    by (simp add: demo_bn_def demo_ready_def current_insn_def OTBNInsn_init_def)
  moreover have "pc (sim_state demo_bn) + 4 < imem_size (sim_state demo_bn)"
    using i by (simp add: demo_bn_def demo_ready_def)
  ultimately show ?thesis
    using bn_step_refines [of demo_bn "BNADD 2 0 1 0 3 1"] by (auto elim!: returns_mono)
qed

end
