(* ===== verification/Loop_Errors.thy ===== *)
theory Loop_Errors
  imports Sim_Safety
begin

text \<open>
  The error bit \<^verbatim>\<open>LOOP\<close>: which instructions report it.  \<open>loop_view\<close> is what an instruction can do to it
  before the end of its cycle: the loop stack and the bit itself in the error bits that are already set.
  \<open>keeps_loops m\<close> says that the access \<open>m\<close> changes neither; one rule per access, collected in
  \<open>keeps_rules\<close>, gives it for every instruction but \<^verbatim>\<open>LOOP\<close> and \<^verbatim>\<open>LOOPI\<close>.
\<close>

section \<open>Accesses that do not touch the loops\<close>

definition loop_view :: "otbn_state \<Rightarrow> loop_stack \<times> bool" where
  "loop_view s = (loop_stack_of s, bit (err_bits s) 4)"

definition keeps_loops :: "(otbn_state, 'a) action \<Rightarrow> bool" where
  "keeps_loops m \<longleftrightarrow> (\<forall>s x s'. m s = Inr (x, s') \<longrightarrow> loop_view s' = loop_view s)"

named_theorems keeps_rules \<open>accesses that keep the loop stack and the LOOP bit\<close>

lemma keeps_bind [keeps_rules]:
  "keeps_loops m \<Longrightarrow> (\<And>x. keeps_loops (f x)) \<Longrightarrow> keeps_loops (bindS m f)"
  unfolding keeps_loops_def
proof (intro allI impI)
  fix s y s'
  assume m: "\<forall>s x s'. m s = Inr (x, s') \<longrightarrow> loop_view s' = loop_view s"
    and f: "\<And>x. \<forall>s y s'. f x s = Inr (y, s') \<longrightarrow> loop_view s' = loop_view s"
    and b: "bindS m f s = Inr (y, s')"
  from b obtain x s1 where "m s = Inr (x, s1)" "f x s1 = Inr (y, s')"
    by (cases "m s") (auto simp: bindS_def)
  then have "loop_view s1 = loop_view s" "loop_view s' = loop_view s1" using m f by blast+
  then show "loop_view s' = loop_view s" by simp
qed

lemma keeps_if [keeps_rules]:
  "keeps_loops m \<Longrightarrow> keeps_loops m' \<Longrightarrow> keeps_loops (if c then m else m')"
  by simp

lemma keeps_pure [keeps_rules]:
  "keeps_loops (retS x)" "keeps_loops (liftS r)" "keeps_loops (getS g)"
  by (auto simp: keeps_loops_def retS_def liftS_def getS_def split: sum.splits)

lemma keeps_registers [keeps_rules]:
  "keeps_loops (gpr_read i)" "keeps_loops (gpr_read_signed i)" "keeps_loops (gpr_write i v)"
  "keeps_loops (gpr_write_signed i v)" "keeps_loops (wdr_read i)" "keeps_loops (wdr_write i v)"
  by (auto simp: keeps_loops_def gpr_read_def gpr_read_signed_def gpr_write_def gpr_write_signed_def
      wdr_read_def wdr_write_def updS_def bindR_Inr_iff loop_view_def)

lemma keeps_special [keeps_rules]:
  "keeps_loops (flags_get fg)" "keeps_loops (flags_set fg f)" "keeps_loops (mlz_flags_set fg r)"
  "keeps_loops mod_read" "keeps_loops acc_read" "keeps_loops (acc_write v)" "keeps_loops (wsr_read i)"
  "keeps_loops (wsr_write i v)" "keeps_loops (State_read_csr i)" "keeps_loops (csr_write i v)"
  by (auto simp: keeps_loops_def flags_get_def flags_set_def mlz_flags_set_def mod_read_def acc_read_def
      acc_write_def wsr_read_def wsr_write_def State_read_csr_def csr_write_def State_write_csr_def
      State_set_flags_def State_set_mlz_flags_def updS_def getS_def bindR_Inr_iff loop_view_def)

lemma keeps_memory [keeps_rules]:
  "keeps_loops (dmem_load32 a)" "keeps_loops (dmem_load256 a)" "keeps_loops (dmem_store32 a v)"
  "keeps_loops (dmem_store256 a v)" "keeps_loops (next_pc_set p)"
  by (auto simp: keeps_loops_def dmem_load32_def dmem_load256_def dmem_store32_def dmem_store256_def
      next_pc_set_def State_set_next_pc_def modifyS_def updS_def bindR_Inr_iff loop_view_def)

lemma keeps_stop [keeps_rules]: "\<not> bit b 4 \<Longrightarrow> keeps_loops (stop_at_end b)"
  by (auto simp: keeps_loops_def stop_at_end_def State_stop_at_end_of_cycle_def modifyS_def loop_view_def bit_or_iff)





section \<open>Which instructions report LOOP\<close>






text \<open>A zero count in \<^verbatim>\<open>LOOPI\<close> is not reported: it fails an assertion of \<^verbatim>\<open>start_loop\<close>.\<close>

lemma loopi_zero_raises: "execute (LOOPI 0 bodysize) s = Inl AssertionError"
  by (simp add: LOOPI_execute_def start_loop_def updS_def State_loop_start_def LoopStack_start_loop_def require_def)


end
