(* ===== verification/Secded.thy ===== *)
theory Secded
  imports Py_Numbers
begin

text \<open>
  The generator of the SECDED (single error correction, double error detection) encoders and
  decoders, \<^verbatim>\<open>util/design/secded_gen.py\<close>: the code constructions \<^verbatim>\<open>_hsiao_code\<close> and
  \<^verbatim>\<open>_hamming_code\<close>, the masks computed from them, and the SystemVerilog and C statements that are
  printed.

  The printed text is split into the statements and their printing.  \<open>print_enc\<close> and \<open>print_dec\<close>
  print the statements; \<open>run_enc\<close> and \<open>run_dec\<close> say what they compute, which is the only meaning of
  SystemVerilog used here: bit selection, bitwise \<^verbatim>\<open>&\<close>, the reductions \<^verbatim>\<open>^\<close> and \<^verbatim>\<open>|\<close>, and
  assignments executed in order.

  \<^verbatim>\<open>random.shuffle\<close> is an argument: \<open>shuffle i\<close> is what the call number \<open>i\<close> after seeding does to
  its list.  Its documented behaviour, that it permutes the list, is the predicate \<open>permutes\<close>.
\<close>

type_synonym fanin_code = "nat list"

section \<open>Parameters of a code\<close>

definition min_paritysize :: "int \<Rightarrow> int" where
  "min_paritysize k =
     (case find (\<lambda>m. k + int m + 1 \<le> 2 ^ m) [2..<10] of
        Some m \<Rightarrow> int m + 1
      | None \<Rightarrow> - 1)"

text \<open>\<^verbatim>\<open>itertools.combinations\<close>, in its order, and \<^verbatim>\<open>range(3, m + 1, 2)\<close>.\<close>

fun combinations :: "'a list \<Rightarrow> nat \<Rightarrow> 'a list list" where
  "combinations xs 0 = [[]]"
| "combinations [] (Suc n) = []"
| "combinations (x # xs) (Suc n) = map ((#) x) (combinations xs n) @ combinations xs (Suc n)"

definition odd_range :: "nat \<Rightarrow> nat list" where
  "odd_range m = filter odd [3..<m + 1]"

text \<open>
  \<^verbatim>\<open>int(math.ceil(float(a) / b))\<close>: the quotients here are of numbers far below \<open>2 ^ 53\<close>, where
  the rounding of the division cannot move a quotient across an integer.
\<close>

definition ceil_div :: "nat \<Rightarrow> nat \<Rightarrow> nat" where
  "ceil_div a b = (a + b - 1) div b"

fun ideal_fanin_loop :: "nat \<Rightarrow> nat list \<Rightarrow> nat \<Rightarrow> nat \<Rightarrow> nat" where
  "ideal_fanin_loop m [] fanin needed = fanin"
| "ideal_fanin_loop m (select # rest) fanin needed =
     (let n = length (combinations [0..<m] select);
          (fanin', needed') =
            (if n \<le> needed then (fanin + ceil_div (n * select) m, needed - n)
             else (fanin + ceil_div (needed * select) m, 0))
      in if needed' = 0 then fanin' else ideal_fanin_loop m rest fanin' needed')"

definition ideal_fanin :: "nat \<Rightarrow> nat \<Rightarrow> nat" where
  "ideal_fanin k m = ideal_fanin_loop m (odd_range m) 0 k"

section \<open>Fan-in and bit masks\<close>

text \<open>\<^verbatim>\<open>xs[j] += d\<close>\<close>

definition incr_at :: "'a::plus list \<Rightarrow> nat \<Rightarrow> 'a \<Rightarrow> 'a list result" where
  "incr_at xs j d = bindR (py_getitem xs (int j)) (\<lambda>x. py_setitem xs (int j) (x + d))"

fun incr_all :: "nat list \<Rightarrow> 'a::plus \<Rightarrow> 'a list \<Rightarrow> 'a list result" where
  "incr_all [] d xs = Inr xs"
| "incr_all (j # js) d xs = bindR (incr_at xs j d) (incr_all js d)"

fun fanin_loop :: "fanin_code list \<Rightarrow> nat list \<Rightarrow> nat list result" where
  "fanin_loop [] fanins = Inr fanins"
| "fanin_loop (i # codes) fanins = bindR (incr_all i 1 fanins) (fanin_loop codes)"

definition calc_fanin :: "nat \<Rightarrow> fanin_code list \<Rightarrow> nat list result" where
  "calc_fanin width codes = fanin_loop codes (replicate width 0)"

fun bitmasks_loop :: "nat \<Rightarrow> fanin_code list \<Rightarrow> int list \<Rightarrow> int list result" where
  "bitmasks_loop i [] masks = Inr masks"
| "bitmasks_loop i (c # codes) masks =
     bindR (incr_all c (push_bit i 1) masks) (bitmasks_loop (Suc i) codes)"

fun bitmasks_dec :: "nat \<Rightarrow> nat list \<Rightarrow> int list \<Rightarrow> int list result" where
  "bitmasks_dec k [] masks = Inr masks"
| "bitmasks_dec k (j # js) masks = bindR (incr_at masks j (push_bit (k + j) 1)) (bitmasks_dec k js)"

definition calc_bitmasks :: "nat \<Rightarrow> nat \<Rightarrow> fanin_code list \<Rightarrow> bool \<Rightarrow> int list result" where
  "calc_bitmasks k m codes dec =
     bindR (bitmasks_loop 0 codes (replicate m 0)) (\<lambda>masks.
     if dec then bitmasks_dec k [0..<m] masks else Inr masks)"

definition calc_syndrome :: "fanin_code \<Rightarrow> int" where
  "calc_syndrome code = sum_list (map (\<lambda>x. 2 ^ x) code)"

section \<open>Code constructions\<close>

text \<open>
  The search for a subset within the ideal fan-in: the candidates are shuffled in place until the
  first ones, as many as rows are missing, fit.  It need not end, so not returning is \<open>None\<close>.
\<close>

definition exceeds_ideal :: "nat \<Rightarrow> nat \<Rightarrow> nat list \<Rightarrow> nat list \<Rightarrow> bool" where
  "exceeds_ideal m fanin_ideal fanins subset_fanins =
     list_ex (\<lambda>i. fanins ! i + subset_fanins ! i > fanin_ideal) [0..<m]"

partial_function (option) hsiao_search ::
    "(nat \<Rightarrow> fanin_code list \<Rightarrow> fanin_code list) \<Rightarrow> nat \<Rightarrow> nat \<Rightarrow> nat list \<Rightarrow> nat \<Rightarrow> nat \<Rightarrow>
     fanin_code list \<Rightarrow> fanin_code list result option" where
  "hsiao_search shuffle m fanin_ideal fanins required_row round candidate =
     (let candidate' = shuffle round candidate; rows = take required_row candidate'
      in case calc_fanin m rows of
           Inl e \<Rightarrow> Some (Inl e)
         | Inr subset_fanins \<Rightarrow>
             if exceeds_ideal m fanin_ideal fanins subset_fanins
             then hsiao_search shuffle m fanin_ideal fanins required_row (Suc round) candidate'
             else Some (Inr rows))"

declare hsiao_search.simps [code]

fun hsiao_steps ::
    "(nat \<Rightarrow> fanin_code list \<Rightarrow> fanin_code list) \<Rightarrow> nat \<Rightarrow> nat \<Rightarrow> nat list \<Rightarrow> nat \<Rightarrow> fanin_code list \<Rightarrow>
     fanin_code list result option" where
  "hsiao_steps shuffle m fanin_ideal [] required_row codes = Some (Inr codes)"
| "hsiao_steps shuffle m fanin_ideal (step # steps) required_row codes =
     (let candidate = combinations [0..<m] step
      in if length candidate \<le> required_row then
           let codes' = codes @ candidate; required' = required_row - length candidate
           in if required' = 0 then Some (Inr codes')
              else hsiao_steps shuffle m fanin_ideal steps required' codes'
         else
           case calc_fanin m codes of
             Inl e \<Rightarrow> Some (Inl e)
           | Inr fanins \<Rightarrow>
               if required_row = 0 then Some (Inl UnboundLocalError)
               else
                 case hsiao_search shuffle m fanin_ideal fanins required_row 0 candidate of
                   None \<Rightarrow> None
                 | Some (Inl e) \<Rightarrow> Some (Inl e)
                 | Some (Inr rows) \<Rightarrow> Some (Inr (codes @ rows)))"

definition hsiao_code ::
    "(nat \<Rightarrow> fanin_code list \<Rightarrow> fanin_code list) \<Rightarrow> nat \<Rightarrow> nat \<Rightarrow> fanin_code list result option" where
  "hsiao_code shuffle k m = hsiao_steps shuffle m (ideal_fanin k m) (odd_range m) k []"

definition is_pow2 :: "int \<Rightarrow> bool" where
  "is_pow2 n \<longleftrightarrow> n AND (n - 1) = 0 \<and> n \<noteq> 0"

definition is_odd :: "int \<Rightarrow> bool" where
  "is_odd n \<longleftrightarrow> n mod 2 > 0"

definition hamming_tuple :: "nat \<Rightarrow> nat \<Rightarrow> fanin_code" where
  "hamming_tuple m pos =
     filter (\<lambda>p. let parity_pos = 2 ^ p; parity_chk = (int pos - int pos mod parity_pos) div parity_pos
                 in is_odd parity_chk \<or> p = m - 1) [0..<m]"

definition hamming_code :: "nat \<Rightarrow> nat \<Rightarrow> fanin_code list" where
  "hamming_code k m =
     (let n = k + m
      in map (hamming_tuple m) (filter (\<lambda>pos. \<not> (is_pow2 (int pos) \<or> pos = n)) [1..<n + 1]) @
         replicate (m - 1) [m - 1])"

definition gen_code ::
    "(nat \<Rightarrow> fanin_code list \<Rightarrow> fanin_code list) \<Rightarrow> string \<Rightarrow> nat \<Rightarrow> nat \<Rightarrow> fanin_code list result option" where
  "gen_code shuffle codetype k m =
     (if codetype = ''hsiao'' then hsiao_code shuffle k m
      else if codetype = ''hamming'' then Some (Inr (hamming_code k m))
      else Some (Inl KeyError))"

section \<open>Checking a configuration\<close>

record secded_cfg =
  cfg_k :: int
  cfg_m :: int
  cfg_code_type :: string

definition CODE_OPTIONS :: "(string \<times> string) list" where
  "CODE_OPTIONS = [(''hsiao'', ''''), (''hamming'', ''_hamming'')]"

definition cfg_errors :: "secded_cfg \<Rightarrow> nat" where
  "cfg_errors cfg =
     (if cfg_k cfg \<le> 1 \<or> cfg_k cfg > 120 then 1 else 0) +
     (if cfg_m cfg \<le> 1 \<or> cfg_m cfg > 20 then 1 else 0) +
     (if cfg_m cfg < min_paritysize (cfg_k cfg) then 1 else 0) +
     (if cfg_code_type cfg \<notin> set (map fst CODE_OPTIONS) then 1 else 0)"

definition verify :: "secded_cfg list \<Rightarrow> nat" where
  "verify cfgs = sum_list (map cfg_errors cfgs)"

section \<open>The printed encoder and decoder\<close>

text \<open>
  An encoder statement \<open>(b, msk)\<close> stands for \<^verbatim>\<open>data_o[b] = ^(data_o & msk)\<close>.  A decoder has the
  statements \<open>(j, msk)\<close> for \<^verbatim>\<open>syndrome_o[j] = ^(data_i & msk)\<close>, the statements \<open>(i, s)\<close> for
  \<^verbatim>\<open>data_o[i] = (syndrome_o == s) ^ data_i[i]\<close>, and two error bits.
\<close>

definition enc_stmts :: "nat \<Rightarrow> nat \<Rightarrow> fanin_code list \<Rightarrow> (nat \<times> int) list result" where
  "enc_stmts k m codes =
     bindR (calc_bitmasks k m codes False) (\<lambda>masks.
     Inr (map (\<lambda>(j, msk). (j + k, msk)) (enumerate 0 masks)))"

definition syndrome_stmts :: "nat \<Rightarrow> nat \<Rightarrow> fanin_code list \<Rightarrow> (nat \<times> int) list result" where
  "syndrome_stmts k m codes = bindR (calc_bitmasks k m codes True) (\<lambda>masks. Inr (enumerate 0 masks))"

fun correct_stmts :: "nat list \<Rightarrow> fanin_code list \<Rightarrow> (nat \<times> int) list result" where
  "correct_stmts [] codes = Inr []"
| "correct_stmts (i # idxs) codes =
     bindR (py_getitem codes (int i)) (\<lambda>code.
     bindR (correct_stmts idxs codes) (\<lambda>rest. Inr ((i, calc_syndrome code) # rest)))"

definition newline :: string where
  "newline = [CHR 0x0A]"

definition sv_size :: "nat \<Rightarrow> string" where
  "sv_size n = str_of_nat n @ [CHR 0x27]"

definition to_upper :: "char \<Rightarrow> char" where
  "to_upper c = (let n = char_code c in if 97 \<le> n \<and> n \<le> 122 then char_of (n - 32) else c)"

definition fmt_X :: "nat \<Rightarrow> int \<Rightarrow> string" where
  "fmt_X w v = map to_upper (fmt_x [] w v)"

definition mask_literal :: "nat \<Rightarrow> int \<Rightarrow> string" where
  "mask_literal n msk = sv_size n @ ''h'' @ fmt_X ((n + 3) div 4) msk"

definition print_enc :: "nat \<Rightarrow> nat \<Rightarrow> nat \<Rightarrow> fanin_code list \<Rightarrow> string result" where
  "print_enc n k m codes =
     bindR (enc_stmts k m codes) (\<lambda>stmts.
     Inr (''    data_o = '' @ sv_size n @ ''(data_i);'' @ newline @
          concat (map (\<lambda>(b, msk). ''    data_o['' @ str_of_nat b @ ''] = ^(data_o & '' @
            mask_literal n msk @ '');'' @ newline) stmts)))"

definition PRINT_OPTIONS :: "string \<Rightarrow> string" where
  "PRINT_OPTIONS print_type = (if print_type = ''logic'' then ''assign '' else ''  '')"

definition print_err :: "string \<Rightarrow> nat \<Rightarrow> string \<Rightarrow> string" where
  "print_err pre m codetype =
     (if codetype = ''hamming'' then
        pre @ ''err_o[0] = syndrome_o['' @ str_of_int (int m - 1) @ ''];'' @ newline @
        pre @ ''err_o[1] = |syndrome_o['' @ str_of_int (int m - 2) @ '':0] & ~syndrome_o['' @
          str_of_int (int m - 1) @ ''];'' @ newline
      else
        pre @ ''single_error = ^syndrome_o;'' @ newline @
        pre @ ''err_o[0] = single_error;'' @ newline @
        pre @ ''err_o[1] = ~single_error & (|syndrome_o);'' @ newline)"

definition print_dec :: "nat \<Rightarrow> nat \<Rightarrow> nat \<Rightarrow> fanin_code list \<Rightarrow> string \<Rightarrow> string \<Rightarrow> string result" where
  "print_dec n k m codes codetype print_type =
     (let preamble = PRINT_OPTIONS print_type; pre = ''  '' @ preamble;
          cpre = ''  '' @ (if print_type = ''function'' then preamble else [])
      in bindR (syndrome_stmts k m codes) (\<lambda>syn.
         bindR (correct_stmts [0..<k] codes) (\<lambda>cor.
         Inr ((if codetype = ''hsiao'' then cpre @ ''logic single_error;'' @ newline else []) @
           newline @
           cpre @ ''// Syndrome calculation'' @ newline @
           concat (map (\<lambda>(j, msk). pre @ ''syndrome_o['' @ str_of_nat j @ ''] = ^(data_i & '' @
             mask_literal n msk @ '');'' @ newline) syn) @
           newline @
           cpre @ ''// Corrected output calculation'' @ newline @
           concat (map (\<lambda>(i, s). pre @ ''data_o['' @ str_of_nat i @ ''] = (syndrome_o == '' @ sv_size m @
             ''h'' @ fmt_x [] 0 s @ '') ^ data_i['' @ str_of_nat i @ ''];'' @ newline) cor) @
           newline @
           cpre @ ''// err_o calc. bit0: single error, bit1: double error'' @ newline @
           print_err pre m codetype))))"

text \<open>What the statements compute.\<close>

fun red_xor :: "nat \<Rightarrow> int \<Rightarrow> bool" where
  "red_xor 0 x = False"
| "red_xor (Suc n) x = (bit x n \<noteq> red_xor n x)"

definition put_bit :: "nat \<Rightarrow> bool \<Rightarrow> int \<Rightarrow> int" where
  "put_bit b v d = (if v then set_bit b d else unset_bit b d)"

definition run_enc :: "nat \<Rightarrow> (nat \<times> int) list \<Rightarrow> int \<Rightarrow> int" where
  "run_enc n stmts data_i =
     foldl (\<lambda>data_o (b, msk). put_bit b (red_xor n (data_o AND msk)) data_o) (take_bit n data_i) stmts"

definition run_syndrome :: "nat \<Rightarrow> (nat \<times> int) list \<Rightarrow> int \<Rightarrow> int" where
  "run_syndrome n stmts data_i =
     foldl (\<lambda>s (j, msk). put_bit j (red_xor n (data_i AND msk)) s) 0 stmts"

definition run_correct :: "(nat \<times> int) list \<Rightarrow> int \<Rightarrow> int \<Rightarrow> int" where
  "run_correct stmts syndrome data_i =
     foldl (\<lambda>d (i, s). put_bit i ((syndrome = s) \<noteq> bit data_i i) d) 0 stmts"

text \<open>\<^verbatim>\<open>err_o[0]\<close> of the two kinds of code.\<close>

definition err_single :: "string \<Rightarrow> nat \<Rightarrow> int \<Rightarrow> bool" where
  "err_single codetype m syndrome =
     (if codetype = ''hamming'' then bit syndrome (m - 1) else red_xor m syndrome)"

definition err_double :: "string \<Rightarrow> nat \<Rightarrow> int \<Rightarrow> bool" where
  "err_double codetype m syndrome =
     (if codetype = ''hamming'' then take_bit (m - 1) syndrome \<noteq> 0 \<and> \<not> bit syndrome (m - 1)
      else \<not> red_xor m syndrome \<and> syndrome \<noteq> 0)"

record secded_out =
  out_data :: int
  out_syndrome :: int
  out_err0 :: bool
  out_err1 :: bool

definition secded_encode :: "nat \<Rightarrow> nat \<Rightarrow> fanin_code list \<Rightarrow> int \<Rightarrow> int result" where
  "secded_encode k m codes data_i = bindR (enc_stmts k m codes) (\<lambda>stmts. Inr (run_enc (k + m) stmts data_i))"

definition secded_decode :: "string \<Rightarrow> nat \<Rightarrow> nat \<Rightarrow> fanin_code list \<Rightarrow> int \<Rightarrow> secded_out result" where
  "secded_decode codetype k m codes data_i =
     bindR (syndrome_stmts k m codes) (\<lambda>syn.
     bindR (correct_stmts [0..<k] codes) (\<lambda>cor.
     let syndrome = run_syndrome (k + m) syn data_i
     in Inr \<lparr>out_data = run_correct cor syndrome data_i, out_syndrome = syndrome,
             out_err0 = err_single codetype m syndrome, out_err1 = err_double codetype m syndrome\<rparr>))"

section \<open>The printed C encoder\<close>

text \<open>
  The function that \<^verbatim>\<open>write_c_files\<close> prints, and what it computes: it collects its bytes in a word and
  combines the parities of the masked word, one bit each.  \<open>calc_parity\<close> is the C function of the
  file header, with its loop over the 64-bit word as a recursion.
\<close>

definition bytes_to_c_type :: "nat \<Rightarrow> string option" where
  "bytes_to_c_type num_bytes =
     (if num_bytes = 1 then Some ''uint8_t'' else if num_bytes \<le> 2 then Some ''uint16_t''
      else if num_bytes \<le> 4 then Some ''uint32_t'' else if num_bytes \<le> 8 then Some ''uint64_t'' else None)"

definition c_source :: "nat \<Rightarrow> nat \<Rightarrow> nat \<Rightarrow> fanin_code list \<Rightarrow> string \<Rightarrow> string result" where
  "c_source n k m codes suff =
     (let in_bytes = (k + 7) div 8; out_bytes = (m + 7) div 8
      in if k > 64 then Inr []
         else case (bytes_to_c_type in_bytes, bytes_to_c_type out_bytes) of
           (Some in_type, Some out_type) \<Rightarrow>
             bindR (calc_bitmasks k m codes False) (\<lambda>masks.
             Inr (newline @ out_type @ '' enc_secded_'' @ str_of_nat n @ ''_'' @ str_of_nat k @ suff @
               ''(const uint8_t bytes['' @ str_of_nat in_bytes @ '']) {'' @ newline @
               in_type @ '' word = '' @
               str_join '' | '' (map (\<lambda>i. ''(('' @ in_type @ '')bytes['' @ str_of_nat i @ ''] << '' @
                 str_of_nat (i * 8) @ '')'') [0..<in_bytes]) @ '';'' @ newline @ newline @
               ''return '' @
               str_join '' | '' (map (\<lambda>(par_bit, msk). ''(calc_parity(word & 0x'' @ fmt_x [] 0 msk @
                 '') << '' @ str_of_nat par_bit @ '')'') (enumerate 0 masks)) @
               '';'' @ newline @ ''}'' @ newline))
         | _ \<Rightarrow> Inl AssertionError)"

function calc_parity :: "int \<Rightarrow> bool" where
  "calc_parity word = (if word \<le> 0 then False else (word AND 1 = 1) \<noteq> calc_parity (drop_bit 1 word))"
  by auto

termination
  by (relation "measure nat") (auto simp: drop_bit_eq_div)

declare calc_parity.simps [simp del]

definition c_word :: "int list \<Rightarrow> int" where
  "c_word bytes = foldl (\<lambda>word (i, b). word OR push_bit (i * 8) b) 0 (enumerate 0 bytes)"

definition c_encode :: "nat \<Rightarrow> nat \<Rightarrow> fanin_code list \<Rightarrow> int list \<Rightarrow> int result" where
  "c_encode k m codes bytes =
     bindR (calc_bitmasks k m codes False) (\<lambda>masks.
     Inr (foldl (\<lambda>acc (par_bit, msk). acc OR push_bit par_bit (py_int (calc_parity (c_word bytes AND msk))))
       0 (enumerate 0 masks)))"

end
