(* ===== verification/Secded_Code.thy ===== *)
theory Secded_Code
  imports Secded
begin

text \<open>
  Correctness of the generated encoders and decoders.  A code is given by the columns of its parity
  check matrix: the column of data bit \<open>i\<close> is the tuple at position \<open>i\<close>, the column of parity bit \<open>j\<close>
  is \<open>j\<close> itself together with the tuple at position \<open>k + j\<close>, if there is one (Hamming codes compute
  the last parity bit from the others).  The syndrome of a word with errors is the sum of the
  columns of the errors, whatever the code word was; the locale \<open>secded_code\<close> derives from it that
  single errors are corrected and double errors detected, for every code with different columns
  that a linear test tells from sums of two of them.  Both constructions provide that.
\<close>

section \<open>Parity\<close>

lemma red_xor_xor: "red_xor n (x XOR y) = (red_xor n x \<noteq> red_xor n y)"
  by (induction n) (auto simp: bit_xor_iff)

lemma red_xor_zero [simp]: "red_xor n 0 = False"
  by (induction n) auto

lemma red_xor_cong: "(\<And>i. i < n \<Longrightarrow> bit x i = bit y i) \<Longrightarrow> red_xor n x = red_xor n y"
  by (induction n) auto

lemma red_xor_exp: "red_xor n (2 ^ i) \<longleftrightarrow> i < n"
  by (induction n) (auto simp: bit_exp_iff)

lemma exp_and: "(2 ^ i AND (x :: int)) = (if bit x i then 2 ^ i else 0)"
  by (rule bit_eqI) (auto simp: bit_simps)

lemma red_xor_add:
  assumes "\<not> bit x i"
  shows "red_xor n (x + 2 ^ i) = (red_xor n x \<noteq> (i < n))"
proof -
  have "x AND 2 ^ i = 0" using exp_and [of i x] assms by (simp add: and.commute)
  then have "x + 2 ^ i = x XOR 2 ^ i" by (simp add: disjunctive_xor_eq_or disjunctive_add_eq_or)
  then show ?thesis by (simp add: red_xor_xor red_xor_exp)
qed

lemma bit_put_bit [simp]: "bit (put_bit b v d) i = (if i = b then v else bit d i)"
  by (simp add: put_bit_def bit_simps)

lemma bit_foldl_put_bit:
  assumes "distinct (map fst stmts)"
  shows "bit (foldl (\<lambda>d (i, v). put_bit i (g i v) d) d0 stmts) i =
    (case map_of stmts i of Some v \<Rightarrow> g i v | None \<Rightarrow> bit d0 i)"
  using assms
proof (induction stmts arbitrary: d0)
  case (Cons st stmts)
  obtain j v where "st = (j, v)" by fastforce
  moreover from this have "map_of stmts j = None" using Cons.prems by (simp add: map_of_eq_None_iff)
  ultimately show ?case using Cons by (auto split: option.splits)
qed simp

section \<open>Masks\<close>

lemma incr_at_eq: "j < length xs \<Longrightarrow> incr_at xs j d = Inr (xs[j := xs ! j + d])"
  by (simp add: incr_at_def)

lemma incr_all_eq:
  assumes "distinct js" and "set js \<subseteq> {..<length xs}"
  shows "returns (incr_all js d xs) (\<lambda>ys. length ys = length xs \<and>
    (\<forall>j<length xs. ys ! j = (if j \<in> set js then xs ! j + d else xs ! j)))"
  using assms
proof (induction js arbitrary: xs)
  case (Cons a js)
  then have "returns (incr_all js d (xs[a := xs ! a + d])) (\<lambda>ys. length ys = length xs \<and>
    (\<forall>j<length xs. ys ! j = (if j \<in> set js then xs[a := xs ! a + d] ! j + d else xs[a := xs ! a + d] ! j)))"
    using Cons.IH [of "xs[a := xs ! a + d]"] by simp
  then show ?case
    using Cons.prems by (auto simp: incr_at_eq nth_list_update elim!: returnsE)
qed simp

text \<open>The codes of a generator: tuples of different parity bits; a parity bit refers to later ones only.\<close>

definition codes_ok :: "nat \<Rightarrow> nat \<Rightarrow> fanin_code list \<Rightarrow> bool" where
  "codes_ok k m codes \<longleftrightarrow> k \<le> length codes \<and> length codes \<le> k + m \<and>
     (\<forall>c\<in>set codes. distinct c \<and> set c \<subseteq> {..<m}) \<and>
     (\<forall>p j. k + p < length codes \<longrightarrow> j \<in> set (codes ! (k + p)) \<longrightarrow> p < j)"

text \<open>Whether parity bit \<open>j\<close> sums up bit \<open>i\<close> of the word.\<close>

definition takes_part :: "fanin_code list \<Rightarrow> nat \<Rightarrow> nat \<Rightarrow> bool" where
  "takes_part codes i j \<longleftrightarrow> i < length codes \<and> j \<in> set (codes ! i)"

lemma takes_part_Cons:
  "takes_part (c # codes) i j = (case i of 0 \<Rightarrow> j \<in> set c | Suc i' \<Rightarrow> takes_part codes i' j)"
  by (simp add: takes_part_def split: nat.split)

lemma bitmasks_loop_eq:
  assumes "\<forall>c\<in>set codes. distinct c \<and> set c \<subseteq> {..<length masks}" and "list_all (fits i) masks"
  shows "returns (bitmasks_loop i codes masks) (\<lambda>ms. length ms = length masks \<and>
    (\<forall>j<length masks. \<forall>b. bit (ms ! j) b = (bit (masks ! j) b \<or> i \<le> b \<and> takes_part codes (b - i) j)))"
  using assms
proof (induction codes arbitrary: i masks)
  case Nil
  then show ?case by (simp add: takes_part_def)
next
  case (Cons c codes)
  obtain ys where ys: "incr_all c (push_bit i 1) masks = Inr ys" "length ys = length masks"
    "\<forall>j<length masks. ys ! j = (if j \<in> set c then masks ! j + push_bit i 1 else masks ! j)"
    using incr_all_eq [of c masks "push_bit i 1"] Cons.prems(1) by (auto elim!: returnsE)
  have old: "fits i (masks ! j)" if "j < length masks" for j
    using Cons.prems(2) that by (simp add: list_all_length)
  have fit: "fits (Suc i) (ys ! j)" if "j < length masks" for j
    using old [OF that] ys(3) that by (auto simp: fits_iff push_bit_eq_mult)
  have bits: "bit (ys ! j) b = (bit (masks ! j) b \<or> j \<in> set c \<and> b = i)" if "j < length masks" for j b
  proof (cases "j \<in> set c")
    case True
    then have "ys ! j = push_bit i 1 OR masks ! j"
      using or_push_bit_add [OF old [OF that], of 1] ys(3) that by (simp add: add.commute)
    then show ?thesis using True by (auto simp: bit_simps)
  qed (use ys(3) that in simp)
  have "list_all (fits (Suc i)) ys" using fit ys(2) by (simp add: list_all_length)
  then obtain ms where ms: "bitmasks_loop (Suc i) codes ys = Inr ms" "length ms = length ys"
    "\<forall>j<length ys. \<forall>b. bit (ms ! j) b = (bit (ys ! j) b \<or> Suc i \<le> b \<and> takes_part codes (b - Suc i) j)"
    using Cons.IH [of ys "Suc i"] Cons.prems(1) ys(2) by (auto elim!: returnsE)
  have "bit (ms ! j) b = (bit (masks ! j) b \<or> i \<le> b \<and> takes_part (c # codes) (b - i) j)"
    if "j < length masks" for j b
  proof (cases "i < b")
    case True
    then obtain d where "b = Suc (i + d)" using less_imp_Suc_add by blast
    then show ?thesis using ms(3) bits that ys(2) by (simp add: takes_part_Cons)
  next
    case False
    then show ?thesis using ms(3) bits that ys(2) by (cases "b = i") (auto simp: takes_part_Cons)
  qed
  then show ?case using ys(1,2) ms(1,2) by simp
qed

lemma bit_add_exp:
  assumes "\<not> bit (x :: int) i"
  shows "bit (x + 2 ^ i) b \<longleftrightarrow> bit x b \<or> b = i"
proof -
  have "x AND 2 ^ i = 0" using exp_and [of i x] assms by (simp add: and.commute)
  then have "x + 2 ^ i = x OR 2 ^ i" by (simp add: disjunctive_add_eq_or)
  then show ?thesis by (auto simp: bit_simps)
qed

lemma bitmasks_dec_eq:
  assumes "distinct js" and "set js \<subseteq> {..<length masks}" and "\<forall>j\<in>set js. \<not> bit (masks ! j) (k + j)"
  shows "returns (bitmasks_dec k js masks) (\<lambda>ms. length ms = length masks \<and>
    (\<forall>j<length masks. \<forall>b. bit (ms ! j) b = (bit (masks ! j) b \<or> j \<in> set js \<and> b = k + j)))"
  using assms
proof (induction js arbitrary: masks)
  case (Cons a js)
  let ?ys = "masks[a := masks ! a + push_bit (k + a) 1]"
  have "\<forall>j\<in>set js. \<not> bit (?ys ! j) (k + j)" using Cons.prems by (auto simp: nth_list_update)
  then obtain ms where ms: "bitmasks_dec k js ?ys = Inr ms" "length ms = length masks"
    "\<forall>j<length masks. \<forall>b. bit (ms ! j) b = (bit (?ys ! j) b \<or> j \<in> set js \<and> b = k + j)"
    using Cons.IH [of ?ys] Cons.prems(1,2) by (auto elim!: returnsE)
  have "bit (?ys ! j) b = (bit (masks ! j) b \<or> j = a \<and> b = k + j)" if "j < length masks" for j b
    using that Cons.prems(3) bit_add_exp [of "masks ! a" "k + a" b]
    by (cases "j = a") (simp_all add: push_bit_eq_mult)
  then show ?case using ms Cons.prems(2) by (auto simp: incr_at_eq)
qed simp

lemma calc_bitmasks_eq:
  assumes "codes_ok k m codes"
  shows "returns (calc_bitmasks k m codes dec) (\<lambda>ms. length ms = m \<and>
    (\<forall>j<m. \<forall>i. bit (ms ! j) i = (takes_part codes i j \<or> dec \<and> i = k + j)))"
proof -
  obtain ms where ms: "bitmasks_loop 0 codes (replicate m 0) = Inr ms" "length ms = m"
    "\<forall>j<m. \<forall>i. bit (ms ! j) i = takes_part codes i j"
    using bitmasks_loop_eq [of codes "replicate m 0" 0] assms
    by (auto simp: codes_ok_def list_all_length elim!: returnsE)
  have "\<forall>j\<in>set [0..<m]. \<not> bit (ms ! j) (k + j)"
    using ms(3) assms by (fastforce simp: takes_part_def codes_ok_def)
  then obtain ds where ds: "bitmasks_dec k [0..<m] ms = Inr ds" "length ds = m"
    "\<forall>j<m. \<forall>i. bit (ds ! j) i = (bit (ms ! j) i \<or> j \<in> set [0..<m] \<and> i = k + j)"
    using bitmasks_dec_eq [of "[0..<m]" ms k] ms(2) by (auto simp: lessThan_atLeast0 elim!: returnsE)
  show ?thesis
  proof (cases dec)
    case True
    then show ?thesis using ms(1,3) ds by (simp add: calc_bitmasks_def)
  qed (use ms in \<open>simp add: calc_bitmasks_def\<close>)
qed

section \<open>The encoder\<close>

definition enc_from :: "nat \<Rightarrow> nat \<Rightarrow> nat \<Rightarrow> int list \<Rightarrow> int \<Rightarrow> int" where
  "enc_from n k j masks d =
     foldl (\<lambda>data_o (b, msk). put_bit b (red_xor n (data_o AND msk)) data_o) d
       (map (\<lambda>(j, msk). (j + k, msk)) (enumerate j masks))"

lemma enc_from_simps [simp]:
  "enc_from n k j [] d = d"
  "enc_from n k j (msk # masks) d = enc_from n k (Suc j) masks (put_bit (k + j) (red_xor n (d AND msk)) d)"
  by (simp_all add: enc_from_def add.commute)

lemma enc_from_bits:
  assumes "\<forall>p<length masks. \<forall>i. bit (masks ! p) i \<longrightarrow> i < k + j + p"
  shows "(\<forall>i. i < k + j \<or> k + j + length masks \<le> i \<longrightarrow> bit (enc_from n k j masks d) i = bit d i) \<and>
    (\<forall>p<length masks. bit (enc_from n k j masks d) (k + j + p) = red_xor n (enc_from n k j masks d AND masks ! p))"
  using assms
proof (induction masks arbitrary: j d)
  case (Cons msk masks)
  let ?d = "put_bit (k + j) (red_xor n (d AND msk)) d"
  let ?r = "enc_from n k (Suc j) masks ?d"
  have "\<forall>p<length masks. \<forall>i. bit (masks ! p) i \<longrightarrow> i < k + Suc j + p"
    using Cons.prems by fastforce
  from Cons.IH [OF this, of ?d]
  have keep: "\<forall>i. i < k + Suc j \<or> k + Suc j + length masks \<le> i \<longrightarrow> bit ?r i = bit ?d i"
    and rest: "\<forall>p<length masks. bit ?r (k + Suc j + p) = red_xor n (?r AND masks ! p)" by blast+
  have own: "bit msk i \<Longrightarrow> i < k + j" for i using Cons.prems by fastforce
  have "red_xor n (?r AND msk) = red_xor n (d AND msk)"
    using keep own by (intro red_xor_cong) (fastforce simp: bit_and_iff)
  then have "bit ?r (k + j) = red_xor n (?r AND msk)" using keep by simp
  then have "\<forall>p<length (msk # masks). bit ?r (k + j + p) = red_xor n (?r AND (msk # masks) ! p)"
    using rest by (auto simp: less_Suc_eq_0_disj)
  then show ?case using keep by auto
qed simp

section \<open>Syndromes\<close>

text \<open>The sum modulo two of a predicate, of which \<open>red_xor\<close> is the instance for the bits of a number.\<close>

fun xsum :: "nat \<Rightarrow> (nat \<Rightarrow> bool) \<Rightarrow> bool" where
  "xsum 0 f = False"
| "xsum (Suc n) f = (f n \<noteq> xsum n f)"

lemma red_xor_xsum: "red_xor n x = xsum n (bit x)"
  by (induction n) auto

lemma xsum_cong: "(\<And>i. i < n \<Longrightarrow> f i = g i) \<Longrightarrow> xsum n f = xsum n g"
  by (induction n) auto

lemma xsum_diff: "xsum n (\<lambda>i. f i \<noteq> g i) = (xsum n f \<noteq> xsum n g)"
  by (induction n) auto

lemma xsum_one: "xsum n (\<lambda>i. i = c \<and> P i) = (c < n \<and> P c)"
  by (induction n) (auto simp: less_Suc_eq)

text \<open>The check of parity bit \<open>j\<close> on a received word, and the column of a bit.\<close>

definition check :: "nat \<Rightarrow> nat \<Rightarrow> fanin_code list \<Rightarrow> int \<Rightarrow> nat \<Rightarrow> bool" where
  "check k m codes w j = xsum (k + m) (\<lambda>i. bit w i \<and> (takes_part codes i j \<or> i = k + j))"

definition column :: "nat \<Rightarrow> fanin_code list \<Rightarrow> nat \<Rightarrow> int" where
  "column k codes i =
     (if i < length codes then calc_syndrome (codes ! i) else 0) + (if k \<le> i then 2 ^ (i - k) else 0)"

lemma bit_calc_syndrome: "distinct c \<Longrightarrow> bit (calc_syndrome c) j \<longleftrightarrow> j \<in> set c"
proof (induction c arbitrary: j)
  case (Cons x c)
  then have "\<not> bit (calc_syndrome c) x" by simp
  from bit_add_exp [OF this, of j] show ?case using Cons by (auto simp: calc_syndrome_def add.commute)
qed (simp add: calc_syndrome_def)

lemma bit_column:
  assumes "codes_ok k m codes"
  shows "bit (column k codes i) j \<longleftrightarrow> takes_part codes i j \<or> i = k + j"
proof -
  let ?c = "if i < length codes then calc_syndrome (codes ! i) else 0"
  have c: "bit ?c j \<longleftrightarrow> takes_part codes i j" for j
    using assms by (simp add: takes_part_def bit_calc_syndrome codes_ok_def)
  show ?thesis
  proof (cases "k \<le> i")
    case True
    then obtain p where p: "i = k + p" using le_Suc_ex by blast
    have "\<not> takes_part codes i p" using assms p by (fastforce simp: takes_part_def codes_ok_def)
    then have "\<not> bit ?c p" by (simp only: c simp_thms)
    from bit_add_exp [OF this, of j] have "bit (?c + 2 ^ p) j \<longleftrightarrow> takes_part codes i j \<or> j = p"
      unfolding c .
    moreover have "column k codes i = ?c + 2 ^ p" by (simp add: column_def p)
    ultimately show ?thesis using p by auto
  next
    case False
    then have "column k codes i = ?c" by (simp add: column_def)
    then show ?thesis using c [of j] False by auto
  qed
qed

lemma check_flip:
  assumes "codes_ok k m codes" and "i < k + m"
  shows "check k m codes (flip_bit i w) j = (check k m codes w j \<noteq> bit (column k codes i) j)"
proof -
  let ?T = "\<lambda>i. takes_part codes i j \<or> i = k + j"
  have "check k m codes (flip_bit i w) j = xsum (k + m) (\<lambda>b. (bit w b \<and> ?T b) \<noteq> (b = i \<and> ?T b))"
    unfolding check_def by (intro xsum_cong) (auto simp: bit_flip_bit_iff)
  then show ?thesis unfolding xsum_diff xsum_one using assms by (simp add: check_def bit_column)
qed

lemma map_of_enumerate: "map_of (enumerate n xs) i = (if n \<le> i \<and> i < n + length xs then Some (xs ! (i - n)) else None)"
proof (induction xs arbitrary: n i)
  case (Cons x xs)
  show ?case
  proof (cases "n < i")
    case True
    then obtain d where "i = Suc (n + d)" using less_imp_Suc_add by blast
    then show ?thesis by (simp add: Cons.IH)
  qed (simp add: Cons.IH)
qed simp

lemma syndrome_bits:
  assumes "codes_ok k m codes"
  shows "returns (syndrome_stmts k m codes) (\<lambda>stmts. \<forall>w j.
    bit (run_syndrome (k + m) stmts w) j = (j < m \<and> check k m codes w j))"
proof -
  obtain ms where ms: "calc_bitmasks k m codes True = Inr ms" "length ms = m"
    "\<forall>j<m. \<forall>i. bit (ms ! j) i = (takes_part codes i j \<or> i = k + j)"
    using calc_bitmasks_eq [OF assms, of True] by (auto elim!: returnsE)
  have "bit (run_syndrome (k + m) (enumerate 0 ms) w) j = (j < m \<and> check k m codes w j)" for w j
    using bit_foldl_put_bit [of "enumerate 0 ms" "\<lambda>j msk. red_xor (k + m) (w AND msk)" 0 j] ms(2,3)
    by (simp add: run_syndrome_def map_of_enumerate red_xor_xsum check_def bit_and_iff cong: xsum_cong)
  then show ?thesis using ms(1) by (simp add: syndrome_stmts_def)
qed

section \<open>Code words\<close>

text \<open>An encoded word carries the data in its low bits, and all its checks are even.\<close>

definition codeword :: "nat \<Rightarrow> nat \<Rightarrow> fanin_code list \<Rightarrow> int \<Rightarrow> int \<Rightarrow> bool" where
  "codeword k m codes d w \<longleftrightarrow> take_bit k w = d \<and> (\<forall>j<m. \<not> check k m codes w j)"

lemma encode_codeword:
  assumes ok: "codes_ok k m codes" and "fits k d"
  shows "returns (secded_encode k m codes d) (codeword k m codes d)"
proof -
  obtain ms where ms: "calc_bitmasks k m codes False = Inr ms" "length ms = m"
    "\<forall>j<m. \<forall>i. bit (ms ! j) i = takes_part codes i j"
    using calc_bitmasks_eq [OF ok, of False] by (auto elim!: returnsE)
  let ?n = "k + m"
  let ?w = "enc_from ?n k 0 ms d"
  have "i < k + j" if "takes_part codes i j" "j < m" for i j
  proof (cases "i < k")
    case False
    then obtain p where "i = k + p" using le_Suc_ex not_less by blast
    then show ?thesis using that ok by (auto simp: takes_part_def codes_ok_def)
  qed simp
  then have "\<forall>p<length ms. \<forall>i. bit (ms ! p) i \<longrightarrow> i < k + 0 + p" using ms(2,3) by simp
  from enc_from_bits [OF this, of ?n d]
  have low: "\<forall>i<k. bit ?w i = bit d i" and par: "\<forall>p<m. bit ?w (k + p) = red_xor ?n (?w AND ms ! p)"
    using ms(2) by auto
  have "\<not> check k m codes ?w j" if "j < m" for j
  proof -
    have no: "\<not> takes_part codes (k + j) j" using ok by (fastforce simp: takes_part_def codes_ok_def)
    have "check k m codes ?w j =
      xsum ?n (\<lambda>i. (bit ?w i \<and> takes_part codes i j) \<noteq> (i = k + j \<and> bit ?w i))"
      unfolding check_def using no by (intro xsum_cong) auto
    then show ?thesis
      unfolding xsum_diff xsum_one using par ms(3) that by (simp add: red_xor_xsum bit_and_iff cong: xsum_cong)
  qed
  moreover have "take_bit k ?w = d"
  proof (rule bit_eqI)
    fix i
    have "bit d i = (i < k \<and> bit d i)" using fits_take_bit_eq [OF assms(2)] by (metis bit_take_bit_iff)
    then show "bit (take_bit k ?w) i = bit d i" using low by (auto simp: bit_take_bit_iff)
  qed
  moreover have "take_bit ?n d = d" using assms(2) fits_mono [of k d ?n] fits_take_bit_eq by simp
  then have "secded_encode k m codes d = Inr ?w"
    using ms(1) by (simp add: secded_encode_def enc_stmts_def run_enc_def enc_from_def)
  ultimately show ?thesis by (simp add: codeword_def)
qed

section \<open>The decoder\<close>

lemma correct_stmts_eq:
  "\<forall>i\<in>set idxs. i < length codes \<Longrightarrow>
    correct_stmts idxs codes = Inr (map (\<lambda>i. (i, calc_syndrome (codes ! i))) idxs)"
  by (induction idxs) auto

lemma map_of_graph: "map_of (map (\<lambda>i. (i, f i)) is) i = (if i \<in> set is then Some (f i) else None)"
  by (induction "is") auto

lemma bit_run_correct:
  assumes "k \<le> length codes"
  shows "bit (run_correct (map (\<lambda>i. (i, calc_syndrome (codes ! i))) [0..<k]) syn w) i \<longleftrightarrow>
    i < k \<and> ((syn = column k codes i) \<noteq> bit w i)"
proof -
  have "map_of (map (\<lambda>i. (i, calc_syndrome (codes ! i))) [0..<k]) i =
      (if i < k then Some (calc_syndrome (codes ! i)) else None)"
    by (simp add: map_of_graph)
  then show ?thesis
    using bit_foldl_put_bit [of "map (\<lambda>i. (i, calc_syndrome (codes ! i))) [0..<k]" "\<lambda>i s. (syn = s) \<noteq> bit w i" 0 i]
      assms
    by (simp add: run_correct_def column_def o_def)
qed

lemma secded_decode_eq:
  assumes "codes_ok k m codes"
  shows "returns (secded_decode ty k m codes w) (\<lambda>r.
    (\<forall>j. bit (out_syndrome r) j = (j < m \<and> check k m codes w j)) \<and>
    (\<forall>i. bit (out_data r) i \<longleftrightarrow> i < k \<and> ((out_syndrome r = column k codes i) \<noteq> bit w i)) \<and>
    out_err0 r = err_single ty m (out_syndrome r) \<and> out_err1 r = err_double ty m (out_syndrome r))"
proof -
  obtain syn where syn: "syndrome_stmts k m codes = Inr syn"
    "\<forall>w j. bit (run_syndrome (k + m) syn w) j = (j < m \<and> check k m codes w j)"
    using syndrome_bits [OF assms] by (auto elim!: returnsE)
  have k: "k \<le> length codes" using assms by (simp add: codes_ok_def)
  then have "correct_stmts [0..<k] codes = Inr (map (\<lambda>i. (i, calc_syndrome (codes ! i))) [0..<k])"
    by (intro correct_stmts_eq) auto
  then show ?thesis using syn bit_run_correct [OF k] by (simp add: secded_decode_def Let_def)
qed

text \<open>
  The interface of a code construction: \<open>gen k m codes\<close> says that \<open>codes\<close> is a result of it.  The
  columns differ, and \<^verbatim>\<open>err_o[0]\<close> is a linear test that holds of every column.
\<close>

locale secded_code =
  fixes gen :: "nat \<Rightarrow> nat \<Rightarrow> fanin_code list \<Rightarrow> bool" and ty :: string
  assumes gen_ok: "gen k m codes \<Longrightarrow> codes_ok k m codes"
    and column_inj: "gen k m codes \<Longrightarrow> i < k + m \<Longrightarrow> j < k + m \<Longrightarrow>
      column k codes i = column k codes j \<Longrightarrow> i = j"
    and column_single: "gen k m codes \<Longrightarrow> i < k + m \<Longrightarrow> err_single ty m (column k codes i)"
    and single_xor: "err_single ty m (x XOR y) = (err_single ty m x \<noteq> err_single ty m y)"
    and double_iff: "(\<And>i. m \<le> i \<Longrightarrow> \<not> bit s i) \<Longrightarrow> err_double ty m s \<longleftrightarrow> \<not> err_single ty m s \<and> s \<noteq> 0"
begin

lemma single_zero: "\<not> err_single ty m 0"
  using single_xor [of m 0 0] by simp

lemma column_nonzero: "gen k m codes \<Longrightarrow> i < k + m \<Longrightarrow> column k codes i \<noteq> 0"
  using column_single single_zero by fastforce

lemma decode_syndrome:
  assumes "gen k m codes" and "codeword k m codes d w"
    and s: "\<And>j. bit s j = (j < m \<and> check k m codes v j)"
  shows "returns (secded_decode ty k m codes v) (\<lambda>r. out_syndrome r = s \<and>
    (\<forall>i. bit (out_data r) i \<longleftrightarrow> i < k \<and> ((s = column k codes i) \<noteq> bit v i)) \<and>
    out_err0 r = err_single ty m s \<and> out_err1 r = (\<not> err_single ty m s \<and> s \<noteq> 0))"
proof -
  have "\<And>j. m \<le> j \<Longrightarrow> \<not> bit s j" using s by simp
  from double_iff [OF this] have e: "err_double ty m s \<longleftrightarrow> \<not> err_single ty m s \<and> s \<noteq> 0" .
  have eq: "x = s" if "\<forall>j. bit x j = (j < m \<and> check k m codes v j)" for x
    using that s by (intro bit_eqI) simp
  obtain r where r: "secded_decode ty k m codes v = Inr r"
    "\<forall>j. bit (out_syndrome r) j = (j < m \<and> check k m codes v j)"
    "\<forall>i. bit (out_data r) i \<longleftrightarrow> i < k \<and> ((out_syndrome r = column k codes i) \<noteq> bit v i)"
    "out_err0 r = err_single ty m (out_syndrome r)" "out_err1 r = err_double ty m (out_syndrome r)"
    using secded_decode_eq [OF gen_ok [OF assms(1)], of ty v] by (rule returnsE) blast
  have "out_syndrome r = s" using eq [OF r(2)] .
  then show ?thesis using r e by simp
qed

lemma codeword_bits:
  assumes "codeword k m codes d w"
  shows "bit d i \<longleftrightarrow> i < k \<and> bit w i" and "j < m \<Longrightarrow> \<not> check k m codes w j"
  using assms by (auto simp: codeword_def bit_take_bit_iff)

lemma column_below:
  assumes "gen k m codes" and "i < k + m" and "bit (column k codes i) j"
  shows "j < m"
  using assms gen_ok [OF assms(1)] bit_column [OF gen_ok [OF assms(1)], of i j]
  by (auto simp: takes_part_def codes_ok_def)

lemma no_error:
  assumes g: "gen k m codes" and w: "codeword k m codes d w"
  shows "secded_decode ty k m codes w = Inr \<lparr>out_data = d, out_syndrome = 0, out_err0 = False, out_err1 = False\<rparr>"
proof -
  obtain r where r: "secded_decode ty k m codes w = Inr r" "out_syndrome r = 0"
    "\<forall>i. bit (out_data r) i \<longleftrightarrow> i < k \<and> ((0 = column k codes i) \<noteq> bit w i)"
    "out_err0 r = err_single ty m 0" "out_err1 r = (\<not> err_single ty m 0 \<and> (0::int) \<noteq> 0)"
    using decode_syndrome [OF g w, of 0 w] codeword_bits(2) [OF w] by (auto elim!: returnsE)
  have "out_data r = d"
    using r(3) codeword_bits(1) [OF w] column_nonzero [OF g] by (intro bit_eqI) force
  then show ?thesis using r single_zero by (cases r) simp
qed

lemma single_error:
  assumes g: "gen k m codes" and w: "codeword k m codes d w" and i: "i < k + m"
  shows "secded_decode ty k m codes (flip_bit i w) =
    Inr \<lparr>out_data = d, out_syndrome = column k codes i, out_err0 = True, out_err1 = False\<rparr>"
proof -
  let ?s = "column k codes i"
  have "bit ?s j = (j < m \<and> check k m codes (flip_bit i w) j)" for j
    using check_flip [OF gen_ok [OF g] i, of w j] codeword_bits(2) [OF w] column_below [OF g i] by auto
  then obtain r where r: "secded_decode ty k m codes (flip_bit i w) = Inr r" "out_syndrome r = ?s"
    "\<forall>b. bit (out_data r) b \<longleftrightarrow> b < k \<and> ((?s = column k codes b) \<noteq> bit (flip_bit i w) b)"
    "out_err0 r = err_single ty m ?s" "out_err1 r = (\<not> err_single ty m ?s \<and> ?s \<noteq> 0)"
    using decode_syndrome [OF g w, of ?s "flip_bit i w"] by (auto elim!: returnsE)
  have "?s = column k codes b \<longleftrightarrow> b = i" if "b < k" for b
    using column_inj [OF g i, of b] that by auto
  then have "out_data r = d"
    using r(3) codeword_bits(1) [OF w] by (intro bit_eqI) (auto simp: bit_flip_bit_iff)
  then show ?thesis using r column_single [OF g i] by (cases r) simp
qed

lemma double_error:
  assumes g: "gen k m codes" and w: "codeword k m codes d w" and i: "i < k + m" and j: "j < k + m" and "i \<noteq> j"
  shows "returns (secded_decode ty k m codes (flip_bit i (flip_bit j w))) (\<lambda>r.
    out_syndrome r \<noteq> 0 \<and> \<not> out_err0 r \<and> out_err1 r)"
proof -
  let ?s = "column k codes i XOR column k codes j"
  have bits: "bit ?s b = (b < m \<and> check k m codes (flip_bit i (flip_bit j w)) b)" for b
    using check_flip [OF gen_ok [OF g] i, of "flip_bit j w" b] check_flip [OF gen_ok [OF g] j, of w b]
      codeword_bits(2) [OF w] column_below [OF g i] column_below [OF g j] by (auto simp: bit_xor_iff)
  have nz: "?s \<noteq> 0"
  proof
    assume "?s = 0"
    then have "column k codes i = column k codes j"
      by (metis xor.assoc xor.left_neutral xor.right_neutral xor_self_eq)
    then show False using column_inj [OF g i j] assms(5) by simp
  qed
  have ns: "\<not> err_single ty m ?s"
    using single_xor column_single [OF g i] column_single [OF g j] by simp
  show ?thesis
    by (rule returns_mono [OF decode_syndrome [OF g w bits]]) (use nz ns in simp)
qed

end

end
