(* ===== verification/Secded_Gen.thy ===== *)
theory Secded_Gen
  imports Secded_Code "HOL-Library.Multiset"
begin

text \<open>
  The two code constructions: their results have the columns a SECDED code needs, so the
  generated encoders and decoders correct single errors and detect double errors, and the fan-in of
  a Hsiao code is at most the ideal one.
\<close>

section \<open>Combinations\<close>

lemma combinations_mem:
  "c \<in> set (combinations xs n) \<Longrightarrow>
    length c = n \<and> set c \<subseteq> set xs \<and> (sorted_wrt (<) xs \<longrightarrow> sorted_wrt (<) (c :: 'a::linorder list))"
proof (induction xs n arbitrary: c rule: combinations.induct)
  case (3 x xs n)
  then show ?case by (auto simp: subset_iff)
qed auto

lemma combinations_distinct:
  fixes xs :: "'a::linorder list"
  shows "distinct xs \<Longrightarrow> distinct (combinations xs n)"
proof (induction xs n rule: combinations.induct)
  case (3 x xs n)
  then have "\<forall>c\<in>set (combinations xs (Suc n)). x \<notin> set c" using combinations_mem by fastforce
  then show ?case using 3 by (auto simp: distinct_map)
qed auto

lemma length_combinations [simp]: "length (combinations xs n) = length xs choose n"
  by (induction xs n rule: combinations.induct) auto

text \<open>How many tuples contain \<open>j\<close>.\<close>

definition col_fanin :: "fanin_code list \<Rightarrow> nat \<Rightarrow> nat" where
  "col_fanin codes j = length (filter (\<lambda>c. j \<in> set c) codes)"

lemma col_fanin_append [simp]: "col_fanin (codes @ codes') j = col_fanin codes j + col_fanin codes' j"
  by (simp add: col_fanin_def)

lemma col_fanin_combinations:
  assumes "distinct xs" and "j \<in> set xs" and "0 < n"
  shows "col_fanin (combinations xs n) j = (length xs - 1) choose (n - 1)"
  using assms
proof (induction xs n rule: combinations.induct)
  case (3 x xs n)
  have none: "col_fanin (combinations xs i) x = 0" if "x \<notin> set xs" for i
    using that combinations_mem by (fastforce simp: col_fanin_def filter_empty_conv)
  have cons: "col_fanin (map ((#) x) cs) j = (if j = x then length cs else col_fanin cs j)" for cs
    by (induction cs) (auto simp: col_fanin_def)
  show ?case
  proof (cases "j = x")
    case True
    then show ?thesis using 3 none cons by simp
  next
    case False
    then have j: "j \<in> set xs" "distinct xs" using "3.prems" by auto
    then obtain l where l: "length xs = Suc l" by (cases xs) auto
    have "col_fanin (combinations xs n) j = (if n = 0 then 0 else l choose (n - 1))"
      using "3.IH"(1) j l by (cases n) (auto simp: col_fanin_def)
    moreover have "col_fanin (combinations xs (Suc n)) j = l choose n" using "3.IH"(2) j l by simp
    ultimately show ?thesis using False cons [of "combinations xs n"] l
      by (simp add: choose_reduce_nat)
  qed
qed auto

lemma ceil_div_mult:
  assumes "0 < m"
  shows "ceil_div (m * c) m = c"
proof -
  obtain l where l: "m = Suc l" using assms gr0_conv_Suc by blast
  have "(l + c * Suc l) div Suc l = c" by (subst div_mult_self1) simp_all
  then show ?thesis by (simp add: ceil_div_def l algebra_simps)
qed

text \<open>A full step adds the same fan-in to every parity bit, and exactly what \<open>ideal_fanin\<close> counts.\<close>

lemma full_step_fanin:
  assumes "j < m" and "0 < s"
  shows "col_fanin (combinations [0..<m] s) j = ceil_div ((m choose s) * s) m"
proof -
  have "(m choose s) * s = m * ((m - 1) choose (s - 1))"
    using times_binomial_minus1_eq [OF assms(2), of m] by (simp add: mult.commute)
  then have "ceil_div ((m choose s) * s) m = (m - 1) choose (s - 1)"
    using assms by (simp add: ceil_div_mult)
  then show ?thesis using col_fanin_combinations [of "[0..<m]" j s] assms by simp
qed

lemma incr_all_one:
  assumes "distinct c" and "set c \<subseteq> {..<m}" and "length f = m"
  shows "incr_all c (1 :: nat) f = Inr (map (\<lambda>j. f ! j + of_bool (j \<in> set c)) [0..<m])"
proof -
  obtain ys where ys: "incr_all c 1 f = Inr ys" "length ys = length f"
    "\<forall>j<length f. ys ! j = (if j \<in> set c then f ! j + 1 else f ! j)"
    using incr_all_eq [of c f 1] assms by (auto elim!: returnsE)
  have "ys = map (\<lambda>j. f ! j + of_bool (j \<in> set c)) [0..<m]"
    using ys(2,3) assms(3) by (intro nth_equalityI) auto
  then show ?thesis using ys(1) by simp
qed

lemma calc_fanin_eq:
  assumes "\<forall>c\<in>set codes. distinct c \<and> set c \<subseteq> {..<m}"
  shows "calc_fanin m codes = Inr (map (col_fanin codes) [0..<m])"
proof -
  have "fanin_loop codes f = Inr (map (\<lambda>j. f ! j + col_fanin codes j) [0..<m])"
    if "length f = m" "\<forall>c\<in>set codes. distinct c \<and> set c \<subseteq> {..<m}" for f
    using that
  proof (induction codes arbitrary: f)
    case Nil
    then show ?case by (auto simp: col_fanin_def map_nth)
  next
    case (Cons c codes)
    let ?g = "map (\<lambda>j. f ! j + of_bool (j \<in> set c)) [0..<m]"
    have "fanin_loop (c # codes) f = fanin_loop codes ?g"
      using Cons.prems incr_all_one [of c m f] by simp
    also have "\<dots> = Inr (map (\<lambda>j. ?g ! j + col_fanin codes j) [0..<m])" using Cons by simp
    finally show ?case by (auto simp: col_fanin_def)
  qed
  from this [of "replicate m 0"] assms show ?thesis by (simp add: calc_fanin_def cong: map_cong)
qed

section \<open>Hsiao codes\<close>

definition permutes :: "(nat \<Rightarrow> fanin_code list \<Rightarrow> fanin_code list) \<Rightarrow> bool" where
  "permutes shuffle \<longleftrightarrow> (\<forall>i codes. mset (shuffle i codes) = mset codes)"

definition row_ok :: "nat \<Rightarrow> fanin_code \<Rightarrow> bool" where
  "row_ok m c \<longleftrightarrow> sorted_wrt (<) c \<and> set c \<subseteq> {..<m} \<and> odd (length c) \<and> 3 \<le> length c"

lemma row_ok_distinct: "row_ok m c \<Longrightarrow> distinct c \<and> set c \<subseteq> {..<m}"
  by (auto simp: row_ok_def strict_sorted_iff)

lemma exceeds_ideal_iff:
  "exceeds_ideal m ideal fanins (map g [0..<m]) \<longleftrightarrow> \<not> (\<forall>j<m. fanins ! j + g j \<le> ideal)"
  by (auto simp: exceeds_ideal_def list_ex_iff not_le)

lemma hsiao_search_ok:
  assumes "hsiao_search shuffle m ideal fanins req rd cand = Some r"
    and "permutes shuffle" and "\<forall>c\<in>set cand. row_ok m c" and "length fanins = m"
  shows "\<exists>cand'. mset cand' = mset cand \<and> r = Inr (take req cand') \<and>
    (\<forall>j<m. fanins ! j + col_fanin (take req cand') j \<le> ideal)"
proof -
  have "permutes shuffle \<longrightarrow> (\<forall>c\<in>set cand. row_ok m c) \<longrightarrow> (\<exists>cand'. mset cand' = mset cand \<and>
      r = Inr (take req cand') \<and> (\<forall>j<m. fanins ! j + col_fanin (take req cand') j \<le> ideal))"
  proof (rule hsiao_search.raw_induct [OF _ assms(1)], intro impI)
    fix search shuffle m ideal fanins req rd cand r
    assume 1: "\<And>shuffle m ideal fanins req rd cand r. search shuffle m ideal fanins req rd cand = Some r \<Longrightarrow>
        permutes shuffle \<longrightarrow> (\<forall>c\<in>set cand. row_ok m c) \<longrightarrow> (\<exists>cand'. mset cand' = mset cand \<and>
        r = Inr (take req cand') \<and> (\<forall>j<m. fanins ! j + col_fanin (take req cand') j \<le> ideal))"
      "(let candidate' = shuffle rd cand; rows = take req candidate'
        in case calc_fanin m rows of
             Inl e \<Rightarrow> Some (Inl e)
           | Inr subset_fanins \<Rightarrow>
               if exceeds_ideal m ideal fanins subset_fanins
               then search shuffle m ideal fanins req (Suc rd) candidate'
               else Some (Inr rows)) = Some r"
      and a: "permutes shuffle" "\<forall>c\<in>set cand. row_ok m c"
    let ?cand = "shuffle rd cand"
    have eq: "mset ?cand = mset cand" using a(1) by (simp add: permutes_def)
    then have rows: "\<forall>c\<in>set ?cand. row_ok m c" using a(2) by (metis set_mset_mset)
    then have "\<forall>c\<in>set (take req ?cand). distinct c \<and> set c \<subseteq> {..<m}"
      using row_ok_distinct in_set_takeD by metis
    from calc_fanin_eq [OF this]
    have f: "calc_fanin m (take req ?cand) = Inr (map (col_fanin (take req ?cand)) [0..<m])" .
    show "\<exists>cand'. mset cand' = mset cand \<and> r = Inr (take req cand') \<and>
        (\<forall>j<m. fanins ! j + col_fanin (take req cand') j \<le> ideal)"
    proof (cases "exceeds_ideal m ideal fanins (map (col_fanin (take req ?cand)) [0..<m])")
      case True
      then have "search shuffle m ideal fanins req (Suc rd) ?cand = Some r" using 1(2) f by (simp add: Let_def)
      from 1(1) [OF this] a(1) rows eq show ?thesis by auto
    next
      case False
      then have "r = Inr (take req ?cand)" using 1(2) f by (simp add: Let_def)
      moreover have "\<forall>j<m. fanins ! j + col_fanin (take req ?cand) j \<le> ideal"
        using False by (simp add: exceeds_ideal_iff)
      ultimately show ?thesis using eq by blast
    qed
  qed
  then show ?thesis using assms(2,3) by blast
qed

text \<open>The search returns as soon as one of the shuffles is within the ideal fan-in.\<close>

fun cand_at :: "(nat \<Rightarrow> fanin_code list \<Rightarrow> fanin_code list) \<Rightarrow> nat \<Rightarrow> fanin_code list \<Rightarrow> nat \<Rightarrow> fanin_code list" where
  "cand_at shuffle rd cand 0 = shuffle rd cand"
| "cand_at shuffle rd cand (Suc n) = cand_at shuffle (Suc rd) (shuffle rd cand) n"

lemma hsiao_search_returns:
  assumes "\<forall>j<m. fanins ! j + col_fanin (take req (cand_at shuffle rd cand n)) j \<le> ideal"
    and "permutes shuffle" and "\<forall>c\<in>set cand. row_ok m c"
  shows "hsiao_search shuffle m ideal fanins req rd cand \<noteq> None"
  using assms(1,3)
proof (induction n arbitrary: rd cand)
  case 0
  have "set (shuffle rd cand) = set cand" using assms(2) by (metis permutes_def set_mset_mset)
  then have "\<forall>c\<in>set (take req (shuffle rd cand)). distinct c \<and> set c \<subseteq> {..<m}"
    using row_ok_distinct 0(2) in_set_takeD by metis
  from calc_fanin_eq [OF this] show ?case
    using 0(1) by (subst hsiao_search.simps) (simp add: Let_def exceeds_ideal_iff)
next
  case (Suc n)
  have set_eq: "set (shuffle rd cand) = set cand" using assms(2) by (metis permutes_def set_mset_mset)
  then have "hsiao_search shuffle m ideal fanins req (Suc rd) (shuffle rd cand) \<noteq> None"
    using Suc by simp
  then show ?case
    by (subst hsiao_search.simps) (auto simp: Let_def split: sum.split)
qed

text \<open>Tuples with the columns of a Hsiao code: pairwise different, each with an odd number, at least three, of parity bits.\<close>

definition rows_ok :: "nat \<Rightarrow> nat \<Rightarrow> fanin_code list \<Rightarrow> bool" where
  "rows_ok m hi codes \<longleftrightarrow> distinct codes \<and> (\<forall>c\<in>set codes. row_ok m c \<and> length c < hi)"

lemma combinations_rows:
  assumes "odd s" and "3 \<le> s"
  shows "rows_ok m (Suc s) (combinations [0..<m] s)" and "c \<in> set (combinations [0..<m] s) \<Longrightarrow> length c = s"
  using assms combinations_mem [of _ "[0..<m]" s] combinations_distinct [of "[0..<m]" s]
  by (fastforce simp: rows_ok_def row_ok_def)+

lemma rows_ok_append:
  assumes "rows_ok m s codes" and "distinct rows" and "\<forall>c\<in>set rows. row_ok m c \<and> length c = s"
  shows "rows_ok m (Suc s) (codes @ rows)"
  using assms by (fastforce simp: rows_ok_def)

lemma hsiao_steps_ok:
  assumes "hsiao_steps shuffle m ideal steps req codes = Some r" and "permutes shuffle"
    and "rows_ok m lo codes" and "sorted_wrt (<) steps" and "\<forall>s\<in>set steps. odd s \<and> 3 \<le> s \<and> lo \<le> s"
    and "0 < req" and "req \<le> sum_list (map (\<lambda>s. m choose s) steps)"
    and "\<forall>j<m. col_fanin codes j = F" and "ideal = ideal_fanin_loop m steps F req"
  shows "\<exists>codes' hi. r = Inr codes' \<and> rows_ok m hi codes' \<and> length codes' = length codes + req \<and>
    (\<forall>j<m. col_fanin codes' j \<le> ideal)"
  using assms(1,3-9)
proof (induction steps arbitrary: req codes lo F)
  case (Cons s steps)
  let ?cand = "combinations [0..<m] s"
  have s: "odd s" "3 \<le> s" "lo \<le> s" using Cons.prems(4) by auto
  have cand: "distinct ?cand" "\<forall>c\<in>set ?cand. row_ok m c \<and> length c = s"
    using combinations_rows(1) [OF s(1,2), of m] combinations_rows(2) [OF s(1,2)] by (auto simp: rows_ok_def)
  have old: "rows_ok m s codes" using Cons.prems(2) s(3) by (auto simp: rows_ok_def)
  have fan: "\<forall>j<m. col_fanin (codes @ ?cand) j = F + ceil_div ((m choose s) * s) m"
    using Cons.prems(7) full_step_fanin [of _ m s] s(2) by simp
  show ?case
  proof (cases "(m choose s) \<le> req")
    case True
    have new: "rows_ok m (Suc s) (codes @ ?cand)" by (rule rows_ok_append [OF old cand])
    show ?thesis
    proof (cases "req - (m choose s) = 0")
      case zero: True
      then show ?thesis using Cons.prems(1,8) True fan new by (auto simp: Let_def intro!: exI [of _ "Suc s"])
    next
      case False
      let ?req = "req - (m choose s)"
      have "hsiao_steps shuffle m ideal steps ?req (codes @ ?cand) = Some r"
        using Cons.prems(1) True False by (simp add: Let_def)
      moreover have "\<forall>t\<in>set steps. odd t \<and> 3 \<le> t \<and> Suc s \<le> t" using Cons.prems(3,4) by auto
      moreover have "?req \<le> sum_list (map (\<lambda>s. m choose s) steps)" using Cons.prems(6) by simp
      moreover have "ideal = ideal_fanin_loop m steps (F + ceil_div ((m choose s) * s) m) ?req"
        using Cons.prems(8) True False by (simp add: Let_def)
      ultimately obtain codes' hi where "r = Inr codes'" "rows_ok m hi codes'"
        "length codes' = length (codes @ ?cand) + ?req" "\<forall>j<m. col_fanin codes' j \<le> ideal"
        using Cons.IH [of ?req "codes @ ?cand" "Suc s" "F + ceil_div ((m choose s) * s) m"] new fan
          Cons.prems(3,6) False by auto
      then show ?thesis using True by auto
    qed
  next
    case False
    have "\<forall>c\<in>set codes. distinct c \<and> set c \<subseteq> {..<m}"
      using old row_ok_distinct by (auto simp: rows_ok_def)
    from calc_fanin_eq [OF this] have f: "calc_fanin m codes = Inr (map (col_fanin codes) [0..<m])" .
    obtain r' where r': "hsiao_search shuffle m ideal (map (col_fanin codes) [0..<m]) req 0 ?cand = Some r'"
      "r = (case r' of Inl e \<Rightarrow> Inl e | Inr rows \<Rightarrow> Inr (codes @ rows))"
      using Cons.prems(1,5) False f by (auto simp: Let_def split: option.splits sum.splits)
    obtain cand' where c': "mset cand' = mset ?cand" "r' = Inr (take req cand')"
      "\<forall>j<m. map (col_fanin codes) [0..<m] ! j + col_fanin (take req cand') j \<le> ideal"
      using hsiao_search_ok [OF r'(1) assms(2)] cand(2) by auto
    have "distinct cand'" "set cand' = set ?cand" "length cand' = (m choose s)"
      using c'(1) cand(1) by (metis mset_eq_imp_distinct_iff, metis set_mset_mset,
        metis size_mset length_combinations length_upt minus_nat.diff_0)
    then have "rows_ok m (Suc s) (codes @ take req cand')" "length (take req cand') = req"
      using cand(2) old False by (auto intro!: rows_ok_append dest: in_set_takeD)
    then show ?thesis using c'(2,3) r'(2) by auto
  qed
qed auto

lemma odd_range_sum:
  assumes "0 < m"
  shows "sum_list (map (\<lambda>s. m choose s) (odd_range m)) + m = 2 ^ (m - 1)"
proof -
  let ?A = "{i. odd i \<and> i \<le> m}" and ?B = "{i. odd i \<and> 3 \<le> i \<and> i \<le> m}"
  have "2 * (\<Sum>i\<le>m. if odd i then int (m choose i) else 0) = 2 ^ m"
    using choose_odd_sum [OF assms, where ?'a = int] by simp
  moreover have "(\<Sum>i\<le>m. if odd i then int (m choose i) else 0) = int (\<Sum>i\<in>?A. m choose i)"
  proof -
    have "(\<Sum>i\<le>m. if odd i then int (m choose i) else 0) = (\<Sum>i\<in>{i \<in> {..m}. odd i}. int (m choose i))"
      by (rule sum.inter_filter [symmetric]) simp
    moreover have "{i \<in> {..m}. odd i} = ?A" by auto
    ultimately show ?thesis by simp
  qed
  ultimately have "int (2 * (\<Sum>i\<in>?A. m choose i)) = int (2 ^ m)" by simp
  then have "2 * (\<Sum>i\<in>?A. m choose i) = 2 ^ m" by (simp only: of_nat_eq_iff)
  then have "2 * (\<Sum>i\<in>?A. m choose i) = 2 * 2 ^ (m - 1)" using assms by (cases m) simp_all
  then have all: "(\<Sum>i\<in>?A. m choose i) = 2 ^ (m - 1)" by simp
  have "?A = insert 1 ?B"
  proof (rule set_eqI)
    fix i :: nat
    have "odd i \<longleftrightarrow> i = 1 \<or> odd i \<and> 3 \<le> i" by (cases "i < 3") (auto simp: less_Suc_eq numeral_eq_Suc)
    then show "i \<in> ?A \<longleftrightarrow> i \<in> insert 1 ?B" using assms by auto
  qed
  then have "(\<Sum>i\<in>?A. m choose i) = (\<Sum>i\<in>?B. m choose i) + m" by simp
  moreover have "sum_list (map (\<lambda>s. m choose s) (odd_range m)) = (\<Sum>i\<in>?B. m choose i)"
  proof -
    have "set (odd_range m) = ?B" "distinct (odd_range m)" by (auto simp: odd_range_def)
    then show ?thesis by (metis sum_list_distinct_conv_sum_set)
  qed
  ultimately show ?thesis using all by simp
qed

text \<open>The result of \<^verbatim>\<open>_hsiao_code\<close> when there are enough tuples.\<close>

lemma hsiao_code_rows:
  assumes "permutes shuffle" and "hsiao_code shuffle k m = Some r" and "1 < k" and "k + m \<le> 2 ^ (m - 1)"
  shows "\<exists>codes hi. r = Inr codes \<and> rows_ok m hi codes \<and> length codes = k \<and>
    (\<forall>j<m. col_fanin codes j \<le> ideal_fanin k m)"
proof -
  have "0 < m" using assms(3,4) by (cases m) auto
  have steps: "sorted_wrt (<) (odd_range m)"
    unfolding odd_range_def by (intro sorted_wrt_filter sorted_wrt_upt)
  have odds: "\<forall>s\<in>set (odd_range m). odd s \<and> 3 \<le> s \<and> 0 \<le> s" by (auto simp: odd_range_def)
  have "k \<le> sum_list (map (\<lambda>s. m choose s) (odd_range m))"
    using odd_range_sum [OF \<open>0 < m\<close>] assms(4) by simp
  from hsiao_steps_ok [OF assms(2) [unfolded hsiao_code_def] assms(1) _ steps odds _ this, of 0]
  show ?thesis using assms(3) by (auto simp: rows_ok_def col_fanin_def ideal_fanin_def)
qed

definition hsiao_result :: "nat \<Rightarrow> nat \<Rightarrow> fanin_code list \<Rightarrow> bool" where
  "hsiao_result k m codes \<longleftrightarrow> 1 < k \<and> k + m \<le> 2 ^ (m - 1) \<and>
     (\<exists>shuffle. permutes shuffle \<and> hsiao_code shuffle k m = Some (Inr codes))"

lemma hsiao_result_rows:
  assumes "hsiao_result k m codes"
  obtains hi where "rows_ok m hi codes" and "length codes = k"
  using assms hsiao_code_rows [of _ k m "Inr codes"] by (auto simp: hsiao_result_def)

lemma red_xor_calc_syndrome:
  "distinct c \<Longrightarrow> set c \<subseteq> {..<m} \<Longrightarrow> red_xor m (calc_syndrome c) = odd (length c)"
proof (induction c)
  case (Cons x c)
  then have "\<not> bit (calc_syndrome c) x" by (simp add: bit_calc_syndrome)
  from red_xor_add [OF this, of m] show ?case using Cons by (simp add: calc_syndrome_def add.commute)
qed (simp add: calc_syndrome_def)

lemma calc_syndrome_exp: "calc_syndrome [p] = 2 ^ p"
  by (simp add: calc_syndrome_def)

lemma calc_syndrome_set: "distinct c \<Longrightarrow> distinct c' \<Longrightarrow> calc_syndrome c = calc_syndrome c' \<Longrightarrow> set c = set c'"
  using bit_calc_syndrome [of c] bit_calc_syndrome [of c'] by (intro set_eqI) simp

lemma hsiao_columns:
  assumes "hsiao_result k m codes"
  shows "i < k \<Longrightarrow> row_ok m (codes ! i) \<and> column k codes i = calc_syndrome (codes ! i)"
    and "column k codes (k + p) = calc_syndrome [p]"
proof -
  obtain hi where "rows_ok m hi codes" "length codes = k" using hsiao_result_rows [OF assms] .
  then show "i < k \<Longrightarrow> row_ok m (codes ! i) \<and> column k codes i = calc_syndrome (codes ! i)"
    and "column k codes (k + p) = calc_syndrome [p]"
    by (auto simp: rows_ok_def column_def calc_syndrome_exp)
qed

lemma row_not_single:
  assumes "row_ok m c"
  shows "calc_syndrome c \<noteq> calc_syndrome [p]"
proof
  assume "calc_syndrome c = calc_syndrome [p]"
  then have "set c = {p}" using calc_syndrome_set [of c "[p]"] row_ok_distinct [OF assms] by simp
  then have "length c = 1" using row_ok_distinct [OF assms] distinct_card [of c] by simp
  then show False using assms by (simp add: row_ok_def)
qed

lemma hsiao_column_inj:
  assumes h: "hsiao_result k m codes" and "i < k + m" and "j < k + m" and eq: "column k codes i = column k codes j"
  shows "i = j"
proof -
  obtain hi where rows: "rows_ok m hi codes" "length codes = k" using hsiao_result_rows [OF h] .
  consider "i < k" "j < k" | p where "i < k" "j = k + p" | p where "i = k + p" "j < k" | p q where "i = k + p" "j = k + q"
    by (metis le_Suc_ex not_less)
  then show ?thesis
  proof cases
    case 1
    then have ok: "row_ok m (codes ! i)" "row_ok m (codes ! j)" and "calc_syndrome (codes ! i) = calc_syndrome (codes ! j)"
      using hsiao_columns(1) [OF h] eq by auto
    then have "set (codes ! i) = set (codes ! j)" using calc_syndrome_set row_ok_distinct by blast
    then have "codes ! i = codes ! j"
      using ok by (auto simp: row_ok_def intro: strict_sorted_equal)
    then show ?thesis using rows 1 by (simp add: rows_ok_def nth_eq_iff_index_eq)
  next
    case 2
    then show ?thesis using hsiao_columns [OF h] eq row_not_single by metis
  next
    case 3
    then show ?thesis using hsiao_columns [OF h] eq row_not_single by metis
  next
    case 4
    then show ?thesis using hsiao_columns(2) [OF h] eq by (simp add: calc_syndrome_exp)
  qed
qed

interpretation hsiao: secded_code hsiao_result "''hsiao''"
proof
  fix k m codes i
  assume h: "hsiao_result k m codes"
  obtain hi where rows: "rows_ok m hi codes" "length codes = k" using hsiao_result_rows [OF h] .
  then show "codes_ok k m codes" using row_ok_distinct by (auto simp: codes_ok_def rows_ok_def)
  assume "i < k + m"
  then consider "i < k" | p where "i = k + p" "p < m" by (metis le_Suc_ex nat_add_left_cancel_less not_less)
  then show "err_single ''hsiao'' m (column k codes i)"
  proof cases
    case 1
    then show ?thesis
      using hsiao_columns(1) [OF h, of i] row_ok_distinct [of m "codes ! i"] red_xor_calc_syndrome [of "codes ! i" m]
      by (auto simp: err_single_def row_ok_def)
  next
    case 2
    then show ?thesis using hsiao_columns(2) [OF h] red_xor_calc_syndrome [of "[p]" m] by (simp add: err_single_def)
  qed
next
  fix k m codes i j
  assume "hsiao_result k m codes" "i < k + m" "j < k + m" "column k codes i = column k codes j"
  then show "i = j" by (rule hsiao_column_inj)
qed (auto simp: err_single_def err_double_def red_xor_xor)

section \<open>Hamming codes\<close>

lemma bit_top:
  assumes "2 ^ t \<le> (x :: int)" and "x < 2 ^ Suc t"
  shows "bit x t"
proof -
  have "x div 2 ^ t = 1" using assms by (intro int_div_pos_eq [of _ _ _ "x - 2 ^ t"]) auto
  then show ?thesis by (simp add: bit_iff_odd)
qed

lemma is_pow2_iff:
  assumes "0 < n"
  shows "is_pow2 n \<longleftrightarrow> (\<exists>p. n = 2 ^ p)"
proof
  assume pow: "is_pow2 n"
  obtain t where t: "2 ^ t \<le> n" "n < 2 ^ Suc t"
  proof -
    have "1 \<le> nat n" using assms by simp
    then obtain t where "2 ^ t \<le> nat n" "nat n < 2 ^ (t + 1)" using ex_power_ivl1 [of 2 "nat n"] by auto
    then show thesis using assms that [of t] by (simp add: nat_less_iff nat_le_eq_zle flip: nat_power_eq)
  qed
  show "\<exists>p. n = 2 ^ p"
  proof (cases "n = 2 ^ t")
    case False
    then have "bit n t" "bit (n - 1) t" using t by (auto intro: bit_top)
    then have "bit (n AND (n - 1)) t" by (simp add: bit_and_iff)
    then show ?thesis using pow by (simp add: is_pow2_def)
  qed auto
next
  assume "\<exists>p. n = 2 ^ p"
  then obtain p where "n = 2 ^ p" ..
  moreover have "(2 ^ p :: int) AND mask p = 0" by (rule bit_eqI) (auto simp: bit_simps)
  ultimately show "is_pow2 n" by (simp add: is_pow2_def mask_eq_exp_minus_1)
qed

definition hamming_positions :: "nat \<Rightarrow> nat list" where
  "hamming_positions n = filter (\<lambda>pos. \<not> (is_pow2 (int pos) \<or> pos = n)) [1..<n + 1]"

lemma set_hamming_positions:
  "set (hamming_positions n) = {1..<n} - range (\<lambda>p. 2 ^ p)"
proof (rule set_eqI)
  fix i
  have "i \<in> set (hamming_positions n) \<longleftrightarrow> 0 < i \<and> i < n \<and> \<not> is_pow2 (int i)"
    by (auto simp: hamming_positions_def)
  moreover have "is_pow2 (int i) \<longleftrightarrow> i \<in> range (\<lambda>p. 2 ^ p)" if "0 < i"
    using that is_pow2_iff [of "int i"] by (auto simp: image_iff)
  ultimately show "i \<in> set (hamming_positions n) \<longleftrightarrow> i \<in> {1..<n} - range (\<lambda>p. 2 ^ p)"
    by (cases "0 < i") simp_all
qed

definition hamming_result :: "nat \<Rightarrow> nat \<Rightarrow> fanin_code list \<Rightarrow> bool" where
  "hamming_result k m codes \<longleftrightarrow> 2 \<le> m \<and> k + m \<le> 2 ^ (m - 1) \<and> 2 ^ (m - 2) < k + m \<and> codes = hamming_code k m"

lemma length_hamming_positions:
  assumes "hamming_result k m codes"
  shows "length (hamming_positions (k + m)) = k"
proof -
  let ?n = "k + m"
  have m: "2 \<le> m" "?n \<le> 2 ^ (m - 1)" "2 ^ (m - 2) < ?n" using assms by (auto simp: hamming_result_def)
  let ?P = "(\<lambda>p. 2 ^ p) ` {..<m - 1} :: nat set"
  have "{1..<?n} \<inter> range (\<lambda>p. 2 ^ p) = ?P"
  proof (rule set_eqI)
    fix i
    have pw: "(2 :: nat) ^ p < ?n \<longleftrightarrow> p < m - 1" for p
    proof
      assume "2 ^ p < ?n"
      then have "(2 :: nat) ^ p < 2 ^ (m - 1)" using m(2) by (rule order_less_le_trans)
      then show "p < m - 1" by simp
    next
      assume "p < m - 1"
      then have "(2 :: nat) ^ p \<le> 2 ^ (m - 2)" by (intro power_increasing) auto
      then show "2 ^ p < ?n" using m(3) by (rule order_le_less_trans)
    qed
    show "i \<in> {1..<?n} \<inter> range (\<lambda>p. 2 ^ p) \<longleftrightarrow> i \<in> ?P"
    proof
      assume "i \<in> {1..<?n} \<inter> range (\<lambda>p. 2 ^ p)"
      then obtain p where "i = 2 ^ p" "2 ^ p < ?n" by auto
      then show "i \<in> ?P" using pw [of p] by simp
    next
      assume "i \<in> ?P"
      then obtain p where "i = 2 ^ p" "p < m - 1" by auto
      then show "i \<in> {1..<?n} \<inter> range (\<lambda>p. 2 ^ p)" using pw [of p] by simp
    qed
  qed
  then have "set (hamming_positions ?n) = {1..<?n} - ?P" "?P \<subseteq> {1..<?n}"
    using set_hamming_positions [of ?n] by blast+
  moreover have "card ?P = m - 1" by (simp add: card_image inj_on_def)
  ultimately have "card (set (hamming_positions ?n)) = k" using m(1) by (simp add: card_Diff_subset)
  moreover have "distinct (hamming_positions ?n)" by (simp add: hamming_positions_def)
  ultimately show ?thesis by (simp add: distinct_card)
qed

lemma bit_hamming_tuple: "p \<in> set (hamming_tuple m pos) \<longleftrightarrow> p < m \<and> (bit (int pos) p \<or> p = m - 1)"
proof -
  have "is_odd ((int pos - int pos mod 2 ^ p) div 2 ^ p) \<longleftrightarrow> bit (int pos) p"
    by (simp add: minus_mod_eq_mult_div is_odd_def bit_iff_odd odd_iff_mod_2_eq_one)
      (smt (verit) pos_mod_bound pos_mod_sign)
  then show ?thesis by (auto simp: hamming_tuple_def Let_def)
qed

lemma calc_syndrome_hamming:
  assumes "0 < m" and "pos < 2 ^ (m - 1)"
  shows "calc_syndrome (hamming_tuple m pos) = int pos + 2 ^ (m - 1)"
proof (rule bit_eqI)
  fix p
  have high: "\<not> bit (int pos) q" if "m - 1 \<le> q" for q
  proof -
    have "int pos < 2 ^ (m - 1)" using assms(2) by (metis of_nat_less_iff of_nat_numeral of_nat_power)
    then show ?thesis using that take_bit_int_eq_self [of "int pos" "m - 1"] by (metis bit_take_bit_iff not_less of_nat_0_le_iff)
  qed
  have "distinct (hamming_tuple m pos)" by (simp add: hamming_tuple_def)
  then have "bit (calc_syndrome (hamming_tuple m pos)) p \<longleftrightarrow> p < m \<and> (bit (int pos) p \<or> p = m - 1)"
    by (simp add: bit_calc_syndrome bit_hamming_tuple)
  also have "\<dots> \<longleftrightarrow> bit (int pos) p \<or> p = m - 1" using high [of p] assms(1) by (cases "p < m") auto
  also have "\<dots> \<longleftrightarrow> bit (int pos + 2 ^ (m - 1)) p" using bit_add_exp [OF high [OF le_refl], of p] by simp
  finally show "bit (calc_syndrome (hamming_tuple m pos)) p = bit (int pos + 2 ^ (m - 1)) p" .
qed

text \<open>The column of a data bit is its position, the column of a parity bit the power of two; all have the last bit.\<close>

lemma hamming_columns:
  assumes h: "hamming_result k m codes"
  shows "codes_ok k m codes"
    and "i < k \<Longrightarrow> column k codes i = int (hamming_positions (k + m) ! i) + 2 ^ (m - 1)"
    and "p < m - 1 \<Longrightarrow> column k codes (k + p) = 2 ^ p + 2 ^ (m - 1)"
    and "column k codes (k + (m - 1)) = 0 + 2 ^ (m - 1)"
proof -
  let ?P = "hamming_positions (k + m)"
  have m: "2 \<le> m" "k + m \<le> 2 ^ (m - 1)" and codes: "codes = map (hamming_tuple m) ?P @ replicate (m - 1) [m - 1]"
    using h by (auto simp: hamming_result_def hamming_code_def hamming_positions_def Let_def)
  have len: "length ?P = k" by (rule length_hamming_positions [OF h])
  have par: "codes ! (k + p) = [m - 1]" if "p < m - 1" for p using codes len that by (simp add: nth_append)
  have tup: "codes ! i = hamming_tuple m (?P ! i)" "?P ! i < 2 ^ (m - 1)" if "i < k" for i
    using codes len that m(2) set_hamming_positions [of "k + m"] nth_mem [of i ?P] by (auto simp: nth_append)
  have all: "distinct c \<and> set c \<subseteq> {..<m}" if "c \<in> set codes" for c
    using that m(1) unfolding codes by (auto simp: hamming_tuple_def split: if_splits)
  show "codes_ok k m codes"
    using all par codes len m(1) unfolding codes_ok_def by auto
  show "i < k \<Longrightarrow> column k codes i = int (?P ! i) + 2 ^ (m - 1)"
    using tup [of i] calc_syndrome_hamming [of m "?P ! i"] m(1) codes len by (simp add: column_def)
  show "p < m - 1 \<Longrightarrow> column k codes (k + p) = 2 ^ p + 2 ^ (m - 1)"
    using par [of p] codes len by (simp add: column_def calc_syndrome_exp)
  show "column k codes (k + (m - 1)) = 0 + 2 ^ (m - 1)" using codes len by (simp add: column_def)
qed

text \<open>What is left of a column without the last parity bit.\<close>

definition column_low :: "nat \<Rightarrow> nat \<Rightarrow> nat \<Rightarrow> nat" where
  "column_low k m i =
     (if i < k then hamming_positions (k + m) ! i else if i < k + (m - 1) then 2 ^ (i - k) else 0)"

lemma hamming_column:
  assumes "hamming_result k m codes" and "i < k + m"
  shows "column k codes i = int (column_low k m i) + 2 ^ (m - 1)"
proof -
  consider "i < k" | p where "i = k + p" "p < m - 1" | "i = k + (m - 1)"
    using assms(2) by (metis One_nat_def Suc_pred add_Suc_right le_Suc_ex less_SucE nat_add_left_cancel_less not_less
        gr_zeroI add_is_0 less_nat_zero_code add.right_neutral)
  then show ?thesis
    by cases (use hamming_columns(2-4) [OF assms(1)] in \<open>auto simp: column_low_def\<close>)
qed

lemma column_low_less:
  assumes "hamming_result k m codes" and "i < k + m"
  shows "column_low k m i < 2 ^ (m - 1)"
proof (cases "i < k")
  case True
  then have "hamming_positions (k + m) ! i < k + m"
    using set_hamming_positions [of "k + m"] length_hamming_positions [OF assms(1)] nth_mem [of i "hamming_positions (k + m)"]
    by auto
  then show ?thesis using assms(1) True by (simp add: column_low_def hamming_result_def)
next
  case False
  then show ?thesis using assms by (auto simp: column_low_def hamming_result_def)
qed

lemma column_low_inj:
  assumes h: "hamming_result k m codes" and "i < k + m" and "j < k + m" and eq: "column_low k m i = column_low k m j"
  shows "i = j"
proof -
  let ?P = "hamming_positions (k + m)"
  have len: "length ?P = k" by (rule length_hamming_positions [OF h])
  have pos: "?P ! a = 0 \<Longrightarrow> False" "?P ! a = 2 ^ p \<Longrightarrow> False" "2 ^ p = ?P ! a \<Longrightarrow> False" if "a < k" for a p
    using nth_mem [of a ?P] len that set_hamming_positions [of "k + m"]
    by (auto simp del: range_eqI) (metis rangeI)
  have "distinct ?P" by (simp add: hamming_positions_def)
  then have "a = b" if "a < k" "b < k" "?P ! a = ?P ! b" for a b
    using that len by (simp add: nth_eq_iff_index_eq)
  then show ?thesis using eq assms(2,3) by (auto simp: column_low_def split: if_splits dest: pos)
qed

interpretation hamming: secded_code hamming_result "''hamming''"
proof
  fix k m codes
  assume h: "hamming_result k m codes"
  show "codes_ok k m codes" by (rule hamming_columns(1) [OF h])
  fix i
  assume i: "i < k + m"
  have "\<not> bit (int (column_low k m i)) (m - 1)"
    using column_low_less [OF h i] take_bit_int_eq_self [of "int (column_low k m i)" "m - 1"]
    by (metis bit_take_bit_iff less_irrefl of_nat_0_le_iff of_nat_less_iff of_nat_numeral of_nat_power)
  then show "err_single ''hamming'' m (column k codes i)"
    using hamming_column [OF h i] bit_add_exp [of "int (column_low k m i)" "m - 1" "m - 1"] by (simp add: err_single_def)
  fix j
  assume j: "j < k + m" "column k codes i = column k codes j"
  then have "column_low k m i = column_low k m j" using hamming_column [OF h i] hamming_column [OF h j(1)] by simp
  then show "i = j" by (rule column_low_inj [OF h i j(1)])
next
  fix m x y
  show "err_single ''hamming'' m (x XOR y) = (err_single ''hamming'' m x \<noteq> err_single ''hamming'' m y)"
    by (simp add: err_single_def bit_xor_iff)
next
  fix m and s :: int
  assume s: "\<And>i. m \<le> i \<Longrightarrow> \<not> bit s i"
  have "take_bit (m - 1) s = s" if "\<not> bit s (m - 1)"
  proof (rule bit_eqI)
    fix i
    show "bit (take_bit (m - 1) s) i = bit s i"
      using that s [of i] by (cases "m \<le> i"; cases "i = m - 1") (auto simp: bit_take_bit_iff)
  qed
  then show "err_double ''hamming'' m s \<longleftrightarrow> \<not> err_single ''hamming'' m s \<and> s \<noteq> 0"
    by (auto simp: err_double_def err_single_def)
qed

section \<open>Configurations\<close>

text \<open>What \<^verbatim>\<open>verify\<close> checks: the parity bits are enough.\<close>

lemma find_upt:
  assumes "find P [a..<b] = Some q"
  shows "P q \<and> a \<le> q \<and> q < b \<and> (\<forall>j. a \<le> j \<longrightarrow> j < q \<longrightarrow> \<not> P j)"
proof -
  obtain i where i: "i < b - a" "P (a + i)" "q = a + i" "\<forall>j<i. \<not> P (a + j)"
    using assms unfolding find_Some_iff by auto
  have "\<not> P j" if "a \<le> j" "j < q" for j
    using i(4) [rule_format, of "j - a"] that i(3) by simp
  then show ?thesis using i by auto
qed

lemma min_paritysize_bound:
  assumes "1 < k" and "k \<le> 120" and "min_paritysize (int k) \<le> int m"
  shows "k + m \<le> 2 ^ (m - 1)"
proof -
  let ?P = "\<lambda>m. int k + int m + 1 \<le> 2 ^ m"
  have "?P 9" using assms(2) by simp
  then have "find ?P [2..<10] \<noteq> None" by (auto simp: find_None_iff)
  then obtain q where q: "find ?P [2..<10] = Some q" by blast
  then have "?P q" using find_upt by blast
  then have "int (k + q + 1) \<le> int (2 ^ q)" by simp
  then have base: "k + q + 1 \<le> 2 ^ q" by (simp only: of_nat_le_iff)
  have grow: "k + (q + d) + 1 \<le> 2 ^ (q + d)" for d
    by (induction d) (use base in \<open>auto simp: mult_2\<close>)
  have "q + 1 \<le> m" using q assms(3) by (simp add: min_paritysize_def)
  then obtain d where "m = Suc (q + d)" using le_Suc_ex by force
  then show ?thesis using grow [of d] by simp
qed

text \<open>Single error correction and double error detection of a decoder for a code word.\<close>

definition corrects_and_detects :: "string \<Rightarrow> nat \<Rightarrow> nat \<Rightarrow> fanin_code list \<Rightarrow> int \<Rightarrow> int \<Rightarrow> bool" where
  "corrects_and_detects ty k m codes d w \<longleftrightarrow>
     secded_decode ty k m codes w = Inr \<lparr>out_data = d, out_syndrome = 0, out_err0 = False, out_err1 = False\<rparr> \<and>
     (\<forall>i<k + m. returns (secded_decode ty k m codes (flip_bit i w)) (\<lambda>r.
        out_data r = d \<and> out_syndrome r \<noteq> 0 \<and> out_err0 r \<and> \<not> out_err1 r)) \<and>
     (\<forall>i<k + m. \<forall>j<k + m. i \<noteq> j \<longrightarrow>
        returns (secded_decode ty k m codes (flip_bit i (flip_bit j w))) (\<lambda>r.
          out_syndrome r \<noteq> 0 \<and> \<not> out_err0 r \<and> out_err1 r))"

context secded_code
begin

lemma corrects_and_detects:
  assumes "gen k m codes" and "fits k d"
  shows "returns (secded_encode k m codes d) (corrects_and_detects ty k m codes d)"
  using encode_codeword [OF gen_ok [OF assms(1)] assms(2)]
  by (rule returns_mono)
    (auto simp: corrects_and_detects_def no_error [OF assms(1)] single_error [OF assms(1)]
      double_error [OF assms(1)] column_nonzero [OF assms(1)])

end

text \<open>
  C7: Hsiao codes are SECDED codes.  For a configuration the tool accepts, whatever permutations the
  shuffles are, a result of \<^verbatim>\<open>_hsiao_code\<close> is a list of \<open>k\<close> tuples whose fan-in is at most the ideal
  one, and the encoder and decoder printed from it satisfy the assertions of the generated formal
  test bench: without errors the decoder delivers the data and a zero syndrome; every single bit
  flip is corrected and reported by \<^verbatim>\<open>err_o[0]\<close> only; every double flip is reported by \<^verbatim>\<open>err_o[1]\<close>
  only.
\<close>

theorem hsiao_secded:
  assumes "verify [cfg] = 0" and "cfg_code_type cfg = ''hsiao''" and "cfg_k cfg = int k" and "cfg_m cfg = int m"
    and "permutes shuffle" and "gen_code shuffle ''hsiao'' k m = Some r" and "fits k d"
  shows "returns r (\<lambda>codes. length codes = k \<and> (\<forall>j<m. col_fanin codes j \<le> ideal_fanin k m) \<and>
    returns (secded_encode k m codes d) (corrects_and_detects ''hsiao'' k m codes d))"
proof -
  have c: "1 < k" "k \<le> 120" "min_paritysize (int k) \<le> int m"
    using assms(1,3,4) by (auto simp: verify_def cfg_errors_def split: if_splits)
  have b: "k + m \<le> 2 ^ (m - 1)" by (rule min_paritysize_bound [OF c])
  have g: "hsiao_code shuffle k m = Some r" using assms(6) by (simp add: gen_code_def)
  obtain codes where codes: "r = Inr codes" "length codes = k" "\<forall>j<m. col_fanin codes j \<le> ideal_fanin k m"
    using hsiao_code_rows [OF assms(5) g c(1) b] by auto
  have "hsiao_result k m codes" using b c(1) g assms(5) codes(1) by (auto simp: hsiao_result_def)
  from hsiao.corrects_and_detects [OF this assms(7)] show ?thesis using codes by simp
qed

text \<open>
  C28: Hamming codes are SECDED codes, for the number of parity bits the tool computes: the encoder
  and decoder printed for a Hamming code satisfy the same assertions.
\<close>

theorem hamming_secded:
  assumes "1 < k" and "k \<le> 120" and "min_paritysize (int k) = int m" and "fits k d"
  shows "returns (secded_encode k m (hamming_code k m) d)
    (corrects_and_detects ''hamming'' k m (hamming_code k m) d)"
proof -
  let ?P = "\<lambda>m. int k + int m + 1 \<le> 2 ^ m"
  have b: "k + m \<le> 2 ^ (m - 1)" using min_paritysize_bound [of k m] assms(1-3) by simp
  obtain q where q: "find ?P [2..<10] = Some q" "m = Suc q"
    using assms(3) by (cases "find ?P [2..<10]") (auto simp: min_paritysize_def)
  have f: "2 \<le> q" "\<forall>j. 2 \<le> j \<longrightarrow> j < q \<longrightarrow> \<not> ?P j" using find_upt [OF q(1)] by blast+
  have "2 ^ (m - 2) < k + m"
  proof (cases "q = 2")
    case True
    then show ?thesis using assms(1) q(2) by simp
  next
    case False
    then have "\<not> ?P (q - 1)" "2 \<le> q" using f(1) f(2) [rule_format, of "q - 1"] False by auto
    then have "int (2 ^ (q - 1)) < int (k + q)" by simp
    then have "2 ^ (q - 1) < k + q" by (simp only: of_nat_less_iff)
    then show ?thesis using q(2) by simp
  qed
  moreover have "2 \<le> m" using f(1) q(2) by simp
  ultimately have "hamming_result k m (hamming_code k m)" using b by (simp add: hamming_result_def)
  from hamming.corrects_and_detects [OF this assms(4)] show ?thesis .
qed

section \<open>The C encoder\<close>

lemma calc_parity_red_xor: "fits n x \<Longrightarrow> calc_parity x = red_xor n x"
proof (induction n arbitrary: x)
  case 0
  then show ?case by (simp add: fits_iff calc_parity.simps)
next
  case (Suc n)
  have shift: "red_xor (Suc n) y = (odd y \<noteq> red_xor n (drop_bit 1 y))" for y n
    by (induction n) (auto simp: bit_0 bit_drop_bit_eq)
  have "fits n (drop_bit 1 x)" using Suc.prems by (auto simp: fits_iff drop_bit_eq_div)
  then have "calc_parity (drop_bit 1 x) = red_xor n (drop_bit 1 x)" by (rule Suc.IH)
  moreover have "x \<le> 0 \<Longrightarrow> x = 0" using Suc.prems by (simp add: fits_iff)
  ultimately show ?case unfolding shift
    by (subst calc_parity.simps) (auto simp: and_one_eq odd_iff_mod_2_eq_one)
qed

lemma bit_foldl_or_enumerate:
  "bit (foldl (\<lambda>acc (p, v). acc OR push_bit p (py_int (f v))) a (enumerate n xs)) j \<longleftrightarrow>
    bit a j \<or> n \<le> j \<and> j < n + length xs \<and> f (xs ! (j - n))"
proof (induction xs arbitrary: n a)
  case (Cons x xs)
  have new: "bit (a OR push_bit n (py_int (f x))) j \<longleftrightarrow> bit a j \<or> j = n \<and> f x"
    by (cases "f x") (auto simp: bit_simps py_int_def)
  show ?case
  proof (cases "n < j")
    case True
    then obtain d where "j = Suc (n + d)" using less_imp_Suc_add by blast
    then show ?thesis using Cons.IH [of "a OR push_bit n (py_int (f x))" "Suc n"] new by simp
  qed (use Cons.IH [of "a OR push_bit n (py_int (f x))" "Suc n"] new in auto)
qed auto

text \<open>
  The C function puts byte \<open>i\<close> of its argument at bits \<open>8 * i\<close> to \<open>8 * i + 7\<close>: the little-endian
  bytes of a number of at most \<open>8 * n\<close> bits give the number back.
\<close>

lemma bit_c_word_fold:
  "bit (foldl (\<lambda>word (i, b). word OR push_bit (i * 8) b) a (enumerate n bs)) j \<longleftrightarrow>
    bit a j \<or> (\<exists>i < length bs. 8 * (n + i) \<le> j \<and> bit (bs ! i) (j - 8 * (n + i)))"
    for a :: int
proof (induction bs arbitrary: n a)
  case (Cons b bs)
  have "bit (a OR push_bit (n * 8) b) j \<longleftrightarrow> bit a j \<or> 8 * n \<le> j \<and> bit b (j - 8 * n)"
    by (auto simp: bit_simps mult.commute)
  then show ?case
    using Cons.IH [of "a OR push_bit (n * 8) b" "Suc n"] by (simp add: Ex_less_Suc2 disj_assoc add.left_commute)
qed simp

lemma c_word_le_bytes:
  assumes "fits (8 * n) v"
  shows "c_word (map (\<lambda>i. v div 256 ^ i mod 256) [0..<n]) = v"
proof (rule bit_eqI)
  fix j
  let ?bs = "map (\<lambda>i. v div 256 ^ i mod 256) [0..<n]"
  have byte: "bit (v div 256 ^ i mod 256) l \<longleftrightarrow> l < 8 \<and> bit v (8 * i + l)" for i l
  proof -
    have "v div 256 ^ i mod 256 = take_bit 8 (drop_bit (8 * i) v)"
      by (simp add: take_bit_eq_mod drop_bit_eq_div power_mult)
    then show ?thesis by (simp add: bit_simps add.commute)
  qed
  have "bit (c_word ?bs) j \<longleftrightarrow> (\<exists>i < n. 8 * i \<le> j \<and> j - 8 * i < 8 \<and> bit v j)"
    unfolding c_word_def bit_c_word_fold by (auto simp: byte)
  also have "\<dots> \<longleftrightarrow> j div 8 < n \<and> bit v j"
    by (auto intro!: exI [of _ "j div 8"])
  also have "\<dots> \<longleftrightarrow> bit v j"
  proof -
    have "bit v j \<Longrightarrow> j < 8 * n"
      using assms by (metis fits_take_bit_eq bit_take_bit_iff)
    then show ?thesis by (auto simp: div_less_iff_less_mult mult.commute)
  qed
  finally show "bit (c_word ?bs) j \<longleftrightarrow> bit v j" .
qed

text \<open>
  C29: the C encoder agrees with the hardware encoder.  For the rows of any Hsiao code the tool
  computes for \<open>k\<close> data bits and \<open>m\<close> check bits with \<open>k\<close> at most 64 (the tool prints no C function
  above), and any \<open>k\<close>-bit number \<open>v\<close>: the SystemVerilog encoder encodes \<open>v\<close>, and the C function,
  given the bytes of \<open>v\<close> in little-endian order, returns the \<open>m\<close> check bits of that code word.
\<close>

theorem c_encoder_agrees:
  assumes "hsiao_result k m codes" and "k \<le> 64" and "fits k v"
  shows "returns (secded_encode k m codes v) (\<lambda>w.
    c_encode k m codes (map (\<lambda>i. v div 256 ^ i mod 256) [0..<(k + 7) div 8]) =
      Inr (take_bit m (drop_bit k w)))"
proof -
  let ?d = "c_word (map (\<lambda>i. v div 256 ^ i mod 256) [0..<(k + 7) div 8])"
  have "fits (8 * ((k + 7) div 8)) v" using assms(3) by (rule fits_mono) linarith
  then have v: "v = ?d" by (rule c_word_le_bytes [symmetric])
  have fits: "fits k ?d" using assms(3) v by simp
  have ok: "codes_ok k m codes" by (rule hsiao.gen_ok [OF assms(1)])
  obtain hi where "length codes = k" using hsiao_result_rows [OF assms(1)] .
  then have low: "takes_part codes i j \<Longrightarrow> i < k" for i j by (simp add: takes_part_def)
  obtain ms where ms: "calc_bitmasks k m codes False = Inr ms" "length ms = m"
    "\<forall>j<m. \<forall>i. bit (ms ! j) i = takes_part codes i j"
    using calc_bitmasks_eq [OF ok, of False] by (auto elim!: returnsE)
  obtain w where w: "secded_encode k m codes ?d = Inr w" "codeword k m codes ?d w"
    using encode_codeword [OF ok fits] by (auto elim!: returnsE)
  have par: "bit w (k + j) = calc_parity (?d AND ms ! j)" if "j < m" for j
  proof -
    have "fits k (?d AND ms ! j)"
      using fits by (auto simp: fits_iff AND_lower intro: order_le_less_trans [OF AND_upper1])
    then have f: "fits (k + m) (?d AND ms ! j)" by (rule fits_mono) simp
    have "\<not> xsum (k + m) (\<lambda>i. (bit ?d i \<and> takes_part codes i j) \<noteq> (i = k + j \<and> bit w i))"
    proof -
      have "xsum (k + m) (\<lambda>i. (bit ?d i \<and> takes_part codes i j) \<noteq> (i = k + j \<and> bit w i)) = check k m codes w j"
        unfolding check_def using low hsiao.codeword_bits(1) [OF w(2)]
        by (intro xsum_cong) (metis not_add_less1)
      then show ?thesis using hsiao.codeword_bits(2) [OF w(2) that] by simp
    qed
    then have "bit w (k + j) = xsum (k + m) (\<lambda>i. bit ?d i \<and> takes_part codes i j)"
      unfolding xsum_diff xsum_one using that by simp
    also have "\<dots> = red_xor (k + m) (?d AND ms ! j)"
      using ms(3) that by (simp add: red_xor_xsum bit_and_iff cong: xsum_cong)
    finally show ?thesis using calc_parity_red_xor [OF f] by simp
  qed
  let ?c = "foldl (\<lambda>acc (p, msk). acc OR push_bit p (py_int (calc_parity (?d AND msk)))) 0 (enumerate 0 ms)"
  have "?c = take_bit m (drop_bit k w)"
  proof (rule bit_eqI)
    fix j
    show "bit ?c j = bit (take_bit m (drop_bit k w)) j"
      unfolding bit_foldl_or_enumerate bit_take_bit_iff bit_drop_bit_eq using par [of j] ms(2) by auto
  qed
  then show ?thesis using ms(1) w(1) v by (simp add: c_encode_def)
qed

lemma permutes_rotate1: "permutes (\<lambda>_. rotate1)"
proof -
  have "mset (rotate1 codes) = mset codes" for codes :: "fanin_code list" by (cases codes) simp_all
  then show ?thesis by (simp add: permutes_def)
qed

lemma demo_hsiao: "\<exists>r. hsiao_code (\<lambda>_. rotate1) 8 5 = Some r"
proof -
  have "hsiao_code (\<lambda>_. rotate1) 8 5 \<noteq> None" by code_simp
  then show ?thesis by blast
qed

lemma demo_hsiao_12: "\<exists>r. hsiao_code (\<lambda>_. rotate1) 12 6 = Some r"
proof -
  have "hsiao_code (\<lambda>_. rotate1) 12 6 \<noteq> None" by code_simp
  then show ?thesis by blast
qed

theorem c_encoder_agrees_witness:
  "\<exists>codes. hsiao_result 12 6 codes \<and> returns (secded_encode 12 6 codes 0x5A3)
     (\<lambda>w. c_encode 12 6 codes [0xA3, 0x05] = Inr (take_bit 6 (drop_bit 12 w)))"
proof -
  obtain r where r: "hsiao_code (\<lambda>_. rotate1) 12 6 = Some r" using demo_hsiao_12 by blast
  then obtain codes where "hsiao_result 12 6 codes"
    using hsiao_code_rows [OF permutes_rotate1 r] permutes_rotate1 by (auto simp: hsiao_result_def)
  moreover have "map (\<lambda>i. (0x5A3 :: int) div 256 ^ i mod 256) [0..<(12 + 7) div 8] = [0xA3, 0x05]"
    by (simp add: upt_rec)
  ultimately show ?thesis
    using c_encoder_agrees [of 12 6 codes "0x5A3"] by (auto simp: fits_iff)
qed

theorem hsiao_secded_witness:
  "\<exists>r. gen_code (\<lambda>_. rotate1) ''hsiao'' 8 5 = Some r \<and>
    returns r (\<lambda>codes. length codes = 8 \<and> returns (secded_encode 8 5 codes 0xA5) (corrects_and_detects ''hsiao'' 8 5 codes 0xA5))"
proof -
  let ?cfg = "\<lparr>cfg_k = 8, cfg_m = 5, cfg_code_type = ''hsiao''\<rparr>"
  have v: "verify [?cfg] = 0" by code_simp
  obtain r where r: "gen_code (\<lambda>_. rotate1) ''hsiao'' 8 5 = Some r"
    using demo_hsiao by (auto simp: gen_code_def)
  have "fits 8 0xA5" by (simp add: fits_iff)
  from hsiao_secded [OF v _ _ _ permutes_rotate1 r this] show ?thesis using r by (auto elim: returns_mono)
qed

theorem hamming_secded_witness:
  "returns (secded_encode 8 5 (hamming_code 8 5) 0xA5) (corrects_and_detects ''hamming'' 8 5 (hamming_code 8 5) 0xA5)"
proof -
  have "min_paritysize 8 = 5" by code_simp
  then show ?thesis using hamming_secded [of 8 5 "0xA5"] by (simp add: fits_iff)
qed

text \<open>
  \<^verbatim>\<open>verify\<close> also accepts more parity bits than the tool computes, where the Hamming construction has
  a position too many: with four data and six parity bits there are data whose encoding the decoder
  reports as a double error.
\<close>

lemma hamming_wide_bad:
  "verify [\<lparr>cfg_k = 4, cfg_m = 6, cfg_code_type = ''hamming''\<rparr>] = 0 \<and>
   (\<exists>d. fits 4 d \<and> returns (secded_encode 4 6 (hamming_code 4 6) d)
     (\<lambda>w. returns (secded_decode ''hamming'' 4 6 (hamming_code 4 6) w) (\<lambda>r. out_err1 r)))"
proof -
  have "verify [\<lparr>cfg_k = 4, cfg_m = 6, cfg_code_type = ''hamming''\<rparr>] = 0" by code_simp
  moreover have "fits 4 2" by (simp add: fits_iff)
  moreover have "returns (secded_encode 4 6 (hamming_code 4 6) 2)
     (\<lambda>w. returns (secded_decode ''hamming'' 4 6 (hamming_code 4 6) w) (\<lambda>r. out_err1 r))" by code_simp
  ultimately show ?thesis by blast
qed

end
