(* ===== verification/Keyed_Perm.thy ===== *)
theory Keyed_Perm
  imports Digits
begin

text \<open>
  The contract of the ciphers: for every key a forward and a backward operation that undo each
  other on the words of a width.  The ROM scrambler relies on it for the network that moves addresses
  and mixes data, and the OTP tools for PRESENT.
\<close>

locale keyed_perm =
  fixes w kw :: nat
    and fwd bwd :: "int \<Rightarrow> int \<Rightarrow> int result"
  assumes bwd_fwd: "fits kw key \<Longrightarrow> fits w x \<Longrightarrow> returns (fwd key x) (\<lambda>y. fits w y \<and> bwd key y = Inr x)"
    and fwd_bwd: "fits kw key \<Longrightarrow> fits w x \<Longrightarrow> returns (bwd key x) (\<lambda>y. fits w y \<and> fwd key y = Inr x)"
begin

lemma fwdE:
  assumes "fits kw key" and "fits w x"
  obtains y where "fwd key x = Inr y" and "fits w y" and "bwd key y = Inr x"
  using bwd_fwd [OF assms] by (auto elim!: returnsE)

lemma bwdE:
  assumes "fits kw key" and "fits w x"
  obtains y where "bwd key x = Inr y" and "fits w y" and "fwd key y = Inr x"
  using fwd_bwd [OF assms] by (auto elim!: returnsE)

lemma fwd_iff_bwd: "fits kw key \<Longrightarrow> fits w x \<Longrightarrow> fits w y \<Longrightarrow> fwd key x = Inr y \<longleftrightarrow> bwd key y = Inr x"
  by (metis bwdE fwdE sum.inject(2))

lemma fwd_inj: "fits kw key \<Longrightarrow> fits w x \<Longrightarrow> fits w y \<Longrightarrow> fwd key x = fwd key y \<Longrightarrow> x = y"
  by (metis fwdE sum.inject(2))

end

end
