(* ===== verification/Subst_Perm.thy ===== *)
theory Subst_Perm
  imports Keyed_Perm
begin

text \<open>
  The substitution and permutation network of \<^verbatim>\<open>hw/ip/rom_ctrl/util/scramble_image.py\<close>: the layer of
  S-boxes \<^verbatim>\<open>sbox\<close>, and \<^verbatim>\<open>subst_perm_enc\<close> and \<^verbatim>\<open>subst_perm_dec\<close>, which are inverse to each other.

  Widths and round numbers are natural numbers, so the assertion \<^verbatim>\<open>0 <= width\<close> is not written.  The
  loops that move bits are folds over the bit numbers.
\<close>

section \<open>Operations\<close>

definition PRESENT_SBOX4 :: "int list" where
  "PRESENT_SBOX4 = [0xc, 0x5, 0x6, 0xb, 0x9, 0x0, 0xa, 0xd, 0x3, 0xe, 0xf, 0x8, 0x4, 0x7, 0x1, 0x2]"

definition PRESENT_SBOX4_INV :: "int list" where
  "PRESENT_SBOX4_INV = [0x5, 0xe, 0xf, 0x8, 0xc, 0x1, 0x2, 0xd, 0xb, 0x4, 0x6, 0x3, 0x0, 0x7, 0x9, 0xa]"

fun sbox_loop :: "int \<Rightarrow> int list \<Rightarrow> nat list \<Rightarrow> int \<Rightarrow> int result" where
  "sbox_loop x coeffs [] ret = Inr ret"
| "sbox_loop x coeffs (i # idxs) ret =
     (let nibble = drop_bit (4 * i) x AND 0xf
      in bindR (py_getitem coeffs nibble) (\<lambda>sb_nibble.
         sbox_loop x coeffs idxs (ret OR push_bit (4 * i) sb_nibble)))"

definition sbox :: "int \<Rightarrow> nat \<Rightarrow> int list \<Rightarrow> int result" where
  "sbox x w coeffs =
     require (0 \<le> x \<and> x < push_bit w 1)
       (let full_mask = push_bit w 1 - 1; sbox_mask = push_bit (4 * (w div 4)) 1 - 1
        in sbox_loop x coeffs [0..<w div 4] (x AND (full_mask AND NOT sbox_mask)))"

text \<open>\<^verbatim>\<open>bit = (x >> src) & 1; ret |= bit << dst\<close>\<close>

definition move_bit :: "int \<Rightarrow> nat \<Rightarrow> nat \<Rightarrow> int \<Rightarrow> int" where
  "move_bit x src dst ret = ret OR push_bit dst (drop_bit src x AND 1)"

definition rev_bits :: "nat \<Rightarrow> int \<Rightarrow> int" where
  "rev_bits w x = foldl (\<lambda>ret i. move_bit x i (w - 1 - i) ret) 0 [0..<w]"

definition bfly_keep :: "nat \<Rightarrow> int \<Rightarrow> int" where
  "bfly_keep w x =
     (let full_mask = push_bit w 1 - 1; bfly_mask = push_bit (2 * (w div 2)) 1 - 1
      in x AND (full_mask AND NOT bfly_mask))"

definition bfly :: "nat \<Rightarrow> int \<Rightarrow> int" where
  "bfly w x =
     foldl (\<lambda>ret i. move_bit x (2 * i + 1) (w div 2 + i) (move_bit x (2 * i) i ret)) (bfly_keep w x) [0..<w div 2]"

definition bfly_inv :: "nat \<Rightarrow> int \<Rightarrow> int" where
  "bfly_inv w x =
     foldl (\<lambda>ret i. move_bit x (i + w div 2) (2 * i + 1) (move_bit x i (2 * i) ret)) (bfly_keep w x) [0..<w div 2]"

fun sp_enc_rounds :: "nat \<Rightarrow> int \<Rightarrow> nat \<Rightarrow> int \<Rightarrow> int result" where
  "sp_enc_rounds 0 key w x = Inr x"
| "sp_enc_rounds (Suc n) key w x =
     bindR (sbox (x XOR key) w PRESENT_SBOX4) (\<lambda>data_sbox.
     sp_enc_rounds n key w (bfly w (rev_bits w data_sbox)))"

fun sp_dec_rounds :: "nat \<Rightarrow> int \<Rightarrow> nat \<Rightarrow> int \<Rightarrow> int result" where
  "sp_dec_rounds 0 key w x = Inr x"
| "sp_dec_rounds (Suc n) key w x =
     bindR (sbox (rev_bits w (bfly_inv w (x XOR key))) w PRESENT_SBOX4_INV) (sp_dec_rounds n key w)"

definition subst_perm_enc :: "int \<Rightarrow> int \<Rightarrow> nat \<Rightarrow> nat \<Rightarrow> int result" where
  "subst_perm_enc x key w num_rounds =
     require (0 \<le> x \<and> x < push_bit w 1) (require (0 \<le> key \<and> key < push_bit w 1)
       (bindR (sp_enc_rounds num_rounds key w x) (\<lambda>x. Inr (x XOR key))))"

definition subst_perm_dec :: "int \<Rightarrow> int \<Rightarrow> nat \<Rightarrow> nat \<Rightarrow> int result" where
  "subst_perm_dec x key w num_rounds =
     require (0 \<le> x \<and> x < push_bit w 1) (require (0 \<le> key \<and> key < push_bit w 1)
       (bindR (sp_dec_rounds num_rounds key w x) (\<lambda>x. Inr (x XOR key))))"

section \<open>Bit moves\<close>

lemma fits_bits: "fits w x \<longleftrightarrow> (\<forall>i. bit x i \<longrightarrow> i < w)"
proof
  assume "fits w x"
  then show "\<forall>i. bit x i \<longrightarrow> i < w" using fits_take_bit_eq by (metis bit_take_bit_iff)
next
  assume "\<forall>i. bit x i \<longrightarrow> i < w"
  then have "take_bit w x = x" by (intro bit_eqI) (auto simp: bit_take_bit_iff)
  then show "fits w x" by (metis fits_take_bit)
qed

lemma bit_move_bit: "bit (move_bit x src dst ret) k \<longleftrightarrow> bit ret k \<or> k = dst \<and> bit x src"
proof -
  have "drop_bit src x AND 1 = of_bool (bit x src)" by (simp add: and_one_eq bit_iff_odd_drop_bit mod_2_eq_odd)
  then show ?thesis by (auto simp: move_bit_def bit_simps)
qed

lemma bit_move_bits:
  "bit (foldl (\<lambda>ret i. move_bit x (f i) (g i) ret) ret is) k \<longleftrightarrow>
    bit ret k \<or> (\<exists>i\<in>set is. k = g i \<and> bit x (f i))"
  by (induction "is" arbitrary: ret) (auto simp: bit_move_bit)

lemma bit_move_bits2:
  "bit (foldl (\<lambda>ret i. move_bit x (f' i) (g' i) (move_bit x (f i) (g i) ret)) ret is) k \<longleftrightarrow>
    bit ret k \<or> (\<exists>i\<in>set is. k = g i \<and> bit x (f i)) \<or> (\<exists>i\<in>set is. k = g' i \<and> bit x (f' i))"
  by (induction "is" arbitrary: ret) (auto simp: bit_move_bit)

lemma bit_rev_bits: "bit (rev_bits w x) k \<longleftrightarrow> k < w \<and> bit x (w - 1 - k)"
proof -
  have "(\<exists>i\<in>set [0..<w]. k = w - 1 - i \<and> bit x i) \<longleftrightarrow> k < w \<and> bit x (w - 1 - k)"
    by (auto intro!: bexI [of _ "w - 1 - k"])
  then show ?thesis unfolding rev_bits_def bit_move_bits by simp
qed

lemma rev_bits_inverse: "fits w x \<Longrightarrow> rev_bits w (rev_bits w x) = x"
  by (rule bit_eqI) (auto simp: bit_rev_bits fits_bits)

lemma fits_rev_bits: "fits w (rev_bits w x)"
  by (simp add: fits_bits bit_rev_bits)

lemma bit_bfly_keep: "bit (bfly_keep w x) k \<longleftrightarrow> bit x k \<and> k < w \<and> 2 * (w div 2) \<le> k"
  unfolding bfly_keep_def Let_def low_mask_def [symmetric] by (auto simp: bit_and_iff bit_not_iff)

lemma bit_bfly:
  "bit (bfly w x) k \<longleftrightarrow> k < w \<and>
    (if k < w div 2 then bit x (2 * k)
     else if k < 2 * (w div 2) then bit x (2 * (k - w div 2) + 1) else bit x k)"
proof -
  let ?h = "w div 2"
  have "(\<exists>i\<in>set [0..<?h]. k = i \<and> bit x (2 * i)) \<longleftrightarrow> k < ?h \<and> bit x (2 * k)" by auto
  moreover have "(\<exists>i\<in>set [0..<?h]. k = ?h + i \<and> bit x (2 * i + 1)) \<longleftrightarrow>
      ?h \<le> k \<and> k < 2 * ?h \<and> bit x (2 * (k - ?h) + 1)" by (auto intro!: bexI [of _ "k - ?h"])
  ultimately show ?thesis unfolding bfly_def bit_move_bits2 bit_bfly_keep by auto
qed

lemma bit_bfly_inv:
  "bit (bfly_inv w x) k \<longleftrightarrow> k < w \<and>
    (if k < 2 * (w div 2) then (if even k then bit x (k div 2) else bit x (k div 2 + w div 2)) else bit x k)"
proof -
  let ?h = "w div 2"
  have "(\<exists>i\<in>set [0..<?h]. k = 2 * i \<and> bit x i) \<longleftrightarrow> k < 2 * ?h \<and> even k \<and> bit x (k div 2)"
    by (auto elim!: evenE)
  moreover have "(\<exists>i\<in>set [0..<?h]. k = 2 * i + 1 \<and> bit x (i + ?h)) \<longleftrightarrow>
      k < 2 * ?h \<and> odd k \<and> bit x (k div 2 + ?h)" by (auto elim!: oddE)
  ultimately show ?thesis unfolding bfly_inv_def bit_move_bits2 bit_bfly_keep by auto
qed

lemma bfly_inverses:
  assumes "fits w x"
  shows "bfly_inv w (bfly w x) = x" and "bfly w (bfly_inv w x) = x"
proof -
  have b: "bit x k \<Longrightarrow> k < w" for k using assms by (simp add: fits_bits)
  show "bfly_inv w (bfly w x) = x"
  proof (rule bit_eqI)
    fix k
    show "bit (bfly_inv w (bfly w x)) k = bit x k"
      using b [of k] by (auto simp: bit_bfly_inv bit_bfly elim!: evenE oddE)
  qed
  show "bfly w (bfly_inv w x) = x"
  proof (rule bit_eqI)
    fix k
    show "bit (bfly w (bfly_inv w x)) k = bit x k"
      using b [of k] by (cases "w div 2 = 0") (auto simp: bit_bfly_inv bit_bfly)
  qed
qed

lemma fits_bfly: "fits w (bfly w x)" "fits w (bfly_inv w x)"
  by (simp_all add: fits_bits bit_bfly bit_bfly_inv)

section \<open>S-boxes\<close>

text \<open>The nibble with number \<open>j\<close>, and an S-box table with its inverse.\<close>

definition nib :: "nat \<Rightarrow> int \<Rightarrow> int" where
  "nib j x = take_bit 4 (drop_bit (4 * j) x)"

definition table_ok :: "int list \<Rightarrow> bool" where
  "table_ok coeffs \<longleftrightarrow> length coeffs = 16 \<and> list_all (fits 4) coeffs"

definition tables_inverse :: "int list \<Rightarrow> int list \<Rightarrow> bool" where
  "tables_inverse coeffs invs \<longleftrightarrow> table_ok coeffs \<and> table_ok invs \<and>
     list_all (\<lambda>i. invs ! nat (coeffs ! i) = int i) [0..<16]"

lemma nib_fits: "fits 4 (nib j x)"
  by (simp add: nib_def)

lemma bit_nib: "bit (nib j x) b \<longleftrightarrow> b < 4 \<and> bit x (4 * j + b)"
  by (simp add: nib_def bit_simps add.commute)

lemma and_15: "x AND 0xf = take_bit 4 (x :: int)"
  using and_low_mask [of x 4] by (simp add: low_mask_eq)

lemma table_get:
  assumes "table_ok coeffs"
  shows "py_getitem coeffs (nib j x) = Inr (coeffs ! nat (nib j x))" and "fits 4 (coeffs ! nat (nib j x))"
  using assms nib_fits [of j x] by (auto simp: table_ok_def fits_iff list_all_length nat_less_iff)

lemma sbox_loop_eq:
  assumes "table_ok coeffs" and "\<forall>k. bit ret k \<longrightarrow> k < 4 * i \<or> 4 * n \<le> k" and "i \<le> n"
  shows "returns (sbox_loop x coeffs [i..<n] ret) (\<lambda>r.
    (\<forall>k. k < 4 * i \<or> 4 * n \<le> k \<longrightarrow> bit r k = bit ret k) \<and>
    (\<forall>j. i \<le> j \<and> j < n \<longrightarrow> nib j r = coeffs ! nat (nib j x)))"
  using assms(2,3)
proof (induction "n - i" arbitrary: i ret)
  case 0
  then show ?case by simp
next
  case (Suc d)
  let ?c = "coeffs ! nat (nib i x)"
  let ?ret = "ret OR push_bit (4 * i) ?c"
  have c: "fits 4 ?c" "py_getitem coeffs (drop_bit (4 * i) x AND 0xf) = Inr ?c"
    using table_get [OF assms(1), of i x] by (simp_all add: and_15 nib_def)
  have new: "bit ?ret k \<longleftrightarrow> bit ret k \<or> 4 * i \<le> k \<and> bit ?c (k - 4 * i)" for k by (simp add: bit_simps)
  have cb: "bit ?c b \<Longrightarrow> b < 4" for b using c(1) by (simp add: fits_bits)
  have "\<forall>k. bit ?ret k \<longrightarrow> k < 4 * Suc i \<or> 4 * n \<le> k" using new cb Suc.prems(1) by fastforce
  moreover have "d = n - Suc i" "Suc i \<le> n" "i < n" using Suc.hyps(2) by auto
  ultimately obtain r where r: "sbox_loop x coeffs [Suc i..<n] ?ret = Inr r"
    "\<forall>k. k < 4 * Suc i \<or> 4 * n \<le> k \<longrightarrow> bit r k = bit ?ret k"
    "\<forall>j. Suc i \<le> j \<and> j < n \<longrightarrow> nib j r = coeffs ! nat (nib j x)"
    using Suc.hyps(1) [of "Suc i" ?ret] by (auto elim!: returnsE)
  have "nib i r = ?c"
  proof (rule bit_eqI)
    fix b
    have "\<not> bit ret (4 * i + b)" if "b < 4"
      using Suc.prems(1) [rule_format, of "4 * i + b"] \<open>i < n\<close> that by auto
    then show "bit (nib i r) b = bit ?c b"
      using r(2) new cb [of b] by (auto simp: bit_nib)
  qed
  then have "\<forall>j. i \<le> j \<and> j < n \<longrightarrow> nib j r = coeffs ! nat (nib j x)" using r(3) by (metis Suc_leI le_neq_implies_less)
  moreover have "\<forall>k. k < 4 * i \<or> 4 * n \<le> k \<longrightarrow> bit r k = bit ret k"
    using r(2) new cb \<open>i < n\<close> by fastforce
  ultimately show ?case using r(1) c(2) \<open>i < n\<close> by (simp add: upt_conv_Cons)
qed

lemma sbox_eq:
  assumes "table_ok coeffs" and "fits w x"
  shows "returns (sbox x w coeffs) (\<lambda>r. fits w r \<and> (\<forall>k\<ge>4 * (w div 4). bit r k = bit x k) \<and>
    (\<forall>j<w div 4. nib j r = coeffs ! nat (nib j x)))"
proof -
  let ?n = "w div 4"
  let ?ret = "x AND (push_bit w 1 - 1 AND NOT (push_bit (4 * ?n) 1 - 1))"
  have ret: "bit ?ret k \<longleftrightarrow> bit x k \<and> 4 * ?n \<le> k" for k
    using assms(2) unfolding low_mask_def [symmetric] by (auto simp: bit_and_iff bit_not_iff fits_bits)
  then obtain r where r: "sbox_loop x coeffs [0..<?n] ?ret = Inr r"
    "\<forall>k. k < 4 * 0 \<or> 4 * ?n \<le> k \<longrightarrow> bit r k = bit ?ret k"
    "\<forall>j. 0 \<le> j \<and> j < ?n \<longrightarrow> nib j r = coeffs ! nat (nib j x)"
    using sbox_loop_eq [OF assms(1), of ?ret 0 ?n x] by (auto elim!: returnsE)
  have keep: "bit r k = bit x k" if "4 * ?n \<le> k" for k using r(2) ret that by simp
  have "fits w r"
    unfolding fits_bits
  proof (intro allI impI)
    fix k
    assume "bit r k"
    then show "k < w" using keep [of k] assms(2) by (cases "4 * ?n \<le> k") (auto simp: fits_bits)
  qed
  then show ?thesis using r keep assms(2) by (simp add: sbox_def fits_def Let_def)
qed

lemma nib_eqI:
  assumes "\<And>k. 4 * n \<le> k \<Longrightarrow> bit x k = bit y k" and "\<And>j. j < n \<Longrightarrow> nib j x = nib j y"
  shows "x = y"
proof (rule bit_eqI)
  fix k
  show "bit x k = bit y k"
  proof (cases "k < 4 * n")
    case True
    then have "nib (k div 4) x = nib (k div 4) y" by (intro assms(2)) auto
    then have "bit (nib (k div 4) x) (k mod 4) = bit (nib (k div 4) y) (k mod 4)" by simp
    then show ?thesis by (simp add: bit_nib)
  qed (use assms(1) in simp)
qed

lemma tables_inverseD:
  assumes "tables_inverse coeffs invs" and "i < 16"
  shows "invs ! nat (coeffs ! i) = int i"
proof -
  have "i \<in> set [0..<16]" unfolding set_upt using assms(2) by simp
  then show ?thesis using assms(1) unfolding tables_inverse_def list_all_iff by blast
qed

lemma sbox_inverse:
  assumes t: "tables_inverse coeffs invs" and x: "fits w x"
  shows "returns (sbox x w coeffs) (\<lambda>r. fits w r \<and> sbox r w invs = Inr x)"
proof -
  have ok: "table_ok coeffs" "table_ok invs" using t by (auto simp: tables_inverse_def)
  obtain r where r: "sbox x w coeffs = Inr r" "fits w r" "\<forall>k\<ge>4 * (w div 4). bit r k = bit x k"
    "\<forall>j<w div 4. nib j r = coeffs ! nat (nib j x)"
    using sbox_eq [OF ok(1) x] by (auto elim!: returnsE)
  obtain y where y: "sbox r w invs = Inr y" "\<forall>k\<ge>4 * (w div 4). bit y k = bit r k"
    "\<forall>j<w div 4. nib j y = invs ! nat (nib j r)"
    using sbox_eq [OF ok(2) r(2)] by (auto elim!: returnsE)
  have tab: "invs ! nat (coeffs ! nat (nib j x)) = nib j x" for j
  proof -
    have "nat (nib j x) < 16" "0 \<le> nib j x" using nib_fits [of j x] by (auto simp: fits_iff nat_less_iff)
    then have "invs ! nat (coeffs ! nat (nib j x)) = int (nat (nib j x))"
      using tables_inverseD [OF t] by blast
    then show ?thesis using \<open>0 \<le> nib j x\<close> by simp
  qed
  have "y = x"
  proof (rule nib_eqI)
    fix k
    assume "4 * (w div 4) \<le> k"
    then show "bit y k = bit x k" using r(3) y(2) by metis
  next
    fix j
    assume "j < w div 4"
    then show "nib j y = nib j x" using r(4) y(3) tab by metis
  qed
  then show ?thesis using r(1,2) y(1) by simp
qed

section \<open>The network\<close>

lemma present_tables:
  "tables_inverse PRESENT_SBOX4 PRESENT_SBOX4_INV" "tables_inverse PRESENT_SBOX4_INV PRESENT_SBOX4"
  by code_simp+

lemma xor_cancel: "(x XOR k) XOR k = (x :: int)"
  by (simp add: xor.assoc)

lemma enc_round:
  assumes "fits w x" and "fits w key"
  shows "returns (sbox (x XOR key) w PRESENT_SBOX4) (\<lambda>s. fits w (bfly w (rev_bits w s)) \<and>
    sbox (rev_bits w (bfly_inv w (bfly w (rev_bits w s)))) w PRESENT_SBOX4_INV = Inr (x XOR key))"
  using sbox_inverse [OF present_tables(1) fits_xor [OF assms]]
  by (rule returns_mono) (simp add: fits_bfly fits_rev_bits bfly_inverses rev_bits_inverse)

lemma dec_round:
  assumes "fits w x" and "fits w key"
  shows "returns (sbox (rev_bits w (bfly_inv w (x XOR key))) w PRESENT_SBOX4_INV) (\<lambda>y. fits w y \<and>
    returns (sbox y w PRESENT_SBOX4) (\<lambda>s. bfly w (rev_bits w s) = x XOR key))"
  using sbox_inverse [OF present_tables(2) fits_rev_bits [of w "bfly_inv w (x XOR key)"]]
  by (rule returns_mono) (simp add: fits_bfly bfly_inverses rev_bits_inverse fits_xor [OF assms])

text \<open>
  The rounds of the two directions are intertwined: decryption keeps its state xored with the key.
\<close>

lemma sp_dec_rounds_snoc:
  "sp_dec_rounds (Suc n) key w x = bindR (sp_dec_rounds n key w x) (\<lambda>y.
    sbox (rev_bits w (bfly_inv w (y XOR key))) w PRESENT_SBOX4_INV)"
proof (induction n arbitrary: x)
  case 0
  then show ?case by (cases "sbox (rev_bits w (bfly_inv w (x XOR key))) w PRESENT_SBOX4_INV") simp_all
next
  case (Suc n)
  show ?case
  proof (cases "sbox (rev_bits w (bfly_inv w (x XOR key))) w PRESENT_SBOX4_INV")
    case (Inr b)
    then show ?thesis using Suc.IH [of b] by simp
  qed simp
qed

lemma sp_enc_rounds_snoc:
  "sp_enc_rounds (Suc n) key w x = bindR (sp_enc_rounds n key w x) (\<lambda>y.
    bindR (sbox (y XOR key) w PRESENT_SBOX4) (\<lambda>s. Inr (bfly w (rev_bits w s))))"
proof (induction n arbitrary: x)
  case 0
  then show ?case by simp
next
  case (Suc n)
  show ?case
  proof (cases "sbox (x XOR key) w PRESENT_SBOX4")
    case (Inr s)
    then show ?thesis using Suc.IH [of "bfly w (rev_bits w s)"] by simp
  qed simp
qed

lemma sp_rounds_inverse:
  assumes "fits w x" and "fits w key"
  shows "returns (sp_enc_rounds n key w x) (\<lambda>y. fits w y \<and> sp_dec_rounds n key w (y XOR key) = Inr (x XOR key))"
  using assms(1)
proof (induction n arbitrary: x)
  case (Suc n)
  obtain s where s: "sbox (x XOR key) w PRESENT_SBOX4 = Inr s" "fits w (bfly w (rev_bits w s))"
    "sbox (rev_bits w (bfly_inv w (bfly w (rev_bits w s)))) w PRESENT_SBOX4_INV = Inr (x XOR key)"
    using enc_round [OF Suc.prems assms(2)] by (auto elim!: returnsE)
  obtain y where y: "sp_enc_rounds n key w (bfly w (rev_bits w s)) = Inr y" "fits w y"
    "sp_dec_rounds n key w (y XOR key) = Inr (bfly w (rev_bits w s) XOR key)"
    using Suc.IH [OF s(2)] by (auto elim!: returnsE)
  have "sp_dec_rounds (Suc n) key w (y XOR key) = Inr (x XOR key)"
    using y(3) s(3) by (simp add: sp_dec_rounds_snoc xor_cancel del: sp_dec_rounds.simps)
  then show ?case using s(1) y(1,2) by simp
qed simp

lemma sp_rounds_inverse':
  assumes "fits w x" and "fits w key"
  shows "returns (sp_dec_rounds n key w x) (\<lambda>y. fits w y \<and> sp_enc_rounds n key w (y XOR key) = Inr (x XOR key))"
  using assms(1)
proof (induction n arbitrary: x)
  case (Suc n)
  obtain y where y: "sbox (rev_bits w (bfly_inv w (x XOR key))) w PRESENT_SBOX4_INV = Inr y" "fits w y"
    "returns (sbox y w PRESENT_SBOX4) (\<lambda>s. bfly w (rev_bits w s) = x XOR key)"
    using dec_round [OF Suc.prems assms(2)] by (auto elim!: returnsE)
  obtain z where z: "sp_dec_rounds n key w y = Inr z" "fits w z"
    "sp_enc_rounds n key w (z XOR key) = Inr (y XOR key)"
    using Suc.IH [OF y(2)] by (auto elim!: returnsE)
  have "sp_enc_rounds (Suc n) key w (z XOR key) = Inr (x XOR key)"
    using z(3) y(3) by (auto simp: sp_enc_rounds_snoc xor_cancel simp del: sp_enc_rounds.simps elim!: returnsE)
  then show ?case using y(1) z(1,2) by simp
qed simp

lemma subst_perm_rounds:
  assumes "fits w x" and "fits w key"
  shows "subst_perm_enc x key w n = bindR (sp_enc_rounds n key w x) (\<lambda>x. Inr (x XOR key))"
    and "subst_perm_dec x key w n = bindR (sp_dec_rounds n key w x) (\<lambda>x. Inr (x XOR key))"
  using assms by (simp_all add: subst_perm_enc_def subst_perm_dec_def fits_iff)

lemma subst_perm_inverse:
  assumes "fits w x" and "fits w key"
  shows "returns (subst_perm_enc x key w n) (\<lambda>y. fits w y \<and> subst_perm_dec y key w n = Inr x)"
    and "returns (subst_perm_dec x key w n) (\<lambda>y. fits w y \<and> subst_perm_enc y key w n = Inr x)"
proof -
  obtain y where y: "sp_enc_rounds n key w x = Inr y" "fits w y"
    "sp_dec_rounds n key w (y XOR key) = Inr (x XOR key)"
    using sp_rounds_inverse [OF assms] by (auto elim!: returnsE)
  then show "returns (subst_perm_enc x key w n) (\<lambda>y. fits w y \<and> subst_perm_dec y key w n = Inr x)"
    using assms fits_xor [OF y(2) assms(2)]
    by (simp add: subst_perm_rounds xor_cancel)
  obtain z where z: "sp_dec_rounds n key w x = Inr z" "fits w z"
    "sp_enc_rounds n key w (z XOR key) = Inr (x XOR key)"
    using sp_rounds_inverse' [OF assms] by (auto elim!: returnsE)
  then show "returns (subst_perm_dec x key w n) (\<lambda>y. fits w y \<and> subst_perm_enc y key w n = Inr x)"
    using assms fits_xor [OF z(2) assms(2)]
    by (simp add: subst_perm_rounds xor_cancel)
qed

interpretation sp: keyed_perm w w "\<lambda>key x. subst_perm_enc x key w n" "\<lambda>key x. subst_perm_dec x key w n" for w n
  by unfold_locales (rule subst_perm_inverse; assumption)+

end
