(* ===== verification/Prince.thy ===== *)
theory Prince
  imports Subst_Perm
begin

text \<open>
  The PRINCE block cipher of \<^verbatim>\<open>hw/ip/rom_ctrl/util/scramble_image.py\<close>, which generates the key stream
  of the ROM scrambling, with the proof that every step, and so the cipher, permutes the 64-bit
  blocks.
\<close>

section \<open>Operations\<close>

definition PRINCE_SBOX4 :: "int list" where
  "PRINCE_SBOX4 = [0xb, 0xf, 0x3, 0x2, 0xa, 0xc, 0x9, 0x1, 0x6, 0x7, 0x8, 0x0, 0xe, 0x5, 0xd, 0x4]"

definition PRINCE_SBOX4_INV :: "int list" where
  "PRINCE_SBOX4_INV = [0xb, 0x7, 0x3, 0x2, 0xf, 0xd, 0x8, 0x9, 0xa, 0x6, 0x4, 0x0, 0x5, 0xe, 0xc, 0x1]"

definition PRINCE_SHIFT_ROWS64 :: "nat list" where
  "PRINCE_SHIFT_ROWS64 = [0x4, 0x9, 0xe, 0x3, 0x8, 0xd, 0x2, 0x7, 0xc, 0x1, 0x6, 0xb, 0x0, 0x5, 0xa, 0xf]"

definition PRINCE_SHIFT_ROWS64_INV :: "nat list" where
  "PRINCE_SHIFT_ROWS64_INV = [0xc, 0x9, 0x6, 0x3, 0x0, 0xd, 0xa, 0x7, 0x4, 0x1, 0xe, 0xb, 0x8, 0x5, 0x2, 0xf]"

definition PRINCE_ROUND_CONSTS :: "int list" where
  "PRINCE_ROUND_CONSTS =
    [0x0000000000000000, 0x13198a2e03707344, 0xa4093822299f31d0, 0x082efa98ec4e6c89,
     0x452821e638d01377, 0xbe5466cf34e90c6c, 0x7ef84f78fd955cb1, 0x85840851f1ac43aa,
     0xc882d32f25323c54, 0x64a51195e0e3610d, 0xd3b5a399ca0c2399, 0xc0ac29b7c97c50dd]"

definition PRINCE_SHIFT_ROWS_CONSTS :: "int list" where
  "PRINCE_SHIFT_ROWS_CONSTS = [0x7bde, 0xbde7, 0xde7b, 0xe7bd]"

definition prince_nibble_red16 :: "int \<Rightarrow> int result" where
  "prince_nibble_red16 x =
     require (0 \<le> x \<and> x < push_bit 16 1)
       (let nib0 = drop_bit 0 x AND 0xf; nib1 = drop_bit 4 x AND 0xf;
            nib2 = drop_bit 8 x AND 0xf; nib3 = drop_bit 12 x AND 0xf
        in Inr (nib0 XOR nib1 XOR nib2 XOR nib3))"

fun mult_prime_loop :: "int \<Rightarrow> (nat \<times> nat) list \<Rightarrow> int \<Rightarrow> int result" where
  "mult_prime_loop x [] ret = Inr ret"
| "mult_prime_loop x ((blk_idx, nibble_idx) # idxs) ret =
     (let data_hw = drop_bit (16 * blk_idx) x AND 0xffff;
          start_sr_idx = (if blk_idx \<in> {0, 3} then 0 else 1);
          sr_idx = (start_sr_idx + 3 - nibble_idx) mod 4
      in bindR (py_getitem PRINCE_SHIFT_ROWS_CONSTS (int sr_idx)) (\<lambda>sr_const.
         bindR (prince_nibble_red16 (data_hw AND sr_const)) (\<lambda>nibble.
         mult_prime_loop x idxs (ret OR push_bit (16 * blk_idx + 4 * nibble_idx) nibble))))"

definition prince_mult_prime :: "int \<Rightarrow> int result" where
  "prince_mult_prime x =
     require (0 \<le> x \<and> x < push_bit 64 1) (mult_prime_loop x (List.product [0..<4] [0..<4]) 0)"

definition prince_shiftrows :: "int \<Rightarrow> bool \<Rightarrow> int result" where
  "prince_shiftrows x invert =
     require (0 \<le> x \<and> x < push_bit 64 1)
       (let shifts = (if invert then PRINCE_SHIFT_ROWS64_INV else PRINCE_SHIFT_ROWS64)
        in Inr (foldl (\<lambda>ret nibble_idx.
             let src_nibble_idx = shifts ! nibble_idx; src_nibble = drop_bit (4 * src_nibble_idx) x AND 0xf
             in ret OR push_bit (4 * nibble_idx) src_nibble) 0 [0..<16]))"

definition prince_fwd_round :: "int \<Rightarrow> int \<Rightarrow> int \<Rightarrow> int result" where
  "prince_fwd_round rc key x =
     require (0 \<le> rc \<and> rc < push_bit 64 1) (require (0 \<le> key \<and> key < push_bit 64 1)
     (require (0 \<le> x \<and> x < push_bit 64 1)
       (bindR (sbox x 64 PRINCE_SBOX4) (\<lambda>x.
        bindR (prince_mult_prime x) (\<lambda>x.
        bindR (prince_shiftrows x False) (\<lambda>x.
        Inr ((x XOR rc) XOR key)))))))"

definition prince_inv_round :: "int \<Rightarrow> int \<Rightarrow> int \<Rightarrow> int result" where
  "prince_inv_round rc key x =
     require (0 \<le> rc \<and> rc < push_bit 64 1) (require (0 \<le> key \<and> key < push_bit 64 1)
     (require (0 \<le> x \<and> x < push_bit 64 1)
       (bindR (prince_shiftrows ((x XOR key) XOR rc) True) (\<lambda>x.
        bindR (prince_mult_prime x) (\<lambda>x.
        sbox x 64 PRINCE_SBOX4_INV)))))"

fun fwd_rounds :: "int \<Rightarrow> int \<Rightarrow> nat list \<Rightarrow> int \<Rightarrow> int result" where
  "fwd_rounds k0 k1 [] x = Inr x"
| "fwd_rounds k0 k1 (hri # hris) x =
     (let round_idx = 1 + hri
      in bindR (py_getitem PRINCE_ROUND_CONSTS (int round_idx)) (\<lambda>rc.
         let rk = (if odd round_idx then k0 else k1)
         in bindR (prince_fwd_round rc rk x) (fwd_rounds k0 k1 hris)))"

fun inv_rounds :: "int \<Rightarrow> int \<Rightarrow> nat \<Rightarrow> nat list \<Rightarrow> int \<Rightarrow> int result" where
  "inv_rounds k0 k1 num_rounds_half [] x = Inr x"
| "inv_rounds k0 k1 num_rounds_half (hri # hris) x =
     (let round_idx = 11 - num_rounds_half + hri
      in bindR (py_getitem PRINCE_ROUND_CONSTS (int round_idx)) (\<lambda>rc.
         let rk = (if odd round_idx then k1 else k0)
         in bindR (prince_inv_round rc rk x) (inv_rounds k0 k1 num_rounds_half hris)))"

definition prince :: "int \<Rightarrow> int \<Rightarrow> nat \<Rightarrow> int result" where
  "prince x key num_rounds_half =
     require (0 \<le> x \<and> x < push_bit 64 1) (require (0 \<le> key \<and> key < push_bit 128 1)
     (require (num_rounds_half \<le> 5)
       (let k1 = key AND (push_bit 64 1 - 1); k0 = drop_bit 64 key;
            k0_rot1 = push_bit 63 (k0 AND 1) OR drop_bit 1 k0;
            k0_prime = k0_rot1 XOR drop_bit 63 k0
        in bindR (fwd_rounds k0 k1 [0..<num_rounds_half] (((x XOR k0) XOR k1) XOR PRINCE_ROUND_CONSTS ! 0)) (\<lambda>x.
           bindR (sbox x 64 PRINCE_SBOX4) (\<lambda>x.
           bindR (prince_mult_prime x) (\<lambda>x.
           bindR (sbox x 64 PRINCE_SBOX4_INV) (\<lambda>x.
           bindR (inv_rounds k0 k1 num_rounds_half [0..<num_rounds_half] x) (\<lambda>x.
           Inr (((x XOR PRINCE_ROUND_CONSTS ! 11) XOR k1) XOR k0_prime)))))))))"

section \<open>Permutations of blocks\<close>

text \<open>\<open>block_perm f\<close>: on 64-bit blocks \<open>f\<close> returns a 64-bit block and is injective, so it permutes them.\<close>

definition block_perm :: "(int \<Rightarrow> int result) \<Rightarrow> bool" where
  "block_perm f \<longleftrightarrow> (\<forall>x. fits 64 x \<longrightarrow> returns (f x) (fits 64)) \<and>
     (\<forall>x y. fits 64 x \<longrightarrow> fits 64 y \<longrightarrow> f x = f y \<longrightarrow> x = y)"

lemma block_permI:
  assumes "\<And>x. fits 64 x \<Longrightarrow> returns (f x) (\<lambda>y. fits 64 y \<and> g y = Inr x)"
  shows "block_perm f"
  unfolding block_perm_def
proof (intro conjI allI impI)
  fix x y
  assume "fits 64 x" "fits 64 y" "f x = f y"
  then show "x = y" using assms [of x] assms [of y] by (auto simp: returns_iff)
next
  fix x
  assume "fits 64 x"
  from assms [OF this] show "returns (f x) (fits 64)" by (rule returns_mono) simp
qed

lemma block_perm_ret: "block_perm Inr"
  by (simp add: block_perm_def)

lemma block_perm_bind:
  assumes "block_perm f" and "block_perm g"
  shows "block_perm (\<lambda>x. bindR (f x) g)"
  unfolding block_perm_def
proof (intro conjI allI impI)
  fix x
  assume "fits 64 x"
  then show "returns (bindR (f x) g) (fits 64)"
    using assms by (auto simp: block_perm_def intro: returns_bindRI)
next
  fix x y
  assume a: "fits 64 x" "fits 64 y" "bindR (f x) g = bindR (f y) g"
  have "\<exists>x'. f x = Inr x' \<and> fits 64 x'" "\<exists>y'. f y = Inr y' \<and> fits 64 y'"
    using assms(1) a(1,2) by (simp_all add: block_perm_def returns_iff)
  then obtain x' y' where "f x = Inr x'" "fits 64 x'" "f y = Inr y'" "fits 64 y'" by blast
  moreover from this have "x' = y'" using assms(2) a(3) by (auto simp: block_perm_def)
  ultimately show "x = y" using assms(1) a(1,2) by (auto simp: block_perm_def)
qed

lemma block_perm_xor:
  assumes "block_perm f" and "fits 64 k"
  shows "block_perm (\<lambda>x. f (x XOR k))"
  unfolding block_perm_def
proof (intro conjI allI impI)
  fix x y
  assume a: "fits 64 x" "fits 64 y" "f (x XOR k) = f (y XOR k)"
  then have "x XOR k = y XOR k" using assms fits_xor by (auto simp: block_perm_def)
  then show "x = y" by (metis xor_cancel)
qed (use assms fits_xor in \<open>auto simp: block_perm_def\<close>)

lemma block_perm_require:
  assumes "block_perm f"
  shows "block_perm (\<lambda>x. require (0 \<le> x \<and> x < push_bit 64 1) (f x))"
proof -
  have "require (0 \<le> x \<and> x < push_bit 64 1) (f x) = f x" if "fits 64 x" for x using that by (simp add: fits_iff)
  then show ?thesis using assms by (simp add: block_perm_def)
qed

lemma prince_tables:
  "tables_inverse PRINCE_SBOX4 PRINCE_SBOX4_INV" "tables_inverse PRINCE_SBOX4_INV PRINCE_SBOX4"
  by code_simp+

lemma block_perm_sbox:
  "block_perm (\<lambda>x. sbox x 64 PRINCE_SBOX4)" "block_perm (\<lambda>x. sbox x 64 PRINCE_SBOX4_INV)"
  by (rule block_permI, erule sbox_inverse [OF prince_tables(1)])
    (rule block_permI, erule sbox_inverse [OF prince_tables(2)])

section \<open>Nibbles\<close>

lemma nib_zero [simp]: "nib j 0 = 0"
  by (simp add: nib_def)

lemma nib_or_push:
  assumes "fits 4 v"
  shows "nib j (ret OR push_bit (4 * i) v) = (if j = i then nib j ret OR v else nib j ret)"
proof (rule bit_eqI)
  fix b
  have v: "bit v c \<Longrightarrow> c < 4" for c using assms by (simp add: fits_bits)
  have "4 * i \<le> 4 * j + b \<and> bit v (4 * j + b - 4 * i) \<longleftrightarrow> j = i \<and> bit v b" if "b < 4"
  proof (cases "j = i")
    case False
    then show ?thesis using v [of "4 * j + b - 4 * i"] that by auto
  qed simp
  then show "bit (nib j (ret OR push_bit (4 * i) v)) b = bit (if j = i then nib j ret OR v else nib j ret) b"
    using v [of b] by (auto simp: bit_nib bit_or_iff bit_push_bit_iff)
qed

lemma fits_64_nibs:
  assumes "fits 64 x" and "fits 64 y" and "\<And>j. j < 16 \<Longrightarrow> nib j x = nib j y"
  shows "x = y"
proof (rule nib_eqI [of 16])
  fix k :: nat
  assume "4 * 16 \<le> k"
  then have "\<not> k < 64" by simp
  then show "bit x k = bit y k" using assms(1,2) unfolding fits_bits by blast
qed (use assms(3) in simp)

lemma push_nibs:
  assumes "distinct is" and "\<forall>i\<in>set is. fits 4 (f i)"
  shows "nib j (foldl (\<lambda>ret i. ret OR push_bit (4 * i) (f i)) ret is) =
    (if j \<in> set is then nib j ret OR f j else nib j ret)"
  using assms by (induction "is" arbitrary: ret) (auto simp: nib_or_push)

lemma push_nibs_bits:
  assumes "\<forall>i\<in>set is. i < n \<and> fits 4 (f i)" and "\<forall>k. bit ret k \<longrightarrow> k < 4 * n"
  shows "bit (foldl (\<lambda>ret i. ret OR push_bit (4 * i) (f i)) ret is) k \<Longrightarrow> k < 4 * n"
  using assms
proof (induction "is" arbitrary: ret)
  case (Cons i "is")
  have "k < 4 * n" if "bit (ret OR push_bit (4 * i) (f i)) k" for k
  proof (cases "bit ret k")
    case False
    then have "4 * i \<le> k" "bit (f i) (k - 4 * i)" using that by (auto simp: bit_or_iff bit_push_bit_iff)
    then have "k - 4 * i < 4" using Cons.prems(2) by (simp add: fits_bits)
    then show ?thesis using Cons.prems(2) by auto
  qed (use Cons.prems(3) in blast)
  then show ?case using Cons by simp
qed auto

lemma shiftrows_nibs:
  assumes "fits 64 x"
  shows "returns (prince_shiftrows x invert) (\<lambda>r. fits 64 r \<and>
    (\<forall>j<16. nib j r = nib ((if invert then PRINCE_SHIFT_ROWS64_INV else PRINCE_SHIFT_ROWS64) ! j) x))"
proof -
  let ?sh = "if invert then PRINCE_SHIFT_ROWS64_INV else PRINCE_SHIFT_ROWS64"
  let ?r = "foldl (\<lambda>ret i. ret OR push_bit (4 * i) (nib (?sh ! i) x)) 0 [0..<16]"
  have "nib j ?r = nib (?sh ! j) x" if "j < 16" for j
    using that push_nibs [of "[0..<16]" "\<lambda>i. nib (?sh ! i) x" j 0] nib_fits by (simp del: upt_rec_numeral)
  moreover have "fits 64 ?r"
    using push_nibs_bits [of "[0..<16]" 16 "\<lambda>i. nib (?sh ! i) x" 0] nib_fits unfolding fits_bits
    by (simp del: upt_rec_numeral)
  moreover have "prince_shiftrows x invert = Inr ?r"
    using assms by (simp add: prince_shiftrows_def fits_iff and_15 nib_def Let_def del: upt_rec_numeral)
  ultimately show ?thesis by simp
qed

lemma shiftrows_tables:
  assumes "j < 16"
  shows "PRINCE_SHIFT_ROWS64 ! j < 16 \<and> PRINCE_SHIFT_ROWS64_INV ! (PRINCE_SHIFT_ROWS64 ! j) = j"
    and "PRINCE_SHIFT_ROWS64_INV ! j < 16 \<and> PRINCE_SHIFT_ROWS64 ! (PRINCE_SHIFT_ROWS64_INV ! j) = j"
proof -
  let ?P = "\<lambda>j. (PRINCE_SHIFT_ROWS64 ! j < 16 \<and> PRINCE_SHIFT_ROWS64_INV ! (PRINCE_SHIFT_ROWS64 ! j) = j) \<and>
    (PRINCE_SHIFT_ROWS64_INV ! j < 16 \<and> PRINCE_SHIFT_ROWS64 ! (PRINCE_SHIFT_ROWS64_INV ! j) = j)"
  have "list_all ?P [0..<16]" by code_simp
  moreover have "j \<in> set [0..<16]" unfolding set_upt using assms by simp
  ultimately have "?P j" unfolding list_all_iff by blast
  then show "PRINCE_SHIFT_ROWS64 ! j < 16 \<and> PRINCE_SHIFT_ROWS64_INV ! (PRINCE_SHIFT_ROWS64 ! j) = j"
    and "PRINCE_SHIFT_ROWS64_INV ! j < 16 \<and> PRINCE_SHIFT_ROWS64 ! (PRINCE_SHIFT_ROWS64_INV ! j) = j" by blast+
qed

lemma block_perm_shiftrows: "block_perm (\<lambda>x. prince_shiftrows x invert)"
proof (rule block_permI)
  fix x
  assume x: "fits 64 x"
  let ?tab = "\<lambda>b. if b then PRINCE_SHIFT_ROWS64_INV else PRINCE_SHIFT_ROWS64"
  obtain r where r: "prince_shiftrows x invert = Inr r" "fits 64 r" "\<forall>j<16. nib j r = nib (?tab invert ! j) x"
    using shiftrows_nibs [OF x, of invert] by (rule returnsE) blast
  obtain y where y: "prince_shiftrows r (\<not> invert) = Inr y" "fits 64 y" "\<forall>j<16. nib j y = nib (?tab (\<not> invert) ! j) r"
    using shiftrows_nibs [OF r(2), of "\<not> invert"] by (rule returnsE) blast
  have "nib j y = nib j x" if "j < 16" for j
    using y(3) r(3) shiftrows_tables [OF that] that by (cases invert) simp_all
  then have "y = x" by (rule fits_64_nibs [OF y(2) x])
  then show "returns (prince_shiftrows x invert) (\<lambda>y. fits 64 y \<and> prince_shiftrows y (\<not> invert) = Inr x)"
    using r(1,2) y(1) by simp
qed

section \<open>The matrix layer\<close>

definition start_idx :: "nat \<Rightarrow> nat" where
  "start_idx blk = (if blk \<in> {0, 3} then 0 else 1)"

definition sr_idx :: "nat \<Rightarrow> nat \<Rightarrow> nat" where
  "sr_idx blk n = (start_idx blk + 3 - n) mod 4"

definition mp_nib :: "int \<Rightarrow> nat \<Rightarrow> nat \<Rightarrow> int" where
  "mp_nib x blk n =
     (let y = (drop_bit (16 * blk) x AND 0xffff) AND PRINCE_SHIFT_ROWS_CONSTS ! sr_idx blk n
      in nib 0 y XOR nib 1 y XOR nib 2 y XOR nib 3 y)"

lemma sr_idx_less: "sr_idx blk n < 4"
  by (simp add: sr_idx_def)

lemma and_ffff: "x AND 0xffff = take_bit 16 (x :: int)"
  using and_low_mask [of x 16] by (simp add: low_mask_eq)

lemma mp_nib_fits: "fits 4 (mp_nib x blk n)"
  by (simp add: mp_nib_def Let_def fits_xor nib_fits)

lemma mult_prime_loop_eq:
  "mult_prime_loop x idxs ret =
    Inr (foldl (\<lambda>ret (blk, n). ret OR push_bit (4 * (4 * blk + n)) (mp_nib x blk n)) ret idxs)"
proof (induction idxs arbitrary: ret)
  case (Cons p idxs)
  obtain blk n where p: "p = (blk, n)" by fastforce
  let ?y = "(drop_bit (16 * blk) x AND 0xffff) AND PRINCE_SHIFT_ROWS_CONSTS ! sr_idx blk n"
  have "fits 16 (drop_bit (16 * blk) x AND 0xffff)" by (simp add: and_ffff)
  then have "fits 16 ?y" by (auto simp: fits_iff AND_lower intro: order_le_less_trans [OF AND_upper1])
  then have "prince_nibble_red16 ?y = Inr (mp_nib x blk n)"
    by (simp add: prince_nibble_red16_def fits_iff mp_nib_def nib_def and_15 Let_def)
  moreover have "py_getitem PRINCE_SHIFT_ROWS_CONSTS (int (sr_idx blk n)) = Inr (PRINCE_SHIFT_ROWS_CONSTS ! sr_idx blk n)"
    using sr_idx_less [of blk n] by (subst py_getitem_ok) (simp_all add: PRINCE_SHIFT_ROWS_CONSTS_def)
  ultimately show ?case
    using Cons.IH by (simp add: p Let_def sr_idx_def start_idx_def mult.commute)
qed simp

lemma nib_positions: "map (\<lambda>(blk, n). 4 * blk + n) (List.product [0..<4] [0..<4]) = [0..<16]"
  by code_simp

lemma mult_prime_nibs:
  assumes "fits 64 x"
  shows "returns (prince_mult_prime x) (\<lambda>r. fits 64 r \<and> (\<forall>j<16. nib j r = mp_nib x (j div 4) (j mod 4)))"
proof -
  let ?f = "\<lambda>i. mp_nib x (i div 4) (i mod 4)"
  let ?ps = "List.product [0..<4] [0..<4]"
  let ?r = "foldl (\<lambda>ret i. ret OR push_bit (4 * i) (?f i)) 0 [0..<16]"
  have "foldl (\<lambda>ret (blk, n). ret OR push_bit (4 * (4 * blk + n)) (mp_nib x blk n)) 0 ?ps =
      foldl (\<lambda>ret i. ret OR push_bit (4 * i) (?f i)) 0 (map (\<lambda>(blk, n). 4 * blk + n) ?ps)"
    unfolding foldl_map by (intro foldl_cong) auto
  then have "prince_mult_prime x = Inr ?r"
    using assms unfolding nib_positions by (simp add: prince_mult_prime_def fits_iff mult_prime_loop_eq)
  moreover have "nib j ?r = ?f j" if "j < 16" for j
    using that push_nibs [of "[0..<16]" ?f j 0] mp_nib_fits by (simp del: upt_rec_numeral)
  moreover have "fits 64 ?r"
    using push_nibs_bits [of "[0..<16]" 16 ?f 0] mp_nib_fits unfolding fits_bits by (simp del: upt_rec_numeral)
  ultimately show ?thesis by simp
qed

text \<open>
  Each output bit is the sum of three of the four bits in its column of the block, that is the sum
  of the column and the bit left out.
\<close>

definition col_sum :: "int \<Rightarrow> nat \<Rightarrow> nat \<Rightarrow> bool" where
  "col_sum x blk b = (bit x (16 * blk + b) \<noteq> (bit x (16 * blk + 4 + b) \<noteq>
     (bit x (16 * blk + 8 + b) \<noteq> bit x (16 * blk + 12 + b))))"

lemma row_const_bits:
  assumes "s < 4" and "i < 4" and "b < 4"
  shows "bit (PRINCE_SHIFT_ROWS_CONSTS ! s) (4 * i + b) \<longleftrightarrow> i \<noteq> (b + s) mod 4"
proof -
  let ?P = "\<lambda>(s, i, b). bit (PRINCE_SHIFT_ROWS_CONSTS ! s) (4 * i + b) = (i \<noteq> (b + s) mod 4)"
  have "list_all ?P (List.product [0..<4] (List.product [0..<4] [0..<4]))" by code_simp
  moreover have "(s, i, b) \<in> set (List.product [0..<4] (List.product [0..<4] [0..<4]))"
    unfolding set_product set_upt using assms by simp
  ultimately show ?thesis unfolding list_all_iff by fastforce
qed

lemma bit_mp_nib:
  assumes "b < 4"
  shows "bit (mp_nib x blk n) b \<longleftrightarrow>
    (col_sum x blk b \<noteq> bit x (16 * blk + 4 * ((b + sr_idx blk n) mod 4) + b))"
proof -
  let ?p = "(b + sr_idx blk n) mod 4"
  let ?y = "(drop_bit (16 * blk) x AND 0xffff) AND PRINCE_SHIFT_ROWS_CONSTS ! sr_idx blk n"
  have hw: "bit (nib i ?y) b \<longleftrightarrow> bit x (16 * blk + 4 * i + b) \<and> i \<noteq> ?p" if "i < 4" for i
    using that assms row_const_bits [OF sr_idx_less that assms, of blk n]
    by (auto simp: bit_nib bit_and_iff and_ffff bit_take_bit_iff bit_drop_bit_eq add.assoc)
  have h: "bit (nib 0 ?y) b \<longleftrightarrow> bit x (16 * blk + b) \<and> 0 \<noteq> ?p"
    "bit (nib 1 ?y) b \<longleftrightarrow> bit x (16 * blk + 4 + b) \<and> 1 \<noteq> ?p"
    "bit (nib 2 ?y) b \<longleftrightarrow> bit x (16 * blk + 8 + b) \<and> 2 \<noteq> ?p"
    "bit (nib 3 ?y) b \<longleftrightarrow> bit x (16 * blk + 12 + b) \<and> 3 \<noteq> ?p"
    using hw [of 0] hw [of 1] hw [of 2] hw [of 3] by simp_all
  have "?p < 4" by simp
  then have "?p = 0 \<or> ?p = 1 \<or> ?p = 2 \<or> ?p = 3" by linarith
  then show ?thesis
    unfolding mp_nib_def Let_def bit_xor_iff h col_sum_def by (elim disjE) auto
qed

lemma nat_less_4: "n < (4 :: nat) \<longleftrightarrow> n = 0 \<or> n = 1 \<or> n = 2 \<or> n = 3"
  by auto

lemma mult_prime_bits:
  assumes "\<forall>j<16. nib j r = mp_nib x (j div 4) (j mod 4)" and "blk < 4" and "n < 4" and "b < 4"
  shows "bit r (16 * blk + 4 * n + b) \<longleftrightarrow>
    (col_sum x blk b \<noteq> bit x (16 * blk + 4 * ((b + sr_idx blk n) mod 4) + b))"
proof -
  have "nib (4 * blk + n) r = mp_nib x blk n" using assms(1) [rule_format, of "4 * blk + n"] assms(2,3) by simp
  then have "bit (nib (4 * blk + n) r) b = bit (mp_nib x blk n) b" by simp
  then show ?thesis using bit_mp_nib [OF assms(4)] assms(4) by (simp add: bit_nib algebra_simps)
qed

lemma rows_involution:
  assumes "b < 4" and "n < 4"
  shows "(b + sr_idx blk ((b + sr_idx blk n) mod 4)) mod 4 = n"
  using assms unfolding nat_less_4 sr_idx_def start_idx_def by (elim disjE; simp)

lemma col_sum_mult_prime:
  assumes "\<forall>j<16. nib j r = mp_nib x (j div 4) (j mod 4)" and "blk < 4" and "b < 4"
  shows "col_sum r blk b = col_sum x blk b"
proof -
  have "bit r (16 * blk + 4 * n + b) \<longleftrightarrow> (col_sum x blk b \<noteq> bit x (16 * blk + 4 * ((b + sr_idx blk n) mod 4) + b))"
    if "n < 4" for n by (rule mult_prime_bits [OF assms(1,2) that assms(3)])
  note r = this [of 0] this [of 1] this [of 2] this [of 3]
  show ?thesis
    using assms(3) r unfolding nat_less_4 sr_idx_def start_idx_def
    by (elim disjE; cases "blk \<in> {0, 3}") (auto simp: col_sum_def)
qed

lemma block_perm_mult_prime: "block_perm prince_mult_prime"
proof (rule block_permI)
  fix x
  assume x: "fits 64 x"
  obtain r where r: "prince_mult_prime x = Inr r" "fits 64 r" "\<forall>j<16. nib j r = mp_nib x (j div 4) (j mod 4)"
    using mult_prime_nibs [OF x] by (rule returnsE) blast
  obtain y where y: "prince_mult_prime r = Inr y" "fits 64 y" "\<forall>j<16. nib j y = mp_nib r (j div 4) (j mod 4)"
    using mult_prime_nibs [OF r(2)] by (rule returnsE) blast
  have "nib j y = nib j x" if "j < 16" for j
  proof (rule bit_eqI)
    fix b
    have d: "j div 4 < 4" "j mod 4 < 4" using that by auto
    have e: "16 * (j div 4) + 4 * (j mod 4) = 4 * j" by presburger
    show "bit (nib j y) b = bit (nib j x) b"
    proof (cases "b < 4")
      case True
      have "(b + sr_idx (j div 4) (j mod 4)) mod 4 < 4" by simp
      from mult_prime_bits [OF r(3) d(1) this True] mult_prime_bits [OF y(3) d(1,2) True]
        col_sum_mult_prime [OF r(3) d(1) True] rows_involution [OF True d(2)]
      show ?thesis using e True by (simp add: bit_nib) blast
    qed (simp add: bit_nib)
  qed
  then have "y = x" by (rule fits_64_nibs [OF y(2) x])
  then show "returns (prince_mult_prime x) (\<lambda>y. fits 64 y \<and> prince_mult_prime y = Inr x)" using r(1,2) y(1) by simp
qed

section \<open>The cipher\<close>

lemma block_perm_xors:
  assumes "fits 64 a" and "fits 64 b"
  shows "block_perm (\<lambda>x. Inr ((x XOR a) XOR b))"
  using block_perm_xor [OF block_perm_xor [OF block_perm_ret assms(2)] assms(1)] .

lemma block_perm_fwd_round:
  assumes "fits 64 rc" and "fits 64 key"
  shows "block_perm (prince_fwd_round rc key)"
proof -
  have "0 \<le> rc \<and> rc < push_bit 64 1" "0 \<le> key \<and> key < push_bit 64 1" using assms by (simp_all add: fits_def)
  then have "prince_fwd_round rc key = (\<lambda>x. require (0 \<le> x \<and> x < push_bit 64 1)
      (bindR (sbox x 64 PRINCE_SBOX4) (\<lambda>x. bindR (prince_mult_prime x) (\<lambda>x.
       bindR (prince_shiftrows x False) (\<lambda>x. Inr ((x XOR rc) XOR key))))))"
    unfolding prince_fwd_round_def require_def by simp
  then show ?thesis
    by (simp only:) (intro block_perm_require block_perm_bind block_perm_sbox block_perm_mult_prime
      block_perm_shiftrows block_perm_xors assms)
qed

lemma block_perm_inv_round:
  assumes "fits 64 rc" and "fits 64 key"
  shows "block_perm (prince_inv_round rc key)"
proof -
  have "block_perm (\<lambda>x. bindR (prince_shiftrows x True) (\<lambda>x. bindR (prince_mult_prime x) (\<lambda>x. sbox x 64 PRINCE_SBOX4_INV)))"
    by (intro block_perm_bind block_perm_sbox block_perm_mult_prime block_perm_shiftrows)
  from block_perm_require [OF block_perm_xor [OF block_perm_xor [OF this assms(1)] assms(2)]]
  have "block_perm (\<lambda>x. require (0 \<le> x \<and> x < push_bit 64 1) (bindR (prince_shiftrows ((x XOR key) XOR rc) True)
      (\<lambda>x. bindR (prince_mult_prime x) (\<lambda>x. sbox x 64 PRINCE_SBOX4_INV))))" .
  moreover have "0 \<le> rc \<and> rc < push_bit 64 1" "0 \<le> key \<and> key < push_bit 64 1" using assms by (simp_all add: fits_def)
  ultimately show ?thesis unfolding prince_inv_round_def [abs_def] require_def by simp
qed

lemma round_consts: "i < 12 \<Longrightarrow> py_getitem PRINCE_ROUND_CONSTS (int i) = Inr (PRINCE_ROUND_CONSTS ! i) \<and>
    fits 64 (PRINCE_ROUND_CONSTS ! i)"
proof -
  assume i: "i < 12"
  have "list_all (fits 64) PRINCE_ROUND_CONSTS" "length PRINCE_ROUND_CONSTS = 12" by code_simp+
  then show ?thesis using i by (simp add: list_all_length)
qed

lemma block_perm_fwd_rounds:
  assumes "fits 64 k0" and "fits 64 k1" and "\<forall>i\<in>set hris. i < 11"
  shows "block_perm (fwd_rounds k0 k1 hris)"
  using assms(3)
proof (induction hris)
  case (Cons i hris)
  have "fwd_rounds k0 k1 (i # hris) = (\<lambda>x. bindR (prince_fwd_round (PRINCE_ROUND_CONSTS ! (1 + i))
      (if odd (1 + i) then k0 else k1) x) (fwd_rounds k0 k1 hris))"
    (is "?l = ?r")
  proof (rule ext)
    fix x
    have "1 + i < 12" using Cons.prems by simp
    from round_consts [OF this] show "?l x = ?r x" by (simp only: fwd_rounds.simps Let_def bindR_simps)
  qed
  then show ?case
    using Cons round_consts [of "1 + i"] assms(1,2)
    by (simp only:) (intro block_perm_bind block_perm_fwd_round; simp)
next
  case Nil
  have "fwd_rounds k0 k1 [] = Inr" by (rule ext) simp
  then show ?case using block_perm_ret by simp
qed

lemma block_perm_inv_rounds:
  assumes "fits 64 k0" and "fits 64 k1" and "\<forall>i\<in>set hris. i < h" and "h \<le> 5"
  shows "block_perm (inv_rounds k0 k1 h hris)"
  using assms(3)
proof (induction hris)
  case (Cons i hris)
  let ?i = "11 - h + i"
  have i: "?i < 12" using Cons.prems assms(4) by auto
  have "inv_rounds k0 k1 h (i # hris) = (\<lambda>x. bindR (prince_inv_round (PRINCE_ROUND_CONSTS ! ?i)
      (if odd ?i then k1 else k0) x) (inv_rounds k0 k1 h hris))"
    (is "?l = ?r")
  proof (rule ext)
    fix x
    from round_consts [OF i] show "?l x = ?r x" by (simp only: inv_rounds.simps Let_def bindR_simps)
  qed
  then show ?case
    using Cons round_consts [OF i] assms(1,2)
    by (simp only:) (intro block_perm_bind block_perm_inv_round; simp)
qed (simp add: block_perm_def)

lemma prince_permutes:
  assumes "fits 128 key" and "h \<le> 5"
  shows "block_perm (\<lambda>x. prince x key h)"
proof -
  let ?k1 = "key AND (push_bit 64 1 - 1)" and ?k0 = "drop_bit 64 key"
  let ?kp = "(push_bit 63 (?k0 AND 1) OR drop_bit 1 ?k0) XOR drop_bit 63 ?k0"
  have k1: "fits 64 ?k1" unfolding low_mask_def [symmetric] by simp
  have key: "bit key i \<Longrightarrow> i < 128" for i using assms(1) by (simp add: fits_bits)
  have k0: "fits 64 ?k0"
    unfolding fits_bits bit_drop_bit_eq by (auto dest!: key)
  have "?k0 AND 1 = 0 \<or> ?k0 AND 1 = 1" by (simp add: and_one_eq mod_2_eq_odd)
  then have "fits 64 (push_bit 63 (?k0 AND 1))" by (elim disjE) (simp_all add: fits_iff)
  then have "fits 64 (push_bit 63 (?k0 AND 1) OR drop_bit 1 ?k0)" by (rule fits_or [OF _ fits_drop_bit [OF k0]])
  moreover have "fits 64 (drop_bit 63 ?k0)" using k0 by (rule fits_drop_bit)
  ultimately have kp: "fits 64 ?kp" by (rule fits_xor)
  have rest: "block_perm (\<lambda>x. bindR (fwd_rounds ?k0 ?k1 [0..<h] x) (\<lambda>x. bindR (sbox x 64 PRINCE_SBOX4) (\<lambda>x.
      bindR (prince_mult_prime x) (\<lambda>x. bindR (sbox x 64 PRINCE_SBOX4_INV) (\<lambda>x.
      bindR (inv_rounds ?k0 ?k1 h [0..<h] x) (\<lambda>x.
      Inr (((x XOR PRINCE_ROUND_CONSTS ! 11) XOR ?k1) XOR ?kp)))))))"
  proof (intro block_perm_bind block_perm_sbox block_perm_mult_prime)
    show "block_perm (fwd_rounds ?k0 ?k1 [0..<h])" by (rule block_perm_fwd_rounds [OF k0 k1]) (use assms(2) in auto)
    show "block_perm (inv_rounds ?k0 ?k1 h [0..<h])" by (rule block_perm_inv_rounds [OF k0 k1 _ assms(2)]) simp
    show "block_perm (\<lambda>x. Inr (((x XOR PRINCE_ROUND_CONSTS ! 11) XOR ?k1) XOR ?kp))"
      using block_perm_xor [OF block_perm_xors [OF k1 kp], of "PRINCE_ROUND_CONSTS ! 11"] round_consts [of 11] by simp
  qed
  have c0: "fits 64 (PRINCE_ROUND_CONSTS ! 0)" using round_consts [of 0] by simp
  from block_perm_require [OF block_perm_xor [OF block_perm_xor [OF block_perm_xor [OF rest c0] k1] k0]]
  show ?thesis using assms unfolding prince_def [abs_def] fits_def Let_def by simp
qed

end
