(* ===== verification/Mem_File.thy ===== *)
theory Mem_File
  imports Secded_Gen Prince Elf_Segment
begin

text \<open>
  The memory images of the ROM tools, \<^verbatim>\<open>hw/ip/rom_ctrl/util/mem.py\<close>: chunks of words with an address,
  reading and writing them as VMEM text, reading ELF files, filling the gaps, and adding integrity bits.

  \<^verbatim>\<open>load_vmem\<close> runs the C preprocessor and reads what it leaves; the model starts at the lines it
  leaves.  The values of \<^verbatim>\<open>random.getrandbits(32)\<close> after \<^verbatim>\<open>random.seed(s)\<close> are an argument: \<open>rnd s n\<close> is
  the value number \<open>n\<close>.
\<close>

section \<open>Operations\<close>

definition red_xor32 :: "int \<Rightarrow> int" where
  "red_xor32 word =
     (let word = (word AND 0xffff) XOR drop_bit 16 word;
          word = (word AND 0xff) XOR drop_bit 8 word;
          word = (word AND 0xf) XOR drop_bit 4 word;
          word = (word AND 0x3) XOR drop_bit 2 word
      in (word AND 0x1) XOR drop_bit 1 word)"

definition add_ecc32 :: "int \<Rightarrow> int list \<Rightarrow> int result" where
  "add_ecc32 word bitmasks =
     require (0 \<le> word \<and> word < push_bit 32 1) (require (length bitmasks = 7)
       (Inr (foldl (\<lambda>ret (idx, bitmask). ret OR push_bit (32 + idx) (red_xor32 (word XOR bitmask)))
              word (enumerate 0 bitmasks))))"

record mem_chunk =
  base_addr :: nat
  chunk_words :: "int list"

record mem_file =
  mf_width :: nat
  mf_chunks :: "mem_chunk list"

definition MemChunk_next_addr :: "mem_chunk \<Rightarrow> nat" where
  "MemChunk_next_addr c = base_addr c + length (chunk_words c)"

text \<open>The lines of a chunk: a slice of the words for every start index \<^verbatim>\<open>range(0, len(words), n)\<close>.\<close>

function vmem_lines :: "nat \<Rightarrow> nat \<Rightarrow> nat \<Rightarrow> nat \<Rightarrow> int list \<Rightarrow> string list" where
  "vmem_lines nwords addr_chars word_chars line_addr ws =
     (if ws = [] \<or> nwords = 0 then []
      else let toks = (CHR ''@'' # fmt_X addr_chars (int line_addr)) # map (fmt_X word_chars) (take nwords ws)
           in (str_join '' '' toks @ newline) #
              vmem_lines nwords addr_chars word_chars (line_addr + nwords) (drop nwords ws))"
  by auto

termination
  by (relation "measure (\<lambda>(n, a, w, l, ws). length ws)") auto

declare vmem_lines.simps [simp del]

definition MemChunk_write_vmem :: "nat \<Rightarrow> mem_chunk \<Rightarrow> string list" where
  "MemChunk_write_vmem w c =
     (let addr_chars = max 8 ((nat (bit_length (MemChunk_next_addr c)) + 3) div 4);
          word_chars = (w + 3) div 4;
          nwords_on_line = max 1 ((79 - addr_chars) div (1 + word_chars))
      in vmem_lines nwords_on_line addr_chars word_chars (base_addr c) (chunk_words c))"

fun add_ecc32_all :: "int list \<Rightarrow> int list \<Rightarrow> int list result" where
  "add_ecc32_all bitmasks [] = Inr []"
| "add_ecc32_all bitmasks (w # ws) =
     bindR (add_ecc32 w bitmasks) (\<lambda>e. bindR (add_ecc32_all bitmasks ws) (\<lambda>es. Inr (e # es)))"

text \<open>The search for the code may not return, so the value is optional as in \<open>gen_code\<close>.\<close>

definition MemChunk_add_ecc32 ::
    "(nat \<Rightarrow> fanin_code list \<Rightarrow> fanin_code list) \<Rightarrow> mem_chunk \<Rightarrow> mem_chunk result option" where
  "MemChunk_add_ecc32 shuffle c =
     map_option (\<lambda>r. bindR r (\<lambda>codes.
       bindR (calc_bitmasks 32 7 codes False) (\<lambda>bitmasks.
       bindR (add_ecc32_all bitmasks (chunk_words c)) (\<lambda>ws. Inr (c\<lparr>chunk_words := ws\<rparr>)))))
     (gen_code shuffle ''hsiao'' 32 7)"

subsection \<open>Reading VMEM lines\<close>

text \<open>The regular expression of an address, an at sign and hexadecimal digits, on a token without white space.\<close>

definition addr_match :: "string \<Rightarrow> string option" where
  "addr_match tok =
     (case tok of
        c # ds \<Rightarrow> if c = CHR ''@'' \<and> ds \<noteq> [] \<and> list_all (\<lambda>d. base_digit 16 d \<noteq> None) ds then Some ds else None
      | [] \<Rightarrow> None)"

fun parse_words :: "nat \<Rightarrow> string list \<Rightarrow> int list result" where
  "parse_words w [] = Inr []"
| "parse_words w (tok # toks) =
     (case py_int16 tok of
        None \<Rightarrow> Inl ValueError
      | Some word \<Rightarrow>
          if word < 0 \<or> py_bool (drop_bit w word) then Inl ValueError
          else bindR (parse_words w toks) (\<lambda>ws. Inr (word # ws)))"

definition parse_line :: "nat \<Rightarrow> string \<Rightarrow> (nat \<times> int list) result" where
  "parse_line w line =
     (case py_words line of
        [] \<Rightarrow> Inl AssertionError
      | tok # toks \<Rightarrow>
          (case addr_match tok of
             None \<Rightarrow> Inl ValueError
           | Some ds \<Rightarrow>
               (case py_int16 ds of
                  None \<Rightarrow> Inl ValueError
                | Some addr \<Rightarrow> bindR (parse_words w toks) (\<lambda>ws. Inr (nat addr, ws)))))"

text \<open>The loop of \<^verbatim>\<open>_load_preproc\<close>; the chunks are the finished ones.\<close>

fun load_lines :: "nat \<Rightarrow> string list \<Rightarrow> mem_chunk list \<Rightarrow> mem_chunk option \<Rightarrow> mem_chunk list result" where
  "load_lines w [] chunks next_chunk =
     Inr (chunks @ (case next_chunk of None \<Rightarrow> [] | Some c \<Rightarrow> [c]))"
| "load_lines w (line # lines) chunks next_chunk =
     (if list_all is_space line then load_lines w lines chunks next_chunk
      else
        bindR (parse_line w line) (\<lambda>(line_addr, line_words).
        if line_words = [] then load_lines w lines chunks next_chunk
        else case next_chunk of
          None \<Rightarrow> load_lines w lines chunks (Some \<lparr>base_addr = line_addr, chunk_words = line_words\<rparr>)
        | Some c \<Rightarrow>
            let chunk_end = MemChunk_next_addr c
            in if line_addr < chunk_end then Inl ValueError
               else if line_addr = chunk_end then
                 load_lines w lines chunks (Some (c\<lparr>chunk_words := chunk_words c @ line_words\<rparr>))
               else load_lines w lines (chunks @ [c]) (Some \<lparr>base_addr = line_addr, chunk_words = line_words\<rparr>)))"

definition load_preproc :: "nat \<Rightarrow> string list \<Rightarrow> mem_file result" where
  "load_preproc w lines =
     bindR (load_lines w lines [] None) (\<lambda>chunks. Inr \<lparr>mf_width = w, mf_chunks = chunks\<rparr>)"

subsection \<open>Whole files\<close>

definition MemFile_next_addr :: "mem_file \<Rightarrow> nat" where
  "MemFile_next_addr f = (if mf_chunks f = [] then 0 else MemChunk_next_addr (last (mf_chunks f)))"

definition MemFile_write_vmem :: "mem_file \<Rightarrow> string list" where
  "MemFile_write_vmem f = concat (map (MemChunk_write_vmem (mf_width f)) (mf_chunks f))"

text \<open>\<open>pad rnd used n\<close> are the next \<open>n\<close> random words after \<open>used\<close> of them.\<close>

definition pad :: "(nat \<Rightarrow> int) \<Rightarrow> nat \<Rightarrow> nat \<Rightarrow> int list" where
  "pad rnd used n = map (\<lambda>i. rnd (used + i)) [0..<n]"

fun flatten_chunks :: "(nat \<Rightarrow> int) \<Rightarrow> mem_chunk list \<Rightarrow> nat \<Rightarrow> int list \<Rightarrow> (nat \<times> int list) result" where
  "flatten_chunks rnd [] used acc = Inr (used, acc)"
| "flatten_chunks rnd (c # chunks) used acc =
     require (length acc \<le> base_addr c)
       (let padding_len = base_addr c - length acc
        in flatten_chunks rnd chunks (used + padding_len) (acc @ pad rnd used padding_len @ chunk_words c))"

definition MemFile_flatten :: "(int \<Rightarrow> nat \<Rightarrow> int) \<Rightarrow> mem_file \<Rightarrow> nat \<Rightarrow> int \<Rightarrow> mem_file result" where
  "MemFile_flatten rnd f sz rnd_seed =
     require (MemFile_next_addr f \<le> sz)
       (bindR (flatten_chunks (rnd rnd_seed) (mf_chunks f) 0 []) (\<lambda>(used, acc).
        require (length acc = MemFile_next_addr f)
          (let ws = acc @ pad (rnd rnd_seed) used (sz - length acc)
           in require (length ws = sz)
                (Inr \<lparr>mf_width = mf_width f, mf_chunks = [\<lparr>base_addr = 0, chunk_words = ws\<rparr>]\<rparr>))))"

fun add_ecc32_chunks ::
    "(nat \<Rightarrow> fanin_code list \<Rightarrow> fanin_code list) \<Rightarrow> mem_chunk list \<Rightarrow> mem_chunk list result option" where
  "add_ecc32_chunks shuffle [] = Some (Inr [])"
| "add_ecc32_chunks shuffle (c # cs) =
     (case MemChunk_add_ecc32 shuffle c of
        None \<Rightarrow> None
      | Some (Inl e) \<Rightarrow> Some (Inl e)
      | Some (Inr c') \<Rightarrow>
          map_option (\<lambda>r. bindR r (\<lambda>cs'. Inr (c' # cs'))) (add_ecc32_chunks shuffle cs))"

definition MemFile_add_ecc32 ::
    "(nat \<Rightarrow> fanin_code list \<Rightarrow> fanin_code list) \<Rightarrow> mem_file \<Rightarrow> mem_file result option" where
  "MemFile_add_ecc32 shuffle f =
     (if mf_width f \<le> 32 then
        map_option (\<lambda>r. bindR r (\<lambda>cs. Inr (f\<lparr>mf_chunks := cs, mf_width := 39\<rparr>)))
          (add_ecc32_chunks shuffle (mf_chunks f))
      else Some (Inl AssertionError))"

section \<open>Printed numbers\<close>

definition is_hex :: "char \<Rightarrow> bool" where
  "is_hex c \<longleftrightarrow> base_digit 16 c \<noteq> None"

lemma is_hex_code:
  "is_hex c \<longleftrightarrow> 48 \<le> char_code c \<and> char_code c \<le> 57 \<or> 97 \<le> char_code c \<and> char_code c \<le> 102 \<or>
    65 \<le> char_code c \<and> char_code c \<le> 70"
  by (auto simp: is_hex_def base_digit_def Let_def split: if_splits)

lemma is_hex_not:
  assumes "is_hex c"
  shows "\<not> is_space c" "\<not> is_int_space c" "c \<noteq> CHR ''-''" "c \<noteq> CHR ''+''" "c \<noteq> CHR ''x''" "c \<noteq> CHR ''X''" "c \<noteq> CHR ''_''"
  using assms unfolding is_hex_code by (auto simp: is_space_def is_int_space_def Let_def char_code_def)

lemma char_code_upper:
  "char_code (to_upper c) = (if 97 \<le> char_code c \<and> char_code c \<le> 122 then char_code c - 32 else char_code c)"
  by (auto simp: to_upper_def Let_def char_code_def of_char_of)

lemma base_digit_upper: "base_digit 16 (to_upper c) = base_digit 16 c"
  by (auto simp: base_digit_def char_code_upper Let_def)

lemma upper_underscore: "is_hex c \<Longrightarrow> to_upper c \<noteq> CHR ''_'' \<and> c \<noteq> CHR ''_''"
  using is_hex_not(7) [of c] is_hex_not(7) [of "to_upper c"] by (simp add: is_hex_def base_digit_upper)

lemma int_digits_upper:
  "list_all is_hex s \<Longrightarrow> int_digits 16 acc ok (map to_upper s) = int_digits 16 acc ok s"
  by (induction s arbitrary: acc ok) (auto simp: upper_underscore base_digit_upper split: option.split)

lemma hex_of_nat_hex: "list_all is_hex (hex_of_nat n)"
proof (induction n rule: hex_of_nat.induct)
  case (1 n)
  have "is_hex (hex_char k)" if "k < 16" for k using base_digit_hex_char [OF that] by (simp add: is_hex_def)
  then show ?case using 1 by (subst hex_of_nat.simps) simp
qed

lemma fmt_X_hex:
  assumes "0 \<le> v"
  shows "list_all is_hex (fmt_X w v)" and "fmt_X w v \<noteq> []" and "int_digits 16 0 False (fmt_X w v) = Some v"
proof -
  have z: "is_hex (CHR ''0'')" by (simp add: is_hex_code char_code_def)
  have f: "list_all is_hex (fmt_x [] w v)"
    using assms hex_of_nat_hex z by (auto simp: fmt_x_def Let_def list_all_iff)
  then show "list_all is_hex (fmt_X w v)" by (simp add: fmt_X_def list_all_iff is_hex_def base_digit_upper)
  show "fmt_X w v \<noteq> []" using fmt_x_last by (simp add: fmt_X_def)
  have "int_digits 16 0 False (fmt_x [] w v @ []) = int_digits 16 (16 ^ length (fmt_x [] w v) * 0 + v) True []"
    using reads_hex_fmt [OF assms, of w] unfolding reads_hex_def by blast
  then show "int_digits 16 0 False (fmt_X w v) = Some v" by (simp add: fmt_X_def int_digits_upper [OF f])
qed

lemma py_int16_hex:
  assumes "list_all is_hex s" and "s \<noteq> []" and "int_digits 16 0 False s = Some v"
  shows "py_int16 s = Some v"
proof -
  have h: "is_hex c" if "c \<in> set s" for c using assms(1) that by (simp add: list_all_iff)
  have "dropWhile is_int_space s = s" "dropWhile is_int_space (rev s) = rev s"
    using assms(2) h is_hex_not(2) by (auto simp: dropWhile_eq_self_iff hd_rev)
  then have t: "rev (dropWhile is_int_space (rev (dropWhile is_int_space s))) = s" by simp
  obtain c r where s: "s = c # r" using assms(2) by (cases s) auto
  have "unsigned_hex s = Some v"
  proof (cases r)
    case (Cons p r')
    then have "p \<notin> {CHR ''x'', CHR ''X''}" using h [of p] is_hex_not(5,6) s by auto
    then show ?thesis using assms(3) s Cons by (simp add: unsigned_hex_def)
  qed (use assms(3) s in \<open>simp add: unsigned_hex_def\<close>)
  moreover have "c \<noteq> CHR ''-''" "c \<noteq> CHR ''+''" using h [of c] is_hex_not(3,4) s by auto
  ultimately show ?thesis unfolding py_int16_def Let_def t using s by simp
qed

lemma py_int16_fmt: "0 \<le> v \<Longrightarrow> py_int16 (fmt_X w v) = Some v"
  using fmt_X_hex py_int16_hex by blast

lemma addr_match_fmt: "0 \<le> v \<Longrightarrow> addr_match (CHR ''@'' # fmt_X w v) = Some (fmt_X w v)"
  using fmt_X_hex(1,2) by (simp add: addr_match_def is_hex_def [abs_def] list_all_iff)

section \<open>Printed lines\<close>

lemma py_words_from_token:
  "\<forall>c\<in>set t. \<not> is_space c \<Longrightarrow> py_words_from w (t @ r) = py_words_from (w @ t) r"
  by (induction t arbitrary: w) auto

lemma py_words_join:
  assumes "\<forall>t\<in>set ts. t \<noteq> [] \<and> (\<forall>c\<in>set t. \<not> is_space c)"
  shows "py_words (str_join '' '' ts @ newline) = ts"
proof -
  have sp: "is_space (CHR '' '')" "is_space (CHR 0x0A)" by (simp_all add: is_space_def char_code_def Let_def)
  have "py_words_from [] (str_join '' '' ts @ newline) = ts"
    using assms
  proof (induction ts)
    case (Cons t ts)
    show ?case
    proof (cases ts)
      case Nil
      then show ?thesis using Cons.prems sp by (simp add: py_words_from_token newline_def)
    next
      case (Cons t' ts')
      then have "str_join '' '' (t # ts) = t @ '' '' @ str_join '' '' ts" by simp
      then show ?thesis using Cons.prems Cons.IH sp by (simp add: py_words_from_token)
    qed
  qed (use sp in \<open>simp add: newline_def\<close>)
  then show ?thesis by (simp add: py_words_def)
qed

lemma parse_words_fmt:
  "list_all (fits w) ws \<Longrightarrow> parse_words w (map (fmt_X n) ws) = Inr ws"
  by (induction ws) (auto simp: py_int16_fmt fits_nonneg fits_iff_drop not_less)

lemma parse_printed_line:
  assumes "list_all (fits w) ws"
  shows "parse_line w (str_join '' '' ((CHR ''@'' # fmt_X n (int a)) # map (fmt_X m) ws) @ newline) = Inr (a, ws)"
proof -
  have h: "fmt_X k v \<noteq> [] \<and> (\<forall>c\<in>set (fmt_X k v). \<not> is_space c)" if "0 \<le> v" for k v
    using fmt_X_hex(1,2) [OF that, of k] is_hex_not(1) by (auto simp: list_all_iff)
  have "\<not> is_space (CHR ''@'')" by (simp add: is_space_def char_code_def Let_def)
  moreover have "0 \<le> v" if "v \<in> set ws" for v using assms that fits_nonneg by (auto simp: list_all_iff)
  ultimately have "py_words (str_join '' '' ((CHR ''@'' # fmt_X n (int a)) # map (fmt_X m) ws) @ newline) =
      (CHR ''@'' # fmt_X n (int a)) # map (fmt_X m) ws"
    using h [of "int a" n] by (intro py_words_join) (auto dest: h [THEN conjunct1] h [THEN conjunct2, THEN bspec])
  then show ?thesis using assms by (simp add: parse_line_def addr_match_fmt py_int16_fmt parse_words_fmt)
qed

lemma line_not_blank:
  "\<not> list_all is_space (str_join '' '' ((CHR ''@'' # s) # ts) @ newline)"
proof -
  have "\<not> is_space (CHR ''@'')" by (simp add: is_space_def char_code_def Let_def)
  then show ?thesis by (cases ts) simp_all
qed

lemma vmem_lines_Cons:
  assumes "ws \<noteq> []" and "0 < n"
  shows "vmem_lines n ac wc a ws =
    (str_join '' '' ((CHR ''@'' # fmt_X ac (int a)) # map (fmt_X wc) (take n ws)) @ newline) #
    vmem_lines n ac wc (a + n) (drop n ws)"
  using assms by (subst vmem_lines.simps) simp

lemma vmem_lines_Nil [simp]: "vmem_lines n ac wc a [] = []"
  by (simp add: vmem_lines.simps)

definition printed_line :: "nat \<Rightarrow> nat \<Rightarrow> nat \<Rightarrow> int list \<Rightarrow> string" where
  "printed_line ac wc a ws = str_join '' '' ((CHR ''@'' # fmt_X ac (int a)) # map (fmt_X wc) ws) @ newline"

lemma printed_line_facts:
  "\<not> list_all is_space (printed_line ac wc a ws)"
  "list_all (fits w) ws \<Longrightarrow> parse_line w (printed_line ac wc a ws) = Inr (a, ws)"
  unfolding printed_line_def using line_not_blank parse_printed_line by blast+

declare load_lines.simps(2) [simp del]

lemma load_printed_line:
  assumes "list_all (fits w) ws" and "ws \<noteq> []"
  shows "load_lines w (printed_line ac wc a ws # lines) chunks nc =
    (case nc of
       None \<Rightarrow> load_lines w lines chunks (Some \<lparr>base_addr = a, chunk_words = ws\<rparr>)
     | Some c \<Rightarrow>
         if a < MemChunk_next_addr c then Inl ValueError
         else if a = MemChunk_next_addr c then load_lines w lines chunks (Some (c\<lparr>chunk_words := chunk_words c @ ws\<rparr>))
         else load_lines w lines (chunks @ [c]) (Some \<lparr>base_addr = a, chunk_words = ws\<rparr>))"
  using printed_line_facts(1) [of ac wc a ws] printed_line_facts(2) [OF assms(1), of ac wc a] assms(2)
  by (cases nc) (simp_all add: load_lines.simps(2) Let_def)

lemma vmem_lines_printed:
  "ws \<noteq> [] \<Longrightarrow> 0 < n \<Longrightarrow>
    vmem_lines n ac wc a ws = printed_line ac wc a (take n ws) # vmem_lines n ac wc (a + n) (drop n ws)"
  by (simp add: vmem_lines_Cons printed_line_def)

lemma load_lines_glue:
  assumes "0 < n" and "list_all (fits w) ws" and "MemChunk_next_addr c = a"
  shows "load_lines w (vmem_lines n ac wc a ws @ rest) chunks (Some c) =
    load_lines w rest chunks (Some (c\<lparr>chunk_words := chunk_words c @ ws\<rparr>))"
  using assms(2,3)
proof (induction ws arbitrary: a c rule: length_induct)
  case (1 ws)
  show ?case
  proof (cases "ws = []")
    case False
    let ?c = "c\<lparr>chunk_words := chunk_words c @ take n ws\<rparr>"
    have f: "list_all (fits w) (take n ws)" "list_all (fits w) (drop n ws)"
      using "1.prems"(1) by (auto simp: list_all_iff dest: in_set_takeD in_set_dropD)
    have "load_lines w (vmem_lines n ac wc a ws @ rest) chunks (Some c) =
        load_lines w (vmem_lines n ac wc (a + n) (drop n ws) @ rest) chunks (Some ?c)"
      using False assms(1) f(1) "1.prems"(2) by (simp add: vmem_lines_printed load_printed_line)
    also have "\<dots> = load_lines w rest chunks (Some (c\<lparr>chunk_words := chunk_words c @ ws\<rparr>))"
    proof (cases "n < length ws")
      case True
      then have "MemChunk_next_addr ?c = a + n" using "1.prems"(2) by (simp add: MemChunk_next_addr_def)
      moreover have "length (drop n ws) < length ws" using assms(1) False by simp
      ultimately show ?thesis using "1.IH" [rule_format, of "drop n ws" ?c "a + n"] f(2) by simp
    qed simp
    finally show ?thesis .
  qed simp
qed

lemma load_lines_chunk:
  assumes "0 < n" and "list_all (fits w) ws" and "ws \<noteq> []" and "\<forall>c. nc = Some c \<longrightarrow> MemChunk_next_addr c < a"
  shows "load_lines w (vmem_lines n ac wc a ws @ rest) chunks nc =
    load_lines w rest (chunks @ (case nc of None \<Rightarrow> [] | Some c \<Rightarrow> [c])) (Some \<lparr>base_addr = a, chunk_words = ws\<rparr>)"
proof -
  let ?c = "\<lparr>base_addr = a, chunk_words = take n ws\<rparr>" and ?done = "chunks @ (case nc of None \<Rightarrow> [] | Some c \<Rightarrow> [c])"
  have f: "list_all (fits w) (take n ws)" "list_all (fits w) (drop n ws)"
    using assms(2) by (auto simp: list_all_iff dest: in_set_takeD in_set_dropD)
  have "load_lines w (vmem_lines n ac wc a ws @ rest) chunks nc =
      load_lines w (vmem_lines n ac wc (a + n) (drop n ws) @ rest) ?done (Some ?c)"
    using assms(1,3,4) f(1) by (auto simp: vmem_lines_printed load_printed_line split: option.split)
  also have "\<dots> = load_lines w rest ?done (Some \<lparr>base_addr = a, chunk_words = ws\<rparr>)"
  proof (cases "n < length ws")
    case True
    then have "MemChunk_next_addr ?c = a + n" by (simp add: MemChunk_next_addr_def)
    from load_lines_glue [OF assms(1) f(2) this] show ?thesis by simp
  qed simp
  finally show ?thesis .
qed

text \<open>Chunks in order, not empty and not touching each other, whose words fit the width.\<close>

definition file_ok :: "mem_file \<Rightarrow> bool" where
  "file_ok f \<longleftrightarrow> (\<forall>c\<in>set (mf_chunks f). chunk_words c \<noteq> [] \<and> list_all (fits (mf_width f)) (chunk_words c)) \<and>
     sorted_wrt (\<lambda>c c'. MemChunk_next_addr c < base_addr c') (mf_chunks f)"

lemma load_lines_file:
  assumes "\<forall>c\<in>set cs. chunk_words c \<noteq> [] \<and> list_all (fits w) (chunk_words c)"
    and "sorted_wrt (\<lambda>c c'. MemChunk_next_addr c < base_addr c') ((case nc of None \<Rightarrow> [] | Some c \<Rightarrow> [c]) @ cs)"
  shows "load_lines w (concat (map (MemChunk_write_vmem w) cs)) chunks nc =
    Inr (chunks @ (case nc of None \<Rightarrow> [] | Some c \<Rightarrow> [c]) @ cs)"
  using assms
proof (induction cs arbitrary: chunks nc)
  case (Cons c cs)
  let ?done = "chunks @ (case nc of None \<Rightarrow> [] | Some c \<Rightarrow> [c])"
  have sep: "\<forall>c'. nc = Some c' \<longrightarrow> MemChunk_next_addr c' < base_addr c" using Cons.prems(2) by auto
  have "load_lines w (concat (map (MemChunk_write_vmem w) (c # cs))) chunks nc =
      load_lines w (concat (map (MemChunk_write_vmem w) cs)) ?done (Some c)"
    using load_lines_chunk [OF _ _ _ sep] Cons.prems(1) by (cases c) (simp add: MemChunk_write_vmem_def Let_def)
  also have "\<dots> = Inr (?done @ [c] @ cs)"
    using Cons.IH [of "Some c" ?done] Cons.prems by (auto split: option.splits)
  finally show ?case by simp
qed simp

lemma load_written:
  assumes "file_ok f"
  shows "load_preproc (mf_width f) (MemFile_write_vmem f) = Inr f"
  using load_lines_file [of "mf_chunks f" "mf_width f" None "[]"] assms
  by (simp add: load_preproc_def MemFile_write_vmem_def file_ok_def)

text \<open>
  C30: VMEM files round-trip.  Reading the lines that \<^verbatim>\<open>write_vmem\<close> writes for an image whose chunks are in
  order, separate and not empty, and whose words fit the width, gives the image back, whatever the
  width and the line wrapping.
\<close>

theorem vmem_round_trip:
  assumes "file_ok f"
  shows "load_preproc (mf_width f) (MemFile_write_vmem f) = Inr f"
  using load_written [OF assms] .

lemma vmem_round_trip_witness:
  "load_preproc 39 (MemFile_write_vmem \<lparr>mf_width = 39, mf_chunks =
      [\<lparr>base_addr = 1, chunk_words = [5, 2 ^ 39 - 1]\<rparr>, \<lparr>base_addr = 9, chunk_words = [0]\<rparr>]\<rparr>) =
    Inr \<lparr>mf_width = 39, mf_chunks =
      [\<lparr>base_addr = 1, chunk_words = [5, 2 ^ 39 - 1]\<rparr>, \<lparr>base_addr = 9, chunk_words = [0]\<rparr>]\<rparr>"
proof -
  let ?f = "\<lparr>mf_width = 39, mf_chunks =
      [\<lparr>base_addr = 1, chunk_words = [5, 2 ^ 39 - 1]\<rparr>, \<lparr>base_addr = 9, chunk_words = [0]\<rparr>]\<rparr>"
  have "file_ok ?f" by (simp add: file_ok_def fits_iff MemChunk_next_addr_def)
  from vmem_round_trip [OF this] show ?thesis by simp
qed

section \<open>Flattening\<close>

text \<open>The word of an image at an address.\<close>

definition word_at :: "mem_chunk list \<Rightarrow> nat \<Rightarrow> int option" where
  "word_at cs a =
     (case find (\<lambda>c. base_addr c \<le> a \<and> a < MemChunk_next_addr c) cs of
        None \<Rightarrow> None
      | Some c \<Rightarrow> Some (chunk_words c ! (a - base_addr c)))"

definition chunks_sorted :: "nat \<Rightarrow> mem_chunk list \<Rightarrow> bool" where
  "chunks_sorted lo cs \<longleftrightarrow> (\<forall>c\<in>set cs. lo \<le> base_addr c) \<and> sorted_wrt (\<lambda>c c'. MemChunk_next_addr c \<le> base_addr c') cs"

lemma chunks_sorted_Cons:
  "chunks_sorted lo (c # cs) \<longleftrightarrow> lo \<le> base_addr c \<and> chunks_sorted (MemChunk_next_addr c) cs"
  by (auto simp: chunks_sorted_def MemChunk_next_addr_def dest: order_trans [of lo "base_addr c"]
      intro: order_trans [OF le_add1])

lemma returns_pairE:
  assumes "returns m (\<lambda>(x, y). Q x y)"
  obtains x y where "m = Inr (x, y)" and "Q x y"
  using assms by (cases m) auto

lemma flatten_chunks_eq:
  assumes "chunks_sorted (length acc) cs"
  shows "returns (flatten_chunks rnd cs used acc) (\<lambda>(used', ws).
    length ws = (if cs = [] then length acc else MemChunk_next_addr (last cs)) \<and> take (length acc) ws = acc \<and>
    (\<forall>a v. word_at cs a = Some v \<longrightarrow> a < length ws \<and> ws ! a = v) \<and>
    (\<forall>a. length acc \<le> a \<and> a < length ws \<and> word_at cs a = None \<longrightarrow> ws ! a \<in> range rnd))"
  using assms
proof (induction cs arbitrary: used acc)
  case Nil
  then show ?case by (auto simp: word_at_def)
next
  case (Cons c cs)
  let ?n = "base_addr c - length acc"
  let ?acc = "acc @ pad rnd used ?n @ chunk_words c"
  have lo: "length acc \<le> base_addr c" and srt: "chunks_sorted (MemChunk_next_addr c) cs"
    using Cons.prems by (simp_all add: chunks_sorted_Cons)
  have len: "length ?acc = MemChunk_next_addr c" using lo by (simp add: pad_def MemChunk_next_addr_def)
  obtain used' ws where ws: "flatten_chunks rnd cs (used + ?n) ?acc = Inr (used', ws)"
    "length ws = (if cs = [] then length ?acc else MemChunk_next_addr (last cs))" "take (length ?acc) ws = ?acc"
    "\<forall>a v. word_at cs a = Some v \<longrightarrow> a < length ws \<and> ws ! a = v"
    "\<forall>a. length ?acc \<le> a \<and> a < length ws \<and> word_at cs a = None \<longrightarrow> ws ! a \<in> range rnd"
    using Cons.IH [of ?acc "used + ?n", unfolded len, OF srt] unfolding len by (rule returns_pairE) blast
  have at: "ws ! a = ?acc ! a" "a < length ws" if "a < length ?acc" for a
    using ws(3) that by (metis nth_take, metis length_take min_less_iff_conj)
  have w: "word_at (c # cs) a = (if base_addr c \<le> a \<and> a < MemChunk_next_addr c
      then Some (chunk_words c ! (a - base_addr c)) else word_at cs a)" for a
    by (simp add: word_at_def)
  have pre: "take (length acc) ws = acc"
    using ws(3) by (metis append_eq_conv_conj take_append take_take min.absorb1 le_add1 length_append)
  have hit: "a < length ws \<and> ws ! a = v" if "word_at (c # cs) a = Some v" for a v
  proof (cases "base_addr c \<le> a \<and> a < MemChunk_next_addr c")
    case True
    moreover from this have "\<not> a < length acc" "\<not> a - length acc < ?n"
      "a - length acc - ?n = a - base_addr c" using lo by auto
    ultimately have "?acc ! a = chunk_words c ! (a - base_addr c)" by (simp add: nth_append pad_def)
    then show ?thesis using at [of a] True that w len by auto
  qed (use that w ws(4) in auto)
  have miss: "ws ! a \<in> range rnd" if "length acc \<le> a" "a < length ws" "word_at (c # cs) a = None" for a
  proof (cases "a < MemChunk_next_addr c")
    case True
    then have "a < base_addr c" using that(3) w [of a] by (auto split: if_splits)
    moreover from this have "\<not> a < length acc" "a - length acc < ?n" using that(1) by auto
    ultimately have "?acc ! a = rnd (used + (a - length acc))" by (simp add: nth_append pad_def)
    then show ?thesis using at [of a] True len by auto
  next
    case False
    then show ?thesis using ws(5) that w len by auto
  qed
  have "length ws = MemChunk_next_addr (last (c # cs))" using ws(2) len by simp
  then show ?case using ws(1) lo pre hit miss by (simp add: Let_def)
qed

lemma flatten_chunks_unsorted:
  "\<not> chunks_sorted (length acc) cs \<Longrightarrow> flatten_chunks rnd cs used acc = Inl AssertionError"
proof (induction cs arbitrary: used acc)
  case (Cons c cs)
  show ?case
  proof (cases "length acc \<le> base_addr c")
    case True
    then have "length (acc @ pad rnd used (base_addr c - length acc) @ chunk_words c) = MemChunk_next_addr c"
      by (simp add: pad_def MemChunk_next_addr_def)
    then show ?thesis
      using True Cons.prems Cons.IH [of "acc @ pad rnd used (base_addr c - length acc) @ chunk_words c"]
      by (simp add: chunks_sorted_Cons Let_def)
  qed simp
qed (simp add: chunks_sorted_def)

lemma flatten_returns:
  assumes "chunks_sorted 0 (mf_chunks f)" and "MemFile_next_addr f \<le> sz"
  shows "returns (MemFile_flatten rnd f sz seed) (\<lambda>g. \<exists>ws. g = f\<lparr>mf_chunks := [\<lparr>base_addr = 0, chunk_words = ws\<rparr>]\<rparr> \<and>
     length ws = sz \<and>
     (\<forall>a < sz. case word_at (mf_chunks f) a of Some v \<Rightarrow> ws ! a = v | None \<Rightarrow> ws ! a \<in> range (rnd seed)))"
proof -
  obtain used ws where ws: "flatten_chunks (rnd seed) (mf_chunks f) 0 [] = Inr (used, ws)"
    "length ws = MemFile_next_addr f"
    "\<forall>a v. word_at (mf_chunks f) a = Some v \<longrightarrow> a < length ws \<and> ws ! a = v"
    "\<forall>a. a < length ws \<and> word_at (mf_chunks f) a = None \<longrightarrow> ws ! a \<in> range (rnd seed)"
  proof -
    have "returns (flatten_chunks (rnd seed) (mf_chunks f) 0 []) (\<lambda>(used, ws). length ws = MemFile_next_addr f \<and>
      (\<forall>a v. word_at (mf_chunks f) a = Some v \<longrightarrow> a < length ws \<and> ws ! a = v) \<and>
      (\<forall>a. a < length ws \<and> word_at (mf_chunks f) a = None \<longrightarrow> ws ! a \<in> range (rnd seed)))"
      by (rule returns_mono [OF flatten_chunks_eq]) (use assms in \<open>auto simp: MemFile_next_addr_def\<close>)
    then show thesis by (rule returns_pairE) (use that in blast)
  qed
  let ?pad = "pad (rnd seed) used (sz - length ws)"
  have "length ?pad = sz - length ws" by (simp add: pad_def)
  moreover have "?pad ! i \<in> range (rnd seed)" if "i < sz - length ws" for i using that by (simp add: pad_def)
  ultimately have "\<forall>a < sz. case word_at (mf_chunks f) a of
      Some v \<Rightarrow> (ws @ ?pad) ! a = v | None \<Rightarrow> (ws @ ?pad) ! a \<in> range (rnd seed)"
    using ws(3,4) by (auto simp: nth_append split: option.split)
  moreover have "f\<lparr>mf_chunks := cs\<rparr> = \<lparr>mf_width = mf_width f, mf_chunks = cs\<rparr>" for cs by (cases f) simp
  moreover have "length (ws @ ?pad) = sz" using assms ws(2) \<open>length ?pad = sz - length ws\<close> by simp
  moreover have "MemFile_flatten rnd f sz seed =
      Inr \<lparr>mf_width = mf_width f, mf_chunks = [\<lparr>base_addr = 0, chunk_words = ws @ ?pad\<rparr>]\<rparr>"
    using assms ws(1,2) \<open>length (ws @ ?pad) = sz\<close> by (simp add: MemFile_flatten_def Let_def)
  ultimately show "returns (MemFile_flatten rnd f sz seed) (\<lambda>g. \<exists>ws.
      g = f\<lparr>mf_chunks := [\<lparr>base_addr = 0, chunk_words = ws\<rparr>]\<rparr> \<and> length ws = sz \<and>
      (\<forall>a < sz. case word_at (mf_chunks f) a of Some v \<Rightarrow> ws ! a = v | None \<Rightarrow> ws ! a \<in> range (rnd seed)))"
    unfolding \<open>MemFile_flatten rnd f sz seed = _\<close> returns_simps by (intro exI [of _ "ws @ ?pad"]) simp
qed

text \<open>
  Flattening.  If the chunks are in order and end within the size, the result is one chunk at
  address zero of exactly the size: every word of the image is at its address, and every other
  word is one of the seeded random words; otherwise \<^verbatim>\<open>flatten\<close> fails an assertion.
\<close>

theorem flatten_exact:
  "if chunks_sorted 0 (mf_chunks f) \<and> MemFile_next_addr f \<le> sz
   then returns (MemFile_flatten rnd f sz seed) (\<lambda>g. \<exists>ws. g = f\<lparr>mf_chunks := [\<lparr>base_addr = 0, chunk_words = ws\<rparr>]\<rparr> \<and>
     length ws = sz \<and>
     (\<forall>a < sz. case word_at (mf_chunks f) a of Some v \<Rightarrow> ws ! a = v | None \<Rightarrow> ws ! a \<in> range (rnd seed)))
   else MemFile_flatten rnd f sz seed = Inl AssertionError"
proof (cases "chunks_sorted 0 (mf_chunks f) \<and> MemFile_next_addr f \<le> sz")
  case True
  then show ?thesis using flatten_returns [of f sz rnd seed] by presburger
next
  case False
  then show ?thesis using flatten_chunks_unsorted [of "[]" "mf_chunks f" "rnd seed" 0]
    by (auto simp: MemFile_flatten_def require_def)
qed

lemma flatten_exact_witness:
  "returns (MemFile_flatten (\<lambda>s n. int n) \<lparr>mf_width = 32, mf_chunks = [\<lparr>base_addr = 1, chunk_words = [7, 8]\<rparr>]\<rparr> 4 2)
    (\<lambda>g. \<exists>ws. mf_chunks g = [\<lparr>base_addr = 0, chunk_words = ws\<rparr>] \<and> length ws = 4 \<and> ws ! 2 = 8) \<and>
   MemFile_flatten (\<lambda>s n. int n) \<lparr>mf_width = 32, mf_chunks = [\<lparr>base_addr = 1, chunk_words = [7, 8]\<rparr>]\<rparr> 2 2 =
     Inl AssertionError"
proof -
  let ?f = "\<lparr>mf_width = 32, mf_chunks = [\<lparr>base_addr = 1, chunk_words = [7, 8]\<rparr>]\<rparr>" and ?r = "\<lambda>s n. int n"
  have ok: "chunks_sorted 0 (mf_chunks ?f)" "MemFile_next_addr ?f = 3" "word_at (mf_chunks ?f) 2 = Some 8"
    by (simp_all add: chunks_sorted_def MemFile_next_addr_def MemChunk_next_addr_def word_at_def)
  have c: "chunks_sorted 0 (mf_chunks ?f) \<and> MemFile_next_addr ?f \<le> 4" using ok by simp
  note flat = flatten_exact [of ?f 4 ?r 2, unfolded if_P [OF c]]
  have "MemFile_flatten ?r ?f 2 2 = Inl AssertionError"
    using flatten_exact [of ?f 2 ?r 2] ok by simp
  moreover have "returns (MemFile_flatten ?r ?f 4 2)
      (\<lambda>g. \<exists>ws. mf_chunks g = [\<lparr>base_addr = 0, chunk_words = ws\<rparr>] \<and> length ws = 4 \<and> ws ! 2 = 8)"
    using flat
  proof (rule returns_mono)
    fix g
    assume "\<exists>ws. g = ?f\<lparr>mf_chunks := [\<lparr>base_addr = 0, chunk_words = ws\<rparr>]\<rparr> \<and> length ws = 4 \<and>
      (\<forall>a < 4. case word_at (mf_chunks ?f) a of Some v \<Rightarrow> ws ! a = v | None \<Rightarrow> ws ! a \<in> range (?r 2))"
    then obtain ws where ws: "g = ?f\<lparr>mf_chunks := [\<lparr>base_addr = 0, chunk_words = ws\<rparr>]\<rparr>" "length ws = 4"
      "\<forall>a < 4. case word_at (mf_chunks ?f) a of Some v \<Rightarrow> ws ! a = v | None \<Rightarrow> ws ! a \<in> range (?r 2)" by blast
    have "ws ! 2 = 8" using spec [OF ws(3), of 2] ok(3) by simp
    then show "\<exists>ws. mf_chunks g = [\<lparr>base_addr = 0, chunk_words = ws\<rparr>] \<and> length ws = 4 \<and> ws ! 2 = 8"
      using ws(1,2) by simp
  qed
  ultimately show ?thesis by simp
qed

section \<open>Integrity bits\<close>

lemma red_xor_split: "red_xor (a + n) x = (red_xor a x \<noteq> red_xor n (drop_bit a x))"
  by (induction n) (auto simp: bit_drop_bit_eq add.commute)

lemma red_xor_fold:
  "red_xor (n + n) x = red_xor n ((x AND low_mask n) XOR drop_bit n x)"
proof -
  have "red_xor n (x AND low_mask n) = red_xor n x" by (rule red_xor_cong) (simp add: bit_and_iff)
  then show ?thesis by (simp add: red_xor_split red_xor_xor)
qed

lemma fits_fold: "fits (n + n) x \<Longrightarrow> fits n ((x AND low_mask n) XOR drop_bit n x)"
  unfolding fits_bits by (auto simp: bit_xor_iff bit_and_iff bit_drop_bit_eq)

lemma red_xor32_eq:
  assumes "fits 32 x"
  shows "red_xor32 x = of_bool (red_xor 32 x)"
proof -
  define a where "a = (x AND low_mask 16) XOR drop_bit 16 x"
  define b where "b = (a AND low_mask 8) XOR drop_bit 8 a"
  define c where "c = (b AND low_mask 4) XOR drop_bit 4 b"
  define d where "d = (c AND low_mask 2) XOR drop_bit 2 c"
  define e where "e = (d AND low_mask 1) XOR drop_bit 1 d"
  have "fits 16 a" "red_xor 32 x = red_xor 16 a"
    using fits_fold [of 16 x] red_xor_fold [of 16 x] assms by (simp_all add: a_def)
  moreover from this have "fits 8 b" "red_xor 16 a = red_xor 8 b"
    using fits_fold [of 8 a] red_xor_fold [of 8 a] by (simp_all add: b_def)
  moreover from this have "fits 4 c" "red_xor 8 b = red_xor 4 c"
    using fits_fold [of 4 b] red_xor_fold [of 4 b] by (simp_all add: c_def)
  moreover from this have "fits 2 d" "red_xor 4 c = red_xor 2 d"
    using fits_fold [of 2 c] red_xor_fold [of 2 c] by (simp_all add: d_def)
  moreover from this have "fits 1 e" "red_xor 2 d = red_xor 1 e"
    using fits_fold [of 1 d] red_xor_fold [of 1 d] by (simp_all add: e_def numeral_2_eq_2)
  moreover from this have "e = 0 \<or> e = 1" by (auto simp: fits_iff)
  moreover have "red_xor32 x = e"
    by (simp add: red_xor32_def e_def d_def c_def b_def a_def low_mask_eq Let_def)
  ultimately show ?thesis by auto
qed

lemma bit_check_bits:
  "bit (foldl (\<lambda>ret (idx, m). ret OR push_bit (32 + idx) (of_bool (P m))) w (enumerate s ms)) b \<longleftrightarrow>
    bit (w :: int) b \<or> (32 + s \<le> b \<and> b < 32 + s + length ms \<and> P (ms ! (b - 32 - s)))"
proof (induction ms arbitrary: w s)
  case (Cons m ms)
  show ?case
  proof (cases "b = 32 + s")
    case False
    then have "32 + s \<le> b \<longleftrightarrow> 32 + Suc s \<le> b" by auto
    moreover have "(m # ms) ! (b - 32 - s) = ms ! (b - 32 - Suc s)" if "32 + Suc s \<le> b"
      using that by (simp add: nth_Cons')
    ultimately show ?thesis using Cons.IH False by (auto simp: bit_simps)
  qed (use Cons.IH in \<open>simp add: bit_simps\<close>)
qed auto

text \<open>Check bit \<open>j\<close> is the parity of the whole word, turned around when the parity of the mask is odd.\<close>

lemma add_ecc32_eq:
  assumes "fits 32 w" and "length ms = 7" and "list_all (fits 32) ms"
  shows "returns (add_ecc32 w ms) (\<lambda>r. \<forall>b. bit r b \<longleftrightarrow>
    bit w b \<or> (32 \<le> b \<and> b < 39 \<and> red_xor 32 w \<noteq> red_xor 32 (ms ! (b - 32))))"
proof -
  have "red_xor32 (w XOR m) = of_bool (red_xor 32 w \<noteq> red_xor 32 m)" if "m \<in> set ms" for m
  proof -
    have "fits 32 (w XOR m)" using assms(1,3) that unfolding fits_bits list_all_iff by (auto simp: bit_xor_iff)
    then show ?thesis by (simp add: red_xor32_eq red_xor_xor)
  qed
  then have "foldl (\<lambda>ret (idx, m). ret OR push_bit (32 + idx) (red_xor32 (w XOR m))) w (enumerate 0 ms) =
    foldl (\<lambda>ret (idx, m). ret OR push_bit (32 + idx) (of_bool (red_xor 32 w \<noteq> red_xor 32 m))) w (enumerate 0 ms)"
    by (intro foldl_cong) (auto simp: in_set_enumerate_eq)
  moreover have "0 \<le> w \<and> w < push_bit 32 1" using assms(1) by (simp add: fits_iff push_bit_eq_mult)
  ultimately show ?thesis
    using assms(2) bit_check_bits [of "\<lambda>m. red_xor 32 w \<noteq> red_xor 32 m" w 0 ms] by (simp add: add_ecc32_def)
qed

text \<open>
  C31: the integrity bits of the ROM image tool do not protect the data.  \<^verbatim>\<open>add_ecc32\<close> combines word and
  mask with an exclusive or where the generated encoders use a conjunction, so every check bit is the
  parity of the whole word, up to a constant: a word with two flipped data bits has the very same check
  bits, whatever the masks are.
\<close>

theorem add_ecc32_double_error:
  assumes "fits 32 w" and "length ms = 7" and "list_all (fits 32) ms" and "i < 32" and "j < 32" and "i \<noteq> j"
  shows "returns (add_ecc32 w ms) (\<lambda>r. add_ecc32 (w XOR 2 ^ i XOR 2 ^ j) ms = Inr (r XOR 2 ^ i XOR 2 ^ j))"
proof -
  let ?w = "w XOR 2 ^ i XOR 2 ^ j"
  have "fits 32 ?w" using assms(1,4,5) unfolding fits_bits by (auto simp: bit_simps)
  from add_ecc32_eq [OF this assms(2,3)] obtain r' where r': "add_ecc32 ?w ms = Inr r'"
    "\<forall>b. bit r' b \<longleftrightarrow> bit ?w b \<or> (32 \<le> b \<and> b < 39 \<and> red_xor 32 ?w \<noteq> red_xor 32 (ms ! (b - 32)))" by (rule returnsE)
  from add_ecc32_eq [OF assms(1-3)] obtain r where r: "add_ecc32 w ms = Inr r"
    "\<forall>b. bit r b \<longleftrightarrow> bit w b \<or> (32 \<le> b \<and> b < 39 \<and> red_xor 32 w \<noteq> red_xor 32 (ms ! (b - 32)))" by (rule returnsE)
  have par: "red_xor 32 ?w = red_xor 32 w" using assms(4,5) by (simp add: red_xor_xor red_xor_exp)
  have "r' = r XOR 2 ^ i XOR 2 ^ j"
  proof (rule bit_eqI)
    fix b
    have "bit r' b \<longleftrightarrow> bit ?w b \<or> (32 \<le> b \<and> b < 39 \<and> red_xor 32 w \<noteq> red_xor 32 (ms ! (b - 32)))"
      using r'(2) par by simp
    then show "bit r' b = bit (r XOR 2 ^ i XOR 2 ^ j) b"
      using r(2) assms(4,5) by (cases "b < 32") (auto simp: bit_simps)
  qed
  then show ?thesis using r(1) r'(1) by simp
qed

lemma add_ecc32_double_error_witness:
  "add_ecc32 (16 XOR 2 ^ 3 XOR 2 ^ 7) [1, 2, 4, 8, 16, 32, 64] = Inr (16 XOR 2 ^ 3 XOR 2 ^ 7)"
proof -
  have r: "add_ecc32 16 [1, 2, 4, 8, 16, 32, 64] = Inr 16"
    by (simp add: add_ecc32_def red_xor32_def Let_def)
  show ?thesis
    using add_ecc32_double_error [of 16 "[1, 2, 4, 8, 16, 32, 64]" 3 7] unfolding r
    by (simp add: fits_iff)
qed

end
