(* ===== verification/Mem_Elf.thy ===== *)
theory Mem_Elf
  imports Mem_File
begin

text \<open>
  \<^verbatim>\<open>MemFile.load_elf32\<close> of \<^verbatim>\<open>hw/ip/rom_ctrl/util/mem.py\<close>: reading the loadable segments of an ELF file into
  32-bit words.  The segments are those the ELF parser yields.  The passes are the ones of the
  code: collect and check, sort, check for overlaps, merge neighbours, pack bytes into words.
\<close>

section \<open>Operations\<close>

type_synonym load_segment = "int \<times> int \<times> 8 word list"

fun load_segments :: "int \<Rightarrow> elf_segment list \<Rightarrow> load_segment list result" where
  "load_segments base [] = Inr []"
| "load_segments base (segment # segments) =
     (if p_type segment \<noteq> ''PT_LOAD'' \<or> p_memsz segment = 0 then load_segments base segments
      else
        let seg_lma = p_paddr segment - base;
            seg_top = seg_lma + p_memsz segment - 1
        in require (seg_lma \<le> seg_top)
             (if seg_lma < 0 then Inl ValueError
              else bindR (load_segments base segments) (\<lambda>ls. Inr ((seg_lma, seg_top, seg_bytes segment) # ls))))"

fun check_overlap :: "int \<Rightarrow> load_segment list \<Rightarrow> unit result" where
  "check_overlap next_addr [] = Inr ()"
| "check_overlap next_addr ((lma, seg_top, bs) # segments) =
     (if lma < next_addr then Inl ValueError else check_overlap (seg_top + 1) segments)"

fun merge_segments :: "int \<Rightarrow> load_segment list \<Rightarrow> load_segment list \<Rightarrow> load_segment list result" where
  "merge_segments next_word merged [] = Inr merged"
| "merge_segments next_word merged ((lma, seg_top, bs) # segments) =
     (let lma_word = lma div 4
      in require (next_word \<le> lma_word)
           (bindR
             (if merged \<noteq> [] \<and> next_word = lma_word then
                case last merged of
                  (last_lma_word, last_top, last_data) \<Rightarrow>
                    if last_top < lma then
                      require (lma - (last_top + 1) \<le> 6)
                        (Inr (butlast merged @ [(last_lma_word, seg_top,
                           (last_data @ replicate (nat (lma - (last_top + 1))) 0) @ bs)]))
                    else Inr (butlast merged @ [(last_lma_word, seg_top, last_data @ bs)])
              else if py_bool (lma mod 4) then
                Inr (merged @ [(lma_word, seg_top, replicate (nat (lma mod 4)) 0 @ bs)])
              else Inr (merged @ [(lma_word, seg_top, bs)]))
             (\<lambda>merged. merge_segments (1 + seg_top div 4) merged segments)))"

text \<open>
  The inner loop over the bytes: the words so far, the word in progress, and the variable \<^verbatim>\<open>idx\<close>, which
  keeps its value of the previous segment when there is no byte and is unbound at first.
\<close>

fun pack_bytes :: "nat \<Rightarrow> 8 word list \<Rightarrow> int list \<Rightarrow> int \<Rightarrow> nat option \<Rightarrow> int list \<times> int \<times> nat option" where
  "pack_bytes n [] ws word idx = (ws, word, idx)"
| "pack_bytes n (b # bs) ws word idx =
     (let shift = 8 * (n mod 4);
          word = word OR push_bit shift (uint b)
      in if n mod 4 = 3 then pack_bytes (Suc n) bs (ws @ [word]) 0 (Some n)
         else pack_bytes (Suc n) bs ws word (Some n))"

fun pack_segments :: "nat option \<Rightarrow> load_segment list \<Rightarrow> mem_chunk list result" where
  "pack_segments idx [] = Inr []"
| "pack_segments idx ((lma_word, seg_top, bs) # merged) =
     (case pack_bytes 0 bs [] 0 idx of
        (ws, word, None) \<Rightarrow> Inl UnboundLocalError
      | (ws, word, Some n) \<Rightarrow>
          let ws = (if n mod 4 \<noteq> 3 then ws @ [word] else ws)
          in bindR (pack_segments (Some n) merged) (\<lambda>cs.
               Inr (\<lparr>base_addr = nat lma_word, chunk_words = ws\<rparr> # cs)))"

definition load_elf32 :: "elf_segment list \<Rightarrow> int \<Rightarrow> mem_file result" where
  "load_elf32 segments base =
     bindR (load_segments base segments) (\<lambda>ls.
     let ls = sort_key fst ls in
     bindR (check_overlap 0 ls) (\<lambda>_.
     bindR (merge_segments 0 [] ls) (\<lambda>merged.
     bindR (pack_segments None merged) (\<lambda>chunks.
     Inr \<lparr>mf_width = 32, mf_chunks = chunks\<rparr>))))"

section \<open>Packing\<close>

definition le_word :: "8 word list \<Rightarrow> int" where
  "le_word bs = le_val 8 (map uint bs)"

lemma uint_bytes: "list_all (fits 8) (map uint (bs :: 8 word list))"
  using uint_lt2p [of "_ :: 8 word"] by (auto simp: list_all_iff fits_iff)

lemma le_word_fits: "fits (8 * length bs) (le_word bs)"
  using le_val_fits [OF uint_bytes, of bs] by (simp add: le_word_def)

lemma le_word_snoc: "le_word (bs @ [b]) = le_word bs OR push_bit (8 * length bs) (uint b)"
proof -
  have "le_word (bs @ [b]) = le_word bs + push_bit (8 * length bs) (uint b)"
    by (induction bs) (simp_all add: le_word_def push_bit_eq_mult power_add algebra_simps)
  then show ?thesis using or_push_bit_add [OF le_word_fits [of bs]] by (metis or.commute add.commute)
qed

lemma le_word_byte:
  "take_bit 8 (drop_bit (8 * j) (le_word bs)) = (if j < length bs then uint (bs ! j) else 0)"
proof (cases "j < length bs")
  case True
  then show ?thesis
    using le_split_nth [of j "length bs" 8 "le_word bs"] le_split_le_val [OF uint_bytes, of bs]
    by (simp add: le_word_def)
next
  case False
  then have "fits (8 * j) (le_word bs)" using le_word_fits [of bs] unfolding fits_bits by (meson less_le_trans mult_le_mono2 not_less)
  then show ?thesis using False by (simp add: fits_iff drop_bit_eq_div)
qed

text \<open>The words of a byte string, the last one filled up with zeros.\<close>

definition full_words :: "8 word list \<Rightarrow> int list" where
  "full_words bs = map (\<lambda>j. le_word (take 4 (drop (4 * j) bs))) [0..<length bs div 4]"

definition words_of :: "8 word list \<Rightarrow> int list" where
  "words_of bs = map (\<lambda>j. le_word (take 4 (drop (4 * j) bs))) [0..<(length bs + 3) div 4]"

lemma full_words_snoc:
  "full_words (bs @ [b]) =
    (if length bs mod 4 = 3 then full_words bs @ [le_word (drop (4 * (length bs div 4)) bs @ [b])] else full_words bs)"
proof -
  let ?n = "length bs"
  have old: "take 4 (drop (4 * j) (bs @ [b])) = take 4 (drop (4 * j) bs)" if "j < ?n div 4" for j
    using that by simp
  show ?thesis
  proof (cases "?n mod 4 = 3")
    case True
    moreover from this have "Suc ?n div 4 = Suc (?n div 4)" by presburger
    moreover have "?n - 4 * (?n div 4) = 3" using True by (simp add: minus_mult_div_eq_mod)
    ultimately show ?thesis using old by (simp add: full_words_def)
  next
    case False
    then have "Suc ?n div 4 = ?n div 4" by presburger
    then show ?thesis using False old by (simp add: full_words_def)
  qed
qed

lemma words_of_full:
  "words_of bs = (if length bs mod 4 = 0 then full_words bs else full_words bs @ [le_word (drop (4 * (length bs div 4)) bs)])"
proof (cases "length bs mod 4 = 0")
  case False
  then have "(length bs + 3) div 4 = Suc (length bs div 4)" by presburger
  moreover have "length bs - 4 * (length bs div 4) \<le> 4"
    using mod_less_divisor [of 4 "length bs"] unfolding minus_mult_div_eq_mod by simp
  ultimately show ?thesis using False by (simp add: words_of_def full_words_def)
next
  case True
  then have "(length bs + 3) div 4 = length bs div 4" by presburger
  then show ?thesis using True by (simp add: words_of_def full_words_def)
qed

lemma pack_bytes_eq:
  assumes "n = length p" and "ws = full_words p" and "word = le_word (drop (4 * (length p div 4)) p)"
  shows "pack_bytes n bs ws word idx =
    (full_words (p @ bs), le_word (drop (4 * (length (p @ bs) div 4)) (p @ bs)),
     if bs = [] then idx else Some (length (p @ bs) - 1))"
  using assms
proof (induction bs arbitrary: n p ws word idx)
  case (Cons b bs)
  let ?r = "drop (4 * (length p div 4)) p"
  have "length ?r = length p mod 4" by (simp add: minus_mult_div_eq_mod)
  then have w: "word OR push_bit (8 * (n mod 4)) (uint b) = le_word (?r @ [b])"
    using Cons.prems(1,3) by (simp add: le_word_snoc)
  show ?case
  proof (cases "n mod 4 = 3")
    case True
    then have "4 * (Suc (length p) div 4) = Suc (length p)" using Cons.prems(1) by presburger
    then have "le_word (drop (4 * (length (p @ [b]) div 4)) (p @ [b])) = 0" by (simp add: le_word_def)
    then show ?thesis
      using True w Cons.prems(1,2) Cons.IH [of "Suc n" "p @ [b]" "ws @ [le_word (?r @ [b])]" 0 "Some n"]
      by (simp add: full_words_snoc)
  next
    case False
    then have "Suc (length p) div 4 = length p div 4" using Cons.prems(1) by presburger
    then have "drop (4 * (length (p @ [b]) div 4)) (p @ [b]) = ?r @ [b]" by simp
    then show ?thesis
      using False w Cons.prems(1,2) Cons.IH [of "Suc n" "p @ [b]" ws "le_word (?r @ [b])" "Some n"]
      by (simp add: full_words_snoc)
  qed
qed simp

lemma pack_segments_eq:
  assumes "\<forall>(lw, tp, bs)\<in>set ms. bs \<noteq> []"
  shows "pack_segments idx ms = Inr (map (\<lambda>(lw, tp, bs). \<lparr>base_addr = nat lw, chunk_words = words_of bs\<rparr>) ms)"
  using assms
proof (induction ms arbitrary: idx)
  case (Cons m ms)
  obtain lw tp bs where m: "m = (lw, tp, bs)" by (cases m)
  then have "bs \<noteq> []" using Cons.prems by simp
  then obtain k where k: "length bs = Suc k" by (cases bs) auto
  have "(length bs - 1) mod 4 \<noteq> 3 \<longleftrightarrow> length bs mod 4 \<noteq> 0" unfolding k by simp presburger
  then show ?case using Cons.IH Cons.prems m \<open>bs \<noteq> []\<close>
    by (simp add: pack_bytes_eq [of 0 "[]"] full_words_def [of "[]"] le_word_def [of "[]"] words_of_full)
qed simp

section \<open>Merging\<close>

text \<open>\<open>slice_at n d bs\<close>: the bytes \<open>bs\<close> stand in \<open>d\<close> from position \<open>n\<close> on.\<close>

definition slice_at :: "nat \<Rightarrow> 'a list \<Rightarrow> 'a list \<Rightarrow> bool" where
  "slice_at n d bs \<longleftrightarrow> n + length bs \<le> length d \<and> (\<forall>k<length bs. d ! (n + k) = bs ! k)"

lemma slice_at_append: "slice_at n d bs \<Longrightarrow> slice_at n (d @ r) bs"
  by (auto simp: slice_at_def nth_append)

lemma slice_at_end: "n = length d \<Longrightarrow> slice_at n (d @ bs) bs"
  by (simp add: slice_at_def)

definition covers :: "load_segment \<Rightarrow> int \<Rightarrow> bool" where
  "covers = (\<lambda>(lma, seg_top, bs) a. lma \<le> a \<and> a \<le> seg_top)"

definition seg_ok :: "load_segment \<Rightarrow> bool" where
  "seg_ok = (\<lambda>(lma, seg_top, bs). 0 \<le> lma \<and> bs \<noteq> [] \<and> int (length bs) = seg_top + 1 - lma)"

definition before_word :: "load_segment \<Rightarrow> load_segment \<Rightarrow> bool" where
  "before_word = (\<lambda>(lma, seg_top, bs) (lma', seg_top', bs'). seg_top div 4 < lma' div 4)"

definition apart :: "load_segment \<Rightarrow> load_segment \<Rightarrow> bool" where
  "apart = (\<lambda>(lw, tp, d) (lw', tp', d'). tp div 4 + 1 < lw')"

text \<open>What the merged segments are, when the segments \<open>xs\<close> have been processed.\<close>

definition merge_inv :: "load_segment list \<Rightarrow> load_segment list \<Rightarrow> int \<Rightarrow> bool" where
  "merge_inv prev ms next_word \<longleftrightarrow>
     (\<forall>(lw, tp, d)\<in>set ms. seg_ok (4 * lw, tp, d)) \<and>
     sorted_wrt apart ms \<and>
     next_word = (if ms = [] then 0 else 1 + fst (snd (last ms)) div 4) \<and>
     (\<forall>(lma, seg_top, bs)\<in>set prev. \<exists>(lw, tp, d)\<in>set ms. 4 * lw \<le> lma \<and> slice_at (nat (lma - 4 * lw)) d bs) \<and>
     (\<forall>(lw, tp, d)\<in>set ms. \<forall>i<length d. (\<forall>s\<in>set prev. \<not> covers s (4 * lw + int i)) \<longrightarrow> d ! i = 0) \<and>
     (\<forall>m\<in>set ms. \<exists>s\<in>set prev. fst (snd m) = fst (snd s))"

lemma merge_invD:
  assumes "merge_inv prev ms nw"
  shows merge_inv_ok: "(lw, tp, d) \<in> set ms \<Longrightarrow> seg_ok (4 * lw, tp, d)"
    and merge_inv_slice: "(l, t, b) \<in> set prev \<Longrightarrow> \<exists>(lw, tp, d)\<in>set ms. 4 * lw \<le> l \<and> slice_at (nat (l - 4 * lw)) d b"
    and merge_inv_zero: "(lw, tp, d) \<in> set ms \<Longrightarrow> i < length d \<Longrightarrow> \<forall>s\<in>set prev. \<not> covers s (4 * lw + int i) \<Longrightarrow> d ! i = 0"
    and merge_inv_end: "m \<in> set ms \<Longrightarrow> \<exists>s\<in>set prev. fst (snd m) = fst (snd s)"
  using assms by (auto simp: merge_inv_def)

lemma merge_new:
  assumes "merge_inv prev ms nw" and s: "seg_ok (lma, seg_top, bs)" and "\<forall>s\<in>set prev. seg_ok s"
    and gap: "ms = [] \<or> nw < lma div 4"
  shows "merge_inv (prev @ [(lma, seg_top, bs)]) (ms @ [(lma div 4, seg_top, replicate (nat (lma mod 4)) 0 @ bs)])
    (1 + seg_top div 4)"
proof -
  let ?s = "(lma, seg_top, bs)" and ?d = "replicate (nat (lma mod 4)) 0 @ bs"
  have pos: "0 \<le> lma" "int (length bs) = seg_top + 1 - lma" "bs \<noteq> []" using s by (simp_all add: seg_ok_def)
  have m4: "lma mod 4 = lma - 4 * (lma div 4)" "4 * (lma div 4) \<le> lma"
    using pos_mod_sign [of 4 lma] by (simp_all add: minus_mult_div_eq_mod [symmetric])
  have ok: "seg_ok (4 * (lma div 4), seg_top, ?d)" using pos m4 by (simp add: seg_ok_def)
  have srt: "tp div 4 + 1 < lma div 4" if mem: "(lw, tp, d) \<in> set ms" for lw tp d
  proof -
    obtain ms' lw' tp' d' where ms: "ms = ms' @ [(lw', tp', d')]" using mem by (cases ms rule: rev_cases) auto
    have "1 + tp' div 4 < lma div 4" using assms(1) gap ms by (simp add: merge_inv_def)
    moreover have "seg_ok (4 * lw', tp', d')" using assms(1) ms by (auto simp: merge_inv_def)
    then have "lw' \<le> tp' div 4" by (cases d') (auto simp: seg_ok_def)
    moreover have "(lw, tp, d) \<in> set ms' \<Longrightarrow> tp div 4 + 1 < lw'"
      using assms(1) ms by (fastforce simp: merge_inv_def apart_def sorted_wrt_append)
    ultimately show ?thesis using mem ms by auto
  qed
  have sl: "slice_at (nat (lma - 4 * (lma div 4))) ?d bs" by (rule slice_at_end) (simp add: m4)
  have zero: "?d ! i = 0" if "i < length ?d" "\<not> covers ?s (4 * (lma div 4) + int i)" for i
  proof -
    have "i < nat (lma mod 4)" using that pos m4 by (auto simp: covers_def)
    then show ?thesis by (simp add: nth_append)
  qed
  show ?thesis
    unfolding merge_inv_def
  proof (intro conjI)
    show "\<forall>(l, t, b)\<in>set (prev @ [?s]). \<exists>(lw, tp, d)\<in>set (ms @ [(lma div 4, seg_top, ?d)]).
        4 * lw \<le> l \<and> slice_at (nat (l - 4 * lw)) d b"
      using merge_inv_slice [OF assms(1)] sl m4(2) by fastforce
    show "\<forall>(lw, tp, d)\<in>set (ms @ [(lma div 4, seg_top, ?d)]). \<forall>i<length d.
        (\<forall>s\<in>set (prev @ [?s]). \<not> covers s (4 * lw + int i)) \<longrightarrow> d ! i = 0"
      using merge_inv_zero [OF assms(1)] zero by fastforce
  qed (use assms(1) ok srt in \<open>auto simp: merge_inv_def apart_def sorted_wrt_append\<close>)
qed

lemma merge_bridge:
  assumes "merge_inv prev (ms @ [(lw, tp, d)]) nw" and s: "seg_ok (lma, seg_top, bs)" and "nw = lma div 4"
  shows "merge_inv (prev @ [(lma, seg_top, bs)])
      (ms @ [(lw, seg_top, (d @ replicate (nat (lma - (tp + 1))) 0) @ bs)]) (1 + seg_top div 4)"
    and "tp < lma" and "lma - (tp + 1) \<le> 6"
proof -
  let ?s = "(lma, seg_top, bs)" and ?z = "replicate (nat (lma - (tp + 1))) (0 :: 8 word)"
  let ?d = "(d @ ?z) @ bs"
  have pos: "0 \<le> lma" "int (length bs) = seg_top + 1 - lma" "bs \<noteq> []" using s by (simp_all add: seg_ok_def)
  have old: "0 \<le> 4 * lw" "d \<noteq> []" "int (length d) = tp + 1 - 4 * lw" and nw: "lma div 4 = 1 + tp div 4"
    using assms(1,3) by (auto simp: merge_inv_def seg_ok_def)
  show less: "tp < lma" and "lma - (tp + 1) \<le> 6" using nw by presburger+
  have ok: "seg_ok (4 * lw, seg_top, ?d)" using pos old less by (simp add: seg_ok_def)
  have len: "length (d @ ?z) = nat (lma - 4 * lw)" "4 * lw \<le> lma" using old less by (cases d; simp)+
  have sl: "slice_at (nat (lma - 4 * lw)) ?d bs" by (rule slice_at_end) (simp only: len(1))
  have keep: "slice_at n d x \<Longrightarrow> slice_at n ?d x" for n x by (simp only: append_assoc slice_at_append)
  have zero: "?d ! i = 0" if i: "i < length ?d" and nc: "\<forall>s\<in>set (prev @ [?s]). \<not> covers s (4 * lw + int i)" for i
  proof -
    have "i < length (d @ ?z)" using i nc pos len by (auto simp: covers_def)
    moreover have "d ! i = 0" if "i < length d" using assms(1) nc that by (auto simp: merge_inv_def)
    ultimately show ?thesis by (cases "i < length d") (auto simp: nth_append)
  qed
  show "merge_inv (prev @ [?s]) (ms @ [(lw, seg_top, ?d)]) (1 + seg_top div 4)"
    unfolding merge_inv_def
  proof (intro conjI)
    show "\<forall>(l, t, b)\<in>set (prev @ [?s]). \<exists>(lw, tp, d)\<in>set (ms @ [(lw, seg_top, ?d)]).
        4 * lw \<le> l \<and> slice_at (nat (l - 4 * lw)) d b"
      using merge_inv_slice [OF assms(1)] sl len(2) keep by fastforce
    show "\<forall>(lw, tp, d)\<in>set (ms @ [(lw, seg_top, ?d)]). \<forall>i<length d.
        (\<forall>s\<in>set (prev @ [?s]). \<not> covers s (4 * lw + int i)) \<longrightarrow> d ! i = 0"
      using merge_inv_zero [OF assms(1)] zero by fastforce
  qed (use assms(1) ok in \<open>auto simp: merge_inv_def apart_def sorted_wrt_append\<close>)
qed

lemma merge_step:
  assumes "merge_inv prev ms nw" and "seg_ok (lma, seg_top, bs)" and "\<forall>s\<in>set prev. seg_ok s" and "nw \<le> lma div 4"
  obtains ms' where "merge_inv (prev @ [(lma, seg_top, bs)]) ms' (1 + seg_top div 4)"
    and "merge_segments nw ms ((lma, seg_top, bs) # segs) = merge_segments (1 + seg_top div 4) ms' segs"
proof (cases "ms \<noteq> [] \<and> nw = lma div 4")
  case True
  then obtain ms' lw tp d where ms: "ms = ms' @ [(lw, tp, d)]" by (cases ms rule: rev_cases) auto
  show ?thesis
    using merge_bridge [OF assms(1) [unfolded ms] assms(2)] True ms
    by (intro that) (simp_all add: Let_def)
next
  case False
  then have "ms = [] \<or> nw < lma div 4" using assms(4) by auto
  from merge_new [OF assms(1-3) this] show ?thesis
    using False assms(4) by (intro that) (auto simp: Let_def py_bool_def)
qed

lemma merge_segments_eq:
  assumes "merge_inv prev ms nw" and "\<forall>s\<in>set (prev @ segs). seg_ok s" and "sorted_wrt before_word segs"
    and "\<forall>s\<in>set segs. nw \<le> fst s div 4"
  shows "returns (merge_segments nw ms segs) (\<lambda>ms'. \<exists>nw'. merge_inv (prev @ segs) ms' nw')"
  using assms
proof (induction segs arbitrary: prev ms nw)
  case (Cons s segs)
  obtain lma seg_top bs where s: "s = (lma, seg_top, bs)" by (cases s)
  obtain ms' where ms': "merge_inv (prev @ [s]) ms' (1 + seg_top div 4)"
    "merge_segments nw ms (s # segs) = merge_segments (1 + seg_top div 4) ms' segs"
    using merge_step [of prev ms nw lma seg_top bs segs] Cons.prems unfolding s by auto
  have "\<forall>s'\<in>set segs. 1 + seg_top div 4 \<le> fst s' div 4"
    using Cons.prems(3) s by (fastforce simp: before_word_def)
  then show ?case
    using Cons.IH [OF ms'(1)] ms'(2) Cons.prems(2,3) by simp
qed auto

lemma check_overlap_eq:
  "sorted_wrt before_word segs \<Longrightarrow> \<forall>s\<in>set segs. seg_ok s \<and> n \<le> fst s \<Longrightarrow> check_overlap n segs = Inr ()"
proof (induction segs arbitrary: n)
  case (Cons s segs)
  obtain lma seg_top bs where s: "s = (lma, seg_top, bs)" by (cases s)
  have "seg_top + 1 \<le> fst s'" if "s' \<in> set segs" for s'
  proof -
    have "seg_top div 4 < fst s' div 4" using Cons.prems(1) s that by (cases s') (auto simp: before_word_def)
    then show ?thesis by presburger
  qed
  then show ?case using Cons s by auto
qed simp

section \<open>The image\<close>

definition loadable :: "elf_segment \<Rightarrow> bool" where
  "loadable s \<longleftrightarrow> p_type s = ''PT_LOAD'' \<and> p_memsz s \<noteq> 0"

definition load_segment_of :: "int \<Rightarrow> elf_segment \<Rightarrow> load_segment" where
  "load_segment_of base s = (p_paddr s - base, p_paddr s - base + p_memsz s - 1, seg_bytes s)"

text \<open>
  The files the loader accepts: the loadable segments are in the file with their full size, start at
  the base address or above, and, in the order of their addresses, end in a word before the one in
  which the next one starts.
\<close>

definition elf_ok :: "int \<Rightarrow> elf_segment list \<Rightarrow> bool" where
  "elf_ok base segments \<longleftrightarrow>
     (\<forall>s\<in>set segments. loadable s \<longrightarrow> base \<le> p_paddr s \<and> int (length (seg_bytes s)) = p_memsz s) \<and>
     sorted_wrt before_word (sort_key fst (map (load_segment_of base) (filter loadable segments)))"

text \<open>The byte of an image at a byte address.\<close>

definition mem_byte :: "mem_file \<Rightarrow> nat \<Rightarrow> int option" where
  "mem_byte f a = map_option (\<lambda>w. take_bit 8 (drop_bit (8 * (a mod 4)) w)) (word_at (mf_chunks f) (a div 4))"

lemma load_segments_eq:
  "\<forall>s\<in>set segments. loadable s \<longrightarrow> base \<le> p_paddr s \<and> int (length (seg_bytes s)) = p_memsz s \<Longrightarrow>
    load_segments base segments = Inr (map (load_segment_of base) (filter loadable segments))"
proof (induction segments)
  case (Cons s segments)
  have "0 < p_memsz s" if "loadable s"
    using that Cons.prems by (simp add: loadable_def)
  then show ?case
    using Cons by (auto simp: loadable_def load_segment_of_def Let_def)
qed simp

lemma words_of_length: "length (words_of bs) = (length bs + 3) div 4"
  by (simp add: words_of_def)

lemma words_of_byte:
  assumes "i < 4 * length (words_of bs)"
  shows "take_bit 8 (drop_bit (8 * (i mod 4)) (words_of bs ! (i div 4))) = (if i < length bs then uint (bs ! i) else 0)"
proof -
  have "i div 4 < (length bs + 3) div 4" using assms by (simp add: words_of_length)
  moreover have "i mod 4 < length (take 4 (drop (4 * (i div 4)) bs)) \<longleftrightarrow> i < length bs"
    by (simp add: less_diff_conv)
  moreover have "take 4 (drop (4 * (i div 4)) bs) ! (i mod 4) = bs ! i" if "i < length bs" using that by simp
  ultimately show ?thesis by (simp add: words_of_def le_word_byte del: length_take length_drop)
qed

lemma words_of_fits: "list_all (fits 32) (words_of bs)"
proof -
  have "fits 32 (le_word (take 4 x))" for x
    using le_word_fits [of "take 4 x"] unfolding fits_bits by (auto simp: less_le_trans)
  then show ?thesis by (simp add: words_of_def list_all_iff)
qed

definition chunk_of :: "load_segment \<Rightarrow> mem_chunk" where
  "chunk_of = (\<lambda>(lw, tp, bs). \<lparr>base_addr = nat lw, chunk_words = words_of bs\<rparr>)"

lemma chunk_of_next:
  assumes "seg_ok (4 * lw, tp, d)"
  shows "int (MemChunk_next_addr (chunk_of (lw, tp, d))) = tp div 4 + 1" and "chunk_words (chunk_of (lw, tp, d)) \<noteq> []"
proof -
  have d: "0 \<le> lw" "d \<noteq> []" "int (length d) = tp + 1 - 4 * lw" using assms by (simp_all add: seg_ok_def)
  have "int (length (words_of d)) = (tp + 1 - 4 * lw + 3) div 4" using d(3) by (simp add: words_of_length zdiv_int)
  also have "\<dots> = tp div 4 + 1 - lw" by presburger
  finally show "int (MemChunk_next_addr (chunk_of (lw, tp, d))) = tp div 4 + 1"
    using d(1) by (simp add: MemChunk_next_addr_def chunk_of_def)
  have "0 < (length d + 3) div 4" using d(2) by (cases d) simp_all
  then show "chunk_words (chunk_of (lw, tp, d)) \<noteq> []"
    using words_of_length [of d] by (auto simp: chunk_of_def)
qed

lemma merged_file_ok:
  assumes "merge_inv segs ms nw"
  shows "file_ok \<lparr>mf_width = 32, mf_chunks = map chunk_of ms\<rparr>"
proof -
  note ok = merge_inv_ok [OF assms]
  have sep: "MemChunk_next_addr (chunk_of m) < base_addr (chunk_of m')"
    if mem: "m \<in> set ms" "m' \<in> set ms" and less: "apart m m'" for m m'
  proof -
    obtain lw tp d lw' tp' d' where m: "m = (lw, tp, d)" "m' = (lw', tp', d')" by (cases m, cases m')
    then have "int (MemChunk_next_addr (chunk_of m)) < lw'" using chunk_of_next(1) [OF ok] mem less by (simp add: apart_def)
    then show ?thesis using m by (simp add: chunk_of_def)
  qed
  have "sorted_wrt (\<lambda>m m'. MemChunk_next_addr (chunk_of m) < base_addr (chunk_of m')) ms"
    by (rule sorted_wrt_mono_rel [OF sep]) (use assms in \<open>auto simp: merge_inv_def\<close>)
  moreover have "chunk_words (chunk_of m) \<noteq> [] \<and> list_all (fits 32) (chunk_words (chunk_of m))" if "m \<in> set ms" for m
    using chunk_of_next(2) [OF ok] that words_of_fits by (cases m) (auto simp: chunk_of_def)
  ultimately show ?thesis by (simp add: file_ok_def sorted_wrt_map)
qed

lemma word_at_chunk:
  assumes "sorted_wrt (\<lambda>c c'. MemChunk_next_addr c < base_addr c') cs" and "c \<in> set cs"
    and "base_addr c \<le> a" and "a < MemChunk_next_addr c"
  shows "word_at cs a = Some (chunk_words c ! (a - base_addr c))"
  using assms
proof (induction cs)
  case (Cons c' cs)
  show ?case
  proof (cases "c = c'")
    case False
    then have "MemChunk_next_addr c' < base_addr c" "c \<in> set cs" using Cons.prems(1,2) by auto
    then have "\<not> (base_addr c' \<le> a \<and> a < MemChunk_next_addr c')" "word_at cs a = Some (chunk_words c ! (a - base_addr c))"
      using Cons by auto
    then show ?thesis by (auto simp: word_at_def)
  qed (use Cons.prems in \<open>simp add: word_at_def\<close>)
qed simp

lemma merged_byte:
  assumes "merge_inv segs ms nw" and "(lw, tp, d) \<in> set ms" and "4 * lw \<le> int a" and "int a < 4 * (tp div 4 + 1)"
  shows "mem_byte \<lparr>mf_width = 32, mf_chunks = map chunk_of ms\<rparr> a =
    Some (if a - nat (4 * lw) < length d then uint (d ! (a - nat (4 * lw))) else 0)"
proof -
  let ?c = "chunk_of (lw, tp, d)" and ?i = "a - nat (4 * lw)"
  note ok = merge_inv_ok [OF assms(1,2)]
  then have lw: "0 \<le> lw" by (simp add: seg_ok_def)
  define i where "i = ?i"
  have "a = 4 * nat lw + i" using lw assms(3) by (auto simp: i_def)
  then have "a div 4 = nat lw + i div 4" "a mod 4 = i mod 4" by simp_all
  note a = this [unfolded i_def]
  have next_addr: "MemChunk_next_addr ?c = nat lw + length (words_of d)" by (simp add: MemChunk_next_addr_def chunk_of_def)
  have "int (a div 4) < tp div 4 + 1" using assms(4) by (simp add: zdiv_int)
  then have less: "a div 4 < MemChunk_next_addr ?c" using chunk_of_next(1) [OF ok] by simp
  then have "?i < 4 * length (words_of d)" unfolding next_addr a(1) by simp
  note byte = words_of_byte [OF this]
  have "word_at (map chunk_of ms) (a div 4) = Some (chunk_words ?c ! (a div 4 - base_addr ?c))"
  proof (rule word_at_chunk)
    show "?c \<in> set (map chunk_of ms)" using assms(2) by (auto intro: image_eqI)
    show "base_addr ?c \<le> a div 4" using a(1) by (simp add: chunk_of_def)
  qed (use merged_file_ok [OF assms(1)] less in \<open>auto simp: file_ok_def\<close>)
  then show ?thesis using byte a by (simp add: mem_byte_def chunk_of_def)
qed

lemma merged_next:
  assumes "merge_inv segs ms nw" and "c \<in> set (map chunk_of ms)"
  obtains s where "s \<in> set segs" and "int (MemChunk_next_addr c) = fst (snd s) div 4 + 1"
proof -
  obtain lw tp d where m: "(lw, tp, d) \<in> set ms" "c = chunk_of (lw, tp, d)" using assms(2) by auto
  then obtain s where "s \<in> set segs" "tp = fst (snd s)" using merge_inv_end [OF assms(1) m(1)] by auto
  then show ?thesis using that chunk_of_next(1) [OF merge_inv_ok [OF assms(1) m(1)]] m(2) by simp
qed

lemma merged_zero:
  assumes "merge_inv segs ms nw" and "\<forall>s\<in>set segs. \<not> covers s (int a)"
  shows "mem_byte \<lparr>mf_width = 32, mf_chunks = map chunk_of ms\<rparr> a \<in> {None, Some 0}"
proof (cases "word_at (map chunk_of ms) (a div 4)")
  case (Some w)
  then obtain lw tp d where m: "(lw, tp, d) \<in> set ms" "base_addr (chunk_of (lw, tp, d)) \<le> a div 4"
      "a div 4 < MemChunk_next_addr (chunk_of (lw, tp, d))"
    by (auto simp: word_at_def find_Some_iff in_set_conv_nth split: option.splits) (metis prod_cases3)
  have lw: "0 \<le> lw" using merge_inv_ok [OF assms(1) m(1)] by (simp add: seg_ok_def)
  have "int (a div 4) < tp div 4 + 1" using m(3) chunk_of_next(1) [OF merge_inv_ok [OF assms(1) m(1)]] by simp
  then have hi: "int a < 4 * (tp div 4 + 1)" by (simp add: zdiv_int)
  have lo: "4 * lw \<le> int a" using m(2) lw by (simp add: chunk_of_def)
  have "d ! (a - nat (4 * lw)) = 0" if "a - nat (4 * lw) < length d"
  proof -
    have "4 * lw + int (a - nat (4 * lw)) = int a" using lo lw by auto
    then show ?thesis using merge_inv_zero [OF assms(1) m(1) that] assms(2) by simp
  qed
  then show ?thesis using merged_byte [OF assms(1) m(1) lo hi] by simp
qed (simp add: mem_byte_def)

definition seg_end :: "int \<Rightarrow> elf_segment \<Rightarrow> int" where
  "seg_end base s = p_paddr s - base + p_memsz s"

text \<open>What the loader makes of a file: the image that holds the segments and nothing else.\<close>

definition elf_image :: "int \<Rightarrow> elf_segment list \<Rightarrow> mem_file \<Rightarrow> bool" where
  "elf_image base segments f \<longleftrightarrow> file_ok f \<and> mf_width f = 32 \<and>
    (\<forall>s\<in>set segments. loadable s \<longrightarrow> (\<forall>k<length (seg_bytes s).
       mem_byte f (nat (p_paddr s - base) + k) = Some (uint (seg_bytes s ! k)))) \<and>
    (\<forall>a. (\<forall>s\<in>set segments. loadable s \<longrightarrow> \<not> covers (load_segment_of base s) (int a)) \<longrightarrow>
       mem_byte f a \<in> {None, Some 0}) \<and>
    (\<forall>c\<in>set (mf_chunks f). \<exists>s\<in>set segments. loadable s \<and>
       int (MemChunk_next_addr c) = (seg_end base s - 1) div 4 + 1)"

lemma load_elf32_image:
  assumes "elf_ok base segments"
  shows "returns (load_elf32 segments base) (elf_image base segments)"
proof -
  let ?ls = "sort_key fst (map (load_segment_of base) (filter loadable segments))"
  have src: "\<forall>s\<in>set segments. loadable s \<longrightarrow> base \<le> p_paddr s \<and> int (length (seg_bytes s)) = p_memsz s"
    and srt: "sorted_wrt before_word ?ls" using assms by (simp_all add: elf_ok_def)
  have ok: "\<forall>s\<in>set ?ls. seg_ok s" using src by (auto simp: seg_ok_def load_segment_of_def loadable_def)
  then have pos: "\<forall>s\<in>set ?ls. 0 \<le> fst s" by (auto simp: seg_ok_def)
  have "returns (merge_segments 0 [] ?ls) (\<lambda>ms. \<exists>nw. merge_inv ([] @ ?ls) ms nw)"
    by (rule merge_segments_eq) (use ok srt pos in \<open>auto simp: merge_inv_def\<close>)
  then obtain ms nw where ms: "merge_segments 0 [] ?ls = Inr ms" and inv': "merge_inv ?ls ms nw"
    by (auto elim!: returnsE)
  let ?f = "\<lparr>mf_width = 32, mf_chunks = map chunk_of ms\<rparr>"
  have "pack_segments None ms = Inr (map chunk_of ms)"
    unfolding chunk_of_def by (rule pack_segments_eq) (use merge_inv_ok [OF inv'] in \<open>auto simp: seg_ok_def\<close>)
  then have load: "load_elf32 segments base = Inr ?f"
    using load_segments_eq [OF src] check_overlap_eq [OF srt, of 0] ok pos ms by (simp add: load_elf32_def Let_def)
  have data: "mem_byte ?f (nat (p_paddr s - base) + k) = Some (uint (seg_bytes s ! k))"
    if s: "s \<in> set segments" "loadable s" and k: "k < length (seg_bytes s)" for s k
  proof -
    let ?lma = "p_paddr s - base"
    have "load_segment_of base s \<in> set ?ls" using s by simp
    then have "(?lma, ?lma + p_memsz s - 1, seg_bytes s) \<in> set ?ls" unfolding load_segment_of_def [of base s] .
    from merge_inv_slice [OF inv' this] obtain lw tp d where m: "(lw, tp, d) \<in> set ms" "4 * lw \<le> ?lma" "slice_at (nat (?lma - 4 * lw)) d (seg_bytes s)"
      by blast
    have d: "0 \<le> lw" "int (length d) = tp + 1 - 4 * lw"
      using merge_inv_ok [OF inv' m(1)] by (simp_all add: seg_ok_def)
    have pos: "nat (?lma - 4 * lw) + k < length d" "d ! (nat (?lma - 4 * lw) + k) = seg_bytes s ! k"
      using m(3) k by (auto simp: slice_at_def)
    have i: "nat ?lma + k - nat (4 * lw) = nat (?lma - 4 * lw) + k" using m(2) d(1) by auto
    have "int (nat ?lma + k) \<le> tp" using pos(1) m(2) d by auto
    moreover have "tp < 4 * (tp div 4 + 1)" by presburger
    ultimately have "int (nat ?lma + k) < 4 * (tp div 4 + 1)" by linarith
    with merged_byte [OF inv' m(1)] show ?thesis using m(2) d(1) pos i by simp
  qed
  have rest: "mem_byte ?f a \<in> {None, Some 0}"
    if nc: "\<forall>s\<in>set segments. loadable s \<longrightarrow> \<not> covers (load_segment_of base s) (int a)" for a
    using merged_zero [OF inv', of a] nc by simp
  have ends: "\<exists>s\<in>set segments. loadable s \<and> int (MemChunk_next_addr c) = (seg_end base s - 1) div 4 + 1"
    if c: "c \<in> set (map chunk_of ms)" for c
  proof -
    obtain s where "s \<in> set ?ls" "int (MemChunk_next_addr c) = fst (snd s) div 4 + 1"
      using merged_next [OF inv' c] .
    then show ?thesis by (auto simp: load_segment_of_def seg_end_def)
  qed
  show ?thesis unfolding load returns_simps elf_image_def using data rest ends merged_file_ok [OF inv'] by simp
qed

text \<open>Every other outcome for complete segments: which check fails, and how.\<close>

definition before_byte :: "load_segment \<Rightarrow> load_segment \<Rightarrow> bool" where
  "before_byte = (\<lambda>(lma, seg_top, bs) (lma', seg_top', bs'). seg_top < lma')"

definition elf_complete :: "elf_segment list \<Rightarrow> bool" where
  "elf_complete segments \<longleftrightarrow> (\<forall>s\<in>set segments. loadable s \<longrightarrow> int (length (seg_bytes s)) = p_memsz s)"

lemma load_segments_below:
  assumes "elf_complete segments" and "\<exists>s\<in>set segments. loadable s \<and> p_paddr s < base"
  shows "load_segments base segments = Inl ValueError"
  using assms
proof (induction segments)
  case (Cons s segments)
  have "0 < p_memsz s" if "loadable s" using that Cons.prems(1) by (simp add: elf_complete_def loadable_def)
  moreover have "load_segments base segments = Inl ValueError" if "\<not> (loadable s \<and> p_paddr s < base)"
    using that Cons by (auto simp: elf_complete_def)
  ultimately show ?case by (auto simp: loadable_def Let_def)
qed simp

lemma check_overlap_iff:
  assumes "\<forall>(lma, seg_top, bs)\<in>set ls. lma \<le> seg_top"
  shows "check_overlap a ls = (if (\<forall>s\<in>set ls. a \<le> fst s) \<and> sorted_wrt before_byte ls then Inr () else Inl ValueError)"
  using assms
proof (induction ls arbitrary: a)
  case (Cons s ls)
  obtain lma seg_top bs where s: "s = (lma, seg_top, bs)" by (cases s)
  have "lma \<le> seg_top" using Cons.prems s by simp
  moreover have "(\<forall>t\<in>set ls. seg_top + 1 \<le> fst t) \<longleftrightarrow> (\<forall>t\<in>set ls. before_byte s t)"
    by (auto simp: before_byte_def s)
  ultimately show ?case using Cons by (auto simp: s)
qed simp

lemma merge_segments_error: "merge_segments nw ms ls = Inl e \<Longrightarrow> e = AssertionError"
  by (induction nw ms ls rule: merge_segments.induct)
    (auto simp: Let_def require_def split: if_splits prod.splits)

lemma merge_segments_words:
  assumes "merge_segments nw ms ls = Inr r" and "\<forall>(lma, seg_top, bs)\<in>set ls. lma \<le> seg_top"
  shows "(\<forall>s\<in>set ls. nw \<le> fst s div 4) \<and> sorted_wrt before_word ls"
  using assms
proof (induction nw ms ls rule: merge_segments.induct)
  case (2 nw ms lma seg_top bs ls)
  from 2(2) obtain ms' where m: "nw \<le> lma div 4" "merge_segments (1 + seg_top div 4) ms' ls = Inr r"
    by (auto simp: Let_def require_def bindR_Inr_iff split: if_splits)
  have "lma div 4 \<le> seg_top div 4" using 2(3) by (simp add: zdiv_mono1)
  moreover have "(\<forall>s\<in>set ls. 1 + seg_top div 4 \<le> fst s div 4) \<and> sorted_wrt before_word ls"
    using 2(1) m 2(2,3) by (simp add: Let_def)
  ultimately show ?case using m(1) by (fastforce simp: before_word_def)
qed simp

text \<open>
  C27: loading an ELF file.  For a file in which every loadable segment is complete (its bytes in the file are its
  whole size in memory), \<^verbatim>\<open>load_elf32\<close> raises a \<^verbatim>\<open>ValueError\<close> exactly when a loadable segment starts below the
  base address or two of them overlap; otherwise it fails an assertion exactly when two of them share a 32-bit word;
  and otherwise it returns an image of 32-bit words in separate chunks in which every byte of every segment stands at
  its address and every other byte of a word is zero, every chunk ending with the last word of a segment.  (In the
  order of their addresses, segments do not overlap when each ends before the next one starts, and share no word when
  each ends in a word before the one in which the next one starts.)
\<close>

theorem load_elf32_exact:
  assumes "elf_complete segments"
  shows "let ls = sort_key fst (map (load_segment_of base) (filter loadable segments))
    in if (\<exists>s\<in>set segments. loadable s \<and> p_paddr s < base) \<or> \<not> sorted_wrt before_byte ls
       then load_elf32 segments base = Inl ValueError
       else if \<not> sorted_wrt before_word ls then load_elf32 segments base = Inl AssertionError
       else returns (load_elf32 segments base) (elf_image base segments)"
proof -
  let ?ls = "sort_key fst (map (load_segment_of base) (filter loadable segments))"
  let ?low = "\<exists>s\<in>set segments. loadable s \<and> p_paddr s < base"
  have low: "load_elf32 segments base = Inl ValueError" if ?low
    using load_segments_below [OF assms that] by (simp add: load_elf32_def)
  have ord: "\<forall>(lma, seg_top, bs)\<in>set ?ls. lma \<le> seg_top"
    using assms by (fastforce simp: load_segment_of_def loadable_def elf_complete_def)
  have load: "load_segments base segments = Inr (map (load_segment_of base) (filter loadable segments))" if "\<not> ?low"
    using that assms by (intro load_segments_eq) (auto simp: elf_complete_def not_less)
  have pos: "\<forall>s\<in>set ?ls. 0 \<le> fst s" if "\<not> ?low"
    using that by (auto simp: load_segment_of_def not_less)
  have overlap: "load_elf32 segments base = Inl ValueError" if "\<not> ?low" "\<not> sorted_wrt before_byte ?ls"
    using that load check_overlap_iff [OF ord, of 0] by (simp add: load_elf32_def Let_def)
  have share: "load_elf32 segments base = Inl AssertionError"
    if a: "\<not> ?low" "sorted_wrt before_byte ?ls" "\<not> sorted_wrt before_word ?ls"
  proof -
    obtain e where "merge_segments 0 [] ?ls = Inl e"
      using merge_segments_words [OF _ ord] a(3) by (cases "merge_segments 0 [] ?ls") auto
    then have "merge_segments 0 [] ?ls = Inl AssertionError" using merge_segments_error by blast
    then show ?thesis using a load pos check_overlap_iff [OF ord, of 0] by (simp add: load_elf32_def Let_def)
  qed
  have ok: "elf_ok base segments" if "\<not> ?low" "sorted_wrt before_word ?ls"
    using that assms by (auto simp: elf_ok_def elf_complete_def not_less)
  show ?thesis unfolding Let_def using low overlap share load_elf32_image [OF ok] by auto
qed

lemma load_elf32_exact_witness:
  "returns (load_elf32 [\<lparr>p_type = ''PT_LOAD'', p_paddr = 0x8006, p_memsz = 1, seg_bytes = [7]\<rparr>,
      \<lparr>p_type = ''PT_NOTE'', p_paddr = 0, p_memsz = 1, seg_bytes = [9]\<rparr>,
      \<lparr>p_type = ''PT_LOAD'', p_paddr = 0x8001, p_memsz = 2, seg_bytes = [5, 6]\<rparr>] 0x8000)
    (\<lambda>f. file_ok f \<and> mem_byte f 1 = Some 5 \<and> mem_byte f 6 = Some 7) \<and>
   load_elf32 [\<lparr>p_type = ''PT_LOAD'', p_paddr = 4, p_memsz = 2, seg_bytes = [1, 2]\<rparr>,
      \<lparr>p_type = ''PT_LOAD'', p_paddr = 5, p_memsz = 1, seg_bytes = [3]\<rparr>] 0 = Inl ValueError"
proof -
  let ?segs = "[\<lparr>p_type = ''PT_LOAD'', p_paddr = 0x8006, p_memsz = 1, seg_bytes = [7]\<rparr>,
      \<lparr>p_type = ''PT_NOTE'', p_paddr = 0, p_memsz = 1, seg_bytes = [9]\<rparr>,
      \<lparr>p_type = ''PT_LOAD'', p_paddr = 0x8001, p_memsz = 2, seg_bytes = [5, 6]\<rparr>]"
  let ?two = "[\<lparr>p_type = ''PT_LOAD'', p_paddr = 4, p_memsz = 2, seg_bytes = [1, 2 :: 8 word]\<rparr>,
      \<lparr>p_type = ''PT_LOAD'', p_paddr = 5, p_memsz = 1, seg_bytes = [3]\<rparr>]"
  have c: "elf_complete ?segs" "elf_complete ?two" by (simp_all add: elf_complete_def loadable_def)
  have "returns (load_elf32 ?segs 0x8000) (elf_image 0x8000 ?segs)"
    using load_elf32_exact [where base = "0x8000", OF c(1)]
    by (simp add: loadable_def load_segment_of_def before_word_def before_byte_def)
  moreover have "load_elf32 ?two 0 = Inl ValueError"
    using load_elf32_exact [where base = 0, OF c(2)] by (simp add: loadable_def load_segment_of_def before_byte_def)
  ultimately show ?thesis
    by (auto elim!: returns_mono simp: elf_image_def loadable_def numeral_2_eq_2 less_Suc_eq all_conj_distrib take_bit_eq_mod)
qed

text \<open>
  Segments that share a word do not overlap, and still fail the assertion that is commented to be
  implied by the overlap check; a segment without bytes in the file reads a variable before its
  first assignment.
\<close>

lemma load_elf32_shared_word:
  "load_elf32 [\<lparr>p_type = ''PT_LOAD'', p_paddr = 0, p_memsz = 2, seg_bytes = [1, 2]\<rparr>,
     \<lparr>p_type = ''PT_LOAD'', p_paddr = 2, p_memsz = 2, seg_bytes = [3, 4]\<rparr>] 0 = Inl AssertionError"
  by (simp add: load_elf32_def Let_def)

lemma load_elf32_no_bytes:
  "load_elf32 [\<lparr>p_type = ''PT_LOAD'', p_paddr = 0, p_memsz = 4, seg_bytes = []\<rparr>] 0 = Inl UnboundLocalError"
  by (simp add: load_elf32_def Let_def py_bool_def)

end
