(* ===== verification/Rom_Scramble.thy ===== *)
theory Rom_Scramble
  imports Mem_Elf Yaml
begin

text \<open>
  The ROM scrambler, the class \<^verbatim>\<open>Scrambler\<close> and \<^verbatim>\<open>main\<close> of \<^verbatim>\<open>hw/ip/rom_ctrl/util/scramble_image.py\<close>.  The Hjson
  loader is a library: its result is an argument, a value of the type of parsed YAML.  \<^verbatim>\<open>main\<close> takes the
  parsed top-level description, the segments of the ELF file, and the two random sources of \<^verbatim>\<open>flatten\<close>
  and \<^verbatim>\<open>gen_code\<close>, and yields the lines of the output file.
\<close>

section \<open>Operations\<close>

definition ROM_BASE_WORD :: int where
  "ROM_BASE_WORD = 0x8000 div 4"

definition ROM_SIZE_WORDS :: nat where
  "ROM_SIZE_WORDS = 4096"

record scrambler =
  scr_nonce :: int
  scr_key :: int
  rom_size_words :: nat
  addr_width :: nat

definition Scrambler_init :: "int \<Rightarrow> int \<Rightarrow> nat \<Rightarrow> scrambler result" where
  "Scrambler_init nonce key n =
     require (0 \<le> nonce \<and> nonce < push_bit 64 1) (require (0 \<le> key \<and> key < push_bit 128 1)
       (require (0 < n \<and> int n < push_bit 64 1)
          (Inr \<lparr>scr_nonce = nonce, scr_key = key, rom_size_words = n, addr_width = nat (bit_length (n - 1))\<rparr>)))"

fun rom_ctrl_entries :: "yaml list \<Rightarrow> yaml_dict list result" where
  "rom_ctrl_entries [] = Inr []"
| "rom_ctrl_entries (entry # modules) =
     (case entry of
        YDict d \<Rightarrow>
          (case ydict_get_or_None d ''type'' of
             YStr entry_type \<Rightarrow>
               bindR (rom_ctrl_entries modules) (\<lambda>ds. Inr (if entry_type = ''rom_ctrl'' then d # ds else ds))
           | _ \<Rightarrow> Inl AssertionError)
      | _ \<Rightarrow> Inl AssertionError)"

definition get_rom_ctrl :: "yaml list \<Rightarrow> yaml_dict result" where
  "get_rom_ctrl modules =
     bindR (rom_ctrl_entries modules) (\<lambda>rom_ctrls. require (length rom_ctrls = 1) (Inr (hd rom_ctrls)))"

fun named_params_from :: "(string \<times> yaml_dict) list \<Rightarrow> yaml list \<Rightarrow> (string \<times> yaml_dict) list result" where
  "named_params_from named_params [] = Inr named_params"
| "named_params_from named_params (param # params) =
     (case param of
        YDict d \<Rightarrow>
          (case ydict_get_or_None d ''name'' of
             YStr n \<Rightarrow> require (n \<notin> fst ` set named_params) (named_params_from (named_params @ [(n, d)]) params)
           | _ \<Rightarrow> Inl AssertionError)
      | _ \<Rightarrow> Inl AttributeError)"

definition get_params :: "yaml_dict \<Rightarrow> (string \<times> yaml_dict) list result" where
  "get_params module =
     (case ydict_get_or_None module ''param_list'' of
        YList params \<Rightarrow> named_params_from [] params
      | _ \<Rightarrow> Inl AssertionError)"

definition get_param_value :: "(string \<times> yaml_dict) list \<Rightarrow> string \<Rightarrow> nat \<Rightarrow> int result" where
  "get_param_value params name w =
     (case map_of params name of
        None \<Rightarrow> Inl AssertionError
      | Some param \<Rightarrow>
          (case ydict_get_or_None param ''default'' of
             YStr s \<Rightarrow>
               (case py_int0 s of
                  None \<Rightarrow> Inl ValueError
                | Some int_val \<Rightarrow> require (0 \<le> int_val \<and> int_val < push_bit w 1) (Inr int_val))
           | _ \<Rightarrow> Inl AssertionError))"

definition from_hjson :: "yaml \<Rightarrow> nat \<Rightarrow> scrambler result" where
  "from_hjson top_val n =
     require (0 < n)
       (case top_val of
          YDict d \<Rightarrow>
            (case ydict_get_or_None d ''module'' of
               YList modules \<Rightarrow>
                 bindR (get_rom_ctrl modules) (\<lambda>rom_ctrl.
                 bindR (get_params rom_ctrl) (\<lambda>params.
                 bindR (get_param_value params ''RndCnstScrNonce'' 64) (\<lambda>nonce.
                 bindR (get_param_value params ''RndCnstScrKey'' 128) (\<lambda>key.
                 Scrambler_init nonce key n))))
             | _ \<Rightarrow> Inl AssertionError)
        | _ \<Rightarrow> Inl AssertionError)"

text \<open>A ROM of less than eight words makes the length negative, which the first assertion of \<^verbatim>\<open>flatten\<close> refuses.\<close>

definition Scrambler_flatten :: "(int \<Rightarrow> nat \<Rightarrow> int) \<Rightarrow> scrambler \<Rightarrow> mem_file \<Rightarrow> mem_file result" where
  "Scrambler_flatten rnd s mem =
     require (8 \<le> rom_size_words s)
       (let digest_size_words = 8;
            initial_len = rom_size_words s - digest_size_words;
            seed = scr_key s + scr_nonce s
        in bindR (MemFile_flatten rnd mem initial_len seed) (\<lambda>flattened.
           case mf_chunks flattened of
             [c] \<Rightarrow>
               require (length (chunk_words c) = initial_len)
                 (Inr (flattened\<lparr>mf_chunks := [c\<lparr>chunk_words := chunk_words c @ replicate digest_size_words 0\<rparr>]\<rparr>))
           | _ \<Rightarrow> Inl AssertionError))"

definition data_scr_nonce :: "scrambler \<Rightarrow> int" where
  "data_scr_nonce s = scr_nonce s AND (push_bit (64 - addr_width s) 1 - 1)"

definition addr_scr_nonce :: "scrambler \<Rightarrow> int" where
  "addr_scr_nonce s = drop_bit (64 - addr_width s) (scr_nonce s)"

text \<open>The body of the loop of \<^verbatim>\<open>scramble40\<close>.\<close>

definition scramble_word :: "scrambler \<Rightarrow> int list \<Rightarrow> nat \<Rightarrow> int result" where
  "scramble_word s ws phy_addr =
     (let word_mask = push_bit 40 1 - 1
      in bindR (subst_perm_dec (int phy_addr) (addr_scr_nonce s) (addr_width s) 2) (\<lambda>log_addr.
         require (0 \<le> log_addr \<and> log_addr < int (rom_size_words s))
           (let to_scramble = push_bit (addr_width s) (data_scr_nonce s) OR log_addr
            in bindR (prince to_scramble (scr_key s) 2) (\<lambda>keystream.
               let keystream_trunc = keystream AND word_mask
               in bindR (py_getitem ws log_addr) (\<lambda>clr_data.
                  require (0 \<le> clr_data \<and> clr_data < word_mask)
                    (bindR (subst_perm_enc (keystream_trunc XOR clr_data) 0 40 2) (\<lambda>scr_data.
                     require (0 \<le> scr_data \<and> scr_data < word_mask) (Inr scr_data))))))))"

definition scramble40 :: "scrambler \<Rightarrow> mem_file \<Rightarrow> mem_file result" where
  "scramble40 s mem =
     (case mf_chunks mem of
        [c] \<Rightarrow>
          require (length (chunk_words c) = rom_size_words s)
            (bindR (mapR (scramble_word s (chunk_words c)) [0..<rom_size_words s]) (\<lambda>scrambled.
             Inr \<lparr>mf_width = mf_width mem, mf_chunks = [\<lparr>base_addr = 0, chunk_words = scrambled\<rparr>]\<rparr>))
      | _ \<Rightarrow> Inl AssertionError)"

text \<open>\<^verbatim>\<open>main\<close> up to the scrambling, and all of it.\<close>

definition clear_image ::
    "(int \<Rightarrow> nat \<Rightarrow> int) \<Rightarrow> (nat \<Rightarrow> fanin_code list \<Rightarrow> fanin_code list) \<Rightarrow> scrambler \<Rightarrow> elf_segment list \<Rightarrow>
     mem_file result option" where
  "clear_image rnd shuffle scr segments =
     (case bindR (load_elf32 segments (4 * ROM_BASE_WORD)) (Scrambler_flatten rnd scr) of
        Inl e \<Rightarrow> Some (Inl e)
      | Inr clr_flat \<Rightarrow>
          map_option (\<lambda>r. bindR r (\<lambda>clr_flat. require (mf_width clr_flat = 39) (Inr (clr_flat\<lparr>mf_width := 40\<rparr>))))
            (MemFile_add_ecc32 shuffle clr_flat))"

definition scramble_main ::
    "(int \<Rightarrow> nat \<Rightarrow> int) \<Rightarrow> (nat \<Rightarrow> fanin_code list \<Rightarrow> fanin_code list) \<Rightarrow> yaml \<Rightarrow> elf_segment list \<Rightarrow>
     string list result option" where
  "scramble_main rnd shuffle hjson segments =
     (case from_hjson hjson ROM_SIZE_WORDS of
        Inl e \<Rightarrow> Some (Inl e)
      | Inr scr \<Rightarrow>
          map_option (\<lambda>r. bindR r (\<lambda>clr_flat.
            bindR (scramble40 scr clr_flat) (\<lambda>scr_mem. Inr (MemFile_write_vmem scr_mem))))
          (clear_image rnd shuffle scr segments))"

section \<open>Reading the scrambled ROM\<close>

text \<open>
  The specification of the comment in \<^verbatim>\<open>scramble40\<close>: the hardware finds the word of a logical address
  at the scrambled address, undoes the data network and removes the key stream.
\<close>

definition keystream :: "scrambler \<Rightarrow> nat \<Rightarrow> int result" where
  "keystream s a =
     bindR (prince (push_bit (addr_width s) (data_scr_nonce s) OR int a) (scr_key s) 2) (\<lambda>k. Inr (k AND low_mask 40))"

definition unscramble :: "scrambler \<Rightarrow> int list \<Rightarrow> nat \<Rightarrow> int result" where
  "unscramble s ws a =
     bindR (subst_perm_enc (int a) (addr_scr_nonce s) (addr_width s) 2) (\<lambda>p.
     bindR (py_getitem ws p) (\<lambda>w.
     bindR (subst_perm_dec w 0 40 2) (\<lambda>d.
     bindR (keystream s a) (\<lambda>k. Inr (k XOR d)))))"

text \<open>The scrambled form of the word of a logical address.\<close>

definition scrambled :: "scrambler \<Rightarrow> int list \<Rightarrow> nat \<Rightarrow> int result" where
  "scrambled s ws a = bindR (keystream s a) (\<lambda>k. subst_perm_enc (k XOR ws ! a) 0 40 2)"

definition scrambler_ok :: "scrambler \<Rightarrow> bool" where
  "scrambler_ok s \<longleftrightarrow> fits 64 (scr_nonce s) \<and> fits 128 (scr_key s) \<and> addr_width s \<le> 64 \<and>
     rom_size_words s = 2 ^ addr_width s"

lemma addr_nonce_fits: "scrambler_ok s \<Longrightarrow> fits (addr_width s) (addr_scr_nonce s)"
  unfolding scrambler_ok_def addr_scr_nonce_def fits_bits bit_drop_bit_eq by fastforce

lemma addr_fits: "scrambler_ok s \<Longrightarrow> a < rom_size_words s \<Longrightarrow> fits (addr_width s) (int a)"
  by (simp add: scrambler_ok_def fits_iff)

lemma keystreamE:
  assumes "scrambler_ok s" and "a < rom_size_words s"
  obtains k where "prince (push_bit (addr_width s) (data_scr_nonce s) OR int a) (scr_key s) 2 = Inr k"
    and "keystream s a = Inr (k AND low_mask 40)"
proof -
  have "bit (data_scr_nonce s) i \<Longrightarrow> i < 64 - addr_width s" for i
    unfolding data_scr_nonce_def low_mask_def [symmetric] by (simp add: bit_and_iff)
  moreover have "bit (int a) i \<Longrightarrow> i < 64" for i
    using addr_fits [OF assms] assms(1) unfolding fits_bits scrambler_ok_def by fastforce
  ultimately have "fits 64 (push_bit (addr_width s) (data_scr_nonce s) OR int a)"
    using assms(1) unfolding fits_bits scrambler_ok_def by (fastforce simp: bit_simps)
  then have "returns (prince (push_bit (addr_width s) (data_scr_nonce s) OR int a) (scr_key s) 2) (fits 64)"
    using prince_permutes [of "scr_key s" 2] assms(1) by (simp add: block_perm_def scrambler_ok_def)
  then show ?thesis by (rule returnsE) (auto intro: that simp: keystream_def)
qed

lemma scrambledE:
  assumes "scrambler_ok s" and "a < rom_size_words s" and "fits 40 (ws ! a)"
  obtains k y where "keystream s a = Inr k" and "scrambled s ws a = Inr y" and "fits 40 y"
    and "subst_perm_dec y 0 40 2 = Inr (k XOR ws ! a)"
proof -
  obtain k where k: "keystream s a = Inr (k AND low_mask 40)" using keystreamE [OF assms(1,2)] .
  have "fits 40 ((k AND low_mask 40) XOR ws ! a)" by (rule fits_xor [OF _ assms(3)]) simp
  moreover have "fits 40 0" by (simp add: fits_iff)
  ultimately obtain y where "subst_perm_enc ((k AND low_mask 40) XOR ws ! a) 0 40 2 = Inr y" "fits 40 y"
    "subst_perm_dec y 0 40 2 = Inr ((k AND low_mask 40) XOR ws ! a)" using sp.fwdE [of 40 0 _ 2] by blast
  with k show ?thesis by (intro that) (simp_all add: scrambled_def)
qed

text \<open>The address network maps the logical addresses one to one to the physical ones.\<close>

lemma phys_of:
  assumes "scrambler_ok s" and "a < rom_size_words s"
  obtains p where "p < rom_size_words s" and "subst_perm_enc (int a) (addr_scr_nonce s) (addr_width s) 2 = Inr (int p)"
proof -
  obtain p where p: "subst_perm_enc (int a) (addr_scr_nonce s) (addr_width s) 2 = Inr p" "fits (addr_width s) p"
    using sp.fwdE [OF addr_nonce_fits [OF assms(1)] addr_fits [OF assms]] .
  show ?thesis by (rule that [of "nat p"]) (use p assms(1) in \<open>simp_all add: scrambler_ok_def fits_iff nat_less_iff\<close>)
qed

lemma log_of:
  assumes "scrambler_ok s" and "p < rom_size_words s"
  obtains a where "a < rom_size_words s" and "subst_perm_enc (int a) (addr_scr_nonce s) (addr_width s) 2 = Inr (int p)"
proof -
  obtain a where a: "subst_perm_enc a (addr_scr_nonce s) (addr_width s) 2 = Inr (int p)" "fits (addr_width s) a"
    using sp.bwdE [OF addr_nonce_fits [OF assms(1)] addr_fits [OF assms]] .
  show ?thesis by (rule that [of "nat a"]) (use a assms(1) in \<open>simp_all add: scrambler_ok_def fits_iff nat_less_iff\<close>)
qed

definition words_ok :: "scrambler \<Rightarrow> int list \<Rightarrow> bool" where
  "words_ok s ws \<longleftrightarrow> length ws = rom_size_words s \<and> (\<forall>w\<in>set ws. fits 40 w \<and> w \<noteq> low_mask 40)"

lemma scramble_word_eq:
  assumes "scrambler_ok s" and "words_ok s ws" and "a < rom_size_words s" and "p < rom_size_words s"
    and "subst_perm_enc (int a) (addr_scr_nonce s) (addr_width s) 2 = Inr (int p)"
  shows "scramble_word s ws p = bindR (scrambled s ws a) (\<lambda>y. require (y \<noteq> low_mask 40) (Inr y))"
proof -
  have w: "length ws = rom_size_words s" "fits 40 (ws ! a)" "ws ! a \<noteq> low_mask 40"
    using assms(2,3) by (auto simp: words_ok_def)
  obtain k where k: "prince (push_bit (addr_width s) (data_scr_nonce s) OR int a) (scr_key s) 2 = Inr k"
    "keystream s a = Inr (k AND low_mask 40)" using keystreamE [OF assms(1,3)] .
  obtain y where y: "scrambled s ws a = Inr y" "fits 40 y" using scrambledE [OF assms(1,3) w(2)] .
  have "subst_perm_dec (int p) (addr_scr_nonce s) (addr_width s) 2 = Inr (int a)"
    using sp.fwd_iff_bwd [OF addr_nonce_fits [OF assms(1)] addr_fits [OF assms(1,3)] addr_fits [OF assms(1,4)]] assms(5)
    by simp
  moreover have "0 \<le> v \<and> v < low_mask 40 \<longleftrightarrow> v \<noteq> low_mask 40" if "fits 40 v" for v
    using that by (auto simp: fits_iff low_mask_eq)
  ultimately show ?thesis
    using k y assms(3) w unfolding scramble_word_def Let_def low_mask_def [symmetric]
    by (simp add: scrambled_def require_def)
qed

lemma mapR_assert:
  assumes "\<forall>x\<in>set xs. f x = Inl AssertionError \<or> \<not> isl (f x)"
  shows "mapR f xs = (if \<forall>x\<in>set xs. \<not> isl (f x) then Inr (map (\<lambda>x. projr (f x)) xs) else Inl AssertionError)"
  using assms
proof (induction xs)
  case (Cons x xs)
  then show ?case by (cases "f x") auto
qed simp

definition all_ones :: "scrambler \<Rightarrow> int list \<Rightarrow> bool" where
  "all_ones s ws \<longleftrightarrow> (\<exists>a<rom_size_words s. scrambled s ws a = Inr (low_mask 40))"

lemma scramble_wordE:
  assumes "scrambler_ok s" and "words_ok s ws" and "p < rom_size_words s"
  obtains a y where "a < rom_size_words s" and "scrambled s ws a = Inr y" and "fits 40 y"
    and "scramble_word s ws p = require (y \<noteq> low_mask 40) (Inr y)"
proof -
  obtain a where a: "a < rom_size_words s" "subst_perm_enc (int a) (addr_scr_nonce s) (addr_width s) 2 = Inr (int p)"
    using log_of [OF assms(1,3)] .
  have "fits 40 (ws ! a)" using assms(2) a(1) by (simp add: words_ok_def)
  then obtain y where "scrambled s ws a = Inr y" "fits 40 y" using scrambledE [OF assms(1) a(1)] by blast
  then show ?thesis using that a(1) scramble_word_eq [OF assms(1,2) a(1) assms(3) a(2)] by simp
qed

lemma scramble_loop:
  assumes "scrambler_ok s" and "words_ok s ws"
  shows "mapR (scramble_word s ws) [0..<rom_size_words s] =
    (if all_ones s ws then Inl AssertionError else Inr (map (\<lambda>p. projr (scramble_word s ws p)) [0..<rom_size_words s]))"
proof -
  let ?n = "rom_size_words s"
  note loc = scramble_wordE [OF assms]
  have bad: "(\<exists>p<?n. isl (scramble_word s ws p)) \<longleftrightarrow> all_ones s ws"
  proof
    assume "\<exists>p<?n. isl (scramble_word s ws p)"
    then show "all_ones s ws" unfolding all_ones_def by (metis loc isl_def require_def sum.disc(2))
  next
    assume "all_ones s ws"
    then obtain a where a: "a < ?n" "scrambled s ws a = Inr (low_mask 40)" unfolding all_ones_def by blast
    obtain p where p: "p < ?n" "subst_perm_enc (int a) (addr_scr_nonce s) (addr_width s) 2 = Inr (int p)"
      using phys_of [OF assms(1) a(1)] .
    then have "isl (scramble_word s ws p)" using scramble_word_eq [OF assms a(1) p] a(2) by (simp add: require_def)
    then show "\<exists>p<?n. isl (scramble_word s ws p)" using p(1) by blast
  qed
  have "scramble_word s ws p = Inl AssertionError \<or> \<not> isl (scramble_word s ws p)" if "p < ?n" for p
    by (rule loc [OF that]) (simp add: require_def)
  then show ?thesis using mapR_assert [of "[0..<?n]" "scramble_word s ws"] bad by auto
qed

lemma unscramble_eq:
  assumes "scrambler_ok s" and "words_ok s ws" and "\<not> all_ones s ws" and "a < rom_size_words s"
  shows "unscramble s (map (\<lambda>p. projr (scramble_word s ws p)) [0..<rom_size_words s]) a = Inr (ws ! a)"
proof -
  have w: "fits 40 (ws ! a)" using assms(2,4) by (simp add: words_ok_def)
  obtain k y where y: "keystream s a = Inr k" "scrambled s ws a = Inr y" "fits 40 y"
    "subst_perm_dec y 0 40 2 = Inr (k XOR ws ! a)" using scrambledE [OF assms(1,4) w] .
  obtain p where p: "p < rom_size_words s" "subst_perm_enc (int a) (addr_scr_nonce s) (addr_width s) 2 = Inr (int p)"
    using phys_of [OF assms(1,4)] .
  have "y \<noteq> low_mask 40" using assms(3,4) y(2) by (auto simp: all_ones_def)
  then have "scramble_word s ws p = Inr y" using scramble_word_eq [OF assms(1,2,4) p] y(2) by simp
  then show ?thesis using p y by (simp add: unscramble_def xor.left_commute)
qed

lemma scrambled_fits:
  assumes "scrambler_ok s" and "words_ok s ws" and "\<not> all_ones s ws" and "p < rom_size_words s"
  shows "fits 40 (projr (scramble_word s ws p))"
  by (rule scramble_wordE [OF assms(1,2,4)]) (use assms(3) in \<open>auto simp: all_ones_def require_def\<close>)

text \<open>
  Scrambling is undone by the hardware.  For a ROM whose size is a power of two and whose words
  fit 40 bits and are not all ones, \<^verbatim>\<open>scramble40\<close> returns an image of the same size and width in which the
  hardware finds every word at its logical address, unless the scrambled form of a word has all bits
  set: then, and only then, the last assertion of the loop fails.
\<close>

theorem scramble40_exact:
  assumes "scrambler_ok s" and "words_ok s ws" and "mf_chunks mem = [\<lparr>base_addr = b, chunk_words = ws\<rparr>]"
  shows "if all_ones s ws then scramble40 s mem = Inl AssertionError
    else returns (scramble40 s mem) (\<lambda>m. mf_width m = mf_width mem \<and>
      (\<exists>scr. mf_chunks m = [\<lparr>base_addr = 0, chunk_words = scr\<rparr>] \<and> length scr = rom_size_words s \<and>
        (\<forall>a<rom_size_words s. unscramble s scr a = Inr (ws ! a))))"
  using scramble_loop [OF assms(1,2)] unscramble_eq [OF assms(1,2)] assms(2,3)
  by (simp add: scramble40_def words_ok_def)

section \<open>From the ELF file to the ROM\<close>

lemma from_hjson_ok: "from_hjson hj ROM_SIZE_WORDS = Inr s \<Longrightarrow> scrambler_ok s \<and> rom_size_words s = ROM_SIZE_WORDS"
proof -
  assume h: "from_hjson hj ROM_SIZE_WORDS = Inr s"
  obtain d where d: "hj = YDict d" using h by (cases hj) (simp_all add: from_hjson_def require_def)
  obtain modules where "ydict_get_or_None d ''module'' = YList modules"
    using h by (cases "ydict_get_or_None d ''module''") (simp_all add: from_hjson_def require_def d)
  then obtain nonce key where "Scrambler_init nonce key ROM_SIZE_WORDS = Inr s"
    using h by (auto simp: from_hjson_def d bindR_Inr_iff require_def split: if_splits)
  moreover have "bit_length 4095 = 12" by (simp add: bit_length.simps)
  ultimately show ?thesis
    by (auto simp: Scrambler_init_def require_def ROM_SIZE_WORDS_def scrambler_ok_def fits_iff split: if_splits)
qed

text \<open>Adding the check bits keeps the data in the low bits.\<close>

lemma add_ecc32_all_eq:
  assumes "list_all (fits 32) ws" and "length ms = 7" and "list_all (fits 32) ms"
  shows "returns (add_ecc32_all ms ws) (\<lambda>es. length es = length ws \<and>
    (\<forall>i<length ws. fits 39 (es ! i) \<and> take_bit 32 (es ! i) = ws ! i))"
  using assms(1)
proof (induction ws)
  case (Cons w ws)
  have w: "fits 32 w" using Cons.prems by simp
  from add_ecc32_eq [OF this assms(2,3)] obtain r where r: "add_ecc32 w ms = Inr r"
    "\<forall>b. bit r b \<longleftrightarrow> bit w b \<or> (32 \<le> b \<and> b < 39 \<and> red_xor 32 w \<noteq> red_xor 32 (ms ! (b - 32)))" by (rule returnsE)
  have "fits 39 r" using w r(2) unfolding fits_bits by auto
  moreover have "take_bit 32 r = w" by (rule bit_eqI) (use w r(2) in \<open>auto simp: bit_simps fits_bits\<close>)
  moreover obtain es where "add_ecc32_all ms ws = Inr es" "length es = length ws"
    "\<forall>i<length ws. fits 39 (es ! i) \<and> take_bit 32 (es ! i) = ws ! i" using Cons by (auto elim!: returnsE)
  ultimately show ?case using r(1) by (auto simp: nth_Cons split: nat.split)
qed simp

lemma hsiao_masks:
  assumes "permutes shuffle" and "gen_code shuffle ''hsiao'' 32 7 = Some r"
  obtains codes ms where "r = Inr codes" and "calc_bitmasks 32 7 codes False = Inr ms" and "length ms = 7"
    and "list_all (fits 32) ms"
proof -
  have g: "hsiao_code shuffle 32 7 = Some r" using assms(2) by (simp add: gen_code_def)
  obtain codes where codes: "r = Inr codes" "length codes = 32" using hsiao_code_rows [OF assms(1) g] by auto
  then have "hsiao_result 32 7 codes" using g assms(1) by (auto simp: hsiao_result_def)
  then have "codes_ok 32 7 codes" by (rule hsiao.gen_ok)
  from calc_bitmasks_eq [OF this, of False] obtain ms where ms: "calc_bitmasks 32 7 codes False = Inr ms" "length ms = 7"
    "\<forall>j<7. \<forall>i. bit (ms ! j) i = takes_part codes i j" by (auto elim!: returnsE)
  have "fits 32 (ms ! j)" if "j < 7" for j
    using ms(3) that codes(2) by (simp add: fits_bits takes_part_def)
  then show ?thesis using that codes(1) ms(1,2) by (simp add: list_all_length)
qed

lemma MemFile_add_ecc32_eq:
  assumes "permutes shuffle" and "gen_code shuffle ''hsiao'' 32 7 = Some r" and "list_all (fits 32) ws"
  obtains es where "MemFile_add_ecc32 shuffle \<lparr>mf_width = 32, mf_chunks = [\<lparr>base_addr = 0, chunk_words = ws\<rparr>]\<rparr> =
      Some (Inr \<lparr>mf_width = 39, mf_chunks = [\<lparr>base_addr = 0, chunk_words = es\<rparr>]\<rparr>)"
    and "length es = length ws" and "\<forall>i<length ws. fits 39 (es ! i) \<and> take_bit 32 (es ! i) = ws ! i"
proof -
  obtain codes ms where ms: "r = Inr codes" "calc_bitmasks 32 7 codes False = Inr ms" "length ms = 7" "list_all (fits 32) ms"
    using hsiao_masks [OF assms(1,2)] .
  from add_ecc32_all_eq [OF assms(3) ms(3,4)] obtain es where "add_ecc32_all ms ws = Inr es" "length es = length ws"
    "\<forall>i<length ws. fits 39 (es ! i) \<and> take_bit 32 (es ! i) = ws ! i" by (auto elim!: returnsE)
  then show ?thesis using that [of es] assms(2) ms(1,2) by (simp add: MemFile_add_ecc32_def MemChunk_add_ecc32_def)
qed

lemma file_ok_sorted:
  assumes "file_ok f"
  shows "chunks_sorted 0 (mf_chunks f)"
  using assms sorted_wrt_mono_rel [of "mf_chunks f" "\<lambda>c c'. MemChunk_next_addr c < base_addr c'"
      "\<lambda>c c'. MemChunk_next_addr c \<le> base_addr c'"]
  by (simp add: file_ok_def chunks_sorted_def)

lemma word_at_fits: "file_ok f \<Longrightarrow> word_at (mf_chunks f) a = Some v \<Longrightarrow> fits (mf_width f) v"
  by (auto simp: file_ok_def word_at_def find_Some_iff list_all_length MemChunk_next_addr_def split: option.splits)

lemma elf_next_addr:
  assumes "elf_image base segments f" and "\<forall>s\<in>set segments. loadable s \<longrightarrow> seg_end base s \<le> 4 * int n"
  shows "MemFile_next_addr f \<le> n"
proof (cases "mf_chunks f = []")
  case False
  then obtain s where "s \<in> set segments" "loadable s"
    "int (MemChunk_next_addr (last (mf_chunks f))) = (seg_end base s - 1) div 4 + 1"
    using assms(1) unfolding elf_image_def by (meson last_in_set)
  moreover from this have "(seg_end base s - 1) div 4 < int n" using assms(2) by auto
  ultimately show ?thesis using False by (simp add: MemFile_next_addr_def)
qed (simp add: MemFile_next_addr_def)

lemma word_at_bound:
  assumes "file_ok f" and "word_at (mf_chunks f) a = Some v"
  shows "a < MemFile_next_addr f"
proof -
  obtain c where c: "c \<in> set (mf_chunks f)" "a < MemChunk_next_addr c"
    using assms(2) by (auto simp: word_at_def find_Some_iff split: option.splits) (metis nth_mem)
  then obtain cs l where l: "mf_chunks f = cs @ [l]" by (cases "mf_chunks f" rule: rev_cases) auto
  have "MemChunk_next_addr c \<le> MemChunk_next_addr l"
    using assms(1) c(1) l by (fastforce simp: file_ok_def sorted_wrt_append MemChunk_next_addr_def)
  then show ?thesis using c(2) l by (simp add: MemFile_next_addr_def)
qed

text \<open>The words hold the segments of the file in their low 32 bits.\<close>

definition holds_segments :: "int \<Rightarrow> elf_segment list \<Rightarrow> int list \<Rightarrow> bool" where
  "holds_segments base segments ws \<longleftrightarrow>
     (\<forall>s\<in>set segments. loadable s \<longrightarrow> (\<forall>k<length (seg_bytes s).
        let a = nat (p_paddr s - base) + k
        in a div 4 < length ws \<and> take_bit 8 (drop_bit (8 * (a mod 4)) (ws ! (a div 4))) = uint (seg_bytes s ! k)))"

lemma Scrambler_flatten_eq:
  assumes "scrambler_ok s" and "elf_image base segments f" and "8 \<le> rom_size_words s"
    and "\<forall>seg\<in>set segments. loadable seg \<longrightarrow> seg_end base seg \<le> 4 * int (rom_size_words s - 8)"
    and "\<forall>n. fits 32 (rnd (scr_key s + scr_nonce s) n)"
  obtains ws where "Scrambler_flatten rnd s f = Inr \<lparr>mf_width = 32, mf_chunks = [\<lparr>base_addr = 0, chunk_words = ws\<rparr>]\<rparr>"
    and "length ws = rom_size_words s" and "list_all (fits 32) ws"
    and "\<forall>a v. word_at (mf_chunks f) a = Some v \<longrightarrow> a < rom_size_words s \<longrightarrow> ws ! a = v"
proof -
  let ?seed = "scr_key s + scr_nonce s" and ?n = "rom_size_words s - 8"
  have f: "file_ok f" "mf_width f = 32" using assms(2) by (simp_all add: elf_image_def)
  obtain ws where ws: "MemFile_flatten rnd f ?n ?seed = Inr (f\<lparr>mf_chunks := [\<lparr>base_addr = 0, chunk_words = ws\<rparr>]\<rparr>)"
    "length ws = ?n"
    "\<forall>a < ?n. case word_at (mf_chunks f) a of Some v \<Rightarrow> ws ! a = v | None \<Rightarrow> ws ! a \<in> range (rnd ?seed)"
    using flatten_returns [OF file_ok_sorted [OF f(1)] elf_next_addr [OF assms(2,4)], of rnd ?seed] by (auto elim!: returnsE)
  have fit: "fits 32 (ws ! a)" if "a < ?n" for a
    using ws(3) that assms(5) word_at_fits [OF f(1), of a] f(2) by (auto split: option.splits)
  have at: "(ws @ replicate 8 0) ! a = v" if v: "word_at (mf_chunks f) a = Some v" for a v
  proof -
    have "a < MemFile_next_addr f" by (rule word_at_bound [OF f(1) v])
    also have "\<dots> \<le> ?n" by (rule elf_next_addr [OF assms(2,4)])
    finally show ?thesis using ws(2) spec [OF ws(3), of a] v by (simp add: nth_append)
  qed
  show ?thesis
  proof (rule that [of "ws @ replicate 8 0"])
    show "Scrambler_flatten rnd s f = Inr \<lparr>mf_width = 32, mf_chunks = [\<lparr>base_addr = 0, chunk_words = ws @ replicate 8 0\<rparr>]\<rparr>"
      using ws(1,2) assms(3) f(2) by (cases f) (simp add: Scrambler_flatten_def Let_def)
    have "list_all (fits 32) ws" using fit ws(2) by (simp add: list_all_length)
    then show "list_all (fits 32) (ws @ replicate 8 0)" by (simp add: list_all_iff)
  qed (use ws(2) assms(3) at in simp_all)
qed

lemma holds_segmentsI:
  assumes "elf_image base segments f" and "elf_ok base segments"
    and "\<forall>seg\<in>set segments. loadable seg \<longrightarrow> seg_end base seg \<le> 4 * int (length ws)"
    and "\<forall>a v. word_at (mf_chunks f) a = Some v \<longrightarrow> a < length ws \<longrightarrow> take_bit 32 (ws ! a) = v"
  shows "holds_segments base segments ws"
  unfolding holds_segments_def Let_def
proof (intro ballI impI allI)
  fix seg k
  assume seg: "seg \<in> set segments" "loadable seg" and k: "k < length (seg_bytes seg)"
  let ?a = "nat (p_paddr seg - base) + k"
  have pos: "base \<le> p_paddr seg" "int (length (seg_bytes seg)) = p_memsz seg" "seg_end base seg \<le> 4 * int (length ws)"
    using assms(2,3) seg by (auto simp: elf_ok_def)
  then have lim: "?a div 4 < length ws" using k by (simp add: seg_end_def less_mult_imp_div_less)
  have "mem_byte f ?a = Some (uint (seg_bytes seg ! k))" using assms(1) seg k by (simp add: elf_image_def)
  then obtain v where v: "word_at (mf_chunks f) (?a div 4) = Some v"
    "take_bit 8 (drop_bit (8 * (?a mod 4)) v) = uint (seg_bytes seg ! k)" by (auto simp: mem_byte_def)
  have "take_bit 8 (drop_bit (8 * (?a mod 4)) (take_bit 32 x)) = take_bit 8 (drop_bit (8 * (?a mod 4)) x)" for x :: int
  proof (rule bit_eqI)
    fix i
    have "?a mod 4 \<le> 3" using mod_less_divisor [of 4 ?a] by simp
    then have "i < 8 \<Longrightarrow> 8 * (?a mod 4) + i < 32" by linarith
    then show "bit (take_bit 8 (drop_bit (8 * (?a mod 4)) (take_bit 32 x))) i =
        bit (take_bit 8 (drop_bit (8 * (?a mod 4)) x)) i" by (auto simp: bit_simps)
  qed
  then show "?a div 4 < length ws \<and>
      take_bit 8 (drop_bit (8 * (?a mod 4)) (ws ! (?a div 4))) = uint (seg_bytes seg ! k)"
    using lim v assms(4) by metis
qed

text \<open>
  C6: the whole tool.  Take a top-level description from which the scrambler is built; an ELF file whose
  loadable segments are complete (their bytes in the file are their size in memory), start at or above the base
  address, share no 32-bit word and end below the digest (the last eight words); random words of 32 bits; a shuffle
  that permutes; and a search for the code that ends.  Then \<^verbatim>\<open>main\<close> builds a clear image of 4096 words that
  holds the segments at their addresses.  If some scrambled word has all bits set, it fails the assertion on
  scrambled words; otherwise it writes a file from which the hardware reads the clear image back.
\<close>

theorem scramble_main_exact:
  assumes "from_hjson hj ROM_SIZE_WORDS = Inr s" and "elf_ok (4 * ROM_BASE_WORD) segments"
    and "\<forall>seg\<in>set segments. loadable seg \<longrightarrow> seg_end (4 * ROM_BASE_WORD) seg \<le> 4 * int (ROM_SIZE_WORDS - 8)"
    and "\<forall>n. fits 32 (rnd (scr_key s + scr_nonce s) n)"
    and "permutes shuffle" and "gen_code shuffle ''hsiao'' 32 7 = Some r"
  shows "\<exists>ws. clear_image rnd shuffle s segments =
      Some (Inr \<lparr>mf_width = 40, mf_chunks = [\<lparr>base_addr = 0, chunk_words = ws\<rparr>]\<rparr>) \<and>
    length ws = ROM_SIZE_WORDS \<and> holds_segments (4 * ROM_BASE_WORD) segments ws \<and>
    (if all_ones s ws then scramble_main rnd shuffle hj segments = Some (Inl AssertionError)
     else \<exists>lines scr. scramble_main rnd shuffle hj segments = Some (Inr lines) \<and>
       load_preproc 40 lines = Inr \<lparr>mf_width = 40, mf_chunks = [\<lparr>base_addr = 0, chunk_words = scr\<rparr>]\<rparr> \<and>
       (\<forall>a<ROM_SIZE_WORDS. unscramble s scr a = Inr (ws ! a)))"
proof -
  have ok: "scrambler_ok s" "rom_size_words s = ROM_SIZE_WORDS" using from_hjson_ok [OF assms(1)] by auto
  let ?base = "4 * ROM_BASE_WORD"
  from load_elf32_image [OF assms(2)] obtain f where f: "load_elf32 segments ?base = Inr f" "elf_image ?base segments f"
    by (rule returnsE)
  obtain flat where flat: "Scrambler_flatten rnd s f = Inr \<lparr>mf_width = 32, mf_chunks = [\<lparr>base_addr = 0, chunk_words = flat\<rparr>]\<rparr>"
    "length flat = rom_size_words s" "list_all (fits 32) flat"
    "\<forall>a v. word_at (mf_chunks f) a = Some v \<longrightarrow> a < rom_size_words s \<longrightarrow> flat ! a = v"
    by (rule Scrambler_flatten_eq [OF ok(1) f(2)]) (use assms(3,4) ok(2) in \<open>auto simp: ROM_SIZE_WORDS_def\<close>)
  obtain ws where ws: "MemFile_add_ecc32 shuffle \<lparr>mf_width = 32, mf_chunks = [\<lparr>base_addr = 0, chunk_words = flat\<rparr>]\<rparr> =
      Some (Inr \<lparr>mf_width = 39, mf_chunks = [\<lparr>base_addr = 0, chunk_words = ws\<rparr>]\<rparr>)"
    "length ws = length flat" "\<forall>i<length flat. fits 39 (ws ! i) \<and> take_bit 32 (ws ! i) = flat ! i"
    using MemFile_add_ecc32_eq [OF assms(5,6) flat(3)] .
  have clear: "clear_image rnd shuffle s segments =
      Some (Inr \<lparr>mf_width = 40, mf_chunks = [\<lparr>base_addr = 0, chunk_words = ws\<rparr>]\<rparr>)"
    using f(1) flat(1) ws(1) by (simp add: clear_image_def)
  have len: "length ws = ROM_SIZE_WORDS" using ws(2) flat(2) ok(2) by simp
  have "fits 40 x \<and> x \<noteq> low_mask 40" if "fits 39 x" for x using that by (auto simp: fits_iff low_mask_eq)
  then have wok: "words_ok s ws" using ws(2,3) flat(2) by (fastforce simp: words_ok_def in_set_conv_nth)
  have hold: "holds_segments ?base segments ws"
    by (rule holds_segmentsI [OF f(2) assms(2)])
      (use assms(3) len ws(2,3) flat(2,4) in \<open>auto simp: ROM_SIZE_WORDS_def\<close>)
  let ?scr = "map (\<lambda>p. projr (scramble_word s ws p)) [0..<rom_size_words s]"
  let ?m = "\<lparr>mf_width = 40, mf_chunks = [\<lparr>base_addr = 0, chunk_words = ?scr\<rparr>]\<rparr>"
  have main: "scramble_main rnd shuffle hj segments =
      (if all_ones s ws then Some (Inl AssertionError) else Some (Inr (MemFile_write_vmem ?m)))"
    using assms(1) clear scramble_loop [OF ok(1) wok] len ok(2) by (simp add: scramble_main_def scramble40_def)
  have "load_preproc 40 (MemFile_write_vmem ?m) = Inr ?m" if "\<not> all_ones s ws"
    using load_written [of ?m] scrambled_fits [OF ok(1) wok that] ok(2)
    by (simp add: file_ok_def list_all_length ROM_SIZE_WORDS_def)
  then show ?thesis
    using clear len hold main unscramble_eq [OF ok(1) wok] ok(2) by (intro exI [of _ ws]) auto
qed

text \<open>A shuffle that moves three rows to the end: the other 32 rows of three are within the ideal fan-in.\<close>

definition demo_shuffle :: "nat \<Rightarrow> fanin_code list \<Rightarrow> fanin_code list" where
  "demo_shuffle i codes =
     (let P = (\<lambda>c. c \<in> {[0, 1, 2], [3, 4, 5], [0, 1, 6]}) in filter (\<lambda>c. \<not> P c) codes @ filter P codes)"

definition demo_top :: yaml where
  "demo_top = YDict [(YStr ''module'', YList [YDict [(YStr ''type'', YStr ''uart'')],
     YDict [(YStr ''type'', YStr ''rom_ctrl''), (YStr ''param_list'', YList
       [YDict [(YStr ''name'', YStr ''RndCnstScrNonce''), (YStr ''default'', YStr ''0x12'')],
        YDict [(YStr ''name'', YStr ''RndCnstScrKey''), (YStr ''default'', YStr ''77'')]])]])]"

definition demo_scrambler :: scrambler where
  "demo_scrambler = \<lparr>scr_nonce = 0x12, scr_key = 77, rom_size_words = 4096, addr_width = 12\<rparr>"

definition demo_small :: scrambler where
  "demo_small = \<lparr>scr_nonce = 3, scr_key = 5, rom_size_words = 2, addr_width = 1\<rparr>"

lemma demo_int0: "py_int0 ''0x12'' = Some 0x12" "py_int0 ''77'' = Some 77"
  by code_simp+

lemma permutes_demo_shuffle: "permutes demo_shuffle"
  by (simp add: permutes_def demo_shuffle_def Let_def union_commute flip: mset_filter) (simp add: multiset_partition [symmetric])

lemma demo_code: "\<exists>r. gen_code demo_shuffle ''hsiao'' 32 7 = Some r"
proof -
  have "\<not> Option.is_none (gen_code demo_shuffle ''hsiao'' 32 7)" by code_simp
  then show ?thesis by (cases "gen_code demo_shuffle ''hsiao'' 32 7") simp_all
qed

lemma scramble_main_exact_witness:
  "\<exists>s ws. clear_image (\<lambda>_ _. 0) demo_shuffle s [\<lparr>p_type = ''PT_LOAD'', p_paddr = 0x8004, p_memsz = 2, seg_bytes = [5, 6]\<rparr>] =
      Some (Inr \<lparr>mf_width = 40, mf_chunks = [\<lparr>base_addr = 0, chunk_words = ws\<rparr>]\<rparr>) \<and>
    take_bit 8 (ws ! 1) = 5 \<and>
    (if all_ones s ws then scramble_main (\<lambda>_ _. 0) demo_shuffle demo_top
        [\<lparr>p_type = ''PT_LOAD'', p_paddr = 0x8004, p_memsz = 2, seg_bytes = [5, 6]\<rparr>] = Some (Inl AssertionError)
     else \<exists>lines scr. scramble_main (\<lambda>_ _. 0) demo_shuffle demo_top
        [\<lparr>p_type = ''PT_LOAD'', p_paddr = 0x8004, p_memsz = 2, seg_bytes = [5, 6]\<rparr>] = Some (Inr lines) \<and>
       load_preproc 40 lines = Inr \<lparr>mf_width = 40, mf_chunks = [\<lparr>base_addr = 0, chunk_words = scr\<rparr>]\<rparr> \<and>
       (\<forall>a<ROM_SIZE_WORDS. unscramble s scr a = Inr (ws ! a)))"
proof -
  let ?segs = "[\<lparr>p_type = ''PT_LOAD'', p_paddr = 0x8004, p_memsz = 2, seg_bytes = [5, 6]\<rparr>]"
  obtain r where r: "gen_code demo_shuffle ''hsiao'' 32 7 = Some r" using demo_code by blast
  have h: "from_hjson demo_top ROM_SIZE_WORDS = Inr demo_scrambler"
    by (simp add: from_hjson_def demo_top_def demo_scrambler_def ROM_SIZE_WORDS_def ydict_get_or_None_def get_rom_ctrl_def
        get_params_def get_param_value_def Scrambler_init_def demo_int0 bit_length.simps)
  have e: "elf_ok (4 * ROM_BASE_WORD) ?segs"
    by (simp add: elf_ok_def loadable_def load_segment_of_def before_word_def ROM_BASE_WORD_def)
  have lim: "\<forall>seg\<in>set ?segs. loadable seg \<longrightarrow> seg_end (4 * ROM_BASE_WORD) seg \<le> 4 * int (ROM_SIZE_WORDS - 8)"
    by (simp add: seg_end_def ROM_BASE_WORD_def ROM_SIZE_WORDS_def)
  have rnd: "\<forall>n. fits 32 ((\<lambda>_ _. 0) (scr_key demo_scrambler + scr_nonce demo_scrambler) n)" by (simp add: fits_iff)
  obtain ws where ws: "clear_image (\<lambda>_ _. 0) demo_shuffle demo_scrambler ?segs =
      Some (Inr \<lparr>mf_width = 40, mf_chunks = [\<lparr>base_addr = 0, chunk_words = ws\<rparr>]\<rparr>)"
    "holds_segments (4 * ROM_BASE_WORD) ?segs ws"
    "if all_ones demo_scrambler ws then scramble_main (\<lambda>_ _. 0) demo_shuffle demo_top ?segs = Some (Inl AssertionError)
     else \<exists>lines scr. scramble_main (\<lambda>_ _. 0) demo_shuffle demo_top ?segs = Some (Inr lines) \<and>
       load_preproc 40 lines = Inr \<lparr>mf_width = 40, mf_chunks = [\<lparr>base_addr = 0, chunk_words = scr\<rparr>]\<rparr> \<and>
       (\<forall>a<ROM_SIZE_WORDS. unscramble demo_scrambler scr a = Inr (ws ! a))"
    using scramble_main_exact [OF h e lim rnd permutes_demo_shuffle r] by blast
  have "take_bit 8 (ws ! 1) = 5"
    using ws(2) by (simp add: holds_segments_def loadable_def ROM_BASE_WORD_def numeral_2_eq_2 less_Suc_eq all_conj_distrib take_bit_eq_mod)
  then show ?thesis using ws(1,3) by blast
qed

lemma scramble40_exact_witness:
  "if all_ones demo_small [7, 0] then scramble40 demo_small \<lparr>mf_width = 40, mf_chunks = [\<lparr>base_addr = 0, chunk_words = [7, 0]\<rparr>]\<rparr> = Inl AssertionError
   else returns (scramble40 demo_small \<lparr>mf_width = 40, mf_chunks = [\<lparr>base_addr = 0, chunk_words = [7, 0]\<rparr>]\<rparr>) (\<lambda>m. mf_width m = 40 \<and>
     (\<exists>scr. mf_chunks m = [\<lparr>base_addr = 0, chunk_words = scr\<rparr>] \<and> length scr = 2 \<and>
       (\<forall>a<2. unscramble demo_small scr a = Inr ([7, 0] ! a))))"
proof -
  have s: "scrambler_ok demo_small" by (simp add: demo_small_def scrambler_ok_def fits_iff)
  have w: "words_ok demo_small [7, 0]" by (simp add: demo_small_def words_ok_def fits_iff low_mask_eq)
  have n: "rom_size_words demo_small = 2" by (simp add: demo_small_def)
  show ?thesis by (rule scramble40_exact [OF s w mem_file.select_convs(2), unfolded n mem_file.select_convs(1)])
qed

end
