(* ===== verification/Present.thy ===== *)
theory Present
  imports Subst_Perm
begin

text \<open>
  The PRESENT block cipher of the OTP tools, \<^verbatim>\<open>util/design/lib/Present.py\<close>: key schedules for 80-bit and
  128-bit keys, encryption and decryption.  Both key lengths satisfy the contract \<open>keyed_perm\<close>.
\<close>

section \<open>Operations\<close>

text \<open>\<^verbatim>\<open>xs.index(x)\<close> for an element of the list.\<close>

definition list_index :: "'a list \<Rightarrow> 'a \<Rightarrow> nat" where
  "list_index xs x = length (takeWhile (\<lambda>y. y \<noteq> x) xs)"

definition Sbox :: "int list" where
  "Sbox = [0xc, 0x5, 0x6, 0xb, 0x9, 0x0, 0xa, 0xd, 0x3, 0xe, 0xf, 0x8, 0x4, 0x7, 0x1, 0x2]"

definition Sbox_inv :: "int list" where
  "Sbox_inv = map (\<lambda>x. int (list_index Sbox (int x))) [0..<16]"

definition PBox :: "nat list" where
  "PBox =
     [0, 16, 32, 48, 1, 17, 33, 49, 2, 18, 34, 50, 3, 19, 35, 51, 4, 20, 36, 52,
      5, 21, 37, 53, 6, 22, 38, 54, 7, 23, 39, 55, 8, 24, 40, 56, 9, 25, 41, 57,
      10, 26, 42, 58, 11, 27, 43, 59, 12, 28, 44, 60, 13, 29, 45, 61, 14, 30, 46,
      62, 15, 31, 47, 63]"

definition PBox_inv :: "nat list" where
  "PBox_inv = map (list_index PBox) [0..<64]"

fun roundkeys80 :: "nat list \<Rightarrow> int \<Rightarrow> int list result" where
  "roundkeys80 [] key = Inr []"
| "roundkeys80 (i # is) key =
     (let roundkey = drop_bit 16 key;
          key = push_bit 61 (key AND (2 ^ 19 - 1)) + drop_bit 19 key
      in bindR (py_getitem Sbox (drop_bit 76 key)) (\<lambda>s.
         let key = push_bit 76 s + (key AND (2 ^ 76 - 1));
             key = key XOR push_bit 15 (int i)
         in bindR (roundkeys80 is key) (\<lambda>roundkeys. Inr (roundkey # roundkeys))))"

definition generateRoundkeys80 :: "int \<Rightarrow> nat \<Rightarrow> int list result" where
  "generateRoundkeys80 key rounds = roundkeys80 [1..<rounds + 1] key"

fun roundkeys128 :: "nat list \<Rightarrow> int \<Rightarrow> int list result" where
  "roundkeys128 [] key = Inr []"
| "roundkeys128 (i # is) key =
     (let roundkey = drop_bit 64 key;
          key = push_bit 61 (key AND (2 ^ 67 - 1)) + drop_bit 67 key
      in bindR (py_getitem Sbox (drop_bit 124 key)) (\<lambda>s.
         bindR (py_getitem Sbox (drop_bit 120 key AND 0xF)) (\<lambda>s'.
         let key = push_bit 124 s + push_bit 120 s' + (key AND (2 ^ 120 - 1));
             key = key XOR push_bit 62 (int i)
         in bindR (roundkeys128 is key) (\<lambda>roundkeys. Inr (roundkey # roundkeys)))))"

definition generateRoundkeys128 :: "int \<Rightarrow> nat \<Rightarrow> int list result" where
  "generateRoundkeys128 key rounds = roundkeys128 [1..<rounds + 1] key"

definition addRoundKey :: "int \<Rightarrow> int \<Rightarrow> int" where
  "addRoundKey state roundkey = state XOR roundkey"

text \<open>The indices of the box layers are masked with 15 or loop counters, so they are never out of range.\<close>

definition sBoxLayer :: "int \<Rightarrow> int" where
  "sBoxLayer state =
     foldl (\<lambda>output i. output + push_bit (i * 4) (Sbox ! nat (drop_bit (i * 4) state AND 0xF))) 0 [0..<16]"

definition sBoxLayer_dec :: "int \<Rightarrow> int" where
  "sBoxLayer_dec state =
     foldl (\<lambda>output i. output + push_bit (i * 4) (Sbox_inv ! nat (drop_bit (i * 4) state AND 0xF))) 0 [0..<16]"

definition pLayer :: "int \<Rightarrow> int" where
  "pLayer state = foldl (\<lambda>output i. output + push_bit (PBox ! i) (drop_bit i state AND 0x01)) 0 [0..<64]"

definition pLayer_dec :: "int \<Rightarrow> int" where
  "pLayer_dec state = foldl (\<lambda>output i. output + push_bit (PBox_inv ! i) (drop_bit i state AND 0x01)) 0 [0..<64]"

record present =
  pr_rounds :: nat
  pr_roundkeys :: "int list"

definition Present_init :: "int \<Rightarrow> nat \<Rightarrow> nat \<Rightarrow> present result" where
  "Present_init key rounds keylen =
     (if keylen = 80 \<and> key < 2 ^ 80 then
        bindR (generateRoundkeys80 key rounds) (\<lambda>rks. Inr \<lparr>pr_rounds = rounds, pr_roundkeys = rks\<rparr>)
      else if keylen = 128 \<and> key < 2 ^ 128 then
        bindR (generateRoundkeys128 key rounds) (\<lambda>rks. Inr \<lparr>pr_rounds = rounds, pr_roundkeys = rks\<rparr>)
      else Inl ValueError)"

fun encrypt_loop :: "int list \<Rightarrow> nat list \<Rightarrow> int \<Rightarrow> int result" where
  "encrypt_loop rks [] state = Inr state"
| "encrypt_loop rks (i # is) state =
     bindR (py_getitem rks (int i)) (\<lambda>rk. encrypt_loop rks is (pLayer (sBoxLayer (addRoundKey state rk))))"

definition Present_encrypt :: "present \<Rightarrow> int \<Rightarrow> int result" where
  "Present_encrypt c block =
     bindR (encrypt_loop (pr_roundkeys c) [0..<pr_rounds c - 1] block) (\<lambda>state.
     bindR (py_getitem (pr_roundkeys c) (- 1)) (\<lambda>rk. Inr (addRoundKey state rk)))"

fun decrypt_loop :: "int list \<Rightarrow> nat list \<Rightarrow> int \<Rightarrow> int result" where
  "decrypt_loop rks [] state = Inr state"
| "decrypt_loop rks (i # is) state =
     bindR (py_getitem rks (- int i - 1)) (\<lambda>rk. decrypt_loop rks is (sBoxLayer_dec (pLayer_dec (addRoundKey state rk))))"

definition Present_decrypt :: "present \<Rightarrow> int \<Rightarrow> int result" where
  "Present_decrypt c block =
     bindR (decrypt_loop (pr_roundkeys c) [0..<pr_rounds c - 1] block) (\<lambda>state.
     bindR (py_getitem (pr_roundkeys c) 0) (\<lambda>rk. Inr (addRoundKey state rk)))"

section \<open>The layers\<close>

lemma le_val_snoc: "le_val w (xs @ [x]) = le_val w xs + push_bit (w * length xs) x"
  by (induction xs) (simp_all add: push_bit_eq_mult power_add algebra_simps)

lemma box_layer_eq:
  "foldl (\<lambda>output i. output + push_bit (i * 4) (f (drop_bit (i * 4) x AND 0xF))) 0 [0..<n] = le_val 4 (map f (le_split 4 n x))"
proof (induction n)
  case (Suc n)
  have "le_split 4 (Suc n) x = le_split 4 n x @ [drop_bit (n * 4) x AND 0xF]"
    by (rule nth_equalityI) (auto simp: le_split_nth nth_append and_15 less_Suc_eq mult.commute simp del: le_split.simps)
  then show ?case using Suc by (simp add: le_val_snoc mult.commute)
qed simp

definition box_ok :: "int list \<Rightarrow> bool" where
  "box_ok b \<longleftrightarrow> length b = 16 \<and> list_all (fits 4) b"

lemma box_layer_inverse:
  assumes "box_ok b" and "\<forall>k<16. b' ! nat (b ! k) = int k" and "fits 64 x"
  shows "le_val 4 (map (\<lambda>v. b' ! nat v) (le_split 4 16 (le_val 4 (map (\<lambda>v. b ! nat v) (le_split 4 16 x))))) = x"
    and "fits 64 (le_val 4 (map (\<lambda>v. b ! nat v) (le_split 4 16 x)))"
proof -
  have v: "0 \<le> v \<and> nat v < 16" if "v \<in> set (le_split 4 16 x)" for v
    using le_split_fits [of 4 16 x] that by (auto simp: list_all_iff fits_iff)
  have all: "list_all (fits 4) (map (\<lambda>v. b ! nat v) (le_split 4 16 x))"
    using assms(1) v by (auto simp: list_all_iff box_ok_def)
  then have s: "le_split 4 16 (le_val 4 (map (\<lambda>v. b ! nat v) (le_split 4 16 x))) = map (\<lambda>v. b ! nat v) (le_split 4 16 x)"
    using le_split_le_val [OF all] by simp
  have "map (\<lambda>v. b' ! nat v) (map (\<lambda>v. b ! nat v) (le_split 4 16 x)) = map (\<lambda>v. v) (le_split 4 16 x)"
    unfolding map_map using v assms(2) by (intro map_cong) auto
  then show "le_val 4 (map (\<lambda>v. b' ! nat v) (le_split 4 16 (le_val 4 (map (\<lambda>v. b ! nat v) (le_split 4 16 x))))) = x"
    using s le_val_eq_self [of 4 16 x] assms(3) by simp
  show "fits 64 (le_val 4 (map (\<lambda>v. b ! nat v) (le_split 4 16 x)))" using le_val_fits [OF all] by simp
qed

lemma sbox_tables:
  "box_ok Sbox" "box_ok Sbox_inv" "\<forall>k<16. Sbox_inv ! nat (Sbox ! k) = int k" "\<forall>k<16. Sbox ! nat (Sbox_inv ! k) = int k"
  by code_simp+

lemma sBoxLayer_eq:
  "sBoxLayer x = le_val 4 (map (\<lambda>v. Sbox ! nat v) (le_split 4 16 x))"
  "sBoxLayer_dec x = le_val 4 (map (\<lambda>v. Sbox_inv ! nat v) (le_split 4 16 x))"
  unfolding sBoxLayer_def sBoxLayer_dec_def
  by (rule box_layer_eq [of "\<lambda>v. Sbox ! nat v"], rule box_layer_eq [of "\<lambda>v. Sbox_inv ! nat v"])

lemma sBoxLayer_inverse:
  assumes "fits 64 x"
  shows "sBoxLayer_dec (sBoxLayer x) = x" "fits 64 (sBoxLayer x)" "sBoxLayer (sBoxLayer_dec x) = x" "fits 64 (sBoxLayer_dec x)"
  unfolding sBoxLayer_eq
  using box_layer_inverse [OF sbox_tables(1,3) assms] box_layer_inverse [OF sbox_tables(2,4) assms] by blast+

lemma bit_perm_layer:
  assumes "distinct (map p is)"
  shows "bit (foldl (\<lambda>output i. output + push_bit (p i) (drop_bit i x AND 0x01)) 0 is) k \<longleftrightarrow>
    (\<exists>i\<in>set is. p i = k \<and> bit (x :: int) i)"
  using assms
proof (induction "is" arbitrary: k rule: rev_induct)
  case (snoc i "is")
  let ?out = "foldl (\<lambda>output i. output + push_bit (p i) (drop_bit i x AND 0x01)) 0 is"
  have "drop_bit i x AND 1 = of_bool (bit x i)" by (simp add: bit_iff_odd_drop_bit and_one_eq mod_2_eq_odd)
  moreover have "p i \<notin> p ` set is" using snoc.prems by simp
  then have "\<not> bit ?out (p i)" using snoc by (simp only: distinct_append map_append) (metis imageI)
  ultimately have "?out + push_bit (p i) (drop_bit i x AND 1) = ?out OR push_bit (p i) (of_bool (bit x i))"
    by (intro trans [OF _ disjunctive_add_eq_or] bit_eqI) (auto simp: bit_simps)
  then show ?case using snoc by (auto simp: bit_simps)
qed simp

text \<open>The table transposes a matrix of four columns, and its inverse one of sixteen.\<close>

lemma PBox_eq: "PBox = map (\<lambda>i. 16 * (i mod 4) + i div 4) [0..<64]"
  by code_simp

lemma PBox_nth: "i < 64 \<Longrightarrow> PBox ! i = 16 * (i mod 4) + i div 4"
  by (simp add: PBox_eq del: upt_rec_numeral)

lemma transpose_inverse:
  fixes k :: nat
  assumes "k < 64"
  shows "4 * ((16 * (k mod 4) + k div 4) mod 16) + (16 * (k mod 4) + k div 4) div 16 = k"
    and "16 * ((4 * (k mod 16) + k div 16) mod 4) + (4 * (k mod 16) + k div 16) div 4 = k"
    and "16 * (k mod 4) + k div 4 < 64" and "4 * (k mod 16) + k div 16 < 64"
proof -
  have q: "k div 4 < 16" "k mod 4 < 4" and r: "k div 16 < 4" "k mod 16 < 16" using assms by auto
  show "4 * ((16 * (k mod 4) + k div 4) mod 16) + (16 * (k mod 4) + k div 4) div 16 = k" using q by simp
  show "16 * ((4 * (k mod 16) + k div 16) mod 4) + (4 * (k mod 16) + k div 16) div 4 = k" using r by simp
  show "16 * (k mod 4) + k div 4 < 64" "4 * (k mod 16) + k div 16 < 64" using q r by linarith+
qed

lemma list_index_nth: "distinct xs \<Longrightarrow> i < length xs \<Longrightarrow> list_index xs (xs ! i) = i"
proof (induction xs arbitrary: i)
  case (Cons x xs)
  then show ?case by (cases i) (auto simp: list_index_def)
qed simp

lemma distinct_PBox: "distinct PBox"
  unfolding PBox_eq distinct_map
  by (rule conjI [OF distinct_upt], rule inj_on_inverseI [where g = "\<lambda>p. 4 * (p mod 16) + p div 16"])
    (simp only: set_upt atLeastLessThan_iff transpose_inverse)

lemma PBox_inv_nth: "k < 64 \<Longrightarrow> PBox_inv ! k = 4 * (k mod 16) + k div 16"
proof -
  assume k: "k < 64"
  let ?i = "4 * (k mod 16) + k div 16"
  have "PBox ! ?i = k" using PBox_nth [OF transpose_inverse(4) [OF k]] transpose_inverse(2) [OF k] by simp
  moreover have "length PBox = 64" by (simp add: PBox_def)
  ultimately have "list_index PBox k = ?i" using list_index_nth [OF distinct_PBox, of ?i] transpose_inverse(4) [OF k] by simp
  then show ?thesis using k by (simp add: PBox_inv_def del: upt_rec_numeral)
qed

lemma pbox_tables:
  "\<forall>k<64. PBox ! k < 64 \<and> PBox_inv ! (PBox ! k) = k" "\<forall>k<64. PBox_inv ! k < 64 \<and> PBox ! (PBox_inv ! k) = k"
  using transpose_inverse PBox_nth PBox_inv_nth by simp_all

lemma pbox_distinct: "distinct (map (\<lambda>i. PBox ! i) [0..<64])" "distinct (map (\<lambda>i. PBox_inv ! i) [0..<64])"
  unfolding distinct_map
  by (rule conjI [OF distinct_upt], rule inj_on_inverseI [where g = "\<lambda>p. PBox_inv ! p"], use pbox_tables in simp,
      rule conjI [OF distinct_upt], rule inj_on_inverseI [where g = "\<lambda>p. PBox ! p"], use pbox_tables in simp)

lemma bit_pLayer:
  "bit (pLayer x) k \<longleftrightarrow> (\<exists>i<64. PBox ! i = k \<and> bit x i)" "bit (pLayer_dec x) k \<longleftrightarrow> (\<exists>i<64. PBox_inv ! i = k \<and> bit x i)"
  unfolding pLayer_def pLayer_dec_def bit_perm_layer [OF pbox_distinct(1)] bit_perm_layer [OF pbox_distinct(2)]
  by auto

lemma pLayer_inverse:
  assumes "fits 64 x"
  shows "pLayer_dec (pLayer x) = x" "fits 64 (pLayer x)" "pLayer (pLayer_dec x) = x" "fits 64 (pLayer_dec x)"
proof -
  have x: "bit x i \<Longrightarrow> i < 64" for i using assms by (simp add: fits_bits)
  show "pLayer_dec (pLayer x) = x" by (rule bit_eqI) (use pbox_tables(1) x in \<open>simp only: bit_pLayer, metis\<close>)
  show "pLayer (pLayer_dec x) = x" by (rule bit_eqI) (use pbox_tables(2) x in \<open>simp only: bit_pLayer, metis\<close>)
  show "fits 64 (pLayer x)" "fits 64 (pLayer_dec x)"
    using pbox_tables by (auto simp: fits_bits bit_pLayer)
qed

section \<open>Rounds\<close>

definition enc_state :: "int list \<Rightarrow> int \<Rightarrow> nat \<Rightarrow> int" where
  "enc_state rks x n = foldl (\<lambda>s i. pLayer (sBoxLayer (s XOR rks ! i))) x [0..<n]"

definition dec_state :: "int list \<Rightarrow> int \<Rightarrow> nat \<Rightarrow> int" where
  "dec_state rks x n = foldl (\<lambda>s i. sBoxLayer_dec (pLayer_dec (s XOR rks ! (length rks - 1 - i)))) x [0..<n]"

lemma encrypt_loop_eq:
  "\<forall>i\<in>set is. i < length rks \<Longrightarrow> encrypt_loop rks is x = Inr (foldl (\<lambda>s i. pLayer (sBoxLayer (s XOR rks ! i))) x is)"
  by (induction "is" arbitrary: x) (simp_all add: addRoundKey_def)

lemma getitem_from_end: "i < length xs \<Longrightarrow> py_getitem xs (- int i - 1) = Inr (xs ! (length xs - 1 - i))"
proof -
  assume i: "i < length xs"
  have "nat (int (length xs) + (- int i - 1)) = length xs - 1 - i" using i by linarith
  then show ?thesis using i by (simp add: py_getitem_def py_index_def)
qed

lemma decrypt_loop_eq:
  "\<forall>i\<in>set is. i < length rks \<Longrightarrow>
    decrypt_loop rks is x = Inr (foldl (\<lambda>s i. sBoxLayer_dec (pLayer_dec (s XOR rks ! (length rks - 1 - i)))) x is)"
  by (induction "is" arbitrary: x) (simp_all add: addRoundKey_def getitem_from_end)

lemma Present_eq:
  assumes "pr_rounds c = Suc n" and "length (pr_roundkeys c) = Suc n"
  shows "Present_encrypt c x = Inr (enc_state (pr_roundkeys c) x n XOR pr_roundkeys c ! n)"
    and "Present_decrypt c x = Inr (dec_state (pr_roundkeys c) x n XOR pr_roundkeys c ! 0)"
  using assms getitem_from_end [of 0 "pr_roundkeys c"]
  by (simp_all add: Present_encrypt_def Present_decrypt_def encrypt_loop_eq decrypt_loop_eq enc_state_def dec_state_def
      addRoundKey_def)

lemma state_fits:
  assumes "list_all (fits 64) rks" and "fits 64 x" and "n < length rks"
  shows "fits 64 (enc_state rks x n)" and "fits 64 (dec_state rks x n)"
  using assms(2,3)
proof (induction n)
  case (Suc n)
  {
    case 1
    then have "fits 64 (enc_state rks x n XOR rks ! n)" using Suc.IH(1) assms(1) by (simp add: fits_xor list_all_length)
    then show ?case using sBoxLayer_inverse(2) pLayer_inverse(2) by (simp add: enc_state_def)
  next
    case 2
    then have "fits 64 (dec_state rks x n XOR rks ! (length rks - 1 - n))"
      using Suc.IH(2) assms(1) by (simp add: fits_xor list_all_length)
    then show ?case using sBoxLayer_inverse(4) pLayer_inverse(4) by (simp add: dec_state_def)
  }
qed (simp_all add: enc_state_def dec_state_def)

text \<open>After \<open>m\<close> rounds of decryption the state is that of the encryption before its last \<open>m\<close> rounds, and vice versa.\<close>

lemma dec_after_enc:
  assumes "list_all (fits 64) rks" and "length rks = Suc n" and "fits 64 x" and "m \<le> n"
  shows "dec_state rks (enc_state rks x n XOR rks ! n) m = enc_state rks x (n - m) XOR rks ! (n - m)"
  using assms(4)
proof (induction m)
  case (Suc m)
  let ?k = "n - Suc m"
  have k: "n - m = Suc ?k" "?k < length rks" using Suc.prems assms(2) by auto
  have f: "fits 64 (enc_state rks x ?k XOR rks ! ?k)"
    using state_fits(1) [OF assms(1,3) k(2)] assms(1) k(2) by (simp add: fits_xor list_all_length)
  have "dec_state rks (enc_state rks x n XOR rks ! n) (Suc m) =
      sBoxLayer_dec (pLayer_dec ((enc_state rks x (n - m) XOR rks ! (n - m)) XOR rks ! (n - m)))"
    using Suc assms(2) by (simp add: dec_state_def)
  also have "\<dots> = sBoxLayer_dec (pLayer_dec (pLayer (sBoxLayer (enc_state rks x ?k XOR rks ! ?k))))"
    unfolding xor_cancel by (simp add: k(1) enc_state_def)
  finally show ?case using sBoxLayer_inverse [OF f] pLayer_inverse(1) by simp
qed (simp add: dec_state_def)

lemma enc_after_dec:
  assumes "list_all (fits 64) rks" and "length rks = Suc n" and "fits 64 x" and "m \<le> n"
  shows "enc_state rks (dec_state rks x n XOR rks ! 0) m = dec_state rks x (n - m) XOR rks ! m"
  using assms(4)
proof (induction m)
  case (Suc m)
  let ?k = "n - Suc m"
  have k: "n - m = Suc ?k" "?k < length rks" "length rks - 1 - ?k = Suc m" using Suc.prems assms(2) by auto
  have f: "fits 64 (dec_state rks x ?k XOR rks ! Suc m)"
    using state_fits(2) [OF assms(1,3) k(2)] assms(1,2) Suc.prems by (simp add: fits_xor list_all_length)
  have "enc_state rks (dec_state rks x n XOR rks ! 0) (Suc m) =
      pLayer (sBoxLayer ((dec_state rks x (n - m) XOR rks ! m) XOR rks ! m))"
    using Suc by (simp add: enc_state_def)
  also have "\<dots> = pLayer (sBoxLayer (sBoxLayer_dec (pLayer_dec (dec_state rks x ?k XOR rks ! Suc m))))"
    unfolding xor_cancel using k by (simp add: dec_state_def)
  finally show ?case using sBoxLayer_inverse(3) pLayer_inverse [OF f] by simp
qed (simp add: enc_state_def)

lemma Present_inverse:
  assumes "pr_rounds c = Suc n" and "length (pr_roundkeys c) = Suc n" and "list_all (fits 64) (pr_roundkeys c)"
    and "fits 64 x"
  shows "returns (Present_encrypt c x) (\<lambda>y. fits 64 y \<and> Present_decrypt c y = Inr x)"
    and "returns (Present_decrypt c x) (\<lambda>y. fits 64 y \<and> Present_encrypt c y = Inr x)"
proof -
  let ?r = "pr_roundkeys c"
  have k: "fits 64 (?r ! 0)" "fits 64 (?r ! n)" using assms(2,3) by (simp_all add: list_all_length)
  have "dec_state ?r (enc_state ?r x n XOR ?r ! n) n = x XOR ?r ! 0"
    using dec_after_enc [OF assms(3,2,4), of n] by (simp add: enc_state_def)
  then show "returns (Present_encrypt c x) (\<lambda>y. fits 64 y \<and> Present_decrypt c y = Inr x)"
    using state_fits(1) [OF assms(3,4), of n] k assms(2) by (simp add: Present_eq [OF assms(1,2)] fits_xor xor_cancel)
  have "enc_state ?r (dec_state ?r x n XOR ?r ! 0) n = x XOR ?r ! n"
    using enc_after_dec [OF assms(3,2,4), of n] by (simp add: dec_state_def)
  then show "returns (Present_decrypt c x) (\<lambda>y. fits 64 y \<and> Present_encrypt c y = Inr x)"
    using state_fits(2) [OF assms(3,4), of n] k assms(2) by (simp add: Present_eq [OF assms(1,2)] fits_xor xor_cancel)
qed

section \<open>Key schedules\<close>

lemma fits_concat:
  assumes "fits b y" and "fits a x"
  shows "fits (b + a) (push_bit a y + x)"
proof -
  have "push_bit a y + x = push_bit a y OR x" using or_push_bit_add [OF assms(2), of y] by simp
  then show ?thesis using assms unfolding fits_bits by (fastforce simp: bit_simps)
qed

lemma fits_drop: "fits (a + b) x \<Longrightarrow> fits b (drop_bit a x)"
  unfolding fits_bits bit_drop_bit_eq by fastforce

lemma fits_low: "fits n (x AND (2 ^ n - 1))"
  using fits_and_low_mask [of n x] by (simp add: low_mask_eq)

lemma Sbox_item: "fits 4 v \<Longrightarrow> \<exists>s. py_getitem Sbox v = Inr s \<and> fits 4 s"
  using sbox_tables(1) by (simp add: fits_iff box_ok_def list_all_length nat_less_iff)

lemma fits_salt: "fits n k \<Longrightarrow> fits b (int i) \<Longrightarrow> a + b \<le> n \<Longrightarrow> fits n (k XOR push_bit a (int i))"
  unfolding fits_bits by (fastforce simp: bit_simps)

lemma roundkeys80_eq:
  assumes "fits 80 key" and "\<forall>i\<in>set is. fits 64 (int i)"
  shows "returns (roundkeys80 is key) (\<lambda>rks. length rks = length is \<and> list_all (fits 64) rks)"
  using assms
proof (induction "is" arbitrary: key)
  case (Cons i "is")
  let ?k = "push_bit 61 (key AND (2 ^ 19 - 1)) + drop_bit 19 key"
  have rk: "fits 64 (drop_bit 16 key)" using Cons.prems(1) by (intro fits_drop) simp
  have "fits 61 (drop_bit 19 key)" using Cons.prems(1) by (intro fits_drop) simp
  from fits_concat [OF fits_low [of 19 key] this] have k: "fits 80 ?k" by simp
  then have "fits 4 (drop_bit 76 ?k)" by (intro fits_drop) simp
  then obtain s where s: "py_getitem Sbox (drop_bit 76 ?k) = Inr s" "fits 4 s" using Sbox_item by blast
  let ?k' = "(push_bit 76 s + (?k AND (2 ^ 76 - 1))) XOR push_bit 15 (int i)"
  have "fits 80 (push_bit 76 s + (?k AND (2 ^ 76 - 1)))" using fits_concat [OF s(2) fits_low [of 76]] by simp
  then have "fits 80 ?k'" using Cons.prems(2) by (intro fits_salt [of 80 _ 64]) auto
  then have "returns (roundkeys80 is ?k') (\<lambda>rks. length rks = length is \<and> list_all (fits 64) rks)"
    using Cons.IH Cons.prems(2) by simp
  then show ?case
    using s rk unfolding roundkeys80.simps Let_def s(1) by (auto elim!: returnsE)
qed simp

lemma roundkeys128_eq:
  assumes "fits 128 key" and "\<forall>i\<in>set is. fits 64 (int i)"
  shows "returns (roundkeys128 is key) (\<lambda>rks. length rks = length is \<and> list_all (fits 64) rks)"
  using assms
proof (induction "is" arbitrary: key)
  case (Cons i "is")
  let ?k = "push_bit 61 (key AND (2 ^ 67 - 1)) + drop_bit 67 key"
  have rk: "fits 64 (drop_bit 64 key)" using Cons.prems(1) by (intro fits_drop) simp
  have "fits 61 (drop_bit 67 key)" using Cons.prems(1) by (intro fits_drop) simp
  from fits_concat [OF fits_low [of 67 key] this] have k: "fits 128 ?k" by simp
  then have "fits 4 (drop_bit 124 ?k)" by (intro fits_drop) simp
  then obtain s where s: "py_getitem Sbox (drop_bit 124 ?k) = Inr s" "fits 4 s" using Sbox_item by blast
  have "fits 4 (drop_bit 120 ?k AND 0xF)" by (simp add: and_15)
  then obtain s' where s': "py_getitem Sbox (drop_bit 120 ?k AND 0xF) = Inr s'" "fits 4 s'" using Sbox_item by blast
  let ?k' = "(push_bit 124 s + push_bit 120 s' + (?k AND (2 ^ 120 - 1))) XOR push_bit 62 (int i)"
  have "push_bit 124 s + push_bit 120 s' + (?k AND (2 ^ 120 - 1)) =
      push_bit 124 s + (push_bit 120 s' + (?k AND (2 ^ 120 - 1)))" by simp
  moreover have "fits 124 (push_bit 120 s' + (?k AND (2 ^ 120 - 1)))" using fits_concat [OF s'(2) fits_low [of 120]] by simp
  from fits_concat [OF s(2) this] have "fits 128 (push_bit 124 s + (push_bit 120 s' + (?k AND (2 ^ 120 - 1))))" by simp
  ultimately have "fits 128 (push_bit 124 s + push_bit 120 s' + (?k AND (2 ^ 120 - 1)))" by (simp only:)
  then have "fits 128 ?k'" using Cons.prems(2) by (intro fits_salt [of 128 _ 64]) auto
  then have "returns (roundkeys128 is ?k') (\<lambda>rks. length rks = length is \<and> list_all (fits 64) rks)"
    using Cons.IH Cons.prems(2) by simp
  then show ?case
    using s s' rk unfolding roundkeys128.simps Let_def s(1) s'(1) by (auto elim!: returnsE)
qed simp

definition rounds_ok :: "nat \<Rightarrow> bool" where
  "rounds_ok n \<longleftrightarrow> 0 < n \<and> n < 2 ^ 64"

lemma Present_init_eq:
  assumes "fits keylen key" and "keylen = 80 \<or> keylen = 128" and "rounds_ok n"
  obtains c where "Present_init key n keylen = Inr c" and "pr_rounds c = n" and "length (pr_roundkeys c) = n"
    and "list_all (fits 64) (pr_roundkeys c)"
proof -
  have i: "\<forall>i\<in>set [1..<n + 1]. fits 64 (int i)"
  proof
    fix i
    assume "i \<in> set [1..<n + 1]"
    then have "i < 2 ^ 64" using assms(3) by (auto simp: rounds_ok_def)
    then show "fits 64 (int i)" unfolding fits_iff by (metis of_nat_0_le_iff of_nat_less_iff of_nat_numeral of_nat_power)
  qed
  show ?thesis
  proof (cases "keylen = 80")
    case True
    then show ?thesis
      using roundkeys80_eq [OF _ i, of key] assms(1) that
      by (auto simp: Present_init_def generateRoundkeys80_def fits_iff elim!: returnsE)
  next
    case False
    then show ?thesis
      using roundkeys128_eq [OF _ i, of key] assms(1,2) that
      by (auto simp: Present_init_def generateRoundkeys128_def fits_iff elim!: returnsE)
  qed
qed

text \<open>A cipher object is made for a key and used for one block.\<close>

definition present_enc :: "nat \<Rightarrow> nat \<Rightarrow> int \<Rightarrow> int \<Rightarrow> int result" where
  "present_enc rounds keylen key x = bindR (Present_init key rounds keylen) (\<lambda>c. Present_encrypt c x)"

definition present_dec :: "nat \<Rightarrow> nat \<Rightarrow> int \<Rightarrow> int \<Rightarrow> int result" where
  "present_dec rounds keylen key x = bindR (Present_init key rounds keylen) (\<lambda>c. Present_decrypt c x)"

lemma present_keyed_perm:
  assumes "keylen = 80 \<or> keylen = 128" and "rounds_ok n"
  shows "keyed_perm 64 keylen (present_enc n keylen) (present_dec n keylen)"
proof
  fix key x
  assume key: "fits keylen key" and x: "fits 64 x"
  obtain c where c: "Present_init key n keylen = Inr c" "pr_rounds c = n" "length (pr_roundkeys c) = n"
    "list_all (fits 64) (pr_roundkeys c)" using Present_init_eq [OF key assms] .
  obtain m where "n = Suc m" using assms(2) by (cases n) (auto simp: rounds_ok_def)
  with c Present_inverse [of c m x] x
  show "returns (present_enc n keylen key x) (\<lambda>y. fits 64 y \<and> present_dec n keylen key y = Inr x)"
    and "returns (present_dec n keylen key x) (\<lambda>y. fits 64 y \<and> present_enc n keylen key y = Inr x)"
    by (simp_all add: present_enc_def present_dec_def)
qed

text \<open>The default number of rounds, for both key lengths.\<close>

interpretation present80: keyed_perm 64 80 "present_enc 32 80" "present_dec 32 80"
  by (rule present_keyed_perm) (simp_all add: rounds_ok_def)

interpretation present128: keyed_perm 64 128 "present_enc 32 128" "present_dec 32 128"
  by (rule present_keyed_perm) (simp_all add: rounds_ok_def)

text \<open>
  C8: PRESENT decryption undoes encryption and encryption undoes decryption, for every key of 80 or 128
  bits, every number of rounds from 1 up to \<open>2 ^ 64\<close>, and every 64-bit block; neither raises.
\<close>

theorem present_round_trip:
  assumes "keylen = 80 \<or> keylen = 128" and "0 < rounds" and "rounds < 2 ^ 64" and "fits keylen key" and "fits 64 x"
  shows "returns (Present_init key rounds keylen) (\<lambda>c.
    returns (Present_encrypt c x) (\<lambda>y. fits 64 y \<and> Present_decrypt c y = Inr x) \<and>
    returns (Present_decrypt c x) (\<lambda>y. fits 64 y \<and> Present_encrypt c y = Inr x))"
proof -
  have r: "rounds_ok rounds" using assms(2,3) by (simp add: rounds_ok_def)
  obtain c where c: "Present_init key rounds keylen = Inr c" "pr_rounds c = rounds" "length (pr_roundkeys c) = rounds"
    "list_all (fits 64) (pr_roundkeys c)" using Present_init_eq [OF assms(4,1) r] .
  obtain m where "rounds = Suc m" using assms(2) by (cases rounds) auto
  then show ?thesis using c Present_inverse [of c m x] assms(5) by simp
qed

lemma present_round_trip_witness:
  "returns (Present_init 0x0123456789abcdef 32 128) (\<lambda>c.
    returns (Present_encrypt c 5) (\<lambda>y. fits 64 y \<and> Present_decrypt c y = Inr 5))"
  by (rule returns_mono [OF present_round_trip [of 128 32 "0x0123456789abcdef" 5]]) (simp_all add: fits_iff)

end
