(* ===== verification/Reggen_Lib.thy ===== *)
theory Reggen_Lib
  imports Yaml Py_Numbers
begin

text \<open>
  The register tool, part 1: the schema checks of \<^verbatim>\<open>util/reggen/lib.py\<close> on parsed Hjson values.  The Hjson
  loader is a library; its values are those of the type of parsed YAML (a number with a fraction does
  not occur in register descriptions).  The \<^verbatim>\<open>what\<close> arguments only name objects in error messages.
\<close>

section \<open>Operations\<close>

definition VERILOG_KEYWORDS :: "string list" where
  "VERILOG_KEYWORDS = [
    ''alias'', ''always'', ''always_comb'', ''always_ff'', ''always_latch'', ''and'', ''assert'', ''assign'',
    ''assume'', ''automatic'', ''before'', ''begin'', ''bind'', ''bins'', ''binsof'', ''bit'', ''break'',
    ''buf'', ''bufif0'', ''bufif1'', ''byte'', ''case'', ''casex'', ''casez'', ''cell'', ''chandle'',
    ''class'', ''clocking'', ''cmos'', ''config'', ''const'', ''constraint'', ''context'', ''continue'',
    ''cover'', ''covergroup'', ''coverpoint'', ''cross'', ''deassign'', ''default'', ''defparam'', ''design'',
    ''disable'', ''dist'', ''do'', ''edge'', ''else'', ''end'', ''endcase'', ''endclass'', ''endclocking'',
    ''endconfig'', ''endfunction'', ''endgenerate'', ''endgroup'', ''endinterface'', ''endmodule'',
    ''endpackage'', ''endprimitive'', ''endprogram'', ''endproperty'', ''endspecify'', ''endsequence'',
    ''endtable'', ''endtask'', ''enum'', ''event'', ''expect'', ''export'', ''extends'', ''extern'', ''final'',
    ''first_match'', ''for'', ''force'', ''foreach'', ''forever'', ''fork'', ''forkjoin'', ''function'',
    ''generate'', ''genvar'', ''highz0'', ''highz1'', ''if'', ''iff'', ''ifnone'', ''ignore_bins'',
    ''illegal_bins'', ''import'', ''incdir'', ''include'', ''initial'', ''inout'', ''input'', ''inside'',
    ''instance'', ''int'', ''integer'', ''interface'', ''intersect'', ''join'', ''join_any'', ''join_none'',
    ''large'', ''liblist'', ''library'', ''local'', ''localparam'', ''logic'', ''longint'', ''macromodule'',
    ''matches'', ''medium'', ''modport'', ''module'', ''nand'', ''negedge'', ''new'', ''nmos'', ''nor'',
    ''noshowcancelled'', ''not'', ''notif0'', ''notif1'', ''null'', ''or'', ''output'', ''package'',
    ''packed'', ''parameter'', ''pmos'', ''posedge'', ''primitive'', ''priority'', ''program'', ''property'',
    ''protected'', ''pull0'', ''pull1'', ''pulldown'', ''pullup'', ''pulsestyle_onevent'',
    ''pulsestyle_ondetect'', ''pure'', ''rand'', ''randc'', ''randcase'', ''randsequence'', ''rcmos'',
    ''real'', ''realtime'', ''ref'', ''reg'', ''release'', ''repeat'', ''return'', ''rnmos'', ''rpmos'',
    ''rtran'', ''rtranif0'', ''rtranif1'', ''scalared'', ''sequence'', ''shortint'', ''shortreal'',
    ''showcancelled'', ''signed'', ''small'', ''solve'', ''specify'', ''specparam'', ''static'', ''string'',
    ''strong0'', ''strong1'', ''struct'', ''super'', ''supply0'', ''supply1'', ''table'', ''tagged'', ''task'',
    ''this'', ''throughout'', ''time'', ''timeprecision'', ''timeunit'', ''tran'', ''tranif0'', ''tranif1'',
    ''tri'', ''tri0'', ''tri1'', ''triand'', ''trior'', ''trireg'', ''type'', ''typedef'', ''union'',
    ''unique'', ''unsigned'', ''use'', ''uwire'', ''var'', ''vectored'', ''virtual'', ''void'', ''wait'',
    ''wait_order'', ''wand'', ''weak0'', ''weak1'', ''while'', ''wildcard'', ''wire'', ''with'', ''within'',
    ''wor'', ''xnor'', ''xor'']"

definition lib_check_str_dict :: "yaml \<Rightarrow> yaml_dict result" where
  "lib_check_str_dict obj =
     (case obj of
        YDict d \<Rightarrow> if list_all (\<lambda>(k, v). case k of YStr s \<Rightarrow> True | _ \<Rightarrow> False) d then Inr d else Inl ValueError
      | _ \<Rightarrow> Inl ValueError)"

definition lib_check_keys :: "yaml \<Rightarrow> string list \<Rightarrow> string list \<Rightarrow> yaml_dict result" where
  "lib_check_keys obj required_keys optional_keys =
     bindR (lib_check_str_dict obj) (\<lambda>od.
     require (distinct (required_keys @ optional_keys))
       (let missing = filter (\<lambda>k. ydict_get od k = None) required_keys;
            unexpected = filter (\<lambda>k. k \<notin> set (map YStr (required_keys @ optional_keys))) (map fst od)
        in if missing \<noteq> [] \<or> unexpected \<noteq> [] then Inl ValueError else Inr od))"

definition lib_check_str :: "yaml \<Rightarrow> string result" where
  "lib_check_str obj = (case obj of YStr s \<Rightarrow> Inr s | _ \<Rightarrow> Inl ValueError)"

definition is_name_start :: "char \<Rightarrow> bool" where
  "is_name_start c \<longleftrightarrow>
     (let n = char_code c in 97 \<le> n \<and> n \<le> 122 \<or> 65 \<le> n \<and> n \<le> 90 \<or> n = 95)"

definition is_name_char :: "char \<Rightarrow> bool" where
  "is_name_char c \<longleftrightarrow> is_name_start c \<or> is_digit c"

text \<open>The regular expression of a symbol, whose end marker also matches before a final newline.\<close>

definition name_match :: "string \<Rightarrow> bool" where
  "name_match s =
     (case s of [] \<Rightarrow> False | c # cs \<Rightarrow> is_name_start c \<and> at_end (dropWhile is_name_char cs))"

definition check_name :: "yaml \<Rightarrow> string result" where
  "check_name obj =
     bindR (lib_check_str obj) (\<lambda>as_str.
     if \<not> name_match as_str then Inl ValueError
     else if as_str \<in> set VERILOG_KEYWORDS then Inl ValueError
     else Inr as_str)"

definition lib_check_bool :: "yaml \<Rightarrow> bool result" where
  "lib_check_bool obj =
     (case obj of
        YStr s \<Rightarrow>
          let l = py_lower s
          in if l = ''true'' \<or> l = ''1'' then Inr True
             else if l = ''false'' \<or> l = ''0'' then Inr False
             else Inl ValueError
      | YBool b \<Rightarrow> Inr b
      | _ \<Rightarrow> Inl ValueError)"

definition lib_check_list :: "yaml \<Rightarrow> yaml list result" where
  "lib_check_list obj = (case obj of YList l \<Rightarrow> Inr l | _ \<Rightarrow> Inl ValueError)"

definition check_str_list :: "yaml \<Rightarrow> string list result" where
  "check_str_list obj = bindR (lib_check_list obj) (mapR lib_check_str)"

definition check_name_list :: "yaml \<Rightarrow> string list result" where
  "check_name_list obj = bindR (lib_check_list obj) (mapR check_name)"

text \<open>A Boolean is an integer in Python and stands for 0 or 1.\<close>

definition lib_check_int :: "yaml \<Rightarrow> int result" where
  "lib_check_int obj =
     (case obj of
        YInt n \<Rightarrow> Inr n
      | YBool b \<Rightarrow> Inr (py_int b)
      | YStr s \<Rightarrow> (case py_int0 s of Some n \<Rightarrow> Inr n | None \<Rightarrow> Inl ValueError)
      | _ \<Rightarrow> Inl ValueError)"

definition check_xint :: "yaml \<Rightarrow> int option result" where
  "check_xint obj =
     (case obj of
        YInt n \<Rightarrow> Inr (Some n)
      | YBool b \<Rightarrow> Inr (Some (py_int b))
      | YStr s \<Rightarrow>
          if s = ''x'' then Inr None
          else (case py_int0 s of Some n \<Rightarrow> Inr (Some n) | None \<Rightarrow> Inl ValueError)
      | _ \<Rightarrow> Inl ValueError)"

definition lib_check_optional_str :: "yaml \<Rightarrow> string option result" where
  "lib_check_optional_str obj = (if obj = YNone then Inr None else bindR (lib_check_str obj) (\<lambda>s. Inr (Some s)))"

text \<open>
  \<^verbatim>\<open>get_basename\<close>: the match of an underscore and digits at the end, also before a final newline, must
  not start the name.
\<close>

definition get_basename :: "string \<Rightarrow> string result" where
  "get_basename s =
     (let body = (if s \<noteq> [] \<and> last s = CHR 0x0A then butlast s else s);
          ds = takeWhile is_digit (rev body);
          pre = rev (drop (length ds) (rev body))
      in require (ds \<noteq> [] \<and> pre \<noteq> [] \<and> last pre = CHR ''_'')
           (require (1 < length pre) (Inr (butlast pre))))"

text \<open>\<^verbatim>\<open>rd.get(key, default)\<close>: a key that is present with the value null yields null.\<close>

definition dict_get_default :: "yaml_dict \<Rightarrow> string \<Rightarrow> yaml \<Rightarrow> yaml" where
  "dict_get_default d k dflt = (case ydict_get d k of Some v \<Rightarrow> v | None \<Rightarrow> dflt)"

section \<open>Properties\<close>

lemma check_keys_get:
  "lib_check_keys obj req opt = Inr d \<Longrightarrow> obj = YDict d \<and> (\<forall>k\<in>set req. ydict_get d k \<noteq> None)"
  by (auto simp: lib_check_keys_def lib_check_str_dict_def bindR_Inr_iff require_def Let_def filter_empty_conv
      split: yaml.splits if_splits)

lemma check_name_ok: "check_name obj = Inr s \<Longrightarrow> s \<noteq> [] \<and> name_match s"
  by (auto simp: check_name_def bindR_Inr_iff name_match_def split: if_splits list.splits)

text \<open>A name may end with a newline.\<close>

lemma check_name_newline: "check_name (YStr (''intr'' @ [CHR 0x0A])) = Inr (''intr'' @ [CHR 0x0A])"
  by code_simp

end
