(* ===== verification/Reggen_Params.thy ===== *)
theory Reggen_Params
  imports Reggen_Lib
begin

text \<open>
  The register tool, part 2: parameters of a block, \<^verbatim>\<open>util/reggen/params.py\<close>.  The dictionary \<^verbatim>\<open>by_name\<close> is
  an association list in insertion order.  The three subclasses of \<^verbatim>\<open>BaseParam\<close> are the kinds; \<^verbatim>\<open>default\<close> is
  the attribute that \<^verbatim>\<open>apply_default\<close> sets, which a local parameter does not have at first.
\<close>

section \<open>Operations\<close>

datatype param_kind =
    LocalParam (lp_value: string)
  | Parameter (expose: bool)
  | RandParameter (randcount: int) (randtype: string)

record base_param =
  bp_name :: string
  bp_desc :: "string option"
  bp_type :: string
  bp_default :: "string option"
  bp_kind :: param_kind

type_synonym params = "(string \<times> base_param) list"

definition apply_default :: "string \<Rightarrow> base_param \<Rightarrow> base_param result" where
  "apply_default v p =
     (case bp_kind p of
        RandParameter _ _ \<Rightarrow> Inl ValueError
      | _ \<Rightarrow>
          bindR (if take 3 (bp_type p) = ''int'' then bindR (lib_check_int (YStr v)) (\<lambda>_. Inr ()) else Inr ()) (\<lambda>_.
          Inr (p\<lparr>bp_default := Some v\<rparr>)))"

definition expand_value :: "string \<Rightarrow> int result" where
  "expand_value v = (case py_int0 v of Some n \<Rightarrow> Inr n | None \<Rightarrow> Inl ValueError)"

text \<open>The branch of \<^verbatim>\<open>_parse_parameter\<close> for random netlist constants.\<close>

definition parse_rand_parameter :: "yaml_dict \<Rightarrow> string \<Rightarrow> string option \<Rightarrow> base_param result" where
  "parse_rand_parameter rd name desc =
     bindR (lib_check_str (dict_get_default rd ''randtype'' (YStr ''none''))) (\<lambda>rtype.
     if rtype \<notin> {''perm'', ''data''} then Inl ValueError
     else if ydict_get_or_None rd ''randcount'' = YNone then Inl ValueError
     else
       bindR (lib_check_int (ydict_get_or_None rd ''randcount'')) (\<lambda>rcount.
       if rcount \<le> 0 then Inl ValueError
       else if ydict_get_or_None rd ''type'' = YNone then Inl ValueError
       else
         bindR (lib_check_str (ydict_get_or_None rd ''type'')) (\<lambda>param_type.
         bindR (lib_check_bool (dict_get_default rd ''local'' (YStr ''false''))) (\<lambda>is_local.
         if is_local then Inl ValueError
         else if ydict_get_or_None rd ''default'' \<noteq> YNone then Inl ValueError
         else
           bindR (lib_check_bool (dict_get_default rd ''expose'' (YStr ''false''))) (\<lambda>is_expose.
           if is_expose then Inl ValueError
           else require (rcount > 0) (require (rtype \<in> {''perm'', ''data''})
             (Inr \<lparr>bp_name = name, bp_desc = desc, bp_type = param_type, bp_default = None,
                   bp_kind = RandParameter rcount rtype\<rparr>)))))))"

definition parse_plain_parameter :: "yaml_dict \<Rightarrow> string \<Rightarrow> string option \<Rightarrow> base_param result" where
  "parse_plain_parameter rd name desc =
     (if ydict_get rd ''randcount'' \<noteq> None \<or> ydict_get rd ''randtype'' \<noteq> None then Inl ValueError
      else
        bindR (if ydict_get_or_None rd ''type'' = YNone then Inr ''int''
               else lib_check_str (ydict_get_or_None rd ''type'')) (\<lambda>param_type.
        bindR (lib_check_bool (dict_get_default rd ''local'' (YStr ''true''))) (\<lambda>is_local.
        bindR (lib_check_bool (dict_get_default rd ''expose'' (YStr ''false''))) (\<lambda>is_expose.
        if ydict_get_or_None rd ''default'' = YNone then Inl ValueError
        else
          bindR (lib_check_str (ydict_get_or_None rd ''default'')) (\<lambda>dflt.
          bindR (if take 3 param_type = ''int'' then bindR (lib_check_int (YStr dflt)) (\<lambda>_. Inr ()) else Inr ()) (\<lambda>_.
          if is_local then
            if is_expose then Inl ValueError
            else Inr \<lparr>bp_name = name, bp_desc = desc, bp_type = param_type, bp_default = None, bp_kind = LocalParam dflt\<rparr>
          else Inr \<lparr>bp_name = name, bp_desc = desc, bp_type = param_type, bp_default = Some dflt,
                    bp_kind = Parameter is_expose\<rparr>))))))"

definition parse_parameter :: "yaml \<Rightarrow> base_param result" where
  "parse_parameter raw =
     bindR (lib_check_keys raw [''name''] [''desc'', ''type'', ''default'', ''local'', ''expose'', ''randcount'', ''randtype''])
       (\<lambda>rd.
     bindR (lib_check_str (ydict_get_or_None rd ''name'')) (\<lambda>name.
     bindR (lib_check_optional_str (ydict_get_or_None rd ''desc'')) (\<lambda>desc.
     if starts_with ''rndcnst'' (py_lower name) \<and> ydict_get rd ''randtype'' \<noteq> None
     then parse_rand_parameter rd name desc
     else parse_plain_parameter rd name desc)))"

definition Params_add :: "params \<Rightarrow> base_param \<Rightarrow> params result" where
  "Params_add ps p = require (bp_name p \<notin> fst ` set ps) (Inr (ps @ [(bp_name p, p)]))"

fun apply_defaults :: "params \<Rightarrow> (string \<times> string) list \<Rightarrow> params result" where
  "apply_defaults ps [] = Inr ps"
| "apply_defaults ps ((key, v) # dflts) =
     (case map_of ps key of
        None \<Rightarrow> Inl KeyError
      | Some p \<Rightarrow>
          bindR (apply_default v p) (\<lambda>p'.
          apply_defaults (map (\<lambda>(k, q). (k, if k = key then p' else q)) ps) dflts))"

definition expand_one :: "params \<Rightarrow> string \<Rightarrow> int result" where
  "expand_one ps v =
     (case py_int0 v of
        Some n \<Rightarrow> Inr n
      | None \<Rightarrow>
          (case map_of ps v of
             None \<Rightarrow> Inl ValueError
           | Some p \<Rightarrow> (case bp_kind p of LocalParam lv \<Rightarrow> expand_value lv | _ \<Rightarrow> Inl ValueError)))"

text \<open>\<^verbatim>\<open>re.split('([+-])', value)\<close>: the text before the first operator, and each operator with the text after it.\<close>

fun split_terms :: "string \<Rightarrow> string \<times> (char \<times> string) list" where
  "split_terms [] = ([], [])"
| "split_terms (c # cs) =
     (let (t, rest) = split_terms cs
      in if c \<in> {CHR ''+'', CHR ''-''} then ([], (c, t) # rest) else (c # t, rest))"

fun expand_terms :: "params \<Rightarrow> int \<Rightarrow> (char \<times> string) list \<Rightarrow> int result" where
  "expand_terms ps acc [] = Inr acc"
| "expand_terms ps acc ((c, tok) # toks) =
     bindR (expand_one ps (py_strip tok)) (\<lambda>term.
     expand_terms ps (acc + (if c = CHR ''-'' then - term else term)) toks)"

definition Params_expand :: "params \<Rightarrow> string \<Rightarrow> int result" where
  "Params_expand ps v =
     (let (t, rest) = split_terms v
      in bindR (if t = [] then Inr 0 else expand_one ps (py_strip t)) (\<lambda>acc. expand_terms ps acc rest))"

fun params_from :: "params \<Rightarrow> yaml list \<Rightarrow> params result" where
  "params_from ret [] = Inr ret"
| "params_from ret (r # raws) =
     bindR (parse_parameter r) (\<lambda>param.
     if bp_name param \<in> fst ` set ret then Inl ValueError
     else bindR (Params_add ret param) (\<lambda>ret. params_from ret raws))"

definition ReggenParams_from_raw :: "yaml \<Rightarrow> params result" where
  "ReggenParams_from_raw raw = bindR (lib_check_list raw) (params_from [])"

definition get_localparams :: "params \<Rightarrow> base_param list" where
  "get_localparams ps = filter (\<lambda>p. case bp_kind p of LocalParam _ \<Rightarrow> True | _ \<Rightarrow> False) (map snd ps)"

section \<open>Properties\<close>

text \<open>
  Names are unique, every parameter is filed under its name, and the value of a local integer
  parameter is a number.
\<close>

definition param_ok :: "base_param \<Rightarrow> bool" where
  "param_ok p \<longleftrightarrow>
     (case bp_kind p of
        LocalParam v \<Rightarrow> take 3 (bp_type p) = ''int'' \<longrightarrow> py_int0 v \<noteq> None
      | Parameter _ \<Rightarrow> bp_default p \<noteq> None
      | RandParameter n ty \<Rightarrow> 0 < n \<and> ty \<in> {''perm'', ''data''} \<and> bp_default p = None)"

definition params_ok :: "params \<Rightarrow> bool" where
  "params_ok ps \<longleftrightarrow> distinct (map fst ps) \<and> (\<forall>(k, p)\<in>set ps. k = bp_name p \<and> param_ok p)"

lemma check_int_str: "lib_check_int (YStr s) = Inr n \<longleftrightarrow> py_int0 s = Some n"
  by (auto simp: lib_check_int_def split: option.splits)

lemma parse_parameter_ok: "parse_parameter raw = Inr p \<Longrightarrow> param_ok p"
proof -
  assume p: "parse_parameter raw = Inr p"
  then obtain rd name desc where "parse_rand_parameter rd name desc = Inr p \<or> parse_plain_parameter rd name desc = Inr p"
    by (auto simp: parse_parameter_def bindR_Inr_iff split: if_splits)
  then show ?thesis
  proof
    assume "parse_rand_parameter rd name desc = Inr p"
    then show ?thesis
      by (auto simp: parse_rand_parameter_def bindR_Inr_iff require_def param_ok_def split: if_splits)
  next
    assume "parse_plain_parameter rd name desc = Inr p"
    then show ?thesis
      by (auto simp: parse_plain_parameter_def bindR_Inr_iff check_int_str param_ok_def split: if_splits)
  qed
qed

lemma params_from_ok: "params_from ret raws = Inr ps \<Longrightarrow> params_ok ret \<Longrightarrow> params_ok ps"
proof (induction raws arbitrary: ret)
  case (Cons r raws)
  then obtain p where p: "parse_parameter r = Inr p" "bp_name p \<notin> fst ` set ret"
    "params_from (ret @ [(bp_name p, p)]) raws = Inr ps"
    by (auto simp: bindR_Inr_iff Params_add_def require_def split: if_splits)
  moreover have "params_ok (ret @ [(bp_name p, p)])"
    using Cons.prems(2) p(1,2) parse_parameter_ok by (auto simp: params_ok_def)
  ultimately show ?case using Cons.IH by blast
qed simp

lemma params_from_raw_ok: "ReggenParams_from_raw raw = Inr ps \<Longrightarrow> params_ok ps"
  using params_from_ok [of "[]" _ ps] by (auto simp: ReggenParams_from_raw_def bindR_Inr_iff params_ok_def [of "[]"])

text \<open>The expansion of a local integer parameter by its name is the number its value denotes.\<close>

lemma split_terms_plain: "CHR ''+'' \<notin> set s \<Longrightarrow> CHR ''-'' \<notin> set s \<Longrightarrow> split_terms s = (s, [])"
  by (induction s) auto

lemma expand_local:
  assumes "params_ok ps" and "p \<in> set (get_localparams ps)" and "take 3 (bp_type p) = ''int''"
    and "bp_name p \<noteq> []" and "py_strip (bp_name p) = bp_name p" and "py_int0 (bp_name p) = None"
    and "CHR ''+'' \<notin> set (bp_name p)" and "CHR ''-'' \<notin> set (bp_name p)"
  shows "\<exists>n. py_int0 (lp_value (bp_kind p)) = Some n \<and> Params_expand ps (bp_name p) = Inr n"
proof -
  obtain v where v: "bp_kind p = LocalParam v" "p \<in> snd ` set ps"
    using assms(2) by (auto simp: get_localparams_def split: param_kind.splits)
  then have m: "map_of ps (bp_name p) = Some p" using assms(1) by (auto simp: params_ok_def)
  have "param_ok p" using v(2) assms(1) by (auto simp: params_ok_def)
  then obtain n where "py_int0 v = Some n" using assms(3) v(1) by (auto simp: param_ok_def)
  then show ?thesis
    using v(1) m assms(4-8) by (simp add: Params_expand_def split_terms_plain expand_one_def expand_value_def)
qed

end
