(* ===== verification/Reggen_Field.thy ===== *)
theory Reggen_Field
  imports Reggen_Params
begin

text \<open>
  The register tool, part 3: bit ranges (\<^verbatim>\<open>bits.py\<close>), access modes (\<^verbatim>\<open>access.py\<close>), enumeration entries
  (\<^verbatim>\<open>enum_entry.py\<close>) and fields (\<^verbatim>\<open>field.py\<close>) of \<^verbatim>\<open>util/reggen\<close>.
\<close>

section \<open>Bit ranges\<close>

record bits =
  bits_msb :: nat
  bits_lsb :: nat

definition Bits_init :: "int \<Rightarrow> int \<Rightarrow> bits result" where
  "Bits_init msb lsb = require (0 \<le> lsb \<and> lsb \<le> msb) (Inr \<lparr>bits_msb = nat msb, bits_lsb = nat lsb\<rparr>)"

definition bitmask :: "bits \<Rightarrow> int" where
  "bitmask b = push_bit (bits_msb b + 1) 1 - push_bit (bits_lsb b) 1"

definition bits_width :: "bits \<Rightarrow> nat" where
  "bits_width b = 1 + bits_msb b - bits_lsb b"

definition max_value :: "bits \<Rightarrow> int" where
  "max_value b = push_bit (bits_width b) 1 - 1"

definition extract_field :: "bits \<Rightarrow> int \<Rightarrow> int" where
  "extract_field b reg_val = drop_bit (bits_lsb b) (reg_val AND bitmask b)"

text \<open>\<^verbatim>\<open>int(s)\<close> in base ten.\<close>

definition py_int10 :: "string \<Rightarrow> int option" where
  "py_int10 s =
     (let t = rev (dropWhile is_int_space (rev (dropWhile is_int_space s)))
      in case t of
           [] \<Rightarrow> None
         | c # r \<Rightarrow>
             if c = CHR ''-'' then map_option uminus (int_digits 10 0 False r)
             else if c = CHR ''+'' then int_digits 10 0 False r
             else int_digits 10 0 False t)"

definition Bits_parse_str :: "params \<Rightarrow> string \<Rightarrow> (int \<times> int) result" where
  "Bits_parse_str ps str_val =
     (case py_int10 str_val of
        Some idx \<Rightarrow> Inr (idx, idx)
      | None \<Rightarrow>
          (case py_split (CHR '':'') str_val of
             [a, b] \<Rightarrow> bindR (Params_expand ps a) (\<lambda>msb. bindR (Params_expand ps b) (\<lambda>lsb. Inr (msb, lsb)))
           | _ \<Rightarrow> Inl ValueError))"

definition Bits_from_raw :: "int \<Rightarrow> params \<Rightarrow> yaml \<Rightarrow> bits result" where
  "Bits_from_raw reg_width ps raw =
     bindR (case raw of
              YInt n \<Rightarrow> Inr (n, n)
            | YBool b \<Rightarrow> Inr (py_int b, py_int b)
            | _ \<Rightarrow> bindR (lib_check_str raw) (Bits_parse_str ps)) (\<lambda>(msb, lsb).
     if msb < lsb then Inl ValueError
     else if lsb < 0 then Inl ValueError
     else if msb \<ge> reg_width then Inl ValueError
     else Bits_init msb lsb)"

definition make_translated :: "bits \<Rightarrow> nat \<Rightarrow> bits result" where
  "make_translated b bit_offset = Bits_init (int (bits_msb b + bit_offset)) (int (bits_lsb b + bit_offset))"

definition Bits_as_str :: "bits \<Rightarrow> string result" where
  "Bits_as_str b =
     (if bits_lsb b = bits_msb b then Inr (str_of_nat (bits_lsb b))
      else require (bits_lsb b < bits_msb b) (Inr (str_of_nat (bits_msb b) @ '':'' @ str_of_nat (bits_lsb b))))"

section \<open>Access modes\<close>

datatype SwWrAccess = SwWr_WR | SwWr_NONE
datatype SwRdAccess = SwRd_RD | SwRd_RC | SwRd_NONE
datatype SwAccess = Sw_RO | Sw_RW | Sw_WO | Sw_W1C | Sw_W1S | Sw_W0C | Sw_RC | Sw_R0W1C | Sw_NONE
datatype HwAccess = Hw_HRO | Hw_HRW | Hw_HWO | Hw_NONE

text \<open>The description text of an entry is left out; the last component says whether the mode is usual in a window.\<close>

definition SWACCESS_PERMITTED :: "(string \<times> SwAccess \<times> SwWrAccess \<times> SwRdAccess \<times> bool) list" where
  "SWACCESS_PERMITTED =
     [(''none'', Sw_NONE, SwWr_NONE, SwRd_NONE, False),
      (''ro'', Sw_RO, SwWr_NONE, SwRd_RD, True),
      (''rc'', Sw_RC, SwWr_WR, SwRd_RC, False),
      (''rw'', Sw_RW, SwWr_WR, SwRd_RD, True),
      (''r0w1c'', Sw_W1C, SwWr_WR, SwRd_NONE, False),
      (''rw1s'', Sw_W1S, SwWr_WR, SwRd_RD, False),
      (''rw1c'', Sw_W1C, SwWr_WR, SwRd_RD, False),
      (''rw0c'', Sw_W0C, SwWr_WR, SwRd_RD, False),
      (''wo'', Sw_WO, SwWr_WR, SwRd_NONE, True)]"

definition HWACCESS_PERMITTED :: "(string \<times> HwAccess) list" where
  "HWACCESS_PERMITTED = [(''hro'', Hw_HRO), (''hrw'', Hw_HRW), (''hwo'', Hw_HWO), (''none'', Hw_NONE)]"

record swaccess =
  sw_key :: string
  sw_value :: "SwAccess \<times> SwWrAccess \<times> SwRdAccess \<times> bool"

record hwaccess =
  hw_key :: string
  hw_value :: HwAccess

definition SWAccess_init :: "yaml \<Rightarrow> swaccess result" where
  "SWAccess_init raw =
     bindR (lib_check_str raw) (\<lambda>k.
     case map_of SWACCESS_PERMITTED k of
       Some v \<Rightarrow> Inr \<lparr>sw_key = k, sw_value = v\<rparr>
     | None \<Rightarrow> Inl ValueError)"

definition sw_dv_rights :: "swaccess \<Rightarrow> string result" where
  "sw_dv_rights a =
     (if sw_key a \<in> {''none'', ''ro'', ''rc''} then Inr ''RO''
      else if sw_key a \<in> {''rw'', ''r0w1c'', ''rw1s'', ''rw1c'', ''rw0c''} then Inr ''RW''
      else require (sw_key a = ''wo'') (Inr ''WO''))"

definition swrd :: "swaccess \<Rightarrow> SwRdAccess" where
  "swrd a = (case sw_value a of (_, _, rd, _) \<Rightarrow> rd)"

definition sw_allows_read :: "swaccess \<Rightarrow> bool" where
  "sw_allows_read a \<longleftrightarrow> (case sw_value a of (_, _, rd, _) \<Rightarrow> rd \<noteq> SwRd_NONE)"

definition sw_allows_write :: "swaccess \<Rightarrow> bool" where
  "sw_allows_write a \<longleftrightarrow> (case sw_value a of (_, wr, _, _) \<Rightarrow> wr = SwWr_WR)"

definition HWAccess_init :: "yaml \<Rightarrow> hwaccess result" where
  "HWAccess_init raw =
     bindR (lib_check_str raw) (\<lambda>k.
     case map_of HWACCESS_PERMITTED k of
       Some v \<Rightarrow> Inr \<lparr>hw_key = k, hw_value = v\<rparr>
     | None \<Rightarrow> Inl ValueError)"

definition hw_allows_read :: "hwaccess \<Rightarrow> bool" where
  "hw_allows_read a \<longleftrightarrow> hw_key a \<in> {''hro'', ''hrw''}"

definition hw_allows_write :: "hwaccess \<Rightarrow> bool" where
  "hw_allows_write a \<longleftrightarrow> hw_key a \<in> {''hrw'', ''hwo''}"

section \<open>Enumeration entries\<close>

record enum_entry =
  ee_name :: string
  ee_desc :: string
  ee_value :: int

definition EnumEntry_init :: "int \<Rightarrow> yaml \<Rightarrow> enum_entry result" where
  "EnumEntry_init max_val raw =
     bindR (lib_check_keys raw [''name'', ''desc'', ''value''] []) (\<lambda>rd.
     bindR (bindR (ydict_item rd ''name'') lib_check_str) (\<lambda>name.
     bindR (bindR (ydict_item rd ''desc'') lib_check_str) (\<lambda>desc.
     bindR (bindR (ydict_item rd ''value'') lib_check_int) (\<lambda>v.
     if \<not> (0 \<le> v \<and> v \<le> max_val) then Inl ValueError
     else Inr \<lparr>ee_name = name, ee_desc = desc, ee_value = v\<rparr>))))"

section \<open>Fields\<close>

record field =
  f_name :: string
  f_desc :: "string option"
  f_tags :: "string list"
  f_swaccess :: swaccess
  f_hwaccess :: hwaccess
  f_hwqe :: bool
  f_hwre :: bool
  f_bits :: bits
  f_resval :: "int option"
  f_enum :: "enum_entry list option"

text \<open>The reset value of a field from its own entry and that of its register.\<close>

definition field_resval :: "bits \<Rightarrow> int option \<Rightarrow> yaml \<Rightarrow> int option result" where
  "field_resval b reg_resval raw_resval =
     (if raw_resval = YNone then Inr (map_option (extract_field b) reg_resval)
      else
        bindR (check_xint raw_resval) (\<lambda>resval.
        case resval of
          None \<Rightarrow> if reg_resval \<noteq> None then Inl ValueError else Inr None
        | Some v \<Rightarrow>
            if \<not> (0 \<le> v \<and> v \<le> max_value b) then Inl ValueError
            else (case reg_resval of
                    None \<Rightarrow> Inr (Some v)
                  | Some rv \<Rightarrow> if v \<noteq> extract_field b rv then Inl ValueError else Inr (Some v))))"

fun field_enum :: "int \<Rightarrow> enum_entry list \<Rightarrow> yaml list \<Rightarrow> enum_entry list result" where
  "field_enum max_val enum [] = Inr enum"
| "field_enum max_val enum (raw # raws) =
     bindR (EnumEntry_init max_val raw) (\<lambda>entry.
     if ee_value entry \<in> ee_value ` set enum then Inl ValueError
     else field_enum max_val (enum @ [entry]) raws)"

definition field_name :: "yaml_dict \<Rightarrow> string \<Rightarrow> nat \<Rightarrow> nat \<Rightarrow> string result" where
  "field_name rd reg_name field_idx num_fields =
     (let raw_name = ydict_get_or_None rd ''name''
      in if raw_name = YNone then Inr (if num_fields > 1 then ''field'' @ str_of_nat (field_idx + 1) else reg_name)
         else check_name raw_name)"

definition field_desc_of :: "yaml_dict \<Rightarrow> string option result" where
  "field_desc_of rd =
     (let raw_desc = ydict_get_or_None rd ''desc''
      in if raw_desc = YNone \<and> ydict_get_or_None rd ''name'' \<noteq> YNone then Inl ValueError
         else lib_check_optional_str raw_desc)"

definition field_enums :: "bits \<Rightarrow> yaml \<Rightarrow> enum_entry list option result" where
  "field_enums b raw_enum =
     (if raw_enum = YNone then Inr None
      else bindR (lib_check_list raw_enum) (\<lambda>raw_entries.
           bindR (field_enum (max_value b) [] raw_entries) (\<lambda>enum. Inr (Some enum))))"

definition Field_from_raw ::
    "string \<Rightarrow> nat \<Rightarrow> nat \<Rightarrow> swaccess \<Rightarrow> hwaccess \<Rightarrow> int option \<Rightarrow> int \<Rightarrow> bool \<Rightarrow> bool \<Rightarrow> params \<Rightarrow> yaml \<Rightarrow> field result" where
  "Field_from_raw reg_name field_idx num_fields default_swaccess default_hwaccess reg_resval reg_width reg_hwqe reg_hwre ps raw =
     bindR (lib_check_keys raw [''bits''] [''name'', ''desc'', ''swaccess'', ''hwaccess'', ''resval'', ''enum'', ''tags'']) (\<lambda>rd.
     bindR (field_name rd reg_name field_idx num_fields) (\<lambda>name.
     bindR (field_desc_of rd) (\<lambda>desc.
     bindR (check_str_list (dict_get_default rd ''tags'' (YList []))) (\<lambda>tags.
     bindR (if ydict_get_or_None rd ''swaccess'' \<noteq> YNone then SWAccess_init (ydict_get_or_None rd ''swaccess'')
            else Inr default_swaccess) (\<lambda>swa.
     bindR (if ydict_get_or_None rd ''hwaccess'' \<noteq> YNone then HWAccess_init (ydict_get_or_None rd ''hwaccess'')
            else Inr default_hwaccess) (\<lambda>hwa.
     bindR (bindR (ydict_item rd ''bits'') (Bits_from_raw reg_width ps)) (\<lambda>b.
     bindR (field_resval b reg_resval (ydict_get_or_None rd ''resval'')) (\<lambda>resval.
     bindR (field_enums b (ydict_get_or_None rd ''enum'')) (\<lambda>enum.
     Inr \<lparr>f_name = name, f_desc = desc, f_tags = tags, f_swaccess = swa, f_hwaccess = hwa,
           f_hwqe = reg_hwqe, f_hwre = reg_hwre, f_bits = b, f_resval = resval, f_enum = enum\<rparr>)))))))))"

definition has_incomplete_enum :: "field \<Rightarrow> bool" where
  "has_incomplete_enum f = (case f_enum f of None \<Rightarrow> False | Some es \<Rightarrow> int (length es) \<noteq> 1 + max_value (f_bits f))"

definition Field_get_n_bits :: "field \<Rightarrow> bool \<Rightarrow> string list \<Rightarrow> int" where
  "Field_get_n_bits f hwext bittype =
     (if ''q'' \<in> set bittype \<and> hw_allows_read (f_hwaccess f) then int (bits_width (f_bits f)) else 0) +
     (if ''d'' \<in> set bittype \<and> hw_allows_write (f_hwaccess f) then int (bits_width (f_bits f)) else 0) +
     (if ''qe'' \<in> set bittype \<and> hw_allows_read (f_hwaccess f) then py_int (f_hwqe f) else 0) +
     (if ''re'' \<in> set bittype \<and> hw_allows_read (f_hwaccess f) then py_int (f_hwre f) else 0) +
     (if ''de'' \<in> set bittype \<and> hw_allows_write (f_hwaccess f) then py_int (\<not> hwext) else 0)"

definition multi_desc :: "field \<Rightarrow> string \<Rightarrow> nat \<Rightarrow> bool \<Rightarrow> string option" where
  "multi_desc f cname creg_idx stripped = (if stripped then Some (''For '' @ cname @ str_of_nat creg_idx) else f_desc f)"

definition Field_make_multi :: "field \<Rightarrow> int \<Rightarrow> nat \<Rightarrow> nat \<Rightarrow> string \<Rightarrow> nat \<Rightarrow> bool \<Rightarrow> field list result" where
  "Field_make_multi f reg_width min_reg_idx max_reg_idx cname creg_idx stripped =
     require (min_reg_idx \<le> max_reg_idx)
       (let num_copies = 1 + max_reg_idx - min_reg_idx;
            field_width = bits_msb (f_bits f) + 1
        in if int (field_width * num_copies) > reg_width then Inl ValueError
           else mapR (\<lambda>reg_idx.
             let bit_offset = field_width * (reg_idx - min_reg_idx)
             in bindR (if bit_offset = 0 then Inr (f_bits f) else make_translated (f_bits f) bit_offset) (\<lambda>b.
                Inr (f\<lparr>f_name := f_name f @ ''_'' @ str_of_nat reg_idx, f_desc := multi_desc f cname creg_idx stripped,
                       f_bits := b, f_enum := (if stripped then None else f_enum f)\<rparr>)))
             [min_reg_idx..<max_reg_idx + 1])"

definition Field_make_suffixed :: "field \<Rightarrow> string \<Rightarrow> string \<Rightarrow> nat \<Rightarrow> bool \<Rightarrow> field" where
  "Field_make_suffixed f suff cname creg_idx stripped =
     f\<lparr>f_name := f_name f @ suff, f_desc := multi_desc f cname creg_idx stripped,
        f_enum := (if stripped then None else f_enum f)\<rparr>"

section \<open>Properties of bit ranges\<close>

definition bits_ok :: "bits \<Rightarrow> bool" where
  "bits_ok b \<longleftrightarrow> bits_lsb b \<le> bits_msb b"

lemma Bits_init_iff: "Bits_init msb lsb = Inr b \<longleftrightarrow>
    0 \<le> lsb \<and> lsb \<le> msb \<and> b = \<lparr>bits_msb = nat msb, bits_lsb = nat lsb\<rparr>"
  by (auto simp: Bits_init_def require_def)

lemma bit_bitmask:
  assumes "bits_ok b"
  shows "bit (bitmask b) i \<longleftrightarrow> bits_lsb b \<le> i \<and> i \<le> bits_msb b"
proof -
  have "bits_lsb b + bits_width b = bits_msb b + 1" using assms by (simp add: bits_ok_def bits_width_def)
  then have "(2 :: int) ^ (bits_msb b + 1) = 2 ^ bits_lsb b * 2 ^ bits_width b" by (metis power_add)
  then have "bitmask b = push_bit (bits_lsb b) (low_mask (bits_width b))"
    by (simp add: bitmask_def low_mask_eq push_bit_eq_mult algebra_simps)
  then show ?thesis using assms by (auto simp: bit_simps bits_ok_def bits_width_def)
qed

lemma max_value_eq: "max_value b = 2 ^ bits_width b - 1"
  by (simp add: max_value_def push_bit_eq_mult)

lemma fits_max_value: "0 \<le> v \<and> v \<le> max_value b \<longleftrightarrow> fits (bits_width b) v"
  by (auto simp: fits_iff max_value_eq)

lemma extract_field_eq: "bits_ok b \<Longrightarrow> extract_field b v = take_bit (bits_width b) (drop_bit (bits_lsb b) v)"
  by (rule bit_eqI) (auto simp: extract_field_def bit_simps bit_bitmask bits_width_def bits_ok_def)

lemma extract_field_fits: "bits_ok b \<Longrightarrow> fits (bits_width b) (extract_field b v)"
  by (simp add: extract_field_eq)

lemma Bits_from_raw_ok:
  "Bits_from_raw reg_width ps raw = Inr b \<Longrightarrow> bits_ok b \<and> int (bits_msb b) < reg_width"
  by (auto simp: Bits_from_raw_def bindR_Inr_iff Bits_init_iff bits_ok_def nat_le_eq_zle split: if_splits)

section \<open>Properties of fields\<close>

definition rg_field_ok :: "int \<Rightarrow> field \<Rightarrow> bool" where
  "rg_field_ok reg_width f \<longleftrightarrow> bits_ok (f_bits f) \<and> int (bits_msb (f_bits f)) < reg_width \<and>
     (\<forall>v. f_resval f = Some v \<longrightarrow> fits (bits_width (f_bits f)) v) \<and>
     (\<forall>es. f_enum f = Some es \<longrightarrow> distinct (map ee_value es) \<and> (\<forall>e\<in>set es. fits (bits_width (f_bits f)) (ee_value e)))"

lemma field_resval_ok: "field_resval b rv raw = Inr (Some v) \<Longrightarrow> bits_ok b \<Longrightarrow> fits (bits_width b) v"
  by (auto simp: field_resval_def bindR_Inr_iff fits_max_value extract_field_fits split: if_splits option.splits)

lemma field_enum_ok:
  "field_enum (max_value b) enum raws = Inr es \<Longrightarrow>
    distinct (map ee_value enum) \<and> (\<forall>e\<in>set enum. fits (bits_width b) (ee_value e)) \<Longrightarrow>
    distinct (map ee_value es) \<and> (\<forall>e\<in>set es. fits (bits_width b) (ee_value e))"
proof (induction raws arbitrary: enum)
  case (Cons raw raws)
  obtain e where e: "EnumEntry_init (max_value b) raw = Inr e" "ee_value e \<notin> ee_value ` set enum"
    "field_enum (max_value b) (enum @ [e]) raws = Inr es"
    using Cons.prems(1) by (auto simp: bindR_Inr_iff split: if_splits)
  have "fits (bits_width b) (ee_value e)"
    using e(1) unfolding EnumEntry_init_def bindR_Inr_iff fits_max_value
    by (elim exE conjE) (simp split: if_splits, metis enum_entry.select_convs(3))
  then have "distinct (map ee_value (enum @ [e])) \<and> (\<forall>e'\<in>set (enum @ [e]). fits (bits_width b) (ee_value e'))"
    using Cons.prems(2) e(2) by auto
  from Cons.IH [OF e(3) this] show ?case .
qed simp

lemma Field_from_raw_ok:
  assumes "Field_from_raw rn i n dsw dhw rv reg_width qe re ps raw = Inr f"
  shows "rg_field_ok reg_width f" and "rv = Some v \<Longrightarrow> f_resval f = Some (extract_field (f_bits f) v)"
proof -
  obtain rd b raw_bits rs enum where b: "Bits_from_raw reg_width ps raw_bits = Inr b"
    and r: "field_resval b rv (ydict_get_or_None rd ''resval'') = Inr rs"
    and en: "field_enums b (ydict_get_or_None rd ''enum'') = Inr enum"
    and f: "f_bits f = b" "f_resval f = rs" "f_enum f = enum"
    using assms unfolding Field_from_raw_def bindR_Inr_iff by (elim exE conjE) (rule that, assumption+, auto)
  note b' = Bits_from_raw_ok [OF b]
  have "\<forall>v. rs = Some v \<longrightarrow> fits (bits_width b) v" using field_resval_ok r b' by blast
  moreover have "\<forall>es. enum = Some es \<longrightarrow> distinct (map ee_value es) \<and> (\<forall>e\<in>set es. fits (bits_width b) (ee_value e))"
    using en field_enum_ok [of b "[]"] by (auto simp: field_enums_def bindR_Inr_iff split: if_splits)
  ultimately show "rg_field_ok reg_width f" using b' f by (simp add: rg_field_ok_def)
  show "f_resval f = Some (extract_field (f_bits f) v)" if "rv = Some v"
    using r f that by (auto simp: field_resval_def bindR_Inr_iff split: if_splits option.splits)
qed

text \<open>The copies of a field in a compacted register.\<close>

definition multi_copy :: "field \<Rightarrow> nat \<Rightarrow> nat \<Rightarrow> string \<Rightarrow> nat \<Rightarrow> bool \<Rightarrow> field" where
  "multi_copy f min_reg_idx reg_idx cname creg_idx stripped =
     (let w = bits_msb (f_bits f) + 1; k = reg_idx - min_reg_idx
      in f\<lparr>f_name := f_name f @ ''_'' @ str_of_nat reg_idx, f_desc := multi_desc f cname creg_idx stripped,
            f_bits := \<lparr>bits_msb = bits_msb (f_bits f) + w * k, bits_lsb = bits_lsb (f_bits f) + w * k\<rparr>,
            f_enum := (if stripped then None else f_enum f)\<rparr>)"

lemma mapR_Inr: "(\<And>x. x \<in> set xs \<Longrightarrow> f x = Inr (g x)) \<Longrightarrow> mapR f xs = Inr (map g xs)"
  by (induction xs) auto

lemma Field_make_multi_eq:
  assumes "bits_ok (f_bits f)" and "lo \<le> hi" and "int ((bits_msb (f_bits f) + 1) * (1 + hi - lo)) \<le> reg_width"
  shows "Field_make_multi f reg_width lo hi cname ci stripped = Inr (map (\<lambda>i. multi_copy f lo i cname ci stripped) [lo..<hi + 1])"
proof -
  have "b = \<lparr>bits_msb = bits_msb b, bits_lsb = bits_lsb b\<rparr>" for b :: bits by (cases b) simp
  then have "(if k = 0 then Inr (f_bits f) else make_translated (f_bits f) k) =
      Inr \<lparr>bits_msb = bits_msb (f_bits f) + k, bits_lsb = bits_lsb (f_bits f) + k\<rparr>" for k
    using assms(1) by (simp add: make_translated_def Bits_init_def bits_ok_def del: of_nat_add)
  then show ?thesis
    using assms(2,3) by (simp add: Field_make_multi_def Let_def multi_copy_def mapR_Inr del: of_nat_mult of_nat_add)
qed

end
