(* ===== verification/Reggen_Register.thy ===== *)
theory Reggen_Register
  imports Reggen_Field
begin

text \<open>
  The register tool, part 4: registers (\<^verbatim>\<open>register.py\<close>), multi-registers (\<^verbatim>\<open>multi_register.py\<close>) and windows
  (\<^verbatim>\<open>window.py\<close>) of \<^verbatim>\<open>util/reggen\<close>.  The index \<^verbatim>\<open>name_to_field\<close> of a register only serves to find
  duplicates.
\<close>

section \<open>Registers\<close>

record register =
  r_offset :: int
  r_name :: string
  r_desc :: string
  r_swaccess :: swaccess
  r_hwaccess :: hwaccess
  r_hwext :: bool
  r_hwqe :: bool
  r_hwre :: bool
  r_regwen :: "string option"
  r_tags :: "string list"
  r_resval :: int
  r_resmask :: int
  r_shadowed :: bool
  r_fields :: "field list"
  r_update_err_alert :: "string option"
  r_storage_err_alert :: "string option"

definition sw_readable :: "swaccess \<Rightarrow> bool" where
  "sw_readable a \<longleftrightarrow> sw_key a \<notin> {''wo'', ''r0w1c''}"

definition sw_writable :: "swaccess \<Rightarrow> bool" where
  "sw_writable a \<longleftrightarrow> sw_key a \<noteq> ''ro''"

definition ends_with :: "string \<Rightarrow> string \<Rightarrow> bool" where
  "ends_with suff s \<longleftrightarrow> length suff \<le> length s \<and> drop (length s - length suff) s = suff"

text \<open>The check of the bits of the fields: the variable \<^verbatim>\<open>bits_used\<close> keeps its first value.\<close>

fun check_disjoint :: "int \<Rightarrow> field list \<Rightarrow> unit result" where
  "check_disjoint bits_used [] = Inr ()"
| "check_disjoint bits_used (f # fs) =
     (let field_mask = bitmask (f_bits f)
      in if py_bool (bits_used AND field_mask) then Inl ValueError else check_disjoint bits_used fs)"

definition sum_resval :: "field list \<Rightarrow> int" where
  "sum_resval fs = foldl (\<lambda>rv f. rv OR push_bit (bits_lsb (f_bits f)) (case f_resval f of Some v \<Rightarrow> v | None \<Rightarrow> 0)) 0 fs"

definition sum_resmask :: "field list \<Rightarrow> int" where
  "sum_resmask fs = foldl (\<lambda>m f. m OR bitmask (f_bits f)) 0 fs"

definition Register_init ::
    "int \<Rightarrow> string \<Rightarrow> string \<Rightarrow> swaccess \<Rightarrow> hwaccess \<Rightarrow> bool \<Rightarrow> bool \<Rightarrow> bool \<Rightarrow> string option \<Rightarrow> string list \<Rightarrow>
     int option \<Rightarrow> bool \<Rightarrow> field list \<Rightarrow> string option \<Rightarrow> string option \<Rightarrow> register result" where
  "Register_init off name desc swa hwa hwext hwqe hwre regwen tags resval shadowed fs uea sea =
     (if hwext \<and> hw_key hwa = ''hro'' \<and> sw_readable swa then Inl ValueError
      else if hwext \<and> \<not> hwqe \<and> sw_writable swa then Inl ValueError
      else if hwre \<and> \<not> hwext then Inl ValueError
      else
        let sounds_shadowy = ends_with ''_shadowed'' (py_lower name)
        in if shadowed \<and> \<not> sounds_shadowy then Inl ValueError
           else if sounds_shadowy \<and> \<not> shadowed then Inl ValueError
           else
             require (fs \<noteq> [])
               (let fs = sort_key (\<lambda>f. bits_lsb (f_bits f)) fs
                in if \<not> distinct (map f_name fs) then Inl ValueError
                   else bindR (check_disjoint 0 fs) (\<lambda>_.
                     let rv = sum_resval fs
                     in if (case resval of Some v \<Rightarrow> rv \<noteq> v | None \<Rightarrow> False) then Inl ValueError
                        else Inr \<lparr>r_offset = off, r_name = name, r_desc = desc, r_swaccess = swa, r_hwaccess = hwa,
                          r_hwext = hwext, r_hwqe = hwqe, r_hwre = hwre, r_regwen = regwen, r_tags = tags,
                          r_resval = rv, r_resmask = sum_resmask fs, r_shadowed = shadowed, r_fields = fs,
                          r_update_err_alert = uea, r_storage_err_alert = sea\<rparr>)))"

definition REG_REQUIRED :: "string list" where
  "REG_REQUIRED = [''name'', ''desc'', ''fields'']"

definition REG_OPTIONAL :: "string list" where
  "REG_OPTIONAL = [''swaccess'', ''hwaccess'', ''hwext'', ''hwqe'', ''hwre'', ''regwen'', ''resval'', ''tags'', ''shadowed'',
     ''update_err_alert'', ''storage_err_alert'']"

definition optional_name :: "yaml \<Rightarrow> string option result" where
  "optional_name raw = (if raw = YNone then Inr None else bindR (check_name raw) (\<lambda>s. Inr (Some s)))"

definition register_resval :: "int \<Rightarrow> yaml \<Rightarrow> int option result" where
  "register_resval reg_width raw =
     (if raw = YNone then Inr None
      else bindR (lib_check_int raw) (\<lambda>v. if \<not> (0 \<le> v \<and> v < push_bit (nat reg_width) 1) then Inl ValueError else Inr (Some v)))"

definition register_fields ::
    "string \<Rightarrow> swaccess \<Rightarrow> hwaccess \<Rightarrow> int option \<Rightarrow> int \<Rightarrow> bool \<Rightarrow> bool \<Rightarrow> params \<Rightarrow> yaml \<Rightarrow> field list result" where
  "register_fields name swa hwa resval reg_width hwqe hwre ps raw =
     bindR (lib_check_list raw) (\<lambda>raw_fields.
     if raw_fields = [] then Inl ValueError
     else mapR (\<lambda>(idx, rf). Field_from_raw name idx (length raw_fields) swa hwa resval reg_width hwqe hwre ps rf)
            (enumerate 0 raw_fields))"

definition Register_from_raw :: "int \<Rightarrow> int \<Rightarrow> params \<Rightarrow> yaml \<Rightarrow> register result" where
  "Register_from_raw reg_width off ps raw =
     bindR (lib_check_keys raw REG_REQUIRED REG_OPTIONAL) (\<lambda>rd.
     bindR (bindR (ydict_item rd ''name'') check_name) (\<lambda>name.
     bindR (bindR (ydict_item rd ''desc'') lib_check_str) (\<lambda>desc.
     bindR (SWAccess_init (dict_get_default rd ''swaccess'' (YStr ''none''))) (\<lambda>swa.
     bindR (HWAccess_init (dict_get_default rd ''hwaccess'' (YStr ''hro''))) (\<lambda>hwa.
     bindR (lib_check_bool (dict_get_default rd ''hwext'' (YBool False))) (\<lambda>hwext.
     bindR (lib_check_bool (dict_get_default rd ''hwqe'' (YBool False))) (\<lambda>hwqe.
     bindR (lib_check_bool (dict_get_default rd ''hwre'' (YBool False))) (\<lambda>hwre.
     bindR (let raw_regwen = dict_get_default rd ''regwen'' (YStr [])
            in if \<not> yaml_truthy raw_regwen then Inr None else optional_name raw_regwen) (\<lambda>regwen.
     bindR (check_str_list (dict_get_default rd ''tags'' (YList []))) (\<lambda>tags.
     bindR (register_resval reg_width (ydict_get_or_None rd ''resval'')) (\<lambda>resval.
     bindR (lib_check_bool (dict_get_default rd ''shadowed'' (YBool False))) (\<lambda>shadowed.
     bindR (bindR (ydict_item rd ''fields'') (register_fields name swa hwa resval reg_width hwqe hwre ps)) (\<lambda>fs.
     bindR (optional_name (ydict_get_or_None rd ''update_err_alert'')) (\<lambda>uea.
     bindR (optional_name (ydict_get_or_None rd ''storage_err_alert'')) (\<lambda>sea.
     Register_init off name desc swa hwa hwext hwqe hwre regwen tags resval shadowed fs uea sea)))))))))))))))"

definition Register_next_offset :: "register \<Rightarrow> int \<Rightarrow> int" where
  "Register_next_offset r addrsep = r_offset r + addrsep"

definition Register_dv_rights :: "register \<Rightarrow> string result" where
  "Register_dv_rights r = sw_dv_rights (r_swaccess r)"

definition Register_get_n_bits :: "register \<Rightarrow> string list \<Rightarrow> int" where
  "Register_get_n_bits r bittype = sum_list (map (\<lambda>f. Field_get_n_bits f (r_hwext r) bittype) (r_fields r))"

definition Register_is_homogeneous :: "register \<Rightarrow> bool" where
  "Register_is_homogeneous r \<longleftrightarrow> length (r_fields r) = 1"

definition Register_get_width :: "register \<Rightarrow> nat" where
  "Register_get_width r = 1 + bits_msb (f_bits (last (r_fields r)))"

definition Register_make_multi ::
    "register \<Rightarrow> int \<Rightarrow> int \<Rightarrow> nat \<Rightarrow> nat \<Rightarrow> bool \<Rightarrow> bool \<Rightarrow> nat \<Rightarrow> nat \<Rightarrow> string \<Rightarrow> register result" where
  "Register_make_multi r reg_width off creg_idx creg_count regwen_multi compact min_reg_idx max_reg_idx cname =
     require (creg_idx < creg_count) (require (min_reg_idx \<le> max_reg_idx) (require (compact \<or> min_reg_idx = max_reg_idx)
       (let new_name = (if creg_count > 1 then r_name r @ ''_'' @ str_of_nat creg_idx else r_name r);
            new_regwen = (case r_regwen r of
                            None \<Rightarrow> None
                          | Some w \<Rightarrow> if \<not> regwen_multi \<or> creg_count = 1 then Some w else Some (w @ ''_'' @ str_of_nat creg_idx));
            strip_field = creg_idx > 0
        in bindR
             (if compact then
                require (length (r_fields r) = 1)
                  (Field_make_multi (hd (r_fields r)) reg_width min_reg_idx max_reg_idx cname creg_idx strip_field)
              else
                require (creg_idx = min_reg_idx)
                  (Inr (map (\<lambda>f. Field_make_suffixed f (''_'' @ str_of_nat creg_idx) cname creg_idx strip_field) (r_fields r))))
             (\<lambda>new_fields.
              Register_init off new_name (r_desc r) (r_swaccess r) (r_hwaccess r) (r_hwext r) (r_hwqe r) (r_hwre r)
                new_regwen (r_tags r) None (r_shadowed r) new_fields (r_update_err_alert r) (r_storage_err_alert r)))))"

section \<open>Multi-registers\<close>

record multi_register =
  mr_offset :: int
  mr_reg :: register
  mr_cname :: string
  mr_regwen_multi :: bool
  mr_compact :: bool
  mr_count :: int
  mr_regs :: "register list"

definition MULTI_REQUIRED :: "string list" where
  "MULTI_REQUIRED = [''name'', ''desc'', ''count'', ''cname'', ''fields'']"

definition MULTI_OPTIONAL :: "string list" where
  "MULTI_OPTIONAL = REG_OPTIONAL @ [''regwen_multi'', ''compact'']"

definition expand_multi :: "register \<Rightarrow> int \<Rightarrow> int \<Rightarrow> int \<Rightarrow> bool \<Rightarrow> bool \<Rightarrow> nat \<Rightarrow> string \<Rightarrow> register list result" where
  "expand_multi reg off addrsep reg_width regwen_multi compact count cname =
     bindR (if compact then
              require (length (r_fields reg) = 1)
                (let width_per_reg = bits_msb (f_bits (hd (r_fields reg))) + 1
                 in require (int width_per_reg \<le> reg_width) (Inr (nat reg_width div width_per_reg)))
            else Inr 1) (\<lambda>regs_per_creg.
     let creg_count = (count + regs_per_creg - 1) div regs_per_creg
     in mapR (\<lambda>creg_idx.
          let min_reg_idx = regs_per_creg * creg_idx;
              max_reg_idx = min (min_reg_idx + regs_per_creg) count - 1;
              creg_offset = off + int creg_idx * addrsep
          in Register_make_multi reg reg_width creg_offset creg_idx creg_count regwen_multi compact
               min_reg_idx max_reg_idx cname) [0..<creg_count])"

definition MultiRegister_init :: "int \<Rightarrow> int \<Rightarrow> int \<Rightarrow> params \<Rightarrow> yaml \<Rightarrow> multi_register result" where
  "MultiRegister_init off addrsep reg_width ps raw =
     bindR (lib_check_keys raw MULTI_REQUIRED MULTI_OPTIONAL) (\<lambda>rd.
     let reg_rd = filter (\<lambda>(k, v). k \<in> YStr ` set (REG_REQUIRED @ REG_OPTIONAL)) rd in
     bindR (Register_from_raw reg_width off ps (YDict reg_rd)) (\<lambda>reg.
     bindR (bindR (ydict_item rd ''cname'') check_name) (\<lambda>cname.
     bindR (lib_check_bool (dict_get_default rd ''regwen_multi'' (YBool False))) (\<lambda>regwen_multi.
     bindR (lib_check_bool (dict_get_default rd ''compact'' (YBool (length (r_fields reg) = 1)))) (\<lambda>compact.
     if compact \<and> length (r_fields reg) > 1 then Inl ValueError
     else
       bindR (bindR (ydict_item rd ''count'') lib_check_str) (\<lambda>count_str.
       bindR (Params_expand ps count_str) (\<lambda>count.
       if count \<le> 0 then Inl ValueError
       else
         bindR (expand_multi reg off addrsep reg_width regwen_multi compact (nat count) cname) (\<lambda>regs.
         Inr \<lparr>mr_offset = off, mr_reg = reg, mr_cname = cname, mr_regwen_multi = regwen_multi, mr_compact = compact,
               mr_count = count, mr_regs = regs\<rparr>))))))))"

definition MultiRegister_next_offset :: "multi_register \<Rightarrow> int \<Rightarrow> int" where
  "MultiRegister_next_offset mr addrsep = mr_offset mr + int (length (mr_regs mr)) * addrsep"

definition MultiRegister_get_n_bits :: "multi_register \<Rightarrow> string list \<Rightarrow> int" where
  "MultiRegister_get_n_bits mr bittype = sum_list (map (\<lambda>r. Register_get_n_bits r bittype) (mr_regs mr))"

definition MultiRegister_get_field_list :: "multi_register \<Rightarrow> field list" where
  "MultiRegister_get_field_list mr = concat (map r_fields (mr_regs mr))"

definition MultiRegister_is_homogeneous :: "multi_register \<Rightarrow> bool" where
  "MultiRegister_is_homogeneous mr \<longleftrightarrow> Register_is_homogeneous (mr_reg mr)"

section \<open>Windows\<close>

record window =
  w_name :: string
  w_desc :: string
  w_unusual :: bool
  w_byte_write :: bool
  w_data_intg_passthru :: bool
  w_validbits :: int
  w_items :: int
  w_size_in_bytes :: int
  w_offset :: int
  w_swaccess :: swaccess

definition po2_size :: "int \<Rightarrow> int" where
  "po2_size size_in_bytes = push_bit (nat (bit_length (nat (size_in_bytes - 1)))) 1"

definition Window_init ::
    "string \<Rightarrow> string \<Rightarrow> bool \<Rightarrow> bool \<Rightarrow> bool \<Rightarrow> int \<Rightarrow> int \<Rightarrow> int \<Rightarrow> int \<Rightarrow> swaccess \<Rightarrow> window result" where
  "Window_init name desc unusual byte_write passthru validbits items size_in_bytes off swa =
     require (0 < validbits) (require (0 < items \<and> items \<le> size_in_bytes)
       (require (\<not> py_bool (off AND (po2_size size_in_bytes - 1)))
         (Inr \<lparr>w_name = name, w_desc = desc, w_unusual = unusual, w_byte_write = byte_write,
               w_data_intg_passthru = passthru, w_validbits = validbits, w_items = items,
               w_size_in_bytes = size_in_bytes, w_offset = off, w_swaccess = swa\<rparr>)))"

definition align_offset :: "int \<Rightarrow> int \<Rightarrow> int" where
  "align_offset off po2 = (let addr_mask = po2 - 1 in if py_bool (off AND addr_mask) then (off OR addr_mask) + 1 else off)"

definition Window_from_raw :: "int \<Rightarrow> int \<Rightarrow> params \<Rightarrow> yaml \<Rightarrow> window result" where
  "Window_from_raw off reg_width ps raw =
     bindR (lib_check_keys raw [''name'', ''desc'', ''items'', ''swaccess'']
              [''data-intg-passthru'', ''byte-write'', ''validbits'', ''unusual'']) (\<lambda>rd.
     bindR (bindR (ydict_item rd ''name'') lib_check_str) (\<lambda>name.
     bindR (bindR (ydict_item rd ''desc'') lib_check_str) (\<lambda>desc.
     bindR (lib_check_bool (dict_get_default rd ''unusual'' (YBool False))) (\<lambda>unusual.
     bindR (lib_check_bool (dict_get_default rd ''byte-write'' (YBool False))) (\<lambda>byte_write.
     bindR (lib_check_bool (dict_get_default rd ''data-intg-passthru'' (YBool False))) (\<lambda>passthru.
     bindR (lib_check_int (dict_get_default rd ''validbits'' (YInt reg_width))) (\<lambda>validbits.
     if validbits \<le> 0 then Inl ValueError
     else if validbits > reg_width then Inl ValueError
     else
       bindR (bindR (ydict_item rd ''items'') lib_check_str) (\<lambda>r_items.
       bindR (Params_expand ps r_items) (\<lambda>items.
       if items \<le> 0 then Inl ValueError
       else
         require (reg_width mod 8 = 0)
           (let size_in_bytes = items * (reg_width div 8)
            in require (size_in_bytes > 0)
                 (if po2_size size_in_bytes \<noteq> size_in_bytes \<and> \<not> unusual then Inl ValueError
                  else
                    bindR (bindR (ydict_item rd ''swaccess'') SWAccess_init) (\<lambda>swa.
                    if \<not> (snd (snd (snd (sw_value swa))) \<or> unusual) then Inl ValueError
                    else Window_init name desc unusual byte_write passthru validbits items size_in_bytes
                           (align_offset off (po2_size size_in_bytes)) swa))))))))))))"

definition Window_next_offset :: "window \<Rightarrow> int \<Rightarrow> int" where
  "Window_next_offset w addrsep = w_offset w + w_size_in_bytes w"

section \<open>Properties of registers\<close>

text \<open>What the constructor checks of a register, apart from the description of its fields.\<close>

definition flags_ok :: "swaccess \<Rightarrow> hwaccess \<Rightarrow> bool \<Rightarrow> bool \<Rightarrow> bool \<Rightarrow> bool" where
  "flags_ok swa hwa hwext hwqe hwre \<longleftrightarrow>
     \<not> (hwext \<and> hw_key hwa = ''hro'' \<and> sw_readable swa) \<and> \<not> (hwext \<and> \<not> hwqe \<and> sw_writable swa) \<and> \<not> (hwre \<and> \<not> hwext)"

definition register_ok :: "int \<Rightarrow> register \<Rightarrow> bool" where
  "register_ok reg_width r \<longleftrightarrow>
     flags_ok (r_swaccess r) (r_hwaccess r) (r_hwext r) (r_hwqe r) (r_hwre r) \<and> (r_shadowed r \<longleftrightarrow> ends_with ''_shadowed'' (py_lower (r_name r))) \<and>
     r_fields r \<noteq> [] \<and> sorted (map (\<lambda>f. bits_lsb (f_bits f)) (r_fields r)) \<and> distinct (map f_name (r_fields r)) \<and>
     (\<forall>f\<in>set (r_fields r). rg_field_ok reg_width f) \<and>
     r_resval r = sum_resval (r_fields r) \<and> r_resmask r = sum_resmask (r_fields r)"

text \<open>The check of the bits never fires.\<close>

lemma check_disjoint_zero [simp]: "check_disjoint 0 fs = Inr ()"
  by (induction fs) (auto simp: py_bool_def)

lemma sort_key_Nil_iff [simp]: "sort_key k xs = [] \<longleftrightarrow> xs = []"
  by (metis length_0_conv length_sort)

lemma Register_init_iff:
  "Register_init off name desc swa hwa hwext hwqe hwre regwen tags resval shadowed fs uea sea = Inr r \<longleftrightarrow>
    (let fs' = sort_key (\<lambda>f. bits_lsb (f_bits f)) fs in
     flags_ok swa hwa hwext hwqe hwre \<and> (shadowed \<longleftrightarrow> ends_with ''_shadowed'' (py_lower name)) \<and> fs \<noteq> [] \<and>
     distinct (map f_name fs') \<and> (case resval of Some v \<Rightarrow> sum_resval fs' = v | None \<Rightarrow> True) \<and>
     \<lparr>r_offset = off, r_name = name, r_desc = desc, r_swaccess = swa, r_hwaccess = hwa, r_hwext = hwext, r_hwqe = hwqe,
      r_hwre = hwre, r_regwen = regwen, r_tags = tags, r_resval = sum_resval fs', r_resmask = sum_resmask fs',
      r_shadowed = shadowed, r_fields = fs', r_update_err_alert = uea, r_storage_err_alert = sea\<rparr> = r)"
  unfolding Register_init_def Let_def if_Inl_iff require_Inr_iff check_disjoint_zero bindR_simps sum.inject flags_ok_def
  by (cases resval; simp only: option.case; blast)

lemma Register_init_Inr:
  assumes "Register_init off name desc swa hwa hwext hwqe hwre regwen tags resval shadowed fs uea sea = Inr r"
  shows "r_fields r = sort_key (\<lambda>f. bits_lsb (f_bits f)) fs" and "r_name r = name" and "r_offset r = off"
    and "r_regwen r = regwen" and "resval = None \<or> resval = Some (r_resval r)"
    and "\<forall>f\<in>set fs. rg_field_ok reg_width f \<Longrightarrow> register_ok reg_width r"
  using assms unfolding Register_init_iff Let_def register_ok_def
  by (auto split: option.splits)

text \<open>With the checks of the constructor, the register is the record of its arguments.\<close>

lemma Register_init_eq:
  assumes "flags_ok (r_swaccess r0) (r_hwaccess r0) (r_hwext r0) (r_hwqe r0) (r_hwre r0)" and "r_shadowed r0 \<longleftrightarrow> ends_with ''_shadowed'' (py_lower (r_name r0))"
    and "fs \<noteq> []" and "sorted (map (\<lambda>f. bits_lsb (f_bits f)) fs)" and "distinct (map f_name fs)"
  shows "Register_init (r_offset r0) (r_name r0) (r_desc r0) (r_swaccess r0) (r_hwaccess r0) (r_hwext r0) (r_hwqe r0)
      (r_hwre r0) (r_regwen r0) (r_tags r0) None (r_shadowed r0) fs (r_update_err_alert r0) (r_storage_err_alert r0) =
    Inr (r0 \<lparr>r_fields := fs, r_resval := sum_resval fs, r_resmask := sum_resmask fs\<rparr>)"
  using assms unfolding Register_init_iff Let_def by (cases r0) (simp add: sort_key_id_if_sorted)

lemma register_fields_ok:
  assumes "register_fields name swa hwa resval reg_width hwqe hwre ps raw = Inr fs" and f: "f \<in> set fs"
  shows "rg_field_ok reg_width f" and "resval = Some v \<Longrightarrow> f_resval f = Some (extract_field (f_bits f) v)"
proof -
  obtain raws where raws: "mapR (\<lambda>(idx, rf). Field_from_raw name idx (length raws) swa hwa resval reg_width hwqe hwre ps rf)
      (enumerate 0 raws) = Inr fs"
    using assms(1) by (auto simp: register_fields_def bindR_Inr_iff split: if_splits)
  obtain i where i: "i < length fs" "f = fs ! i" using f by (auto simp: in_set_conv_nth)
  then have "Field_from_raw name i (length raws) swa hwa resval reg_width hwqe hwre ps (raws ! i) = Inr f"
    using raws by (auto simp: mapR_Inr_iff nth_enumerate_eq)
  then show "rg_field_ok reg_width f" and "resval = Some v \<Longrightarrow> f_resval f = Some (extract_field (f_bits f) v)"
    by (auto intro: Field_from_raw_ok)
qed

lemma Register_from_raw_init:
  assumes "Register_from_raw reg_width off ps raw = Inr r"
  obtains name desc swa hwa hwext hwqe hwre regwen tags resval shadowed fs uea sea raw_fields where
    "register_fields name swa hwa resval reg_width hwqe hwre ps raw_fields = Inr fs"
    "Register_init off name desc swa hwa hwext hwqe hwre regwen tags resval shadowed fs uea sea = Inr r"
  using assms unfolding Register_from_raw_def bindR_Inr_iff by (elim exE conjE) (rule that, assumption+)

lemma Register_from_raw_ok:
  assumes "Register_from_raw reg_width off ps raw = Inr r"
  shows "register_ok reg_width r \<and> r_offset r = off"
  by (rule Register_from_raw_init [OF assms]) (blast intro: Register_init_Inr(3,6) register_fields_ok(1))

section \<open>Reset values\<close>

definition resval_or_0 :: "field \<Rightarrow> int" where
  "resval_or_0 f = (case f_resval f of Some v \<Rightarrow> v | None \<Rightarrow> 0)"

lemma bit_foldl_or: "bit (foldl (\<lambda>a x. a OR g x) (a0 :: int) xs) i \<longleftrightarrow> bit a0 i \<or> (\<exists>x\<in>set xs. bit (g x) i)"
  by (induction xs arbitrary: a0) (auto simp: bit_simps)

lemma bit_sum_resval:
  "bit (sum_resval fs) i \<longleftrightarrow> (\<exists>f\<in>set fs. bits_lsb (f_bits f) \<le> i \<and> bit (resval_or_0 f) (i - bits_lsb (f_bits f)))"
  by (simp add: sum_resval_def bit_foldl_or bit_push_bit_iff resval_or_0_def)

lemma bit_sum_resmask:
  "\<forall>f\<in>set fs. bits_ok (f_bits f) \<Longrightarrow>
    bit (sum_resmask fs) i \<longleftrightarrow> (\<exists>f\<in>set fs. bits_lsb (f_bits f) \<le> i \<and> i \<le> bits_msb (f_bits f))"
  by (simp add: sum_resmask_def bit_foldl_or bit_bitmask)

text \<open>Two ranges of bits share no position.\<close>

definition bits_disjoint :: "bits \<Rightarrow> bits \<Rightarrow> bool" where
  "bits_disjoint a b \<longleftrightarrow> bits_msb a < bits_lsb b \<or> bits_msb b < bits_lsb a"

lemma extract_sum_resval:
  assumes "f \<in> set fs" and "\<forall>g\<in>set fs. rg_field_ok rw g" and "\<forall>g\<in>set fs. g = f \<or> bits_disjoint (f_bits g) (f_bits f)"
  shows "extract_field (f_bits f) (sum_resval fs) = resval_or_0 f"
proof -
  have ok: "bits_ok (f_bits g)" "fits (bits_width (f_bits g)) (resval_or_0 g)" if "g \<in> set fs" for g
    using that assms(2) by (auto simp: rg_field_ok_def resval_or_0_def split: option.splits)
  have high: "\<not> bit (resval_or_0 g) k" if "g \<in> set fs" "bits_width (f_bits g) \<le> k" for g k
    using that ok(2) 
    by (metis bit_take_bit_iff fits_iff linorder_not_less take_bit_int_eq_self)
  have "bit (extract_field (f_bits f) (sum_resval fs)) k = bit (resval_or_0 f) k" for k
  proof (cases "k < bits_width (f_bits f)")
    case True
    have "g = f" if "g \<in> set fs" "bits_lsb (f_bits g) \<le> bits_lsb (f_bits f) + k"
        "bit (resval_or_0 g) (bits_lsb (f_bits f) + k - bits_lsb (f_bits g))" for g
    proof (rule ccontr)
      assume "g \<noteq> f"
      moreover have "bits_lsb (f_bits f) + k - bits_lsb (f_bits g) < bits_width (f_bits g)"
        using that(1,3) high by (meson not_le)
      ultimately show False
        using that assms(1,3) True ok(1) [of g] by (auto simp: bits_disjoint_def bits_width_def bits_ok_def)
    qed
    then have "bit (sum_resval fs) (bits_lsb (f_bits f) + k) = bit (resval_or_0 f) k"
      unfolding bit_sum_resval using assms(1) by (metis add_diff_cancel_left' le_add1)
    then show ?thesis using True ok(1) [OF assms(1)] by (simp add: extract_field_eq bit_simps add.commute)
  next
    case False
    then show ?thesis using high [OF assms(1)] ok(1) [OF assms(1)] by (simp add: extract_field_eq bit_simps)
  qed
  then show ?thesis by (intro bit_eqI) simp
qed

text \<open>A reset value given for the whole register is the value of the register and of every field.\<close>

lemma register_given_resval:
  assumes "register_fields name swa hwa (Some v) reg_width hwqe hwre ps raw = Inr fs"
    and "Register_init off name desc swa hwa hwext hwqe hwre regwen tags (Some v) shadowed fs uea sea = Inr r"
  shows "r_resval r = v" and "f \<in> set (r_fields r) \<Longrightarrow> f_resval f = Some (extract_field (f_bits f) (r_resval r))"
  using Register_init_Inr(1,5) [OF assms(2)] register_fields_ok(2) [OF assms(1)] by auto

lemma register_extract:
  assumes "register_ok reg_width r" and "f \<in> set (r_fields r)"
    and "\<forall>g\<in>set (r_fields r). g = f \<or> bits_disjoint (f_bits g) (f_bits f)"
  shows "extract_field (f_bits f) (r_resval r) = resval_or_0 f"
  using assms extract_sum_resval [of f "r_fields r" reg_width] by (simp add: register_ok_def)

lemma register_unmasked:
  assumes "register_ok reg_width r" and "\<not> bit (r_resmask r) i"
  shows "\<not> bit (r_resval r) i"
proof
  assume "bit (r_resval r) i"
  then obtain f where f: "f \<in> set (r_fields r)" "bits_lsb (f_bits f) \<le> i" "bit (resval_or_0 f) (i - bits_lsb (f_bits f))"
    using assms(1) by (auto simp: register_ok_def bit_sum_resval)
  have ok: "rg_field_ok reg_width f" using assms(1) f(1) by (simp add: register_ok_def)
  then have "fits (bits_width (f_bits f)) (resval_or_0 f)" by (auto simp: rg_field_ok_def resval_or_0_def split: option.splits)
  then have "i - bits_lsb (f_bits f) < bits_width (f_bits f)"
    using f(3) by (metis bit_take_bit_iff fits_iff take_bit_int_eq_self)
  then have "bits_lsb (f_bits f) \<le> i \<and> i \<le> bits_msb (f_bits f)" using f(2) ok by (auto simp: bits_width_def rg_field_ok_def bits_ok_def)
  moreover have "\<forall>g\<in>set (r_fields r). bits_ok (f_bits g)" "r_resmask r = sum_resmask (r_fields r)"
    using assms(1) by (auto simp: register_ok_def rg_field_ok_def)
  ultimately show False using assms(2) f(1) bit_sum_resmask by metis
qed

section \<open>Expansion of multi-registers\<close>

lemma ends_with_last: "ends_with suff s \<Longrightarrow> suff \<noteq> [] \<Longrightarrow> last s = last suff"
  by (metis append_take_drop_id ends_with_def last_appendR)

lemma numbered_not_shadowy: "\<not> ends_with ''_shadowed'' (py_lower (n @ ''_'' @ str_of_nat k))"
proof
  let ?s = "n @ ''_'' @ str_of_nat k"
  assume "ends_with ''_shadowed'' (py_lower ?s)"
  then have "last (py_lower ?s) = CHR ''d''" using ends_with_last by fastforce
  moreover have "last (py_lower ?s) = to_lower (last (str_of_nat k))" using str_of_nat_digits [of k] by (simp add: py_lower_def last_map)
  moreover have d: "is_digit (last (str_of_nat k))" using str_of_nat_digits [of k] by (simp add: list_all_iff)
  moreover have "to_lower (last (str_of_nat k)) = last (str_of_nat k)" using d by (auto simp: to_lower_def is_digit_def Let_def)
  moreover have "\<not> is_digit (CHR ''d'')" by (simp add: is_digit_def char_code_def)
  ultimately show False by metis
qed

lemma str_of_nat_inj: "str_of_nat a = str_of_nat b \<longleftrightarrow> a = b"
  by (metis of_nat_eq_iff str_of_nat_digits)

definition numbered :: "string \<Rightarrow> nat \<Rightarrow> nat \<Rightarrow> string" where
  "numbered name idx cnt = (if cnt > 1 then name @ ''_'' @ str_of_nat idx else name)"

text \<open>One register of the expansion.\<close>

definition multi_reg :: "register \<Rightarrow> int \<Rightarrow> nat \<Rightarrow> nat \<Rightarrow> bool \<Rightarrow> field list \<Rightarrow> register" where
  "multi_reg reg off idx cnt regwen_multi fs =
     reg\<lparr>r_offset := off, r_name := numbered (r_name reg) idx cnt,
         r_regwen := (if regwen_multi then map_option (\<lambda>w. numbered w idx cnt) (r_regwen reg) else r_regwen reg),
         r_fields := fs, r_resval := sum_resval fs, r_resmask := sum_resmask fs\<rparr>"

lemma Register_init_multi:
  assumes ok: "register_ok reg_width reg" and sh: "r_shadowed reg \<longrightarrow> cnt = 1" and "idx < cnt"
    and "fs \<noteq> []" and "sorted (map (\<lambda>f. bits_lsb (f_bits f)) fs)" and "distinct (map f_name fs)"
  shows "Register_init off (numbered (r_name reg) idx cnt) (r_desc reg) (r_swaccess reg) (r_hwaccess reg) (r_hwext reg)
      (r_hwqe reg) (r_hwre reg) (r_regwen (multi_reg reg off idx cnt regwen_multi fs)) (r_tags reg) None (r_shadowed reg) fs
      (r_update_err_alert reg) (r_storage_err_alert reg) = Inr (multi_reg reg off idx cnt regwen_multi fs)"
proof -
  have "r_shadowed reg \<longleftrightarrow> ends_with ''_shadowed'' (py_lower (numbered (r_name reg) idx cnt))"
    using ok sh numbered_not_shadowy [of "r_name reg" idx] by (auto simp: register_ok_def numbered_def)
  then show ?thesis
    using Register_init_eq [of "multi_reg reg off idx cnt regwen_multi fs" fs] ok assms(4-6)
    by (simp add: multi_reg_def register_ok_def)
qed

text \<open>The index of the first and the number of the fields in a compacted register.\<close>

lemma make_multi_compact_init:
  assumes ok: "register_ok reg_width reg" and f: "r_fields reg = [f]"
    and idx: "idx < cnt" and lo: "lo \<le> hi" and wd: "int ((bits_msb (f_bits f) + 1) * (1 + hi - lo)) \<le> reg_width"
    and fs: "fs = map (\<lambda>i. multi_copy f lo i cname idx (idx > 0)) [lo..<hi + 1]"
  shows "Register_make_multi reg reg_width off idx cnt regwen_multi True lo hi cname =
    Register_init off (numbered (r_name reg) idx cnt) (r_desc reg) (r_swaccess reg) (r_hwaccess reg) (r_hwext reg)
      (r_hwqe reg) (r_hwre reg) (r_regwen (multi_reg reg off idx cnt regwen_multi fs)) (r_tags reg) None (r_shadowed reg) fs
      (r_update_err_alert reg) (r_storage_err_alert reg)"
proof -
  have fok: "bits_ok (f_bits f)" using ok f by (simp add: register_ok_def rg_field_ok_def)
  moreover have "r_regwen (multi_reg reg off idx cnt regwen_multi fs) =
      (case r_regwen reg of None \<Rightarrow> None
       | Some w \<Rightarrow> if \<not> regwen_multi \<or> cnt = 1 then Some w else Some (w @ ''_'' @ str_of_nat idx))"
    using idx by (auto simp: multi_reg_def numbered_def split: option.splits)
  moreover have "numbered (r_name reg) idx cnt = (if cnt > 1 then r_name reg @ ''_'' @ str_of_nat idx else r_name reg)"
    by (simp add: numbered_def)
  ultimately show ?thesis
    using idx lo f fs Field_make_multi_eq [OF fok lo wd] by (simp add: Register_make_multi_def Let_def del: upt_Suc)
qed

lemma make_multi_compact:
  assumes ok: "register_ok reg_width reg" and f: "r_fields reg = [f]" and sh: "r_shadowed reg \<longrightarrow> cnt = 1"
    and idx: "idx < cnt" and lo: "lo \<le> hi" and wd: "int ((bits_msb (f_bits f) + 1) * (1 + hi - lo)) \<le> reg_width"
  shows "Register_make_multi reg reg_width off idx cnt regwen_multi True lo hi cname =
    Inr (multi_reg reg off idx cnt regwen_multi (map (\<lambda>i. multi_copy f lo i cname idx (idx > 0)) [lo..<hi + 1]))"
    (is "_ = Inr (multi_reg _ _ _ _ _ ?fs)")
proof -
  have "sorted (map (\<lambda>f. bits_lsb (f_bits f)) ?fs)"
    by (auto simp: sorted_iff_nth_mono multi_copy_def Let_def add_mono simp del: upt_Suc)
  moreover have "distinct (map f_name ?fs)"
    by (auto simp: distinct_map inj_on_def multi_copy_def Let_def str_of_nat_inj simp del: upt_Suc)
  moreover have "?fs \<noteq> []" using lo by simp
  ultimately show ?thesis using make_multi_compact_init [OF ok f idx lo wd refl] Register_init_multi [OF ok sh idx] by simp
qed

text \<open>A shadowed register cannot be expanded into several registers: their names end with a number.\<close>

lemma make_multi_shadowed:
  assumes ok: "register_ok reg_width reg" and f: "r_fields reg = [f]" and sh: "r_shadowed reg" and idx: "idx < cnt" "1 < cnt"
    and lo: "lo \<le> hi" and wd: "int ((bits_msb (f_bits f) + 1) * (1 + hi - lo)) \<le> reg_width"
  shows "Register_make_multi reg reg_width off idx cnt regwen_multi True lo hi cname = Inl ValueError"
  using make_multi_compact_init [OF ok f idx(1) lo wd refl, of off regwen_multi cname] sh idx(2) ok
    numbered_not_shadowy [of "r_name reg" idx]
  by (auto simp: Register_init_def numbered_def register_ok_def flags_ok_def)

lemma ceil_div_less:
  fixes n :: nat
  assumes "0 < p" and "i < (n + p - 1) div p"
  shows "p * i < n"
proof -
  have "i * p + p \<le> n + p - 1" using assms less_eq_div_iff_mult_less_eq [of p "Suc i" "n + p - 1"] by simp
  then show ?thesis using assms(1) by (simp add: mult.commute)
qed

lemma div_less_ceil:
  fixes n :: nat
  assumes "0 < p" and "i < n"
  shows "i div p < (n + p - 1) div p"
proof -
  have "Suc (i div p) * p \<le> n + p - 1" using assms div_times_less_eq_dividend [of i p] unfolding mult_Suc by linarith
  then have "Suc (i div p) \<le> (n + p - 1) div p" using assms(1) less_eq_div_iff_mult_less_eq by blast
  then show ?thesis by simp
qed

text \<open>The compacted expansion: the registers and their fields.\<close>

definition multi_regs :: "register \<Rightarrow> field \<Rightarrow> int \<Rightarrow> int \<Rightarrow> nat \<Rightarrow> bool \<Rightarrow> nat \<Rightarrow> string \<Rightarrow> register list" where
  "multi_regs reg f off addrsep p regwen_multi count cname =
     (let cnt = (count + p - 1) div p
      in map (\<lambda>idx. multi_reg reg (off + int idx * addrsep) idx cnt regwen_multi
           (map (\<lambda>i. multi_copy f (p * idx) i cname idx (idx > 0)) [p * idx..<min (p * idx + p) count])) [0..<cnt])"

lemma chunk_bounds:
  fixes p :: nat
  assumes "0 < p" and "idx < (count + p - 1) div p" and "w * p \<le> n"
  shows "p * idx \<le> min (p * idx + p) count - 1" and "min (p * idx + p) count - 1 + 1 = min (p * idx + p) count"
    and "w * (1 + (min (p * idx + p) count - 1) - p * idx) \<le> n"
proof -
  have lt: "p * idx < min (p * idx + p) count" using ceil_div_less [OF assms(1,2)] assms(1) by simp
  then show "p * idx \<le> min (p * idx + p) count - 1" and "min (p * idx + p) count - 1 + 1 = min (p * idx + p) count" by linarith+
  have "w * (1 + (min (p * idx + p) count - 1) - p * idx) \<le> w * p" using lt by (intro mult_le_mono2) linarith
  then show "w * (1 + (min (p * idx + p) count - 1) - p * idx) \<le> n" using assms(3) by linarith
qed

lemma expand_multi_compact:
  assumes ok: "register_ok reg_width reg" and f: "r_fields reg = [f]" and p: "p = nat reg_width div (bits_msb (f_bits f) + 1)"
  shows "0 < p" and "expand_multi reg off addrsep reg_width regwen_multi True count cname =
    (if r_shadowed reg \<and> 1 < (count + p - 1) div p then Inl ValueError
     else Inr (multi_regs reg f off addrsep p regwen_multi count cname))"
proof -
  have w: "int (bits_msb (f_bits f)) < reg_width" using ok f by (simp add: register_ok_def rg_field_ok_def)
  show p0: "0 < p" using w p by (simp add: div_greater_zero_iff)
  let ?cnt = "(count + p - 1) div p"
  let ?mk = "\<lambda>idx. Register_make_multi reg reg_width (off + int idx * addrsep) idx ?cnt regwen_multi True (p * idx)
      (min (p * idx + p) count - 1) cname"
  have wp: "(bits_msb (f_bits f) + 1) * p \<le> nat reg_width" unfolding p by (rule times_div_less_eq_dividend)
  have wd: "int ((bits_msb (f_bits f) + 1) * (1 + (min (p * idx + p) count - 1) - p * idx)) \<le> reg_width" if "idx < ?cnt" for idx
    using chunk_bounds(3) [OF p0 that wp] w by linarith
  have "mapR ?mk [0..<?cnt] = (if r_shadowed reg \<and> 1 < ?cnt then Inl ValueError
      else Inr (multi_regs reg f off addrsep p regwen_multi count cname))"
  proof (cases "r_shadowed reg \<and> 1 < ?cnt")
    case True
    then have "0 < ?cnt" by simp
    then have "?mk 0 = Inl ValueError"
      using make_multi_shadowed [OF ok f _ _ _ chunk_bounds(1) [OF p0 _ wp] wd] True by blast
    then show ?thesis using True \<open>0 < ?cnt\<close> by (subst upt_conv_Cons) simp_all
  next
    case False
    have "?mk idx = Inr (multi_reg reg (off + int idx * addrsep) idx ?cnt regwen_multi
        (map (\<lambda>i. multi_copy f (p * idx) i cname idx (idx > 0)) [p * idx..<min (p * idx + p) count]))" if "idx < ?cnt" for idx
      using make_multi_compact [OF ok f _ that chunk_bounds(1) [OF p0 that wp] wd [OF that]] False that
      unfolding chunk_bounds(2) [OF p0 that wp] by force
    then show ?thesis using False by (subst mapR_Inr) (auto simp: multi_regs_def Let_def)
  qed
  then show "expand_multi reg off addrsep reg_width regwen_multi True count cname =
      (if r_shadowed reg \<and> 1 < ?cnt then Inl ValueError else Inr (multi_regs reg f off addrsep p regwen_multi count cname))"
    using w f p by (simp add: expand_multi_def Let_def)
qed

lemma concat_chunks: "concat (map (\<lambda>j. [p * j..<min (p * j + p) n]) [0..<c]) = [0..<min (p * c) n]"
proof (induction c)
  case (Suc c)
  have "[0..<min (p * c) n] @ [p * c..<min (p * c + p) n] = [0..<min (p * c + p) n]"
  proof (cases "p * c \<le> n")
    case True
    then have "min (p * c) n = p * c" "p * c \<le> min (p * c + p) n" by simp_all
    then show ?thesis using upt_add_eq_append [of 0 "p * c" "min (p * c + p) n - p * c"] by simp
  qed simp
  then show ?case using Suc by (simp add: add.commute)
qed simp

text \<open>Field \<open>i\<close> of the expansion is in register \<open>i div p\<close>, at place \<open>i mod p\<close>.\<close>

lemma multi_regs_field_list:
  assumes "0 < p"
  shows "concat (map r_fields (multi_regs reg f off addrsep p regwen_multi count cname)) =
    map (\<lambda>i. multi_copy f (p * (i div p)) i cname (i div p) (i div p > 0)) [0..<count]"
proof -
  let ?c = "(count + p - 1) div p"
  have "concat (map r_fields (multi_regs reg f off addrsep p regwen_multi count cname)) =
      concat (map (\<lambda>j. map (\<lambda>i. multi_copy f (p * (i div p)) i cname (i div p) (i div p > 0)) [p * j..<min (p * j + p) count]) [0..<?c])"
  proof -
    have "i div p = j" if "p * j \<le> i" "i < p * j + p" for i j
      using that by (metis add.commute div_nat_eqI mult.commute mult_Suc_right)
    then show ?thesis by (auto simp: multi_regs_def Let_def multi_reg_def intro!: arg_cong [of _ _ concat] map_cong)
  qed
  also have "\<dots> = map (\<lambda>i. multi_copy f (p * (i div p)) i cname (i div p) (i div p > 0)) [0..<min (p * ?c) count]"
    unfolding concat_chunks [symmetric] map_concat by (simp add: comp_def)
  also have "min (p * ?c) count = count"
    using dividend_less_times_div [OF assms, of "count + p - 1"] assms by linarith
  finally show ?thesis .
qed

lemma MultiRegister_init_Inr:
  assumes "MultiRegister_init off addrsep reg_width ps raw = Inr mr"
  shows "register_ok reg_width (mr_reg mr)" and "r_offset (mr_reg mr) = off" and "mr_offset mr = off" and "0 < mr_count mr"
    and "mr_compact mr \<Longrightarrow> length (r_fields (mr_reg mr)) = 1"
    and "expand_multi (mr_reg mr) off addrsep reg_width (mr_regwen_multi mr) (mr_compact mr) (nat (mr_count mr)) (mr_cname mr) =
      Inr (mr_regs mr)"
proof -
  obtain reg_rd reg cname regwen_multi compact count regs where
    reg: "Register_from_raw reg_width off ps reg_rd = Inr reg"
    and c: "\<not> (compact \<and> length (r_fields reg) > 1)" "\<not> count \<le> 0"
    and e: "expand_multi reg off addrsep reg_width regwen_multi compact (nat count) cname = Inr regs"
    and mr: "mr = \<lparr>mr_offset = off, mr_reg = reg, mr_cname = cname, mr_regwen_multi = regwen_multi, mr_compact = compact,
               mr_count = count, mr_regs = regs\<rparr>"
    using assms unfolding MultiRegister_init_def Let_def bindR_Inr_iff if_Inl_iff by blast
  note ok = Register_from_raw_ok [OF reg]
  then have "r_fields reg \<noteq> []" by (simp add: register_ok_def)
  then have "compact \<Longrightarrow> length (r_fields reg) = 1" using c(1) by (cases "r_fields reg") auto
  then show "register_ok reg_width (mr_reg mr)" and "r_offset (mr_reg mr) = off" and "mr_offset mr = off" and "0 < mr_count mr"
    and "mr_compact mr \<Longrightarrow> length (r_fields (mr_reg mr)) = 1"
    and "expand_multi (mr_reg mr) off addrsep reg_width (mr_regwen_multi mr) (mr_compact mr) (nat (mr_count mr)) (mr_cname mr) =
      Inr (mr_regs mr)"
    using ok c(2) e mr by simp_all
qed

lemma f_bits_multi_copy:
  "f_bits (multi_copy f lo i cname idx strip) =
    \<lparr>bits_msb = bits_msb (f_bits f) + (bits_msb (f_bits f) + 1) * (i - lo),
     bits_lsb = bits_lsb (f_bits f) + (bits_msb (f_bits f) + 1) * (i - lo)\<rparr>"
  by (simp add: multi_copy_def Let_def)

lemma multi_copy_bits:
  assumes "bits_ok (f_bits f)" and "(bits_msb (f_bits f) + 1) * p \<le> n" and "lo \<le> i" and "i < lo + p" and "rg_field_ok (int n) f"
  shows "rg_field_ok (int n) (multi_copy f lo i cname idx strip)"
    and "lo \<le> j \<Longrightarrow> i \<noteq> j \<Longrightarrow>
      bits_disjoint (f_bits (multi_copy f lo i cname idx strip)) (f_bits (multi_copy f lo j cname idx strip))"
    and "resval_or_0 (multi_copy f lo i cname idx strip) = resval_or_0 f"
proof -
  let ?w = "bits_msb (f_bits f) + 1"
  have step: "?w * a + ?w \<le> ?w * b" if "a < b" for a b
    using mult_le_mono2 [of "Suc a" b ?w] that by simp
  have "?w * (i - lo) + ?w \<le> ?w * p" using assms(3,4) by (intro step) linarith
  then have "bits_msb (f_bits f) + ?w * (i - lo) < n" using assms(2) by linarith
  then show "rg_field_ok (int n) (multi_copy f lo i cname idx strip)"
    using assms(1,5) by (auto simp: rg_field_ok_def multi_copy_def Let_def bits_ok_def bits_width_def simp del: of_nat_add of_nat_mult)
  show "bits_disjoint (f_bits (multi_copy f lo i cname idx strip)) (f_bits (multi_copy f lo j cname idx strip))"
    if j: "lo \<le> j" "i \<noteq> j"
  proof -
    consider "i - lo < j - lo" | "j - lo < i - lo" using j assms(3) by linarith
    then have "?w * (i - lo) + ?w \<le> ?w * (j - lo) \<or> ?w * (j - lo) + ?w \<le> ?w * (i - lo)" using step by cases blast+
    then show ?thesis unfolding bits_disjoint_def f_bits_multi_copy bits.simps by linarith
  qed
  show "resval_or_0 (multi_copy f lo i cname idx strip) = resval_or_0 f"
    by (simp add: resval_or_0_def multi_copy_def Let_def)
qed

lemma multi_regs_nth:
  fixes reg :: register and f off addrsep regwen_multi cname
  assumes "0 < p" and "i < count"
  defines "r \<equiv> multi_regs reg f off addrsep p regwen_multi count cname ! (i div p)"
  shows "i div p < length (multi_regs reg f off addrsep p regwen_multi count cname)"
    and "r_offset r = off + int (i div p) * addrsep"
    and "r_fields r = map (\<lambda>i'. multi_copy f (p * (i div p)) i' cname (i div p) (i div p > 0))
      [p * (i div p)..<min (p * (i div p) + p) count]"
    and "r_resval r = sum_resval (r_fields r)"
  using div_less_ceil [OF assms(1,2)] by (simp_all add: r_def multi_regs_def Let_def multi_reg_def)

lemma multi_regs_extract:
  fixes reg :: register and off addrsep regwen_multi cname
  assumes f: "rg_field_ok reg_width f" and p: "p = nat reg_width div (bits_msb (f_bits f) + 1)" "0 < p" and i: "i < count"
  defines "r \<equiv> multi_regs reg f off addrsep p regwen_multi count cname ! (i div p)"
    and "g \<equiv> multi_copy f (p * (i div p)) i cname (i div p) (i div p > 0)"
  shows "g \<in> set (r_fields r)" and "rg_field_ok reg_width g" and "extract_field (f_bits g) (r_resval r) = resval_or_0 f"
proof -
  let ?lo = "p * (i div p)"
  have wp: "(bits_msb (f_bits f) + 1) * p \<le> nat reg_width" unfolding p(1) by (rule times_div_less_eq_dividend)
  have bok: "bits_ok (f_bits f)" and rw: "int (nat reg_width) = reg_width" using f by (auto simp: rg_field_ok_def)
  have lo: "?lo \<le> i" "i < ?lo + p" using p(2) dividend_less_times_div [of p i] by (simp_all add: add.commute)
  note nth = multi_regs_nth [OF p(2) i, of reg f off addrsep regwen_multi cname, folded r_def]
  show g: "g \<in> set (r_fields r)" using lo i by (auto simp: nth g_def)
  have fs: "x \<in> set (r_fields r) \<Longrightarrow> \<exists>j. ?lo \<le> j \<and> j < ?lo + p \<and> x = multi_copy f ?lo j cname (i div p) (i div p > 0)" for x
    by (auto simp: nth)
  note cp = multi_copy_bits [OF bok wp, unfolded rw, OF _ _ f]
  show "rg_field_ok reg_width g" unfolding g_def using cp(1) lo by blast
  have "\<forall>x\<in>set (r_fields r). rg_field_ok reg_width x" using fs cp(1) by metis
  moreover have "\<forall>x\<in>set (r_fields r). x = g \<or> bits_disjoint (f_bits x) (f_bits g)"
    using fs cp(2) lo unfolding g_def by metis
  ultimately have "extract_field (f_bits g) (r_resval r) = resval_or_0 g"
    using extract_sum_resval [OF g] nth(4) by simp
  also have "\<dots> = resval_or_0 f" unfolding g_def using cp(3) lo by blast
  finally show "extract_field (f_bits g) (r_resval r) = resval_or_0 f" .
qed

text \<open>
  C11: A compacted multi-register that the tool accepts has exactly \<open>count\<close> fields.  Field \<open>i\<close> is a copy of
  the one field of the description, with its number in its name, in the register \<open>i div p\<close> of the
  expansion (where \<open>p\<close> is the number of copies that fit a register), whose offset is that many address
  steps after the start; its bits are those of the description shifted by \<open>i mod p\<close> widths, lie in the
  register, and the register's reset value has the field's reset value there.
\<close>

theorem multireg_compact:
  assumes mr: "MultiRegister_init off addrsep reg_width ps raw = Inr mr" and compact: "mr_compact mr"
    and f: "r_fields (mr_reg mr) = [f]" and w: "w = bits_msb (f_bits f) + 1" and p: "p = nat reg_width div w"
    and i: "i < nat (mr_count mr)"
  shows "length (MultiRegister_get_field_list mr) = nat (mr_count mr) \<and>
    (let r = mr_regs mr ! (i div p); g = MultiRegister_get_field_list mr ! i
     in i div p < length (mr_regs mr) \<and> g \<in> set (r_fields r) \<and> r_offset r = off + int (i div p) * addrsep \<and>
        f_name g = f_name f @ ''_'' @ str_of_nat i \<and>
        bits_lsb (f_bits g) = bits_lsb (f_bits f) + w * (i mod p) \<and> bits_msb (f_bits g) = bits_msb (f_bits f) + w * (i mod p) \<and>
        int (bits_msb (f_bits g)) < reg_width \<and> extract_field (f_bits g) (r_resval r) = resval_or_0 f)"
proof -
  note mri = MultiRegister_init_Inr [OF mr]
  have f_ok: "rg_field_ok reg_width f" using mri(1) f by (simp add: register_ok_def)
  have p': "p = nat reg_width div (bits_msb (f_bits f) + 1)" using p w by simp
  note ex = expand_multi_compact [OF mri(1) f p']
  have regs: "mr_regs mr = multi_regs (mr_reg mr) f off addrsep p (mr_regwen_multi mr) (nat (mr_count mr)) (mr_cname mr)"
    using mri(6) ex(2) compact by (simp split: if_splits)
  have fl: "MultiRegister_get_field_list mr =
      map (\<lambda>i. multi_copy f (p * (i div p)) i (mr_cname mr) (i div p) (i div p > 0)) [0..<nat (mr_count mr)]"
    unfolding MultiRegister_get_field_list_def regs by (rule multi_regs_field_list [OF ex(1)])
  have "i - p * (i div p) = i mod p" by (simp add: minus_mult_div_eq_mod)
  then show ?thesis
    using multi_regs_nth [OF ex(1) i] multi_regs_extract [OF f_ok p' ex(1) i] i
    by (simp add: regs fl Let_def rg_field_ok_def) (simp add: multi_copy_def Let_def w)
qed

text \<open>Eight-bit registers with a three-bit field: the fourth copy is the second one of the second register.\<close>

definition mux_multireg :: yaml where
  "mux_multireg = YDict [(YStr ''name'', YStr ''MUX''), (YStr ''desc'', YStr ''Pin select''), (YStr ''count'', YStr ''5''),
     (YStr ''cname'', YStr ''pad''), (YStr ''swaccess'', YStr ''rw''),
     (YStr ''fields'', YList [YDict [(YStr ''bits'', YStr ''2:0''), (YStr ''resval'', YInt 5)]])]"

definition mux_expanded :: multi_register where
  "mux_expanded = projr (MultiRegister_init 16 1 8 [] mux_multireg)"

lemma mux_accepted: "MultiRegister_init 16 1 8 [] mux_multireg = Inr mux_expanded"
  by code_simp

lemma mux_shape: "mr_compact mux_expanded \<and> length (r_fields (mr_reg mux_expanded)) = 1 \<and> mr_count mux_expanded = 5 \<and>
    f_bits (hd (r_fields (mr_reg mux_expanded))) = \<lparr>bits_msb = 2, bits_lsb = 0\<rparr>"
  by code_simp

theorem multireg_compact_witness:
  "r_offset (mr_regs mux_expanded ! 1) = 17 \<and> bits_lsb (f_bits (MultiRegister_get_field_list mux_expanded ! 3)) = 3"
proof -
  have f: "r_fields (mr_reg mux_expanded) = [hd (r_fields (mr_reg mux_expanded))]"
    using mux_shape by (cases "r_fields (mr_reg mux_expanded)") auto
  show ?thesis using multireg_compact [OF mux_accepted _ f refl refl, of 3] mux_shape by (simp add: Let_def)
qed

section \<open>Overlapping fields\<close>

text \<open>
  Two fields with common bits are accepted, and then the reset value of the register does not have the
  reset values of its fields.
\<close>

definition overlap_register :: yaml where
  "overlap_register = YDict [(YStr ''name'', YStr ''CTRL''), (YStr ''desc'', YStr ''Control''), (YStr ''swaccess'', YStr ''rw''),
     (YStr ''fields'', YList [
        YDict [(YStr ''bits'', YStr ''3:0''), (YStr ''name'', YStr ''A''), (YStr ''desc'', YStr ''a''), (YStr ''resval'', YInt 1)],
        YDict [(YStr ''bits'', YStr ''1''), (YStr ''name'', YStr ''B''), (YStr ''desc'', YStr ''b''), (YStr ''resval'', YInt 1)]])]"

lemma overlap_accepted:
  "case Register_from_raw 32 0 [] overlap_register of
     Inr r \<Rightarrow> map (\<lambda>f. (bitmask (f_bits f), f_resval f, extract_field (f_bits f) (r_resval r))) (r_fields r) =
       [(15, Some 1, 3), (2, Some 1, 1)]
   | Inl e \<Rightarrow> False"
  by code_simp

section \<open>Placement of windows\<close>

lemma or_mask: "off OR (2 ^ k - 1) = off - off mod 2 ^ k + (2 :: int) ^ k - 1"
proof -
  have "off OR mask k = push_bit k (drop_bit k off) OR mask k" by (rule bit_eqI) (auto simp: bit_simps)
  also have "\<dots> = push_bit k (drop_bit k off) + mask k"
    by (rule disjunctive_add [symmetric]) (auto simp: bit_simps)
  also have "push_bit k (drop_bit k off) = off - off mod 2 ^ k"
    by (simp add: push_bit_eq_mult drop_bit_eq_div minus_mod_eq_div_mult)
  finally show ?thesis by (simp add: mask_eq_exp_minus_1)
qed

lemma align_offset_eq:
  "align_offset off (2 ^ k) = (if off mod 2 ^ k = 0 then off else off - off mod 2 ^ k + 2 ^ k)"
  using and_low_mask_mod [of off k] by (simp add: align_offset_def Let_def py_bool_def low_mask_eq or_mask)

lemma align_offset_ok:
  "off \<le> align_offset off (2 ^ k)" "align_offset off (2 ^ k) < off + 2 ^ k" "2 ^ k dvd align_offset off (2 ^ k)"
proof -
  have "0 \<le> off mod 2 ^ k" "off mod 2 ^ k < 2 ^ k" by simp_all
  note b = this
  show "off \<le> align_offset off (2 ^ k)" unfolding align_offset_eq using b by (auto simp only: split: if_split)
  show "align_offset off (2 ^ k) < off + 2 ^ k" unfolding align_offset_eq using b less_le [of 0 "off mod 2 ^ k"] by simp
  show "2 ^ k dvd align_offset off (2 ^ k)" unfolding align_offset_eq by (auto simp: dvd_minus_mod intro!: dvd_add)
qed

lemma po2_size_ok: "0 < n \<Longrightarrow> \<exists>k. po2_size n = 2 ^ k \<and> n \<le> 2 ^ k"
  using bit_length_bound [of "nat (n - 1)"] by (intro exI [of _ "nat (bit_length (nat (n - 1)))"]) (auto simp: po2_size_def push_bit_eq_mult nat_less_iff)

text \<open>A window starts at the first offset from the given one that is a multiple of its size rounded up to a power of two.\<close>

lemma Window_from_raw_ok:
  assumes "Window_from_raw off reg_width ps raw = Inr w"
  obtains k where "w_size_in_bytes w \<le> 2 ^ k" "0 < w_size_in_bytes w" "off \<le> w_offset w" "w_offset w < off + 2 ^ k"
    "2 ^ k dvd w_offset w" "w_size_in_bytes w = w_items w * (reg_width div 8)" "0 < w_validbits w" "w_validbits w \<le> reg_width"
    "reg_width mod 8 = 0"
proof -
  obtain name desc unusual byte_write passthru validbits items swa where
    c: "\<not> validbits \<le> 0" "\<not> validbits > reg_width" "reg_width mod 8 = 0" "items * (reg_width div 8) > 0"
    and w: "Window_init name desc unusual byte_write passthru validbits items (items * (reg_width div 8))
              (align_offset off (po2_size (items * (reg_width div 8)))) swa = Inr w"
    using assms unfolding Window_from_raw_def Let_def bindR_Inr_iff if_Inl_iff require_Inr_iff
    by (elim exE conjE) (rule that, assumption+)
  from po2_size_ok [OF c(4)] obtain k where k: "po2_size (items * (reg_width div 8)) = 2 ^ k" "items * (reg_width div 8) \<le> 2 ^ k"
    by blast
  have "w_size_in_bytes w = items * (reg_width div 8) \<and> w_items w = items \<and> w_offset w = align_offset off (2 ^ k) \<and>
      w_validbits w = validbits"
    using w k(1) by (auto simp: Window_init_def require_Inr_iff)
  then show thesis using that [of k] c k(2) align_offset_ok [where off = off and k = k] by simp
qed

section \<open>Registers and their reset values\<close>

text \<open>
  C26: In a register built from a description, the reset value has, in the bits of every field that
  shares no bit with another field, the reset value of that field (zero where the field has none), and
  it has no bit outside of the mask of the fields.
\<close>

theorem register_reset:
  assumes "Register_from_raw reg_width off ps raw = Inr r" and "f \<in> set (r_fields r)"
    and "\<forall>g\<in>set (r_fields r). g = f \<or> bits_disjoint (f_bits g) (f_bits f)"
  shows "extract_field (f_bits f) (r_resval r) = resval_or_0 f \<and> (bit (r_resval r) i \<longrightarrow> bit (r_resmask r) i)"
  using register_extract [of reg_width r f] register_unmasked [of reg_width r i] Register_from_raw_ok [OF assms(1)] assms(2,3)
  by blast

definition mux_register :: yaml where
  "mux_register = YDict [(YStr ''name'', YStr ''CFG''), (YStr ''desc'', YStr ''Configuration''), (YStr ''swaccess'', YStr ''rw''),
     (YStr ''fields'', YList [
        YDict [(YStr ''bits'', YStr ''7:4''), (YStr ''name'', YStr ''A''), (YStr ''desc'', YStr ''a''), (YStr ''resval'', YInt 9)],
        YDict [(YStr ''bits'', YStr ''1''), (YStr ''name'', YStr ''B''), (YStr ''desc'', YStr ''b''), (YStr ''resval'', YInt 1)]])]"

definition mux_built :: register where
  "mux_built = projr (Register_from_raw 32 0 [] mux_register)"

lemma mux_built: "Register_from_raw 32 0 [] mux_register = Inr mux_built"
  by code_simp

lemma mux_built_fields:
  "map (\<lambda>f. (bits_msb (f_bits f), bits_lsb (f_bits f), resval_or_0 f)) (r_fields mux_built) = [(1, 1, 1), (7, 4, 9)]"
  by code_simp

theorem register_reset_witness:
  "\<exists>f :: field. bits_msb (f_bits f) = 7 \<and> bits_lsb (f_bits f) = 4 \<and> extract_field (f_bits f) (r_resval mux_built) = 9"
proof -
  obtain a b where fs: "r_fields mux_built = [a, b]" and a: "bits_msb (f_bits a) = 1"
    and b: "bits_msb (f_bits b) = 7" "bits_lsb (f_bits b) = 4" "resval_or_0 b = 9"
    using mux_built_fields by (auto simp: map_eq_Cons_conv)
  have "\<forall>g\<in>set (r_fields mux_built). g = b \<or> bits_disjoint (f_bits g) (f_bits b)"
    using a b by (simp add: fs bits_disjoint_def)
  then have "extract_field (f_bits b) (r_resval mux_built) = 9" using register_reset [OF mux_built, of b] b fs by simp
  then show ?thesis using b by blast
qed

end
