(* ===== verification/Reggen_Block.thy ===== *)
theory Reggen_Block
  imports Reggen_Register
begin

text \<open>
  The register tool, part 5: signals (\<^verbatim>\<open>signal.py\<close>), alerts (\<^verbatim>\<open>alert.py\<close>) and register blocks
  (\<^verbatim>\<open>reg_block.py\<close>) of \<^verbatim>\<open>util/reggen\<close>.  A block is a record that the methods return updated; an exception
  ends the construction, so its state is not observed afterwards.  The dictionaries from names are maps.
\<close>

section \<open>Signals and alerts\<close>

record signal =
  s_name :: string
  s_desc :: string
  s_bits :: bits

record alert = signal +
  al_bit :: nat
  al_fatal :: bool

definition Signal_from_raw :: "nat \<Rightarrow> yaml \<Rightarrow> signal result" where
  "Signal_from_raw lsb raw =
     bindR (lib_check_keys raw [''name'', ''desc''] [''width'']) (\<lambda>rd.
     bindR (bindR (ydict_item rd ''name'') check_name) (\<lambda>name.
     bindR (bindR (ydict_item rd ''desc'') lib_check_str) (\<lambda>desc.
     bindR (lib_check_int (dict_get_default rd ''width'' (YInt 1))) (\<lambda>wd.
     if wd \<le> 0 then Inl ValueError
     else bindR (Bits_init (int lsb + wd - 1) (int lsb)) (\<lambda>b. Inr \<lparr>s_name = name, s_desc = desc, s_bits = b\<rparr>)))))"

fun signals_from :: "nat \<Rightarrow> yaml list \<Rightarrow> signal list result" where
  "signals_from lsb [] = Inr []"
| "signals_from lsb (entry # es) =
     bindR (Signal_from_raw lsb entry) (\<lambda>s.
     bindR (signals_from (lsb + bits_width (s_bits s)) es) (\<lambda>ss. Inr (s # ss)))"

definition Signal_from_raw_list :: "yaml \<Rightarrow> signal list result" where
  "Signal_from_raw_list raw = bindR (lib_check_list raw) (signals_from 0)"

definition as_nwt_dict :: "signal \<Rightarrow> string \<Rightarrow> string \<times> nat \<times> string" where
  "as_nwt_dict s type_field = (s_name s, bits_width (s_bits s), type_field)"

definition Alert_init :: "string \<Rightarrow> string \<Rightarrow> nat \<Rightarrow> bool \<Rightarrow> alert result" where
  "Alert_init name desc b fatal =
     bindR (Bits_init (int b) (int b)) (\<lambda>bs. Inr \<lparr>s_name = name, s_desc = desc, s_bits = bs, al_bit = b, al_fatal = fatal\<rparr>)"

definition Alert_from_raw :: "nat \<Rightarrow> yaml \<Rightarrow> alert result" where
  "Alert_from_raw lsb raw =
     bindR (lib_check_keys raw [''name'', ''desc''] []) (\<lambda>rd.
     bindR (bindR (ydict_item rd ''name'') check_name) (\<lambda>name.
     bindR (bindR (ydict_item rd ''desc'') lib_check_str) (\<lambda>desc.
     let pfx = hd (py_split (CHR ''_'') name)
     in bindR (if pfx = ''recov'' then Inr False else if pfx = ''fatal'' then Inr True else Inl ValueError) (\<lambda>fatal.
        Alert_init name desc lsb fatal))))"

definition Alert_from_raw_list :: "yaml \<Rightarrow> alert list result" where
  "Alert_from_raw_list raw =
     bindR (lib_check_list raw) (\<lambda>l. mapR (\<lambda>(idx, entry). Alert_from_raw idx entry) (enumerate 0 l))"

section \<open>Register blocks\<close>

datatype reg_entry = EReg (the_reg: register) | EMulti (the_multi: multi_register) | EWin (the_win: window)

definition entry_offset :: "reg_entry \<Rightarrow> int" where
  "entry_offset e = (case e of EReg r \<Rightarrow> r_offset r | EMulti mr \<Rightarrow> mr_offset mr | EWin w \<Rightarrow> w_offset w)"

definition next_offset :: "int \<Rightarrow> reg_entry \<Rightarrow> int" where
  "next_offset addrsep e =
     (case e of EReg r \<Rightarrow> Register_next_offset r addrsep | EMulti mr \<Rightarrow> MultiRegister_next_offset mr addrsep
      | EWin w \<Rightarrow> Window_next_offset w addrsep)"

record reg_block =
  rb_addrsep :: int
  rb_reg_width :: int
  rb_params :: params
  rb_offset :: int
  rb_multiregs :: "multi_register list"
  rb_registers :: "register list"
  rb_windows :: "window list"
  rb_has_data_intg_passthru :: bool
  rb_flat_regs :: "register list"
  rb_all_regs :: "reg_entry list"
  rb_entries :: "reg_entry list"
  rb_name_to_offset :: "string \<rightharpoonup> int"
  rb_name_to_flat_reg :: "string \<rightharpoonup> register"
  rb_wennames :: "string list"

definition RegBlock_init :: "int \<Rightarrow> params \<Rightarrow> reg_block" where
  "RegBlock_init reg_width ps =
     \<lparr>rb_addrsep = (reg_width + 7) div 8, rb_reg_width = reg_width, rb_params = ps, rb_offset = 0, rb_multiregs = [],
      rb_registers = [], rb_windows = [], rb_has_data_intg_passthru = False, rb_flat_regs = [], rb_all_regs = [],
      rb_entries = [], rb_name_to_offset = Map.empty, rb_name_to_flat_reg = Map.empty, rb_wennames = []\<rparr>"

definition add_flat_reg :: "register \<Rightarrow> reg_block \<Rightarrow> reg_block result" where
  "add_flat_reg reg b =
     require (rb_name_to_offset b (r_name reg) = None) (require (rb_name_to_flat_reg b (r_name reg) = None)
       (Inr (b\<lparr>rb_flat_regs := rb_flat_regs b @ [reg],
               rb_name_to_flat_reg := (rb_name_to_flat_reg b)(py_lower (r_name reg) \<mapsto> reg)\<rparr>)))"

definition add_register :: "register \<Rightarrow> reg_block \<Rightarrow> reg_block result" where
  "add_register reg b =
     require (r_offset reg = rb_offset b)
       (let lname = py_lower (r_name reg)
        in if rb_name_to_offset b lname \<noteq> None then Inl ValueError
           else
             bindR (add_flat_reg reg b) (\<lambda>b.
             Inr (b\<lparr>rb_name_to_offset := (rb_name_to_offset b)(lname \<mapsto> r_offset reg),
                     rb_registers := rb_registers b @ [reg], rb_all_regs := rb_all_regs b @ [EReg reg],
                     rb_entries := rb_entries b @ [EReg reg], rb_offset := Register_next_offset reg (rb_addrsep b),
                     rb_wennames := (case r_regwen reg of
                                       None \<Rightarrow> rb_wennames b
                                     | Some w \<Rightarrow> if w \<in> set (rb_wennames b) then rb_wennames b else rb_wennames b @ [w])\<rparr>)))"

definition add_window :: "window \<Rightarrow> reg_block \<Rightarrow> reg_block result" where
  "add_window win b =
     (let lname = py_lower (w_name win)
      in require (rb_name_to_offset b lname = None) (require (rb_offset b \<le> w_offset win)
           (Inr (b\<lparr>rb_name_to_offset := (rb_name_to_offset b)(lname \<mapsto> w_offset win),
                   rb_windows := rb_windows b @ [win], rb_entries := rb_entries b @ [EWin win],
                   rb_offset := Window_next_offset win (rb_addrsep b),
                   rb_has_data_intg_passthru := rb_has_data_intg_passthru b \<or> w_data_intg_passthru win\<rparr>))))"

definition handle_register :: "yaml \<Rightarrow> reg_block \<Rightarrow> reg_block result" where
  "handle_register body b =
     bindR (Register_from_raw (rb_reg_width b) (rb_offset b) (rb_params b) body) (\<lambda>reg. add_register reg b)"

definition handle_reserved :: "yaml \<Rightarrow> reg_block \<Rightarrow> reg_block result" where
  "handle_reserved body b =
     bindR (lib_check_int body) (\<lambda>nreserved.
     if nreserved \<le> 0 then Inl ValueError else Inr (b\<lparr>rb_offset := rb_offset b + rb_addrsep b * nreserved\<rparr>))"

definition handle_skipto :: "yaml \<Rightarrow> reg_block \<Rightarrow> reg_block result" where
  "handle_skipto body b =
     bindR (lib_check_int body) (\<lambda>skipto.
     if skipto < rb_offset b then Inl ValueError
     else if skipto mod rb_addrsep b \<noteq> 0 then Inl ValueError
     else Inr (b\<lparr>rb_offset := skipto\<rparr>))"

definition handle_window :: "yaml \<Rightarrow> reg_block \<Rightarrow> reg_block result" where
  "handle_window body b =
     bindR (Window_from_raw (rb_offset b) (rb_reg_width b) (rb_params b) body) (\<lambda>win.
     if rb_name_to_offset b (py_lower (w_name win)) \<noteq> None then Inl ValueError else add_window win b)"

text \<open>The loop over the registers of a multi-register.\<close>

fun add_multi_regs :: "register list \<Rightarrow> reg_block \<Rightarrow> reg_block result" where
  "add_multi_regs [] b = Inr b"
| "add_multi_regs (reg # regs) b =
     (let lname = py_lower (r_name reg)
      in if rb_name_to_offset b lname \<noteq> None then Inl ValueError
         else
           bindR (add_flat_reg reg b) (\<lambda>b.
           add_multi_regs regs (b\<lparr>rb_name_to_offset := (rb_name_to_offset b)(lname \<mapsto> r_offset reg)\<rparr>)))"

definition handle_multireg :: "yaml \<Rightarrow> reg_block \<Rightarrow> reg_block result" where
  "handle_multireg body b =
     bindR (MultiRegister_init (rb_offset b) (rb_addrsep b) (rb_reg_width b) (rb_params b) body) (\<lambda>mr.
     bindR (add_multi_regs (mr_regs mr) b) (\<lambda>b.
     Inr (b\<lparr>rb_multiregs := rb_multiregs b @ [mr], rb_all_regs := rb_all_regs b @ [EMulti mr],
             rb_entries := rb_entries b @ [EMulti mr], rb_offset := MultiRegister_next_offset mr (rb_addrsep b)\<rparr>)))"

text \<open>
  The type of an entry: a key that names one must be its only key; without one the entry is a register.
\<close>

definition add_raw :: "yaml \<Rightarrow> reg_block \<Rightarrow> reg_block result" where
  "add_raw raw b =
     bindR (lib_check_str_dict raw) (\<lambda>entry.
     let types = filter (\<lambda>t. ydict_get_or_None entry t \<noteq> YNone) [''reserved'', ''skipto'', ''window'', ''multireg'']
     in if types = [] then handle_register raw b
        else if length entry \<noteq> 1 then Inl ValueError
        else
          let t = last types; body = ydict_get_or_None entry t
          in if t = ''reserved'' then handle_reserved body b
             else if t = ''skipto'' then handle_skipto body b
             else if t = ''window'' then handle_window body b
             else handle_multireg body b)"

fun add_raws :: "yaml list \<Rightarrow> reg_block \<Rightarrow> reg_block result" where
  "add_raws [] b = Inr b"
| "add_raws (raw # raws) b = bindR (add_raw raw b) (add_raws raws)"

definition add_raw_registers :: "yaml \<Rightarrow> reg_block \<Rightarrow> reg_block result" where
  "add_raw_registers raw b = bindR (lib_check_list raw) (\<lambda>rl. add_raws rl b)"

text \<open>The regular expression of the name of a write-enable register.\<close>

definition regwen_prefix :: "string \<Rightarrow> bool" where
  "regwen_prefix p \<longleftrightarrow> p = [] \<or> 2 \<le> length p \<and> last p = CHR ''_'' \<and> CHR 0x0A \<notin> set p"

definition regwen_base :: "string \<Rightarrow> bool" where
  "regwen_base s \<longleftrightarrow> ends_with ''REGWEN'' s \<and> regwen_prefix (take (length s - 6) s)"

definition regwen_match :: "string \<Rightarrow> bool" where
  "regwen_match s \<longleftrightarrow>
     regwen_base s \<or>
     (let ds = takeWhile is_digit (rev s); pre = rev (drop (length ds) (rev s))
      in ds \<noteq> [] \<and> pre \<noteq> [] \<and> last pre = CHR ''_'' \<and> regwen_base (butlast pre))"

definition check_wenname :: "reg_block \<Rightarrow> string \<Rightarrow> unit result" where
  "check_wenname b wenname =
     (if \<not> regwen_match wenname then Inl ValueError
      else
        case rb_name_to_flat_reg b (py_lower wenname) of
          None \<Rightarrow> Inl ValueError
        | Some wen_reg \<Rightarrow>
            if sw_key (r_swaccess wen_reg) \<noteq> ''ro'' \<and> \<not> py_bool (r_resval wen_reg) then Inl ValueError
            else if sw_key (r_swaccess wen_reg) = ''rw0c'' then Inr ()
            else if sw_key (r_swaccess wen_reg) = ''ro'' \<and> hw_key (r_hwaccess wen_reg) = ''hwo'' then Inr ()
            else Inl ValueError)"

definition RegBlock_validate :: "reg_block \<Rightarrow> unit result" where
  "RegBlock_validate b = bindR (mapR (check_wenname b) (rb_wennames b)) (\<lambda>_. Inr ())"

definition RegBlock_get_n_bits :: "reg_block \<Rightarrow> string list \<Rightarrow> int" where
  "RegBlock_get_n_bits b bittype = sum_list (map (\<lambda>r. Register_get_n_bits r bittype) (rb_flat_regs b))"

datatype dict_entry = DReserved int | DEntry reg_entry

fun entries_as_dicts :: "int \<Rightarrow> int \<Rightarrow> reg_entry list \<Rightarrow> dict_entry list result" where
  "entries_as_dicts addrsep off [] = Inr []"
| "entries_as_dicts addrsep off (e # es) =
     (let next_off = entry_offset e
      in require (off \<le> next_off)
           (let res_bytes = next_off - off
            in bindR (if py_bool res_bytes then require (res_bytes mod addrsep = 0) (Inr [DReserved (res_bytes div addrsep)])
                      else Inr []) (\<lambda>res.
               bindR (entries_as_dicts addrsep (next_offset addrsep e) es) (\<lambda>ds. Inr (res @ DEntry e # ds)))))"

definition RegBlock_as_dicts :: "reg_block \<Rightarrow> dict_entry list result" where
  "RegBlock_as_dicts b = entries_as_dicts (rb_addrsep b) 0 (rb_entries b)"

section \<open>Interrupt and alert registers\<close>

datatype field_fmt = Fmt_None | Fmt_Str string | Fmt_Fun "bool \<Rightarrow> string \<Rightarrow> string"

definition signal_field :: "field_fmt \<Rightarrow> swaccess \<Rightarrow> hwaccess \<Rightarrow> bool \<Rightarrow> 'a signal_scheme \<Rightarrow> field" where
  "signal_field field_desc_fmt swa hwa is_testreg s =
     (let field_desc = (case field_desc_fmt of
                          Fmt_None \<Rightarrow> s_desc s
                        | Fmt_Str d \<Rightarrow> d
                        | Fmt_Fun fmt \<Rightarrow> fmt (bits_width (s_bits s) > 1) (s_name s))
      in \<lparr>f_name = s_name s, f_desc = Some (if field_desc \<noteq> [] then field_desc else s_desc s), f_tags = [],
          f_swaccess = swa, f_hwaccess = hwa, f_hwqe = is_testreg, f_hwre = False, f_bits = s_bits s,
          f_resval = Some 0, f_enum = None\<rparr>)"

definition add_intr_alert_reg ::
    "'a signal_scheme list \<Rightarrow> string \<Rightarrow> string \<Rightarrow> field_fmt \<Rightarrow> string \<Rightarrow> string \<Rightarrow> bool \<Rightarrow> string list \<Rightarrow>
     reg_block \<Rightarrow> reg_block result" where
  "add_intr_alert_reg signals reg_name reg_desc field_desc_fmt swa_str hwa_str is_testreg reg_tags b =
     bindR (SWAccess_init (YStr swa_str)) (\<lambda>swa.
     bindR (HWAccess_init (YStr hwa_str)) (\<lambda>hwa.
     bindR (Register_init (rb_offset b) reg_name reg_desc swa hwa is_testreg is_testreg False None reg_tags None False
              (map (signal_field field_desc_fmt swa hwa is_testreg) signals) None None) (\<lambda>reg.
     add_register reg b)))"

definition make_intr_regs :: "signal list \<Rightarrow> reg_block \<Rightarrow> reg_block result" where
  "make_intr_regs interrupts b =
     require (interrupts \<noteq> []) (require (int (bits_msb (s_bits (last interrupts))) < rb_reg_width b)
       (bindR (add_intr_alert_reg interrupts ''INTR_STATE'' ''Interrupt State Register'' Fmt_None ''rw1c'' ''hrw'' False
                 [''excl:CsrNonInitTests:CsrExclWriteCheck''] b) (\<lambda>b.
        bindR (add_intr_alert_reg interrupts ''INTR_ENABLE'' ''Interrupt Enable Register''
                 (Fmt_Fun (\<lambda>w n. ''Enable interrupt when '' @ (if w then ''corresponding bit in '' else []) @
                    ''!!INTR_STATE.'' @ n @ '' is set.'')) ''rw'' ''hro'' False [] b) (\<lambda>b.
        add_intr_alert_reg interrupts ''INTR_TEST'' ''Interrupt Test Register''
          (Fmt_Fun (\<lambda>w n. ''Write 1 to force '' @ (if w then ''corresponding bit in '' else []) @
             ''!!INTR_STATE.'' @ n @ '' to 1.'')) ''wo'' ''hro'' True [''excl:CsrNonInitTests:CsrExclWrite''] b))))"

definition make_alert_regs :: "alert list \<Rightarrow> reg_block \<Rightarrow> reg_block result" where
  "make_alert_regs alerts b =
     require (alerts \<noteq> []) (require (int (length alerts) < rb_reg_width b)
       (add_intr_alert_reg alerts ''ALERT_TEST'' ''Alert Test Register''
          (Fmt_Str ''Write 1 to trigger one alert event of this kind.'') ''wo'' ''hro'' True [] b))"

text \<open>Python's \<^verbatim>\<open>bit_length\<close> of a negative number is that of its absolute value.\<close>

definition get_addr_width :: "reg_block \<Rightarrow> int" where
  "get_addr_width b = bit_length (nat \<bar>rb_offset b - 1\<bar>)"

section \<open>The blocks of a description\<close>

fun build_named :: "nat \<Rightarrow> reg_block \<Rightarrow> (string option \<times> reg_block) list \<Rightarrow> (yaml \<times> yaml) list \<Rightarrow>
    (string option \<times> reg_block) list result" where
  "build_named idx b ret [] = Inr ret"
| "build_named idx b ret ((r_key, r_val) # items) =
     (let b = (if idx > 0 then RegBlock_init (rb_reg_width b) (rb_params b) else b)
      in bindR (lib_check_str r_key) (\<lambda>rb_key.
         bindR (lib_check_list r_val) (\<lambda>rb_val.
         bindR (add_raw_registers (YList rb_val) b) (\<lambda>b.
         bindR (RegBlock_validate b) (\<lambda>_.
         require (Some rb_key \<notin> fst ` set ret) (build_named (idx + 1) b (ret @ [(Some rb_key, b)]) items))))))"

definition build_blocks :: "reg_block \<Rightarrow> yaml \<Rightarrow> (string option \<times> reg_block) list result" where
  "build_blocks b raw =
     (case raw of
        YList l \<Rightarrow> bindR (add_raw_registers raw b) (\<lambda>b. Inr [(None, b)])
      | YDict items \<Rightarrow> build_named 0 b [] items
      | _ \<Rightarrow> Inl ValueError)"

end
