(* ===== verification/Reggen_Layout.thy ===== *)
theory Reggen_Layout
  imports Reggen_Block
begin

text \<open>
  The register tool, part 6: the invariant of a register block.  The entries are placed one after the other
  without overlap, names are unique up to case, the dictionaries index what the block holds, and
  the description that \<^verbatim>\<open>as_dicts\<close> writes puts every entry back at its offset.
\<close>

section \<open>The registers of a multi-register\<close>

lemma Register_make_multi_ok:
  assumes ok: "register_ok reg_width reg"
    and mk: "Register_make_multi reg reg_width off idx cnt regwen_multi compact lo hi cname = Inr r"
  shows "r_offset r = off" and "register_ok reg_width r"
proof -
  obtain fs name regwen where
    fs: "(if compact then
            require (length (r_fields reg) = 1) (Field_make_multi (hd (r_fields reg)) reg_width lo hi cname idx (idx > 0))
          else require (idx = lo)
            (Inr (map (\<lambda>f. Field_make_suffixed f (''_'' @ str_of_nat idx) cname idx (idx > 0)) (r_fields reg)))) = Inr fs"
    and ini: "Register_init off name (r_desc reg) (r_swaccess reg) (r_hwaccess reg) (r_hwext reg) (r_hwqe reg) (r_hwre reg)
                regwen (r_tags reg) None (r_shadowed reg) fs (r_update_err_alert reg) (r_storage_err_alert reg) = Inr r"
    using mk unfolding Register_make_multi_def Let_def require_Inr_iff bindR_Inr_iff by (elim exE conjE) (rule that)
  have okf: "rg_field_ok reg_width f" if "f \<in> set (r_fields reg)" for f using ok that by (simp add: register_ok_def)
  have "rg_field_ok reg_width f" if f: "f \<in> set fs" for f
  proof (cases compact)
    case True
    let ?f = "hd (r_fields reg)"
    have "?f \<in> set (r_fields reg)" and m: "Field_make_multi ?f reg_width lo hi cname idx (idx > 0) = Inr fs"
      using fs True by (cases "r_fields reg"; simp add: require_Inr_iff)+
    then have f0: "rg_field_ok reg_width ?f" using okf by blast
    then have bok: "bits_ok (f_bits ?f)" and rw: "int (nat reg_width) = reg_width" by (auto simp: rg_field_ok_def)
    have lo: "lo \<le> hi" and wd: "int ((bits_msb (f_bits ?f) + 1) * (1 + hi - lo)) \<le> reg_width"
      using m unfolding Field_make_multi_def Let_def require_Inr_iff if_Inl_iff not_less by blast+
    obtain i where "lo \<le> i" "i < lo + (1 + hi - lo)" "f = multi_copy ?f lo i cname idx (idx > 0)"
      using m f lo Field_make_multi_eq [OF bok lo wd] by (auto simp del: upt_Suc)
    moreover have "(bits_msb (f_bits ?f) + 1) * (1 + hi - lo) \<le> nat reg_width" using wd by linarith
    ultimately show ?thesis using multi_copy_bits(1) [OF bok, of "1 + hi - lo" "nat reg_width"] f0 unfolding rw by blast
  next
    case False
    then obtain g where "g \<in> set (r_fields reg)" "f = Field_make_suffixed g (''_'' @ str_of_nat idx) cname idx (idx > 0)"
      using fs f by (auto simp: require_Inr_iff)
    then show ?thesis using okf [of g] by (auto simp: rg_field_ok_def Field_make_suffixed_def)
  qed
  then show "r_offset r = off" and "register_ok reg_width r" using Register_init_Inr(3,6) [OF ini] by blast+
qed

lemma MultiRegister_init_regs:
  assumes "MultiRegister_init off addrsep reg_width ps raw = Inr mr"
  shows "mr_offset mr = off" and "mr_regs mr \<noteq> []"
    and "k < length (mr_regs mr) \<Longrightarrow> r_offset (mr_regs mr ! k) = off + int k * addrsep \<and> register_ok reg_width (mr_regs mr ! k)"
proof -
  note mri = MultiRegister_init_Inr [OF assms]
  show "mr_offset mr = off" by (rule mri(3))
  obtain p where p: "0 < p" and regs: "mapR (\<lambda>idx. Register_make_multi (mr_reg mr) reg_width (off + int idx * addrsep) idx
      ((nat (mr_count mr) + p - 1) div p) (mr_regwen_multi mr) (mr_compact mr) (p * idx)
      (min (p * idx + p) (nat (mr_count mr)) - 1) (mr_cname mr)) [0..<(nat (mr_count mr) + p - 1) div p] = Inr (mr_regs mr)"
  proof (cases "mr_compact mr")
    case True
    obtain f where f: "r_fields (mr_reg mr) = [f]" using mri(5) [OF True] by (auto simp: length_Suc_conv)
    show ?thesis
      using mri(6) True f expand_multi_compact(1) [OF mri(1) f refl]
      by (intro that [of "nat reg_width div (bits_msb (f_bits f) + 1)"]) (simp_all add: expand_multi_def Let_def require_Inr_iff bindR_Inr_iff)
  next
    case False
    show ?thesis using mri(6) False by (intro that [of 1]) (simp_all add: expand_multi_def Let_def)
  qed
  have "0 < (nat (mr_count mr) + p - 1) div p" using mri(4) div_less_ceil [OF p, of 0 "nat (mr_count mr)"] by simp
  then show "mr_regs mr \<noteq> []" using regs by (auto simp: mapR_Inr_iff)
  show "r_offset (mr_regs mr ! k) = off + int k * addrsep \<and> register_ok reg_width (mr_regs mr ! k)"
    if "k < length (mr_regs mr)"
    using regs that Register_make_multi_ok [OF mri(1)] by (auto simp: mapR_Inr_iff)
qed

section \<open>Placement\<close>

definition entry_regs :: "reg_entry \<Rightarrow> register list" where
  "entry_regs e = (case e of EReg r \<Rightarrow> [r] | EMulti mr \<Rightarrow> mr_regs mr | EWin w \<Rightarrow> [])"

definition entry_index :: "reg_entry \<Rightarrow> (string \<times> int) list" where
  "entry_index e =
     (case e of EReg r \<Rightarrow> [(py_lower (r_name r), r_offset r)]
      | EMulti mr \<Rightarrow> map (\<lambda>r. (py_lower (r_name r), r_offset r)) (mr_regs mr)
      | EWin w \<Rightarrow> [(py_lower (w_name w), w_offset w)])"

text \<open>The entries lie one after the other between two offsets.\<close>

fun placed :: "int \<Rightarrow> int \<Rightarrow> reg_entry list \<Rightarrow> int \<Rightarrow> bool" where
  "placed s lo [] hi \<longleftrightarrow> lo \<le> hi"
| "placed s lo (e # es) hi \<longleftrightarrow> lo \<le> entry_offset e \<and> entry_offset e < next_offset s e \<and> placed s (next_offset s e) es hi"

lemma placed_mono: "placed s lo es hi \<Longrightarrow> hi \<le> hi' \<Longrightarrow> placed s lo es hi'"
  by (induction es arbitrary: lo) auto

lemma placed_snoc:
  "placed s lo es hi \<Longrightarrow> hi \<le> entry_offset e \<Longrightarrow> entry_offset e < next_offset s e \<Longrightarrow> placed s lo (es @ [e]) (next_offset s e)"
  by (induction es arbitrary: lo) auto

lemma placed_le: "placed s lo es hi \<Longrightarrow> lo \<le> hi"
  by (induction es arbitrary: lo) force+

lemma placed_mem: "placed s lo es hi \<Longrightarrow> e \<in> set es \<Longrightarrow> lo \<le> entry_offset e \<and> entry_offset e < next_offset s e \<and> next_offset s e \<le> hi"
  by (induction es arbitrary: lo) (force dest: placed_le)+

lemma placed_nth: "placed s lo es hi \<Longrightarrow> i < j \<Longrightarrow> j < length es \<Longrightarrow> next_offset s (es ! i) \<le> entry_offset (es ! j)"
proof (induction es arbitrary: lo i j)
  case (Cons e es)
  obtain j' where j: "j = Suc j'" using Cons.prems(2) by (cases j) auto
  show ?case
  proof (cases i)
    case 0
    then show ?thesis using Cons.prems placed_mem [of s "next_offset s e" es hi "es ! j'"] j by simp
  next
    case (Suc i')
    then show ?thesis using Cons j by auto
  qed
qed simp

section \<open>The invariant\<close>

definition entry_ok :: "int \<Rightarrow> int \<Rightarrow> reg_entry \<Rightarrow> bool" where
  "entry_ok s reg_width e \<longleftrightarrow>
     (\<forall>k<length (entry_regs e). r_offset (entry_regs e ! k) = entry_offset e + int k * s \<and> register_ok reg_width (entry_regs e ! k)) \<and>
     (case e of EWin w \<Rightarrow> True | _ \<Rightarrow> next_offset s e = entry_offset e + int (length (entry_regs e)) * s)"

definition index_of :: "reg_entry list \<Rightarrow> (string \<times> int) list" where
  "index_of es = concat (map entry_index es)"

definition aligned :: "int \<Rightarrow> reg_block \<Rightarrow> bool" where
  "aligned s b \<longleftrightarrow> s dvd rb_offset b \<and> (\<forall>e\<in>set (rb_entries b). s dvd entry_offset e \<and> s dvd next_offset s e)"

definition block_ok :: "reg_block \<Rightarrow> bool" where
  "block_ok b \<longleftrightarrow>
     0 < rb_reg_width b \<and> rb_addrsep b = (rb_reg_width b + 7) div 8 \<and>
     placed (rb_addrsep b) 0 (rb_entries b) (rb_offset b) \<and>
     (\<forall>e\<in>set (rb_entries b). entry_ok (rb_addrsep b) (rb_reg_width b) e) \<and>
     rb_flat_regs b = concat (map entry_regs (rb_entries b)) \<and>
     distinct (map fst (index_of (rb_entries b))) \<and>
     rb_name_to_offset b = map_of (index_of (rb_entries b)) \<and>
     rb_name_to_flat_reg b = map_of (map (\<lambda>r. (py_lower (r_name r), r)) (rb_flat_regs b)) \<and>
     (\<forall>j. rb_addrsep b = 2 ^ j \<longrightarrow> aligned (rb_addrsep b) b)"

lemma block_init_ok: "0 < reg_width \<Longrightarrow> block_ok (RegBlock_init reg_width ps)"
  by (simp add: block_ok_def RegBlock_init_def index_of_def aligned_def)

lemma addrsep_pos: "block_ok b \<Longrightarrow> 0 < rb_addrsep b"
  by (auto simp: block_ok_def pos_imp_zdiv_pos_iff)

lemma map_of_snoc: "k \<notin> fst ` set xs \<Longrightarrow> map_of (xs @ [(k, v)]) = (map_of xs)(k \<mapsto> v)"
  by (induction xs) (auto simp: fun_upd_twist)

lemma map_of_None_notin: "map_of xs k = None \<longleftrightarrow> k \<notin> fst ` set xs"
  by (simp add: map_of_eq_None_iff)

declare py_lower_idem [simp]

text \<open>Moving the offset forward keeps the invariant.\<close>

lemma block_ok_advance:
  assumes "block_ok b" and "rb_offset b \<le> off" and "rb_addrsep b dvd rb_offset b \<Longrightarrow> rb_addrsep b dvd off"
  shows "block_ok (b\<lparr>rb_offset := off\<rparr>)"
  using assms by (auto simp: block_ok_def aligned_def intro: placed_mono)

text \<open>
  Adding an entry at its end: what every method that appends an entry does, apart from the lists of one
  kind of entry and the names of write enables, of which the invariant says nothing.
\<close>

lemma block_ok_append:
  assumes ok: "block_ok b" and e: "entry_ok (rb_addrsep b) (rb_reg_width b) e" and off: "rb_offset b \<le> entry_offset e"
    and pos: "entry_offset e < next_offset (rb_addrsep b) e"
    and names: "distinct (map fst (entry_index e))" "fst ` set (entry_index e) \<inter> fst ` set (index_of (rb_entries b)) = {}"
    and al: "\<And>j. rb_addrsep b = 2 ^ j \<Longrightarrow> rb_addrsep b dvd rb_offset b \<Longrightarrow>
      rb_addrsep b dvd entry_offset e \<and> rb_addrsep b dvd next_offset (rb_addrsep b) e"
    and b': "rb_addrsep b' = rb_addrsep b" "rb_reg_width b' = rb_reg_width b" "rb_entries b' = rb_entries b @ [e]"
      "rb_offset b' = next_offset (rb_addrsep b) e" "rb_flat_regs b' = rb_flat_regs b @ entry_regs e"
      "rb_name_to_offset b' = map_of (index_of (rb_entries b) @ entry_index e)"
      "rb_name_to_flat_reg b' = map_of (map (\<lambda>r. (py_lower (r_name r), r)) (rb_flat_regs b @ entry_regs e))"
  shows "block_ok b'"
proof -
  have "distinct (map fst (index_of (rb_entries b @ [e])))"
    using ok names by (auto simp: block_ok_def index_of_def)
  moreover have "aligned (rb_addrsep b) b'" if "rb_addrsep b = 2 ^ j" for j
    using ok al [OF that] that by (auto simp: block_ok_def aligned_def b')
  moreover have "placed (rb_addrsep b) 0 (rb_entries b @ [e]) (next_offset (rb_addrsep b) e)"
    using ok off pos placed_snoc by (auto simp: block_ok_def)
  moreover have "index_of (rb_entries b @ [e]) = index_of (rb_entries b) @ entry_index e" by (simp add: index_of_def)
  ultimately show ?thesis using ok e unfolding block_ok_def b' by auto
qed

lemma dvd_two_power: "(2 :: int) ^ j \<le> 2 ^ k \<Longrightarrow> (2 :: int) ^ j dvd 2 ^ k"
  by (metis le_imp_power_dvd one_less_numeral_iff power_le_imp_le_exp semiring_norm(76))

text \<open>
  The assertions of \<^verbatim>\<open>_add_flat_reg\<close> hold for a name that is not yet in use up to case: all names in the
  dictionaries are in lower case.
\<close>

definition names_ok :: "reg_block \<Rightarrow> bool" where
  "names_ok b \<longleftrightarrow> (\<forall>n\<in>dom (rb_name_to_offset b). py_lower n = n) \<and> dom (rb_name_to_flat_reg b) \<subseteq> dom (rb_name_to_offset b)"

lemma add_flat_reg_eq:
  assumes "names_ok b" and "rb_name_to_offset b (py_lower (r_name reg)) = None"
  shows "add_flat_reg reg b = Inr (b\<lparr>rb_flat_regs := rb_flat_regs b @ [reg],
    rb_name_to_flat_reg := (rb_name_to_flat_reg b)(py_lower (r_name reg) \<mapsto> reg)\<rparr>)"
proof -
  have "rb_name_to_offset b (r_name reg) = None"
    using assms by (metis domIff names_ok_def)
  then show ?thesis using assms(1) by (auto simp: add_flat_reg_def names_ok_def require_def)
qed

lemma entry_index_lower: "n \<in> fst ` set (entry_index e) \<Longrightarrow> py_lower n = n"
  by (auto simp: entry_index_def split: reg_entry.splits)

lemma block_names_ok:
  assumes "block_ok b"
  shows "names_ok b"
proof -
  have sub: "(\<lambda>r. py_lower (r_name r)) ` set (entry_regs e) \<subseteq> fst ` set (entry_index e)" for e
    by (auto simp: entry_regs_def entry_index_def image_image split: reg_entry.splits)
  have "dom (rb_name_to_flat_reg b) = (\<Union>e\<in>set (rb_entries b). (\<lambda>r. py_lower (r_name r)) ` set (entry_regs e))"
    using assms by (simp add: block_ok_def dom_map_of_conv_image_fst image_image image_UN)
  moreover have d: "dom (rb_name_to_offset b) = (\<Union>e\<in>set (rb_entries b). fst ` set (entry_index e))"
    using assms by (simp add: block_ok_def dom_map_of_conv_image_fst index_of_def image_UN)
  ultimately have "dom (rb_name_to_flat_reg b) \<subseteq> dom (rb_name_to_offset b)" using sub by (simp add: UN_mono)
  moreover have "py_lower n = n" if "n \<in> dom (rb_name_to_offset b)" for n
    using that entry_index_lower unfolding d by blast
  ultimately show ?thesis by (simp add: names_ok_def)
qed

lemma add_register_ok:
  assumes ok: "block_ok b" and reg: "register_ok (rb_reg_width b) reg" and add: "add_register reg b = Inr b'"
  shows "block_ok b'"
proof -
  have off: "r_offset reg = rb_offset b" and fresh: "rb_name_to_offset b (py_lower (r_name reg)) = None"
    using add unfolding add_register_def Let_def require_Inr_iff if_Inl_iff by blast+
  obtain ws where b': "b' = b\<lparr>rb_flat_regs := rb_flat_regs b @ [reg],
      rb_name_to_flat_reg := (rb_name_to_flat_reg b)(py_lower (r_name reg) \<mapsto> reg),
      rb_name_to_offset := (rb_name_to_offset b)(py_lower (r_name reg) \<mapsto> r_offset reg),
      rb_registers := rb_registers b @ [reg], rb_all_regs := rb_all_regs b @ [EReg reg],
      rb_entries := rb_entries b @ [EReg reg], rb_offset := Register_next_offset reg (rb_addrsep b),
      rb_wennames := ws\<rparr>"
    using add off fresh add_flat_reg_eq [OF block_names_ok [OF ok] fresh] by (auto simp: add_register_def Let_def)
  have fr: "py_lower (r_name reg) \<notin> fst ` set (index_of (rb_entries b))"
    using fresh ok by (simp add: block_ok_def map_of_None_notin)
  have "rb_name_to_flat_reg b (py_lower (r_name reg)) = None"
    using fresh block_names_ok [OF ok] by (auto simp: names_ok_def)
  then have fr2: "py_lower (r_name reg) \<notin> fst ` set (map (\<lambda>r. (py_lower (r_name r), r)) (rb_flat_regs b))"
    using ok by (simp add: block_ok_def map_of_None_notin)
  show ?thesis
  proof (rule block_ok_append [OF ok, of "EReg reg"])
    show "entry_ok (rb_addrsep b) (rb_reg_width b) (EReg reg)"
      using reg by (simp add: entry_ok_def entry_regs_def entry_offset_def next_offset_def Register_next_offset_def)
    show "rb_name_to_offset b' = map_of (index_of (rb_entries b) @ entry_index (EReg reg))"
      using fr ok by (simp add: b' entry_index_def map_of_snoc block_ok_def del: map_of_append)
    show "rb_name_to_flat_reg b' = map_of (map (\<lambda>r. (py_lower (r_name r), r)) (rb_flat_regs b @ entry_regs (EReg reg)))"
      using fr2 ok by (simp add: b' entry_regs_def map_of_snoc block_ok_def del: map_of_append)
  qed (use addrsep_pos [OF ok] off fr in \<open>simp_all add: b' entry_offset_def next_offset_def Register_next_offset_def entry_index_def entry_regs_def\<close>)
qed

lemma handle_window_ok:
  assumes ok: "block_ok b" and hw: "handle_window body b = Inr b'"
  shows "block_ok b'"
proof -
  obtain win where w: "Window_from_raw (rb_offset b) (rb_reg_width b) (rb_params b) body = Inr win"
    and fresh: "rb_name_to_offset b (py_lower (w_name win)) = None" and add: "add_window win b = Inr b'"
    using hw unfolding handle_window_def bindR_Inr_iff if_Inl_iff by blast
  obtain k where k: "w_size_in_bytes win \<le> 2 ^ k" "0 < w_size_in_bytes win" "rb_offset b \<le> w_offset win"
    "2 ^ k dvd w_offset win" "w_size_in_bytes win = w_items win * (rb_reg_width b div 8)" "rb_reg_width b mod 8 = 0"
    using Window_from_raw_ok [OF w] by metis
  have fr: "py_lower (w_name win) \<notin> fst ` set (index_of (rb_entries b))"
    using fresh ok by (simp add: block_ok_def map_of_None_notin)
  have sz: "rb_addrsep b dvd w_size_in_bytes win"
  proof -
    have "rb_addrsep b = rb_reg_width b div 8" using ok k(6) by (auto simp: block_ok_def elim!: dvdE simp flip: dvd_eq_mod_eq_0)
    then show ?thesis by (simp add: k(5))
  qed
  have al: "rb_addrsep b dvd w_offset win" if "rb_addrsep b = 2 ^ j" for j
  proof -
    have "rb_addrsep b \<le> 2 ^ k" using zdvd_imp_le [OF sz k(2)] k(1) by linarith
    then show ?thesis using dvd_two_power k(4) that by (metis dvd_trans)
  qed
  show ?thesis
  proof (rule block_ok_append [OF ok, of "EWin win"])
    show "rb_name_to_offset b' = map_of (index_of (rb_entries b) @ entry_index (EWin win))"
      using fr ok add by (auto simp: add_window_def Let_def require_Inr_iff entry_index_def map_of_snoc block_ok_def simp del: map_of_append)
    show "rb_addrsep b dvd entry_offset (EWin win) \<and> rb_addrsep b dvd next_offset (rb_addrsep b) (EWin win)"
      if "rb_addrsep b = 2 ^ j" for j
      using al [OF that] sz by (simp add: entry_offset_def next_offset_def Window_next_offset_def)
    show "rb_name_to_flat_reg b' = map_of (map (\<lambda>r. (py_lower (r_name r), r)) (rb_flat_regs b @ entry_regs (EWin win)))"
      using ok add by (auto simp: add_window_def Let_def require_Inr_iff entry_regs_def block_ok_def)
  qed (use add k fr in \<open>auto simp: add_window_def Let_def require_Inr_iff entry_ok_def entry_regs_def entry_offset_def
        next_offset_def Window_next_offset_def entry_index_def\<close>)
qed

text \<open>The loop over the registers of a multi-register.\<close>

lemma add_multi_regs_eq:
  "add_multi_regs regs b = Inr b' \<Longrightarrow> names_ok b \<Longrightarrow> rb_name_to_offset b = map_of xs \<Longrightarrow>
    rb_name_to_flat_reg b = map_of (map (\<lambda>r. (py_lower (r_name r), r)) (rb_flat_regs b)) \<Longrightarrow>
    rb_name_to_offset b' = map_of (xs @ map (\<lambda>r. (py_lower (r_name r), r_offset r)) regs) \<and>
    rb_flat_regs b' = rb_flat_regs b @ regs \<and>
    rb_name_to_flat_reg b' = map_of (map (\<lambda>r. (py_lower (r_name r), r)) (rb_flat_regs b')) \<and>
    distinct (map (\<lambda>r. py_lower (r_name r)) regs) \<and> (\<lambda>r. py_lower (r_name r)) ` set regs \<inter> fst ` set xs = {} \<and>
    rb_addrsep b' = rb_addrsep b \<and> rb_reg_width b' = rb_reg_width b \<and> rb_entries b' = rb_entries b \<and> rb_offset b' = rb_offset b"
proof (induction regs arbitrary: b xs)
  case (Cons reg regs)
  let ?l = "py_lower (r_name reg)"
  have fresh: "rb_name_to_offset b ?l = None" using Cons.prems(1) by (auto simp: Let_def split: if_splits)
  let ?b = "b\<lparr>rb_flat_regs := rb_flat_regs b @ [reg], rb_name_to_flat_reg := (rb_name_to_flat_reg b)(?l \<mapsto> reg),
    rb_name_to_offset := (rb_name_to_offset b)(?l \<mapsto> r_offset reg)\<rparr>"
  have rest: "add_multi_regs regs ?b = Inr b'"
    using Cons.prems(1) fresh add_flat_reg_eq [OF Cons.prems(2) fresh] by (simp add: Let_def)
  have fr: "?l \<notin> fst ` set xs" using fresh Cons.prems(3) by (simp add: map_of_None_notin)
  have fr2: "?l \<notin> fst ` set (map (\<lambda>r. (py_lower (r_name r), r)) (rb_flat_regs b))"
    using fresh Cons.prems(2,4) by (metis domIff in_mono map_of_None_notin names_ok_def)
  have "names_ok ?b" using Cons.prems(2) by (auto simp: names_ok_def)
  moreover have "rb_name_to_offset ?b = map_of (xs @ [(?l, r_offset reg)])"
    using Cons.prems(3) fr by (simp add: map_of_snoc del: map_of_append)
  moreover have "rb_name_to_flat_reg ?b = map_of (map (\<lambda>r. (py_lower (r_name r), r)) (rb_flat_regs ?b))"
    using Cons.prems(4) map_of_snoc [OF fr2, of reg] by (simp del: map_of_append)
  ultimately show ?case using Cons.IH [OF rest, of "xs @ [(?l, r_offset reg)]"] fr by (auto simp del: map_of_append)
qed auto

lemma handle_multireg_ok:
  assumes ok: "block_ok b" and hm: "handle_multireg body b = Inr b'"
  shows "block_ok b'"
proof -
  obtain mr b1 where mr: "MultiRegister_init (rb_offset b) (rb_addrsep b) (rb_reg_width b) (rb_params b) body = Inr mr"
    and b1: "add_multi_regs (mr_regs mr) b = Inr b1"
    and b': "b' = b1\<lparr>rb_multiregs := rb_multiregs b1 @ [mr], rb_all_regs := rb_all_regs b1 @ [EMulti mr],
             rb_entries := rb_entries b1 @ [EMulti mr], rb_offset := MultiRegister_next_offset mr (rb_addrsep b1)\<rparr>"
    using hm unfolding handle_multireg_def bindR_Inr_iff by blast
  note mri = MultiRegister_init_regs [OF mr]
  have "rb_name_to_offset b = map_of (index_of (rb_entries b))"
    and "rb_name_to_flat_reg b = map_of (map (\<lambda>r. (py_lower (r_name r), r)) (rb_flat_regs b))"
    using ok by (simp_all add: block_ok_def)
  note am = add_multi_regs_eq [OF b1 block_names_ok [OF ok] this]
  have len: "0 < int (length (mr_regs mr)) * rb_addrsep b" using mri(2) addrsep_pos [OF ok] by simp
  show ?thesis
  proof (rule block_ok_append [OF ok, of "EMulti mr"])
    show "entry_ok (rb_addrsep b) (rb_reg_width b) (EMulti mr)"
      using mri by (simp add: entry_ok_def entry_regs_def entry_offset_def next_offset_def MultiRegister_next_offset_def)
  qed (use am mri(1) len in \<open>simp_all add: b' entry_offset_def next_offset_def MultiRegister_next_offset_def entry_index_def
        entry_regs_def comp_def image_image del: map_of_append\<close>)
qed

lemma handle_ok:
  assumes "block_ok b"
  shows "handle_register body b = Inr b' \<Longrightarrow> block_ok b'" and "handle_reserved body b = Inr b' \<Longrightarrow> block_ok b'"
    and "handle_skipto body b = Inr b' \<Longrightarrow> block_ok b'"
proof -
  show "block_ok b'" if "handle_register body b = Inr b'"
    using that add_register_ok [OF assms] Register_from_raw_ok unfolding handle_register_def bindR_Inr_iff by blast
  show "block_ok b'" if h: "handle_reserved body b = Inr b'"
  proof -
    obtain n where "\<not> n \<le> 0" "b' = b\<lparr>rb_offset := rb_offset b + rb_addrsep b * n\<rparr>"
      using h unfolding handle_reserved_def bindR_Inr_iff if_Inl_iff by blast
    then show ?thesis using block_ok_advance [OF assms] addrsep_pos [OF assms] by simp
  qed
  show "block_ok b'" if h: "handle_skipto body b = Inr b'"
  proof -
    obtain off where "\<not> off < rb_offset b" "off mod rb_addrsep b = 0" "b\<lparr>rb_offset := off\<rparr> = b'"
      using h unfolding handle_skipto_def bindR_Inr_iff if_Inl_iff by (elim exE conjE) (rule that, simp_all)
    moreover have "rb_addrsep b dvd off" using calculation(2) by (rule mod_0_imp_dvd)
    ultimately show ?thesis using block_ok_advance [OF assms, of off] by (simp only: not_less simp_thms)
  qed
qed

text \<open>
  The contract of the handlers that \<^verbatim>\<open>add_raw\<close> dispatches to: what they accept keeps the invariant, so the
  entries stay placed below the offset and the names stay in lower case.
\<close>

locale block_handler =
  fixes handle :: "yaml \<Rightarrow> reg_block \<Rightarrow> reg_block result"
  assumes keeps: "block_ok b \<Longrightarrow> handle body b = Inr b' \<Longrightarrow> block_ok b'"
begin

lemma keeps_placed: "block_ok b \<Longrightarrow> handle body b = Inr b' \<Longrightarrow> placed (rb_addrsep b') 0 (rb_entries b') (rb_offset b') \<and> names_ok b'"
  using keeps [of b body b'] block_names_ok unfolding block_ok_def by blast

end

interpretation register_handler: block_handler handle_register
  by unfold_locales (rule handle_ok)

interpretation reserved_handler: block_handler handle_reserved
  by unfold_locales (rule handle_ok)

interpretation skipto_handler: block_handler handle_skipto
  by unfold_locales (rule handle_ok)

interpretation window_handler: block_handler handle_window
  by unfold_locales (rule handle_window_ok)

interpretation multireg_handler: block_handler handle_multireg
  by unfold_locales (rule handle_multireg_ok)

lemmas handlers_keep = register_handler.keeps reserved_handler.keeps skipto_handler.keeps window_handler.keeps multireg_handler.keeps

lemma add_raw_ok: "block_ok b \<Longrightarrow> add_raw raw b = Inr b' \<Longrightarrow> block_ok b'"
  unfolding add_raw_def Let_def bindR_Inr_iff if_Inl_iff by (auto split: if_split_asm intro: handlers_keep)

interpretation raw_handler: block_handler add_raw
  by unfold_locales (rule add_raw_ok)

lemma add_raws_ok: "block_ok b \<Longrightarrow> add_raws raws b = Inr b' \<Longrightarrow> block_ok b'"
  by (induction raws arbitrary: b) (auto simp: bindR_Inr_iff dest: raw_handler.keeps)

lemma add_raw_registers_ok: "block_ok b \<Longrightarrow> add_raw_registers raw b = Inr b' \<Longrightarrow> block_ok b'"
  by (auto simp: add_raw_registers_def bindR_Inr_iff intro: add_raws_ok)

lemma build_named_ok:
  "build_named idx b ret items = Inr ret' \<Longrightarrow> block_ok b \<Longrightarrow> \<forall>(k, b)\<in>set ret. block_ok b \<Longrightarrow> \<forall>(k, b)\<in>set ret'. block_ok b"
proof (induction items arbitrary: idx b ret)
  case (Cons item items)
  obtain r_key r_val where item: "item = (r_key, r_val)" by (cases item)
  let ?b = "if idx > 0 then RegBlock_init (rb_reg_width b) (rb_params b) else b"
  obtain key l b' where b': "add_raw_registers l ?b = Inr b'"
    and rest: "build_named (idx + 1) b' (ret @ [(Some key, b')]) items = Inr ret'"
    using Cons.prems(1) unfolding item build_named.simps Let_def bindR_Inr_iff require_Inr_iff by blast
  have "block_ok ?b" using Cons.prems(2) block_init_ok by (auto simp: block_ok_def [of b])
  then have "block_ok b'" using b' by (rule add_raw_registers_ok)
  then show ?case using Cons.IH [OF rest] Cons.prems(3) by auto
qed simp

lemma build_blocks_ok:
  "build_blocks b raw = Inr ret \<Longrightarrow> block_ok b \<Longrightarrow> \<forall>(k, b)\<in>set ret. block_ok b"
  using build_named_ok [of 0 b "[]" _ ret] add_raw_registers_ok
  by (auto simp: build_blocks_def bindR_Inr_iff split: yaml.splits)

section \<open>Interrupt and alert registers\<close>

text \<open>The signals of a list occupy consecutive ranges of bits.\<close>

fun contiguous :: "nat \<Rightarrow> 'a signal_scheme list \<Rightarrow> bool" where
  "contiguous lsb [] \<longleftrightarrow> True"
| "contiguous lsb (s # ss) \<longleftrightarrow> bits_lsb (s_bits s) = lsb \<and> bits_ok (s_bits s) \<and> contiguous (bits_msb (s_bits s) + 1) ss"

lemma signals_from_contiguous: "signals_from lsb es = Inr ss \<Longrightarrow> contiguous lsb ss"
proof (induction es arbitrary: lsb ss)
  case (Cons e es)
  obtain s ss' where s: "Signal_from_raw lsb e = Inr s" and ss': "signals_from (lsb + bits_width (s_bits s)) es = Inr ss'"
    and ss: "ss = s # ss'"
    using Cons.prems by (auto simp: bindR_Inr_iff)
  obtain wd where "\<not> wd \<le> 0" "Bits_init (int lsb + wd - 1) (int lsb) = Inr (s_bits s)"
    using s unfolding Signal_from_raw_def bindR_Inr_iff if_Inl_iff by (elim exE conjE) (rule that, assumption+, force)
  then have "bits_lsb (s_bits s) = lsb" "bits_ok (s_bits s)"
    by (auto simp: Bits_init_iff bits_ok_def)
  then show ?case using Cons.IH [OF ss'] ss by (simp add: bits_ok_def bits_width_def)
qed simp

lemma alerts_contiguous: "mapR (\<lambda>(idx, entry). Alert_from_raw idx entry) (enumerate n l) = Inr as \<Longrightarrow>
    contiguous n as \<and> length as = length l \<and> (\<forall>a\<in>set as. bits_msb (s_bits a) < n + length l)"
proof (induction l arbitrary: n as)
  case (Cons e l)
  obtain a as' where a: "Alert_from_raw n e = Inr a" and as': "mapR (\<lambda>(idx, entry). Alert_from_raw idx entry) (enumerate (Suc n) l) = Inr as'"
    and as: "as = a # as'"
    using Cons.prems by (auto simp: bindR_Inr_iff)
  have "s_bits a = \<lparr>bits_msb = n, bits_lsb = n\<rparr>"
    using a unfolding Alert_from_raw_def Alert_init_def Let_def bindR_Inr_iff Bits_init_iff by (elim exE conjE) auto
  then show ?case using Cons.IH [OF as'] as by (fastforce simp: bits_ok_def)
qed simp

lemma contiguous_mem: "contiguous lsb ss \<Longrightarrow> s \<in> set ss \<Longrightarrow> bits_ok (s_bits s) \<and> lsb \<le> bits_lsb (s_bits s)"
  by (induction ss arbitrary: lsb) (auto simp: bits_ok_def, force)

lemma contiguous_last: "contiguous lsb ss \<Longrightarrow> s \<in> set ss \<Longrightarrow> bits_msb (s_bits s) \<le> bits_msb (s_bits (last ss))"
proof (induction ss arbitrary: lsb)
  case (Cons t ss)
  show ?case
  proof (cases "ss = []")
    case False
    then have "bits_msb (s_bits t) + 1 \<le> bits_lsb (s_bits (last ss)) \<and> bits_ok (s_bits (last ss))"
      using Cons.prems(1) contiguous_mem [of "bits_msb (s_bits t) + 1" ss "last ss"] by simp
    then show ?thesis using Cons False by (auto simp: bits_ok_def)
  qed (use Cons.prems in auto)
qed simp

lemma signal_field_ok:
  "bits_ok (s_bits s) \<Longrightarrow> int (bits_msb (s_bits s)) < reg_width \<Longrightarrow> rg_field_ok reg_width (signal_field fmt swa hwa tst s)"
  by (simp add: signal_field_def Let_def rg_field_ok_def)

lemma add_intr_alert_reg_ok:
  assumes "add_intr_alert_reg signals name desc fmt swa hwa tst tags b = Inr b'" and "block_ok b"
    and "\<And>s. s \<in> set signals \<Longrightarrow> bits_ok (s_bits s) \<and> int (bits_msb (s_bits s)) < rb_reg_width b"
  shows "block_ok b'" and "rb_reg_width b' = rb_reg_width b"
proof -
  obtain sw hw reg where reg: "Register_init (rb_offset b) name desc sw hw tst tst False None tags None False
      (map (signal_field fmt sw hw tst) signals) None None = Inr reg" and add: "add_register reg b = Inr b'"
    using assms(1) unfolding add_intr_alert_reg_def bindR_Inr_iff by blast
  have "\<forall>f\<in>set (map (signal_field fmt sw hw tst) signals). rg_field_ok (rb_reg_width b) f"
    by (auto intro!: signal_field_ok dest: assms(3))
  then have "register_ok (rb_reg_width b) reg" using Register_init_Inr(6) [OF reg] by blast
  then show "block_ok b'" using add_register_ok assms(2) add by blast
  show "rb_reg_width b' = rb_reg_width b"
    using add unfolding add_register_def add_flat_reg_def Let_def require_Inr_iff if_Inl_iff bindR_Inr_iff by auto
qed

lemma make_intr_regs_ok:
  assumes "make_intr_regs ss b = Inr b'" and "block_ok b" and "contiguous lsb ss"
  shows "block_ok b'" and "rb_reg_width b' = rb_reg_width b"
proof -
  have s: "bits_ok (s_bits s) \<and> int (bits_msb (s_bits s)) < rb_reg_width b" if "s \<in> set ss" for s
    using assms(1) contiguous_mem [OF assms(3) that] contiguous_last [OF assms(3) that]
    by (auto simp: make_intr_regs_def require_Inr_iff)
  obtain b1 b2 where b1: "add_intr_alert_reg ss ''INTR_STATE'' ''Interrupt State Register'' Fmt_None ''rw1c'' ''hrw'' False
        [''excl:CsrNonInitTests:CsrExclWriteCheck''] b = Inr b1"
    and b2: "\<exists>n d fmt sw hw t tags. add_intr_alert_reg ss n d fmt sw hw t tags b1 = Inr b2"
    and b3: "\<exists>n d fmt sw hw t tags. add_intr_alert_reg ss n d fmt sw hw t tags b2 = Inr b'"
    using assms(1) unfolding make_intr_regs_def require_Inr_iff bindR_Inr_iff by blast
  note o1 = add_intr_alert_reg_ok [OF b1 assms(2) s]
  have o2: "block_ok b2" "rb_reg_width b2 = rb_reg_width b" using b2 add_intr_alert_reg_ok o1 s by metis+
  show "block_ok b'" "rb_reg_width b' = rb_reg_width b" using b3 add_intr_alert_reg_ok o2 s by metis+
qed

lemma make_alert_regs_ok:
  assumes "make_alert_regs as b = Inr b'" and "block_ok b" and "\<And>a. a \<in> set as \<Longrightarrow> bits_ok (s_bits a) \<and> bits_msb (s_bits a) < length as"
  shows "block_ok b'" and "rb_reg_width b' = rb_reg_width b"
proof -
  have add: "\<exists>n d fmt sw hw t tags. add_intr_alert_reg as n d fmt sw hw t tags b = Inr b'" and l: "int (length as) < rb_reg_width b"
    using assms(1) unfolding make_alert_regs_def require_Inr_iff by blast+
  have "bits_ok (s_bits a) \<and> int (bits_msb (s_bits a)) < rb_reg_width b" if "a \<in> set as" for a
    using assms(3) [OF that] l by linarith
  then show "block_ok b'" "rb_reg_width b' = rb_reg_width b" using add add_intr_alert_reg_ok assms(2) by metis+
qed

end
