(* ===== verification/Reggen_Ip.thy ===== *)
theory Reggen_Ip
  imports Reggen_Layout
begin

text \<open>
  The register tool, part 7: inter-module signals (\<^verbatim>\<open>inter_signal.py\<close>), bus interfaces
  (\<^verbatim>\<open>bus_interfaces.py\<close>) and IP blocks (\<^verbatim>\<open>ip_block.py\<close>) of \<^verbatim>\<open>util/reggen\<close>.  Reading the file and parsing Hjson
  are library calls; the model starts from the parsed value.
\<close>

section \<open>Inter-module signals\<close>

record inter_signal =
  is_name :: string
  is_desc :: "string option"
  is_struct :: string
  is_package :: "string option"
  is_type :: string
  is_act :: string
  is_width :: int
  is_default :: "string option"

definition InterSignal_init ::
    "string \<Rightarrow> string option \<Rightarrow> string \<Rightarrow> string option \<Rightarrow> string \<Rightarrow> string \<Rightarrow> int \<Rightarrow> string option \<Rightarrow> inter_signal result" where
  "InterSignal_init name desc struct package signal_type act wd dflt =
     require (0 < wd)
       (Inr \<lparr>is_name = name, is_desc = desc, is_struct = struct, is_package = package, is_type = signal_type, is_act = act,
             is_width = wd, is_default = dflt\<rparr>)"

definition InterSignal_from_raw :: "yaml \<Rightarrow> inter_signal result" where
  "InterSignal_from_raw raw =
     bindR (lib_check_keys raw [''name'', ''struct'', ''type'', ''act''] [''desc'', ''package'', ''width'', ''default'']) (\<lambda>rd.
     bindR (bindR (ydict_item rd ''name'') check_name) (\<lambda>name.
     bindR (let r_desc = ydict_get_or_None rd ''desc''
            in if r_desc = YNone then Inr None else bindR (lib_check_str r_desc) (\<lambda>s. Inr (Some s))) (\<lambda>desc.
     bindR (bindR (ydict_item rd ''struct'') lib_check_str) (\<lambda>struct.
     bindR (let r_package = ydict_get_or_None rd ''package''
            in if r_package = YNone \<or> r_package = YStr [] then Inr None else bindR (check_name r_package) (\<lambda>s. Inr (Some s))) (\<lambda>package.
     bindR (bindR (ydict_item rd ''type'') check_name) (\<lambda>signal_type.
     bindR (bindR (ydict_item rd ''act'') check_name) (\<lambda>act.
     bindR (lib_check_int (dict_get_default rd ''width'' (YInt 1))) (\<lambda>wd.
     if wd \<le> 0 then Inl ValueError
     else
       bindR (lib_check_optional_str (ydict_get_or_None rd ''default'')) (\<lambda>dflt.
       InterSignal_init name desc struct package signal_type act wd dflt)))))))))"

definition opt_item :: "string \<Rightarrow> string option \<Rightarrow> yaml_dict" where
  "opt_item k v = (case v of None \<Rightarrow> [] | Some s \<Rightarrow> [(YStr k, YStr s)])"

definition InterSignal_asdict :: "inter_signal \<Rightarrow> yaml_dict" where
  "InterSignal_asdict s =
     [(YStr ''name'', YStr (is_name s))] @ opt_item ''desc'' (is_desc s) @ [(YStr ''struct'', YStr (is_struct s))] @
     opt_item ''package'' (is_package s) @
     [(YStr ''type'', YStr (is_type s)), (YStr ''act'', YStr (is_act s)), (YStr ''width'', YInt (is_width s))] @
     opt_item ''default'' (is_default s)"

section \<open>Bus interfaces\<close>

record bus_interfaces =
  bi_unnamed_host :: bool
  bi_named_hosts :: "string list"
  bi_unnamed_device :: bool
  bi_named_devices :: "string list"

definition BusInterfaces_init :: "bool \<Rightarrow> string list \<Rightarrow> bool \<Rightarrow> string list \<Rightarrow> bus_interfaces result" where
  "BusInterfaces_init uh nh ud nd =
     require (ud \<or> nd \<noteq> []) (require (distinct nh) (require (distinct nd)
       (Inr \<lparr>bi_unnamed_host = uh, bi_named_hosts = nh, bi_unnamed_device = ud, bi_named_devices = nd\<rparr>)))"

text \<open>The body of the loop of \<^verbatim>\<open>from_raw\<close>, on the four variables it updates.\<close>

definition bus_entry :: "bus_interfaces \<Rightarrow> yaml \<Rightarrow> bus_interfaces result" where
  "bus_entry st raw_entry =
     bindR (lib_check_keys raw_entry [''protocol'', ''direction''] [''name'']) (\<lambda>ed.
     bindR (bindR (ydict_item ed ''protocol'') lib_check_str) (\<lambda>protocol.
     if protocol \<noteq> ''tlul'' then Inl ValueError
     else
       bindR (bindR (ydict_item ed ''direction'') lib_check_str) (\<lambda>direction.
       if direction \<noteq> ''device'' \<and> direction \<noteq> ''host'' then Inl ValueError
       else
         bindR (lib_check_optional_str (ydict_get_or_None ed ''name'')) (\<lambda>name.
         if direction = ''host'' then
           (case name of
              None \<Rightarrow> if bi_unnamed_host st then Inl ValueError else Inr (st\<lparr>bi_unnamed_host := True\<rparr>)
            | Some n \<Rightarrow> if n \<in> set (bi_named_hosts st) then Inl ValueError
                        else Inr (st\<lparr>bi_named_hosts := bi_named_hosts st @ [n]\<rparr>))
         else
           (case name of
              None \<Rightarrow> if bi_unnamed_device st then Inl ValueError else Inr (st\<lparr>bi_unnamed_device := True\<rparr>)
            | Some n \<Rightarrow> if n \<in> set (bi_named_devices st) then Inl ValueError
                        else Inr (st\<lparr>bi_named_devices := bi_named_devices st @ [n]\<rparr>))))))"

fun bus_entries :: "bus_interfaces \<Rightarrow> yaml list \<Rightarrow> bus_interfaces result" where
  "bus_entries st [] = Inr st"
| "bus_entries st (e # es) = bindR (bus_entry st e) (\<lambda>st. bus_entries st es)"

definition no_interfaces :: bus_interfaces where
  "no_interfaces = \<lparr>bi_unnamed_host = False, bi_named_hosts = [], bi_unnamed_device = False, bi_named_devices = []\<rparr>"

definition BusInterfaces_from_raw :: "yaml \<Rightarrow> bus_interfaces result" where
  "BusInterfaces_from_raw raw =
     bindR (lib_check_list raw) (\<lambda>l.
     bindR (bus_entries no_interfaces l) (\<lambda>st.
     if \<not> (bi_unnamed_device st \<or> bi_named_devices st \<noteq> []) then Inl ValueError
     else BusInterfaces_init (bi_unnamed_host st) (bi_named_hosts st) (bi_unnamed_device st) (bi_named_devices st)))"

definition has_host :: "bus_interfaces \<Rightarrow> bool" where
  "has_host b \<longleftrightarrow> bi_unnamed_host b \<or> bi_named_hosts b \<noteq> []"

definition bus_list :: "bus_interfaces \<Rightarrow> (bool \<times> string option) list" where
  "bus_list b =
     (if bi_unnamed_host b then [(True, None)] else []) @ map (\<lambda>n. (True, Some n)) (bi_named_hosts b) @
     (if bi_unnamed_device b then [(False, None)] else []) @ map (\<lambda>n. (False, Some n)) (bi_named_devices b)"

definition if_dict :: "bool \<Rightarrow> string option \<Rightarrow> yaml_dict" where
  "if_dict is_host name =
     [(YStr ''protocol'', YStr ''tlul''), (YStr ''direction'', YStr (if is_host then ''host'' else ''device''))] @
     opt_item ''name'' name"

definition bus_as_dicts :: "bus_interfaces \<Rightarrow> yaml list" where
  "bus_as_dicts b = map (\<lambda>(is_host, name). YDict (if_dict is_host name)) (bus_list b)"

definition get_port_name :: "bus_interfaces \<Rightarrow> bool \<Rightarrow> string option \<Rightarrow> string" where
  "get_port_name b is_host name =
     (let tl_suffix = (if is_host then ''tl_h'' else if has_host b then ''tl_d'' else ''tl'')
      in case name of None \<Rightarrow> tl_suffix | Some n \<Rightarrow> n @ ''_'' @ tl_suffix)"

definition get_port_names :: "bus_interfaces \<Rightarrow> bool \<Rightarrow> bool \<Rightarrow> string list" where
  "get_port_names b inc_hosts inc_devices =
     map (\<lambda>(is_host, name). get_port_name b is_host name)
       (filter (\<lambda>(is_host, name). if is_host then inc_hosts else inc_devices) (bus_list b))"

definition if_inter_signal :: "bus_interfaces \<Rightarrow> bool \<Rightarrow> string option \<Rightarrow> inter_signal result" where
  "if_inter_signal b is_host name =
     InterSignal_init (get_port_name b is_host name) None ''tl'' (Some ''tlul_pkg'') ''req_rsp'' ''rsp'' 1 None"

definition bus_inter_signals :: "bus_interfaces \<Rightarrow> inter_signal list result" where
  "bus_inter_signals b = mapR (\<lambda>(is_host, name). if_inter_signal b is_host name) (bus_list b)"

definition has_interface :: "bus_interfaces \<Rightarrow> bool \<Rightarrow> string option \<Rightarrow> bool" where
  "has_interface b is_host name =
     (if is_host then (case name of None \<Rightarrow> bi_unnamed_host b | Some n \<Rightarrow> n \<in> set (bi_named_hosts b))
      else (case name of None \<Rightarrow> bi_unnamed_device b | Some n \<Rightarrow> n \<in> set (bi_named_devices b)))"

definition find_port_name :: "bus_interfaces \<Rightarrow> bool \<Rightarrow> string option \<Rightarrow> string result" where
  "find_port_name b is_host name = (if \<not> has_interface b is_host name then Inl KeyError else Inr (get_port_name b is_host name))"

section \<open>IP blocks\<close>

record ip_block =
  ip_name :: string
  ip_regwidth :: int
  ip_params :: params
  ip_reg_blocks :: "(string option \<times> reg_block) list"
  ip_interrupts :: "signal list"
  ip_no_auto_intr :: bool
  ip_alerts :: "alert list"
  ip_no_auto_alert :: bool
  ip_scan :: bool
  ip_inter_signals :: "inter_signal list"
  ip_bus_interfaces :: bus_interfaces
  ip_hier_path :: "string option"
  ip_clock_signals :: "string list"
  ip_reset_signals :: "string list"
  ip_xputs :: "signal list \<times> signal list \<times> signal list"
  ip_wakeups :: "signal list"
  ip_reset_requests :: "signal list"
  ip_scan_reset :: bool
  ip_scan_en :: bool

definition IP_REQUIRED :: "string list" where
  "IP_REQUIRED = [''name'', ''clock_primary'', ''bus_interfaces'', ''registers'']"

definition IP_OPTIONAL :: "string list" where
  "IP_OPTIONAL = [''alert_list'', ''available_inout_list'', ''available_input_list'', ''available_output_list'', ''hier_path'',
     ''interrupt_list'', ''inter_signal_list'', ''no_auto_alert_regs'', ''no_auto_intr_regs'', ''other_clock_list'',
     ''other_reset_list'', ''param_list'', ''regwidth'', ''reset_primary'', ''reset_request_list'', ''scan'', ''scan_reset'',
     ''scan_en'', ''SPDX-License-Identifier'', ''wakeup_list'']"

definition dev_if_names :: "bus_interfaces \<Rightarrow> string option list" where
  "dev_if_names b = map Some (bi_named_devices b) @ (if bi_unnamed_device b then [None] else [])"

definition ip_regwidth_of :: "yaml_dict \<Rightarrow> int result" where
  "ip_regwidth_of rd =
     (let r_regwidth = ydict_get_or_None rd ''regwidth''
      in if r_regwidth = YNone then Inr 32
         else bindR (lib_check_int r_regwidth) (\<lambda>regwidth. if regwidth \<le> 0 then Inl ValueError else Inr regwidth))"

text \<open>The \<^verbatim>\<open>try\<close> block around the defaults.\<close>

definition ip_params_of :: "(string \<times> string) list \<Rightarrow> yaml_dict \<Rightarrow> params result" where
  "ip_params_of param_defaults rd =
     bindR (ReggenParams_from_raw (dict_get_default rd ''param_list'' (YList []))) (\<lambda>ps.
     case apply_defaults ps param_defaults of
       Inr ps' \<Rightarrow> Inr ps'
     | Inl e \<Rightarrow> if e = ValueError \<or> e = KeyError then Inl ValueError else Inl e)"

definition ip_intr_regs :: "int \<Rightarrow> signal list \<Rightarrow> bool \<Rightarrow> reg_block \<Rightarrow> reg_block result" where
  "ip_intr_regs regwidth interrupts no_auto_intr b =
     (if interrupts \<noteq> [] \<and> \<not> no_auto_intr then
        if int (bits_msb (s_bits (last interrupts))) \<ge> regwidth then Inl ValueError else make_intr_regs interrupts b
      else Inr b)"

definition ip_alert_regs :: "int \<Rightarrow> alert list \<Rightarrow> bool \<Rightarrow> reg_block \<Rightarrow> reg_block result" where
  "ip_alert_regs regwidth alerts no_auto_alert b =
     (if alerts \<noteq> [] \<and> \<not> no_auto_alert then
        if int (length alerts) > regwidth then Inl ValueError else make_alert_regs alerts b
      else Inr b)"

definition ip_num_alerts :: "alert list \<Rightarrow> params \<Rightarrow> params result" where
  "ip_num_alerts alerts ps =
     (if alerts = [] then Inr ps
      else
        case map_of ps ''NumAlerts'' of
          Some p \<Rightarrow> if bp_kind p \<noteq> LocalParam (str_of_nat (length alerts)) \<or> bp_type p \<noteq> ''int'' then Inl ValueError else Inr ps
        | None \<Rightarrow> Params_add ps \<lparr>bp_name = ''NumAlerts'', bp_desc = Some ''Number of alerts'', bp_type = ''int'', bp_default = None,
                                 bp_kind = LocalParam (str_of_nat (length alerts))\<rparr>)"

text \<open>
  The register blocks of an IP block.  The parameters are one object that the first block refers to, so
  that block sees the parameter that is added for the alerts.
\<close>

definition ip_reg_blocks_of :: "int \<Rightarrow> params \<Rightarrow> signal list \<Rightarrow> bool \<Rightarrow> alert list \<Rightarrow> bool \<Rightarrow> yaml \<Rightarrow>
    (params \<times> (string option \<times> reg_block) list) result" where
  "ip_reg_blocks_of regwidth ps interrupts no_auto_intr alerts no_auto_alert raw =
     bindR (ip_intr_regs regwidth interrupts no_auto_intr (RegBlock_init regwidth ps)) (\<lambda>b.
     bindR (ip_alert_regs regwidth alerts no_auto_alert b) (\<lambda>b.
     bindR (ip_num_alerts alerts ps) (\<lambda>ps'.
     bindR (build_blocks (b\<lparr>rb_params := ps'\<rparr>) raw) (\<lambda>blocks. Inr (ps', blocks)))))"

definition get_sig_list :: "yaml_dict \<Rightarrow> string \<Rightarrow> signal list result" where
  "get_sig_list rd key = Signal_from_raw_list (dict_get_default rd key (YList []))"

definition get_flag :: "yaml_dict \<Rightarrow> string \<Rightarrow> bool \<Rightarrow> bool result" where
  "get_flag rd key dflt = lib_check_bool (dict_get_default rd key (YBool dflt))"

definition IpBlock_init :: "ip_block \<Rightarrow> ip_block result" where
  "IpBlock_init ip =
     require (ip_reg_blocks ip \<noteq> []) (require (ip_clock_signals ip \<noteq> []) (require (ip_reset_signals ip \<noteq> [])
       (require (set (map fst (ip_reg_blocks ip)) = set (dev_if_names (ip_bus_interfaces ip))) (Inr ip))))"

definition IpBlock_from_raw :: "(string \<times> string) list \<Rightarrow> yaml \<Rightarrow> ip_block result" where
  "IpBlock_from_raw param_defaults raw =
     bindR (lib_check_keys raw IP_REQUIRED IP_OPTIONAL) (\<lambda>rd.
     bindR (bindR (ydict_item rd ''name'') check_name) (\<lambda>name.
     bindR (ip_regwidth_of rd) (\<lambda>regwidth.
     bindR (ip_params_of param_defaults rd) (\<lambda>ps.
     bindR (get_sig_list rd ''interrupt_list'') (\<lambda>interrupts.
     bindR (Alert_from_raw_list (dict_get_default rd ''alert_list'' (YList []))) (\<lambda>alerts.
     bindR (get_flag rd ''no_auto_intr_regs'' (interrupts = [])) (\<lambda>no_auto_intr.
     bindR (get_flag rd ''no_auto_alert_regs'' (alerts = [])) (\<lambda>no_auto_alert.
     bindR (ip_reg_blocks_of regwidth ps interrupts no_auto_intr alerts no_auto_alert (ydict_get_or_None rd ''registers''))
       (\<lambda>(ps', reg_blocks).
     bindR (get_flag rd ''scan'' False) (\<lambda>scan.
     bindR (bindR (lib_check_list (dict_get_default rd ''inter_signal_list'' (YList []))) (mapR InterSignal_from_raw)) (\<lambda>iss.
     bindR (BusInterfaces_from_raw (ydict_get_or_None rd ''bus_interfaces'')) (\<lambda>bus.
     bindR (bus_inter_signals bus) (\<lambda>bus_iss.
     bindR (lib_check_optional_str (ydict_get_or_None rd ''hier_path'')) (\<lambda>hier_path.
     bindR (bindR (ydict_item rd ''clock_primary'') check_name) (\<lambda>clock_primary.
     bindR (check_name_list (dict_get_default rd ''other_clock_list'' (YList []))) (\<lambda>other_clocks.
     bindR (check_name (dict_get_default rd ''reset_primary'' (YStr ''rst_ni''))) (\<lambda>reset_primary.
     bindR (check_name_list (dict_get_default rd ''other_reset_list'' (YList []))) (\<lambda>other_resets.
     bindR (get_sig_list rd ''available_inout_list'') (\<lambda>inouts.
     bindR (get_sig_list rd ''available_input_list'') (\<lambda>inputs.
     bindR (get_sig_list rd ''available_output_list'') (\<lambda>outputs.
     bindR (get_sig_list rd ''wakeup_list'') (\<lambda>wakeups.
     bindR (get_sig_list rd ''reset_request_list'') (\<lambda>rst_reqs.
     bindR (get_flag rd ''scan_reset'' False) (\<lambda>scan_reset.
     bindR (get_flag rd ''scan_en'' False) (\<lambda>scan_en.
     if set (map fst reg_blocks) \<noteq> set (dev_if_names bus) then Inl ValueError
     else
       IpBlock_init \<lparr>ip_name = name, ip_regwidth = regwidth, ip_params = ps', ip_reg_blocks = reg_blocks,
         ip_interrupts = interrupts, ip_no_auto_intr = no_auto_intr, ip_alerts = alerts, ip_no_auto_alert = no_auto_alert,
         ip_scan = scan, ip_inter_signals = iss @ bus_iss, ip_bus_interfaces = bus, ip_hier_path = hier_path,
         ip_clock_signals = clock_primary # other_clocks, ip_reset_signals = reset_primary # other_resets,
         ip_xputs = (inouts, inputs, outputs), ip_wakeups = wakeups, ip_reset_requests = rst_reqs,
         ip_scan_reset = scan_reset, ip_scan_en = scan_en\<rparr>)))))))))))))))))))))))))"

definition get_rnames :: "ip_block \<Rightarrow> string set" where
  "get_rnames ip = \<Union> ((\<lambda>(k, rb). dom (rb_name_to_offset rb)) ` set (ip_reg_blocks ip))"

definition get_signals_as_list_of_dicts :: "ip_block \<Rightarrow> (string \<times> nat \<times> string) list" where
  "get_signals_as_list_of_dicts ip =
     (case ip_xputs ip of (inouts, inputs, outputs) \<Rightarrow>
        map (\<lambda>s. as_nwt_dict s ''inout'') inouts @ map (\<lambda>s. as_nwt_dict s ''input'') inputs @
        map (\<lambda>s. as_nwt_dict s ''output'') outputs)"

definition get_signal_by_name_as_dict :: "ip_block \<Rightarrow> string \<Rightarrow> (string \<times> nat \<times> string) result" where
  "get_signal_by_name_as_dict ip name =
     (case find (\<lambda>s. fst s = name) (get_signals_as_list_of_dicts ip) of Some s \<Rightarrow> Inr s | None \<Rightarrow> Inl ValueError)"

end
