(* ===== verification/Reggen_Ip_Props.thy ===== *)
theory Reggen_Ip_Props
  imports Reggen_Ip
begin

text \<open>
  The register tool, part 8: what holds of every IP description that the tool accepts.
\<close>

section \<open>Consequences of the invariant\<close>

lemma flat_names_distinct:
  "distinct (map fst (index_of es)) \<Longrightarrow> distinct (map (\<lambda>r. py_lower (r_name r)) (concat (map entry_regs es)))"
proof (induction es)
  case (Cons e es)
  have sub: "(\<lambda>r. py_lower (r_name r)) ` set (entry_regs x) \<subseteq> fst ` set (entry_index x)" for x
    by (auto simp: entry_regs_def entry_index_def image_image split: reg_entry.splits)
  have "distinct (map fst (entry_index e)) \<Longrightarrow> distinct (map (\<lambda>r. py_lower (r_name r)) (entry_regs e))"
    by (cases e) (simp_all add: entry_regs_def entry_index_def comp_def)
  moreover have "(\<lambda>r. py_lower (r_name r)) ` set (concat (map entry_regs es)) \<subseteq> fst ` set (index_of es)"
    using sub by (auto simp: index_of_def image_UN) blast
  moreover have "distinct (map fst (entry_index e))" "distinct (map fst (index_of es))"
    "fst ` set (entry_index e) \<inter> fst ` set (index_of es) = {}"
    using Cons.prems by (auto simp: index_of_def)
  ultimately have "distinct (map (\<lambda>r. py_lower (r_name r)) (entry_regs e))"
    "distinct (map (\<lambda>r. py_lower (r_name r)) (concat (map entry_regs es)))"
    "(\<lambda>r. py_lower (r_name r)) ` set (entry_regs e) \<inter> (\<lambda>r. py_lower (r_name r)) ` set (concat (map entry_regs es)) = {}"
    using Cons.IH sub [of e] by blast+
  then show ?case by simp
qed (simp add: index_of_def)

lemma block_lookup:
  assumes ok: "block_ok b" and r: "r \<in> set (rb_flat_regs b)"
  shows "rb_name_to_flat_reg b (py_lower (r_name r)) = Some r" and "rb_name_to_offset b (py_lower (r_name r)) = Some (r_offset r)"
    and "0 \<le> r_offset r" and "r_offset r + rb_addrsep b \<le> rb_offset b" and "register_ok (rb_reg_width b) r"
proof -
  obtain e where e: "e \<in> set (rb_entries b)" "r \<in> set (entry_regs e)" using r ok by (auto simp: block_ok_def)
  then have ix: "(py_lower (r_name r), r_offset r) \<in> set (index_of (rb_entries b))"
    by (auto simp: index_of_def entry_regs_def entry_index_def split: reg_entry.splits)
  show "rb_name_to_flat_reg b (py_lower (r_name r)) = Some r"
    using r ok flat_names_distinct [of "rb_entries b"] by (auto simp: block_ok_def comp_def intro!: map_of_is_SomeI)
  show "rb_name_to_offset b (py_lower (r_name r)) = Some (r_offset r)"
    using ix ok by (auto simp: block_ok_def intro: map_of_is_SomeI)
  obtain k where k: "k < length (entry_regs e)" "r = entry_regs e ! k" using e(2) by (auto simp: in_set_conv_nth)
  have eok: "entry_ok (rb_addrsep b) (rb_reg_width b) e" using e(1) ok unfolding block_ok_def by blast
  then have off: "r_offset r = entry_offset e + int k * rb_addrsep b" and "register_ok (rb_reg_width b) r"
    using k by (auto simp: entry_ok_def)
  then show "register_ok (rb_reg_width b) r" by simp
  have "next_offset (rb_addrsep b) e = entry_offset e + int (length (entry_regs e)) * rb_addrsep b"
    using eok k(1) by (cases e) (auto simp: entry_ok_def entry_regs_def)
  moreover have "int k * rb_addrsep b + rb_addrsep b \<le> int (length (entry_regs e)) * rb_addrsep b"
    using mult_right_mono [of "int k + 1" "int (length (entry_regs e))" "rb_addrsep b"] k(1) addrsep_pos [OF ok] by (simp add: distrib_right)
  moreover have "0 \<le> int k * rb_addrsep b" using addrsep_pos [OF ok] by simp
  moreover have "0 \<le> entry_offset e \<and> next_offset (rb_addrsep b) e \<le> rb_offset b"
    using placed_mem e(1) ok unfolding block_ok_def by blast
  ultimately show "0 \<le> r_offset r" "r_offset r + rb_addrsep b \<le> rb_offset b" using off by linarith+
qed

lemma addr_width_bound: "rb_offset b \<le> 2 ^ nat (get_addr_width b)"
proof -
  have "nat \<bar>rb_offset b - 1\<bar> < 2 ^ nat (get_addr_width b)" unfolding get_addr_width_def using bit_length_bound by blast
  then have "int (nat \<bar>rb_offset b - 1\<bar>) < 2 ^ nat (get_addr_width b)" by (metis of_nat_less_iff of_nat_numeral of_nat_power)
  then show ?thesis by linarith
qed

text \<open>Reading the description back: reserved entries move the offset, other entries stand where they are.\<close>

fun replay :: "int \<Rightarrow> int \<Rightarrow> dict_entry list \<Rightarrow> (int \<times> reg_entry) list" where
  "replay s off [] = []"
| "replay s off (DReserved n # ds) = replay s (off + s * n) ds"
| "replay s off (DEntry e # ds) = (off, e) # replay s (next_offset s e) ds"

lemma entries_as_dicts_replay:
  "placed s off es hi \<Longrightarrow> s dvd off \<Longrightarrow> \<forall>e\<in>set es. s dvd entry_offset e \<and> s dvd next_offset s e \<Longrightarrow>
    \<exists>ds. entries_as_dicts s off es = Inr ds \<and> replay s off ds = map (\<lambda>e. (entry_offset e, e)) es"
proof (induction es arbitrary: off)
  case (Cons e es)
  then obtain ds where ds: "entries_as_dicts s (next_offset s e) es = Inr ds"
    "replay s (next_offset s e) ds = map (\<lambda>e. (entry_offset e, e)) es" by auto
  have "s dvd entry_offset e - off" using Cons.prems by simp
  then show ?case using ds Cons.prems(1) by (auto simp: py_bool_def Let_def)
qed simp

lemma block_as_dicts:
  assumes ok: "block_ok b" and "rb_addrsep b = 2 ^ j"
  shows "\<exists>ds. RegBlock_as_dicts b = Inr ds \<and> replay (rb_addrsep b) 0 ds = map (\<lambda>e. (entry_offset e, e)) (rb_entries b)"
  unfolding RegBlock_as_dicts_def using ok assms(2)
  by (intro entries_as_dicts_replay [of _ _ _ "rb_offset b"]) (auto simp: block_ok_def aligned_def)

section \<open>The blocks of an accepted description\<close>

lemma block_ok_params [simp]: "block_ok (b\<lparr>rb_params := ps\<rparr>) = block_ok b"
  unfolding block_ok_def aligned_def by simp

lemma ip_reg_blocks_ok:
  assumes bl: "ip_reg_blocks_of rw ps ints nai als naa raw = Inr (ps', blocks)" and "0 < rw" and "contiguous 0 ints"
    and als: "\<And>a. a \<in> set als \<Longrightarrow> bits_ok (s_bits a) \<and> bits_msb (s_bits a) < length als"
  shows "\<forall>(k, b)\<in>set blocks. block_ok b"
proof -
  obtain b1 b2 where b1: "ip_intr_regs rw ints nai (RegBlock_init rw ps) = Inr b1"
    and b2: "ip_alert_regs rw als naa b1 = Inr b2" and bb: "build_blocks (b2\<lparr>rb_params := ps'\<rparr>) raw = Inr blocks"
    using bl unfolding ip_reg_blocks_of_def bindR_Inr_iff by blast
  have "block_ok b1"
    using b1 block_init_ok [OF assms(2)] make_intr_regs_ok(1) assms(3) by (auto simp: ip_intr_regs_def split: if_splits)
  then have "block_ok b2"
    using b2 make_alert_regs_ok(1) als by (auto simp: ip_alert_regs_def split: if_splits)
  then have "block_ok (b2\<lparr>rb_params := ps'\<rparr>)" by simp
  then show ?thesis using build_blocks_ok [OF bb] by blast
qed

lemma case_prod_Inr: "case_prod f x = Inr y \<longleftrightarrow> f (fst x) (snd x) = Inr y"
  by (cases x) simp

lemma IpBlock_from_raw_parts:
  assumes "IpBlock_from_raw dflts raw = Inr ip"
  obtains rd ps nai naa raw_regs raw_bus raw_alerts rw ints als x bus where "ip_regwidth_of rd = Inr rw"
    and "get_sig_list rd ''interrupt_list'' = Inr ints" and "Alert_from_raw_list raw_alerts = Inr als"
    and "ip_reg_blocks_of rw ps ints nai als naa raw_regs = Inr x" and "BusInterfaces_from_raw raw_bus = Inr bus"
    and "\<not> set (map fst (snd x)) \<noteq> set (dev_if_names bus)" and "ip_regwidth ip = rw" and "ip_reg_blocks ip = snd x"
    and "ip_bus_interfaces ip = bus"
  using assms unfolding IpBlock_from_raw_def bindR_Inr_iff case_prod_Inr if_Inl_iff IpBlock_init_def require_Inr_iff sum.inject
  by (elim exE conjE) (rule that, assumption, assumption, assumption, assumption, assumption, assumption,
      (drule sym [of _ ip], simp only: ip_block.select_convs)+)

lemma ip_blocks_ok:
  assumes "IpBlock_from_raw dflts raw = Inr ip" and "(k, b) \<in> set (ip_reg_blocks ip)"
  shows "block_ok b"
proof (rule IpBlock_from_raw_parts [OF assms(1)])
  fix rd ps nai naa raw_regs raw_bus raw_alerts rw ints als x bus
  assume rw: "ip_regwidth_of rd = Inr rw" and ints: "get_sig_list rd ''interrupt_list'' = Inr ints"
    and als: "Alert_from_raw_list raw_alerts = Inr als" and x: "ip_reg_blocks_of rw ps ints nai als naa raw_regs = Inr x"
    and ip: "ip_reg_blocks ip = snd x"
  have "0 < rw" using rw by (auto simp: ip_regwidth_of_def Let_def bindR_Inr_iff split: if_splits)
  moreover have "contiguous 0 ints"
    using ints signals_from_contiguous by (auto simp: get_sig_list_def Signal_from_raw_list_def bindR_Inr_iff)
  moreover have "bits_ok (s_bits a) \<and> bits_msb (s_bits a) < length als" if a: "a \<in> set als" for a
  proof -
    obtain l where "mapR (\<lambda>(idx, entry). Alert_from_raw idx entry) (enumerate 0 l) = Inr als"
      using als by (auto simp: Alert_from_raw_list_def bindR_Inr_iff)
    from alerts_contiguous [OF this] show ?thesis using a contiguous_mem by fastforce
  qed
  ultimately have "\<forall>(k, b)\<in>set (snd x). block_ok b"
    using ip_reg_blocks_ok [of rw ps ints nai als naa raw_regs "fst x" "snd x"] x by (metis prod.collapse)
  then show ?thesis using assms(2) ip by auto
qed

text \<open>
  C9: In every register block of an accepted IP description the entries (registers, multi-registers,
  windows) lie one after the other: an entry ends before each later one begins, none begins below
  zero, and all end below the size of the block, which the number of address bits that the tool
  computes covers.
\<close>

theorem ip_entries_disjoint:
  assumes "IpBlock_from_raw dflts raw = Inr ip" and "(k, b) \<in> set (ip_reg_blocks ip)"
    and "i < j" and "j < length (rb_entries b)"
  shows "next_offset (rb_addrsep b) (rb_entries b ! i) \<le> entry_offset (rb_entries b ! j) \<and> 0 \<le> entry_offset (rb_entries b ! i) \<and>
    next_offset (rb_addrsep b) (rb_entries b ! j) \<le> rb_offset b \<and> rb_offset b \<le> 2 ^ nat (get_addr_width b)"
proof -
  have p: "placed (rb_addrsep b) 0 (rb_entries b) (rb_offset b)" using ip_blocks_ok [OF assms(1,2)] unfolding block_ok_def by blast
  show ?thesis
    using placed_nth [OF p assms(3,4)] placed_mem [OF p, of "rb_entries b ! i"] placed_mem [OF p, of "rb_entries b ! j"] assms(3,4)
      addr_width_bound [of b] by simp
qed

text \<open>
  C10: Every register of a block of an accepted IP description, also one that a multi-register expands
  to, is found under its name in any case, at its own offset, with its bytes in the block; so no two
  registers have names that differ in case only.
\<close>

theorem ip_register_lookup:
  assumes "IpBlock_from_raw dflts raw = Inr ip" and "(k, b) \<in> set (ip_reg_blocks ip)" and "r \<in> set (rb_flat_regs b)"
    and "py_lower name = py_lower (r_name r)"
  shows "rb_name_to_flat_reg b (py_lower name) = Some r \<and> rb_name_to_offset b (py_lower name) = Some (r_offset r) \<and>
    0 \<le> r_offset r \<and> r_offset r + rb_addrsep b \<le> rb_offset b \<and> py_lower name \<in> get_rnames ip"
  using block_lookup [OF ip_blocks_ok [OF assms(1,2)] assms(3)] assms(2,4) by (auto simp: get_rnames_def)

text \<open>
  Where a register takes a power of two of bytes, writing a block of an accepted IP description as a list of entries
  raises no error, and the reserved entries of the list are the gaps between the other ones.
\<close>

lemma ip_as_dicts_replay:
  assumes "IpBlock_from_raw dflts raw = Inr ip" and "(k, b) \<in> set (ip_reg_blocks ip)" and "rb_addrsep b = 2 ^ j"
  shows "\<exists>ds. RegBlock_as_dicts b = Inr ds \<and> replay (rb_addrsep b) 0 ds = map (\<lambda>e. (entry_offset e, e)) (rb_entries b)"
  by (rule block_as_dicts [OF ip_blocks_ok [OF assms(1,2)] assms(3)])

section \<open>Bus interfaces\<close>

definition bus_ok :: "bus_interfaces \<Rightarrow> bool" where
  "bus_ok b \<longleftrightarrow> (bi_unnamed_device b \<or> bi_named_devices b \<noteq> []) \<and> distinct (bi_named_hosts b) \<and> distinct (bi_named_devices b)"

lemma BusInterfaces_from_raw_ok: "BusInterfaces_from_raw raw = Inr b \<Longrightarrow> bus_ok b"
  by (auto simp: BusInterfaces_from_raw_def BusInterfaces_init_def bindR_Inr_iff require_Inr_iff bus_ok_def split: if_splits)

lemma bus_entry_dict:
  "bus_entry st (YDict (if_dict True None)) = (if bi_unnamed_host st then Inl ValueError else Inr (st\<lparr>bi_unnamed_host := True\<rparr>))"
  "bus_entry st (YDict (if_dict False None)) = (if bi_unnamed_device st then Inl ValueError else Inr (st\<lparr>bi_unnamed_device := True\<rparr>))"
  "bus_entry st (YDict (if_dict True (Some n))) =
    (if n \<in> set (bi_named_hosts st) then Inl ValueError else Inr (st\<lparr>bi_named_hosts := bi_named_hosts st @ [n]\<rparr>))"
  "bus_entry st (YDict (if_dict False (Some n))) =
    (if n \<in> set (bi_named_devices st) then Inl ValueError else Inr (st\<lparr>bi_named_devices := bi_named_devices st @ [n]\<rparr>))"
  by (simp_all add: bus_entry_def if_dict_def opt_item_def lib_check_keys_def lib_check_str_dict_def lib_check_str_def
      lib_check_optional_str_def ydict_item_def ydict_get_or_None_def)

lemma bus_entries_append: "bus_entries st (xs @ ys) = bindR (bus_entries st xs) (\<lambda>st. bus_entries st ys)"
  by (induction xs arbitrary: st) (auto simp: bindR_def split: sum.splits)

lemma bus_entries_named:
  "distinct ns \<Longrightarrow> set ns \<inter> set (bi_named_hosts st) = {} \<Longrightarrow>
    bus_entries st (map (\<lambda>n. YDict (if_dict True (Some n))) ns) = Inr (st\<lparr>bi_named_hosts := bi_named_hosts st @ ns\<rparr>)"
  "distinct ns \<Longrightarrow> set ns \<inter> set (bi_named_devices st) = {} \<Longrightarrow>
    bus_entries st (map (\<lambda>n. YDict (if_dict False (Some n))) ns) = Inr (st\<lparr>bi_named_devices := bi_named_devices st @ ns\<rparr>)"
  by (induction ns arbitrary: st) (auto simp: bus_entry_dict)

lemma bus_round:
  assumes "bus_ok b"
  shows "BusInterfaces_from_raw (YList (bus_as_dicts b)) = Inr b"
proof -
  have d: "distinct (bi_named_hosts b)" "distinct (bi_named_devices b)" using assms by (simp_all add: bus_ok_def)
  have "bus_as_dicts b =
      (if bi_unnamed_host b then [YDict (if_dict True None)] else []) @ map (\<lambda>n. YDict (if_dict True (Some n))) (bi_named_hosts b) @
      (if bi_unnamed_device b then [YDict (if_dict False None)] else []) @ map (\<lambda>n. YDict (if_dict False (Some n))) (bi_named_devices b)"
    by (simp add: bus_as_dicts_def bus_list_def comp_def)
  then have "bus_entries no_interfaces (bus_as_dicts b) = Inr b"
    by (cases b) (use d in \<open>auto simp: bus_entries_append bus_entry_dict bus_entries_named no_interfaces_def\<close>)
  then show ?thesis
    using assms by (cases b) (simp add: BusInterfaces_from_raw_def lib_check_list_def BusInterfaces_init_def bus_ok_def require_def)
qed

text \<open>
  The bus interfaces of an accepted IP description, written as a list of dictionaries, are read back
  as they were, and the register blocks are those of its device interfaces: a block has a port exactly
  when it is the block of a device interface.
\<close>

theorem ip_bus_round_trip:
  assumes "IpBlock_from_raw dflts raw = Inr ip"
  shows "BusInterfaces_from_raw (YList (bus_as_dicts (ip_bus_interfaces ip))) = Inr (ip_bus_interfaces ip) \<and>
    (k \<in> fst ` set (ip_reg_blocks ip) \<longleftrightarrow>
       find_port_name (ip_bus_interfaces ip) False k = Inr (get_port_name (ip_bus_interfaces ip) False k))"
proof (rule IpBlock_from_raw_parts [OF assms])
  fix raw_bus bus and x :: "params \<times> (string option \<times> reg_block) list"
  assume b: "BusInterfaces_from_raw raw_bus = Inr bus" and s: "\<not> set (map fst (snd x)) \<noteq> set (dev_if_names bus)"
    and ip: "ip_reg_blocks ip = snd x" "ip_bus_interfaces ip = bus"
  have "k \<in> fst ` set (ip_reg_blocks ip) \<longleftrightarrow> k \<in> set (dev_if_names bus)" using s ip(1) by simp
  also have "\<dots> \<longleftrightarrow> has_interface bus False k"
    by (cases k) (auto simp: dev_if_names_def has_interface_def)
  finally show ?thesis using bus_round [OF BusInterfaces_from_raw_ok [OF b]] ip(2) by (simp add: find_port_name_def)
qed

section \<open>An example\<close>

text \<open>One register, two reserved words and a window of eight words, which moves to a multiple of its size.\<close>

definition demo_ip :: yaml where
  "demo_ip = YDict [(YStr ''name'', YStr ''DEMO''), (YStr ''clock_primary'', YStr ''CLK''), (YStr ''reset_primary'', YStr ''RST''),
     (YStr ''bus_interfaces'', YList [YDict [(YStr ''protocol'', YStr ''tlul''), (YStr ''direction'', YStr ''device'')]]),
     (YStr ''registers'', YList [
        YDict [(YStr ''name'', YStr ''CTRL''), (YStr ''desc'', YStr ''Control''),
               (YStr ''fields'', YList [YDict [(YStr ''bits'', YInt 0)]])],
        YDict [(YStr ''reserved'', YInt 2)],
        YDict [(YStr ''window'', YDict [(YStr ''name'', YStr ''BUF''), (YStr ''desc'', YStr ''Buffer''), (YStr ''items'', YStr ''8''),
               (YStr ''swaccess'', YStr ''rw'')])]])]"

definition demo_built :: ip_block where
  "demo_built = projr (IpBlock_from_raw [] demo_ip)"

definition demo_block :: reg_block where
  "demo_block = snd (hd (ip_reg_blocks demo_built))"

definition demo_summary :: "ip_block \<Rightarrow> string option list \<times> int \<times> int list \<times> string list \<times> int" where
  "demo_summary ip =
     (let b = snd (hd (ip_reg_blocks ip))
      in (map fst (ip_reg_blocks ip), rb_addrsep b, map entry_offset (rb_entries b), map r_name (rb_flat_regs b), rb_offset b))"

lemma demo_eval: "map_sum id demo_summary (IpBlock_from_raw [] demo_ip) = Inr ([None], 4, [0, 32], [''CTRL''], 64)"
  by code_simp

lemma demo_accepted: "IpBlock_from_raw [] demo_ip = Inr demo_built"
  using demo_eval unfolding demo_built_def by (cases "IpBlock_from_raw [] demo_ip") simp_all

lemma demo_facts:
  "map fst (ip_reg_blocks demo_built) = [None]" "rb_addrsep demo_block = 4" "map entry_offset (rb_entries demo_block) = [0, 32]"
  "map r_name (rb_flat_regs demo_block) = [''CTRL'']" "rb_offset demo_block = 64"
  using demo_eval by (simp_all add: demo_accepted demo_summary_def demo_block_def Let_def)

lemma demo_block_mem: "(None, demo_block) \<in> set (ip_reg_blocks demo_built)"
  using demo_facts by (cases "ip_reg_blocks demo_built") (auto simp: demo_block_def)

theorem ip_entries_disjoint_witness:
  "next_offset 4 (rb_entries demo_block ! 0) \<le> 32 \<and> next_offset 4 (rb_entries demo_block ! 1) \<le> 64"
proof -
  have l: "length (rb_entries demo_block) = 2" using demo_facts(3) by (metis length_Cons length_map list.size(3) numeral_2_eq_2)
  then have "entry_offset (rb_entries demo_block ! 1) = 32" using demo_facts(3) nth_map [of 1 "rb_entries demo_block" entry_offset] by simp
  then show ?thesis
    using ip_entries_disjoint [OF demo_accepted demo_block_mem, of 0 1] demo_facts l by simp
qed

theorem ip_register_lookup_witness: "\<exists>r :: register. r_name r = ''CTRL'' \<and> rb_name_to_flat_reg demo_block ''ctrl'' = Some r"
proof -
  obtain r where r: "rb_flat_regs demo_block = [r]" "r_name r = ''CTRL''" using demo_facts by auto
  have l: "py_lower ''ctrl'' = ''ctrl''" "py_lower ''CTRL'' = ''ctrl''" by code_simp+
  show ?thesis
    using ip_register_lookup [OF demo_accepted demo_block_mem, of r "''ctrl''"] r l by auto
qed

theorem ip_bus_round_trip_witness:
  "BusInterfaces_from_raw (YList (bus_as_dicts (ip_bus_interfaces demo_built))) = Inr (ip_bus_interfaces demo_built) \<and>
    find_port_name (ip_bus_interfaces demo_built) False None = Inr (get_port_name (ip_bus_interfaces demo_built) False None)"
  using ip_bus_round_trip [OF demo_accepted, of None] demo_block_mem by force

section \<open>Corner cases\<close>

text \<open>
  A width of the registers that is not a power of two of bytes is accepted, and then a description cannot always be
  written: with registers of 24 bits, three bytes apart, a window of two items behind a register moves to offset 8, and
  the gap of five bytes fails the assertion that it is a multiple of the register size.
\<close>

definition narrow_ip :: yaml where
  "narrow_ip = YDict [(YStr ''name'', YStr ''DEMO''), (YStr ''clock_primary'', YStr ''CLK''), (YStr ''reset_primary'', YStr ''RST''),
     (YStr ''bus_interfaces'', YList [YDict [(YStr ''protocol'', YStr ''tlul''), (YStr ''direction'', YStr ''device'')]]),
     (YStr ''regwidth'', YInt 24),
     (YStr ''registers'', YList [
        YDict [(YStr ''name'', YStr ''CTRL''), (YStr ''desc'', YStr ''Control''),
               (YStr ''fields'', YList [YDict [(YStr ''bits'', YInt 0)]])],
        YDict [(YStr ''window'', YDict [(YStr ''name'', YStr ''BUF''), (YStr ''desc'', YStr ''Buffer''), (YStr ''items'', YStr ''2''),
               (YStr ''unusual'', YStr ''true''), (YStr ''swaccess'', YStr ''rw'')])]])]"

lemma narrow_as_dicts_fails:
  "\<exists>ip b. IpBlock_from_raw [] narrow_ip = Inr ip \<and> (None, b) \<in> set (ip_reg_blocks ip) \<and>
     rb_addrsep b = 3 \<and> map entry_offset (rb_entries b) = [0, 8] \<and> RegBlock_as_dicts b = Inl AssertionError"
proof -
  have "map_sum id (\<lambda>ip. map (\<lambda>(k, b). (k, rb_addrsep b, map entry_offset (rb_entries b), map_sum id (\<lambda>_. ()) (RegBlock_as_dicts b)))
      (ip_reg_blocks ip)) (IpBlock_from_raw [] narrow_ip) = Inr [(None, 3, [0, 8], Inl AssertionError)]"
    by code_simp
  then obtain ip b where "IpBlock_from_raw [] narrow_ip = Inr ip" "ip_reg_blocks ip = [(None, b)]" "rb_addrsep b = 3"
    "map entry_offset (rb_entries b) = [0, 8]" "map_sum id (\<lambda>_. ()) (RegBlock_as_dicts b) = Inl AssertionError"
    by (cases "IpBlock_from_raw [] narrow_ip") auto
  then show ?thesis by (cases "RegBlock_as_dicts b") auto
qed

text \<open>As many alerts as a register has bits pass the check of their number and then fail an assertion.\<close>

lemma alerts_full_width:
  "alerts \<noteq> [] \<Longrightarrow> int (length alerts) = rb_reg_width b \<Longrightarrow> ip_alert_regs (rb_reg_width b) alerts False b = Inl AssertionError"
  by (simp add: ip_alert_regs_def make_alert_regs_def)

text \<open>
  A register with a write enable that does not exist is accepted in a list of registers, and rejected in
  a dictionary of such lists.
\<close>

definition no_such_regwen :: yaml where
  "no_such_regwen = YDict [(YStr ''name'', YStr ''CTRL''), (YStr ''desc'', YStr ''Control''), (YStr ''regwen'', YStr ''X_REGWEN''),
     (YStr ''fields'', YList [YDict [(YStr ''bits'', YInt 0)]])]"

lemma list_not_validated:
  "map_sum id (map fst) (build_blocks (RegBlock_init 32 []) (YList [no_such_regwen])) = Inr [None]"
  "map_sum id (map fst) (build_blocks (RegBlock_init 32 []) (YDict [(YStr ''core'', YList [no_such_regwen])])) = Inl ValueError"
  subgoal by code_simp
  subgoal by code_simp
  done

end
