(* ===== verification/Known_Mem.thy ===== *)
theory Known_Mem
  imports Prelude "HOL-Library.Product_Lexorder"
begin

text \<open>
  The memory tracker of the random instruction generator, \<^verbatim>\<open>hw/ip/otbn/dv/rig/rig/known_mem.py\<close>: which bytes
  have a known value, and the choice of an address for a load or a store.  The two calls of Python's random module
  are arguments: \<open>choices ranges weights\<close> is the chosen range, \<open>randrange lo hi\<close> the chosen number.
\<close>

section \<open>Operations\<close>

text \<open>The loop of the extended Euclidean algorithm.\<close>

function eea_loop :: "int \<Rightarrow> int \<Rightarrow> int \<Rightarrow> int \<Rightarrow> int \<Rightarrow> int \<Rightarrow> int \<times> int \<times> int" where
  "eea_loop r r_nxt s s_nxt t t_nxt =
     (if py_bool r_nxt then
        let q = r div r_nxt
        in eea_loop r_nxt (r - q * r_nxt) s_nxt (s - q * s_nxt) t_nxt (t - q * t_nxt)
      else (r, s, t))"
  by pat_completeness auto

termination eea_loop
proof (relation "measure (\<lambda>(r, r_nxt, s, s_nxt, t, t_nxt). nat \<bar>r_nxt\<bar>)")
  show "((r_nxt, r - q * r_nxt, s_nxt, s - q * s_nxt, t_nxt, t - q * t_nxt), r, r_nxt, s, s_nxt, t, t_nxt)
      \<in> measure (\<lambda>(r, r_nxt, s, s_nxt, t, t_nxt). nat \<bar>r_nxt\<bar>)"
    if "py_bool r_nxt" "q = r div r_nxt" for r r_nxt s s_nxt t t_nxt q :: int
    using that abs_mod_less [of r_nxt r] by (simp add: py_bool_def minus_div_mult_eq_mod)
qed simp

declare eea_loop.simps [simp del]

definition extended_euclidean_algorithm :: "int \<Rightarrow> int \<Rightarrow> int \<times> int \<times> int" where
  "extended_euclidean_algorithm a b =
     (let (r, s, t) = eea_loop a b 1 0 0 1
      in if r < 0 then (- r, - s, - t) else (r, s, t))"

text \<open>The sweep over the ranges of both lists in order; the results are appended.\<close>

fun sweep_ranges :: "(int \<times> int) option \<Rightarrow> (int \<times> int) option \<Rightarrow> ((int \<times> int) \<times> bool) list \<Rightarrow> (int \<times> int) list" where
  "sweep_ranges arng brng [] = []"
| "sweep_ranges arng brng (((lo, hi), is_b) # ps) =
     (if is_b then
        (case arng of
           Some (a0, a1) \<Rightarrow> if a0 \<le> hi \<and> lo \<le> a1 then [(max a0 lo, min a1 hi)] else []
         | None \<Rightarrow> []) @ sweep_ranges arng (Some (lo, hi)) ps
      else
        (case brng of
           Some (b0, b1) \<Rightarrow> if b0 \<le> hi \<and> lo \<le> b1 then [(max lo b0, min hi b1)] else []
         | None \<Rightarrow> []) @ sweep_ranges (Some (lo, hi)) brng ps)"

definition intersect_ranges :: "(int \<times> int) list \<Rightarrow> (int \<times> int) list \<Rightarrow> (int \<times> int) list" where
  "intersect_ranges a b = sweep_ranges None None (sort (map (\<lambda>r. (r, False)) a @ map (\<lambda>r. (r, True)) b))"

record known_mem =
  top_addr :: int
  known_ranges :: "(int \<times> int) list"

definition KnownMem_init :: "int \<Rightarrow> known_mem result" where
  "KnownMem_init ta = require (ta > 0) (Inr \<lparr>top_addr = ta, known_ranges = []\<rparr>)"

definition KnownMem_copy :: "known_mem \<Rightarrow> known_mem result" where
  "KnownMem_copy m = bindR (KnownMem_init (top_addr m)) (\<lambda>ret. Inr (ret\<lparr>known_ranges := known_ranges m\<rparr>))"

definition KnownMem_merge :: "known_mem \<Rightarrow> known_mem \<Rightarrow> known_mem result" where
  "KnownMem_merge m other =
     require (top_addr m = top_addr other) (Inr (m\<lparr>known_ranges := intersect_ranges (known_ranges m) (known_ranges other)\<rparr>))"

text \<open>The loop that finds the last range that starts at or below an address and the first one above it.\<close>

fun find_around :: "int \<Rightarrow> nat \<Rightarrow> nat option \<Rightarrow> (int \<times> int) list \<Rightarrow> nat option \<times> nat option" where
  "find_around addr idx last_below [] = (last_below, None)"
| "find_around addr idx last_below ((lo, hi) # rs) =
     (if lo \<le> addr then find_around addr (idx + 1) (Some idx) rs else (last_below, Some idx))"

definition touch_below_all :: "int \<Rightarrow> nat option \<Rightarrow> (int \<times> int) list \<Rightarrow> (int \<times> int) list result" where
  "touch_below_all addr first_idx_above rs =
     (case first_idx_above of
        None \<Rightarrow> Inr ([(addr, addr + 1)] @ rs)
      | Some i \<Rightarrow>
          let (lo, hi) = rs ! i
          in require (addr < lo) (if addr = lo - 1 then Inr (rs[i := (lo - 1, hi)]) else Inr ([(addr, addr + 1)] @ rs)))"

definition touch_above :: "int \<Rightarrow> nat \<Rightarrow> nat option \<Rightarrow> (int \<times> int) list \<Rightarrow> (int \<times> int) list result" where
  "touch_above addr below first_idx_above rs =
     (let (left_lo, left_hi) = rs ! below; left = take below rs
      in if addr < left_hi then Inr rs
         else if addr = left_hi then
           (case first_idx_above of
              None \<Rightarrow> Inr (left @ [(left_lo, left_hi + 1)])
            | Some i \<Rightarrow>
                require (i = below + 1)
                  (let (right_lo, right_hi) = rs ! i
                   in require (addr < right_lo)
                        (if addr = right_lo - 1 then Inr (left @ [(left_lo, right_hi)] @ drop (i + 1) rs)
                         else Inr (left @ [(left_lo, left_hi + 1)] @ drop i rs))))
         else
           (case first_idx_above of
              None \<Rightarrow> Inr (rs @ [(addr, addr + 1)])
            | Some i \<Rightarrow>
                require (i = below + 1)
                  (let (right_lo, right_hi) = rs ! i
                   in require (addr < right_lo)
                        (if addr = right_lo - 1 then Inr (take i rs @ [(right_lo - 1, right_hi)] @ drop (i + 1) rs)
                         else Inr (take i rs @ [(addr, addr + 1)] @ drop i rs)))))"

definition touch_addr :: "int \<Rightarrow> known_mem \<Rightarrow> known_mem result" where
  "touch_addr addr m =
     require (0 \<le> addr \<and> addr < top_addr m)
       (let rs = known_ranges m; (last_idx_below, first_idx_above) = find_around addr 0 None rs
        in bindR (case last_idx_below of
                    None \<Rightarrow> touch_below_all addr first_idx_above rs
                  | Some below \<Rightarrow> touch_above addr below first_idx_above rs) (\<lambda>rs'. Inr (m\<lparr>known_ranges := rs'\<rparr>)))"

fun touch_addrs :: "int list \<Rightarrow> known_mem \<Rightarrow> known_mem result" where
  "touch_addrs [] m = Inr m"
| "touch_addrs (a # as) m = bindR (touch_addr a m) (touch_addrs as)"

definition touch_range :: "int \<Rightarrow> int \<Rightarrow> known_mem \<Rightarrow> known_mem result" where
  "touch_range base wd m =
     require (0 \<le> wd) (require (0 \<le> base \<and> base \<le> top_addr m - wd)
       (touch_addrs (map (\<lambda>off. base + int off) [0..<nat wd]) m))"

text \<open>The loop over the byte ranges in \<^verbatim>\<open>pick_lsu_target\<close>: the range of \<open>k\<close> for one of them, if it is not skipped.\<close>

definition k_range :: "int \<Rightarrow> int \<Rightarrow> int \<Rightarrow> int \<Rightarrow> int \<Rightarrow> int \<Rightarrow> int \<times> int \<Rightarrow> (int \<times> int) option" where
  "k_range wd addr_align j0 minus_u k_min k_max rng =
     (let (byte_lo, byte_top) = rng; base_hi = byte_top - wd
      in if base_hi < byte_lo then None
         else
           let word_lo = (byte_lo + addr_align - 1) div addr_align; word_hi = base_hi div addr_align
           in if word_hi < word_lo then None
              else
                let k_hi = (word_hi - j0) div minus_u; k_lo = (word_lo - j0 + (minus_u - 1)) div minus_u
                in if k_hi < k_lo then None
                   else if k_lo > k_max \<or> k_min > k_hi then None
                   else Some (max k_lo k_min, min k_hi k_max))"

definition pick_lsu_target ::
    "((int \<times> int) list \<Rightarrow> int list \<Rightarrow> int \<times> int) \<Rightarrow> (int \<Rightarrow> int \<Rightarrow> int) \<Rightarrow> known_mem \<Rightarrow> bool \<Rightarrow> int \<Rightarrow> int \<times> int \<Rightarrow> int \<Rightarrow> int \<Rightarrow> int \<Rightarrow>
     int option result" where
  "pick_lsu_target choices randrange m loads_value base_addr offset_range offset_align wd addr_align =
     require (fst offset_range \<le> snd offset_range) (require (1 \<le> offset_align) (require (1 \<le> wd) (require (1 \<le> addr_align)
       (let (gcd, x0, y0) = extended_euclidean_algorithm (- offset_align) addr_align
        in require (gcd = - offset_align * x0 + addr_align * y0) (require (0 < gcd)
             (if py_bool (base_addr mod gcd) then Inr None
              else
                let scale_factor = base_addr div gcd; i0 = x0 * scale_factor; j0 = y0 * scale_factor;
                    minus_u = offset_align div gcd; v = addr_align div gcd
                in require (0 < v) (require (0 < minus_u)
                     (let bv = - offset_align * v;
                          k_max = (- snd offset_range + offset_align * i0) div bv;
                          k_min = (- fst offset_range + offset_align * i0 + (bv - 1)) div bv
                      in if k_max < k_min then Inr None
                         else
                           let byte_ranges = (if loads_value then known_ranges m else [(0, top_addr m - 1)]);
                               k_ranges = List.map_filter (k_range wd addr_align j0 minus_u k_min k_max) byte_ranges;
                               k_weights = map (\<lambda>(k_lo, k_hi). k_hi - k_lo + 1) k_ranges
                           in if k_ranges = [] then Inr None
                              else
                                let (k_lo, k_hi) = choices k_ranges k_weights; k = randrange k_lo (k_hi + 1);
                                    i = i0 + k * v; j = j0 + k * minus_u;
                                    offset = offset_align * i; addr = addr_align * j
                                in require (addr = base_addr + offset) (Inr (Some addr))))))))))"

section \<open>The extended Euclidean algorithm\<close>

lemma eea_loop_bezout:
  assumes "r = a * s + b * t" and "r_nxt = a * s_nxt + b * t_nxt"
  shows "case eea_loop r r_nxt s s_nxt t t_nxt of (g, x, y) \<Rightarrow> g = a * x + b * y \<and> \<bar>g\<bar> = gcd r r_nxt"
  using assms
proof (induction r r_nxt s s_nxt t t_nxt rule: eea_loop.induct)
  case (1 r r_nxt s s_nxt t t_nxt)
  show ?case
  proof (cases "r_nxt = 0")
    case True
    then have "eea_loop r r_nxt s s_nxt t t_nxt = (r, s, t)" by (simp add: eea_loop.simps [of r] py_bool_def)
    then show ?thesis using 1(2) True by (simp only: prod.case gcd_0_int)
  next
    case False
    let ?q = "r div r_nxt"
    have "r - ?q * r_nxt = a * (s - ?q * s_nxt) + b * (t - ?q * t_nxt)"
      unfolding 1(2,3) by (simp add: algebra_simps)
    then have "case eea_loop r_nxt (r - ?q * r_nxt) s_nxt (s - ?q * s_nxt) t_nxt (t - ?q * t_nxt) of
        (g, x, y) \<Rightarrow> g = a * x + b * y \<and> \<bar>g\<bar> = gcd r_nxt (r - ?q * r_nxt)"
      using 1(1) [OF _ refl _ ] 1(3) False by (simp add: py_bool_def)
    moreover have "gcd r_nxt (r - ?q * r_nxt) = gcd r r_nxt"
      by (metis gcd.commute gcd_red_int minus_div_mult_eq_mod)
    ultimately show ?thesis using False by (simp add: eea_loop.simps [of r] py_bool_def Let_def)
  qed
qed

lemma eea_correct:
  assumes "extended_euclidean_algorithm a b = (g, x, y)"
  shows "g = gcd a b" and "g = a * x + b * y"
proof -
  obtain r s t where l: "eea_loop a b 1 0 0 1 = (r, s, t)" by (metis prod_cases3)
  have "case eea_loop a b 1 0 0 1 of (g, x, y) \<Rightarrow> g = a * x + b * y \<and> \<bar>g\<bar> = gcd a b" by (rule eea_loop_bezout) simp_all
  then have "r = a * s + b * t" "\<bar>r\<bar> = gcd a b" unfolding l prod.case by blast+
  then show "g = gcd a b" "g = a * x + b * y"
    using assms l by (auto simp: extended_euclidean_algorithm_def algebra_simps split: if_splits)
qed

section \<open>Sets of known bytes\<close>

definition range_set :: "int \<times> int \<Rightarrow> int set" where
  "range_set r = {a. fst r \<le> a \<and> a < snd r}"

definition known_set :: "(int \<times> int) list \<Rightarrow> int set" where
  "known_set rs = (\<Union>r\<in>set rs. range_set r)"

text \<open>The ranges are in order, do not overlap, and lie between two addresses.\<close>

fun in_order :: "int \<Rightarrow> (int \<times> int) list \<Rightarrow> int \<Rightarrow> bool" where
  "in_order a [] z \<longleftrightarrow> True"
| "in_order a ((lo, hi) # rs) z \<longleftrightarrow> a \<le> lo \<and> lo \<le> hi \<and> hi \<le> z \<and> in_order hi rs z"

lemma known_set_simps [simp]: "known_set [] = {}" "known_set (r # rs) = range_set r \<union> known_set rs"
  "known_set (rs @ rs') = known_set rs \<union> known_set rs'"
  by (auto simp: known_set_def)

lemma ranges_ok_mono: "in_order a rs z \<Longrightarrow> a' \<le> a \<Longrightarrow> in_order a' rs z"
  by (cases rs) auto

lemma ranges_ok_mem: "in_order a rs z \<Longrightarrow> r \<in> set rs \<Longrightarrow> a \<le> fst r \<and> fst r \<le> snd r \<and> snd r \<le> z"
  by (induction rs arbitrary: a) force+

lemma known_set_bounds: "in_order a rs z \<Longrightarrow> x \<in> known_set rs \<Longrightarrow> a \<le> x \<and> x < z"
  by (force simp: known_set_def range_set_def dest: ranges_ok_mem)

text \<open>A state of the sweep: the last range of each list, and the ranges that are left.\<close>

definition last_hi :: "(int \<times> int) option \<Rightarrow> int" where
  "last_hi r = (case r of Some x \<Rightarrow> snd x | None \<Rightarrow> 0)"

definition opt_set :: "(int \<times> int) option \<Rightarrow> int set" where
  "opt_set r = (case r of Some x \<Rightarrow> range_set x | None \<Rightarrow> {})"

definition side :: "bool \<Rightarrow> ((int \<times> int) \<times> bool) list \<Rightarrow> (int \<times> int) list" where
  "side is_b ps = map fst (filter (\<lambda>p. snd p = is_b) ps)"

lemma side_simps [simp]: "side t [] = []" "side t (p # ps) = (if snd p = t then fst p # side t ps else side t ps)"
  by (simp_all add: side_def)

lemma side_above: "\<forall>p\<in>set ps. x \<le> fst (fst p) \<Longrightarrow> y \<in> known_set (side t ps) \<Longrightarrow> x \<le> y"
  by (force simp: side_def known_set_def range_set_def)

text \<open>The intersection of two ranges that the sweep emits.\<close>

definition meet :: "(int \<times> int) option \<Rightarrow> int \<times> int \<Rightarrow> (int \<times> int) list" where
  "meet o1 r = (case o1 of
     Some x \<Rightarrow> if fst x \<le> snd r \<and> fst r \<le> snd x then [(max (fst x) (fst r), min (snd x) (snd r))] else [] | None \<Rightarrow> [])"

lemma known_set_meet: "known_set (meet o1 r) = opt_set o1 \<inter> range_set r"
  by (auto simp: meet_def opt_set_def range_set_def split: option.splits)

lemma sweep_Cons: "sweep_ranges arng brng (p # ps) =
    (if snd p then meet arng (fst p) @ sweep_ranges arng (Some (fst p)) ps
     else meet brng (fst p) @ sweep_ranges (Some (fst p)) brng ps)"
  by (cases p; cases "fst p"; cases arng; cases brng) (auto simp: meet_def max.commute min.commute)

lemma sweep_correct:
  assumes "sorted (map (fst \<circ> fst) ps)" and "in_order (last_hi arng) (side False ps) z" and "in_order (last_hi brng) (side True ps) z"
  shows "known_set (sweep_ranges arng brng ps) =
    (opt_set arng \<union> known_set (side False ps)) \<inter> known_set (side True ps) \<union> known_set (side False ps) \<inter> opt_set brng"
  using assms
proof (induction ps arbitrary: arng brng)
  case (Cons p ps)
  obtain lo hi where p: "fst p = (lo, hi)" by (cases "fst p")
  have above: "\<forall>q\<in>set ps. lo \<le> fst (fst q)" using Cons.prems(1) p by auto
  have hi: "x < last_hi o1" if "x \<in> opt_set o1" for x o1
    using that by (auto simp: opt_set_def range_set_def last_hi_def split: option.splits)
  show ?case
  proof (cases "snd p")
    case True
    have "known_set (side False ps) \<inter> opt_set brng = {}"
      using side_above [OF above, of _ False] Cons.prems(3) True p hi by fastforce
    then show ?thesis
      using Cons.IH [of arng "Some (fst p)"] Cons.prems True p
      by (auto simp: sweep_Cons known_set_meet last_hi_def opt_set_def [of "Some _"])
  next
    case False
    have "known_set (side True ps) \<inter> opt_set arng = {}"
      using side_above [OF above, of _ True] Cons.prems(2) False p hi by fastforce
    then show ?thesis
      using Cons.IH [of "Some (fst p)" brng] Cons.prems False p
      by (auto simp: sweep_Cons known_set_meet last_hi_def opt_set_def [of "Some _"])
  qed
qed simp

lemma sweep_ok:
  assumes "in_order (last_hi arng) (side False ps) z" and "in_order (last_hi brng) (side True ps) z"
    and "\<forall>x. arng = Some x \<longrightarrow> fst x \<le> snd x \<and> snd x \<le> z" and "\<forall>x. brng = Some x \<longrightarrow> fst x \<le> snd x \<and> snd x \<le> z"
  shows "in_order (min (last_hi arng) (last_hi brng)) (sweep_ranges arng brng ps) z"
  using assms
proof (induction ps arbitrary: arng brng)
  case (Cons p ps)
  obtain lo hi where p: "fst p = (lo, hi)" by (cases "fst p")
  have meet: "in_order c (meet o1 (lo, hi) @ rs) z"
    if "c \<le> lo" "lo \<le> hi" "hi \<le> z" "\<forall>x. o1 = Some x \<longrightarrow> fst x \<le> snd x \<and> snd x \<le> z"
      "in_order (min (last_hi o1) hi) rs z" "c \<le> min (last_hi o1) hi" for c o1 rs
    using that by (auto simp: meet_def last_hi_def split: option.splits intro: ranges_ok_mono)
  show ?case
  proof (cases "snd p")
    case True
    then have "in_order (min (last_hi arng) hi) (sweep_ranges arng (Some (lo, hi)) ps) z"
      using Cons.IH [of arng "Some (lo, hi)"] Cons.prems p by (simp add: last_hi_def)
    then show ?thesis using True p Cons.prems by (auto simp: sweep_Cons intro!: meet)
  next
    case False
    then have "in_order (min (last_hi brng) hi) (sweep_ranges (Some (lo, hi)) brng ps) z"
      using Cons.IH [of "Some (lo, hi)" brng] Cons.prems p by (simp add: last_hi_def min.commute)
    then show ?thesis using False p Cons.prems by (auto simp: sweep_Cons intro!: meet)
  qed
qed simp

lemma ranges_sorted: "in_order a rs z \<Longrightarrow> sorted (map (\<lambda>r. (r, t :: bool)) rs)"
proof (induction rs arbitrary: a)
  case (Cons r rs)
  obtain lo hi where r: "r = (lo, hi)" by (cases r)
  have "(r, t) \<le> (r', t)" if "r' \<in> set rs" for r'
    using ranges_ok_mem [of hi rs z r'] that Cons.prems by (cases r') (auto simp: r less_eq_prod_def less_prod_def)
  then show ?case using Cons r by auto
qed simp

lemma intersect_sides:
  assumes "in_order 0 a z" and "in_order 0 b z"
  defines "ps \<equiv> sort (map (\<lambda>r. (r, False)) a @ map (\<lambda>r. (r, True)) b)"
  shows "side False ps = a" and "side True ps = b" and "sorted (map (fst \<circ> fst) ps)"
proof -
  have fs: "filter (\<lambda>p. snd p = t) ps = sort (filter (\<lambda>p. snd p = t) (map (\<lambda>r. (r, False)) a @ map (\<lambda>r. (r, True)) b))" for t
    unfolding ps_def by (rule filter_sort)
  show "side False ps = a" "side True ps = b"
    using ranges_sorted [OF assms(1), of False] ranges_sorted [OF assms(2), of True]
    by (simp_all only: side_def fs filter_append filter_map comp_def snd_conv) (simp_all add: sorted_sort_id comp_def)
  have "sorted ps" by (simp add: ps_def)
  then show "sorted (map (fst \<circ> fst) ps)"
    by (auto simp: sorted_iff_nth_mono less_eq_prod_def less_prod_def) (metis order.refl order_less_imp_le)
qed

lemma intersect_ranges_correct:
  assumes "in_order 0 a z" and "in_order 0 b z"
  shows "known_set (intersect_ranges a b) = known_set a \<inter> known_set b" and "in_order 0 (intersect_ranges a b) z"
proof -
  note s = intersect_sides [OF assms]
  show "known_set (intersect_ranges a b) = known_set a \<inter> known_set b"
    unfolding intersect_ranges_def using sweep_correct [OF s(3), of None z None] s(1,2) assms by (simp add: last_hi_def opt_set_def)
  show "in_order 0 (intersect_ranges a b) z"
    unfolding intersect_ranges_def using sweep_ok [of None _ z None] s(1,2) assms by (simp add: last_hi_def)
qed

section \<open>Marking a byte as known\<close>

lemma find_around_eq:
  "find_around addr idx last_below rs =
    (let n = length (takeWhile (\<lambda>r. fst r \<le> addr) rs)
     in (if n = 0 then last_below else Some (idx + n - 1), if n < length rs then Some (idx + n) else None))"
  by (induction rs arbitrary: idx last_below) (auto simp: Let_def)

lemma ranges_ok_append: "in_order a (rs @ rs') z \<longleftrightarrow>
    in_order a rs z \<and> in_order (if rs = [] then a else snd (last rs)) rs' z"
  by (induction rs arbitrary: a) auto

lemma range_set_one: "range_set (a, a + 1) = {a}" "lo \<le> hi \<Longrightarrow> range_set (lo, hi + 1) = insert hi (range_set (lo, hi))"
  "lo \<le> hi \<Longrightarrow> range_set (lo - 1, hi) = insert (lo - 1) (range_set (lo, hi))"
  by (auto simp: range_set_def)

text \<open>The new list of ranges, on the ranges at or below the address (last one first) and those above it.\<close>

lemma touch_below_all_ok:
  assumes "in_order 0 rs z" and "0 \<le> addr" and "addr < z" and "\<forall>r\<in>set rs. addr < fst r"
  shows "\<exists>rs'. touch_below_all addr (if rs = [] then None else Some 0) rs = Inr rs' \<and> in_order 0 rs' z \<and>
    known_set rs' = insert addr (known_set rs)"
proof (cases rs)
  case Nil
  then show ?thesis using assms by (simp add: touch_below_all_def range_set_one)
next
  case (Cons r rs1)
  obtain lo hi where r: "r = (lo, hi)" by (cases r)
  show ?thesis using assms unfolding Cons r by (auto simp: touch_below_all_def range_set_one)
qed

lemma touch_above_ok:
  assumes rs: "rs = xs @ (lo, hi) # ys" and ok: "in_order 0 rs z" and "lo \<le> addr" and "addr < z" and "\<forall>r\<in>set ys. addr < fst r"
  shows "\<exists>rs'. touch_above addr (length xs) (if ys = [] then None else Some (length xs + 1)) rs = Inr rs' \<and> in_order 0 rs' z \<and>
    known_set rs' = insert addr (known_set rs)"
proof -
  have lh: "lo \<le> hi" using ok by (auto simp: rs ranges_ok_append)
  have t: "take (Suc (length xs)) rs = xs @ [(lo, hi)]" "drop (Suc (length xs)) rs = ys" "rs ! length xs = (lo, hi)" "take (length xs) rs = xs"
    by (simp_all add: rs)
  consider "addr < hi" | "addr = hi" | "hi < addr" by linarith
  then show ?thesis
  proof cases
    case 1
    then have "addr \<in> known_set rs" using assms(3) by (auto simp: rs range_set_def)
    then show ?thesis using 1 ok t by (simp add: touch_above_def insert_absorb)
  next
    case 2
    show ?thesis
    proof (cases ys)
      case Nil
      then show ?thesis using 2 ok t assms(4) lh by (auto simp: touch_above_def rs ranges_ok_append range_set_one)
    next
      case (Cons r ys1)
      obtain lo' hi' where r: "r = (lo', hi')" by (cases r)
      have d: "rs ! Suc (length xs) = (lo', hi')" "drop (Suc (Suc (length xs))) rs = ys1" by (simp_all add: rs Cons r nth_append)
      show ?thesis
      proof (cases "addr = lo' - 1")
        case True
        then have "range_set (lo, hi') = insert addr (range_set (lo, hi) \<union> range_set (lo', hi'))"
          using 2 lh ok by (auto simp: rs Cons r ranges_ok_append range_set_def)
        then show ?thesis
          using True 2 ok t d assms(5) lh by (auto simp: touch_above_def rs Cons r ranges_ok_append)
      next
        case False
        then show ?thesis
          using 2 ok t d assms(5) lh by (auto simp: touch_above_def rs Cons r ranges_ok_append range_set_one)
      qed
    qed
  next
    case 3
    show ?thesis
    proof (cases ys)
      case Nil
      then show ?thesis using 3 ok t assms(4) lh by (auto simp: touch_above_def rs ranges_ok_append range_set_one)
    next
      case (Cons r ys1)
      obtain lo' hi' where r: "r = (lo', hi')" by (cases r)
      have d: "rs ! Suc (length xs) = (lo', hi')" "drop (Suc (Suc (length xs))) rs = ys1" by (simp_all add: rs Cons r nth_append)
      show ?thesis
        using 3 ok t d assms(5) lh by (auto simp: touch_above_def rs Cons r ranges_ok_append range_set_one)
    qed
  qed
qed

definition mem_ok :: "known_mem \<Rightarrow> bool" where
  "mem_ok m \<longleftrightarrow> 0 < top_addr m \<and> in_order 0 (known_ranges m) (top_addr m)"

lemma touch_addr_ok:
  assumes ok: "mem_ok m" and "0 \<le> addr" and "addr < top_addr m"
  shows "\<exists>rs. touch_addr addr m = Inr (m\<lparr>known_ranges := rs\<rparr>) \<and> mem_ok (m\<lparr>known_ranges := rs\<rparr>) \<and>
    known_set rs = insert addr (known_set (known_ranges m))"
proof -
  let ?rs = "known_ranges m" and ?P = "\<lambda>r. fst r \<le> addr"
  let ?xs = "takeWhile ?P ?rs" and ?ys = "dropWhile ?P ?rs"
  have rok: "in_order 0 ?rs (top_addr m)" using ok by (simp add: mem_ok_def)
  have split: "?rs = ?xs @ ?ys" by simp
  have ys: "\<forall>r\<in>set ?ys. addr < fst r"
  proof (cases ?ys)
    case (Cons y ys)
    have "addr < fst y" using Cons by (metis hd_dropWhile list.distinct(1) list.sel(1) not_le)
    moreover have "in_order (snd y) ys (top_addr m)" "fst y \<le> snd y"
      using rok split Cons by (metis ranges_ok_append in_order.simps(2) prod.collapse)+
    ultimately show ?thesis using Cons ranges_ok_mem by fastforce
  next
    case Nil
    then show ?thesis by (metis empty_iff empty_set)
  qed
  have n: "length ?xs < length ?rs \<longleftrightarrow> ?ys \<noteq> []" by (metis append_Nil2 length_append less_add_same_cancel1 length_greater_0_conv split)
  have "\<exists>rs'. (case fst (find_around addr 0 None ?rs) of
          None \<Rightarrow> touch_below_all addr (snd (find_around addr 0 None ?rs)) ?rs
        | Some below \<Rightarrow> touch_above addr below (snd (find_around addr 0 None ?rs)) ?rs) = Inr rs' \<and>
      in_order 0 rs' (top_addr m) \<and> known_set rs' = insert addr (known_set ?rs)"
  proof (cases "?xs = []")
    case True
    then have "?ys = ?rs" using split by simp
    then show ?thesis
      using touch_below_all_ok [OF rok assms(2,3)] ys True n by (auto simp: find_around_eq Let_def)
  next
    case False
    then obtain xs1 lo hi where xs: "?xs = xs1 @ [(lo, hi)]" by (metis rev_exhaust surj_pair)
    then have "lo \<le> addr" by (metis fst_conv in_set_conv_decomp set_takeWhileD)
    moreover have "?rs = xs1 @ (lo, hi) # ?ys" using split xs by simp
    moreover have l: "length ?xs = Suc (length xs1)" using xs by simp
    have "find_around addr 0 None ?rs = (Some (length xs1), if ?ys = [] then None else Some (length xs1 + 1))"
      unfolding find_around_eq Let_def n by (cases "?ys = []") (simp_all only: l, simp_all)
    ultimately show ?thesis
      using touch_above_ok [of ?rs xs1 lo hi ?ys "top_addr m" addr] rok ys assms(3) by (simp only: fst_conv snd_conv option.case)
  qed
  then show ?thesis
    using assms(2,3) ok by (auto simp: touch_addr_def mem_ok_def Let_def case_prod_beta)
qed

lemma touch_addrs_ok:
  "mem_ok m \<Longrightarrow> \<forall>a\<in>set as. 0 \<le> a \<and> a < top_addr m \<Longrightarrow>
    \<exists>m'. touch_addrs as m = Inr m' \<and> mem_ok m' \<and> top_addr m' = top_addr m \<and>
      known_set (known_ranges m') = known_set (known_ranges m) \<union> set as"
proof (induction as arbitrary: m)
  case (Cons a as)
  obtain rs where rs: "touch_addr a m = Inr (m\<lparr>known_ranges := rs\<rparr>)" "mem_ok (m\<lparr>known_ranges := rs\<rparr>)"
    "known_set rs = insert a (known_set (known_ranges m))"
    using touch_addr_ok [OF Cons.prems(1), of a] Cons.prems(2) by auto
  then show ?case using Cons.IH [OF rs(2)] Cons.prems(2) by auto
qed simp

text \<open>
  C15: The tracker implements a set of known bytes.  Marking a range inside the memory as known raises
  nothing and adds exactly its bytes; merging two trackers of the same memory keeps exactly the bytes known
  to both; the lists of ranges stay in order and without overlap.
\<close>

theorem known_mem_refines_set:
  assumes "mem_ok m" and "mem_ok m2" and "top_addr m2 = top_addr m" and "0 \<le> wd" and "0 \<le> base" and "base + wd \<le> top_addr m"
  shows "(\<exists>m'. touch_range base wd m = Inr m' \<and> mem_ok m' \<and>
      known_set (known_ranges m') = known_set (known_ranges m) \<union> {base..<base + wd}) \<and>
    (\<exists>m'. KnownMem_merge m m2 = Inr m' \<and> mem_ok m' \<and>
      known_set (known_ranges m') = known_set (known_ranges m) \<inter> known_set (known_ranges m2))"
proof
  have "(\<lambda>off. base + int off) ` {0..<nat wd} = {base..<base + wd}"
    using assms(4) by (auto simp: image_def intro!: bexI [of _ "nat (_ - base)"])
  then show "\<exists>m'. touch_range base wd m = Inr m' \<and> mem_ok m' \<and>
      known_set (known_ranges m') = known_set (known_ranges m) \<union> {base..<base + wd}"
    using touch_addrs_ok [OF assms(1), of "map (\<lambda>off. base + int off) [0..<nat wd]"] assms(4-6)
    by (auto simp: touch_range_def)
  show "\<exists>m'. KnownMem_merge m m2 = Inr m' \<and> mem_ok m' \<and>
      known_set (known_ranges m') = known_set (known_ranges m) \<inter> known_set (known_ranges m2)"
    using assms(1-3) intersect_ranges_correct [of "known_ranges m" "top_addr m" "known_ranges m2"]
    by (auto simp: KnownMem_merge_def mem_ok_def)
qed

theorem known_mem_refines_set_witness:
  "\<exists>m'. touch_range 4 4 \<lparr>top_addr = 64, known_ranges = [(0, 4)]\<rparr> = Inr m' \<and> known_set (known_ranges m') = {0..<8}"
proof -
  have "mem_ok \<lparr>top_addr = 64, known_ranges = [(0, 4)]\<rparr>" "mem_ok \<lparr>top_addr = 64, known_ranges = [(2, 8)]\<rparr>"
    by (simp_all add: mem_ok_def)
  from known_mem_refines_set [OF this, of 4 4] obtain m' where
    m': "touch_range 4 4 \<lparr>top_addr = 64, known_ranges = [(0, 4)]\<rparr> = Inr m'" "known_set (known_ranges m') = known_set [(0, 4)] \<union> {4..<8}"
    by auto
  moreover have "known_set [(0, 4)] \<union> {4..<8} = {0..<8}" by (auto simp: known_set_def range_set_def)
  ultimately show ?thesis by auto
qed

section \<open>Choosing an address\<close>

text \<open>Rounding inwards.\<close>

lemma div_neg_upper: "b < 0 \<Longrightarrow> k \<le> x div b \<Longrightarrow> x \<le> b * k" for b :: int
proof -
  assume b: "b < 0" and k: "k \<le> x div b"
  have "b * (x div b) \<le> b * k" using b k by (simp add: mult_left_mono_neg)
  moreover have "x = b * (x div b) + x mod b" by simp
  moreover have "x mod b \<le> 0" using b by simp
  ultimately show ?thesis by linarith
qed

lemma div_neg_lower: "b < 0 \<Longrightarrow> (x + (b - 1)) div b \<le> k \<Longrightarrow> b * k < x" for b :: int
proof -
  assume b: "b < 0" and k: "(x + (b - 1)) div b \<le> k"
  let ?z = "x + (b - 1)"
  have "b * k \<le> b * (?z div b)" using b k by (simp add: mult_left_mono_neg)
  moreover have "?z = b * (?z div b) + ?z mod b" by simp
  moreover have "b < ?z mod b" using b by (rule neg_mod_bound)
  ultimately show ?thesis by linarith
qed

lemma div_pos_bounds: "0 < b \<Longrightarrow> k \<le> x div b \<Longrightarrow> b * k \<le> x" "0 < b \<Longrightarrow> (x + (b - 1)) div b \<le> k \<Longrightarrow> x \<le> b * k" for b :: int
proof -
  assume b: "0 < b"
  show "b * k \<le> x" if "k \<le> x div b"
  proof -
    have "b * k \<le> b * (x div b)" using b that by (simp add: mult_left_mono)
    moreover have "x = b * (x div b) + x mod b" by simp
    moreover have "0 \<le> x mod b" using b by simp
    ultimately show ?thesis by linarith
  qed
  show "x \<le> b * k" if "(x + (b - 1)) div b \<le> k"
  proof -
    let ?z = "x + (b - 1)"
    have "b * (?z div b) \<le> b * k" using b that by (simp add: mult_left_mono)
    moreover have "?z = b * (?z div b) + ?z mod b" by simp
    moreover have "?z mod b < b" using b by simp
    ultimately show ?thesis by linarith
  qed
qed

text \<open>Every number in a range of \<open>k\<close> gives an access inside the range of bytes.\<close>

lemma k_range_sound:
  assumes r: "k_range wd addr_align j0 minus_u k_min k_max (byte_lo, byte_top) = Some (k_lo, k_hi)"
    and k: "k_lo \<le> k" "k \<le> k_hi" and pos: "0 < addr_align" "0 < minus_u"
  shows "byte_lo \<le> addr_align * (j0 + k * minus_u)" and "addr_align * (j0 + k * minus_u) + wd \<le> byte_top"
    and "k_min \<le> k" and "k \<le> k_max"
proof -
  have c: "(byte_lo + addr_align - 1) div addr_align \<le> (byte_top - wd) div addr_align"
    and lo: "k_lo = max (((byte_lo + addr_align - 1) div addr_align - j0 + (minus_u - 1)) div minus_u) k_min"
    and hi: "k_hi = min (((byte_top - wd) div addr_align - j0) div minus_u) k_max"
    using r by (auto simp: k_range_def Let_def split: if_splits)
  show "k_min \<le> k" "k \<le> k_max" using lo hi k by linarith+
  have "minus_u * k \<le> (byte_top - wd) div addr_align - j0" using div_pos_bounds(1) [OF pos(2)] hi k(2) by simp
  then have "j0 + k * minus_u \<le> (byte_top - wd) div addr_align" by (simp add: mult.commute)
  then show "addr_align * (j0 + k * minus_u) + wd \<le> byte_top" using div_pos_bounds(1) [OF pos(1)] by fastforce
  have "(byte_lo + addr_align - 1) div addr_align - j0 \<le> minus_u * k" using div_pos_bounds(2) [OF pos(2)] lo k(1) by simp
  then have "(byte_lo + (addr_align - 1)) div addr_align \<le> j0 + k * minus_u" by (simp add: mult.commute add_diff_eq)
  then show "byte_lo \<le> addr_align * (j0 + k * minus_u)" by (rule div_pos_bounds(2) [OF pos(1)])
qed

text \<open>The solutions of the equation between the base address, the offset and the address.\<close>

lemma lsu_solution:
  fixes oa aa base g x y k :: int
  assumes g: "g = - oa * x + aa * y" and d: "g dvd oa" "g dvd aa" "g dvd base"
  shows "aa * (y * (base div g) + k * (oa div g)) = base + oa * (x * (base div g) + k * (aa div g))"
proof -
  obtain p q r where p: "oa = g * p" "aa = g * q" "base = g * r" using d by (auto elim!: dvdE)
  show ?thesis
  proof (cases "g = 0")
    case False
    have "g * r = (- oa * x + aa * y) * r" using g by simp
    then show ?thesis using p False by (simp add: algebra_simps)
  qed (use p in simp)
qed

lemma k_range_nonempty:
  "k_range wd addr_align j0 minus_u k_min k_max rng = Some (k_lo, k_hi) \<Longrightarrow> k_min \<le> k_max \<Longrightarrow> k_lo \<le> k_hi"
  by (auto simp: k_range_def Let_def split: if_splits prod.splits)

lemma set_map_filter: "y \<in> set (List.map_filter f xs) \<longleftrightarrow> (\<exists>x\<in>set xs. f x = Some y)"
  by (force simp: List.map_filter_def)

text \<open>What an address that is returned must satisfy.\<close>

definition lsu_target_ok :: "known_mem \<Rightarrow> bool \<Rightarrow> int \<Rightarrow> int \<times> int \<Rightarrow> int \<Rightarrow> int \<Rightarrow> int \<Rightarrow> int \<Rightarrow> bool" where
  "lsu_target_ok m loads_value base_addr offset_range offset_align wd addr_align addr \<longleftrightarrow>
     addr_align dvd addr \<and> offset_align dvd addr - base_addr \<and>
     fst offset_range \<le> addr - base_addr \<and> addr - base_addr \<le> snd offset_range \<and>
     0 \<le> addr \<and> addr + wd \<le> top_addr m \<and> (loads_value \<longrightarrow> {addr..<addr + wd} \<subseteq> known_set (known_ranges m))"

lemma byte_range_inside:
  assumes "mem_ok m" and "(byte_lo, byte_top) \<in> set (if loads then known_ranges m else [(0, top_addr m - 1)])"
    and "byte_lo \<le> addr" and "addr + wd \<le> byte_top"
  shows "0 \<le> addr" and "addr + wd \<le> top_addr m" and "loads \<longrightarrow> {addr..<addr + wd} \<subseteq> known_set (known_ranges m)"
proof -
  have b: "0 \<le> byte_lo \<and> byte_top \<le> top_addr m"
    using assms(1,2) ranges_ok_mem [of 0 "known_ranges m" "top_addr m" "(byte_lo, byte_top)"]
    by (auto simp: mem_ok_def split: if_splits)
  then show "0 \<le> addr" "addr + wd \<le> top_addr m" using assms(3,4) by linarith+
  show "loads \<longrightarrow> {addr..<addr + wd} \<subseteq> known_set (known_ranges m)"
    using assms(2-4) by (force simp: known_set_def range_set_def)
qed

lemma offset_inside:
  fixes oa aa g i0 v k o0 o1 :: int
  assumes pos: "0 < oa" "0 < v"
    and k: "(- o0 + oa * i0 + (- oa * v - 1)) div (- oa * v) \<le> k" "k \<le> (- o1 + oa * i0) div (- oa * v)"
  shows "o0 \<le> oa * (i0 + k * v)" and "oa * (i0 + k * v) \<le> o1"
proof -
  have n: "- oa * v < 0" using pos by (simp add: mult_pos_pos)
  have "- oa * v * k < - o0 + oa * i0" by (rule div_neg_lower [OF n k(1)])
  moreover have "- o1 + oa * i0 \<le> - oa * v * k" by (rule div_neg_upper [OF n k(2)])
  ultimately show "o0 \<le> oa * (i0 + k * v)" "oa * (i0 + k * v) \<le> o1" by (simp_all add: algebra_simps)
qed

text \<open>
  C16: If the calls of the random module return a member of the list and a number of the range they are
  given, choosing an address for a load or a store raises nothing, and an address it returns is
  aligned, is the base address plus an aligned offset in the range of the instruction, and has all bytes of the access in
  memory, known ones for a load.
\<close>

theorem pick_lsu_target_sound:
  assumes m: "mem_ok m" and o: "fst offset_range \<le> snd offset_range" and pos: "1 \<le> offset_align" "1 \<le> wd" "1 \<le> addr_align"
    and ch: "\<And>rs ws. rs \<noteq> [] \<Longrightarrow> choices rs ws \<in> set rs"
    and rr: "\<And>lo hi. lo < hi \<Longrightarrow> lo \<le> randrange lo hi \<and> randrange lo hi < hi"
  shows "\<exists>res. pick_lsu_target choices randrange m loads_value base_addr offset_range offset_align wd addr_align = Inr res \<and>
    (\<forall>addr. res = Some addr \<longrightarrow> lsu_target_ok m loads_value base_addr offset_range offset_align wd addr_align addr)"
proof -
  obtain g x y where e: "extended_euclidean_algorithm (- offset_align) addr_align = (g, x, y)" by (metis prod_cases3)
  have g: "g = - offset_align * x + addr_align * y" "0 < g" "g dvd offset_align" "g dvd addr_align"
    using eea_correct [OF e] pos by (auto simp: gcd_pos_int)
  let ?mu = "offset_align div g" and ?v = "addr_align div g" and ?i0 = "x * (base_addr div g)" and ?j0 = "y * (base_addr div g)"
  have mu: "0 < ?mu" "0 < ?v" using g pos by (auto simp: pos_imp_zdiv_pos_iff zdvd_imp_le)
  let ?bv = "- offset_align * ?v"
  let ?kmax = "(- snd offset_range + offset_align * ?i0) div ?bv"
  let ?kmin = "(- fst offset_range + offset_align * ?i0 + (?bv - 1)) div ?bv"
  let ?bytes = "if loads_value then known_ranges m else [(0, top_addr m - 1)]"
  let ?ks = "List.map_filter (k_range wd addr_align ?j0 ?mu ?kmin ?kmax) ?bytes"
  let ?ws = "map (\<lambda>(k_lo, k_hi). k_hi - k_lo + 1) ?ks"
  obtain k_lo k_hi where c: "choices ?ks ?ws = (k_lo, k_hi)" by fastforce
  let ?k = "randrange k_lo (k_hi + 1)"
  have eqn: "addr_align * (?j0 + k * ?mu) = base_addr + offset_align * (?i0 + k * ?v)" if "g dvd base_addr" for k
    by (rule lsu_solution [OF g(1,3,4) that])
  have pick: "pick_lsu_target choices randrange m loads_value base_addr offset_range offset_align wd addr_align =
      (if base_addr mod g \<noteq> 0 \<or> ?kmax < ?kmin \<or> ?ks = [] then Inr None else Inr (Some (addr_align * (?j0 + ?k * ?mu))))"
    unfolding pick_lsu_target_def e Let_def prod.case c
    using o pos g(1,2) mu eqn by (auto simp: require_def py_bool_def)
  show ?thesis
  proof (cases "base_addr mod g \<noteq> 0 \<or> ?kmax < ?kmin \<or> ?ks = []")
    case True
    then show ?thesis using pick by simp
  next
    case False
    then have "choices ?ks ?ws \<in> set ?ks" using ch by blast
    then obtain bl bt where r: "(bl, bt) \<in> set ?bytes" "k_range wd addr_align ?j0 ?mu ?kmin ?kmax (bl, bt) = Some (k_lo, k_hi)"
      unfolding c set_map_filter by auto
    have "k_lo \<le> k_hi" using k_range_nonempty [OF r(2)] False by linarith
    then have k: "k_lo \<le> ?k" "?k \<le> k_hi" using rr [of k_lo "k_hi + 1"] by linarith+
    have aa: "0 < addr_align" "0 < offset_align" using pos by simp_all
    note ks = k_range_sound [OF r(2) k aa(1) mu(1)]
    let ?addr = "addr_align * (?j0 + ?k * ?mu)"
    have d: "?addr - base_addr = offset_align * (?i0 + ?k * ?v)" 
      using eqn [OF mod_0_imp_dvd, of ?k] False by linarith
    have "lsu_target_ok m loads_value base_addr offset_range offset_align wd addr_align ?addr"
      unfolding lsu_target_ok_def d
      by (intro conjI dvd_triv_left offset_inside [OF aa(2) mu(2) ks(3,4)] byte_range_inside [OF m r(1) ks(1,2)])
    then show ?thesis using pick False by auto
  qed
qed

theorem pick_lsu_target_sound_witness:
  "pick_lsu_target (\<lambda>rs ws. hd rs) (\<lambda>lo hi. lo) \<lparr>top_addr = 64, known_ranges = [(0, 16)]\<rparr> True 0 (0, 12) 4 4 4 = Inr (Some 4) \<and>
    lsu_target_ok \<lparr>top_addr = 64, known_ranges = [(0, 16)]\<rparr> True 0 (0, 12) 4 4 4 4"
proof -
  have "pick_lsu_target (\<lambda>rs ws. hd rs) (\<lambda>lo hi. lo) \<lparr>top_addr = 64, known_ranges = [(0, 16)]\<rparr> True 0 (0, 12) 4 4 4 = Inr (Some 4)"
    by code_simp
  then show ?thesis
    using pick_lsu_target_sound [of "\<lparr>top_addr = 64, known_ranges = [(0, 16)]\<rparr>" "(0, 12)" 4 4 4 "\<lambda>rs ws. hd rs" "\<lambda>lo hi. lo" True 0]
    by (simp add: mem_ok_def)
qed

text \<open>
  The search is not complete.  The lowest offsets of the range are never used, because the bound \<^verbatim>\<open>k_min\<close> is
  rounded for a positive divisor and the divisor is negative; and a store never uses the last address,
  because the range of all memory ends at \<^verbatim>\<open>top_addr - 1\<close> where the ends of ranges are exclusive.
\<close>

lemma eea_4_4: "extended_euclidean_algorithm (- 4) 4 = (4, 0, 1)"
  by code_simp

lemma pick_misses_low_offset:
  "pick_lsu_target choices randrange \<lparr>top_addr = 64, known_ranges = [(0, 64)]\<rparr> True 0 (0, 0) 4 4 4 = Inr None"
  "lsu_target_ok \<lparr>top_addr = 64, known_ranges = [(0, 64)]\<rparr> True 0 (0, 0) 4 4 4 0"
  by (auto simp: pick_lsu_target_def eea_4_4 py_bool_def lsu_target_ok_def known_set_def range_set_def)

lemma pick_misses_last_address:
  "pick_lsu_target choices randrange \<lparr>top_addr = 4, known_ranges = []\<rparr> False (- 16) (0, 16) 4 4 4 = Inr None"
  "lsu_target_ok \<lparr>top_addr = 4, known_ranges = []\<rparr> False (- 16) (0, 16) 4 4 4 0"
  by (simp_all add: pick_lsu_target_def eea_4_4 py_bool_def lsu_target_ok_def k_range_def List.map_filter_def)

end
