(* ===== verification/Lc_State.thy ===== *)
theory Lc_State
  imports Yaml Py_Numbers
begin

text \<open>
  The generator of the life-cycle state encoding, \<^verbatim>\<open>util/design/lib/LcStEnc.py\<close>, with the functions it uses of
  \<^verbatim>\<open>util/design/lib/common.py\<close>.  A string of the digits 0 and 1 is a list of Booleans with the first digit first.
  Python's random module is an argument: \<open>getrandbits i\<close> and \<open>choice i\<close> are the results of the calls in
  attempt number \<open>i\<close>, and \<open>token_bits i\<close> is what is drawn for token number \<open>i\<close>.  The hash
  \<^verbatim>\<open>cSHAKE128\<close> of package \<^verbatim>\<open>Crypto\<close> is an argument too: it takes the data, the customisation and
  the number of bytes to read.  The log and the histogram of distances, which is only reported, are left out.
\<close>

section \<open>Shared functions\<close>

type_synonym bitstr = "bool list"

definition bits_val :: "bitstr \<Rightarrow> nat" where
  "bits_val w = horner_sum of_bool 2 (rev w)"

text \<open>\<^verbatim>\<open>format(k, '0nb')\<close>.\<close>

fun bin_digits :: "nat \<Rightarrow> bitstr" where
  "bin_digits k = (if k < 2 then [k = 1] else bin_digits (k div 2) @ [odd k])"

declare bin_digits.simps [simp del]

definition fmt_bits :: "nat \<Rightarrow> nat \<Rightarrow> bitstr" where
  "fmt_bits n k = (let ds = bin_digits k in replicate (n - length ds) False @ ds)"

definition common_check_int :: "yaml \<Rightarrow> int result" where
  "common_check_int x =
     (case x of
        YInt n \<Rightarrow> Inr n
      | YBool b \<Rightarrow> Inr (py_int b)
      | YStr s \<Rightarrow> if s \<noteq> [] \<and> list_all is_digit s then Inr (digits_val s) else Inl RuntimeError
      | _ \<Rightarrow> Inl AttributeError)"

text \<open>The number of ones in the binary form of a number.\<close>

fun bin_ones :: "nat \<Rightarrow> nat" where
  "bin_ones n = (if n = 0 then 0 else n mod 2 + bin_ones (n div 2))"

declare bin_ones.simps [simp del]

definition get_hd :: "bitstr \<Rightarrow> bitstr \<Rightarrow> nat result" where
  "get_hd word1 word2 =
     (if length word1 \<noteq> length word2 then Inl RuntimeError
      else if word1 = [] then Inl ValueError
      else Inr (bin_ones (bits_val word1 XOR bits_val word2)))"

record lc_secded_cfg =
  sc_data_width :: int
  sc_ecc_width :: int
  sc_ecc_matrix :: "int list list"

fun xor_fanin :: "bitstr \<Rightarrow> int \<Rightarrow> bool \<Rightarrow> int list \<Rightarrow> bool result" where
  "xor_fanin codeword msb b [] = Inr b"
| "xor_fanin codeword msb b (k # ks) = bindR (py_getitem codeword (msb - k)) (\<lambda>c. xor_fanin codeword msb (b \<noteq> c) ks)"

definition syndrome_bit :: "lc_secded_cfg \<Rightarrow> bitstr \<Rightarrow> nat \<times> int list \<Rightarrow> bool result" where
  "syndrome_bit cfg codeword row =
     (case row of (j, fanin) \<Rightarrow>
        bindR (py_getitem codeword (sc_ecc_width cfg - 1 - int j)) (\<lambda>b.
        if int j \<ge> sc_ecc_width cfg then Inl IndexError
        else xor_fanin codeword (sc_ecc_width cfg + sc_data_width cfg - 1) b fanin))"

definition is_valid_codeword :: "lc_secded_cfg \<Rightarrow> bitstr \<Rightarrow> bool result" where
  "is_valid_codeword cfg codeword =
     (if int (length codeword) \<noteq> sc_data_width cfg + sc_ecc_width cfg then Inl RuntimeError
      else bindR (mapR (syndrome_bit cfg codeword) (enumerate 0 (sc_ecc_matrix cfg))) (\<lambda>syndrome.
           Inr (list_all Not syndrome)))"

fun ecc_rows :: "int \<Rightarrow> nat \<Rightarrow> bitstr \<Rightarrow> int list list \<Rightarrow> bitstr result" where
  "ecc_rows data_width j codeword [] = Inr codeword"
| "ecc_rows data_width j codeword (fanin # rows) =
     bindR (xor_fanin codeword (data_width + int j - 1) False fanin) (\<lambda>b. ecc_rows data_width (j + 1) (b # codeword) rows)"

definition ecc_encode :: "lc_secded_cfg \<Rightarrow> bitstr \<Rightarrow> bitstr result" where
  "ecc_encode cfg dataword =
     (if int (length dataword) \<noteq> sc_data_width cfg then Inl RuntimeError
      else ecc_rows (sc_data_width cfg) 0 dataword (sc_ecc_matrix cfg))"

fun scatter_bits :: "bitstr \<Rightarrow> bitstr \<Rightarrow> bitstr result" where
  "scatter_bits [] bs = Inr []"
| "scatter_bits (True # m) bs = bindR (scatter_bits m bs) (\<lambda>w. Inr (True # w))"
| "scatter_bits (False # m) [] = Inl IndexError"
| "scatter_bits (False # m) (b # bs) = bindR (scatter_bits m bs) (\<lambda>w. Inr (b # w))"

section \<open>The configuration\<close>

record lc_config =
  lc_secded :: lc_secded_cfg
  lc_min_hw :: int
  lc_max_hw :: int
  lc_min_hd :: int

definition check_matrix_entry :: "int \<Rightarrow> yaml \<Rightarrow> int result" where
  "check_matrix_entry total_width e =
     bindR (common_check_int e) (\<lambda>e. if e < 0 \<or> e \<ge> total_width then Inl RuntimeError else Inr e)"

definition raw_list :: "yaml \<Rightarrow> yaml list result" where
  "raw_list y = (case y of YList l \<Rightarrow> Inr l | _ \<Rightarrow> Inl TypeError)"

definition get_or_default :: "yaml_dict \<Rightarrow> string \<Rightarrow> yaml \<Rightarrow> yaml" where
  "get_or_default d k v = (case ydict_get d k of Some x \<Rightarrow> x | None \<Rightarrow> v)"

definition validate_secded :: "yaml_dict \<Rightarrow> lc_secded_cfg result" where
  "validate_secded d =
     bindR (common_check_int (get_or_default d ''data_width'' (YInt 0))) (\<lambda>data_width.
     bindR (common_check_int (get_or_default d ''ecc_width'' (YInt 0))) (\<lambda>ecc_width.
     if data_width mod 8 \<noteq> 0 then Inl RuntimeError
     else
       bindR (raw_list (get_or_default d ''ecc_matrix'' (YList [YList []]))) (\<lambda>rows.
       if ecc_width \<noteq> int (length rows) then Inl RuntimeError
       else
         bindR (mapR (\<lambda>row. bindR (raw_list row) (mapR (check_matrix_entry (data_width + ecc_width)))) rows) (\<lambda>matrix.
         Inr \<lparr>sc_data_width = data_width, sc_ecc_width = ecc_width, sc_ecc_matrix = matrix\<rparr>))))"

definition validate_constraints :: "yaml_dict \<Rightarrow> lc_secded_cfg \<Rightarrow> lc_config result" where
  "validate_constraints d sc =
     bindR (common_check_int (get_or_default d ''min_hw'' (YInt 0))) (\<lambda>min_hw.
     bindR (common_check_int (get_or_default d ''max_hw'' (YInt 0))) (\<lambda>max_hw.
     bindR (common_check_int (get_or_default d ''min_hd'' (YInt 0))) (\<lambda>min_hd.
     let total_width = sc_data_width sc + sc_ecc_width sc
     in if min_hw \<ge> total_width \<or> max_hw > total_width \<or> min_hw \<ge> max_hw then Inl RuntimeError
        else if max_hw - min_hw + 1 < min_hd then Inl RuntimeError
        else Inr \<lparr>lc_secded = sc, lc_min_hw = min_hw, lc_max_hw = max_hw, lc_min_hd = min_hd\<rparr>)))"

definition random_or_hexvalue :: "nat \<Rightarrow> yaml_dict \<Rightarrow> string \<Rightarrow> int \<Rightarrow> int result" where
  "random_or_hexvalue rnd d key num_bits =
     (case get_or_default d key (YStr ''0x0'') of
        YStr s \<Rightarrow>
          if s = ''<random>'' then (if num_bits < 0 then Inl ValueError else Inr (int rnd))
          else (case py_int16 s of
                  None \<Rightarrow> Inl RuntimeError
                | Some v \<Rightarrow> if v \<ge> (if num_bits < 0 then 1 else 2 ^ nat num_bits) then Inl RuntimeError else Inr v)
      | _ \<Rightarrow> Inl TypeError)"

definition to_bytes_big :: "int \<Rightarrow> int \<Rightarrow> nat list result" where
  "to_bytes_big v num_bytes =
     (if num_bytes < 0 then Inl ValueError
      else if v < 0 \<or> v \<ge> 256 ^ nat num_bytes then Inl OverflowError
      else Inr (map (\<lambda>k. nat v div 256 ^ k mod 256) (rev [0..<nat num_bytes])))"

definition from_bytes_big :: "nat list \<Rightarrow> int" where
  "from_bytes_big bs = int (foldl (\<lambda>v b. 256 * v + b) 0 bs)"

type_synonym hash_fun = "nat list \<Rightarrow> string \<Rightarrow> nat \<Rightarrow> nat list"

text \<open>A token with its value, and the hashed token.\<close>

definition hash_token :: "hash_fun \<Rightarrow> (nat \<Rightarrow> nat) \<Rightarrow> int \<Rightarrow> nat \<times> yaml \<Rightarrow> ((string \<times> int) \<times> (string \<times> int)) result" where
  "hash_token cSHAKE128 token_bits token_size it =
     (case it of
        (i, YDict token) \<Rightarrow>
          bindR (random_or_hexvalue (token_bits i) token ''value'' token_size) (\<lambda>v.
          bindR (ydict_item token ''name'') (\<lambda>name.
          case name of
            YStr name \<Rightarrow>
              bindR (to_bytes_big v (token_size div 8)) (\<lambda>data.
              Inr ((name, v), (name @ ''Hashed'', from_bytes_big (cSHAKE128 data ''LC_CTRL'' (nat (token_size div 8))))))
          | _ \<Rightarrow> Inl TypeError))
      | _ \<Rightarrow> Inl AttributeError)"

text \<open>What iterating over the tokens and appending a list to them does.\<close>

definition tokens_list :: "yaml \<Rightarrow> yaml list result" where
  "tokens_list y =
     (case y of
        YList l \<Rightarrow> Inr l
      | YStr s \<Rightarrow> Inl (if s = [] then TypeError else AttributeError)
      | YDict d \<Rightarrow> Inl (if d = [] then TypeError else AttributeError)
      | _ \<Rightarrow> Inl TypeError)"

text \<open>The message for a size that is not a multiple of 8 uses a variable that is not set yet.\<close>

definition validate_tokens :: "hash_fun \<Rightarrow> (nat \<Rightarrow> nat) \<Rightarrow> yaml_dict \<Rightarrow> (string \<times> int) list result" where
  "validate_tokens cSHAKE128 token_bits d =
     bindR (common_check_int (get_or_default d ''token_size'' (YInt 128))) (\<lambda>token_size.
     if token_size mod 8 \<noteq> 0 then Inl UnboundLocalError
     else bindR (tokens_list (ydict_get_or_None d ''tokens'')) (\<lambda>tokens.
          bindR (mapR (hash_token cSHAKE128 token_bits token_size) (enumerate 0 tokens)) (\<lambda>ts.
          Inr (map fst ts @ map snd ts))))"

definition LC_STATE_TYPES :: "(string \<times> string) list" where
  "LC_STATE_TYPES = [(''lc_state'', ''AB''), (''lc_cnt'', ''CD''), (''lc_id_state'', ''EF'')]"

text \<open>The legal values of entry number \<open>j\<close>: 0, or one of the two letters of the type with the number.\<close>

definition legal_values :: "string \<Rightarrow> nat \<Rightarrow> string list" where
  "legal_values letters j = [''0''] @ map (\<lambda>c. c # str_of_nat j) letters"

text \<open>The declarations of a type: its states with their entries.\<close>

type_synonym lc_states = "(string \<times> string list) list"

definition check_state :: "string \<Rightarrow> nat \<Rightarrow> string list \<Rightarrow> unit result" where
  "check_state letters num_words es =
     (if length es \<noteq> num_words then Inl RuntimeError
      else if list_all (\<lambda>(j, e). e \<in> set (legal_values letters j)) (enumerate 0 es) then Inr () else Inl RuntimeError)"

text \<open>Without a state the number of words is not set, and looking it up later raises \<^verbatim>\<open>KeyError\<close>.\<close>

definition validate_states :: "string \<Rightarrow> lc_states \<Rightarrow> nat option result" where
  "validate_states letters states =
     (case states of
        [] \<Rightarrow> Inr None
      | (_, es) # _ \<Rightarrow> bindR (mapR (\<lambda>(_, es'). check_state letters (length es) es') states) (\<lambda>_. Inr (Some (length es))))"

section \<open>Generation of the words\<close>

definition is_incremental_codeword :: "bitstr \<Rightarrow> bitstr \<Rightarrow> bool result" where
  "is_incremental_codeword word1 word2 =
     (if length word1 \<noteq> length word2 then Inl RuntimeError
      else if word1 = [] then Inl ValueError
      else Inr ((bits_val word1 AND bits_val word2) = bits_val word1))"

definition count_ones :: "bitstr \<Rightarrow> int" where
  "count_ones w = int (count_list w True)"

text \<open>The loops over existing words: the distance to every word is large enough.\<close>

fun far_from :: "int \<Rightarrow> bitstr \<Rightarrow> bitstr list \<Rightarrow> bool result" where
  "far_from min_hd cand [] = Inr True"
| "far_from min_hd cand (w # ws) = bindR (get_hd cand w) (\<lambda>d. if int d < min_hd then Inr False else far_from min_hd cand ws)"

definition incr_candidate :: "lc_config \<Rightarrow> bitstr \<Rightarrow> bitstr list \<Rightarrow> bitstr \<Rightarrow> nat \<Rightarrow> bitstr list result" where
  "incr_candidate cfg base_ecc existing_words base_data k =
     bindR (scatter_bits base_data (fmt_bits (count_list base_data False) k)) (\<lambda>incr_cand.
     bindR (ecc_encode (lc_secded cfg) incr_cand) (\<lambda>incr_cand_ecc.
     bindR (is_incremental_codeword base_ecc incr_cand_ecc) (\<lambda>incremental.
     if \<not> incremental then Inr []
     else if count_ones incr_cand_ecc \<le> lc_max_hw cfg then
       bindR (far_from (lc_min_hd cfg) incr_cand_ecc (existing_words @ [base_ecc])) (\<lambda>ok.
       Inr (if ok then [incr_cand_ecc] else []))
     else Inr [])))"

definition get_incremental_codewords :: "lc_config \<Rightarrow> bitstr \<Rightarrow> bitstr list \<Rightarrow> bitstr list result" where
  "get_incremental_codewords cfg base_ecc existing_words =
     (let base_data = drop (nat (sc_ecc_width (lc_secded cfg))) base_ecc; free_bits = count_list base_data False
      in bindR (mapR (incr_candidate cfg base_ecc existing_words base_data) [1..<2 ^ free_bits]) (\<lambda>css. Inr (concat css)))"

text \<open>One attempt of \<^verbatim>\<open>_get_new_state_word_pair\<close>.\<close>

definition try_pair :: "lc_config \<Rightarrow> (nat \<Rightarrow> nat) \<Rightarrow> (nat \<Rightarrow> bitstr list \<Rightarrow> bitstr) \<Rightarrow> bitstr list \<Rightarrow> nat \<Rightarrow>
    (bitstr \<times> bitstr) option result" where
  "try_pair cfg getrandbits choice existing_words i =
     (if sc_data_width (lc_secded cfg) < 0 then Inl ValueError
      else
        bindR (ecc_encode (lc_secded cfg) (fmt_bits (nat (sc_data_width (lc_secded cfg))) (getrandbits i))) (\<lambda>base_cand_ecc.
        let pop_cnt = count_ones base_cand_ecc
        in if pop_cnt \<ge> lc_min_hw cfg \<and> pop_cnt \<le> lc_max_hw cfg then
             bindR (far_from (lc_min_hd cfg) base_cand_ecc existing_words) (\<lambda>ok.
             if \<not> ok then Inr None
             else bindR (get_incremental_codewords cfg base_cand_ecc existing_words) (\<lambda>cands.
                  if cands \<noteq> [] then Inr (Some (base_cand_ecc, choice i cands)) else Inr None))
           else Inr None))"

partial_function (option) get_new_state_word_pair ::
    "lc_config \<Rightarrow> (nat \<Rightarrow> nat) \<Rightarrow> (nat \<Rightarrow> bitstr list \<Rightarrow> bitstr) \<Rightarrow> bitstr list \<Rightarrow> nat \<Rightarrow> ((bitstr \<times> bitstr) \<times> nat) result option" where
  "get_new_state_word_pair cfg getrandbits choice existing_words i =
     (case try_pair cfg getrandbits choice existing_words i of
        Inl e \<Rightarrow> Some (Inl e)
      | Inr (Some pr) \<Rightarrow> Some (Inr (pr, i + 1))
      | Inr None \<Rightarrow> get_new_state_word_pair cfg getrandbits choice existing_words (i + 1))"

declare get_new_state_word_pair.simps [code]

text \<open>The words of one type: the pairs, all words so far, and the number of the next attempt.\<close>

fun generate_pairs :: "lc_config \<Rightarrow> (nat \<Rightarrow> nat) \<Rightarrow> (nat \<Rightarrow> bitstr list \<Rightarrow> bitstr) \<Rightarrow> nat \<Rightarrow> bitstr list \<Rightarrow> nat \<Rightarrow>
    ((bitstr \<times> bitstr) list \<times> bitstr list \<times> nat) result option" where
  "generate_pairs cfg getrandbits choice 0 existing_words i = Some (Inr ([], existing_words, i))"
| "generate_pairs cfg getrandbits choice (Suc n) existing_words i =
     Option.bind (get_new_state_word_pair cfg getrandbits choice existing_words i) (\<lambda>r.
     case r of
       Inl e \<Rightarrow> Some (Inl e)
     | Inr ((w1, w2), i') \<Rightarrow>
         map_option (map_sum id (\<lambda>(prs, rest). ((w1, w2) # prs, rest)))
           (generate_pairs cfg getrandbits choice n (existing_words @ [w1, w2]) i'))"

definition check_word :: "lc_config \<Rightarrow> bitstr list \<Rightarrow> nat \<Rightarrow> unit result" where
  "check_word cfg ws k =
     bindR (is_valid_codeword (lc_secded cfg) (ws ! k)) (\<lambda>valid.
     if \<not> valid then Inl RuntimeError
     else if count_ones (ws ! k) < lc_min_hw cfg \<or> count_ones (ws ! k) > lc_max_hw cfg then Inl RuntimeError
     else bindR (far_from (lc_min_hd cfg) (ws ! k) (drop (k + 1) ws)) (\<lambda>ok. if ok then Inr () else Inl RuntimeError))"

definition validate_words :: "lc_config \<Rightarrow> bitstr list \<Rightarrow> unit result" where
  "validate_words cfg ws = bindR (mapR (check_word cfg ws) [0..<length ws]) (\<lambda>_. Inr ())"

text \<open>
  The word pairs for all types, in the order of the types.  The histogram of distances, which is only
  reported, needs a first word.
\<close>

fun generate_types :: "lc_config \<Rightarrow> (nat \<Rightarrow> nat) \<Rightarrow> (nat \<Rightarrow> bitstr list \<Rightarrow> bitstr) \<Rightarrow> nat option list \<Rightarrow> bitstr list \<Rightarrow> nat \<Rightarrow>
    ((bitstr \<times> bitstr) list list \<times> bitstr list) result option" where
  "generate_types cfg getrandbits choice [] existing_words i = Some (Inr ([], existing_words))"
| "generate_types cfg getrandbits choice (None # ns) existing_words i = Some (Inl KeyError)"
| "generate_types cfg getrandbits choice (Some n # ns) existing_words i =
     Option.bind (generate_pairs cfg getrandbits choice n existing_words i) (\<lambda>r.
     case r of
       Inl e \<Rightarrow> Some (Inl e)
     | Inr (prs, existing_words', i') \<Rightarrow>
         map_option (map_sum id (\<lambda>(prss, ws). (prs # prss, ws))) (generate_types cfg getrandbits choice ns existing_words' i'))"

definition generate_words :: "lc_config \<Rightarrow> (nat \<Rightarrow> nat) \<Rightarrow> (nat \<Rightarrow> bitstr list \<Rightarrow> bitstr) \<Rightarrow> nat option list \<Rightarrow>
    (bitstr \<times> bitstr) list list result option" where
  "generate_words cfg getrandbits choice ns =
     map_option (\<lambda>r.
       bindR r (\<lambda>(genwords, existing_words).
       bindR (validate_words cfg existing_words) (\<lambda>_.
       if existing_words = [] then Inl IndexError else Inr genwords)))
     (generate_types cfg getrandbits choice ns [] 0)"

section \<open>Encoding of a state\<close>

text \<open>The index of an entry among the legal values, and its word without the check bits.\<close>

definition entry_word :: "lc_config \<Rightarrow> string \<Rightarrow> (bitstr \<times> bitstr) list \<Rightarrow> nat \<times> string \<Rightarrow> nat result" where
  "entry_word cfg letters genwords je =
     (case je of (j, e) \<Rightarrow>
        (case map_of (zip (legal_values letters j) [0..<Suc (length letters)]) e of
           None \<Rightarrow> Inl KeyError
         | Some idx \<Rightarrow>
             if idx = 0 then Inr 0
             else bindR (py_getitem genwords (int j)) (\<lambda>(w1, w2).
                  let word = drop (nat (sc_ecc_width (lc_secded cfg))) (if idx = 1 then w1 else w2)
                  in if word = [] then Inl ValueError else Inr (bits_val word))))"

record lc_enc =
  le_config :: lc_config
  le_states :: "(string \<times> lc_states) list"
  le_tokens :: "(string \<times> int) list"
  le_genwords :: "(string \<times> (bitstr \<times> bitstr) list) list"

definition LcStEnc_encode :: "lc_enc \<Rightarrow> string \<Rightarrow> string \<Rightarrow> nat result" where
  "LcStEnc_encode enc name state =
     (case map_of LC_STATE_TYPES name of
        None \<Rightarrow> Inl RuntimeError
      | Some letters \<Rightarrow>
          (case map_of (le_states enc) name of
             None \<Rightarrow> Inl KeyError
           | Some states \<Rightarrow>
               (case map_of states state of
                  None \<Rightarrow> Inl RuntimeError
                | Some es \<Rightarrow>
                    bindR (mapR (entry_word (le_config enc) letters (the (map_of (le_genwords enc) name))) (enumerate 0 es)) (\<lambda>ws.
                    Inr (sum_list (map (\<lambda>(k, w). push_bit (nat (sc_data_width (lc_secded (le_config enc))) * k) w)
                                     (enumerate 0 ws)))))))"

text \<open>
  The constructor on the parsed configuration and the declarations of the states.  The seed only seeds
  the random module.
\<close>

definition LcStEnc_init :: "hash_fun \<Rightarrow> (nat \<Rightarrow> nat) \<Rightarrow> yaml_dict \<Rightarrow> (string \<times> lc_states) list \<Rightarrow> (nat \<Rightarrow> nat) \<Rightarrow>
    (nat \<Rightarrow> bitstr list \<Rightarrow> bitstr) \<Rightarrow> lc_enc result option" where
  "LcStEnc_init cSHAKE128 token_bits d states getrandbits choice =
     (case
        (if ydict_get d ''seed'' = None \<or> ydict_get d ''secded'' = None \<or> ydict_get d ''tokens'' = None then Inl RuntimeError
         else if \<not> list_all (\<lambda>(typ, _). map_of states typ \<noteq> None) LC_STATE_TYPES then Inl RuntimeError
         else
           bindR (common_check_int (ydict_get_or_None d ''seed'')) (\<lambda>seed.
           bindR (case ydict_get_or_None d ''secded'' of YDict sd \<Rightarrow> validate_secded sd | _ \<Rightarrow> Inl AttributeError) (\<lambda>sc.
           bindR (validate_constraints d sc) (\<lambda>cfg.
           bindR (validate_tokens cSHAKE128 token_bits d) (\<lambda>tokens.
           bindR (mapR (\<lambda>(typ, letters). validate_states letters (the (map_of states typ))) LC_STATE_TYPES) (\<lambda>ns.
           Inr (cfg, tokens, ns))))))) of
        Inl e \<Rightarrow> Some (Inl e)
      | Inr (cfg, tokens, ns) \<Rightarrow>
          map_option (\<lambda>r. bindR r (\<lambda>gw. Inr \<lparr>le_config = cfg, le_states = states, le_tokens = tokens,
                         le_genwords = zip (map fst LC_STATE_TYPES) gw\<rparr>))
            (generate_words cfg getrandbits choice ns))"

section \<open>Bit strings\<close>

lemma rev_nth_bit: "bit (bits_val w) n \<longleftrightarrow> n < length w \<and> rev w ! n"
  by (simp add: bits_val_def bit_horner_sum_bit_iff)

lemma bin_ones_horner: "bin_ones (horner_sum of_bool 2 bs) = count_list bs True"
proof (induction bs)
  case (Cons b bs)
  have "bin_ones (of_bool b + 2 * n) = of_bool b + bin_ones n" for n
  proof (cases "of_bool b + 2 * n = 0")
    case False
    then show ?thesis by (subst bin_ones.simps) (auto simp: bin_ones.simps [of 0])
  qed (simp add: bin_ones.simps)
  then show ?case using Cons by simp
qed (simp add: bin_ones.simps)

text \<open>The Hamming distance of two words.\<close>

definition hamming :: "bitstr \<Rightarrow> bitstr \<Rightarrow> nat" where
  "hamming w1 w2 = length (filter (\<lambda>p. fst p \<noteq> snd p) (zip w1 w2))"

lemma count_list_True: "count_list bs True = length (filter id bs)"
  by (induction bs) auto

lemma get_hd_eq: "length w1 = length w2 \<Longrightarrow> w1 \<noteq> [] \<Longrightarrow> get_hd w1 w2 = Inr (hamming w1 w2)"
proof -
  assume l: "length w1 = length w2" "w1 \<noteq> []"
  let ?d = "map (\<lambda>(a, b). a \<noteq> b) (zip w1 w2)"
  have "bits_val w1 XOR bits_val w2 = horner_sum of_bool 2 (rev ?d)"
    using l(1) by (intro bit_eqI) (auto simp: bit_xor_iff rev_nth_bit bit_horner_sum_bit_iff rev_nth)
  then have "bin_ones (bits_val w1 XOR bits_val w2) = count_list (rev ?d) True" by (simp add: bin_ones_horner)
  also have "\<dots> = hamming w1 w2" 
    by (simp add: count_list_True hamming_def rev_filter [symmetric] filter_map comp_def case_prod_beta)
  finally show ?thesis using l by (simp add: get_hd_def)
qed

lemma incremental_eq:
  assumes "length w1 = length w2" and "w1 \<noteq> []"
  shows "is_incremental_codeword w1 w2 = Inr (list_all2 (\<longrightarrow>) w1 w2)"
proof -
  have "(bits_val w1 AND bits_val w2 = bits_val w1) \<longleftrightarrow> (\<forall>n<length w1. rev w1 ! n \<longrightarrow> rev w2 ! n)"
    using assms(1) by (auto simp: bit_eq_iff [of "_ AND _"] bit_and_iff rev_nth_bit)
  also have "\<dots> \<longleftrightarrow> list_all2 (\<longrightarrow>) (rev w1) (rev w2)" using assms by (simp add: list_all2_conv_all_nth)
  finally show ?thesis using assms by (simp add: is_incremental_codeword_def list_all2_rev)
qed

section \<open>Code words\<close>

text \<open>
  A configuration in which every check bit depends on data bits and earlier check bits only.  The tool
  does not check this.
\<close>

definition secded_ok :: "lc_secded_cfg \<Rightarrow> bool" where
  "secded_ok cfg \<longleftrightarrow> 0 < sc_data_width cfg \<and> sc_ecc_width cfg = int (length (sc_ecc_matrix cfg)) \<and>
     (\<forall>j<length (sc_ecc_matrix cfg). \<forall>k\<in>set (sc_ecc_matrix cfg ! j). 0 \<le> k \<and> k < sc_data_width cfg + int j)"

definition parity :: "bitstr \<Rightarrow> int list \<Rightarrow> bool" where
  "parity bs ks = foldl (\<lambda>b k. b \<noteq> bs ! nat k) False ks"

lemma foldl_xor: "foldl (\<lambda>b k. b \<noteq> f k) b ks = (b \<noteq> foldl (\<lambda>b k. b \<noteq> f k) False ks)"
  by (induction ks rule: rev_induct) auto

lemma parity_start: "foldl (\<lambda>b k. b \<noteq> bs ! nat k) b ks = (b \<noteq> parity bs ks)"
  unfolding parity_def by (rule foldl_xor)

lemma parity_append: "\<forall>k\<in>set ks. 0 \<le> k \<and> k < int (length bs) \<Longrightarrow> parity (bs @ cs) ks = parity bs ks"
proof (induction ks rule: rev_induct)
  case (snoc k ks)
  then have "(bs @ cs) ! nat k = bs ! nat k" by (simp add: nth_append nat_less_iff)
  then show ?case using snoc by (simp add: parity_def)
qed (simp add: parity_def)

lemma parity_Cons: "parity bs (k # ks) = (bs ! nat k \<noteq> parity bs ks)"
  using parity_start [of bs "bs ! nat k" ks] by (simp add: parity_def [of bs "k # ks"])

lemma nth_from_end: "0 \<le> k \<Longrightarrow> k < int (length cw) \<Longrightarrow> cw ! nat (int (length cw) - 1 - k) = rev cw ! nat k"
proof -
  assume k: "0 \<le> k" "k < int (length cw)"
  then have "nat (int (length cw) - 1 - k) = length cw - Suc (nat k)" "nat k < length cw" by linarith+
  then show ?thesis by (simp add: rev_nth)
qed

lemma xor_fanin_eq:
  assumes "\<forall>k\<in>set ks. 0 \<le> k \<and> k < int (length cw)"
  shows "xor_fanin cw (int (length cw) - 1) b ks = Inr (b \<noteq> parity (rev cw) ks)"
  using assms
proof (induction ks arbitrary: b)
  case (Cons k ks)
  have "py_getitem cw (int (length cw) - 1 - k) = Inr (cw ! nat (int (length cw) - 1 - k))"
    using Cons.prems by simp
  moreover have "cw ! nat (int (length cw) - 1 - k) = rev cw ! nat k" using Cons.prems by (simp add: nth_from_end)
  ultimately show ?case using Cons by (auto simp: parity_Cons)
qed (simp add: parity_def)

lemma ecc_rows_eq:
  assumes "length cw = nat dw + j" and "0 \<le> dw" and "\<forall>t<length rows. \<forall>k\<in>set (rows ! t). 0 \<le> k \<and> k < dw + int j + int t"
  shows "\<exists>ps. ecc_rows dw j cw rows = Inr (rev ps @ cw) \<and> length ps = length rows \<and>
    (\<forall>t<length rows. ps ! t = parity (rev cw @ ps) (rows ! t))"
  using assms
proof (induction rows arbitrary: j cw)
  case (Cons row rows)
  define b where "b = parity (rev cw) row"
  have r0: "\<forall>k\<in>set row. 0 \<le> k \<and> k < int (length cw)" using Cons.prems by force
  have "xor_fanin cw (dw + int j - 1) False row = Inr b"
    using xor_fanin_eq [OF r0, of False] Cons.prems(1,2) by (simp add: b_def)
  moreover obtain ps where ps: "ecc_rows dw (j + 1) (b # cw) rows = Inr (rev ps @ b # cw)" "length ps = length rows"
      "\<forall>t<length rows. ps ! t = parity (rev (b # cw) @ ps) (rows ! t)"
  proof -
    have "0 \<le> k \<and> k < dw + int (j + 1) + int t" if "t < length rows" "k \<in> set (rows ! t)" for t k
      using Cons.prems(3) [rule_format, of "Suc t" k] that by simp
    then have "\<forall>t<length rows. \<forall>k\<in>set (rows ! t). 0 \<le> k \<and> k < dw + int (j + 1) + int t" by blast
    from Cons.IH [OF _ Cons.prems(2) this, of "b # cw"] Cons.prems(1) show ?thesis
      by (elim meta_impE exE conjE) (simp, rule that)
  qed
  moreover have "parity (rev cw @ b # ps) row = b" using parity_append r0 by (simp add: b_def)
  ultimately show ?case
    by (intro exI [of _ "b # ps"]) (simp add: All_less_Suc2)
qed simp

lemma ecc_encode_valid:
  assumes ok: "secded_ok cfg" and l: "int (length w) = sc_data_width cfg"
  shows "\<exists>ps. ecc_encode cfg w = Inr (rev ps @ w) \<and> length ps = length (sc_ecc_matrix cfg) \<and> is_valid_codeword cfg (rev ps @ w) = Inr True"
proof -
  let ?m = "sc_ecc_matrix cfg"
  obtain ps where ps: "ecc_rows (sc_data_width cfg) 0 w ?m = Inr (rev ps @ w)" "length ps = length ?m"
      "\<forall>t<length ?m. ps ! t = parity (rev w @ ps) (?m ! t)"
  proof -
    have "length w = nat (sc_data_width cfg)" using l by linarith
    then show ?thesis using ecc_rows_eq [of w "sc_data_width cfg" 0 ?m] ok that by (auto simp: secded_ok_def)
  qed
  let ?cw = "rev ps @ w"
  have len: "int (length ?cw) = sc_data_width cfg + sc_ecc_width cfg" using ps(2) l ok by (simp add: secded_ok_def)
  have "syndrome_bit cfg ?cw (j, ?m ! j) = Inr False" if j: "j < length ?m" for j
  proof -
    have ew: "sc_ecc_width cfg = int (length ?m)" using ok by (simp add: secded_ok_def)
    have "py_getitem ?cw (sc_ecc_width cfg - 1 - int j) = Inr (ps ! j)"
      using j ps(2) ew nth_from_end [of "int j" "rev ps"] by (simp add: nth_append nat_less_iff)
    moreover have "\<forall>k\<in>set (?m ! j). 0 \<le> k \<and> k < int (length ?cw)" using ok j len by (fastforce simp: secded_ok_def)
    then have "xor_fanin ?cw (sc_ecc_width cfg + sc_data_width cfg - 1) b (?m ! j) = Inr (b \<noteq> parity (rev ?cw) (?m ! j))" for b
      using xor_fanin_eq [of "?m ! j" ?cw b] len by (simp add: add.commute)
    ultimately show ?thesis using j ew ps(3) by (simp add: syndrome_bit_def)
  qed
  then have "mapR (syndrome_bit cfg ?cw) (enumerate 0 ?m) = Inr (map (\<lambda>_. False) (enumerate 0 ?m))"
    by (auto simp: mapR_Inr_iff nth_enumerate_eq)
  then have "is_valid_codeword cfg ?cw = Inr True" using len by (simp add: is_valid_codeword_def list_all_iff)
  then show ?thesis using ps l by (auto simp: ecc_encode_def)
qed

section \<open>Attempts\<close>

definition config_ok :: "lc_config \<Rightarrow> bool" where
  "config_ok cfg \<longleftrightarrow> secded_ok (lc_secded cfg)"

abbreviation word_len :: "lc_config \<Rightarrow> nat" where
  "word_len cfg \<equiv> nat (sc_data_width (lc_secded cfg)) + length (sc_ecc_matrix (lc_secded cfg))"

text \<open>A word the tool may use: a code word of allowed weight.\<close>

definition word_ok :: "lc_config \<Rightarrow> bitstr \<Rightarrow> bool" where
  "word_ok cfg w \<longleftrightarrow> length w = word_len cfg \<and> is_valid_codeword (lc_secded cfg) w = Inr True \<and>
     lc_min_hw cfg \<le> count_ones w \<and> count_ones w \<le> lc_max_hw cfg"

definition far :: "lc_config \<Rightarrow> bitstr \<Rightarrow> bitstr \<Rightarrow> bool" where
  "far cfg v w \<longleftrightarrow> lc_min_hd cfg \<le> int (hamming v w)"

text \<open>All words are fit for use and any two of them have the minimal distance.\<close>

definition words_fine :: "lc_config \<Rightarrow> bitstr list \<Rightarrow> bool" where
  "words_fine cfg ws \<longleftrightarrow> list_all (word_ok cfg) ws \<and> sorted_wrt (far cfg) ws"

text \<open>A pair that may be added to the words: the second word only sets bits of the first.\<close>

definition good_pair :: "lc_config \<Rightarrow> bitstr list \<Rightarrow> bitstr \<times> bitstr \<Rightarrow> bool" where
  "good_pair cfg ws p \<longleftrightarrow> word_ok cfg (fst p) \<and> word_ok cfg (snd p) \<and> list_all2 (\<longrightarrow>) (fst p) (snd p) \<and>
     list_all (far cfg (fst p)) ws \<and> list_all (far cfg (snd p)) (ws @ [fst p])"

lemma far_from_eq: "\<forall>w\<in>set ws. length w = length v \<Longrightarrow> v \<noteq> [] \<Longrightarrow> far_from (lc_min_hd cfg) v ws = Inr (list_all (far cfg v) ws)"
  by (induction ws) (auto simp: get_hd_eq far_def)

lemma hamming_commute: "hamming v w = hamming w v"
proof (induction v arbitrary: w)
  case (Cons b v)
  then show ?case by (cases w) (auto simp: hamming_def)
qed (simp add: hamming_def)

lemma ecc_encode_word:
  assumes "config_ok cfg" and "length w = nat (sc_data_width (lc_secded cfg))"
  obtains c where "ecc_encode (lc_secded cfg) w = Inr c" "length c = word_len cfg" "is_valid_codeword (lc_secded cfg) c = Inr True"
    "drop (nat (sc_ecc_width (lc_secded cfg))) c = w"
proof -
  have "int (length w) = sc_data_width (lc_secded cfg)" using assms by (simp add: config_ok_def secded_ok_def)
  from ecc_encode_valid [OF _ this] assms(1) obtain ps where
    "ecc_encode (lc_secded cfg) w = Inr (rev ps @ w)" "length ps = length (sc_ecc_matrix (lc_secded cfg))"
    "is_valid_codeword (lc_secded cfg) (rev ps @ w) = Inr True" by (auto simp: config_ok_def)
  then show thesis using that [of "rev ps @ w"] assms by (simp add: config_ok_def secded_ok_def)
qed

lemma scatter_bits_ok:
  "length bs = count_list m False \<Longrightarrow> \<exists>w. scatter_bits m bs = Inr w \<and> length w = length m"
  by (induction m bs rule: scatter_bits.induct) auto

lemma length_bin_digits: "0 < n \<Longrightarrow> k < 2 ^ n \<Longrightarrow> length (bin_digits k) \<le> n"
proof (induction k arbitrary: n rule: bin_digits.induct)
  case (1 k)
  show ?case
  proof (cases "k < 2")
    case False
    then obtain n' where n: "n = Suc n'" "0 < n'" using 1(2,3) by (cases n) (auto, cases "n - 1", auto)
    have "length (bin_digits (k div 2)) \<le> n'" using 1(1) [OF False, of n'] n 1(3) by simp
    then show ?thesis using False n by (simp add: bin_digits.simps [of k])
  qed (use 1 in \<open>simp add: bin_digits.simps [of k]\<close>)
qed

lemma length_fmt_bits: "0 < n \<Longrightarrow> k < 2 ^ n \<Longrightarrow> length (fmt_bits n k) = n"
  using length_bin_digits [of n k] by (simp add: fmt_bits_def Let_def)

lemma count_ones_mono: "list_all2 (\<longrightarrow>) v w \<Longrightarrow> count_ones v \<le> count_ones w"
  unfolding count_ones_def by (induction rule: list_all2_induct) auto

lemma far_sym: "far cfg v w \<longleftrightarrow> far cfg w v"
  by (simp add: far_def hamming_commute)

lemma word_len_pos: "config_ok cfg \<Longrightarrow> length w = word_len cfg \<Longrightarrow> w \<noteq> []"
  by (auto simp: config_ok_def secded_ok_def)

lemma incr_candidate_ok:
  assumes cfg: "config_ok cfg" and b: "length b = word_len cfg" "lc_min_hw cfg \<le> count_ones b"
    and ws: "\<forall>w\<in>set ws. length w = word_len cfg"
    and d: "length d = nat (sc_data_width (lc_secded cfg))" and k: "1 \<le> k" "k < 2 ^ count_list d False"
  shows "\<exists>cs. incr_candidate cfg b ws d k = Inr cs \<and>
    (\<forall>c\<in>set cs. word_ok cfg c \<and> list_all2 (\<longrightarrow>) b c \<and> list_all (far cfg c) (ws @ [b]))"
proof -
  have "0 < count_list d False" using k by (cases "count_list d False") auto
  then have "length (fmt_bits (count_list d False) k) = count_list d False" using k by (simp add: length_fmt_bits)
  from scatter_bits_ok [OF this] obtain w where w: "scatter_bits d (fmt_bits (count_list d False) k) = Inr w" "length w = length d"
    by auto
  from ecc_encode_word [OF cfg, of w] w d obtain c where c: "ecc_encode (lc_secded cfg) w = Inr c" "length c = word_len cfg"
    "is_valid_codeword (lc_secded cfg) c = Inr True" by auto
  have inc: "is_incremental_codeword b c = Inr (list_all2 (\<longrightarrow>) b c)" 
    using b(1) c(2) word_len_pos [OF cfg b(1)] by (simp add: incremental_eq)
  have far: "far_from (lc_min_hd cfg) c (ws @ [b]) = Inr (list_all (far cfg c) (ws @ [b]))"
    by (rule far_from_eq) (use b(1) c(2) ws word_len_pos [OF cfg] in auto)
  have "lc_min_hw cfg \<le> count_ones c" if "list_all2 (\<longrightarrow>) b c" using count_ones_mono [OF that] b(2) by linarith
  then show ?thesis unfolding incr_candidate_def w c inc far bindR_simps using c by (auto simp: word_ok_def)
qed

lemma mapR_total: "\<forall>x\<in>set xs. \<exists>y. f x = Inr y \<and> P y \<Longrightarrow> \<exists>ys. mapR f xs = Inr ys \<and> (\<forall>y\<in>set ys. P y)"
  by (induction xs) auto

lemma get_incremental_codewords_ok:
  assumes cfg: "config_ok cfg" and b: "word_ok cfg b" and ws: "words_fine cfg ws"
  shows "\<exists>cs. get_incremental_codewords cfg b ws = Inr cs \<and>
    (\<forall>c\<in>set cs. word_ok cfg c \<and> list_all2 (\<longrightarrow>) b c \<and> list_all (far cfg c) (ws @ [b]))"
proof -
  let ?d = "drop (nat (sc_ecc_width (lc_secded cfg))) b"
  let ?P = "\<lambda>c. word_ok cfg c \<and> list_all2 (\<longrightarrow>) b c \<and> list_all (far cfg c) (ws @ [b])"
  have "length ?d = nat (sc_data_width (lc_secded cfg))" using b cfg by (simp add: word_ok_def config_ok_def secded_ok_def)
  then have "\<forall>k\<in>set [1..<2 ^ count_list ?d False]. \<exists>cs. incr_candidate cfg b ws ?d k = Inr cs \<and> (\<forall>c\<in>set cs. ?P c)"
    using incr_candidate_ok [OF cfg, of b ws ?d] b ws by (auto simp: word_ok_def words_fine_def list_all_iff)
  then have "\<exists>css. mapR (incr_candidate cfg b ws ?d) [1..<2 ^ count_list ?d False] = Inr css \<and> (\<forall>cs\<in>set css. \<forall>c\<in>set cs. ?P c)"
    by (rule mapR_total)
  then show ?thesis by (auto simp: get_incremental_codewords_def Let_def)
qed

lemma try_pair_ok:
  assumes cfg: "config_ok cfg" and ws: "words_fine cfg ws"
    and rnd: "getrandbits i < 2 ^ nat (sc_data_width (lc_secded cfg))" and ch: "\<And>l. l \<noteq> [] \<Longrightarrow> choice i l \<in> set l"
  shows "\<exists>r. try_pair cfg getrandbits choice ws i = Inr r \<and> (\<forall>p. r = Some p \<longrightarrow> good_pair cfg ws p)"
proof -
  have dw: "0 < sc_data_width (lc_secded cfg)" using cfg by (simp add: config_ok_def secded_ok_def)
  from ecc_encode_word [OF cfg, of "fmt_bits (nat (sc_data_width (lc_secded cfg))) (getrandbits i)"] length_fmt_bits [OF _ rnd] dw
  obtain c where c: "ecc_encode (lc_secded cfg) (fmt_bits (nat (sc_data_width (lc_secded cfg))) (getrandbits i)) = Inr c"
    "length c = word_len cfg" "is_valid_codeword (lc_secded cfg) c = Inr True" by auto
  have far: "far_from (lc_min_hd cfg) c ws = Inr (list_all (far cfg c) ws)"
    by (rule far_from_eq) (use c ws word_len_pos [OF cfg] in \<open>auto simp: words_fine_def word_ok_def list_all_iff\<close>)
  show ?thesis
  proof (cases "word_ok cfg c \<and> list_all (far cfg c) ws")
    case True
    then obtain cs where cs: "get_incremental_codewords cfg c ws = Inr cs"
      "\<forall>x\<in>set cs. word_ok cfg x \<and> list_all2 (\<longrightarrow>) c x \<and> list_all (far cfg x) (ws @ [c])"
      using get_incremental_codewords_ok [OF cfg _ ws] by blast
    have "good_pair cfg ws (c, choice i cs)" if "cs \<noteq> []" using cs(2) ch [OF that] True by (simp add: good_pair_def)
    then show ?thesis using True dw unfolding try_pair_def c far bindR_simps Let_def cs(1) by (simp add: word_ok_def)
  next
    case False
    then show ?thesis using dw c unfolding try_pair_def c(1) far bindR_simps Let_def by (auto simp: word_ok_def)
  qed
qed

lemma words_fine_add: "words_fine cfg ws \<Longrightarrow> good_pair cfg ws (b, c) \<Longrightarrow> words_fine cfg (ws @ [b, c])"
  by (auto simp: words_fine_def good_pair_def sorted_wrt_append list_all_iff far_sym)

lemma get_new_state_word_pair_result:
  assumes "get_new_state_word_pair cfg getrandbits choice ws i = Some r"
  shows "\<exists>j\<ge>i. try_pair cfg getrandbits choice ws j \<noteq> Inr None \<and>
    r = map_sum id (\<lambda>p. (the p, j + 1)) (try_pair cfg getrandbits choice ws j)"
proof (rule get_new_state_word_pair.raw_induct [OF _ assms])
  fix f cfg getrandbits choice ws i r
  assume IH: "\<And>cfg getrandbits choice ws i r. f cfg getrandbits choice ws i = Some r \<Longrightarrow>
      \<exists>j\<ge>i. try_pair cfg getrandbits choice ws j \<noteq> Inr None \<and>
        r = map_sum id (\<lambda>p. (the p, j + 1)) (try_pair cfg getrandbits choice ws j)"
    and step: "(case try_pair cfg getrandbits choice ws i of
        Inl e \<Rightarrow> Some (Inl e)
      | Inr None \<Rightarrow> f cfg getrandbits choice ws (i + 1)
      | Inr (Some pr) \<Rightarrow> Some (Inr (pr, i + 1))) = Some r"
  show "\<exists>j\<ge>i. try_pair cfg getrandbits choice ws j \<noteq> Inr None \<and>
        r = map_sum id (\<lambda>p. (the p, j + 1)) (try_pair cfg getrandbits choice ws j)"
  proof (cases "try_pair cfg getrandbits choice ws i = Inr None")
    case True
    then have "f cfg getrandbits choice ws (i + 1) = Some r" using step by simp
    from IH [OF this] show ?thesis using Suc_eq_plus1 Suc_leD by metis
  next
    case False
    then have "r = map_sum id (\<lambda>p. (the p, i + 1)) (try_pair cfg getrandbits choice ws i)"
      using step by (auto split: sum.splits option.splits)
    then show ?thesis using False by blast
  qed
qed

text \<open>The search ends when some later attempt does.\<close>

lemma get_new_state_word_pair_returns:
  assumes "i \<le> j" and "try_pair cfg getrandbits choice ws j \<noteq> Inr None"
  shows "\<exists>r. get_new_state_word_pair cfg getrandbits choice ws i = Some r"
  using assms(1)
proof (induction i rule: inc_induct)
  case base
  then show ?case using assms(2)
    by (subst get_new_state_word_pair.simps) (auto split: sum.splits option.splits)
next
  case (step i)
  then show ?case by (subst get_new_state_word_pair.simps) (auto split: sum.splits option.splits)
qed

section \<open>All words\<close>

text \<open>What the random module promises: numbers of the width asked for, and members of the list.\<close>

definition random_ok :: "lc_config \<Rightarrow> (nat \<Rightarrow> nat) \<Rightarrow> (nat \<Rightarrow> bitstr list \<Rightarrow> bitstr) \<Rightarrow> bool" where
  "random_ok cfg getrandbits choice \<longleftrightarrow>
     (\<forall>i. getrandbits i < 2 ^ nat (sc_data_width (lc_secded cfg))) \<and> (\<forall>i l. l \<noteq> [] \<longrightarrow> choice i l \<in> set l)"

text \<open>As long as at most \<open>m - 2\<close> words are chosen, some later attempt finds a pair.\<close>

definition search_live :: "lc_config \<Rightarrow> (nat \<Rightarrow> nat) \<Rightarrow> (nat \<Rightarrow> bitstr list \<Rightarrow> bitstr) \<Rightarrow> nat \<Rightarrow> bool" where
  "search_live cfg getrandbits choice m \<longleftrightarrow>
     (\<forall>ws i. words_fine cfg ws \<and> length ws + 2 \<le> m \<longrightarrow> (\<exists>j\<ge>i. try_pair cfg getrandbits choice ws j \<noteq> Inr None))"

definition pair_words :: "(bitstr \<times> bitstr) list \<Rightarrow> bitstr list" where
  "pair_words prs = concat (map (\<lambda>p. [fst p, snd p]) prs)"

lemma pair_words_simps [simp]:
  "pair_words [] = []"
  "pair_words (p # prs) = fst p # snd p # pair_words prs"
  "pair_words (prs @ qs) = pair_words prs @ pair_words qs"
  "length (pair_words prs) = 2 * length prs"
  "pair_words prs = [] \<longleftrightarrow> prs = []"
  by (induction prs) (auto simp: pair_words_def)

abbreviation increments :: "bitstr \<times> bitstr \<Rightarrow> bool" where
  "increments p \<equiv> list_all2 (\<longrightarrow>) (fst p) (snd p)"

lemma new_pair_good:
  assumes "config_ok cfg" and "random_ok cfg getrandbits choice" and "words_fine cfg ws"
    and "get_new_state_word_pair cfg getrandbits choice ws i = Some r"
  obtains p j where "r = Inr (p, j)" "good_pair cfg ws p"
proof -
  from get_new_state_word_pair_result [OF assms(4)] obtain j where
    j: "try_pair cfg getrandbits choice ws j \<noteq> Inr None" "r = map_sum id (\<lambda>p. (the p, j + 1)) (try_pair cfg getrandbits choice ws j)"
    by blast
  from try_pair_ok [OF assms(1,3), of getrandbits j choice] assms(2) obtain q where
    q: "try_pair cfg getrandbits choice ws j = Inr q" "\<forall>p. q = Some p \<longrightarrow> good_pair cfg ws p" by (auto simp: random_ok_def)
  then obtain p where "q = Some p" using j(1) by (cases q) auto
  then show thesis using that [of p "j + 1"] j q by simp
qed

lemma generate_pairs_ok:
  assumes "config_ok cfg" and "random_ok cfg getrandbits choice" and "words_fine cfg ws"
    and "generate_pairs cfg getrandbits choice n ws i = Some r"
  shows "\<exists>prs j. r = Inr (prs, ws @ pair_words prs, j) \<and> length prs = n \<and> words_fine cfg (ws @ pair_words prs) \<and>
    list_all increments prs"
  using assms(3,4)
proof (induction n arbitrary: ws i r)
  case (Suc n)
  from Suc.prems(2) obtain r0 where r0: "get_new_state_word_pair cfg getrandbits choice ws i = Some r0"
    by (auto simp: bind_eq_Some_conv)
  from new_pair_good [OF assms(1,2) Suc.prems(1) r0] obtain b c j where
    p: "r0 = Inr ((b, c), j)" "good_pair cfg ws (b, c)" by (metis surj_pair)
  from Suc.prems(2) r0 p obtain r1 where
    r1: "generate_pairs cfg getrandbits choice n (ws @ [b, c]) j = Some r1" "r = map_sum id (\<lambda>(prs, rest). ((b, c) # prs, rest)) r1"
    by auto
  from Suc.IH [OF words_fine_add [OF Suc.prems(1) p(2)] r1(1)] obtain prs j' where
    "r1 = Inr (prs, (ws @ [b, c]) @ pair_words prs, j')" "length prs = n" "words_fine cfg ((ws @ [b, c]) @ pair_words prs)"
    "list_all increments prs" by blast
  then show ?case using r1(2) p(2) by (intro exI [of _ "(b, c) # prs"] exI [of _ j']) (simp add: good_pair_def)
qed auto

lemma generate_pairs_returns:
  assumes "config_ok cfg" and "random_ok cfg getrandbits choice" and "search_live cfg getrandbits choice m"
    and "words_fine cfg ws" and "length ws + 2 * n \<le> m"
  shows "\<exists>r. generate_pairs cfg getrandbits choice n ws i = Some r"
  using assms(4,5)
proof (induction n arbitrary: ws i)
  case (Suc n)
  have "length ws + 2 \<le> m" using Suc.prems(2) by simp
  then obtain j where "i \<le> j" "try_pair cfg getrandbits choice ws j \<noteq> Inr None"
    using assms(3) Suc.prems(1) unfolding search_live_def by blast
  from get_new_state_word_pair_returns [OF this] obtain r0 where
    r0: "get_new_state_word_pair cfg getrandbits choice ws i = Some r0" by blast
  from new_pair_good [OF assms(1,2) Suc.prems(1) r0] obtain b c j where
    p: "r0 = Inr ((b, c), j)" "good_pair cfg ws (b, c)" by (metis surj_pair)
  show ?case using Suc.IH [OF words_fine_add [OF Suc.prems(1) p(2)], of j] Suc.prems(2) r0 p(1) by auto
qed simp

lemma generate_types_ok:
  assumes "config_ok cfg" and "random_ok cfg getrandbits choice" and "words_fine cfg ws"
    and "generate_types cfg getrandbits choice (map Some ms) ws i = Some r"
  shows "\<exists>prss. r = Inr (prss, ws @ pair_words (concat prss)) \<and> map length prss = ms \<and>
    words_fine cfg (ws @ pair_words (concat prss)) \<and> list_all increments (concat prss)"
  using assms(3,4)
proof (induction ms arbitrary: ws i r)
  case (Cons m ms)
  from Cons.prems(2) obtain r0 where r0: "generate_pairs cfg getrandbits choice m ws i = Some r0"
    by (auto simp: bind_eq_Some_conv)
  from generate_pairs_ok [OF assms(1,2) Cons.prems(1) r0] obtain prs j where
    p: "r0 = Inr (prs, ws @ pair_words prs, j)" "length prs = m" "words_fine cfg (ws @ pair_words prs)" "list_all increments prs"
    by blast
  from Cons.prems(2) r0 p(1) obtain r1 where
    r1: "generate_types cfg getrandbits choice (map Some ms) (ws @ pair_words prs) j = Some r1"
      "r = map_sum id (\<lambda>(prss, ws). (prs # prss, ws)) r1" by auto
  from Cons.IH [OF p(3) r1(1)] obtain prss where
    "r1 = Inr (prss, (ws @ pair_words prs) @ pair_words (concat prss))" "map length prss = ms"
    "words_fine cfg ((ws @ pair_words prs) @ pair_words (concat prss))" "list_all increments (concat prss)" by blast
  then show ?case using r1(2) p by (intro exI [of _ "prs # prss"]) simp
qed simp

lemma generate_types_returns:
  assumes "config_ok cfg" and "random_ok cfg getrandbits choice" and "search_live cfg getrandbits choice m"
    and "words_fine cfg ws" and "length ws + 2 * sum_list ms \<le> m"
  shows "\<exists>r. generate_types cfg getrandbits choice (map Some ms) ws i = Some r"
  using assms(4,5)
proof (induction ms arbitrary: ws i)
  case (Cons n ms)
  then obtain r0 where r0: "generate_pairs cfg getrandbits choice n ws i = Some r0"
    using generate_pairs_returns [OF assms(1-3)] by fastforce
  from generate_pairs_ok [OF assms(1,2) Cons.prems(1) r0] obtain prs j where
    p: "r0 = Inr (prs, ws @ pair_words prs, j)" "length prs = n" "words_fine cfg (ws @ pair_words prs)" by blast
  show ?case using Cons.IH [OF p(3), of j] Cons.prems(2) p(2) r0 p(1) by auto
qed simp

text \<open>The final check of words that are fine passes.\<close>

lemma validate_words_ok:
  assumes "config_ok cfg" and "words_fine cfg ws"
  shows "validate_words cfg ws = Inr ()"
proof -
  have "check_word cfg ws k = Inr ()" if k: "k < length ws" for k
  proof -
    have ok: "word_ok cfg (ws ! k)" "\<forall>w\<in>set (drop (k + 1) ws). length w = word_len cfg"
      using assms(2) k by (auto simp: words_fine_def list_all_iff word_ok_def dest: in_set_dropD)
    then have "far_from (lc_min_hd cfg) (ws ! k) (drop (k + 1) ws) = Inr (list_all (far cfg (ws ! k)) (drop (k + 1) ws))"
      by (intro far_from_eq) (use word_len_pos [OF assms(1)] in \<open>auto simp: word_ok_def\<close>)
    moreover have "list_all (far cfg (ws ! k)) (drop (k + 1) ws)"
      using assms(2) k by (auto simp: words_fine_def list_all_length sorted_wrt_iff_nth_less)
    ultimately show ?thesis using ok(1) by (simp add: check_word_def word_ok_def)
  qed
  then have "mapR (check_word cfg ws) [0..<length ws] = Inr (map (\<lambda>_. ()) [0..<length ws])" by (simp add: mapR_Inr_iff)
  then show ?thesis by (simp add: validate_words_def)
qed

text \<open>
  C14: Take a configuration whose check bits depend on data bits and earlier check bits only (the validation does not
  ensure this), a random module that draws data words of the data width and chooses elements of the list it is given,
  and ask for at least one pair.  Whenever the generation of the words returns, it returns without an error, in
  particular without one in the final check that
  "must not fail": every word is a valid code word of allowed weight, any two words of all types have the
  minimal distance, there are as many pairs of each type as asked for, and the second word of a pair only
  sets bits of the first.  It returns when attempts with the words chosen so far keep succeeding.
\<close>

theorem generate_words_fine:
  assumes "config_ok cfg" and "random_ok cfg getrandbits choice" and "sum_list ms \<noteq> 0"
  shows "(\<forall>r. generate_words cfg getrandbits choice (map Some ms) = Some r \<longrightarrow>
      (\<exists>prss. r = Inr prss \<and> map length prss = ms \<and> words_fine cfg (pair_words (concat prss)) \<and>
         list_all increments (concat prss))) \<and>
    (search_live cfg getrandbits choice (2 * sum_list ms) \<longrightarrow>
      (\<exists>r. generate_words cfg getrandbits choice (map Some ms) = Some r))"
proof (intro conjI allI impI)
  have nil: "words_fine cfg []" by (simp add: words_fine_def)
  fix r assume "generate_words cfg getrandbits choice (map Some ms) = Some r"
  then obtain r0 where r0: "generate_types cfg getrandbits choice (map Some ms) [] 0 = Some r0"
    "r = bindR r0 (\<lambda>(genwords, existing_words). bindR (validate_words cfg existing_words) (\<lambda>_.
      if existing_words = [] then Inl IndexError else Inr genwords))" by (auto simp: generate_words_def)
  from generate_types_ok [OF assms(1,2) nil r0(1)] obtain prss where
    p: "r0 = Inr (prss, pair_words (concat prss))" "map length prss = ms" "words_fine cfg (pair_words (concat prss))"
      "list_all increments (concat prss)" by auto
  have "concat prss \<noteq> []"
  proof
    assume "concat prss = []"
    then have "length (concat prss) = 0" by simp
    then show False using p(2) assms(3) by (simp only: length_concat)
  qed
  then show "\<exists>prss. r = Inr prss \<and> map length prss = ms \<and> words_fine cfg (pair_words (concat prss)) \<and>
      list_all increments (concat prss)" using r0(2) p validate_words_ok [OF assms(1) p(3)] by auto
next
  assume "search_live cfg getrandbits choice (2 * sum_list ms)"
  then show "\<exists>r. generate_words cfg getrandbits choice (map Some ms) = Some r"
    using generate_types_returns [OF assms(1,2), of "2 * sum_list ms" "[]" ms 0] by (auto simp: generate_words_def words_fine_def)
qed

definition demo_cfg :: lc_config where
  "demo_cfg = \<lparr>lc_secded = \<lparr>sc_data_width = 8, sc_ecc_width = 1, sc_ecc_matrix = [[0, 1, 2, 3, 4, 5, 6, 7]]\<rparr>,
     lc_min_hw = 1, lc_max_hw = 9, lc_min_hd = 2\<rparr>"

lemma demo_cfg_ok: "config_ok demo_cfg"
  by (simp add: config_ok_def secded_ok_def demo_cfg_def)

lemma demo_attempt: "try_pair demo_cfg (\<lambda>_. 252) (\<lambda>_. hd) [] i =
    Inr (Some (fmt_bits 9 252, fmt_bits 9 509))"
  unfolding demo_cfg_def by code_simp

lemma demo_live: "search_live demo_cfg (\<lambda>_. 252) (\<lambda>_. hd) 2"
  unfolding search_live_def using demo_attempt by auto

theorem generate_words_fine_witness:
  "\<exists>prss. generate_words demo_cfg (\<lambda>_. 252) (\<lambda>_. hd) (map Some [1, 0, 0]) = Some (Inr prss) \<and> map length prss = [1, 0, 0] \<and>
    words_fine demo_cfg (pair_words (concat prss)) \<and> list_all increments (concat prss)"
proof -
  have r: "random_ok demo_cfg (\<lambda>_. 252) (\<lambda>_. hd)" by (simp add: random_ok_def demo_cfg_def)
  from generate_words_fine [OF demo_cfg_ok r, of "[1, 0, 0]"] demo_live show ?thesis by auto
qed

text \<open>A token size that is not a multiple of 8 is not reported as such.\<close>

lemma odd_token_size_unbound:
  "validate_tokens cSHAKE128 token_bits [(YStr ''token_size'', YInt 100)] = Inl UnboundLocalError"
  by (simp add: validate_tokens_def get_or_default_def common_check_int_def)

text \<open>
  The tool accepts a matrix in which a check bit refers to a later check bit: the index is negative, the
  encoder reads another bit, and what it returns is not a code word.
\<close>

lemma forward_matrix_accepted:
  "\<exists>cfg c. validate_secded [(YStr ''data_width'', YInt 8), (YStr ''ecc_width'', YInt 2), (YStr ''ecc_matrix'', YList [YList [YInt 9], YList [YInt 0]])] = Inr cfg \<and>
     ecc_encode cfg [False, False, False, False, False, False, True, False] = Inr c \<and> is_valid_codeword cfg c = Inr False"
  by (intro exI [of _ "\<lparr>sc_data_width = 8, sc_ecc_width = 2, sc_ecc_matrix = [[9], [0]]\<rparr>"]
      exI [of _ "[False, True, False, False, False, False, False, False, True, False]"] conjI; code_simp)

section \<open>Encoded states\<close>

definition legal_index :: "string \<Rightarrow> nat \<Rightarrow> string \<Rightarrow> nat option" where
  "legal_index letters j e = map_of (zip (legal_values letters j) [0..<Suc (length letters)]) e"

text \<open>Every entry of the second state is the same as or later than that of the first.\<close>

definition state_le :: "string \<Rightarrow> string list \<Rightarrow> string list \<Rightarrow> bool" where
  "state_le letters es1 es2 \<longleftrightarrow> length es1 = length es2 \<and>
     list_all (\<lambda>j. case (legal_index letters j (es1 ! j), legal_index letters j (es2 ! j)) of
        (Some a, Some b) \<Rightarrow> a \<le> b | _ \<Rightarrow> False) [0..<length es1]"

lemma bits_val_and: "list_all2 (\<longrightarrow>) v w \<Longrightarrow> bits_val v AND bits_val w = bits_val v"
  by (rule bit_eqI) (auto simp: bit_and_iff rev_nth_bit list_all2_conv_all_nth rev_nth)

lemma bits_val_less: "bits_val w < 2 ^ length w"
  using horner_sum_of_bool_2_less [of "rev w"] by (simp add: bits_val_def)

text \<open>The words side by side: bit \<open>n\<close> of word \<open>k\<close> is bit \<open>d * k + n\<close>.\<close>

definition join_words :: "nat \<Rightarrow> nat list \<Rightarrow> nat" where
  "join_words d ws = sum_list (map (\<lambda>(k, w). push_bit (d * k) w) (enumerate 0 ws))"

lemma join_words_from: "sum_list (map (\<lambda>(k, w). push_bit (d * k) w) (enumerate n ws)) = push_bit (d * n) (join_words d ws)"
proof (induction ws arbitrary: n)
  case (Cons w ws)
  have "push_bit (d * n) (push_bit d x) = push_bit (d * Suc n) x" for x :: nat by (simp add: add.commute)
  then show ?case using Cons [of "Suc n"] Cons [of "Suc 0"] by (simp add: join_words_def push_bit_add)
qed (simp add: join_words_def)

lemma join_words_Cons: "join_words d (w # ws) = w + push_bit d (join_words d ws)"
  using join_words_from [of d "Suc 0" ws] by (simp add: join_words_def)

lemma bit_add_high:
  assumes "w < (2 :: nat) ^ d"
  shows "bit (w + push_bit d h) n = (if n < d then bit w n else bit h (n - d))"
proof -
  have t: "take_bit d w = w" using assms by (simp add: take_bit_nat_eq_self)
  then have "w AND push_bit d h = 0" by (intro bit_eqI) (metis bit_0_eq bit_and_iff bit_push_bit_iff bit_take_bit_iff bot_apply bot_bool_def linorder_not_less)
  then have "w + push_bit d h = w OR push_bit d h" by (simp add: disjunctive_add_eq_or)
  then show ?thesis using t by (simp add: bit_or_iff bit_push_bit_iff) (metis bit_take_bit_iff)
qed

lemma and_eq_left_iff: "(v :: nat) AND w = v \<longleftrightarrow> (\<forall>n. bit v n \<longrightarrow> bit w n)"
  by (auto simp: bit_eq_iff bit_and_iff)

lemma join_words_and:
  assumes "list_all2 (\<lambda>v w. v AND w = v) vs ws" and "\<forall>v\<in>set vs. v < 2 ^ d" and "\<forall>w\<in>set ws. w < 2 ^ d"
  shows "join_words d vs AND join_words d ws = join_words d vs"
  using assms
proof (induction rule: list_all2_induct)
  case (Cons v vs w ws)
  then have "\<forall>n. bit v n \<longrightarrow> bit w n" "\<forall>n. bit (join_words d vs) n \<longrightarrow> bit (join_words d ws) n"
    unfolding and_eq_left_iff by simp_all
  then show ?case using Cons.prems unfolding and_eq_left_iff join_words_Cons by (simp add: bit_add_high)
qed (simp add: join_words_def)

lemma join_words_less: "\<forall>v\<in>set vs. v < 2 ^ d \<Longrightarrow> join_words d vs < 2 ^ (d * length vs)"
proof (induction vs)
  case (Cons v vs)
  then have "Suc (join_words d vs) \<le> 2 ^ (d * length vs)" "v < 2 ^ d" by auto
  then have "v + 2 ^ d * join_words d vs < 2 ^ d * Suc (join_words d vs)" by simp
  also have "\<dots> \<le> 2 ^ d * 2 ^ (d * length vs)" using \<open>Suc _ \<le> _\<close> by (rule mult_le_mono2)
  finally show ?case by (simp add: join_words_Cons push_bit_eq_mult power_add mult.commute)
qed (simp add: join_words_def)

definition data_bits :: "lc_config \<Rightarrow> bitstr \<Rightarrow> nat" where
  "data_bits cfg w = bits_val (drop (nat (sc_ecc_width (lc_secded cfg))) w)"

text \<open>The data word of an entry: nothing, the first or the second word of its pair.\<close>

definition entry_value :: "lc_config \<Rightarrow> (bitstr \<times> bitstr) list \<Rightarrow> nat \<Rightarrow> nat \<Rightarrow> nat" where
  "entry_value cfg prs j idx = (if idx = 0 then 0 else data_bits cfg (if idx = 1 then fst (prs ! j) else snd (prs ! j)))"

lemma drop_word:
  assumes "config_ok cfg" and "word_ok cfg w"
  shows "length (drop (nat (sc_ecc_width (lc_secded cfg))) w) = nat (sc_data_width (lc_secded cfg))"
    and "drop (nat (sc_ecc_width (lc_secded cfg))) w \<noteq> []"
  using assms by (auto simp: word_ok_def config_ok_def secded_ok_def)

text \<open>The pairs of a type: valid words that only gain bits.\<close>

definition pairs_ok :: "lc_config \<Rightarrow> (bitstr \<times> bitstr) list \<Rightarrow> bool" where
  "pairs_ok cfg prs \<longleftrightarrow> list_all (\<lambda>p. word_ok cfg (fst p) \<and> word_ok cfg (snd p) \<and> increments p) prs"

lemma entry_word_eq:
  assumes cfg: "config_ok cfg" and prs: "pairs_ok cfg prs" and j: "j < length prs" and e: "legal_index letters j e = Some idx"
  shows "entry_word cfg letters prs (j, e) = Inr (entry_value cfg prs j idx)"
    and "entry_value cfg prs j idx < 2 ^ nat (sc_data_width (lc_secded cfg))"
proof -
  have ok: "word_ok cfg (fst (prs ! j))" "word_ok cfg (snd (prs ! j))" using prs j by (auto simp: pairs_ok_def list_all_length)
  have g: "py_getitem prs (int j) = Inr (prs ! j)" using j by simp
  note w = drop_word [OF cfg ok(1)] drop_word [OF cfg ok(2)]
  show "entry_word cfg letters prs (j, e) = Inr (entry_value cfg prs j idx)"
    using e g w by (simp add: entry_word_def legal_index_def entry_value_def data_bits_def case_prod_beta Let_def)
  show "entry_value cfg prs j idx < 2 ^ nat (sc_data_width (lc_secded cfg))"
    using bits_val_less [of "drop (nat (sc_ecc_width (lc_secded cfg))) (fst (prs ! j))"]
      bits_val_less [of "drop (nat (sc_ecc_width (lc_secded cfg))) (snd (prs ! j))"] w
    by (simp add: entry_value_def data_bits_def)
qed

lemma entry_value_mono:
  assumes "pairs_ok cfg prs" and "j < length prs" and "a \<le> b"
  shows "entry_value cfg prs j a AND entry_value cfg prs j b = entry_value cfg prs j a"
proof -
  have "increments (prs ! j)" using assms(1,2) by (auto simp: pairs_ok_def list_all_length)
  then have "data_bits cfg (fst (prs ! j)) AND data_bits cfg (snd (prs ! j)) = data_bits cfg (fst (prs ! j))"
    unfolding data_bits_def by (intro bits_val_and list_all2_dropI)
  then show ?thesis using assms(3) by (auto simp: entry_value_def)
qed

definition state_value :: "lc_config \<Rightarrow> string \<Rightarrow> (bitstr \<times> bitstr) list \<Rightarrow> string list \<Rightarrow> nat list" where
  "state_value cfg letters prs es = map (\<lambda>j. entry_value cfg prs j (the (legal_index letters j (es ! j)))) [0..<length es]"

lemma entry_words_eq:
  assumes "config_ok cfg" and "pairs_ok cfg prs" and "length es \<le> length prs"
    and "\<forall>j<length es. legal_index letters j (es ! j) \<noteq> None"
  shows "mapR (entry_word cfg letters prs) (enumerate 0 es) = Inr (state_value cfg letters prs es)"
    and "\<forall>v\<in>set (state_value cfg letters prs es). v < 2 ^ nat (sc_data_width (lc_secded cfg))"
proof -
  have "entry_word cfg letters prs (j, es ! j) = Inr (entry_value cfg prs j (the (legal_index letters j (es ! j))))"
    "entry_value cfg prs j (the (legal_index letters j (es ! j))) < 2 ^ nat (sc_data_width (lc_secded cfg))" if "j < length es" for j
    using entry_word_eq [OF assms(1,2), of j letters "es ! j"] assms(3,4) that by fastforce+
  then show "mapR (entry_word cfg letters prs) (enumerate 0 es) = Inr (state_value cfg letters prs es)"
    "\<forall>v\<in>set (state_value cfg letters prs es). v < 2 ^ nat (sc_data_width (lc_secded cfg))"
    by (auto simp: mapR_Inr_iff nth_enumerate_eq state_value_def)
qed

lemma state_leD:
  assumes "state_le letters es1 es2" and "j < length es1"
  obtains a b where "legal_index letters j (es1 ! j) = Some a" "legal_index letters j (es2 ! j) = Some b" "a \<le> b"
proof -
  have "case (legal_index letters j (es1 ! j), legal_index letters j (es2 ! j)) of (Some a, Some b) \<Rightarrow> a \<le> b | _ \<Rightarrow> False"
    using assms by (simp add: state_le_def list_all_iff)
  then show thesis using that by (simp split: option.splits)
qed

lemma state_value_mono:
  assumes "pairs_ok cfg prs" and "length es1 \<le> length prs" and "state_le letters es1 es2"
  shows "list_all2 (\<lambda>v w. v AND w = v) (state_value cfg letters prs es1) (state_value cfg letters prs es2)"
proof -
  have "the (legal_index letters j (es1 ! j)) \<le> the (legal_index letters j (es2 ! j))" if "j < length es1" for j
    using state_leD [OF assms(3) that] by force
  then show ?thesis using assms entry_value_mono [OF assms(1)]
    by (auto simp: list_all2_conv_all_nth state_value_def state_le_def)
qed

lemma map_sum_Inr_iff: "map_sum f g r = Inr x \<longleftrightarrow> (\<exists>y. r = Inr y \<and> g y = x)"
  by (cases r) auto

lemma generate_types_all:
  "generate_types cfg getrandbits choice ns ws i = Some (Inr x) \<Longrightarrow> \<exists>ms. ns = map Some ms"
proof (induction ns arbitrary: ws i x)
  case (Cons n ns)
  then obtain m where n: "n = Some m" by (cases n) auto
  with Cons.prems obtain r where r: "generate_pairs cfg getrandbits choice m ws i = Some r" by (auto simp: bind_eq_Some_conv)
  then obtain prs ws' i' where "r = Inr (prs, ws', i')" using Cons.prems n by (cases r) auto
  then obtain y where "generate_types cfg getrandbits choice ns ws' i' = Some (Inr y)"
    using Cons.prems n r by (auto simp: map_sum_Inr_iff)
  from Cons.IH [OF this] n show ?case by (metis list.simps(9))
qed simp

lemma init_facts:
  assumes "LcStEnc_init cSHAKE128 token_bits d states getrandbits choice = Some (Inr enc)"
  obtains ns prss where
    "mapR (\<lambda>(typ, letters). validate_states letters (the (map_of states typ))) LC_STATE_TYPES = Inr ns"
    "generate_words (le_config enc) getrandbits choice ns = Some (Inr prss)"
    "le_states enc = states" "le_genwords enc = zip (map fst LC_STATE_TYPES) prss"
    "list_all (\<lambda>(typ, _). map_of states typ \<noteq> None) LC_STATE_TYPES"
  using assms unfolding LcStEnc_init_def
  by (auto simp: bindR_Inr_iff map_sum_Inr_iff split: sum.splits if_splits prod.splits)

lemma mapR_member: "mapR f xs = Inr ys \<Longrightarrow> x \<in> set xs \<Longrightarrow> \<exists>y. f x = Inr y"
  by (induction xs arbitrary: ys) (auto simp: bindR_Inr_iff)

lemma validate_states_length:
  assumes "validate_states letters sts = Inr (Some n)" and "(st, es) \<in> set sts"
  shows "length es = n"
proof -
  from assms obtain st0 es0 rest where sts: "sts = (st0, es0) # rest" by (cases sts) auto
  from assms(1) obtain us where "mapR (\<lambda>(_, es'). check_state letters (length es0) es') sts = Inr us" "n = length es0"
    by (simp only: validate_states_def sts list.case prod.case bindR_Inr_iff sum.inject option.inject) blast
  from mapR_member [OF this(1) assms(2)] this(2) show ?thesis by (simp add: check_state_def split: if_splits)
qed

text \<open>The pairs of a type after the constructor: valid, and one for each entry of its states.\<close>

lemma init_pairs:
  assumes init: "LcStEnc_init cSHAKE128 token_bits d states getrandbits choice = Some (Inr enc)"
    and cfg: "config_ok (le_config enc)" and rnd: "random_ok (le_config enc) getrandbits choice"
    and name: "map_of LC_STATE_TYPES name = Some letters"
  obtains prs sts where "map_of (le_genwords enc) name = Some prs" "pairs_ok (le_config enc) prs"
    "map_of (le_states enc) name = Some sts" "map_of states name = Some sts" "\<And>st es. (st, es) \<in> set sts \<Longrightarrow> length es = length prs"
proof -
  let ?cfg = "le_config enc"
  from init obtain ns prss where
    n: "mapR (\<lambda>(typ, letters). validate_states letters (the (map_of states typ))) LC_STATE_TYPES = Inr ns" and
    g: "generate_words ?cfg getrandbits choice ns = Some (Inr prss)" and
    e: "le_states enc = states" "le_genwords enc = zip (map fst LC_STATE_TYPES) prss"
      "list_all (\<lambda>(typ, _). map_of states typ \<noteq> None) LC_STATE_TYPES" by (rule init_facts)
  obtain ws where gt: "generate_types ?cfg getrandbits choice ns [] 0 = Some (Inr (prss, ws))"
    using g by (auto simp: generate_words_def bindR_Inr_iff split: if_splits)
  from generate_types_all [OF gt] obtain ms where ms: "ns = map Some ms" by blast
  from generate_types_ok [OF cfg rnd _ gt [unfolded ms]] have
    p: "map length prss = ms" "words_fine ?cfg (pair_words (concat prss))" "list_all increments (concat prss)"
    by (auto simp: words_fine_def)
  have len: "length prss = length LC_STATE_TYPES" using n p(1) ms by (auto simp: mapR_Inr_iff)
  from map_of_SomeD [OF name] obtain t where t: "t < length LC_STATE_TYPES" "LC_STATE_TYPES ! t = (name, letters)"
    by (metis in_set_conv_nth)
  obtain sts where sts: "map_of states name = Some sts" using e(3) t by (auto simp: list_all_iff dest!: nth_mem)
  have "map_of (le_genwords enc) (map fst LC_STATE_TYPES ! t) = Some (prss ! t)"
    unfolding e(2) using t(1) len by (intro map_of_zip_nth) (auto simp: LC_STATE_TYPES_def)
  then have gw: "map_of (le_genwords enc) name = Some (prss ! t)" using t by simp
  have "\<forall>q\<in>set (prss ! t). word_ok ?cfg (fst q) \<and> word_ok ?cfg (snd q) \<and> increments q"
    using p(2,3) nth_mem [of t prss] t(1) len by (auto simp: words_fine_def list_all_iff pair_words_def)
  then have ok: "pairs_ok ?cfg (prss ! t)" by (simp add: pairs_ok_def list_all_iff)
  have v: "validate_states letters sts = Inr (Some (length (prss ! t)))"
    using n t p(1) ms sts len by (auto simp: mapR_Inr_iff)
  then have "length es = length (prss ! t)" if "(st, es) \<in> set sts" for st es
    by (rule validate_states_length [OF _ that])
  then show thesis using that [OF gw ok _ sts] sts e(1) by simp
qed

text \<open>
  C17: A transition of the life-cycle state, its counter or its identity state from one declared state to one
  whose entries are the same or later (nothing, then the first word, then the second) only sets bits in the
  one-time programmable memory: in the encodings of the two states, every bit of the first is set in the
  second, and both fit in one data word for each entry.
\<close>

theorem encode_only_sets_bits:
  assumes "LcStEnc_init cSHAKE128 token_bits d states getrandbits choice = Some (Inr enc)"
    and "config_ok (le_config enc)" and "random_ok (le_config enc) getrandbits choice"
    and "map_of LC_STATE_TYPES name = Some letters" and "map_of states name = Some sts"
    and st: "map_of sts st1 = Some es1" "map_of sts st2 = Some es2" and le: "state_le letters es1 es2"
  shows "\<exists>n1 n2. LcStEnc_encode enc name st1 = Inr n1 \<and> LcStEnc_encode enc name st2 = Inr n2 \<and> n1 AND n2 = n1 \<and>
    n1 < 2 ^ (nat (sc_data_width (lc_secded (le_config enc))) * length es1) \<and>
    n2 < 2 ^ (nat (sc_data_width (lc_secded (le_config enc))) * length es2)"
proof -
  let ?cfg = "le_config enc" and ?d = "nat (sc_data_width (lc_secded (le_config enc)))"
  from assms(1-4) obtain prs sts' where
    i: "map_of (le_genwords enc) name = Some prs" "pairs_ok ?cfg prs" "map_of (le_states enc) name = Some sts'"
      "map_of states name = Some sts'" "\<And>st es. (st, es) \<in> set sts' \<Longrightarrow> length es = length prs" by (rule init_pairs) blast
  have len: "length es1 = length prs" "length es2 = length prs"
    using i(4,5) assms(5) st map_of_SomeD [of sts'] by (metis option.inject)+
  have "legal_index letters j (es1 ! j) \<noteq> None \<and> legal_index letters j (es2 ! j) \<noteq> None" if "j < length es1" for j
    using that by (rule state_leD [OF le]) simp
  then have ix: "\<forall>j<length es1. legal_index letters j (es1 ! j) \<noteq> None" "\<forall>j<length es2. legal_index letters j (es2 ! j) \<noteq> None"
    using len by simp_all
  note w1 = entry_words_eq [OF assms(2) i(2) eq_refl [OF len(1)] ix(1)]
  note w2 = entry_words_eq [OF assms(2) i(2) eq_refl [OF len(2)] ix(2)]
  have "LcStEnc_encode enc name st1 = Inr (join_words ?d (state_value ?cfg letters prs es1))"
    "LcStEnc_encode enc name st2 = Inr (join_words ?d (state_value ?cfg letters prs es2))"
    using assms(4,5) st i(1,3,4) w1(1) w2(1) by (simp_all add: LcStEnc_encode_def join_words_def)
  moreover have "length (state_value ?cfg letters prs es) = length es" for es by (simp add: state_value_def)
  ultimately show ?thesis using join_words_and [OF state_value_mono [OF i(2) eq_refl [OF len(1)] le] w1(2) w2(2)]
      join_words_less [OF w1(2)] join_words_less [OF w2(2)] by auto
qed

definition demo_dict :: yaml_dict where
  "demo_dict = [(YStr ''seed'', YInt 1), (YStr ''token_size'', YInt 8), (YStr ''tokens'', YList [YDict [(YStr ''name'', YStr ''Unlock''), (YStr ''value'', YStr ''0x5a'')]]),
     (YStr ''secded'', YDict [(YStr ''data_width'', YInt 8), (YStr ''ecc_width'', YInt 1),
        (YStr ''ecc_matrix'', YList [YList [YInt 0, YInt 1, YInt 2, YInt 3, YInt 4, YInt 5, YInt 6, YInt 7]])]),
     (YStr ''min_hw'', YInt 1), (YStr ''max_hw'', YStr ''9''), (YStr ''min_hd'', YInt 2)]"

definition demo_states :: "(string \<times> lc_states) list" where
  "demo_states = [(''lc_state'', [(''Raw'', [''0'']), (''Test'', [''A0'']), (''Prod'', [''B0''])]),
     (''lc_cnt'', [(''Zero'', [''0'']), (''One'', [''C0''])]), (''lc_id_state'', [(''Blank'', [])])]"

definition demo_bits :: "nat \<Rightarrow> nat" where
  "demo_bits i = (if i = 0 then 252 else 243)"

definition demo_enc :: lc_enc where
  "demo_enc = \<lparr>le_config = demo_cfg, le_states = demo_states, le_tokens = [(''Unlock'', 90), (''UnlockHashed'', 90)],
     le_genwords = [(''lc_state'', [(fmt_bits 9 252, fmt_bits 9 509)]), (''lc_cnt'', [(fmt_bits 9 243, fmt_bits 9 503)]), (''lc_id_state'', [])]\<rparr>"

lemma demo_init: "LcStEnc_init (\<lambda>data _ _. data) (\<lambda>_. 0) demo_dict demo_states demo_bits (\<lambda>_. hd) = Some (Inr demo_enc)"
  by code_simp

theorem encode_only_sets_bits_witness:
  "\<exists>n1 n2. LcStEnc_encode demo_enc ''lc_state'' ''Test'' = Inr n1 \<and> LcStEnc_encode demo_enc ''lc_state'' ''Prod'' = Inr n2 \<and>
    n1 AND n2 = n1 \<and> n1 < 2 ^ 8 \<and> n2 < 2 ^ 8"
proof -
  have c: "le_config demo_enc = demo_cfg" by (simp add: demo_enc_def)
  have r: "random_ok (le_config demo_enc) demo_bits (\<lambda>_. hd)" by (simp add: random_ok_def c demo_cfg_def demo_bits_def)
  have le: "state_le ''AB'' [''A0''] [''B0'']" by code_simp
  have w: "nat (sc_data_width (lc_secded demo_cfg)) = 8" by (simp add: demo_cfg_def)
  from encode_only_sets_bits [OF demo_init demo_cfg_ok [folded c] r, of "''lc_state''" "''AB''"
      "[(''Raw'', [''0'']), (''Test'', [''A0'']), (''Prod'', [''B0''])]" "''Test''" "[''A0'']" "''Prod''" "[''B0'']"]
  show ?thesis using le by (simp add: LC_STATE_TYPES_def demo_states_def c w)
qed

end
