(* ===== verification/Otp_Map.thy ===== *)
theory Otp_Map
  imports Lc_State
begin

text \<open>
  The memory map of the one-time programmable memory, \<^verbatim>\<open>util/design/lib/OtpMemMap.py\<close>.  The parsed description is a
  value of type \<^verbatim>\<open>yaml\<close>; the dictionaries that the code completes in place become records.  A field that
  the code stores without converting it keeps its parsed value.  What the random module returns is an
  argument \<open>draw\<close>, a function of the place that draws and of the number of bits.  Tables for the
  documentation are left out.
\<close>

section \<open>Data\<close>

datatype otp_draw = DrawKey nat | DrawIv nat | DrawCnst nat | DrawInv nat nat | DrawDigest nat | DrawValue nat nat nat

type_synonym draws = "otp_draw \<Rightarrow> int \<Rightarrow> nat"

record otp_geom =
  og_depth :: int
  og_width :: int
  og_size :: int
  og_addr_width :: int
  og_byte_addr_width :: int

record otp_key =
  ok_name :: yaml
  ok_value :: int

record otp_digest =
  od_name :: yaml
  od_iv_value :: int
  od_cnst_value :: int

record otp_scrambling =
  os_keys :: "otp_key list"
  os_digests :: "otp_digest list"

record otp_item =
  it_name :: yaml
  it_size :: int
  it_offset :: yaml
  it_isdigest :: yaml
  it_inv_default :: int
  it_value :: "yaml option"

record otp_part =
  op_name :: yaml
  op_offset :: yaml
  op_size :: int
  op_variant :: yaml
  op_secret :: bool
  op_sw_digest :: bool
  op_hw_digest :: bool
  op_bkout_type :: bool
  op_write_lock :: string
  op_read_lock :: string
  op_key_sel :: yaml
  op_lock :: "yaml option"
  op_items :: "otp_item list"

text \<open>The index of partitions and items by name.\<close>

type_synonym item_dict = "(yaml \<times> nat) list"
type_synonym part_dict = "(yaml \<times> nat \<times> item_dict) list"

record otp_map =
  om_otp :: otp_geom
  om_scrambling :: otp_scrambling
  om_partitions :: "otp_part list"
  om_part_dict :: part_dict

section \<open>Helpers\<close>

definition DIGEST_SUFFIX :: string where
  "DIGEST_SUFFIX = ''_DIGEST''"

definition DIGEST_SIZE :: int where
  "DIGEST_SIZE = 8"

definition common_check_bool :: "yaml \<Rightarrow> bool result" where
  "common_check_bool x =
     (case x of
        YBool b \<Rightarrow> Inr b
      | YStr s \<Rightarrow> if py_lower s \<notin> {''true'', ''false''} then Inl RuntimeError else Inr (py_lower s = ''true'')
      | _ \<Rightarrow> Inl AttributeError)"

text \<open>A value as an operand of integer arithmetic, as a dictionary that is completed, as a key of a dictionary.\<close>

definition raw_int :: "yaml \<Rightarrow> int result" where
  "raw_int y = (case y of YInt n \<Rightarrow> Inr n | YBool b \<Rightarrow> Inr (py_int b) | _ \<Rightarrow> Inl TypeError)"

definition as_dict :: "yaml \<Rightarrow> yaml_dict result" where
  "as_dict y = (case y of YDict d \<Rightarrow> Inr d | _ \<Rightarrow> Inl AttributeError)"

definition hashable :: "yaml \<Rightarrow> bool" where
  "hashable y = (case y of YList _ \<Rightarrow> False | YDict _ \<Rightarrow> False | _ \<Rightarrow> True)"

definition setdefault :: "yaml_dict \<Rightarrow> string \<Rightarrow> yaml \<Rightarrow> yaml_dict" where
  "setdefault d k v = (if ydict_get d k = None then d @ [(YStr k, v)] else d)"

text \<open>The elements of a list of dictionaries; the characters of a string and the keys of a dictionary cannot be completed.\<close>

definition iter_dicts :: "yaml \<Rightarrow> yaml list result" where
  "iter_dicts y =
     (case y of
        YList l \<Rightarrow> Inr l
      | YStr s \<Rightarrow> if s = [] then Inr [] else Inl AttributeError
      | YDict d \<Rightarrow> if d = [] then Inr [] else Inl AttributeError
      | _ \<Rightarrow> Inl TypeError)"

text \<open>\<^verbatim>\<open>ceil(log2(n))\<close> for a positive number that is small enough for floating point to be exact.\<close>

definition ceil_log2 :: "int \<Rightarrow> int" where
  "ceil_log2 n = (if n \<le> 1 then 0 else bit_length (nat (n - 1)))"

section \<open>Validation\<close>

definition validate_otp :: "yaml_dict \<Rightarrow> otp_geom result" where
  "validate_otp otp =
     bindR (common_check_int (get_or_default otp ''depth'' (YStr ''1024''))) (\<lambda>depth.
     bindR (common_check_int (get_or_default otp ''width'' (YStr ''2''))) (\<lambda>width.
     if depth \<le> 0 \<or> depth * width \<le> 0 then Inl ValueError
     else Inr \<lparr>og_depth = depth, og_width = width, og_size = depth * width, og_addr_width = ceil_log2 depth,
               og_byte_addr_width = ceil_log2 (depth * width)\<rparr>))"

definition validate_key :: "draws \<Rightarrow> int \<Rightarrow> nat \<times> yaml \<Rightarrow> otp_key result" where
  "validate_key draw key_size ky =
     (case ky of (k, y) \<Rightarrow>
        bindR (as_dict y) (\<lambda>d.
        bindR (random_or_hexvalue (draw (DrawKey k) (key_size * 8)) (setdefault d ''value'' (YStr ''<random>'')) ''value'' (key_size * 8)) (\<lambda>v.
        Inr \<lparr>ok_name = get_or_default d ''name'' (YStr ''unknown_key_name''), ok_value = v\<rparr>)))"

definition validate_digest :: "draws \<Rightarrow> int \<Rightarrow> int \<Rightarrow> nat \<times> yaml \<Rightarrow> otp_digest result" where
  "validate_digest draw iv_size cnst_size ky =
     (case ky of (k, y) \<Rightarrow>
        bindR (as_dict y) (\<lambda>d.
        bindR (random_or_hexvalue (draw (DrawIv k) (iv_size * 8)) (setdefault d ''iv_value'' (YStr ''<random>'')) ''iv_value'' (iv_size * 8)) (\<lambda>iv.
        bindR (random_or_hexvalue (draw (DrawCnst k) (cnst_size * 8)) (setdefault d ''cnst_value'' (YStr ''<random>'')) ''cnst_value''
                 (cnst_size * 8)) (\<lambda>cnst.
        Inr \<lparr>od_name = get_or_default d ''name'' (YStr ''unknown_key_name''), od_iv_value = iv, od_cnst_value = cnst\<rparr>))))"

definition validate_scrambling :: "draws \<Rightarrow> yaml_dict \<Rightarrow> otp_scrambling result" where
  "validate_scrambling draw scr =
     bindR (common_check_int (get_or_default scr ''key_size'' (YStr ''16''))) (\<lambda>key_size.
     bindR (common_check_int (get_or_default scr ''iv_size'' (YStr ''8''))) (\<lambda>iv_size.
     bindR (common_check_int (get_or_default scr ''cnst_size'' (YStr ''16''))) (\<lambda>cnst_size.
     case (ydict_get scr ''keys'', ydict_get scr ''digests'') of
       (Some keys, Some digests) \<Rightarrow>
         bindR (iter_dicts keys) (\<lambda>keys.
         bindR (mapR (validate_key draw key_size) (enumerate 0 keys)) (\<lambda>keys.
         bindR (iter_dicts digests) (\<lambda>digests.
         bindR (mapR (validate_digest draw iv_size cnst_size) (enumerate 0 digests)) (\<lambda>digests.
         Inr \<lparr>os_keys = keys, os_digests = digests\<rparr>))))
     | _ \<Rightarrow> Inl RuntimeError)))"

text \<open>The lower case of a lock setting, which must be a string.\<close>

definition lock_setting :: "yaml_dict \<Rightarrow> string \<Rightarrow> string result" where
  "lock_setting part k =
     (case get_or_default part k (YStr ''none'') of
        YStr s \<Rightarrow> if py_lower s \<in> {''digest'', ''csr'', ''none''} then Inr s else Inl RuntimeError
      | _ \<Rightarrow> Inl AttributeError)"

definition has_len :: "yaml \<Rightarrow> bool" where
  "has_len y = (case y of YStr _ \<Rightarrow> True | YList _ \<Rightarrow> True | YDict _ \<Rightarrow> True | _ \<Rightarrow> False)"

text \<open>The partition without its items.\<close>

definition validate_part :: "yaml_dict \<Rightarrow> int \<Rightarrow> yaml list \<Rightarrow> otp_part result" where
  "validate_part part offset key_names =
     bindR (common_check_bool (get_or_default part ''secret'' (YStr ''false''))) (\<lambda>secret.
     bindR (common_check_bool (get_or_default part ''sw_digest'' (YStr ''false''))) (\<lambda>sw_digest.
     bindR (common_check_bool (get_or_default part ''hw_digest'' (YStr ''false''))) (\<lambda>hw_digest.
     bindR (bindR (ydict_item part ''bkout_type'') common_check_bool) (\<lambda>bkout_type.
     bindR (common_check_int (get_or_default part ''size'' (YStr ''0''))) (\<lambda>size.
     let variant = get_or_default part ''variant'' (YStr ''Unbuffered'');
         key_sel = get_or_default part ''key_sel'' (YStr ''NoKey'');
         part_offset = get_or_default part ''offset'' (YInt offset)
     in if variant \<notin> {YStr ''Unbuffered'', YStr ''Buffered'', YStr ''LifeCycle''} then Inl RuntimeError
        else if key_sel \<notin> set (YStr ''NoKey'' # key_names) then Inl RuntimeError
        else if secret \<and> key_sel = YStr ''NoKey'' then Inl RuntimeError
        else
          bindR (lock_setting part ''write_lock'') (\<lambda>write_lock.
          bindR (lock_setting part ''read_lock'') (\<lambda>read_lock.
          if sw_digest \<and> hw_digest then Inl RuntimeError
          else if variant = YStr ''Unbuffered'' \<and> \<not> sw_digest then Inl RuntimeError
          else if \<not> sw_digest \<and> \<not> hw_digest \<and> (py_lower write_lock = ''digest'' \<or> py_lower read_lock = ''digest'') then Inl RuntimeError
          else
            bindR (common_check_int part_offset) (\<lambda>off.
            if off mod 8 \<noteq> 0 then Inl RuntimeError
            else if size mod 8 \<noteq> 0 then Inl RuntimeError
            else
              bindR (ydict_item part ''items'') (\<lambda>items.
              if \<not> has_len items then Inl TypeError
              else Inr \<lparr>op_name = get_or_default part ''name'' (YStr ''unknown_name''), op_offset = part_offset, op_size = size,
                        op_variant = variant, op_secret = secret, op_sw_digest = sw_digest, op_hw_digest = hw_digest,
                        op_bkout_type = bkout_type, op_write_lock = write_lock, op_read_lock = read_lock, op_key_sel = key_sel,
                        op_lock = ydict_get part ''lock'', op_items = []\<rparr>)))))))))"

definition validate_item :: "draws \<Rightarrow> nat \<Rightarrow> nat \<Rightarrow> yaml_dict \<Rightarrow> int \<Rightarrow> otp_item result" where
  "validate_item draw j k item offset =
     bindR (common_check_int (get_or_default item ''size'' (YStr ''0''))) (\<lambda>size.
     bindR (random_or_hexvalue (draw (DrawInv j k) (size * 8)) item ''inv_default'' (size * 8)) (\<lambda>inv.
     Inr \<lparr>it_name = get_or_default item ''name'' (YStr ''unknown_name''), it_size = size,
          it_offset = get_or_default item ''offset'' (YInt offset), it_isdigest = get_or_default item ''isdigest'' (YStr ''false''),
          it_inv_default = inv, it_value = ydict_get item ''value''\<rparr>))"

text \<open>The loop over the items of partition number \<open>j\<close>, from item number \<open>k\<close> on.\<close>

fun mmap_items :: "draws \<Rightarrow> nat \<Rightarrow> nat \<Rightarrow> int \<Rightarrow> item_dict \<Rightarrow> yaml list \<Rightarrow> (otp_item list \<times> item_dict \<times> int) result" where
  "mmap_items draw j k offset item_dict [] = Inr ([], item_dict, offset)"
| "mmap_items draw j k offset item_dict (y # ys) =
     bindR (as_dict y) (\<lambda>d.
     bindR (validate_item draw j k d offset) (\<lambda>item.
     if \<not> hashable (it_name item) then Inl TypeError
     else if map_of item_dict (it_name item) \<noteq> None then Inl RuntimeError
     else
       bindR (mmap_items draw j (k + 1) (offset + it_size item) (item_dict @ [(it_name item, k)]) ys) (\<lambda>(items, rest).
       Inr (item # items, rest))))"

text \<open>The digest in the last 64-bit word of a partition.\<close>

definition place_digest :: "draws \<Rightarrow> nat \<Rightarrow> otp_part \<Rightarrow> otp_item list \<times> item_dict \<times> int \<Rightarrow>
    (otp_item list \<times> item_dict \<times> int) result" where
  "place_digest draw j part st =
     (case st of (items, item_dict, offset) \<Rightarrow>
      if op_sw_digest part \<or> op_hw_digest part then
        bindR (case op_name part of YStr n \<Rightarrow> Inr (YStr (n @ DIGEST_SUFFIX)) | _ \<Rightarrow> Inl TypeError) (\<lambda>digest_name.
        if map_of item_dict digest_name \<noteq> None then Inl RuntimeError
        else
          bindR (common_check_int (op_offset part)) (\<lambda>off.
          let canonical_offset = off + op_size part - DIGEST_SIZE;
              item = \<lparr>it_name = digest_name, it_size = DIGEST_SIZE, it_offset = YInt canonical_offset, it_isdigest = YStr ''True'',
                      it_inv_default = int (draw (DrawDigest j) (DIGEST_SIZE * 8)), it_value = None\<rparr>
          in if offset > canonical_offset then bindR (raw_int (op_offset part)) (\<lambda>_. Inl RuntimeError)
             else Inr (items @ [item], item_dict @ [(digest_name, length items)], canonical_offset + DIGEST_SIZE)))
      else Inr st)"

text \<open>The body of the loop over the partitions: the partition, its entry in the index, and the offset after it.\<close>

definition mmap_part :: "draws \<Rightarrow> yaml list \<Rightarrow> nat \<Rightarrow> int \<Rightarrow> part_dict \<Rightarrow> yaml \<Rightarrow>
    (otp_part \<times> (yaml \<times> nat \<times> item_dict) \<times> int) result" where
  "mmap_part draw key_names j offset part_dict y =
     bindR (as_dict y) (\<lambda>d.
     bindR (validate_part d offset key_names) (\<lambda>part.
     if \<not> hashable (op_name part) then Inl TypeError
     else if map_of part_dict (op_name part) \<noteq> None then Inl RuntimeError
     else
       bindR (case ydict_get_or_None d ''items'' of YList l \<Rightarrow> Inr l | _ \<Rightarrow> Inl RuntimeError) (\<lambda>ys.
       bindR (mmap_items draw j 0 offset [] ys) (\<lambda>st.
       bindR (place_digest draw j part st) (\<lambda>(items, item_dict, offset').
       bindR (common_check_int (op_offset part)) (\<lambda>off.
       if offset' > off + op_size part then bindR (raw_int (op_offset part)) (\<lambda>_. Inl RuntimeError)
       else Inr (part\<lparr>op_items := items\<rparr>, (op_name part, j, item_dict), off + op_size part)))))))"

fun mmap_parts :: "draws \<Rightarrow> yaml list \<Rightarrow> nat \<Rightarrow> int \<Rightarrow> part_dict \<Rightarrow> yaml list \<Rightarrow> (otp_part list \<times> part_dict \<times> int) result" where
  "mmap_parts draw key_names j offset part_dict [] = Inr ([], part_dict, offset)"
| "mmap_parts draw key_names j offset part_dict (y # ys) =
     bindR (mmap_part draw key_names j offset part_dict y) (\<lambda>(part, entry, offset').
     bindR (mmap_parts draw key_names (j + 1) offset' (part_dict @ [entry]) ys) (\<lambda>(parts, rest).
     Inr (part # parts, rest)))"

definition validate_mmap :: "draws \<Rightarrow> yaml_dict \<Rightarrow> otp_geom \<Rightarrow> otp_scrambling \<Rightarrow> otp_map result" where
  "validate_mmap draw config otp scr =
     (case ydict_get_or_None config ''partitions'' of
        YList ys \<Rightarrow>
          bindR (mmap_parts draw (map ok_name (os_keys scr)) 0 0 [] ys) (\<lambda>(parts, part_dict, offset).
          if offset > og_size otp then Inl RuntimeError
          else Inr \<lparr>om_otp = otp, om_scrambling = scr, om_partitions = parts, om_part_dict = part_dict\<rparr>)
      | _ \<Rightarrow> Inl RuntimeError)"

section \<open>The map\<close>

definition OtpMemMap_init :: "draws \<Rightarrow> yaml_dict \<Rightarrow> otp_map result" where
  "OtpMemMap_init draw config =
     (if ydict_get config ''seed'' = None then Inl RuntimeError
      else
        bindR (common_check_int (ydict_get_or_None config ''seed'')) (\<lambda>seed.
        case (ydict_get config ''otp'', ydict_get config ''scrambling'', ydict_get config ''partitions'') of
          (Some otp, Some scr, Some _) \<Rightarrow>
            bindR (bindR (as_dict otp) validate_otp) (\<lambda>geom.
            bindR (bindR (as_dict scr) (validate_scrambling draw)) (\<lambda>scrambling.
            validate_mmap draw config geom scrambling))
        | _ \<Rightarrow> Inl RuntimeError))"

text \<open>The indices of a partition and of an item; the callers change what they find in place.\<close>

definition get_part :: "otp_map \<Rightarrow> yaml \<Rightarrow> nat option result" where
  "get_part m part_name =
     (if \<not> hashable part_name then Inl TypeError else Inr (map_option fst (map_of (om_part_dict m) part_name)))"

definition get_item :: "otp_map \<Rightarrow> yaml \<Rightarrow> yaml \<Rightarrow> (nat \<times> nat) option result" where
  "get_item m part_name item_name =
     (if \<not> hashable part_name then Inl TypeError
      else case map_of (om_part_dict m) part_name of
             None \<Rightarrow> Inr None
           | Some (j, items) \<Rightarrow>
               if \<not> hashable item_name then Inl TypeError else Inr (map_option (\<lambda>k. (j, k)) (map_of items item_name)))"

section \<open>Layout\<close>

text \<open>Items one after the other between two addresses.\<close>

fun items_at :: "int \<Rightarrow> otp_item list \<Rightarrow> int \<Rightarrow> bool" where
  "items_at a [] z \<longleftrightarrow> a \<le> z"
| "items_at a (item # items) z \<longleftrightarrow>
     (case it_offset item of YInt off \<Rightarrow> a \<le> off \<and> 0 \<le> it_size item \<and> items_at (off + it_size item) items z | _ \<Rightarrow> False)"

definition digest_last :: "otp_part \<Rightarrow> int \<Rightarrow> bool" where
  "digest_last p z \<longleftrightarrow> op_items p \<noteq> [] \<and> it_size (last (op_items p)) = DIGEST_SIZE \<and> it_offset (last (op_items p)) = YInt (z - DIGEST_SIZE)"

text \<open>Partitions side by side up to an address, each with its items inside and its digest at the end.\<close>

fun parts_at :: "int \<Rightarrow> otp_part list \<Rightarrow> int \<Rightarrow> bool" where
  "parts_at a [] z \<longleftrightarrow> a \<le> z"
| "parts_at a (p # ps) z \<longleftrightarrow>
     op_offset p = YInt a \<and> a mod 8 = 0 \<and> op_size p mod 8 = 0 \<and> items_at a (op_items p) (a + op_size p) \<and>
     (op_sw_digest p \<or> op_hw_digest p \<longrightarrow> digest_last p (a + op_size p)) \<and> parts_at (a + op_size p) ps z"

text \<open>The index of a partition and of its items.\<close>

definition index_items :: "nat \<Rightarrow> otp_item list \<Rightarrow> item_dict" where
  "index_items k items = zip (map it_name items) [k..<k + length items]"

definition index_parts :: "nat \<Rightarrow> otp_part list \<Rightarrow> part_dict" where
  "index_parts j parts = map (\<lambda>(j, p). (op_name p, j, index_items 0 (op_items p))) (enumerate j parts)"

definition part_names_ok :: "otp_part list \<Rightarrow> bool" where
  "part_names_ok parts \<longleftrightarrow> distinct (map op_name parts) \<and>
     list_all (\<lambda>p. hashable (op_name p) \<and> distinct (map it_name (op_items p)) \<and> list_all (\<lambda>it. hashable (it_name it)) (op_items p)) parts"

text \<open>Descriptions that leave the offsets to the tool.\<close>

definition no_offset :: "yaml \<Rightarrow> bool" where
  "no_offset y = (case y of YDict d \<Rightarrow> ydict_get d ''offset'' = None | _ \<Rightarrow> True)"

definition part_plain :: "yaml \<Rightarrow> bool" where
  "part_plain y \<longleftrightarrow> no_offset y \<and>
     (case y of YDict d \<Rightarrow> (case ydict_get_or_None d ''items'' of YList l \<Rightarrow> list_all no_offset l | _ \<Rightarrow> True) | _ \<Rightarrow> True)"

definition map_plain :: "yaml_dict \<Rightarrow> bool" where
  "map_plain config = (case ydict_get_or_None config ''partitions'' of YList l \<Rightarrow> list_all part_plain l | _ \<Rightarrow> True)"

definition sizes_ok :: "otp_item list \<Rightarrow> bool" where
  "sizes_ok items = list_all (\<lambda>it. 0 \<le> it_size it) items"

lemma index_items_simps [simp]:
  "index_items k [] = []"
  "index_items k (item # items) = (it_name item, k) # index_items (Suc k) items"
  by (simp_all add: index_items_def upt_conv_Cons del: upt_Suc)

lemma index_items_append: "index_items k (items @ [item]) = index_items k items @ [(it_name item, k + length items)]"
  by (induction items arbitrary: k) simp_all

lemma fst_index_items: "fst ` set (index_items k items) = it_name ` set items"
  by (induction items arbitrary: k) auto

lemma index_parts_simps [simp]:
  "index_parts j [] = []"
  "index_parts j (p # ps) = (op_name p, j, index_items 0 (op_items p)) # index_parts (Suc j) ps"
  by (simp_all add: index_parts_def)

lemma as_dict_Inr: "as_dict y = Inr d \<longleftrightarrow> y = YDict d"
  by (cases y) (auto simp: as_dict_def)

lemma get_or_default_None: "ydict_get d k = None \<Longrightarrow> get_or_default d k v = v"
  by (simp add: get_or_default_def)

lemma mmap_items_index:
  assumes "mmap_items draw j k offset dict ys = Inr (items, dict', offset')"
  shows "dict' = dict @ index_items k items \<and> distinct (map it_name items) \<and> it_name ` set items \<inter> fst ` set dict = {} \<and>
    list_all (\<lambda>it. hashable (it_name it)) items"
  using assms
proof (induction ys arbitrary: k offset dict items)
  case (Cons y ys)
  from Cons.prems obtain d item items' where
    item: "hashable (it_name item)" "map_of dict (it_name item) = None"
      "mmap_items draw j (k + 1) (offset + it_size item) (dict @ [(it_name item, k)]) ys = Inr (items', dict', offset')"
      "items = item # items'"
    by (auto simp: bindR_Inr_iff split: if_splits)
  have "it_name item \<notin> fst ` set dict" using item(2) by (simp add: map_of_eq_None_iff)
  with Cons.IH [OF item(3)] item show ?case by auto
qed simp

lemma mmap_items_layout:
  assumes "mmap_items draw j k offset dict ys = Inr (items, dict', offset')" and "list_all no_offset ys" and "sizes_ok items"
    and "offset' \<le> z"
  shows "items_at offset items z"
  using assms
proof (induction ys arbitrary: k offset dict items)
  case (Cons y ys)
  from Cons.prems(1) obtain d item items' where
    item: "y = YDict d" "validate_item draw j k d offset = Inr item" "items = item # items'"
      "mmap_items draw j (k + 1) (offset + it_size item) (dict @ [(it_name item, k)]) ys = Inr (items', dict', offset')"
    by (auto simp: bindR_Inr_iff as_dict_Inr split: if_splits)
  have "it_offset item = YInt offset" using item(1,2) Cons.prems(2)
    by (auto simp: validate_item_def bindR_Inr_iff no_offset_def get_or_default_None)
  with Cons.IH [OF item(4)] Cons.prems item(3) show ?case by (simp add: sizes_ok_def)
qed simp

lemma validate_part_facts:
  assumes "validate_part d offset key_names = Inr p"
  shows "op_offset p = get_or_default d ''offset'' (YInt offset)" and "op_size p mod 8 = 0"
    and "\<exists>off. common_check_int (op_offset p) = Inr off \<and> off mod 8 = 0"
    and "op_secret p \<longrightarrow> op_key_sel p \<in> set key_names" and "\<not> (op_sw_digest p \<and> op_hw_digest p)"
proof -
  from assms obtain secret sw hw bk size wl rl off items where
    p: "op_offset p = get_or_default d ''offset'' (YInt offset)" "common_check_int (get_or_default d ''offset'' (YInt offset)) = Inr off"
      "\<not> off mod 8 \<noteq> 0" "\<not> op_size p mod 8 \<noteq> 0"
      "\<not> op_key_sel p \<notin> set (YStr ''NoKey'' # key_names)" "\<not> (op_secret p \<and> op_key_sel p = YStr ''NoKey'')"
      "\<not> (op_sw_digest p \<and> op_hw_digest p)"
    unfolding validate_part_def Let_def bindR_Inr_iff if_Inl_iff sum.inject
    by (elim exE conjE, hypsubst) (rule that; simp only: otp_part.simps not_False_eq_True)
  then show "op_offset p = get_or_default d ''offset'' (YInt offset)" "op_size p mod 8 = 0"
    "\<exists>off. common_check_int (op_offset p) = Inr off \<and> off mod 8 = 0"
    "op_secret p \<longrightarrow> op_key_sel p \<in> set key_names" "\<not> (op_sw_digest p \<and> op_hw_digest p)" by auto
qed

lemma place_digest_index:
  assumes "place_digest draw j part (items, index_items 0 items, offset) = Inr (items', dict', offset')"
    and "distinct (map it_name items)" and "list_all (\<lambda>it. hashable (it_name it)) items"
  shows "dict' = index_items 0 items' \<and> distinct (map it_name items') \<and> list_all (\<lambda>it. hashable (it_name it)) items'"
  using assms
  by (auto simp: place_digest_def bindR_Inr_iff Let_def index_items_append map_of_eq_None_iff fst_index_items hashable_def
      split: if_splits yaml.splits)

lemma place_digest_items:
  "place_digest draw j part (items, dict, offset) = Inr (items', dict', offset') \<Longrightarrow> \<exists>ds. items' = items @ ds"
  by (auto simp: place_digest_def bindR_Inr_iff Let_def split: if_splits)

lemma items_at_append: "items_at a (items @ [item]) z \<longleftrightarrow> (\<exists>off. it_offset item = YInt off \<and> 0 \<le> it_size item \<and>
    items_at a items off \<and> off + it_size item \<le> z)"
  by (induction a items z rule: items_at.induct) (auto split: yaml.splits)

lemma place_digest_layout:
  assumes "place_digest draw j part (items, dict, offset) = Inr (items', dict', offset')" and "op_offset part = YInt a"
    and "\<And>z. offset \<le> z \<Longrightarrow> items_at a items z" and "offset' \<le> a + op_size part"
  shows "items_at a items' (a + op_size part) \<and>
    (op_sw_digest part \<or> op_hw_digest part \<longrightarrow> digest_last (part\<lparr>op_items := items'\<rparr>) (a + op_size part))"
  using assms
  by (auto simp: place_digest_def bindR_Inr_iff Let_def items_at_append digest_last_def common_check_int_def DIGEST_SIZE_def
      split: if_splits)

lemma mmap_part_facts:
  assumes "mmap_part draw key_names j offset dict y = Inr (p, entry, offset')"
  obtains d part ys items item_dict offset1 offset2 off where "y = YDict d" "validate_part d offset key_names = Inr part"
    "hashable (op_name part)" "map_of dict (op_name part) = None" "ydict_get_or_None d ''items'' = YList ys"
    "mmap_items draw j 0 offset [] ys = Inr (items, item_dict, offset1)"
    "place_digest draw j part (items, item_dict, offset1) = Inr (op_items p, snd (snd entry), offset2)"
    "p = part\<lparr>op_items := op_items p\<rparr>" "entry = (op_name part, j, snd (snd entry))"
    "common_check_int (op_offset part) = Inr off" "offset2 \<le> off + op_size part" "offset' = off + op_size part"
proof -
  from assms obtain d part ys st st' where
    1: "y = YDict d" "validate_part d offset key_names = Inr part" "hashable (op_name part)" "\<not> map_of dict (op_name part) \<noteq> None"
      "(case ydict_get_or_None d ''items'' of YList l \<Rightarrow> Inr l | _ \<Rightarrow> Inl RuntimeError) = Inr ys"
      "mmap_items draw j 0 offset [] ys = Inr st" "place_digest draw j part st = Inr st'" and
    2: "(case st' of (items, item_dict, offset') \<Rightarrow>
       bindR (common_check_int (op_offset part)) (\<lambda>off.
       if offset' > off + op_size part then bindR (raw_int (op_offset part)) (\<lambda>_. Inl RuntimeError)
       else Inr (part\<lparr>op_items := items\<rparr>, (op_name part, j, item_dict), off + op_size part))) = Inr (p, entry, offset')"
    unfolding mmap_part_def bindR_Inr_iff as_dict_Inr if_Inl_iff by blast
  obtain items item_dict offset1 where st: "st = (items, item_dict, offset1)" by (cases st)
  have none: "map_of dict (op_name part) = None" using 1(4) by blast
  have "ydict_get_or_None d ''items'' = YList ys" using 1(5) by (simp split: yaml.splits)
  moreover obtain off where "common_check_int (op_offset part) = Inr off" "snd (snd st') \<le> off + op_size part"
    "p = part\<lparr>op_items := fst st'\<rparr>" "entry = (op_name part, j, fst (snd st'))" "offset' = off + op_size part"
  proof -
    obtain a b c where st': "st' = (a, b, c)" by (cases st')
    from 2 obtain off where off: "common_check_int (op_offset part) = Inr off"
      "(if c > off + op_size part then bindR (raw_int (op_offset part)) (\<lambda>_. Inl RuntimeError)
        else Inr (part\<lparr>op_items := a\<rparr>, (op_name part, j, b), off + op_size part)) = Inr (p, entry, offset')"
      unfolding st' prod.case bindR_Inr_iff by blast
    have "bindR (raw_int (op_offset part)) (\<lambda>_. Inl RuntimeError) \<noteq> Inr (p, entry, offset')" by (simp add: bindR_Inr_iff)
    then have "c \<le> off + op_size part" using off(2) by (simp split: if_splits)
    then show thesis using that [of off] off by (simp add: st')
  qed
  ultimately show thesis using that [of d part ys items item_dict offset1 "snd (snd st')" off] 1(1-3,6,7) none st by simp
qed

lemma mmap_part_ok:
  assumes m: "mmap_part draw key_names j offset dict y = Inr (p, entry, offset')"
  shows "entry = (op_name p, j, index_items 0 (op_items p))" and "op_name p \<notin> fst ` set dict" and "part_names_ok [p]"
    and "part_plain y \<Longrightarrow> sizes_ok (op_items p) \<Longrightarrow>
      offset' = offset + op_size p \<and> (\<forall>ps z. parts_at offset' ps z \<longrightarrow> parts_at offset (p # ps) z)"
proof -
  from m obtain d part ys items item_dict offset1 offset2 off where
    y: "y = YDict d" "validate_part d offset key_names = Inr part"
    "hashable (op_name part)" "map_of dict (op_name part) = None" "ydict_get_or_None d ''items'' = YList ys" and
    i: "mmap_items draw j 0 offset [] ys = Inr (items, item_dict, offset1)"
    "place_digest draw j part (items, item_dict, offset1) = Inr (op_items p, snd (snd entry), offset2)" and
    p: "p = part\<lparr>op_items := op_items p\<rparr>" "entry = (op_name part, j, snd (snd entry))" and
    off: "common_check_int (op_offset part) = Inr off" "offset2 \<le> off + op_size part" "offset' = off + op_size part"
    by (rule mmap_part_facts)
  have same: "op_name p = op_name part" "op_size p = op_size part" "op_offset p = op_offset part"
    "op_sw_digest p = op_sw_digest part" "op_hw_digest p = op_hw_digest part" by (subst p(1), simp)+
  from mmap_items_index [OF i(1)] have ix: "item_dict = index_items 0 items" "distinct (map it_name items)"
    "list_all (\<lambda>it. hashable (it_name it)) items" by auto
  from place_digest_index [OF i(2) [unfolded ix(1)] ix(2,3)] have
    ix': "snd (snd entry) = index_items 0 (op_items p)" "distinct (map it_name (op_items p))"
      "list_all (\<lambda>it. hashable (it_name it)) (op_items p)" by auto
  show "entry = (op_name p, j, index_items 0 (op_items p))" using p(2) ix'(1) same by metis
  show "op_name p \<notin> fst ` set dict" using y(4) same by (simp add: map_of_eq_None_iff)
  show "part_names_ok [p]" using y(3) ix'(2,3) same by (simp add: part_names_ok_def)
  assume plain: "part_plain y" and sz: "sizes_ok (op_items p)"
  have o: "op_offset part = YInt offset"
    using validate_part_facts(1) [OF y(2)] plain y(1) by (simp add: part_plain_def no_offset_def get_or_default_None)
  have al: "offset mod 8 = 0" "op_size part mod 8 = 0"
    using validate_part_facts(2,3) [OF y(2)] o by (auto simp: common_check_int_def)
  have "off = offset" using off(1) o by (simp add: common_check_int_def)
  have "sizes_ok items" using place_digest_items [OF i(2)] sz by (auto simp: sizes_ok_def)
  moreover have "list_all no_offset ys" using plain y(1,5) by (simp add: part_plain_def)
  ultimately have at: "offset1 \<le> z \<Longrightarrow> items_at offset items z" for z using mmap_items_layout [OF i(1)] by blast
  have dg: "digest_last (part\<lparr>op_items := op_items p\<rparr>) z = digest_last p z" for z by (subst (2) p(1)) simp
  have "items_at offset (op_items p) (offset + op_size part) \<and>
      (op_sw_digest part \<or> op_hw_digest part \<longrightarrow> digest_last p (offset + op_size part))"
    using place_digest_layout [OF i(2) o at] off(2) \<open>off = offset\<close> unfolding dg by blast
  then show "offset' = offset + op_size p \<and> (\<forall>ps z. parts_at offset' ps z \<longrightarrow> parts_at offset (p # ps) z)"
    using off(3) \<open>off = offset\<close> o al same by simp
qed

lemma mmap_parts_ok:
  assumes "mmap_parts draw key_names j offset dict ys = Inr (parts, dict', offset')"
  shows "dict' = dict @ index_parts j parts \<and> part_names_ok parts \<and> op_name ` set parts \<inter> fst ` set dict = {} \<and>
    (list_all part_plain ys \<longrightarrow> list_all (\<lambda>p. sizes_ok (op_items p)) parts \<longrightarrow> (\<forall>z. offset' \<le> z \<longrightarrow> parts_at offset parts z))"
  using assms
proof (induction ys arbitrary: j offset dict parts)
  case (Cons y ys)
  from Cons.prems obtain p entry offset1 ps where
    p: "mmap_part draw key_names j offset dict y = Inr (p, entry, offset1)"
      "mmap_parts draw key_names (j + 1) offset1 (dict @ [entry]) ys = Inr (ps, dict', offset')" "parts = p # ps"
    by (auto simp: bindR_Inr_iff)
  note IH = Cons.IH [OF p(2)] and one = mmap_part_ok [OF p(1)]
  have "part_names_ok (p # ps)" using IH one(1,3) by (auto simp: part_names_ok_def)
  then show ?case using IH one(1,2) one(4) p(3) by auto
qed (simp add: part_names_ok_def)

lemma OtpMemMap_init_facts:
  assumes "OtpMemMap_init draw config = Inr m"
  shows "0 < og_depth (om_otp m)" and "0 < og_width (om_otp m)" and "og_size (om_otp m) = og_depth (om_otp m) * og_width (om_otp m)"
    and "om_part_dict m = index_parts 0 (om_partitions m)" and "part_names_ok (om_partitions m)"
    and "map_plain config \<Longrightarrow> list_all (\<lambda>p. sizes_ok (op_items p)) (om_partitions m) \<Longrightarrow> parts_at 0 (om_partitions m) (og_size (om_otp m))"
proof -
  from assms obtain otp geom scr where o: "validate_otp otp = Inr geom" "validate_mmap draw config geom scr = Inr m"
    by (auto simp: OtpMemMap_init_def bindR_Inr_iff split: if_splits option.splits)
  then obtain ys parts dict offset where
    p: "ydict_get_or_None config ''partitions'' = YList ys" "mmap_parts draw (map ok_name (os_keys scr)) 0 0 [] ys = Inr (parts, dict, offset)"
      "offset \<le> og_size geom" "m = \<lparr>om_otp = geom, om_scrambling = scr, om_partitions = parts, om_part_dict = dict\<rparr>"
    by (auto simp: validate_mmap_def bindR_Inr_iff split: yaml.splits if_splits)
  have g: "0 < og_depth geom" "0 < og_size geom" "og_size geom = og_depth geom * og_width geom"
    using o(1) by (auto simp: validate_otp_def bindR_Inr_iff split: if_splits)
  then show "0 < og_depth (om_otp m)" "og_size (om_otp m) = og_depth (om_otp m) * og_width (om_otp m)" using p(4) by simp_all
  show "0 < og_width (om_otp m)" using g p(4) by (simp add: zero_less_mult_iff)
  from mmap_parts_ok [OF p(2)] p(4) show "om_part_dict m = index_parts 0 (om_partitions m)" "part_names_ok (om_partitions m)" by auto
  assume "map_plain config" and "list_all (\<lambda>p. sizes_ok (op_items p)) (om_partitions m)"
  then show "parts_at 0 (om_partitions m) (og_size (om_otp m))" using mmap_parts_ok [OF p(2)] p(1,3,4) by (simp add: map_plain_def)
qed

lemma index_parts_nth: "i < length parts \<Longrightarrow> index_parts j parts ! i = (op_name (parts ! i), j + i, index_items 0 (op_items (parts ! i)))"
  by (simp add: index_parts_def nth_enumerate_eq)

lemma map_fst_index: "map fst (index_parts j parts) = map op_name parts" "map fst (index_items k items) = map it_name items"
  by (induction parts arbitrary: j, simp_all, induction items arbitrary: k, simp_all)

lemma get_item_ok:
  assumes d: "om_part_dict m = index_parts 0 (om_partitions m)" and n: "part_names_ok (om_partitions m)" and j: "j < length (om_partitions m)"
  shows "get_part m (op_name (om_partitions m ! j)) = Inr (Some j)"
    and "k < length (op_items (om_partitions m ! j)) \<Longrightarrow>
      get_item m (op_name (om_partitions m ! j)) (it_name (op_items (om_partitions m ! j) ! k)) = Inr (Some (j, k))"
proof -
  let ?p = "om_partitions m ! j"
  have p: "hashable (op_name ?p)" "distinct (map it_name (op_items ?p))" "list_all (\<lambda>it. hashable (it_name it)) (op_items ?p)"
    using n j by (auto simp: part_names_ok_def list_all_length)
  have "(op_name ?p, j, index_items 0 (op_items ?p)) \<in> set (om_part_dict m)"
    using j index_parts_nth [OF j, of 0] nth_mem [of j "index_parts 0 (om_partitions m)"] by (simp add: d index_parts_def)
  then have mp: "map_of (om_part_dict m) (op_name ?p) = Some (j, index_items 0 (op_items ?p))"
    using n by (intro map_of_is_SomeI) (simp_all add: d map_fst_index part_names_ok_def)
  then show "get_part m (op_name ?p) = Inr (Some j)" using p(1) by (simp add: get_part_def)
  assume k: "k < length (op_items ?p)"
  have "(it_name (op_items ?p ! k), k) \<in> set (index_items 0 (op_items ?p))"
    using k by (auto simp: index_items_def in_set_zip intro!: exI [of _ k])
  then have "map_of (index_items 0 (op_items ?p)) (it_name (op_items ?p ! k)) = Some k"
    using p(2) by (intro map_of_is_SomeI) (simp_all add: map_fst_index)
  then show "get_item m (op_name ?p) (it_name (op_items ?p ! k)) = Inr (Some (j, k))"
    using mp p(1,3) k by (simp add: get_item_def list_all_length)
qed

text \<open>
  C13: In the memory map that the tool makes of an accepted description without offsets, with item sizes that are not
  negative, the partitions lie side by side from address 0 on inside the memory, at addresses and with sizes
  that are multiples of 8; in each partition the items lie one after the other, and a digest is its last eight
  bytes.  Partitions and items are found under their names.
\<close>

theorem otp_map_layout:
  assumes "OtpMemMap_init draw config = Inr m" and "map_plain config"
    and "list_all (\<lambda>p. sizes_ok (op_items p)) (om_partitions m)"
  shows "parts_at 0 (om_partitions m) (og_size (om_otp m)) \<and>
    (\<forall>j<length (om_partitions m). get_part m (op_name (om_partitions m ! j)) = Inr (Some j) \<and>
      (\<forall>k<length (op_items (om_partitions m ! j)).
        get_item m (op_name (om_partitions m ! j)) (it_name (op_items (om_partitions m ! j) ! k)) = Inr (Some (j, k))))"
  using OtpMemMap_init_facts [OF assms(1)] assms(2,3) get_item_ok by blast

definition demo_config :: "yaml_dict \<Rightarrow> yaml_dict" where
  "demo_config extra =
     [(YStr ''seed'', YStr ''1''), (YStr ''otp'', YDict [(YStr ''depth'', YStr ''16''), (YStr ''width'', YStr ''2'')]),
      (YStr ''scrambling'', YDict [
        (YStr ''keys'', YList [YDict [(YStr ''name'', YStr ''Key''), (YStr ''value'', YStr ''0x0123456789abcdef'')]]),
        (YStr ''digests'', YList [YDict [(YStr ''name'', YStr ''Cnsty''), (YStr ''iv_value'', YStr ''0x77''), (YStr ''cnst_value'', YStr ''0x99'')]])]),
      (YStr ''partitions'', YList [
        YDict [(YStr ''name'', YStr ''VENDOR''), (YStr ''sw_digest'', YStr ''true''), (YStr ''size'', YStr ''16''), (YStr ''bkout_type'', YStr ''false''),
          (YStr ''items'', YList [YDict [(YStr ''name'', YStr ''A''), (YStr ''size'', YStr ''4'')], YDict [(YStr ''name'', YStr ''B''), (YStr ''size'', YStr ''2'')]])],
        YDict (extra @ [(YStr ''name'', YStr ''SECRET''), (YStr ''variant'', YStr ''Buffered''), (YStr ''secret'', YStr ''true''), (YStr ''hw_digest'', YStr ''true''),
          (YStr ''key_sel'', YStr ''Key''), (YStr ''size'', YStr ''16''), (YStr ''bkout_type'', YStr ''false''),
          (YStr ''items'', YList [YDict [(YStr ''name'', YStr ''S''), (YStr ''size'', YStr ''8'')]])])])]"

definition demo_draw :: draws where
  "demo_draw site bits = 0"

definition demo_map :: otp_map where
  "demo_map = (case OtpMemMap_init demo_draw (demo_config []) of Inr m \<Rightarrow> m
     | Inl _ \<Rightarrow> \<lparr>om_otp = \<lparr>og_depth = 0, og_width = 0, og_size = 0, og_addr_width = 0, og_byte_addr_width = 0\<rparr>,
         om_scrambling = \<lparr>os_keys = [], os_digests = []\<rparr>, om_partitions = [], om_part_dict = []\<rparr>)"

lemma demo_map: "OtpMemMap_init demo_draw (demo_config []) = Inr demo_map"
  by code_simp

lemma demo_plain: "map_plain (demo_config [])"
  by code_simp

theorem otp_map_layout_witness:
  "parts_at 0 (om_partitions demo_map) 32 \<and> get_item demo_map (YStr ''SECRET'') (YStr ''SECRET_DIGEST'') = Inr (Some (1, 1))"
proof -
  have "list_all (\<lambda>p. sizes_ok (op_items p)) (om_partitions demo_map)" by code_simp
  note l = otp_map_layout [OF demo_map demo_plain this]
  have "og_size (om_otp demo_map) = 32" "length (om_partitions demo_map) = 2" "length (op_items (om_partitions demo_map ! 1)) = 2"
    "op_name (om_partitions demo_map ! 1) = YStr ''SECRET''" "it_name (op_items (om_partitions demo_map ! 1) ! 1) = YStr ''SECRET_DIGEST''"
    by code_simp+
  then show ?thesis using l [THEN conjunct1] l [THEN conjunct2, rule_format, of 1, THEN conjunct2, rule_format, of 1] by simp
qed

text \<open>
  An offset in the description is not compared with the end of the partition before: two partitions may
  overlap.  And the items of a partition with an offset of its own still start where the partition before
  ended, so they may lie outside of it.
\<close>

lemma explicit_offset_overlaps:
  "map_sum id (\<lambda>m. map (\<lambda>p. (op_offset p, op_size p)) (om_partitions m))
     (OtpMemMap_init demo_draw (demo_config [(YStr ''offset'', YInt 8), (YStr ''size'', YInt 24)])) = Inr [(YInt 0, 16), (YInt 8, 24)]"
  by code_simp

lemma explicit_offset_item_outside:
  "map_sum id (\<lambda>m. map (\<lambda>p. (op_offset p, map it_offset (op_items p))) (om_partitions m))
     (OtpMemMap_init demo_draw (demo_config [(YStr ''offset'', YInt 24), (YStr ''size'', YInt 8)])) =
   Inr [(YInt 0, [YInt 0, YInt 4, YInt 8]), (YInt 24, [YInt 16, YInt 24])]"
  by code_simp

end
