(* ===== verification/Otp_Img.thy ===== *)
theory Otp_Img
  imports Otp_Map Mem_File Present
begin

text \<open>
  The image of the one-time programmable memory, \<^verbatim>\<open>util/design/lib/OtpMemImg.py\<close>: values are merged into
  the memory map, partitions are scrambled with PRESENT and locked with a digest, and the memory words are
  written with check bits as a text file.  A byte is an integer below 256.
\<close>

section \<open>Scrambling and digests\<close>

definition present_64bit_encrypt :: "int \<Rightarrow> int \<Rightarrow> int result" where
  "present_64bit_encrypt plain key =
     require (plain \<ge> 0 \<and> plain < 2 ^ 64) (require (key \<ge> 0 \<and> key < 2 ^ 128)
       (bindR (Present_init key 32 128) (\<lambda>cipher. Present_encrypt cipher plain)))"

fun digest_loop :: "int \<Rightarrow> int option \<Rightarrow> int list \<Rightarrow> int result" where
  "digest_loop state last_b64 [] = require (last_b64 = None) (Inr state)"
| "digest_loop state None (b64 # bs) = digest_loop state (Some b64) bs"
| "digest_loop state (Some last_b64) (b64 # bs) =
     bindR (present_64bit_encrypt state (last_b64 + push_bit 64 b64)) (\<lambda>e. digest_loop (state XOR e) None bs)"

definition present_64bit_digest :: "int list \<Rightarrow> int \<Rightarrow> int \<Rightarrow> int result" where
  "present_64bit_digest data_blocks iv const =
     (let data_blocks = (if length data_blocks mod 2 = 1 then data_blocks @ [last data_blocks] else data_blocks)
      in digest_loop iv None (data_blocks @ [const AND 0xFFFFFFFFFFFFFFFF, drop_bit 64 const AND 0xFFFFFFFFFFFFFFFF]))"

section \<open>The hex file\<close>

text \<open>The distinct elements of a list in the order of their first occurrence, as the keys of a dictionary.\<close>

definition uniques :: "'a list \<Rightarrow> 'a list" where
  "uniques xs = rev (remdups (rev xs))"

definition hex_line :: "int list \<Rightarrow> string list \<Rightarrow> lc_secded_cfg \<Rightarrow> nat \<Rightarrow> nat \<Rightarrow> nat \<Rightarrow> string result" where
  "hex_line data annotation cfg bytes_per_word bytes_per_word_ecc k =
     (let idxs = map (\<lambda>j. k * bytes_per_word + j) [0..<bytes_per_word];
          word = foldl (\<lambda>word (j, idx). word + push_bit (j * 8) (data ! idx)) 0 (enumerate 0 idxs);
          annotation_str = '' // '' @ fmt_x [] 6 (int (k * bytes_per_word)) @ '': '' @ str_join '', '' (uniques (map (\<lambda>idx. annotation ! idx) idxs))
      in bindR (ecc_encode cfg (fmt_bits (nat (sc_data_width cfg)) (nat word))) (\<lambda>word_bin.
         Inr (fmt_x [] (bytes_per_word_ecc * 2) (int (bits_val word_bin)) @ annotation_str @ [CHR 0x0A])))"

definition to_hexfile_with_ecc :: "int list \<Rightarrow> string list \<Rightarrow> lc_secded_cfg \<Rightarrow> string result" where
  "to_hexfile_with_ecc data annotation cfg =
     require (sc_data_width cfg mod 8 = 0) (require (sc_data_width cfg \<le> 64)
       (if sc_data_width cfg = 0 then Inl ZeroDivisionError
        else
          let num_words = int (length data) * 8 div sc_data_width cfg; bytes_per_word = sc_data_width cfg div 8;
              bytes_per_word_ecc = (sc_data_width cfg + sc_ecc_width cfg + 7) div 8
          in bindR (mapR (hex_line data annotation cfg (nat bytes_per_word) (nat bytes_per_word_ecc)) [0..<nat num_words]) (\<lambda>ls.
             Inr (''// OTP memory hexfile with '' @ str_of_int num_words @ '' x '' @ str_of_int (bytes_per_word_ecc * 8) @ ''bit layout'' @ [CHR 0x0A] @
                  concat ls))))"

section \<open>Merging values\<close>

record otp_img =
  oi_map :: otp_map
  oi_lc_state :: lc_enc

definition check_unused_keys :: "yaml_dict \<Rightarrow> string list \<Rightarrow> unit result" where
  "check_unused_keys d known = (if list_all (\<lambda>(k, _). k \<in> YStr ` set known) d then Inr () else Inl RuntimeError)"

text \<open>\<^verbatim>\<open>str(state)\<close>; no declared state has the printed form of a list or a dictionary as its name.\<close>

definition state_name :: "yaml \<Rightarrow> string option" where
  "state_name y =
     (case y of
        YStr s \<Rightarrow> Some s
      | YInt n \<Rightarrow> Some (str_of_int n)
      | YBool b \<Rightarrow> Some (if b then ''True'' else ''False'')
      | YNone \<Rightarrow> Some ''None''
      | _ \<Rightarrow> None)"

definition upd_part :: "nat \<Rightarrow> (otp_part \<Rightarrow> otp_part) \<Rightarrow> otp_img \<Rightarrow> otp_img" where
  "upd_part j f img = img\<lparr>oi_map := (oi_map img)\<lparr>om_partitions := (om_partitions (oi_map img))[j := f (om_partitions (oi_map img) ! j)]\<rparr>\<rparr>"

text \<open>The image with the lock bit of the partition, its name, and the items to merge.\<close>

definition merge_part_data :: "yaml_dict \<Rightarrow> otp_img \<Rightarrow> (otp_img \<times> yaml \<times> yaml list) result" where
  "merge_part_data part img =
     (case get_or_default part ''items'' (YList []) of
        YList items \<Rightarrow>
          let name = get_or_default part ''name'' (YStr ''unknown_name'')
          in bindR (get_part (oi_map img) name) (\<lambda>idx.
             case idx of
               None \<Rightarrow> Inl RuntimeError
             | Some j \<Rightarrow>
                 bindR (common_check_bool (get_or_default part ''lock'' (YStr ''false''))) (\<lambda>lock.
                 if lock \<and> \<not> op_hw_digest (om_partitions (oi_map img) ! j) then Inl RuntimeError
                 else
                   let img' = upd_part j (\<lambda>p. p\<lparr>op_lock := Some (YBool lock)\<rparr>) img
                   in if name = YStr ''LIFE_CYCLE'' then
                        let state = get_or_default part ''state'' (YStr ''RAW'')
                        in bindR (common_check_int (get_or_default part ''count'' (YInt 0))) (\<lambda>count.
                           if items \<noteq> [] then Inl RuntimeError
                           else if lock then Inl RuntimeError
                           else if count = 0 \<and> state \<noteq> YStr ''RAW'' then Inl RuntimeError
                           else
                             bindR (case state_name state of None \<Rightarrow> Inl RuntimeError | Some s \<Rightarrow> LcStEnc_encode (oi_lc_state img) ''lc_state'' s) (\<lambda>st.
                             bindR (LcStEnc_encode (oi_lc_state img) ''lc_cnt'' (str_of_int count)) (\<lambda>cnt.
                             bindR (check_unused_keys part [''state'', ''count'', ''items'', ''name'', ''lock'']) (\<lambda>_.
                             Inr (img', name,
                               [YDict [(YStr ''name'', YStr ''LC_STATE''), (YStr ''value'', YStr (''0x'' @ fmt_X 0 (int st)))],
                                YDict [(YStr ''name'', YStr ''LC_TRANSITION_CNT''), (YStr ''value'', YStr (''0x'' @ fmt_X 0 (int cnt)))]])))))
                      else
                        bindR (check_unused_keys part [''items'', ''name'', ''lock'']) (\<lambda>_.
                        Inr (img', name, items))))
      | _ \<Rightarrow> Inl RuntimeError)"

definition merge_item_data :: "(int \<Rightarrow> nat) \<Rightarrow> yaml \<Rightarrow> yaml_dict \<Rightarrow> otp_img \<Rightarrow> otp_img result" where
  "merge_item_data rnd part_name item img =
     bindR (get_item (oi_map img) part_name (get_or_default item ''name'' (YStr ''unknown_name''))) (\<lambda>idx.
     case idx of
       None \<Rightarrow> Inl RuntimeError
     | Some (j, k) \<Rightarrow>
         let item_size = it_size (op_items (om_partitions (oi_map img) ! j) ! k)
         in bindR (random_or_hexvalue (rnd (item_size * 8)) item ''value'' (item_size * 8)) (\<lambda>v.
            if item_size < 0 then Inl ValueError
            else
              bindR (check_unused_keys item [''name'', ''value'']) (\<lambda>_.
              Inr (upd_part j (\<lambda>p. p\<lparr>op_items := (op_items p)[k := (op_items p ! k)\<lparr>it_value := Some (YInt v)\<rparr>]\<rparr>) img))))"

text \<open>The loops over the partitions and items of configuration number \<open>c\<close>.\<close>

fun merge_items :: "draws \<Rightarrow> nat \<Rightarrow> nat \<Rightarrow> nat \<Rightarrow> yaml \<Rightarrow> yaml list \<Rightarrow> otp_img \<Rightarrow> otp_img result" where
  "merge_items draw c j k part_name [] img = Inr img"
| "merge_items draw c j k part_name (y # ys) img =
     bindR (as_dict y) (\<lambda>item.
     bindR (merge_item_data (draw (DrawValue c j k)) part_name item img) (\<lambda>img'.
     merge_items draw c j (k + 1) part_name ys img'))"

fun merge_parts :: "draws \<Rightarrow> nat \<Rightarrow> nat \<Rightarrow> yaml list \<Rightarrow> otp_img \<Rightarrow> otp_img result" where
  "merge_parts draw c j [] img = Inr img"
| "merge_parts draw c j (y # ys) img =
     bindR (as_dict y) (\<lambda>part.
     bindR (merge_part_data part img) (\<lambda>(img', name, items).
     bindR (merge_items draw c j 0 name items img') (\<lambda>img''.
     merge_parts draw c (j + 1) ys img'')))"

text \<open>The smoke test of the cipher, which the constructor runs.\<close>

definition smoke_test :: "int result" where
  "smoke_test = present_64bit_encrypt 0x0123456789abcdef 0x0123456789abcdef0123456789abcdef"

definition OtpMemImg_init :: "hash_fun \<Rightarrow> (nat \<Rightarrow> nat) \<Rightarrow> draws \<Rightarrow> yaml_dict \<Rightarrow> (string \<times> lc_states) list \<Rightarrow> (nat \<Rightarrow> nat) \<Rightarrow>
    (nat \<Rightarrow> bitstr list \<Rightarrow> bitstr) \<Rightarrow> yaml_dict \<Rightarrow> yaml_dict \<Rightarrow> otp_img result option" where
  "OtpMemImg_init cSHAKE128 token_bits draw lc_config states getrandbits choice otp_mmap_config img_config =
     (case OtpMemMap_init draw otp_mmap_config of
        Inl e \<Rightarrow> Some (Inl e)
      | Inr m \<Rightarrow>
          map_option (\<lambda>r.
            bindR r (\<lambda>lc.
            bindR smoke_test (\<lambda>enc_test.
            require (enc_test = 0x0e9d28685e671dd6)
              (if og_width (om_otp m) * 8 \<noteq> sc_data_width (lc_secded (le_config lc)) then Inl RuntimeError
               else if ydict_get img_config ''seed'' = None then Inl RuntimeError
               else
                 bindR (common_check_int (ydict_get_or_None img_config ''seed'')) (\<lambda>seed.
                 case ydict_get img_config ''partitions'' of
                   None \<Rightarrow> Inl RuntimeError
                 | Some ps \<Rightarrow>
                     bindR (iter_dicts ps) (\<lambda>ps.
                     bindR (merge_parts draw 0 0 ps \<lparr>oi_map = m, oi_lc_state = lc\<rparr>) (\<lambda>img.
                     bindR (check_unused_keys img_config [''seed'', ''partitions'']) (\<lambda>_. Inr img)))))))
          ) (LcStEnc_init cSHAKE128 token_bits lc_config states getrandbits choice))"

definition override_data :: "draws \<Rightarrow> nat \<Rightarrow> yaml_dict \<Rightarrow> otp_img \<Rightarrow> otp_img result" where
  "override_data draw c img_config img =
     (case ydict_get img_config ''partitions'' of
        None \<Rightarrow> Inl RuntimeError
      | Some (YList ps) \<Rightarrow>
          bindR (merge_parts draw c 0 ps img) (\<lambda>img'.
          if ydict_get img_config ''seed'' = None then Inl KeyError
          else bindR (check_unused_keys img_config [''seed'', ''partitions'']) (\<lambda>_. Inr img'))
      | Some _ \<Rightarrow> Inl RuntimeError)"

text \<open>The additional configurations that the command line names, in order.\<close>

fun override_all :: "draws \<Rightarrow> nat \<Rightarrow> yaml_dict list \<Rightarrow> otp_img \<Rightarrow> otp_img result" where
  "override_all draw c [] img = Inr img"
| "override_all draw c (cfg # cfgs) img = bindR (override_data draw c cfg img) (override_all draw (c + 1) cfgs)"

section \<open>Streaming out\<close>

text \<open>The bytes of a partition, their comments, and which of them are defined.\<close>

type_synonym part_bytes = "int list \<times> string list \<times> bool list"

definition name_str :: "yaml \<Rightarrow> string result" where
  "name_str y = (case y of YStr s \<Rightarrow> Inr s | _ \<Rightarrow> Inl TypeError)"

definition put_byte :: "otp_part \<Rightarrow> otp_item \<Rightarrow> nat \<Rightarrow> part_bytes \<Rightarrow> part_bytes result" where
  "put_byte part item k st =
     (case st of (data_bytes, annotation, defd) \<Rightarrow>
        bindR (raw_int (it_offset item)) (\<lambda>item_offset.
        bindR (raw_int (op_offset part)) (\<lambda>part_offset.
        let idx = item_offset - part_offset + int k
        in bindR (name_str (op_name part)) (\<lambda>part_name.
           bindR (name_str (it_name item)) (\<lambda>item_name.
           bindR (py_setitem annotation idx (part_name @ '': '' @ item_name)) (\<lambda>annotation.
           case it_value item of
             None \<Rightarrow> Inr (data_bytes, annotation, defd)
           | Some v \<Rightarrow>
               bindR (raw_int v) (\<lambda>v.
               bindR (py_setitem data_bytes idx (drop_bit (8 * k) v AND 0xFF)) (\<lambda>data_bytes.
               bindR (py_getitem defd idx) (\<lambda>d.
               require (\<not> d) (bindR (py_setitem defd idx True) (\<lambda>defd. Inr (data_bytes, annotation, defd))))))))))))"

fun put_bytes :: "otp_part \<Rightarrow> otp_item \<Rightarrow> nat list \<Rightarrow> part_bytes \<Rightarrow> part_bytes result" where
  "put_bytes part item [] st = Inr st"
| "put_bytes part item (k # ks) st = bindR (put_byte part item k st) (put_bytes part item ks)"

fun put_items :: "otp_part \<Rightarrow> otp_item list \<Rightarrow> part_bytes \<Rightarrow> part_bytes result" where
  "put_items part [] st = Inr st"
| "put_items part (item # items) st = bindR (put_bytes part item [0..<nat (it_size item)] st) (put_items part items)"

text \<open>Block number \<open>k\<close> of a list of bytes, and whether one of its bytes is defined.\<close>

definition data_block :: "int list \<Rightarrow> nat \<Rightarrow> int" where
  "data_block bs k = foldl (\<lambda>v i. v + push_bit (8 * i) (bs ! (8 * k + i))) 0 [0..<8]"

definition block_defined :: "bool list \<Rightarrow> nat \<Rightarrow> bool" where
  "block_defined ds k = list_ex (\<lambda>i. ds ! (8 * k + i)) [0..<8]"

definition scramble_blocks :: "otp_scrambling \<Rightarrow> otp_part \<Rightarrow> bool list \<Rightarrow> int list \<Rightarrow> int list result" where
  "scramble_blocks scr part block_defd data_blocks =
     (if op_secret part then
        (case find (\<lambda>key. ok_name key = op_key_sel part) (os_keys scr) of
           None \<Rightarrow> Inl RuntimeError
         | Some key \<Rightarrow>
             mapR (\<lambda>(b, d). if d then present_64bit_encrypt b (ok_value key) else Inr b) (zip data_blocks block_defd))
      else Inr data_blocks)"

definition lock_blocks :: "otp_scrambling \<Rightarrow> otp_part \<Rightarrow> int list \<Rightarrow> int list result" where
  "lock_blocks scr part data_blocks =
     (if op_hw_digest part then
        (if data_blocks = [] then Inl IndexError
         else if last data_blocks \<noteq> 0 then Inl RuntimeError
         else if (case op_lock part of None \<Rightarrow> False | Some l \<Rightarrow> yaml_truthy l) then
           (case os_digests scr of
              [] \<Rightarrow> Inl IndexError
            | dig # _ \<Rightarrow>
                bindR (present_64bit_digest (butlast data_blocks) (od_iv_value dig) (od_cnst_value dig)) (\<lambda>d.
                Inr (butlast data_blocks @ [d])))
         else Inr data_blocks)
      else Inr data_blocks)"

definition streamout_partition :: "otp_scrambling \<Rightarrow> otp_part \<Rightarrow> (int list \<times> string list) result" where
  "streamout_partition scr part =
     require (op_size part mod 8 = 0)
       (let n = nat (op_size part)
        in bindR (put_items part (op_items part) (replicate n 0, replicate n ''unallocated'', replicate n False)) (\<lambda>(data_bytes, annotation, defd).
           let ks = [0..<n div 8]
           in bindR (scramble_blocks scr part (map (block_defined defd) ks) (map (data_block data_bytes) ks)) (\<lambda>data_blocks.
              bindR (lock_blocks scr part data_blocks) (\<lambda>data_blocks.
              let data = concat (map (\<lambda>block. map (\<lambda>k. drop_bit (8 * k) block AND 0xFF) [0..<8]) data_blocks)
              in require (int (length data) = op_size part) (Inr (data, annotation))))))"

text \<open>\<^verbatim>\<open>xs[lo:hi] = ys\<close>\<close>

definition py_slice_set :: "'a list \<Rightarrow> int \<Rightarrow> int \<Rightarrow> 'a list \<Rightarrow> 'a list" where
  "py_slice_set xs lo hi ys =
     (let n = int (length xs); clip = (\<lambda>i. if i < 0 then max 0 (i + n) else min i n); a = nat (clip lo); b = max a (nat (clip hi))
      in take a xs @ ys @ drop b xs)"

fun streamout_parts :: "otp_scrambling \<Rightarrow> int \<Rightarrow> otp_part list \<Rightarrow> int list \<times> string list \<Rightarrow> (int list \<times> string list) result" where
  "streamout_parts scr otp_size [] st = Inr st"
| "streamout_parts scr otp_size (part # parts) (data, annotation) =
     bindR (streamout_partition scr part) (\<lambda>(part_data, part_annotation).
     bindR (raw_int (op_offset part)) (\<lambda>idx_low.
     require (idx_low \<le> otp_size)
       (let idx_high = idx_low + op_size part
        in streamout_parts scr otp_size parts
             (py_slice_set data idx_low idx_high part_data, py_slice_set annotation idx_low idx_high part_annotation))))"

definition streamout_hexfile :: "otp_img \<Rightarrow> string result" where
  "streamout_hexfile img =
     (let m = oi_map img; otp_size = og_size (om_otp m); n = nat otp_size
      in bindR (streamout_parts (om_scrambling m) otp_size (om_partitions m) (replicate n 0, replicate n [])) (\<lambda>(data, annotation).
         require (int (length data) \<le> otp_size) (require (int (length annotation) \<le> otp_size) (require (length data = length annotation)
           (to_hexfile_with_ecc data annotation (lc_secded (le_config (oi_lc_state img))))))))"

section \<open>Bytes of a partition\<close>

text \<open>The item with a value that holds an address, and the byte it has there.\<close>

definition holds_addr :: "int \<Rightarrow> otp_item \<Rightarrow> bool" where
  "holds_addr addr item =
     (case (it_offset item, it_value item) of (YInt off, Some (YInt v)) \<Rightarrow> off \<le> addr \<and> addr < off + it_size item | _ \<Rightarrow> False)"

definition item_byte :: "int \<Rightarrow> otp_item \<Rightarrow> int" where
  "item_byte addr item =
     (case (it_offset item, it_value item) of (YInt off, Some (YInt v)) \<Rightarrow> drop_bit (8 * nat (addr - off)) v AND 0xFF | _ \<Rightarrow> 0)"

definition clear_byte :: "otp_item list \<Rightarrow> int \<Rightarrow> int option" where
  "clear_byte items addr = map_option (item_byte addr) (find (holds_addr addr) items)"

definition item_ready :: "otp_item \<Rightarrow> bool" where
  "item_ready item \<longleftrightarrow> 0 \<le> it_size item \<and> (case it_name item of YStr _ \<Rightarrow> True | _ \<Rightarrow> False) \<and>
     (case it_value item of None \<Rightarrow> True | Some (YInt _) \<Rightarrow> True | _ \<Rightarrow> False)"

text \<open>The effect of storing a byte, when nothing was stored there before.\<close>

definition bytes_ok :: "nat \<Rightarrow> part_bytes \<Rightarrow> bool" where
  "bytes_ok n st \<longleftrightarrow> length (fst st) = n \<and> length (fst (snd st)) = n \<and> length (snd (snd st)) = n"

definition put_effect :: "int \<Rightarrow> (int \<Rightarrow> int option) \<Rightarrow> part_bytes \<Rightarrow> part_bytes \<Rightarrow> bool" where
  "put_effect a f st st' \<longleftrightarrow> (\<forall>i<length (fst st).
     fst st' ! i = (case f (a + int i) of Some b \<Rightarrow> b | None \<Rightarrow> fst st ! i) \<and>
     snd (snd st') ! i = (snd (snd st) ! i \<or> f (a + int i) \<noteq> None))"

lemma put_byte_ok:
  assumes st: "bytes_ok n st" and item: "item_ready item" "it_offset item = YInt off"
    and part: "op_offset part = YInt a" "op_name part = YStr s" and idx: "a \<le> off" "off - a + int k < int n"
    and free: "\<not> snd (snd st) ! nat (off - a + int k)"
  shows "\<exists>st'. put_byte part item k st = Inr st' \<and> bytes_ok n st' \<and>
    put_effect a (\<lambda>addr. if addr = off + int k \<and> it_value item \<noteq> None then Some (item_byte addr item) else None) st st'"
proof -
  obtain ds an df where d: "st = (ds, an, df)" by (cases st)
  let ?i = "off - a + int k"
  have l: "length ds = n" "length an = n" "length df = n" using st by (simp_all add: bytes_ok_def d)
  obtain t where t: "it_name item = YStr t" using item(1) by (auto simp: item_ready_def split: yaml.splits)
  have i0: "0 \<le> ?i" using idx(1) by simp
  have at: "a + int i = off + int k \<longleftrightarrow> nat ?i = i" for i using i0 by linarith
  show ?thesis
  proof (cases "it_value item")
    case None
    then show ?thesis using l i0 idx(2) item(2) part t by (simp add: d put_byte_def raw_int_def name_str_def bytes_ok_def put_effect_def)
  next
    case (Some w)
    then obtain v where v: "w = YInt v" using item(1) by (auto simp: item_ready_def split: yaml.splits)
    have b: "item_byte (off + int k) item = drop_bit (8 * k) v AND 0xFF" using Some v item(2) by (simp add: item_byte_def)
    have "put_byte part item k st = Inr (ds[nat ?i := drop_bit (8 * k) v AND 0xFF], an[nat ?i := s @ '': '' @ t], df[nat ?i := True])"
      using l i0 idx(2) item(2) part t Some v free by (simp add: d put_byte_def raw_int_def name_str_def Let_def)
    then show ?thesis using l b Some i0 by (auto simp: d bytes_ok_def put_effect_def nth_list_update at)
  qed
qed

lemma put_effect_trans:
  assumes "put_effect a f st st1" and "put_effect a g st1 st2" and "bytes_ok n st" and "bytes_ok n st1"
    and "\<And>x. h x = (case g x of Some b \<Rightarrow> Some b | None \<Rightarrow> f x)"
  shows "put_effect a h st st2"
  using assms by (auto simp: put_effect_def bytes_ok_def split: option.splits)

lemma put_bytes_ok:
  assumes "bytes_ok n st" and item: "item_ready item" "it_offset item = YInt off"
    and part: "op_offset part = YInt a" "op_name part = YStr s" and a: "a \<le> off" and "distinct ks"
    and "\<forall>k\<in>set ks. off - a + int k < int n \<and> \<not> snd (snd st) ! nat (off - a + int k)"
  shows "\<exists>st'. put_bytes part item ks st = Inr st' \<and> bytes_ok n st' \<and>
    put_effect a (\<lambda>addr. if off \<le> addr \<and> nat (addr - off) \<in> set ks \<and> it_value item \<noteq> None then Some (item_byte addr item) else None) st st'"
  using assms(1,7,8)
proof (induction ks arbitrary: st)
  case (Cons k ks)
  let ?f = "\<lambda>addr. if addr = off + int k \<and> it_value item \<noteq> None then Some (item_byte addr item) else None"
  from put_byte_ok [OF Cons.prems(1) item part a, of k] Cons.prems(3) obtain st1 where
    1: "put_byte part item k st = Inr st1" "bytes_ok n st1" "put_effect a ?f st st1" by auto
  have "\<not> snd (snd st1) ! nat (off - a + int j)" if j: "j \<in> set ks" for j
  proof -
    have "nat (off - a + int j) < length (fst st)" using Cons.prems(1,3) j a by (auto simp: bytes_ok_def nat_less_iff)
    moreover have "a + int (nat (off - a + int j)) \<noteq> off + int k" using Cons.prems(2) j a by auto
    ultimately show ?thesis using 1(3) Cons.prems(3) j by (auto simp: put_effect_def)
  qed
  with Cons.IH [OF 1(2)] Cons.prems(2,3) obtain st2 where
    2: "put_bytes part item ks st1 = Inr st2" "bytes_ok n st2"
      "put_effect a (\<lambda>addr. if off \<le> addr \<and> nat (addr - off) \<in> set ks \<and> it_value item \<noteq> None then Some (item_byte addr item) else None) st1 st2"
    by auto
  show ?case
  proof (intro exI conjI)
    show "put_bytes part item (k # ks) st = Inr st2" using 1(1) 2(1) by simp
    show "bytes_ok n st2" by (rule 2(2))
    show "put_effect a (\<lambda>addr. if off \<le> addr \<and> nat (addr - off) \<in> set (k # ks) \<and> it_value item \<noteq> None then Some (item_byte addr item) else None) st st2"
      by (rule put_effect_trans [OF 1(3) 2(3) Cons.prems(1) 1(2)]) auto
  qed
qed (simp add: put_effect_def)

lemma holds_addr_iff: "item_ready item \<Longrightarrow> it_offset item = YInt off \<Longrightarrow>
    holds_addr addr item \<longleftrightarrow> off \<le> addr \<and> addr < off + it_size item \<and> it_value item \<noteq> None"
  by (auto simp: holds_addr_def item_ready_def split: option.splits yaml.splits)

lemma clear_byte_simps [simp]:
  "clear_byte [] addr = None"
  "clear_byte (item # items) addr = (if holds_addr addr item then Some (item_byte addr item) else clear_byte items addr)"
  by (simp_all add: clear_byte_def)

lemma items_at_le: "items_at a items z \<Longrightarrow> a \<le> z"
  by (induction a items z rule: items_at.induct) (auto split: yaml.splits)

lemma clear_byte_outside: "items_at b items z \<Longrightarrow> x < b \<or> z \<le> x \<Longrightarrow> clear_byte items x = None"
proof (induction b items z rule: items_at.induct)
  case (2 a item items z)
  then obtain off where off: "it_offset item = YInt off" "a \<le> off" "0 \<le> it_size item" "items_at (off + it_size item) items z"
    by (auto split: yaml.splits)
  have "off + it_size item \<le> z" using items_at_le [OF off(4)] .
  then have "\<not> holds_addr x item" using off 2(3) by (auto simp: holds_addr_def split: option.splits yaml.splits)
  then show ?case using 2(1) [OF off(1)] off 2(3) by auto
qed simp

lemma put_items_ok:
  assumes "bytes_ok n st" and part: "op_offset part = YInt a" "op_name part = YStr s"
    and "items_at b items (a + int n)" and "list_all item_ready items" and "a \<le> b"
    and "\<forall>i<n. b \<le> a + int i \<longrightarrow> \<not> snd (snd st) ! i"
  shows "\<exists>st'. put_items part items st = Inr st' \<and> bytes_ok n st' \<and> put_effect a (clear_byte items) st st'"
  using assms(1,4-7)
proof (induction items arbitrary: b st)
  case (Cons item items)
  then obtain off where off: "it_offset item = YInt off" "b \<le> off" "0 \<le> it_size item" "items_at (off + it_size item) items (a + int n)"
    by (auto split: yaml.splits)
  have rd: "item_ready item" using Cons.prems(3) by simp
  let ?f = "\<lambda>addr. if off \<le> addr \<and> nat (addr - off) \<in> set [0..<nat (it_size item)] \<and> it_value item \<noteq> None
      then Some (item_byte addr item) else None"
  have f: "?f x = (if holds_addr x item then Some (item_byte x item) else None)" for x
    using off(3) by (auto simp: holds_addr_iff [OF rd off(1)])
  have free: "\<forall>k\<in>set [0..<nat (it_size item)]. off - a + int k < int n \<and> \<not> snd (snd st) ! nat (off - a + int k)"
  proof
    fix k assume k: "k \<in> set [0..<nat (it_size item)]"
    then have "off + int k < a + int n" using items_at_le [OF off(4)] by auto
    moreover have "\<not> snd (snd st) ! nat (off - a + int k)"
      using Cons.prems(5) [rule_format, of "nat (off - a + int k)"] off(2) Cons.prems(4) calculation by auto
    ultimately show "off - a + int k < int n \<and> \<not> snd (snd st) ! nat (off - a + int k)" by simp
  qed
  have ao: "a \<le> off" using Cons.prems(4) off(2) by simp
  from put_bytes_ok [OF Cons.prems(1) rd off(1) part ao distinct_upt free] obtain st1 where
    1: "put_bytes part item [0..<nat (it_size item)] st = Inr st1" "bytes_ok n st1" "put_effect a ?f st st1" by blast
  have "\<not> snd (snd st1) ! i" if "i < n" "off + it_size item \<le> a + int i" for i
    using 1(3) that Cons.prems(1,5) off(2,3) unfolding put_effect_def by (auto simp: bytes_ok_def)
  with Cons.IH [OF 1(2) off(4)] Cons.prems(3) ao off(3) obtain st2 where
    2: "put_items part items st1 = Inr st2" "bytes_ok n st2" "put_effect a (clear_byte items) st1 st2" by auto
  have "put_effect a (clear_byte (item # items)) st st2"
  proof (rule put_effect_trans [OF 1(3) 2(3) Cons.prems(1) 1(2)])
    show "clear_byte (item # items) x = (case clear_byte items x of None \<Rightarrow> ?f x | Some b \<Rightarrow> Some b)" for x
      unfolding f using clear_byte_outside [OF off(4), of x] by (auto simp: holds_addr_iff [OF rd off(1)] split: option.splits)
  qed
  then show ?case using 1(1) 2(1,2) by (intro exI [of _ st2] conjI) (simp_all del: clear_byte_simps)
qed (simp add: put_effect_def)

section \<open>Blocks\<close>

definition otp_unscramble :: "int \<Rightarrow> int \<Rightarrow> int result" where
  "otp_unscramble key block = bindR (Present_init key 32 128) (\<lambda>cipher. Present_decrypt cipher block)"

text \<open>The clear value of the eight bytes at an address, and whether one of them has a value.\<close>

definition clear_block :: "otp_item list \<Rightarrow> int \<Rightarrow> int" where
  "clear_block items addr = le_val 8 (map (\<lambda>i. case clear_byte items (addr + int i) of Some b \<Rightarrow> b | None \<Rightarrow> 0) [0..<8])"

definition addr_defined :: "otp_item list \<Rightarrow> int \<Rightarrow> bool" where
  "addr_defined items addr = list_ex (\<lambda>i. clear_byte items (addr + int i) \<noteq> None) [0..<8]"

lemma present_64bit_eq:
  "fits 64 b \<Longrightarrow> fits 128 key \<Longrightarrow> present_64bit_encrypt b key = present_enc 32 128 key b"
  "otp_unscramble = present_dec 32 128"
  by (auto simp: present_64bit_encrypt_def present_enc_def otp_unscramble_def present_dec_def fits_iff require_def fun_eq_iff)

text \<open>The scrambling function of the tool satisfies the contract of a cipher.\<close>

interpretation otp_cipher: keyed_perm 64 128 "\<lambda>key b. present_64bit_encrypt b key" otp_unscramble
proof
  fix key x
  assume k: "fits 128 key" "fits 64 x"
  show "returns (present_64bit_encrypt x key) (\<lambda>y. fits 64 y \<and> otp_unscramble key y = Inr x)"
    using present128.bwd_fwd [OF k] k by (simp add: present_64bit_eq)
  show "returns (otp_unscramble key x) (\<lambda>y. fits 64 y \<and> present_64bit_encrypt y key = Inr x)"
    using present128.fwd_bwd [OF k] k(1) unfolding present_64bit_eq(2) by (auto elim!: returns_mono simp: present_64bit_eq)
qed

lemma present_64bit_ok:
  assumes "fits 64 b" and "fits 128 key"
  shows "\<exists>e. present_64bit_encrypt b key = Inr e \<and> fits 64 e \<and> otp_unscramble key e = Inr b"
  using otp_cipher.fwdE [OF assms(2,1)] by blast

lemma foldl_push_le_val: "foldl (\<lambda>v i. v + push_bit (8 * i) (f i)) 0 [0..<n] = le_val 8 (map f [0..<n])"
  by (induction n) (simp_all add: le_val_snoc)

lemma data_block_eq: "data_block bs k = le_val 8 (map (\<lambda>i. bs ! (8 * k + i)) [0..<8])"
  unfolding data_block_def by (rule foldl_push_le_val)

lemma byte_mask: "x AND 0xFF = take_bit 8 (x :: int)"
  by (simp add: take_bit_eq_mask mask_numeral)

lemma item_byte_fits: "fits 8 (item_byte addr item)"
proof -
  have "fits 8 (x AND 0xFF)" for x using fits_take_bit [of 8 x] by (simp only: byte_mask)
  moreover have "fits 8 0" by (simp add: fits_iff)
  ultimately show ?thesis by (simp add: item_byte_def split: yaml.splits option.splits)
qed

lemma clear_byte_fits: "clear_byte items addr = Some b \<Longrightarrow> fits 8 b"
  by (auto simp: clear_byte_def item_byte_fits)

lemma clear_block_fits: "fits 64 (clear_block items addr)"
proof -
  have "list_all (fits 8) (map (\<lambda>i. case clear_byte items (addr + int i) of Some b \<Rightarrow> b | None \<Rightarrow> 0) [0..<8])"
    by (auto simp: list_all_iff clear_byte_fits fits_iff split: option.splits dest: clear_byte_fits)
  from le_val_fits [OF this] show ?thesis by (simp add: clear_block_def)
qed

text \<open>The blocks that the collected bytes form.\<close>

lemma blocks_eq:
  assumes "put_effect a (clear_byte items) (replicate n 0, an, replicate n False) st'" and "k < n div 8"
  shows "data_block (fst st') k = clear_block items (a + 8 * int k)" and "block_defined (snd (snd st')) k = addr_defined items (a + 8 * int k)"
proof -
  have lt: "8 * k + i < n" if "i < 8" for i using assms(2) that by linarith
  have e: "fst st' ! (8 * k + i) = (case clear_byte items (a + 8 * int k + int i) of Some b \<Rightarrow> b | None \<Rightarrow> 0)"
    "snd (snd st') ! (8 * k + i) = (clear_byte items (a + 8 * int k + int i) \<noteq> None)" if "i < 8" for i
    using assms(1) [unfolded put_effect_def, rule_format, of "8 * k + i"] lt [OF that] by (simp_all add: add.assoc split: option.split)
  show "data_block (fst st') k = clear_block items (a + 8 * int k)"
    unfolding data_block_eq clear_block_def using e(1) by (intro arg_cong [of _ _ "le_val 8"] map_cong) auto
  show "block_defined (snd (snd st')) k = addr_defined items (a + 8 * int k)"
    unfolding block_defined_def addr_defined_def list_ex_iff using e(2) by auto
qed

section \<open>Partitions\<close>

definition part_locked :: "otp_part \<Rightarrow> bool" where
  "part_locked part \<longleftrightarrow> op_hw_digest part \<and> (case op_lock part of None \<Rightarrow> False | Some l \<Rightarrow> yaml_truthy l)"

definition part_key :: "otp_scrambling \<Rightarrow> otp_part \<Rightarrow> otp_key option" where
  "part_key scr part = find (\<lambda>key. ok_name key = op_key_sel part) (os_keys scr)"

text \<open>
  What streaming out a partition relies on beyond its layout: names are strings and values are numbers, the
  key of a secret partition and the start value of the digest have the right width, and a hardware digest has
  no value of its own.
\<close>

definition part_ready :: "otp_scrambling \<Rightarrow> otp_part \<Rightarrow> bool" where
  "part_ready scr part \<longleftrightarrow>
     (case op_name part of YStr _ \<Rightarrow> True | _ \<Rightarrow> False) \<and> list_all item_ready (op_items part) \<and>
     (op_secret part \<longrightarrow> (case part_key scr part of Some key \<Rightarrow> fits 128 (ok_value key) | None \<Rightarrow> False)) \<and>
     (op_hw_digest part \<longrightarrow> it_value (last (op_items part)) = None) \<and>
     (part_locked part \<longrightarrow> (case os_digests scr of dig # _ \<Rightarrow> fits 64 (od_iv_value dig) | [] \<Rightarrow> False))"

text \<open>
  The bytes of a partition as the hardware reads them: the block at an address is the clear block, scrambled if the
  partition is secret and the block is used; the last block of a locked partition is the digest of the others.
\<close>

definition block_holds :: "otp_scrambling \<Rightarrow> otp_part \<Rightarrow> int \<Rightarrow> int \<Rightarrow> bool" where
  "block_holds scr part addr b =
     (if op_secret part \<and> addr_defined (op_items part) addr then
        (case part_key scr part of Some key \<Rightarrow> otp_unscramble (ok_value key) b = Inr (clear_block (op_items part) addr) | None \<Rightarrow> False)
      else b = clear_block (op_items part) addr)"

definition part_holds :: "otp_scrambling \<Rightarrow> otp_part \<Rightarrow> int \<Rightarrow> int list \<Rightarrow> bool" where
  "part_holds scr part a bs \<longleftrightarrow> int (length bs) = op_size part \<and>
     (let n = length bs div 8; blocks = map (data_block bs) [0..<n]
      in list_all (\<lambda>k. if part_locked part \<and> Suc k = n then
              present_64bit_digest (butlast blocks) (od_iv_value (hd (os_digests scr))) (od_cnst_value (hd (os_digests scr))) = Inr (blocks ! k)
            else block_holds scr part (a + 8 * int k) (blocks ! k)) [0..<n])"

lemma digest_loop_ok:
  assumes "fits 64 state" and "list_all (fits 64) bs" and "case lb of None \<Rightarrow> even (length bs) | Some l \<Rightarrow> fits 64 l \<and> odd (length bs)"
  shows "\<exists>d. digest_loop state lb bs = Inr d \<and> fits 64 d"
  using assms
proof (induction state lb bs rule: digest_loop.induct)
  case (3 state l b bs)
  have "fits 128 (l + push_bit 64 b)" using 3(3,4) by (simp add: fits_iff push_bit_eq_mult)
  from present_64bit_ok [OF 3(2) this] obtain e where e: "present_64bit_encrypt state (l + push_bit 64 b) = Inr e" "fits 64 e" by blast
  have "fits 64 (state XOR e)" using 3(2) e(2) by (rule fits_xor)
  then show ?case using 3(1) [of e] 3(3,4) e(1) by simp
qed (auto split: option.splits)

lemma present_64bit_digest_ok:
  assumes "fits 64 iv" and "list_all (fits 64) bs"
  shows "\<exists>d. present_64bit_digest bs iv const = Inr d \<and> fits 64 d"
proof -
  have m: "x AND 0xFFFFFFFFFFFFFFFF = take_bit 64 x" for x :: int by (simp add: take_bit_eq_mask mask_numeral)
  have "length bs mod 2 = 1 \<Longrightarrow> fits 64 (last bs)" using assms(2) by (cases bs rule: rev_cases) auto
  then show ?thesis using assms unfolding present_64bit_digest_def Let_def m by (intro digest_loop_ok) auto
qed

lemma mapR_zip_total:
  "\<forall>k\<in>set ks. \<exists>e. f (c k, d k) = Inr e \<and> P k e \<Longrightarrow> \<exists>es. mapR f (zip (map c ks) (map d ks)) = Inr es \<and> list_all2 P ks es"
  by (induction ks) (auto simp: bindR_Inr_iff)

lemma scramble_blocks_ok:
  assumes "part_ready scr part"
  shows "\<exists>es. scramble_blocks scr part (map (\<lambda>k. addr_defined (op_items part) (g k)) ks) (map (\<lambda>k. clear_block (op_items part) (g k)) ks) = Inr es \<and>
    list_all2 (\<lambda>k e. fits 64 e \<and> block_holds scr part (g k) e \<and> (\<not> addr_defined (op_items part) (g k) \<longrightarrow> e = clear_block (op_items part) (g k))) ks es"
    (is "\<exists>es. _ = Inr es \<and> list_all2 ?P ks es")
proof (cases "op_secret part")
  case True
  then obtain key where key: "part_key scr part = Some key" "fits 128 (ok_value key)"
    using assms by (auto simp: part_ready_def split: option.splits)
  let ?f = "\<lambda>(b, d). if d then present_64bit_encrypt b (ok_value key) else Inr b"
  have "\<exists>e. ?f (clear_block (op_items part) (g k), addr_defined (op_items part) (g k)) = Inr e \<and> ?P k e" for k
    using present_64bit_ok [OF clear_block_fits [of "op_items part" "g k"] key(2)] True key(1) by (auto simp: block_holds_def clear_block_fits)
  then have "\<exists>es. mapR ?f (zip (map (\<lambda>k. clear_block (op_items part) (g k)) ks) (map (\<lambda>k. addr_defined (op_items part) (g k)) ks)) = Inr es \<and>
      list_all2 ?P ks es" by (intro mapR_zip_total) blast
  then show ?thesis using True key(1) by (simp add: scramble_blocks_def part_key_def)
next
  case False
  then show ?thesis by (auto simp: scramble_blocks_def block_holds_def clear_block_fits list_all2_conv_all_nth)
qed

lemma clear_byte_append: "clear_byte (xs @ ys) x = (case clear_byte xs x of Some b \<Rightarrow> Some b | None \<Rightarrow> clear_byte ys x)"
  by (induction xs) simp_all

text \<open>The last word of a partition with a hardware digest is not used.\<close>

lemma digest_word_free:
  assumes "digest_last part z" and "items_at a (op_items part) z" and "it_value (last (op_items part)) = None"
  shows "\<not> addr_defined (op_items part) (z - 8)" and "clear_block (op_items part) (z - 8) = 0" and "a \<le> z - 8"
proof -
  obtain its it where its: "op_items part = its @ [it]" using assms(1) by (cases "op_items part" rule: rev_cases) (auto simp: digest_last_def)
  have off: "it_offset it = YInt (z - 8)" using assms(1) its by (simp add: digest_last_def DIGEST_SIZE_def)
  have at: "items_at a its (z - 8)" using assms(2) its off by (simp add: items_at_append)
  show "a \<le> z - 8" by (rule items_at_le [OF at])
  have "\<not> holds_addr x it" for x using assms(3) its by (auto simp: holds_addr_def split: yaml.splits)
  then have free: "clear_byte (op_items part) (z - 8 + int i) = None" for i
    using clear_byte_outside [OF at, of "z - 8 + int i"] by (simp add: its clear_byte_append)
  show "\<not> addr_defined (op_items part) (z - 8)" by (simp add: addr_defined_def free list_ex_iff)
  have "le_val 8 (map (\<lambda>i. 0) [0..<n]) = 0" for n by (induction n) (simp_all add: le_val_snoc)
  then show "clear_block (op_items part) (z - 8) = 0" by (simp only: clear_block_def free option.case)
qed

lemma concat_nth: "\<forall>x\<in>set xs. length (f x) = m \<Longrightarrow> k < length xs \<Longrightarrow> i < m \<Longrightarrow> concat (map f xs) ! (m * k + i) = f (xs ! k) ! i"
proof (induction xs arbitrary: k)
  case (Cons x xs)
  then show ?case by (cases k) (auto simp: nth_append algebra_simps)
qed simp

lemma data_block_concat:
  assumes "list_all (fits 64) bs" and "k < length bs"
  shows "data_block (concat (map (le_split 8 8) bs)) k = bs ! k"
proof -
  have "map (\<lambda>i. concat (map (le_split 8 8) bs) ! (8 * k + i)) [0..<8] = map (\<lambda>i. le_split 8 8 (bs ! k) ! i) [0..<8]"
    using assms(2) by (intro map_cong) (simp_all add: concat_nth)
  also have "\<dots> = le_split 8 8 (bs ! k)" using map_nth [of "le_split 8 8 (bs ! k)"] by (simp only: length_le_split)
  finally show ?thesis using assms by (simp add: data_block_eq le_val_eq_self list_all_length)
qed

lemma length_concat_split: "length (concat (map (le_split 8 8) bs)) = 8 * length bs"
  by (induction bs) simp_all

text \<open>The blocks of a partition as they are written.\<close>

definition blocks_hold :: "otp_scrambling \<Rightarrow> otp_part \<Rightarrow> int \<Rightarrow> int list \<Rightarrow> bool" where
  "blocks_hold scr part a bs \<longleftrightarrow>
     list_all (\<lambda>k. if part_locked part \<and> Suc k = length bs then
            present_64bit_digest (butlast bs) (od_iv_value (hd (os_digests scr))) (od_cnst_value (hd (os_digests scr))) = Inr (bs ! k)
          else block_holds scr part (a + 8 * int k) (bs ! k)) [0..<length bs]"

lemma lock_blocks_ok:
  assumes "part_ready scr part" and es: "list_all (fits 64) es" "\<forall>k<length es. block_holds scr part (a + 8 * int k) (es ! k)"
    and dig: "op_hw_digest part \<Longrightarrow> es \<noteq> [] \<and> last es = 0"
  shows "\<exists>bs. lock_blocks scr part es = Inr bs \<and> length bs = length es \<and> list_all (fits 64) bs \<and> blocks_hold scr part a bs"
proof (cases "part_locked part")
  case True
  then obtain d ds where ds: "os_digests scr = d # ds" "fits 64 (od_iv_value d)"
    using assms(1) by (auto simp: part_ready_def split: list.splits)
  have ne: "es \<noteq> []" "last es = 0" using dig True by (auto simp: part_locked_def)
  have "list_all (fits 64) (butlast es)" using es(1) by (auto simp: list_all_iff dest: in_set_butlastD)
  from present_64bit_digest_ok [OF ds(2) this, of "od_cnst_value d"] obtain x where
    x: "present_64bit_digest (butlast es) (od_iv_value d) (od_cnst_value d) = Inr x" "fits 64 x" by blast
  have "lock_blocks scr part es = Inr (butlast es @ [x])" using True ne ds(1) x(1) by (simp add: lock_blocks_def part_locked_def)
  moreover have "blocks_hold scr part a (butlast es @ [x])" using True es(2) ne ds(1) x(1)
    by (auto simp: blocks_hold_def list_all_iff nth_append nth_butlast less_Suc_eq)
  ultimately show ?thesis using ne x(2) es(1) by (auto simp: list_all_iff dest: in_set_butlastD)
next
  case False
  then have "lock_blocks scr part es = Inr es" using dig by (auto simp: lock_blocks_def part_locked_def)
  then show ?thesis using False es by (auto simp: blocks_hold_def list_all_iff)
qed

lemma part_holds_blocks:
  assumes "list_all (fits 64) bs" and "blocks_hold scr part a bs" and "8 * int (length bs) = op_size part"
  shows "part_holds scr part a (concat (map (le_split 8 8) bs))"
proof -
  let ?d = "concat (map (le_split 8 8) bs)"
  have "map (data_block ?d) [0..<length bs] = bs" using assms(1) by (intro nth_equalityI) (simp_all add: data_block_concat)
  then show ?thesis using assms(2,3) by (simp add: part_holds_def length_concat_split blocks_hold_def)
qed

lemma split_block: "map (\<lambda>k. drop_bit (8 * k) b AND 0xFF) [0..<8] = le_split 8 8 (b :: int)"
  by (rule nth_equalityI) (simp_all add: byte_mask le_split_nth)

lemma streamout_partition_ok:
  assumes rd: "part_ready scr part" and off: "op_offset part = YInt a" and sz: "op_size part mod 8 = 0"
    and at: "items_at a (op_items part) (a + op_size part)"
    and dl: "op_sw_digest part \<or> op_hw_digest part \<longrightarrow> digest_last part (a + op_size part)"
  shows "\<exists>data an. streamout_partition scr part = Inr (data, an) \<and> int (length an) = op_size part \<and> part_holds scr part a data \<and>
    list_all (fits 8) data"
proof -
  define n where "n = nat (op_size part)"
  have n: "op_size part = int n" using items_at_le [OF at] by (simp add: n_def)
  then have n8: "n mod 8 = 0" "n = 8 * (n div 8)" using sz by presburger+
  obtain s where s: "op_name part = YStr s" using rd by (auto simp: part_ready_def split: yaml.splits)
  let ?st = "(replicate n 0 :: int list, replicate n ''unallocated'', replicate n False)"
  have "list_all item_ready (op_items part)" using rd by (simp add: part_ready_def)
  from put_items_ok [OF _ off s at [unfolded n] this order_refl, of ?st] obtain st' where
    st': "put_items part (op_items part) ?st = Inr st'" "bytes_ok n st'" "put_effect a (clear_byte (op_items part)) ?st st'"
    by (auto simp: bytes_ok_def)
  let ?ks = "[0..<n div 8]" and ?g = "\<lambda>k. a + 8 * int k"
  have bl: "map (data_block (fst st')) ?ks = map (\<lambda>k. clear_block (op_items part) (?g k)) ?ks"
    "map (block_defined (snd (snd st'))) ?ks = map (\<lambda>k. addr_defined (op_items part) (?g k)) ?ks"
    using blocks_eq [OF st'(3)] by auto
  from scramble_blocks_ok [OF rd, of ?g ?ks] obtain es where
    es: "scramble_blocks scr part (map (\<lambda>k. addr_defined (op_items part) (?g k)) ?ks) (map (\<lambda>k. clear_block (op_items part) (?g k)) ?ks) = Inr es"
    "length es = n div 8"
    "\<forall>k<n div 8. fits 64 (es ! k) \<and> block_holds scr part (?g k) (es ! k) \<and>
       (\<not> addr_defined (op_items part) (?g k) \<longrightarrow> es ! k = clear_block (op_items part) (?g k))"
    by (auto simp: list_all2_conv_all_nth)
  have "es \<noteq> [] \<and> last es = 0" if hw: "op_hw_digest part"
  proof -
    have "it_value (last (op_items part)) = None" "digest_last part (a + op_size part)" using rd dl hw by (auto simp: part_ready_def)
    note fr = digest_word_free [OF this(2) at this(1)]
    have k: "n div 8 - 1 < n div 8" "?g (n div 8 - 1) = a + op_size part - 8" using fr(3) n n8 by auto
    have "es ! (n div 8 - 1) = 0" using es(3) [rule_format, OF k(1)] fr(1,2) unfolding k(2) by simp
    moreover have "es \<noteq> []" using k(1) es(2) by auto
    ultimately show ?thesis using es(2) by (simp add: last_conv_nth)
  qed
  with lock_blocks_ok [OF rd, of es a] es(2,3) obtain bs where
    bs: "lock_blocks scr part es = Inr bs" "length bs = n div 8" "list_all (fits 64) bs" "blocks_hold scr part a bs"
    by (auto simp: list_all_length)
  let ?data = "concat (map (le_split 8 8) bs)"
  have len: "int (length ?data) = op_size part" using bs(2) n n8 by (simp add: length_concat_split)
  obtain x y z where xyz: "st' = (x, y, z)" by (cases st')
  have es0: "scramble_blocks scr part (map (block_defined z) ?ks) (map (data_block x) ?ks) = Inr es"
    using es(1) by (simp only: bl [unfolded xyz fst_conv snd_conv])
  have "streamout_partition scr part = Inr (?data, y)"
    unfolding streamout_partition_def Let_def n_def [symmetric] split_block st'(1) [unfolded xyz] bindR_simps prod.case es0 bs(1)
    by (simp add: sz len require_def)
  moreover have "part_holds scr part a ?data" using bs n n8 by (intro part_holds_blocks) auto
  moreover have "list_all (fits 8) ?data" by (auto simp: list_all_iff dest: le_split_fits [unfolded list_all_iff, rule_format])
  ultimately show ?thesis using st'(2) n xyz by (auto simp: bytes_ok_def)
qed

section \<open>The image\<close>

text \<open>Every partition is at its place in the memory.\<close>

definition image_holds :: "otp_scrambling \<Rightarrow> otp_part list \<Rightarrow> int list \<Rightarrow> bool" where
  "image_holds scr parts data =
     list_all (\<lambda>p. case op_offset p of YInt a \<Rightarrow> part_holds scr p a (take (nat (op_size p)) (drop (nat a) data)) | _ \<Rightarrow> False) parts"

lemma py_slice_set_inside:
  assumes "0 \<le> lo" and "lo + int (length ys) \<le> int (length xs)"
  shows "py_slice_set xs lo (lo + int (length ys)) ys = take (nat lo) xs @ ys @ drop (nat lo + length ys) xs"
  using assms by (simp add: py_slice_set_def Let_def min_def nat_add_distrib)

lemma parts_at_le: "parts_at a ps z \<Longrightarrow> a + sum_list (map op_size ps) \<le> z \<and> list_all (\<lambda>p. 0 \<le> op_size p) ps"
  by (induction a ps z rule: parts_at.induct) (auto dest: items_at_le)

lemma sum_list_nonneg_parts: "list_all (\<lambda>p. 0 \<le> op_size p) ps \<Longrightarrow> 0 \<le> sum_list (map op_size ps)"
  by (induction ps) auto

lemma take_eq_drop: "take n xs = take n ys \<Longrightarrow> a + m \<le> n \<Longrightarrow> take m (drop a xs) = take m (drop a ys)"
proof -
  assume h: "take n xs = take n ys" and le: "a + m \<le> n"
  have "take (m + a) xs = take (m + a) ys" using arg_cong [OF h, of "take (m + a)"] le by (simp add: min_def split: if_splits)
  then show ?thesis by (simp add: take_drop)
qed

lemma streamout_parts_ok:
  assumes "parts_at b parts (int n)" and "list_all (part_ready scr) parts" and "0 \<le> b"
    and "length data = n" and "length an = n" and "list_all (fits 8) data"
  shows "\<exists>data' an'. streamout_parts scr (int n) parts (data, an) = Inr (data', an') \<and> length data' = n \<and> length an' = n \<and>
    list_all (fits 8) data' \<and> image_holds scr parts data' \<and> take (nat b) data' = take (nat b) data \<and>
    drop (nat (b + sum_list (map op_size parts))) data' = drop (nat (b + sum_list (map op_size parts))) data"
  using assms
proof (induction parts arbitrary: b data an)
  case (Cons p ps)
  let ?b = "b + op_size p"
  have p: "op_offset p = YInt b" "op_size p mod 8 = 0" "items_at b (op_items p) ?b"
    "op_sw_digest p \<or> op_hw_digest p \<longrightarrow> digest_last p ?b" "parts_at ?b ps (int n)" "part_ready scr p" using Cons.prems(1,2) by simp_all
  from streamout_partition_ok [OF p(6,1-4)] obtain pd pan where
    pd: "streamout_partition scr p = Inr (pd, pan)" "int (length pan) = op_size p" "part_holds scr p b pd" "list_all (fits 8) pd" by blast
  have lpd: "int (length pd) = op_size p" using pd(3) by (simp add: part_holds_def)
  have "0 \<le> sum_list (map op_size ps)" using parts_at_le [OF p(5)] sum_list_nonneg_parts by blast
  then have le: "?b \<le> int n" "0 \<le> sum_list (map op_size ps)" using parts_at_le [OF p(5)] by linarith+
  let ?d = "py_slice_set data b ?b pd" and ?a = "py_slice_set an b ?b pan"
  have d: "?d = take (nat b) data @ pd @ drop (nat b + length pd) data" "?a = take (nat b) an @ pan @ drop (nat b + length pan) an"
    using py_slice_set_inside [of b pd data] py_slice_set_inside [of b pan an] Cons.prems(3-5) le(1) lpd pd(2) by auto
  have ld: "length ?d = n" "length ?a = n" using d lpd pd(2) le Cons.prems(3-5) by auto
  have fd: "list_all (fits 8) ?d" using d(1) pd(4) Cons.prems(6) by (auto simp: list_all_iff dest: in_set_takeD in_set_dropD)
  from Cons.IH [OF p(5) _ _ ld fd] Cons.prems(2,3) lpd obtain data' an' where
    r: "streamout_parts scr (int n) ps (?d, ?a) = Inr (data', an')" "length data' = n" "length an' = n" "list_all (fits 8) data'"
      "image_holds scr ps data'" "take (nat ?b) data' = take (nat ?b) ?d"
      "drop (nat (?b + sum_list (map op_size ps))) data' = drop (nat (?b + sum_list (map op_size ps))) ?d" by auto
  have nb: "nat ?b = nat b + length pd" and bn: "nat b \<le> n" using Cons.prems(3) lpd le(1) by linarith+
  have "take (nat (op_size p)) (drop (nat b) data') = take (nat (op_size p)) (drop (nat b) ?d)"
    by (rule take_eq_drop [OF r(6)]) (use nb lpd in linarith)
  also have "\<dots> = pd" using d(1) lpd Cons.prems(3,4) le(1) by auto
  finally have 1: "image_holds scr (p # ps) data'" using r(5) p(1) pd(3) by (simp add: image_holds_def)
  have 2: "take (nat b) data' = take (nat b) data"
  proof -
    have "take (nat b) data' = take (nat b) ?d" using take_eq_drop [OF r(6), of 0 "nat b"] nb by simp
    also have "\<dots> = take (nat b) data" using d(1) Cons.prems(4) bn by simp
    finally show ?thesis .
  qed
  have 3: "drop (nat (b + sum_list (map op_size (p # ps)))) data' = drop (nat (b + sum_list (map op_size (p # ps)))) data"
  proof -
    obtain m where m: "nat (?b + sum_list (map op_size ps)) = m + (nat b + length pd)" using nb le(2) Cons.prems(3) lpd
      by (metis add.commute nat_add_distrib of_nat_0_le_iff add_increasing)
    have "drop (nat b + length pd) ?d = drop (nat b + length pd) data" using d(1) Cons.prems(4) le(1) lpd by simp
    then have "drop (m + (nat b + length pd)) ?d = drop (m + (nat b + length pd)) data" by (metis drop_drop)
    then show ?thesis using r(7) m by (simp add: add.assoc)
  qed
  have "streamout_parts scr (int n) (p # ps) (data, an) = Inr (data', an')"
    using pd(1) r(1) p(1) le(1) lpd by (simp add: raw_int_def require_def Let_def)
  then show ?case using r(2-4) 1 2 3 by blast
qed (simp add: image_holds_def)

section \<open>Words of the file\<close>

text \<open>A line as a memory reads it: a code word in hexadecimal digits, whose low bits are the data.\<close>

definition line_word :: "lc_secded_cfg \<Rightarrow> string \<Rightarrow> int option" where
  "line_word cfg line =
     (case py_int16 (takeWhile (\<lambda>c. c \<noteq> CHR '' '') line) of
        None \<Rightarrow> None
      | Some cw \<Rightarrow>
          if is_valid_codeword cfg (fmt_bits (nat (sc_data_width cfg + sc_ecc_width cfg)) (nat cw)) = Inr True
          then Some (cw mod 2 ^ nat (sc_data_width cfg)) else None)"

lemma bits_val_append: "bits_val (v @ w) = bits_val v * 2 ^ length w + bits_val w"
  by (simp add: bits_val_def horner_sum_append)

lemma bits_val_bin_digits: "bits_val (bin_digits k) = k"
proof (induction k rule: bin_digits.induct)
  case (1 k)
  show ?case
  proof (cases "k < 2")
    case False
    then show ?thesis using 1 by (simp add: bin_digits.simps [of k] bits_val_append bits_val_def [of "[_]"] of_bool_odd_eq_mod_2)
  qed (auto simp: bin_digits.simps [of k] bits_val_def less_2_cases_iff)
qed

lemma bits_val_fmt_bits: "bits_val (fmt_bits n k) = k"
proof -
  have "bits_val (replicate m False) = 0" for m by (induction m) (simp_all add: bits_val_def horner_sum_append)
  then show ?thesis by (simp add: fmt_bits_def Let_def bits_val_append bits_val_bin_digits)
qed

lemma bits_val_inj: "length v = length w \<Longrightarrow> bits_val v = bits_val w \<Longrightarrow> v = w"
proof -
  assume l: "length v = length w" and b: "bits_val v = bits_val w"
  have "rev v ! n = rev w ! n" if "n < length v" for n using rev_nth_bit [of v n] rev_nth_bit [of w n] l b that by simp
  then have "rev v = rev w" using l by (intro nth_equalityI) simp_all
  then show ?thesis by simp
qed

lemma fmt_bits_val: "v \<noteq> [] \<Longrightarrow> fmt_bits (length v) (bits_val v) = v"
  using bits_val_inj [of "fmt_bits (length v) (bits_val v)" v] length_fmt_bits [of "length v" "bits_val v"] bits_val_less [of v]
  by (simp add: bits_val_fmt_bits)

lemma fmt_x_reads:
  assumes "0 \<le> v"
  shows "list_all is_hex (fmt_x [] w v)" and "py_int16 (fmt_x [] w v) = Some v"
proof -
  have z: "is_hex (CHR ''0'')" by (simp add: is_hex_code char_code_def)
  show f: "list_all is_hex (fmt_x [] w v)" using assms hex_of_nat_hex z by (auto simp: fmt_x_def Let_def list_all_iff)
  have r: "reads_hex (fmt_x [] w v) v" by (rule reads_hex_fmt [OF assms])
  then have "int_digits 16 0 False (fmt_x [] w v @ []) = int_digits 16 (16 ^ length (fmt_x [] w v) * 0 + v) True []" unfolding reads_hex_def by blast
  then show "py_int16 (fmt_x [] w v) = Some v" using f r by (intro py_int16_hex) (simp_all add: reads_hex_def)
qed

lemma word_foldl:
  "foldl (\<lambda>word (j, idx). word + push_bit (j * 8) (data ! idx)) 0 (enumerate 0 (map (\<lambda>j. k * w + j) [0..<w])) =
    le_val 8 (map (\<lambda>j. data ! (k * w + j)) [0..<w])"
proof -
  have "enumerate 0 (map (\<lambda>j. k * w + j) [0..<w]) = map (\<lambda>j. (j, k * w + j)) [0..<w]" by (rule enumerate_map_upt)
  then show ?thesis using foldl_push_le_val [of "\<lambda>j. data ! (k * w + j)" w] by (simp add: foldl_map mult.commute)
qed

lemma hex_line_ok:
  assumes cfg: "secded_ok cfg" and dw: "sc_data_width cfg = 8 * int w" and k: "w * Suc k \<le> length data" and f: "list_all (fits 8) data"
  shows "\<exists>l. hex_line data an cfg w e k = Inr (l @ [CHR 0x0A]) \<and> line_word cfg l = Some (le_val 8 (take w (drop (w * k) data)))"
proof -
  let ?bs = "take w (drop (w * k) data)"
  have bs: "map (\<lambda>j. data ! (k * w + j)) [0..<w] = ?bs" using k by (intro nth_equalityI) (simp_all add: mult.commute)
  have "list_all (fits 8) ?bs" using f by (auto simp: list_all_iff dest: in_set_takeD in_set_dropD)
  from le_val_fits [OF this] have fw: "fits (8 * w) (le_val 8 ?bs)" using k by simp
  have w0: "0 < 8 * w" using cfg dw by (simp add: secded_ok_def)
  let ?b = "fmt_bits (8 * w) (nat (le_val 8 ?bs))"
  have "nat (le_val 8 ?bs) < 2 ^ (8 * w)" using fw by (simp add: fits_iff nat_less_iff)
  from length_fmt_bits [OF w0 this] have lb: "length ?b = 8 * w" .
  then have "int (length ?b) = sc_data_width cfg" using dw by simp
  from ecc_encode_valid [OF cfg this] obtain ps where ps: "ecc_encode cfg ?b = Inr (rev ps @ ?b)"
    "length ps = length (sc_ecc_matrix cfg)" "is_valid_codeword cfg (rev ps @ ?b) = Inr True" by blast
  let ?cw = "rev ps @ ?b"
  have lcw: "nat (sc_data_width cfg + sc_ecc_width cfg) = length ?cw" using cfg dw lb ps(2) by (simp add: secded_ok_def)
  have ndw: "nat (sc_data_width cfg) = 8 * w" using dw by simp
  let ?h = "fmt_x [] (e * 2) (int (bits_val ?cw))"
  obtain r where r: "hex_line data an cfg w e k = Inr ((?h @ CHR '' '' # r) @ [CHR 0x0A])"
    using ps(1) unfolding hex_line_def Let_def word_foldl bs ndw by simp
  have "c \<noteq> CHR '' ''" if "c \<in> set ?h" for c
    using fmt_x_reads(1) [of "int (bits_val ?cw)" "e * 2"] is_hex_not(1) [of c] that by (auto simp: list_all_iff is_space_def char_code_def)
  then have "takeWhile (\<lambda>c. c \<noteq> CHR '' '') (?h @ CHR '' '' # r) = ?h" by (simp add: takeWhile_append)
  moreover have "int (bits_val ?cw) mod 2 ^ (8 * w) = le_val 8 ?bs"
    using fw lb by (simp add: bits_val_append bits_val_fmt_bits fits_iff)
  moreover have "?cw \<noteq> []" using lb w0 by auto
  ultimately have "line_word cfg (?h @ CHR '' '' # r) = Some (le_val 8 ?bs)"
    using ps(3) fmt_bits_val [of ?cw] unfolding line_word_def lcw ndw by (simp add: fmt_x_reads(2))
  then show ?thesis using r by blast
qed

definition hex_header :: "lc_secded_cfg \<Rightarrow> int \<Rightarrow> string" where
  "hex_header cfg num_words = ''// OTP memory hexfile with '' @ str_of_int num_words @ '' x '' @
     str_of_int ((sc_data_width cfg + sc_ecc_width cfg + 7) div 8 * 8) @ ''bit layout'' @ [CHR 0x0A]"

lemma mapR_lines:
  "\<forall>k\<in>set ks. \<exists>l. f k = Inr (l @ [c]) \<and> P k l \<Longrightarrow> \<exists>ls. mapR f ks = Inr (map (\<lambda>l. l @ [c]) ls) \<and> list_all2 P ks ls"
proof (induction ks)
  case (Cons k ks)
  then obtain l ls where "f k = Inr (l @ [c])" "P k l" "mapR f ks = Inr (map (\<lambda>l. l @ [c]) ls)" "list_all2 P ks ls" by auto
  then show ?case by (intro exI [of _ "l # ls"]) simp
qed simp

lemma to_hexfile_ok:
  assumes cfg: "secded_ok cfg" and dw: "sc_data_width cfg = 8 * int w" and w: "w \<le> 8" and len: "length data = w * d"
    and f: "list_all (fits 8) data"
  shows "\<exists>ls. to_hexfile_with_ecc data an cfg = Inr (hex_header cfg (int d) @ concat (map (\<lambda>l. l @ [CHR 0x0A]) ls)) \<and> length ls = d \<and>
    (\<forall>k<d. line_word cfg (ls ! k) = Some (le_val 8 (take w (drop (w * k) data))))"
proof -
  have w0: "0 < w" using cfg dw by (simp add: secded_ok_def)
  let ?e = "nat ((sc_data_width cfg + sc_ecc_width cfg + 7) div 8)"
  have "\<exists>l. hex_line data an cfg w ?e k = Inr (l @ [CHR 0x0A]) \<and> line_word cfg l = Some (le_val 8 (take w (drop (w * k) data)))" if "k < d" for k
    by (rule hex_line_ok [OF cfg dw _ f]) (use that len in \<open>simp only: mult_le_mono2 Suc_le_eq\<close>)
  then have "\<forall>k\<in>set [0..<d]. \<exists>l. hex_line data an cfg w ?e k = Inr (l @ [CHR 0x0A]) \<and> line_word cfg l = Some (le_val 8 (take w (drop (w * k) data)))"
    by simp
  from mapR_lines [OF this] obtain ls where
    ls: "mapR (hex_line data an cfg w ?e) [0..<d] = Inr (map (\<lambda>l. l @ [CHR 0x0A]) ls)"
      "list_all2 (\<lambda>k l. line_word cfg l = Some (le_val 8 (take w (drop (w * k) data)))) [0..<d] ls" by blast
  have nw: "int (length data) * 8 div sc_data_width cfg = int d"
  proof -
    have "int (length data) * 8 = sc_data_width cfg * int d" using len dw by simp
    then show ?thesis using w0 dw by simp
  qed
  have "to_hexfile_with_ecc data an cfg = Inr (hex_header cfg (int d) @ concat (map (\<lambda>l. l @ [CHR 0x0A]) ls))"
    using w w0 dw ls(1) unfolding to_hexfile_with_ecc_def Let_def nw by (simp add: require_def hex_header_def)
  then show ?thesis using ls(2) by (auto simp: list_all2_conv_all_nth)
qed

section \<open>The values that the configurations give\<close>

text \<open>
  What the configurations say, read off them without the merging: the values they give to items, under the
  names of the partition and of the item, and the lock bits of partitions, in the order in which they are
  given.  A value may depend on the size of its item, because a random value has as many bits.
\<close>

type_synonym given_values = "((yaml \<times> yaml) \<times> (int \<Rightarrow> int)) list"
type_synonym given_locks = "(yaml \<times> bool) list"

definition given_name :: "yaml_dict \<Rightarrow> yaml" where
  "given_name d = (case ydict_get d ''name'' of Some n \<Rightarrow> n | None \<Rightarrow> YStr ''unknown_name'')"

definition given_value :: "(int \<Rightarrow> nat) \<Rightarrow> yaml_dict \<Rightarrow> int \<Rightarrow> int" where
  "given_value rnd item sz =
     (case ydict_get item ''value'' of
        Some (YStr s) \<Rightarrow>
          if s = ''<random>'' then int (rnd (8 * sz)) else (case py_int16 s of Some v \<Rightarrow> v | None \<Rightarrow> 0)
      | _ \<Rightarrow> 0)"

fun given_items :: "draws \<Rightarrow> nat \<Rightarrow> nat \<Rightarrow> nat \<Rightarrow> yaml \<Rightarrow> yaml list \<Rightarrow> given_values" where
  "given_items draw c j k part [] = []"
| "given_items draw c j k part (y # ys) =
     (case y of YDict item \<Rightarrow> [((part, given_name item), given_value (draw (DrawValue c j k)) item)] | _ \<Rightarrow> [])
       @ given_items draw c j (k + 1) part ys"

text \<open>The life cycle partition is given by the name of a state and a count, which the life cycle encoding turns into numbers.\<close>

definition lc_number :: "lc_enc \<Rightarrow> string \<Rightarrow> string option \<Rightarrow> int" where
  "lc_number lc name state =
     (case map_option (LcStEnc_encode lc name) state of Some (Inr n) \<Rightarrow> int n | _ \<Rightarrow> 0)"

definition given_part :: "lc_enc \<Rightarrow> draws \<Rightarrow> nat \<Rightarrow> nat \<Rightarrow> yaml_dict \<Rightarrow> given_values" where
  "given_part lc draw c j d =
     (let name = given_name d
      in if name = YStr ''LIFE_CYCLE'' then
           let state = (case ydict_get d ''state'' of Some y \<Rightarrow> state_name y | None \<Rightarrow> Some ''RAW'');
               count = (case ydict_get d ''count'' of Some y \<Rightarrow> common_check_int y | None \<Rightarrow> Inr 0)
           in [((name, YStr ''LC_STATE''), \<lambda>_. lc_number lc ''lc_state'' state),
               ((name, YStr ''LC_TRANSITION_CNT''),
                  \<lambda>_. lc_number lc ''lc_cnt'' (case count of Inr n \<Rightarrow> Some (str_of_int n) | Inl _ \<Rightarrow> None))]
         else (case ydict_get d ''items'' of Some (YList ys) \<Rightarrow> given_items draw c j 0 name ys | _ \<Rightarrow> []))"

fun given_parts :: "lc_enc \<Rightarrow> draws \<Rightarrow> nat \<Rightarrow> nat \<Rightarrow> yaml list \<Rightarrow> given_values" where
  "given_parts lc draw c j [] = []"
| "given_parts lc draw c j (y # ys) =
     (case y of YDict d \<Rightarrow> given_part lc draw c j d | _ \<Rightarrow> []) @ given_parts lc draw c (j + 1) ys"

fun given_configs :: "lc_enc \<Rightarrow> draws \<Rightarrow> nat \<Rightarrow> yaml list list \<Rightarrow> given_values" where
  "given_configs lc draw c [] = []"
| "given_configs lc draw c (ys # yss) = given_parts lc draw c 0 ys @ given_configs lc draw (c + 1) yss"

definition given_lock :: "yaml \<Rightarrow> given_locks" where
  "given_lock y =
     (case y of
        YDict d \<Rightarrow> [(given_name d, case ydict_get d ''lock'' of
            Some (YBool b) \<Rightarrow> b | Some (YStr s) \<Rightarrow> py_lower s = ''true'' | _ \<Rightarrow> False)]
      | _ \<Rightarrow> [])"

definition config_parts :: "yaml_dict \<Rightarrow> yaml list" where
  "config_parts cfg = (case ydict_get cfg ''partitions'' of Some (YList ps) \<Rightarrow> ps | _ \<Rightarrow> [])"

text \<open>A partition of the memory map with the last value given to each item and the last lock bit given to it.\<close>

definition with_value :: "given_values \<Rightarrow> yaml \<Rightarrow> otp_item \<Rightarrow> otp_item" where
  "with_value vals part item = item\<lparr>it_value :=
     (case map_of (rev vals) (part, it_name item) of Some f \<Rightarrow> Some (YInt (f (it_size item))) | None \<Rightarrow> it_value item)\<rparr>"

definition with_given :: "given_locks \<Rightarrow> given_values \<Rightarrow> otp_part \<Rightarrow> otp_part" where
  "with_given locks vals p = p\<lparr>
     op_lock := (case map_of (rev locks) (op_name p) of Some b \<Rightarrow> Some (YBool b) | None \<Rightarrow> op_lock p),
     op_items := map (with_value vals (op_name p)) (op_items p)\<rparr>"

definition merged_parts :: "lc_enc \<Rightarrow> draws \<Rightarrow> otp_map \<Rightarrow> yaml list list \<Rightarrow> otp_part list" where
  "merged_parts lc draw m yss =
     map (with_given (concat (map given_lock (concat yss))) (given_configs lc draw 0 yss)) (om_partitions m)"

definition img_given :: "given_locks \<Rightarrow> given_values \<Rightarrow> otp_img \<Rightarrow> otp_img" where
  "img_given locks vals img =
     img\<lparr>oi_map := (oi_map img)\<lparr>om_partitions := map (with_given locks vals) (om_partitions (oi_map img))\<rparr>\<rparr>"

lemma with_value_append: "with_value vs' part (with_value vs part item) = with_value (vs @ vs') part item"
  by (simp add: with_value_def map_add_def split: option.splits)

lemma with_given_append: "with_given ls' vs' (with_given ls vs p) = with_given (ls @ ls') (vs @ vs') p"
  by (simp add: with_given_def with_value_append comp_def map_add_def split: option.splits)

lemma img_given_append: "img_given ls' vs' (img_given ls vs img) = img_given (ls @ ls') (vs @ vs') img"
  by (simp add: img_given_def with_given_append comp_def)

lemma with_value_same: "it_name (with_value vs part item) = it_name item" "it_size (with_value vs part item) = it_size item"
  by (simp_all add: with_value_def)

lemma with_value_nil [simp]: "with_value [] part = (\<lambda>item. item)"
  by (simp add: with_value_def fun_eq_iff)

lemma with_value_other: "part \<noteq> n \<Longrightarrow> with_value [((n, i), f)] part = (\<lambda>item. item)"
  by (simp add: with_value_def fun_eq_iff)

lemma with_given_nil [simp]: "with_given [] [] = (\<lambda>p. p)"
  by (simp add: with_given_def fun_eq_iff)

lemma img_given_nil: "img_given [] [] img = img"
  by (simp add: img_given_def)

text \<open>An image whose map has the index of its partitions, all with names of their own.\<close>

definition img_indexed :: "otp_img \<Rightarrow> bool" where
  "img_indexed img \<longleftrightarrow> om_part_dict (oi_map img) = index_parts 0 (om_partitions (oi_map img)) \<and>
     part_names_ok (om_partitions (oi_map img))"

lemma img_given_indexed: "img_indexed img \<Longrightarrow> img_indexed (img_given ls vs img)"
proof -
  have n: "op_name (with_given ls vs p) = op_name p" "map it_name (op_items (with_given ls vs p)) = map it_name (op_items p)" for p
    by (simp_all add: with_given_def with_value_same comp_def)
  have h: "list_all (\<lambda>it. hashable (it_name it)) (op_items (with_given ls vs p)) = list_all (\<lambda>it. hashable (it_name it)) (op_items p)" for p
    by (simp add: with_given_def list.pred_map comp_def with_value_same)
  have x: "index_items 0 (op_items (with_given ls vs p)) = index_items 0 (op_items p)" for p
    unfolding index_items_def n by (simp add: with_given_def)
  have "index_parts j (map (with_given ls vs) ps) = index_parts j ps" for j ps
    by (induction ps arbitrary: j) (simp_all add: index_parts_def n x)
  then show "img_indexed img \<Longrightarrow> img_indexed (img_given ls vs img)"
    unfolding img_indexed_def part_names_ok_def
    by (simp add: img_given_def list.pred_map comp_def n(1)) (simp add: n(2) h)
qed

text \<open>A name that is found belongs to the partition or item at the position found.\<close>

lemma get_part_found:
  assumes "img_indexed img" and "get_part (oi_map img) n = Inr (Some j)"
  shows "j < length (om_partitions (oi_map img)) \<and> op_name (om_partitions (oi_map img) ! j) = n"
proof -
  from assms obtain its where "(n, j, its) \<in> set (index_parts 0 (om_partitions (oi_map img)))"
    by (auto simp: get_part_def img_indexed_def split: if_splits dest!: map_of_SomeD)
  then obtain i where "i < length (om_partitions (oi_map img))" "index_parts 0 (om_partitions (oi_map img)) ! i = (n, j, its)"
    by (auto simp: in_set_conv_nth index_parts_def)
  then show ?thesis using index_parts_nth [of i _ 0] by auto
qed

lemma get_item_found:
  assumes "img_indexed img" and "get_item (oi_map img) n i = Inr (Some (j, k))"
  shows "j < length (om_partitions (oi_map img)) \<and> op_name (om_partitions (oi_map img) ! j) = n \<and>
    k < length (op_items (om_partitions (oi_map img) ! j)) \<and> it_name (op_items (om_partitions (oi_map img) ! j) ! k) = i"
proof -
  let ?ps = "om_partitions (oi_map img)"
  from assms obtain its where its: "map_of (index_parts 0 ?ps) n = Some (j, its)" "map_of its i = Some k" "hashable n"
    by (auto simp: get_item_def img_indexed_def split: if_splits option.splits)
  then have p: "j < length ?ps \<and> op_name (?ps ! j) = n"
    using get_part_found [OF assms(1), of n j] assms(1) by (simp add: get_part_def img_indexed_def)
  have "(n, j, its) \<in> set (index_parts 0 ?ps)" using its(1) by (rule map_of_SomeD)
  then obtain j' where "j' < length ?ps" "index_parts 0 ?ps ! j' = (n, j, its)"
    by (auto simp: in_set_conv_nth index_parts_def)
  then have "its = index_items 0 (op_items (?ps ! j))" using index_parts_nth [of j' ?ps 0] by auto
  then have "(i, k) \<in> set (zip (map it_name (op_items (?ps ! j))) [0..<length (op_items (?ps ! j))])"
    using its(2) by (auto simp: index_items_def dest!: map_of_SomeD)
  then show ?thesis using p by (auto simp: in_set_zip)
qed

text \<open>Replacing the element at a position is replacing the elements with its name.\<close>

lemma update_by_name:
  assumes "distinct (map f xs)" and "j < length xs" and "f (xs ! j) = n"
  shows "xs[j := g (xs ! j)] = map (\<lambda>x. if f x = n then g x else x) xs"
proof (rule nth_equalityI)
  fix i assume "i < length (xs[j := g (xs ! j)])"
  then have "i < length xs" by simp
  moreover have "f (xs ! i) = n \<longleftrightarrow> i = j"
    using assms calculation by (auto simp: distinct_conv_nth)
  ultimately show "xs[j := g (xs ! j)] ! i = map (\<lambda>x. if f x = n then g x else x) xs ! i"
    by (simp add: nth_list_update)
qed simp

lemma img_indexed_distinct:
  assumes "img_indexed img"
  shows "distinct (map op_name (om_partitions (oi_map img)))"
    and "j < length (om_partitions (oi_map img)) \<Longrightarrow> distinct (map it_name (op_items (om_partitions (oi_map img) ! j)))"
  using assms by (auto simp: img_indexed_def part_names_ok_def list_all_length)

lemma upd_part_by_name:
  assumes "img_indexed img" and "j < length (om_partitions (oi_map img))" and "op_name (om_partitions (oi_map img) ! j) = n"
    and "f (om_partitions (oi_map img) ! j) = with_given ls vs (om_partitions (oi_map img) ! j)"
    and "\<And>p. op_name p \<noteq> n \<Longrightarrow> with_given ls vs p = p"
  shows "upd_part j f img = img_given ls vs img"
proof -
  let ?ps = "om_partitions (oi_map img)"
  have "?ps[j := f (?ps ! j)] = ?ps[j := with_given ls vs (?ps ! j)]" using assms(4) by simp
  also have "\<dots> = map (with_given ls vs) ?ps"
    using update_by_name [OF img_indexed_distinct(1) [OF assms(1)] assms(2,3), of "with_given ls vs"] assms(5) by auto
  finally show ?thesis by (simp add: upd_part_def img_given_def)
qed

lemma merge_part_data_img:
  assumes "img_indexed img" and "merge_part_data part img = Inr (img', name, items)"
  shows "img' = img_given (given_lock (YDict part)) [] img" and "name = given_name part"
proof -
  let ?ps = "om_partitions (oi_map img)"
  from assms(2) obtain j lock where r: "get_part (oi_map img) (given_name part) = Inr (Some j)"
      "common_check_bool (get_or_default part ''lock'' (YStr ''false'')) = Inr lock"
      "img' = upd_part j (\<lambda>p. p\<lparr>op_lock := Some (YBool lock)\<rparr>) img" "name = given_name part"
    unfolding merge_part_data_def Let_def
    by (auto simp: bindR_Inr_iff given_name_def get_or_default_def split: yaml.splits option.splits if_splits)
  then show "name = given_name part" by simp
  have l: "given_lock (YDict part) = [(given_name part, lock)]"
    using r(2) by (auto simp: given_lock_def common_check_bool_def get_or_default_def py_lower_def
        split: yaml.splits option.splits if_splits)
  have "upd_part j (\<lambda>p. p\<lparr>op_lock := Some (YBool lock)\<rparr>) img = img_given [(given_name part, lock)] [] img"
    using get_part_found [OF assms(1) r(1)] assms(1)
    by (intro upd_part_by_name) (auto simp: with_given_def)
  then show "img' = img_given (given_lock (YDict part)) [] img" using r(3) l by simp
qed

lemma py_int16_zero: "py_int16 ''0x0'' = Some 0"
  by code_simp

lemma merge_item_data_img:
  assumes "img_indexed img" and "merge_item_data rnd n item img = Inr img'"
  shows "img' = img_given [] [((n, given_name item), given_value rnd item)] img"
proof -
  let ?ps = "om_partitions (oi_map img)"
  from assms(2) obtain j k v where r: "get_item (oi_map img) n (given_name item) = Inr (Some (j, k))"
      "random_or_hexvalue (rnd (it_size (op_items (?ps ! j) ! k) * 8)) item ''value'' (it_size (op_items (?ps ! j) ! k) * 8) = Inr v"
      "img' = upd_part j (\<lambda>p. p\<lparr>op_items := (op_items p)[k := (op_items p ! k)\<lparr>it_value := Some (YInt v)\<rparr>]\<rparr>) img"
    unfolding merge_item_data_def Let_def
    by (auto simp: bindR_Inr_iff given_name_def get_or_default_def split: option.splits if_splits)
  note f = get_item_found [OF assms(1) r(1)]
  let ?its = "op_items (?ps ! j)" and ?vs = "[((n, given_name item), given_value rnd item)]"
  have v: "v = given_value rnd item (it_size (?its ! k))"
    using r(2) by (auto simp: random_or_hexvalue_def given_value_def get_or_default_def mult.commute py_int16_zero
        split: yaml.splits option.splits if_splits)
  have "?its[k := (?its ! k)\<lparr>it_value := Some (YInt v)\<rparr>] = ?its[k := with_value ?vs n (?its ! k)]"
    using f v by (simp add: with_value_def)
  also have "\<dots> = map (with_value ?vs n) ?its"
  proof -
    have "with_value ?vs n it = it" if "it_name it \<noteq> given_name item" for it
      using that by (simp add: with_value_def)
    then show ?thesis
      using update_by_name [OF img_indexed_distinct(2) [OF assms(1)], of j k "given_name item" "with_value ?vs n"] f
      by (auto intro!: map_cong)
  qed
  finally have "?its[k := (?its ! k)\<lparr>it_value := Some (YInt v)\<rparr>] = map (with_value ?vs n) ?its" .
  then show ?thesis
    unfolding r(3) using f assms(1) by (intro upd_part_by_name) (auto simp: with_given_def with_value_other)
qed


lemma merge_items_img:
  "img_indexed img \<Longrightarrow> merge_items draw c j k part ys img = Inr img' \<Longrightarrow>
   img' = img_given [] (given_items draw c j k part ys) img"
proof (induction ys arbitrary: k img)
  case (Cons y ys)
  from Cons.prems(2) obtain item img1 where i: "y = YDict item"
      "merge_item_data (draw (DrawValue c j k)) part item img = Inr img1"
      "merge_items draw c j (k + 1) part ys img1 = Inr img'"
    by (auto simp: bindR_Inr_iff as_dict_def split: yaml.splits)
  note m = merge_item_data_img [OF Cons.prems(1) i(2)]
  then have "img_indexed img1" using img_given_indexed [OF Cons.prems(1)] by simp
  from Cons.IH [OF this i(3)] show ?case using i(1) by (simp add: m img_given_append)
qed (simp add: img_given_nil)

text \<open>The encoding of the life cycle state is handed to the items as a hexadecimal string, which is read back.\<close>

lemma int_digits_ok_mono: "int_digits b acc False s = Some v \<Longrightarrow> int_digits b acc True s = Some v"
  by (cases s) (auto split: if_splits)

lemma py_int16_0x: "0 \<le> v \<Longrightarrow> py_int16 (''0x'' @ fmt_X w v) = Some v"
proof -
  assume v: "0 \<le> v"
  let ?s = "fmt_X w v"
  note f = fmt_X_hex [OF v, of w]
  have h: "is_hex c" if "c \<in> set ?s" for c using f(1) that by (simp add: list_all_iff)
  have z: "is_hex (CHR ''0'')" by (simp add: is_hex_code char_code_def)
  have "dropWhile is_int_space (''0x'' @ ?s) = ''0x'' @ ?s" using is_hex_not(2) [OF z] by simp
  moreover have "dropWhile is_int_space (rev (''0x'' @ ?s)) = rev (''0x'' @ ?s)"
    using f(2) h is_hex_not(2) by (auto simp: dropWhile_eq_self_iff hd_append hd_rev)
  ultimately have t: "rev (dropWhile is_int_space (rev (dropWhile is_int_space (''0x'' @ ?s)))) = ''0x'' @ ?s"
    by (simp only: rev_rev_ident)
  have "prefixed_digits 16 ?s = Some v"
    using f(2) int_digits_ok_mono [OF f(3)] by (simp add: prefixed_digits_def)
  then show ?thesis unfolding py_int16_def Let_def t by (simp add: unsigned_hex_def)
qed

lemma given_items_lc:
  "given_items draw c j 0 n
     [YDict [(YStr ''name'', YStr a), (YStr ''value'', YStr (''0x'' @ fmt_X 0 (int x)))],
      YDict [(YStr ''name'', YStr b), (YStr ''value'', YStr (''0x'' @ fmt_X 0 (int y)))]] =
   [((n, YStr a), \<lambda>_. int x), ((n, YStr b), \<lambda>_. int y)]"
  using py_int16_0x [of "int x" 0] py_int16_0x [of "int y" 0]
  by (simp add: given_name_def given_value_def fun_eq_iff)

lemma merge_part_data_items:
  assumes "merge_part_data part img = Inr (img', name, items)"
  shows "given_items draw c j 0 name items = given_part (oi_lc_state img) draw c j part"
proof (cases "given_name part = YStr ''LIFE_CYCLE''")
  case True
  then have n: "get_or_default part ''name'' (YStr ''unknown_name'') = YStr ''LIFE_CYCLE''"
    by (simp add: given_name_def get_or_default_def)
  obtain s count st cnt where r: "state_name (get_or_default part ''state'' (YStr ''RAW'')) = Some s"
      "common_check_int (get_or_default part ''count'' (YInt 0)) = Inr count"
      "LcStEnc_encode (oi_lc_state img) ''lc_state'' s = Inr st" "LcStEnc_encode (oi_lc_state img) ''lc_cnt'' (str_of_int count) = Inr cnt"
      "name = YStr ''LIFE_CYCLE''"
      "items = [YDict [(YStr ''name'', YStr ''LC_STATE''), (YStr ''value'', YStr (''0x'' @ fmt_X 0 (int st)))],
         YDict [(YStr ''name'', YStr ''LC_TRANSITION_CNT''), (YStr ''value'', YStr (''0x'' @ fmt_X 0 (int cnt)))]]"
    using assms unfolding merge_part_data_def Let_def n
    by (auto simp: bindR_Inr_iff split: yaml.split_asm option.split_asm if_split_asm)
  have "(case ydict_get part ''state'' of Some y \<Rightarrow> state_name y | None \<Rightarrow> Some ''RAW'') = Some s"
    using r(1) by (cases "ydict_get part ''state''") (simp_all add: get_or_default_def state_name_def)
  moreover have "(case ydict_get part ''count'' of Some y \<Rightarrow> common_check_int y | None \<Rightarrow> Inr 0) = Inr count"
    using r(2) by (cases "ydict_get part ''count''") (simp_all add: get_or_default_def common_check_int_def)
  ultimately show ?thesis
    using True r(3-6) given_items_lc [of draw c j name "''LC_STATE''" st "''LC_TRANSITION_CNT''" cnt]
    by (simp add: given_part_def Let_def lc_number_def)
next
  case False
  then have n: "get_or_default part ''name'' (YStr ''unknown_name'') = given_name part"
    "(given_name part = YStr ''LIFE_CYCLE'') = False"
    by (simp_all add: given_name_def get_or_default_def)
  obtain its where "get_or_default part ''items'' (YList []) = YList its" "name = given_name part" "items = its"
    using assms unfolding merge_part_data_def Let_def n
    by (auto simp: bindR_Inr_iff split: yaml.split_asm option.split_asm if_split_asm)
  then show ?thesis
    using False by (auto simp: given_part_def Let_def get_or_default_def split: option.splits)
qed

lemma merge_parts_img:
  "img_indexed img \<Longrightarrow> merge_parts draw c j ys img = Inr img' \<Longrightarrow>
   img' = img_given (concat (map given_lock ys)) (given_parts (oi_lc_state img) draw c j ys) img"
proof (induction ys arbitrary: j img)
  case (Cons y ys)
  from Cons.prems(2) obtain part img1 name items img2 where p: "y = YDict part"
      "merge_part_data part img = Inr (img1, name, items)" "merge_items draw c j 0 name items img1 = Inr img2"
      "merge_parts draw c (j + 1) ys img2 = Inr img'"
    by (auto simp: bindR_Inr_iff as_dict_def split: yaml.splits)
  note m1 = merge_part_data_img(1) [OF Cons.prems(1) p(2)]
  have i1: "img_indexed img1" unfolding m1 by (rule img_given_indexed [OF Cons.prems(1)])
  note m2 = merge_items_img [OF i1 p(3)]
  have i2: "img_indexed img2" unfolding m2 by (rule img_given_indexed [OF i1])
  have lc: "oi_lc_state img2 = oi_lc_state img" unfolding m2 m1 by (simp add: img_given_def)
  have "img' = img_given (concat (map given_lock ys)) (given_parts (oi_lc_state img) draw c (j + 1) ys) img2"
    using Cons.IH [OF i2 p(4)] lc by simp
  also have "img2 = img_given (given_lock y) (given_part (oi_lc_state img) draw c j part) img"
    unfolding m2 m1 img_given_append using merge_part_data_items [OF p(2)] p(1) by simp
  finally show ?case using p(1) by (simp add: img_given_append)
qed (simp add: img_given_nil)

lemma override_all_img:
  "img_indexed img \<Longrightarrow> override_all draw c cfgs img = Inr img' \<Longrightarrow>
   img' = img_given (concat (map given_lock (concat (map config_parts cfgs))))
     (given_configs (oi_lc_state img) draw c (map config_parts cfgs)) img"
proof (induction cfgs arbitrary: c img)
  case (Cons cfg cfgs)
  from Cons.prems(2) obtain img1 where i: "override_data draw c cfg img = Inr img1" "override_all draw (c + 1) cfgs img1 = Inr img'"
    by (auto simp: bindR_Inr_iff)
  from i(1) have "merge_parts draw c 0 (config_parts cfg) img = Inr img1"
    by (auto simp: override_data_def config_parts_def bindR_Inr_iff split: option.splits yaml.splits if_splits)
  note m = merge_parts_img [OF Cons.prems(1) this]
  have i1: "img_indexed img1" unfolding m by (rule img_given_indexed [OF Cons.prems(1)])
  have "oi_lc_state img1 = oi_lc_state img" unfolding m by (simp add: img_given_def)
  then show ?case using Cons.IH [OF i1 i(2)] by (simp add: m img_given_append)
qed (simp add: img_given_nil)

text \<open>
  The merged image: the memory map in which every item has the last value that a configuration gives it, and every
  partition the last lock bit; nothing else changes.
\<close>

lemma merged_img:
  assumes "OtpMemMap_init draw config = Inr m"
    and "merge_parts draw 0 0 ys \<lparr>oi_map = m, oi_lc_state = lc\<rparr> = Inr img0" and "override_all draw 1 cfgs img0 = Inr img"
  shows "img = \<lparr>oi_map = m\<lparr>om_partitions := merged_parts lc draw m (ys # map config_parts cfgs)\<rparr>, oi_lc_state = lc\<rparr>"
proof -
  have i: "img_indexed \<lparr>oi_map = m, oi_lc_state = lc\<rparr>"
    using OtpMemMap_init_facts(4,5) [OF assms(1)] by (simp add: img_indexed_def)
  note m0 = merge_parts_img [OF i assms(2)]
  have i0: "img_indexed img0" unfolding m0 by (rule img_given_indexed [OF i])
  have "oi_lc_state img0 = lc" unfolding m0 by (simp add: img_given_def)
  with override_all_img [OF i0 assms(3)] show ?thesis
    by (simp add: m0 img_given_append) (simp add: img_given_def merged_parts_def)
qed

section \<open>Merging keeps the layout\<close>

definition item_shape :: "otp_item \<Rightarrow> yaml \<times> int \<times> yaml" where
  "item_shape item = (it_name item, it_size item, it_offset item)"

definition part_shape :: "otp_part \<Rightarrow> yaml \<times> yaml \<times> int \<times> bool \<times> bool \<times> (yaml \<times> int \<times> yaml) list" where
  "part_shape p = (op_name p, op_offset p, op_size p, op_sw_digest p, op_hw_digest p, map item_shape (op_items p))"

lemma with_given_shape: "part_shape (with_given ls vs p) = part_shape p"
  by (simp add: part_shape_def item_shape_def with_given_def with_value_def comp_def)

lemma merged_parts_shape: "map part_shape (merged_parts lc draw m yss) = map part_shape (om_partitions m)"
  by (simp add: merged_parts_def with_given_shape)

lemma items_at_shape: "map item_shape xs = map item_shape ys \<Longrightarrow> items_at a xs z = items_at a ys z"
proof (induction xs arbitrary: a ys)
  case (Cons x xs)
  then show ?case by (cases ys) (auto simp: item_shape_def split: yaml.splits)
qed auto

lemma parts_at_shape: "map part_shape ps = map part_shape qs \<Longrightarrow> parts_at a ps z = parts_at a qs z"
proof (induction ps arbitrary: a qs)
  case (Cons p ps)
  then obtain q qs' where q: "qs = q # qs'" "part_shape p = part_shape q" "map part_shape ps = map part_shape qs'" by (cases qs) auto
  have it: "map item_shape (op_items p) = map item_shape (op_items q)" using q(2) by (simp add: part_shape_def)
  have "op_items p = [] \<longleftrightarrow> op_items q = []" "op_items q \<noteq> [] \<Longrightarrow> item_shape (last (op_items p)) = item_shape (last (op_items q))"
    using it by (metis list.map_disc_iff, metis it last_map list.map_disc_iff)
  then have "digest_last p x = digest_last q x" for x by (auto simp: digest_last_def item_shape_def)
  then show ?case using Cons.IH [OF q(3)] q(1,2) items_at_shape [OF it] by (simp add: part_shape_def)
qed simp

section \<open>The written file\<close>

lemma sizes_shape: "map part_shape ps = map part_shape qs \<Longrightarrow> list_all (\<lambda>p. sizes_ok (op_items p)) ps \<Longrightarrow> list_all (\<lambda>p. sizes_ok (op_items p)) qs"
proof (induction ps arbitrary: qs)
  case (Cons p ps)
  from Cons.prems(1) obtain q qs' where q: "qs = q # qs'" "part_shape p = part_shape q" "map part_shape ps = map part_shape qs'" by (cases qs) auto
  have "map (fst \<circ> snd) (map item_shape (op_items p)) = map (fst \<circ> snd) (map item_shape (op_items q))"
    using q(2) by (simp only: part_shape_def prod.inject)
  then have "map it_size (op_items p) = map it_size (op_items q)" by (simp add: item_shape_def comp_def)
  moreover have "sizes_ok its = list_all (\<lambda>n. 0 \<le> n) (map it_size its)" for its by (simp add: sizes_ok_def list.pred_map comp_def)
  ultimately have "sizes_ok (op_items q) = sizes_ok (op_items p)" by simp
  then show ?case using Cons.IH [OF q(3)] Cons.prems(2) q(1) by simp
qed simp

text \<open>What the constructor builds: a map with the values of the image configuration merged in.\<close>

lemma OtpMemImg_init_facts:
  assumes "OtpMemImg_init cSHAKE128 token_bits draw lc_config states getrandbits choice mmap_config img_config = Some (Inr img)"
  shows "\<exists>m lc ps. OtpMemMap_init draw mmap_config = Inr m \<and>
    LcStEnc_init cSHAKE128 token_bits lc_config states getrandbits choice = Some (Inr lc) \<and>
    8 * og_width (om_otp m) = sc_data_width (lc_secded (le_config lc)) \<and>
    merge_parts draw 0 0 ps \<lparr>oi_map = m, oi_lc_state = lc\<rparr> = Inr img"
proof -
  from assms obtain m r where m: "OtpMemMap_init draw mmap_config = Inr m"
    "LcStEnc_init cSHAKE128 token_bits lc_config states getrandbits choice = Some r"
    unfolding OtpMemImg_init_def by (auto split: sum.splits)
  with assms obtain lc where "r = Inr lc" by (cases r) (auto simp: OtpMemImg_init_def)
  with assms m show ?thesis
    by (auto simp: OtpMemImg_init_def bindR_Inr_iff require_def split: if_splits option.splits)
qed

text \<open>
  C12: The text file holds the memory image that the configurations describe.  Take an accepted memory map whose
  description has no offset keys, so that the tool chooses the offsets, and an image configuration and any number of
  additional configurations that are all merged into it.  Let \<open>merged_parts\<close> be its partitions with the last value
  that a configuration gives to each item (the number written, the random draw, zero by default; for the life cycle
  partition the encodings of the named state and of the count) and the last lock bit of each partition; the tool's
  merging leads to exactly these.  Suppose that they are ready to be written (names are strings, values are
  numbers, sizes are not negative, the key of a secret partition has 128 bits, a hardware digest has no value of its
  own, and for a locked partition there is a digest with a start value of 64 bits), that the check bits of the matrix
  depend on earlier bits only, that a memory word is as wide as the data of a code word, and that it has at most
  eight bytes.  Then streaming out raises nothing.  The file has one line for each memory word; every line is a valid
  code word whose data bits are the bytes of the memory at that word.  In the memory every partition is at its
  offset: each block is the value of the items there, which PRESENT decryption recovers if the partition is secret;
  the last block of a locked partition is the digest of the others; and everything after the partitions is zero.
\<close>

theorem otp_image_exact:
  assumes m: "OtpMemMap_init draw config = Inr m" and plain: "map_plain config"
    and img0: "merge_parts draw 0 0 ys \<lparr>oi_map = m, oi_lc_state = lc\<rparr> = Inr img0" and img: "override_all draw 1 cfgs img0 = Inr img"
    and ready: "list_all (part_ready (om_scrambling m)) (merged_parts lc draw m (ys # map config_parts cfgs))"
    and cfg: "secded_ok (lc_secded (le_config lc))" "8 * og_width (om_otp m) = sc_data_width (lc_secded (le_config lc))"
    and wide: "og_width (om_otp m) \<le> 8"
  shows "\<exists>ls data. streamout_hexfile img =
      Inr (hex_header (lc_secded (le_config lc)) (og_depth (om_otp m)) @ concat (map (\<lambda>l. l @ [CHR 0x0A]) ls)) \<and>
    int (length ls) = og_depth (om_otp m) \<and> int (length data) = og_size (om_otp m) \<and>
    (\<forall>k<length ls. line_word (lc_secded (le_config lc)) (ls ! k) =
      Some (le_val 8 (take (nat (og_width (om_otp m))) (drop (nat (og_width (om_otp m)) * k) data)))) \<and>
    image_holds (om_scrambling m) (merged_parts lc draw m (ys # map config_parts cfgs)) data \<and>
    (\<forall>i<length data. sum_list (map op_size (om_partitions m)) \<le> int i \<longrightarrow> data ! i = 0)"
proof -
  let ?parts = "merged_parts lc draw m (ys # map config_parts cfgs)" and ?scr = "om_scrambling m"
  note g = OtpMemMap_init_facts [OF m]
  define w d where "w = nat (og_width (om_otp m))" and "d = nat (og_depth (om_otp m))"
  have wd: "og_width (om_otp m) = int w" "og_depth (om_otp m) = int d" "og_size (om_otp m) = int (w * d)"
    using g(1-3) by (simp_all add: w_def d_def)
  have eq: "om_otp (oi_map img) = om_otp m" "om_scrambling (oi_map img) = ?scr" "om_partitions (oi_map img) = ?parts"
    and lc: "oi_lc_state img = lc" by (simp_all add: merged_img [OF m img0 img])
  have sh: "map part_shape ?parts = map part_shape (om_partitions m)" by (rule merged_parts_shape)
  have sz: "sum_list (map op_size (om_partitions m)) = sum_list (map op_size ?parts)"
    by (simp add: merged_parts_def with_given_def comp_def)
  have "list_all (\<lambda>p. sizes_ok (op_items p)) ?parts"
    using ready by (auto simp: list_all_iff part_ready_def sizes_ok_def item_ready_def)
  then have at: "parts_at 0 ?parts (int (w * d))"
    using g(6) [OF plain sizes_shape [OF sh]] parts_at_shape [OF sh] wd(3) by simp
  have "list_all (fits 8) (replicate (w * d) 0)" by (simp add: list_all_iff)
  from streamout_parts_ok [OF at ready order_refl _ _ this, of "replicate (w * d) []"] obtain data an where
    st: "streamout_parts ?scr (int (w * d)) ?parts (replicate (w * d) 0, replicate (w * d) []) = Inr (data, an)" "length data = w * d"
      "length an = w * d" "list_all (fits 8) data" "image_holds ?scr ?parts data"
      "drop (nat (sum_list (map op_size ?parts))) data = drop (nat (sum_list (map op_size ?parts))) (replicate (w * d) 0)" by auto
  from to_hexfile_ok [of "lc_secded (le_config lc)" w data d an] cfg wide wd st(2,4) obtain ls where
    ls: "to_hexfile_with_ecc data an (lc_secded (le_config lc)) =
        Inr (hex_header (lc_secded (le_config lc)) (int d) @ concat (map (\<lambda>l. l @ [CHR 0x0A]) ls))" "length ls = d"
      "\<forall>k<d. line_word (lc_secded (le_config lc)) (ls ! k) = Some (le_val 8 (take w (drop (w * k) data)))" by auto
  have "streamout_hexfile img = Inr (hex_header (lc_secded (le_config lc)) (og_depth (om_otp m)) @ concat (map (\<lambda>l. l @ [CHR 0x0A]) ls))"
    unfolding streamout_hexfile_def Let_def eq lc wd nat_int st(1) bindR_simps prod.case using st(2,3) ls(1) by (simp add: require_def)
  moreover have "data ! i = 0" if "i < length data" "sum_list (map op_size ?parts) \<le> int i" for i
  proof -
    have "nat (sum_list (map op_size ?parts)) \<le> i" using that(2) by linarith
    then obtain j where j: "i = nat (sum_list (map op_size ?parts)) + j" by (auto simp: le_iff_add)
    then have "data ! i = drop (nat (sum_list (map op_size ?parts))) data ! j" using that(1) by simp
    also have "\<dots> = 0" unfolding st(6) using j that(1) st(2) by simp
    finally show ?thesis .
  qed
  ultimately show ?thesis using ls(2,3) st(2,5) wd sz by (intro exI [of _ ls] exI [of _ data]) auto
qed

definition demo_img_parts :: "yaml list" where
  "demo_img_parts =
     [YDict [(YStr ''name'', YStr ''VENDOR''), (YStr ''items'', YList [YDict [(YStr ''name'', YStr ''A''), (YStr ''value'', YStr ''0x1234'')]])],
      YDict [(YStr ''name'', YStr ''SECRET''), (YStr ''lock'', YStr ''true''),
        (YStr ''items'', YList [YDict [(YStr ''name'', YStr ''S''), (YStr ''value'', YStr ''0x1122334455667788'')]])]]"

definition demo_lc :: lc_enc where
  "demo_lc = \<lparr>le_config = \<lparr>lc_secded = \<lparr>sc_data_width = 16, sc_ecc_width = 1, sc_ecc_matrix = [map int [0..<16]]\<rparr>,
     lc_min_hw = 1, lc_max_hw = 17, lc_min_hd = 2\<rparr>, le_states = [], le_tokens = [], le_genwords = []\<rparr>"

definition demo_img0 :: otp_img where
  "demo_img0 = (case merge_parts demo_draw 0 0 demo_img_parts \<lparr>oi_map = demo_map, oi_lc_state = demo_lc\<rparr> of
     Inr img \<Rightarrow> img | Inl _ \<Rightarrow> \<lparr>oi_map = demo_map, oi_lc_state = demo_lc\<rparr>)"

definition demo_add :: yaml_dict where
  "demo_add = [(YStr ''seed'', YInt 0), (YStr ''partitions'', YList
     [YDict [(YStr ''name'', YStr ''VENDOR''), (YStr ''items'', YList [YDict [(YStr ''name'', YStr ''A''), (YStr ''value'', YStr ''0x99'')]])]])]"

definition demo_img :: otp_img where
  "demo_img = (case override_all demo_draw 1 [demo_add] demo_img0 of Inr img \<Rightarrow> img | Inl _ \<Rightarrow> demo_img0)"

lemma demo_img: "merge_parts demo_draw 0 0 demo_img_parts \<lparr>oi_map = demo_map, oi_lc_state = demo_lc\<rparr> = Inr demo_img0"
  by code_simp

lemma demo_override: "override_all demo_draw 1 [demo_add] demo_img0 = Inr demo_img"
  by code_simp

definition demo_parts :: "otp_part list" where
  "demo_parts = merged_parts demo_lc demo_draw demo_map (demo_img_parts # map config_parts [demo_add])"

lemma demo_ready: "list_all (part_ready (om_scrambling demo_map)) demo_parts"
  by code_simp

text \<open>An additional configuration needs a seed, although its value is not used.\<close>

lemma override_needs_seed: "override_data draw c [(YStr ''partitions'', YList [])] img = Inl KeyError"
  by (simp add: override_data_def)

theorem otp_image_exact_witness:
  "\<exists>ls data. streamout_hexfile demo_img = Inr (hex_header (lc_secded (le_config demo_lc)) 16 @ concat (map (\<lambda>l. l @ [CHR 0x0A]) ls)) \<and>
    length ls = 16 \<and> length data = 32 \<and>
    (\<forall>k<16. line_word (lc_secded (le_config demo_lc)) (ls ! k) = Some (le_val 8 (take 2 (drop (2 * k) data)))) \<and>
    image_holds (om_scrambling demo_map) demo_parts data \<and>
    map (\<lambda>p. (op_lock p, map it_value (op_items p))) demo_parts =
      [(Some (YBool False), [Some (YInt 0x99), None, None]), (Some (YBool True), [Some (YInt 0x1122334455667788), None])]"
proof -
  have g: "og_width (om_otp demo_map) = 2" "og_depth (om_otp demo_map) = 16" "og_size (om_otp demo_map) = 32" by code_simp+
  have s: "secded_ok (lc_secded (le_config demo_lc))" by (auto simp: secded_ok_def demo_lc_def)
  have w: "8 * og_width (om_otp demo_map) = sc_data_width (lc_secded (le_config demo_lc))" "og_width (om_otp demo_map) \<le> 8"
    by (simp_all add: g demo_lc_def)
  from otp_image_exact [OF demo_map demo_plain demo_img demo_override demo_ready [unfolded demo_parts_def] s w] obtain ls data where
    r: "streamout_hexfile demo_img = Inr (hex_header (lc_secded (le_config demo_lc)) 16 @ concat (map (\<lambda>l. l @ [CHR 0x0A]) ls))"
      "int (length ls) = 16" "int (length data) = 32"
      "\<forall>k<length ls. line_word (lc_secded (le_config demo_lc)) (ls ! k) = Some (le_val 8 (take 2 (drop (2 * k) data)))"
      "image_holds (om_scrambling demo_map) demo_parts data"
    unfolding g nat_numeral demo_parts_def by blast
  moreover have "map (\<lambda>p. (op_lock p, map it_value (op_items p))) demo_parts =
      [(Some (YBool False), [Some (YInt 0x99), None, None]), (Some (YBool True), [Some (YInt 0x1122334455667788), None])]"
    by code_simp
  moreover have "length ls = 16" "length data = 32" using r(2,3) by linarith+
  ultimately show ?thesis by auto
qed

end
