(* ===== verification/Spec2Isabelle.thy ===== *)
theory Spec2Isabelle
  imports Stepped Bn_Refinement Loop_Errors Rom_Scramble Present Reggen_Ip_Props Known_Mem Otp_Img
begin

text \<open>
  A verification library for the Python programs of OpenTitan that carry logic of their own: the
  instruction-set simulator of the big-number accelerator OTBN and the instruction database it is driven
  by, the memory tracker of its random instruction generator, the register tool, the generator of
  error-correcting codes, the ROM image tools, the OTP tools with their PRESENT cipher, and the generator of the
  life-cycle state encoding.  Paths below are relative to \<^verbatim>\<open>src\<close>; \<^verbatim>\<open>OTBN\<close> stands for \<^verbatim>\<open>hw/ip/otbn\<close>.

  \<^bold>\<open>Conventions.\<close>  Every definition translates the function or method of the same name.  A class is a record,
  an enumeration or a family of subclasses is a datatype, a dictionary is a map or an association
  list, Python's unbounded integers are \<^verbatim>\<open>int\<close> (with the masks of the source written out), strings are
  lists of characters.  A method that changes its object returns the updated record; an exception is a
  value \<^verbatim>\<open>Inl e\<close> of the type \<^verbatim>\<open>'a result\<close> (theory \<^verbatim>\<open>Prelude\<close>), so every \<^verbatim>\<open>raise\<close>, every failing \<^verbatim>\<open>assert\<close>, every failing
  lookup is a branch of the model, and a theorem that says that a function returns excludes all of
  them.  Recursion is structural or has a termination proof, with three exceptions, where a loop of the
  source may run for ever: the run loop of the simulator, the search of the code generator and the search for
  life-cycle words are
  \<^verbatim>\<open>partial_function (option)\<close>, with \<^verbatim>\<open>None\<close> for a loop that does not return, and the theorems about them say
  when they return.  No function has fuel.

  \<^bold>\<open>Shared theories.\<close>  \<^verbatim>\<open>Prelude\<close> has the exceptions, the result and state monads, Python's integer
  operations and the generic lemmas; \<^verbatim>\<open>Staging\<close> the commit and abort protocol of the simulator's components
  as the locales \<^verbatim>\<open>staged\<close> and \<^verbatim>\<open>staged_component\<close>; \<^verbatim>\<open>Digits\<close> little-endian digits; \<^verbatim>\<open>Py_Strings\<close>, \<^verbatim>\<open>Py_Numbers\<close> and \<^verbatim>\<open>Py_Format\<close> the string
  functions and the printed forms; \<^verbatim>\<open>Yaml\<close> parsed YAML or Hjson values with the checks of
  \<^verbatim>\<open>OTBN/util/shared/yaml_parse_helpers.py\<close>; \<^verbatim>\<open>Elf_Segment\<close> the segments that the ELF parser yields.

  \<^bold>\<open>The OTBN simulator\<close> (\<^verbatim>\<open>OTBN/dv/otbnsim\<close>).  The state is built from components that stage their writes until
  the end of a cycle: \<^verbatim>\<open>Reg\<close> (\<^verbatim>\<open>sim/reg.py\<close>), \<^verbatim>\<open>Gpr\<close> (\<^verbatim>\<open>sim/gpr.py\<close>, \<^verbatim>\<open>sim/err_bits.py\<close>), \<^verbatim>\<open>Flags\<close> (\<^verbatim>\<open>sim/flags.py\<close>), \<^verbatim>\<open>Wsr\<close> (\<^verbatim>\<open>sim/wsr.py\<close>,
  \<^verbatim>\<open>sim/csr.py\<close>), \<^verbatim>\<open>Loop_Stack\<close> (\<^verbatim>\<open>sim/loop.py\<close>), \<^verbatim>\<open>Dmem\<close> (\<^verbatim>\<open>sim/dmem.py\<close>), \<^verbatim>\<open>Ext_Regs\<close> (\<^verbatim>\<open>sim/ext_regs.py\<close>).  Each interprets the
  staging locale on its own operations; \<^verbatim>\<open>Dmem\<close> also has the locale \<^verbatim>\<open>memory\<close> of a store that loads what was
  stored last.  \<^verbatim>\<open>Otbn_State\<close> (\<^verbatim>\<open>sim/state.py\<close>) composes them.  \<^verbatim>\<open>Otbn_Isa\<close> and \<^verbatim>\<open>Otbn_Insn\<close> (\<^verbatim>\<open>sim/isa.py\<close>, \<^verbatim>\<open>sim/insn.py\<close>) have the
  instructions, \<^verbatim>\<open>Insn_Object\<close> the objects of a program, \<^verbatim>\<open>Otbn_Stats\<close> (\<^verbatim>\<open>sim/stats.py\<close>) the statistics, \<^verbatim>\<open>Otbn_Sim\<close> (\<^verbatim>\<open>sim/sim.py\<close>)
  the cycle and the run loop, \<^verbatim>\<open>Decode\<close> (\<^verbatim>\<open>sim/decode.py\<close>) the decoder, \<^verbatim>\<open>Elf\<close> (\<^verbatim>\<open>sim/elf.py\<close>, \<^verbatim>\<open>OTBN/util/shared/mem_layout.py\<close>)
  the loader, \<^verbatim>\<open>Stepped\<close> (\<^verbatim>\<open>stepped.py\<close>) the command interpreter of the testbench.  \<^verbatim>\<open>Insn_Safety\<close>, \<^verbatim>\<open>Sim_Safety\<close> and \<^verbatim>\<open>Sim_Run\<close> show that an
  instruction only stages its effects, that a cycle on a well-formed program raises nothing and keeps the
  invariant, that it stalls, commits everything or halts without effect, and what \<^verbatim>\<open>run\<close> returns.  \<^verbatim>\<open>Bn_Refinement\<close> has a
  specification on 256-bit words of the big-number instructions that compute (all but BN.LID, BN.SID, BN.MOVR, BN.WSRR and
  BN.WSRW) that a step of the simulator implements.  \<^verbatim>\<open>Loop_Errors\<close> shows in which cases an instruction reports the
  error bit of the loops.  Component theorems: loops run their body as often as requested, the call stack
  error is reported exactly when it should be, 32-bit and 256-bit loads see the last committed stores of both widths, the CSR windows
  on MOD are independent, the decoder is exact, the loader puts every byte at its address, and no
  session of admissible commands raises anything.

  \<^bold>\<open>The instruction database\<close> (\<^verbatim>\<open>OTBN/util/shared\<close>).  \<^verbatim>\<open>Bit_Ranges\<close>, \<^verbatim>\<open>Encoding_Scheme\<close>, \<^verbatim>\<open>Encoding\<close>, \<^verbatim>\<open>Operand\<close>, \<^verbatim>\<open>Insn_Syntax\<close> and \<^verbatim>\<open>Insn_Yaml\<close> model the
  parser and the checks of the files of the same names.  The theorems are the round trips between operand
  values, encoded values, words and text, the partition of the 32 bits by a resolved scheme, the exactness of
  the masks and of the range of an immediate, that no word belongs to two instructions of an accepted
  file, and that the operands of every word decode without an error.

  \<^bold>\<open>The memory tracker\<close> (\<^verbatim>\<open>OTBN/dv/rig/rig/known_mem.py\<close>).  \<^verbatim>\<open>Known_Mem\<close> has the list of ranges of bytes with known values and the
  choice of an address for a load or a store.  The list implements a set of addresses, and a chosen address meets
  every requirement of the call.

  \<^bold>\<open>The register tool\<close> (\<^verbatim>\<open>util/reggen\<close>).  \<^verbatim>\<open>Reggen_Lib\<close> and \<^verbatim>\<open>Reggen_Params\<close> have the schema checks and the parameters; \<^verbatim>\<open>Reggen_Field\<close> bit
  ranges, access modes and fields; \<^verbatim>\<open>Reggen_Register\<close> registers, multi-registers and windows; \<^verbatim>\<open>Reggen_Block\<close> signals, alerts and
  register blocks; \<^verbatim>\<open>Reggen_Ip\<close> bus interfaces and IP blocks.  \<^verbatim>\<open>Reggen_Layout\<close> has the invariant of a block and the locale
  \<^verbatim>\<open>block_handler\<close> of the handlers of its entries; \<^verbatim>\<open>Reggen_Ip_Props\<close> the theorems on accepted IP descriptions: entries do not
  overlap and are covered by the address width, registers are found by name at their offsets, bus interfaces round trip;
  that the written list of entries has the gaps between them when the bytes of a register are a power of two, and that writing it
  fails for a register width of 24.  \<^verbatim>\<open>Reggen_Register\<close> shows where the copies of a
  compacted field are and what the reset value of a register holds.

  \<^bold>\<open>Error-correcting codes\<close> (\<^verbatim>\<open>util/design/secded_gen.py\<close>).  \<^verbatim>\<open>Secded\<close> has the two constructions, the check of the configuration and the
  printed encoders and decoders, with the meaning of the printed statements; \<^verbatim>\<open>Secded_Code\<close> has the locale \<^verbatim>\<open>secded_code\<close> of a
  parity check matrix whose columns have the properties a code needs and proves correction and detection from
  it; \<^verbatim>\<open>Secded_Gen\<close> interprets it for the Hsiao and the Hamming construction, and shows that
  the printed C function, given the bytes of a number, returns the check bits of the hardware encoder.  The shuffle of Python's random module is
  an argument.

  \<^bold>\<open>ROM images\<close> (\<^verbatim>\<open>hw/ip/rom_ctrl/util\<close>).  \<^verbatim>\<open>Mem_File\<close> and \<^verbatim>\<open>Mem_Elf\<close> (\<^verbatim>\<open>mem.py\<close>) have the chunks of an image, the VMEM text format in both
  directions, ELF loading, flattening and check bits; \<^verbatim>\<open>Subst_Perm\<close>, \<^verbatim>\<open>Prince\<close> and \<^verbatim>\<open>Rom_Scramble\<close> (\<^verbatim>\<open>scramble_image.py\<close>) the ciphers, the scrambler
  and \<^verbatim>\<open>main\<close>.  \<^verbatim>\<open>Keyed_Perm\<close> is the contract of a keyed permutation, interpreted for the substitution and
  permutation network and, in \<^verbatim>\<open>Present\<close> (\<^verbatim>\<open>util/design/lib/Present.py\<close>), for the PRESENT cipher.  For files whose segments are complete
  the result of the ELF loader is characterised on every branch.  The end-to-end theorem says that
  for a file that loads and ends below the digest the hardware reads its contents back from the written file, unless a scrambled word has all bits set.

  \<^bold>\<open>Life-cycle states\<close> (\<^verbatim>\<open>util/design/lib/LcStEnc.py\<close>, \<^verbatim>\<open>common.py\<close>).  \<^verbatim>\<open>Lc_State\<close> has the validation of the configuration, the search for
  pairs of code words, its final check and the encoding of states.  For a matrix in which check bits depend on
  earlier bits only, the generation raises nothing and the words keep the weight and distance constraints; a transition to a
  later state only sets bits.

  \<^bold>\<open>OTP memory\<close> (\<^verbatim>\<open>util/design/lib/OtpMemMap.py\<close>, \<^verbatim>\<open>OtpMemImg.py\<close>).  \<^verbatim>\<open>Otp_Map\<close> has the validation of the memory map and the placement of
  partitions, items and digests; \<^verbatim>\<open>Otp_Img\<close> merges values into the map, takes the encoded life-cycle state from \<^verbatim>\<open>Lc_State\<close>,
  scrambles and locks partitions with the cipher of \<^verbatim>\<open>Present\<close>, through the contract \<^verbatim>\<open>keyed_perm\<close>, and writes the words with check
  bits.  For descriptions without offset keys the layout theorem says where everything is, and the end-to-end theorem
  that the written file holds the memory image of the values that the configurations give, the last one counting, and that
  decryption recovers every value.

  \<^bold>\<open>Arguments of the model.\<close>  Code outside of the repository is an argument of the definitions that use it: the
  segments that the ELF parser yields, the values that the YAML and Hjson parsers yield, the contents of
  files, the hash of the tokens, the random words, choices and the shuffle.  The register block of OTBN is an argument of the external
  registers.

  \<^bold>\<open>Not modelled.\<close>  The command-line front ends and verbose printing of the simulator, and the report that
  is formatted from its statistics; the assembler and linker wrappers, which rewrite text for the
  RISC-V binutils; the choice of instructions in the random instruction generator; in the register tool the generators of HTML, C headers and
  SystemVerilog, which fill templates, and the conversion of an IP block to a dictionary; the top-level and crossbar
  generators, which rewrite untyped nested dictionaries and fill templates; the documentation tables of the OTP map, the LFSR and
  sparse FSM generators; the simulation runner and the scripts for vendoring, documentation, FPGA boards and
  continuous integration, which drive processes, files and the network.
\<close>

end
